(* ===== verification/Voxigo_Prelude.thy ===== *)
theory Voxigo_Prelude
  imports Main "HOL-Library.Word"
begin

text \<open>
  Vocabulary shared by every component: the Go types the code uses (unsigned and signed machine
  words, durations, interface values compared by identity), the way a Go panic appears as a value,
  truncating integer division, and the list lemmas that several components need.

  A Go \<open>string\<close> or \<open>[]byte\<close> is a sequence of bytes. Text is a HOL \<^typ>\<open>string\<close> (a HOL character
  is one byte) and audio is a list of \<open>8 word\<close>.
\<close>

section \<open>Go types\<close>

type_synonym u8 = "8 word"
type_synonym u16 = "16 word"
type_synonym u32 = "32 word"
type_synonym u64 = "64 word"
type_synonym bytes = "u8 list"

text \<open>A \<open>time.Duration\<close> and a clock reading, in nanoseconds.\<close>

type_synonym duration = int

text \<open>
  The identity of a Go value the modelled code carries but never looks into (an \<open>any\<close>, a
  \<open>json.RawMessage\<close>, a callback).
\<close>

type_synonym opaque = nat

text \<open>A Go run-time panic the modelled code can raise, as the left value of a sum.\<close>

datatype go_panic = SliceBounds | IndexRange | NilFunc

type_synonym 'a go = "go_panic + 'a"

fun go_bind :: "'a go \<Rightarrow> ('a \<Rightarrow> 'b go) \<Rightarrow> 'b go" where
  "go_bind (Inl e) f = Inl e"
| "go_bind (Inr a) f = f a"

text \<open>\<open>s[i:]\<close>: slicing past the end panics.\<close>

definition slice_from :: "'a list \<Rightarrow> nat \<Rightarrow> 'a list go" where
  "slice_from s i = (if i \<le> length s then Inr (drop i s) else Inl SliceBounds)"

text \<open>Go's integer division truncates towards zero.\<close>

definition go_div :: "int \<Rightarrow> int \<Rightarrow> int" where
  "go_div a b = sgn a * sgn b * (\<bar>a\<bar> div \<bar>b\<bar>)"

section \<open>Collections of facts\<close>

named_theorems frame_cat "the category and the uninterruptible marker of each frame"
named_theorems queue_defs "the operations of the frame queues"

section \<open>Lemmas shared by the components\<close>

lemma go_bind_eq_Inr [simp]:
  "go_bind m f = Inr b \<longleftrightarrow> (\<exists>a. m = Inr a \<and> f a = Inr b)"
  by (cases m) auto

lemma slice_from_Inr [simp]:
  "slice_from s i = Inr t \<longleftrightarrow> i \<le> length s \<and> t = drop i s"
  by (auto simp: slice_from_def)

lemma slice_from_Inl [simp]:
  "slice_from s i = Inl e \<longleftrightarrow> length s < i \<and> e = SliceBounds"
  by (auto simp: slice_from_def)

lemma go_div_bounds:
  assumes "0 < b" and "- (c * b) \<le> a" and "a \<le> c * b"
  shows "- c \<le> go_div a b" and "go_div a b \<le> c"
proof -
  have "\<bar>a\<bar> \<le> c * b" using assms by linarith
  then have le: "\<bar>a\<bar> div b \<le> c"
    using assms(1) by (metis div_le_mono linorder_not_less nonzero_mult_div_cancel_right
        not_less_iff_gr_or_eq zdiv_mono1)
  have ge: "0 \<le> \<bar>a\<bar> div b" using assms(1) by (simp add: pos_imp_zdiv_nonneg_iff)
  have "go_div a b = \<bar>a\<bar> div b \<or> go_div a b = - (\<bar>a\<bar> div b) \<or> go_div a b = 0"
    using assms(1) by (auto simp: go_div_def sgn_if)
  with le ge show "- c \<le> go_div a b" and "go_div a b \<le> c" by linarith+
qed

end
