(* ===== verification/Service_Errors.thy ===== *)
theory Service_Errors
  imports Voxigo_Prelude
begin

text \<open>
  The shared vocabulary of failures, \<^verbatim>\<open>src/utils/errors/errors.go\<close>: why an operation failed, which
  failures retrying cannot clear, and how a status code or an error chain is classified.

  An error is modelled as its chain under \<open>errors.Unwrap\<close>. Each link carries what the code reads off
  it: the status it reports through \<open>HTTPStatusCode\<close> (if it implements \<open>StatusCoder\<close>), the status
  found on its own fields by reflection, and whether it is a \<open>net.Error\<close> or one of the connection
  errnos.
\<close>

datatype err_category =
    Unset | Unknown | Authentication | Authorization | InvalidRequest | RateLimit | Quota
  | Connectivity | Server | Application

definition IsPermanent :: "err_category \<Rightarrow> bool" where
  "IsPermanent c = (case c of
      Authentication \<Rightarrow> True | Authorization \<Rightarrow> True | InvalidRequest \<Rightarrow> True
    | _ \<Rightarrow> False)"

definition statusCategories :: "(int \<times> err_category) list" where
  "statusCategories =
    [(400, InvalidRequest), (401, Authentication), (402, Quota), (403, Authorization),
     (404, InvalidRequest), (422, InvalidRequest), (429, RateLimit)]"

definition ClassifyHTTPStatusCode :: "int \<Rightarrow> err_category" where
  "ClassifyHTTPStatusCode status =
    (case map_of statusCategories status of
       Some c \<Rightarrow> c
     | None \<Rightarrow> if 500 \<le> status \<and> status < 600 then Server else Unknown)"

text \<open>One link of an error chain. A response field is only consulted when the error carries one.\<close>

record err_link =
  statusCoder :: "int option"
  responseField :: "int option list"
  ownField :: "int option list"
  netError :: bool
  connErrno :: bool

type_synonym go_error = "err_link list"

text \<open>
  \<open>statusField\<close>: the first of the fields \<open>StatusCode\<close> and \<open>Status\<close> that holds a non-zero number.
  A field that is missing or does not hold a number is \<^const>\<open>None\<close>.
\<close>

fun statusField :: "int option list \<Rightarrow> int option" where
  "statusField [] = None"
| "statusField (None # fs) = statusField fs"
| "statusField (Some s # fs) = (if s \<noteq> 0 then Some s else statusField fs)"

definition statusFromFields :: "err_link \<Rightarrow> int option" where
  "statusFromFields e =
    (case statusField (responseField e) of
       Some s \<Rightarrow> Some s
     | None \<Rightarrow> statusField (ownField e))"

text \<open>\<open>errors.As\<close> stops at the first link that is a \<open>StatusCoder\<close>.\<close>

fun asStatusCoder :: "go_error \<Rightarrow> int option" where
  "asStatusCoder [] = None"
| "asStatusCoder (e # es) =
    (case statusCoder e of Some s \<Rightarrow> Some s | None \<Rightarrow> asStatusCoder es)"

fun firstStatusField :: "go_error \<Rightarrow> int option" where
  "firstStatusField [] = None"
| "firstStatusField (e # es) =
    (case statusFromFields e of Some s \<Rightarrow> Some s | None \<Rightarrow> firstStatusField es)"

definition ExtractHTTPStatusCode :: "go_error \<Rightarrow> int option" where
  "ExtractHTTPStatusCode err =
    (case asStatusCoder err of
       Some s \<Rightarrow> if s \<noteq> 0 then Some s else firstStatusField err
     | None \<Rightarrow> firstStatusField err)"

definition isConnectivity :: "go_error \<Rightarrow> bool" where
  "isConnectivity err = (list_ex netError err \<or> list_ex connErrno err)"

text \<open>\<open>ClassifyError\<close>; a nil error is the empty chain.\<close>

definition ClassifyError :: "go_error \<Rightarrow> err_category" where
  "ClassifyError err =
    (if err = [] then Unknown
     else case ExtractHTTPStatusCode err of
       Some s \<Rightarrow> ClassifyHTTPStatusCode s
     | None \<Rightarrow> if isConnectivity err then Connectivity else Unknown)"

section \<open>Properties\<close>

lemma statusField_nonzero: "statusField fs = Some s \<Longrightarrow> s \<noteq> 0"
  by (induction fs rule: statusField.induct) (auto split: if_splits)

lemma firstStatusField_nonzero: "firstStatusField es = Some s \<Longrightarrow> s \<noteq> 0"
  by (induction es)
    (auto simp: statusFromFields_def split: option.splits dest: statusField_nonzero)

lemma ExtractHTTPStatusCode_nonzero: "ExtractHTTPStatusCode es = Some s \<Longrightarrow> s \<noteq> 0"
  by (auto simp: ExtractHTTPStatusCode_def split: option.splits if_splits
      dest: firstStatusField_nonzero)

lemma ClassifyHTTPStatusCode_cases:
  "ClassifyHTTPStatusCode s =
    (if s \<in> {400, 404, 422} then InvalidRequest else if s = 401 then Authentication
     else if s = 402 then Quota else if s = 403 then Authorization
     else if s = 429 then RateLimit else if 500 \<le> s \<and> s < 600 then Server else Unknown)"
  by (auto simp: ClassifyHTTPStatusCode_def statusCategories_def)

lemma ClassifyHTTPStatusCode_settled [simp]: "ClassifyHTTPStatusCode s \<noteq> Unset"
  by (simp add: ClassifyHTTPStatusCode_cases)

lemma ClassifyHTTPStatusCode_not_connectivity [simp]: "ClassifyHTTPStatusCode s \<noteq> Connectivity"
  by (simp add: ClassifyHTTPStatusCode_cases)

lemma ClassifyError_settled [simp]: "ClassifyError err \<noteq> Unset"
  by (simp add: ClassifyError_def split: option.split)

text \<open>
  The refusals the provider will repeat for ever are exactly the five status codes 400, 401, 403,
  404 and 422: a quota or rate-limit refusal, a server failure and a failure to connect are all
  worth retrying.
\<close>

lemma classify_error_permanent:
  "IsPermanent (ClassifyError err) \<longleftrightarrow>
     ExtractHTTPStatusCode err \<in> Some ` {400, 401, 403, 404, 422}"
proof (cases "err = []")
  case True
  then show ?thesis
    by (simp add: ClassifyError_def IsPermanent_def ExtractHTTPStatusCode_def)
next
  case False
  then show ?thesis
    by (cases "ExtractHTTPStatusCode err")
      (auto simp: ClassifyError_def IsPermanent_def ClassifyHTTPStatusCode_cases)
qed

end
