(* ===== verification/Frames.thy ===== *)
theory Frames
  imports Service_Errors
begin

text \<open>
  Frames, \<^verbatim>\<open>src/frames/\<close>: the unit of everything that moves through a pipeline. A frame is the
  \<open>BaseFrame\<close> every concrete type embeds, extended by its body. The bodies are grouped by the source
  file that declares them; each constructor is one concrete Go type, with the fields the modelled
  components read. The category of a frame is the base struct its type embeds, and it is
  uninterruptible when its type embeds \<open>UninterruptibleMixin\<close>.

  A \<open>float64\<close> number of seconds that the code only ever turns into a \<open>time.Duration\<close> is kept as that
  duration, in nanoseconds.
\<close>

section \<open>Categories\<close>

datatype category = SystemFrame | DataFrame | ControlFrame

section \<open>Payload types\<close>

text \<open>A \<open>json.RawMessage\<close> is the bytes of the JSON it holds.\<close>

record ToolCall =
  callID :: string
  callName :: string
  callArgs :: string

record ToolResult =
  resultID :: string
  resultName :: string
  resultContent :: string

text \<open>A role is a Go string with four named values; a message in a provider's own format has none.\<close>

type_synonym Role = string

abbreviation "RoleSystem \<equiv> ''system''"
abbreviation "RoleUser \<equiv> ''user''"
abbreviation "RoleAssistant \<equiv> ''assistant''"
abbreviation "RoleDeveloper \<equiv> ''developer''"

text \<open>What a provider's adapter put into \<open>Native\<close>, or the thought the assistant aggregator writes there.\<close>

datatype native = NativeNil | NativeValue opaque | NativeThought string opaque

record Message =
  mRole :: Role
  mText :: string
  mToolCalls :: "ToolCall list"
  mToolResults :: "ToolResult list"
  mLLM :: string
  mNative :: native

text \<open>A tool, with its schema, handler, cleanup and options opaque to everything modelled.\<close>

record Tool =
  toolName :: string
  toolDescription :: string
  toolRest :: opaque

record FunctionCallResultProperties =
  propRunLLM :: "bool option"
  propOnContextUpdated :: "opaque option"
  propIsFinal :: "bool option"

text \<open>The fields of a \<open>TextFrame\<close>, which the other text frames embed.\<close>

record text_fields =
  fText :: string
  fSkipTTS :: "bool option"
  fInterFrameSpaces :: bool
  fAppendToContext :: bool

text \<open>The fields of a \<open>ServiceUpdateSettingsFrame\<close>; a service is named by the name it goes by.\<close>

record settings_update =
  suDelta :: opaque
  suService :: "string option"
  suReachInactiveServices :: bool

datatype KeypadEntry =
    KeypadZero | KeypadOne | KeypadTwo | KeypadThree | KeypadFour | KeypadFive | KeypadSix
  | KeypadSeven | KeypadEight | KeypadNine | KeypadStar | KeypadPound
  | KeypadA | KeypadB | KeypadC | KeypadD

record AudioRawData =
  Audio :: bytes
  SampleRate :: int
  NumChannels :: int

definition NumFrames :: "AudioRawData \<Rightarrow> int" where
  "NumFrames a =
    (if NumChannels a \<le> 0 then 0 else int (length (Audio a)) div (NumChannels a * 2))"

section \<open>Concrete frame types, by source file\<close>

datatype system_go =
    StartFrame int int
  | CancelFrame string
  | ErrorFrame string bool "string option" "go_error option" err_category
  | FatalErrorFrame string
  | InterruptionFrame
  | UserStartedSpeakingFrame
  | UserStoppedSpeakingFrame
  | BotStartedSpeakingFrame
  | BotStoppedSpeakingFrame
  | FrameProcessorPauseUrgentFrame "string option"
  | FrameProcessorResumeUrgentFrame "string option"
  | ProposedUserStartedSpeakingFrame
  | STTMuteFrame bool
  | ClientConnectedFrame
  | BotConnectedFrame

datatype control_go =
    EndFrame string
  | StopFrame
  | PipelineFlushFrame bool string
  | ProposedUserStoppedSpeakingFrame
  | LLMFullResponseStartFrame "bool option"
  | LLMFullResponseEndFrame "bool option"
  | LLMAssistantPushAggregationFrame
  | TTSStartedFrame string bool
  | TTSStoppedFrame string
  | FrameProcessorPauseFrame "string option"
  | FrameProcessorResumeFrame "string option"
  | HeartbeatFrame duration
  | LLMThoughtStartFrame bool string
  | LLMThoughtTextFrame string bool
  | LLMThoughtEndFrame opaque

datatype text_go =
    TextFrame text_fields
  | LLMTextFrame text_fields
  | TTSTextFrame text_fields string string
  | TTSSpeakFrame string bool
  | TranscriptionFrame text_fields string bool
  | InterimTranscriptionFrame string
  | AggregatedTextFrame text_fields string string
  | AggregatedTextProgressFrame string
  | TranslationFrame text_fields
  | InputTextRawFrame string

datatype audio_go =
    InputAudioRawFrame AudioRawData
  | OutputAudioRawFrame AudioRawData
  | TTSAudioRawFrame AudioRawData string
  | SpeechOutputAudioRawFrame AudioRawData
  | UserAudioRawFrame AudioRawData string

datatype turns_go =
    VADUserStartedSpeakingFrame duration duration
  | VADUserStoppedSpeakingFrame duration "duration option"
  | UserSpeakingFrame
  | BotSpeakingFrame
  | UserMuteStartedFrame
  | UserMuteStoppedFrame
  | UserIdleTimeoutUpdateFrame duration
  | UserTurnInferenceCompletedFrame
  | SpeechControlParamsFrame
  | VADParamsUpdateFrame opaque
  | LLMMarkerFrame string bool
  | LLMConfigureOutputFrame bool
  | LLMMessagesAppendFrame "Message list" bool

datatype function_go =
    FunctionCallsStartedFrame "ToolCall list"
  | FunctionCallInProgressFrame string string string bool string
  | FunctionCallResultFrame string string string "bool option" "FunctionCallResultProperties option"
  | FunctionCallCancelFrame string string bool

datatype worker_go =
    EndWorkerFrame string
  | StopWorkerFrame
  | CancelWorkerFrame string
  | InterruptionWorkerFrame

datatype llm_context_go =
    LLMContextFrame opaque
  | LLMRunFrame
  | LLMSetToolsFrame "Tool list"
  | LLMSetToolChoiceFrame string
  | LLMMessagesUpdateFrame "Message list" bool
  | LLMMessagesTransformFrame "opaque option" bool
  | LLMEnablePromptCachingFrame bool
  | LLMContextAssistantTurnFrame string string
  | LLMContextAssistantTimestampFrame string

datatype settings_go =
    LLMUpdateSettingsFrame settings_update
  | TTSUpdateSettingsFrame settings_update
  | STTUpdateSettingsFrame settings_update

datatype metadata_go =
    ServiceMetadataFrame string
  | LLMServiceMetadataFrame string bool
  | STTMetadataFrame string duration

datatype dtmf_go =
    InputDTMFFrame KeypadEntry
  | OutputDTMFFrame "KeypadEntry list"
  | OutputDTMFUrgentFrame "KeypadEntry list"

datatype transport_go =
    InputTransportMessageFrame bytes
  | OutputTransportReadyFrame
  | InputTransportStartAudioStreamingFrame
  | OutputTransportMessageFrame opaque
  | OutputTransportMessageUrgentFrame opaque

datatype summarization_go =
    LLMSummarizeContextFrame "opaque option"
  | LLMContextSummaryRequestFrame string
  | LLMContextSummaryResultFrame string string int string

datatype recording_go = AudioBufferStartRecordingFrame | AudioBufferStopRecordingFrame

datatype switcher_go =
    ManuallySwitchServiceFrame "string option"
  | ServiceSwitcherRequestMetadataFrame "string option"

datatype mixer_filter_go =
    MixerUpdateSettingsFrame opaque
  | MixerEnableFrame bool
  | FilterUpdateSettingsFrame opaque
  | FilterEnableFrame bool

datatype frame_body =
    Sys system_go | Ctl control_go | Txt text_go | Aud audio_go | Trn turns_go | Fun function_go
  | Wrk worker_go | Llm llm_context_go | Set settings_go | Met metadata_go | Dtm dtmf_go
  | Tra transport_go | Sum summarization_go | Rec recording_go | Swi switcher_go
  | Mix mixer_filter_go | Mtr opaque

text \<open>The constructors of the text frames, with their default fields.\<close>

definition NewTextFrame :: "string \<Rightarrow> text_go" where
  "NewTextFrame t =
    TextFrame \<lparr>fText = t, fSkipTTS = None, fInterFrameSpaces = False, fAppendToContext = True\<rparr>"

definition NewLLMTextFrame :: "string \<Rightarrow> text_go" where
  "NewLLMTextFrame t =
    LLMTextFrame \<lparr>fText = t, fSkipTTS = None, fInterFrameSpaces = True, fAppendToContext = True\<rparr>"

definition NewTTSTextFrame :: "string \<Rightarrow> text_go" where
  "NewTTSTextFrame t =
    TTSTextFrame \<lparr>fText = t, fSkipTTS = None, fInterFrameSpaces = False, fAppendToContext = True\<rparr> [] []"

definition NewTranscriptionFrame :: "string \<Rightarrow> string \<Rightarrow> bool \<Rightarrow> text_go" where
  "NewTranscriptionFrame t userID finalized =
    TranscriptionFrame \<lparr>fText = t, fSkipTTS = None, fInterFrameSpaces = False, fAppendToContext = True\<rparr>
      userID finalized"

definition NewAggregatedTextFrame :: "string \<Rightarrow> text_go" where
  "NewAggregatedTextFrame t =
    AggregatedTextFrame \<lparr>fText = t, fSkipTTS = None, fInterFrameSpaces = False, fAppendToContext = True\<rparr>
      [] []"

text \<open>\<open>TTSTextFrame.Original\<close> and the raw text of an aggregated frame: the written form where there is one.\<close>

definition Original :: "text_fields \<Rightarrow> string \<Rightarrow> string" where
  "Original t raw = (if raw \<noteq> [] then raw else fText t)"

text \<open>\<open>FunctionCallResultProperties.Final\<close>.\<close>

definition Final :: "FunctionCallResultProperties option \<Rightarrow> bool" where
  "Final p = (case p of None \<Rightarrow> True | Some q \<Rightarrow> propIsFinal q \<noteq> Some False)"

section \<open>The base every frame embeds\<close>

record base_frame =
  frameID :: u64
  typeName :: string
  pts :: int
  hasPTS :: bool
  broadcastSiblingID :: "u64 option"
  metadata :: "(string \<times> opaque) list option"
  transportSource :: string
  transportDest :: string

record frame = base_frame +
  body :: frame_body

section \<open>Category and mixin of each body\<close>

fun control_category :: "control_go \<Rightarrow> category" where
  "control_category (LLMThoughtTextFrame t b) = DataFrame"
| "control_category _ = ControlFrame"

fun text_category :: "text_go \<Rightarrow> category" where
  "text_category (InputTextRawFrame t) = SystemFrame"
| "text_category _ = DataFrame"

fun audio_category :: "audio_go \<Rightarrow> category" where
  "audio_category (InputAudioRawFrame a) = SystemFrame"
| "audio_category (UserAudioRawFrame a u) = SystemFrame"
| "audio_category _ = DataFrame"

fun turns_category :: "turns_go \<Rightarrow> category" where
  "turns_category UserTurnInferenceCompletedFrame = ControlFrame"
| "turns_category (VADParamsUpdateFrame p) = ControlFrame"
| "turns_category (LLMMarkerFrame m b) = DataFrame"
| "turns_category (LLMConfigureOutputFrame b) = DataFrame"
| "turns_category (LLMMessagesAppendFrame n b) = DataFrame"
| "turns_category _ = SystemFrame"

fun function_category :: "function_go \<Rightarrow> category" where
  "function_category (FunctionCallsStartedFrame cs) = SystemFrame"
| "function_category (FunctionCallInProgressFrame i n a c g) = ControlFrame"
| "function_category (FunctionCallResultFrame i n r l p) = DataFrame"
| "function_category (FunctionCallCancelFrame i n r) = SystemFrame"

fun worker_category :: "worker_go \<Rightarrow> category" where
  "worker_category (EndWorkerFrame r) = ControlFrame"
| "worker_category StopWorkerFrame = ControlFrame"
| "worker_category (CancelWorkerFrame r) = SystemFrame"
| "worker_category InterruptionWorkerFrame = SystemFrame"

fun dtmf_category :: "dtmf_go \<Rightarrow> category" where
  "dtmf_category (OutputDTMFFrame ks) = ControlFrame"
| "dtmf_category _ = SystemFrame"

fun transport_category :: "transport_go \<Rightarrow> category" where
  "transport_category (InputTransportMessageFrame m) = SystemFrame"
| "transport_category (OutputTransportMessageFrame m) = DataFrame"
| "transport_category (OutputTransportMessageUrgentFrame m) = SystemFrame"
| "transport_category _ = ControlFrame"

fun body_category :: "frame_body \<Rightarrow> category" where
  "body_category (Sys b) = SystemFrame"
| "body_category (Ctl b) = control_category b"
| "body_category (Txt b) = text_category b"
| "body_category (Aud b) = audio_category b"
| "body_category (Trn b) = turns_category b"
| "body_category (Fun b) = function_category b"
| "body_category (Wrk b) = worker_category b"
| "body_category (Llm b) = DataFrame"
| "body_category (Set b) = ControlFrame"
| "body_category (Met b) = SystemFrame"
| "body_category (Dtm b) = dtmf_category b"
| "body_category (Tra b) = transport_category b"
| "body_category (Sum b) = ControlFrame"
| "body_category (Rec b) = ControlFrame"
| "body_category (Swi b) = ControlFrame"
| "body_category (Mix b) = ControlFrame"
| "body_category (Mtr b) = SystemFrame"

fun body_uninterruptible :: "frame_body \<Rightarrow> bool" where
  "body_uninterruptible (Ctl (EndFrame r)) = True"
| "body_uninterruptible (Ctl StopFrame) = True"
| "body_uninterruptible (Ctl (PipelineFlushFrame r og)) = True"
| "body_uninterruptible (Fun (FunctionCallInProgressFrame i n a c g)) = True"
| "body_uninterruptible (Fun (FunctionCallResultFrame i n r l p)) = True"
| "body_uninterruptible (Wrk (EndWorkerFrame r)) = True"
| "body_uninterruptible (Wrk StopWorkerFrame) = True"
| "body_uninterruptible (Set u) = True"
| "body_uninterruptible (Sum (LLMContextSummaryResultFrame i s n e)) = True"
| "body_uninterruptible (Rec r) = True"
| "body_uninterruptible _ = False"

definition frame_category :: "frame \<Rightarrow> category" where
  [frame_cat]: "frame_category f = body_category (body f)"

definition isSystemFrame :: "frame \<Rightarrow> bool" where
  [frame_cat]: "isSystemFrame f \<longleftrightarrow> frame_category f = SystemFrame"

definition isUninterruptible :: "frame \<Rightarrow> bool" where
  [frame_cat]: "isUninterruptible f \<longleftrightarrow> body_uninterruptible (body f)"

definition isStartFrame :: "frame \<Rightarrow> bool" where
  [frame_cat]: "isStartFrame f \<longleftrightarrow> (case body f of Sys (StartFrame i ou) \<Rightarrow> True | _ \<Rightarrow> False)"

section \<open>Operations on the base\<close>

text \<open>
  \<open>idCounter.Add(1)\<close>: the counter is process wide, so creating a frame takes the counter and returns
  the next one.
\<close>

definition nextID :: "u64 \<Rightarrow> u64 \<times> u64" where
  "nextID c = (c + 1, c + 1)"

definition NewBaseFrame :: "string \<Rightarrow> frame_body \<Rightarrow> u64 \<Rightarrow> frame \<times> u64" where
  "NewBaseFrame tn b c =
    (let (i, c') = nextID c in
     (\<lparr>frameID = i, typeName = tn, pts = 0, hasPTS = False, broadcastSiblingID = None,
       metadata = None, transportSource = [], transportDest = [], body = b\<rparr>, c'))"

definition PTS :: "frame \<Rightarrow> int \<times> bool" where
  "PTS f = (pts f, hasPTS f)"

definition SetPTS :: "frame \<Rightarrow> int \<Rightarrow> frame" where
  "SetPTS f p = f\<lparr>pts := p, hasPTS := True\<rparr>"

definition BroadcastSiblingID :: "frame \<Rightarrow> u64 \<times> bool" where
  "BroadcastSiblingID f = (case broadcastSiblingID f of None \<Rightarrow> (0, False) | Some i \<Rightarrow> (i, True))"

definition SetBroadcastSiblingID :: "frame \<Rightarrow> u64 \<Rightarrow> frame" where
  "SetBroadcastSiblingID f i = f\<lparr>broadcastSiblingID := Some i\<rparr>"

definition Metadata :: "frame \<Rightarrow> (string \<times> opaque) list \<times> frame" where
  "Metadata f = (case metadata f of
      None \<Rightarrow> ([], f\<lparr>metadata := Some []\<rparr>)
    | Some m \<Rightarrow> (m, f))"

text \<open>\<open>strconv.FormatUint(id, 10)\<close> and the label \<open>Name\<close> builds from it.\<close>

fun FormatUint :: "nat \<Rightarrow> string" where
  "FormatUint n =
    (let d = [char_of (48 + n mod 10)] in if n < 10 then d else FormatUint (n div 10) @ d)"

declare FormatUint.simps [simp del]

definition Name :: "frame \<Rightarrow> string" where
  "Name f = typeName f @ ''#'' @ FormatUint (unat (frameID f))"

section \<open>Properties\<close>

lemma uninterruptible_not_system:
  "isUninterruptible f \<Longrightarrow> \<not> isSystemFrame f"
  unfolding isUninterruptible_def isSystemFrame_def frame_category_def
  by (cases "body f" rule: body_uninterruptible.cases) auto

lemma startFrame_is_system [simp]: "isStartFrame f \<Longrightarrow> isSystemFrame f"
  by (auto simp: frame_cat split: frame_body.splits system_go.splits)

lemma frameID_NewBaseFrame [simp]: "frameID (fst (NewBaseFrame tn b c)) = c + 1"
  by (simp add: NewBaseFrame_def nextID_def)

lemma counter_NewBaseFrame [simp]: "snd (NewBaseFrame tn b c) = c + 1"
  by (simp add: NewBaseFrame_def nextID_def)

text \<open>Creating a run of frames.\<close>

fun new_frames :: "(string \<times> frame_body) list \<Rightarrow> u64 \<Rightarrow> frame list" where
  "new_frames [] c = []"
| "new_frames ((tn, b) # ts) c = (let (f, c') = NewBaseFrame tn b c in f # new_frames ts c')"

lemma map_frameID_new_frames:
  "map frameID (new_frames ts c) = map (\<lambda>i. c + 1 + of_nat i) [0..<length ts]"
proof (induction ts arbitrary: c)
  case Nil
  then show ?case by simp
next
  case (Cons t ts)
  obtain tn b where "t = (tn, b)" by fastforce
  then have "map frameID (new_frames (t # ts) c) = (c + 1) # map frameID (new_frames ts (c + 1))"
    by (simp add: case_prod_beta Let_def)
  also have "\<dots> = (c + 1) # map (\<lambda>i. c + 1 + of_nat (Suc i)) [0..<length ts]"
    by (simp add: Cons.IH algebra_simps)
  also have "\<dots> = map (\<lambda>i. c + 1 + of_nat i) [0..<length (t # ts)]"
    by (simp add: upt_conv_Cons map_Suc_upt [symmetric] comp_def del: upt_Suc)
  finally show ?case .
qed

lemma distinct_frameID_new_frames:
  assumes "length ts \<le> 2 ^ 64"
  shows "distinct (map frameID (new_frames ts c))"
proof -
  have "inj_on (\<lambda>i. c + 1 + (of_nat i :: u64)) {0..<length ts}"
  proof (rule inj_onI)
    fix i j assume ij: "i \<in> {0..<length ts}" "j \<in> {0..<length ts}"
      and "c + 1 + (of_nat i :: u64) = c + 1 + of_nat j"
    then have "(of_nat i :: u64) = of_nat j" by simp
    then have "i mod 2 ^ 64 = j mod 2 ^ 64"
      by (simp add: word_unat_eq_iff unat_of_nat)
    with ij assms show "i = j" by simp
  qed
  then show ?thesis by (simp add: map_frameID_new_frames distinct_map)
qed

lemma FormatUint_nonempty [simp]: "FormatUint n \<noteq> []"
  by (subst FormatUint.simps) (simp add: Let_def)

lemma Nil_not_FormatUint [simp]: "[] \<noteq> FormatUint n"
  using FormatUint_nonempty [of n] by metis

lemma FormatUint_inj: "FormatUint m = FormatUint n \<Longrightarrow> m = n"
proof (induction m arbitrary: n rule: FormatUint.induct)
  case (1 m)
  have digit: "m mod 10 = n mod 10"
    if "(char_of (48 + m mod 10) :: char) = char_of (48 + n mod 10)"
  proof -
    from that have "(of_char (char_of (48 + m mod 10) :: char) :: nat) =
        of_char (char_of (48 + n mod 10) :: char)"
      by (rule arg_cong)
    moreover have "48 + m mod 10 < 256" and "48 + n mod 10 < 256" by simp_all
    ultimately show ?thesis by (simp add: of_char_of)
  qed
  from "1.prems" have eq: "(if m < 10 then [char_of (48 + m mod 10)]
      else FormatUint (m div 10) @ [char_of (48 + m mod 10)]) =
    (if n < 10 then [char_of (48 + n mod 10)]
      else FormatUint (n div 10) @ [char_of (48 + n mod 10)])"
    by (simp add: FormatUint.simps [of m] FormatUint.simps [of n] Let_def)
  show ?case
  proof (cases "m < 10")
    case True
    with eq have "n < 10" by (auto split: if_splits)
    with True eq digit show ?thesis by simp
  next
    case False
    with eq have n: "\<not> n < 10" by (auto split: if_splits)
    with False eq have "FormatUint (m div 10) = FormatUint (n div 10)" and d: "m mod 10 = n mod 10"
      using digit by auto
    with False have "m div 10 = n div 10" using "1.IH" by (simp add: Let_def)
    with d show ?thesis by (metis div_mult_mod_eq)
  qed
qed

text \<open>Two frames of the same type have the same label only when they are the same frame.\<close>

lemma Name_inj:
  assumes "Name f = Name g" and "typeName f = typeName g"
  shows "frameID f = frameID g"
proof -
  from assms have "FormatUint (unat (frameID f)) = FormatUint (unat (frameID g))"
    by (simp add: Name_def)
  then have "unat (frameID f) = unat (frameID g)" by (rule FormatUint_inj)
  then show ?thesis by (simp add: word_unat_eq_iff)
qed

section \<open>Frames are told apart\<close>

text \<open>
  Every frame created is told apart from every other one, by identifier and by label: of any run
  of up to \<open>2 ^ 64\<close> frames, whatever their types and wherever the process-wide counter stands (it may
  wrap round), no two share an identifier, and no two of the same type share a name.
\<close>

lemma frames_told_apart:
  assumes "length ts \<le> 2 ^ 64" and "i < length ts" and "j < length ts" and "i \<noteq> j"
  shows "frameID (new_frames ts c ! i) \<noteq> frameID (new_frames ts c ! j) \<and>
    (typeName (new_frames ts c ! i) = typeName (new_frames ts c ! j) \<longrightarrow>
     Name (new_frames ts c ! i) \<noteq> Name (new_frames ts c ! j))"
proof -
  have len: "length (new_frames ts c) = length ts"
    using arg_cong [OF map_frameID_new_frames [of ts c], of length] by simp
  with distinct_frameID_new_frames [OF assms(1), of c] assms(2-4)
  have "frameID (new_frames ts c ! i) \<noteq> frameID (new_frames ts c ! j)"
    by (auto simp: distinct_conv_nth)
  with Name_inj show ?thesis by blast
qed

lemma frames_told_apart_witness:
  "Name (new_frames [(''TextFrame'', Txt (NewTextFrame ''a'')), (''TextFrame'', Txt (NewTextFrame ''a''))] (- 1) ! 0) \<noteq>
   Name (new_frames [(''TextFrame'', Txt (NewTextFrame ''a'')), (''TextFrame'', Txt (NewTextFrame ''a''))] (- 1) ! 1)"
proof -
  let ?ts = "[(''TextFrame'', Txt (NewTextFrame ''a'')), (''TextFrame'', Txt (NewTextFrame ''a''))]"
  have "typeName (new_frames ?ts (- 1) ! 0) = typeName (new_frames ?ts (- 1) ! 1)" by code_simp
  with frames_told_apart [of ?ts 0 1 "- 1"] show ?thesis by simp
qed

end
