(* ===== verification/Queue_Interface.thy ===== *)
theory Queue_Interface
  imports Voxigo_Prelude "HOL-Library.Multiset"
begin

text \<open>
  What the pipeline relies on from a frame queue, stated once. The processor queue
  (\<^verbatim>\<open>src/processor/queue.go\<close>) and the sender queue of an output transport
  (\<^verbatim>\<open>src/transport/framequeue.go\<close>) provide it.

  \<open>interruptible_queue\<close> is the contract of an interruption: \<open>reset\<close> drops what may be dropped and
  keeps the rest in order. \<open>notify_queue\<close> is the contract of the wake-up idiom both queues use: a
  channel with room for one signal, sent to after every push and received from by a reader that
  found the queue empty.
\<close>

section \<open>Runs of queue operations\<close>

datatype 'a queue_op = PushOp 'a | TakeOp | ResetOp

text \<open>A run of operations, with the items taken so far in the order they were taken.\<close>

fun queue_run ::
  "('a \<Rightarrow> 'q \<Rightarrow> 'q) \<Rightarrow> ('q \<Rightarrow> ('a \<times> 'q) option) \<Rightarrow> ('q \<Rightarrow> 'q) \<Rightarrow> 'a queue_op list \<Rightarrow>
   'q \<times> 'a list \<Rightarrow> 'q \<times> 'a list" where
  "queue_run pu ta re [] s = s"
| "queue_run pu ta re (PushOp x # ops) (q, out) = queue_run pu ta re ops (pu x q, out)"
| "queue_run pu ta re (TakeOp # ops) (q, out) =
    (case ta q of
       None \<Rightarrow> queue_run pu ta re ops (q, out)
     | Some (x, q') \<Rightarrow> queue_run pu ta re ops (q', out @ [x]))"
| "queue_run pu ta re (ResetOp # ops) (q, out) = queue_run pu ta re ops (re q, out)"

fun pushed :: "'a queue_op list \<Rightarrow> 'a list" where
  "pushed [] = []"
| "pushed (PushOp x # ops) = x # pushed ops"
| "pushed (_ # ops) = pushed ops"

section \<open>Interruptions\<close>

locale interruptible_queue =
  fixes pu :: "'a \<Rightarrow> 'q \<Rightarrow> 'q"
    and ta :: "'q \<Rightarrow> ('a \<times> 'q) option"
    and re :: "'q \<Rightarrow> 'q"
    and items :: "'q \<Rightarrow> 'a list"
    and keep :: "'a \<Rightarrow> bool"
    and invar :: "'q \<Rightarrow> bool"
  assumes push_items: "invar q \<Longrightarrow> \<exists>ys zs. items q = ys @ zs \<and> items (pu x q) = ys @ x # zs"
    and take_None: "invar q \<Longrightarrow> ta q = None \<longleftrightarrow> items q = []"
    and take_Some: "invar q \<Longrightarrow> ta q = Some (x, q') \<Longrightarrow> items q = x # items q'"
    and reset_items: "invar q \<Longrightarrow> items (re q) = filter keep (items q)"
    and invar_push: "invar q \<Longrightarrow> invar (pu x q)"
    and invar_take: "invar q \<Longrightarrow> ta q = Some (x, q') \<Longrightarrow> invar q'"
    and invar_reset: "invar q \<Longrightarrow> invar (re q)"
begin

lemma mset_push: "invar q \<Longrightarrow> mset (items (pu x q)) = add_mset x (mset (items q))"
  using push_items [of q x] by auto

lemma invar_run: "invar q \<Longrightarrow> invar (fst (queue_run pu ta re ops (q, out)))"
proof (induction ops arbitrary: q out)
  case Nil
  then show ?case by simp
next
  case (Cons p ops)
  then show ?case
    by (cases p) (auto simp: invar_push invar_reset split: option.split intro: invar_take)
qed

text \<open>An item an interruption keeps is neither lost nor duplicated, whatever else happens.\<close>

lemma kept_conserved:
  assumes "invar q" and "keep x" and "queue_run pu ta re ops (q, out) = (q', out')"
  shows "count (mset out') x + count (mset (items q')) x =
         count (mset out) x + count (mset (items q)) x + count (mset (pushed ops)) x"
  using assms(1,3)
proof (induction ops arbitrary: q out)
  case Nil
  then show ?case by simp
next
  case (Cons p ops)
  show ?case
  proof (cases p)
    case (PushOp y)
    with Cons.prems have "queue_run pu ta re ops (pu y q, out) = (q', out')" by simp
    from Cons.IH [OF invar_push [OF Cons.prems(1)] this] PushOp mset_push [OF Cons.prems(1), of y]
    show ?thesis by simp
  next
    case TakeOp
    show ?thesis
    proof (cases "ta q")
      case None
      with Cons.prems TakeOp have "queue_run pu ta re ops (q, out) = (q', out')" by simp
      from Cons.IH [OF Cons.prems(1) this] TakeOp show ?thesis by simp
    next
      case (Some yq)
      obtain y r where yq: "yq = (y, r)" by fastforce
      with Some Cons.prems TakeOp have run: "queue_run pu ta re ops (r, out @ [y]) = (q', out')"
        by simp
      from Some yq have t: "ta q = Some (y, r)" by simp
      from Cons.IH [OF invar_take [OF Cons.prems(1) t] run] take_Some [OF Cons.prems(1) t] TakeOp
      show ?thesis by simp
    qed
  next
    case ResetOp
    with Cons.prems have "queue_run pu ta re ops (re q, out) = (q', out')" by simp
    from Cons.IH [OF invar_reset [OF Cons.prems(1)] this] reset_items [OF Cons.prems(1)]
      assms(2) ResetOp
    show ?thesis by simp
  qed
qed

text \<open>Right after an interruption only what it keeps is left.\<close>

lemma reset_only_kept: "invar q \<Longrightarrow> x \<in> set (items (re q)) \<Longrightarrow> keep x"
  by (simp add: reset_items)

text \<open>Taking as often as there are items empties the queue and yields them in service order.\<close>

lemma drain:
  assumes "invar q"
  shows "\<exists>q'. queue_run pu ta re (replicate (length (items q)) TakeOp) (q, out) =
           (q', out @ items q) \<and> items q' = []"
  using assms
proof (induction "items q" arbitrary: q out)
  case Nil
  then show ?case by auto
next
  case (Cons x xs)
  then obtain y r where t: "ta q = Some (y, r)"
    using take_None [OF Cons.prems] by (cases "ta q") auto
  with take_Some [OF Cons.prems t] Cons.hyps(2) have y: "y = x" and xs: "xs = items r"
    by auto
  from Cons.hyps(1) [OF xs invar_take [OF Cons.prems t], of "out @ [x]"] t y xs Cons.hyps(2)
  show ?case by (simp flip: Cons.hyps(2))
qed

end

section \<open>Wake-ups\<close>

text \<open>
  The reader's side of the idiom: \<open>waiting\<close> says the reader found the queue empty and is blocked on
  the channel, \<open>signal\<close> that the channel holds its one signal, and \<open>unsent\<close> counts the producers
  that have appended their item and released the lock but not yet sent.
\<close>

record 'q notify_state =
  nq :: 'q
  signal :: bool
  unsent :: nat
  waiting :: bool

inductive notify_step ::
  "('a \<Rightarrow> 'q \<Rightarrow> 'q) \<Rightarrow> ('q \<Rightarrow> ('a \<times> 'q) option) \<Rightarrow> ('q \<Rightarrow> 'q) \<Rightarrow>
   'q notify_state \<Rightarrow> 'q notify_state \<Rightarrow> bool"
  for pu ta re where
  append_item: "notify_step pu ta re s (s\<lparr>nq := pu x (nq s), unsent := Suc (unsent s)\<rparr>)"
| send_signal: "unsent s = Suc n \<Longrightarrow> notify_step pu ta re s (s\<lparr>unsent := n, signal := True\<rparr>)"
| reader_takes: "\<not> waiting s \<Longrightarrow> ta (nq s) = Some (x, q') \<Longrightarrow> notify_step pu ta re s (s\<lparr>nq := q'\<rparr>)"
| reader_blocks: "\<not> waiting s \<Longrightarrow> ta (nq s) = None \<Longrightarrow>
    notify_step pu ta re s (s\<lparr>waiting := True\<rparr>)"
| reader_wakes: "waiting s \<Longrightarrow> signal s \<Longrightarrow>
    notify_step pu ta re s (s\<lparr>waiting := False, signal := False\<rparr>)"
| drop_items: "notify_step pu ta re s (s\<lparr>nq := re (nq s)\<rparr>)"

inductive notify_reach ::
  "('a \<Rightarrow> 'q \<Rightarrow> 'q) \<Rightarrow> ('q \<Rightarrow> ('a \<times> 'q) option) \<Rightarrow> ('q \<Rightarrow> 'q) \<Rightarrow> 'q \<Rightarrow> 'q notify_state \<Rightarrow> bool"
  for pu ta re q0 where
  notify_init: "notify_reach pu ta re q0 \<lparr>nq = q0, signal = False, unsent = 0, waiting = False\<rparr>"
| notify_next: "notify_reach pu ta re q0 s \<Longrightarrow> notify_step pu ta re s t \<Longrightarrow>
    notify_reach pu ta re q0 t"

definition wake_pending :: "('q \<Rightarrow> ('a \<times> 'q) option) \<Rightarrow> 'q notify_state \<Rightarrow> bool" where
  "wake_pending ta s \<longleftrightarrow> (waiting s \<and> ta (nq s) \<noteq> None \<longrightarrow> signal s \<or> 0 < unsent s)"

locale notify_queue =
  fixes pu :: "'a \<Rightarrow> 'q \<Rightarrow> 'q"
    and ta :: "'q \<Rightarrow> ('a \<times> 'q) option"
    and re :: "'q \<Rightarrow> 'q"
  assumes reset_empty: "ta q = None \<Longrightarrow> ta (re q) = None"
begin

lemma reset_nonempty: "ta (re q) = Some y \<Longrightarrow> \<exists>x r. ta q = Some (x, r)"
  using reset_empty [of q] by (cases "ta q") auto

lemma wake_pending_step:
  "notify_step pu ta re s t \<Longrightarrow> wake_pending ta s \<Longrightarrow> wake_pending ta t"
  by (induction rule: notify_step.induct) (auto simp: wake_pending_def dest: reset_nonempty)

lemma wake_pending_reach: "notify_reach pu ta re q0 s \<Longrightarrow> wake_pending ta s"
proof (induction rule: notify_reach.induct)
  case notify_init
  then show ?case by (simp add: wake_pending_def)
next
  case (notify_next s t)
  then show ?case by (blast intro: wake_pending_step)
qed

text \<open>
  A reader blocked while the queue holds something, with every producer done sending, has a signal
  waiting for it: the wake-up step is enabled and it looks at the queue again.
\<close>

lemma no_lost_wakeup:
  assumes "notify_reach pu ta re q0 s" and "waiting s" and "unsent s = 0"
    and "ta (nq s) \<noteq> None"
  shows "\<exists>t. notify_step pu ta re s t \<and> \<not> waiting t \<and> nq t = nq s"
proof -
  from wake_pending_reach [OF assms(1)] assms(2-4) have "signal s"
    by (simp add: wake_pending_def)
  from reader_wakes [OF assms(2) this, of pu ta re] show ?thesis by auto
qed

end

end
