(* ===== verification/Frame_Queues.thy ===== *)
theory Frame_Queues
  imports Frames Queue_Interface
begin

text \<open>
  The two frame queues: \<open>queue\<close> of \<^verbatim>\<open>src/processor/queue.go\<close>, which serves both internal queues of a
  processor in three tiers, and \<open>frameQueue\<close> of \<^verbatim>\<open>src/transport/framequeue.go\<close>, which paces out the
  frames of an output transport. Each operation is the critical section the code runs under the
  queue's mutex; a blocking \<open>get\<close> is \<^const>\<open>None\<close> where the code waits on the channel. Both are
  interpretations of the contracts of \<^theory_text>\<open>Queue_Interface\<close>.
\<close>

section \<open>The processor queue\<close>

datatype Direction = Downstream | Upstream

record item =
  item_frame :: frame
  item_dir :: Direction

record queue =
  start :: "item list"
  system :: "item list"
  other :: "item list"

definition newQueue :: queue where
  "newQueue = \<lparr>start = [], system = [], other = []\<rparr>"

definition queue_push :: "item \<Rightarrow> queue \<Rightarrow> queue" where
  [queue_defs]: "queue_push it q =
    (if isStartFrame (item_frame it) then q\<lparr>start := start q @ [it]\<rparr>
     else if isSystemFrame (item_frame it) then q\<lparr>system := system q @ [it]\<rparr>
     else q\<lparr>other := other q @ [it]\<rparr>)"

definition queue_get :: "queue \<Rightarrow> (item \<times> queue) option" where
  [queue_defs]: "queue_get q =
    (case start q of
       it # its \<Rightarrow> Some (it, q\<lparr>start := its\<rparr>)
     | [] \<Rightarrow> (case system q of
         it # its \<Rightarrow> Some (it, q\<lparr>system := its\<rparr>)
       | [] \<Rightarrow> (case other q of
           it # its \<Rightarrow> Some (it, q\<lparr>other := its\<rparr>)
         | [] \<Rightarrow> None)))"

definition queue_hasFrame :: "(frame \<Rightarrow> bool) \<Rightarrow> queue \<Rightarrow> bool" where
  "queue_hasFrame match q = list_ex (\<lambda>it. match (item_frame it)) (other q)"

definition queue_reset :: "queue \<Rightarrow> queue" where
  [queue_defs]: "queue_reset q = q\<lparr>other := filter (\<lambda>it. isUninterruptible (item_frame it)) (other q)\<rparr>"

subsection \<open>Service order and invariant\<close>

text \<open>The order in which a queue left alone would be served.\<close>

definition queue_items :: "queue \<Rightarrow> item list" where
  "queue_items q = start q @ system q @ other q"

text \<open>The three tiers: the StartFrame, the other system frames, data and control frames.\<close>

definition tier :: "item \<Rightarrow> nat" where
  "tier it = (if isStartFrame (item_frame it) then 0
              else if isSystemFrame (item_frame it) then 1 else 2)"

definition queue_inv :: "queue \<Rightarrow> bool" where
  "queue_inv q \<longleftrightarrow> list_all (\<lambda>it. tier it = 0) (start q) \<and> list_all (\<lambda>it. tier it = 1) (system q) \<and>
     list_all (\<lambda>it. tier it = 2) (other q)"

text \<open>What an interruption keeps.\<close>

definition survives :: "item \<Rightarrow> bool" where
  "survives it \<longleftrightarrow> isSystemFrame (item_frame it) \<or> isUninterruptible (item_frame it)"

lemma queue_inv_new [simp]: "queue_inv newQueue"
  by (simp add: queue_inv_def newQueue_def)

lemma queue_items_new [simp]: "queue_items newQueue = []"
  by (simp add: queue_items_def newQueue_def)

lemma queue_inv_push [simp]: "queue_inv q \<Longrightarrow> queue_inv (queue_push it q)"
  by (auto simp: queue_inv_def queue_push_def tier_def list_all_iff)

lemma queue_inv_get: "queue_inv q \<Longrightarrow> queue_get q = Some (it, q') \<Longrightarrow> queue_inv q'"
  by (auto simp: queue_inv_def queue_get_def split: list.splits)

lemma queue_inv_reset [simp]: "queue_inv q \<Longrightarrow> queue_inv (queue_reset q)"
  by (auto simp: queue_inv_def queue_reset_def list_all_iff)

lemma queue_get_None: "queue_get q = None \<longleftrightarrow> queue_items q = []"
  by (auto simp: queue_get_def queue_items_def split: list.splits)

lemma queue_get_Some: "queue_get q = Some (it, q') \<Longrightarrow> queue_items q = it # queue_items q'"
  by (auto simp: queue_get_def queue_items_def split: list.splits)

lemma tier_01_survives: "tier it < 2 \<Longrightarrow> survives it"
  by (auto simp: tier_def survives_def split: if_splits)

lemma tier_2_survives: "tier it = 2 \<Longrightarrow> survives it \<longleftrightarrow> isUninterruptible (item_frame it)"
  by (auto simp: tier_def survives_def split: if_splits)

lemma queue_reset_items: "queue_inv q \<Longrightarrow> queue_items (queue_reset q) = filter survives (queue_items q)"
proof -
  assume inv: "queue_inv q"
  have "filter survives (start q) = start q" and "filter survives (system q) = system q"
    using inv by (auto simp: queue_inv_def list_all_iff intro!: filter_True tier_01_survives)
  moreover have "filter survives (other q) = filter (\<lambda>it. isUninterruptible (item_frame it)) (other q)"
    using inv by (auto simp: queue_inv_def list_all_iff tier_2_survives intro!: filter_cong)
  ultimately show ?thesis by (simp add: queue_items_def queue_reset_def)
qed

lemma queue_push_split:
  "\<exists>ys zs. queue_items q = ys @ zs \<and> queue_items (queue_push it q) = ys @ it # zs"
proof (cases "isStartFrame (item_frame it)")
  case True
  then show ?thesis
    by (intro exI [of _ "start q"] exI [of _ "system q @ other q"])
      (simp add: queue_items_def queue_push_def)
next
  case start: False
  show ?thesis
  proof (cases "isSystemFrame (item_frame it)")
    case True
    with start show ?thesis
      by (intro exI [of _ "start q @ system q"] exI [of _ "other q"])
        (simp add: queue_items_def queue_push_def)
  next
    case False
    with start show ?thesis
      by (intro exI [of _ "queue_items q"] exI [of _ "[]"])
        (simp add: queue_items_def queue_push_def)
  qed
qed

interpretation pq: interruptible_queue queue_push queue_get queue_reset queue_items survives queue_inv
  by unfold_locales
    (auto simp: queue_push_split queue_get_None queue_reset_items intro: queue_get_Some queue_inv_get)

interpretation pqn: notify_queue queue_push queue_get queue_reset
  by unfold_locales (auto simp: queue_get_def queue_reset_def split: list.splits)

subsection \<open>Refinement of a stable priority list\<close>

text \<open>
  The specification the three slices implement: one list kept in order of tier, a new item going
  behind every item of its own or a more urgent tier.
\<close>

definition stable_insert :: "('a \<Rightarrow> nat) \<Rightarrow> 'a \<Rightarrow> 'a list \<Rightarrow> 'a list" where
  "stable_insert key x xs = takeWhile (\<lambda>y. key y \<le> key x) xs @ x # dropWhile (\<lambda>y. key y \<le> key x) xs"

lemma stable_insert_split:
  assumes "\<forall>y \<in> set ys. key y \<le> key x" and "\<forall>z \<in> set zs. key x < key z"
  shows "stable_insert key x (ys @ zs) = ys @ x # zs"
proof -
  have "takeWhile (\<lambda>y. key y \<le> key x) zs = []" and "dropWhile (\<lambda>y. key y \<le> key x) zs = zs"
    using assms(2) by (cases zs; simp)+
  with assms(1) show ?thesis
    by (simp add: stable_insert_def takeWhile_append2 dropWhile_append2)
qed

lemma queue_push_refines:
  assumes "queue_inv q"
  shows "queue_items (queue_push it q) = stable_insert tier it (queue_items q)"
proof (cases "isStartFrame (item_frame it)")
  case True
  then have "tier it = 0" by (simp add: tier_def)
  with assms have "stable_insert tier it (start q @ (system q @ other q)) =
      start q @ it # (system q @ other q)"
    by (intro stable_insert_split) (auto simp: queue_inv_def list_all_iff)
  with True show ?thesis by (simp add: queue_items_def queue_push_def)
next
  case start: False
  show ?thesis
  proof (cases "isSystemFrame (item_frame it)")
    case True
    with start have "tier it = 1" by (simp add: tier_def)
    with assms have "stable_insert tier it ((start q @ system q) @ other q) =
        (start q @ system q) @ it # other q"
      by (intro stable_insert_split) (auto simp: queue_inv_def list_all_iff)
    with start True show ?thesis by (simp add: queue_items_def queue_push_def)
  next
    case False
    with start have "tier it = 2" by (simp add: tier_def)
    with assms have "stable_insert tier it (queue_items q @ []) = queue_items q @ [it]"
      by (intro stable_insert_split) (auto simp: queue_inv_def list_all_iff queue_items_def)
    with start False show ?thesis by (simp add: queue_items_def queue_push_def)
  qed
qed

lemma queue_items_sorted: "queue_inv q \<Longrightarrow> sorted (map tier (queue_items q))"
proof -
  assume inv: "queue_inv q"
  have rep: "map tier xs = replicate (length xs) n" if "list_all (\<lambda>it. tier it = n) xs" for xs n
    using that by (simp add: list_all_iff map_eq_conv flip: map_replicate_const)
  from inv have "map tier (queue_items q) = replicate (length (start q)) 0 @
      replicate (length (system q)) 1 @ replicate (length (other q)) 2"
    by (simp add: queue_items_def queue_inv_def rep)
  then show ?thesis by (simp add: sorted_append)
qed

text \<open>Within one tier the queue is first in, first out.\<close>

lemma queue_tier_fifo:
  assumes "queue_inv q"
  shows "filter (\<lambda>i. tier i = n) (queue_items (queue_push it q)) =
         filter (\<lambda>i. tier i = n) (queue_items q) @ (if tier it = n then [it] else [])"
  using assms
  by (auto simp: queue_items_def queue_push_def tier_def queue_inv_def list_all_iff
      filter_empty_conv)

section \<open>The sender queue of an output transport\<close>

record frameQueue =
  fq_items :: "frame list"
  uninterruptible :: int

definition newFrameQueue :: frameQueue where
  "newFrameQueue = \<lparr>fq_items = [], uninterruptible = 0\<rparr>"

definition fq_push :: "frame \<Rightarrow> frameQueue \<Rightarrow> frameQueue" where
  [queue_defs]: "fq_push f q =
    (let q' = q\<lparr>fq_items := fq_items q @ [f]\<rparr> in
     if isUninterruptible f then q'\<lparr>uninterruptible := uninterruptible q + 1\<rparr> else q')"

definition fq_tryGet :: "frameQueue \<Rightarrow> (frame \<times> frameQueue) option" where
  [queue_defs]: "fq_tryGet q =
    (case fq_items q of
       [] \<Rightarrow> None
     | f # fs \<Rightarrow>
        (let q' = q\<lparr>fq_items := fs\<rparr> in
         Some (f, if isUninterruptible f then q'\<lparr>uninterruptible := uninterruptible q - 1\<rparr> else q')))"

definition fq_hasUninterruptible :: "frameQueue \<Rightarrow> bool" where
  "fq_hasUninterruptible q \<longleftrightarrow> 0 < uninterruptible q"

definition fq_reset :: "frameQueue \<Rightarrow> frameQueue" where
  [queue_defs]: "fq_reset q =
    (let kept = filter isUninterruptible (fq_items q) in
     q\<lparr>fq_items := kept, uninterruptible := int (length kept)\<rparr>)"

text \<open>The counter is the number of uninterruptible frames queued.\<close>

definition fq_inv :: "frameQueue \<Rightarrow> bool" where
  "fq_inv q \<longleftrightarrow> uninterruptible q = int (length (filter isUninterruptible (fq_items q)))"

lemma fq_inv_new [simp]: "fq_inv newFrameQueue"
  by (simp add: fq_inv_def newFrameQueue_def)

lemma fq_inv_push [simp]: "fq_inv q \<Longrightarrow> fq_inv (fq_push f q)"
  by (simp add: fq_inv_def fq_push_def Let_def)

lemma fq_inv_tryGet: "fq_inv q \<Longrightarrow> fq_tryGet q = Some (f, q') \<Longrightarrow> fq_inv q'"
  by (auto simp: fq_inv_def fq_tryGet_def Let_def split: list.splits if_splits)

lemma fq_inv_reset [simp]: "fq_inv (fq_reset q)"
  by (simp add: fq_inv_def fq_reset_def Let_def)

interpretation fq: interruptible_queue fq_push fq_tryGet fq_reset fq_items isUninterruptible fq_inv
proof unfold_locales
  fix q x q'
  show "\<exists>ys zs. fq_items q = ys @ zs \<and> fq_items (fq_push x q) = ys @ x # zs"
    by (rule exI [of _ "fq_items q"], rule exI [of _ "[]"]) (simp add: fq_push_def Let_def)
  show "fq_tryGet q = None \<longleftrightarrow> fq_items q = []"
    by (simp add: fq_tryGet_def Let_def split: list.splits)
  show "fq_items (fq_reset q) = filter isUninterruptible (fq_items q)"
    by (simp add: fq_reset_def Let_def)
  assume "fq_tryGet q = Some (x, q')"
  then show "fq_items q = x # fq_items q'"
    by (auto simp: fq_tryGet_def Let_def split: list.splits)
qed (auto intro: fq_inv_tryGet)

interpretation fqn: notify_queue fq_push fq_tryGet fq_reset
  by unfold_locales (auto simp: fq_tryGet_def fq_reset_def Let_def split: list.splits)

text \<open>The counter answers the question without walking the queue.\<close>

lemma fq_hasUninterruptible_iff:
  "fq_inv q \<Longrightarrow> fq_hasUninterruptible q \<longleftrightarrow> (\<exists>f \<in> set (fq_items q). isUninterruptible f)"
  by (auto simp: fq_inv_def fq_hasUninterruptible_def filter_empty_conv)

section \<open>Properties of the two queues\<close>

lemma push_run:
  "queue_run pu ta re (map PushOp xs @ ops) (q, out) = queue_run pu ta re ops (fold pu xs q, out)"
  by (induction xs arbitrary: q) simp_all

lemma queue_inv_fold [simp]: "queue_inv q \<Longrightarrow> queue_inv (fold queue_push xs q)"
  by (induction xs arbitrary: q) simp_all

lemma queue_fold_items:
  "start (fold queue_push xs q) = start q @ filter (\<lambda>it. tier it = 0) xs \<and>
   system (fold queue_push xs q) = system q @ filter (\<lambda>it. tier it = 1) xs \<and>
   other (fold queue_push xs q) = other q @ filter (\<lambda>it. tier it = 2) xs"
  by (induction xs arbitrary: q) (auto simp: queue_push_def tier_def)

lemma length_tiers:
  "length (filter (\<lambda>it. tier it = 0) xs) + (length (filter (\<lambda>it. tier it = 1) xs) +
   length (filter (\<lambda>it. tier it = 2) xs)) = length xs"
  by (induction xs) (auto simp: tier_def)

text \<open>
  A processor serves its queue StartFrame first, then the other system frames, then data and
  control frames, and within each tier in the order of arrival: whatever is pushed, taking as many
  items as were pushed yields exactly that arrangement and leaves the queue empty.
\<close>

lemma processor_queue_order:
  "\<exists>q. queue_run queue_push queue_get queue_reset
         (map PushOp xs @ replicate (length xs) TakeOp) (newQueue, []) =
       (q, filter (\<lambda>it. tier it = 0) xs @ filter (\<lambda>it. tier it = 1) xs @
           filter (\<lambda>it. tier it = 2) xs) \<and> queue_items q = []"
proof -
  let ?q = "fold queue_push xs newQueue"
  have items: "queue_items ?q = filter (\<lambda>it. tier it = 0) xs @ filter (\<lambda>it. tier it = 1) xs @
      filter (\<lambda>it. tier it = 2) xs"
    using queue_fold_items [of xs newQueue] by (simp add: queue_items_def newQueue_def)
  then have "length (queue_items ?q) = length xs" using length_tiers [of xs] by simp
  with pq.drain [of ?q "[]"] items show ?thesis by (simp add: push_run)
qed

text \<open>
  What an interruption has to keep is neither lost nor duplicated by a processor's queue: over any
  sequence of pushes, gets and resets, a system or an uninterruptible item has been handed out as often
  as it was pushed, less what is still queued.
\<close>

lemma processor_queue_conserves:
  assumes "survives it"
    and "queue_run queue_push queue_get queue_reset ops (newQueue, []) = (q, out)"
  shows "count (mset out) it + count (mset (queue_items q)) it = count (mset (pushed ops)) it"
  using pq.kept_conserved [OF queue_inv_new assms] by simp

definition a_queued :: "frame_body \<Rightarrow> u64 \<Rightarrow> item" where
  "a_queued b i = \<lparr>item_frame = fst (NewBaseFrame ''Frame'' b i), item_dir = Downstream\<rparr>"

lemma processor_queue_conserves_witness:
  "(let it = a_queued (Ctl (EndFrame [])) 7;
        ops = [PushOp (a_queued (Txt (NewTextFrame ''a'')) 1), PushOp it, ResetOp, TakeOp];
        r = queue_run queue_push queue_get queue_reset ops (newQueue, [])
    in count (mset (snd r)) it + count (mset (queue_items (fst r))) it = 1)"
proof -
  let ?it = "a_queued (Ctl (EndFrame [])) 7"
  let ?ops = "[PushOp (a_queued (Txt (NewTextFrame ''a'')) 1), PushOp ?it, ResetOp, TakeOp]"
  let ?r = "queue_run queue_push queue_get queue_reset ?ops (newQueue, [])"
  have "survives ?it" by code_simp
  from processor_queue_conserves [OF this, of ?ops "fst ?r" "snd ?r"]
  have "count (mset (snd ?r)) ?it + count (mset (queue_items (fst ?r))) ?it =
      count (mset (pushed ?ops)) ?it" by simp
  moreover have "a_queued (Txt (NewTextFrame ''a'')) 1 \<noteq> ?it" by code_simp
  ultimately show ?thesis by (simp add: Let_def)
qed

text \<open>
  No wake-up is lost between a processor's queue and the loop that drains it: whatever the
  interleaving of producers, interruptions and the reader, a reader blocked on the signal while the
  queue holds an item, every producer having finished its push, can wake, and finds the queue as it is.
\<close>

lemma processor_queue_wakes:
  assumes "notify_reach queue_push queue_get queue_reset newQueue s" and "waiting s" and "unsent s = 0"
    and "queue_get (nq s) \<noteq> None"
  shows "\<exists>t. notify_step queue_push queue_get queue_reset s t \<and> \<not> waiting t \<and> nq t = nq s"
  by (rule pqn.no_lost_wakeup [OF assms])

definition a_blocked :: "queue notify_state" where
  "a_blocked = \<lparr>nq = queue_push (a_queued (Txt (NewTextFrame ''a'')) 1) newQueue, signal = True,
     unsent = 0, waiting = True\<rparr>"

lemma a_blocked_reach: "notify_reach queue_push queue_get queue_reset newQueue a_blocked"
proof -
  let ?x = "a_queued (Txt (NewTextFrame ''a'')) 1"
  let ?s0 = "\<lparr>nq = newQueue, signal = False, unsent = 0, waiting = False\<rparr>"
  let ?s1 = "?s0\<lparr>waiting := True\<rparr>"
  let ?s2 = "?s1\<lparr>nq := queue_push ?x (nq ?s1), unsent := Suc (unsent ?s1)\<rparr>"
  let ?R = "notify_reach queue_push queue_get queue_reset newQueue"
  have "?R ?s0" by (rule notify_init)
  moreover have "notify_step queue_push queue_get queue_reset ?s0 ?s1"
    by (rule reader_blocks) (simp_all add: queue_get_def newQueue_def)
  ultimately have "?R ?s1" by (rule notify_next)
  from notify_next [OF this append_item] have "?R ?s2" .
  moreover have "notify_step queue_push queue_get queue_reset ?s2 (?s2\<lparr>unsent := 0, signal := True\<rparr>)"
    by (rule send_signal) simp
  ultimately have "?R (?s2\<lparr>unsent := 0, signal := True\<rparr>)" by (rule notify_next)
  then show ?thesis by (simp add: a_blocked_def)
qed

lemma processor_queue_wakes_witness:
  "\<exists>t. notify_step queue_push queue_get queue_reset a_blocked t \<and> \<not> waiting t \<and> nq t = nq a_blocked"
proof (rule processor_queue_wakes [OF a_blocked_reach])
  show "waiting a_blocked" "unsent a_blocked = 0" by (simp_all add: a_blocked_def)
  show "queue_get (nq a_blocked) \<noteq> None" by code_simp
qed

text \<open>
  The sender's counter tells the truth: after any sequence of pushes, gets and resets of an output
  transport's queue, \<open>hasUninterruptible\<close> answers whether a frame that must survive an interruption is
  queued, and the counter is never negative.
\<close>

lemma sender_queue_counter:
  "fq_hasUninterruptible (fst (queue_run fq_push fq_tryGet fq_reset ops (newFrameQueue, []))) =
     list_ex isUninterruptible (fq_items (fst (queue_run fq_push fq_tryGet fq_reset ops (newFrameQueue, [])))) \<and>
   0 \<le> uninterruptible (fst (queue_run fq_push fq_tryGet fq_reset ops (newFrameQueue, [])))"
proof -
  let ?q = "fst (queue_run fq_push fq_tryGet fq_reset ops (newFrameQueue, []))"
  have inv: "fq_inv ?q" by (rule fq.invar_run) simp
  then have "0 \<le> uninterruptible ?q" by (simp add: fq_inv_def)
  with fq_hasUninterruptible_iff [OF inv] show ?thesis by (simp add: list_ex_iff)
qed

end
