(* ===== verification/Processor_Core.thy ===== *)
theory Processor_Core
  imports Frame_Queues "HOL-Library.Sublist"
begin

text \<open>
  The frame processor, \<^verbatim>\<open>src/processor/processor.go\<close>, \<^verbatim>\<open>pause.go\<close> and \<^verbatim>\<open>usable.go\<close>: the state of a
  \<open>Base\<close>, each of its operations as a function on that state, and the transition system of the
  goroutines that run them. \<open>inputLoop\<close> and every \<open>processLoop\<close> ever started are program counters; a
  transition runs from one shared access to the next, so that an interruption can fall between
  taking a frame off the queue and recording it as the current one.

  \<open>ProcessFrame\<close> of the embedding processor is not part of the source of the base: it calls
  \<open>Base.ProcessFrame\<close> first and may then call any operation of the base and end in an error. The
  transitions let every such call happen at any time.

  The fields from \<open>arrived\<close> on are logs that no operation reads.
\<close>

section \<open>Events (pause.go)\<close>

text \<open>
  A manual-reset event. \<open>Clear\<close> of a set event makes a new channel; \<open>ev_gen\<close> counts the channels
  made, so that a waiter is released when the channel it holds has been closed, even if the event
  has been cleared since.
\<close>

record event =
  ev_set :: bool
  ev_gen :: nat

definition newEvent :: event where
  "newEvent = \<lparr>ev_set = False, ev_gen = 0\<rparr>"

definition event_Set :: "event \<Rightarrow> event" where
  "event_Set e = e\<lparr>ev_set := True\<rparr>"

definition event_Clear :: "event \<Rightarrow> event" where
  "event_Clear e = (if ev_set e then \<lparr>ev_set = False, ev_gen = Suc (ev_gen e)\<rparr> else e)"

text \<open>Whether a wait that read generation \<open>g\<close> is over.\<close>

definition event_closed :: "event \<Rightarrow> nat \<Rightarrow> bool" where
  "event_closed e g \<longleftrightarrow> g < ev_gen e \<or> g = ev_gen e \<and> ev_set e"

section \<open>State of a processor\<close>

datatype after_cancel = ThenCreate | ThenNothing

datatype input_pc =
    IUnset
  | IGate
  | IGet
  | IBlocked
  | ITook item
  | IWait item nat nat
  | IHandle item
  | IAwait item nat after_cancel
  | IFinish item
  | IExited

datatype proc_pc =
    PTop
  | PGet
  | PBlocked
  | PTook item
  | PGated item
  | PWait item nat nat
  | PHandle item
  | PFinish item
  | PExited

record proc =
  pc :: proc_pc
  ctxDone :: bool

record setupState =
  audioInSampleRate :: int
  audioOutSampleRate :: int
  enableMetrics :: bool
  enableUsageMetrics :: bool
  reportOnlyInitialTTFB :: bool

text \<open>
  The event objects live in \<open>evs\<close> and are named by their position; \<open>inputEvent\<close> and \<open>processEvent\<close>
  are pointers into it. \<open>procs\<close> holds the process goroutines in the order they were started, and
  \<open>procTask\<close> the one \<open>procCancel\<close> and \<open>procDone\<close> belong to.
\<close>

record base =
  pname :: string
  directMode :: bool
  setup_state :: setupState
  baseDone :: bool
  inputQueue :: queue
  startGate :: event
  evs :: "event list"
  blockSystemFrames :: bool
  inputEvent :: nat
  blockFrames :: bool
  processEvent :: "nat option"
  pendingResume :: bool
  pauseWatcher :: bool
  watching :: bool
  armTTFB :: bool
  canceling :: bool
  procQueue :: queue
  procRunning :: bool
  procTask :: nat
  procs :: "proc list"
  curFrame :: "frame option"
  usable :: bool
  inp :: input_pc
  arrived :: "item list"
  handled :: "item list"
  dropped :: "item list"
  abandoned :: "item list"
  timedOut :: bool
  cleaned :: bool

definition New_base :: "string \<Rightarrow> bool \<Rightarrow> base" where
  "New_base nm direct =
    \<lparr>pname = nm, directMode = direct,
     setup_state = \<lparr>audioInSampleRate = 0, audioOutSampleRate = 0, enableMetrics = False,
       enableUsageMetrics = False, reportOnlyInitialTTFB = False\<rparr>,
     baseDone = False, inputQueue = newQueue, startGate = newEvent, evs = [newEvent],
     blockSystemFrames = False, inputEvent = 0, blockFrames = False, processEvent = None,
     pendingResume = False, pauseWatcher = False, watching = False, armTTFB = True,
     canceling = False, procQueue = newQueue, procRunning = False, procTask = 0, procs = [],
     curFrame = None, usable = True, inp = IUnset,
     arrived = [], handled = [], dropped = [], abandoned = [], timedOut = False, cleaned = False\<rparr>"

definition Setup_base :: "setupState \<Rightarrow> base \<Rightarrow> base" where
  "Setup_base st b =
    (let b' = b\<lparr>setup_state := st\<rparr> in if directMode b then b' else b'\<lparr>inp := IGate\<rparr>)"

section \<open>Pausing (pause.go)\<close>

definition set_ev :: "(event \<Rightarrow> event) \<Rightarrow> nat \<Rightarrow> base \<Rightarrow> base" where
  "set_ev h e b = b\<lparr>evs := (evs b)[e := h (evs b ! e)]\<rparr>"

definition PauseProcessingFrames :: "base \<Rightarrow> base" where
  "PauseProcessingFrames b =
    (let b' = b\<lparr>blockFrames := True\<rparr> in
     case processEvent b of Some e \<Rightarrow> set_ev event_Clear e b' | None \<Rightarrow> b')"

definition PauseProcessingSystemFrames :: "base \<Rightarrow> base" where
  "PauseProcessingSystemFrames b = set_ev event_Clear (inputEvent b) (b\<lparr>blockSystemFrames := True\<rparr>)"

definition ResumeProcessingFrames :: "base \<Rightarrow> base" where
  "ResumeProcessingFrames b =
    (case processEvent b of Some e \<Rightarrow> set_ev event_Set e b | None \<Rightarrow> b)"

definition ResumeProcessingSystemFrames :: "base \<Rightarrow> base" where
  "ResumeProcessingSystemFrames b = set_ev event_Set (inputEvent b) b"

definition resumeProcessingAllFrames :: "base \<Rightarrow> base" where
  "resumeProcessingAllFrames b = ResumeProcessingFrames (ResumeProcessingSystemFrames b)"

text \<open>
  \<open>waitWhilePaused\<close>, up to where it waits: \<^const>\<open>None\<close> when the frame may be handled at once, or
  the event to wait on and the channel read off it. \<open>released\<close> is what it does once the wait is over.
\<close>

definition waitWhilePaused :: "bool \<Rightarrow> base \<Rightarrow> (nat \<times> nat) option" where
  "waitWhilePaused systemLoop b =
    (let (blocked, ev) = (if systemLoop then (blockSystemFrames b, Some (inputEvent b))
                          else (blockFrames b, processEvent b)) in
     if \<not> blocked then None
     else case ev of None \<Rightarrow> None | Some e \<Rightarrow> Some (e, ev_gen (evs b ! e)))"

definition released :: "bool \<Rightarrow> nat \<Rightarrow> base \<Rightarrow> base" where
  "released systemLoop e b =
    (let b' = set_ev event_Clear e b in
     if systemLoop then b'\<lparr>blockSystemFrames := False\<rparr> else b'\<lparr>blockFrames := False\<rparr>)"

definition pauseIfAddressed :: "string option \<Rightarrow> base \<Rightarrow> base" where
  "pauseIfAddressed target b = (if target = Some (pname b) then PauseProcessingFrames b else b)"

definition resumeIfAddressed :: "string option \<Rightarrow> base \<Rightarrow> base" where
  "resumeIfAddressed target b =
    (if target = None \<or> target \<noteq> Some (pname b) then b else b\<lparr>pendingResume := True\<rparr>)"

definition applyPendingResume :: "base \<Rightarrow> base" where
  "applyPendingResume b =
    (let pending = pendingResume b; b' = b\<lparr>pendingResume := False\<rparr> in
     if pending then ResumeProcessingFrames b' else b')"

text \<open>\<open>watchUntilReady\<close> ends in the same way whatever ended it.\<close>

definition watchUntilReady :: "base \<Rightarrow> base" where
  "watchUntilReady b = (resumeProcessingAllFrames b)\<lparr>watching := False\<rparr>"

definition cancelPauseWatcher :: "base \<Rightarrow> base" where
  "cancelPauseWatcher b =
    (if \<not> pauseWatcher b then b
     else let b1 = b\<lparr>pauseWatcher := False\<rparr>;
              b2 = (if watching b1 then watchUntilReady b1 else b1)
          in resumeProcessingAllFrames b2)"

definition PauseProcessingAllFramesUntil :: "base \<Rightarrow> base" where
  "PauseProcessingAllFramesUntil b =
    (if directMode b then b
     else (PauseProcessingFrames (PauseProcessingSystemFrames (cancelPauseWatcher b)))
            \<lparr>pauseWatcher := True, watching := True\<rparr>)"

section \<open>The process task (processor.go)\<close>

definition reset_procQueue :: "base \<Rightarrow> base" where
  "reset_procQueue b =
    b\<lparr>procQueue := queue_reset (procQueue b),
      dropped := dropped b @ filter (\<lambda>it. \<not> isUninterruptible (item_frame it)) (other (procQueue b))\<rparr>"

definition resetProcessTask :: "base \<Rightarrow> base" where
  "resetProcessTask b =
    (if directMode b then b
     else reset_procQueue
       (b\<lparr>blockFrames := False, processEvent := Some (length (evs b)), evs := evs b @ [newEvent]\<rparr>))"

definition createProcessTask :: "base \<Rightarrow> base" where
  "createProcessTask b =
    (if directMode b then b
     else if procRunning b then b
     else let b' = resetProcessTask b in
       b'\<lparr>procRunning := True, procTask := length (procs b'),
          procs := procs b' @ [\<lparr>pc = PTop, ctxDone = baseDone b'\<rparr>]\<rparr>)"

text \<open>
  \<open>cancelProcessTask\<close> up to where it waits, with the goroutine it then waits for (for at most
  \<open>processCancelTimeout\<close>).
\<close>

definition cancelProcessTask :: "base \<Rightarrow> base \<times> nat option" where
  "cancelProcessTask b =
    (if directMode b then (b, None)
     else if \<not> procRunning b then (b, None)
     else (b\<lparr>procRunning := False,
             procs := (procs b)[procTask b := (procs b ! procTask b)\<lparr>ctxDone := True\<rparr>]\<rparr>,
           Some (procTask b)))"

definition start_base :: "base \<Rightarrow> base" where
  "start_base b = createProcessTask b"

definition cancel :: "base \<Rightarrow> base \<times> nat option" where
  "cancel b = cancelProcessTask (b\<lparr>canceling := True\<rparr>)"

text \<open>A nil frame is not uninterruptible.\<close>

definition isUninterruptible_cur :: "frame option \<Rightarrow> bool" where
  "isUninterruptible_cur f = (case f of None \<Rightarrow> False | Some g \<Rightarrow> isUninterruptible g)"

definition startInterruption :: "base \<Rightarrow> base \<times> nat option" where
  "startInterruption b =
    (if directMode b then (b, None)
     else if isUninterruptible_cur (curFrame b) then (reset_procQueue b, None)
     else case cancelProcessTask b of
       (b', None) \<Rightarrow> (createProcessTask b', None)
     | (b', Some j) \<Rightarrow> (b', Some j))"

text \<open>
  \<open>Base.ProcessFrame\<close>. When it has to wait for a goroutine to exit, the result says which one, and
  what is left to do after it.
\<close>

definition Base_ProcessFrame :: "frame \<Rightarrow> base \<Rightarrow> base \<times> (nat \<times> after_cancel) option" where
  "Base_ProcessFrame f b =
    (case body f of
       Sys (StartFrame i ou) \<Rightarrow> (start_base (b\<lparr>armTTFB := True\<rparr>), None)
     | Sys InterruptionFrame \<Rightarrow>
         (case startInterruption b of (b', j) \<Rightarrow> (b', map_option (\<lambda>j. (j, ThenCreate)) j))
     | Sys (CancelFrame r) \<Rightarrow>
         (case cancel b of (b', j) \<Rightarrow> (b', map_option (\<lambda>j. (j, ThenNothing)) j))
     | Ctl (FrameProcessorPauseFrame t) \<Rightarrow> (pauseIfAddressed t b, None)
     | Sys (FrameProcessorPauseUrgentFrame t) \<Rightarrow> (pauseIfAddressed t b, None)
     | Ctl (FrameProcessorResumeFrame t) \<Rightarrow> (resumeIfAddressed t b, None)
     | Sys (FrameProcessorResumeUrgentFrame t) \<Rightarrow> (resumeIfAddressed t b, None)
     | _ \<Rightarrow> (b, None))"

definition after_join :: "after_cancel \<Rightarrow> base \<Rightarrow> base" where
  "after_join k b = (case k of ThenCreate \<Rightarrow> createProcessTask b | ThenNothing \<Rightarrow> b)"

definition HasQueuedFrame :: "(frame \<Rightarrow> bool) \<Rightarrow> base \<Rightarrow> bool" where
  "HasQueuedFrame match b = queue_hasFrame match (procQueue b)"

definition BeginTTFB :: "base \<Rightarrow> bool \<times> base" where
  "BeginTTFB b =
    (if \<not> armTTFB b then (False, b)
     else (True, b\<lparr>armTTFB := \<not> reportOnlyInitialTTFB (setup_state b)\<rparr>))"

text \<open>
  \<open>QueueFrame\<close> of a processor that is not in direct mode. In direct mode the frame is handled on the
  caller's goroutine and no queue is involved.
\<close>

definition QueueFrame :: "item \<Rightarrow> base \<Rightarrow> base" where
  "QueueFrame it b =
    (if canceling b \<or> directMode b then b
     else let b' = b\<lparr>inputQueue := queue_push it (inputQueue b), arrived := arrived b @ [it]\<rparr> in
       if isStartFrame (item_frame it) then b'\<lparr>startGate := event_Set (startGate b)\<rparr> else b')"

section \<open>Broadcasts\<close>

text \<open>
  The two halves of a broadcast, down then up; \<open>build\<close> is called once per direction and draws on the
  process-wide frame counter.
\<close>

definition Broadcast :: "(u64 \<Rightarrow> frame \<times> u64) \<Rightarrow> u64 \<Rightarrow> (frame \<times> Direction) list \<times> u64" where
  "Broadcast build c =
    (let (down, c1) = build c; (up, c2) = build c1 in
     ([(SetBroadcastSiblingID down (frameID up), Downstream),
       (SetBroadcastSiblingID up (frameID down), Upstream)], c2))"

definition BroadcastInterruption :: "u64 \<Rightarrow> base \<Rightarrow> base \<times> (frame \<times> Direction) list \<times> u64" where
  "BroadcastInterruption c b =
    (resetProcessTask b, Broadcast (NewBaseFrame ''InterruptionFrame'' (Sys InterruptionFrame)) c)"

section \<open>Errors and usability (usable.go)\<close>

record error_frame =
  ef_Error :: string
  ef_Fatal :: bool
  ef_Source :: "string option"
  ef_Err :: "go_error option"
  ef_Category :: err_category

datatype base_event = EventUsableChanged bool | EventError error_frame

definition SetUsable :: "bool \<Rightarrow> base \<Rightarrow> base \<times> base_event list" where
  "SetUsable u b = (if u = usable b then (b, []) else (b\<lparr>usable := u\<rparr>, [EventUsableChanged u]))"

text \<open>
  \<open>PushErrorFrame\<close>: the new state, the events raised in order, and the frame pushed upstream.
  \<open>classifier\<close> is the \<open>ErrorClassifier\<close> the embedding processor may implement.
\<close>

definition PushErrorFrame ::
  "(go_error \<Rightarrow> err_category) option \<Rightarrow> error_frame \<Rightarrow> bool \<Rightarrow> base \<Rightarrow>
   base \<times> base_event list \<times> error_frame" where
  "PushErrorFrame classifier ef forceTreatAsPermanent b =
    (let ef1 = (if ef_Source ef = None then ef\<lparr>ef_Source := Some (pname b)\<rparr> else ef);
         ef2 = (case ef_Err ef1 of
             Some err \<Rightarrow>
               if ef_Category ef1 = Unset then
                 let ef' = (case classifier of Some cl \<Rightarrow> ef1\<lparr>ef_Category := cl err\<rparr> | None \<Rightarrow> ef1) in
                 if ef_Category ef' = Unset then ef'\<lparr>ef_Category := ClassifyError err\<rparr> else ef'
               else ef1
           | None \<Rightarrow> ef1);
         ef3 = (if ef_Category ef2 = Unset then ef2\<lparr>ef_Category := Unknown\<rparr> else ef2);
         (b', raised) = (if forceTreatAsPermanent \<or> IsPermanent (ef_Category ef3)
                         then SetUsable False b else (b, []))
     in (b', raised @ [EventError ef3], ef3))"

definition PushError ::
  "(go_error \<Rightarrow> err_category) option \<Rightarrow> string \<Rightarrow> go_error option \<Rightarrow> bool \<Rightarrow> err_category \<Rightarrow> bool \<Rightarrow>
   base \<Rightarrow> base \<times> base_event list \<times> error_frame" where
  "PushError classifier msg err fatal cat forceTreatAsPermanent b =
    PushErrorFrame classifier
      \<lparr>ef_Error = msg, ef_Fatal = fatal, ef_Source = Some (pname b), ef_Err = err, ef_Category = cat\<rparr>
      forceTreatAsPermanent b"

text \<open>What \<open>processFrame\<close> does once the embedding processor's \<open>ProcessFrame\<close> has returned.\<close>

definition processFrame_return ::
  "(go_error \<Rightarrow> err_category) option \<Rightarrow> go_error option \<Rightarrow> base \<Rightarrow> base" where
  "processFrame_return classifier err b =
    applyPendingResume (case err of
        None \<Rightarrow> b
      | Some e \<Rightarrow>
          fst (PushError classifier ''error processing frame'' (Some e) False Unset False b))"

definition cancelInputTask :: "base \<Rightarrow> base" where
  "cancelInputTask b = b\<lparr>baseDone := True, procs := map (ctxDone_update (\<lambda>_. True)) (procs b)\<rparr>"

section \<open>Transitions\<close>

text \<open>
  One action per thing that can happen next. The calls other goroutines make come first, then the
  input goroutine, then a process goroutine by its number. \<open>InFinish\<close> and \<open>PrFinish\<close> carry the error the
  embedding processor's \<open>ProcessFrame\<close> ended with.
\<close>

datatype action =
    CallQueueFrame item
  | CallPause | CallPauseSystem | CallResume | CallResumeSystem
  | CallBroadcastInterruption
  | CallPauseAllUntil | WatcherEnds
  | CleanupBegin | CleanupEnd
  | CallSetUsable bool
  | InOpen | InTake | InBlock | InWake | InExit | InGate | InReleased | InGiveUp
  | InProcess | InJoined | InTimeout
  | InFinish "(go_error \<Rightarrow> err_category) option" "go_error option"
  | PrTop nat | PrTake nat | PrBlock nat | PrWake nat | PrExit nat | PrRecord nat | PrGate nat
  | PrReleased nat | PrGiveUp nat | PrProcess nat
  | PrFinish nat "(go_error \<Rightarrow> err_category) option" "go_error option"

fun env_step :: "action \<Rightarrow> base \<Rightarrow> base option" where
  "env_step (CallQueueFrame it) b = Some (QueueFrame it b)"
| "env_step CallPause b = Some (PauseProcessingFrames b)"
| "env_step CallPauseSystem b = Some (PauseProcessingSystemFrames b)"
| "env_step CallResume b = Some (ResumeProcessingFrames b)"
| "env_step CallResumeSystem b = Some (ResumeProcessingSystemFrames b)"
| "env_step CallBroadcastInterruption b = Some (fst (BroadcastInterruption 0 b))"
| "env_step CallPauseAllUntil b = Some (PauseProcessingAllFramesUntil b)"
| "env_step WatcherEnds b = (if watching b then Some (watchUntilReady b) else None)"
| "env_step CleanupBegin b = Some (fst (cancelProcessTask ((cancelPauseWatcher b)\<lparr>cleaned := True\<rparr>)))"
| "env_step CleanupEnd b = (if cleaned b then Some (cancelInputTask b) else None)"
| "env_step (CallSetUsable u) b = Some (fst (SetUsable u b))"
| "env_step _ b = None"

text \<open>The frame in hand is handed to \<open>ProcessFrame\<close>, or forwarded to the process queue.\<close>

definition input_dispatch :: "item \<Rightarrow> base \<Rightarrow> base" where
  "input_dispatch it b =
    (if isSystemFrame (item_frame it) then b\<lparr>inp := IHandle it, handled := handled b @ [it]\<rparr>
     else b\<lparr>inp := IGet, procQueue := queue_push it (procQueue b)\<rparr>)"

fun input_step :: "action \<Rightarrow> base \<Rightarrow> base option" where
  "input_step InOpen b =
    (if inp b = IGate \<and> ev_set (startGate b) then Some (b\<lparr>inp := IGet\<rparr>) else None)"
| "input_step InTake b =
    (if inp b \<noteq> IGet then None
     else case queue_get (inputQueue b) of
       None \<Rightarrow> None
     | Some (it, q) \<Rightarrow> Some (b\<lparr>inputQueue := q, inp := ITook it\<rparr>))"
| "input_step InBlock b =
    (if inp b = IGet \<and> queue_get (inputQueue b) = None then Some (b\<lparr>inp := IBlocked\<rparr>) else None)"
| "input_step InWake b = (if inp b = IBlocked then Some (b\<lparr>inp := IGet\<rparr>) else None)"
| "input_step InExit b =
    (if baseDone b \<and> (inp b = IGate \<or> inp b = IBlocked) then Some (b\<lparr>inp := IExited\<rparr>) else None)"
| "input_step InGate b =
    (case inp b of
       ITook it \<Rightarrow> (case waitWhilePaused True b of
           None \<Rightarrow> Some (input_dispatch it b)
         | Some (e, g) \<Rightarrow> Some (b\<lparr>inp := IWait it e g\<rparr>))
     | _ \<Rightarrow> None)"
| "input_step InReleased b =
    (case inp b of
       IWait it e g \<Rightarrow> if event_closed (evs b ! e) g then Some (input_dispatch it (released True e b))
                      else None
     | _ \<Rightarrow> None)"
| "input_step InGiveUp b =
    (case inp b of
       IWait it e g \<Rightarrow> if baseDone b then Some (b\<lparr>inp := IExited, abandoned := abandoned b @ [it]\<rparr>)
                      else None
     | _ \<Rightarrow> None)"
| "input_step InProcess b =
    (case inp b of
       IHandle it \<Rightarrow> (case Base_ProcessFrame (item_frame it) b of
           (b', None) \<Rightarrow> Some (b'\<lparr>inp := IFinish it\<rparr>)
         | (b', Some (j, k)) \<Rightarrow> Some (b'\<lparr>inp := IAwait it j k\<rparr>))
     | _ \<Rightarrow> None)"
| "input_step InJoined b =
    (case inp b of
       IAwait it j k \<Rightarrow> if pc (procs b ! j) = PExited then Some ((after_join k b)\<lparr>inp := IFinish it\<rparr>)
                       else None
     | _ \<Rightarrow> None)"
| "input_step InTimeout b =
    (case inp b of
       IAwait it j k \<Rightarrow> Some ((after_join k b)\<lparr>inp := IFinish it, timedOut := True\<rparr>)
     | _ \<Rightarrow> None)"
| "input_step (InFinish cl err) b =
    (case inp b of
       IFinish it \<Rightarrow> Some ((processFrame_return cl err b)\<lparr>inp := IGet\<rparr>)
     | _ \<Rightarrow> None)"
| "input_step _ b = None"

definition set_pc :: "nat \<Rightarrow> proc_pc \<Rightarrow> base \<Rightarrow> base" where
  "set_pc n c b = b\<lparr>procs := (procs b)[n := (procs b ! n)\<lparr>pc := c\<rparr>]\<rparr>"

fun proc_step :: "action \<Rightarrow> base \<Rightarrow> base option" where
  "proc_step (PrTop n) b =
    (if n < length (procs b) \<and> pc (procs b ! n) = PTop
     then Some (set_pc n PGet (b\<lparr>curFrame := None\<rparr>)) else None)"
| "proc_step (PrTake n) b =
    (if \<not> (n < length (procs b) \<and> pc (procs b ! n) = PGet) then None
     else case queue_get (procQueue b) of
       None \<Rightarrow> None
     | Some (it, q) \<Rightarrow> Some (set_pc n (PTook it) (b\<lparr>procQueue := q\<rparr>)))"
| "proc_step (PrBlock n) b =
    (if n < length (procs b) \<and> pc (procs b ! n) = PGet \<and> queue_get (procQueue b) = None
     then Some (set_pc n PBlocked b) else None)"
| "proc_step (PrWake n) b =
    (if n < length (procs b) \<and> pc (procs b ! n) = PBlocked then Some (set_pc n PGet b) else None)"
| "proc_step (PrExit n) b =
    (if n < length (procs b) \<and> pc (procs b ! n) = PBlocked \<and> ctxDone (procs b ! n)
     then Some (set_pc n PExited b) else None)"
| "proc_step (PrRecord n) b =
    (if \<not> n < length (procs b) then None
     else case pc (procs b ! n) of
       PTook it \<Rightarrow> Some (set_pc n (PGated it) (b\<lparr>curFrame := Some (item_frame it)\<rparr>))
     | _ \<Rightarrow> None)"
| "proc_step (PrGate n) b =
    (if \<not> n < length (procs b) then None
     else case pc (procs b ! n) of
       PGated it \<Rightarrow> (case waitWhilePaused False b of
           None \<Rightarrow> Some (set_pc n (PHandle it) (b\<lparr>handled := handled b @ [it]\<rparr>))
         | Some (e, g) \<Rightarrow> Some (set_pc n (PWait it e g) b))
     | _ \<Rightarrow> None)"
| "proc_step (PrReleased n) b =
    (if \<not> n < length (procs b) then None
     else case pc (procs b ! n) of
       PWait it e g \<Rightarrow>
         if event_closed (evs b ! e) g
         then Some (set_pc n (PHandle it) ((released False e b)\<lparr>handled := handled b @ [it]\<rparr>))
         else None
     | _ \<Rightarrow> None)"
| "proc_step (PrGiveUp n) b =
    (if \<not> n < length (procs b) then None
     else case pc (procs b ! n) of
       PWait it e g \<Rightarrow>
         if ctxDone (procs b ! n)
         then Some (set_pc n PExited (b\<lparr>abandoned := abandoned b @ [it]\<rparr>)) else None
     | _ \<Rightarrow> None)"
| "proc_step (PrProcess n) b =
    (if \<not> n < length (procs b) then None
     else case pc (procs b ! n) of
       PHandle it \<Rightarrow> (case Base_ProcessFrame (item_frame it) b of
           (b', None) \<Rightarrow> Some (set_pc n (PFinish it) b')
         | (b', Some j) \<Rightarrow> None)
     | _ \<Rightarrow> None)"
| "proc_step (PrFinish n cl err) b =
    (if \<not> n < length (procs b) then None
     else case pc (procs b ! n) of
       PFinish it \<Rightarrow> Some (set_pc n PTop (processFrame_return cl err b))
     | _ \<Rightarrow> None)"
| "proc_step _ b = None"

definition base_step :: "action \<Rightarrow> base \<Rightarrow> base option" where
  "base_step a b =
    (case env_step a b of
       Some b' \<Rightarrow> Some b'
     | None \<Rightarrow> (case input_step a b of Some b' \<Rightarrow> Some b' | None \<Rightarrow> proc_step a b))"

text \<open>A processor that has been built and set up, and every state it can get into.\<close>

inductive base_reach :: "base \<Rightarrow> bool" where
  base_init: "base_reach (Setup_base st (New_base nm False))"
| base_next: "base_reach b \<Longrightarrow> base_step a b = Some b' \<Longrightarrow> base_reach b'"

fun base_run :: "action list \<Rightarrow> base \<Rightarrow> base option" where
  "base_run [] b = Some b"
| "base_run (a # as) b = (case base_step a b of None \<Rightarrow> None | Some b' \<Rightarrow> base_run as b')"

section \<open>What pausing leaves alone\<close>

text \<open>Everything but the gates, the usability and the metrics switch.\<close>

definition flow :: "base \<Rightarrow> _" where
  "flow b = ((directMode b, baseDone b, inputQueue b, startGate b, procQueue b),
    (procRunning b, procTask b, procs b, curFrame b, inp b),
    (arrived b, handled b, dropped b, abandoned b, timedOut b, cleaned b))"

named_theorems gate_defs "the operations that only move the pause gates"

lemmas gate_operations [gate_defs] =
  set_ev_def PauseProcessingFrames_def PauseProcessingSystemFrames_def ResumeProcessingFrames_def
  ResumeProcessingSystemFrames_def resumeProcessingAllFrames_def released_def pauseIfAddressed_def
  resumeIfAddressed_def applyPendingResume_def watchUntilReady_def cancelPauseWatcher_def
  PauseProcessingAllFramesUntil_def SetUsable_def Let_def

lemma flow_gates:
  "flow (PauseProcessingFrames b) = flow b" "flow (PauseProcessingSystemFrames b) = flow b"
  "flow (ResumeProcessingFrames b) = flow b" "flow (ResumeProcessingSystemFrames b) = flow b"
  "flow (resumeProcessingAllFrames b) = flow b" "flow (released t e b) = flow b"
  "flow (pauseIfAddressed target b) = flow b" "flow (resumeIfAddressed target b) = flow b"
  "flow (applyPendingResume b) = flow b" "flow (watchUntilReady b) = flow b"
  "flow (fst (SetUsable u b)) = flow b"
  by (simp_all add: flow_def gate_defs split: option.split)

lemma flow_watch:
  "flow (cancelPauseWatcher b) = flow b" "flow (PauseProcessingAllFramesUntil b) = flow b"
  using flow_gates by (simp_all add: cancelPauseWatcher_def PauseProcessingAllFramesUntil_def Let_def flow_def)

lemma flow_PushErrorFrame: "flow (fst (PushErrorFrame cl ef force b)) = flow b"
  by (simp add: PushErrorFrame_def Let_def case_prod_beta flow_gates)

lemma flow_return: "flow (processFrame_return cl err b) = flow b"
  by (simp add: processFrame_return_def PushError_def flow_gates flow_PushErrorFrame split: option.split)

lemmas flow_fields [simp] =
  flow_gates [unfolded flow_def prod.inject] flow_watch [unfolded flow_def prod.inject]
  flow_return [unfolded flow_def prod.inject]

end
