(* ===== verification/Processor_Invariants.thy ===== *)
theory Processor_Invariants
  imports Processor_Core
begin

text \<open>
  Invariants of the processor's transition system: the shape of the state, that the StartFrame comes
  first, that data and control frames keep their order, and that no frame disappears unaccounted for.
\<close>

section \<open>Case analysis\<close>

lemma base_stepE:
  assumes "base_step a b = Some b'"
  obtains (env) "env_step a b = Some b'" | (input) "input_step a b = Some b'"
    | (proc) "proc_step a b = Some b'"
  using assms by (auto simp: base_step_def split: option.splits)

lemma base_run_reach: "base_reach b \<Longrightarrow> base_run as b = Some b' \<Longrightarrow> base_reach b'"
proof (induction as arbitrary: b)
  case Nil
  then show ?case by simp
next
  case (Cons a as)
  then show ?case by (auto split: option.splits intro: base_next)
qed

lemmas process_defs =
  Base_ProcessFrame_def start_base_def cancel_def startInterruption_def cancelProcessTask_def
  createProcessTask_def resetProcessTask_def reset_procQueue_def after_join_def

lemmas frame_splits =
  frame_body.splits system_go.splits control_go.splits

section \<open>Shape\<close>

fun holds_system :: "input_pc \<Rightarrow> bool" where
  "holds_system (IHandle it) \<longleftrightarrow> isSystemFrame (item_frame it)"
| "holds_system (IAwait it j k) \<longleftrightarrow> isSystemFrame (item_frame it)"
| "holds_system (IFinish it) \<longleftrightarrow> isSystemFrame (item_frame it)"
| "holds_system _ \<longleftrightarrow> True"

fun holds_data :: "proc_pc \<Rightarrow> bool" where
  "holds_data (PTook it) \<longleftrightarrow> \<not> isSystemFrame (item_frame it)"
| "holds_data (PGated it) \<longleftrightarrow> \<not> isSystemFrame (item_frame it)"
| "holds_data (PWait it e g) \<longleftrightarrow> \<not> isSystemFrame (item_frame it)"
| "holds_data (PHandle it) \<longleftrightarrow> \<not> isSystemFrame (item_frame it)"
| "holds_data (PFinish it) \<longleftrightarrow> \<not> isSystemFrame (item_frame it)"
| "holds_data _ \<longleftrightarrow> True"

definition shape :: "base \<Rightarrow> bool" where
  "shape b \<longleftrightarrow> \<not> directMode b \<and> queue_inv (inputQueue b) \<and> queue_inv (procQueue b) \<and>
     start (procQueue b) = [] \<and> system (procQueue b) = [] \<and>
     (procRunning b \<longrightarrow> procTask b < length (procs b)) \<and>
     (\<forall>it j k. inp b = IAwait it j k \<longrightarrow> j < length (procs b)) \<and>
     holds_system (inp b) \<and> list_all (\<lambda>p. holds_data (pc p)) (procs b)"

lemma shape_flow: "flow b = flow b' \<Longrightarrow> shape b = shape b'"
  by (simp add: shape_def flow_def)

lemma queue_push_data:
  "\<not> isSystemFrame (item_frame it) \<Longrightarrow> queue_push it q = q\<lparr>other := other q @ [it]\<rparr>"
  by (auto simp: queue_push_def)

lemma queue_inv_append:
  "queue_inv q \<Longrightarrow> \<not> isSystemFrame (item_frame it) \<Longrightarrow> queue_inv (q\<lparr>other := other q @ [it]\<rparr>)"
  using queue_push_data [of it q] queue_inv_push [of q it] by metis

lemma queue_get_data:
  assumes "queue_inv q" "start q = []" "system q = []" "queue_get q = Some (it, q')"
  shows "other q = it # other q'" "start q' = []" "system q' = []" "\<not> isSystemFrame (item_frame it)"
  using assms by (auto simp: queue_get_def queue_inv_def tier_def split: list.splits if_splits)

lemma list_all_update: "list_all P xs \<Longrightarrow> P x \<Longrightarrow> list_all P (xs[n := x])"
  by (simp add: list_all_iff) (metis in_set_conv_nth length_list_update nth_list_update_eq nth_list_update_neq nth_mem)

lemma Base_ProcessFrame_data:
  "\<not> isSystemFrame f \<Longrightarrow> flow (fst (Base_ProcessFrame f b)) = flow b \<and> snd (Base_ProcessFrame f b) = None"
  by (auto simp: Base_ProcessFrame_def frame_cat flow_gates split: frame_splits)

lemma shape_init: "shape (Setup_base st (New_base nm False))"
  by (simp add: shape_def Setup_base_def New_base_def newQueue_def Let_def
      queue_inv_def)

lemma shape_QueueFrame: "shape b \<Longrightarrow> shape (QueueFrame it b)"
  by (auto simp: shape_def QueueFrame_def Let_def)

lemma shape_reset: "shape b \<Longrightarrow> shape (reset_procQueue b)"
  by (simp add: shape_def reset_procQueue_def queue_reset_def [of "procQueue b"]
      queue_inv_reset [unfolded queue_reset_def])

lemma flow_resetProcessTask:
  "shape b \<Longrightarrow> flow (resetProcessTask b) = flow (reset_procQueue b)"
  by (simp add: shape_def resetProcessTask_def reset_procQueue_def flow_def)

lemma shape_resetProcessTask: "shape b \<Longrightarrow> shape (resetProcessTask b)"
  using shape_flow [OF flow_resetProcessTask] shape_reset by blast

lemma shape_create: "shape b \<Longrightarrow> shape (createProcessTask b)"
  using shape_resetProcessTask [of b]
  by (auto simp: createProcessTask_def Let_def shape_def less_Suc_eq)

lemma shape_cancelProcessTask: "shape b \<Longrightarrow> shape (fst (cancelProcessTask b))"
  by (auto simp: cancelProcessTask_def shape_def list_all_length nth_list_update)

lemma cancelProcessTask_Some:
  "shape b \<Longrightarrow> snd (cancelProcessTask b) = Some j \<Longrightarrow> j < length (procs (fst (cancelProcessTask b)))"
  by (auto simp: cancelProcessTask_def shape_def split: if_splits)

lemma shape_cancelInputTask: "shape b \<Longrightarrow> shape (cancelInputTask b)"
  by (auto simp: cancelInputTask_def shape_def list_all_length)

lemma shape_env: "env_step a b = Some b' \<Longrightarrow> shape b \<Longrightarrow> shape b'"
proof (cases a)
  case CleanupBegin
  assume "env_step a b = Some b'" and "shape b"
  moreover from \<open>shape b\<close> have "shape ((cancelPauseWatcher b)\<lparr>cleaned := True\<rparr>)"
    by (simp add: shape_def)
  ultimately show ?thesis using CleanupBegin by (auto intro: shape_cancelProcessTask)
qed (auto simp: shape_QueueFrame shape_cancelInputTask BroadcastInterruption_def
    shape_resetProcessTask shape_flow [OF flow_gates(1)] shape_flow [OF flow_gates(2)]
    shape_flow [OF flow_gates(3)] shape_flow [OF flow_gates(4)] shape_flow [OF flow_gates(10)]
    shape_flow [OF flow_gates(11)] shape_flow [OF flow_watch(2)] split: if_splits)

text \<open>What \<open>Base.ProcessFrame\<close> can do to the queues and the goroutines.\<close>

lemma flow_create: "flow b = flow c \<Longrightarrow> flow (createProcessTask b) = flow (createProcessTask c)"
  by (simp add: flow_def createProcessTask_def resetProcessTask_def reset_procQueue_def Let_def)

lemma flow_cancelProcessTask:
  "flow b = flow c \<Longrightarrow> flow (fst (cancelProcessTask b)) = flow (fst (cancelProcessTask c))"
  by (simp add: flow_def cancelProcessTask_def)

lemma flow_start_base:
  "procRunning b \<Longrightarrow> flow (createProcessTask b) = flow b"
  by (simp add: createProcessTask_def)

lemma startInterruption_cases:
  assumes "shape b" and "startInterruption b = (b', r)"
  obtains (create) "r = None" "\<not> procRunning b" "flow b' = flow (createProcessTask b)"
    | (reset) "r = None" "isUninterruptible_cur (curFrame b)" "flow b' = flow (reset_procQueue b)"
    | (wait) "procRunning b" "\<not> isUninterruptible_cur (curFrame b)" "r = Some (procTask b)"
        "flow b' = flow (fst (cancelProcessTask b))"
  using assms by (auto simp: startInterruption_def cancelProcessTask_def shape_def split: if_splits)

lemma Base_ProcessFrame_cases:
  assumes sh: "shape b" and eq: "Base_ProcessFrame f b = (b', r)"
  obtains (gates) "r = None" "flow b' = flow b"
    | (create) "r = None" "\<not> procRunning b" "flow b' = flow (createProcessTask b)"
    | (reset) "r = None" "flow b' = flow (reset_procQueue b)"
    | (wait) k where "procRunning b" "r = Some (procTask b, k)"
        "flow b' = flow (fst (cancelProcessTask b))"
proof -
  consider (st) i ou where "body f = Sys (StartFrame i ou)" | (int) "body f = Sys InterruptionFrame"
    | (can) rs where "body f = Sys (CancelFrame rs)"
    | (oth) "r = None" "flow b' = flow b"
    using eq by (auto simp: Base_ProcessFrame_def flow_gates split: frame_splits)
  then show thesis
  proof cases
    case st
    with eq have r: "r = None" and b': "b' = createProcessTask (b\<lparr>armTTFB := True\<rparr>)"
      by (auto simp: Base_ProcessFrame_def start_base_def)
    have fl: "flow b' = flow (createProcessTask b)"
      unfolding b' by (rule flow_create) (simp add: flow_def)
    show thesis
    proof (cases "procRunning b")
      case True
      with fl r show thesis by (intro gates) (simp_all add: flow_start_base)
    next
      case False
      with fl r show thesis by (intro create)
    qed
  next
    case int
    with eq obtain j where j: "startInterruption b = (b', j)" "r = map_option (\<lambda>j. (j, ThenCreate)) j"
      by (cases "startInterruption b") (auto simp: Base_ProcessFrame_def)
    from sh j(1) show thesis
      by (cases rule: startInterruption_cases) (use j(2) create reset wait in auto)
  next
    case can
    let ?c = "b\<lparr>canceling := True\<rparr>"
    from can eq have b': "b' = fst (cancelProcessTask ?c)"
      and r: "r = map_option (\<lambda>j. (j, ThenNothing)) (snd (cancelProcessTask ?c))"
      by (auto simp: Base_ProcessFrame_def cancel_def split: prod.splits)
    have fl: "flow b' = flow (fst (cancelProcessTask b))"
      unfolding b' by (rule flow_cancelProcessTask) (simp add: flow_def)
    from sh have nd: "\<not> directMode b" by (simp add: shape_def)
    show thesis
    proof (cases "procRunning b")
      case True
      with r fl nd show thesis by (intro wait) (auto simp: cancelProcessTask_def)
    next
      case False
      with r fl nd show thesis by (intro gates) (auto simp: cancelProcessTask_def)
    qed
  next
    case oth
    then show thesis by (rule gates)
  qed
qed

lemma shape_Base_ProcessFrame:
  assumes "shape b" and "Base_ProcessFrame f b = (b', r)"
  shows "shape b'"
  using assms
proof (cases rule: Base_ProcessFrame_cases)
  case gates
  then show ?thesis using assms(1) shape_flow by blast
next
  case create
  then show ?thesis using shape_create [OF assms(1)] shape_flow by blast
next
  case reset
  then show ?thesis using shape_reset [OF assms(1)] shape_flow by blast
next
  case (wait k)
  then show ?thesis using shape_cancelProcessTask [OF assms(1)] shape_flow by blast
qed

lemma shape_inp: "shape b \<Longrightarrow> holds_system p \<Longrightarrow> (\<And>it j k. p \<noteq> IAwait it j k) \<Longrightarrow> shape (b\<lparr>inp := p\<rparr>)"
  by (simp add: shape_def)

lemma shape_abandon [simp]: "shape (b\<lparr>abandoned := xs\<rparr>) = shape b"
  by (simp add: shape_def)

lemma shape_handled [simp]: "shape (b\<lparr>handled := xs\<rparr>) = shape b"
  by (simp add: shape_def)

lemma shape_curFrame [simp]: "shape (b\<lparr>curFrame := f\<rparr>) = shape b"
  by (simp add: shape_def)

lemma shape_released [simp]: "shape (released t e b) = shape b"
  by (rule shape_flow) (rule flow_gates)

lemma shape_return [simp]: "shape (processFrame_return cl err b) = shape b"
  by (rule shape_flow) (rule flow_return)

lemma shape_dispatch: "shape b \<Longrightarrow> shape (input_dispatch it b)"
  by (auto simp: input_dispatch_def shape_def queue_push_data queue_inv_append)

lemma shape_after_join: "shape b \<Longrightarrow> shape (after_join k b)"
  by (simp add: after_join_def shape_create split: after_cancel.split)

lemma shape_set_pc: "shape b \<Longrightarrow> holds_data c \<Longrightarrow> shape (set_pc n c b)"
  by (auto simp: set_pc_def shape_def list_all_update)

lemma shape_flowI: "shape b \<Longrightarrow> flow b' = flow b \<Longrightarrow> shape b'"
  using shape_flow by blast

lemma shape_input:
  assumes "input_step a b = Some b'" and sh: "shape b"
  shows "shape b'"
  using assms(1)
proof (cases a)
  case InTake
  with assms show ?thesis
    by (auto simp: shape_def intro: queue_inv_get split: option.splits if_splits)
next
  case InReleased
  with assms show ?thesis
    by (auto intro: shape_dispatch shape_flowI [OF sh flow_gates(6)] split: input_pc.splits if_splits)
next
  case InGate
  with assms show ?thesis
    by (auto intro: shape_dispatch intro!: shape_inp 
        split: input_pc.splits option.splits)
next
  case InProcess
  with assms(1) obtain it where it: "inp b = IHandle it" by (auto split: input_pc.splits)
  obtain b1 r where b1: "Base_ProcessFrame (item_frame it) b = (b1, r)" by fastforce
  have sys: "isSystemFrame (item_frame it)" using sh it by (simp add: shape_def)
  from sh b1 have "shape b1" by (rule shape_Base_ProcessFrame)
  moreover have "j < length (procs b1)" if "r = Some (j, k)" for j k
    using sh b1
  proof (cases rule: Base_ProcessFrame_cases)
    case (wait k')
    with that sh show ?thesis
      by (auto simp: flow_def cancelProcessTask_def shape_def)
  qed (use that in auto)
  ultimately show ?thesis using assms(1) InProcess it b1 sys
    by (auto simp: shape_def split: option.splits)
next
  case InJoined
  with assms shape_after_join [OF sh] show ?thesis
    by (auto simp: shape_def split: input_pc.splits if_splits)
next
  case InTimeout
  with assms shape_after_join [OF sh] show ?thesis
    by (auto simp: shape_def split: input_pc.splits)
next
  case (InFinish cl err)
  with assms show ?thesis
    by (auto simp: shape_def split: input_pc.splits)
qed (use sh in \<open>auto intro!: shape_inp simp: shape_abandon split: if_splits input_pc.splits\<close>)

lemma shape_proc:
  assumes "proc_step a b = Some b'" and sh: "shape b"
  shows "shape b'"
proof -
  have data: "holds_data (pc (procs b ! n))" if "n < length (procs b)" for n
    using sh that by (simp add: shape_def list_all_length)
  from assms(1) show ?thesis
  proof (cases a)
    case (PrTake n)
    with assms obtain it q where g: "queue_get (procQueue b) = Some (it, q)"
      and b': "b' = set_pc n (PTook it) (b\<lparr>procQueue := q\<rparr>)"
      by (auto split: option.splits if_splits)
    from sh have "queue_inv (procQueue b)" "start (procQueue b) = []" "system (procQueue b) = []"
      by (simp_all add: shape_def)
    from queue_get_data [OF this g] queue_inv_get [OF this(1) g] sh
    have "shape (b\<lparr>procQueue := q\<rparr>)" and "\<not> isSystemFrame (item_frame it)"
      by (simp_all add: shape_def)
    then show ?thesis unfolding b' by (intro shape_set_pc) simp_all
  next
    case (PrProcess n)
    with assms obtain it b1 where "n < length (procs b)" "pc (procs b ! n) = PHandle it"
      "Base_ProcessFrame (item_frame it) b = (b1, None)" "b' = set_pc n (PFinish it) b1"
      by (auto split: proc_pc.splits option.splits if_splits prod.splits)
    with shape_Base_ProcessFrame [OF sh this(3)] data [OF this(1)] show ?thesis
      by (auto intro!: shape_set_pc)
  next
    case (PrReleased n)
    with assms data [of n] show ?thesis
      by (auto intro!: shape_set_pc split: proc_pc.splits if_splits)
  next
    case (PrFinish n cl err)
    with assms show ?thesis
      by (auto intro!: shape_set_pc 
          split: proc_pc.splits if_splits)
  next
    case (PrGate n)
    with assms data [of n] show ?thesis
      by (auto intro!: shape_set_pc 
          split: proc_pc.splits if_splits option.splits)
  next
    case (PrRecord n)
    with assms data [of n] show ?thesis
      by (auto intro!: shape_set_pc split: proc_pc.splits if_splits)
  next
    case (PrGiveUp n)
    with assms show ?thesis
      by (auto intro!: shape_set_pc split: proc_pc.splits if_splits)
  qed (use sh in \<open>auto intro!: shape_set_pc split: if_splits\<close>)
qed

lemma shape_step: "base_step a b = Some b' \<Longrightarrow> shape b \<Longrightarrow> shape b'"
  by (erule base_stepE) (auto intro: shape_env shape_input shape_proc)

lemma shape_reach: "base_reach b \<Longrightarrow> shape b"
  by (induction rule: base_reach.induct) (auto intro: shape_init shape_step)

end
