(* ===== verification/Processor_Order.thy ===== *)
theory Processor_Order
  imports Processor_Invariants
begin

text \<open>
  What becomes of the frames given to a processor: every one of them is accounted for, an
  interruption drops only what it may, and data and control frames are handled in the order they
  arrived.
\<close>

section \<open>Frames in hand\<close>

fun held_in :: "input_pc \<Rightarrow> item list" where
  "held_in (ITook it) = [it]"
| "held_in (IWait it e g) = [it]"
| "held_in _ = []"

fun held_pr :: "proc_pc \<Rightarrow> item list" where
  "held_pr (PTook it) = [it]"
| "held_pr (PGated it) = [it]"
| "held_pr (PWait it e g) = [it]"
| "held_pr _ = []"

definition held_procs :: "proc list \<Rightarrow> item list" where
  "held_procs ps = concat (map (\<lambda>p. held_pr (pc p)) ps)"

lemma held_procs_append [simp]: "held_procs (ps @ qs) = held_procs ps @ held_procs qs"
  by (simp add: held_procs_def)

lemma held_procs_Cons [simp]: "held_procs (p # ps) = held_pr (pc p) @ held_procs ps"
  by (simp add: held_procs_def)

lemma held_procs_Nil [simp]: "held_procs [] = []"
  by (simp add: held_procs_def)

lemma held_procs_ctx [simp]: "held_procs (map (ctxDone_update h) ps) = held_procs ps"
  by (simp add: held_procs_def comp_def)

lemma held_procs_same:
  "held_pr (pc p) = held_pr (pc (ps ! n)) \<Longrightarrow> held_procs (ps[n := p]) = held_procs ps"
  unfolding held_procs_def
  by (rule arg_cong [of _ _ concat], rule nth_equalityI, simp, case_tac "i = n") simp_all

lemma mset_held_procs:
  "n < length ps \<Longrightarrow>
   mset (held_procs (ps[n := p])) + mset (held_pr (pc (ps ! n))) =
   mset (held_procs ps) + mset (held_pr (pc p))"
proof (induction ps arbitrary: n)
  case Nil
  then show ?case by simp
next
  case (Cons q ps)
  then show ?case by (cases n) (simp_all add: union_ac)
qed

section \<open>Nothing disappears\<close>

definition content :: "base \<Rightarrow> item multiset" where
  "content b = mset (handled b) + mset (queue_items (inputQueue b)) + mset (held_in (inp b)) +
     mset (queue_items (procQueue b)) + mset (held_procs (procs b)) + mset (dropped b) +
     mset (abandoned b)"

definition accounted :: "base \<Rightarrow> bool" where
  "accounted b \<longleftrightarrow> content b = mset (arrived b) \<and> (\<forall>it \<in> set (dropped b). \<not> survives it)"

lemma accounted_flow: "flow b = flow c \<Longrightarrow> accounted b = accounted c"
  by (simp add: accounted_def content_def flow_def)

lemma accounted_flowI: "accounted b \<Longrightarrow> flow c = flow b \<Longrightarrow> accounted c"
  using accounted_flow by blast

lemma accounted_QueueFrame: "accounted b \<Longrightarrow> shape b \<Longrightarrow> accounted (QueueFrame it b)"
  by (auto simp: accounted_def content_def QueueFrame_def Let_def pq.mset_push shape_def)

lemma accounted_reset: "accounted b \<Longrightarrow> shape b \<Longrightarrow> accounted (reset_procQueue b)"
proof -
  assume a: "accounted b" and sh: "shape b"
  let ?u = "\<lambda>it. isUninterruptible (item_frame it)" and ?q = "procQueue b"
  have "mset (queue_items ?q) = mset (queue_items (queue_reset ?q)) + mset (filter (\<lambda>it. \<not> ?u it) (other ?q))"
    using sh by (simp add: shape_def queue_items_def queue_reset_def)
  moreover have "\<not> survives it" if "it \<in> set (other ?q)" "\<not> ?u it" for it
    using sh that by (auto simp: shape_def queue_inv_def list_all_iff tier_2_survives)
  ultimately show ?thesis using a
    by (auto simp: accounted_def content_def reset_procQueue_def ac_simps)
qed

lemma accounted_create: "accounted b \<Longrightarrow> shape b \<Longrightarrow> accounted (createProcessTask b)"
proof -
  assume a: "accounted b" and sh: "shape b"
  have "accounted (resetProcessTask b)"
    using accounted_reset [OF a sh] flow_resetProcessTask [OF sh] by (rule accounted_flowI)
  then show ?thesis
    by (simp add: createProcessTask_def Let_def accounted_def content_def a [unfolded accounted_def content_def])
qed

lemma accounted_cancelProcessTask [simp]:
  "accounted (fst (cancelProcessTask b)) = accounted b"
  by (simp add: accounted_def content_def cancelProcessTask_def held_procs_same)

lemma accounted_cancelInputTask [simp]: "accounted (cancelInputTask b) = accounted b"
  by (simp add: accounted_def content_def cancelInputTask_def)

lemma accounted_inp:
  "accounted b \<Longrightarrow> held_in p = held_in (inp b) \<Longrightarrow> accounted (b\<lparr>inp := p\<rparr>)"
  by (simp add: accounted_def content_def)

lemma accounted_cleaned [simp]: "accounted (b\<lparr>cleaned := t\<rparr>) = accounted b"
  by (simp add: accounted_def content_def)

lemma accounted_timedOut [simp]: "accounted (b\<lparr>timedOut := t\<rparr>) = accounted b"
  by (simp add: accounted_def content_def)

lemma accounted_curFrame [simp]: "accounted (b\<lparr>curFrame := f\<rparr>) = accounted b"
  by (simp add: accounted_def content_def)

lemma accounted_dispatch:
  "accounted b \<Longrightarrow> shape b \<Longrightarrow> held_in (inp b) = [it] \<Longrightarrow> accounted (input_dispatch it b)"
  by (auto simp: accounted_def content_def input_dispatch_def pq.mset_push shape_def)

lemma accounted_set_pc:
  assumes "accounted b" and "n < length (procs b)" and "held_pr c = held_pr (pc (procs b ! n))"
  shows "accounted (set_pc n c b)"
  using assms by (simp add: set_pc_def accounted_def content_def held_procs_same)

lemma content_release:
  assumes "n < length (procs b)" and "held_pr (pc (procs b ! n)) = [it]" and "held_pr c = []"
  shows "add_mset it (mset (held_procs ((procs b)[n := (procs b ! n)\<lparr>pc := c\<rparr>]))) =
         mset (held_procs (procs b))"
  using mset_held_procs [OF assms(1), of "(procs b ! n)\<lparr>pc := c\<rparr>"] assms(2,3) by simp

lemma accounted_handle:
  assumes "accounted b" and "n < length (procs b)" and "held_pr (pc (procs b ! n)) = [it]"
    and "held_pr c = []"
  shows "accounted (set_pc n c (b\<lparr>handled := handled b @ [it]\<rparr>))"
    and "accounted (set_pc n c (b\<lparr>abandoned := abandoned b @ [it]\<rparr>))"
  using assms(1) unfolding set_pc_def accounted_def content_def
  by (simp_all add: content_release [OF assms(2-4), symmetric])


lemma accounted_Base_ProcessFrame:
  assumes "accounted b" and "shape b" and "Base_ProcessFrame f b = (b', r)"
  shows "accounted b'"
  using assms(2,3)
proof (cases rule: Base_ProcessFrame_cases)
  case gates
  then show ?thesis using assms(1) accounted_flowI by blast
next
  case create
  then show ?thesis using accounted_create [OF assms(1,2)] accounted_flowI by blast
next
  case reset
  then show ?thesis using accounted_reset [OF assms(1,2)] accounted_flowI by blast
next
  case (wait k)
  moreover have "accounted (fst (cancelProcessTask b))" using assms(1) by simp
  ultimately show ?thesis using accounted_flowI by blast
qed

lemma inp_Base_ProcessFrame:
  assumes "shape b" and "Base_ProcessFrame f b = (b', r)"
  shows "inp b' = inp b"
  using assms
  by (cases rule: Base_ProcessFrame_cases)
    (auto simp: flow_def createProcessTask_def resetProcessTask_def reset_procQueue_def
      cancelProcessTask_def Let_def)

lemma inp_after_join [simp]: "inp (after_join k b) = inp b"
  by (simp add: after_join_def createProcessTask_def resetProcessTask_def reset_procQueue_def
      Let_def split: after_cancel.split)

lemma accounted_after_join: "accounted b \<Longrightarrow> shape b \<Longrightarrow> accounted (after_join k b)"
  by (simp add: after_join_def accounted_create split: after_cancel.split)

lemma accounted_env:
  assumes "env_step a b = Some b'" and ac: "accounted b" and sh: "shape b"
  shows "accounted b'"
  using assms(1)
proof (cases a)
  case CallBroadcastInterruption
  with assms show ?thesis
    using accounted_flowI [OF accounted_reset [OF ac sh] flow_resetProcessTask [OF sh]]
    by (simp add: BroadcastInterruption_def)
qed (auto simp: ac sh accounted_QueueFrame accounted_flow [OF flow_watch(1)] intro: accounted_flowI [OF ac] flow_gates flow_watch
    split: if_splits)

lemma accounted_input:
  assumes "input_step a b = Some b'" and ac: "accounted b" and sh: "shape b"
  shows "accounted b'"
  using assms(1)
proof (cases a)
  case InTake
  with assms obtain it q where "inp b = IGet" "queue_get (inputQueue b) = Some (it, q)"
    "b' = b\<lparr>inputQueue := q, inp := ITook it\<rparr>"
    by (auto split: option.splits if_splits)
  with ac queue_get_Some [OF this(2)] show ?thesis by (simp add: accounted_def content_def)
next
  case InReleased
  with assms show ?thesis
    by (auto intro!: accounted_dispatch accounted_flowI [OF ac flow_gates(6)] shape_released [THEN iffD2]
        split: input_pc.splits if_splits)
next
  case InProcess
  with assms(1) obtain it where it: "inp b = IHandle it" by (auto split: input_pc.splits)
  obtain b1 r where b1: "Base_ProcessFrame (item_frame it) b = (b1, r)" by fastforce
  with InProcess assms(1) it accounted_Base_ProcessFrame [OF ac sh b1] inp_Base_ProcessFrame [OF sh b1]
  show ?thesis by (auto intro!: accounted_inp split: option.splits)
next
  case InTimeout
  with assms accounted_after_join [OF ac sh] show ?thesis
    by (auto simp: accounted_def content_def split: input_pc.splits)
next
  case (InFinish cl err)
  with assms accounted_flowI [OF ac flow_return] show ?thesis
    by (auto intro!: accounted_inp split: input_pc.splits)
next
  case InGiveUp
  with assms show ?thesis
    by (auto simp: accounted_def content_def split: input_pc.splits if_splits)
qed (auto intro!: accounted_inp accounted_dispatch accounted_after_join simp: ac sh
    split: if_splits input_pc.splits option.splits)

lemma accounted_proc:
  assumes "proc_step a b = Some b'" and ac: "accounted b" and sh: "shape b"
  shows "accounted b'"
  using assms(1)
proof (cases a)
  case (PrTake n)
  with assms obtain it q where g: "n < length (procs b)" "pc (procs b ! n) = PGet"
    "queue_get (procQueue b) = Some (it, q)" "b' = set_pc n (PTook it) (b\<lparr>procQueue := q\<rparr>)"
    by (auto split: option.splits if_splits)
  with ac queue_get_Some [OF g(3)] mset_held_procs [OF g(1), of "(procs b ! n)\<lparr>pc := PTook it\<rparr>"]
  show ?thesis by (simp add: accounted_def content_def set_pc_def)
next
  case (PrProcess n)
  with assms obtain it b1 where g: "n < length (procs b)" "pc (procs b ! n) = PHandle it"
    "Base_ProcessFrame (item_frame it) b = (b1, None)" "b' = set_pc n (PFinish it) b1"
    by (auto split: proc_pc.splits option.splits if_splits prod.splits)
  from sh g(1,2) have "\<not> isSystemFrame (item_frame it)"
    by (auto simp: shape_def list_all_length dest: spec [of _ n])
  from Base_ProcessFrame_data [OF this, of b] g(3) have fl: "flow b1 = flow b" by simp
  then have "procs b1 = procs b" by (simp add: flow_def)
  with g accounted_flowI [OF ac fl] show ?thesis by (auto intro!: accounted_set_pc)
next
  case (PrReleased n)
  with assms show ?thesis
    using accounted_handle(1) [OF accounted_flowI [OF ac flow_gates(6)], of n]
    by (auto split: proc_pc.splits if_splits)
next
  case (PrGate n)
  with assms show ?thesis
    by (auto intro: accounted_set_pc accounted_handle(1) split: proc_pc.splits if_splits option.splits)
next
  case (PrGiveUp n)
  with assms show ?thesis
    by (auto intro!: accounted_handle(2) split: proc_pc.splits if_splits)
next
  case (PrFinish n cl err)
  with assms accounted_flowI [OF ac flow_return] show ?thesis
    by (auto intro!: accounted_set_pc split: proc_pc.splits if_splits)
qed (auto intro!: accounted_set_pc simp: ac split: if_splits proc_pc.splits)

lemma accounted_init: "accounted (Setup_base st (New_base nm False))"
  by (simp add: accounted_def content_def Setup_base_def New_base_def Let_def)

lemma accounted_reach: "base_reach b \<Longrightarrow> accounted b"
proof (induction rule: base_reach.induct)
  case (base_next b a b')
  from shape_reach [OF base_next(1)] have "shape b" .
  with base_next show ?case
    by (auto elim!: base_stepE intro: accounted_env accounted_input accounted_proc)
qed (rule accounted_init)


section \<open>The StartFrame comes first\<close>

fun start_ready :: "bool \<Rightarrow> queue \<Rightarrow> input_pc \<Rightarrow> bool" where
  "start_ready gate q IGate \<longleftrightarrow> (gate \<longrightarrow> start q \<noteq> [])"
| "start_ready gate q IGet \<longleftrightarrow> start q \<noteq> []"
| "start_ready gate q (ITook it) \<longleftrightarrow> isStartFrame (item_frame it)"
| "start_ready gate q (IWait it e g) \<longleftrightarrow> isStartFrame (item_frame it)"
| "start_ready gate q IExited \<longleftrightarrow> True"
| "start_ready gate q _ \<longleftrightarrow> False"

definition start_first :: "base \<Rightarrow> bool" where
  "start_first b \<longleftrightarrow>
    (if handled b = [] then procs b = [] \<and> start_ready (ev_set (startGate b)) (inputQueue b) (inp b)
     else isStartFrame (item_frame (hd (handled b))))"

lemma start_first_flow: "flow b = flow c \<Longrightarrow> start_first b = start_first c"
  by (simp add: start_first_def flow_def)

lemma start_first_flowI: "start_first b \<Longrightarrow> flow c = flow b \<Longrightarrow> start_first c"
  using start_first_flow by blast

lemma start_ready_push: "start_ready g q p \<Longrightarrow> start_ready g (queue_push it q) p"
  by (cases p) (auto simp: queue_push_def)

lemma start_first_QueueFrame: "start_first b \<Longrightarrow> start_first (QueueFrame it b)"
proof -
  assume "start_first b"
  moreover have "start_ready True (queue_push it (inputQueue b)) (inp b)"
    if "start_ready g (inputQueue b) (inp b)" "isStartFrame (item_frame it)" for g
    using that by (cases "inp b") (auto simp: queue_push_def)
  ultimately show ?thesis
    by (auto simp: start_first_def QueueFrame_def Let_def event_Set_def intro: start_ready_push)
qed

lemma start_first_nonempty: "handled b \<noteq> [] \<Longrightarrow> handled c = handled b \<Longrightarrow> start_first b \<Longrightarrow> start_first c"
  by (simp add: start_first_def)

lemma handled_process:
  "handled (createProcessTask b) = handled b" "handled (resetProcessTask b) = handled b"
  "handled (reset_procQueue b) = handled b" "handled (fst (cancelProcessTask b)) = handled b"
  "handled (after_join k b) = handled b"
  by (simp_all add: process_defs Let_def split: after_cancel.split)

lemma handled_Base_ProcessFrame:
  assumes "shape b" and "Base_ProcessFrame f b = (b', r)"
  shows "handled b' = handled b"
  using assms by (cases rule: Base_ProcessFrame_cases) (auto simp: flow_def handled_process)

lemma start_first_dispatch:
  assumes "start_first b" and "held_in (inp b) = [it]"
  shows "start_first (input_dispatch it b)"
  using assms by (cases "inp b") (auto simp: start_first_def input_dispatch_def split: if_splits)

lemma start_first_env:
  assumes "env_step a b = Some b'" and sf: "start_first b" and sh: "shape b"
  shows "start_first b'"
  using assms(1)
proof (cases a)
  case CleanupBegin
  with assms show ?thesis
    by (auto simp: start_first_def cancelProcessTask_def split: if_splits)
next
  case CallBroadcastInterruption
  with assms show ?thesis
    by (auto simp: start_first_def BroadcastInterruption_def resetProcessTask_def reset_procQueue_def
        split: if_splits)
next
  case CleanupEnd
  with assms show ?thesis by (auto simp: start_first_def cancelInputTask_def split: if_splits)
qed (auto simp: sf start_first_QueueFrame intro: start_first_flowI [OF sf] flow_gates flow_watch
    split: if_splits)

lemma start_first_input:
  assumes "input_step a b = Some b'" and sf: "start_first b" and sh: "shape b"
  shows "start_first b'"
  using assms(1)
proof (cases a)
  case InTake
  with assms obtain it q where g: "inp b = IGet" "queue_get (inputQueue b) = Some (it, q)"
    "b' = b\<lparr>inputQueue := q, inp := ITook it\<rparr>"
    by (auto split: option.splits if_splits)
  have "isStartFrame (item_frame it)" if "start (inputQueue b) \<noteq> []"
    using that g(2) sh
    by (auto simp: queue_get_def shape_def queue_inv_def tier_def neq_Nil_conv split: if_splits)
  with sf g show ?thesis by (auto simp: start_first_def split: if_splits)
next
  case InReleased
  with assms show ?thesis
    by (auto intro!: start_first_dispatch start_first_flowI [OF sf flow_gates(6)]
        split: input_pc.splits if_splits)
next
  case InGate
  with assms obtain it where it: "inp b = ITook it" by (auto split: input_pc.splits)
  have "start_first (b\<lparr>inp := IWait it e g\<rparr>)" for e g
    using sf it by (simp add: start_first_def split: if_splits)
  with InGate assms it show ?thesis by (auto intro!: start_first_dispatch split: option.splits)
next
  case InProcess
  with assms(1) obtain it where it: "inp b = IHandle it" by (auto split: input_pc.splits)
  obtain b1 r where b1: "Base_ProcessFrame (item_frame it) b = (b1, r)" by fastforce
  with sf it have "handled b \<noteq> []" by (auto simp: start_first_def)
  with InProcess assms(1) it b1 sf handled_Base_ProcessFrame [OF sh b1]
  show ?thesis by (auto elim!: start_first_nonempty split: option.splits)
next
  case InBlock
  with assms show ?thesis
    by (auto simp: start_first_def queue_get_None queue_items_def split: if_splits)
qed (use sf in \<open>auto simp: start_first_def handled_process split: if_splits input_pc.splits\<close>)

lemma start_first_proc:
  assumes "proc_step a b = Some b'" and sf: "start_first b" and sh: "shape b"
  shows "start_first b'"
proof -
  from assms(1) have "procs b \<noteq> []" by (cases a) (auto split: if_splits)
  with sf have ne: "handled b \<noteq> []" by (auto simp: start_first_def)
  have "\<exists>xs. handled b' = handled b @ xs"
    using assms(1)
    by (cases a) (auto simp: set_pc_def handled_Base_ProcessFrame [OF sh]
        split: if_splits option.splits proc_pc.splits prod.splits)
  with ne sf show ?thesis by (auto simp: start_first_def)
qed

lemma start_first_reach: "base_reach b \<Longrightarrow> start_first b"
proof (induction rule: base_reach.induct)
  case (base_next b a b')
  from shape_reach [OF base_next(1)] have "shape b" .
  with base_next show ?case
    by (auto elim!: base_stepE intro: start_first_env start_first_input start_first_proc)
qed (simp add: start_first_def Setup_base_def New_base_def Let_def newEvent_def)


section \<open>Data and control frames stay in order\<close>

definition is_data :: "item \<Rightarrow> bool" where
  "is_data it \<longleftrightarrow> \<not> isSystemFrame (item_frame it)"

text \<open>The data and control frames from the oldest to the newest.\<close>

definition line :: "base \<Rightarrow> item list" where
  "line b = filter is_data (handled b) @ held_procs (procs b) @ other (procQueue b) @
     filter is_data (held_in (inp b)) @ other (inputQueue b)"

text \<open>At most one process goroutine is alive: the running one, or the one being waited for.\<close>

definition alone :: "base \<Rightarrow> bool" where
  "alone b \<longleftrightarrow> (\<forall>i < length (procs b). pc (procs b ! i) \<noteq> PExited \<longrightarrow>
     i = procTask b \<and> (procRunning b \<or> (\<exists>it k. inp b = IAwait it i k)))"

definition ordered :: "base \<Rightarrow> bool" where
  "ordered b \<longleftrightarrow> (\<not> timedOut b \<and> \<not> cleaned b \<longrightarrow>
     alone b \<and> subseq (line b) (filter is_data (arrived b)))"

lemma ordered_flow: "flow b = flow c \<Longrightarrow> ordered b = ordered c"
  by (simp add: ordered_def alone_def line_def flow_def)

lemma ordered_flowI: "ordered b \<Longrightarrow> flow c = flow b \<Longrightarrow> ordered c"
  using ordered_flow by blast

lemma held_procs_single:
  "n < length ps \<Longrightarrow> (\<And>i. i < length ps \<Longrightarrow> i \<noteq> n \<Longrightarrow> held_pr (pc (ps ! i)) = []) \<Longrightarrow>
   held_procs ps = held_pr (pc (ps ! n))"
proof (induction ps arbitrary: n)
  case Nil
  then show ?case by simp
next
  case (Cons p ps)
  show ?case
  proof (cases n)
    case 0
    have "held_pr (pc (ps ! i)) = []" if "i < length ps" for i
      using Cons.prems(2) [of "Suc i"] that 0 by simp
    then have "held_procs ps = []" by (auto simp: held_procs_def in_set_conv_nth)
    with 0 show ?thesis by simp
  next
    case (Suc m)
    have "held_pr (pc p) = []" using Cons.prems(2) [of 0] Suc by simp
    moreover have "held_procs ps = held_pr (pc (ps ! m))"
    proof (rule Cons.IH)
      show "m < length ps" using Cons.prems(1) Suc by simp
      fix i assume "i < length ps" "i \<noteq> m"
      then show "held_pr (pc (ps ! i)) = []" using Cons.prems(2) [of "Suc i"] Suc by simp
    qed
    ultimately show ?thesis using Suc by simp
  qed
qed

lemma held_alone:
  assumes "alone b" and "n < length (procs b)" and "pc (procs b ! n) \<noteq> PExited"
  shows "held_procs (procs b) = held_pr (pc (procs b ! n))"
    and "held_procs ((procs b)[n := p]) = held_pr (pc p)"
proof -
  have other: "held_pr (pc (procs b ! i)) = []" if "i < length (procs b)" "i \<noteq> n" for i
  proof (cases "pc (procs b ! i) = PExited")
    case False
    with assms that show ?thesis by (auto simp: alone_def)
  qed simp
  then show "held_procs (procs b) = held_pr (pc (procs b ! n))"
    using assms(2) by (intro held_procs_single)
  have "held_procs ((procs b)[n := p]) = held_pr (pc ((procs b)[n := p] ! n))"
    using other assms(2) by (intro held_procs_single) simp_all
  with assms(2) show "held_procs ((procs b)[n := p]) = held_pr (pc p)" by simp
qed

lemma alone_set_pc:
  "alone b \<Longrightarrow> n < length (procs b) \<Longrightarrow> pc (procs b ! n) \<noteq> PExited \<Longrightarrow> alone (set_pc n c b)"
  by (auto simp: alone_def set_pc_def nth_list_update)

lemma alone_cong:
  "procs c = procs b \<Longrightarrow> procTask c = procTask b \<Longrightarrow> procRunning c = procRunning b \<Longrightarrow> inp c = inp b \<Longrightarrow>
   alone c = alone b"
  by (simp add: alone_def)

lemma ordered_QueueFrame: "ordered b \<Longrightarrow> ordered (QueueFrame it b)"
proof (cases "canceling b \<or> directMode b")
  case True
  assume "ordered b"
  with True show ?thesis by (auto simp: QueueFrame_def)
next
  case False
  let ?b = "QueueFrame it b"
  assume "ordered b"
  moreover have "alone ?b = alone b"
    by (rule alone_cong) (simp_all add: QueueFrame_def Let_def)
  moreover have "line ?b = line b @ filter is_data [it]"
    using False by (auto simp: line_def QueueFrame_def Let_def queue_push_def is_data_def)
  moreover have "arrived ?b = arrived b @ [it]" "timedOut ?b = timedOut b" "cleaned ?b = cleaned b"
    using False by (simp_all add: QueueFrame_def Let_def)
  ultimately show ?thesis by (simp add: ordered_def)
qed

lemma ordered_reset: "ordered b \<Longrightarrow> ordered (reset_procQueue b)"
proof -
  assume "ordered b"
  moreover have "alone (reset_procQueue b) = alone b"
    by (rule alone_cong) (simp_all add: reset_procQueue_def)
  moreover have "subseq (line (reset_procQueue b)) (line b)"
    unfolding line_def by (intro list_emb_append_mono) (simp_all add: reset_procQueue_def queue_reset_def)
  moreover have "arrived (reset_procQueue b) = arrived b" "timedOut (reset_procQueue b) = timedOut b"
    "cleaned (reset_procQueue b) = cleaned b" by (simp_all add: reset_procQueue_def)
  ultimately show ?thesis by (auto simp: ordered_def intro: subseq_order.trans)
qed

lemma ordered_resetProcessTask: "shape b \<Longrightarrow> ordered b \<Longrightarrow> ordered (resetProcessTask b)"
  using ordered_flowI [OF ordered_reset flow_resetProcessTask] .

lemma ordered_create:
  assumes "shape b" and "ordered b" 
    and "alone b \<Longrightarrow> \<not> procRunning b \<Longrightarrow> \<forall>i < length (procs b). pc (procs b ! i) = PExited"
  shows "ordered (createProcessTask b)"
proof (cases "procRunning b")
  case True
  with assms show ?thesis by (simp add: createProcessTask_def)
next
  case False
  let ?r = "resetProcessTask b" and ?c = "createProcessTask b"
  have "procs ?r = procs b" by (simp add: resetProcessTask_def reset_procQueue_def)
  moreover have "\<not> directMode b" using assms(1) by (simp add: shape_def)
  ultimately have pr: "procs ?c = procs b @ [\<lparr>pc = PTop, ctxDone = baseDone ?r\<rparr>]"
    "procTask ?c = length (procs b)" "procRunning ?c" "line ?c = line ?r"
    "arrived ?c = arrived ?r" "timedOut ?c = timedOut ?r" "cleaned ?c = cleaned ?r"
    using False by (simp_all add: createProcessTask_def Let_def line_def)
  have "alone ?c" if "alone b"
    using assms(3) [OF that False] pr(1-3) by (simp add: alone_def nth_append)
  moreover have "alone ?r = alone b"
    by (rule alone_cong) (simp_all add: resetProcessTask_def reset_procQueue_def)
  ultimately show ?thesis
    using ordered_resetProcessTask [OF assms(1,2)] pr(4-) by (simp add: ordered_def)
qed

lemma ordered_dispatch:
  "ordered b \<Longrightarrow> held_in (inp b) = [it] \<Longrightarrow> ordered (input_dispatch it b)"
  by (cases "inp b") (auto simp: ordered_def alone_def line_def input_dispatch_def is_data_def queue_push_data)


lemma ordered_cancel_wait:
  assumes "shape b" and "ordered b" and "procRunning b"
    and fl: "flow c = flow (fst (cancelProcessTask b))" and "held_in (inp b) = []"
  shows "ordered (c\<lparr>inp := IAwait it (procTask b) k\<rparr>)"
proof -
  let ?c = "c\<lparr>inp := IAwait it (procTask b) k\<rparr>"
  from assms(1) have "\<not> directMode b" by (simp add: shape_def)
  with assms(3) fl have eqs: "procs ?c = (procs b)[procTask b := (procs b ! procTask b)\<lparr>ctxDone := True\<rparr>]"
    "procTask ?c = procTask b" "handled ?c = handled b" "arrived ?c = arrived b"
    "procQueue ?c = procQueue b" "inputQueue ?c = inputQueue b" "timedOut ?c = timedOut b"
    "cleaned ?c = cleaned b"
    by (simp_all add: flow_def cancelProcessTask_def)
  have "line ?c = line b" using eqs assms(5) by (simp add: line_def held_procs_same)
  moreover have "alone ?c" if "alone b"
    using that eqs(1,2) by (auto simp: alone_def nth_list_update)
  ultimately show ?thesis using assms(2) eqs by (simp add: ordered_def)
qed

lemma ordered_inp:
  assumes "ordered b" and "held_in p = held_in (inp b)" and "\<And>it j k. inp b \<noteq> IAwait it j k"
  shows "ordered (b\<lparr>inp := p\<rparr>)"
proof -
  have "alone (b\<lparr>inp := p\<rparr>)" if "alone b" using that assms(3) by (auto simp: alone_def)
  with assms show ?thesis by (simp add: ordered_def line_def)
qed

lemma ordered_set_pc:
  assumes "ordered b" and "n < length (procs b)" and "pc (procs b ! n) \<noteq> PExited"
    and "held_pr c = held_pr (pc (procs b ! n))"
  shows "ordered (set_pc n c b)"
  using assms alone_set_pc [OF _ assms(2,3), of c]
  by (simp add: ordered_def line_def set_pc_def held_procs_same)

lemma ordered_curFrame [simp]: "ordered (b\<lparr>curFrame := f\<rparr>) = ordered b"
  by (simp add: ordered_def line_def alone_def)

lemma ordered_env:
  assumes "env_step a b = Some b'" and od: "ordered b" and sh: "shape b"
  shows "ordered b'"
  using assms(1)
proof (cases a)
  case CleanupBegin
  have "cleaned (fst (cancelProcessTask (c\<lparr>cleaned := True\<rparr>)))" for c
    by (simp add: cancelProcessTask_def)
  with CleanupBegin assms show ?thesis by (auto simp: ordered_def)
next
  case CleanupEnd
  with assms show ?thesis by (auto simp: ordered_def cancelInputTask_def split: if_splits)
qed (auto simp: od ordered_QueueFrame ordered_resetProcessTask [OF sh od] BroadcastInterruption_def
    intro: ordered_flowI [OF od] flow_gates flow_watch split: if_splits)

text \<open>When the loop has joined the goroutine it waited for, none is alive.\<close>

lemma joined_none_alive:
  assumes "alone b" and "inp b = IAwait it j k" and "pc (procs b ! j) = PExited" and "\<not> procRunning b"
  shows "\<forall>i < length (procs b). pc (procs b ! i) = PExited"
  using assms by (auto simp: alone_def)

lemma idle_none_alive:
  assumes "alone b" and "\<not> procRunning b" and "\<And>it j k. inp b \<noteq> IAwait it j k"
  shows "\<forall>i < length (procs b). pc (procs b ! i) = PExited"
  using assms by (auto simp: alone_def)


lemma alone_create: "alone b \<Longrightarrow> procRunning (createProcessTask b) \<or> directMode b"
  by (simp add: createProcessTask_def Let_def)

lemma ordered_joined:
  assumes sh: "shape b" and od: "ordered b" and aw: "inp b = IAwait it j k" "pc (procs b ! j) = PExited"
  shows "ordered ((after_join k b)\<lparr>inp := IFinish it\<rparr>)"
proof (cases k)
  case ThenCreate
  from sh have nd: "\<not> directMode b" by (simp add: shape_def)
  have od': "ordered (createProcessTask b)"
    by (rule ordered_create [OF sh od]) (rule joined_none_alive [OF _ aw])
  have run: "procRunning (createProcessTask b)" using nd by (simp add: createProcessTask_def Let_def)
  have "inp (createProcessTask b) = inp b"
    using inp_after_join [of ThenCreate b] by (simp add: after_join_def)
  with od' run aw show ?thesis
    by (auto simp: ThenCreate after_join_def ordered_def alone_def line_def)
next
  case ThenNothing
  have "alone (b\<lparr>inp := IFinish it\<rparr>)" if "alone b"
    using that aw by (fastforce simp: alone_def)
  with od aw show ?thesis by (auto simp: ThenNothing after_join_def ordered_def line_def)
qed

lemma queue_get_line:
  "queue_inv q \<Longrightarrow> queue_get q = Some (it, q') \<Longrightarrow> filter is_data [it] @ other q' = other q"
proof -
  assume inv: "queue_inv q" and g: "queue_get q = Some (it, q')"
  consider "it \<in> set (start q)" "other q' = other q" | "it \<in> set (system q)" "other q' = other q"
    | "it \<in> set (other q)" "other q = it # other q'"
    using g by (auto simp: queue_get_def split: list.splits)
  then show ?thesis
  proof cases
    case 1
    with inv have "tier it = 0" by (simp add: queue_inv_def list_all_iff)
    with 1 show ?thesis by (auto simp: is_data_def tier_def split: if_splits)
  next
    case 2
    with inv have "tier it = 1" by (simp add: queue_inv_def list_all_iff)
    with 2 show ?thesis by (auto simp: is_data_def tier_def split: if_splits)
  next
    case 3
    with inv have "tier it = 2" by (simp add: queue_inv_def list_all_iff)
    with 3 show ?thesis by (auto simp: is_data_def tier_def split: if_splits)
  qed
qed

lemma ordered_processed:
  assumes sh: "shape b" and od: "ordered b" and it: "inp b = IHandle it"
    and b1: "Base_ProcessFrame f b = (b1, r)"
  shows "ordered (case r of None \<Rightarrow> b1\<lparr>inp := IFinish it\<rparr> | Some (j, k) \<Rightarrow> b1\<lparr>inp := IAwait it j k\<rparr>)"
  using sh b1
proof (cases rule: Base_ProcessFrame_cases)
  case gates
  with it ordered_flowI [OF od] inp_Base_ProcessFrame [OF sh b1] show ?thesis
    by (auto intro!: ordered_inp)
next
  case create
  have "ordered (createProcessTask b)"
    by (rule ordered_create [OF sh od]) (rule idle_none_alive, auto simp: it)
  with it create ordered_flowI inp_Base_ProcessFrame [OF sh b1] show ?thesis
    by (auto intro!: ordered_inp)
next
  case reset
  with it ordered_flowI [OF ordered_reset [OF od]] inp_Base_ProcessFrame [OF sh b1] show ?thesis
    by (auto intro!: ordered_inp)
next
  case (wait k)
  with ordered_cancel_wait [OF sh od wait(1,3)] it show ?thesis by simp
qed

lemma ordered_input:
  assumes "input_step a b = Some b'" and od: "ordered b" and sh: "shape b"
  shows "ordered b'"
  using assms(1)
proof (cases a)
  case InTake
  with assms obtain it q where g: "inp b = IGet" "queue_get (inputQueue b) = Some (it, q)"
    "b' = b\<lparr>inputQueue := q, inp := ITook it\<rparr>"
    by (auto split: option.splits if_splits)
  from sh have "queue_inv (inputQueue b)" by (simp add: shape_def)
  from queue_get_line [OF this g(2)] have "line b' = line b"
    using g by (simp add: line_def)
  moreover have "alone b' = alone b" using g by (auto simp: alone_def)
  ultimately show ?thesis using od g by (simp add: ordered_def)
next
  case InReleased
  with assms show ?thesis
    by (auto intro!: ordered_dispatch ordered_flowI [OF od flow_gates(6)]
        split: input_pc.splits if_splits)
next
  case InGate
  with assms show ?thesis
    by (auto intro!: ordered_dispatch intro: ordered_inp split: input_pc.splits option.splits)
next
  case InGiveUp
  with assms obtain it e g where it: "inp b = IWait it e g"
    and b': "b' = b\<lparr>inp := IExited, abandoned := abandoned b @ [it]\<rparr>"
    by (auto split: input_pc.splits if_splits)
  have "subseq (line b') (line b)"
    unfolding line_def by (intro list_emb_append_mono) (simp_all add: b' it)
  moreover have "alone b' = alone b" using b' it by (auto simp: alone_def)
  ultimately show ?thesis using od b' by (auto simp: ordered_def intro: subseq_order.trans)
next
  case InProcess
  with assms(1) obtain it where it: "inp b = IHandle it" by (auto split: input_pc.splits)
  obtain b1 r where b1: "Base_ProcessFrame (item_frame it) b = (b1, r)" by fastforce
  with InProcess assms(1) it ordered_processed [OF sh od it b1] show ?thesis
    by (auto split: option.splits)
next
  case InJoined
  with assms show ?thesis by (auto intro: ordered_joined split: input_pc.splits if_splits)
next
  case InTimeout
  with assms show ?thesis by (auto simp: ordered_def split: input_pc.splits)
next
  case (InFinish cl err)
  with assms show ?thesis
    by (auto intro!: ordered_inp ordered_flowI [OF od flow_return] split: input_pc.splits)
qed (use od in \<open>auto intro!: ordered_inp split: if_splits input_pc.splits\<close>)

lemma ordered_handle:
  assumes od: "ordered b" and n: "n < length (procs b)" and it: "held_pr (pc (procs b ! n)) = [it]"
    and d: "is_data it" and c: "held_pr c = []"
  shows "ordered (set_pc n c (b\<lparr>handled := handled b @ [it]\<rparr>))"
    and "ordered (set_pc n c (b\<lparr>abandoned := abandoned b @ [it]\<rparr>))"
proof -
  from it have ne: "pc (procs b ! n) \<noteq> PExited" by auto
  let ?h = "set_pc n c (b\<lparr>handled := handled b @ [it]\<rparr>)"
    and ?a = "set_pc n c (b\<lparr>abandoned := abandoned b @ [it]\<rparr>)"
  have al: "alone ?h" "alone ?a" if "alone b"
    using that n ne by (auto simp: alone_def set_pc_def nth_list_update)
  have "line ?h = line b" and "subseq (line ?a) (line b)" if "alone b"
    using held_alone [OF that n ne] it d c
    by (auto simp: line_def set_pc_def intro!: list_emb_append_mono)
  with al od show "ordered ?h" and "ordered ?a"
    by (auto simp: ordered_def set_pc_def intro: subseq_order.trans)
qed


lemma ordered_proc:
  assumes "proc_step a b = Some b'" and od: "ordered b" and sh: "shape b"
  shows "ordered b'"
proof -
  have data: "holds_data (pc (procs b ! n))" if "n < length (procs b)" for n
    using sh that by (simp add: shape_def list_all_length)
  from assms(1) show ?thesis
  proof (cases a)
    case (PrTake n)
    with assms obtain it q where g: "n < length (procs b)" "pc (procs b ! n) = PGet"
      "queue_get (procQueue b) = Some (it, q)" "b' = set_pc n (PTook it) (b\<lparr>procQueue := q\<rparr>)"
      by (auto split: option.splits if_splits)
    from sh have "queue_inv (procQueue b)" "start (procQueue b) = []" "system (procQueue b) = []"
      by (simp_all add: shape_def)
    from queue_get_data [OF this g(3)] have q: "other (procQueue b) = it # other q" by simp
    have "line b' = line b" if "alone b"
      using held_alone [OF that g(1)] g(2,4) q by (simp add: line_def set_pc_def)
    moreover have "alone b'" if "alone b"
      using that g alone_set_pc [of "b\<lparr>procQueue := q\<rparr>" n "PTook it"]
      by (simp add: alone_cong [of "b\<lparr>procQueue := q\<rparr>" b])
    ultimately show ?thesis using od g(4) by (auto simp: ordered_def set_pc_def)
  next
    case (PrProcess n)
    with assms obtain it b1 where g: "n < length (procs b)" "pc (procs b ! n) = PHandle it"
      "Base_ProcessFrame (item_frame it) b = (b1, None)" "b' = set_pc n (PFinish it) b1"
      by (auto split: proc_pc.splits option.splits if_splits prod.splits)
    from data [OF g(1)] g(2) have "\<not> isSystemFrame (item_frame it)" by simp
    from Base_ProcessFrame_data [OF this, of b] g(3) have fl: "flow b1 = flow b" by simp
    then have "procs b1 = procs b" by (simp add: flow_def)
    with g ordered_flowI [OF od fl] show ?thesis by (auto intro!: ordered_set_pc)
  next
    case (PrReleased n)
    with assms data [of n] show ?thesis
      using ordered_handle(1) [OF ordered_flowI [OF od flow_gates(6)], of n]
      by (auto simp: is_data_def split: proc_pc.splits if_splits)
  next
    case (PrGate n)
    with assms data [of n] show ?thesis
      by (auto intro: ordered_set_pc ordered_handle(1) simp: is_data_def
          split: proc_pc.splits if_splits option.splits)
  next
    case (PrGiveUp n)
    with assms data [of n] show ?thesis
      by (auto intro!: ordered_handle(2) simp: is_data_def split: proc_pc.splits if_splits)
  next
    case (PrFinish n cl err)
    with assms ordered_flowI [OF od flow_return] show ?thesis
      by (auto intro!: ordered_set_pc split: proc_pc.splits if_splits)
  qed (auto intro!: ordered_set_pc simp: od split: if_splits proc_pc.splits)
qed

lemma ordered_reach: "base_reach b \<Longrightarrow> ordered b"
proof (induction rule: base_reach.induct)
  case (base_next b a b')
  from shape_reach [OF base_next(1)] have "shape b" .
  with base_next show ?case
    by (auto elim!: base_stepE intro: ordered_env ordered_input ordered_proc)
qed (simp add: ordered_def alone_def line_def Setup_base_def New_base_def newQueue_def Let_def)

end
