(* ===== verification/Processor_Gates.thy ===== *)
theory Processor_Gates
  imports Processor_Order
begin

text \<open>
  The pause gates of a processor: which event a loop waits on, that a hold placed until a condition
  is ready is always lifted, and what replacing the gate does to a loop that is already waiting.
\<close>

section \<open>Pointers to events\<close>

definition gates_ok :: "base \<Rightarrow> bool" where
  "gates_ok b \<longleftrightarrow> inputEvent b = 0 \<and> 0 < length (evs b) \<and>
     (\<forall>e. processEvent b = Some e \<longrightarrow> 0 < e \<and> e < length (evs b))"

definition wiring :: "base \<Rightarrow> _" where
  "wiring b = (length (evs b), inputEvent b, processEvent b)"

lemma gates_ok_wiring: "wiring c = wiring b \<Longrightarrow> gates_ok c = gates_ok b"
  unfolding wiring_def gates_ok_def prod.inject by metis

lemma gates_okI: "gates_ok b \<Longrightarrow> wiring c = wiring b \<Longrightarrow> gates_ok c"
  using gates_ok_wiring by blast

lemma wiring_set_ev [simp]: "wiring (set_ev h e b) = wiring b"
  by (simp add: wiring_def set_ev_def)

lemma wiring_gates [simp]:
  "wiring (PauseProcessingFrames b) = wiring b" "wiring (PauseProcessingSystemFrames b) = wiring b"
  "wiring (ResumeProcessingFrames b) = wiring b" "wiring (ResumeProcessingSystemFrames b) = wiring b"
  "wiring (resumeProcessingAllFrames b) = wiring b" "wiring (released t e b) = wiring b"
  "wiring (pauseIfAddressed target b) = wiring b" "wiring (resumeIfAddressed target b) = wiring b"
  "wiring (applyPendingResume b) = wiring b" "wiring (watchUntilReady b) = wiring b"
  "wiring (fst (SetUsable u b)) = wiring b"
  by (simp_all add: wiring_def gate_defs split: option.split)

lemma wiring_watch [simp]:
  "wiring (cancelPauseWatcher b) = wiring b" "wiring (PauseProcessingAllFramesUntil b) = wiring b"
  using wiring_gates
  by (simp_all add: cancelPauseWatcher_def PauseProcessingAllFramesUntil_def Let_def wiring_def)

lemma wiring_return [simp]: "wiring (processFrame_return cl err b) = wiring b"
  by (simp add: processFrame_return_def PushError_def PushErrorFrame_def Let_def case_prod_beta
      split: option.split)

lemma gates_ok_resetProcessTask: "gates_ok b \<Longrightarrow> gates_ok (resetProcessTask b)"
  by (auto simp: gates_ok_def resetProcessTask_def reset_procQueue_def)

lemma gates_ok_create: "gates_ok b \<Longrightarrow> gates_ok (createProcessTask b)"
  using gates_ok_resetProcessTask [of b] by (auto simp: createProcessTask_def gates_ok_def Let_def)

lemma gates_ok_cancelProcessTask: "gates_ok b \<Longrightarrow> gates_ok (fst (cancelProcessTask b))"
  by (simp add: gates_ok_def cancelProcessTask_def)

lemma gates_ok_reset: "gates_ok b \<Longrightarrow> gates_ok (reset_procQueue b)"
  by (simp add: gates_ok_def reset_procQueue_def)

lemma gates_ok_Base_ProcessFrame: "gates_ok b \<Longrightarrow> gates_ok (fst (Base_ProcessFrame f b))"
proof -
  assume ok: "gates_ok b"
  have a: "gates_ok (b\<lparr>armTTFB := True\<rparr>)" and c: "gates_ok (b\<lparr>canceling := True\<rparr>)"
    using ok by (simp_all add: gates_ok_def)
  have "gates_ok (fst (startInterruption b))"
    using ok gates_ok_create [OF gates_ok_cancelProcessTask [OF ok]] gates_ok_cancelProcessTask [OF ok]
    by (auto simp: startInterruption_def gates_ok_reset split: prod.splits option.splits)
  with ok gates_ok_create [OF a] gates_ok_cancelProcessTask [OF c] show ?thesis
    by (auto simp: Base_ProcessFrame_def start_base_def cancel_def case_prod_beta
        intro: gates_okI [OF ok] split: frame_splits)
qed

lemma gates_ok_env: "env_step a b = Some b' \<Longrightarrow> gates_ok b \<Longrightarrow> gates_ok b'"
proof (cases a)
  case CleanupBegin
  assume e: "env_step a b = Some b'" and ok: "gates_ok b"
  have "gates_ok ((cancelPauseWatcher b)\<lparr>cleaned := True\<rparr>)"
    using gates_okI [OF ok wiring_watch(1)] by (simp add: gates_ok_def)
  with e CleanupBegin show ?thesis by (auto intro: gates_ok_cancelProcessTask)
next
  case CleanupEnd
  then show "env_step a b = Some b' \<Longrightarrow> gates_ok b \<Longrightarrow> gates_ok b'"
    by (auto simp: cancelInputTask_def gates_ok_def split: if_splits)
next
  case (CallQueueFrame it)
  then show "env_step a b = Some b' \<Longrightarrow> gates_ok b \<Longrightarrow> gates_ok b'"
    by (auto simp: QueueFrame_def gates_ok_def Let_def split: if_splits)
next
  case CallBroadcastInterruption
  then show "env_step a b = Some b' \<Longrightarrow> gates_ok b \<Longrightarrow> gates_ok b'"
    by (auto simp: BroadcastInterruption_def gates_ok_resetProcessTask)
qed (auto elim!: gates_okI split: if_splits)

lemma gates_ok_inp [simp]: "gates_ok (b\<lparr>inp := p\<rparr>) = gates_ok b"
  by (simp add: gates_ok_def)

lemma gates_ok_set_pc [simp]: "gates_ok (set_pc n c b) = gates_ok b"
  by (simp add: gates_ok_def set_pc_def)

lemma gates_ok_dispatch [simp]: "gates_ok (input_dispatch it b) = gates_ok b"
  by (simp add: gates_ok_def input_dispatch_def)

lemma gates_ok_logs [simp]:
  "gates_ok (b\<lparr>handled := xs\<rparr>) = gates_ok b" "gates_ok (b\<lparr>abandoned := xs\<rparr>) = gates_ok b"
  "gates_ok (b\<lparr>curFrame := f\<rparr>) = gates_ok b" "gates_ok (b\<lparr>procQueue := q\<rparr>) = gates_ok b"
  "gates_ok (b\<lparr>inputQueue := q\<rparr>) = gates_ok b" "gates_ok (b\<lparr>timedOut := t\<rparr>) = gates_ok b"
  by (simp_all add: gates_ok_def)

lemma gates_ok_input: "input_step a b = Some b' \<Longrightarrow> gates_ok b \<Longrightarrow> gates_ok b'"
  using gates_ok_Base_ProcessFrame [of b] gates_ok_wiring [OF wiring_return] gates_ok_wiring [OF wiring_gates(6)]
  by (cases a)
    (auto simp: after_join_def gates_ok_create split: if_splits option.splits input_pc.splits
      prod.splits after_cancel.splits, metis fst_conv, metis fst_conv)

lemma gates_ok_proc: "proc_step a b = Some b' \<Longrightarrow> gates_ok b \<Longrightarrow> gates_ok b'"
  using gates_ok_Base_ProcessFrame [of b] gates_ok_wiring [OF wiring_return] gates_ok_wiring [OF wiring_gates(6)]
  by (cases a)
    (auto split: if_splits option.splits proc_pc.splits prod.splits, metis fst_conv)

lemma gates_ok_step: "base_step a b = Some b' \<Longrightarrow> gates_ok b \<Longrightarrow> gates_ok b'"
  by (erule base_stepE) (auto intro: gates_ok_env gates_ok_input gates_ok_proc)

lemma gates_ok_reach: "base_reach b \<Longrightarrow> gates_ok b"
proof (induction rule: base_reach.induct)
  case (base_next b a b')
  then show ?case by (blast intro: gates_ok_step)
qed (simp add: gates_ok_def Setup_base_def New_base_def Let_def)


section \<open>A loop waiting on a gate that has been replaced\<close>

text \<open>
  Process goroutine \<open>n\<close> waits on event \<open>e\<close> with frame \<open>it\<close> in hand, and \<open>e\<close> is no longer the gate of
  the processor.
\<close>

definition old_gate :: "nat \<Rightarrow> nat \<Rightarrow> base \<Rightarrow> bool" where
  "old_gate e g b \<longleftrightarrow> gates_ok b \<and> 0 < e \<and> e < length (evs b) \<and> processEvent b \<noteq> Some e \<and>
     \<not> ev_set (evs b ! e) \<and> ev_gen (evs b ! e) = g"

definition stranded :: "nat \<Rightarrow> item \<Rightarrow> nat \<Rightarrow> nat \<Rightarrow> base \<Rightarrow> bool" where
  "stranded n it e g b \<longleftrightarrow> old_gate e g b \<and> n < length (procs b) \<and> pc (procs b ! n) = PWait it e g"

lemma old_gate_Clear: "old_gate e g b \<Longrightarrow> old_gate e g (set_ev event_Clear e' b)"
  by (cases "e' = e")
    (auto simp: old_gate_def set_ev_def event_Clear_def gates_ok_def nth_list_update)

lemma old_gate_Set: "old_gate e g b \<Longrightarrow> e' \<noteq> e \<Longrightarrow> old_gate e g (set_ev event_Set e' b)"
  by (auto simp: old_gate_def set_ev_def gates_ok_def)

lemma old_gate_cong:
  "old_gate e g b \<Longrightarrow> evs c = evs b \<Longrightarrow> inputEvent c = inputEvent b \<Longrightarrow> processEvent c = processEvent b \<Longrightarrow>
   old_gate e g c"
  by (simp add: old_gate_def gates_ok_def)

lemma old_gate_fields [simp]:
  "old_gate e g (b\<lparr>pendingResume := x0\<rparr>) = old_gate e g b"
  "old_gate e g (b\<lparr>usable := x1\<rparr>) = old_gate e g b"
  "old_gate e g (b\<lparr>pauseWatcher := x2\<rparr>) = old_gate e g b"
  "old_gate e g (b\<lparr>watching := x3\<rparr>) = old_gate e g b"
  "old_gate e g (b\<lparr>armTTFB := x4\<rparr>) = old_gate e g b"
  "old_gate e g (b\<lparr>canceling := x5\<rparr>) = old_gate e g b"
  "old_gate e g (b\<lparr>blockFrames := x6\<rparr>) = old_gate e g b"
  "old_gate e g (b\<lparr>blockSystemFrames := x7\<rparr>) = old_gate e g b"
  "old_gate e g (b\<lparr>inp := x8\<rparr>) = old_gate e g b"
  "old_gate e g (b\<lparr>procs := x9\<rparr>) = old_gate e g b"
  "old_gate e g (b\<lparr>procRunning := x10\<rparr>) = old_gate e g b"
  "old_gate e g (b\<lparr>handled := x11\<rparr>) = old_gate e g b"
  "old_gate e g (b\<lparr>abandoned := x12\<rparr>) = old_gate e g b"
  "old_gate e g (b\<lparr>curFrame := x13\<rparr>) = old_gate e g b"
  "old_gate e g (b\<lparr>procQueue := x14\<rparr>) = old_gate e g b"
  "old_gate e g (b\<lparr>inputQueue := x15\<rparr>) = old_gate e g b"
  "old_gate e g (b\<lparr>timedOut := x16\<rparr>) = old_gate e g b"
  "old_gate e g (b\<lparr>cleaned := x17\<rparr>) = old_gate e g b"
  by (simp_all add: old_gate_def gates_ok_def)

lemma old_gate_Pause:
  "old_gate e g b \<Longrightarrow> old_gate e g (PauseProcessingFrames b)"
  "old_gate e g b \<Longrightarrow> old_gate e g (PauseProcessingSystemFrames b)"
  by (auto simp: PauseProcessingFrames_def PauseProcessingSystemFrames_def Let_def
      intro!: old_gate_Clear elim!: old_gate_cong split: option.splits)

lemma old_gate_Resume:
  "old_gate e g b \<Longrightarrow> old_gate e g (ResumeProcessingFrames b)"
  "old_gate e g b \<Longrightarrow> old_gate e g (ResumeProcessingSystemFrames b)"
  by (auto simp: ResumeProcessingFrames_def ResumeProcessingSystemFrames_def
      intro!: old_gate_Set split: option.splits)
    (auto simp: old_gate_def gates_ok_def)

lemma old_gate_others:
  "old_gate e g b \<Longrightarrow> old_gate e g (resumeProcessingAllFrames b)"
  "old_gate e g b \<Longrightarrow> old_gate e g (released t e' b)"
  "old_gate e g b \<Longrightarrow> old_gate e g (pauseIfAddressed target b)"
  "old_gate e g b \<Longrightarrow> old_gate e g (resumeIfAddressed target b)"
  "old_gate e g b \<Longrightarrow> old_gate e g (fst (SetUsable u b))"
  using old_gate_Pause [of e g] old_gate_Resume [of e g] old_gate_Clear [of e g b e']
  by (auto simp: resumeProcessingAllFrames_def released_def pauseIfAddressed_def resumeIfAddressed_def
      SetUsable_def Let_def elim: old_gate_cong)

lemma old_gate_applyPendingResume: "old_gate e g b \<Longrightarrow> old_gate e g (applyPendingResume b)"
proof -
  assume "old_gate e g b"
  then have "old_gate e g (b\<lparr>pendingResume := False\<rparr>)" by (rule old_gate_cong) simp_all
  then show ?thesis by (simp add: applyPendingResume_def Let_def old_gate_Resume)
qed

lemma old_gate_return: "old_gate e g b \<Longrightarrow> old_gate e g (processFrame_return cl err b)"
  unfolding processFrame_return_def PushError_def PushErrorFrame_def Let_def case_prod_beta
  by (auto intro!: old_gate_applyPendingResume old_gate_others split: option.split)

lemma old_gate_watchUntilReady: "old_gate e g b \<Longrightarrow> old_gate e g (watchUntilReady b)"
  unfolding watchUntilReady_def using old_gate_others(1) by (fastforce elim: old_gate_cong)

lemma old_gate_cancelPauseWatcher: "old_gate e g b \<Longrightarrow> old_gate e g (cancelPauseWatcher b)"
  unfolding cancelPauseWatcher_def Let_def
  by (auto intro!: old_gate_others old_gate_watchUntilReady elim: old_gate_cong)

lemma old_gate_PauseAll: "old_gate e g b \<Longrightarrow> old_gate e g (PauseProcessingAllFramesUntil b)"
  unfolding PauseProcessingAllFramesUntil_def
  using old_gate_Pause(1) [OF old_gate_Pause(2) [OF old_gate_cancelPauseWatcher]]
  by (auto elim: old_gate_cong)

lemma old_gate_resetProcessTask: "old_gate e g b \<Longrightarrow> old_gate e g (resetProcessTask b)"
  using gates_ok_resetProcessTask [of b]
  by (auto simp: old_gate_def resetProcessTask_def reset_procQueue_def nth_append)

lemma old_gate_create: "old_gate e g b \<Longrightarrow> old_gate e g (createProcessTask b)"
  unfolding createProcessTask_def Let_def
  using old_gate_resetProcessTask [of e g b] by (auto elim: old_gate_cong)

lemma old_gate_cancelProcessTask: "old_gate e g b \<Longrightarrow> old_gate e g (fst (cancelProcessTask b))"
  by (auto simp: cancelProcessTask_def elim: old_gate_cong)

lemma old_gate_Base_ProcessFrame: "old_gate e g b \<Longrightarrow> old_gate e g (fst (Base_ProcessFrame f b))"
proof -
  assume og: "old_gate e g b"
  have rs: "old_gate e g (reset_procQueue b)"
    using og by (rule old_gate_cong) (simp_all add: reset_procQueue_def)
  have "old_gate e g (fst (startInterruption b))"
    using og rs old_gate_create [OF old_gate_cancelProcessTask [OF og]] old_gate_cancelProcessTask [OF og]
    by (auto simp: startInterruption_def split: prod.splits option.splits)
  moreover have "old_gate e g (createProcessTask (b\<lparr>armTTFB := True\<rparr>))"
    by (rule old_gate_create, rule old_gate_cong [OF og]) simp_all
  moreover have "old_gate e g (fst (cancelProcessTask (b\<lparr>canceling := True\<rparr>)))"
    by (rule old_gate_cancelProcessTask, rule old_gate_cong [OF og]) simp_all
  ultimately show ?thesis using og
    by (auto simp: Base_ProcessFrame_def start_base_def cancel_def case_prod_beta
        intro: old_gate_others split: frame_splits)
qed


lemma old_gate_env: "env_step a b = Some b' \<Longrightarrow> old_gate e g b \<Longrightarrow> old_gate e g b'"
proof (cases a)
  case (CallQueueFrame it)
  then show "env_step a b = Some b' \<Longrightarrow> old_gate e g b \<Longrightarrow> old_gate e g b'"
    by (auto simp: QueueFrame_def Let_def elim!: old_gate_cong)
next
  case CleanupEnd
  then show "env_step a b = Some b' \<Longrightarrow> old_gate e g b \<Longrightarrow> old_gate e g b'"
    by (auto simp: cancelInputTask_def elim!: old_gate_cong split: if_splits)
qed (auto simp: BroadcastInterruption_def intro: old_gate_Pause old_gate_Resume old_gate_others
    old_gate_PauseAll old_gate_watchUntilReady old_gate_resetProcessTask
    intro!: old_gate_cancelProcessTask old_gate_cancelPauseWatcher split: if_splits)

lemma old_gate_dispatch: "old_gate e g b \<Longrightarrow> old_gate e g (input_dispatch it b)"
  by (simp add: input_dispatch_def)

lemma old_gate_input: "input_step a b = Some b' \<Longrightarrow> old_gate e g b \<Longrightarrow> old_gate e g b'"
proof (cases a)
  case InProcess
  assume s: "input_step a b = Some b'" and og: "old_gate e g b"
  with InProcess obtain it where it: "inp b = IHandle it" by (auto split: input_pc.splits)
  obtain b1 r where "Base_ProcessFrame (item_frame it) b = (b1, r)" by fastforce
  with old_gate_Base_ProcessFrame [OF og, of "item_frame it"] s InProcess it show ?thesis
    by (auto split: option.splits)
qed (auto simp: after_join_def intro!: old_gate_dispatch old_gate_create old_gate_return old_gate_others
    split: if_splits option.splits input_pc.splits after_cancel.splits)

lemma old_gate_set_pc [simp]: "old_gate e g (set_pc n c b) = old_gate e g b"
  by (simp add: set_pc_def)

lemma old_gate_proc: "proc_step a b = Some b' \<Longrightarrow> old_gate e g b \<Longrightarrow> old_gate e g b'"
proof (cases a)
  case (PrProcess n)
  assume s: "proc_step a b = Some b'" and og: "old_gate e g b"
  with PrProcess obtain it b1 where "Base_ProcessFrame (item_frame it) b = (b1, None)"
    "b' = set_pc n (PFinish it) b1"
    by (auto split: proc_pc.splits option.splits if_splits prod.splits)
  with old_gate_Base_ProcessFrame [OF og, of "item_frame it"] show ?thesis by simp
qed (auto intro!: old_gate_return old_gate_others
    split: if_splits option.splits proc_pc.splits)

text \<open>How the goroutine numbered \<open>n\<close> can move: only by its own actions.\<close>

lemma pc_ctxDone [simp]: "pc (ps[i := (ps ! i)\<lparr>ctxDone := d\<rparr>] ! n) = pc (ps ! n)"
  by (cases "i = n"; cases "i < length ps") (simp_all add: list_update_beyond)

lemma pc_process:
  "n < length (procs b) \<Longrightarrow> pc (procs (createProcessTask b) ! n) = pc (procs b ! n)"
  "pc (procs (fst (cancelProcessTask b)) ! n) = pc (procs b ! n)"
  "length (procs b) \<le> length (procs (createProcessTask b))"
  "length (procs (fst (cancelProcessTask b))) = length (procs b)"
  "procs (resetProcessTask b) = procs b" "procs (reset_procQueue b) = procs b"
  by (simp_all add: createProcessTask_def cancelProcessTask_def resetProcessTask_def
      reset_procQueue_def Let_def nth_append)

lemma pc_Base_ProcessFrame:
  assumes "shape b" and "Base_ProcessFrame f b = (b', r)" and "n < length (procs b)"
  shows "n < length (procs b') \<and> pc (procs b' ! n) = pc (procs b ! n)"
  using assms(1,2)
proof (cases rule: Base_ProcessFrame_cases)
  case create
  then have "procs b' = procs (createProcessTask b)" by (simp add: flow_def)
  with pc_process(1) [OF assms(3)] pc_process(3) [of b] assms(3) show ?thesis by simp
next
  case (wait k)
  then have "procs b' = procs (fst (cancelProcessTask b))" by (simp add: flow_def)
  with assms(3) show ?thesis by (simp add: pc_process)
qed (use assms(3) in \<open>auto simp: flow_def pc_process\<close>)


lemma pc_env:
  assumes "env_step a b = Some b'" and "n < length (procs b)"
  shows "n < length (procs b') \<and> pc (procs b' ! n) = pc (procs b ! n)"
  using assms
  by (cases a) (auto simp: QueueFrame_def Let_def BroadcastInterruption_def pc_process
      cancelInputTask_def split: if_splits)

lemma pc_input:
  assumes "input_step a b = Some b'" and "shape b" and n: "n < length (procs b)"
  shows "n < length (procs b') \<and> pc (procs b' ! n) = pc (procs b ! n)"
  using assms(1)
proof (cases a)
  case InProcess
  with assms obtain it where it: "inp b = IHandle it" by (auto split: input_pc.splits)
  obtain b1 r where b1: "Base_ProcessFrame (item_frame it) b = (b1, r)" by fastforce
  with pc_Base_ProcessFrame [OF assms(2) b1 n] assms(1) InProcess it show ?thesis
    by (auto split: option.splits)
qed (use n pc_process(1) [OF n] pc_process(3) [of b] in \<open>auto simp: input_dispatch_def after_join_def
    split: if_splits option.splits input_pc.splits after_cancel.splits\<close>)

lemma pc_proc_waiting:
  assumes st: "proc_step a b = Some b'" and sh: "shape b" and n: "n < length (procs b)"
    and w: "pc (procs b ! n) = PWait it e g" "\<not> event_closed (evs b ! e) g" and a: "a \<noteq> PrGiveUp n"
  shows "n < length (procs b') \<and> pc (procs b' ! n) = PWait it e g"
  using st
proof (cases a)
  case (PrProcess m)
  with st obtain it' b1 where g: "pc (procs b ! m) = PHandle it'"
    "Base_ProcessFrame (item_frame it') b = (b1, None)" "b' = set_pc m (PFinish it') b1"
    by (auto split: proc_pc.splits option.splits if_splits prod.splits)
  with w(1) have "m \<noteq> n" by auto
  with g pc_Base_ProcessFrame [OF sh g(2) n] w(1) show ?thesis by (simp add: set_pc_def)
qed (use n w a in \<open>auto simp: set_pc_def nth_list_update split: if_splits option.splits proc_pc.splits\<close>)

lemma stranded_step:
  assumes "base_step a b = Some b'" and sh: "shape b" and sd: "stranded n it e g b"
    and "a \<noteq> PrGiveUp n"
  shows "stranded n it e g b'"
proof -
  from sd have og: "old_gate e g b" and n: "n < length (procs b)"
    and w: "pc (procs b ! n) = PWait it e g" by (simp_all add: stranded_def)
  from og have nc: "\<not> event_closed (evs b ! e) g" by (simp add: old_gate_def event_closed_def)
  from assms(1) show ?thesis
  proof (cases rule: base_stepE)
    case env
    from old_gate_env [OF env og] pc_env [OF env n] w show ?thesis by (simp add: stranded_def)
  next
    case input
    from old_gate_input [OF input og] pc_input [OF input sh n] w show ?thesis
      by (simp add: stranded_def)
  next
    case proc
    from old_gate_proc [OF proc og] pc_proc_waiting [OF proc sh n w nc assms(4)] show ?thesis
      by (simp add: stranded_def)
  qed
qed

lemma stranded_run:
  "base_run as b = Some b' \<Longrightarrow> shape b \<Longrightarrow> stranded n it e g b \<Longrightarrow> PrGiveUp n \<notin> set as \<Longrightarrow>
   stranded n it e g b'"
proof (induction as arbitrary: b)
  case Nil
  then show ?case by simp
next
  case (Cons a as)
  from Cons.prems(1) obtain c where c: "base_step a b = Some c" "base_run as c = Some b'"
    by (auto split: option.splits)
  from Cons.IH [OF c(2) shape_step [OF c(1) Cons.prems(2)]]
    stranded_step [OF c(1) Cons.prems(2,3)] Cons.prems(4) show ?case by auto
qed


section \<open>The gate of the input loop\<close>

text \<open>Generations of the input gate only grow, so a wait that began on it is over once it is set.\<close>

definition in_gen :: "base \<Rightarrow> nat" where
  "in_gen b = ev_gen (evs b ! inputEvent b)"

definition wait_ok :: "base \<Rightarrow> bool" where
  "wait_ok b \<longleftrightarrow> (\<forall>it e g. inp b = IWait it e g \<longrightarrow> e = inputEvent b \<and> g \<le> in_gen b)"

lemma in_gen_Clear: "in_gen b \<le> in_gen (set_ev event_Clear e b)"
  by (cases "e = inputEvent b"; cases "e < length (evs b)")
    (auto simp: in_gen_def set_ev_def event_Clear_def list_update_beyond)

lemma in_gen_Set: "in_gen (set_ev event_Set e b) = in_gen b"
  by (cases "e = inputEvent b"; cases "e < length (evs b)")
    (auto simp: in_gen_def set_ev_def event_Set_def list_update_beyond)

lemma in_gen_cong: "evs c = evs b \<Longrightarrow> inputEvent c = inputEvent b \<Longrightarrow> in_gen c = in_gen b"
  by (simp add: in_gen_def)

lemma in_gen_Pause:
  "in_gen b \<le> in_gen (PauseProcessingFrames b)" "in_gen b \<le> in_gen (PauseProcessingSystemFrames b)"
  "in_gen b \<le> in_gen (released t e b)" "in_gen b \<le> in_gen (pauseIfAddressed target b)"
proof -
  have f: "in_gen b = in_gen (b\<lparr>blockFrames := v\<rparr>)" "in_gen b = in_gen (b\<lparr>blockSystemFrames := v\<rparr>)" for b v
    by (simp_all add: in_gen_def)
  show "in_gen b \<le> in_gen (PauseProcessingFrames b)"
    using f(1) [of b True] in_gen_Clear [of "b\<lparr>blockFrames := True\<rparr>"]
    by (simp add: PauseProcessingFrames_def Let_def split: option.split)
  then show "in_gen b \<le> in_gen (pauseIfAddressed target b)" by (simp add: pauseIfAddressed_def)
  show "in_gen b \<le> in_gen (PauseProcessingSystemFrames b)"
    using f(2) [of b True] in_gen_Clear [of "b\<lparr>blockSystemFrames := True\<rparr>"]
    by (simp add: PauseProcessingSystemFrames_def)
  show "in_gen b \<le> in_gen (released t e b)"
    using f [of "set_ev event_Clear e b" False] in_gen_Clear [of b e] by (simp add: released_def Let_def)
qed

lemma in_gen_Resume:
  "in_gen (ResumeProcessingFrames b) = in_gen b" "in_gen (ResumeProcessingSystemFrames b) = in_gen b"
  by (simp_all add: ResumeProcessingFrames_def ResumeProcessingSystemFrames_def in_gen_Set
      split: option.split)

lemma in_gen_ResumeAll:
  "in_gen (resumeProcessingAllFrames b) = in_gen b" "in_gen (watchUntilReady b) = in_gen b"
  "in_gen (cancelPauseWatcher b) = in_gen b"
  by (simp_all add: resumeProcessingAllFrames_def watchUntilReady_def cancelPauseWatcher_def Let_def
      in_gen_Resume in_gen_cong [of "b\<lparr>pauseWatcher := False\<rparr>" b]
      in_gen_cong [of "c\<lparr>watching := False\<rparr>" c for c])

lemma in_gen_PauseAll: "in_gen b \<le> in_gen (PauseProcessingAllFramesUntil b)"
proof -
  let ?c = "PauseProcessingFrames (PauseProcessingSystemFrames (cancelPauseWatcher b))"
  have "in_gen b \<le> in_gen ?c"
    using in_gen_Pause(1,2) in_gen_ResumeAll(3) [of b] by (metis order_trans)
  moreover have "in_gen (?c\<lparr>pauseWatcher := True, watching := True\<rparr>) = in_gen ?c"
    by (rule in_gen_cong) simp_all
  ultimately show ?thesis by (simp add: PauseProcessingAllFramesUntil_def)
qed

lemma in_gen_return: "in_gen (processFrame_return cl err b) = in_gen b"
proof -
  have "in_gen (applyPendingResume c) = in_gen c" for c
    using in_gen_Resume(1) [of "c\<lparr>pendingResume := False\<rparr>"] in_gen_cong [of "c\<lparr>pendingResume := False\<rparr>" c]
    by (simp add: applyPendingResume_def Let_def)
  moreover have "in_gen (fst (SetUsable u c)) = in_gen c" for u c
    by (simp add: SetUsable_def in_gen_def)
  ultimately show ?thesis
    by (simp add: processFrame_return_def PushError_def PushErrorFrame_def Let_def case_prod_beta
        split: option.split)
qed

lemma in_gen_process:
  assumes "gates_ok b"
  shows "in_gen (resetProcessTask b) = in_gen b" "in_gen (createProcessTask b) = in_gen b"
    "in_gen (reset_procQueue b) = in_gen b" "in_gen (fst (cancelProcessTask b)) = in_gen b"
  using assms
  by (auto simp: in_gen_def gates_ok_def resetProcessTask_def createProcessTask_def
      reset_procQueue_def cancelProcessTask_def Let_def nth_append)

lemma in_gen_Base_ProcessFrame:
  assumes ok: "gates_ok b"
  shows "in_gen b \<le> in_gen (fst (Base_ProcessFrame f b))"
proof -
  have c: "gates_ok (fst (cancelProcessTask b))" by (rule gates_ok_cancelProcessTask [OF ok])
  have i: "in_gen (fst (startInterruption b)) = in_gen b"
    using in_gen_process [OF ok] in_gen_process(2) [OF c]
    by (auto simp: startInterruption_def split: prod.splits option.splits)
  have "gates_ok (b\<lparr>armTTFB := True\<rparr>)" "gates_ok (b\<lparr>canceling := True\<rparr>)"
    using ok by (simp_all add: gates_ok_def)
  from in_gen_process(2) [OF this(1)] in_gen_process(4) [OF this(2)]
  have "in_gen (createProcessTask (b\<lparr>armTTFB := True\<rparr>)) = in_gen b"
    "in_gen (fst (cancelProcessTask (b\<lparr>canceling := True\<rparr>))) = in_gen b"
    by (simp_all add: in_gen_def)
  moreover have "in_gen (resumeIfAddressed t b) = in_gen b" for t
    by (simp add: resumeIfAddressed_def in_gen_def)
  ultimately show ?thesis using i in_gen_Pause(4) [of b]
    by (auto simp: Base_ProcessFrame_def start_base_def cancel_def case_prod_beta
        split: frame_splits)
qed

lemma wait_okI:
  "wait_ok b \<Longrightarrow> gates_ok b \<Longrightarrow> gates_ok c \<Longrightarrow> inp c = inp b \<Longrightarrow> in_gen b \<le> in_gen c \<Longrightarrow> wait_ok c"
  by (auto simp: wait_ok_def gates_ok_def intro: order_trans)

lemma wait_ok_other: "(\<And>it e g. inp c \<noteq> IWait it e g) \<Longrightarrow> wait_ok c"
  by (simp add: wait_ok_def)

lemma in_gen_fields [simp]:
  "in_gen (b\<lparr>inp := p\<rparr>) = in_gen b" "in_gen (b\<lparr>handled := xs\<rparr>) = in_gen b"
  "in_gen (b\<lparr>abandoned := xs\<rparr>) = in_gen b" "in_gen (b\<lparr>curFrame := f\<rparr>) = in_gen b"
  "in_gen (b\<lparr>procQueue := q\<rparr>) = in_gen b" "in_gen (set_pc n c b) = in_gen b"
  "in_gen (b\<lparr>cleaned := t\<rparr>) = in_gen b"
  by (simp_all add: in_gen_def set_pc_def)

lemma in_gen_env:
  assumes "env_step a b = Some b'" and ok: "gates_ok b"
  shows "inp b' = inp b \<and> in_gen b \<le> in_gen b'"
  using assms(1)
proof (cases a)
  case CleanupBegin
  have "gates_ok ((cancelPauseWatcher b)\<lparr>cleaned := True\<rparr>)"
    using gates_okI [OF ok wiring_watch(1)] by (simp add: gates_ok_def)
  from in_gen_process(4) [OF this] CleanupBegin assms(1) show ?thesis
    by (auto simp: in_gen_ResumeAll cancelProcessTask_def)
next
  case CleanupEnd
  with assms(1) show ?thesis by (auto simp: cancelInputTask_def in_gen_def split: if_splits)
next
  case (CallQueueFrame it)
  with assms(1) show ?thesis by (auto simp: QueueFrame_def Let_def in_gen_def)
next
  case (CallSetUsable u)
  with assms(1) show ?thesis by (auto simp: SetUsable_def in_gen_def)
next
  case CallBroadcastInterruption
  have "inp (resetProcessTask b) = inp b" by (simp add: resetProcessTask_def reset_procQueue_def)
  with CallBroadcastInterruption assms(1) in_gen_process(1) [OF ok] show ?thesis
    by (auto simp: BroadcastInterruption_def)
qed (auto simp: in_gen_Pause in_gen_Resume in_gen_ResumeAll in_gen_PauseAll split: if_splits)

lemma inp_set_pc [simp]: "inp (set_pc n c b) = inp b"
  by (simp add: set_pc_def)

lemma in_gen_proc:
  assumes "proc_step a b = Some b'" and ok: "gates_ok b" and sh: "shape b"
  shows "inp b' = inp b \<and> in_gen b \<le> in_gen b'"
  using assms(1)
proof (cases a)
  case (PrProcess n)
  with assms(1) obtain it b1 where g: "Base_ProcessFrame (item_frame it) b = (b1, None)"
    "b' = set_pc n (PFinish it) b1"
    by (auto split: proc_pc.splits option.splits if_splits prod.splits)
  with in_gen_Base_ProcessFrame [OF ok, of "item_frame it"] inp_Base_ProcessFrame [OF sh g(1)]
  show ?thesis by simp
next
  case (PrReleased n)
  then show ?thesis using assms(1) in_gen_Pause(3) [of b False]
    by (auto split: proc_pc.splits if_splits)
next
  case (PrFinish n cl err)
  then show ?thesis using assms(1) in_gen_return [of cl err b]
    by (auto split: proc_pc.splits if_splits)
qed (auto split: if_splits option.splits proc_pc.splits)

lemma wait_ok_input: "input_step a b = Some b' \<Longrightarrow> wait_ok b'"
proof (cases a)
  case InGate
  assume "input_step a b = Some b'"
  with InGate show ?thesis
    by (auto simp: wait_ok_def in_gen_def waitWhilePaused_def input_dispatch_def Let_def
        split: input_pc.splits option.splits if_splits)
qed (auto intro!: wait_ok_other simp: input_dispatch_def
    split: if_splits option.splits input_pc.splits prod.splits)

lemma wait_ok_reach: "base_reach b \<Longrightarrow> wait_ok b"
proof (induction rule: base_reach.induct)
  case (base_next b a b')
  from gates_ok_reach [OF base_next(1)] have ok: "gates_ok b" .
  from shape_reach [OF base_next(1)] have sh: "shape b" .
  have ok': "gates_ok b'" using gates_ok_step [OF base_next(2) ok] .
  from base_next(2) show ?case
  proof (cases rule: base_stepE)
    case env
    from in_gen_env [OF env ok] show ?thesis by (auto intro: wait_okI [OF base_next(3) ok ok'])
  next
    case input
    then show ?thesis by (rule wait_ok_input)
  next
    case proc
    from in_gen_proc [OF proc ok sh] show ?thesis by (auto intro: wait_okI [OF base_next(3) ok ok'])
  qed
qed (simp add: wait_ok_def Setup_base_def New_base_def Let_def)

end
