(* ===== verification/Processor_Properties.thy ===== *)
theory Processor_Properties
  imports Processor_Gates
begin

text \<open>
  The properties of a frame processor, with concrete runs that exercise them and the runs that show
  where the code departs from what its documentation says.
\<close>

section \<open>Concrete runs\<close>

definition an_item :: "frame_body \<Rightarrow> u64 \<Rightarrow> item" where
  "an_item bd i = \<lparr>item_frame = fst (NewBaseFrame ''Frame'' bd i), item_dir = Downstream\<rparr>"

definition a_start :: item where "a_start = an_item (Sys (StartFrame 16000 24000)) 0"
definition a_text :: item where "a_text = an_item (Txt (NewTextFrame ''hi'')) 1"
definition a_result :: item where
  "a_result = an_item (Fun (FunctionCallResultFrame ''c1'' ''f'' ''42'' None None)) 2"
definition an_interruption :: item where "an_interruption = an_item (Sys InterruptionFrame) 3"

definition a_setup :: setupState where
  "a_setup = \<lparr>audioInSampleRate = 16000, audioOutSampleRate = 24000, enableMetrics = False,
     enableUsageMetrics = False, reportOnlyInitialTTFB = True\<rparr>"

definition a_base :: base where "a_base = Setup_base a_setup (New_base ''P'' False)"

definition after_run :: "action list \<Rightarrow> base" where
  "after_run as = the (base_run as a_base)"

lemma after_run_reach: "base_run as a_base \<noteq> None \<Longrightarrow> base_reach (after_run as)"
  unfolding after_run_def using base_run_reach [OF base_init] by (auto simp: a_base_def)

text \<open>Start the processor, then give it a text and a function call result, both forwarded.\<close>

definition start_run :: "action list" where
  "start_run = [CallQueueFrame a_text, CallQueueFrame a_start, InOpen, InTake, InGate, InProcess,
     InFinish None None, PrTop 0, InTake, InGate, CallQueueFrame a_result, InTake, InGate]"

definition handle_run :: "action list" where
  "handle_run = [PrTake 0, PrRecord 0, PrGate 0, PrProcess 0, PrFinish 0 None None, PrTop 0]"

definition interrupt_run :: "action list" where
  "interrupt_run = [CallQueueFrame an_interruption, InTake, InGate, InProcess]"

lemma start_run_ok: "base_run (start_run @ handle_run @ handle_run) a_base \<noteq> None"
  by code_simp

lemma subseq_prefix_append: "subseq xs (xs @ ys)"
  by (rule prefix_imp_subseq) simp

section \<open>Order\<close>



text \<open>
  C1. Data and control frames are handled in the order they were queued: as long as no interruption
  gave up waiting for a stuck goroutine and the processor is not being torn down, what has been
  handled is a subsequence of what arrived, however the two loops, interruptions, pauses and errors
  interleave.
\<close>

theorem data_frames_in_order:
  assumes "base_reach b" and "\<not> timedOut b" and "\<not> cleaned b"
  shows "subseq (filter is_data (handled b)) (filter is_data (arrived b))"
proof -
  from ordered_reach [OF assms(1)] assms(2,3) have "subseq (line b) (filter is_data (arrived b))"
    by (simp add: ordered_def)
  then show ?thesis unfolding line_def
    by (rule subseq_order.trans [rotated]) (rule subseq_prefix_append)
qed

lemma data_frames_in_order_witness:
  "subseq (filter is_data (handled (after_run (start_run @ handle_run @ handle_run))))
     (filter is_data (arrived (after_run (start_run @ handle_run @ handle_run))))"
  by (rule data_frames_in_order [OF after_run_reach [OF start_run_ok]]) code_simp+

text \<open>
  C7. A processor never has two process goroutines at work: outside a timed-out cancellation and a
  teardown, any two goroutines that have not exited are the same one.
\<close>

theorem single_process_goroutine:
  assumes "base_reach b" and "\<not> timedOut b" and "\<not> cleaned b"
    and "i < length (procs b)" and "pc (procs b ! i) \<noteq> PExited"
    and "j < length (procs b)" and "pc (procs b ! j) \<noteq> PExited"
  shows "i = j"
  using ordered_reach [OF assms(1)] assms(2-) unfolding ordered_def alone_def by metis

definition reinterrupt_run :: "action list" where
  "reinterrupt_run = start_run @ handle_run @ handle_run @ [PrBlock 0] @ interrupt_run @
     [PrExit 0, InJoined, PrTop 1]"

lemma single_process_goroutine_witness:
  "length (procs (after_run reinterrupt_run)) = 2 \<and> 1 = length (procs (after_run reinterrupt_run)) - 1"
proof -
  have r: "base_reach (after_run reinterrupt_run)" by (rule after_run_reach) code_simp
  have "\<not> timedOut (after_run reinterrupt_run)" "\<not> cleaned (after_run reinterrupt_run)"
    and "length (procs (after_run reinterrupt_run)) = 2"
    and "1 < length (procs (after_run reinterrupt_run))"
    and "pc (procs (after_run reinterrupt_run) ! 1) \<noteq> PExited"
    and "length (procs (after_run reinterrupt_run)) - 1 < length (procs (after_run reinterrupt_run))"
    and "pc (procs (after_run reinterrupt_run) ! (length (procs (after_run reinterrupt_run)) - 1)) \<noteq> PExited"
    by code_simp+
  with single_process_goroutine [OF r this(1,2,4-7)] show ?thesis by blast
qed

section \<open>Interruptions\<close>

text \<open>
  C2. Every frame a processor accepted is in exactly one place, and what an interruption has to keep
  (a system frame or an uninterruptible frame) is never dropped by one: its occurrences among the
  accepted frames are those handled, queued, in the hands of a loop, or abandoned by a loop that was
  cancelled while it held the frame at a pause gate.
\<close>

theorem surviving_frames_accounted:
  assumes "base_reach b" and "survives it"
  shows "count (mset (arrived b)) it =
    count (mset (handled b)) it + count (mset (queue_items (inputQueue b))) it +
    count (mset (queue_items (procQueue b))) it + count (mset (held_in (inp b))) it +
    count (mset (held_procs (procs b))) it + count (mset (abandoned b)) it"
proof -
  from accounted_reach [OF assms(1)] have c: "content b = mset (arrived b)"
    and "\<forall>x \<in> set (dropped b). \<not> survives x" by (simp_all add: accounted_def)
  with assms(2) have "it \<notin> set (dropped b)" by blast
  then have "count (mset (dropped b)) it = 0" by (simp add: count_mset count_list_0_iff)
  with arg_cong [OF c [symmetric], of "\<lambda>m. count m it"] show ?thesis
    by (simp add: content_def)
qed

lemma surviving_frames_accounted_witness:
  "survives a_result \<and>
   count (mset (arrived (after_run start_run))) a_result =
     count (mset (handled (after_run start_run))) a_result +
     count (mset (queue_items (inputQueue (after_run start_run)))) a_result +
     count (mset (queue_items (procQueue (after_run start_run)))) a_result +
     count (mset (held_in (inp (after_run start_run)))) a_result +
     count (mset (held_procs (procs (after_run start_run)))) a_result +
     count (mset (abandoned (after_run start_run))) a_result"
proof -
  have "survives a_result" by code_simp
  moreover have "base_reach (after_run start_run)" by (rule after_run_reach) code_simp
  ultimately show ?thesis using surviving_frames_accounted by blast
qed

text \<open>
  C8. An interruption that finds an uninterruptible frame being handled leaves the process goroutine
  alone: no goroutine is cancelled or started, and the process queue keeps exactly its uninterruptible
  frames, in order.
\<close>

theorem interruption_spares_uninterruptible:
  assumes "base_reach b" and "curFrame b = Some f" and "isUninterruptible f"
  shows "snd (startInterruption b) = None \<and>
    procs (fst (startInterruption b)) = procs b \<and>
    procRunning (fst (startInterruption b)) = procRunning b \<and>
    queue_items (procQueue (fst (startInterruption b))) =
      filter (\<lambda>it. isUninterruptible (item_frame it)) (queue_items (procQueue b))"
proof -
  from shape_reach [OF assms(1)] have "\<not> directMode b" "start (procQueue b) = []" "system (procQueue b) = []"
    by (simp_all add: shape_def)
  with assms(2,3) show ?thesis
    by (simp add: startInterruption_def isUninterruptible_cur_def reset_procQueue_def queue_items_def
        queue_reset_def)
qed

definition busy_run :: "action list" where
  "busy_run = start_run @ handle_run @ [PrTake 0, PrRecord 0, PrGate 0, CallQueueFrame a_text, InTake, InGate]"

lemma interruption_spares_uninterruptible_witness:
  "isUninterruptible (item_frame a_result) \<and>
   queue_items (procQueue (after_run busy_run)) = [a_text] \<and>
   queue_items (procQueue (fst (startInterruption (after_run busy_run)))) = []"
proof -
  have r: "base_reach (after_run busy_run)" by (rule after_run_reach) code_simp
  have c: "curFrame (after_run busy_run) = Some (item_frame a_result)" by code_simp
  have u: "isUninterruptible (item_frame a_result)" by code_simp
  have q: "queue_items (procQueue (after_run busy_run)) = [a_text]" by code_simp
  have "\<not> isUninterruptible (item_frame a_text)" by code_simp
  with interruption_spares_uninterruptible [OF r c u] u q show ?thesis by simp
qed

text \<open>
  An interruption that finds an interruptible frame being handled cancels the goroutine, but the
  queue is emptied only once the goroutine has exited, and \<open>get\<close> looks at the cancelled context only
  when the queue is empty: the goroutine goes on to handle what was queued. Here the text frame
  queued before the interruption is handled after it, under a cancelled context.
\<close>

definition late_run :: "action list" where
  "late_run = [CallQueueFrame a_start, InOpen, InTake, InGate, InProcess, InFinish None None, PrTop 0,
     CallQueueFrame a_text, InTake, InGate, PrTake 0, PrRecord 0, PrGate 0,
     CallQueueFrame a_text, InTake, InGate] @ interrupt_run @
     [PrProcess 0, PrFinish 0 None None, PrTop 0, PrTake 0, PrRecord 0, PrGate 0]"

lemma interrupted_frame_still_handled:
  "\<exists>b. base_reach b \<and> handled b = [a_start, a_text, an_interruption, a_text] \<and>
     \<not> survives a_text \<and> ctxDone (procs b ! 0) \<and> dropped b = []"
proof -
  have "base_reach (after_run late_run)" by (rule after_run_reach) code_simp
  moreover have "handled (after_run late_run) = [a_start, a_text, an_interruption, a_text]" by code_simp
  moreover have "\<not> survives a_text" by code_simp
  moreover have "ctxDone (procs (after_run late_run) ! 0)" and "dropped (after_run late_run) = []"
    by code_simp+
  ultimately show ?thesis by blast
qed

text \<open>
  Between taking a frame off the queue and recording it as the current one, an interruption does not
  see it. When the loop is also paused, the cancelled goroutine gives the frame up: here a function
  call result, which is uninterruptible, is lost without a timeout or a teardown.
\<close>

definition lost_run :: "action list" where
  "lost_run = start_run @ handle_run @ [CallPause, PrTake 0] @ interrupt_run @
     [PrRecord 0, PrGate 0, PrGiveUp 0, InJoined]"

lemma uninterruptible_frame_lost:
  "\<exists>b. base_reach b \<and> isUninterruptible (item_frame a_result) \<and> a_result \<in> set (arrived b) \<and>
     abandoned b = [a_result] \<and> \<not> timedOut b \<and> \<not> cleaned b"
proof -
  have "base_reach (after_run lost_run)" by (rule after_run_reach) code_simp
  moreover have "isUninterruptible (item_frame a_result)" by code_simp
  moreover have "a_result \<in> set (arrived (after_run lost_run))" by code_simp
  moreover have "abandoned (after_run lost_run) = [a_result]" by code_simp
  moreover have "\<not> timedOut (after_run lost_run)" and "\<not> cleaned (after_run lost_run)" by code_simp+
  ultimately show ?thesis by blast
qed

section \<open>Pausing\<close>

text \<open>
  C9. A hold placed until a condition is ready cannot strand the input loop: whenever that loop is
  waiting at its gate, the end of the watcher (readiness, timeout or cleanup alike) releases it, and
  it goes on with the very frame it held: a system frame is handled, any other goes to the back of the
  process queue.
\<close>

theorem input_hold_is_lifted:
  assumes "base_reach b" and "inp b = IWait it e g"
  shows "\<exists>b'. input_step InReleased (watchUntilReady b) = Some b' \<and> \<not> blockSystemFrames b' \<and>
    (if isSystemFrame (item_frame it) then inp b' = IHandle it \<and> handled b' = handled b @ [it]
     else inp b' = IGet \<and> queue_items (procQueue b') = queue_items (procQueue b) @ [it])"
proof -
  from wait_ok_reach [OF assms(1)] assms(2) have e: "e = inputEvent b" and g: "g \<le> in_gen b"
    by (simp_all add: wait_ok_def)
  let ?w = "watchUntilReady b"
  from gates_ok_reach [OF assms(1)] have ok: "gates_ok b" .
  then have "ev_set (evs ?w ! e)"
    by (auto simp: e gates_ok_def watchUntilReady_def resumeProcessingAllFrames_def
        ResumeProcessingFrames_def ResumeProcessingSystemFrames_def set_ev_def event_Set_def
        nth_list_update split: option.split)
  moreover have "g \<le> ev_gen (evs ?w ! e)"
  proof -
    have "inputEvent ?w = inputEvent b" using wiring_gates(10) [of b] by (simp add: wiring_def)
    with g in_gen_ResumeAll(2) [of b] show ?thesis by (simp add: in_gen_def e)
  qed
  ultimately have "event_closed (evs ?w ! e) g" by (auto simp: event_closed_def)
  moreover have "queue_items (queue_push it (procQueue b)) = queue_items (procQueue b) @ [it]"
    if "\<not> isSystemFrame (item_frame it)"
    using that by (simp add: queue_push_data queue_items_def)
  moreover have "\<not> blockSystemFrames (released True e ?w)" by (simp add: released_def Let_def)
  ultimately show ?thesis using assms(2) by (simp add: input_dispatch_def)
qed

definition held_run :: "action list" where
  "held_run = [CallQueueFrame a_start, InOpen, InTake, InGate, InProcess, InFinish None None,
     CallPauseAllUntil, CallQueueFrame a_text, InTake, InGate]"

lemma input_hold_is_lifted_witness:
  "\<exists>b'. input_step InReleased (watchUntilReady (after_run held_run)) = Some b' \<and> inp b' = IGet \<and>
     queue_items (procQueue b') = [a_text]"
proof -
  have r: "base_reach (after_run held_run)" by (rule after_run_reach) code_simp
  have i: "inp (after_run held_run) = IWait a_text 0 0" by code_simp
  have "\<not> isSystemFrame (item_frame a_text)" and "queue_items (procQueue (after_run held_run)) = []"
    by code_simp+
  with input_hold_is_lifted [OF r i] show ?thesis by auto
qed

text \<open>
  The gate of the process loop has no such guarantee. \<open>BroadcastInterruption\<close> installs a fresh gate;
  a process goroutine already waiting at the old one is not released by it, nor by any later resume,
  pause, queueing or interruption, as long as its own context is not cancelled and it gives up.
\<close>

lemma replaced_gate_strands:
  assumes "base_reach b" and "stranded n it e g b" and "base_run as b = Some b'" and "PrGiveUp n \<notin> set as"
  shows "pc (procs b' ! n) = PWait it e g"
  using stranded_run [OF assms(3) shape_reach [OF assms(1)] assms(2,4)] by (simp add: stranded_def)

definition stranding_run :: "action list" where
  "stranding_run = start_run @ [CallPause, PrTake 0, PrRecord 0, PrGate 0, CallBroadcastInterruption, CallResume]"

lemma replaced_gate_strands_reachable:
  "base_reach (after_run stranding_run) \<and> stranded 0 a_text 1 0 (after_run stranding_run)"
proof
  show r: "base_reach (after_run stranding_run)" by (rule after_run_reach) code_simp
  have "processEvent (after_run stranding_run) = Some 2" "length (evs (after_run stranding_run)) = 3"
    "\<not> ev_set (evs (after_run stranding_run) ! 1)" "ev_gen (evs (after_run stranding_run) ! 1) = 0"
    "length (procs (after_run stranding_run)) = 1"
    "pc (procs (after_run stranding_run) ! 0) = PWait a_text 1 0"
    by code_simp+
  with gates_ok_reach [OF r] show "stranded 0 a_text 1 0 (after_run stranding_run)"
    by (simp add: stranded_def old_gate_def)
qed

section \<open>Errors, broadcasts and metrics\<close>

text \<open>
  By the time an error frame travels its category is settled, whatever the embedding processor's
  own classifier answers; a category the caller set is kept; the error event is raised last, with the
  frame that is pushed; and a permanent category or a forced one leaves the processor unusable before
  that event, while any other error leaves its usability alone.
\<close>

lemma error_category_settled:
  assumes "PushErrorFrame classifier ef force b = (b', raised, ef')"
  shows "ef_Category ef' \<noteq> Unset \<and>
    (ef_Category ef \<noteq> Unset \<longrightarrow> ef_Category ef' = ef_Category ef) \<and>
    usable b' = (usable b \<and> \<not> force \<and> \<not> IsPermanent (ef_Category ef')) \<and>
    raised = (if usable b' = usable b then [] else [EventUsableChanged False]) @ [EventError ef']"
proof -
  have s: "ef_Category ef' \<noteq> Unset" and k: "ef_Category ef \<noteq> Unset \<longrightarrow> ef_Category ef' = ef_Category ef"
    using assms by (auto simp: PushErrorFrame_def Let_def split: if_splits option.splits prod.splits)
  obtain c u where "SetUsable False b = (c, u)" by fastforce
  with assms obtain rs where
    "(if force \<or> IsPermanent (ef_Category ef') then SetUsable False b else (b, [])) = (b', rs)"
    and "raised = rs @ [EventError ef']"
    by (auto simp: PushErrorFrame_def Let_def split: prod.splits)
  with s k show ?thesis by (auto simp: SetUsable_def split: if_splits)
qed

definition an_error :: error_frame where
  "an_error = \<lparr>ef_Error = ''refused'', ef_Fatal = False, ef_Source = None,
     ef_Err = Some [\<lparr>statusCoder = Some 401, responseField = [], ownField = [], netError = False,
       connErrno = False\<rparr>],
     ef_Category = Unset\<rparr>"

lemma error_category_settled_witness:
  "ef_Category (snd (snd (PushErrorFrame (Some (\<lambda>e. Unset)) an_error False a_base))) = Authentication \<and>
   usable (fst (PushErrorFrame (Some (\<lambda>e. Unset)) an_error False a_base)) = False"
proof -
  let ?X = "PushErrorFrame (Some (\<lambda>e. Unset)) an_error False a_base"
  have "ef_Category (snd (snd ?X)) = Authentication" by code_simp
  moreover have "IsPermanent Authentication" by code_simp
  ultimately show ?thesis
    using error_category_settled [of "Some (\<lambda>e. Unset)" an_error False a_base "fst ?X" "fst (snd ?X)" "snd (snd ?X)"]
    by simp
qed

text \<open>
  The two halves of a broadcast are two different frames that name each other: the downstream one
  carries the identifier of the upstream one and the other way round, and each is what the builder
  made.
\<close>

lemma broadcast_pairs:
  "\<exists>down up. fst (Broadcast (NewBaseFrame tn bd) c) = [(down, Downstream), (up, Upstream)] \<and>
     frameID down \<noteq> frameID up \<and> BroadcastSiblingID down = (frameID up, True) \<and>
     BroadcastSiblingID up = (frameID down, True) \<and> body down = bd \<and> body up = bd \<and>
     snd (Broadcast (NewBaseFrame tn bd) c) = c + 2"
  by (simp add: Broadcast_def NewBaseFrame_def nextID_def SetBroadcastSiblingID_def
      BroadcastSiblingID_def Let_def)

text \<open>Measuring \<open>n\<close> times in a row.\<close>

fun BeginTTFB_times :: "nat \<Rightarrow> base \<Rightarrow> bool list \<times> base" where
  "BeginTTFB_times 0 b = ([], b)"
| "BeginTTFB_times (Suc n) b =
    (let (r, b1) = BeginTTFB b; (rs, b2) = BeginTTFB_times n b1 in (r # rs, b2))"

lemma BeginTTFB_unarmed: "\<not> armTTFB b \<Longrightarrow> fst (BeginTTFB_times n b) = replicate n False"
  by (induction n arbitrary: b) (auto simp: BeginTTFB_def case_prod_beta Let_def)

lemma BeginTTFB_armed:
  "armTTFB b \<Longrightarrow> \<not> reportOnlyInitialTTFB (setup_state b) \<Longrightarrow> fst (BeginTTFB_times n b) = replicate n True"
  by (induction n arbitrary: b) (auto simp: BeginTTFB_def case_prod_beta Let_def)

text \<open>
  After a StartFrame, a pipeline asked to report only the initial time to first byte measures it
  exactly once; any other pipeline measures it every time.
\<close>

lemma ttfb_measured:
  assumes "isStartFrame f"
  shows "fst (BeginTTFB_times (Suc n) (fst (Base_ProcessFrame f b))) =
    True # replicate n (\<not> reportOnlyInitialTTFB (setup_state b))"
proof -
  let ?b = "fst (Base_ProcessFrame f b)"
  have a: "armTTFB ?b" "setup_state ?b = setup_state b"
    using assms
    by (auto simp: isStartFrame_def Base_ProcessFrame_def start_base_def createProcessTask_def
        resetProcessTask_def reset_procQueue_def Let_def split: frame_splits)
  show ?thesis
    using a BeginTTFB_unarmed [of "?b\<lparr>armTTFB := False\<rparr>" n] BeginTTFB_armed [of "?b\<lparr>armTTFB := True\<rparr>" n]
    by (cases "reportOnlyInitialTTFB (setup_state b)") (simp_all add: BeginTTFB_def case_prod_beta Let_def)
qed

lemma ttfb_measured_witness:
  "fst (BeginTTFB_times 3 (fst (Base_ProcessFrame (item_frame a_start) a_base))) = [True, False, False]"
proof -
  have "isStartFrame (item_frame a_start)" and r: "reportOnlyInitialTTFB (setup_state a_base)"
    by code_simp+
  from ttfb_measured [OF this(1), of 2 a_base] r show ?thesis by (simp add: numeral_eq_Suc)
qed

end
