(* ===== verification/Go_Strings.thy ===== *)
theory Go_Strings
  imports Voxigo_Prelude
begin

text \<open>
  The parts of Go's \<open>strings\<close>, \<open>unicode\<close> and \<open>regexp\<close> packages the modelled code uses, on ASCII texts: a
  byte is a character, so a Go string is an Isabelle string and ranging over it visits its characters.
\<close>

section \<open>Character classes and fields\<close>

text \<open>The regular expression class \<open>\s\<close>, and \<open>unicode.IsSpace\<close>, which \<open>strings.Fields\<close> splits on.\<close>

definition re_space :: "char \<Rightarrow> bool" where
  "re_space c \<longleftrightarrow> c \<in> {CHR 0x09, CHR 0x0A, CHR 0x0C, CHR 0x0D, CHR '' ''}"

definition IsSpace :: "char \<Rightarrow> bool" where
  "IsSpace c \<longleftrightarrow> re_space c \<or> c = CHR 0x0B"

definition in_range :: "char \<Rightarrow> char \<Rightarrow> char \<Rightarrow> bool" where
  "in_range a b c \<longleftrightarrow> of_char a \<le> (of_char c :: nat) \<and> (of_char c :: nat) \<le> of_char b"

definition re_word :: "char \<Rightarrow> bool" where
  "re_word c \<longleftrightarrow> in_range CHR ''a'' CHR ''z'' c \<or> in_range CHR ''A'' CHR ''Z'' c \<or>
     in_range CHR ''0'' CHR ''9'' c \<or> c = CHR ''_''"

definition to_lower :: "char \<Rightarrow> char" where
  "to_lower c = (if in_range CHR ''A'' CHR ''Z'' c then char_of (of_char c + 32 :: nat) else c)"

fun Fields_from :: "string \<Rightarrow> string \<Rightarrow> string list" where
  "Fields_from w [] = (if w = [] then [] else [w])"
| "Fields_from w (c # cs) =
    (if IsSpace c then (if w = [] then Fields_from [] cs else w # Fields_from [] cs)
     else Fields_from (w @ [c]) cs)"

definition Fields :: "string \<Rightarrow> string list" where
  "Fields s = Fields_from [] s"

section \<open>Searching\<close>

definition HasPrefix :: "string \<Rightarrow> string \<Rightarrow> bool" where
  "HasPrefix s p \<longleftrightarrow> take (length p) s = p"

fun Contains :: "string \<Rightarrow> string \<Rightarrow> bool" where
  "Contains [] p = (p = [])"
| "Contains (c # cs) p = (HasPrefix (c # cs) p \<or> Contains cs p)"

text \<open>\<open>strings.Count\<close>: occurrences that do not overlap; the empty string is counted around every character.\<close>

function Count :: "string \<Rightarrow> string \<Rightarrow> nat" where
  "Count s p =
    (if p = [] then length s + 1
     else case s of
       [] \<Rightarrow> 0
     | c # cs \<Rightarrow> if HasPrefix s p then 1 + Count (drop (length p) s) p else Count cs p)"
  by pat_completeness auto
termination by (relation "measure (length \<circ> fst)") auto

declare Count.simps [simp del]

section \<open>Joining and replacing\<close>

fun Join :: "string \<Rightarrow> string list \<Rightarrow> string" where
  "Join sep [] = []"
| "Join sep [s] = s"
| "Join sep (s # t # ts) = s @ sep @ Join sep (t # ts)"

text \<open>\<open>strings.ReplaceAll(s, old, new)\<close>: an empty \<open>old\<close> matches before and after every character.\<close>

function ReplaceAll :: "string \<Rightarrow> string \<Rightarrow> string \<Rightarrow> string" where
  "ReplaceAll s old new =
    (if old = [] then new @ concat (map (\<lambda>c. c # new) s)
     else case s of
       [] \<Rightarrow> []
     | c # cs \<Rightarrow>
         if HasPrefix s old then new @ ReplaceAll (drop (length old) s) old new
         else c # ReplaceAll cs old new)"
  by pat_completeness auto
termination by (relation "measure (length \<circ> fst)") auto

declare ReplaceAll.simps [simp del]

section \<open>Trimming\<close>

definition trim_by :: "(char \<Rightarrow> bool) \<Rightarrow> string \<Rightarrow> string" where
  "trim_by p s = rev (dropWhile p (rev (dropWhile p s)))"

text \<open>\<open>strings.TrimSpace(s)\<close>, \<open>strings.Trim(s, " ")\<close> and \<open>strings.TrimRight(s, cutset)\<close>.\<close>

definition TrimSpace :: "string \<Rightarrow> string" where
  "TrimSpace s = trim_by IsSpace s"

definition Trim_spaces :: "string \<Rightarrow> string" where
  "Trim_spaces s = trim_by (\<lambda>c. c = CHR '' '') s"

definition TrimRight :: "string \<Rightarrow> string \<Rightarrow> string" where
  "TrimRight cutset s = rev (dropWhile (\<lambda>c. c \<in> set cutset) (rev s))"

lemma filter_dropWhile: "filter (\<lambda>c. \<not> p c) (dropWhile p s) = filter (\<lambda>c. \<not> p c) s"
  by (induction s) auto

lemma filter_trim_by: "filter (\<lambda>c. \<not> p c) (trim_by p s) = filter (\<lambda>c. \<not> p c) s"
  by (simp add: trim_by_def filter_dropWhile flip: rev_filter)

text \<open>Trimming whitespace never removes a character that is not white space.\<close>

lemma filter_trim_le:
  assumes "\<And>c. p c \<Longrightarrow> q c"
  shows "filter (\<lambda>c. \<not> q c) (trim_by p s) = filter (\<lambda>c. \<not> q c) s"
proof -
  have "filter (\<lambda>c. \<not> q c) (filter (\<lambda>c. \<not> p c) xs) = filter (\<lambda>c. \<not> q c) xs" for xs
    using assms by (simp add: filter_filter) (meson filter_cong)
  from this [of "trim_by p s"] this [of s] filter_trim_by [of p s] show ?thesis by simp
qed

end
