(* ===== verification/Json.thy ===== *)
theory Json
  imports Go_Strings
begin

text \<open>
  The part of Go's \<open>encoding/json\<close> the protocol messages rely on: \<open>Marshal\<close> of a structure of strings,
  and \<open>Unmarshal\<close> of any JSON text into such a structure. Texts are ASCII, as everywhere in this
  development; a \<open>\u\<close> escape beyond ASCII is decoded to its UTF-8 bytes. The limit of 10000 nested
  values, past which \<open>Unmarshal\<close> reports an error, is left out.
\<close>

section \<open>Writing\<close>

definition hex_digit :: "nat \<Rightarrow> char" where
  "hex_digit n = (if n < 10 then char_of (48 + n) else char_of (87 + n))"

text \<open>\<open>appendString\<close> with HTML escaping, one character at a time.\<close>

definition escape_char :: "char \<Rightarrow> string" where
  "escape_char c =
    (if c = CHR 0x22 \<or> c = CHR 0x5C then [CHR 0x5C, c]
     else if c = CHR 0x08 then [CHR 0x5C, CHR ''b'']
     else if c = CHR 0x0C then [CHR 0x5C, CHR ''f'']
     else if c = CHR 0x0A then [CHR 0x5C, CHR ''n'']
     else if c = CHR 0x0D then [CHR 0x5C, CHR ''r'']
     else if c = CHR 0x09 then [CHR 0x5C, CHR ''t'']
     else if (of_char c :: nat) < 32 \<or> c \<in> {CHR ''<'', CHR ''>'', CHR ''&''}
     then [CHR 0x5C, CHR ''u'', CHR ''0'', CHR ''0'',
           hex_digit (of_char c div 16), hex_digit (of_char c mod 16)]
     else [c])"

definition quote :: "string \<Rightarrow> string" where
  "quote s = [CHR 0x22] @ concat (map escape_char s) @ [CHR 0x22]"

text \<open>The members of an object whose values are all strings, in the order of the struct's fields.\<close>

fun marshal_members :: "(string \<times> string) list \<Rightarrow> string" where
  "marshal_members [] = []"
| "marshal_members [(k, v)] = quote k @ '':'' @ quote v"
| "marshal_members ((k, v) # m # ms) = quote k @ '':'' @ quote v @ '','' @ marshal_members (m # ms)"

definition marshal_object :: "(string \<times> string) list \<Rightarrow> string" where
  "marshal_object ms = ''{'' @ marshal_members ms @ ''}''"

section \<open>Reading: tokens\<close>

datatype token =
    TLBrace | TRBrace | TLBracket | TRBracket | TColon | TComma
  | TString string | TNumber string | TTrue | TFalse | TNull

definition hex_value :: "char \<Rightarrow> nat option" where
  "hex_value c =
    (if in_range CHR ''0'' CHR ''9'' c then Some (of_char c - 48)
     else if in_range CHR ''a'' CHR ''f'' c then Some (of_char c - 87)
     else if in_range CHR ''A'' CHR ''F'' c then Some (of_char c - 55)
     else None)"

text \<open>\<open>getu4\<close> on the four characters after \<open>\u\<close>.\<close>

definition u4 :: "char \<Rightarrow> char \<Rightarrow> char \<Rightarrow> char \<Rightarrow> nat option" where
  "u4 a b c d =
    (case (hex_value a, hex_value b, hex_value c, hex_value d) of
       (Some w, Some x, Some y, Some z) \<Rightarrow> Some (((w * 16 + x) * 16 + y) * 16 + z)
     | _ \<Rightarrow> None)"

definition utf8 :: "nat \<Rightarrow> string" where
  "utf8 n =
    (if n < 0x80 then [char_of n]
     else if n < 0x800 then [char_of (0xC0 + n div 64), char_of (0x80 + n mod 64)]
     else if n < 0x10000
     then [char_of (0xE0 + n div 4096), char_of (0x80 + n div 64 mod 64), char_of (0x80 + n mod 64)]
     else [char_of (0xF0 + n div 262144), char_of (0x80 + n div 4096 mod 64),
           char_of (0x80 + n div 64 mod 64), char_of (0x80 + n mod 64)])"

text \<open>
  A \<open>\u\<close> escape and what follows it: a surrogate pair is one code point and takes the second escape
  too, a surrogate on its own is the replacement character.
\<close>

fun decode_u :: "nat \<Rightarrow> string \<Rightarrow> string \<times> nat" where
  "decode_u n rest =
    (if n < 0xD800 \<or> 0xE000 \<le> n then (utf8 n, 0)
     else case rest of
       e # u # a # b # c # d # _ \<Rightarrow>
         (case (if e = CHR 0x5C \<and> u = CHR ''u'' then u4 a b c d else None) of
            Some m \<Rightarrow>
              if n < 0xDC00 \<and> 0xDC00 \<le> m \<and> m < 0xE000
              then (utf8 (0x10000 + (n - 0xD800) * 1024 + (m - 0xDC00)), 6) else (utf8 0xFFFD, 0)
          | None \<Rightarrow> (utf8 0xFFFD, 0))
     | _ \<Rightarrow> (utf8 0xFFFD, 0))"

declare decode_u.simps [simp del]

definition simple_escape :: "char \<Rightarrow> char option" where
  "simple_escape e =
    (if e = CHR 0x22 \<or> e = CHR 0x5C \<or> e = CHR ''/'' then Some e
     else if e = CHR ''b'' then Some (CHR 0x08)
     else if e = CHR ''f'' then Some (CHR 0x0C)
     else if e = CHR ''n'' then Some (CHR 0x0A)
     else if e = CHR ''r'' then Some (CHR 0x0D)
     else if e = CHR ''t'' then Some (CHR 0x09)
     else None)"

definition prepend :: "string \<Rightarrow> (string \<times> string) option \<Rightarrow> (string \<times> string) option" where
  "prepend p r = map_option (map_prod (append p) id) r"

text \<open>The rest of a string literal after its opening quote: what it denotes and what follows it.\<close>

function lex_string :: "string \<Rightarrow> (string \<times> string) option" where
  "lex_string s =
    (case s of
       [] \<Rightarrow> None
     | c # cs \<Rightarrow>
         if c = CHR 0x22 then Some ([], cs)
         else if c = CHR 0x5C then
           (case cs of
              [] \<Rightarrow> None
            | e # es \<Rightarrow>
                if e = CHR ''u'' then
                  (case es of
                     a # b # x # d # r \<Rightarrow>
                       (case u4 a b x d of
                          None \<Rightarrow> None
                        | Some n \<Rightarrow>
                            prepend (fst (decode_u n r)) (lex_string (drop (snd (decode_u n r)) r)))
                   | _ \<Rightarrow> None)
                else (case simple_escape e of
                        None \<Rightarrow> None
                      | Some v \<Rightarrow> prepend [v] (lex_string es)))
         else if (of_char c :: nat) < 32 then None
         else prepend [c] (lex_string cs))"
  by pat_completeness auto
termination by (relation "measure length") auto

declare lex_string.simps [simp del]

definition digits :: "string \<Rightarrow> string \<times> string" where
  "digits s = (takeWhile (in_range CHR ''0'' CHR ''9'') s, dropWhile (in_range CHR ''0'' CHR ''9'') s)"

text \<open>The number grammar: sign, integer part without a leading zero, fraction, exponent.\<close>

definition lex_int :: "string \<Rightarrow> (string \<times> string) option" where
  "lex_int s =
    (case digits s of
       ([], _) \<Rightarrow> None
     | (d # ds, r) \<Rightarrow> if d = CHR ''0'' then Some ([d], ds @ r) else Some (d # ds, r))"

definition lex_frac :: "string \<Rightarrow> (string \<times> string) option" where
  "lex_frac s =
    (case s of
       [] \<Rightarrow> Some ([], s)
     | c # r \<Rightarrow>
         if c \<noteq> CHR ''.'' then Some ([], s)
         else (case digits r of ([], _) \<Rightarrow> None | (ds, r') \<Rightarrow> Some (c # ds, r')))"

definition lex_sign :: "string \<Rightarrow> string \<times> string" where
  "lex_sign s =
    (case s of
       [] \<Rightarrow> ([], s)
     | c # r \<Rightarrow> if c = CHR ''+'' \<or> c = CHR ''-'' then ([c], r) else ([], s))"

definition lex_exp :: "string \<Rightarrow> (string \<times> string) option" where
  "lex_exp s =
    (case s of
       [] \<Rightarrow> Some ([], s)
     | c # r \<Rightarrow>
         if c \<noteq> CHR ''e'' \<and> c \<noteq> CHR ''E'' then Some ([], s)
         else (case lex_sign r of (g, r') \<Rightarrow>
                (case digits r' of ([], _) \<Rightarrow> None | (ds, r'') \<Rightarrow> Some (c # g @ ds, r''))))"

definition lex_number :: "string \<Rightarrow> (string \<times> string) option" where
  "lex_number s =
    (let (g, s) = (case s of [] \<Rightarrow> ([], s) | c # r \<Rightarrow> if c = CHR ''-'' then ([c], r) else ([], s)) in
     case lex_int s of
       None \<Rightarrow> None
     | Some (i, r) \<Rightarrow>
         (case lex_frac r of
            None \<Rightarrow> None
          | Some (f, r') \<Rightarrow>
              (case lex_exp r' of None \<Rightarrow> None | Some (e, r'') \<Rightarrow> Some (g @ i @ f @ e, r''))))"

definition punctuation :: "char \<Rightarrow> token option" where
  "punctuation c =
    (if c = CHR ''{'' then Some TLBrace else if c = CHR ''}'' then Some TRBrace
     else if c = CHR ''['' then Some TLBracket else if c = CHR '']'' then Some TRBracket
     else if c = CHR '':'' then Some TColon else if c = CHR '','' then Some TComma else None)"

text \<open>One token of a text that does not start with white space.\<close>

definition lex_token :: "string \<Rightarrow> (token \<times> string) option" where
  "lex_token s =
    (case s of
       [] \<Rightarrow> None
     | c # cs \<Rightarrow>
         (case punctuation c of
            Some t \<Rightarrow> Some (t, cs)
          | None \<Rightarrow>
              if c = CHR 0x22 then map_option (map_prod TString id) (lex_string cs)
              else if HasPrefix s ''true'' then Some (TTrue, drop 4 s)
              else if HasPrefix s ''false'' then Some (TFalse, drop 5 s)
              else if HasPrefix s ''null'' then Some (TNull, drop 4 s)
              else map_option (map_prod TNumber id) (lex_number s)))"

definition json_space :: "char \<Rightarrow> bool" where
  "json_space c \<longleftrightarrow> c = CHR '' '' \<or> c = CHR 0x09 \<or> c = CHR 0x0A \<or> c = CHR 0x0D"

text \<open>Every token is followed by less text than it started from.\<close>

lemma prepend_Some [simp]:
  "prepend p r = Some (v, t) \<longleftrightarrow> (\<exists>w. r = Some (w, t) \<and> v = p @ w)"
  by (cases r) (auto simp: prepend_def)

lemma lex_string_shorter: "lex_string s = Some (v, r) \<Longrightarrow> length r < length s"
proof (induction "length s" arbitrary: s v rule: less_induct)
  case less
  have IH: "length r < length t" if "lex_string t = Some (w, r)" "length t < length s" for t w
    using less.hyps that by blast
  from less.prems show ?case
    by (subst (asm) lex_string.simps)
      (auto split: list.split_asm if_split_asm option.split_asm dest!: IH)
qed

lemma digits_length: "digits s = (ds, r) \<Longrightarrow> length s = length ds + length r"
  by (auto simp: digits_def simp flip: length_append)

lemma lex_int_shorter: "lex_int s = Some (v, r) \<Longrightarrow> length r < length s"
  by (auto simp: lex_int_def dest!: digits_length split: prod.splits list.splits if_splits)

lemma lex_frac_le: "lex_frac s = Some (v, r) \<Longrightarrow> length r \<le> length s"
  by (auto simp: lex_frac_def dest!: digits_length split: prod.splits list.splits if_splits)

lemma lex_sign_le: "lex_sign s = (g, r) \<Longrightarrow> length r \<le> length s"
  by (auto simp: lex_sign_def split: list.splits if_splits)

lemma lex_exp_le: "lex_exp s = Some (v, r) \<Longrightarrow> length r \<le> length s"
  by (auto simp: lex_exp_def dest!: digits_length lex_sign_le split: prod.splits list.splits if_splits)

lemma lex_number_shorter: "lex_number s = Some (v, r) \<Longrightarrow> length r < length s"
  by (auto simp: lex_number_def Let_def dest!: lex_int_shorter lex_frac_le lex_exp_le
      split: option.splits prod.splits list.splits if_splits)

lemma lex_token_shorter: "lex_token s = Some (t, r) \<Longrightarrow> length r < length s"
  by (auto simp: lex_token_def dest!: lex_string_shorter lex_number_shorter
      split: list.splits option.splits if_splits)

function tokens :: "string \<Rightarrow> token list option" where
  "tokens s =
    (case dropWhile json_space s of
       [] \<Rightarrow> Some []
     | c # cs \<Rightarrow>
         (case lex_token (c # cs) of
            None \<Rightarrow> None
          | Some (t, r) \<Rightarrow> map_option (Cons t) (tokens r)))"
  by pat_completeness auto
termination
proof (relation "measure length")
  fix s c cs p t r
  assume "dropWhile json_space s = c # cs" and "lex_token (c # cs) = Some p" and "(t, r) = p"
  then have "length r < length (dropWhile json_space s)"
    using lex_token_shorter [of "c # cs" t r] by simp
  also have "\<dots> \<le> length s" by (rule length_dropWhile_le)
  finally show "(r, s) \<in> measure length" by simp
qed simp

declare tokens.simps [simp del]

section \<open>Reading: values\<close>

datatype json =
    JNull | JBool bool | JNumber string | JString string
  | JArray "json list" | JObject "(string \<times> json) list"

text \<open>
  The grammar over the tokens. Every call but those for an element of an array takes a token first, so
  two calls per token are enough.
\<close>

fun parse_value :: "nat \<Rightarrow> token list \<Rightarrow> (json \<times> token list) option"
  and parse_elements :: "nat \<Rightarrow> token list \<Rightarrow> (json list \<times> token list) option"
  and parse_members :: "nat \<Rightarrow> token list \<Rightarrow> ((string \<times> json) list \<times> token list) option" where
  "parse_value (Suc n) (TString s # ts) = Some (JString s, ts)"
| "parse_value (Suc n) (TNumber s # ts) = Some (JNumber s, ts)"
| "parse_value (Suc n) (TTrue # ts) = Some (JBool True, ts)"
| "parse_value (Suc n) (TFalse # ts) = Some (JBool False, ts)"
| "parse_value (Suc n) (TNull # ts) = Some (JNull, ts)"
| "parse_value (Suc n) (TLBracket # TRBracket # ts) = Some (JArray [], ts)"
| "parse_value (Suc n) (TLBracket # ts) = map_option (map_prod JArray id) (parse_elements n ts)"
| "parse_value (Suc n) (TLBrace # TRBrace # ts) = Some (JObject [], ts)"
| "parse_value (Suc n) (TLBrace # ts) = map_option (map_prod JObject id) (parse_members n ts)"
| "parse_value _ _ = None"
| "parse_elements (Suc n) ts =
    (case parse_value n ts of
       Some (v, TComma # r) \<Rightarrow> map_option (map_prod (Cons v) id) (parse_elements n r)
     | Some (v, TRBracket # r) \<Rightarrow> Some ([v], r)
     | _ \<Rightarrow> None)"
| "parse_elements 0 ts = None"
| "parse_members (Suc n) (TString k # TColon # ts) =
    (case parse_value n ts of
       Some (v, TComma # r) \<Rightarrow> map_option (map_prod (Cons (k, v)) id) (parse_members n r)
     | Some (v, TRBrace # r) \<Rightarrow> Some ([(k, v)], r)
     | _ \<Rightarrow> None)"
| "parse_members _ _ = None"

definition parse_json :: "string \<Rightarrow> json option" where
  "parse_json s =
    (case tokens s of
       None \<Rightarrow> None
     | Some ts \<Rightarrow> (case parse_value (2 * length ts + 2) ts of Some (v, []) \<Rightarrow> Some v | _ \<Rightarrow> None))"

section \<open>Reading: into the fields of a structure\<close>

text \<open>
  A key names a field whatever its case. \<open>null\<close> leaves a string as it is and empties a pointer; the last
  of several members counts; a value that is no string is an error.
\<close>

definition key_matches :: "string \<Rightarrow> string \<Rightarrow> bool" where
  "key_matches field key \<longleftrightarrow> map to_lower field = map to_lower key"

fun string_field :: "string \<Rightarrow> string \<Rightarrow> (string \<times> json) list \<Rightarrow> string option" where
  "string_field f cur [] = Some cur"
| "string_field f cur ((k, v) # ms) =
    (if \<not> key_matches f k then string_field f cur ms
     else case v of
       JString s \<Rightarrow> string_field f s ms
     | JNull \<Rightarrow> string_field f cur ms
     | _ \<Rightarrow> None)"

fun pointer_field :: "string \<Rightarrow> string option \<Rightarrow> (string \<times> json) list \<Rightarrow> string option option" where
  "pointer_field f cur [] = Some cur"
| "pointer_field f cur ((k, v) # ms) =
    (if \<not> key_matches f k then pointer_field f cur ms
     else case v of
       JString s \<Rightarrow> pointer_field f (Some s) ms
     | JNull \<Rightarrow> pointer_field f None ms
     | _ \<Rightarrow> None)"

text \<open>The members a structure is filled from; \<open>null\<close> fills nothing and is no error.\<close>

definition members_of :: "string \<Rightarrow> (string \<times> json) list option" where
  "members_of s =
    (case parse_json s of Some (JObject ms) \<Rightarrow> Some ms | Some JNull \<Rightarrow> Some [] | _ \<Rightarrow> None)"

section \<open>What is written is read back\<close>

definition ascii :: "string \<Rightarrow> bool" where
  "ascii s \<longleftrightarrow> list_all (\<lambda>c. (of_char c :: nat) < 128) s"

lemma hex_value_digit: "n < 16 \<Longrightarrow> hex_value (hex_digit n) = Some n"
  by (auto simp: hex_value_def hex_digit_def in_range_def of_char_of)

lemma hex_value_0 [simp]: "hex_value CHR ''0'' = Some 0"
  by code_simp

lemma lex_escape:
  assumes "(of_char c :: nat) < 128"
  shows "lex_string (escape_char c @ r) = prepend [c] (lex_string r)"
proof (cases "(of_char c :: nat) < 32 \<or> c \<in> {CHR ''<'', CHR ''>'', CHR ''&''}")
  case True
  have "u4 CHR ''0'' CHR ''0'' (hex_digit (of_char c div 16)) (hex_digit (of_char c mod 16)) =
      Some (of_char c)"
    using assms by (simp add: u4_def hex_value_digit)
  moreover have "utf8 (of_char c) = [c]" using assms by (simp add: utf8_def)
  ultimately show ?thesis using assms
    by (auto simp: escape_char_def lex_string.simps [of "_ # _"] simple_escape_def decode_u.simps)
next
  case False
  then show ?thesis
    by (auto simp: escape_char_def lex_string.simps [of "_ # _"] simple_escape_def)
qed

lemma lex_quoted:
  "ascii s \<Longrightarrow> lex_string (concat (map escape_char s) @ CHR 0x22 # r) = Some (s, r)"
  by (induction s) (auto simp: ascii_def lex_escape lex_string.simps [of "CHR 0x22 # _"] prepend_def)

lemma lex_quote:
  assumes "ascii s"
  shows "tokens (quote s @ r) = map_option (Cons (TString s)) (tokens r)"
  using lex_quoted [OF assms]
  by (subst tokens.simps) (simp add: quote_def json_space_def lex_token_def punctuation_def)

lemma lex_punct:
  "tokens (CHR '':'' # r) = map_option (Cons TColon) (tokens r)"
  "tokens (CHR '','' # r) = map_option (Cons TComma) (tokens r)"
  "tokens (CHR ''{'' # r) = map_option (Cons TLBrace) (tokens r)"
  "tokens (CHR ''}'' # r) = map_option (Cons TRBrace) (tokens r)"
  by (subst tokens.simps, simp add: json_space_def lex_token_def punctuation_def)+

lemma lex_Nil [simp]: "tokens [] = Some []"
  by (simp add: tokens.simps)

fun member_tokens :: "(string \<times> string) list \<Rightarrow> token list" where
  "member_tokens [] = []"
| "member_tokens [(k, v)] = [TString k, TColon, TString v]"
| "member_tokens ((k, v) # m # ms) = [TString k, TColon, TString v, TComma] @ member_tokens (m # ms)"

lemma lex_members:
  "list_all (\<lambda>(k, v). ascii k \<and> ascii v) ms \<Longrightarrow> tokens r = Some ts \<Longrightarrow>
   tokens (marshal_members ms @ r) = Some (member_tokens ms @ ts)"
  by (induction ms rule: marshal_members.induct) (simp_all add: lex_quote lex_punct)

lemma parse_member_tokens:
  "ms \<noteq> [] \<Longrightarrow> length ms < n \<Longrightarrow>
   parse_members n (member_tokens ms @ TRBrace # ts) = Some (map (map_prod id JString) ms, ts)"
proof (induction ms arbitrary: n rule: member_tokens.induct)
  case (2 k v)
  then obtain n' where "n = Suc (Suc n')" by (auto simp: less_iff_Suc_add)
  then show ?case by simp
next
  case (3 k v m ms)
  then obtain n' where "n = Suc (Suc n')" by (auto simp: less_iff_Suc_add)
  with 3 show ?case by simp
qed simp

text \<open>Unmarshalling a marshalled structure of strings gives its members back, in their order.\<close>

lemma parse_marshal:
  assumes "list_all (\<lambda>(k, v). ascii k \<and> ascii v) ms"
  shows "parse_json (marshal_object ms) = Some (JObject (map (map_prod id JString) ms))"
proof (cases ms)
  case Nil
  then show ?thesis by (simp add: marshal_object_def parse_json_def lex_punct eval_nat_numeral)
next
  case (Cons m ms')
  let ?ts = "member_tokens ms @ [TRBrace]"
  have len: "length ms < length ?ts"
    by (induction ms rule: member_tokens.induct) auto
  have "tokens (marshal_object ms) = Some (TLBrace # ?ts)"
    using lex_members [OF assms, of "''}''" "[TRBrace]"] by (simp add: marshal_object_def lex_punct)
  moreover have "parse_members n ?ts = Some (map (map_prod id JString) ms, [])"
    if "length ?ts \<le> n" for n
    using parse_member_tokens [of ms n "[]"] Cons len that by simp
  moreover have "parse_value (Suc n) (TLBrace # ?ts) = map_option (map_prod JObject id) (parse_members n ?ts)" for n
    using Cons by (cases "(ms, n)" rule: prod.exhaust; cases m; cases ms') auto
  ultimately show ?thesis by (simp add: parse_json_def)
qed

lemma members_of_marshal:
  "list_all (\<lambda>(k, v). ascii k \<and> ascii v) ms \<Longrightarrow>
   members_of (marshal_object ms) = Some (map (map_prod id JString) ms)"
  by (simp add: members_of_def parse_marshal)

end
