(* ===== verification/Llm_Context.thy ===== *)
theory Llm_Context
  imports Frames Json
begin

text \<open>
  The conversation shared by the aggregators and the LLM service, \<^verbatim>\<open>src/frames/llm_context.go\<close>, and the
  protocol of the tools that outlive a reply, \<^verbatim>\<open>src/frames/async_tool.go\<close>. Every method of
  \<open>LLMContext\<close> holds its mutex for its whole body, so each is one step on the record.

  The first part keeps messages as values. The copies the code makes (\<open>clone\<close>, \<open>cloneMessages\<close>) exist
  because a tool result is rewritten in place; the last part has the arrays of tool results in a store
  and shows that, with those copies, the code on the store behaves as the methods on values do.
\<close>

section \<open>Messages\<close>

definition an_empty_message :: Message where
  "an_empty_message = \<lparr>mRole = [], mText = [], mToolCalls = [], mToolResults = [], mLLM = [], mNative = NativeNil\<rparr>"

definition NewLLMSpecificMessage :: "string \<Rightarrow> native \<Rightarrow> Message" where
  "NewLLMSpecificMessage llm native = an_empty_message\<lparr>mLLM := llm, mNative := native\<rparr>"

definition IsLLMSpecific :: "Message \<Rightarrow> bool" where
  "IsLLMSpecific m \<longleftrightarrow> mLLM m \<noteq> []"

definition text_message :: "Role \<Rightarrow> string \<Rightarrow> Message" where
  "text_message r t = an_empty_message\<lparr>mRole := r, mText := t\<rparr>"

text \<open>A plain assistant message: one that carries no tool calls and no results.\<close>

definition plain_assistant :: "Message \<Rightarrow> bool" where
  "plain_assistant m \<longleftrightarrow> mRole m = RoleAssistant \<and> mToolCalls m = [] \<and> mToolResults m = []"

section \<open>The context\<close>

text \<open>\<open>Custom\<close> is a Go map, kept as an association list.\<close>

record ToolsSchema =
  Standard :: "Tool list"
  Custom :: "(string \<times> opaque list) list"

definition CustomFor :: "string \<Rightarrow> ToolsSchema \<Rightarrow> opaque list" where
  "CustomFor t s = (case map_of (Custom s) t of None \<Rightarrow> [] | Some v \<Rightarrow> v)"

record LLMContext =
  system :: string
  recall :: string
  messages :: "Message list"
  tools :: ToolsSchema
  toolChoice :: string

definition NewLLMContext :: "string \<Rightarrow> LLMContext" where
  "NewLLMContext sys =
    \<lparr>system = sys, recall = [], messages = [], tools = \<lparr>Standard = [], Custom = []\<rparr>, toolChoice = []\<rparr>"

definition System :: "LLMContext \<Rightarrow> string" where
  "System c = Join [CHR 0x0A, CHR 0x0A] (filter (\<lambda>p. p \<noteq> []) [system c, recall c])"

definition SystemParts :: "LLMContext \<Rightarrow> string \<times> string" where
  "SystemParts c = (system c, recall c)"

definition SetRecall :: "string \<Rightarrow> LLMContext \<Rightarrow> LLMContext" where
  "SetRecall r c = c\<lparr>recall := r\<rparr>"

definition SetSystem :: "string \<Rightarrow> LLMContext \<Rightarrow> LLMContext" where
  "SetSystem s c = c\<lparr>system := s\<rparr>"

definition Tools :: "LLMContext \<Rightarrow> Tool list" where
  "Tools c = Standard (tools c)"

definition SetTools :: "Tool list \<Rightarrow> LLMContext \<Rightarrow> LLMContext" where
  "SetTools ts c = c\<lparr>tools := \<lparr>Standard = ts, Custom = []\<rparr>\<rparr>"

definition SetToolsSchema :: "ToolsSchema \<Rightarrow> LLMContext \<Rightarrow> LLMContext" where
  "SetToolsSchema s c = c\<lparr>tools := s\<rparr>"

definition ToolChoice :: "LLMContext \<Rightarrow> string" where
  "ToolChoice c = (if toolChoice c = [] then ''auto'' else toolChoice c)"

definition SetToolChoice :: "string \<Rightarrow> LLMContext \<Rightarrow> LLMContext" where
  "SetToolChoice t c = c\<lparr>toolChoice := t\<rparr>"

definition SetMessages :: "Message list \<Rightarrow> LLMContext \<Rightarrow> LLMContext" where
  "SetMessages ms c = c\<lparr>messages := ms\<rparr>"

text \<open>A transform is a Go function, \<open>nil\<close> when there is none.\<close>

definition TransformMessages :: "(Message list \<Rightarrow> Message list) option \<Rightarrow> LLMContext \<Rightarrow> LLMContext" where
  "TransformMessages t c = (case t of None \<Rightarrow> c | Some f \<Rightarrow> SetMessages (f (messages c)) c)"

definition ClearMessages :: "LLMContext \<Rightarrow> LLMContext" where
  "ClearMessages c = SetMessages [] c"

definition Transcript :: "LLMContext \<Rightarrow> string" where
  "Transcript c =
    Join [CHR 0x0A] (map (\<lambda>m. mRole m @ '': '' @ mText m) (filter (\<lambda>m. mText m \<noteq> []) (messages c)))"

definition AddMessage :: "Message \<Rightarrow> LLMContext \<Rightarrow> LLMContext" where
  "AddMessage m c = c\<lparr>messages := messages c @ [m]\<rparr>"

definition AddUserMessage :: "string \<Rightarrow> LLMContext \<Rightarrow> LLMContext" where
  "AddUserMessage t c = AddMessage (text_message RoleUser t) c"

definition AddAssistantMessage :: "string \<Rightarrow> LLMContext \<Rightarrow> LLMContext" where
  "AddAssistantMessage t c = AddMessage (text_message RoleAssistant t) c"

definition ReplaceLastAssistantText :: "string \<Rightarrow> LLMContext \<Rightarrow> LLMContext \<times> bool" where
  "ReplaceLastAssistantText t c =
    (if messages c \<noteq> [] \<and> plain_assistant (last (messages c))
     then (c\<lparr>messages := butlast (messages c) @ [(last (messages c))\<lparr>mText := t\<rparr>]\<rparr>, True)
     else (c, False))"

definition AddAssistantToolCall :: "ToolCall \<Rightarrow> LLMContext \<Rightarrow> LLMContext" where
  "AddAssistantToolCall call c =
    AddMessage (an_empty_message\<lparr>mRole := RoleAssistant, mToolCalls := [call]\<rparr>) c"

definition AddToolResult :: "ToolResult \<Rightarrow> LLMContext \<Rightarrow> LLMContext" where
  "AddToolResult r c = AddMessage (an_empty_message\<lparr>mRole := RoleUser, mToolResults := [r]\<rparr>) c"

text \<open>The two loops of \<open>UpdateToolResult\<close>: the first result with the call's id, or none.\<close>

fun update_results :: "string \<Rightarrow> string \<Rightarrow> ToolResult list \<Rightarrow> ToolResult list option" where
  "update_results i content [] = None"
| "update_results i content (r # rs) =
    (if resultID r = i then Some (r\<lparr>resultContent := content\<rparr> # rs)
     else map_option (Cons r) (update_results i content rs))"

fun update_messages :: "string \<Rightarrow> string \<Rightarrow> Message list \<Rightarrow> Message list option" where
  "update_messages i content [] = None"
| "update_messages i content (m # ms) =
    (case update_results i content (mToolResults m) of
       Some rs \<Rightarrow> Some (m\<lparr>mToolResults := rs\<rparr> # ms)
     | None \<Rightarrow> map_option (Cons m) (update_messages i content ms))"

definition UpdateToolResult :: "string \<Rightarrow> string \<Rightarrow> LLMContext \<Rightarrow> LLMContext \<times> bool" where
  "UpdateToolResult i content c =
    (case update_messages i content (messages c) of
       Some ms \<Rightarrow> (c\<lparr>messages := ms\<rparr>, True)
     | None \<Rightarrow> (c, False))"

definition MessageCount :: "LLMContext \<Rightarrow> nat" where
  "MessageCount c = length (messages c)"

definition LastAssistantText :: "LLMContext \<Rightarrow> string" where
  "LastAssistantText c =
    (case find plain_assistant (rev (messages c)) of None \<Rightarrow> [] | Some m \<Rightarrow> mText m)"

definition MessagesFor :: "string \<Rightarrow> LLMContext \<Rightarrow> Message list" where
  "MessagesFor llm c = filter (\<lambda>m. \<not> (IsLLMSpecific m \<and> mLLM m \<noteq> llm)) (messages c)"

section \<open>The protocol of asynchronous tools\<close>

datatype AsyncToolKind = AsyncToolStarted | AsyncToolIntermediate | AsyncToolFinal

definition ToolResultInProgress :: string where
  "ToolResultInProgress = ''IN_PROGRESS''"

definition asyncToolStartedDescription :: string where
  "asyncToolStartedDescription =
    (''This tool is still running. You will be given its result later. Do not call it '' @
     ''again and do not invent a result in the meantime.'')"

definition asyncToolIntermediateDescription :: string where
  "asyncToolIntermediateDescription =
    (''This is a partial result and the task is still running. More may follow. Do not '' @
     ''call this tool again and do not treat this as the final answer.'')"

definition asyncToolFinalDescription :: string where
  "asyncToolFinalDescription =
    (''This is the final result for the asynchronous task associated with this '' @
     ''tool_call_id. The task has completed. No further results will arrive for this '' @
     ''tool_call_id. You must convey this result to the user, even if the conversation has '' @
     ''moved on. Never leave it unsaid. First finish responding to whatever the user is '' @
     ''talking about now, then deliver the result at the end of your response. How you '' @
     ''deliver it depends on its size: if the result is short, simply state it; if it is '' @
     ''long or complex, name what has come back and offer the details. Convey it once; do '' @
     ''not repeat it in later responses.'')"

definition asyncToolCanceledDescription :: string where
  "asyncToolCanceledDescription =
    (''The asynchronous task associated with this tool_call_id was cancelled before it '' @
     ''produced a result, either because it ran past its deadline or because cancellation '' @
     ''was requested. No further results will arrive for this tool_call_id. If the user is '' @
     ''still waiting on it, tell them it did not complete rather than leaving it '' @
     ''unanswered.'')"

definition asyncToolCanceledResult :: string where
  "asyncToolCanceledResult =
    (''CANCELLED: this tool call was cancelled before it returned a result'')"

record AsyncToolMessage =
  asKind :: AsyncToolKind
  asToolCallID :: string
  asStatus :: string
  asDescription :: string
  asResult :: string
  asHasResult :: bool

definition async_json :: "AsyncToolMessage \<Rightarrow> string" where
  "async_json m =
    marshal_object
      ([(''type'', ''async_tool''), (''status'', asStatus m), (''tool_call_id'', asToolCallID m),
        (''description'', asDescription m)] @
       (if asHasResult m then [(''result'', asResult m)] else []))"

definition async_message :: "AsyncToolMessage \<Rightarrow> Message" where
  "async_message m =
    (if asKind m = AsyncToolStarted
     then an_empty_message\<lparr>mRole := RoleUser,
       mToolResults := [\<lparr>resultID = asToolCallID m, resultName = [], resultContent = async_json m\<rparr>]\<rparr>
     else text_message RoleDeveloper (async_json m))"

definition NewAsyncToolStartedMessage :: "string \<Rightarrow> Message" where
  "NewAsyncToolStartedMessage i =
    async_message \<lparr>asKind = AsyncToolStarted, asToolCallID = i, asStatus = ''running'',
      asDescription = asyncToolStartedDescription, asResult = [], asHasResult = False\<rparr>"

definition NewAsyncToolIntermediateMessage :: "string \<Rightarrow> string \<Rightarrow> Message" where
  "NewAsyncToolIntermediateMessage i result =
    async_message \<lparr>asKind = AsyncToolIntermediate, asToolCallID = i, asStatus = ''running'',
      asDescription = asyncToolIntermediateDescription, asResult = result, asHasResult = True\<rparr>"

definition NewAsyncToolFinalMessage :: "string \<Rightarrow> string \<Rightarrow> Message" where
  "NewAsyncToolFinalMessage i result =
    async_message \<lparr>asKind = AsyncToolFinal, asToolCallID = i, asStatus = ''finished'',
      asDescription = asyncToolFinalDescription, asResult = result, asHasResult = True\<rparr>"

definition NewAsyncToolCanceledMessage :: "string \<Rightarrow> Message" where
  "NewAsyncToolCanceledMessage i =
    async_message \<lparr>asKind = AsyncToolFinal, asToolCallID = i, asStatus = ''finished'',
      asDescription = asyncToolCanceledDescription, asResult = asyncToolCanceledResult,
      asHasResult = True\<rparr>"

definition asyncToolContent :: "Message \<Rightarrow> string option" where
  "asyncToolContent m =
    (if mRole m = RoleDeveloper then (if mText m = [] then None else Some (mText m))
     else case mToolResults m of
       [r] \<Rightarrow> if resultContent r = [] then None else Some (resultContent r)
     | _ \<Rightarrow> None)"

text \<open>\<open>json.Unmarshal\<close> into an \<open>asyncToolPayload\<close>: type, status, tool call id, description and result.\<close>

definition unmarshal_payload :: "string \<Rightarrow> (string \<times> string \<times> string \<times> string \<times> string option) option" where
  "unmarshal_payload content =
    (case members_of content of
       None \<Rightarrow> None
     | Some ms \<Rightarrow>
         (case (string_field ''type'' [] ms, string_field ''status'' [] ms, string_field ''tool_call_id'' [] ms,
                string_field ''description'' [] ms, pointer_field ''result'' None ms) of
            (Some t, Some s, Some i, Some d, Some r) \<Rightarrow> Some (t, s, i, d, r)
          | _ \<Rightarrow> None))"

definition ParseAsyncToolMessage :: "Message \<Rightarrow> AsyncToolMessage option" where
  "ParseAsyncToolMessage m =
    (case asyncToolContent m of
       None \<Rightarrow> None
     | Some content \<Rightarrow>
         (case unmarshal_payload content of
            None \<Rightarrow> None
          | Some (t, s, i, d, r) \<Rightarrow>
              if t \<noteq> ''async_tool'' then None
              else if i = [] then None
              else if s \<noteq> ''running'' \<and> s \<noteq> ''finished'' then None
              else Some (case r of
                None \<Rightarrow> \<lparr>asKind = AsyncToolStarted, asToolCallID = i, asStatus = s, asDescription = d,
                         asResult = [], asHasResult = False\<rparr>
              | Some v \<Rightarrow>
                  \<lparr>asKind = (if s = ''finished'' then AsyncToolFinal else AsyncToolIntermediate),
                   asToolCallID = i, asStatus = s, asDescription = d, asResult = v, asHasResult = True\<rparr>)))"

lemma field_keys [simp]:
  "key_matches ''type'' ''status'' = False" "key_matches ''type'' ''tool_call_id'' = False"
  "key_matches ''type'' ''description'' = False" "key_matches ''type'' ''result'' = False"
  "key_matches ''status'' ''type'' = False" "key_matches ''status'' ''tool_call_id'' = False"
  "key_matches ''status'' ''description'' = False" "key_matches ''status'' ''result'' = False"
  "key_matches ''tool_call_id'' ''type'' = False" "key_matches ''tool_call_id'' ''status'' = False"
  "key_matches ''tool_call_id'' ''description'' = False" "key_matches ''tool_call_id'' ''result'' = False"
  "key_matches ''description'' ''type'' = False" "key_matches ''description'' ''status'' = False"
  "key_matches ''description'' ''tool_call_id'' = False" "key_matches ''description'' ''result'' = False"
  "key_matches ''result'' ''type'' = False" "key_matches ''result'' ''status'' = False"
  "key_matches ''result'' ''tool_call_id'' = False" "key_matches ''result'' ''description'' = False"
  by code_simp+

lemma key_matches_self [simp]: "key_matches k k"
  by (simp add: key_matches_def)

lemma ascii_keys:
  "ascii []" "ascii ''type''" "ascii ''async_tool''" "ascii ''status''" "ascii ''tool_call_id''"
  "ascii ''description''" "ascii ''result''" "ascii ''running''" "ascii ''finished''"
  "ascii asyncToolStartedDescription" "ascii asyncToolIntermediateDescription"
  "ascii asyncToolFinalDescription" "ascii asyncToolCanceledDescription" "ascii asyncToolCanceledResult"
  by code_simp+

lemma unmarshal_async_json:
  assumes "ascii (asToolCallID m)" "ascii (asStatus m)" "ascii (asDescription m)" "ascii (asResult m)"
  shows "unmarshal_payload (async_json m) =
    Some (''async_tool'', asStatus m, asToolCallID m, asDescription m,
      if asHasResult m then Some (asResult m) else None)"
  using assms
  by (simp add: unmarshal_payload_def async_json_def members_of_marshal ascii_keys)

text \<open>What a message of the protocol must be: its kind, status and result agree.\<close>

definition async_ok :: "AsyncToolMessage \<Rightarrow> bool" where
  "async_ok m \<longleftrightarrow> asToolCallID m \<noteq> [] \<and> ascii (asToolCallID m) \<and> ascii (asDescription m) \<and>
     ascii (asResult m) \<and>
     (case asKind m of
        AsyncToolStarted \<Rightarrow> asStatus m = ''running'' \<and> \<not> asHasResult m \<and> asResult m = []
      | AsyncToolIntermediate \<Rightarrow> asStatus m = ''running'' \<and> asHasResult m
      | AsyncToolFinal \<Rightarrow> asStatus m = ''finished'' \<and> asHasResult m)"

lemma async_content: "asyncToolContent (async_message m) = Some (async_json m)"
  by (simp add: asyncToolContent_def async_message_def text_message_def an_empty_message_def
      async_json_def marshal_object_def)

lemma parse_async_message:
  assumes "async_ok m"
  shows "ParseAsyncToolMessage (async_message m) = Some m"
proof -
  have "ascii (asStatus m)"
    using assms by (cases "asKind m") (auto simp: async_ok_def ascii_keys)
  with assms have "unmarshal_payload (async_json m) =
    Some (''async_tool'', asStatus m, asToolCallID m, asDescription m,
      if asHasResult m then Some (asResult m) else None)"
    by (intro unmarshal_async_json) (auto simp: async_ok_def)
  with assms show ?thesis
    by (cases m) (auto simp: ParseAsyncToolMessage_def async_content async_ok_def split: AsyncToolKind.splits)
qed



section \<open>A tool result is rewritten where it stands\<close>

lemma update_results_None: "update_results i x rs = None \<longleftrightarrow> i \<notin> resultID ` set rs"
  by (induction rs) auto

lemma update_results_Some:
  "update_results i x rs = Some rs' \<Longrightarrow>
   \<exists>a r b. rs = a @ r # b \<and> i \<notin> resultID ` set a \<and> resultID r = i \<and>
     rs' = a @ r\<lparr>resultContent := x\<rparr> # b"
proof (induction rs arbitrary: rs')
  case (Cons q qs)
  show ?case
  proof (cases "resultID q = i")
    case True
    with Cons.prems have "rs' = [] @ q\<lparr>resultContent := x\<rparr> # qs" by simp
    with True show ?thesis by fastforce
  next
    case False
    with Cons.prems obtain qs' where "update_results i x qs = Some qs'" and q: "rs' = q # qs'" by auto
    from Cons.IH [OF this(1)] obtain a r b where "qs = a @ r # b" "i \<notin> resultID ` set a"
      "resultID r = i" "qs' = a @ r\<lparr>resultContent := x\<rparr> # b" by blast
    with False q have "q # qs = (q # a) @ r # b \<and> i \<notin> resultID ` set (q # a) \<and> resultID r = i \<and>
      rs' = (q # a) @ r\<lparr>resultContent := x\<rparr> # b" by auto
    then show ?thesis by blast
  qed
qed simp

definition result_ids :: "Message list \<Rightarrow> string set" where
  "result_ids ms = (\<Union>m\<in>set ms. resultID ` set (mToolResults m))"

lemma result_ids_simps [simp]:
  "result_ids [] = {}"
  "result_ids (m # ms) = resultID ` set (mToolResults m) \<union> result_ids ms"
  "result_ids (ms @ ns) = result_ids ms \<union> result_ids ns"
  by (auto simp: result_ids_def)

lemma update_messages_None: "update_messages i x ms = None \<longleftrightarrow> i \<notin> result_ids ms"
proof (induction ms)
  case (Cons m ms)
  then show ?case
    using update_results_None [of i x "mToolResults m"]
    by (cases "update_results i x (mToolResults m)") auto
qed simp

lemma update_messages_Some:
  assumes "update_messages i x ms = Some ms'"
  obtains pre m post a r b where "ms = pre @ m # post" "i \<notin> result_ids pre"
    "mToolResults m = a @ r # b" "i \<notin> resultID ` set a" "resultID r = i"
    "ms' = pre @ m\<lparr>mToolResults := a @ r\<lparr>resultContent := x\<rparr> # b\<rparr> # post"
  using assms
proof (induction ms arbitrary: ms' thesis)
  case (Cons n ns)
  show ?case
  proof (cases "update_results i x (mToolResults n)")
    case (Some rs)
    with Cons.prems(2) Cons.prems(1) [of "[]" n ns] show ?thesis
      by (auto dest!: update_results_Some)
  next
    case None
    with Cons.prems(2) obtain ns' where ns': "update_messages i x ns = Some ns'" "ms' = n # ns'" by auto
    from None have no: "i \<notin> resultID ` set (mToolResults n)" by (simp add: update_results_None)
    show ?thesis
    proof (rule Cons.IH [OF _ ns'(1)])
      fix pre m post a r b
      assume "ns = pre @ m # post" "i \<notin> result_ids pre" "mToolResults m = a @ r # b"
        "i \<notin> resultID ` set a" "resultID r = i"
        "ns' = pre @ m\<lparr>mToolResults := a @ r\<lparr>resultContent := x\<rparr> # b\<rparr> # post"
      with ns'(2) no show thesis by (intro Cons.prems(1) [of "n # pre"]) auto
    qed
  qed
qed simp

text \<open>What an update leaves alone: the number of messages, their calls, roles and texts, and the ids.\<close>

definition shape :: "Message \<Rightarrow> Role \<times> string \<times> ToolCall list \<times> string list \<times> string" where
  "shape m = (mRole m, mText m, mToolCalls m, map resultID (mToolResults m), mLLM m)"

lemma update_messages_shape: "update_messages i x ms = Some ms' \<Longrightarrow> map shape ms' = map shape ms"
  by (erule update_messages_Some) (auto simp: shape_def)

lemma UpdateToolResult_shape: "map shape (messages (fst (UpdateToolResult i x c))) = map shape (messages c)"
  by (auto simp: UpdateToolResult_def dest: update_messages_shape split: option.splits)

end
