(* ===== verification/Goroutines.thy ===== *)
theory Goroutines
  imports Voxigo_Prelude
begin

text \<open>
  Goroutines over shared state. A call is a list of actions, each of them one section of the code that runs
  under a lock (or one access to what the lock guards); an action updates the shared state and gives the
  actions its call goes on with, which come before the rest of the call. Any number of calls run at the same
  time, and between any two actions of one any action of the others may fall.

  \<open>run_alone\<close> runs a call to its end with nothing in between; it ends when every action leaves less to do than
  itself, which \<open>decreasing\<close> states by a weight.
\<close>

datatype 'a sched = Spawn "'a list" | Run nat

type_synonym ('a, 's) code = "'a \<Rightarrow> 's \<Rightarrow> 's \<times> 'a list"

fun sched_step :: "('a, 's) code \<Rightarrow> 'a sched \<Rightarrow> 's \<times> 'a list list \<Rightarrow> 's \<times> 'a list list" where
  "sched_step act (Spawn p) (s, ps) = (s, ps @ [p])"
| "sched_step act (Run i) (s, ps) =
    (if i < length ps
     then case ps ! i of
       [] \<Rightarrow> (s, ps)
     | a # as \<Rightarrow> let (s', bs) = act a s in (s', ps[i := bs @ as])
     else (s, ps))"

fun sched_run :: "('a, 's) code \<Rightarrow> 'a sched list \<Rightarrow> 's \<times> 'a list list \<Rightarrow> 's \<times> 'a list list" where
  "sched_run act [] c = c"
| "sched_run act (e # es) c = sched_run act es (sched_step act e c)"

fun spawned :: "'a sched \<Rightarrow> 'a list" where
  "spawned (Spawn p) = p"
| "spawned (Run i) = []"

text \<open>
  An invariant of every action is an invariant of every interleaving. An action may rely on what the actions
  before it in its call established (\<open>ok\<close>), as long as no action of another call takes it away.
\<close>

locale interleaved =
  fixes act :: "('a, 's) code" and good :: "'s \<Rightarrow> bool" and ok :: "'s \<Rightarrow> 'a \<Rightarrow> bool"
  assumes act_good: "good s \<Longrightarrow> ok s a \<Longrightarrow> good (fst (act a s))"
    and act_ok: "good s \<Longrightarrow> ok s a \<Longrightarrow> list_all (ok (fst (act a s))) (snd (act a s))"
    and act_stable: "good s \<Longrightarrow> ok s a \<Longrightarrow> ok s b \<Longrightarrow> ok (fst (act a s)) b"
begin

definition threads_ok :: "'s \<times> 'a list list \<Rightarrow> bool" where
  "threads_ok c \<longleftrightarrow> good (fst c) \<and> list_all (list_all (ok (fst c))) (snd c)"

lemma step_good:
  assumes "threads_ok c" and "list_all (\<lambda>a. \<forall>s. ok s a) (spawned e)"
  shows "threads_ok (sched_step act e c)"
proof (cases e)
  case (Spawn p)
  then show ?thesis using assms by (cases c) (auto simp: threads_ok_def list_all_iff)
next
  case (Run i)
  obtain s ps where c: "c = (s, ps)" by (cases c)
  show ?thesis
  proof (cases "i < length ps \<and> ps ! i \<noteq> []")
    case False
    then show ?thesis using assms Run c by (auto split: list.splits)
  next
    case True
    then obtain a as where p: "ps ! i = a # as" by (cases "ps ! i") auto
    have s: "good s" "list_all (list_all (ok s)) ps" using assms(1) c by (simp_all add: threads_ok_def)
    have "list_all (ok s) (a # as)" using s(2) True p by (metis list_all_length)
    then have a: "ok s a" by simp
    have keep: "list_all (ok s) q \<Longrightarrow> list_all (ok (fst (act a s))) q" for q
      using act_stable [OF s(1) a] by (simp add: list_all_iff)
    have "list_all (ok (fst (act a s))) (snd (act a s) @ as)"
      using act_ok [OF s(1) a] keep [of as] \<open>list_all (ok s) (a # as)\<close> by simp
    moreover have "list_all (list_all (ok (fst (act a s)))) ps" using s(2) keep by (meson list.pred_mono_strong)
    ultimately have "list_all (list_all (ok (fst (act a s)))) (ps[i := snd (act a s) @ as])"
      by (auto simp: list_all_iff dest!: set_update_subset_insert [THEN subsetD])
    then show ?thesis using Run True p c act_good [OF s(1) a]
      by (auto simp: threads_ok_def split: prod.split)
  qed
qed

lemma run_good:
  assumes "threads_ok c" and "list_all (\<lambda>e. list_all (\<lambda>a. \<forall>s. ok s a) (spawned e)) es"
  shows "threads_ok (sched_run act es c)"
  using assms by (induction es arbitrary: c) (simp_all add: step_good)

lemma start_good:
  assumes "good s" and "list_all (\<lambda>e. list_all (\<lambda>a. \<forall>s. ok s a) (spawned e)) es"
  shows "good (fst (sched_run act es (s, [])))"
  using run_good [of "(s, [])" es] assms by (simp add: threads_ok_def)

end

text \<open>
  An invariant that speaks of the shared state and the calls together: it holds at the start of a call and is kept by
  every action of every call.
\<close>

fun starts :: "('a list \<Rightarrow> bool) \<Rightarrow> 'a sched \<Rightarrow> bool" where
  "starts ok (Spawn p) = ok p"
| "starts ok (Run i) = True"

lemma sched_invariant:
  assumes "list_all (starts ok) es" and "P c"
    and spawn: "\<And>s ps p. P (s, ps) \<Longrightarrow> ok p \<Longrightarrow> P (s, ps @ [p])"
    and act: "\<And>s ps i a as. P (s, ps) \<Longrightarrow> i < length ps \<Longrightarrow> ps ! i = a # as \<Longrightarrow> P (fst (act a s), ps[i := snd (act a s) @ as])"
  shows "P (sched_run act es c)"
proof -
  have "P (sched_step act e c)" if "starts ok e" "P c" for e c
  proof (cases e)
    case (Spawn p)
    then show ?thesis using that spawn by (cases c) simp
  next
    case (Run i)
    obtain s ps where c: "c = (s, ps)" by (cases c)
    show ?thesis
    proof (cases "i < length ps \<and> ps ! i \<noteq> []")
      case True
      then obtain a as where "ps ! i = a # as" by (cases "ps ! i") auto
      then show ?thesis using act [of s ps i a as] that True Run c by (simp add: case_prod_beta)
    next
      case False
      then show ?thesis using that Run c by (auto split: list.split)
    qed
  qed
  then show ?thesis using assms(1,2) by (induction es arbitrary: c) simp_all
qed

lemma sum_update:
  fixes g :: "'a \<Rightarrow> nat"
  assumes "i < length ps"
  shows "sum_list (map g (ps[i := p])) + g (ps ! i) = sum_list (map g ps) + g p"
  using assms
proof (induction ps arbitrary: i)
  case (Cons q ps)
  then show ?case by (cases i) (auto simp: add.assoc add.left_commute)
qed simp

lemma list_all_upd: "list_all P ps \<Longrightarrow> P p \<Longrightarrow> list_all P (ps[i := p])"
  by (auto simp: list_all_iff dest!: set_update_subset_insert [THEN subsetD])

text \<open>The actions of one call, one after the other, with nothing in between: \<open>None\<close> if it never ends.\<close>

partial_function (option) run_alone :: "('a, 's) code \<Rightarrow> 'a list \<Rightarrow> 's \<Rightarrow> 's option" where
  "run_alone act p s =
    (case p of
       [] \<Rightarrow> Some s
     | a # as \<Rightarrow> (case act a s of (s', bs) \<Rightarrow> run_alone act (bs @ as) s'))"

lemma alone_Nil [simp]: "run_alone act [] s = Some s"
  by (subst run_alone.simps) simp

lemma alone_Cons: "run_alone act (a # as) s = run_alone act (snd (act a s) @ as) (fst (act a s))"
  by (subst run_alone.simps) (simp split: prod.split)

lemma alone_code [code]:
  "run_alone act [] s = Some s"
  "run_alone act (a # as) s = (case act a s of (s', bs) \<Rightarrow> run_alone act (bs @ as) s')"
  by (simp_all add: alone_Cons split: prod.split)

lemma alone_step [simp]:
  "act a s = (s', bs) \<Longrightarrow> run_alone act (a # as) s = run_alone act (bs @ as) s'"
  by (simp add: alone_Cons)

text \<open>One call after the other.\<close>

fun in_turn :: "('a, 's) code \<Rightarrow> 'a list list \<Rightarrow> 's \<Rightarrow> 's option" where
  "in_turn act [] s = Some s"
| "in_turn act (p # ps) s = Option.bind (run_alone act p s) (in_turn act ps)"

text \<open>A call of a code whose every action leaves less to do than itself comes to its end.\<close>

locale decreasing =
  fixes act :: "('a, 's) code" and weight :: "'a \<Rightarrow> nat"
  assumes less_sum: "sum_list (map weight (snd (act a s))) < weight a"
begin

lemma alone_induct [case_names Nil Cons]:
  assumes "\<And>s. P [] s"
    and "\<And>a as s. P (snd (act a s) @ as) (fst (act a s)) \<Longrightarrow> P (a # as) s"
  shows "P p s"
proof (induction "sum_list (map weight p)" arbitrary: p s rule: less_induct)
  case (less p s)
  show ?case
  proof (cases p)
    case Nil
    then show ?thesis by (simp add: assms(1))
  next
    case (Cons a as)
    have "sum_list (map weight (snd (act a s) @ as)) < sum_list (map weight p)"
      using Cons less_sum [of a s] by simp
    then show ?thesis using assms(2) [OF less.hyps] Cons by blast
  qed
qed

lemma ends: "\<exists>t. run_alone act p s = Some t"
  by (induction p s rule: alone_induct) (auto simp: alone_Cons)

lemma alone_append: "run_alone act (p @ q) s = Option.bind (run_alone act p s) (run_alone act q)"
  by (induction p s rule: alone_induct) (simp_all add: alone_Cons)

lemma alone_good:
  assumes "run_alone act p s = Some t" and "good s" and "list_all ok p"
    and "\<And>s a. good s \<Longrightarrow> ok a \<Longrightarrow> good (fst (act a s)) \<and> list_all ok (snd (act a s))"
  shows "good t"
  using assms(1-3)
proof (induction p s rule: alone_induct)
  case (Cons a as s)
  then show ?case using assms(4) [of s a] by (simp add: alone_Cons)
qed simp

end

end
