(* ===== verification/Turn_Completion.thy ===== *)
theory Turn_Completion
  imports Llm_Context Go_Strings Frame_Queues Goroutines
begin

text \<open>
  Turn-completion gating of an LLM service (service/llm/turncompletion.go, and the parts of service/llm/llm.go
  that call it): the model begins every response with a marker that says whether the user's turn was complete;
  an incomplete turn's response is withheld and a re-prompt armed.

  The state is reached from the goroutine that streams a response, from the one that handles system frames
  and from the goroutine of every re-prompt. Each action is one section under the state's mutex, so every
  interleaving of the calls is a run. The trace records what is pushed and the moments the mutex guards.
  A push to a neighbour queues the frame there and reports no error.
\<close>

section \<open>Markers, prompts and configuration\<close>

text \<open>The markers of frames/turnmarkers.go are the UTF-8 bytes of a full, a half and an empty circle.\<close>

definition MarkerComplete :: string where
  "MarkerComplete = [CHR 0xE2, CHR 0x97, CHR 0x8F]"

definition MarkerIncompleteShort :: string where
  "MarkerIncompleteShort = [CHR 0xE2, CHR 0x97, CHR 0x90]"

definition MarkerIncompleteLong :: string where
  "MarkerIncompleteLong = [CHR 0xE2, CHR 0x97, CHR 0x8B]"

datatype TurnMarker = TurnMarkerNone | TurnMarkerComplete | TurnMarkerIncomplete

datatype IncompleteType = IncompleteShort | IncompleteLong

definition newline :: string where
  "newline = [CHR 0x0A]"

definition incompleteShortPromptTemplate :: string where
  "incompleteShortPromptTemplate = Join newline [
    ''The user paused briefly. Generate a brief, natural prompt to encourage them to continue.'',
    [],
    ''IMPORTANT: You MUST respond with {{complete}} followed by your message. Do NOT output {{short}} or {{long}} - the user has already been given time to continue.'',
    [],
    ''Your response should:'',
    ''- Be contextually relevant to what was just discussed'',
    ''- Sound natural and conversational'',
    ''- Be very concise (1 sentence max)'',
    ''- Gently prompt them to continue'',
    [],
    ''Example format: {{complete}} Go ahead, I'm listening.'',
    [],
    ''Generate your {{complete}} response now.'']"

definition incompleteLongPromptTemplate :: string where
  "incompleteLongPromptTemplate = Join newline [
    ''The user has been quiet for a while. Generate a friendly check-in message.'',
    [],
    ''IMPORTANT: You MUST respond with {{complete}} followed by your message. Do NOT output {{short}} or {{long}} - the user has already been given plenty of time.'',
    [],
    ''Your response should:'',
    ''- Acknowledge they might be thinking or busy'',
    ''- Offer to help or continue when ready'',
    ''- Be warm and understanding'',
    ''- Be brief (1 sentence)'',
    [],
    ''Example format: {{complete}} No rush! Let me know when you're ready to continue.'',
    [],
    ''Generate your {{complete}} response now.'']"

text \<open>
  \<open>strings.NewReplacer(...).Replace\<close> scans once from the left; no placeholder is a prefix of another, so at
  every place at most one of them applies.
\<close>

function renderMarkers :: "string \<Rightarrow> string \<Rightarrow> string \<Rightarrow> string \<Rightarrow> string" where
  "renderMarkers tmpl complete short long =
    (case tmpl of
       [] \<Rightarrow> []
     | c # cs \<Rightarrow>
         if HasPrefix tmpl ''{{complete}}'' then complete @ renderMarkers (drop 12 tmpl) complete short long
         else if HasPrefix tmpl ''{{short}}'' then short @ renderMarkers (drop 9 tmpl) complete short long
         else if HasPrefix tmpl ''{{long}}'' then long @ renderMarkers (drop 8 tmpl) complete short long
         else c # renderMarkers cs complete short long)"
  by pat_completeness auto
termination by (relation "measure (length \<circ> fst)") auto

declare renderMarkers.simps [simp del]

record UserTurnCompletionConfig =
  Instructions :: string
  CompleteMarker :: string
  IncompleteShortMarker :: string
  IncompleteLongMarker :: string
  IncompleteShortTimeout :: duration
  IncompleteLongTimeout :: duration
  IncompleteShortPrompt :: string
  IncompleteLongPrompt :: string

text \<open>\<open>cmp.Or\<close>: the first that is not empty.\<close>

definition cmp_Or :: "string \<Rightarrow> string \<Rightarrow> string" where
  "cmp_Or a b = (if a \<noteq> [] then a else b)"

definition Markers :: "UserTurnCompletionConfig \<Rightarrow> string \<times> string \<times> string" where
  "Markers c = (cmp_Or (CompleteMarker c) MarkerComplete,
                cmp_Or (IncompleteShortMarker c) MarkerIncompleteShort,
                cmp_Or (IncompleteLongMarker c) MarkerIncompleteLong)"

definition ShortPrompt :: "UserTurnCompletionConfig \<Rightarrow> string" where
  "ShortPrompt c =
    (if IncompleteShortPrompt c \<noteq> [] then IncompleteShortPrompt c
     else let (complete, short, long) = Markers c
          in renderMarkers incompleteShortPromptTemplate complete short long)"

definition LongPrompt :: "UserTurnCompletionConfig \<Rightarrow> string" where
  "LongPrompt c =
    (if IncompleteLongPrompt c \<noteq> [] then IncompleteLongPrompt c
     else let (complete, short, long) = Markers c
          in renderMarkers incompleteLongPromptTemplate complete short long)"

definition defaultIncompleteShortTimeout :: duration where
  "defaultIncompleteShortTimeout = 5000000000"

definition defaultIncompleteLongTimeout :: duration where
  "defaultIncompleteLongTimeout = 10000000000"

fun config_timeout :: "UserTurnCompletionConfig \<Rightarrow> IncompleteType \<Rightarrow> duration" where
  "config_timeout c IncompleteShort =
    (if IncompleteShortTimeout c \<noteq> 0 then IncompleteShortTimeout c else defaultIncompleteShortTimeout)"
| "config_timeout c IncompleteLong =
    (if IncompleteLongTimeout c \<noteq> 0 then IncompleteLongTimeout c else defaultIncompleteLongTimeout)"

fun config_prompt :: "UserTurnCompletionConfig \<Rightarrow> IncompleteType \<Rightarrow> string" where
  "config_prompt c IncompleteShort = ShortPrompt c"
| "config_prompt c IncompleteLong = LongPrompt c"

section \<open>State\<close>

text \<open>
  A re-prompt is a goroutine that waits for its timer or for its context to be cancelled. When both are ready
  it goes on with either, so one whose timer has run out may still act after it was cancelled.
\<close>

datatype reprompt_phase = Pending | TimerReady | Left

record reprompt =
  rpKind :: IncompleteType
  rpTimeout :: duration
  rpPhase :: reprompt_phase
  rpCancelled :: bool

datatype gate_event =
    Sent frame_body Direction
  | CompleteVerdict
  | VoicedCleared
  | SpeakingSet bool

record turn_gate =
  gateName :: string
  gateEnabled :: bool
  gateConfig :: UserTurnCompletionConfig
  buffer :: string
  marker :: TurnMarker
  broadcasted :: bool
  voiced :: bool
  gateUserSpeaking :: bool
  cancelTimeout :: "nat option"
  reprompts :: "reprompt list"
  skipTTS :: "bool option"
  trace :: "gate_event list"

definition log_event :: "gate_event \<Rightarrow> turn_gate \<Rightarrow> turn_gate" where
  "log_event e g = g\<lparr>trace := trace g @ [e]\<rparr>"

section \<open>Actions\<close>

datatype gate_act =
    GCheck frame_body
  | GPush frame_body Direction
  | GSend frame_body Direction
  | GText string
  | GTurnText string
  | GClearVoiced
  | GSetSpeaking bool
  | GCancelTimeout
  | GCancel nat
  | GBroadcast
  | GStartTimeout IncompleteType
  | GReadTimeout IncompleteType
  | GArm IncompleteType duration
  | GReset
  | GReprompt IncompleteType
  | GTimer nat
  | GFire nat
  | GWake nat
  | GSetEnabled bool
  | GSetConfig UserTurnCompletionConfig
  | GSetSkip bool
  | GTurnCancel

text \<open>\<open>handleTurnCompletionProcessFrame\<close> and \<open>handleTurnCompletionPushFrame\<close>: the calls each makes, in order.\<close>

fun handleTurnCompletionProcessFrame :: "frame_body \<Rightarrow> gate_act list" where
  "handleTurnCompletionProcessFrame (Sys InterruptionFrame) = [GCancelTimeout, GReset, GClearVoiced]"
| "handleTurnCompletionProcessFrame (Sys UserStartedSpeakingFrame) = [GClearVoiced]"
| "handleTurnCompletionProcessFrame (Trn (LLMMessagesAppendFrame ms run)) = (if run then [GClearVoiced] else [])"
| "handleTurnCompletionProcessFrame (Trn (VADUserStartedSpeakingFrame a b)) =
    [GSetSpeaking True, GCancelTimeout, GClearVoiced]"
| "handleTurnCompletionProcessFrame (Trn (VADUserStoppedSpeakingFrame a b)) = [GSetSpeaking False]"
| "handleTurnCompletionProcessFrame _ = []"

fun handleTurnCompletionPushFrame :: "frame_body \<Rightarrow> gate_act list" where
  "handleTurnCompletionPushFrame (Fun (FunctionCallsStartedFrame cs)) = [GBroadcast, GClearVoiced]"
| "handleTurnCompletionPushFrame (Ctl (LLMFullResponseStartFrame sk)) = [GCancelTimeout]"
| "handleTurnCompletionPushFrame (Ctl (LLMFullResponseEndFrame sk)) = [GReset]"
| "handleTurnCompletionPushFrame _ = []"

text \<open>The frames \<open>PushFrame\<close> stamps with the output configuration.\<close>

fun stamp :: "bool option \<Rightarrow> frame_body \<Rightarrow> frame_body" where
  "stamp (Some sk) (Txt (LLMTextFrame t)) = Txt (LLMTextFrame (t\<lparr>fSkipTTS := Some sk\<rparr>))"
| "stamp (Some sk) (Ctl (LLMFullResponseStartFrame _)) = Ctl (LLMFullResponseStartFrame (Some sk))"
| "stamp (Some sk) (Ctl (LLMFullResponseEndFrame _)) = Ctl (LLMFullResponseEndFrame (Some sk))"
| "stamp _ f = f"

text \<open>What \<open>service.Base.PushFrame\<close> adds once the start frame has gone downstream: the service's metadata, both ways.\<close>

fun metadata_after :: "string \<Rightarrow> frame_body \<Rightarrow> Direction \<Rightarrow> gate_act list" where
  "metadata_after n (Sys (StartFrame i ou)) Downstream =
    [GPush (Met (LLMServiceMetadataFrame n False)) Downstream, GPush (Met (LLMServiceMetadataFrame n False)) Upstream]"
| "metadata_after n _ _ = []"

abbreviation push_text :: "string \<Rightarrow> gate_act" where
  "push_text t \<equiv> GPush (Txt (NewLLMTextFrame t)) Downstream"

text \<open>\<open>strings.Cut\<close>: what stands before and after the first occurrence.\<close>

fun Cut :: "string \<Rightarrow> string \<Rightarrow> string \<times> string \<times> bool" where
  "Cut [] sep = (if sep = [] then ([], [], True) else ([], [], False))"
| "Cut (c # cs) sep =
    (if HasPrefix (c # cs) sep then ([], drop (length sep) (c # cs), True)
     else case Cut cs sep of (b, a, f) \<Rightarrow> if f then (c # b, a, True) else (c # cs, [], False))"

definition TrimPrefix :: "string \<Rightarrow> string \<Rightarrow> string" where
  "TrimPrefix s p = (if HasPrefix s p then drop (length p) s else s)"

definition turnReset :: "turn_gate \<Rightarrow> turn_gate \<times> gate_act list" where
  "turnReset g =
    (let orphaned = (if marker g = TurnMarkerNone then buffer g else [])
     in (g\<lparr>buffer := [], marker := TurnMarkerNone, broadcasted := False\<rparr>,
         if orphaned \<noteq> [] then [push_text orphaned] else []))"

definition broadcastTurnCompletion :: "turn_gate \<Rightarrow> turn_gate \<times> gate_act list" where
  "broadcastTurnCompletion g =
    (if broadcasted g then (g, [])
     else (g\<lparr>broadcasted := True\<rparr>,
           [GPush (Trn UserTurnInferenceCompletedFrame) Downstream, GPush (Trn UserTurnInferenceCompletedFrame) Upstream]))"

definition suppressStaleCompletion :: "string \<Rightarrow> turn_gate \<Rightarrow> turn_gate \<times> gate_act list" where
  "suppressStaleCompletion short g =
    (g\<lparr>marker := TurnMarkerIncomplete, buffer := []\<rparr>,
     [GPush (Trn (LLMMarkerFrame short True)) Downstream, GStartTimeout IncompleteShort])"

definition pushTurnText :: "string \<Rightarrow> turn_gate \<Rightarrow> turn_gate \<times> gate_act list" where
  "pushTurnText t g =
    (if voiced g \<and> marker g = TurnMarkerNone then (g, [])
     else if marker g = TurnMarkerIncomplete then (g, [])
     else if marker g = TurnMarkerComplete then (g, [push_text t])
     else
       let g = g\<lparr>buffer := buffer g @ t\<rparr>; (complete, short, long) = Markers (gateConfig g) in
       if Contains (buffer g) short then
         (g\<lparr>marker := TurnMarkerIncomplete, buffer := []\<rparr>,
          [GPush (Trn (LLMMarkerFrame short True)) Downstream, GStartTimeout IncompleteShort])
       else if Contains (buffer g) long then
         (g\<lparr>marker := TurnMarkerIncomplete, buffer := []\<rparr>,
          [GPush (Trn (LLMMarkerFrame long True)) Downstream, GStartTimeout IncompleteLong])
       else case Cut (buffer g) complete of (before, rest, found) \<Rightarrow>
         if \<not> found then (g, [])
         else if gateUserSpeaking g then suppressStaleCompletion short g
         else
           (log_event CompleteVerdict (g\<lparr>voiced := True, marker := TurnMarkerComplete, buffer := []\<rparr>),
            [GBroadcast, GPush (Trn (LLMMarkerFrame complete False)) Downstream] @
            (let rest = TrimPrefix rest '' '' in if rest = [] then [] else [push_text rest])))"

definition set_reprompt :: "nat \<Rightarrow> (reprompt \<Rightarrow> reprompt) \<Rightarrow> turn_gate \<Rightarrow> turn_gate" where
  "set_reprompt i f g =
    (if i < length (reprompts g) then g\<lparr>reprompts := (reprompts g)[i := f (reprompts g ! i)]\<rparr> else g)"

text \<open>
  \<open>incompleteTimeoutExpired\<close> is \<open>GReset\<close> and then \<open>GReprompt\<close>. \<open>GTimer i\<close> is the timer of the \<open>i\<close>-th re-prompt
  running out; \<open>GFire i\<close> is its goroutine leaving the \<open>select\<close> for the timer and \<open>GWake i\<close> for the context.
\<close>

fun gate_code :: "(gate_act, turn_gate) code" where
  "gate_code (GCheck f) g = (g, if gateEnabled g then handleTurnCompletionProcessFrame f else [])"
| "gate_code (GPush f d) g =
    (g, (if gateEnabled g then handleTurnCompletionPushFrame f else []) @ [GSend f d])"
| "gate_code (GSend f d) g =
    (log_event (Sent (stamp (skipTTS g) f) d) g, metadata_after (gateName g) f d)"
| "gate_code (GText t) g = (g, if gateEnabled g then [GTurnText t] else [push_text t])"
| "gate_code (GTurnText t) g = pushTurnText t g"
| "gate_code GClearVoiced g = (log_event VoicedCleared (g\<lparr>voiced := False\<rparr>), [])"
| "gate_code (GSetSpeaking b) g = (log_event (SpeakingSet b) (g\<lparr>gateUserSpeaking := b\<rparr>), [])"
| "gate_code GCancelTimeout g =
    (g\<lparr>cancelTimeout := None\<rparr>, case cancelTimeout g of None \<Rightarrow> [] | Some i \<Rightarrow> [GCancel i])"
| "gate_code (GCancel i) g = (set_reprompt i (\<lambda>r. r\<lparr>rpCancelled := True\<rparr>) g, [])"
| "gate_code GBroadcast g = broadcastTurnCompletion g"
| "gate_code (GStartTimeout k) g = (g, [GCancelTimeout, GReadTimeout k])"
| "gate_code (GReadTimeout k) g = (g, [GArm k (config_timeout (gateConfig g) k)])"
| "gate_code (GArm k d) g =
    (g\<lparr>cancelTimeout := Some (length (reprompts g)),
       reprompts := reprompts g @ [\<lparr>rpKind = k, rpTimeout = d, rpPhase = Pending, rpCancelled = False\<rparr>]\<rparr>, [])"
| "gate_code GReset g = turnReset g"
| "gate_code (GReprompt k) g =
    (g\<lparr>cancelTimeout := None\<rparr>,
     [GPush (Trn (LLMMessagesAppendFrame [text_message RoleDeveloper (config_prompt (gateConfig g) k)] False)) Downstream,
      GPush (Llm LLMRunFrame) Downstream])"
| "gate_code (GTimer i) g =
    (set_reprompt i (\<lambda>r. if rpPhase r = Pending then r\<lparr>rpPhase := TimerReady\<rparr> else r) g, [])"
| "gate_code (GFire i) g =
    (if i < length (reprompts g) \<and> rpPhase (reprompts g ! i) = TimerReady
     then (set_reprompt i (\<lambda>r. r\<lparr>rpPhase := Left\<rparr>) g, [GReset, GReprompt (rpKind (reprompts g ! i))])
     else (g, []))"
| "gate_code (GWake i) g =
    (set_reprompt i (\<lambda>r. if rpCancelled r then r\<lparr>rpPhase := Left\<rparr> else r) g, [])"
| "gate_code (GSetEnabled b) g = (g\<lparr>gateEnabled := b\<rparr>, [])"
| "gate_code (GSetConfig c) g = (g\<lparr>gateConfig := c\<rparr>, [])"
| "gate_code (GSetSkip b) g = (g\<lparr>skipTTS := Some b\<rparr>, [])"
| "gate_code GTurnCancel g = (g\<lparr>reprompts := map (\<lambda>r. r\<lparr>rpCancelled := True\<rparr>) (reprompts g)\<rparr>, [])"

text \<open>
  One response of \<open>runText\<close>: the deltas the generator emits between a start and an end frame, empty ones
  ignored, the error frame when it failed and the timing frame when metrics are on.
\<close>

definition runText ::
  "string \<Rightarrow> string list \<Rightarrow> (string \<times> go_error \<times> err_category) option \<Rightarrow> opaque option \<Rightarrow> gate_act list" where
  "runText n deltas failure timing =
    [GPush (Ctl (LLMFullResponseStartFrame None)) Downstream] @
    map GText (filter (\<lambda>t. t \<noteq> []) deltas) @
    (case failure of None \<Rightarrow> []
     | Some (msg, e, cat) \<Rightarrow> [GPush (Sys (ErrorFrame msg False (Some n) (Some e) cat)) Upstream]) @
    (case timing of None \<Rightarrow> [] | Some m \<Rightarrow> [GPush (Mtr m) Downstream]) @
    [GPush (Ctl (LLMFullResponseEndFrame None)) Downstream]"

section \<open>Every call ends\<close>

fun lively :: "frame_body \<Rightarrow> bool" where
  "lively (Fun (FunctionCallsStartedFrame cs)) = True"
| "lively (Ctl (LLMFullResponseStartFrame sk)) = True"
| "lively (Ctl (LLMFullResponseEndFrame sk)) = True"
| "lively (Sys (StartFrame i ou)) = True"
| "lively _ = False"

fun gate_weight :: "gate_act \<Rightarrow> nat" where
  "gate_weight (GCheck f) = 8"
| "gate_weight (GPush f d) = (if lively f then 12 else 2)"
| "gate_weight (GSend f d) = (if lively f then 5 else 1)"
| "gate_weight (GText t) = 12"
| "gate_weight (GTurnText t) = 11"
| "gate_weight GCancelTimeout = 2"
| "gate_weight GBroadcast = 5"
| "gate_weight (GStartTimeout k) = 5"
| "gate_weight (GReadTimeout k) = 2"
| "gate_weight GReset = 3"
| "gate_weight (GReprompt k) = 5"
| "gate_weight (GFire i) = 10"
| "gate_weight _ = 1"

lemma not_lively [simp]:
  "\<not> lively (Txt t)" "\<not> lively (Trn r)" "\<not> lively (Met m)" "\<not> lively (Llm l)"
  by simp_all

lemma weight_metadata: "sum_list (map gate_weight (metadata_after n f d)) < gate_weight (GSend f d)"
  by (induction n f d rule: metadata_after.induct) simp_all

lemma weight_push_hook:
  "sum_list (map gate_weight (handleTurnCompletionPushFrame f)) + gate_weight (GSend f d) < gate_weight (GPush f d)"
  by (induction f rule: handleTurnCompletionPushFrame.induct) (simp_all split: if_splits)

lemma weight_process_hook: "sum_list (map gate_weight (handleTurnCompletionProcessFrame f)) < 8"
  by (induction f rule: handleTurnCompletionProcessFrame.induct) simp_all

lemma weight_text: "sum_list (map gate_weight (snd (pushTurnText t g))) < 11"
  by (simp add: pushTurnText_def suppressStaleCompletion_def Let_def split: prod.split)

interpretation gate: decreasing gate_code gate_weight
proof
  fix a g
  show "sum_list (map gate_weight (snd (gate_code a g))) < gate_weight a"
  proof (cases a)
    case (GPush f d)
    then show ?thesis using weight_push_hook [of f d] by (simp del: gate_weight.simps)
  next
    case (GSend f d)
    then show ?thesis using weight_metadata [of "gateName g" f d] by simp
  next
    case (GCheck f)
    then show ?thesis using weight_process_hook [of f] by simp
  next
    case (GTurnText t)
    then show ?thesis using weight_text [of t g] by simp
  qed (auto simp: broadcastTurnCompletion_def turnReset_def Let_def split: option.split)
qed

section \<open>The gate on texts\<close>

lemma HasPrefix_append: "HasPrefix x m \<Longrightarrow> HasPrefix (x @ y) m"
  by (auto simp: HasPrefix_def) (metis append_take_drop_id length_take min.absorb4 nle_le take_all take_append)

lemma HasPrefix_append_iff: "length m \<le> length x \<Longrightarrow> HasPrefix (x @ y) m \<longleftrightarrow> HasPrefix x m"
  by (simp add: HasPrefix_def)

lemma Contains_length: "Contains x m \<Longrightarrow> length m \<le> length x"
proof (induction x)
  case (Cons c cs)
  then show ?case by (auto simp: HasPrefix_def) (metis length_Cons length_take min.cobounded1)
qed simp

lemma Contains_append: "Contains x m \<Longrightarrow> Contains (x @ y) m"
proof (induction x)
  case Nil
  then show ?case by (cases y) (auto simp: HasPrefix_def)
next
  case (Cons c cs)
  then show ?case using HasPrefix_append [of "c # cs" m y] by auto
qed

lemma Contains_mono: "\<not> Contains (x @ y) m \<Longrightarrow> \<not> Contains x m"
  using Contains_append by blast

lemma Cut_found: "snd (snd (Cut x m)) \<longleftrightarrow> Contains x m"
  by (induction x) (auto split: prod.split)

text \<open>The first occurrence stays where it is when more text follows.\<close>

lemma Cut_append:
  assumes "Contains x m"
  shows "Cut (x @ y) m = (fst (Cut x m), fst (snd (Cut x m)) @ y, True)"
  using assms
proof (induction x)
  case Nil
  then show ?case by (cases y) (auto simp: HasPrefix_def)
next
  case (Cons c cs)
  show ?case
  proof (cases "HasPrefix (c # cs) m")
    case True
    then have "length m \<le> length (c # cs)"
      by (metis HasPrefix_def length_take min.cobounded1)
    then have "drop (length m) ((c # cs) @ y) = drop (length m) (c # cs) @ y" by (simp del: append_Cons)
    with True show ?thesis using HasPrefix_append [OF True, of y] by simp
  next
    case False
    then have C: "Contains cs m" using Cons.prems by simp
    then have "length m \<le> length (c # cs)" using Contains_length by fastforce
    then have "\<not> HasPrefix (c # cs @ y) m" using False HasPrefix_append_iff [of m "c # cs" y] by simp
    then show ?thesis using False Cons.IH [OF C] Cut_found [of cs m] C by (auto split: prod.splits)
  qed
qed

text \<open>The frames a trace sent, and the text among them that is spoken.\<close>

fun sent_frames :: "gate_event list \<Rightarrow> (frame_body \<times> Direction) list" where
  "sent_frames [] = []"
| "sent_frames (Sent f d # es) = (f, d) # sent_frames es"
| "sent_frames (_ # es) = sent_frames es"

fun said :: "gate_event list \<Rightarrow> string" where
  "said [] = []"
| "said (Sent (Txt (LLMTextFrame t)) Downstream # es) = fText t @ said es"
| "said (_ # es) = said es"

lemma sent_frames_append [simp]: "sent_frames (xs @ ys) = sent_frames xs @ sent_frames ys"
  by (induction xs rule: sent_frames.induct) simp_all

lemma said_append [simp]: "said (xs @ ys) = said xs @ said ys"
  by (induction xs rule: said.induct) simp_all

definition text_sent :: "bool option \<Rightarrow> string \<Rightarrow> gate_event" where
  "text_sent sk t = Sent (stamp sk (Txt (NewLLMTextFrame t))) Downstream"

lemma said_text_sent [simp]: "said (text_sent sk t # es) = t @ said es"
  by (cases sk) (simp_all add: text_sent_def NewLLMTextFrame_def)

lemma said_texts [simp]: "said (map (text_sent sk) ts) = concat ts"
  by (induction ts) simp_all

text \<open>Pushing a frame the gate does not react to.\<close>

lemma push_plain:
  assumes "handleTurnCompletionPushFrame f = []" and "\<And>n. metadata_after n f d = []"
  shows "run_alone gate_code (GPush f d # as) g =
    run_alone gate_code as (g\<lparr>trace := trace g @ [Sent (stamp (skipTTS g) f) d]\<rparr>)"
  using assms by (simp add: log_event_def)

lemma push_text_alone [simp]:
  "run_alone gate_code (push_text t # as) g = run_alone gate_code as (g\<lparr>trace := trace g @ [text_sent (skipTTS g) t]\<rparr>)"
  by (subst push_plain) (simp_all add: text_sent_def)

lemma text_alone: "gateEnabled g \<Longrightarrow> run_alone gate_code (GText t # as) g = run_alone gate_code (snd (pushTurnText t g) @ as) (fst (pushTurnText t g))"
  by (simp add: alone_Cons)

definition unmarked :: "UserTurnCompletionConfig \<Rightarrow> string \<Rightarrow> bool" where
  "unmarked c t \<longleftrightarrow>
    (case Markers c of (complete, short, long) \<Rightarrow>
       \<not> Contains t complete \<and> \<not> Contains t short \<and> \<not> Contains t long)"

lemma texts_buffered:
  assumes "gateEnabled g" "marker g = TurnMarkerNone" "\<not> voiced g"
    and "unmarked (gateConfig g) (buffer g @ concat ts)"
  shows "run_alone gate_code (map GText ts @ as) g = run_alone gate_code as (g\<lparr>buffer := buffer g @ concat ts\<rparr>)"
  using assms
proof (induction ts arbitrary: g)
  case (Cons t ts)
  obtain complete short long where M: "Markers (gateConfig g) = (complete, short, long)" by (metis prod_cases3)
  have no: "\<not> Contains (buffer g @ t) complete" "\<not> Contains (buffer g @ t) short" "\<not> Contains (buffer g @ t) long"
    using Cons.prems(4) M Contains_mono [of "buffer g @ t" "concat ts"] by (auto simp: unmarked_def)
  have "pushTurnText t g = (g\<lparr>buffer := buffer g @ t\<rparr>, [])"
    using Cons.prems M no Cut_found [of "buffer g @ t" complete] by (auto simp: pushTurnText_def Let_def split: prod.split)
  then show ?case using Cons.prems Cons.IH [of "g\<lparr>buffer := buffer g @ t\<rparr>"] by (simp add: text_alone)
qed simp

lemma texts_suppressed:
  assumes "gateEnabled g" "marker g = TurnMarkerIncomplete"
  shows "run_alone gate_code (map GText ts @ as) g = run_alone gate_code as g"
  using assms by (induction ts) (simp_all add: text_alone pushTurnText_def)

lemma texts_flow:
  assumes "gateEnabled g" "marker g = TurnMarkerComplete"
  shows "run_alone gate_code (map GText ts @ as) g =
    run_alone gate_code as (g\<lparr>trace := trace g @ map (text_sent (skipTTS g)) ts\<rparr>)"
  using assms by (induction ts arbitrary: g) (simp_all add: text_alone pushTurnText_def)

text \<open>Where a marker first appears among the pieces.\<close>

lemma first_marked:
  assumes "unmarked c b" and "\<not> unmarked c (b @ concat ts)"
  shows "\<exists>xs t ys. ts = xs @ t # ys \<and> unmarked c (b @ concat xs) \<and> \<not> unmarked c (b @ concat xs @ t)"
  using assms
proof (induction ts arbitrary: b)
  case (Cons t ts)
  show ?case
  proof (cases "unmarked c (b @ t)")
    case True
    then obtain xs u ys where "ts = xs @ u # ys" "unmarked c ((b @ t) @ concat xs)"
      "\<not> unmarked c ((b @ t) @ concat xs @ u)"
      using Cons.IH [of "b @ t"] Cons.prems by auto
    then show ?thesis by (intro exI [of _ "t # xs"] exI [of _ u] exI [of _ ys]) simp
  next
    case False
    then show ?thesis using Cons.prems by (intro exI [of _ "[]"] exI [of _ t] exI [of _ ts]) simp
  qed
qed simp

text \<open>Which way the turn was reported complete, and the re-prompt that is armed.\<close>

definition reported_ways :: "gate_event list \<Rightarrow> Direction list" where
  "reported_ways es = [d. (f, d) \<leftarrow> sent_frames es, f = Trn UserTurnInferenceCompletedFrame]"

definition armed :: "turn_gate \<Rightarrow> IncompleteType option" where
  "armed g =
    (case cancelTimeout g of
       None \<Rightarrow> None
     | Some i \<Rightarrow>
         if i < length (reprompts g) \<and> rpPhase (reprompts g ! i) = Pending \<and> \<not> rpCancelled (reprompts g ! i)
         then Some (rpKind (reprompts g ! i)) else None)"

lemma reported_ways_append [simp]: "reported_ways (xs @ ys) = reported_ways xs @ reported_ways ys"
  by (simp add: reported_ways_def)

lemma reported_ways_Nil [simp]: "reported_ways [] = []"
  by (simp add: reported_ways_def)

lemma reported_ways_Cons [simp]:
  "reported_ways (Sent f d # es) = (if f = Trn UserTurnInferenceCompletedFrame then [d] else []) @ reported_ways es"
  "reported_ways (CompleteVerdict # es) = reported_ways es"
  by (auto simp: reported_ways_def)

lemma stamp_kinds [simp]:
  "stamp sk (Ctl (LLMFullResponseStartFrame a)) = Ctl (LLMFullResponseStartFrame (if sk = None then a else sk))"
  "stamp sk (Ctl (LLMFullResponseEndFrame a)) = Ctl (LLMFullResponseEndFrame (if sk = None then a else sk))"
  "stamp sk (Sys y) = Sys y" "stamp sk (Trn r) = Trn r" "stamp sk (Mtr m) = Mtr m"
  "stamp sk (Fun k) = Fun k" "stamp sk (Llm l) = Llm l" "stamp sk (Met q) = Met q"
  by (cases sk; simp)+

lemma reported_ways_texts [simp]:
  "reported_ways (text_sent sk t # es) = reported_ways es" "reported_ways (map (text_sent sk) ts) = []"
  by (induction ts; cases sk; simp add: text_sent_def NewLLMTextFrame_def)+

text \<open>The end of a response: a state that withheld no text, and one that did.\<close>

definition after_texts ::
  "string \<Rightarrow> (string \<times> go_error \<times> err_category) option \<Rightarrow> opaque option \<Rightarrow> gate_event list" where
  "after_texts n failure timing =
    (case failure of None \<Rightarrow> []
     | Some (msg, e, cat) \<Rightarrow> [Sent (Sys (ErrorFrame msg False (Some n) (Some e) cat)) Upstream]) @
    (case timing of None \<Rightarrow> [] | Some m \<Rightarrow> [Sent (Mtr m) Downstream])"

lemma after_texts_silent [simp]:
  "said (after_texts n failure timing) = []" "reported_ways (after_texts n failure timing) = []"
  by (auto simp: after_texts_def split: option.split)

abbreviation closing ::
  "string \<Rightarrow> (string \<times> go_error \<times> err_category) option \<Rightarrow> opaque option \<Rightarrow> gate_act list" where
  "closing n failure timing \<equiv>
    (case failure of None \<Rightarrow> []
     | Some (msg, e, cat) \<Rightarrow> [GPush (Sys (ErrorFrame msg False (Some n) (Some e) cat)) Upstream]) @
    (case timing of None \<Rightarrow> [] | Some m \<Rightarrow> [GPush (Mtr m) Downstream]) @
    [GPush (Ctl (LLMFullResponseEndFrame None)) Downstream]"

definition end_sent :: "bool option \<Rightarrow> gate_event" where
  "end_sent sk = Sent (Ctl (LLMFullResponseEndFrame sk)) Downstream"

lemma end_sent_silent [simp]:
  "said (end_sent sk # es) = said es" "reported_ways (end_sent sk # es) = reported_ways es"
  by (simp_all add: end_sent_def)

lemma closing_alone:
  assumes "gateEnabled g"
  shows "run_alone gate_code (closing n failure timing) g =
    Some (g\<lparr>buffer := [], marker := TurnMarkerNone, broadcasted := False,
      trace := trace g @ after_texts n failure timing @
        (if marker g = TurnMarkerNone \<and> buffer g \<noteq> [] then [text_sent (skipTTS g) (buffer g)] else []) @
        [end_sent (skipTTS g)]\<rparr>)"
  using assms
  by (auto simp: push_plain turnReset_def Let_def log_event_def after_texts_def end_sent_def
      split: option.split)

text \<open>Arming a re-prompt replaces the one that is armed.\<close>

definition rearm :: "IncompleteType \<Rightarrow> turn_gate \<Rightarrow> turn_gate" where
  "rearm k g =
    (let rs = (case cancelTimeout g of None \<Rightarrow> reprompts g
                | Some i \<Rightarrow> reprompts (set_reprompt i (\<lambda>r. r\<lparr>rpCancelled := True\<rparr>) g))
     in g\<lparr>cancelTimeout := Some (length rs),
          reprompts := rs @ [\<lparr>rpKind = k, rpTimeout = config_timeout (gateConfig g) k, rpPhase = Pending,
                              rpCancelled = False\<rparr>]\<rparr>)"

lemma start_timeout_alone [simp]:
  "run_alone gate_code (GStartTimeout k # as) g = run_alone gate_code as (rearm k g)"
  by (simp add: rearm_def Let_def set_reprompt_def split: option.split)

lemma rearm_keeps [simp]:
  "gateEnabled (rearm k g) = gateEnabled g" "marker (rearm k g) = marker g" "buffer (rearm k g) = buffer g"
  "trace (rearm k g) = trace g" "skipTTS (rearm k g) = skipTTS g" "voiced (rearm k g) = voiced g"
  by (simp_all add: rearm_def Let_def)

lemma armed_rearm: "armed (rearm k g) = Some k"
  by (simp add: rearm_def armed_def Let_def)

lemma armed_update [simp]:
  "armed (g\<lparr>buffer := b, marker := m, broadcasted := c, trace := t\<rparr>) = armed g"
  by (simp add: armed_def split: option.split)

text \<open>What the piece that brings a marker does.\<close>

lemma verdict_incomplete:
  assumes "gateEnabled g" "marker g = TurnMarkerNone" "\<not> voiced g"
    and "Markers (gateConfig g) = (complete, short, long)"
    and "Contains (buffer g @ t) short \<or> Contains (buffer g @ t) long"
  shows "\<exists>k m. \<forall>as. run_alone gate_code (GText t # as) g =
    run_alone gate_code as (rearm k (g\<lparr>marker := TurnMarkerIncomplete, buffer := [],
      trace := trace g @ [Sent (Trn (LLMMarkerFrame m True)) Downstream]\<rparr>))"
proof (cases "Contains (buffer g @ t) short")
  case True
  then show ?thesis using assms
    by (intro exI [of _ IncompleteShort] exI [of _ short] allI)
      (simp add: text_alone pushTurnText_def push_plain Let_def del: alone_step)
next
  case False
  then show ?thesis using assms
    by (intro exI [of _ IncompleteLong] exI [of _ long] allI)
      (simp add: text_alone pushTurnText_def push_plain Let_def del: alone_step)
qed

lemma verdict_stale:
  assumes "gateEnabled g" "marker g = TurnMarkerNone" "\<not> voiced g" "gateUserSpeaking g"
    and "Markers (gateConfig g) = (complete, short, long)"
    and "\<not> Contains (buffer g @ t) short" "\<not> Contains (buffer g @ t) long" "Contains (buffer g @ t) complete"
  shows "run_alone gate_code (GText t # as) g =
    run_alone gate_code as (rearm IncompleteShort (g\<lparr>marker := TurnMarkerIncomplete, buffer := [],
      trace := trace g @ [Sent (Trn (LLMMarkerFrame short True)) Downstream]\<rparr>))"
  using assms Cut_found [of "buffer g @ t" complete]
  by (auto simp: text_alone pushTurnText_def suppressStaleCompletion_def push_plain Let_def
      simp del: alone_step split: prod.split)

lemma broadcast_alone:
  assumes "\<not> broadcasted g"
  shows "run_alone gate_code (GBroadcast # as) g =
    run_alone gate_code as (g\<lparr>broadcasted := True,
      trace := trace g @ [Sent (Trn UserTurnInferenceCompletedFrame) Downstream,
                          Sent (Trn UserTurnInferenceCompletedFrame) Upstream]\<rparr>)"
  using assms by (simp add: broadcastTurnCompletion_def log_event_def)

definition blank_trimmed :: "string \<Rightarrow> string list" where
  "blank_trimmed r = (if TrimPrefix r '' '' = [] then [] else [TrimPrefix r '' ''])"

lemma verdict_complete:
  assumes "gateEnabled g" "marker g = TurnMarkerNone" "\<not> voiced g" "\<not> gateUserSpeaking g" "\<not> broadcasted g"
    and "Markers (gateConfig g) = (complete, short, long)"
    and "\<not> Contains (buffer g @ t) short" "\<not> Contains (buffer g @ t) long" "Contains (buffer g @ t) complete"
  shows "run_alone gate_code (GText t # as) g =
    run_alone gate_code as (g\<lparr>voiced := True, marker := TurnMarkerComplete, buffer := [], broadcasted := True,
      trace := trace g @ [CompleteVerdict, Sent (Trn UserTurnInferenceCompletedFrame) Downstream,
        Sent (Trn UserTurnInferenceCompletedFrame) Upstream, Sent (Trn (LLMMarkerFrame complete False)) Downstream] @
        map (text_sent (skipTTS g)) (blank_trimmed (fst (snd (Cut (buffer g @ t) complete))))\<rparr>)"
  using assms Cut_found [of "buffer g @ t" complete]
  by (auto simp: text_alone pushTurnText_def push_plain broadcast_alone log_event_def
      blank_trimmed_def Let_def simp del: alone_step split: prod.split)

definition disarm :: "turn_gate \<Rightarrow> turn_gate" where
  "disarm g =
    (case cancelTimeout g of None \<Rightarrow> g\<lparr>cancelTimeout := None\<rparr>
     | Some i \<Rightarrow> set_reprompt i (\<lambda>r. r\<lparr>rpCancelled := True\<rparr>) (g\<lparr>cancelTimeout := None\<rparr>))"

lemma cancel_timeout_alone [simp]: "run_alone gate_code (GCancelTimeout # as) g = run_alone gate_code as (disarm g)"
  by (simp add: disarm_def split: option.split)

lemma disarm_keeps [simp]:
  "gateEnabled (disarm g) = gateEnabled g" "marker (disarm g) = marker g" "buffer (disarm g) = buffer g"
  "trace (disarm g) = trace g" "skipTTS (disarm g) = skipTTS g" "voiced (disarm g) = voiced g"
  "broadcasted (disarm g) = broadcasted g" "gateUserSpeaking (disarm g) = gateUserSpeaking g"
  "gateConfig (disarm g) = gateConfig g"
  by (simp_all add: disarm_def set_reprompt_def split: option.split)

definition begun :: "turn_gate \<Rightarrow> turn_gate" where
  "begun g = (disarm g)\<lparr>trace := trace g @ [Sent (Ctl (LLMFullResponseStartFrame (skipTTS g))) Downstream]\<rparr>"

lemma start_alone:
  "gateEnabled g \<Longrightarrow> run_alone gate_code (GPush (Ctl (LLMFullResponseStartFrame None)) Downstream # as) g =
    run_alone gate_code as (begun g)"
  by (cases "skipTTS g") (simp_all add: begun_def log_event_def)

lemma begun_keeps [simp]:
  "gateEnabled (begun g) = gateEnabled g" "marker (begun g) = marker g" "buffer (begun g) = buffer g"
  "trace (begun g) = trace g @ [Sent (Ctl (LLMFullResponseStartFrame (skipTTS g))) Downstream]"
  "skipTTS (begun g) = skipTTS g" "voiced (begun g) = voiced g" "broadcasted (begun g) = broadcasted g"
  "gateUserSpeaking (begun g) = gateUserSpeaking g" "gateConfig (begun g) = gateConfig g"
  by (simp_all add: begun_def)

lemma runText_alone:
  "gateEnabled g \<Longrightarrow> run_alone gate_code (runText n deltas failure timing) g =
    run_alone gate_code (map GText (filter (\<lambda>t. t \<noteq> []) deltas) @ closing n failure timing) (begun g)"
  by (simp add: runText_def start_alone del: alone_step)

lemma concat_nonempty: "concat (filter (\<lambda>t. t \<noteq> []) ts) = concat ts"
  by (induction ts) auto

text \<open>A fresh response: gating on, nothing of an earlier response left, no completion spoken yet.\<close>

definition fresh :: "turn_gate \<Rightarrow> bool" where
  "fresh g \<longleftrightarrow> gateEnabled g \<and> marker g = TurnMarkerNone \<and> buffer g = [] \<and> \<not> voiced g \<and> \<not> broadcasted g"

definition since_then :: "turn_gate \<Rightarrow> turn_gate \<Rightarrow> gate_event list" where
  "since_then g h = drop (length (trace g)) (trace h)"

lemma respond_unmarked:
  assumes "fresh g" and "unmarked (gateConfig g) (concat deltas)"
  shows "\<exists>h. run_alone gate_code (runText n deltas failure timing) g = Some h \<and>
    said (since_then g h) = concat deltas \<and> reported_ways (since_then g h) = []"
  using assms
  by (simp add: runText_alone texts_buffered concat_nonempty closing_alone fresh_def since_then_def)

lemma unmarked_split:
  assumes "fresh g" and "\<not> unmarked (gateConfig g) (concat deltas)"
  obtains xs t ys where "filter (\<lambda>t. t \<noteq> []) deltas = xs @ t # ys" "unmarked (gateConfig g) (concat xs)"
    "\<not> unmarked (gateConfig g) (concat xs @ t)" "concat deltas = (concat xs @ t) @ concat ys"
proof -
  have "unmarked (gateConfig g) []"
    by (auto simp: unmarked_def Markers_def cmp_Or_def MarkerComplete_def MarkerIncompleteShort_def
        MarkerIncompleteLong_def)
  with first_marked [of "gateConfig g" "[]" "filter (\<lambda>t. t \<noteq> []) deltas"] assms
  obtain xs t ys where xs: "filter (\<lambda>t. t \<noteq> []) deltas = xs @ t # ys" "unmarked (gateConfig g) (concat xs)"
    "\<not> unmarked (gateConfig g) (concat xs @ t)"
    by (auto simp: concat_nonempty)
  moreover have "concat deltas = (concat xs @ t) @ concat ys" using xs(1) concat_nonempty [of deltas] by simp
  ultimately show thesis by (rule that)
qed

text \<open>A response that is withheld, whichever marker it was withheld for.\<close>

definition withheld :: "turn_gate \<Rightarrow> gate_act list \<Rightarrow> bool" where
  "withheld g p \<longleftrightarrow> (\<exists>h k. run_alone gate_code p g = Some h \<and>
    said (since_then g h) = [] \<and> reported_ways (since_then g h) = [] \<and> armed h = Some k)"

lemma withheld_rest:
  assumes "gateEnabled g" "marker g = TurnMarkerIncomplete" "armed g = Some k"
    and "trace g = trace g0 @ es" "said es = []" "reported_ways es = []"
  shows "\<exists>h k. run_alone gate_code (map GText ts @ closing n failure timing) g = Some h \<and>
    said (since_then g0 h) = [] \<and> reported_ways (since_then g0 h) = [] \<and> armed h = Some k"
  using assms by (simp add: texts_suppressed closing_alone since_then_def)

lemma respond_incomplete:
  assumes "fresh g" and "Markers (gateConfig g) = (complete, short, long)"
    and "\<not> Contains (concat deltas) complete"
    and "Contains (concat deltas) short \<or> Contains (concat deltas) long"
  shows "withheld g (runText n deltas failure timing)"
proof -
  have "\<not> unmarked (gateConfig g) (concat deltas)" using assms(2,4) by (auto simp: unmarked_def)
  then obtain xs t ys where xs: "filter (\<lambda>t. t \<noteq> []) deltas = xs @ t # ys" "unmarked (gateConfig g) (concat xs)"
      "\<not> unmarked (gateConfig g) (concat xs @ t)" "concat deltas = (concat xs @ t) @ concat ys"
    by (rule unmarked_split [OF assms(1)])
  have "\<not> Contains (concat xs @ t) complete" using assms(3) xs(4) Contains_mono by metis
  then have v: "Contains (concat xs @ t) short \<or> Contains (concat xs @ t) long"
    using xs(3) assms(2) by (auto simp: unmarked_def)
  let ?g = "(begun g)\<lparr>buffer := concat xs\<rparr>"
  obtain k m where "run_alone gate_code (GText t # as) ?g =
      run_alone gate_code as (rearm k (?g\<lparr>marker := TurnMarkerIncomplete, buffer := [],
        trace := trace ?g @ [Sent (Trn (LLMMarkerFrame m True)) Downstream]\<rparr>))" for as
    using verdict_incomplete [of ?g complete short long t] assms v by (force simp: fresh_def simp del: alone_step)
  then have "run_alone gate_code (runText n deltas failure timing) g =
      run_alone gate_code (map GText ys @ closing n failure timing)
        (rearm k (?g\<lparr>marker := TurnMarkerIncomplete, buffer := [],
          trace := trace ?g @ [Sent (Trn (LLMMarkerFrame m True)) Downstream]\<rparr>))"
    using assms(1) xs(1,2) by (simp add: runText_alone texts_buffered fresh_def del: alone_step)
  then show ?thesis unfolding withheld_def
    using withheld_rest [of "rearm k (?g\<lparr>marker := TurnMarkerIncomplete, buffer := [],
        trace := trace ?g @ [Sent (Trn (LLMMarkerFrame m True)) Downstream]\<rparr>)"] assms(1) armed_rearm
    by (simp add: fresh_def)
qed

text \<open>The case distinction the two other verdicts share: the piece that brings the complete marker.\<close>

lemma complete_split:
  assumes "fresh g" and "Markers (gateConfig g) = (complete, short, long)"
    and "Contains (concat deltas) complete"
    and "\<not> Contains (concat deltas) short" "\<not> Contains (concat deltas) long"
  obtains xs t ys where "filter (\<lambda>t. t \<noteq> []) deltas = xs @ t # ys" "unmarked (gateConfig g) (concat xs)"
    "Contains (concat xs @ t) complete" "\<not> Contains (concat xs @ t) short" "\<not> Contains (concat xs @ t) long"
    "concat deltas = (concat xs @ t) @ concat ys"
proof -
  have "\<not> unmarked (gateConfig g) (concat deltas)" using assms(2,3) by (auto simp: unmarked_def)
  then obtain xs t ys where xs: "filter (\<lambda>t. t \<noteq> []) deltas = xs @ t # ys" "unmarked (gateConfig g) (concat xs)"
      "\<not> unmarked (gateConfig g) (concat xs @ t)" "concat deltas = (concat xs @ t) @ concat ys"
    by (rule unmarked_split [OF assms(1)])
  have no: "\<not> Contains (concat xs @ t) short" "\<not> Contains (concat xs @ t) long"
    using assms(4,5) xs(4) Contains_mono by metis+
  with xs(3) assms(2) have "Contains (concat xs @ t) complete" by (auto simp: unmarked_def)
  from that [OF xs(1,2) this no xs(4)] show thesis .
qed

lemma respond_stale:
  assumes "fresh g" "gateUserSpeaking g" and "Markers (gateConfig g) = (complete, short, long)"
    and "Contains (concat deltas) complete"
    and "\<not> Contains (concat deltas) short" "\<not> Contains (concat deltas) long"
  shows "withheld g (runText n deltas failure timing)"
proof -
  obtain xs t ys where xs: "filter (\<lambda>t. t \<noteq> []) deltas = xs @ t # ys" "unmarked (gateConfig g) (concat xs)"
    "Contains (concat xs @ t) complete" "\<not> Contains (concat xs @ t) short" "\<not> Contains (concat xs @ t) long"
    by (rule complete_split [OF assms(1,3-6)])
  let ?h = "rearm IncompleteShort ((begun g)\<lparr>buffer := concat xs, marker := TurnMarkerIncomplete, buffer := [],
        trace := trace (begun g) @ [Sent (Trn (LLMMarkerFrame short True)) Downstream]\<rparr>)"
  have "run_alone gate_code (runText n deltas failure timing) g =
      run_alone gate_code (map GText ys @ closing n failure timing) ?h"
    using assms(1-3) xs verdict_stale [of "(begun g)\<lparr>buffer := concat xs\<rparr>" complete short long t]
    by (simp add: runText_alone texts_buffered fresh_def del: alone_step)
  then show ?thesis unfolding withheld_def
    using withheld_rest [of ?h] assms(1) armed_rearm by (simp add: fresh_def)
qed

lemma said_after_blank:
  "concat (blank_trimmed x) @ y \<in> {x @ y, TrimPrefix (x @ y) '' ''}"
proof (cases x)
  case Nil
  then show ?thesis by (simp add: blank_trimmed_def TrimPrefix_def HasPrefix_def)
next
  case (Cons c cs)
  then show ?thesis by (auto simp: blank_trimmed_def TrimPrefix_def HasPrefix_def)
qed

lemma respond_complete:
  assumes "fresh g" "\<not> gateUserSpeaking g" and "Markers (gateConfig g) = (complete, short, long)"
    and "Contains (concat deltas) complete"
    and "\<not> Contains (concat deltas) short" "\<not> Contains (concat deltas) long"
  shows "\<exists>h before after. run_alone gate_code (runText n deltas failure timing) g = Some h \<and>
    since_then g h = before @ Sent (Trn UserTurnInferenceCompletedFrame) Downstream # after \<and>
    said before = [] \<and> reported_ways (since_then g h) = [Downstream, Upstream] \<and>
    said after \<in> {fst (snd (Cut (concat deltas) complete)), TrimPrefix (fst (snd (Cut (concat deltas) complete))) '' ''}"
proof -
  obtain xs t ys where xs: "filter (\<lambda>t. t \<noteq> []) deltas = xs @ t # ys" "unmarked (gateConfig g) (concat xs)"
    "Contains (concat xs @ t) complete" "\<not> Contains (concat xs @ t) short" "\<not> Contains (concat xs @ t) long"
    "concat deltas = (concat xs @ t) @ concat ys"
    by (rule complete_split [OF assms(1,3-6)])
  let ?r = "fst (snd (Cut (concat xs @ t) complete))"
  have rest: "fst (snd (Cut (concat deltas) complete)) = ?r @ concat ys"
    using Cut_append [OF xs(3), of "concat ys"] xs(6) by simp
  let ?texts = "map (text_sent (skipTTS g)) (blank_trimmed ?r) @ map (text_sent (skipTTS g)) ys"
  let ?after = "[Sent (Trn UserTurnInferenceCompletedFrame) Upstream,
      Sent (Trn (LLMMarkerFrame complete False)) Downstream] @ ?texts @ after_texts n failure timing @ [end_sent (skipTTS g)]"
  have "\<exists>h. run_alone gate_code (runText n deltas failure timing) g = Some h \<and>
      trace h = trace g @ [Sent (Ctl (LLMFullResponseStartFrame (skipTTS g))) Downstream, CompleteVerdict,
        Sent (Trn UserTurnInferenceCompletedFrame) Downstream] @ ?after"
    using assms(1-3) xs verdict_complete [of "(begun g)\<lparr>buffer := concat xs\<rparr>" complete short long t]
    by (simp add: runText_alone texts_buffered texts_flow closing_alone fresh_def del: alone_step)
  then obtain h where h: "run_alone gate_code (runText n deltas failure timing) g = Some h"
      "since_then g h = [Sent (Ctl (LLMFullResponseStartFrame (skipTTS g))) Downstream, CompleteVerdict] @
        Sent (Trn UserTurnInferenceCompletedFrame) Downstream # ?after"
    by (auto simp: since_then_def)
  have "said ?after = concat (blank_trimmed ?r) @ concat ys" by simp
  then show ?thesis
    using h said_after_blank [of ?r "concat ys"] rest
    by (intro exI [of _ h] exI [of _ "[Sent (Ctl (LLMFullResponseStartFrame (skipTTS g))) Downstream, CompleteVerdict]"]
        exI [of _ ?after]) auto
qed

section \<open>What the gate guarantees\<close>

definition a_config :: UserTurnCompletionConfig where
  "a_config = \<lparr>Instructions = [], CompleteMarker = ''+'', IncompleteShortMarker = ''-'', IncompleteLongMarker = ''~'',
    IncompleteShortTimeout = 0, IncompleteLongTimeout = 0, IncompleteShortPrompt = ''short'',
    IncompleteLongPrompt = ''long''\<rparr>"

definition new_gate :: "string \<Rightarrow> bool \<Rightarrow> UserTurnCompletionConfig \<Rightarrow> turn_gate" where
  "new_gate n on c = \<lparr>gateName = n, gateEnabled = on, gateConfig = c, buffer = [], marker = TurnMarkerNone,
    broadcasted = False, voiced = False, gateUserSpeaking = False, cancelTimeout = None, reprompts = [],
    skipTTS = None, trace = []\<rparr>"

text \<open>
  C24. A response is answered by its marker and by nothing else, however it is cut into pieces. In a fresh
  response that runs undisturbed: if it carries no marker at all, all of its text is spoken at its end; if it
  carries an incomplete marker and no complete one, or a complete one while the user is speaking, none of it is
  spoken, the turn is not reported complete, and a re-prompt is left armed; if it carries the complete
  marker only and the user is silent, the turn is reported complete once in each direction before anything is
  spoken, and what is spoken is the text after the first marker, up to one leading blank.
\<close>

theorem response_by_verdict:
  assumes "fresh g" and "Markers (gateConfig g) = (complete, short, long)"
    and "\<not> (Contains (concat deltas) complete \<and> (Contains (concat deltas) short \<or> Contains (concat deltas) long))"
  shows "if unmarked (gateConfig g) (concat deltas) then
      \<exists>h. run_alone gate_code (runText n deltas failure timing) g = Some h \<and>
        said (since_then g h) = concat deltas \<and> reported_ways (since_then g h) = []
    else if Contains (concat deltas) complete \<and> \<not> gateUserSpeaking g then
      \<exists>h before after. run_alone gate_code (runText n deltas failure timing) g = Some h \<and>
        since_then g h = before @ Sent (Trn UserTurnInferenceCompletedFrame) Downstream # after \<and>
        said before = [] \<and> reported_ways (since_then g h) = [Downstream, Upstream] \<and>
        said after \<in> {fst (snd (Cut (concat deltas) complete)),
                       TrimPrefix (fst (snd (Cut (concat deltas) complete))) '' ''}
    else withheld g (runText n deltas failure timing)"
proof -
  consider "unmarked (gateConfig g) (concat deltas)"
    | "\<not> unmarked (gateConfig g) (concat deltas)" "Contains (concat deltas) complete" "\<not> gateUserSpeaking g"
    | "\<not> unmarked (gateConfig g) (concat deltas)" "Contains (concat deltas) complete" "gateUserSpeaking g"
    | "\<not> unmarked (gateConfig g) (concat deltas)" "\<not> Contains (concat deltas) complete"
    by blast
  then show ?thesis
  proof cases
    case 1
    then show ?thesis using respond_unmarked [OF assms(1)] by simp
  next
    case 2
    then show ?thesis using respond_complete [OF assms(1) _ assms(2)] assms(3) by simp
  next
    case 3
    then show ?thesis using respond_stale [OF assms(1) _ assms(2)] assms(3) by simp
  next
    case 4
    then show ?thesis using respond_incomplete [OF assms(1,2)] assms(2) by (auto simp: unmarked_def)
  qed
qed

theorem response_by_verdict_witness:
  "(\<exists>h. run_alone gate_code (runText ''llm'' [''Hel'', ''lo''] None None) (new_gate ''llm'' True a_config) = Some h \<and>
      said (since_then (new_gate ''llm'' True a_config) h) = ''Hello'' \<and>
      reported_ways (since_then (new_gate ''llm'' True a_config) h) = []) \<and>
   withheld (new_gate ''llm'' True a_config) (runText ''llm'' [''-'', '' I go on''] None None) \<and>
   withheld (new_gate ''llm'' True a_config\<lparr>gateUserSpeaking := True\<rparr>) (runText ''llm'' [''+ Yes''] None None) \<and>
   (\<exists>h before after. run_alone gate_code (runText ''llm'' [''+ Y'', ''es''] None None) (new_gate ''llm'' True a_config) = Some h \<and>
      since_then (new_gate ''llm'' True a_config) h =
        before @ Sent (Trn UserTurnInferenceCompletedFrame) Downstream # after \<and>
      said before = [] \<and> reported_ways (since_then (new_gate ''llm'' True a_config) h) = [Downstream, Upstream] \<and>
      said after \<in> {'' Yes'', ''Yes''})"
proof -
  let ?g = "new_gate ''llm'' True a_config"
  have f: "fresh ?g" "fresh (?g\<lparr>gateUserSpeaking := True\<rparr>)" by (simp_all add: fresh_def new_gate_def)
  have M: "Markers (gateConfig ?g) = (''+'', ''-'', ''~'')"
    "Markers (gateConfig (?g\<lparr>gateUserSpeaking := True\<rparr>)) = (''+'', ''-'', ''~'')"
    by (simp_all add: new_gate_def a_config_def Markers_def cmp_Or_def)
  note r = response_by_verdict [OF f(1) M(1), where n = "''llm''" and failure = None and timing = None]
  note r' = response_by_verdict [OF f(2) M(2), where n = "''llm''" and failure = None and timing = None]
  have "\<exists>h. run_alone gate_code (runText ''llm'' [''Hel'', ''lo''] None None) ?g = Some h \<and>
      said (since_then ?g h) = ''Hello'' \<and> reported_ways (since_then ?g h) = []"
    using r [of "[''Hel'', ''lo'']"] M by (simp add: unmarked_def HasPrefix_def)
  moreover have "withheld ?g (runText ''llm'' [''-'', '' I go on''] None None)"
    using r [of "[''-'', '' I go on'']"] M by (simp add: unmarked_def HasPrefix_def)
  moreover have "withheld (?g\<lparr>gateUserSpeaking := True\<rparr>) (runText ''llm'' [''+ Yes''] None None)"
    using r' [of "[''+ Yes'']"] M by (simp add: unmarked_def HasPrefix_def)
  moreover have "\<not> gateUserSpeaking ?g" by (simp add: new_gate_def)
  ultimately show ?thesis
    using r [of "[''+ Y'', ''es'']"] M by (simp add: unmarked_def HasPrefix_def TrimPrefix_def)
qed

text \<open>
  The latch and the hearing of the user as an observer of the trace follows them; \<open>None\<close> once a completion
  was voiced over another, or while the user was speaking.
\<close>

fun watch :: "bool \<times> bool \<Rightarrow> gate_event list \<Rightarrow> (bool \<times> bool) option" where
  "watch vs [] = Some vs"
| "watch (v, s) (CompleteVerdict # es) = (if v \<or> s then None else watch (True, s) es)"
| "watch (v, s) (VoicedCleared # es) = watch (False, s) es"
| "watch (v, s) (SpeakingSet b # es) = watch (v, b) es"
| "watch vs (Sent f d # es) = watch vs es"

lemma watch_append: "watch vs (xs @ ys) = Option.bind (watch vs xs) (\<lambda>ws. watch ws ys)"
  by (induction vs xs rule: watch.induct) simp_all

definition watched :: "turn_gate \<Rightarrow> bool" where
  "watched g \<longleftrightarrow> watch (False, False) (trace g) = Some (voiced g, gateUserSpeaking g)"

lemma pushTurnText_watched: "watched g \<Longrightarrow> watched (fst (pushTurnText t g))"
  by (cases "marker g") (auto simp: watched_def pushTurnText_def suppressStaleCompletion_def log_event_def
      watch_append Let_def split: prod.split)

interpretation gate_watch: interleaved gate_code watched "\<lambda>g a. True"
proof
  fix g a
  assume "watched g"
  then show "watched (fst (gate_code a g))"
    using pushTurnText_watched [of g]
    by (cases a) (auto simp: watched_def watch_append log_event_def turnReset_def broadcastTurnCompletion_def
        set_reprompt_def Let_def)
qed (simp_all add: list_all_iff)

lemma watch_latched:
  assumes "watch (True, s) (xs @ CompleteVerdict # ys) \<noteq> None"
  shows "VoicedCleared \<in> set xs"
  using assms
proof (induction xs arbitrary: s)
  case (Cons e xs)
  then show ?case by (cases e) (auto split: if_splits)
qed simp

text \<open>Whether the user is heard after a trace.\<close>

definition user_heard :: "gate_event list \<Rightarrow> bool" where
  "user_heard es = fold (\<lambda>e h. case e of SpeakingSet b \<Rightarrow> b | _ \<Rightarrow> h) es False"

lemma watch_heard: "watch (v, s) es = Some (v', s') \<Longrightarrow> s' = fold (\<lambda>e h. case e of SpeakingSet b \<Rightarrow> b | _ \<Rightarrow> h) es s"
  by (induction "(v, s)" es arbitrary: v s rule: watch.induct) (auto split: if_splits)

text \<open>
  C25. The bot answers a turn once, and not over the user. Over every interleaving of any number of calls into the
  gate (responses streamed, frames handled and pushed, tool calls announced, re-prompts firing, settings changed,
  the session ending), between two complete verdicts that are voiced the latch has been cleared, and no
  complete verdict is voiced while the user is heard.
\<close>

theorem one_completion_voiced:
  assumes "trace (fst (sched_run gate_code es (new_gate n on c, []))) = xs @ CompleteVerdict # ys"
  shows "\<not> user_heard xs \<and> (\<forall>us vs. ys = us @ CompleteVerdict # vs \<longrightarrow> VoicedCleared \<in> set us)"
proof -
  let ?g = "fst (sched_run gate_code es (new_gate n on c, []))"
  have "watched ?g"
    using gate_watch.start_good [of "new_gate n on c" es]
    by (simp add: watched_def new_gate_def list_all_iff)
  then have w: "watch (False, False) (xs @ CompleteVerdict # ys) \<noteq> None" by (simp add: watched_def assms)
  then obtain v s where vs: "watch (False, False) xs = Some (v, s)"
    by (cases "watch (False, False) xs") (auto simp: watch_append)
  with w have "\<not> s" and latched: "watch (True, s) ys \<noteq> None"
    by (auto simp: watch_append split: if_splits)
  with watch_heard [OF vs] watch_latched [of s] show ?thesis by (auto simp: user_heard_def)
qed

definition answered_twice :: "gate_act sched list" where
  "answered_twice =
    [Spawn (runText ''llm'' [''+''] None None)] @ replicate 15 (Run 0) @
    [Spawn [GCheck (Sys UserStartedSpeakingFrame)], Run 1, Run 1, Spawn (runText ''llm'' [''+''] None None)] @
    replicate 15 (Run 2)"

definition one_answer :: "gate_event list" where
  "one_answer =
    [Sent (Trn UserTurnInferenceCompletedFrame) Downstream, Sent (Trn UserTurnInferenceCompletedFrame) Upstream,
     Sent (Trn (LLMMarkerFrame ''+'' False)) Downstream, Sent (Ctl (LLMFullResponseEndFrame None)) Downstream]"

theorem one_completion_voiced_witness:
  "trace (fst (sched_run gate_code answered_twice (new_gate ''llm'' True a_config, []))) =
      [Sent (Ctl (LLMFullResponseStartFrame None)) Downstream] @ CompleteVerdict #
      (one_answer @ [VoicedCleared, Sent (Ctl (LLMFullResponseStartFrame None)) Downstream]) @
      CompleteVerdict # one_answer \<and>
    \<not> user_heard [Sent (Ctl (LLMFullResponseStartFrame None)) Downstream] \<and>
    VoicedCleared \<in> set (one_answer @ [VoicedCleared, Sent (Ctl (LLMFullResponseStartFrame None)) Downstream])"
proof -
  have t: "trace (fst (sched_run gate_code answered_twice (new_gate ''llm'' True a_config, []))) =
      [Sent (Ctl (LLMFullResponseStartFrame None)) Downstream] @ CompleteVerdict #
      (one_answer @ [VoicedCleared, Sent (Ctl (LLMFullResponseStartFrame None)) Downstream]) @
      CompleteVerdict # one_answer"
    by code_simp
  from one_completion_voiced [OF t] t show ?thesis by blast
qed

section \<open>The re-prompt\<close>

definition live :: "turn_gate \<Rightarrow> nat \<Rightarrow> bool" where
  "live g i \<longleftrightarrow> i < length (reprompts g) \<and> rpPhase (reprompts g ! i) = Pending \<and> \<not> rpCancelled (reprompts g ! i)"

fun disarms :: "gate_act \<Rightarrow> bool" where
  "disarms (GCheck (Trn (VADUserStartedSpeakingFrame a b))) = True"
| "disarms (GCheck (Sys InterruptionFrame)) = True"
| "disarms (GPush (Ctl (LLMFullResponseStartFrame sk)) d) = True"
| "disarms _ = False"

lemma reprompt_fires:
  assumes "live g i" and "buffer g = []"
  shows "\<exists>h. run_alone gate_code [GTimer i, GFire i, GFire i] g = Some h \<and>
      sent_frames (since_then g h) =
        [(Trn (LLMMessagesAppendFrame
            [text_message RoleDeveloper (config_prompt (gateConfig g) (rpKind (reprompts g ! i)))] False), Downstream),
         (Llm LLMRunFrame, Downstream)] \<and>
      armed h = None"
  using assms
  by (simp add: live_def set_reprompt_def turnReset_def log_event_def since_then_def armed_def)

lemma disarmed_stays:
  assumes "i < length (reprompts g)" and "rpCancelled (reprompts g ! i)"
  shows "\<exists>k. run_alone gate_code [GWake i, GTimer i, GFire i] g = Some k \<and> trace k = trace g"
  using assms by (simp add: set_reprompt_def)

lemma disarm_cancels:
  assumes "live g i" and "cancelTimeout g = Some i"
  shows "i < length (reprompts (disarm g))" and "rpCancelled (reprompts (disarm g) ! i)"
    and "cancelTimeout (disarm g) = None"
  using assms by (simp_all add: live_def disarm_def set_reprompt_def)

lemma disarming:
  assumes "live g i" and "cancelTimeout g = Some i" and "gateEnabled g" and "disarms x"
  shows "\<exists>h. run_alone gate_code [x] g = Some h \<and> reprompts h = reprompts (disarm g) \<and> cancelTimeout h = None"
  using assms(4)
proof (rule disarms.elims(2))
  fix a b
  assume "x = GCheck (Trn (VADUserStartedSpeakingFrame a b))"
  then show ?thesis using assms(1-3) by (simp add: log_event_def disarm_def set_reprompt_def live_def)
next
  assume "x = GCheck (Sys InterruptionFrame)"
  then show ?thesis using assms(1-3) disarm_cancels(3) [OF assms(1,2)]
    by (simp add: log_event_def turnReset_def Let_def)
next
  fix sk d
  assume "x = GPush (Ctl (LLMFullResponseStartFrame sk)) d"
  then show ?thesis using assms(1-3) disarm_cancels(3) [OF assms(1,2)] by (simp add: log_event_def)
qed

lemma reprompt_disarmed:
  assumes "live g i" and "cancelTimeout g = Some i" and "gateEnabled g" and "disarms x"
  shows "\<exists>h k. run_alone gate_code [x] g = Some h \<and> armed h = None \<and>
    run_alone gate_code [GWake i, GTimer i, GFire i] h = Some k \<and> trace k = trace h"
proof -
  obtain h where h: "run_alone gate_code [x] g = Some h" "reprompts h = reprompts (disarm g)" "cancelTimeout h = None"
    using disarming [OF assms] by blast
  moreover have "\<exists>k. run_alone gate_code [GWake i, GTimer i, GFire i] h = Some k \<and> trace k = trace h"
    using disarmed_stays [of i h] disarm_cancels [OF assms(1,2)] h(2) by simp
  ultimately show ?thesis by (auto simp: armed_def)
qed

text \<open>
  A user who falls silent is prompted once, and one who goes on is not. With a re-prompt armed and nothing of
  a response withheld, its timer running out makes the gate append the prompt for its kind to the conversation
  and ask the model to run, once, and send nothing else. If before that the user is heard again, an interruption
  arrives or a new response starts, it is disarmed; its goroutine, woken by that, ends, and the timer running
  out later sends nothing.
\<close>

lemma reprompt_once:
  assumes "live g i" and "cancelTimeout g = Some i" and "gateEnabled g" and "buffer g = []" and "disarms x"
  shows "(\<exists>h. run_alone gate_code [GTimer i, GFire i, GFire i] g = Some h \<and>
      sent_frames (since_then g h) =
        [(Trn (LLMMessagesAppendFrame
            [text_message RoleDeveloper (config_prompt (gateConfig g) (rpKind (reprompts g ! i)))] False), Downstream),
         (Llm LLMRunFrame, Downstream)] \<and>
      armed h = None) \<and>
    (\<exists>h k. run_alone gate_code [x] g = Some h \<and> armed h = None \<and>
      run_alone gate_code [GWake i, GTimer i, GFire i] h = Some k \<and> trace k = trace h)"
  using assms reprompt_fires reprompt_disarmed by blast

definition waiting_gate :: turn_gate where
  "waiting_gate = (new_gate ''llm'' True a_config)\<lparr>cancelTimeout := Some 0,
    reprompts := [\<lparr>rpKind = IncompleteShort, rpTimeout = defaultIncompleteShortTimeout, rpPhase = Pending,
                   rpCancelled = False\<rparr>]\<rparr>"

lemma reprompt_once_witness:
  "(\<exists>h. run_alone gate_code [GTimer 0, GFire 0, GFire 0] waiting_gate = Some h \<and>
      sent_frames (since_then waiting_gate h) =
        [(Trn (LLMMessagesAppendFrame [text_message RoleDeveloper ''short''] False), Downstream),
         (Llm LLMRunFrame, Downstream)] \<and>
      armed h = None) \<and>
    (\<exists>h k. run_alone gate_code [GCheck (Sys InterruptionFrame)] waiting_gate = Some h \<and> armed h = None \<and>
      run_alone gate_code [GWake 0, GTimer 0, GFire 0] h = Some k \<and> trace k = trace h)"
proof -
  have "live waiting_gate 0" "cancelTimeout waiting_gate = Some 0" "gateEnabled waiting_gate"
    "buffer waiting_gate = []"
    "config_prompt (gateConfig waiting_gate) (rpKind (reprompts waiting_gate ! 0)) = ''short''"
    by (simp_all add: waiting_gate_def live_def new_gate_def a_config_def ShortPrompt_def)
  with reprompt_once [of waiting_gate 0 "GCheck (Sys InterruptionFrame)"] show ?thesis by simp
qed

section \<open>Where the code departs from what it means to do\<close>

text \<open>
  A complete answer that mentions an incomplete marker later on is spoken when the marker comes in a piece of its
  own and withheld when it comes in the first piece.
\<close>

lemma pieces_change_the_verdict:
  "map_option (\<lambda>h. (said (trace h), armed h))
      (run_alone gate_code (runText ''llm'' [''+'', ''1 - 1''] None None) (new_gate ''llm'' True a_config)) =
     Some (''1 - 1'', None)"
  "map_option (\<lambda>h. (said (trace h), armed h))
      (run_alone gate_code (runText ''llm'' [''+1 - 1''] None None) (new_gate ''llm'' True a_config)) =
     Some ([], Some IncompleteShort)"
  by code_simp+

text \<open>
  A model that goes on after an incomplete marker stays suppressed only until the re-prompt fires: it resets the
  verdict, and what the model still streams is spoken at the end of the response.
\<close>

lemma disobedient_answer_spoken:
  "map_option (\<lambda>h. said (trace h)) (in_turn gate_code
      [[GPush (Ctl (LLMFullResponseStartFrame None)) Downstream, GText ''-''], [GTimer 0, GFire 0],
       [GText ''and more'', GPush (Ctl (LLMFullResponseEndFrame None)) Downstream]]
      (new_gate ''llm'' True a_config)) = Some ''and more''"
  by code_simp

text \<open>
  The user is heard again while a re-prompt is being armed: there is nothing to disarm yet, and the re-prompt is
  armed behind it and fires while the user is speaking.
\<close>

definition armed_behind :: "gate_act sched list" where
  "armed_behind =
    [Spawn [GTurnText ''-''], Run 0, Run 0, Run 0, Run 0, Run 0,
     Spawn [GCheck (Trn (VADUserStartedSpeakingFrame 0 0))], Run 1, Run 1, Run 1, Run 1,
     Run 0, Run 0, Run 0, Spawn [GTimer 0, GFire 0], Run 2, Run 2, Run 2, Run 2, Run 2, Run 2, Run 2, Run 2]"

lemma reprompt_over_speaker:
  "let g = fst (sched_run gate_code armed_behind (new_gate ''llm'' True a_config, []))
   in gateUserSpeaking g \<and> (Llm LLMRunFrame, Downstream) \<in> set (sent_frames (trace g))"
  by code_simp

end
