(* ===== verification/Tool_Registry.thy ===== *)
theory Tool_Registry
  imports Go_Strings Frames "HOL-Library.AList"
begin

text \<open>
  The tools of an LLM service: the registry of handlers (service/llm/llm.go, registry.go), the cancel tools the
  service offers beside the tools the model may cancel (asynctool.go), the resources tools work through
  (toolcleanup.go) and the system instruction composed from all of it (system.go).

  Each operation is one step on the record: they run one after the other. A Go map is an association list with
  distinct keys; nothing here depends on the order it is ranged over in. A handler, a resource and a schema are
  values the registry only stores and compares.
\<close>

section \<open>State\<close>

datatype handler = AppHandler opaque | CancelToolHandler | MissingFunctionHandler

text \<open>A resource; one whose type is not comparable is equal to nothing, not even itself.\<close>

datatype cleanup = Comparable opaque | Incomparable opaque

record registryItem =
  riName :: string
  riHandler :: handler
  riCancelOnInterruption :: bool
  riTimeout :: duration
  riCancellableByLLM :: bool
  riFromToolset :: bool
  riCleanup :: "cleanup option"

record registry =
  handlers :: "(string \<times> registryItem) list"
  cancelTools :: "string list"
  warnedCancelCollisions :: "string list"
  asyncToolCancellation :: bool
  cleanups :: "cleanup list"
  hasAdapter :: bool
  builtinOrder :: "string list"
  baseSystemInstruction :: string
  appendedSystemInstructions :: "string list"
  systemInstruction :: string

definition lookup_handler :: "string \<Rightarrow> registry \<Rightarrow> registryItem option" where
  "lookup_handler n r = map_of (handlers r) n"

abbreviation catchAllFunction :: string where
  "catchAllFunction \<equiv> []"

section \<open>The system instruction (system.go)\<close>

definition asyncToolCancellationInstructions :: string where
  "asyncToolCancellationInstructions = Join [CHR 0x0A] [
    ''ASYNC TOOL CANCELLATION:'',
    ''Some of your tools keep running in the background after you have replied, and some of those can be stopped early.'',
    [],
    ''Work that can be stopped early has its own cancel tool, named for it: a running write_report call is stopped by cancel_write_report. Work with no such tool cannot be stopped and will finish on its own.'',
    [],
    ''When the user no longer wants a result you are still waiting on, call the corresponding cancel tool. Only the call stops the work: saying you canceled it, or that you will skip it, leaves it running and its result will still arrive and contradict you. So when the same turn also asks for something else, make the call and answer, rather than just answering.'',
    [],
    ''Call the cancel tool with no arguments and it stops the one call that is running. If several calls of that same tool are running, it needs a tool_call_id to say which. Each call's id is already in the conversation: find the tool message that reported it running, which carries \"status\": \"running\", its \"tool_call_id\", and the arguments that call was given. Copy that id exactly as written; never invent or guess one.'']"

definition AsyncToolInstructions :: string where
  "AsyncToolInstructions = Join [CHR 0x0A] [
    ''ASYNC TOOLS:'',
    ''Some of your tools keep running after you have replied. Their results arrive later as messages in the conversation, on whatever turn happens to be in progress by then.'',
    [],
    ''A result that has arrived is owed to the user, whatever the conversation has moved on to. Answer what the user just said first, then add the result at the end of that same reply: never before your answer, and never as a reply of its own. State a short result outright; for a long one, say what came back and offer the details. Say it once, and do not repeat it in later replies.'']"

definition hasAsyncTools :: "registry \<Rightarrow> bool" where
  "hasAsyncTools r \<longleftrightarrow> list_ex (\<lambda>(n, item). \<not> riCancelOnInterruption item) (handlers r)"

text \<open>\<open>protocol\<close> is the marker protocol while turn-completion gating is on.\<close>

definition instruction_parts :: "string option \<Rightarrow> registry \<Rightarrow> string list" where
  "instruction_parts protocol r =
    (if baseSystemInstruction r \<noteq> [] then [baseSystemInstruction r] else []) @
    filter (\<lambda>p. p \<noteq> []) (appendedSystemInstructions r) @
    (case protocol of None \<Rightarrow> [] | Some p \<Rightarrow> [p]) @
    (if cancelTools r \<noteq> [] then [asyncToolCancellationInstructions] else []) @
    (if hasAsyncTools r then [AsyncToolInstructions] else [])"

definition composeSystemInstruction :: "string option \<Rightarrow> registry \<Rightarrow> registry" where
  "composeSystemInstruction protocol r =
    r\<lparr>systemInstruction := Join [CHR 0x0A, CHR 0x0A] (instruction_parts protocol r)\<rparr>"

definition SetSystemInstruction :: "string option \<Rightarrow> string \<Rightarrow> registry \<Rightarrow> registry" where
  "SetSystemInstruction protocol t r = composeSystemInstruction protocol (r\<lparr>baseSystemInstruction := t\<rparr>)"

definition AppendSystemInstruction :: "string option \<Rightarrow> string \<Rightarrow> registry \<Rightarrow> registry" where
  "AppendSystemInstruction protocol t r =
    composeSystemInstruction protocol (r\<lparr>appendedSystemInstructions := appendedSystemInstructions r @ [t]\<rparr>)"

section \<open>Cancel tools (asynctool.go)\<close>

definition CancelToolPrefix :: string where
  "CancelToolPrefix = ''cancel_''"

definition CancelToolName :: "string \<Rightarrow> string" where
  "CancelToolName n = CancelToolPrefix @ n"

definition isCancelTool :: "string \<Rightarrow> registry \<Rightarrow> bool" where
  "isCancelTool n r \<longleftrightarrow> n \<in> set (cancelTools r)"

definition resolveCancellableByLLM :: "registryItem \<Rightarrow> registryItem" where
  "resolveCancellableByLLM item =
    (if \<not> riCancellableByLLM item \<or> \<not> riCancelOnInterruption item then item
     else item\<lparr>riCancellableByLLM := False\<rparr>)"

definition isCancellable :: "registry \<Rightarrow> registryItem \<Rightarrow> bool" where
  "isCancellable r item \<longleftrightarrow>
    riCancellableByLLM item \<or> asyncToolCancellation r \<and> \<not> riCancelOnInterruption item"

definition wantedCancelToolsLocked :: "registry \<Rightarrow> (string \<times> string) list" where
  "wantedCancelToolsLocked r =
    map (\<lambda>(n, item). (CancelToolName n, n))
      (filter (\<lambda>(n, item). \<not> (n = catchAllFunction \<or> n \<in> set (cancelTools r)) \<and> isCancellable r item) (handlers r))"

definition withdrawCancelToolsLocked :: "(string \<times> string) list \<Rightarrow> registry \<Rightarrow> registry \<times> string list" where
  "withdrawCancelToolsLocked wanted r =
    (let stale = filter (\<lambda>n. n \<notin> set (map fst wanted)) (cancelTools r)
     in (r\<lparr>handlers := filter (\<lambda>(n, item). n \<notin> set stale) (handlers r),
          cancelTools := filter (\<lambda>n. n \<notin> set stale) (cancelTools r)\<rparr>, stale))"

definition warnCancelCollisionLocked :: "string \<Rightarrow> registry \<Rightarrow> registry" where
  "warnCancelCollisionLocked n r = r\<lparr>warnedCancelCollisions := List.insert n (warnedCancelCollisions r)\<rparr>"

definition cancel_item :: "string \<Rightarrow> registryItem" where
  "cancel_item n = \<lparr>riName = n, riHandler = CancelToolHandler, riCancelOnInterruption = True, riTimeout = 0,
    riCancellableByLLM = False, riFromToolset = False, riCleanup = None\<rparr>"

fun addCancelToolsLocked :: "(string \<times> string) list \<Rightarrow> registry \<Rightarrow> registry \<times> string list" where
  "addCancelToolsLocked [] r = (r, [])"
| "addCancelToolsLocked ((n, target) # ws) r =
    (if n \<in> set (cancelTools r) then addCancelToolsLocked ws r
     else if lookup_handler n r \<noteq> None then addCancelToolsLocked ws (warnCancelCollisionLocked n r)
     else case addCancelToolsLocked ws
         (r\<lparr>handlers := AList.update n (cancel_item n) (handlers r), cancelTools := cancelTools r @ [n]\<rparr>)
       of (r', added) \<Rightarrow> (r', n # added))"

text \<open>The adapter's own bookkeeping (adapter/adapter.go): the names of the tools it adds to every request.\<close>

definition SetBuiltin :: "string \<Rightarrow> string list \<Rightarrow> string list" where
  "SetBuiltin n bs = (if n \<in> set bs then bs else bs @ [n])"

definition RemoveBuiltin :: "string \<Rightarrow> string list \<Rightarrow> string list" where
  "RemoveBuiltin n bs = filter (\<lambda>b. b \<noteq> n) bs"

definition applyCancelTools :: "string list \<Rightarrow> string list \<Rightarrow> registry \<Rightarrow> registry" where
  "applyCancelTools active withdrawn r =
    (if hasAdapter r
     then r\<lparr>builtinOrder := fold SetBuiltin active (fold RemoveBuiltin withdrawn (builtinOrder r))\<rparr> else r)"

definition syncCancelTools :: "string option \<Rightarrow> registry \<Rightarrow> registry" where
  "syncCancelTools protocol r =
    (let wanted = wantedCancelToolsLocked r;
         (r, withdrawn) = withdrawCancelToolsLocked wanted r;
         (r, added) = addCancelToolsLocked wanted r
     in if withdrawn = [] \<and> added = [] then r
        else composeSystemInstruction protocol (applyCancelTools (cancelTools r) withdrawn r))"

section \<open>Resources (toolcleanup.go)\<close>

fun sameCleanup :: "cleanup \<Rightarrow> cleanup \<Rightarrow> bool" where
  "sameCleanup (Comparable a) (Comparable b) = (a = b)"
| "sameCleanup _ _ = False"

definition recordToolCleanup :: "cleanup option \<Rightarrow> registry \<Rightarrow> registry" where
  "recordToolCleanup c r =
    (case c of
       None \<Rightarrow> r
     | Some c \<Rightarrow> if list_ex (\<lambda>e. sameCleanup e c) (cleanups r) then r else r\<lparr>cleanups := cleanups r @ [c]\<rparr>)"

text \<open>\<open>runToolCleanups\<close>: what is released, in order; a failure stops none of the others.\<close>

definition runToolCleanups :: "registry \<Rightarrow> registry \<times> cleanup list" where
  "runToolCleanups r = (r\<lparr>cleanups := []\<rparr>, cleanups r)"

section \<open>Registering (llm.go, registry.go)\<close>

datatype RegisterOption =
    WithCancelOnInterruption bool
  | WithTimeout duration
  | WithCancellableByLLM bool
  | WithToolCleanup cleanup

fun apply_option :: "RegisterOption \<Rightarrow> registryItem \<Rightarrow> registryItem" where
  "apply_option (WithCancelOnInterruption b) i = i\<lparr>riCancelOnInterruption := b\<rparr>"
| "apply_option (WithTimeout d) i = i\<lparr>riTimeout := d\<rparr>"
| "apply_option (WithCancellableByLLM b) i = i\<lparr>riCancellableByLLM := b\<rparr>"
| "apply_option (WithToolCleanup c) i = i\<lparr>riCleanup := Some c\<rparr>"

definition new_item :: "string \<Rightarrow> opaque \<Rightarrow> RegisterOption list \<Rightarrow> registryItem" where
  "new_item n h opts = resolveCancellableByLLM (fold apply_option opts
    \<lparr>riName = n, riHandler = AppHandler h, riCancelOnInterruption = True, riTimeout = 0,
     riCancellableByLLM = False, riFromToolset = False, riCleanup = None\<rparr>)"

definition RegisterFunction :: "string option \<Rightarrow> string \<Rightarrow> opaque \<Rightarrow> RegisterOption list \<Rightarrow> registry \<Rightarrow> registry" where
  "RegisterFunction protocol n h opts r =
    (if isCancelTool n r then r
     else
       let item = new_item n h opts;
           r = recordToolCleanup (riCleanup item) r
       in syncCancelTools protocol (r\<lparr>handlers := AList.update n item (handlers r)\<rparr>))"

definition UnregisterFunction :: "string option \<Rightarrow> string \<Rightarrow> registry \<Rightarrow> registry \<times> bool" where
  "UnregisterFunction protocol n r =
    (syncCancelTools protocol (r\<lparr>handlers := AList.delete n (handlers r)\<rparr>), lookup_handler n r \<noteq> None)"

definition HasFunction :: "string \<Rightarrow> registry \<Rightarrow> bool" where
  "HasFunction n r \<longleftrightarrow> lookup_handler n r \<noteq> None \<or> lookup_handler catchAllFunction r \<noteq> None"

definition lookupFunction :: "string \<Rightarrow> registry \<Rightarrow> registryItem option" where
  "lookupFunction n r =
    (case (case lookup_handler n r of None \<Rightarrow> lookup_handler catchAllFunction r | Some i \<Rightarrow> Some i) of
       None \<Rightarrow> None
     | Some item \<Rightarrow> Some (item\<lparr>riName := n\<rparr>))"

text \<open>What the service reads of an advertised tool. A handler or a resource of the wrong type is refused.\<close>

record advertised_tool =
  atName :: string
  atHandler :: "opaque option option"
  atCancelOnInterruption :: "bool option"
  atTimeout :: "duration option"
  atCancellableByLLM :: "bool option"
  atCleanup :: "cleanup option option"

definition toolCallOptions :: "advertised_tool \<Rightarrow> RegisterOption list" where
  "toolCallOptions t =
    (case atCancelOnInterruption t of None \<Rightarrow> [] | Some b \<Rightarrow> [WithCancelOnInterruption b]) @
    (case atTimeout t of None \<Rightarrow> [] | Some d \<Rightarrow> [WithTimeout d]) @
    (case atCancellableByLLM t of None \<Rightarrow> [] | Some b \<Rightarrow> [WithCancellableByLLM b]) @
    (case atCleanup t of Some (Some c) \<Rightarrow> [WithToolCleanup c] | _ \<Rightarrow> [])"

definition registerToolHandler :: "string option \<Rightarrow> advertised_tool \<Rightarrow> registry \<Rightarrow> registry" where
  "registerToolHandler protocol t r =
    (if lookup_handler (atName t) r \<noteq> None then r
     else case atHandler t of
       Some (Some h) \<Rightarrow>
         let r = RegisterFunction protocol (atName t) h (toolCallOptions t) r
         in (case lookup_handler (atName t) r of
               None \<Rightarrow> r
             | Some item \<Rightarrow>
                 r\<lparr>handlers := AList.update (atName t) (item\<lparr>riFromToolset := True\<rparr>) (handlers r)\<rparr>)
     | _ \<Rightarrow> r)"

definition dropUnadvertisedToolHandlers :: "string option \<Rightarrow> string list \<Rightarrow> registry \<Rightarrow> registry" where
  "dropUnadvertisedToolHandlers protocol advertised r =
    (let keep = filter (\<lambda>(n, item). \<not> (riFromToolset item \<and> n \<notin> set advertised)) (handlers r)
     in if keep = handlers r then r else syncCancelTools protocol (r\<lparr>handlers := keep\<rparr>))"

definition SyncToolHandlers :: "string option \<Rightarrow> advertised_tool list \<Rightarrow> registry \<Rightarrow> registry" where
  "SyncToolHandlers protocol tools r =
    (let carried = filter (\<lambda>t. atHandler t \<noteq> None) tools
     in dropUnadvertisedToolHandlers protocol (map atName carried) (fold (registerToolHandler protocol) carried r))"

section \<open>Cancel tools stay in line with the tools they cancel\<close>

lemma map_of_filter_key: "map_of (filter (\<lambda>(k, v). P k) xs) k = (if P k then map_of xs k else None)"
  by (induction xs) auto

lemma CancelToolName_inject [simp]: "CancelToolName a = CancelToolName b \<longleftrightarrow> a = b"
  by (simp add: CancelToolName_def)

text \<open>What adding does: the names that nothing claims yet become cancel tools.\<close>

definition to_add :: "(string \<times> string) list \<Rightarrow> registry \<Rightarrow> string set" where
  "to_add ws r = {n \<in> fst ` set ws. n \<notin> set (cancelTools r) \<and> lookup_handler n r = None}"

lemma to_add_Nil [simp]: "to_add [] r = {}"
  by (simp add: to_add_def)

lemma addCancelTools:
  assumes "addCancelToolsLocked ws r = (r', added)" and "distinct (map fst (handlers r))" and "distinct (cancelTools r)"
  shows "set (cancelTools r') = set (cancelTools r) \<union> to_add ws r" (is ?A)
    and "lookup_handler n r' = (if n \<in> to_add ws r then Some (cancel_item n) else lookup_handler n r)" (is ?B)
    and "distinct (map fst (handlers r'))" (is ?C) and "distinct (cancelTools r')" (is ?D)
    and "added = [] \<Longrightarrow> to_add ws r = {}"
    and "asyncToolCancellation r' = asyncToolCancellation r" (is ?E)
    and "hasAdapter r' = hasAdapter r" (is ?F) and "builtinOrder r' = builtinOrder r" (is ?G)
    and "cleanups r' = cleanups r" (is ?H)
proof -
  have "?A \<and> ?B \<and> ?C \<and> ?D \<and> (added = [] \<longrightarrow> to_add ws r = {}) \<and> ?E \<and> ?F \<and> ?G \<and> ?H"
    using assms
  proof (induction ws r arbitrary: r' added rule: addCancelToolsLocked.induct)
    case (2 c target ws r)
    consider (known) "c \<in> set (cancelTools r)"
      | (claimed) "c \<notin> set (cancelTools r)" "lookup_handler c r \<noteq> None"
      | (new) "c \<notin> set (cancelTools r)" "lookup_handler c r = None" by blast
    then show ?case
    proof cases
      case known
      then have "to_add ((c, target) # ws) r = to_add ws r" by (auto simp: to_add_def)
      moreover have "addCancelToolsLocked ws r = (r', added)" using 2(4) known by simp
      ultimately show ?thesis using 2(1) [OF known _ 2(5,6)] by simp
    next
      case claimed
      let ?r = "warnCancelCollisionLocked c r"
      have w: "handlers ?r = handlers r" "cancelTools ?r = cancelTools r" "lookup_handler m ?r = lookup_handler m r"
        "asyncToolCancellation ?r = asyncToolCancellation r" "hasAdapter ?r = hasAdapter r"
        "builtinOrder ?r = builtinOrder r" "cleanups ?r = cleanups r" for m
        by (simp_all add: warnCancelCollisionLocked_def lookup_handler_def)
      have t: "to_add ((c, target) # ws) r = to_add ws ?r" using claimed w by (auto simp: to_add_def)
      have "addCancelToolsLocked ws ?r = (r', added)" using 2(4) claimed by simp
      from 2(2) [OF claimed this] 2(5,6) show ?thesis by (simp only: w t) simp
    next
      case new
      let ?r = "r\<lparr>handlers := AList.update c (cancel_item c) (handlers r), cancelTools := cancelTools r @ [c]\<rparr>"
      obtain as where as: "addCancelToolsLocked ws ?r = (r', as)" "added = c # as"
        using 2(4) new by (auto split: prod.splits)
      have l: "lookup_handler m ?r = (if m = c then Some (cancel_item c) else lookup_handler m r)" for m
        by (simp add: lookup_handler_def update_conv')
      have t: "to_add ((c, target) # ws) r = insert c (to_add ws ?r)" "c \<notin> to_add ws ?r"
        using new l by (auto simp: to_add_def split: if_splits)
      have d: "distinct (map fst (handlers ?r))" "distinct (cancelTools ?r)"
        using 2(5,6) new by (simp_all add: distinct_update)
      have n: "\<not> lookup_handler c r \<noteq> None" using new by simp
      from 2(3) [OF new(1) n as(1) d] show ?thesis by (simp add: t l as(2))
    qed
  qed simp
  then show ?A ?B ?C ?D "added = [] \<Longrightarrow> to_add ws r = {}" ?E ?F ?G ?H by blast+
qed

definition reg_ok :: "registry \<Rightarrow> bool" where
  "reg_ok r \<longleftrightarrow> distinct (map fst (handlers r)) \<and> distinct (cancelTools r) \<and>
    (\<forall>c\<in>set (cancelTools r). lookup_handler c r = Some (cancel_item c) \<and> (\<exists>n. c = CancelToolName n)) \<and>
    (hasAdapter r \<longrightarrow> set (builtinOrder r) = set (cancelTools r))"

definition offered :: "registry \<Rightarrow> string \<Rightarrow> bool" where
  "offered r n \<longleftrightarrow> n \<noteq> [] \<and> (\<exists>item. lookup_handler n r = Some item \<and> isCancellable r item) \<and>
    (lookup_handler (CancelToolName n) r = None \<or> CancelToolName n \<in> set (cancelTools r))"

definition in_line :: "registry \<Rightarrow> bool" where
  "in_line r \<longleftrightarrow> (\<forall>n. CancelToolName n \<in> set (cancelTools r) \<longleftrightarrow> offered r n)"

lemma cancel_item_not_cancellable [simp]: "\<not> isCancellable r (cancel_item c)"
  by (simp add: isCancellable_def cancel_item_def)

lemma wanted_names:
  assumes "reg_ok r"
  shows "fst ` set (wantedCancelToolsLocked r) =
    {CancelToolName n |n. n \<noteq> [] \<and> (\<exists>item. lookup_handler n r = Some item \<and> isCancellable r item)}"
proof -
  have d: "distinct (map fst (handlers r))" using assms by (simp add: reg_ok_def)
  have m: "(n, item) \<in> set (handlers r) \<longleftrightarrow> lookup_handler n r = Some item" for n item
    using d by (simp add: lookup_handler_def)
  have c: "lookup_handler n r = Some item \<Longrightarrow> isCancellable r item \<Longrightarrow> n \<notin> set (cancelTools r)" for n item
    using assms by (auto simp: reg_ok_def)
  show ?thesis
  proof (intro equalityI subsetI)
    fix x
    assume "x \<in> fst ` set (wantedCancelToolsLocked r)"
    then show "x \<in> {CancelToolName n |n. n \<noteq> [] \<and> (\<exists>item. lookup_handler n r = Some item \<and> isCancellable r item)}"
      by (auto simp: wantedCancelToolsLocked_def m)
  next
    fix x
    assume "x \<in> {CancelToolName n |n. n \<noteq> [] \<and> (\<exists>item. lookup_handler n r = Some item \<and> isCancellable r item)}"
    then obtain n item where x: "x = CancelToolName n" "n \<noteq> []" "lookup_handler n r = Some item" "isCancellable r item"
      by blast
    then have "(n, item) \<in> set (handlers r)" "n \<notin> set (cancelTools r)" using m c by auto
    with x show "x \<in> fst ` set (wantedCancelToolsLocked r)"
      by (force simp: wantedCancelToolsLocked_def image_iff)
  qed
qed

lemma fold_SetBuiltin: "set (fold SetBuiltin ns bs) = set ns \<union> set bs"
  by (induction ns arbitrary: bs) (auto simp: SetBuiltin_def)

lemma fold_RemoveBuiltin: "set (fold RemoveBuiltin ns bs) = set bs - set ns"
  by (induction ns arbitrary: bs) (auto simp: RemoveBuiltin_def)

text \<open>The cancel tools after a sync, and every handler after it.\<close>

definition kept_names :: "registry \<Rightarrow> string set" where
  "kept_names r = {c \<in> fst ` set (wantedCancelToolsLocked r). c \<in> set (cancelTools r) \<or> lookup_handler c r = None}"

lemma sync_effect:
  assumes "reg_ok r"
  shows "set (cancelTools (syncCancelTools p r)) = kept_names r" (is ?A)
    and "lookup_handler n (syncCancelTools p r) =
      (if n \<in> kept_names r then Some (cancel_item n)
       else if n \<in> set (cancelTools r) then None else lookup_handler n r)" (is ?B)
    and "distinct (map fst (handlers (syncCancelTools p r)))" (is ?C)
    and "distinct (cancelTools (syncCancelTools p r))" (is ?D)
    and "asyncToolCancellation (syncCancelTools p r) = asyncToolCancellation r" (is ?E)
    and "hasAdapter r \<Longrightarrow> set (builtinOrder (syncCancelTools p r)) = kept_names r"
    and "hasAdapter (syncCancelTools p r) = hasAdapter r" (is ?F)
    and "cleanups (syncCancelTools p r) = cleanups r" (is ?G)
proof -
  let ?W = "fst ` set (wantedCancelToolsLocked r)"
  define stale where "stale = filter (\<lambda>n. n \<notin> ?W) (cancelTools r)"
  define r1 where "r1 = r\<lparr>handlers := filter (\<lambda>(n, item). n \<notin> set stale) (handlers r),
      cancelTools := filter (\<lambda>n. n \<notin> set stale) (cancelTools r)\<rparr>"
  have w: "withdrawCancelToolsLocked (wantedCancelToolsLocked r) r = (r1, stale)"
    by (simp add: withdrawCancelToolsLocked_def Let_def r1_def stale_def)
  obtain r2 added where r2: "addCancelToolsLocked (wantedCancelToolsLocked r) r1 = (r2, added)" by fastforce
  have f1: "asyncToolCancellation r1 = asyncToolCancellation r" "hasAdapter r1 = hasAdapter r"
      "builtinOrder r1 = builtinOrder r" "cleanups r1 = cleanups r"
    by (simp_all add: r1_def)
  have l1: "lookup_handler m r1 = (if m \<in> set stale then None else lookup_handler m r)" for m
    using map_of_filter_key [of "\<lambda>n. n \<notin> set stale" "handlers r" m] by (simp add: lookup_handler_def r1_def)
  have c1: "set (cancelTools r1) = set (cancelTools r) \<inter> ?W" by (auto simp: r1_def stale_def)
  have d: "distinct (map fst (handlers r1))" "distinct (cancelTools r1)"
    using assms by (auto simp: reg_ok_def distinct_map_filter r1_def)
  note add = addCancelTools [OF r2 d]
  have add_set: "to_add (wantedCancelToolsLocked r) r1 = {c \<in> ?W. c \<notin> set (cancelTools r) \<and> lookup_handler c r = None}"
    using l1 c1 by (auto simp: to_add_def stale_def)
  have s: "syncCancelTools p r =
      (if stale = [] \<and> added = [] then r2
       else composeSystemInstruction p (applyCancelTools (cancelTools r2) stale r2))"
    by (simp add: syncCancelTools_def w r2 Let_def)
  have same: "handlers (syncCancelTools p r) = handlers r2" "cancelTools (syncCancelTools p r) = cancelTools r2"
    "asyncToolCancellation (syncCancelTools p r) = asyncToolCancellation r2"
    "hasAdapter (syncCancelTools p r) = hasAdapter r2" "cleanups (syncCancelTools p r) = cleanups r2"
    by (simp_all add: s composeSystemInstruction_def applyCancelTools_def)
  show ?A using add(1) c1 add_set by (auto simp: same kept_names_def)
  have "lookup_handler n r2 =
      (if n \<in> kept_names r then Some (cancel_item n)
       else if n \<in> set (cancelTools r) then None else lookup_handler n r)"
    using add(2) [of n] l1 [of n] add_set assms by (auto simp: kept_names_def reg_ok_def stale_def)
  then show ?B by (simp add: lookup_handler_def same)
  show ?C ?D ?E ?F ?G using add(3,4,6,7,9) f1 by (simp_all add: same)
  assume a: "hasAdapter r"
  show "set (builtinOrder (syncCancelTools p r)) = kept_names r"
  proof (cases "stale = [] \<and> added = []")
    case True
    then have "set (cancelTools r2) = set (cancelTools r)" using add(1,5) c1 by (auto simp: filter_empty_conv stale_def)
    then show ?thesis using True a assms add(8) f1 \<open>?A\<close> same(2) s by (auto simp: reg_ok_def)
  next
    case False
    have "set (builtinOrder r2) = set (cancelTools r)" using add(8) f1 a assms by (simp add: reg_ok_def)
    then show ?thesis
      using False a s add(7) f1 \<open>?A\<close> same(2) c1 add(1)
      by (auto simp: stale_def composeSystemInstruction_def applyCancelTools_def fold_SetBuiltin fold_RemoveBuiltin)
  qed
qed

lemma kept_cancellable:
  assumes "reg_ok r" and "lookup_handler n r = Some item" and "n \<notin> set (cancelTools r)"
  shows "n \<notin> kept_names r"
  using assms by (auto simp: kept_names_def)

lemma sync_keeps_handler:
  assumes "reg_ok r" and "lookup_handler n r = Some item" and "n \<notin> set (cancelTools r)"
  shows "lookup_handler n (syncCancelTools p r) = Some item" and "n \<notin> set (cancelTools (syncCancelTools p r))"
  using sync_effect(1,2) [OF assms(1)] assms kept_cancellable [OF assms] by auto

lemma kept_cancel_names: "reg_ok r \<Longrightarrow> c \<in> kept_names r \<Longrightarrow> \<exists>n. c = CancelToolName n"
  by (auto simp: kept_names_def wanted_names)

lemma sync_ok: "reg_ok r \<Longrightarrow> reg_ok (syncCancelTools p r)"
  using sync_effect [of r] kept_cancel_names [of r] unfolding reg_ok_def [of "syncCancelTools p r"] by simp

lemma sync_in_line:
  assumes "reg_ok r"
  shows "in_line (syncCancelTools p r)"
  unfolding in_line_def offered_def
proof (intro allI iffI)
  fix n
  let ?r = "syncCancelTools p r"
  have cc: "isCancellable ?r item = isCancellable r item" for item
    using sync_effect(5) [OF assms, of p] by (simp add: isCancellable_def)
  have orig: "lookup_handler m r = Some item \<Longrightarrow> isCancellable r item \<Longrightarrow> m \<notin> set (cancelTools r)" for m item
    using assms by (auto simp: reg_ok_def)
  have W: "CancelToolName n \<in> fst ` set (wantedCancelToolsLocked r) \<longleftrightarrow>
      n \<noteq> [] \<and> (\<exists>item. lookup_handler n r = Some item \<and> isCancellable r item)"
    using wanted_names [OF assms] by auto
  {
    assume "CancelToolName n \<in> set (cancelTools ?r)"
    then have "CancelToolName n \<in> kept_names r" using sync_effect(1) [OF assms] by simp
    then obtain item where "n \<noteq> []" "lookup_handler n r = Some item" "isCancellable r item"
      using W by (auto simp: kept_names_def)
    then show "n \<noteq> [] \<and> (\<exists>item. lookup_handler n ?r = Some item \<and> isCancellable ?r item) \<and>
        (lookup_handler (CancelToolName n) ?r = None \<or> CancelToolName n \<in> set (cancelTools ?r))"
      using sync_keeps_handler(1) [OF assms, of n item p] orig cc \<open>CancelToolName n \<in> set (cancelTools ?r)\<close> by blast
  next
    assume o: "n \<noteq> [] \<and> (\<exists>item. lookup_handler n ?r = Some item \<and> isCancellable ?r item) \<and>
        (lookup_handler (CancelToolName n) ?r = None \<or> CancelToolName n \<in> set (cancelTools ?r))"
    then obtain item where i: "lookup_handler n ?r = Some item" "isCancellable r item" using cc by blast
    then have "lookup_handler n r = Some item"
      using sync_effect(2) [OF assms, of n p] by (auto split: if_splits)
    then have w: "CancelToolName n \<in> fst ` set (wantedCancelToolsLocked r)" using W o i(2) by blast
    show "CancelToolName n \<in> set (cancelTools ?r)"
    proof (rule ccontr)
      assume no: "CancelToolName n \<notin> set (cancelTools ?r)"
      then have k: "CancelToolName n \<notin> kept_names r" using sync_effect(1) [OF assms] by simp
      then have "CancelToolName n \<notin> set (cancelTools r)" "lookup_handler (CancelToolName n) r \<noteq> None"
        using w by (auto simp: kept_names_def)
      then show False using o no sync_effect(2) [OF assms, of "CancelToolName n" p] k by simp
    qed
  }
qed

subsection \<open>Every operation keeps it\<close>

datatype reg_op =
    Register string opaque "RegisterOption list"
  | Unregister string
  | SyncTools "advertised_tool list"
  | SetSystem string
  | AppendSystem string

fun reg_step :: "string option \<Rightarrow> reg_op \<Rightarrow> registry \<Rightarrow> registry" where
  "reg_step p (Register n h opts) r = RegisterFunction p n h opts r"
| "reg_step p (Unregister n) r = fst (UnregisterFunction p n r)"
| "reg_step p (SyncTools ts) r = SyncToolHandlers p ts r"
| "reg_step p (SetSystem t) r = SetSystemInstruction p t r"
| "reg_step p (AppendSystem t) r = AppendSystemInstruction p t r"

text \<open>The application withdraws tools of its own, not the service's cancel tools.\<close>

fun own_tools :: "string option \<Rightarrow> reg_op list \<Rightarrow> registry \<Rightarrow> bool" where
  "own_tools p [] r = True"
| "own_tools p (x # xs) r =
    ((case x of Unregister n \<Rightarrow> \<not> isCancelTool n r | _ \<Rightarrow> True) \<and> own_tools p xs (reg_step p x r))"

fun reg_run :: "string option \<Rightarrow> reg_op list \<Rightarrow> registry \<Rightarrow> registry" where
  "reg_run p [] r = r"
| "reg_run p (x # xs) r = reg_run p xs (reg_step p x r)"

definition new_registry :: "bool \<Rightarrow> bool \<Rightarrow> registry" where
  "new_registry widen adapter = \<lparr>handlers = [], cancelTools = [], warnedCancelCollisions = [],
    asyncToolCancellation = widen, cleanups = [], hasAdapter = adapter, builtinOrder = [],
    baseSystemInstruction = [], appendedSystemInstructions = [], systemInstruction = []\<rparr>"

text \<open>Storing a handler under a name that is no cancel tool's, or removing one.\<close>

lemma store_ok:
  assumes "reg_ok r" and "n \<notin> set (cancelTools r)"
  shows "reg_ok (r\<lparr>handlers := AList.update n item (handlers r)\<rparr>)"
  using assms by (auto simp: reg_ok_def lookup_handler_def update_conv' distinct_update)

lemma delete_ok:
  assumes "reg_ok r" and "n \<notin> set (cancelTools r)"
  shows "reg_ok (r\<lparr>handlers := AList.delete n (handlers r)\<rparr>)"
  using assms by (auto simp: reg_ok_def lookup_handler_def delete_conv' distinct_delete)

lemma record_ok [simp]:
  "reg_ok (recordToolCleanup c r) = reg_ok r" "in_line (recordToolCleanup c r) = in_line r"
  "cancelTools (recordToolCleanup c r) = cancelTools r" "handlers (recordToolCleanup c r) = handlers r"
  by (auto simp: recordToolCleanup_def reg_ok_def in_line_def offered_def lookup_handler_def isCancellable_def
      split: option.split)

lemma RegisterFunction_ok:
  assumes "reg_ok r" and "in_line r"
  shows "reg_ok (RegisterFunction p n h opts r)" and "in_line (RegisterFunction p n h opts r)"
  using assms store_ok [of "recordToolCleanup c r" n for c]
  by (auto simp: RegisterFunction_def Let_def isCancelTool_def intro!: sync_ok sync_in_line)

lemma RegisterFunction_lookup:
  assumes "reg_ok r" and "n \<notin> set (cancelTools r)"
  shows "lookup_handler n (RegisterFunction p n h opts r) = Some (new_item n h opts)"
    and "n \<notin> set (cancelTools (RegisterFunction p n h opts r))"
proof -
  let ?r = "recordToolCleanup (riCleanup (new_item n h opts)) r"
  let ?s = "?r\<lparr>handlers := AList.update n (new_item n h opts) (handlers ?r)\<rparr>"
  have "reg_ok ?s" using store_ok [of ?r n] assms by simp
  moreover have "lookup_handler n ?s = Some (new_item n h opts)" by (simp add: lookup_handler_def update_conv')
  moreover have "n \<notin> set (cancelTools ?s)" using assms by simp
  ultimately show "lookup_handler n (RegisterFunction p n h opts r) = Some (new_item n h opts)"
    "n \<notin> set (cancelTools (RegisterFunction p n h opts r))"
    using sync_keeps_handler [of ?s n] assms(2) by (simp_all add: RegisterFunction_def isCancelTool_def Let_def)
qed

lemma mark_ok:
  assumes "reg_ok r" "in_line r" "n \<notin> set (cancelTools r)" "lookup_handler n r = Some item"
  shows "in_line (r\<lparr>handlers := AList.update n (item\<lparr>riFromToolset := True\<rparr>) (handlers r)\<rparr>)"
proof -
  let ?r = "r\<lparr>handlers := AList.update n (item\<lparr>riFromToolset := True\<rparr>) (handlers r)\<rparr>"
  have l: "lookup_handler m ?r = (if m = n then Some (item\<lparr>riFromToolset := True\<rparr>) else lookup_handler m r)" for m
    by (simp add: lookup_handler_def update_conv')
  have c: "isCancellable ?r i = isCancellable r i" "isCancellable r (item\<lparr>riFromToolset := True\<rparr>) = isCancellable r item"
    for i by (simp_all add: isCancellable_def)
  have "offered ?r m = offered r m" for m
    using assms(3,4) by (cases "m = n"; cases "CancelToolName m = n") (simp_all add: offered_def l c)
  then show ?thesis using assms(2) by (simp add: in_line_def)
qed

lemma registerToolHandler_ok:
  assumes "reg_ok r" and "in_line r"
  shows "reg_ok (registerToolHandler p t r)" and "in_line (registerToolHandler p t r)"
proof -
  consider (kept) "registerToolHandler p t r = r"
    | (stored) h where "lookup_handler (atName t) r = None" "atHandler t = Some (Some h)"
    by (cases "lookup_handler (atName t) r"; cases "atHandler t"; cases "the (atHandler t)")
      (auto simp: registerToolHandler_def)
  then have "reg_ok (registerToolHandler p t r) \<and> in_line (registerToolHandler p t r)"
  proof cases
    case kept
    then show ?thesis using assms by simp
  next
    case stored
    let ?r = "RegisterFunction p (atName t) h (toolCallOptions t) r"
    have "atName t \<notin> set (cancelTools r)" using assms(1) stored(1) by (auto simp: reg_ok_def)
    note new = RegisterFunction_lookup [OF assms(1) this, of p h "toolCallOptions t"]
    have "registerToolHandler p t r = ?r\<lparr>handlers := AList.update (atName t)
        (new_item (atName t) h (toolCallOptions t)\<lparr>riFromToolset := True\<rparr>) (handlers ?r)\<rparr>"
      using stored new(1) by (simp add: registerToolHandler_def Let_def)
    then show ?thesis
      using RegisterFunction_ok [OF assms] store_ok [of ?r "atName t"] mark_ok [of ?r "atName t"] new by simp
  qed
  then show "reg_ok (registerToolHandler p t r)" "in_line (registerToolHandler p t r)" by auto
qed

lemma register_all_ok:
  assumes "reg_ok r" and "in_line r"
  shows "reg_ok (fold (registerToolHandler p) ts r) \<and> in_line (fold (registerToolHandler p) ts r)"
  using assms by (induction ts arbitrary: r) (simp_all add: registerToolHandler_ok)

lemma map_of_filter_pair:
  assumes "distinct (map fst xs)"
  shows "map_of (filter (\<lambda>(k, v). P k v) xs) k =
    (case map_of xs k of None \<Rightarrow> None | Some v \<Rightarrow> if P k v then Some v else None)"
  using assms
proof (induction xs)
  case (Cons x xs)
  then show ?case by (cases x) (auto split: option.splits dest: map_of_SomeD intro: rev_image_eqI)
qed simp

lemma drop_keeps_ok:
  assumes "reg_ok r"
  shows "reg_ok (r\<lparr>handlers := filter (\<lambda>(n, item). \<not> (riFromToolset item \<and> n \<notin> set adv)) (handlers r)\<rparr>)"
  using assms map_of_filter_pair [of "handlers r" "\<lambda>n item. \<not> (riFromToolset item \<and> n \<notin> set adv)"]
  by (auto simp: reg_ok_def lookup_handler_def cancel_item_def distinct_map_filter)

lemma drop_ok:
  assumes "reg_ok r" and "in_line r"
  shows "reg_ok (dropUnadvertisedToolHandlers p adv r)" and "in_line (dropUnadvertisedToolHandlers p adv r)"
  using assms drop_keeps_ok [OF assms(1), of adv]
  by (auto simp: dropUnadvertisedToolHandlers_def Let_def intro!: sync_ok sync_in_line)

lemma compose_ok [simp]:
  "reg_ok (composeSystemInstruction p r) = reg_ok r" "in_line (composeSystemInstruction p r) = in_line r"
  by (simp_all add: composeSystemInstruction_def reg_ok_def in_line_def offered_def lookup_handler_def isCancellable_def)

lemma instruction_ok [simp]:
  "reg_ok (r\<lparr>baseSystemInstruction := t\<rparr>) = reg_ok r" "in_line (r\<lparr>baseSystemInstruction := t\<rparr>) = in_line r"
  "reg_ok (r\<lparr>appendedSystemInstructions := ts\<rparr>) = reg_ok r" "in_line (r\<lparr>appendedSystemInstructions := ts\<rparr>) = in_line r"
  by (simp_all add: reg_ok_def in_line_def offered_def lookup_handler_def isCancellable_def)

lemma reg_step_ok:
  assumes "reg_ok r" and "in_line r" and "case x of Unregister n \<Rightarrow> \<not> isCancelTool n r | _ \<Rightarrow> True"
  shows "reg_ok (reg_step p x r) \<and> in_line (reg_step p x r)"
proof (cases x)
  case (Unregister n)
  then show ?thesis using assms delete_ok [of r n] sync_ok sync_in_line
    by (auto simp: UnregisterFunction_def isCancelTool_def)
next
  case (SyncTools ts)
  then show ?thesis
    using drop_ok [of "fold (registerToolHandler p) (filter (\<lambda>t. atHandler t \<noteq> None) ts) r"]
      register_all_ok [OF assms(1,2)] by (simp add: SyncToolHandlers_def Let_def)
qed (use assms RegisterFunction_ok in \<open>simp_all add: SetSystemInstruction_def AppendSystemInstruction_def\<close>)

lemma reg_run_ok:
  assumes "reg_ok r" and "in_line r" and "own_tools p xs r"
  shows "reg_ok (reg_run p xs r) \<and> in_line (reg_run p xs r)"
  using assms by (induction xs arbitrary: r) (auto dest: reg_step_ok)

lemma new_registry_ok: "reg_ok (new_registry w a)" "in_line (new_registry w a)"
  by (simp_all add: new_registry_def reg_ok_def in_line_def offered_def lookup_handler_def)

text \<open>
  What the model may cancel is what it is offered to cancel. After any sequence of registrations, withdrawals
  of the application's own tools, toolset changes and changes of the prompt, the service offers the cancel tool of
  a tool exactly when the tool is registered, may be cancelled by the model, and has not lost the name of its
  cancel tool to a tool of the application; every cancel tool offered is answered by the service's own handler,
  and an adapter sends exactly the cancel tools.
\<close>

lemma cancel_tools_in_line:
  assumes "own_tools p xs (new_registry w a)" and "r = reg_run p xs (new_registry w a)"
  shows "(\<forall>n. CancelToolName n \<in> set (cancelTools r) \<longleftrightarrow>
        n \<noteq> [] \<and> (\<exists>item. lookup_handler n r = Some item \<and> isCancellable r item) \<and>
        (lookup_handler (CancelToolName n) r = None \<or> CancelToolName n \<in> set (cancelTools r))) \<and>
    list_all (\<lambda>c. lookup_handler c r = Some (cancel_item c)) (cancelTools r) \<and>
    (hasAdapter r \<longrightarrow> set (builtinOrder r) = set (cancelTools r))"
  using reg_run_ok [OF new_registry_ok assms(1)] assms(2)
  by (auto simp: reg_ok_def in_line_def offered_def list_all_iff)

definition some_ops :: "reg_op list" where
  "some_ops = [Register ''a'' 1 [WithCancelOnInterruption False, WithCancellableByLLM True],
    Register ''cancel_b'' 2 [], Register ''b'' 3 [WithCancelOnInterruption False, WithCancellableByLLM True],
    Register ''c'' 4 [WithCancellableByLLM True]]"

theorem cancel_tools_in_line_witness:
  "own_tools None some_ops (new_registry False True) \<and>
   cancelTools (reg_run None some_ops (new_registry False True)) = [''cancel_a''] \<and>
   builtinOrder (reg_run None some_ops (new_registry False True)) = [''cancel_a''] \<and>
   list_all (\<lambda>c. lookup_handler c (reg_run None some_ops (new_registry False True)) = Some (cancel_item c))
     (cancelTools (reg_run None some_ops (new_registry False True)))"
proof -
  have o: "own_tools None some_ops (new_registry False True)" by code_simp
  have c: "cancelTools (reg_run None some_ops (new_registry False True)) = [''cancel_a'']"
    "builtinOrder (reg_run None some_ops (new_registry False True)) = [''cancel_a'']" by code_simp+
  from cancel_tools_in_line [OF o refl] o c show ?thesis by blast
qed

section \<open>Handlers follow the toolset\<close>

lemma registerToolHandler_keeps:
  assumes "reg_ok r" and "lookup_handler n r = Some item" and "n \<notin> set (cancelTools r)"
  shows "lookup_handler n (registerToolHandler p t r) = Some item"
    and "n \<notin> set (cancelTools (registerToolHandler p t r))"
proof -
  have R: "lookup_handler n (RegisterFunction p m h opts r) = Some item \<and>
      n \<notin> set (cancelTools (RegisterFunction p m h opts r))" if "m \<noteq> n" for m h opts
  proof (cases "isCancelTool m r")
    case True
    then show ?thesis using assms by (simp add: RegisterFunction_def)
  next
    case False
    let ?r = "recordToolCleanup (riCleanup (new_item m h opts)) r"
    let ?s = "?r\<lparr>handlers := AList.update m (new_item m h opts) (handlers ?r)\<rparr>"
    have "reg_ok ?s" using store_ok [of ?r m] assms False by (simp add: isCancelTool_def)
    moreover have "lookup_handler n ?s = Some item" using assms(2) that by (simp add: lookup_handler_def update_conv')
    moreover have "n \<notin> set (cancelTools ?s)" using assms by simp
    ultimately show ?thesis using sync_keeps_handler [of ?s n item p] False
      by (simp add: RegisterFunction_def Let_def)
  qed
  show "lookup_handler n (registerToolHandler p t r) = Some item"
    "n \<notin> set (cancelTools (registerToolHandler p t r))"
    using assms R [of "atName t"]
    by (cases "atName t = n"; auto simp: registerToolHandler_def Let_def lookup_handler_def update_conv'
        split: option.splits)+
qed

lemma register_all_keeps:
  assumes "reg_ok r" "in_line r" and "lookup_handler n r = Some item" and "n \<notin> set (cancelTools r)"
  shows "lookup_handler n (fold (registerToolHandler p) ts r) = Some item \<and>
    n \<notin> set (cancelTools (fold (registerToolHandler p) ts r))"
  using assms
  by (induction ts arbitrary: r) (simp_all add: registerToolHandler_ok registerToolHandler_keeps)

text \<open>
  Handlers follow the toolset, and never against the application. Bringing the registry into line with the
  advertised tools keeps every handler that was registered by hand as it is, and leaves a handler that came from
  a toolset only for a tool that is still advertised with one.
\<close>

lemma handlers_follow_toolset:
  assumes "own_tools p xs (new_registry w a)" and "r = reg_run p xs (new_registry w a)"
    and "r' = SyncToolHandlers p tools r"
  shows "(\<forall>n item. lookup_handler n r = Some item \<and> \<not> riFromToolset item \<and> n \<notin> set (cancelTools r) \<longrightarrow>
        lookup_handler n r' = Some item) \<and>
    (\<forall>n item. lookup_handler n r' = Some item \<and> riFromToolset item \<longrightarrow>
        (\<exists>t\<in>set tools. atName t = n \<and> atHandler t \<noteq> None))"
proof -
  have ok: "reg_ok r" "in_line r" using reg_run_ok [OF new_registry_ok assms(1)] assms(2) by auto
  define carried where "carried = filter (\<lambda>t. atHandler t \<noteq> None) tools"
  define r1 where "r1 = fold (registerToolHandler p) carried r"
  define keep where "keep = filter (\<lambda>(n, item). \<not> (riFromToolset item \<and> n \<notin> set (map atName carried))) (handlers r1)"
  have ok1: "reg_ok r1" using register_all_ok [OF ok] by (simp add: r1_def)
  have okk: "reg_ok (r1\<lparr>handlers := keep\<rparr>)" using drop_keeps_ok [OF ok1, of "map atName carried"] by (simp add: keep_def)
  have r': "r' = (if keep = handlers r1 then r1 else syncCancelTools p (r1\<lparr>handlers := keep\<rparr>))"
    by (simp add: assms(3) SyncToolHandlers_def dropUnadvertisedToolHandlers_def Let_def carried_def r1_def keep_def)
  have lk: "lookup_handler n (r1\<lparr>handlers := keep\<rparr>) =
      (case lookup_handler n r1 of None \<Rightarrow> None
       | Some item \<Rightarrow> if riFromToolset item \<and> n \<notin> set (map atName carried) then None else Some item)" for n
    using map_of_filter_pair [of "handlers r1" "\<lambda>n item. \<not> (riFromToolset item \<and> n \<notin> set (map atName carried))" n] ok1
    by (auto simp: keep_def lookup_handler_def reg_ok_def split: option.splits)
  have "lookup_handler n r' = Some item"
    if "lookup_handler n r = Some item" "\<not> riFromToolset item" "n \<notin> set (cancelTools r)" for n item
  proof -
    have "lookup_handler n r1 = Some item" "n \<notin> set (cancelTools r1)"
      using register_all_keeps [OF ok that(1,3)] by (simp_all add: r1_def)
    then show ?thesis
      using r' lk [of n] sync_keeps_handler(1) [OF okk, of n item p] that(2) by auto
  qed
  moreover have "\<exists>t\<in>set tools. atName t = n \<and> atHandler t \<noteq> None"
    if "lookup_handler n r' = Some item" "riFromToolset item" for n item
  proof -
    have "lookup_handler n (r1\<lparr>handlers := keep\<rparr>) = Some item"
    proof (cases "keep = handlers r1")
      case True
      then have "r1\<lparr>handlers := keep\<rparr> = r1" by simp
      then show ?thesis using that r' True by simp
    next
      case False
      then show ?thesis using that r' sync_effect(2) [OF okk, of n p]
        by (auto simp: cancel_item_def split: if_splits)
    qed
    then have "n \<in> set (map atName carried)" using lk [of n] that(2) by (auto split: option.splits if_splits)
    then show ?thesis by (auto simp: carried_def)
  qed
  ultimately show ?thesis by blast
qed

definition a_tool :: "string \<Rightarrow> opaque \<Rightarrow> advertised_tool" where
  "a_tool n h = \<lparr>atName = n, atHandler = Some (Some h), atCancelOnInterruption = None, atTimeout = None,
    atCancellableByLLM = None, atCleanup = None\<rparr>"

lemma handlers_follow_toolset_witness:
  "lookup_handler ''a'' (SyncToolHandlers None [a_tool ''b'' 3]
      (reg_run None [Register ''a'' 1 [], SyncTools [a_tool ''c'' 2]] (new_registry False True))) =
      Some (new_item ''a'' 1 []) \<and>
   lookup_handler ''c'' (SyncToolHandlers None [a_tool ''b'' 3]
      (reg_run None [Register ''a'' 1 [], SyncTools [a_tool ''c'' 2]] (new_registry False True))) = None"
proof -
  let ?xs = "[Register ''a'' 1 [], SyncTools [a_tool ''c'' 2]]"
  have o: "own_tools None ?xs (new_registry False True)" by code_simp
  have "lookup_handler ''a'' (reg_run None ?xs (new_registry False True)) = Some (new_item ''a'' 1 [])"
    "\<not> riFromToolset (new_item ''a'' 1 [])" "''a'' \<notin> set (cancelTools (reg_run None ?xs (new_registry False True)))"
    by code_simp+
  then have "lookup_handler ''a'' (SyncToolHandlers None [a_tool ''b'' 3] (reg_run None ?xs (new_registry False True))) =
      Some (new_item ''a'' 1 [])"
    using handlers_follow_toolset [OF o refl refl, of "[a_tool ''b'' 3]"] by blast
  moreover have "lookup_handler ''c'' (SyncToolHandlers None [a_tool ''b'' 3]
      (reg_run None ?xs (new_registry False True))) = None" by code_simp
  ultimately show ?thesis by blast
qed

text \<open>Every comparable resource is released once, however many tools named it.\<close>

lemma cleanups_distinct:
  assumes "distinct (filter (\<lambda>c. sameCleanup c c) (cleanups r))"
  shows "distinct (filter (\<lambda>c. sameCleanup c c) (cleanups (recordToolCleanup c r)))"
proof (cases c)
  case (Some x)
  have "sameCleanup x x \<Longrightarrow> x \<in> set (cleanups r) \<Longrightarrow> list_ex (\<lambda>e. sameCleanup e x) (cleanups r)"
    by (auto simp: list_ex_iff)
  then show ?thesis using assms Some by (auto simp: recordToolCleanup_def)
qed (use assms in \<open>simp add: recordToolCleanup_def\<close>)

section \<open>Where the registry departs from what it means to do\<close>

text \<open>
  Withdrawing a cancel tool by its name leaves it among the cancel tools with no handler behind it: it stays
  advertised, and a call of it is answered as missing.
\<close>

lemma withdrawn_cancel_tool_stays_offered:
  "let r = reg_run None [Register ''a'' 1 [WithCancelOnInterruption False, WithCancellableByLLM True],
      Unregister ''cancel_a''] (new_registry False True)
   in builtinOrder r = [''cancel_a''] \<and> lookupFunction ''cancel_a'' r = None"
  by code_simp

text \<open>A tool advertised again with another handler keeps the one it came with first.\<close>

lemma readvertised_handler_ignored:
  "map_option riHandler (lookup_handler ''a''
     (reg_run None [SyncTools [a_tool ''a'' 1], SyncTools [a_tool ''a'' 2]] (new_registry False True))) =
   Some (AppHandler 1)"
  by code_simp

end
