(* ===== verification/Function_Calls.thy ===== *)
theory Function_Calls
  imports Turn_Completion Tool_Registry "HOL-Library.List_Lexorder" "HOL-Library.Char_ord"
begin

text \<open>
  The tool calls of an LLM service (service/llm/llm.go from \<open>startFunctionCalls\<close> on, and the cancel tools of
  service/llm/asynctool.go), on top of its registry and its turn-completion gate, and the frame handler that
  puts them together.

  A call runs on a goroutine of its own, its handler reports through a callback that outlives it, its timer
  fires on another goroutine, and an interruption or a cancel tool may end it meanwhile. Each action is one
  section under the calls' mutex. What is outside the code is the environment of a run: what the application's
  handlers report and whether they fail, the order in which Go ranges over the map of calls, fresh group
  identifiers, which way a \<open>select\<close> goes when both sides are ready, the filter an application may set, and
  \<open>json.Compact\<close> on the arguments the model sent.
\<close>

section \<open>State\<close>

datatype call_timer = NoTimer | TimerRunning duration | TimerFired | TimerStopped

record function_call =
  fcItem :: registryItem
  fcName :: string
  fcID :: string
  fcArgs :: string
  fcGroup :: string
  fcStarted :: bool
  fcSettled :: bool
  fcCancelled :: bool
  fcTimer :: call_timer
  fcHasStop :: bool

text \<open>
  The moments the mutex guards: a result is accepted (final or not), the deadline or a cancellation ends the
  call; and what the application is told.
\<close>

datatype call_event =
    Accepted nat bool
  | DeadlineEnded nat
  | CancelEnded nat
  | NotifyStarted "ToolCall list"
  | NotifyCanceled "ToolCall list"

record llm =
  tgate :: turn_gate
  reg :: registry
  objs :: "function_call list"
  callMap :: "(string \<times> nat) list"
  callTimeout :: duration
  runInParallel :: bool
  groupCalls :: bool
  sequential :: "nat list"
  runnerBusy :: bool
  callsOver :: bool
  groupSeq :: nat
  clog :: "call_event list"

type_synonym report = "string \<times> FunctionCallResultProperties option"

record call_env =
  eApp :: "nat \<Rightarrow> report list \<times> (string \<times> go_error) option"
  eOrder :: "nat list \<Rightarrow> nat list"
  eUuid :: "nat \<Rightarrow> string"
  ePick :: "nat \<Rightarrow> bool"
  eFilter :: "ToolCall list \<Rightarrow> ToolCall list"
  eCompact :: "string \<Rightarrow> string option"
  eMarshalError :: "string \<times> go_error"

definition set_obj :: "nat \<Rightarrow> (function_call \<Rightarrow> function_call) \<Rightarrow> llm \<Rightarrow> llm" where
  "set_obj i f s = (if i < length (objs s) then s\<lparr>objs := (objs s)[i := f (objs s ! i)]\<rparr> else s)"

definition clog_add :: "call_event list \<Rightarrow> llm \<Rightarrow> llm" where
  "clog_add es s = s\<lparr>clog := clog s @ es\<rparr>"

section \<open>Actions\<close>

datatype llm_act =
    G gate_act
  | CStart "ToolCall list"
  | CRun "ToolCall list"
  | CEnqueue "nat list"
  | CGo nat
  | CTake
  | CIdle
  | CArm nat
  | CSetStop nat
  | CHandler nat
  | CReport nat string "FunctionCallResultProperties option"
  | CStopTimer nat
  | CEnd nat
  | CTimerFires nat
  | CTimeout nat
  | CCancelCtx nat
  | CCancelAll
  | CCancelID string
  | CCancelTool nat
  | CNotifyCanceled "ToolCall list"
  | CSystem string
  | CSettings "UserTurnCompletionConfig option" "bool option" "string option"
  | CCompose
  | CSyncTools "advertised_tool list"
  | CCallsCancel

definition broadcast :: "frame_body \<Rightarrow> llm_act list" where
  "broadcast f = [G (GPush f Downstream), G (GPush f Upstream)]"

definition as_call :: "function_call \<Rightarrow> ToolCall" where
  "as_call c = \<lparr>callID = fcID c, callName = fcName c, callArgs = fcArgs c\<rparr>"

definition missingFunctionMessage :: "string \<Rightarrow> string" where
  "missingFunctionMessage n = ''The function `'' @ n @ ''` is not currently available.''"

definition functionCallErrorTemplate :: "string \<Rightarrow> string" where
  "functionCallErrorTemplate n = ''The function `'' @ n @ ''` failed and returned no result.''"

definition missing_item :: "string \<Rightarrow> registryItem" where
  "missing_item n = \<lparr>riName = n, riHandler = MissingFunctionHandler, riCancelOnInterruption = True, riTimeout = 0,
    riCancellableByLLM = False, riFromToolset = False, riCleanup = None\<rparr>"

definition userVisibleCalls :: "registry \<Rightarrow> ToolCall list \<Rightarrow> ToolCall list" where
  "userVisibleCalls r cs = filter (\<lambda>c. \<not> isCancelTool (callName c) r) cs"

text \<open>The call object \<open>runFunctionCalls\<close> makes for a requested call.\<close>

definition new_call :: "registry \<Rightarrow> string \<Rightarrow> ToolCall \<Rightarrow> function_call" where
  "new_call r groupID c =
    \<lparr>fcItem = (case lookupFunction (callName c) r of None \<Rightarrow> missing_item (callName c) | Some i \<Rightarrow> i),
     fcName = callName c, fcID = callID c, fcArgs = callArgs c, fcGroup = groupID, fcStarted = False,
     fcSettled = False, fcCancelled = False, fcTimer = NoTimer, fcHasStop = False\<rparr>"

definition startFunctionCalls :: "call_env \<Rightarrow> ToolCall list \<Rightarrow> llm \<Rightarrow> llm \<times> llm_act list" where
  "startFunctionCalls E calls s =
    (let calls = eFilter E calls in
     if calls = [] then (s, [])
     else let visible = userVisibleCalls (reg s) calls in
       if visible = [] then (s, [CRun calls])
       else (clog_add [NotifyStarted visible] s, broadcast (Fun (FunctionCallsStartedFrame visible)) @ [CRun calls]))"

definition runFunctionCalls :: "call_env \<Rightarrow> ToolCall list \<Rightarrow> llm \<Rightarrow> llm \<times> llm_act list" where
  "runFunctionCalls E calls s =
    (let groupID = (if groupCalls s then eUuid E (groupSeq s) else []);
         new = map (new_call (reg s) groupID) calls;
         k = length (objs s);
         s' = s\<lparr>objs := objs s @ new, groupSeq := groupSeq s + 1\<rparr>
     in (s', if runInParallel s then [] else [CEnqueue [k..<k + length new]]))"

text \<open>\<open>sequentialQueueDepth\<close> is 64: a full queue makes the service wait its turn.\<close>

definition enqueue_call :: "call_env \<Rightarrow> nat list \<Rightarrow> llm \<Rightarrow> llm \<times> llm_act list" where
  "enqueue_call E is s =
    (case is of
       [] \<Rightarrow> (s, [])
     | i # is' \<Rightarrow>
         if callsOver s \<and> \<not> ePick E i then (s, [])
         else if 64 \<le> length (sequential s) then (s, if callsOver s then [] else [CEnqueue is])
         else (s\<lparr>sequential := sequential s @ [i]\<rparr>, [CEnqueue is']))"

text \<open>
  \<open>runFunctionCall\<close>: the call enters the map, is announced as in progress, its bound is armed and its handler
  runs; on the way out the bound is disarmed, the call leaves the map if it is still there, and its context
  is cancelled.
\<close>

definition call_program :: "nat \<Rightarrow> function_call \<Rightarrow> llm_act list" where
  "call_program i c =
    broadcast (Fun (FunctionCallInProgressFrame (fcID c) (fcName c) (fcArgs c)
      (riCancelOnInterruption (fcItem c)) (fcGroup c))) @
    [CArm i, CSetStop i, CHandler i, CStopTimer i, CEnd i, CCancelCtx i]"

definition runFunctionCall :: "nat \<Rightarrow> llm \<Rightarrow> llm \<times> llm_act list" where
  "runFunctionCall i s =
    (if i < length (objs s) \<and> \<not> fcStarted (objs s ! i) then
       (set_obj i (\<lambda>c. c\<lparr>fcStarted := True\<rparr>) s\<lparr>callMap := AList.update (fcID (objs s ! i)) i (callMap s)\<rparr>,
        call_program i (objs s ! i))
     else (s, []))"

definition startCallTimeout :: "nat \<Rightarrow> llm \<Rightarrow> llm" where
  "startCallTimeout i s =
    set_obj i (\<lambda>c.
      let timeout = (if riTimeout (fcItem c) = 0 then callTimeout s else riTimeout (fcItem c))
      in if timeout \<le> 0 then c else c\<lparr>fcTimer := TimerRunning timeout\<rparr>) s"

definition disarm_timer :: "function_call \<Rightarrow> function_call" where
  "disarm_timer c = (case fcTimer c of TimerRunning d \<Rightarrow> c\<lparr>fcTimer := TimerStopped\<rparr> | _ \<Rightarrow> c)"

definition in_map :: "nat \<Rightarrow> llm \<Rightarrow> bool" where
  "in_map i s \<longleftrightarrow> i < length (objs s) \<and> map_of (callMap s) (fcID (objs s ! i)) = Some i"

definition leave_map :: "nat \<Rightarrow> llm \<Rightarrow> llm" where
  "leave_map i s =
    (if in_map i s then s\<lparr>callMap := AList.delete (fcID (objs s ! i)) (callMap s)\<rparr> else s)"

definition resultCallback ::
  "nat \<Rightarrow> string \<Rightarrow> FunctionCallResultProperties option \<Rightarrow> llm \<Rightarrow> llm \<times> llm_act list" where
  "resultCallback i result props s =
    (if i < length (objs s) then
       let c = objs s ! i in
       if \<not> Final props \<and> riCancelOnInterruption (fcItem c) then (s, [])
       else if fcSettled c then (s, [])
       else
         (clog_add [Accepted i (Final props)] (set_obj i (\<lambda>c. c\<lparr>fcSettled := Final props\<rparr>) s),
          (if fcHasStop c then [CStopTimer i] else []) @
          broadcast (Fun (FunctionCallResultFrame (fcID c) (fcName c) result None props)))
     else (s, []))"

definition cancel_frame :: "function_call \<Rightarrow> bool \<Rightarrow> frame_body" where
  "cancel_frame c runLLM = Fun (FunctionCallCancelFrame (fcID c) (fcName c) runLLM)"

definition timeoutFunctionCall :: "nat \<Rightarrow> llm \<Rightarrow> llm \<times> llm_act list" where
  "timeoutFunctionCall i s =
    (if i < length (objs s) \<and> \<not> fcSettled (objs s ! i) then
       (clog_add [DeadlineEnded i] (leave_map i (set_obj i (\<lambda>c. c\<lparr>fcSettled := True\<rparr>) s)),
        CCancelCtx i # broadcast (cancel_frame (objs s ! i) True) @ [CNotifyCanceled [as_call (objs s ! i)]])
     else (s, []))"

text \<open>\<open>cancelFunctionCalls\<close>: the calls in flight that are cancelled by an interruption, in the order the map gives them.\<close>

definition interruptible_calls :: "llm \<Rightarrow> nat list" where
  "interruptible_calls s =
    filter (\<lambda>i. riCancelOnInterruption (fcItem (objs s ! i))) (map snd (callMap s))"

definition cancelFunctionCalls :: "call_env \<Rightarrow> llm \<Rightarrow> llm \<times> llm_act list" where
  "cancelFunctionCalls E s =
    (let is = eOrder E (interruptible_calls s);
         s' = fold (\<lambda>i s. leave_map i (set_obj i (\<lambda>c. c\<lparr>fcSettled := True\<rparr>) s)) is s
     in (clog_add (map CancelEnded is) s',
         concat (map (\<lambda>i. CCancelCtx i # broadcast (cancel_frame (objs s ! i) False)) is) @
         [CNotifyCanceled (map (\<lambda>i. as_call (objs s ! i)) is)]))"

definition cancelFunctionCallByID :: "string \<Rightarrow> llm \<Rightarrow> llm \<times> llm_act list" where
  "cancelFunctionCallByID t s =
    (case map_of (callMap s) t of
       None \<Rightarrow> (s, [])
     | Some i \<Rightarrow>
         (clog_add [CancelEnded i] (set_obj i (\<lambda>c. c\<lparr>fcSettled := True\<rparr>) s\<lparr>callMap := AList.delete t (callMap s)\<rparr>),
          CCancelCtx i # broadcast (cancel_frame (objs s ! i) False) @ [CNotifyCanceled [as_call (objs s ! i)]]))"

subsection \<open>The cancel tools' handler\<close>

definition cancellableCallsOf :: "string \<Rightarrow> llm \<Rightarrow> nat list" where
  "cancellableCallsOf target s =
    sort_key (\<lambda>i. fcID (objs s ! i))
      (filter (\<lambda>i. fcName (objs s ! i) = target \<and> isCancellable (reg s) (fcItem (objs s ! i))) (map snd (callMap s)))"

definition cancel_argument :: "string \<Rightarrow> string" where
  "cancel_argument args =
    (if args = [] then [] else
       case members_of args of
         None \<Rightarrow> []
       | Some ms \<Rightarrow> (case string_field ''tool_call_id'' [] ms of None \<Rightarrow> [] | Some t \<Rightarrow> t))"

fun digit_string :: "nat \<Rightarrow> string" where
  "digit_string n = (if n < 10 then [char_of (48 + n)] else digit_string (n div 10) @ [char_of (48 + n mod 10)])"

declare digit_string.simps [simp del]

definition refusal :: "string \<Rightarrow> string" where
  "refusal reason = ''{\"cancelled\":null,\"reason\":'' @ quote reason @ ''}''"

text \<open>
  The refusal that names the calls to choose from. The arguments stand in it as the model sent them; when they
  are no JSON the answer cannot be written and the handler fails.
\<close>

definition choices_refusal :: "call_env \<Rightarrow> string \<Rightarrow> string \<Rightarrow> function_call list \<Rightarrow> string option" where
  "choices_refusal E fname target cs =
    (let compacted = map (\<lambda>c. if fcArgs c = [] then Some ''null'' else eCompact E (fcArgs c)) cs;
         choices = map (\<lambda>c. fcID c @ '' (called with '' @ fcArgs c @ '')'') cs;
         reason = digit_string (length cs) @ '' '' @ target @ '' calls are running: '' @ Join ''; '' choices @
           ''. Call '' @ fname @ '' again with tool_call_id set to the one to stop.''
     in if None \<in> set compacted then None
        else Some (''{\"cancelled\":null,\"reason\":'' @ quote reason @ '',\"running\":['' @
          Join '','' (map (\<lambda>(c, a). ''{\"arguments\":'' @ the a @ '',\"tool_call_id\":'' @ quote (fcID c) @ ''}'')
            (zip cs compacted)) @ '']}''))"

definition run_props :: "FunctionCallResultProperties option" where
  "run_props = Some \<lparr>propRunLLM = Some True, propOnContextUpdated = None, propIsFinal = None\<rparr>"

definition handler_failed :: "string \<Rightarrow> nat \<Rightarrow> string \<Rightarrow> string \<times> go_error \<Rightarrow> llm_act list" where
  "handler_failed n i fname err =
    [G (GPush (Sys (ErrorFrame (''error executing function call ['' @ fname @ '']: '' @ fst err) False (Some n)
        (Some (snd err)) Application)) Upstream),
     CReport i (functionCallErrorTemplate fname) None]"

definition cancelToolHandler :: "call_env \<Rightarrow> nat \<Rightarrow> llm \<Rightarrow> llm \<times> llm_act list" where
  "cancelToolHandler E i s =
    (let c = objs s ! i;
         target = TrimPrefix (fcName c) CancelToolPrefix;
         wanted = cancel_argument (fcArgs c);
         candidates = cancellableCallsOf target s;
         found = filter (\<lambda>j. fcID (objs s ! j) = wanted) candidates;
         stop = (\<lambda>j. [CCancelID (fcID (objs s ! j)),
           CReport i (''{\"cancelled\":'' @ quote (fcID (objs s ! j)) @ '',\"function_name\":'' @
             quote (fcName (objs s ! j)) @ ''}'') run_props])
     in (s,
       if candidates = [] then [CReport i (refusal (''no '' @ target @ '' call is running'')) run_props]
       else if wanted \<noteq> [] then
         (case found of
            [] \<Rightarrow> [CReport i (refusal (''no running '' @ target @ '' call has that tool_call_id'')) run_props]
          | j # _ \<Rightarrow> stop j)
       else if 1 < length candidates then
         (case choices_refusal E (fcName c) target (map (\<lambda>j. objs s ! j) candidates) of
            Some r \<Rightarrow> [CReport i r run_props]
          | None \<Rightarrow> handler_failed (gateName (tgate s)) i (fcName c) (eMarshalError E))
       else stop (hd candidates)))"

text \<open>What the handler of a call does, as the reports it makes; a failure is reported on its behalf.\<close>

definition call_handler :: "call_env \<Rightarrow> nat \<Rightarrow> llm \<Rightarrow> llm \<times> llm_act list" where
  "call_handler E i s =
    (let c = objs s ! i in
     case riHandler (fcItem c) of
       AppHandler h \<Rightarrow>
         (s, map (\<lambda>(r, p). CReport i r p) (fst (eApp E i)) @
             (case snd (eApp E i) of None \<Rightarrow> [] | Some err \<Rightarrow> handler_failed (gateName (tgate s)) i (fcName c) err))
     | MissingFunctionHandler \<Rightarrow> (s, [CReport i (missingFunctionMessage (fcName c)) None])
     | CancelToolHandler \<Rightarrow> (s, [CCancelTool i]))"

subsection \<open>The code\<close>

text \<open>The marker protocol the instruction is composed with; its rendering is the argument \<open>render\<close>.\<close>

definition protocol_of :: "(UserTurnCompletionConfig \<Rightarrow> string) \<Rightarrow> llm \<Rightarrow> string option" where
  "protocol_of render s = (if gateEnabled (tgate s) then Some (render (gateConfig (tgate s))) else None)"

fun llm_code :: "call_env \<Rightarrow> (UserTurnCompletionConfig \<Rightarrow> string) \<Rightarrow> (llm_act, llm) code" where
  "llm_code E pr (G a) s = (case gate_code a (tgate s) of (g, as) \<Rightarrow> (s\<lparr>tgate := g\<rparr>, map G as))"
| "llm_code E pr (CStart cs) s = startFunctionCalls E cs s"
| "llm_code E pr (CRun cs) s = runFunctionCalls E cs s"
| "llm_code E pr (CEnqueue is) s = enqueue_call E is s"
| "llm_code E pr (CGo i) s = (if runInParallel s then runFunctionCall i s else (s, []))"
| "llm_code E pr CTake s =
    (case sequential s of
       i # is \<Rightarrow>
         if runnerBusy s then (s, [])
         else case runFunctionCall i s of
           (s', p) \<Rightarrow> (s'\<lparr>sequential := is, runnerBusy := True\<rparr>, p @ [CIdle])
     | [] \<Rightarrow> (s, []))"
| "llm_code E pr CIdle s = (s\<lparr>runnerBusy := False\<rparr>, [])"
| "llm_code E pr (CArm i) s = (startCallTimeout i s, [])"
| "llm_code E pr (CSetStop i) s = (set_obj i (\<lambda>c. c\<lparr>fcHasStop := True\<rparr>) s, [])"
| "llm_code E pr (CHandler i) s = call_handler E i s"
| "llm_code E pr (CReport i r p) s = resultCallback i r p s"
| "llm_code E pr (CStopTimer i) s = (set_obj i disarm_timer s, [])"
| "llm_code E pr (CEnd i) s = (leave_map i s, [])"
| "llm_code E pr (CTimerFires i) s =
    (if i < length (objs s) then
       case fcTimer (objs s ! i) of
         TimerRunning d \<Rightarrow> (set_obj i (\<lambda>c. c\<lparr>fcTimer := TimerFired\<rparr>) s, [CTimeout i])
       | _ \<Rightarrow> (s, [])
     else (s, []))"
| "llm_code E pr (CTimeout i) s = timeoutFunctionCall i s"
| "llm_code E pr (CCancelCtx i) s = (set_obj i (\<lambda>c. c\<lparr>fcCancelled := True\<rparr>) s, [])"
| "llm_code E pr CCancelAll s = cancelFunctionCalls E s"
| "llm_code E pr (CCancelID t) s = cancelFunctionCallByID t s"
| "llm_code E pr (CCancelTool i) s = cancelToolHandler E i s"
| "llm_code E pr (CNotifyCanceled cs) s = (if cs = [] then s else clog_add [NotifyCanceled cs] s, [])"
| "llm_code E pr (CSystem t) s = (s\<lparr>reg := SetSystemInstruction (protocol_of pr s) t (reg s)\<rparr>, [])"
| "llm_code E pr (CSettings c on t) s =
    (s, (case c of None \<Rightarrow> [] | Some c \<Rightarrow> [G (GSetConfig c), CCompose]) @
        (case on of None \<Rightarrow> [] | Some b \<Rightarrow> [G (GSetEnabled b), CCompose]) @
        (case t of None \<Rightarrow> [] | Some t \<Rightarrow> [CSystem t]))"
| "llm_code E pr CCompose s = (s\<lparr>reg := composeSystemInstruction (protocol_of pr s) (reg s)\<rparr>, [])"
| "llm_code E pr (CSyncTools ts) s =
    (s\<lparr>reg := syncCancelTools (protocol_of pr s) (SyncToolHandlers (protocol_of pr s) ts (reg s))\<rparr>, [])"
| "llm_code E pr CCallsCancel s =
    (s\<lparr>callsOver := True, objs := map (\<lambda>c. c\<lparr>fcCancelled := True\<rparr>) (objs s)\<rparr>, [])"

section \<open>Frames\<close>

text \<open>
  One generation as the provider streams it: the deltas, the calls it asked for, how it failed, whether it was
  cancelled meanwhile, and the timing frame when metrics are on.
\<close>

record generation =
  gDeltas :: "string list"
  gCalls :: "ToolCall list"
  gFailure :: "(string \<times> go_error \<times> err_category) option"
  gInterrupted :: bool
  gTiming :: "opaque option"

definition runWithTools :: "string \<Rightarrow> generation \<Rightarrow> llm_act list" where
  "runWithTools n q =
    [G (GPush (Ctl (LLMFullResponseStartFrame None)) Downstream)] @
    map (\<lambda>t. G (GText t)) (filter (\<lambda>t. t \<noteq> []) (gDeltas q)) @
    (if gInterrupted q then []
     else case gFailure q of
       Some (msg, e, cat) \<Rightarrow> [G (GPush (Sys (ErrorFrame msg False (Some n) (Some e) cat)) Upstream)]
     | None \<Rightarrow> [CStart (gCalls q)]) @
    (case gTiming q of None \<Rightarrow> [] | Some m \<Rightarrow> [G (GPush (Mtr m) Downstream)]) @
    [G (GPush (Ctl (LLMFullResponseEndFrame None)) Downstream)]"

definition llm_run :: "string \<Rightarrow> advertised_tool list \<Rightarrow> bool \<Rightarrow> generation \<Rightarrow> llm_act list" where
  "llm_run n ts supportsTools q =
    [CSyncTools ts] @
    (if ts \<noteq> [] \<and> supportsTools then runWithTools n q
     else map G (runText n (gDeltas q) (if gInterrupted q then None else gFailure q) (gTiming q)))"

text \<open>What resolving a settings update against the service's settings comes to.\<close>

datatype settings_outcome =
    SettingsFailed string go_error err_category
  | SettingsUnchanged
  | SettingsChanged "UserTurnCompletionConfig option" "bool option" "string option"

fun updateSettings :: "string \<Rightarrow> settings_outcome \<Rightarrow> llm_act list" where
  "updateSettings n (SettingsFailed msg e cat) =
    [G (GPush (Sys (ErrorFrame msg False (Some n) (Some e) cat)) Upstream)]"
| "updateSettings n SettingsUnchanged = []"
| "updateSettings n (SettingsChanged c on t) = [CSettings c on t]"

text \<open>
  \<open>ProcessFrame\<close>, with what the frame leads to outside: the conversation's tools, the provider's generation and
  the outcome of a settings update. A summary request is answered on a goroutine of its own. An update names the
  service it is meant for by its value, and the base compares it with itself: only a base that is not embedded in
  a service (\<open>bare\<close>) is ever that value.
\<close>

fun llm_ProcessFrame ::
  "string \<Rightarrow> bool \<Rightarrow> advertised_tool list \<Rightarrow> bool \<Rightarrow> generation \<Rightarrow> settings_outcome \<Rightarrow> frame_body \<Rightarrow> Direction \<Rightarrow> llm_act list" where
  "llm_ProcessFrame n bare ts st q u (Llm (LLMContextFrame c)) d =
    G (GCheck (Llm (LLMContextFrame c))) # llm_run n ts st q"
| "llm_ProcessFrame n bare ts st q u (Sys InterruptionFrame) d =
    [G (GCheck (Sys InterruptionFrame)), CCancelAll, G (GPush (Sys InterruptionFrame) d)]"
| "llm_ProcessFrame n bare ts st q u (Sum (LLMContextSummaryRequestFrame r)) d =
    [G (GCheck (Sum (LLMContextSummaryRequestFrame r)))]"
| "llm_ProcessFrame n bare ts st q u (Trn (LLMConfigureOutputFrame b)) d =
    [G (GCheck (Trn (LLMConfigureOutputFrame b))), G (GSetSkip b), G (GPush (Trn (LLMConfigureOutputFrame b)) d)]"
| "llm_ProcessFrame n bare ts st q u (Set (LLMUpdateSettingsFrame w)) d =
    G (GCheck (Set (LLMUpdateSettingsFrame w))) #
    (if suService w = None \<or> bare \<and> suService w = Some n then updateSettings n u
     else [G (GPush (Set (LLMUpdateSettingsFrame w)) d)])"
| "llm_ProcessFrame n bare ts st q u f d = [G (GCheck f), G (GPush f d)]"

text \<open>\<open>generateSummaryTask\<close>: what it broadcasts for each way the generation can come out.\<close>

datatype summary_outcome =
    Summarized string int
  | SummaryTimedOut string go_error err_category
  | SummaryFailed string go_error err_category string

fun generateSummaryTask :: "string \<Rightarrow> string \<Rightarrow> summary_outcome \<Rightarrow> llm_act list" where
  "generateSummaryTask n rid (Summarized t k) = broadcast (Sum (LLMContextSummaryResultFrame rid t k []))"
| "generateSummaryTask n rid (SummaryTimedOut msg e cat) =
    G (GPush (Sys (ErrorFrame msg False (Some n) (Some e) cat)) Upstream) #
    broadcast (Sum (LLMContextSummaryResultFrame rid [] (-1) []))"
| "generateSummaryTask n rid (SummaryFailed msg e cat text) =
    G (GPush (Sys (ErrorFrame msg False (Some n) (Some e) cat)) Upstream) #
    broadcast (Sum (LLMContextSummaryResultFrame rid [] (-1) text))"

end
