(* ===== verification/Call_Properties.thy ===== *)
theory Call_Properties
  imports Function_Calls
begin

text \<open>
  What a tool call can count on: it ends once, whatever its handler, its deadline, an interruption and a cancel
  tool do at the same time; it is answered with what its handler reported_ways; an interruption ends the
  calls that do not survive one and no others.
\<close>

section \<open>A call ends once\<close>

text \<open>Following one call through the log: whether it is settled, and whether it was taken out of the map by its end.\<close>

fun follow :: "nat \<Rightarrow> bool \<times> bool \<Rightarrow> call_event list \<Rightarrow> (bool \<times> bool) option" where
  "follow i sr [] = Some sr"
| "follow i (s, r) (Accepted j f # es) =
    (if j \<noteq> i then follow i (s, r) es else if s then None else follow i (f, r) es)"
| "follow i (s, r) (DeadlineEnded j # es) =
    (if j \<noteq> i then follow i (s, r) es else if s then None else follow i (True, True) es)"
| "follow i (s, r) (CancelEnded j # es) =
    (if j \<noteq> i then follow i (s, r) es else if r then None else follow i (True, True) es)"
| "follow i sr (NotifyStarted cs # es) = follow i sr es"
| "follow i sr (NotifyCanceled cs # es) = follow i sr es"

lemma follow_append: "follow i sr (xs @ ys) = Option.bind (follow i sr xs) (\<lambda>sr. follow i sr ys)"
  by (induction i sr xs rule: follow.induct) auto

definition map_ok :: "llm \<Rightarrow> bool" where
  "map_ok s \<longleftrightarrow> distinct (map fst (callMap s)) \<and>
    (\<forall>t i. map_of (callMap s) t = Some i \<longrightarrow>
      i < length (objs s) \<and> fcID (objs s ! i) = t \<and> fcStarted (objs s ! i))"

definition call_ok :: "llm \<Rightarrow> nat \<Rightarrow> bool" where
  "call_ok s i \<longleftrightarrow>
    (if i < length (objs s)
     then \<exists>r. follow i (False, False) (clog s) = Some (fcSettled (objs s ! i), r) \<and>
            (r \<longrightarrow> fcStarted (objs s ! i) \<and> \<not> in_map i s)
     else follow i (False, False) (clog s) = Some (False, False))"

definition timers_ok :: "llm \<Rightarrow> bool" where
  "timers_ok s \<longleftrightarrow> (\<forall>i < length (objs s). fcTimer (objs s ! i) \<noteq> NoTimer \<longrightarrow> fcStarted (objs s ! i))"

definition calls_ok :: "llm \<Rightarrow> bool" where
  "calls_ok s \<longleftrightarrow> map_ok s \<and> (\<forall>i. call_ok s i) \<and> timers_ok s"

lemma map_okD:
  assumes "map_ok s" and "map_of (callMap s) t = Some i"
  shows "i < length (objs s)" "fcID (objs s ! i) = t" "fcStarted (objs s ! i)"
  using assms unfolding map_ok_def by (simp_all del: map_of_eq_Some_iff)

lemma map_okI:
  assumes "distinct (map fst (callMap s))"
    and "\<And>t i. map_of (callMap s) t = Some i \<Longrightarrow> i < length (objs s) \<and> fcID (objs s ! i) = t \<and> fcStarted (objs s ! i)"
  shows "map_ok s"
  using assms unfolding map_ok_def by (simp del: map_of_eq_Some_iff)

lemma calls_okD:
  assumes "calls_ok s" and "i < length (objs s)"
  obtains r where "follow i (False, False) (clog s) = Some (fcSettled (objs s ! i), r)"
    "r \<Longrightarrow> fcStarted (objs s ! i)" "r \<Longrightarrow> \<not> in_map i s"
proof -
  have "call_ok s i" using assms(1) by (simp add: calls_ok_def)
  then obtain r where "follow i (False, False) (clog s) = Some (fcSettled (objs s ! i), r)"
      "r \<longrightarrow> fcStarted (objs s ! i) \<and> \<not> in_map i s"
    using assms(2) by (auto simp: call_ok_def)
  then show thesis using that [of r] by blast
qed

lemma call_okI:
  assumes "i < length (objs s)" and "follow i (False, False) (clog s) = Some (fcSettled (objs s ! i), r)"
    and "r \<Longrightarrow> fcStarted (objs s ! i)" "r \<Longrightarrow> \<not> in_map i s"
  shows "call_ok s i"
  using assms unfolding call_ok_def by auto

text \<open>The actions that follow the start of a call.\<close>

fun act_ok :: "llm \<Rightarrow> llm_act \<Rightarrow> bool" where
  "act_ok s (CArm i) = (i < length (objs s) \<and> fcStarted (objs s ! i))"
| "act_ok s (CTimeout i) = (i < length (objs s) \<and> fcStarted (objs s ! i))"
| "act_ok s _ = True"

lemma calls_ok_weaken:
  assumes "calls_ok s" "map_ok t" "timers_ok t" "length (objs t) = length (objs s)" "clog t = clog s"
    and "\<And>j. j < length (objs s) \<Longrightarrow> fcSettled (objs t ! j) = fcSettled (objs s ! j)"
      "\<And>j. j < length (objs s) \<Longrightarrow> fcStarted (objs t ! j) = fcStarted (objs s ! j)"
    and "\<And>j. in_map j t \<Longrightarrow> in_map j s"
  shows "calls_ok t"
proof -
  have "call_ok t j" for j
  proof (cases "j < length (objs s)")
    case True
    then show ?thesis using calls_okD [OF assms(1) True] call_okI [of j t] assms(4-8) by metis
  next
    case False
    then show ?thesis using assms(1,4,5) by (auto simp: calls_ok_def call_ok_def)
  qed
  then show ?thesis using assms(2,3) by (simp add: calls_ok_def)
qed

lemma calls_ok_cong:
  "objs s' = objs s \<Longrightarrow> callMap s' = callMap s \<Longrightarrow> clog s' = clog s \<Longrightarrow> calls_ok s' = calls_ok s"
  by (simp add: calls_ok_def map_ok_def call_ok_def timers_ok_def in_map_def)

lemma calls_ok_update [simp]:
  "calls_ok (s\<lparr>tgate := g\<rparr>) = calls_ok s" "calls_ok (s\<lparr>reg := r\<rparr>) = calls_ok s"
  "calls_ok (s\<lparr>sequential := q\<rparr>) = calls_ok s" "calls_ok (s\<lparr>runnerBusy := b\<rparr>) = calls_ok s"
  "calls_ok (s\<lparr>sequential := q, runnerBusy := b\<rparr>) = calls_ok s" "calls_ok (s\<lparr>groupSeq := n\<rparr>) = calls_ok s"
  "calls_ok (s\<lparr>callsOver := b\<rparr>) = calls_ok s"
  by (simp_all add: calls_ok_def map_ok_def call_ok_def timers_ok_def in_map_def)

text \<open>Changing what no call is followed by.\<close>

lemma objs_set_obj: "length (objs (set_obj i f s)) = length (objs s)"
  "j < length (objs s) \<Longrightarrow> objs (set_obj i f s) ! j = (if j = i then f (objs s ! j) else objs s ! j)"
  "callMap (set_obj i f s) = callMap s" "clog (set_obj i f s) = clog s"
  by (auto simp: set_obj_def nth_list_update)

lemma quiet_ok:
  assumes "calls_ok s"
    and "\<And>c. fcID (f c) = fcID c" "\<And>c. fcSettled (f c) = fcSettled c" "\<And>c. fcStarted (f c) = fcStarted c"
    and "i < length (objs s) \<Longrightarrow> fcTimer (f (objs s ! i)) \<noteq> NoTimer \<Longrightarrow>
      fcTimer (objs s ! i) \<noteq> NoTimer \<or> fcStarted (objs s ! i)"
  shows "calls_ok (set_obj i f s)"
proof -
  have in_map: "in_map j (set_obj i f s) = in_map j s" for j
    by (cases "j < length (objs s)") (auto simp: in_map_def objs_set_obj assms(2))
  have "map_ok (set_obj i f s)"
    using assms(1-4) unfolding calls_ok_def map_ok_def by (simp add: objs_set_obj)
  moreover have "call_ok (set_obj i f s) j" for j
    using assms(1,3,4) in_map [of j] unfolding calls_ok_def call_ok_def
    by (cases "j < length (objs s)") (simp_all add: objs_set_obj)
  moreover have "timers_ok (set_obj i f s)"
    using assms(1,4,5) unfolding calls_ok_def timers_ok_def by (auto simp: objs_set_obj)
  ultimately show ?thesis by (simp add: calls_ok_def)
qed

lemma notify_ok [simp]:
  "calls_ok (clog_add [NotifyStarted cs] s) = calls_ok s" "calls_ok (clog_add [NotifyCanceled cs] s) = calls_ok s"
  unfolding calls_ok_def map_ok_def call_ok_def timers_ok_def in_map_def
  by (simp_all add: clog_add_def follow_append bind_eq_Some_conv)

lemma in_map_keep [simp]: "in_map j (clog_add es s) = in_map j s"
  by (simp add: clog_add_def in_map_def)

section \<open>Starting, reporting, ending\<close>

lemma append_ok:
  assumes "calls_ok s" and "list_all (\<lambda>c. \<not> fcSettled c \<and> \<not> fcStarted c \<and> fcTimer c = NoTimer) new"
  shows "calls_ok (s\<lparr>objs := objs s @ new\<rparr>)"
proof -
  let ?t = "s\<lparr>objs := objs s @ new\<rparr>"
  have map: "map_ok s" using assms(1) by (simp add: calls_ok_def)
  have new: "\<not> fcSettled ((objs s @ new) ! i)" "fcTimer ((objs s @ new) ! i) = NoTimer"
    if "\<not> i < length (objs s)" "i < length (objs s @ new)" for i
    using assms(2) that by (auto simp: nth_append list_all_length)
  have "map_ok ?t"
    by (rule map_okI) (use map map_okD [OF map] in \<open>auto simp: map_ok_def nth_append simp del: map_of_eq_Some_iff
        intro: trans_less_add1\<close>)
  moreover have "call_ok ?t i" for i
  proof (cases "i < length (objs s)")
    case True
    then obtain r where "follow i (False, False) (clog s) = Some (fcSettled (objs s ! i), r)"
      "r \<Longrightarrow> fcStarted (objs s ! i)" "r \<Longrightarrow> \<not> in_map i s"
      using calls_okD [OF assms(1)] by blast
    then show ?thesis using True by (intro call_okI [of _ _ r]) (auto simp: nth_append in_map_def)
  next
    case False
    then have "follow i (False, False) (clog s) = Some (False, False)"
      using assms(1) by (auto simp: calls_ok_def call_ok_def)
    then show ?thesis using False new [of i] by (auto simp: call_ok_def)
  qed
  moreover have "timers_ok ?t"
    unfolding timers_ok_def
  proof (intro allI impI)
    fix i
    assume "i < length (objs ?t)" "fcTimer (objs ?t ! i) \<noteq> NoTimer"
    then show "fcStarted (objs ?t ! i)"
      using assms(1) new [of i] by (cases "i < length (objs s)") (auto simp: calls_ok_def timers_ok_def nth_append)
  qed
  ultimately show ?thesis by (simp add: calls_ok_def)
qed

lemma start_ok:
  assumes "calls_ok s"
  shows "calls_ok (fst (runFunctionCall i s))"
proof (cases "i < length (objs s) \<and> \<not> fcStarted (objs s ! i)")
  case True
  define t where "t = set_obj i (\<lambda>c. c\<lparr>fcStarted := True\<rparr>) s\<lparr>callMap := AList.update (fcID (objs s ! i)) i (callMap s)\<rparr>"
  have t: "fst (runFunctionCall i s) = t" using True by (simp add: runFunctionCall_def t_def)
  have o: "length (objs t) = length (objs s)" "clog t = clog s"
    "j < length (objs s) \<Longrightarrow> objs t ! j = (if j = i then (objs s ! j)\<lparr>fcStarted := True\<rparr> else objs s ! j)" for j
    by (auto simp: t_def objs_set_obj set_obj_def nth_list_update)
  have m: "map_of (callMap t) k = (if k = fcID (objs s ! i) then Some i else map_of (callMap s) k)" for k
    by (simp add: t_def update_conv' objs_set_obj)
  have map: "map_ok s" using assms by (simp add: calls_ok_def)
  have "map_ok t"
  proof (rule map_okI)
    show "distinct (map fst (callMap t))" using map by (simp add: t_def map_ok_def distinct_update)
    fix k j
    assume "map_of (callMap t) k = Some j"
    then have "k = fcID (objs s ! i) \<and> j = i \<or> map_of (callMap s) k = Some j"
      using m [of k] by (auto simp del: map_of_eq_Some_iff split: if_splits)
    then show "j < length (objs t) \<and> fcID (objs t ! j) = k \<and> fcStarted (objs t ! j)"
      using True map_okD [OF map, of k j] by (auto simp: o simp del: map_of_eq_Some_iff)
  qed
  moreover have "call_ok t j" for j
  proof (cases "j < length (objs s)")
    case False
    then show ?thesis using assms by (simp add: calls_ok_def call_ok_def o)
  next
    case j: True
    then obtain r where r: "follow j (False, False) (clog s) = Some (fcSettled (objs s ! j), r)"
        "r \<Longrightarrow> fcStarted (objs s ! j)" "r \<Longrightarrow> \<not> in_map j s"
      using calls_okD [OF assms] by blast
    have "in_map j t \<Longrightarrow> j \<noteq> i \<Longrightarrow> in_map j s"
      using m [of "fcID (objs s ! j)"] j by (auto simp: in_map_def o simp del: map_of_eq_Some_iff split: if_splits)
    then show ?thesis using r j True by (intro call_okI [of _ _ r]) (auto simp: o)
  qed
  moreover have "timers_ok t" using assms by (auto simp: calls_ok_def timers_ok_def o)
  ultimately show ?thesis by (simp add: calls_ok_def t)
next
  case False
  then show ?thesis using assms by (auto simp: runFunctionCall_def)
qed

text \<open>Settling a call that is not, with the event that says so.\<close>

lemma settle_ok:
  assumes "calls_ok s" and "i < length (objs s)"
    and "\<And>j r. j \<noteq> i \<Longrightarrow> follow j (fcSettled (objs s ! j), r) [e] = Some (fcSettled (objs s ! j), r)"
    and "\<And>j. j \<noteq> i \<Longrightarrow> follow j (False, False) [e] = Some (False, False)"
    and "\<And>r. (r \<longrightarrow> \<not> in_map i s) \<Longrightarrow>
      \<exists>r'. follow i (fcSettled (objs s ! i), r) [e] = Some (b, r') \<and> (r' \<longrightarrow> r \<or> fcStarted (objs s ! i) \<and> out)"
  shows "calls_ok (clog_add [e] ((if out then leave_map i else id) (set_obj i (\<lambda>c. c\<lparr>fcSettled := b\<rparr>) s)))"
    (is "calls_ok ?t")
proof -
  define t where "t = ?t"
  let ?u = "set_obj i (\<lambda>c. c\<lparr>fcSettled := b\<rparr>) s"
  have map: "map_ok s" and timers: "timers_ok s" and calls: "\<And>j. call_ok s j"
    using assms(1) by (simp_all add: calls_ok_def)
  have o: "length (objs t) = length (objs s)" "clog t = clog s @ [e]"
    "j < length (objs s) \<Longrightarrow> objs t ! j = (if j = i then (objs s ! j)\<lparr>fcSettled := b\<rparr> else objs s ! j)" for j
    by (simp_all add: t_def clog_add_def leave_map_def objs_set_obj)
  have imu: "in_map j ?u = in_map j s" for j
    by (cases "j < length (objs s)") (auto simp: in_map_def objs_set_obj)
  have cm: "callMap t = (if out \<and> in_map i s then AList.delete (fcID (objs s ! i)) (callMap s) else callMap s)"
    using assms(2) by (simp add: t_def clog_add_def leave_map_def imu objs_set_obj)
  have m: "map_of (callMap t) k =
      (if out \<and> in_map i s \<and> k = fcID (objs s ! i) then None else map_of (callMap s) k)" for k
    by (simp add: cm delete_conv')
  have im: "in_map j t = (in_map j s \<and> \<not> (out \<and> j = i))" for j
    using m [of "fcID (objs s ! j)"] assms(2)
    by (cases "j < length (objs s)"; cases "j = i") (auto simp: in_map_def o simp del: map_of_eq_Some_iff)
  have "map_ok t"
  proof (rule map_okI)
    show "distinct (map fst (callMap t))" using map by (simp add: cm map_ok_def distinct_delete)
    fix k j
    assume "map_of (callMap t) k = Some j"
    then have "map_of (callMap s) k = Some j" using m [of k] by (simp del: map_of_eq_Some_iff split: if_splits)
    then show "j < length (objs t) \<and> fcID (objs t ! j) = k \<and> fcStarted (objs t ! j)"
      using map_okD [OF map, of k j] by (cases "j = i") (simp_all add: o del: map_of_eq_Some_iff)
  qed
  moreover have "call_ok t j" for j
  proof (cases "j < length (objs s)")
    case False
    then show ?thesis using calls [of j] assms(2,4) by (auto simp: call_ok_def o follow_append)
  next
    case True
    then obtain r where r: "follow j (False, False) (clog s) = Some (fcSettled (objs s ! j), r)"
        "r \<Longrightarrow> fcStarted (objs s ! j)" "r \<Longrightarrow> \<not> in_map j s"
      using calls_okD [OF assms(1)] by blast
    show ?thesis
    proof (cases "j = i")
      case True
      then obtain r' where "follow i (fcSettled (objs s ! i), r) [e] = Some (b, r')"
          "r' \<longrightarrow> r \<or> fcStarted (objs s ! i) \<and> out"
        using assms(5) [of r] r by auto
      then show ?thesis using r True assms(2) im
        by (intro call_okI [of _ _ r']) (auto simp: o follow_append)
    next
      case False
      then show ?thesis using r \<open>j < length (objs s)\<close> assms(3) [OF False, of r] im
        by (intro call_okI [of _ _ r]) (auto simp: o follow_append)
    qed
  qed
  moreover have "timers_ok t" using timers by (auto simp: timers_ok_def o)
  ultimately have "calls_ok t" by (simp add: calls_ok_def)
  then show ?thesis by (simp add: t_def)
qed

lemma accept_ok:
  assumes "calls_ok s" "i < length (objs s)" "\<not> fcSettled (objs s ! i)"
  shows "calls_ok (clog_add [Accepted i f] (set_obj i (\<lambda>c. c\<lparr>fcSettled := f\<rparr>) s))"
  using settle_ok [of s i "Accepted i f" f False] assms by auto

lemma deadline_ok:
  assumes "calls_ok s" "i < length (objs s)" "\<not> fcSettled (objs s ! i)" "fcStarted (objs s ! i)"
  shows "calls_ok (clog_add [DeadlineEnded i] (leave_map i (set_obj i (\<lambda>c. c\<lparr>fcSettled := True\<rparr>) s)))"
  using settle_ok [of s i "DeadlineEnded i" True True] assms by auto

definition end_call :: "nat \<Rightarrow> llm \<Rightarrow> llm" where
  "end_call i s = leave_map i (set_obj i (\<lambda>c. c\<lparr>fcSettled := True\<rparr>) s)"

lemma cancel_ok:
  assumes "calls_ok s" "in_map i s"
  shows "calls_ok (clog_add [CancelEnded i] (end_call i s))"
proof -
  have i: "i < length (objs s)" "map_of (callMap s) (fcID (objs s ! i)) = Some i" using assms(2) by (simp_all add: in_map_def)
  have "fcStarted (objs s ! i)" using map_okD [OF _ i(2)] assms(1) by (simp add: calls_ok_def)
  then show ?thesis using settle_ok [of s i "CancelEnded i" True True] assms i(1) by (auto simp: end_call_def)
qed

lemma end_call_effect:
  "clog (end_call i s) = clog s" "length (objs (end_call i s)) = length (objs s)"
  "j < length (objs s) \<Longrightarrow>
    objs (end_call i s) ! j = (if j = i then (objs s ! j)\<lparr>fcSettled := True\<rparr> else objs s ! j)"
  "in_map i s \<Longrightarrow> callMap (end_call i s) = AList.delete (fcID (objs s ! i)) (callMap s)"
  by (auto simp: end_call_def leave_map_def objs_set_obj in_map_def)

lemma end_call_in_map:
  assumes "calls_ok s" "in_map i s" "in_map j s" "j \<noteq> i"
  shows "in_map j (end_call i s)"
proof -
  have "fcID (objs s ! j) \<noteq> fcID (objs s ! i)" using assms(2-4) by (auto simp: in_map_def)
  then show ?thesis using assms(2-4) by (simp add: in_map_def end_call_effect delete_conv')
qed

lemma end_call_clog [simp]: "end_call i (clog_add es s) = clog_add es (end_call i s)"
  by (simp add: end_call_def clog_add_def leave_map_def set_obj_def in_map_def)

lemma clog_add_add [simp]: "clog_add ys (clog_add xs s) = clog_add (xs @ ys) s"
  by (simp add: clog_add_def)

lemma cancel_all_ok:
  assumes "calls_ok s" "distinct is" "list_all (\<lambda>i. in_map i s) is"
  shows "calls_ok (clog_add (map CancelEnded is) (fold end_call is s))"
  using assms
proof (induction "is" arbitrary: s)
  case Nil
  then show ?case by (simp add: clog_add_def)
next
  case (Cons i "is")
  let ?s = "clog_add [CancelEnded i] (end_call i s)"
  have "calls_ok ?s" using cancel_ok Cons.prems by simp
  moreover have "list_all (\<lambda>i. in_map i ?s) is"
    using Cons.prems end_call_in_map [of s i] by (auto simp: list_all_iff)
  ultimately have "calls_ok (clog_add (map CancelEnded is) (fold end_call is ?s))"
    using Cons.IH Cons.prems(2) by simp
  moreover have "fold end_call is (clog_add es u) = clog_add es (fold end_call is u)" for es u
    by (induction "is" arbitrary: u) simp_all
  ultimately show ?case by simp
qed

lemma map_snd_in_map:
  assumes "calls_ok s"
  shows "distinct (map snd (callMap s))" and "list_all (\<lambda>i. in_map i s) (map snd (callMap s))"
proof -
  have d: "distinct (map fst (callMap s))" and m: "map_ok s" using assms by (simp_all add: calls_ok_def map_ok_def)
  have i: "i < length (objs s) \<and> fcID (objs s ! i) = t \<and> in_map i s" if "(t, i) \<in> set (callMap s)" for t i
    using that d map_okD [OF m, of t i] by (simp add: in_map_def)
  show "list_all (\<lambda>i. in_map i s) (map snd (callMap s))" using i by (auto simp: list_all_iff)
  have "inj_on snd (set (callMap s))" by (rule inj_onI) (metis i prod.collapse)
  then show "distinct (map snd (callMap s))" using d by (simp add: distinct_map)
qed

text \<open>Go ranges over the calls in some order, each of them once.\<close>

definition ranges :: "call_env \<Rightarrow> bool" where
  "ranges E \<longleftrightarrow> (\<forall>xs. mset (eOrder E xs) = mset xs)"

lemma interruptible_ok:
  assumes "calls_ok s" "ranges E"
  shows "distinct (eOrder E (interruptible_calls s))" "list_all (\<lambda>i. in_map i s) (eOrder E (interruptible_calls s))"
    "set (eOrder E (interruptible_calls s)) = set (interruptible_calls s)"
proof -
  have m: "mset (eOrder E xs) = mset xs" for xs using assms(2) by (simp add: ranges_def)
  have d: "distinct (interruptible_calls s)"
    using map_snd_in_map(1) [OF assms(1)] by (simp add: interruptible_calls_def)
  show "distinct (eOrder E (interruptible_calls s))" using d m mset_eq_imp_distinct_iff by blast
  show s: "set (eOrder E (interruptible_calls s)) = set (interruptible_calls s)" using m mset_eq_setD by blast
  show "list_all (\<lambda>i. in_map i s) (eOrder E (interruptible_calls s))"
    using map_snd_in_map(2) [OF assms(1)] s by (auto simp: list_all_iff interruptible_calls_def)
qed

lemma cancelFunctionCalls_ok:
  assumes "calls_ok s" "ranges E"
  shows "calls_ok (fst (cancelFunctionCalls E s))"
  using cancel_all_ok [OF assms(1) interruptible_ok(1,2) [OF assms]]
  by (simp add: cancelFunctionCalls_def end_call_def [abs_def] Let_def)

lemma cancelFunctionCallByID_ok:
  assumes "calls_ok s"
  shows "calls_ok (fst (cancelFunctionCallByID t s))"
proof (cases "map_of (callMap s) t")
  case None
  then show ?thesis using assms by (simp add: cancelFunctionCallByID_def)
next
  case (Some i)
  have m: "map_ok s" using assms by (simp add: calls_ok_def)
  note i = map_okD [OF m Some]
  then have "in_map i s" using Some by (simp add: in_map_def)
  moreover have "leave_map i (set_obj i f s) = set_obj i f s\<lparr>callMap := AList.delete t (callMap s)\<rparr>"
    if "\<And>c. fcID (f c) = fcID c" for f
    using \<open>in_map i s\<close> i that by (simp add: leave_map_def in_map_def objs_set_obj)
  ultimately show ?thesis
    using cancel_ok [OF assms, of i] Some by (simp add: cancelFunctionCallByID_def end_call_def)
qed

lemma calls_ok_quiet:
  assumes "calls_ok s"
  shows "calls_ok (set_obj i (\<lambda>c. c\<lparr>fcHasStop := b\<rparr>) s)" "calls_ok (set_obj i (\<lambda>c. c\<lparr>fcCancelled := b\<rparr>) s)"
    "calls_ok (set_obj i disarm_timer s)" "calls_ok (set_obj i (\<lambda>c. c\<lparr>fcTimer := TimerFired\<rparr>) s) \<or>
      (i < length (objs s) \<and> fcTimer (objs s ! i) = NoTimer)"
proof -
  show "calls_ok (set_obj i (\<lambda>c. c\<lparr>fcHasStop := b\<rparr>) s)" "calls_ok (set_obj i (\<lambda>c. c\<lparr>fcCancelled := b\<rparr>) s)"
    by (rule quiet_ok [OF assms]; simp)+
  show "calls_ok (set_obj i disarm_timer s)"
    by (rule quiet_ok [OF assms]) (auto simp: disarm_timer_def split: call_timer.splits)
  show "calls_ok (set_obj i (\<lambda>c. c\<lparr>fcTimer := TimerFired\<rparr>) s) \<or>
      (i < length (objs s) \<and> fcTimer (objs s ! i) = NoTimer)"
    using quiet_ok [OF assms, of "\<lambda>c. c\<lparr>fcTimer := TimerFired\<rparr>" i] by auto
qed

lemma startCallTimeout_ok:
  assumes "calls_ok s" and "i < length (objs s)" "fcStarted (objs s ! i)"
  shows "calls_ok (startCallTimeout i s)"
  unfolding startCallTimeout_def
  by (rule quiet_ok [OF assms(1)]) (use assms in \<open>auto simp: Let_def\<close>)

lemma leave_ok:
  assumes "calls_ok s"
  shows "calls_ok (leave_map i s)"
proof (cases "in_map i s")
  case True
  have map: "map_ok s" using assms by (simp add: calls_ok_def)
  define t where "t = leave_map i s"
  have o: "objs t = objs s" "clog t = clog s" using True by (simp_all add: t_def leave_map_def)
  have m: "map_of (callMap t) k = (if k = fcID (objs s ! i) then None else map_of (callMap s) k)" for k
    using True by (simp add: t_def leave_map_def delete_conv')
  have "map_ok t"
  proof (rule map_okI)
    show "distinct (map fst (callMap t))" using map True by (simp add: t_def leave_map_def map_ok_def distinct_delete)
    fix k j
    assume "map_of (callMap t) k = Some j"
    then have "map_of (callMap s) k = Some j" using m [of k] by (simp del: map_of_eq_Some_iff split: if_splits)
    then show "j < length (objs t) \<and> fcID (objs t ! j) = k \<and> fcStarted (objs t ! j)"
      using map_okD [OF map, of k j] by (simp add: o del: map_of_eq_Some_iff)
  qed
  moreover have "in_map j t \<Longrightarrow> in_map j s" for j
    using m [of "fcID (objs s ! j)"] by (auto simp: in_map_def o simp del: map_of_eq_Some_iff split: if_splits)
  moreover have "timers_ok t" using assms by (simp add: calls_ok_def timers_ok_def o)
  ultimately have "calls_ok t" using calls_ok_weaken [OF assms, of t] by (simp add: o)
  then show ?thesis by (simp add: t_def)
next
  case False
  then show ?thesis using assms by (simp add: leave_map_def)
qed

lemma new_call_fresh:
  "\<not> fcSettled (new_call r g c) \<and> \<not> fcStarted (new_call r g c) \<and> fcTimer (new_call r g c) = NoTimer"
  by (simp add: new_call_def)

lemma runFunctionCalls_ok: "calls_ok s \<Longrightarrow> calls_ok (fst (runFunctionCalls E cs s))"
  using append_ok [of s "map (new_call (reg s) g) cs" for g] new_call_fresh
    calls_ok_cong [of "fst (runFunctionCalls E cs s)" "s\<lparr>objs := objs (fst (runFunctionCalls E cs s))\<rparr>"]
  by (simp add: runFunctionCalls_def Let_def list_all_iff)

lemma llm_code_ok:
  assumes "calls_ok s" "ranges E" "act_ok s a"
  shows "calls_ok (fst (llm_code E pr a s))"
proof (cases a)
  case (CReport i r p)
  then show ?thesis using assms accept_ok by (auto simp: resultCallback_def Let_def)
next
  case (CTimeout i)
  then show ?thesis using assms deadline_ok by (auto simp: timeoutFunctionCall_def)
next
  case (CTimerFires i)
  then show ?thesis using assms calls_ok_quiet(4) [OF assms(1), of i] by (auto split: call_timer.splits)
next
  case CTake
  then show ?thesis using assms start_ok [OF assms(1), of "hd (sequential s)"]
    by (cases "sequential s") (auto split: prod.split)
next
  case CCallsCancel
  let ?t = "s\<lparr>callsOver := True, objs := map (\<lambda>c. c\<lparr>fcCancelled := True\<rparr>) (objs s)\<rparr>"
  have m: "map_ok s" "timers_ok s" using assms(1) by (simp_all add: calls_ok_def)
  have "map_ok ?t" by (rule map_okI) (use m(1) map_okD [OF m(1)] in \<open>auto simp: map_ok_def simp del: map_of_eq_Some_iff\<close>)
  moreover have "timers_ok ?t" using m(2) by (simp add: timers_ok_def)
  moreover have "in_map j ?t \<Longrightarrow> in_map j s" for j by (auto simp: in_map_def)
  ultimately have "calls_ok ?t" using calls_ok_weaken [OF assms(1), of ?t] by simp
  then show ?thesis using CCallsCancel by simp
qed (use assms calls_ok_quiet [OF assms(1)] start_ok [OF assms(1)] leave_ok [OF assms(1)] runFunctionCalls_ok
      cancelFunctionCalls_ok cancelFunctionCallByID_ok startCallTimeout_ok
    in \<open>auto simp: startFunctionCalls_def enqueue_call_def call_handler_def cancelToolHandler_def Let_def
      split: prod.splits list.splits handler.splits\<close>)

text \<open>A call that was started stays started, and the log of one that was not says nothing of its end.\<close>

lemma started_stable:
  assumes "i < length (objs s)" "fcStarted (objs s ! i)"
  shows "i < length (objs (fst (llm_code E pr a s))) \<and> fcStarted (objs (fst (llm_code E pr a s)) ! i)"
proof -
  have keep: "i < length (objs (set_obj j f s)) \<and> fcStarted (objs (set_obj j f s) ! i)"
    if "\<And>c. fcStarted (f c) = fcStarted c" for j f
    using assms that by (auto simp: objs_set_obj)
  have fold: "i < length (objs (fold end_call is t)) \<and> fcStarted (objs (fold end_call is t) ! i)"
    if "i < length (objs t)" "fcStarted (objs t ! i)" for "is" t
    using that
  proof (induction "is" arbitrary: t)
    case (Cons a "is")
    have "i < length (objs (end_call a t))" "fcStarted (objs (end_call a t) ! i)"
      using Cons.prems by (cases "i = a"; simp add: end_call_effect)+
    then show ?case using Cons.IH by simp
  qed simp
  have run: "i < length (objs (fst (runFunctionCall j s))) \<and> fcStarted (objs (fst (runFunctionCall j s)) ! i)" for j
    using assms by (auto simp: runFunctionCall_def set_obj_def nth_list_update)
  show ?thesis
  proof (cases a)
    case CTake
    then show ?thesis using assms run [of "hd (sequential s)"] by (cases "sequential s") (auto split: prod.split)
  next
    case CCancelAll
    then show ?thesis using fold [OF assms]
      by (simp add: cancelFunctionCalls_def Let_def clog_add_def end_call_def [abs_def])
  qed (use assms keep run in \<open>auto simp: startFunctionCalls_def runFunctionCalls_def enqueue_call_def call_handler_def
      cancelToolHandler_def resultCallback_def timeoutFunctionCall_def cancelFunctionCallByID_def startCallTimeout_def
      leave_map_def disarm_timer_def clog_add_def nth_append Let_def
      split: prod.splits list.splits handler.splits call_timer.splits option.splits\<close>)
qed

lemma act_ok_broadcast [simp]: "list_all (act_ok s) (broadcast f)"
  by (simp add: broadcast_def)

lemma runFunctionCall_act_ok:
  "list_all (act_ok (fst (runFunctionCall i s))) (snd (runFunctionCall i s))"
  by (auto simp: runFunctionCall_def call_program_def set_obj_def)

lemma act_ok_mono:
  assumes "\<And>i. i < length (objs s) \<Longrightarrow> fcStarted (objs s ! i) \<Longrightarrow> i < length (objs t) \<and> fcStarted (objs t ! i)"
    and "act_ok s a"
  shows "act_ok t a"
  using assms by (cases a) auto

lemma continuation_ok:
  assumes "calls_ok s" "act_ok s a"
  shows "list_all (act_ok (fst (llm_code E pr a s))) (snd (llm_code E pr a s))"
proof (cases a)
  case CTake
  then show ?thesis using runFunctionCall_act_ok [of "hd (sequential s)" s]
    by (cases "sequential s") (auto simp: list_all_iff intro: act_ok_mono split: prod.split)
next
  case (CTimerFires i)
  then show ?thesis using assms(1)
    by (auto simp: calls_ok_def timers_ok_def objs_set_obj split: call_timer.splits)
next
  case (CGo i)
  then show ?thesis using runFunctionCall_act_ok [of i s] by simp
next
  case (CCancelTool i)
  then show ?thesis
    by (auto simp: cancelToolHandler_def handler_failed_def Let_def split: list.split option.split)
next
  case CCancelAll
  then show ?thesis
    by (simp add: cancelFunctionCalls_def broadcast_def Let_def list_all_iff)
qed (auto simp: startFunctionCalls_def runFunctionCalls_def enqueue_call_def call_handler_def handler_failed_def
      resultCallback_def timeoutFunctionCall_def cancelFunctionCallByID_def Let_def list_all_iff broadcast_def
    split: prod.splits list.splits handler.splits option.splits)

text \<open>The entry points: everything but what only a call that has started goes on with.\<close>

fun entry :: "llm_act \<Rightarrow> bool" where
  "entry (CArm i) = False"
| "entry (CTimeout i) = False"
| "entry _ = True"

lemma entry_ok: "entry a \<Longrightarrow> act_ok s a"
  by (cases a) auto

definition new_llm :: "turn_gate \<Rightarrow> registry \<Rightarrow> duration \<Rightarrow> bool \<Rightarrow> bool \<Rightarrow> llm" where
  "new_llm g r d parallel grouped = \<lparr>tgate = g, reg = r, objs = [], callMap = [], callTimeout = d,
    runInParallel = parallel, groupCalls = grouped, sequential = [], runnerBusy = False, callsOver = False,
    groupSeq = 0, clog = []\<rparr>"

lemma new_llm_ok: "calls_ok (new_llm g r d p q)"
  by (simp add: new_llm_def calls_ok_def map_ok_def call_ok_def timers_ok_def)

lemma run_calls_ok:
  assumes "ranges E" and "list_all (\<lambda>e. list_all entry (spawned e)) es"
  shows "calls_ok (fst (sched_run (llm_code E pr) es (new_llm g r d p q, [])))"
proof -
  have "interleaved (llm_code E pr) calls_ok act_ok"
  proof
    fix s a b
    assume s: "calls_ok s" "act_ok s a"
    show "calls_ok (fst (llm_code E pr a s))" using llm_code_ok [OF s(1) assms(1) s(2)] .
    show "list_all (act_ok (fst (llm_code E pr a s))) (snd (llm_code E pr a s))" using continuation_ok [OF s] .
    assume "act_ok s b"
    then show "act_ok (fst (llm_code E pr a s)) b" using started_stable [of _ s E pr a] act_ok_mono by blast
  qed
  moreover have "list_all (\<lambda>e. list_all (\<lambda>a. \<forall>s. act_ok s a) (spawned e)) es"
    using assms(2) entry_ok by (auto simp: list_all_iff)
  ultimately show ?thesis using interleaved.start_good new_llm_ok by metis
qed

text \<open>What ends a call, and what may no longer follow.\<close>

definition ends_call :: "nat \<Rightarrow> call_event \<Rightarrow> bool" where
  "ends_call i e \<longleftrightarrow> e = Accepted i True \<or> e = DeadlineEnded i \<or> e = CancelEnded i"

lemma follow_settled:
  assumes "follow i (True, r) es \<noteq> None"
  shows "Accepted i f \<notin> set es" and "DeadlineEnded i \<notin> set es"
proof -
  have "Accepted i f \<notin> set es \<and> DeadlineEnded i \<notin> set es"
    using assms
  proof (induction es arbitrary: r)
    case (Cons e es)
    then show ?case by (cases e) (auto split: if_splits)
  qed simp
  then show "Accepted i f \<notin> set es" "DeadlineEnded i \<notin> set es" by auto
qed

lemma follow_removed:
  assumes "follow i (True, True) es \<noteq> None"
  shows "CancelEnded i \<notin> set es"
  using assms
proof (induction es)
  case (Cons e es)
  then show ?case by (cases e) (auto split: if_splits)
qed simp

lemma follow_ended:
  assumes "follow i (s, r) (e # es) \<noteq> None" "ends_call i e"
  shows "\<exists>r'. follow i (True, r') es \<noteq> None \<and> (e \<noteq> Accepted i True \<longrightarrow> r')"
  using assms by (cases e) (auto simp: ends_call_def split: if_splits)

text \<open>
  C26. A tool call ends once, and nothing reopens it. Over every interleaving of the goroutines of any number of
  calls, their handlers (which may go on reporting for ever), their deadlines, interruptions, cancel tools and
  settings changes: after a call's end (its final result accepted, its deadline passed, or it was cancelled) no
  result of it is accepted and no deadline ends it again; and a call that was cancelled or timed out is not
  cancelled again.
\<close>

theorem call_ends_once:
  assumes "ranges E" and "list_all (\<lambda>e. list_all entry (spawned e)) es"
    and "clog (fst (sched_run (llm_code E pr) es (new_llm g r d p q, []))) = xs @ e # ys" and "ends_call i e"
  shows "Accepted i f \<notin> set ys \<and> DeadlineEnded i \<notin> set ys \<and> (e \<noteq> Accepted i True \<longrightarrow> CancelEnded i \<notin> set ys)"
proof -
  let ?s = "fst (sched_run (llm_code E pr) es (new_llm g r d p q, []))"
  have "call_ok ?s i" using run_calls_ok [OF assms(1,2)] by (simp add: calls_ok_def)
  then have "follow i (False, False) (xs @ e # ys) \<noteq> None"
    by (auto simp: call_ok_def assms(3) split: if_splits)
  then obtain u w where "follow i (u, w) (e # ys) \<noteq> None"
    by (cases "follow i (False, False) xs") (auto simp: follow_append)
  then obtain w' where "follow i (True, w') ys \<noteq> None" "e \<noteq> Accepted i True \<longrightarrow> w'"
    using follow_ended [OF _ assms(4)] by blast
  then show ?thesis using follow_settled [of i w' ys] follow_removed [of i ys] by auto
qed

definition a_handler_env :: call_env where
  "a_handler_env = \<lparr>eApp = (\<lambda>i. ([(''sunny'', None), (''rain'', None)], None)), eOrder = (\<lambda>xs. xs),
    eUuid = (\<lambda>n. ''group''), ePick = (\<lambda>i. True), eFilter = (\<lambda>cs. cs), eCompact = (\<lambda>t. Some t),
    eMarshalError = ([], [])\<rparr>"

definition a_registry :: registry where
  "a_registry = (new_registry False False)\<lparr>handlers := [(''weather'', new_item ''weather'' 1 [])]\<rparr>"

definition a_service :: llm where
  "a_service = new_llm (new_gate ''llm'' False a_config) a_registry 0 True True"

definition weather_call :: ToolCall where
  "weather_call = \<lparr>callID = ''c1'', callName = ''weather'', callArgs = ''{}''\<rparr>"

definition a_call_run :: "llm_act sched list" where
  "a_call_run = [Spawn [CRun [weather_call]], Run 0, Spawn [CGo 0]] @ replicate 9 (Run 1) @ [Spawn [CCancelAll], Run 2] @
    replicate 9 (Run 1)"

theorem call_ends_once_witness:
  "clog (fst (sched_run (llm_code a_handler_env (\<lambda>c. [])) a_call_run (a_service, []))) =
     [] @ Accepted 0 True # [CancelEnded 0] \<and> Accepted 0 True \<notin> set [CancelEnded 0] \<and> DeadlineEnded 0 \<notin> set [CancelEnded 0]"
proof -
  have r: "ranges a_handler_env" by (simp add: ranges_def a_handler_env_def)
  have e: "list_all (\<lambda>e. list_all entry (spawned e)) a_call_run" by code_simp
  have c: "clog (fst (sched_run (llm_code a_handler_env (\<lambda>c. [])) a_call_run
      (new_llm (new_gate ''llm'' False a_config) a_registry 0 True True, []))) = [] @ Accepted 0 True # [CancelEnded 0]"
    by code_simp
  have "ends_call 0 (Accepted 0 True)" by (simp add: ends_call_def)
  from call_ends_once [OF r e c this, of True] c show ?thesis by (simp add: a_service_def)
qed

section \<open>What a call is answered with\<close>

definition tell :: "frame_body \<Rightarrow> llm \<Rightarrow> llm" where
  "tell f s = s\<lparr>tgate := (tgate s)\<lparr>trace := trace (tgate s) @ [Sent f Downstream, Sent f Upstream]\<rparr>\<rparr>"

definition plain_frame :: "frame_body \<Rightarrow> bool" where
  "plain_frame f \<longleftrightarrow> handleTurnCompletionPushFrame f = [] \<and> (\<forall>n d. metadata_after n f d = []) \<and> (\<forall>sk. stamp sk f = f)"

lemma plain_frames [simp]:
  "plain_frame (Fun (FunctionCallInProgressFrame a b c d e))" "plain_frame (Fun (FunctionCallResultFrame a b c' f g))"
  "plain_frame (cancel_frame k run)"
  by (simp_all add: plain_frame_def cancel_frame_def)

lemma broadcast_alone_llm:
  "plain_frame f \<Longrightarrow> run_alone (llm_code E pr) (broadcast f @ as) s = run_alone (llm_code E pr) as (tell f s)"
  by (simp add: broadcast_def plain_frame_def tell_def log_event_def)

lemma tell_keeps [simp]:
  "objs (tell f s) = objs s" "callMap (tell f s) = callMap s" "clog (tell f s) = clog s" "reg (tell f s) = reg s"
  "trace (tgate (tell f s)) = trace (tgate s) @ [Sent f Downstream, Sent f Upstream]" "gateName (tgate (tell f s)) = gateName (tgate s)"
  by (simp_all add: tell_def)

text \<open>The results of a call that were sent downstream, and what a handler's reports come to.\<close>

fun results_of :: "string \<Rightarrow> gate_event list \<Rightarrow> report list" where
  "results_of t [] = []"
| "results_of t (Sent (Fun (FunctionCallResultFrame k n r l p)) Downstream # es) =
    (if k = t then [(r, p)] else []) @ results_of t es"
| "results_of t (e # es) = results_of t es"

lemma results_of_append [simp]: "results_of t (xs @ ys) = results_of t xs @ results_of t ys"
  by (induction t xs rule: results_of.induct) simp_all

fun accepted :: "bool \<Rightarrow> report list \<Rightarrow> report list" where
  "accepted b [] = []"
| "accepted b ((r, p) # rs) =
    (if Final p then [(r, p)] else if b then accepted b rs else (r, p) # accepted b rs)"

lemma accepted_final:
  "length (filter (\<lambda>(r, p). Final p) (accepted b rs)) = (if list_ex (\<lambda>(r, p). Final p) rs then 1 else 0)"
  by (induction b rs rule: accepted.induct) auto

lemma Final_None [simp]: "Final None"
  by (simp add: Final_def)

lemma accepted_append:
  "accepted b (xs @ ys) = accepted b xs @ (if list_ex (\<lambda>(r, p). Final p) xs then [] else accepted b ys)"
  by (induction b xs rule: accepted.induct) auto

text \<open>One report, and the call after it.\<close>

definition after_report :: "nat \<Rightarrow> report \<Rightarrow> llm \<Rightarrow> llm" where
  "after_report i rp s =
    (let c = objs s ! i in
     if \<not> Final (snd rp) \<and> riCancelOnInterruption (fcItem c) \<or> fcSettled c then s
     else tell (Fun (FunctionCallResultFrame (fcID c) (fcName c) (fst rp) None (snd rp)))
       ((if fcHasStop c then set_obj i disarm_timer else id)
         (clog_add [Accepted i (Final (snd rp))] (set_obj i (\<lambda>c. c\<lparr>fcSettled := Final (snd rp)\<rparr>) s))))"

lemma report_alone:
  assumes "i < length (objs s)"
  shows "run_alone (llm_code E pr) (CReport i r p # as) s = run_alone (llm_code E pr) as (after_report i (r, p) s)"
proof -
  let ?c = "objs s ! i"
  consider "\<not> Final p \<and> riCancelOnInterruption (fcItem ?c)" | "fcSettled ?c" "Final p \<or> \<not> riCancelOnInterruption (fcItem ?c)"
    | "\<not> (\<not> Final p \<and> riCancelOnInterruption (fcItem ?c))" "\<not> fcSettled ?c" by blast
  then show ?thesis
  proof cases
    case 3
    then show ?thesis using assms
      by (cases "fcHasStop ?c")
        (auto simp: resultCallback_def after_report_def Let_def broadcast_alone_llm)
  qed (use assms in \<open>auto simp: resultCallback_def after_report_def Let_def\<close>)
qed

lemma after_report_keeps:
  assumes "i < length (objs s)"
  shows "length (objs (after_report i rp s)) = length (objs s)" "callMap (after_report i rp s) = callMap s"
    "fcID (objs (after_report i rp s) ! i) = fcID (objs s ! i)"
    "fcItem (objs (after_report i rp s) ! i) = fcItem (objs s ! i)"
    "fcName (objs (after_report i rp s) ! i) = fcName (objs s ! i)"
    "gateName (tgate (after_report i rp s)) = gateName (tgate s)"
  using assms by (auto simp: after_report_def Let_def objs_set_obj clog_add_def disarm_timer_def set_obj_def
      split: call_timer.split)

lemma after_report_settled:
  assumes "i < length (objs s)"
  shows "fcSettled (objs (after_report i rp s) ! i) = (fcSettled (objs s ! i) \<or> Final (snd rp))"
  using assms by (auto simp: after_report_def Let_def objs_set_obj clog_add_def disarm_timer_def set_obj_def
      split: call_timer.split)

lemma after_report_results:
  assumes "i < length (objs s)"
  shows "\<exists>es. trace (tgate (after_report i rp s)) = trace (tgate s) @ es \<and>
    results_of (fcID (objs s ! i)) es =
      (if fcSettled (objs s ! i) then [] else accepted (riCancelOnInterruption (fcItem (objs s ! i))) [rp])"
  using assms by (cases rp) (auto simp: after_report_def Let_def set_obj_def clog_add_def)

lemma reports_alone:
  assumes "i < length (objs s)"
  shows "run_alone (llm_code E pr) (map (\<lambda>(r, p). CReport i r p) rs @ as) s =
    run_alone (llm_code E pr) as (fold (after_report i) rs s)"
  using assms
proof (induction rs arbitrary: s)
  case (Cons rp rs)
  obtain r p where "rp = (r, p)" by (cases rp)
  then show ?case using Cons by (simp add: report_alone after_report_keeps)
qed simp

lemma reports_effect:
  assumes "i < length (objs s)"
  shows "length (objs (fold (after_report i) rs s)) = length (objs s) \<and> callMap (fold (after_report i) rs s) = callMap s \<and>
    fcID (objs (fold (after_report i) rs s) ! i) = fcID (objs s ! i) \<and>
    fcItem (objs (fold (after_report i) rs s) ! i) = fcItem (objs s ! i) \<and>
    fcSettled (objs (fold (after_report i) rs s) ! i) = (fcSettled (objs s ! i) \<or> list_ex (\<lambda>(r, p). Final p) rs) \<and>
    (\<exists>es. trace (tgate (fold (after_report i) rs s)) = trace (tgate s) @ es \<and>
      results_of (fcID (objs s ! i)) es =
        (if fcSettled (objs s ! i) then [] else accepted (riCancelOnInterruption (fcItem (objs s ! i))) rs))"
  using assms
proof (induction rs arbitrary: s)
  case (Cons rp rs)
  let ?t = "after_report i rp s"
  have i: "i < length (objs ?t)" using Cons.prems after_report_keeps by simp
  note k = after_report_keeps [OF Cons.prems, of rp]
  obtain es where es: "trace (tgate ?t) = trace (tgate s) @ es" "results_of (fcID (objs s ! i)) es =
      (if fcSettled (objs s ! i) then [] else accepted (riCancelOnInterruption (fcItem (objs s ! i))) [rp])"
    using after_report_results [OF Cons.prems] by blast
  obtain fs where fs: "trace (tgate (fold (after_report i) rs ?t)) = trace (tgate ?t) @ fs"
      "results_of (fcID (objs ?t ! i)) fs =
        (if fcSettled (objs ?t ! i) then [] else accepted (riCancelOnInterruption (fcItem (objs ?t ! i))) rs)"
    using Cons.IH [OF i] by blast
  have "results_of (fcID (objs s ! i)) (es @ fs) =
      (if fcSettled (objs s ! i) then [] else accepted (riCancelOnInterruption (fcItem (objs s ! i))) (rp # rs))"
    using es(2) fs(2) k after_report_settled [OF Cons.prems, of rp]
    by (cases rp) (auto split: if_splits)
  then show ?case using Cons.IH [OF i] k es(1) fs(1) after_report_settled [OF Cons.prems, of rp]
    by (intro conjI exI [of _ "es @ fs"]) (auto simp: split_beta)
qed simp

definition script :: "call_env \<Rightarrow> nat \<Rightarrow> function_call \<Rightarrow> report list" where
  "script E i c =
    (case riHandler (fcItem c) of
       AppHandler h \<Rightarrow>
         fst (eApp E i) @ (case snd (eApp E i) of None \<Rightarrow> [] | Some err \<Rightarrow> [(functionCallErrorTemplate (fcName c), None)])
     | MissingFunctionHandler \<Rightarrow> [(missingFunctionMessage (fcName c), None)]
     | CancelToolHandler \<Rightarrow> [])"

text \<open>The handler's part of a call, the error report of a failing handler included.\<close>

lemma error_alone:
  "run_alone (llm_code E pr) (G (GPush (Sys (ErrorFrame m b n e c)) Upstream) # as) s =
    run_alone (llm_code E pr) as
      (s\<lparr>tgate := (tgate s)\<lparr>trace := trace (tgate s) @ [Sent (Sys (ErrorFrame m b n e c)) Upstream]\<rparr>\<rparr>)"
  by (simp add: log_event_def)

lemma handler_effect:
  assumes "i < length (objs s)" "riHandler (fcItem (objs s ! i)) \<noteq> CancelToolHandler" "\<not> fcSettled (objs s ! i)"
  shows "\<exists>t es. (\<forall>as. run_alone (llm_code E pr) (CHandler i # as) s = run_alone (llm_code E pr) as t) \<and>
    length (objs t) = length (objs s) \<and> callMap t = callMap s \<and> fcID (objs t ! i) = fcID (objs s ! i) \<and>
    trace (tgate t) = trace (tgate s) @ es \<and>
    results_of (fcID (objs s ! i)) es =
      accepted (riCancelOnInterruption (fcItem (objs s ! i))) (script E i (objs s ! i))"
proof -
  let ?c = "objs s ! i" and ?b = "riCancelOnInterruption (fcItem (objs s ! i))"
  have by_reports: ?thesis if p: "\<And>as. run_alone (llm_code E pr) (CHandler i # as) s =
      run_alone (llm_code E pr) (map (\<lambda>(r, p). CReport i r p) (script E i ?c) @ as) s"
    using reports_effect [OF assms(1), of "script E i ?c"] assms(3) p
    by (auto simp: reports_alone [OF assms(1)])
  show ?thesis
  proof (cases "riHandler (fcItem ?c)")
    case MissingFunctionHandler
    then show ?thesis using by_reports by (simp add: script_def call_handler_def)
  next
    case (AppHandler h)
    show ?thesis
    proof (cases "snd (eApp E i)")
      case None
      then show ?thesis using by_reports AppHandler by (simp add: script_def call_handler_def)
    next
      case (Some err)
      let ?u = "fold (after_report i) (fst (eApp E i)) s"
      obtain es where u: "length (objs ?u) = length (objs s)" "callMap ?u = callMap s" "fcID (objs ?u ! i) = fcID ?c"
          "trace (tgate ?u) = trace (tgate s) @ es" "results_of (fcID ?c) es = accepted ?b (fst (eApp E i))"
        using reports_effect [OF assms(1), of "fst (eApp E i)"] assms(3) by auto
      define m where "m = ''error executing function call ['' @ fcName ?c @ '']: '' @ fst err"
      define e where "e = Sent (Sys (ErrorFrame m False (Some (gateName (tgate s))) (Some (snd err)) Application)) Upstream"
      define v where "v = ?u\<lparr>tgate := (tgate ?u)\<lparr>trace := trace (tgate ?u) @ [e]\<rparr>\<rparr>"
      define r where "r = (functionCallErrorTemplate (fcName ?c), None :: FunctionCallResultProperties option)"
      have v: "i < length (objs v)" "objs v = objs ?u" "callMap v = callMap ?u"
        "trace (tgate v) = trace (tgate ?u) @ [e]" using u(1) assms(1) by (simp_all add: v_def)
      have it: "fcItem (objs ?u ! i) = fcItem ?c" "fcSettled (objs ?u ! i) = list_ex (\<lambda>(r, p). Final p) (fst (eApp E i))"
        using reports_effect [OF assms(1), of "fst (eApp E i)"] assms(3) by auto
      obtain fs where w: "length (objs (after_report i r v)) = length (objs v)" "callMap (after_report i r v) = callMap v"
          "fcID (objs (after_report i r v) ! i) = fcID (objs v ! i)"
          "trace (tgate (after_report i r v)) = trace (tgate v) @ fs"
          "results_of (fcID ?c) fs = (if fcSettled (objs v ! i) then [] else accepted ?b [r])"
        using reports_effect [OF v(1), of "[r]"] u(3) it(1) unfolding v(2) by auto
      have h: "handler_failed (gateName (tgate s)) i (fcName ?c) err =
          [G (GPush (Sys (ErrorFrame m False (Some (gateName (tgate s))) (Some (snd err)) Application)) Upstream),
           CReport i (fst r) (snd r)]"
        by (simp add: handler_failed_def m_def r_def)
      have "llm_code E pr (CHandler i) s = (s, map (\<lambda>(r, p). CReport i r p) (fst (eApp E i)) @
          handler_failed (gateName (tgate s)) i (fcName ?c) err)"
        using AppHandler Some by (simp add: call_handler_def)
      then have "run_alone (llm_code E pr) (CHandler i # as) s =
          run_alone (llm_code E pr) (handler_failed (gateName (tgate s)) i (fcName ?c) err @ as) ?u" for as
        using reports_alone [OF assms(1)] by simp
      then have run: "run_alone (llm_code E pr) (CHandler i # as) s = run_alone (llm_code E pr) as (after_report i r v)" for as
        using report_alone [OF v(1), of E pr "fst r" "snd r"] unfolding h v_def e_def
        by (simp only: append_Cons append_Nil error_alone prod.collapse)
      have tr: "trace (tgate (after_report i r v)) = trace (tgate s) @ es @ [e] @ fs" using w(4) u(4) v(4) by simp
      have res: "results_of (fcID ?c) (es @ [e] @ fs) = accepted ?b (script E i ?c)"
        using u(5) w(5) it(2) v(2) AppHandler Some by (simp add: script_def accepted_append e_def r_def)
      show ?thesis
        using run tr res w(1-3) u(1-3) v(2,3)
        by (intro exI [of _ "after_report i r v"] exI [of _ "es @ [e] @ fs"]) simp
    qed
  qed (use assms(2) in simp)
qed

lemma call_runs:
  assumes "i < length (objs s)" "\<not> fcStarted (objs s ! i)" "\<not> fcSettled (objs s ! i)"
    and "riHandler (fcItem (objs s ! i)) \<noteq> CancelToolHandler" "runInParallel s"
  shows "\<exists>t es. run_alone (llm_code E pr) [CGo i] s = Some t \<and> trace (tgate t) = trace (tgate s) @ es \<and>
    results_of (fcID (objs s ! i)) es =
      accepted (riCancelOnInterruption (fcItem (objs s ! i))) (script E i (objs s ! i)) \<and>
    map_of (callMap t) (fcID (objs s ! i)) = None"
proof -
  let ?c = "objs s ! i"
  let ?p = "Fun (FunctionCallInProgressFrame (fcID ?c) (fcName ?c) (fcArgs ?c) (riCancelOnInterruption (fcItem ?c)) (fcGroup ?c))"
  define s1 where "s1 = set_obj i (\<lambda>c. c\<lparr>fcStarted := True\<rparr>) s\<lparr>callMap := AList.update (fcID ?c) i (callMap s)\<rparr>"
  define s2 where "s2 = set_obj i (\<lambda>c. c\<lparr>fcHasStop := True\<rparr>) (startCallTimeout i (tell ?p s1))"
  have s1: "llm_code E pr (CGo i) s = (s1, call_program i ?c)"
    using assms by (simp add: runFunctionCall_def s1_def)
  have s2: "i < length (objs s2)" "callMap s2 = AList.update (fcID ?c) i (callMap s)"
    "trace (tgate s2) = trace (tgate s) @ [Sent ?p Downstream, Sent ?p Upstream]"
    "fcID (objs s2 ! i) = fcID ?c" "fcItem (objs s2 ! i) = fcItem ?c" "fcName (objs s2 ! i) = fcName ?c"
    "fcSettled (objs s2 ! i) = fcSettled ?c"
    using assms(1) by (auto simp: s2_def s1_def startCallTimeout_def objs_set_obj Let_def set_obj_def)
  obtain t es where t: "\<And>as. run_alone (llm_code E pr) (CHandler i # as) s2 = run_alone (llm_code E pr) as t"
      "length (objs t) = length (objs s2)" "callMap t = callMap s2" "fcID (objs t ! i) = fcID (objs s2 ! i)"
      "trace (tgate t) = trace (tgate s2) @ es"
      "results_of (fcID (objs s2 ! i)) es =
        accepted (riCancelOnInterruption (fcItem (objs s2 ! i))) (script E i (objs s2 ! i))"
    using handler_effect [of i s2 E pr] s2 assms(3,4) by auto
  let ?t = "set_obj i (\<lambda>c. c\<lparr>fcCancelled := True\<rparr>) (leave_map i (set_obj i disarm_timer t))"
  have "run_alone (llm_code E pr) [CGo i] s = run_alone (llm_code E pr) (CHandler i # [CStopTimer i, CEnd i, CCancelCtx i]) s2"
    by (simp add: s1 call_program_def broadcast_alone_llm s2_def del: llm_code.simps(5) llm_code.simps(10))
  then have "run_alone (llm_code E pr) [CGo i] s = Some ?t" unfolding t(1) by simp
  moreover have "in_map i (set_obj i disarm_timer t)"
    using t(2-4) s2(1,2,4) by (simp add: in_map_def objs_set_obj disarm_timer_def update_conv' split: call_timer.split)
  then have "map_of (callMap ?t) (fcID ?c) = None"
    using t(2-4) s2(1,4) by (simp add: leave_map_def objs_set_obj disarm_timer_def delete_conv' split: call_timer.split)
  moreover have "script E i (objs s2 ! i) = script E i ?c" using s2(5,6) by (simp add: script_def split: handler.split option.split)
  then have "results_of (fcID ?c) ([Sent ?p Downstream, Sent ?p Upstream] @ es) =
      accepted (riCancelOnInterruption (fcItem ?c)) (script E i ?c)" using t(6) s2(4,5) by simp
  moreover have "trace (tgate ?t) = trace (tgate s) @ [Sent ?p Downstream, Sent ?p Upstream] @ es"
    using t(5) s2(3) by (simp add: set_obj_def leave_map_def)
  ultimately show ?thesis by blast
qed

text \<open>
  C27. A call is answered with what its handler said. A call that runs undisturbed sends, as its results, what the
  handler reported_ways up to and including its first final result, the intermediate results of a tool that is not
  asynchronous left out; when the handler fails without one, the result says that the function failed; when there
  is no handler, it says that the function is not available. Exactly one final result is sent when the handler
  gives one, fails or is missing, and the call is in flight no longer.
\<close>

theorem call_answered:
  assumes "i < length (objs s)" "\<not> fcStarted (objs s ! i)" "\<not> fcSettled (objs s ! i)"
    and "riHandler (fcItem (objs s ! i)) \<noteq> CancelToolHandler" "runInParallel s"
  shows "\<exists>t. run_alone (llm_code E pr) [CGo i] s = Some t \<and>
    results_of (fcID (objs s ! i)) (since_then (tgate s) (tgate t)) =
      accepted (riCancelOnInterruption (fcItem (objs s ! i))) (script E i (objs s ! i)) \<and>
    length (filter (\<lambda>(r, p). Final p) (results_of (fcID (objs s ! i)) (since_then (tgate s) (tgate t)))) =
      (if list_ex (\<lambda>(r, p). Final p) (script E i (objs s ! i)) then 1 else 0) \<and>
    map_of (callMap t) (fcID (objs s ! i)) = None"
proof -
  obtain t es where t: "run_alone (llm_code E pr) [CGo i] s = Some t" "trace (tgate t) = trace (tgate s) @ es"
      "results_of (fcID (objs s ! i)) es =
        accepted (riCancelOnInterruption (fcItem (objs s ! i))) (script E i (objs s ! i))"
      "map_of (callMap t) (fcID (objs s ! i)) = None"
    using call_runs [OF assms] by blast
  then have "since_then (tgate s) (tgate t) = es" by (simp add: since_then_def)
  with t show ?thesis using accepted_final by auto
qed

definition a_started :: llm where
  "a_started = a_service\<lparr>objs := [new_call a_registry ''group'' weather_call]\<rparr>"

theorem call_answered_witness:
  "\<exists>t. run_alone (llm_code a_handler_env (\<lambda>c. [])) [CGo 0] a_started = Some t \<and>
    results_of ''c1'' (since_then (tgate a_started) (tgate t)) = [(''sunny'', None)] \<and> map_of (callMap t) ''c1'' = None"
proof -
  have "0 < length (objs a_started)" "\<not> fcStarted (objs a_started ! 0)" "\<not> fcSettled (objs a_started ! 0)"
    "riHandler (fcItem (objs a_started ! 0)) \<noteq> CancelToolHandler" "runInParallel a_started"
    by code_simp+
  from call_answered [OF this, of a_handler_env "\<lambda>c. []"]
  obtain t where "run_alone (llm_code a_handler_env (\<lambda>c. [])) [CGo 0] a_started = Some t"
    "results_of (fcID (objs a_started ! 0)) (since_then (tgate a_started) (tgate t)) =
      accepted (riCancelOnInterruption (fcItem (objs a_started ! 0))) (script a_handler_env 0 (objs a_started ! 0))"
    "map_of (callMap t) (fcID (objs a_started ! 0)) = None" by blast
  moreover have "fcID (objs a_started ! 0) = ''c1''" by code_simp
  moreover have "accepted (riCancelOnInterruption (fcItem (objs a_started ! 0))) (script a_handler_env 0 (objs a_started ! 0)) =
      [(''sunny'', None)]" by code_simp
  ultimately show ?thesis by auto
qed

section \<open>An interruption\<close>

fun cancels :: "gate_event list \<Rightarrow> (string \<times> bool) list" where
  "cancels [] = []"
| "cancels (Sent (Fun (FunctionCallCancelFrame k n run)) Downstream # es) = (k, run) # cancels es"
| "cancels (e # es) = cancels es"

lemma cancels_append [simp]: "cancels (xs @ ys) = cancels xs @ cancels ys"
  by (induction xs rule: cancels.induct) simp_all

lemma cancel_programs:
  "\<exists>t. (\<forall>as. run_alone (llm_code E pr)
      (concat (map (\<lambda>i. CCancelCtx i # broadcast (cancel_frame (cs i) False)) is) @ as) s = run_alone (llm_code E pr) as t) \<and>
    callMap t = callMap s \<and> length (objs t) = length (objs s) \<and>
    (\<forall>j < length (objs s). fcSettled (objs t ! j) = fcSettled (objs s ! j)) \<and>
    (\<exists>es. trace (tgate t) = trace (tgate s) @ es \<and> cancels es = map (\<lambda>i. (fcID (cs i), False)) is)"
proof (induction "is" arbitrary: s)
  case (Cons i "is")
  let ?s = "tell (cancel_frame (cs i) False) (set_obj i (\<lambda>c. c\<lparr>fcCancelled := True\<rparr>) s)"
  obtain t es where t: "\<And>as. run_alone (llm_code E pr)
      (concat (map (\<lambda>i. CCancelCtx i # broadcast (cancel_frame (cs i) False)) is) @ as) ?s = run_alone (llm_code E pr) as t"
    "callMap t = callMap ?s" "length (objs t) = length (objs ?s)"
    "\<forall>j < length (objs ?s). fcSettled (objs t ! j) = fcSettled (objs ?s ! j)"
    "trace (tgate t) = trace (tgate ?s) @ es" "cancels es = map (\<lambda>i. (fcID (cs i), False)) is"
    using Cons [of ?s] by blast
  have "tgate (set_obj i f s) = tgate s" for f by (simp add: set_obj_def)
  then have "trace (tgate t) = trace (tgate s) @
      [Sent (cancel_frame (cs i) False) Downstream, Sent (cancel_frame (cs i) False) Upstream] @ es"
    using t(5) by simp
  moreover have "cancels ([Sent (cancel_frame (cs i) False) Downstream, Sent (cancel_frame (cs i) False) Upstream] @ es) =
      map (\<lambda>i. (fcID (cs i), False)) (i # is)" using t(6) by (simp add: cancel_frame_def)
  moreover have "\<forall>j < length (objs s). fcSettled (objs t ! j) = fcSettled (objs s ! j)"
    using t(4) by (auto simp: objs_set_obj)
  moreover have "run_alone (llm_code E pr)
      (concat (map (\<lambda>i. CCancelCtx i # broadcast (cancel_frame (cs i) False)) (i # is)) @ as) s = run_alone (llm_code E pr) as t" for as
    using t(1) broadcast_alone_llm [of "cancel_frame (cs i) False" E pr] by simp
  ultimately show ?case using t(2,3) by (auto simp: objs_set_obj)
qed auto

lemma end_call_map:
  assumes "map_ok s" "in_map i s"
  shows "map_ok (end_call i s)"
    and "map_of (callMap (end_call i s)) k =
      (case map_of (callMap s) k of None \<Rightarrow> None | Some j \<Rightarrow> if j = i then None else Some j)"
proof -
  have m: "map_of (callMap (end_call i s)) k = (if k = fcID (objs s ! i) then None else map_of (callMap s) k)" for k
    using assms(2) by (simp add: end_call_effect delete_conv')
  show "map_of (callMap (end_call i s)) k =
      (case map_of (callMap s) k of None \<Rightarrow> None | Some j \<Rightarrow> if j = i then None else Some j)"
  proof (cases "map_of (callMap s) k")
    case None
    then show ?thesis by (simp add: m del: map_of_eq_Some_iff)
  next
    case (Some j)
    then have "fcID (objs s ! j) = k" by (rule map_okD(2) [OF assms(1)])
    moreover have "k = fcID (objs s ! i) \<Longrightarrow> j = i" using Some assms(2) by (simp add: in_map_def)
    ultimately show ?thesis using Some by (auto simp: m simp del: map_of_eq_Some_iff)
  qed
  show "map_ok (end_call i s)"
  proof (rule map_okI)
    show "distinct (map fst (callMap (end_call i s)))"
      using assms by (simp add: end_call_effect map_ok_def distinct_delete)
    fix k j
    assume "map_of (callMap (end_call i s)) k = Some j"
    then have "map_of (callMap s) k = Some j" using m [of k] by (simp del: map_of_eq_Some_iff split: if_splits)
    then show "j < length (objs (end_call i s)) \<and> fcID (objs (end_call i s) ! j) = k \<and> fcStarted (objs (end_call i s) ! j)"
      using map_okD [OF assms(1), of k j] by (cases "j = i") (simp_all add: end_call_effect del: map_of_eq_Some_iff)
  qed
qed

lemma end_calls_effect:
  assumes "map_ok s" "distinct is" "list_all (\<lambda>i. in_map i s) is"
  shows "map_of (callMap (fold end_call is s)) k =
      (case map_of (callMap s) k of None \<Rightarrow> None | Some i \<Rightarrow> if i \<in> set is then None else Some i) \<and>
    length (objs (fold end_call is s)) = length (objs s) \<and>
    (\<forall>j < length (objs s). fcSettled (objs (fold end_call is s) ! j) = (fcSettled (objs s ! j) \<or> j \<in> set is)) \<and>
    tgate (fold end_call is s) = tgate s"
  using assms
proof (induction "is" arbitrary: s)
  case Nil
  then show ?case by (simp split: option.split)
next
  case (Cons i "is")
  let ?s = "end_call i s"
  have im: "in_map i s" using Cons.prems by simp
  have "list_all (\<lambda>i. in_map i ?s) is"
    using Cons.prems(2,3) end_call_map(2) [OF Cons.prems(1) im]
    by (auto simp: list_all_iff in_map_def end_call_effect simp del: map_of_eq_Some_iff)
  note IH = Cons.IH [OF end_call_map(1) [OF Cons.prems(1) im] _ this]
  have g: "tgate ?s = tgate s" by (simp add: end_call_def leave_map_def set_obj_def)
  show ?case
    using IH Cons.prems(2) end_call_map(2) [OF Cons.prems(1) im, of k] g
    by (auto simp: end_call_effect simp del: map_of_eq_Some_iff split: option.splits if_splits)
qed

text \<open>
  An interruption ends the calls that do not survive one, and no others. In any state the service can reach,
  handling an interruption announces as cancelled, once each and without asking the model to run, exactly the
  calls in flight whose tool is cancelled by an interruption, whatever the order Go ranges over them in; those
  calls are settled and in flight no longer, and every other call is left as it was.
\<close>

lemma interruption_cancels:
  assumes "ranges E" and "list_all (\<lambda>e. list_all entry (spawned e)) es"
    and "s = fst (sched_run (llm_code E pr) es (new_llm g r d p q, []))"
  shows "\<exists>t. run_alone (llm_code E pr) [CCancelAll] s = Some t \<and>
    mset (cancels (since_then (tgate s) (tgate t))) = mset (map (\<lambda>i. (fcID (objs s ! i), False)) (interruptible_calls s)) \<and>
    (\<forall>k. map_of (callMap t) k =
      (case map_of (callMap s) k of None \<Rightarrow> None | Some i \<Rightarrow> if i \<in> set (interruptible_calls s) then None else Some i)) \<and>
    (\<forall>i < length (objs s). fcSettled (objs t ! i) = (fcSettled (objs s ! i) \<or> i \<in> set (interruptible_calls s)))"
proof -
  have ok: "calls_ok s" using run_calls_ok [OF assms(1,2)] assms(3) by simp
  let ?is = "eOrder E (interruptible_calls s)"
  note is_ok = interruptible_ok [OF ok assms(1)]
  have m: "map_ok s" using ok by (simp add: calls_ok_def)
  note e = end_calls_effect [OF m is_ok(1,2), unfolded is_ok(3)]
  define u where "u = clog_add (map CancelEnded ?is) (fold end_call ?is s)"
  have u: "callMap u = callMap (fold end_call ?is s)" "objs u = objs (fold end_call ?is s)" "tgate u = tgate s"
    using e by (simp_all add: u_def clog_add_def)
  have run: "llm_code E pr CCancelAll s = (u,
      concat (map (\<lambda>i. CCancelCtx i # broadcast (cancel_frame (objs s ! i) False)) ?is) @
      [CNotifyCanceled (map (\<lambda>i. as_call (objs s ! i)) ?is)])"
    by (simp add: cancelFunctionCalls_def u_def end_call_def [abs_def] Let_def)
  obtain t es where t: "\<And>as. run_alone (llm_code E pr)
        (concat (map (\<lambda>i. CCancelCtx i # broadcast (cancel_frame (objs s ! i) False)) ?is) @ as) u = run_alone (llm_code E pr) as t"
      "callMap t = callMap u" "length (objs t) = length (objs u)"
      "\<forall>j < length (objs u). fcSettled (objs t ! j) = fcSettled (objs u ! j)"
      "trace (tgate t) = trace (tgate u) @ es" "cancels es = map (\<lambda>i. (fcID (objs s ! i), False)) ?is"
    using cancel_programs [of E pr "\<lambda>i. objs s ! i" ?is u] by blast
  define w where "w = (if map (\<lambda>i. as_call (objs s ! i)) ?is = [] then t
     else clog_add [NotifyCanceled (map (\<lambda>i. as_call (objs s ! i)) ?is)] t)"
  have keep: "callMap w = callMap t" "objs w = objs t" "tgate w = tgate t" by (simp_all add: w_def clog_add_def)
  have "run_alone (llm_code E pr) [CCancelAll] s = Some w" using run t(1) by (simp add: w_def)
  moreover have "mset (map f ?is) = mset (map f (interruptible_calls s))" for f :: "nat \<Rightarrow> string \<times> bool"
    using assms(1) by (simp add: ranges_def)
  moreover have "since_then (tgate s) (tgate w) = es" using t(5) u(3) keep(3) by (simp add: since_then_def)
  ultimately show ?thesis
    using e t(2-4,6) u keep by (intro exI [of _ w]) auto
qed

definition one_in_flight :: "llm_act sched list" where
  "one_in_flight = [Spawn [CRun [weather_call]], Run 0, Spawn [CGo 0], Run 1]"

theorem interruption_cancels_witness:
  "\<exists>t. run_alone (llm_code a_handler_env (\<lambda>c. [])) [CCancelAll]
      (fst (sched_run (llm_code a_handler_env (\<lambda>c. [])) one_in_flight (a_service, []))) = Some t \<and>
    mset (cancels (since_then (tgate (fst (sched_run (llm_code a_handler_env (\<lambda>c. [])) one_in_flight (a_service, [])))) (tgate t))) =
      {#(''c1'', False)#}"
proof -
  have r: "ranges a_handler_env" by (simp add: ranges_def a_handler_env_def)
  have e: "list_all (\<lambda>e. list_all entry (spawned e)) one_in_flight" by code_simp
  let ?s = "fst (sched_run (llm_code a_handler_env (\<lambda>c. [])) one_in_flight (a_service, []))"
  have "map (\<lambda>i. (fcID (objs ?s ! i), False)) (interruptible_calls ?s) = [(''c1'', False)]" by code_simp
  with interruption_cancels [OF r e, of ?s "\<lambda>c. []"] show ?thesis by (force simp: a_service_def)
qed

section \<open>Where the calls depart from what the code means to do\<close>

text \<open>
  A call whose final result was accepted stays among the calls in flight until its handler returns. An
  interruption in between announces it as cancelled, although it was answered; the announcement is a system
  frame and may overtake the result.
\<close>

lemma answered_call_cancelled:
  "let s = fst (sched_run (llm_code a_handler_env (\<lambda>c. [])) a_call_run (a_service, []))
   in clog s = [Accepted 0 True, CancelEnded 0]"
  by code_simp

text \<open>An update addressed to a service is compared with the base embedded in it, and passed on.\<close>

lemma addressed_update_passed_on:
  "llm_ProcessFrame n False ts st q u
     (Set (LLMUpdateSettingsFrame \<lparr>suDelta = x, suService = Some n, suReachInactiveServices = False\<rparr>)) d =
   [G (GCheck (Set (LLMUpdateSettingsFrame \<lparr>suDelta = x, suService = Some n, suReachInactiveServices = False\<rparr>))),
    G (GPush (Set (LLMUpdateSettingsFrame \<lparr>suDelta = x, suService = Some n, suReachInactiveServices = False\<rparr>)) d)]"
  by simp

end
