(* ===== verification/Clock_Queue.thy ===== *)
theory Clock_Queue
  imports Frames "HOL-Library.Multiset"
begin

text \<open>
  Timed delivery, \<^verbatim>\<open>src/transport/clockqueue.go\<close>: frames wait in a binary heap until the pipeline clock
  reaches their presentation timestamp. \<open>heap_up\<close>, \<open>heap_down\<close>, \<open>heap_Push\<close> and \<open>heap_Pop\<close> are the loops of
  Go's \<open>container/heap\<close> over a slice; the locale \<open>heap_order\<close> states what they need of \<open>Less\<close>, and the
  queue's own \<open>Less\<close> interprets it.
\<close>

section \<open>container/heap\<close>

definition heap_parent :: "nat \<Rightarrow> nat" where
  "heap_parent j = (j - 1) div 2"

definition swap :: "nat \<Rightarrow> nat \<Rightarrow> 'a list \<Rightarrow> 'a list" where
  "swap i j h = h[i := h ! j, j := h ! i]"

function heap_up :: "('a \<Rightarrow> 'a \<Rightarrow> bool) \<Rightarrow> nat \<Rightarrow> 'a list \<Rightarrow> 'a list" where
  "heap_up lt j h =
    (let i = heap_parent j in
     if i = j \<or> \<not> lt (h ! j) (h ! i) then h else heap_up lt i (swap i j h))"
  by pat_completeness auto
termination by (relation "measure (\<lambda>(lt, j, h). j)") (auto simp: heap_parent_def)

function heap_down :: "('a \<Rightarrow> 'a \<Rightarrow> bool) \<Rightarrow> nat \<Rightarrow> nat \<Rightarrow> 'a list \<Rightarrow> 'a list" where
  "heap_down lt i n h =
    (let j1 = 2 * i + 1 in
     if j1 \<ge> n then h
     else let j = (if j1 + 1 < n \<and> lt (h ! (j1 + 1)) (h ! j1) then j1 + 1 else j1) in
       if \<not> lt (h ! j) (h ! i) then h else heap_down lt j n (swap i j h))"
  by pat_completeness auto
termination by (relation "measure (\<lambda>(lt, i, n, h). n - i)") (auto simp: Let_def)

declare heap_up.simps [simp del] heap_down.simps [simp del]

definition heap_Push :: "('a \<Rightarrow> 'a \<Rightarrow> bool) \<Rightarrow> 'a \<Rightarrow> 'a list \<Rightarrow> 'a list" where
  "heap_Push lt x h = heap_up lt (length h) (h @ [x])"

definition heap_Pop :: "('a \<Rightarrow> 'a \<Rightarrow> bool) \<Rightarrow> 'a list \<Rightarrow> 'a \<times> 'a list" where
  "heap_Pop lt h =
    (let n = length h - 1; h' = heap_down lt 0 n (swap 0 n h) in (h' ! n, take n h'))"

section \<open>What the heap promises\<close>

lemma length_swap [simp]: "length (swap i j h) = length h"
  by (simp add: swap_def)

lemma nth_swap:
  "i < length h \<Longrightarrow> j < length h \<Longrightarrow> k < length h \<Longrightarrow>
   swap i j h ! k = (if k = j then h ! i else if k = i then h ! j else h ! k)"
  by (simp add: swap_def nth_list_update)

lemma mset_swap: "i < length h \<Longrightarrow> j < length h \<Longrightarrow> mset (swap i j h) = mset h"
  by (simp add: swap_def mset_swap)

lemma parent_less: "0 < k \<Longrightarrow> heap_parent k < k"
  by (auto simp: heap_parent_def)

lemma parent_child: "0 < k \<Longrightarrow> heap_parent k = i \<longleftrightarrow> k = 2 * i + 1 \<or> k = 2 * i + 2"
  by (auto simp: heap_parent_def)

lemma length_heap_up [simp]: "length (heap_up lt j h) = length h"
  by (induction lt j h rule: heap_up.induct) (subst heap_up.simps, simp add: Let_def)

lemma mset_heap_up: "j < length h \<Longrightarrow> mset (heap_up lt j h) = mset h"
proof (induction lt j h rule: heap_up.induct)
  case (1 lt j h)
  have "heap_parent j < length h" using 1(2) by (simp add: heap_parent_def)
  with 1 show ?case by (subst heap_up.simps) (simp add: Let_def mset_swap)
qed

lemma length_heap_down [simp]: "length (heap_down lt i n h) = length h"
  by (induction lt i n h rule: heap_down.induct) (subst heap_down.simps, simp add: Let_def)

lemma mset_heap_down: "n \<le> length h \<Longrightarrow> mset (heap_down lt i n h) = mset h"
  by (induction lt i n h rule: heap_down.induct)
    (subst heap_down.simps, simp add: Let_def mset_swap)

lemma heap_down_beyond: "n \<le> k \<Longrightarrow> k < length h \<Longrightarrow> heap_down lt i n h ! k = h ! k"
  by (induction lt i n h rule: heap_down.induct)
    (subst heap_down.simps, simp add: Let_def nth_swap)

locale heap_order =
  fixes lt :: "'a \<Rightarrow> 'a \<Rightarrow> bool"
  assumes irrefl: "\<not> lt a a"
    and trans: "lt a b \<Longrightarrow> lt b c \<Longrightarrow> lt a c"
    and weak: "\<not> lt a b \<Longrightarrow> \<not> lt b c \<Longrightarrow> \<not> lt a c"
begin

definition heap_upto :: "nat \<Rightarrow> 'a list \<Rightarrow> bool" where
  "heap_upto n h \<longleftrightarrow> (\<forall>k < n. 0 < k \<longrightarrow> \<not> lt (h ! k) (h ! heap_parent k))"

text \<open>A heap but for the link above \<open>j\<close>, which an insertion repairs from below.\<close>

definition above :: "nat \<Rightarrow> 'a list \<Rightarrow> bool" where
  "above j h \<longleftrightarrow> (\<forall>k < length h. 0 < k \<longrightarrow> k \<noteq> j \<longrightarrow> \<not> lt (h ! k) (h ! heap_parent k)) \<and>
     (\<forall>k < length h. 0 < k \<longrightarrow> 0 < j \<longrightarrow> heap_parent k = j \<longrightarrow> \<not> lt (h ! k) (h ! heap_parent j))"

text \<open>A heap but for the links below \<open>i\<close>, which a removal repairs from above.\<close>

definition below :: "nat \<Rightarrow> nat \<Rightarrow> 'a list \<Rightarrow> bool" where
  "below i n h \<longleftrightarrow> (\<forall>k < n. 0 < k \<longrightarrow> heap_parent k \<noteq> i \<longrightarrow> \<not> lt (h ! k) (h ! heap_parent k)) \<and>
     (\<forall>k < n. 0 < k \<longrightarrow> 0 < i \<longrightarrow> heap_parent k = i \<longrightarrow> \<not> lt (h ! k) (h ! heap_parent i))"

lemma asym: "lt a b \<Longrightarrow> \<not> lt b a"
  using irrefl trans by blast

lemma root_least: "heap_upto n h \<Longrightarrow> k < n \<Longrightarrow> \<not> lt (h ! k) (h ! 0)"
proof (induction k rule: less_induct)
  case (less k)
  show ?case
  proof (cases "k = 0")
    case True
    then show ?thesis using irrefl by simp
  next
    case False
    then have p: "heap_parent k < k" by (simp add: parent_less)
    with less have "\<not> lt (h ! heap_parent k) (h ! 0)" by auto
    moreover have "\<not> lt (h ! k) (h ! heap_parent k)"
      using less.prems False by (simp add: heap_upto_def)
    ultimately show ?thesis using weak by blast
  qed
qed

lemma above_swap:
  assumes ab: "above j h" and j: "j < length h" "0 < j" and lt: "lt (h ! j) (h ! heap_parent j)"
  shows "above (heap_parent j) (swap (heap_parent j) j h)"
proof -
  let ?i = "heap_parent j" and ?s = "swap (heap_parent j) j h"
  have i: "?i < j" using j by (simp add: parent_less)
  have s: "?s ! k = (if k = j then h ! ?i else if k = ?i then h ! j else h ! k)" if "k < length h" for k
    using that i j by (simp add: nth_swap)
  have ok: "\<not> lt (h ! k) (h ! heap_parent k)" if "k < length h" "0 < k" "k \<noteq> j" for k
    using ab that by (simp add: above_def)
  have ch: "\<not> lt (h ! k) (h ! ?i)" if "k < length h" "0 < k" "heap_parent k = j" for k
    using ab that j by (simp add: above_def)
  have 1: "\<not> lt (?s ! k) (?s ! heap_parent k)" if k: "k < length h" "0 < k" "k \<noteq> ?i" for k
  proof -
    have pk: "heap_parent k < length h" "heap_parent k < k" using k parent_less [of k] by auto
    consider "k = j" | "k \<noteq> j" "heap_parent k = j" | "k \<noteq> j" "heap_parent k = ?i"
      | "k \<noteq> j" "heap_parent k \<noteq> j" "heap_parent k \<noteq> ?i" by blast
    then show ?thesis
    proof cases
      case 1
      then show ?thesis using s k pk i asym [OF lt] j by simp
    next
      case 2
      then show ?thesis using s k pk ch by simp
    next
      case 3
      have "\<not> lt (h ! k) (h ! ?i)" using ok [of k] k 3 by simp
      with weak [of "h ! k" "h ! ?i" "h ! j"] asym [OF lt] have "\<not> lt (h ! k) (h ! j)" by blast
      then show ?thesis using s k pk 3 i by simp
    next
      case 4
      then show ?thesis using s k pk ok by simp
    qed
  qed
  have 2: "\<not> lt (?s ! k) (?s ! heap_parent ?i)"
    if k: "k < length h" "0 < k" "0 < ?i" "heap_parent k = ?i" for k
  proof -
    have pi: "heap_parent ?i < ?i" using k by (simp add: parent_less)
    then have top: "?s ! heap_parent ?i = h ! heap_parent ?i" using s i j by simp
    have up: "\<not> lt (h ! ?i) (h ! heap_parent ?i)" using ok [of ?i] k i j by simp
    show ?thesis
    proof (cases "k = j")
      case True
      then show ?thesis using s k top up by simp
    next
      case False
      have "?i < k" using k parent_less [of k] by simp
      moreover have "\<not> lt (h ! k) (h ! ?i)" using ok [of k] k False by simp
      ultimately show ?thesis using s k top False weak [OF _ up] by simp
    qed
  qed
  from 1 2 show ?thesis by (simp add: above_def)
qed

lemma heap_up_heap: "j < length h \<Longrightarrow> above j h \<Longrightarrow> heap_upto (length h) (heap_up lt j h)"
proof (induction j arbitrary: h rule: less_induct)
  case (less j)
  let ?i = "heap_parent j"
  show ?case
  proof (cases "?i = j \<or> \<not> lt (h ! j) (h ! ?i)")
    case True
    then have "heap_up lt j h = h" by (subst heap_up.simps) (simp add: Let_def)
    moreover have "\<not> lt (h ! j) (h ! ?i)" using True irrefl by auto
    ultimately show ?thesis using less.prems by (auto simp: heap_upto_def above_def)
  next
    case False
    then have "j \<noteq> 0" by (auto simp: heap_parent_def)
    with False less.prems have "above ?i (swap ?i j h)" by (intro above_swap) auto
    moreover have "?i < j" using \<open>j \<noteq> 0\<close> by (simp add: parent_less)
    ultimately have "heap_upto (length h) (heap_up lt ?i (swap ?i j h))"
      using less.IH [of ?i "swap ?i j h"] less.prems by simp
    with False show ?thesis by (subst heap_up.simps) (simp add: Let_def)
  qed
qed

lemma below_swap:
  assumes be: "below i n h" and n: "n \<le> length h" and j: "j < n" "0 < j" "heap_parent j = i"
    and least: "\<And>k. k < n \<Longrightarrow> 0 < k \<Longrightarrow> heap_parent k = i \<Longrightarrow> \<not> lt (h ! k) (h ! j)"
    and lt: "lt (h ! j) (h ! i)"
  shows "below j n (swap i j h)"
proof -
  let ?s = "swap i j h"
  have i: "i < j" using j parent_less [of j] by simp
  have s: "?s ! k = (if k = j then h ! i else if k = i then h ! j else h ! k)" if "k < n" for k
    using that i j n by (simp add: nth_swap)
  have ok: "\<not> lt (h ! k) (h ! heap_parent k)" if "k < n" "0 < k" "heap_parent k \<noteq> i" for k
    using be that by (simp add: below_def)
  have 1: "\<not> lt (?s ! k) (?s ! heap_parent k)" if k: "k < n" "0 < k" "heap_parent k \<noteq> j" for k
  proof -
    have pk: "heap_parent k < n" "heap_parent k < k" using k parent_less [of k] by auto
    consider "heap_parent k = i" "k = j" | "heap_parent k = i" "k \<noteq> j" | "heap_parent k \<noteq> i" "k = i"
      | "heap_parent k \<noteq> i" "k \<noteq> i" by blast
    then show ?thesis
    proof cases
      case 1
      then show ?thesis using s k pk i asym [OF lt] by simp
    next
      case 2
      then show ?thesis using s k pk i least [of k] by simp
    next
      case 3
      have "\<not> lt (h ! j) (h ! heap_parent i)" using be j k 3 by (simp add: below_def)
      then show ?thesis using s k pk 3 i by simp
    next
      case 4
      moreover have "k \<noteq> j" using 4 j by auto
      ultimately show ?thesis using s k pk ok by simp
    qed
  qed
  have 2: "\<not> lt (?s ! k) (?s ! heap_parent j)" if k: "k < n" "0 < k" "heap_parent k = j" for k
  proof -
    have "j < k" using k parent_less [of k] by simp
    moreover have "\<not> lt (h ! k) (h ! j)" using ok [of k] k i by simp
    ultimately show ?thesis using s k i j by simp
  qed
  from 1 2 show ?thesis by (simp add: below_def)
qed

lemma heap_down_heap:
  "n \<le> length h \<Longrightarrow> below i n h \<Longrightarrow> heap_upto n (heap_down lt i n h)"
proof (induction "n - i" arbitrary: i h rule: less_induct)
  case less
  let ?j1 = "2 * i + 1"
  let ?j = "if ?j1 + 1 < n \<and> lt (h ! (?j1 + 1)) (h ! ?j1) then ?j1 + 1 else ?j1"
  have ok: "heap_upto n h" if "\<And>k. k < n \<Longrightarrow> 0 < k \<Longrightarrow> heap_parent k = i \<Longrightarrow> \<not> lt (h ! k) (h ! i)"
    using less.prems(2) that by (auto simp: heap_upto_def below_def)
  show ?case
  proof (cases "n \<le> ?j1")
    case True
    then have "heap_down lt i n h = h" by (subst heap_down.simps) (simp add: Let_def)
    moreover have "heap_upto n h" using True by (intro ok) (auto simp: parent_child)
    ultimately show ?thesis by simp
  next
    case False
    have j: "?j < n" "0 < ?j" "heap_parent ?j = i" "i < ?j"
      using False by (auto simp: heap_parent_def)
    have least: "\<not> lt (h ! k) (h ! ?j)" if "k < n" "0 < k" "heap_parent k = i" for k
      using that irrefl asym [of "h ! (?j1 + 1)" "h ! ?j1"] by (auto simp: parent_child)
    show ?thesis
    proof (cases "lt (h ! ?j) (h ! i)")
      case True
      have "heap_upto n (heap_down lt ?j n (swap i ?j h))"
      proof (rule less.hyps)
        show "n - ?j < n - i" using j(1,4) by linarith
        show "n \<le> length (swap i ?j h)" using less.prems(1) by simp
        show "below ?j n (swap i ?j h)"
          by (rule below_swap [OF less.prems(2,1) j(1-3) least True])
      qed
      moreover have "heap_down lt i n h = heap_down lt ?j n (swap i ?j h)"
        using True False by (subst heap_down.simps) (simp only: Let_def if_False if_True not_True_eq_False)
      ultimately show ?thesis by simp
    next
      case nlt: False
      then have "heap_down lt i n h = h" using False
        by (subst heap_down.simps) (simp only: Let_def if_False if_True not_False_eq_True)
      moreover have "heap_upto n h" using least nlt weak by (intro ok) blast
      ultimately show ?thesis by simp
    qed
  qed
qed

lemma Push_heap:
  assumes "heap_upto (length h) h"
  shows "heap_upto (length (heap_Push lt x h)) (heap_Push lt x h)"
    and "mset (heap_Push lt x h) = add_mset x (mset h)"
proof -
  have "above (length h) (h @ [x])"
  proof -
    have p: "heap_parent k < length h" if "k < length h" "0 < k" for k
      using that parent_less [of k] by simp
    have "heap_parent k \<noteq> length h" if "k < Suc (length h)" "0 < k" for k
      using that parent_less [of k] by simp
    with assms p show ?thesis by (auto simp: above_def heap_upto_def nth_append less_Suc_eq)
  qed
  then show "heap_upto (length (heap_Push lt x h)) (heap_Push lt x h)"
    using heap_up_heap [of "length h" "h @ [x]"] by (simp add: heap_Push_def)
  show "mset (heap_Push lt x h) = add_mset x (mset h)"
    by (simp add: heap_Push_def mset_heap_up)
qed

lemma Pop_heap:
  assumes hp: "heap_upto (length h) h" and ne: "h \<noteq> []" and pop: "heap_Pop lt h = (x, h')"
  shows "x = h ! 0" and "mset h = add_mset x (mset h')" and "heap_upto (length h') h'"
    and "\<forall>y \<in> set h'. \<not> lt y x"
proof -
  let ?n = "length h - 1" and ?s = "swap 0 (length h - 1) h"
  let ?d = "heap_down lt 0 ?n ?s"
  have n: "?n < length h" "0 < length h" using ne by auto
  have x: "x = ?d ! ?n" and h': "h' = take ?n ?d" using pop by (simp_all add: heap_Pop_def Let_def)
  have "?d ! ?n = ?s ! ?n" using n by (intro heap_down_beyond) simp_all
  then show x0: "x = h ! 0" using x n by (simp add: nth_swap)
  have "mset ?d = mset h" using n by (simp add: mset_heap_down mset_swap)
  moreover have "?d = take ?n ?d @ [?d ! ?n]"
    using n by (metis Suc_diff_1 length_heap_down length_swap lessI take_Suc_conv_app_nth take_all_iff order_refl)
  ultimately show m: "mset h = add_mset x (mset h')"
    unfolding x h' by (metis add_mset_add_single mset.simps(1) mset.simps(2) mset_append)
  have "below 0 ?n ?s"
  proof -
    have "\<not> lt (?s ! k) (?s ! heap_parent k)" if k: "k < ?n" "0 < k" "heap_parent k \<noteq> 0" for k
    proof -
      have "heap_parent k < k" using k by (simp add: parent_less)
      then show ?thesis using k hp n by (simp add: nth_swap heap_upto_def)
    qed
    then show ?thesis by (simp add: below_def)
  qed
  then have "heap_upto ?n ?d" by (intro heap_down_heap) simp_all
  moreover have "heap_parent k < m" if "k < m" "0 < k" for k m
    using that parent_less [of k] by simp
  ultimately show "heap_upto (length h') h'" unfolding h' heap_upto_def by simp
  show "\<forall>y \<in> set h'. \<not> lt y x"
  proof
    fix y assume "y \<in> set h'"
    then have "y \<in> set h" using m by (metis insertCI set_mset_add_mset_insert set_mset_mset)
    then obtain k where "k < length h" "y = h ! k" by (auto simp: in_set_conv_nth)
    then show "\<not> lt y x" using root_least [OF hp] x0 by simp
  qed
qed

end

section \<open>The clock queue\<close>

record timedFrame =
  tf_pts :: duration
  tf_seq :: u64
  tf_frame :: frame

definition timed_Less :: "timedFrame \<Rightarrow> timedFrame \<Rightarrow> bool" where
  "timed_Less a b = (if tf_pts a \<noteq> tf_pts b then tf_pts a < tf_pts b else tf_seq a < tf_seq b)"

interpretation th: heap_order timed_Less
  by unfold_locales (auto simp: timed_Less_def split: if_splits)

record clockQueue =
  cq_heap :: "timedFrame list"
  cq_seq :: u64
  cq_running :: bool

definition newClockQueue :: clockQueue where
  "newClockQueue = \<lparr>cq_heap = [], cq_seq = 0, cq_running = False\<rparr>"

definition cq_stop :: "clockQueue \<Rightarrow> clockQueue" where
  "cq_stop q = (if \<not> cq_running q then q else q\<lparr>cq_running := False, cq_heap := []\<rparr>)"

definition cq_start :: "clockQueue \<Rightarrow> clockQueue" where
  "cq_start q = (cq_stop q)\<lparr>cq_running := True\<rparr>"

definition cq_drop :: "clockQueue \<Rightarrow> clockQueue" where
  "cq_drop q = q\<lparr>cq_heap := []\<rparr>"

definition cq_push :: "int \<Rightarrow> frame \<Rightarrow> clockQueue \<Rightarrow> clockQueue" where
  "cq_push p f q =
    q\<lparr>cq_heap := heap_Push timed_Less \<lparr>tf_pts = p, tf_seq = cq_seq q, tf_frame = f\<rparr> (cq_heap q),
      cq_seq := cq_seq q + 1\<rparr>"

definition cq_next :: "clockQueue \<Rightarrow> timedFrame option" where
  "cq_next q = (if cq_heap q = [] then None else Some (cq_heap q ! 0))"

definition cq_take :: "u64 \<Rightarrow> clockQueue \<Rightarrow> timedFrame option \<times> clockQueue" where
  "cq_take sq q =
    (if cq_heap q = [] \<or> tf_seq (cq_heap q ! 0) \<noteq> sq then (None, q)
     else case heap_Pop timed_Less (cq_heap q) of (it, h) \<Rightarrow> (Some it, q\<lparr>cq_heap := h\<rparr>))"

text \<open>
  The delivery goroutine between its shared accesses: about to look, waiting for the timer of the
  frame it saw or for a notification, or about to take a frame that is due. \<open>now\<close> is the clock
  reading of the moment; \<open>sent\<close> logs what was pushed downstream, with the reading it was pushed at.
\<close>

datatype run_pc = CLook | CIdle | CTimer timedFrame | CDue timedFrame | CExited

record clockRun =
  cq :: clockQueue
  cpc :: run_pc
  now :: duration
  sent :: "(duration \<times> timedFrame) list"

datatype clock_action = Tick duration | PushAt int frame | DropAll | Look | Notified | TimerFires | Take | Cancelled

fun clock_step :: "clock_action \<Rightarrow> clockRun \<Rightarrow> clockRun option" where
  "clock_step (Tick d) s = (if 0 \<le> d then Some (s\<lparr>now := now s + d\<rparr>) else None)"
| "clock_step (PushAt p f) s = Some (s\<lparr>cq := cq_push p f (cq s)\<rparr>)"
| "clock_step DropAll s = Some (s\<lparr>cq := cq_drop (cq s)\<rparr>)"
| "clock_step Look s =
    (if cpc s \<noteq> CLook then None
     else case cq_next (cq s) of
       None \<Rightarrow> Some (s\<lparr>cpc := CIdle\<rparr>)
     | Some it \<Rightarrow> Some (s\<lparr>cpc := if 0 < tf_pts it - now s then CTimer it else CDue it\<rparr>))"
| "clock_step Notified s =
    (case cpc s of CIdle \<Rightarrow> Some (s\<lparr>cpc := CLook\<rparr>) | CTimer it \<Rightarrow> Some (s\<lparr>cpc := CLook\<rparr>) | _ \<Rightarrow> None)"
| "clock_step TimerFires s =
    (case cpc s of
       CTimer it \<Rightarrow> if tf_pts it \<le> now s then Some (s\<lparr>cpc := CDue it\<rparr>) else None
     | _ \<Rightarrow> None)"
| "clock_step Take s =
    (case cpc s of
       CDue it \<Rightarrow>
         (case cq_take (tf_seq it) (cq s) of
            (Some due, q) \<Rightarrow> Some (s\<lparr>cq := q, cpc := CLook, sent := sent s @ [(now s, due)]\<rparr>)
          | (None, q) \<Rightarrow> Some (s\<lparr>cpc := CLook\<rparr>))
     | _ \<Rightarrow> None)"
| "clock_step Cancelled s =
    (case cpc s of CIdle \<Rightarrow> Some (s\<lparr>cpc := CExited\<rparr>) | CTimer it \<Rightarrow> Some (s\<lparr>cpc := CExited\<rparr>) | _ \<Rightarrow> None)"

fun clock_run :: "clock_action list \<Rightarrow> clockRun \<Rightarrow> clockRun option" where
  "clock_run [] s = Some s"
| "clock_run (a # as) s = (case clock_step a s of None \<Rightarrow> None | Some s' \<Rightarrow> clock_run as s')"

definition clock_init :: "duration \<Rightarrow> clockRun" where
  "clock_init t = \<lparr>cq = cq_start newClockQueue, cpc = CLook, now = t, sent = []\<rparr>"

section \<open>Invariant of the queue\<close>

text \<open>The heap property, and sequence numbers that are all used up and all different.\<close>

definition cq_inv :: "clockQueue \<Rightarrow> bool" where
  "cq_inv q \<longleftrightarrow> th.heap_upto (length (cq_heap q)) (cq_heap q) \<and>
     (\<forall>x \<in> set (cq_heap q). tf_seq x < cq_seq q) \<and> inj_on tf_seq (set (cq_heap q)) \<and> distinct (cq_heap q)"

lemma cq_inv_new [simp]: "cq_inv newClockQueue"
  by (simp add: cq_inv_def newClockQueue_def th.heap_upto_def)

lemma newClockQueue_fields [simp]: "cq_heap newClockQueue = []" "cq_seq newClockQueue = 0"
  by (simp_all add: newClockQueue_def)

lemma cq_inv_drop [simp]: "cq_inv (cq_drop q)"
  by (simp add: cq_inv_def cq_drop_def th.heap_upto_def)

lemma cq_inv_start: "cq_inv q \<Longrightarrow> cq_inv (cq_start q)"
  by (auto simp: cq_inv_def cq_start_def cq_stop_def th.heap_upto_def)

lemma seq_succ: "x < c \<Longrightarrow> unat c + 1 < 2 ^ 64 \<Longrightarrow> x < c + (1 :: u64)"
  and seq_self: "unat c + 1 < 2 ^ 64 \<Longrightarrow> c < c + (1 :: u64)"
  by (simp_all add: word_less_nat_alt unat_word_ariths)

lemma mset_cq_push:
  "cq_inv q \<Longrightarrow> mset (cq_heap (cq_push p f q)) =
     add_mset \<lparr>tf_pts = p, tf_seq = cq_seq q, tf_frame = f\<rparr> (mset (cq_heap q))"
  by (simp add: cq_push_def cq_inv_def th.Push_heap(2))

lemma set_cq_push:
  "cq_inv q \<Longrightarrow> set (cq_heap (cq_push p f q)) =
     insert \<lparr>tf_pts = p, tf_seq = cq_seq q, tf_frame = f\<rparr> (set (cq_heap q))"
  using arg_cong [OF mset_cq_push, of q set_mset p f] by simp

lemma cq_inv_push:
  assumes "cq_inv q" and "unat (cq_seq q) + 1 < 2 ^ 64"
  shows "cq_inv (cq_push p f q)"
proof -
  have new: "tf_seq x \<noteq> cq_seq q" if "x \<in> set (cq_heap q)" for x
    using assms(1) that by (auto simp: cq_inv_def)
  have "th.heap_upto (length (cq_heap (cq_push p f q))) (cq_heap (cq_push p f q))"
    using assms(1) by (simp add: cq_push_def cq_inv_def th.Push_heap(1))
  moreover have "\<forall>x \<in> set (cq_heap (cq_push p f q)). tf_seq x < cq_seq (cq_push p f q)"
    using assms set_cq_push [OF assms(1), of p f]
    by (auto simp: cq_inv_def cq_push_def seq_self intro: seq_succ)
  moreover have "inj_on tf_seq (set (cq_heap (cq_push p f q)))"
    using assms(1) new set_cq_push [OF assms(1), of p f] by (auto simp: cq_inv_def)
  moreover have "distinct (cq_heap (cq_push p f q))"
  proof -
    let ?x = "\<lparr>tf_pts = p, tf_seq = cq_seq q, tf_frame = f\<rparr>"
    have "?x \<notin> set (cq_heap q)" using new by (metis timedFrame.select_convs(2))
    with assms(1) have "distinct (?x # cq_heap q)" by (simp add: cq_inv_def)
    with mset_cq_push [OF assms(1), of p f] show ?thesis
      by (metis mset.simps(2) mset_eq_imp_distinct_iff)
  qed
  ultimately show ?thesis by (simp add: cq_inv_def)
qed

lemma cq_take_Some:
  assumes "cq_inv q" and "cq_take sq q = (Some it, q')"
  shows "mset (cq_heap q) = add_mset it (mset (cq_heap q'))" and "tf_seq it = sq"
    and "cq_seq q' = cq_seq q" and "\<forall>x \<in> set (cq_heap q'). timed_Less it x" and "cq_inv q'"
proof -
  from assms(2) have ne: "cq_heap q \<noteq> []" and sq: "tf_seq (cq_heap q ! 0) = sq"
    and pop: "heap_Pop timed_Less (cq_heap q) = (it, cq_heap q')" and q': "cq_seq q' = cq_seq q"
    by (auto simp: cq_take_def split: if_splits prod.splits)
  have hp: "th.heap_upto (length (cq_heap q)) (cq_heap q)" using assms(1) by (simp add: cq_inv_def)
  note P = th.Pop_heap [OF hp ne pop]
  show m: "mset (cq_heap q) = add_mset it (mset (cq_heap q'))" by (rule P(2))
  show "tf_seq it = sq" using P(1) sq by simp
  show "cq_seq q' = cq_seq q" by (rule q')
  have s: "set (cq_heap q) = insert it (set (cq_heap q'))"
    using arg_cong [OF m, of set_mset] by simp
  have d: "distinct (it # cq_heap q')"
    using assms(1) m by (metis cq_inv_def mset.simps(2) mset_eq_imp_distinct_iff)
  show "\<forall>x \<in> set (cq_heap q'). timed_Less it x"
  proof
    fix x assume x: "x \<in> set (cq_heap q')"
    with d have "x \<noteq> it" by auto
    with assms(1) s x have "tf_seq x \<noteq> tf_seq it" by (auto simp: cq_inv_def inj_on_def)
    moreover have "\<not> timed_Less x it" using P(4) x by blast
    ultimately show "timed_Less it x" by (auto simp: timed_Less_def split: if_splits)
  qed
  show "cq_inv q'" using assms(1) P(3) s d q' by (auto simp: cq_inv_def)
qed


section \<open>Delivery in order\<close>

text \<open>Taking the earliest frame until none is left, as the delivery goroutine does once all are due.\<close>

fun cq_drain :: "nat \<Rightarrow> clockQueue \<Rightarrow> timedFrame list" where
  "cq_drain 0 q = []"
| "cq_drain (Suc n) q =
    (case cq_next q of
       None \<Rightarrow> []
     | Some it \<Rightarrow> (case cq_take (tf_seq it) q of
         (Some due, q') \<Rightarrow> due # cq_drain n q'
       | (None, q') \<Rightarrow> []))"

lemma cq_next_take:
  assumes "cq_next q = Some it"
  obtains due q' where "cq_take (tf_seq it) q = (Some due, q')"
  using assms by (cases "heap_Pop timed_Less (cq_heap q)") (auto simp: cq_next_def cq_take_def split: if_splits)

lemma cq_drain_spec:
  "cq_inv q \<Longrightarrow> n = length (cq_heap q) \<Longrightarrow>
   mset (cq_drain n q) = mset (cq_heap q) \<and> sorted_wrt timed_Less (cq_drain n q)"
proof (induction n arbitrary: q)
  case 0
  then show ?case by simp
next
  case (Suc n)
  then have "cq_heap q \<noteq> []" by auto
  then obtain it where it: "cq_next q = Some it" by (simp add: cq_next_def)
  then obtain due q' where t: "cq_take (tf_seq it) q = (Some due, q')" by (rule cq_next_take)
  note T = cq_take_Some [OF Suc.prems(1) t]
  have "length (cq_heap q') = n" using arg_cong [OF T(1), of size] Suc.prems(2) by simp
  with Suc.IH [OF T(5)] have IH: "mset (cq_drain n q') = mset (cq_heap q')"
    "sorted_wrt timed_Less (cq_drain n q')" by auto
  have "set (cq_drain n q') = set (cq_heap q')" using arg_cong [OF IH(1), of set_mset] by simp
  with IH T(1,4) it t show ?case by simp
qed

lemma sorted_wrt_unique:
  assumes "\<And>x y. R x y \<Longrightarrow> \<not> R y x"
  shows "sorted_wrt R xs \<Longrightarrow> sorted_wrt R ys \<Longrightarrow> mset xs = mset ys \<Longrightarrow> xs = ys"
proof (induction xs arbitrary: ys)
  case Nil
  then show ?case by simp
next
  case (Cons x xs)
  then obtain y ys' where ys: "ys = y # ys'" by (cases ys) auto
  have "x = y"
  proof (rule ccontr)
    assume ne: "x \<noteq> y"
    from Cons.prems(3) ys have "set (x # xs) = set (y # ys')" by (metis set_mset_mset)
    with ne have "x \<in> set ys'" "y \<in> set xs" by auto
    with Cons.prems ys assms show False by auto
  qed
  with Cons ys show ?case by auto
qed

lemma insort_timed:
  "sorted_wrt timed_Less ys \<Longrightarrow> \<forall>y \<in> set ys. tf_seq x < tf_seq y \<Longrightarrow>
   sorted_wrt timed_Less (insort_key tf_pts x ys)"
proof (induction ys)
  case Nil
  then show ?case by simp
next
  case (Cons y ys)
  show ?case
  proof (cases "tf_pts x \<le> tf_pts y")
    case True
    then have "timed_Less x y" using Cons.prems(2) by (auto simp: timed_Less_def)
    with True Cons.prems show ?thesis by (auto intro: th.trans)
  next
    case False
    then have "timed_Less y x" by (simp add: timed_Less_def)
    with False Cons show ?thesis by (auto simp: set_insort_key)
  qed
qed

lemma sort_timed:
  "sorted_wrt (\<lambda>a b. tf_seq a < tf_seq b) xs \<Longrightarrow> sorted_wrt timed_Less (sort_key tf_pts xs)"
  by (induction xs) (auto intro: insort_timed)

text \<open>The frames of a batch, numbered as they are pushed.\<close>

fun numbered :: "u64 \<Rightarrow> (int \<times> frame) list \<Rightarrow> timedFrame list" where
  "numbered c [] = []"
| "numbered c ((p, f) # xs) = \<lparr>tf_pts = p, tf_seq = c, tf_frame = f\<rparr> # numbered (c + 1) xs"

definition push_all :: "(int \<times> frame) list \<Rightarrow> clockQueue \<Rightarrow> clockQueue" where
  "push_all xs q = foldl (\<lambda>q (p, f). cq_push p f q) q xs"

lemma numbered_seq: "unat c + length xs < 2 ^ 64 \<Longrightarrow> x \<in> set (numbered c xs) \<Longrightarrow> c \<le> tf_seq x"
proof (induction c xs rule: numbered.induct)
  case (2 c p f xs)
  then have u: "unat (c + 1) = unat c + 1" by (simp add: unat_word_ariths)
  with 2 show ?case by (auto simp: word_le_nat_alt)
qed simp

lemma numbered_sorted:
  "unat c + length xs < 2 ^ 64 \<Longrightarrow> sorted_wrt (\<lambda>a b. tf_seq a < tf_seq b) (numbered c xs)"
proof (induction c xs rule: numbered.induct)
  case (2 c p f xs)
  then have u: "unat (c + 1) = unat c + 1" by (simp add: unat_word_ariths)
  then have "c < c + 1" by (simp add: word_less_nat_alt)
  with 2 u numbered_seq [of "c + 1" xs] show ?case by (auto intro: less_le_trans)
qed simp

lemma push_all_spec:
  "cq_inv q \<Longrightarrow> unat (cq_seq q) + length xs < 2 ^ 64 \<Longrightarrow>
   cq_inv (push_all xs q) \<and>
   mset (cq_heap (push_all xs q)) = mset (cq_heap q) + mset (numbered (cq_seq q) xs)"
proof (induction xs arbitrary: q)
  case Nil
  then show ?case by (simp add: push_all_def)
next
  case (Cons x xs)
  obtain p f where x: "x = (p, f)" by fastforce
  have i: "cq_inv (cq_push p f q)" using Cons.prems by (intro cq_inv_push) simp_all
  have s: "cq_seq (cq_push p f q) = cq_seq q + 1" by (simp add: cq_push_def)
  have u: "unat (cq_seq q + 1) = unat (cq_seq q) + 1" using Cons.prems(2) by (simp add: unat_word_ariths)
  have "push_all (x # xs) q = push_all xs (cq_push p f q)" by (simp add: push_all_def x)
  with Cons.IH [OF i] Cons.prems s u mset_cq_push [OF Cons.prems(1), of p f] x show ?case by simp
qed

lemma map_insort: "map g (insort_key (\<lambda>x. k (g x)) x xs) = insort_key k (g x) (map g xs)"
  by (induction xs) auto

lemma map_sort: "map g (sort_key (\<lambda>x. k (g x)) xs) = sort_key k (map g xs)"
  by (induction xs) (simp_all add: map_insort)

lemma map_numbered: "map (\<lambda>it. (tf_pts it, tf_frame it)) (numbered c xs) = xs"
  by (induction c xs rule: numbered.induct) auto

lemma length_numbered [simp]: "length (numbered c xs) = length xs"
  by (induction c xs rule: numbered.induct) auto

text \<open>
  C38. The clock queue is a stable priority queue: frames pushed in any order of timestamps come out
  as the stable sort of what was pushed, by timestamp and, for one timestamp, in the order they were
  pushed (for up to \<open>2^64\<close> frames, the range of the sequence counter).
\<close>

theorem clock_queue_stable_sort:
  assumes "length xs < 2 ^ 64"
  shows "map (\<lambda>it. (tf_pts it, tf_frame it)) (cq_drain (length xs) (push_all xs newClockQueue)) =
    sort_key fst xs"
proof -
  let ?q = "push_all xs newClockQueue" and ?n = "numbered 0 xs"
  have s: "cq_inv ?q" "mset (cq_heap ?q) = mset ?n"
    using push_all_spec [of newClockQueue xs] assms by simp_all
  then have "length (cq_heap ?q) = length xs" by (metis length_numbered size_mset)
  with cq_drain_spec [OF s(1), of "length xs"] s(2)
  have d: "mset (cq_drain (length xs) ?q) = mset (sort_key tf_pts ?n)"
    "sorted_wrt timed_Less (cq_drain (length xs) ?q)" by simp_all
  moreover have "sorted_wrt timed_Less (sort_key tf_pts ?n)"
    using assms by (intro sort_timed numbered_sorted) simp
  ultimately have eq: "cq_drain (length xs) ?q = sort_key tf_pts ?n"
    using th.asym by (intro sorted_wrt_unique [of timed_Less]) auto
  show ?thesis
    using map_sort [of "\<lambda>it. (tf_pts it, tf_frame it)" fst ?n] map_numbered [of 0 xs] by (simp add: eq)
qed

definition some_frame :: frame where
  "some_frame = fst (NewBaseFrame ''TextFrame'' (Txt (NewTextFrame ''hello'')) 0)"

definition other_frame :: frame where
  "other_frame = fst (NewBaseFrame ''TextFrame'' (Txt (NewTextFrame ''world'')) 1)"

definition some_pushes :: "(int \<times> frame) list" where
  "some_pushes = [(7, some_frame), (5, other_frame), (5, some_frame)]"

lemma clock_queue_stable_sort_witness:
  "map (\<lambda>it. (tf_pts it, tf_frame it)) (cq_drain (length some_pushes) (push_all some_pushes newClockQueue)) =
   [(5, other_frame), (5, some_frame), (7, some_frame)]"
proof -
  have "length some_pushes < 2 ^ 64"
    and "sort_key fst some_pushes = [(5, other_frame), (5, some_frame), (7, some_frame)]"
    by (simp_all add: some_pushes_def)
  with clock_queue_stable_sort [of some_pushes] show ?thesis by simp
qed

section \<open>Delivery on time\<close>

definition seen_ok :: "clockRun \<Rightarrow> bool" where
  "seen_ok s \<longleftrightarrow> (\<forall>it. cpc s = CTimer it \<or> cpc s = CDue it \<longrightarrow>
     tf_seq it < cq_seq (cq s) \<and> (\<forall>x \<in> set (cq_heap (cq s)). tf_seq x = tf_seq it \<longrightarrow> x = it)) \<and>
     (\<forall>it. cpc s = CDue it \<longrightarrow> tf_pts it \<le> now s)"

definition clock_inv :: "clockRun \<Rightarrow> bool" where
  "clock_inv s \<longleftrightarrow> cq_inv (cq s) \<and> seen_ok s \<and> (\<forall>(t, it) \<in> set (sent s). tf_pts it \<le> t \<and> t \<le> now s)"

lemma clock_inv_step:
  assumes st: "clock_step a s = Some s'" and inv: "clock_inv s" and room: "unat (cq_seq (cq s)) + 1 < 2 ^ 64"
  shows "clock_inv s' \<and> unat (cq_seq (cq s')) \<le> unat (cq_seq (cq s)) + 1"
  using st
proof (cases a)
  case (PushAt p f)
  with st have s': "s' = s\<lparr>cq := cq_push p f (cq s)\<rparr>" by simp
  have q: "cq_inv (cq s)" using inv by (simp add: clock_inv_def)
  have sq: "cq_seq (cq_push p f (cq s)) = cq_seq (cq s) + 1" by (simp add: cq_push_def)
  have "seen_ok s'"
    using inv set_cq_push [OF q, of p f] sq seq_succ [OF _ room]
    by (auto simp: clock_inv_def seen_ok_def s')
  moreover have "unat (cq_seq (cq s) + 1) = unat (cq_seq (cq s)) + 1"
    using room by (simp add: unat_word_ariths)
  ultimately show ?thesis using inv cq_inv_push [OF q room] sq by (simp add: clock_inv_def s')
next
  case Look
  show ?thesis
  proof (cases "cq_next (cq s)")
    case None
    with Look st inv show ?thesis by (auto simp: clock_inv_def seen_ok_def split: if_splits)
  next
    case (Some it)
    then have "it \<in> set (cq_heap (cq s))" by (auto simp: cq_next_def split: if_splits)
    with inv have "tf_seq it < cq_seq (cq s)"
      "\<forall>x \<in> set (cq_heap (cq s)). tf_seq x = tf_seq it \<longrightarrow> x = it"
      by (auto simp: clock_inv_def cq_inv_def inj_on_def)
    with Some Look st inv show ?thesis by (auto simp: clock_inv_def seen_ok_def split: if_splits)
  qed
next
  case Take
  with st obtain it where it: "cpc s = CDue it" by (auto split: run_pc.splits)
  show ?thesis
  proof (cases "cq_take (tf_seq it) (cq s)")
    case (Pair r q)
    show ?thesis
    proof (cases r)
      case None
      with Take st it Pair inv show ?thesis by (auto simp: clock_inv_def seen_ok_def)
    next
      case (Some due)
      with Pair have t: "cq_take (tf_seq it) (cq s) = (Some due, q)" by simp
      have qi: "cq_inv (cq s)" using inv by (simp add: clock_inv_def)
      note T = cq_take_Some [OF qi t]
      have "due \<in> set (cq_heap (cq s))" using arg_cong [OF T(1), of set_mset] by simp
      with inv it T(2) have "due = it" by (auto simp: clock_inv_def seen_ok_def)
      with Take st it t inv T show ?thesis by (auto simp: clock_inv_def seen_ok_def)
    qed
  qed
qed (use inv in \<open>auto simp: clock_inv_def seen_ok_def cq_drop_def [of "cq s"]
    cq_inv_drop [unfolded cq_drop_def] split: if_splits run_pc.splits\<close>, fastforce+)

lemma clock_inv_run:
  "clock_run as s = Some s' \<Longrightarrow> clock_inv s \<Longrightarrow> unat (cq_seq (cq s)) + length as < 2 ^ 64 \<Longrightarrow> clock_inv s'"
proof (induction as arbitrary: s)
  case Nil
  then show ?case by simp
next
  case (Cons a as)
  from Cons.prems(1) obtain u where u: "clock_step a s = Some u" "clock_run as u = Some s'"
    by (auto split: option.splits)
  from clock_inv_step [OF u(1) Cons.prems(2)] Cons.prems(3)
  have "clock_inv u" "unat (cq_seq (cq u)) \<le> unat (cq_seq (cq s)) + 1" by simp_all
  with Cons.IH [OF u(2)] Cons.prems(3) show ?case by simp
qed

text \<open>
  A timed frame is never delivered early: whatever frames are pushed or dropped while the
  delivery goroutine waits, every frame it pushed downstream was pushed at or after its timestamp.
\<close>

lemma timed_frames_never_early:
  assumes "clock_run as (clock_init t) = Some s" and "length as < 2 ^ 64" and "(d, it) \<in> set (sent s)"
  shows "tf_pts it \<le> d"
proof -
  have "clock_inv (clock_init t)"
    by (simp add: clock_inv_def clock_init_def seen_ok_def cq_inv_start)
  moreover have "unat (cq_seq (cq (clock_init t))) = 0"
    by (simp add: clock_init_def cq_start_def cq_stop_def newClockQueue_def)
  ultimately have "clock_inv s" using assms(1,2) by (intro clock_inv_run [OF assms(1)]) simp_all
  with assms(3) show ?thesis by (auto simp: clock_inv_def)
qed

definition a_clock_run :: "clock_action list" where
  "a_clock_run = [PushAt 50 some_frame, Look, PushAt 20 other_frame, Notified, Look, Tick 25,
     TimerFires, Take, Look, Tick 40, TimerFires, Take]"

lemma timed_frames_never_early_witness:
  "map (\<lambda>(d, it). (d, tf_pts it)) (sent (the (clock_run a_clock_run (clock_init 0)))) = [(25, 20), (65, 50)] \<and>
   (20::int) \<le> 25"
proof -
  let ?s = "the (clock_run a_clock_run (clock_init 0))"
  let ?it = "\<lparr>tf_pts = 20, tf_seq = 1, tf_frame = other_frame\<rparr>"
  have l: "map (\<lambda>(d, it). (d, tf_pts it)) (sent ?s) = [(25, 20), (65, 50)]" by code_simp
  have r: "clock_run a_clock_run (clock_init 0) = Some ?s" by code_simp
  have m: "(25, ?it) \<in> set (sent ?s)" by code_simp
  have "tf_pts ?it \<le> 25"
    by (rule timed_frames_never_early [OF r _ m]) (simp add: a_clock_run_def)
  with l show ?thesis by simp
qed

text \<open>
  What the delivery goroutine takes is the earliest frame waiting at that moment: every frame left
  behind has a later timestamp, or the same timestamp and a later place in the queue.
\<close>

lemma delivered_is_earliest:
  assumes "clock_run as (clock_init t) = Some s" and "length as < 2 ^ 64"
    and "clock_step Take s = Some s'" and "sent s' = sent s @ [(d, it)]"
  shows "\<forall>x \<in> set (cq_heap (cq s')). tf_pts it < tf_pts x \<or> tf_pts it = tf_pts x \<and> tf_seq it < tf_seq x"
proof -
  have "clock_inv (clock_init t)"
    by (simp add: clock_inv_def clock_init_def seen_ok_def cq_inv_start)
  moreover have "unat (cq_seq (cq (clock_init t))) = 0"
    by (simp add: clock_init_def cq_start_def cq_stop_def newClockQueue_def)
  ultimately have "clock_inv s" using assms(1,2) by (intro clock_inv_run [OF assms(1)]) simp_all
  then have q: "cq_inv (cq s)" by (simp add: clock_inv_def)
  from assms(3,4) obtain seen :: timedFrame where "cq_take (tf_seq seen) (cq s) = (Some it, cq s')"
    by (auto split: run_pc.splits prod.splits option.splits)
  from cq_take_Some(4) [OF q this] show ?thesis by (auto simp: timed_Less_def split: if_splits)
qed

definition left_waiting :: timedFrame where
  "left_waiting = hd (cq_heap (cq (the (clock_run (take 8 a_clock_run) (clock_init 0)))))"

lemma delivered_is_earliest_witness:
  "20 < tf_pts left_waiting \<or> 20 = tf_pts left_waiting \<and> 1 < tf_seq left_waiting"
proof -
  let ?s = "the (clock_run (take 7 a_clock_run) (clock_init 0))"
  let ?s' = "the (clock_run (take 8 a_clock_run) (clock_init 0))"
  let ?it = "\<lparr>tf_pts = 20, tf_seq = 1, tf_frame = other_frame\<rparr>"
  have r: "clock_run (take 7 a_clock_run) (clock_init 0) = Some ?s" by code_simp
  have t: "clock_step Take ?s = Some ?s'" by code_simp
  have l: "sent ?s' = sent ?s @ [(25, ?it)]" by code_simp
  have w: "left_waiting \<in> set (cq_heap (cq ?s'))" by code_simp
  have "length (take 7 a_clock_run) < 2 ^ 64" by (simp add: a_clock_run_def)
  from delivered_is_earliest [OF r this t l] w show ?thesis by simp
qed

end
