(* ===== verification/Audio_Codec.thy ===== *)
theory Audio_Codec
  imports Voxigo_Prelude
begin

text \<open>
  Telephony companding, \<^verbatim>\<open>src/audio/g711/g711.go\<close> and \<^verbatim>\<open>alaw.go\<close>, and the sample arithmetic of
  \<^verbatim>\<open>src/audio/utils.go\<close>. A Go \<open>int16\<close> is a \<open>16 word\<close> read as signed: \<open>>>\<close> on it is the arithmetic
  shift, comparisons are signed, and arithmetic wraps.
\<close>

unbundle bit_operations_syntax

type_synonym i16 = "16 word"

section \<open>Samples in little-endian bytes\<close>

text \<open>\<open>uint16(lo) | uint16(hi) << 8\<close>, and the two bytes of a sample.\<close>

definition le16 :: "u8 \<Rightarrow> u8 \<Rightarrow> i16" where
  "le16 lo hi = ucast lo OR push_bit 8 (ucast hi)"

definition le16_bytes :: "i16 \<Rightarrow> bytes" where
  "le16_bytes s = [ucast s, ucast (drop_bit 8 s)]"

text \<open>The samples of a buffer; a trailing odd byte is left out.\<close>

fun samples :: "bytes \<Rightarrow> i16 list" where
  "samples (lo # hi # bs) = le16 lo hi # samples bs"
| "samples _ = []"

definition of_samples :: "i16 list \<Rightarrow> bytes" where
  "of_samples ss = concat (map le16_bytes ss)"

section \<open>\<mu>-law (g711.go)\<close>

definition ulawBias :: i16 where "ulawBias = 0x84"
definition ulawClip :: i16 where "ulawClip = 8159"

definition ulawSegEnd :: "i16 list" where
  "ulawSegEnd = [0x3F, 0x7F, 0xFF, 0x1FF, 0x3FF, 0x7FF, 0xFFF, 0x1FFF]"

text \<open>The loop over the segment table: the first end that is not below \<open>v\<close>, or 8.\<close>

fun segment_from :: "nat \<Rightarrow> i16 list \<Rightarrow> i16 \<Rightarrow> nat" where
  "segment_from i [] v = i"
| "segment_from i (e # es) v = (if v \<le>s e then i else segment_from (Suc i) es v)"

definition ulawSegment :: "i16 \<Rightarrow> nat" where
  "ulawSegment v = segment_from 0 ulawSegEnd v"

definition linearToULaw :: "i16 \<Rightarrow> u8" where
  "linearToULaw pcm =
    (let v0 = signed_drop_bit 2 pcm;
         (v1, mask) = (if v0 <s 0 then (- v0, 0x7F) else (v0, 0xFF :: i16));
         v2 = (if ulawClip <s v1 then ulawClip else v1);
         v = v2 + signed_drop_bit 2 ulawBias;
         seg = ulawSegment v
     in if 8 \<le> seg then ucast (0x7F XOR mask)
        else ucast ((push_bit 4 (of_nat seg) OR (signed_drop_bit (seg + 1) v AND 0x0F)) XOR mask))"

definition ulawToLinear :: "u8 \<Rightarrow> i16" where
  "ulawToLinear b =
    (let u = NOT b;
         t0 = push_bit 3 (ucast (u AND 0x0F)) + ulawBias;
         t = push_bit (unat (drop_bit 4 (u AND 0x70))) t0
     in if u AND 0x80 \<noteq> 0 then ulawBias - t else t - ulawBias)"

definition EncodeULaw :: "bytes \<Rightarrow> bytes" where
  "EncodeULaw pcm = map linearToULaw (samples pcm)"

definition DecodeULaw :: "bytes \<Rightarrow> bytes" where
  "DecodeULaw ulaw = of_samples (map ulawToLinear ulaw)"

section \<open>A-law (alaw.go)\<close>

definition alawQuantMask :: i16 where "alawQuantMask = 0x0F"
definition alawEvenBits :: u8 where "alawEvenBits = 0x55"

definition alawSegEnd :: "i16 list" where
  "alawSegEnd = [0x1F, 0x3F, 0x7F, 0xFF, 0x1FF, 0x3FF, 0x7FF, 0xFFF]"

definition alawSegment :: "i16 \<Rightarrow> nat" where
  "alawSegment v = segment_from 0 alawSegEnd v"

definition linearToALaw :: "i16 \<Rightarrow> u8" where
  "linearToALaw pcm =
    (let v0 = signed_drop_bit 3 pcm;
         (v, mask) = (if 0 \<le>s v0 then (v0, 0xD5) else (- v0 - 1, ucast alawEvenBits));
         seg = alawSegment v
     in if 8 \<le> seg then ucast (0x7F XOR mask)
        else let aval = push_bit 4 (of_nat seg);
                 aval' = (if seg < 2 then aval OR (signed_drop_bit 1 v AND alawQuantMask)
                          else aval OR (signed_drop_bit seg v AND alawQuantMask))
             in ucast (aval' XOR mask))"

definition alawToLinear :: "u8 \<Rightarrow> i16" where
  "alawToLinear b =
    (let a = b XOR alawEvenBits;
         t = push_bit 4 (ucast (a AND 0x0F));
         seg = unat (drop_bit 4 (a AND 0x70));
         t' = (if seg = 0 then t + 8
               else if seg = 1 then t + 0x108
               else push_bit (seg - 1) (t + 0x108))
     in if a AND 0x80 \<noteq> 0 then t' else - t')"

definition EncodeALaw :: "bytes \<Rightarrow> bytes" where
  "EncodeALaw pcm = map linearToALaw (samples pcm)"

definition DecodeALaw :: "bytes \<Rightarrow> bytes" where
  "DecodeALaw alaw = of_samples (map alawToLinear alaw)"

section \<open>Round trips of the codecs\<close>

lemma ulaw_all: "list_all (\<lambda>n. linearToULaw (ulawToLinear (word_of_nat n)) =
    (if n = 0x7F then 0xFF else word_of_nat n)) [0..<256]"
  by code_simp

lemma alaw_all: "list_all (\<lambda>n. linearToALaw (alawToLinear (word_of_nat n)) = word_of_nat n) [0..<256]"
  by code_simp

lemma byte_cases: "\<exists>n < 256. (b :: u8) = word_of_nat n"
  by (rule exI [of _ "unat b"]) (use unsigned_less [of b] in simp)

lemma ulaw_code: "linearToULaw (ulawToLinear u) = (if u = 0x7F then 0xFF else u)"
proof -
  obtain n where n: "n < 256" "u = word_of_nat n" using byte_cases by blast
  have "(word_of_nat n :: u8) = 0x7F \<longleftrightarrow> n = 0x7F"
    using n(1) by (simp add: word_unat_eq_iff unat_of_nat)
  with n ulaw_all show ?thesis by (simp add: list_all_iff)
qed

lemma alaw_code: "linearToALaw (alawToLinear a) = a"
proof -
  obtain n where n: "n < 256" "a = word_of_nat n" using byte_cases by blast
  with alaw_all show ?thesis by (simp add: list_all_iff)
qed

lemma le16_split: "le16 (ucast s) (ucast (drop_bit 8 s)) = s"
  by (rule bit_word_eqI) (auto simp: le16_def bit_simps)

lemma samples_of_samples [simp]: "samples (of_samples ss) = ss"
  by (induction ss) (simp_all add: of_samples_def le16_bytes_def le16_split)

lemma length_of_samples [simp]: "length (of_samples ss) = 2 * length ss"
  by (induction ss) (simp_all add: of_samples_def le16_bytes_def)

lemma length_samples [simp]: "length (samples bs) = length bs div 2"
  by (induction bs rule: samples.induct) simp_all

lemma sint_signed_drop: "sint (signed_drop_bit n (w :: i16)) = sint w div 2 ^ n"
  by (simp add: sint_signed_drop_bit_eq drop_bit_eq_div)

text \<open>Encoding never produces the code for negative zero.\<close>

lemma segment_le: "segment_from i es v \<le> i + length es"
  by (induction es arbitrary: i) (auto, metis add_Suc)

lemma ulawSegment_0: "ulawSegment v = 0 \<Longrightarrow> v \<le>s 0x3F"
proof -
  have "segment_from i es v \<ge> i" for i es by (induction es arbitrary: i) (auto intro: Suc_leD)
  then have "segment_from (Suc 0) es v \<noteq> 0" for es by (metis Suc_n_not_le_n le_zero_eq)
  then show "ulawSegment v = 0 \<Longrightarrow> v \<le>s 0x3F"
    by (simp add: ulawSegment_def ulawSegEnd_def split: if_splits)
qed

lemma small_magnitudes:
  "list_all (\<lambda>n. ucast (signed_drop_bit 1 (word_of_nat n :: i16) AND 0x0F) \<noteq> (0 :: u8)) [34..<64]"
  by code_simp

lemma seg_bits:
  assumes "seg < 8"
  shows "ucast ((push_bit 4 (of_nat seg) OR (x AND 0x0F)) XOR 0xFF :: i16) \<noteq> (0x7F :: u8)"
    and "0 < seg \<Longrightarrow> ucast ((push_bit 4 (of_nat seg) OR (x AND 0x0F)) XOR 0x7F :: i16) \<noteq> (0x7F :: u8)"
proof -
  have c: "seg \<in> {0, 1, 2, 3, 4, 5, 6, 7}" using assms by auto
  have "\<not> bit (0x0F :: i16) 7" by simp
  have b7: "bit (0x7F :: u8) 7 = False" by simp
  have "bit (ucast ((push_bit 4 (of_nat seg) OR (x AND 0x0F)) XOR 0xFF :: i16) :: u8) 7"
    using c by (auto simp: bit_simps)
  with b7 show "ucast ((push_bit 4 (of_nat seg) OR (x AND 0x0F)) XOR 0xFF :: i16) \<noteq> (0x7F :: u8)"
    by metis
  have b: "bit (0x7F :: u8) 4" "bit (0x7F :: u8) 5" "bit (0x7F :: u8) 6" by simp_all
  have "\<not> bit (ucast ((push_bit 4 (of_nat seg) OR (x AND 0x0F)) XOR 0x7F :: i16) :: u8) 4 \<or>
        \<not> bit (ucast ((push_bit 4 (of_nat seg) OR (x AND 0x0F)) XOR 0x7F :: i16) :: u8) 5 \<or>
        \<not> bit (ucast ((push_bit 4 (of_nat seg) OR (x AND 0x0F)) XOR 0x7F :: i16) :: u8) 6" if "0 < seg"
    using c that by (auto simp: bit_simps)
  with b show "0 < seg \<Longrightarrow> ucast ((push_bit 4 (of_nat seg) OR (x AND 0x0F)) XOR 0x7F :: i16) \<noteq> (0x7F :: u8)"
    by metis
qed

lemma sint_drop2: "- 8192 \<le> sint (signed_drop_bit 2 (w :: i16))" "sint (signed_drop_bit 2 (w :: i16)) < 8192"
proof -
  have "- 32768 \<le> sint w" and "sint w < 32768"
    using sint_greater_eq [of w] sint_less [of w] by simp_all
  then show "- 8192 \<le> sint (signed_drop_bit 2 w)" and "sint (signed_drop_bit 2 w) < 8192"
    by (simp_all add: sint_signed_drop)
qed

lemma sint_neg: "- 32768 < sint v \<Longrightarrow> sint (- v :: i16) = - sint v"
  using sint_greater_eq [of v] sint_less [of v]
  by (simp add: sint_word_ariths signed_take_bit_int_eq_self)

lemma sint_plus: "- 32768 \<le> sint v + sint w \<Longrightarrow> sint v + sint w < 32768 \<Longrightarrow> sint (v + w :: i16) = sint v + sint w"
  by (simp add: sint_word_ariths signed_take_bit_int_eq_self)

lemma bias_shift: "signed_drop_bit 2 ulawBias = (33 :: i16)"
  by code_simp

lemma nonneg_unat: "0 \<le> sint (v :: i16) \<Longrightarrow> v = word_of_nat (nat (sint v))"
  by (metis int_nat_eq of_int_of_nat_eq of_int_sint scast_id)

lemma small_nonzero:
  assumes "34 \<le> sint (v :: i16)" and "sint v < 64"
  shows "ucast (signed_drop_bit 1 v AND 0x0F) \<noteq> (0 :: u8)"
proof -
  from assms have "34 \<le> nat (sint v)" "nat (sint v) < 64" by linarith+
  then have "nat (sint v) \<in> set [34..<64]" by (simp only: set_upt atLeastLessThan_iff)
  moreover have "v = word_of_nat (nat (sint v))" using assms(1) by (intro nonneg_unat) simp
  ultimately show ?thesis using small_magnitudes unfolding list_all_iff by metis
qed

lemma xor_mask_eq: "ucast (w XOR 0x7F :: i16) = (0x7F :: u8) \<longleftrightarrow> ucast w = (0 :: u8)"
proof -
  have "ucast (w XOR 0x7F :: i16) = (ucast w XOR 0x7F :: u8)" by (simp add: unsigned_xor_eq)
  moreover have "x XOR m = m \<longleftrightarrow> x = 0" for x m :: u8
  proof
    assume "x XOR m = m"
    then have "(x XOR m) XOR m = m XOR m" by simp
    then show "x = 0" by (simp add: xor.assoc)
  qed simp
  ultimately show ?thesis by simp
qed

lemma ulaw_no_negative_zero: "linearToULaw pcm \<noteq> 0x7F"
proof -
  let ?x = "signed_drop_bit 2 pcm :: i16"
  show ?thesis
  proof (cases "?x <s 0")
    case False
    let ?v = "(if ulawClip <s ?x then ulawClip else ?x) + signed_drop_bit 2 ulawBias"
    have "linearToULaw pcm = (if 8 \<le> ulawSegment ?v then ucast (0x7F XOR 0xFF :: i16)
        else ucast ((push_bit 4 (of_nat (ulawSegment ?v)) OR
          (signed_drop_bit (ulawSegment ?v + 1) ?v AND 0x0F)) XOR 0xFF :: i16))"
      using False by (simp add: linearToULaw_def Let_def)
    with seg_bits(1) [of "ulawSegment ?v"] show ?thesis by (simp add: not_le)
  next
    case True
    let ?y = "if ulawClip <s - ?x then ulawClip else - ?x"
    let ?v = "?y + signed_drop_bit 2 ulawBias"
    have eq: "linearToULaw pcm = (if 8 \<le> ulawSegment ?v then ucast (0x7F XOR 0x7F :: i16)
        else ucast ((push_bit 4 (of_nat (ulawSegment ?v)) OR
          (signed_drop_bit (ulawSegment ?v + 1) ?v AND 0x0F)) XOR 0x7F :: i16))"
      using True by (simp add: linearToULaw_def Let_def)
    have "sint ?x < 0" using True by (simp add: word_sless_alt)
    then have "1 \<le> sint (- ?x)" "sint (- ?x) \<le> 8192"
      using sint_drop2 [of pcm] by (simp_all add: sint_neg)
    then have v2: "1 \<le> sint ?y" "sint ?y \<le> 8192"
      by (auto simp: ulawClip_def)
    then have sv: "sint ?v = sint ?y + 33" by (subst sint_plus) (simp_all add: bias_shift)
    show ?thesis
    proof (cases "ulawSegment ?v = 0")
      case True
      then have "sint ?v \<le> 63" using ulawSegment_0 [OF True] by (simp add: word_sle_eq)
      with sv v2 have "34 \<le> sint ?v" "sint ?v < 64" by linarith+
      then have "ucast (signed_drop_bit 1 ?v AND 0x0F) \<noteq> (0 :: u8)" by (rule small_nonzero)
      with eq True show ?thesis by (simp add: xor_mask_eq)
    next
      case False
      with eq seg_bits(2) [of "ulawSegment ?v"] show ?thesis by (auto simp: not_le)
    qed
  qed
qed

text \<open>
  Re-encoding a decoded \<mu>-law stream gives the stream back, byte for byte, except that the code
  for negative zero comes back as the code for zero.
\<close>

lemma ulaw_round_trip: "EncodeULaw (DecodeULaw us) = map (\<lambda>u. if u = 0x7F then 0xFF else u) us"
  by (simp add: EncodeULaw_def DecodeULaw_def ulaw_code)

text \<open>
  C0. Companding is stable: once PCM has been through the \<mu>-law encoder, decoding and encoding it
  again changes nothing. The encoder never emits the code for negative zero.
\<close>

theorem ulaw_stable: "EncodeULaw (DecodeULaw (EncodeULaw pcm)) = EncodeULaw pcm \<and> 0x7F \<notin> set (EncodeULaw pcm)"
proof
  show "0x7F \<notin> set (EncodeULaw pcm)" using ulaw_no_negative_zero by (auto simp: EncodeULaw_def)
  then show "EncodeULaw (DecodeULaw (EncodeULaw pcm)) = EncodeULaw pcm"
    by (simp add: EncodeULaw_def DecodeULaw_def ulaw_code comp_def) (auto simp: ulaw_no_negative_zero)
qed

text \<open>
  Re-encoding a decoded A-law stream gives the stream back, byte for byte, and the lengths are
  one byte per sample: half the PCM bytes on encoding (an odd trailing byte is dropped), twice on
  decoding.
\<close>

lemma alaw_round_trip:
  "EncodeALaw (DecodeALaw as) = as \<and> length (DecodeALaw as) = 2 * length as \<and>
   length (EncodeALaw pcm) = length pcm div 2"
  by (simp add: EncodeALaw_def DecodeALaw_def alaw_code comp_def)

end
