(* ===== verification/Audio_Utils.thy ===== *)
theory Audio_Utils
  imports Audio_Codec
begin

text \<open>
  Sample arithmetic, \<^verbatim>\<open>src/audio/utils.go\<close>: silence, DC offset, mixing, interleaving, the WAV
  container and the companding conversions. The loops step through a buffer two bytes at a time, so
  they are stated over the buffer's samples. The resampler is a package of its own and stands as a
  function argument.
\<close>

definition speakingThreshold :: int where "speakingThreshold = 20"

fun silent_samples :: "i16 list \<Rightarrow> bool" where
  "silent_samples [] = True"
| "silent_samples (s # ss) =
    (let sample = sint s; sample' = (if sample < 0 then - sample else sample) in
     if sample' > speakingThreshold then False else silent_samples ss)"

definition IsSilence :: "bytes \<Rightarrow> bool" where
  "IsSilence pcm = silent_samples (samples pcm)"

definition clampInt16 :: "int \<Rightarrow> i16" where
  "clampInt16 v = (if v > 32767 then 32767 else if v < -32768 then -32768 else word_of_int v)"

definition RemoveDCOffset :: "bytes \<Rightarrow> bytes" where
  "RemoveDCOffset pcm =
    (let n = length pcm - length pcm mod 2 in
     if n = 0 then pcm
     else let ss = samples pcm; mean = go_div (sum_list (map sint ss)) (int (n div 2)) in
       if mean = 0 then take n pcm
       else of_samples (map (\<lambda>s. clampInt16 (sint s - mean)) ss))"

text \<open>The sample at index \<open>k\<close>, or silence past the end.\<close>

definition sample_at :: "bytes \<Rightarrow> nat \<Rightarrow> int" where
  "sample_at pcm k = (if 2 * k + 1 < length pcm then sint (samples pcm ! k) else 0)"

definition MixAudio :: "bytes \<Rightarrow> bytes \<Rightarrow> bytes" where
  "MixAudio a b =
    (let m = max (length a) (length b); n = m - m mod 2 in
     of_samples (map (\<lambda>k. clampInt16 (sample_at a k + sample_at b k)) [0..<n div 2]))"

definition InterleaveStereo :: "bytes \<Rightarrow> bytes \<Rightarrow> bytes" where
  "InterleaveStereo left right =
    (let m = min (length left) (length right); n = m - m mod 2 in
     concat (map (\<lambda>k. take 2 (drop (2 * k) left) @ take 2 (drop (2 * k) right)) [0..<n div 2]))"

section \<open>The WAV container\<close>

definition le32_bytes :: "u32 \<Rightarrow> bytes" where
  "le32_bytes n = [ucast n, ucast (drop_bit 8 n), ucast (drop_bit 16 n), ucast (drop_bit 24 n)]"

text \<open>The bytes of an ASCII string.\<close>

definition ascii :: "string \<Rightarrow> bytes" where
  "ascii s = map (\<lambda>c. word_of_nat (of_char c)) s"

definition wavHeaderLen :: nat where "wavHeaderLen = 36"

definition PCMToWAV :: "bytes \<Rightarrow> int \<Rightarrow> int \<Rightarrow> bytes" where
  "PCMToWAV pcm0 sampleRate channels =
    (let numChannels = (if channels < 1 then 1 else channels);
         blockAlign = 2 * numChannels;
         rem = int (length pcm0) mod blockAlign;
         pcm = take (length pcm0 - nat rem) pcm0
     in ascii ''RIFF'' @ le32_bytes (word_of_nat (wavHeaderLen + length pcm)) @ ascii ''WAVE'' @
        ascii ''fmt '' @ le32_bytes 16 @ le16_bytes 1 @ le16_bytes (word_of_int numChannels) @
        le32_bytes (word_of_int sampleRate) @ le32_bytes (word_of_int (sampleRate * blockAlign)) @
        le16_bytes (word_of_int blockAlign) @ le16_bytes 16 @
        ascii ''data'' @ le32_bytes (word_of_nat (length pcm)) @ pcm)"

section \<open>Companding with a change of rate\<close>

definition resampleWith :: "bytes \<Rightarrow> (bytes \<Rightarrow> bytes) option \<Rightarrow> bytes" where
  "resampleWith pcm r = (case r of None \<Rightarrow> pcm | Some process \<Rightarrow> process pcm)"

definition ULawToPCM :: "bytes \<Rightarrow> (bytes \<Rightarrow> bytes) option \<Rightarrow> bytes" where
  "ULawToPCM ulaw r = resampleWith (DecodeULaw ulaw) r"

definition PCMToULaw :: "bytes \<Rightarrow> (bytes \<Rightarrow> bytes) option \<Rightarrow> bytes" where
  "PCMToULaw pcm r = EncodeULaw (resampleWith pcm r)"

definition ALawToPCM :: "bytes \<Rightarrow> (bytes \<Rightarrow> bytes) option \<Rightarrow> bytes" where
  "ALawToPCM alaw r = resampleWith (DecodeALaw alaw) r"

definition PCMToALaw :: "bytes \<Rightarrow> (bytes \<Rightarrow> bytes) option \<Rightarrow> bytes" where
  "PCMToALaw pcm r = EncodeALaw (resampleWith pcm r)"

definition ResamplePCM :: "bytes \<Rightarrow> (bytes \<Rightarrow> bytes) option \<Rightarrow> bytes" where
  "ResamplePCM pcm r = resampleWith pcm r"

section \<open>Properties\<close>

lemma silent_samples_iff: "silent_samples ss \<longleftrightarrow> (\<forall>s \<in> set ss. \<bar>sint s\<bar> \<le> speakingThreshold)"
  by (induction ss) (auto simp: Let_def)

lemma clamp_id: "-32768 \<le> v \<Longrightarrow> v \<le> 32767 \<Longrightarrow> sint (clampInt16 v) = v"
  by (simp add: clampInt16_def sint_sbintrunc' signed_take_bit_int_eq_self)

lemma sint_clamp: "sint (clampInt16 v) = max (-32768) (min 32767 v)"
  by (cases "v > 32767"; cases "v < -32768") (simp_all add: clampInt16_def sint_sbintrunc' signed_take_bit_int_eq_self)

lemma even_part: "m - m mod 2 = 2 * (m div 2)" for m :: nat
  by (simp add: minus_mod_eq_mult_div)

lemma samples_take_even: "samples (take (2 * (length pcm div 2)) pcm) = samples pcm"
  by (induction pcm rule: samples.induct) simp_all

lemma take_le16: "le16_bytes (le16 lo hi) = [lo, hi]"
proof -
  have "\<not> bit lo (8 + n)" for n by (rule impossible_bit) simp
  then show ?thesis
    by (auto simp: le16_bytes_def le16_def bit_simps intro!: bit_word_eqI)
qed

lemma of_samples_samples: "of_samples (samples pcm) = take (2 * (length pcm div 2)) pcm"
  by (induction pcm rule: samples.induct) (simp_all add: of_samples_def take_le16)

lemma go_div_remainder: "0 < b \<Longrightarrow> \<bar>a - go_div a b * b\<bar> < b"
proof -
  assume b: "0 < b"
  have pos: "\<bar>x - x div b * b\<bar> < b" for x
    using b pos_mod_bound [OF b, of x] pos_mod_sign [OF b, of x] by (simp add: minus_div_mult_eq_mod)
  consider "a = 0" | "0 < a" | "a < 0" by linarith
  then show ?thesis
  proof cases
    case 1
    then show ?thesis using b by (simp add: go_div_def)
  next
    case 2
    then show ?thesis using b pos [of a] by (simp add: go_div_def)
  next
    case 3
    then have "a - go_div a b * b = - (- a - (- a) div b * b)"
      using b by (simp add: go_div_def)
    with pos [of "- a"] show ?thesis by (simp only: abs_minus_cancel)
  qed
qed

lemma go_div_small: "0 < b \<Longrightarrow> \<bar>a\<bar> < b \<Longrightarrow> go_div a b = 0"
  by (simp add: go_div_def)

definition dc_mean :: "bytes \<Rightarrow> int" where
  "dc_mean pcm = go_div (sum_list (map sint (samples pcm))) (int (length (samples pcm)))"

lemma RemoveDCOffset_samples:
  assumes "2 \<le> length pcm"
  shows "samples (RemoveDCOffset pcm) = map (\<lambda>s. clampInt16 (sint s - dc_mean pcm)) (samples pcm)"
proof -
  have "clampInt16 (sint s) = s" for s
    using sint_greater_eq [of s] sint_less [of s] by (simp add: clampInt16_def)
  moreover have "length pcm div 2 \<noteq> 0" using assms by auto
  ultimately show ?thesis
    by (simp add: RemoveDCOffset_def Let_def even_part samples_take_even dc_mean_def)
qed

text \<open>
  Removing the DC offset works: when no sample has to be clipped, the mean of the result (with
  the truncating division the code uses) is zero, the buffer keeps its samples, and the difference
  between any two samples is unchanged.
\<close>

lemma dc_offset_removed:
  assumes "2 \<le> length pcm"
    and "\<forall>s \<in> set (samples pcm). -32768 \<le> sint s - dc_mean pcm \<and> sint s - dc_mean pcm \<le> 32767"
  shows "dc_mean (RemoveDCOffset pcm) = 0 \<and>
    map sint (samples (RemoveDCOffset pcm)) = map (\<lambda>s. sint s - dc_mean pcm) (samples pcm)"
proof -
  let ?n = "int (length (samples pcm))"
  have m: "map sint (samples (RemoveDCOffset pcm)) = map (\<lambda>s. sint s - dc_mean pcm) (samples pcm)"
    using assms(2) by (simp add: RemoveDCOffset_samples [OF assms(1)] clamp_id)
  have "sum_list (map (\<lambda>s. sint s - c) ss) = sum_list (map sint ss) - c * int (length ss)" for c and ss :: "i16 list"
    by (induction ss) (simp_all add: algebra_simps)
  then have "sum_list (map sint (samples (RemoveDCOffset pcm))) =
      sum_list (map sint (samples pcm)) - dc_mean pcm * ?n" by (simp only: m)
  moreover have "0 < ?n" using assms(1) by simp
  ultimately have "\<bar>sum_list (map sint (samples (RemoveDCOffset pcm)))\<bar> < ?n"
    using go_div_remainder [of ?n "sum_list (map sint (samples pcm))"] by (simp add: dc_mean_def)
  moreover have "length (samples (RemoveDCOffset pcm)) = length (samples pcm)"
    by (simp only: RemoveDCOffset_samples [OF assms(1)] length_map)
  ultimately have "dc_mean (RemoveDCOffset pcm) = 0"
    unfolding dc_mean_def using \<open>0 < ?n\<close> by (intro go_div_small) (simp_all del: length_samples)
  with m show ?thesis by simp
qed

lemma dc_offset_removed_witness:
  "dc_mean [10, 0, 15, 0, 40, 0] = 21 \<and> dc_mean (RemoveDCOffset [10, 0, 15, 0, 40, 0]) = 0"
proof -
  have "dc_mean [10, 0, 15, 0, 40, 0] = 21"
    and "\<forall>s \<in> set (samples [10, 0, 15, 0, 40, 0]).
      -32768 \<le> sint s - dc_mean [10, 0, 15, 0, 40, 0] \<and> sint s - dc_mean [10, 0, 15, 0, 40, 0] \<le> 32767"
    by code_simp+
  with dc_offset_removed [of "[10, 0, 15, 0, 40, 0]"] show ?thesis by simp
qed

text \<open>
  Mixing saturates instead of wrapping: every sample of the mix is the sum of the two streams'
  samples limited to the 16-bit range, the shorter stream counts as silence past its end, the result
  is as long as the longer input, and the order of the streams does not matter.
\<close>

lemma mix_saturates:
  assumes "k < max (length a) (length b) div 2"
  shows "sint (samples (MixAudio a b) ! k) = max (-32768) (min 32767 (sample_at a k + sample_at b k)) \<and>
    length (MixAudio a b) = 2 * (max (length a) (length b) div 2) \<and> MixAudio a b = MixAudio b a"
  using assms by (simp add: MixAudio_def Let_def even_part sint_clamp max.commute add.commute)

lemma mix_saturates_witness:
  "sint (samples (MixAudio [0xFF, 0x7F, 5, 0] [0xFF, 0x7F]) ! 0) = 32767"
proof -
  have "sample_at [0xFF, 0x7F, 5, 0] 0 = 32767" and "sample_at [0xFF, 0x7F] 0 = 32767" by code_simp+
  with mix_saturates [of 0 "[0xFF, 0x7F, 5, 0]" "[0xFF, 0x7F]", THEN conjunct1] show ?thesis by simp
qed

lemma take_sample: "k < length pcm div 2 \<Longrightarrow> take 2 (drop (2 * k) pcm) = le16_bytes (samples pcm ! k)"
proof (induction pcm arbitrary: k rule: samples.induct)
  case (1 lo hi bs)
  then show ?case by (cases k) (simp_all add: take_le16)
qed simp_all

lemma concat_pairs:
  "k < n \<Longrightarrow> concat (map (\<lambda>k. [f k, g k]) [0..<n]) ! (2 * k) = f k \<and>
     concat (map (\<lambda>k. [f k, g k]) [0..<n]) ! Suc (2 * k) = g k"
proof (induction n)
  case (Suc n)
  have "length (concat (map (\<lambda>k. [f k, g k]) [0..<n])) = 2 * n" by (induction n) simp_all
  with Suc show ?case by (cases "k = n") (auto simp: nth_append)
qed simp

lemma length_concat_pairs: "length (concat (map (\<lambda>k. [f k, g k]) ks)) = 2 * length ks"
  by (induction ks) simp_all

lemma of_samples_concat: "of_samples (concat xss) = concat (map of_samples xss)"
  by (induction xss) (simp_all add: of_samples_def)

lemma InterleaveStereo_samples:
  "InterleaveStereo left right = of_samples (concat (map (\<lambda>k. [samples left ! k, samples right ! k])
     [0..<min (length left) (length right) div 2]))"
proof -
  let ?n = "min (length left) (length right) div 2"
  have "take 2 (drop (2 * k) left) @ take 2 (drop (2 * k) right) =
      of_samples [samples left ! k, samples right ! k]" if "k < ?n" for k
    using that take_sample [of k left] take_sample [of k right] by (simp add: of_samples_def)
  then show ?thesis
    unfolding InterleaveStereo_def Let_def even_part of_samples_concat map_map comp_def
    by (intro arg_cong [of _ _ concat] map_cong) simp_all
qed

text \<open>
  Interleaving alternates the channels, left first, and stops with the shorter one: the samples
  at even and odd positions are the samples of the left and the right channel.
\<close>

lemma interleave_alternates:
  assumes "k < min (length left) (length right) div 2"
  shows "samples (InterleaveStereo left right) ! (2 * k) = samples left ! k \<and>
    samples (InterleaveStereo left right) ! (2 * k + 1) = samples right ! k \<and>
    length (InterleaveStereo left right) = 4 * (min (length left) (length right) div 2)"
  using concat_pairs [OF assms, of "\<lambda>k. samples left ! k" "\<lambda>k. samples right ! k"]
  by (simp add: InterleaveStereo_samples length_concat_pairs)

lemma interleave_alternates_witness:
  "samples (InterleaveStereo [1, 0, 2, 0] [3, 0, 4, 0, 5, 0]) ! 3 = samples [3, 0, 4, 0, 5, 0] ! 1"
  using interleave_alternates [of 1 "[1, 0, 2, 0]" "[3, 0, 4, 0, 5, 0]"] by simp

text \<open>A reader of the container: the little-endian fields at their offsets.\<close>

definition field16 :: "bytes \<Rightarrow> nat \<Rightarrow> nat" where
  "field16 w i = unat (w ! i) + 256 * unat (w ! (i + 1))"

definition field32 :: "bytes \<Rightarrow> nat \<Rightarrow> nat" where
  "field32 w i = field16 w i + 65536 * field16 w (i + 2)"

lemma unat_byte: "unat (ucast (drop_bit n w) :: u8) = (unat w div 2 ^ n) mod 256" for w :: "'a::len word"
  by (simp add: unsigned_ucast_eq unsigned_drop_bit_eq take_bit_eq_mod [where 'a = nat]
      drop_bit_eq_div [where 'a = nat])

lemma field16_bytes: "unat (le16_bytes n ! 0) + 256 * unat (le16_bytes n ! 1) = unat n"
proof -
  have "unat n < 65536" using unsigned_less [of n] by simp
  moreover have "unat (ucast n :: u8) = unat n mod 256" using unat_byte [of 0 n] by simp
  ultimately show ?thesis using unat_byte [of 8 n] by (simp add: le16_bytes_def)
qed

lemma digits_256: "m mod 256 + 256 * (m div 256 mod 256) +
    65536 * (m div 65536 mod 256 + 256 * (m div 16777216)) = m" for m :: nat
proof -
  have d: "m div 65536 = m div 256 div 256" "m div 16777216 = m div 256 div 256 div 256"
    by (simp_all add: div_mult2_eq [symmetric])
  have "n mod 256 + 256 * (n div 256) = n" for n :: nat by simp
  note e = this [of m] this [of "m div 256"] this [of "m div 256 div 256"]
  have "x + 256 * y + 65536 * (z + 256 * u) = m"
    if "x + 256 * a = m" "y + 256 * c = a" "z + 256 * u = c" for x y z u a c
    using that by (simp add: algebra_simps)
  from this [OF e] show ?thesis unfolding d .
qed

lemma field32_bytes:
  "unat (le32_bytes n ! 0) + 256 * unat (le32_bytes n ! 1) +
   65536 * (unat (le32_bytes n ! 2) + 256 * unat (le32_bytes n ! 3)) = unat n"
proof -
  have "unat n < 4294967296" using unsigned_less [of n] by simp
  then have "unat n div 16777216 mod 256 = unat n div 16777216" by simp
  moreover have "unat (ucast n :: u8) = unat n mod 256" using unat_byte [of 0 n] by simp
  ultimately show ?thesis using unat_byte [of 8 n] unat_byte [of 16 n] unat_byte [of 24 n] digits_256 [of "unat n"]
    by (simp add: le32_bytes_def)
qed

lemma length_fields [simp]: "length (ascii s) = length s" "length (le32_bytes n) = 4" "length (le16_bytes m) = 2"
  by (simp_all add: ascii_def le32_bytes_def le16_bytes_def)

lemma field16_at: "length xs = i \<Longrightarrow> field16 (xs @ le16_bytes n @ ys) i = unat n"
  using field16_bytes [of n] by (simp add: field16_def nth_append)

lemma field32_at: "length xs = i \<Longrightarrow> field32 (xs @ le32_bytes n @ ys) i = unat n"
  using field32_bytes [of n] by (simp add: field32_def field16_def nth_append)

lemma int_unat_word: "0 \<le> k \<Longrightarrow> k < 2 ^ LENGTH('a) \<Longrightarrow> int (unat (word_of_int k :: 'a::len word)) = k"
  by (simp add: unsigned_of_int take_bit_int_eq_self)

lemma unat_word_nat: "k < 2 ^ LENGTH('a) \<Longrightarrow> unat (word_of_nat k :: 'a::len word) = k"
  by (simp add: unat_of_nat)

text \<open>
  A WAV file written by \<open>PCMToWAV\<close> says what it contains: read back at the offsets of the
  canonical header, the sizes, the channel count, the rate, the byte rate and the block alignment are
  those of the stream, the samples are a whole number of frames, and they are the input up to the
  bytes of an incomplete last frame.
\<close>

lemma wav_header_describes_data:
  assumes ch: "1 \<le> channels" "channels < 2 ^ 15" and rate: "0 \<le> sampleRate"
    "sampleRate * (2 * channels) < 2 ^ 32" and len: "length pcm + 36 < 2 ^ 32"
  shows "let w = PCMToWAV pcm sampleRate channels; payload = drop 44 w in
    payload = take (length payload) pcm \<and>
    int (length payload) = int (length pcm) - int (length pcm) mod (2 * channels) \<and>
    field32 w 4 = length w - 8 \<and> field32 w 40 = length payload \<and>
    int (field16 w 22) = channels \<and> int (field32 w 24) = sampleRate \<and>
    int (field32 w 28) = sampleRate * (2 * channels) \<and> int (field16 w 32) = 2 * channels"
proof -
  let ?b = "2 * channels"
  let ?rem = "int (length pcm) mod ?b"
  let ?p = "take (length pcm - nat ?rem) pcm"
  let ?w = "PCMToWAV pcm sampleRate channels"
  have b: "0 < ?b" "\<not> channels < 1" using ch by auto
  have w: "?w = ascii ''RIFF'' @ le32_bytes (word_of_nat (36 + length ?p)) @ ascii ''WAVE'' @
      ascii ''fmt '' @ le32_bytes 16 @ le16_bytes 1 @ le16_bytes (word_of_int channels) @
      le32_bytes (word_of_int sampleRate) @ le32_bytes (word_of_int (sampleRate * ?b)) @
      le16_bytes (word_of_int ?b) @ le16_bytes 16 @
      ascii ''data'' @ le32_bytes (word_of_nat (length ?p)) @ ?p"
    using b(2) by (simp add: PCMToWAV_def wavHeaderLen_def Let_def)
  have pay: "drop 44 ?w = ?p" unfolding w by (simp add: ascii_def le32_bytes_def le16_bytes_def)
  have "0 \<le> ?rem" "?rem \<le> int (length pcm)" using b(1) by (simp_all add: zmod_le_nonneg_dividend)
  then have lp: "int (length ?p) = int (length pcm) - ?rem" by simp
  let ?h0 = "ascii ''RIFF''" and ?l = "le32_bytes (word_of_nat (36 + length ?p))"
  let ?h1 = "?h0 @ ?l @ ascii ''WAVE'' @ ascii ''fmt '' @ le32_bytes 16 @ le16_bytes 1"
  let ?h2 = "?h1 @ le16_bytes (word_of_int channels)"
  let ?h3 = "?h2 @ le32_bytes (word_of_int sampleRate)"
  let ?h4 = "?h3 @ le32_bytes (word_of_int (sampleRate * ?b))"
  let ?h5 = "?h4 @ le16_bytes (word_of_int ?b) @ le16_bytes 16 @ ascii ''data''"
  have small: "36 + length ?p < 2 ^ 32" using len by simp
  have f: "field32 ?w 4 = unat (word_of_nat (36 + length ?p) :: u32)"
    "field16 ?w 22 = unat (word_of_int channels :: 16 word)"
    "field32 ?w 24 = unat (word_of_int sampleRate :: u32)"
    "field32 ?w 28 = unat (word_of_int (sampleRate * ?b) :: u32)"
    "field16 ?w 32 = unat (word_of_int ?b :: 16 word)"
    "field32 ?w 40 = unat (word_of_nat (length ?p) :: u32)"
    unfolding w
    using field32_at [of ?h0 4] field16_at [of ?h1 22] field32_at [of ?h2 24] field32_at [of ?h3 28]
      field16_at [of ?h4 32] field32_at [of ?h5 40]
    by simp_all
  have "sampleRate * 1 \<le> sampleRate * ?b" using rate(1) ch by (intro mult_left_mono) simp_all
  then have "sampleRate < 2 ^ 32" using rate(2) by linarith
  moreover have "0 \<le> sampleRate * ?b" using rate(1) ch by simp
  ultimately have "int (field32 ?w 24) = sampleRate" "int (field32 ?w 28) = sampleRate * ?b"
    unfolding f using rate by (intro int_unat_word; simp del: of_int_mult)+
  moreover have "int (field16 ?w 22) = channels" "int (field16 ?w 32) = ?b"
    unfolding f using ch by (intro int_unat_word; simp del: of_int_mult)+
  moreover have "field32 ?w 40 = length ?p" "field32 ?w 4 = 36 + length ?p"
    unfolding f using small by (intro unat_word_nat; simp del: of_nat_add)+
  moreover have "length ?w = 44 + length ?p" unfolding w by simp
  ultimately show ?thesis using lp by (simp add: Let_def pay)
qed

lemma wav_header_describes_data_witness:
  "field32 (PCMToWAV [1, 2, 3, 4, 5] 8000 1) 40 = 4 \<and> int (field32 (PCMToWAV [1, 2, 3, 4, 5] 8000 1) 24) = 8000"
proof -
  have "length (drop 44 (PCMToWAV [1, 2, 3, 4, 5] 8000 1)) = 4" by code_simp
  with wav_header_describes_data [of 1 8000 "[1, 2, 3, 4, 5]"] show ?thesis by (simp add: Let_def)
qed

text \<open>The early exit of the loop does not matter, nor does the most negative sample.\<close>

lemma IsSilence_iff: "IsSilence pcm \<longleftrightarrow> (\<forall>s \<in> set (samples pcm). \<bar>sint s\<bar> \<le> 20)"
  by (simp add: IsSilence_def silent_samples_iff speakingThreshold_def)

end
