(* ===== verification/Vad.thy ===== *)
theory Vad
  imports Frames
begin

text \<open>
  Voice activity detection: the state machine every analyzer shares (\<^verbatim>\<open>src/audio/vad/vad.go\<close>) and the
  controller that turns its verdicts into speech events (\<^verbatim>\<open>src/audio/vad/controller/controller.go\<close>).

  The model that scores a frame, the loudness meter and the resampler are arguments. A \<open>float64\<close>
  the code only compares is a value of a linear order \<open>'f\<close>; the rounding of a duration to a number
  of analysis frames is the argument \<open>frameCount\<close>.
\<close>

section \<open>The detection state machine (vad.go)\<close>

datatype State = StateQuiet | StateStarting | StateSpeaking | StateStopping

record 'f Params =
  Confidence :: 'f
  StartSecs :: 'f
  StopSecs :: 'f
  MinVolume :: 'f

record ('c, 'v, 'f) detector =
  numFramesRequired :: "int \<Rightarrow> nat"
  voiceConfidence :: "'c \<Rightarrow> bytes \<Rightarrow> 'f \<times> 'c"
  volumeUpdate :: "'v \<Rightarrow> bytes \<Rightarrow> int \<Rightarrow> 'v"
  smoothVolume :: "'v \<Rightarrow> 'f \<Rightarrow> 'f"
  frameCount :: "'f \<Rightarrow> nat \<Rightarrow> int \<Rightarrow> int"

record ('c, 'v, 'f) stateMachine =
  self :: 'c
  params :: "'f Params"
  sampleRate :: int
  frameNumBytes :: nat
  startFrames :: int
  stopFrames :: int
  startingCount :: int
  stoppingCount :: int
  state :: State
  buf :: bytes
  volume :: 'v
  prevVolume :: 'f

definition resetDetection :: "('c, 'v, 'f) stateMachine \<Rightarrow> ('c, 'v, 'f) stateMachine" where
  "resetDetection m = m\<lparr>startingCount := 0, stoppingCount := 0, state := StateQuiet\<rparr>"

definition reset :: "('c, 'v, 'f) stateMachine \<Rightarrow> ('c, 'v, 'f) stateMachine" where
  "reset m = (resetDetection m)\<lparr>buf := []\<rparr>"

definition setSampleRate ::
  "('c, 'v, 'f) detector \<Rightarrow> int \<Rightarrow> ('c, 'v, 'f) stateMachine \<Rightarrow> ('c, 'v, 'f) stateMachine" where
  "setSampleRate d rate m =
    (let n = numFramesRequired d rate in
     resetDetection (m\<lparr>sampleRate := rate, frameNumBytes := n * 2,
       startFrames := frameCount d (StartSecs (params m)) n rate,
       stopFrames := frameCount d (StopSecs (params m)) n rate\<rparr>))"

definition SetParams ::
  "('c, 'v, 'f) detector \<Rightarrow> 'f Params \<Rightarrow> ('c, 'v, 'f) stateMachine \<Rightarrow> ('c, 'v, 'f) stateMachine" where
  "SetParams d p m =
    (let m' = m\<lparr>params := p\<rparr> in if 0 < sampleRate m' then setSampleRate d (sampleRate m') m' else m')"

definition advance :: "bool \<Rightarrow> ('c, 'v, 'f) stateMachine \<Rightarrow> ('c, 'v, 'f) stateMachine" where
  "advance speaking m =
    (if speaking then
       (case state m of
          StateQuiet \<Rightarrow> m\<lparr>state := StateStarting, startingCount := 1\<rparr>
        | StateStarting \<Rightarrow> m\<lparr>startingCount := startingCount m + 1\<rparr>
        | StateStopping \<Rightarrow> m\<lparr>state := StateSpeaking, stoppingCount := 0\<rparr>
        | StateSpeaking \<Rightarrow> m)
     else
       (case state m of
          StateStarting \<Rightarrow> m\<lparr>state := StateQuiet, startingCount := 0\<rparr>
        | StateSpeaking \<Rightarrow> m\<lparr>state := StateStopping, stoppingCount := 1\<rparr>
        | StateStopping \<Rightarrow> m\<lparr>stoppingCount := stoppingCount m + 1\<rparr>
        | StateQuiet \<Rightarrow> m))"

text \<open>One analysis frame: whether it scored as speech, and the machine after scoring it.\<close>

definition score ::
  "('c, 'v, 'f :: linorder) detector \<Rightarrow> bytes \<Rightarrow> ('c, 'v, 'f) stateMachine \<Rightarrow> bool \<times> ('c, 'v, 'f) stateMachine" where
  "score d frame m =
    (let (confidence, c) = voiceConfidence d (self m) frame;
         v = volumeUpdate d (volume m) frame (sampleRate m);
         pv = smoothVolume d v (prevVolume m)
     in (Confidence (params m) \<le> confidence \<and> MinVolume (params m) \<le> pv,
         m\<lparr>self := c, volume := v, prevVolume := pv\<rparr>))"

text \<open>
  The loop over the complete frames of the buffer. It does not end when the frame size is zero,
  which is the value before a sample rate has been set; then it has no result.
\<close>

partial_function (option) analyze_frames ::
  "('c, 'v, 'f :: linorder) detector \<Rightarrow> ('c, 'v, 'f) stateMachine \<Rightarrow> ('c, 'v, 'f) stateMachine option" where
  "analyze_frames d m =
    (if frameNumBytes m \<le> length (buf m) then
       (let frame = take (frameNumBytes m) (buf m);
            (speaking, m') = score d frame (m\<lparr>buf := drop (frameNumBytes m) (buf m)\<rparr>)
        in analyze_frames d (advance speaking m'))
     else Some m)"

text \<open>What \<open>AnalyzeAudio\<close> does after the loop.\<close>

definition confirm :: "('c, 'v, 'f) stateMachine \<Rightarrow> ('c, 'v, 'f) stateMachine" where
  "confirm m =
    (let m1 = (if state m = StateStarting \<and> startFrames m \<le> startingCount m
               then m\<lparr>state := StateSpeaking, startingCount := 0\<rparr> else m)
     in if state m1 = StateStopping \<and> stopFrames m1 \<le> stoppingCount m1
        then m1\<lparr>state := StateQuiet, stoppingCount := 0\<rparr> else m1)"

definition AnalyzeAudio ::
  "('c, 'v, 'f :: linorder) detector \<Rightarrow> bytes \<Rightarrow> ('c, 'v, 'f) stateMachine \<Rightarrow>
   (State \<times> ('c, 'v, 'f) stateMachine) option" where
  "AnalyzeAudio d buffer m =
    (let m1 = m\<lparr>buf := buf m @ buffer\<rparr> in
     if length (buf m1) < frameNumBytes m1 then Some (state m1, m1)
     else map_option (\<lambda>m2. (state (confirm m2), confirm m2)) (analyze_frames d m1))"

section \<open>The controller (controller.go)\<close>

definition analyzerSampleRate :: int where "analyzerSampleRate = 16000"

datatype speech_event = OnSpeechStarted | OnSpeechStopped | OnSpeechActivity | BroadcastParams

text \<open>
  \<open>'r\<close> is a resampler. \<open>watching\<close> says the idle watch is running; \<open>reported\<close> logs what was decided,
  in the order the decisions were taken under the controller's lock.
\<close>

record 'r vad_controller =
  idleTimeout :: duration
  resampler :: "'r option"
  inRate :: int
  analyzerRate :: int
  speaking :: bool
  lastAudioAt :: duration
  idle_watching :: bool
  reported :: "speech_event list"

definition DefaultAudioIdleTimeout :: duration where "DefaultAudioIdleTimeout = 1000000000"

definition New_controller :: "duration option \<Rightarrow> 'r vad_controller" where
  "New_controller cfg =
    \<lparr>idleTimeout = (case cfg of None \<Rightarrow> DefaultAudioIdleTimeout | Some t \<Rightarrow> t), resampler = None,
     inRate = 0, analyzerRate = 0, speaking = False, lastAudioAt = 0, idle_watching = False,
     reported = []\<rparr>"

text \<open>\<open>accepts\<close> says which rates the detector takes; \<^const>\<open>None\<close> is the error it returns otherwise.\<close>

definition Setup_controller :: "(int \<Rightarrow> bool) \<Rightarrow> int \<Rightarrow> 'r vad_controller \<Rightarrow> 'r vad_controller option" where
  "Setup_controller accepts audioIn c =
    (let rate = (if audioIn \<le> 0 then analyzerSampleRate else audioIn) in
     if accepts rate then Some (c\<lparr>analyzerRate := rate\<rparr>)
     else if accepts analyzerSampleRate then Some (c\<lparr>analyzerRate := analyzerSampleRate\<rparr>)
     else None)"

definition toAnalyzerRate ::
  "(int \<Rightarrow> int \<Rightarrow> 'r option) \<Rightarrow> ('r \<Rightarrow> bytes \<Rightarrow> bytes \<times> 'r) \<Rightarrow> AudioRawData \<Rightarrow> 'r vad_controller \<Rightarrow>
   bytes \<times> 'r vad_controller" where
  "toAnalyzerRate newResampler process f c =
    (if SampleRate f = analyzerRate c then (Audio f, c)
     else
       let c1 = (if resampler c = None \<or> inRate c \<noteq> SampleRate f
                 then (case newResampler (SampleRate f) (analyzerRate c) of
                     None \<Rightarrow> c\<lparr>resampler := None\<rparr>
                   | Some r \<Rightarrow> c\<lparr>resampler := Some r, inRate := SampleRate f\<rparr>)
                 else c)
       in case resampler c1 of
            None \<Rightarrow> (Audio f, c1)
          | Some r \<Rightarrow> (case process r (Audio f) of (out, r') \<Rightarrow> (out, c1\<lparr>resampler := Some r'\<rparr>)))"

text \<open>\<open>handleAudio\<close> once the detector has returned \<open>st\<close>, at clock reading \<open>t\<close>.\<close>

definition handleAudio :: "State \<Rightarrow> duration \<Rightarrow> 'r vad_controller \<Rightarrow> 'r vad_controller" where
  "handleAudio st t c =
    (let started = (st = StateSpeaking \<and> \<not> speaking c);
         stopped = (st = StateQuiet \<and> speaking c);
         c1 = c\<lparr>lastAudioAt := t, speaking := (if started then True else if stopped then False else speaking c)\<rparr>;
         evs = (if started then [OnSpeechStarted] else if stopped then [OnSpeechStopped] else []) @
               (if speaking c1 then [OnSpeechActivity] else [])
     in c1\<lparr>reported := reported c1 @ evs\<rparr>)"

definition stopIdleWatch :: "'r vad_controller \<Rightarrow> 'r vad_controller" where
  "stopIdleWatch c = c\<lparr>idle_watching := False\<rparr>"

definition startIdleWatch :: "duration \<Rightarrow> 'r vad_controller \<Rightarrow> 'r vad_controller" where
  "startIdleWatch t c =
    (if idleTimeout c \<le> 0 then c
     else (stopIdleWatch c)\<lparr>lastAudioAt := t, idle_watching := True\<rparr>)"

definition ReportParams :: "'r vad_controller \<Rightarrow> 'r vad_controller" where
  "ReportParams c = c\<lparr>reported := reported c @ [BroadcastParams]\<rparr>"

definition Start_controller :: "duration \<Rightarrow> 'r vad_controller \<Rightarrow> 'r vad_controller" where
  "Start_controller t c = startIdleWatch t (ReportParams c)"

text \<open>
  One turn of the loop of \<open>idleWatch\<close> at clock reading \<open>t\<close>: the controller, and how long the watch
  sleeps before it looks again.
\<close>

definition idleWatch :: "duration \<Rightarrow> 'r vad_controller \<Rightarrow> 'r vad_controller \<times> duration" where
  "idleWatch t c =
    (let remaining = lastAudioAt c + idleTimeout c - t in
     if remaining > 0 then (c, remaining)
     else let c1 = (if speaking c then c\<lparr>speaking := False, reported := reported c @ [OnSpeechStopped]\<rparr> else c)
       in (c1, idleTimeout c))"

text \<open>\<open>ProcessFrame\<close>, with the detector \<open>d\<close> in machine \<open>m\<close>; \<open>p\<close> reads the parameters a frame carries.\<close>

definition vad_ProcessFrame ::
  "('c, 'v, 'f :: linorder) detector \<Rightarrow> (opaque \<Rightarrow> 'f Params) \<Rightarrow> (int \<Rightarrow> int \<Rightarrow> 'r option) \<Rightarrow>
   ('r \<Rightarrow> bytes \<Rightarrow> bytes \<times> 'r) \<Rightarrow> duration \<Rightarrow> frame \<Rightarrow>
   ('c, 'v, 'f) stateMachine \<times> 'r vad_controller \<Rightarrow> (('c, 'v, 'f) stateMachine \<times> 'r vad_controller) option" where
  "vad_ProcessFrame d p newResampler process t f s =
    (case s of (m, c) \<Rightarrow>
      (case body f of
         Aud (InputAudioRawFrame a) \<Rightarrow>
           (case toAnalyzerRate newResampler process a c of (pcm, c1) \<Rightarrow>
              map_option (\<lambda>(st, m'). (m', handleAudio st t c1)) (AnalyzeAudio d pcm m))
       | Trn (VADParamsUpdateFrame q) \<Rightarrow> Some (SetParams d (p q) m, ReportParams c)
       | _ \<Rightarrow> Some (m, c)))"

section \<open>Frames and decisions\<close>

text \<open>The specification of the loop: cut the buffer into frames, score and advance one by one.\<close>

function split_frames :: "nat \<Rightarrow> bytes \<Rightarrow> bytes list" where
  "split_frames n bs = (if 0 < n \<and> n \<le> length bs then take n bs # split_frames n (drop n bs) else [])"
  by pat_completeness auto
termination by (relation "measure (\<lambda>(n, bs). length bs)") auto

declare split_frames.simps [simp del]

fun scores ::
  "('c, 'v, 'f :: linorder) detector \<Rightarrow> bytes list \<Rightarrow> ('c, 'v, 'f) stateMachine \<Rightarrow>
   bool list \<times> ('c, 'v, 'f) stateMachine" where
  "scores d [] m = ([], m)"
| "scores d (f # fs) m =
    (let (sp, m1) = score d f m; (sps, m2) = scores d fs m1 in (sp # sps, m2))"

definition leftover :: "nat \<Rightarrow> bytes \<Rightarrow> bytes" where
  "leftover n bs = drop (n * length (split_frames n bs)) bs"

lemma split_frames_short: "length bs < n \<Longrightarrow> split_frames n bs = []"
  by (simp add: split_frames.simps)

lemma split_frames_long: "0 < n \<Longrightarrow> n \<le> length bs \<Longrightarrow> split_frames n bs = take n bs # split_frames n (drop n bs)"
  by (subst split_frames.simps) simp

lemma leftover_long: "0 < n \<Longrightarrow> n \<le> length bs \<Longrightarrow> leftover n bs = leftover n (drop n bs)"
  by (simp add: leftover_def split_frames_long add.commute)

lemma split_frames_append:
  "0 < n \<Longrightarrow> split_frames n (bs @ cs) = split_frames n bs @ split_frames n (leftover n bs @ cs) \<and>
     leftover n (bs @ cs) = leftover n (leftover n bs @ cs)"
proof (induction "length bs" arbitrary: bs rule: less_induct)
  case less
  show ?case
  proof (cases "n \<le> length bs")
    case True
    then have "length (drop n bs) < length bs" using less.prems by simp
    from less.hyps [OF this less.prems] True less.prems show ?thesis
      by (simp add: split_frames_long leftover_long)
  next
    case False
    then show ?thesis by (simp add: split_frames_short leftover_def)
  qed
qed

lemma concat_split_frames: "0 < n \<Longrightarrow> concat (split_frames n bs) @ leftover n bs = bs"
proof (induction "length bs" arbitrary: bs rule: less_induct)
  case less
  show ?case
  proof (cases "n \<le> length bs")
    case True
    then have "length (drop n bs) < length bs" using less.prems by simp
    from less.hyps [OF this less.prems] True less.prems show ?thesis
      by (simp add: split_frames_long leftover_long)
  next
    case False
    then show ?thesis by (simp add: split_frames_short leftover_def)
  qed
qed

lemma length_leftover: "0 < n \<Longrightarrow> length (leftover n bs) < n"
proof (induction "length bs" arbitrary: bs rule: less_induct)
  case less
  show ?case
  proof (cases "n \<le> length bs")
    case True
    then have "length (drop n bs) < length bs" using less.prems by simp
    from less.hyps [OF this less.prems] True less.prems show ?thesis by (simp add: leftover_long)
  next
    case False
    then show ?thesis by (simp add: split_frames_short leftover_def)
  qed
qed

text \<open>What scoring reads and writes, and what advancing reads and writes, do not overlap.\<close>

lemma score_fst_cong:
  "self m = self m' \<Longrightarrow> volume m = volume m' \<Longrightarrow> prevVolume m = prevVolume m' \<Longrightarrow>
   sampleRate m = sampleRate m' \<Longrightarrow> params m = params m' \<Longrightarrow> fst (score d f m) = fst (score d f m')"
  by (simp add: score_def case_prod_beta Let_def)

definition hear :: "('c, 'v, 'f) stateMachine \<Rightarrow> 'c \<times> 'v \<times> 'f" where
  "hear m = (self m, volume m, prevVolume m)"

definition decide :: "('c, 'v, 'f) stateMachine \<Rightarrow> ('c, 'v, 'f) stateMachine \<Rightarrow> ('c, 'v, 'f) stateMachine" where
  "decide m a = m\<lparr>state := state a, startingCount := startingCount a, stoppingCount := stoppingCount a\<rparr>"

lemma advance_hear [simp]: "self (advance s m) = self m" "volume (advance s m) = volume m"
  "prevVolume (advance s m) = prevVolume m" "sampleRate (advance s m) = sampleRate m"
  "params (advance s m) = params m" "frameNumBytes (advance s m) = frameNumBytes m"
  "buf (advance s m) = buf m" "startFrames (advance s m) = startFrames m"
  "stopFrames (advance s m) = stopFrames m"
  by (simp_all add: advance_def split: State.split)

lemma score_decide:
  "score d f (decide m a) = (fst (score d f m), decide (snd (score d f m)) a)"
  by (simp add: score_def decide_def case_prod_beta Let_def)

lemma advance_decide: "advance s (decide m a) = decide m (advance s a)"
  by (cases "state a") (simp_all add: advance_def decide_def)

lemma decide_self [simp]: "decide m m = m"
  by (simp add: decide_def)

lemma score_buf: "score d f (m\<lparr>buf := bs\<rparr>) = (fst (score d f m), (snd (score d f m))\<lparr>buf := bs\<rparr>)"
  by (simp add: score_def case_prod_beta Let_def)

lemma scores_decide: "scores d fs (decide m a) = (fst (scores d fs m), decide (snd (scores d fs m)) a)"
  by (induction fs arbitrary: m) (simp_all add: score_decide case_prod_beta Let_def)

lemma scores_buf: "scores d fs (m\<lparr>buf := bs\<rparr>) = (fst (scores d fs m), (snd (scores d fs m))\<lparr>buf := bs\<rparr>)"
  by (induction fs arbitrary: m) (simp_all add: score_buf case_prod_beta Let_def)

lemma fold_advance_decide: "fold advance ds (decide m a) = decide m (fold advance ds a)"
  by (induction ds arbitrary: a) (simp_all add: advance_decide)

lemma score_fields [simp]:
  "state (snd (score d f m)) = state m" "startingCount (snd (score d f m)) = startingCount m"
  "stoppingCount (snd (score d f m)) = stoppingCount m" "frameNumBytes (snd (score d f m)) = frameNumBytes m"
  "startFrames (snd (score d f m)) = startFrames m" "stopFrames (snd (score d f m)) = stopFrames m"
  "params (snd (score d f m)) = params m" "buf (snd (score d f m)) = buf m"
  by (simp_all add: score_def case_prod_beta Let_def)

lemma advance_scored: "advance s (snd (score d f m)) = decide (snd (score d f m)) (advance s m)"
  by (cases "state m") (simp_all add: advance_def decide_def)

lemma decide_buf: "(decide m a)\<lparr>buf := bs\<rparr> = decide (m\<lparr>buf := bs\<rparr>) a"
  by (simp add: decide_def)

lemma advance_buf: "advance s (m\<lparr>buf := bs\<rparr>) = (advance s m)\<lparr>buf := bs\<rparr>"
  by (simp add: advance_def split: State.split)

lemma decide_decide: "decide m (decide k a) = decide m a"
  by (simp add: decide_def)

text \<open>The decisions taken over a buffer.\<close>

definition decisions :: "('c, 'v, 'f :: linorder) detector \<Rightarrow> ('c, 'v, 'f) stateMachine \<Rightarrow> bool list" where
  "decisions d m = fst (scores d (split_frames (frameNumBytes m) (buf m)) m)"

lemma analyze_frames_spec:
  assumes "0 < frameNumBytes m"
  shows "analyze_frames d m =
    Some (decide ((snd (scores d (split_frames (frameNumBytes m) (buf m)) m))
            \<lparr>buf := leftover (frameNumBytes m) (buf m)\<rparr>) (fold advance (decisions d m) m))"
  using assms
proof (induction "length (buf m)" arbitrary: m rule: less_induct)
  case less
  let ?n = "frameNumBytes m"
  show ?case
  proof (cases "?n \<le> length (buf m)")
    case False
    then show ?thesis
      by (simp add: analyze_frames.simps [of d m] split_frames_short leftover_def decisions_def)
  next
    case True
    let ?f = "take ?n (buf m)" and ?r = "drop ?n (buf m)"
    obtain sp m1 where sc: "score d ?f m = (sp, m1)" by fastforce
    let ?m2 = "decide (m1\<lparr>buf := ?r\<rparr>) (advance sp m)"
    have a: "advance sp (m1\<lparr>buf := ?r\<rparr>) = ?m2"
      using advance_scored [of sp d ?f m] sc by (simp add: advance_buf decide_buf)
    have step: "analyze_frames d m = analyze_frames d ?m2"
      using True sc a by (subst analyze_frames.simps) (simp add: score_buf Let_def)
    have b2: "buf ?m2 = ?r" "frameNumBytes ?m2 = ?n"
      using sc score_fields(4) [of d ?f m] by (simp_all add: decide_def)
    have "length (buf ?m2) < length (buf m)" using less.prems True b2 by simp
    from less.hyps [OF this] less.prems b2 have IH: "analyze_frames d ?m2 =
        Some (decide ((snd (scores d (split_frames ?n ?r) ?m2))\<lparr>buf := leftover ?n ?r\<rparr>)
          (fold advance (decisions d ?m2) ?m2))" by simp
    have s2: "scores d (split_frames ?n ?r) ?m2 = (fst (scores d (split_frames ?n ?r) m1),
        decide ((snd (scores d (split_frames ?n ?r) m1))\<lparr>buf := ?r\<rparr>) (advance sp m))"
      by (simp add: scores_decide scores_buf)
    have full: "scores d (split_frames ?n (buf m)) m = (sp # fst (scores d (split_frames ?n ?r) m1),
        snd (scores d (split_frames ?n ?r) m1))"
      using True less.prems sc by (simp add: split_frames_long case_prod_beta Let_def)
    show ?thesis
      unfolding step IH decisions_def full b2 s2
      using True less.prems
      by (simp add: fold_advance_decide decide_buf decide_decide leftover_long)
        (simp add: decide_def)
  qed
qed

section \<open>The buffer\<close>

lemma confirm_fields [simp]:
  "self (confirm m) = self m" "volume (confirm m) = volume m" "prevVolume (confirm m) = prevVolume m"
  "buf (confirm m) = buf m" "frameNumBytes (confirm m) = frameNumBytes m" "sampleRate (confirm m) = sampleRate m"
  "params (confirm m) = params m" "startFrames (confirm m) = startFrames m" "stopFrames (confirm m) = stopFrames m"
  by (simp_all add: confirm_def Let_def)

lemma scores_fields [simp]:
  "params (snd (scores d fs m)) = params m" "frameNumBytes (snd (scores d fs m)) = frameNumBytes m"
  "startFrames (snd (scores d fs m)) = startFrames m" "stopFrames (snd (scores d fs m)) = stopFrames m"
  "sampleRate (snd (scores d fs m)) = sampleRate m"
  by (induction fs arbitrary: m) (simp_all add: case_prod_beta Let_def, simp_all add: score_def case_prod_beta Let_def)

lemma AnalyzeAudio_spec:
  assumes "0 < frameNumBytes m"
  obtains m' where "AnalyzeAudio d b m = Some (state m', m')"
    "hear m' = hear (snd (scores d (split_frames (frameNumBytes m) (buf m @ b)) m))"
    "buf m' = leftover (frameNumBytes m) (buf m @ b)"
    "frameNumBytes m' = frameNumBytes m" "sampleRate m' = sampleRate m" "params m' = params m"
proof -
  let ?m1 = "m\<lparr>buf := buf m @ b\<rparr>" and ?n = "frameNumBytes m"
  let ?m2 = "decide ((snd (scores d (split_frames ?n (buf m @ b)) ?m1))\<lparr>buf := leftover ?n (buf m @ b)\<rparr>)
      (fold advance (decisions d ?m1) ?m1)"
  show thesis
  proof (cases "length (buf m @ b) < ?n")
    case True
    then show thesis
      by (intro that [of ?m1]) (simp_all add: AnalyzeAudio_def Let_def hear_def split_frames_short leftover_def)
  next
    case False
    have "analyze_frames d ?m1 = Some ?m2" using analyze_frames_spec [of ?m1 d] assms by simp
    with False show thesis
      by (intro that [of "confirm ?m2"]) (simp_all add: AnalyzeAudio_def Let_def hear_def decide_def scores_buf)
  qed
qed


text \<open>
  A detector that has not been given a sample rate has a frame size of zero, and feeding it audio
  does not return: the loop takes empty frames off the buffer forever.
\<close>

lemma analyze_frames_diverges: "frameNumBytes m = 0 \<Longrightarrow> analyze_frames d m = None"
proof -
  have "frameNumBytes m \<noteq> 0" if "analyze_frames d m = Some r" for r
  proof (rule analyze_frames.raw_induct [OF _ that, where P = "\<lambda>d m r. frameNumBytes m \<noteq> 0"])
    fix af d m r
    assume IH: "\<And>d m r. af d m = Some r \<Longrightarrow> frameNumBytes m \<noteq> 0"
      and eq: "(if frameNumBytes m \<le> length (buf m)
         then let frame = take (frameNumBytes m) (buf m);
                  (speaking, m') = score d frame (m\<lparr>buf := drop (frameNumBytes m) (buf m)\<rparr>)
              in af d (advance speaking m')
         else Some m) = Some r"
    let ?s = "score d (take (frameNumBytes m) (buf m)) (m\<lparr>buf := drop (frameNumBytes m) (buf m)\<rparr>)"
    have "af d (advance (fst ?s) (snd ?s)) = Some r" if "frameNumBytes m = 0"
      using eq that by (simp add: case_prod_beta Let_def)
    from IH [OF this] show "frameNumBytes m \<noteq> 0" by auto
  qed
  then show "frameNumBytes m = 0 \<Longrightarrow> analyze_frames d m = None" by (cases "analyze_frames d m") auto
qed

lemma analyze_audio_diverges: "frameNumBytes m = 0 \<Longrightarrow> AnalyzeAudio d b m = None"
  by (simp add: AnalyzeAudio_def Let_def analyze_frames_diverges)

fun feed ::
  "('c, 'v, 'f :: linorder) detector \<Rightarrow> bytes list \<Rightarrow> ('c, 'v, 'f) stateMachine \<Rightarrow>
   ('c, 'v, 'f) stateMachine option" where
  "feed d [] m = Some m"
| "feed d (b # bs) m = (case AnalyzeAudio d b m of None \<Rightarrow> None | Some (st, m') \<Rightarrow> feed d bs m')"

lemma scores_append: "snd (scores d (xs @ ys) m) = snd (scores d ys (snd (scores d xs m)))"
  by (induction xs arbitrary: m) (simp_all add: case_prod_beta Let_def)

lemma hear_score:
  "hear (snd (score d f m)) =
    (snd (voiceConfidence d (fst (hear m)) f), volumeUpdate d (fst (snd (hear m))) f (sampleRate m),
     smoothVolume d (volumeUpdate d (fst (snd (hear m))) f (sampleRate m)) (snd (snd (hear m))))"
  by (simp add: score_def hear_def case_prod_beta Let_def)

lemma score_hear_cong:
  "hear m = hear k \<Longrightarrow> sampleRate m = sampleRate k \<Longrightarrow> hear (snd (score d f m)) = hear (snd (score d f k))"
  by (simp only: hear_score)

lemma scores_hear_cong:
  "hear m = hear k \<Longrightarrow> sampleRate m = sampleRate k \<Longrightarrow> hear (snd (scores d fs m)) = hear (snd (scores d fs k))"
proof (induction fs arbitrary: m k)
  case (Cons f fs)
  have "sampleRate (snd (score d f m)) = sampleRate (snd (score d f k))"
    using Cons.prems(2) by (simp add: score_def case_prod_beta Let_def)
  from Cons.IH [OF score_hear_cong [OF Cons.prems] this] show ?case
    by (simp add: case_prod_beta Let_def)
qed simp


section \<open>Start and stop windows\<close>

text \<open>The number of frames in a row, up to the last one, that satisfied a condition.\<close>

definition run_length :: "int \<Rightarrow> bool list \<Rightarrow> int" where
  "run_length k ds = foldl (\<lambda>k b. if b then k + 1 else 0) k ds"

text \<open>The counters say which pending state the machine is in.\<close>

definition counts_ok :: "('c, 'v, 'f) stateMachine \<Rightarrow> bool" where
  "counts_ok m \<longleftrightarrow> 0 \<le> startingCount m \<and> 0 \<le> stoppingCount m \<and>
     (state m = StateStarting \<longleftrightarrow> 0 < startingCount m) \<and> (state m = StateStopping \<longleftrightarrow> 0 < stoppingCount m)"

lemma counts_ok_advance: "counts_ok m \<Longrightarrow> counts_ok (advance s m)"
  by (cases "state m") (auto simp: counts_ok_def advance_def)

lemma counts_ok_fold: "counts_ok m \<Longrightarrow> counts_ok (fold advance ds m)"
  by (induction ds arbitrary: m) (simp_all add: counts_ok_advance)

lemma counts_ok_confirm: "counts_ok m \<Longrightarrow> counts_ok (confirm m)"
  by (auto simp: counts_ok_def confirm_def Let_def)

lemma advance_quiet:
  assumes "counts_ok m" and "state m = StateQuiet \<or> state m = StateStarting"
  shows "(state (advance s m) = StateQuiet \<or> state (advance s m) = StateStarting) \<and>
    startingCount (advance s m) = (if s then startingCount m + 1 else 0)"
  using assms by (cases "state m") (auto simp: counts_ok_def advance_def)

lemma fold_advance_quiet:
  "counts_ok m \<Longrightarrow> state m = StateQuiet \<or> state m = StateStarting \<Longrightarrow>
   (state (fold advance ds m) = StateQuiet \<or> state (fold advance ds m) = StateStarting) \<and>
   startingCount (fold advance ds m) = run_length (startingCount m) ds"
proof (induction ds arbitrary: m)
  case (Cons s ds)
  from advance_quiet [OF Cons.prems, of s] Cons.IH [OF counts_ok_advance [OF Cons.prems(1)], of s]
  show ?case by (auto simp: run_length_def)
qed (simp add: run_length_def)

lemma advance_speaking:
  assumes "counts_ok m" and "state m = StateSpeaking \<or> state m = StateStopping"
  shows "(state (advance s m) = StateSpeaking \<or> state (advance s m) = StateStopping) \<and>
    stoppingCount (advance s m) = (if s then 0 else stoppingCount m + 1)"
  using assms by (cases "state m") (auto simp: counts_ok_def advance_def)

lemma fold_advance_speaking:
  "counts_ok m \<Longrightarrow> state m = StateSpeaking \<or> state m = StateStopping \<Longrightarrow>
   (state (fold advance ds m) = StateSpeaking \<or> state (fold advance ds m) = StateStopping) \<and>
   stoppingCount (fold advance ds m) = run_length (stoppingCount m) (map Not ds)"
proof (induction ds arbitrary: m)
  case (Cons s ds)
  from advance_speaking [OF Cons.prems, of s] Cons.IH [OF counts_ok_advance [OF Cons.prems(1)], of s]
  show ?case by (auto simp: run_length_def)
qed (simp add: run_length_def)

lemma fold_advance_fields [simp]:
  "startFrames (fold advance ds m) = startFrames m" "stopFrames (fold advance ds m) = stopFrames m"
  by (induction ds arbitrary: m) simp_all

text \<open>The decisions a chunk adds, with the bytes already waiting.\<close>

definition chunk_decisions ::
  "('c, 'v, 'f :: linorder) detector \<Rightarrow> bytes \<Rightarrow> ('c, 'v, 'f) stateMachine \<Rightarrow> bool list" where
  "chunk_decisions d b m = decisions d (m\<lparr>buf := buf m @ b\<rparr>)"

lemma AnalyzeAudio_state:
  assumes "0 < frameNumBytes m" and "frameNumBytes m \<le> length (buf m @ b)"
  shows "\<exists>m'. AnalyzeAudio d b m = Some (state m', m') \<and>
    state m' = state (confirm (fold advance (chunk_decisions d b m) m)) \<and>
    startingCount m' = startingCount (confirm (fold advance (chunk_decisions d b m) m)) \<and>
    stoppingCount m' = stoppingCount (confirm (fold advance (chunk_decisions d b m) m))"
proof -
  let ?m1 = "m\<lparr>buf := buf m @ b\<rparr>"
  have f: "fold advance ds ?m1 = decide ?m1 (fold advance ds m)" for ds
  proof -
    have "?m1 = decide ?m1 m" by (simp add: decide_def)
    then show ?thesis by (metis fold_advance_decide)
  qed
  show ?thesis
    using analyze_frames_spec [of ?m1 d] assms
    by (simp add: AnalyzeAudio_def Let_def chunk_decisions_def f decide_decide)
      (simp add: confirm_def decide_def Let_def)
qed

text \<open>
  Speech is confirmed exactly when enough frames in a row scored as speech: a machine that is
  quiet or starting reports speaking after a chunk if and only if the run of speech frames it ends
  with, counting those of earlier chunks, is at least the start window (and at least one frame).
\<close>

lemma speaking_needs_start_window:
  assumes "0 < frameNumBytes m" and "frameNumBytes m \<le> length (buf m @ b)" and "counts_ok m"
    and "state m = StateQuiet \<or> state m = StateStarting"
  shows "\<exists>st m'. AnalyzeAudio d b m = Some (st, m') \<and> counts_ok m' \<and>
    (st = StateSpeaking \<longleftrightarrow> max 1 (startFrames m) \<le> run_length (startingCount m) (chunk_decisions d b m))"
proof -
  let ?f = "fold advance (chunk_decisions d b m) m"
  obtain m' where m': "AnalyzeAudio d b m = Some (state m', m')" "state m' = state (confirm ?f)"
    "startingCount m' = startingCount (confirm ?f)" "stoppingCount m' = stoppingCount (confirm ?f)"
    using AnalyzeAudio_state [OF assms(1,2)] by blast
  have ok: "counts_ok ?f" by (rule counts_ok_fold [OF assms(3)])
  have "counts_ok m'" using counts_ok_confirm [OF ok] m'(2-4) by (simp add: counts_ok_def)
  moreover from fold_advance_quiet [OF assms(3,4), of "chunk_decisions d b m"] ok m'(2)
  have "state m' = StateSpeaking \<longleftrightarrow> max 1 (startFrames m) \<le> run_length (startingCount m) (chunk_decisions d b m)"
    by (auto simp: confirm_def Let_def counts_ok_def)
  ultimately show ?thesis using m'(1) by blast
qed

text \<open>A detector with frames of one sample: the confidence is the low byte, the volume is constant.\<close>

definition a_detector :: "(unit, unit, nat) detector" where
  "a_detector = \<lparr>numFramesRequired = (\<lambda>r. 1), voiceConfidence = (\<lambda>c f. (unat (hd f), c)),
     volumeUpdate = (\<lambda>v f r. v), smoothVolume = (\<lambda>v p. 1), frameCount = (\<lambda>s n r. int s)\<rparr>"

definition a_machine :: "(unit, unit, nat) stateMachine" where
  "a_machine = setSampleRate a_detector 16000
     \<lparr>self = (), params = \<lparr>Confidence = 7, StartSecs = 3, StopSecs = 2, MinVolume = 1\<rparr>, sampleRate = 0,
      frameNumBytes = 0, startFrames = 0, stopFrames = 0, startingCount = 0, stoppingCount = 0,
      state = StateQuiet, buf = [], volume = (), prevVolume = 0\<rparr>"

lemma a_machine_ok: "frameNumBytes a_machine = 2" "counts_ok a_machine" "state a_machine = StateQuiet"
  "buf a_machine = []" "startFrames a_machine = 3" "startingCount a_machine = 0"
  by (simp_all add: a_machine_def setSampleRate_def resetDetection_def a_detector_def counts_ok_def Let_def)



lemma a_decisions:
  "chunk_decisions a_detector [9, 0, 1, 0, 8, 0, 8, 0, 7, 0] a_machine = [True, False, True, True, True]"
  by code_simp

lemma speaking_needs_start_window_witness:
  "\<exists>st m'. AnalyzeAudio a_detector [9, 0, 1, 0, 8, 0, 8, 0, 7, 0] a_machine = Some (st, m') \<and> st = StateSpeaking"
  using speaking_needs_start_window [of a_machine "[9, 0, 1, 0, 8, 0, 8, 0, 7, 0]" a_detector]
  by (auto simp: a_machine_ok a_decisions run_length_def)

text \<open>
  Silence is confirmed exactly when enough frames in a row did not score as speech: a machine that
  is speaking or stopping reports quiet after a chunk if and only if the run of silent frames it ends
  with, counting those of earlier chunks, is at least the stop window (and at least one frame).
\<close>

lemma quiet_needs_stop_window:
  assumes "0 < frameNumBytes m" and "frameNumBytes m \<le> length (buf m @ b)" and "counts_ok m"
    and "state m = StateSpeaking \<or> state m = StateStopping"
  shows "\<exists>st m'. AnalyzeAudio d b m = Some (st, m') \<and> counts_ok m' \<and>
    (st = StateQuiet \<longleftrightarrow> max 1 (stopFrames m) \<le> run_length (stoppingCount m) (map Not (chunk_decisions d b m)))"
proof -
  let ?f = "fold advance (chunk_decisions d b m) m"
  obtain m' where m': "AnalyzeAudio d b m = Some (state m', m')" "state m' = state (confirm ?f)"
    "startingCount m' = startingCount (confirm ?f)" "stoppingCount m' = stoppingCount (confirm ?f)"
    using AnalyzeAudio_state [OF assms(1,2)] by blast
  have ok: "counts_ok ?f" by (rule counts_ok_fold [OF assms(3)])
  have "counts_ok m'" using counts_ok_confirm [OF ok] m'(2-4) by (simp add: counts_ok_def)
  moreover from fold_advance_speaking [OF assms(3,4), of "chunk_decisions d b m"] ok m'(2)
  have "state m' = StateQuiet \<longleftrightarrow>
      max 1 (stopFrames m) \<le> run_length (stoppingCount m) (map Not (chunk_decisions d b m))"
    by (auto simp: confirm_def Let_def counts_ok_def)
  ultimately show ?thesis using m'(1) by blast
qed

definition a_speaking_machine :: "(unit, unit, nat) stateMachine" where
  "a_speaking_machine = a_machine\<lparr>state := StateSpeaking\<rparr>"

lemma quiet_needs_stop_window_witness:
  "\<exists>st m'. AnalyzeAudio a_detector [9, 0, 1, 0, 2, 0] a_speaking_machine = Some (st, m') \<and> st = StateQuiet"
proof -
  have "chunk_decisions a_detector [9, 0, 1, 0, 2, 0] a_speaking_machine = [True, False, False]"
    "stopFrames a_speaking_machine = 2" "stoppingCount a_speaking_machine = 0" by code_simp+
  with quiet_needs_stop_window [of a_speaking_machine "[9, 0, 1, 0, 2, 0]" a_detector] a_machine_ok
  show ?thesis by (auto simp: run_length_def a_speaking_machine_def counts_ok_def)
qed

section \<open>Speech events\<close>

datatype vad_action = AudioHeard State duration | IdleTurn duration | StartWatch duration | StopWatch | NewParams

fun vad_act :: "vad_action \<Rightarrow> 'r vad_controller \<Rightarrow> 'r vad_controller" where
  "vad_act (AudioHeard st t) c = handleAudio st t c"
| "vad_act (IdleTurn t) c = (if idle_watching c then fst (idleWatch t c) else c)"
| "vad_act (StartWatch t) c = Start_controller t c"
| "vad_act StopWatch c = stopIdleWatch c"
| "vad_act NewParams c = ReportParams c"

text \<open>Started and stopped reports strictly alternate, beginning with a start.\<close>

fun alternating :: "bool \<Rightarrow> speech_event list \<Rightarrow> bool" where
  "alternating on [] \<longleftrightarrow> True"
| "alternating on (OnSpeechStarted # es) \<longleftrightarrow> \<not> on \<and> alternating True es"
| "alternating on (OnSpeechStopped # es) \<longleftrightarrow> on \<and> alternating False es"
| "alternating on (OnSpeechActivity # es) \<longleftrightarrow> on \<and> alternating on es"
| "alternating on (BroadcastParams # es) \<longleftrightarrow> alternating on es"

fun speaking_after :: "bool \<Rightarrow> speech_event list \<Rightarrow> bool" where
  "speaking_after on [] = on"
| "speaking_after on (OnSpeechStarted # es) = speaking_after True es"
| "speaking_after on (OnSpeechStopped # es) = speaking_after False es"
| "speaking_after on (e # es) = speaking_after on es"

lemma alternating_append:
  "alternating on (xs @ ys) \<longleftrightarrow> alternating on xs \<and> alternating (speaking_after on xs) ys"
  by (induction on xs rule: alternating.induct) auto

lemma speaking_after_append: "speaking_after on (xs @ ys) = speaking_after (speaking_after on xs) ys"
  by (induction on xs rule: alternating.induct) auto

definition reports_ok :: "'r vad_controller \<Rightarrow> bool" where
  "reports_ok c \<longleftrightarrow> alternating False (reported c) \<and> speaking_after False (reported c) = speaking c"

lemma reports_ok_act: "reports_ok c \<Longrightarrow> reports_ok (vad_act a c)"
  by (cases a)
    (auto simp: reports_ok_def handleAudio_def idleWatch_def Start_controller_def startIdleWatch_def
      stopIdleWatch_def ReportParams_def Let_def alternating_append speaking_after_append)

text \<open>
  The controller reports speech consistently: over any sequence of audio, idle-watch turns,
  restarts and parameter changes, started and stopped reports alternate, activity is only reported
  while the user is speaking, and the speaking flag is what the reports add up to.
\<close>

lemma speech_reports_alternate:
  "alternating False (reported (fold vad_act as (New_controller cfg :: 'r vad_controller))) \<and>
   speaking_after False (reported (fold vad_act as (New_controller cfg :: 'r vad_controller))) =
     speaking (fold vad_act as (New_controller cfg :: 'r vad_controller))"
proof -
  have "reports_ok c \<Longrightarrow> reports_ok (fold vad_act as c)" for c :: "'r vad_controller"
    by (induction as arbitrary: c) (simp_all add: reports_ok_act)
  moreover have "reports_ok (New_controller cfg :: 'r vad_controller)" by (simp add: reports_ok_def New_controller_def)
  ultimately show ?thesis by (simp add: reports_ok_def)
qed

text \<open>
  A user whose audio stops arriving is not left speaking: however long the watch has been asleep,
  the sleep it asked for ends no later than the idle timeout after the last audio or its own last
  look, and the turn it then takes ends the speech and reports it, once.
\<close>

lemma idle_watch_ends_speech:
  assumes "0 < idleTimeout c" and "speaking c" and "idleWatch t c = (c1, sleep)" and "speaking c1"
  shows "t + sleep = lastAudioAt c1 + idleTimeout c1 \<and>
    \<not> speaking (fst (idleWatch (t + sleep) c1)) \<and>
    reported (fst (idleWatch (t + sleep) c1)) = reported c @ [OnSpeechStopped]"
  using assms by (auto simp: idleWatch_def Let_def split: if_splits)

lemma idle_watch_ends_speech_witness:
  "\<not> speaking (fst (idleWatch 1000000005 (handleAudio StateSpeaking 5 (New_controller None :: unit vad_controller))))"
proof -
  let ?c = "handleAudio StateSpeaking 5 (New_controller None :: unit vad_controller)"
  have "idleWatch 7 ?c = (?c, 999999998)" "speaking ?c" "0 < idleTimeout ?c"
    by (simp_all add: idleWatch_def handleAudio_def New_controller_def DefaultAudioIdleTimeout_def Let_def)
  from idle_watch_ends_speech [OF this(3,2,1,2)] show ?thesis by simp
qed

end
