(* ===== verification/Turn_Strategies.thy ===== *)
theory Turn_Strategies
  imports Frame_Queues Go_Strings
begin

text \<open>
  The user-turn strategies, \<^verbatim>\<open>src/processor/turns/\<close> (\<open>types.go\<close>, \<open>strategy.go\<close>, \<open>start.go\<close>, \<open>stop.go\<close>):
  their state and the part of each that touches nothing but that state. What a strategy does through
  its triggers, which re-enter the controller and through it every strategy, is in \<open>Turn_Controller\<close>.

  A timer of \<open>strategyEnv.after\<close> is the instant it is due, or \<open>None\<close> when there is none: its callback
  takes the shared mutex and gives up when it was cancelled meanwhile, so a cancelled timer never acts
  and a pending one may act at any moment from its due time on. The one place where the source arms a
  timer over another without cancelling it is modelled as such (\<open>sttOrphans\<close>). The end-of-turn model
  is a parameter with a state of its own. Texts are ASCII: the Unicode part of the regular
  expressions' classes is outside the model.
\<close>

section \<open>Text matching\<close>

text \<open>
  The pattern \<open>(?i)\b w1 \s* w2 \s* ... \b\<close> of a wake phrase. A word of the phrase holds no white
  space, so a run of \<open>\s*\<close> can only match all the white space there is and the match is found without
  backtracking. \<open>prev\<close> is the character before the position, if any.
\<close>

fun match_literal :: "string \<Rightarrow> char option \<Rightarrow> string \<Rightarrow> (char option \<times> string) option" where
  "match_literal [] prev s = Some (prev, s)"
| "match_literal (w # ws) prev [] = None"
| "match_literal (w # ws) prev (c # cs) =
    (if to_lower w = to_lower c then match_literal ws (Some c) cs else None)"

fun skip_space :: "char option \<Rightarrow> string \<Rightarrow> char option \<times> string" where
  "skip_space prev [] = (prev, [])"
| "skip_space prev (c # cs) = (if re_space c then skip_space (Some c) cs else (prev, c # cs))"

fun match_words :: "string list \<Rightarrow> char option \<Rightarrow> string \<Rightarrow> (char option \<times> string) option" where
  "match_words [] prev s = Some (prev, s)"
| "match_words [w] prev s = match_literal w prev s"
| "match_words (w # ws) prev s =
    (case match_literal w prev s of
       None \<Rightarrow> None
     | Some (p, r) \<Rightarrow> (case skip_space p r of (p', r') \<Rightarrow> match_words ws p' r'))"

definition word_boundary :: "char option \<Rightarrow> string \<Rightarrow> bool" where
  "word_boundary prev s \<longleftrightarrow>
    (case prev of None \<Rightarrow> False | Some c \<Rightarrow> re_word c) \<noteq>
    (case s of [] \<Rightarrow> False | c # _ \<Rightarrow> re_word c)"

fun match_from :: "string list \<Rightarrow> char option \<Rightarrow> string \<Rightarrow> bool" where
  "match_from ws prev s =
    ((word_boundary prev s \<and>
      (case match_words ws prev s of None \<Rightarrow> False | Some (p, r) \<Rightarrow> word_boundary p r)) \<or>
     (case s of [] \<Rightarrow> False | c # cs \<Rightarrow> match_from ws (Some c) cs))"

definition MatchString :: "string list \<Rightarrow> string \<Rightarrow> bool" where
  "MatchString ws s = match_from ws None s"

text \<open>\<open>wakePunctuation.ReplaceAllString(text, "")\<close>.\<close>

definition strip_punctuation :: "string \<Rightarrow> string" where
  "strip_punctuation s = filter (\<lambda>c. re_word c \<or> re_space c) s"

text \<open>\<open>compileWakePatterns\<close>: a phrase is kept with its words; one with none is left out.\<close>

definition compileWakePatterns :: "string list \<Rightarrow> (string \<times> string list) list" where
  "compileWakePatterns ps = filter (\<lambda>pw. snd pw \<noteq> []) (map (\<lambda>p. (p, Fields p)) ps)"

section \<open>What the strategies report and return\<close>

datatype ProcessFrameResult = Continue | Stop

record UserTurnStartedParams =
  sp_Interruptions :: bool
  sp_UserSpeakingFrames :: bool

record UserTurnStoppedParams =
  tp_UserSpeakingFrames :: bool

definition DefaultStoppedParams :: UserTurnStoppedParams where
  "DefaultStoppedParams = \<lparr>tp_UserSpeakingFrames = True\<rparr>"

definition boolOr :: "bool option \<Rightarrow> bool \<Rightarrow> bool" where
  "boolOr p configured = (case p of None \<Rightarrow> configured | Some v \<Rightarrow> v)"

text \<open>
  The calls that leave the controller, in order: the hooks of \<open>ControllerHooks\<close> with the position of
  the strategy that decided (\<open>None\<close> for the watchdog), and the callbacks of a wake phrase.
\<close>

datatype turn_event =
    HookStarted nat UserTurnStartedParams
  | HookStopped "nat option" UserTurnStoppedParams
  | HookInferenceTriggered nat
  | HookStopTimeout
  | HookResetAggregation nat
  | HookPush frame_body Direction
  | HookTurnMetrics bool opaque "duration option"
  | HookBroadcast frame_body
  | WakePhraseDetected string
  | WakePhraseTimeout

section \<open>Start strategies\<close>

definition wakePhraseDefaultTimeout :: duration where
  "wakePhraseDefaultTimeout = 10000000000"

definition wakeAccumLimit :: nat where
  "wakeAccumLimit = 250"

record wakePhraseStart =
  wk_patterns :: "(string \<times> string list) list"
  wk_timeout :: duration
  wk_single :: bool
  awake :: bool
  accum :: string
  wk_timer :: "duration option"

datatype start_core =
    VADStart
  | TranscriptionStart bool
  | MinWordsStart int bool bool
  | WakePhraseStart wakePhraseStart
  | ExternalStart

record start_strategy =
  EnableInterruptions :: bool
  start_UserSpeakingFrames :: bool
  start_core :: start_core

definition NewVADStart :: start_strategy where
  "NewVADStart = \<lparr>EnableInterruptions = True, start_UserSpeakingFrames = True, start_core = VADStart\<rparr>"

definition NewTranscriptionStart :: "bool option \<Rightarrow> start_strategy" where
  "NewTranscriptionStart useInterim =
    \<lparr>EnableInterruptions = True, start_UserSpeakingFrames = True,
     start_core = TranscriptionStart (boolOr useInterim True)\<rparr>"

definition NewMinWordsStart :: "int \<Rightarrow> bool option \<Rightarrow> start_strategy" where
  "NewMinWordsStart minWords useInterim =
    \<lparr>EnableInterruptions = True, start_UserSpeakingFrames = True,
     start_core = MinWordsStart minWords (boolOr useInterim True) False\<rparr>"

definition NewWakePhraseStart :: "string list \<Rightarrow> duration \<Rightarrow> bool \<Rightarrow> start_strategy" where
  "NewWakePhraseStart ps t single =
    \<lparr>EnableInterruptions = True, start_UserSpeakingFrames = True,
     start_core = WakePhraseStart
       \<lparr>wk_patterns = compileWakePatterns ps,
        wk_timeout = (if t = 0 then wakePhraseDefaultTimeout else t),
        wk_single = single, awake = False, accum = [], wk_timer = None\<rparr>\<rparr>"

definition NewExternalStart :: "bool option \<Rightarrow> start_strategy" where
  "NewExternalStart interruptions =
    \<lparr>EnableInterruptions = boolOr interruptions True, start_UserSpeakingFrames = True,
     start_core = ExternalStart\<rparr>"

definition wake_refresh :: "duration \<Rightarrow> wakePhraseStart \<Rightarrow> wakePhraseStart" where
  "wake_refresh now w = w\<lparr>wk_timer := Some (now + wk_timeout w)\<rparr>"

definition transitionToAwake :: "duration \<Rightarrow> wakePhraseStart \<Rightarrow> wakePhraseStart" where
  "transitionToAwake now w = wake_refresh now (w\<lparr>awake := True, accum := []\<rparr>)"

definition transitionToIdle :: "wakePhraseStart \<Rightarrow> wakePhraseStart" where
  "transitionToIdle w = w\<lparr>awake := False, accum := []\<rparr>"

text \<open>\<open>checkWakePhrase\<close>, with the phrase that matched.\<close>

definition checkWakePhrase :: "duration \<Rightarrow> string \<Rightarrow> wakePhraseStart \<Rightarrow> wakePhraseStart \<times> string option" where
  "checkWakePhrase now text w =
    (let acc = accum w @ '' '' @ strip_punctuation text;
         acc = (if wakeAccumLimit < length acc then drop (length acc - wakeAccumLimit) acc else acc);
         w = w\<lparr>accum := acc\<rparr>
     in case find (\<lambda>pw. MatchString (snd pw) acc) (wk_patterns w) of
          None \<Rightarrow> (w, None)
        | Some (p, _) \<Rightarrow> (transitionToAwake now w, Some p))"

text \<open>\<open>TurnStarted\<close>; \<open>TurnStopped\<close> does nothing for every start strategy.\<close>

definition start_core_TurnStarted :: "duration \<Rightarrow> start_core \<Rightarrow> start_core" where
  "start_core_TurnStarted now s =
    (case s of
       MinWordsStart n i b \<Rightarrow> MinWordsStart n i False
     | WakePhraseStart w \<Rightarrow>
         WakePhraseStart (if awake w \<and> \<not> wk_single w then wake_refresh now w else w)
     | _ \<Rightarrow> s)"

definition start_TurnStarted :: "duration \<Rightarrow> start_strategy \<Rightarrow> start_strategy" where
  "start_TurnStarted now s = s\<lparr>start_core := start_core_TurnStarted now (start_core s)\<rparr>"

definition start_Cleanup :: "start_strategy \<Rightarrow> start_strategy" where
  "start_Cleanup s =
    (case start_core s of
       WakePhraseStart w \<Rightarrow> s\<lparr>start_core := WakePhraseStart (w\<lparr>wk_timer := None\<rparr>)\<rparr>
     | _ \<Rightarrow> s)"

definition start_Resolves :: "start_strategy \<Rightarrow> bool" where
  "start_Resolves s \<longleftrightarrow> start_core s = ExternalStart"

section \<open>Stop strategies\<close>

text \<open>
  The end-of-turn model of \<^verbatim>\<open>src/audio/turn/turn.go\<close> as a parameter: what each call returns and the
  state it leaves. A verdict carries whether the turn is complete, the probability, whether the call
  failed, and how long it took.
\<close>

record verdict =
  v_complete :: bool
  v_prob :: opaque
  v_err :: bool
  v_took :: nat

record 'a analyzer =
  a_AppendAudio :: "bytes \<Rightarrow> bool \<Rightarrow> 'a \<Rightarrow> bool \<times> 'a"
  a_AnalyzeEndOfTurn :: "'a \<Rightarrow> verdict \<times> 'a"
  a_UpdateVADStartSecs :: "duration \<Rightarrow> 'a \<Rightarrow> 'a"
  a_SetSampleRate :: "int \<Rightarrow> 'a \<Rightarrow> 'a"
  a_Clear :: "'a \<Rightarrow> 'a"

definition recommendedStopWindow :: duration where
  "recommendedStopWindow = 200000000"

definition warnStopWindow :: "bool \<Rightarrow> duration \<Rightarrow> duration \<Rightarrow> bool" where
  "warnStopWindow warned stopWindow sttTimeout \<longleftrightarrow>
    warned \<or> stopWindow \<noteq> recommendedStopWindow \<or> (0 < sttTimeout \<and> sttTimeout \<le> stopWindow)"

subsection \<open>Turn analyzer\<close>

record 'a turnAnalyzerStop =
  ta_analyzer :: 'a
  ta_waitForTx :: bool
  ta_sttTimeout :: duration
  ta_stopWindow :: duration
  ta_stopSecsWarned :: bool
  ta_text :: string
  ta_turnComplete :: bool
  ta_vadSpeaking :: bool
  ta_vadStopped :: bool
  ta_txFinalized :: bool
  ta_timeoutExpired :: bool
  ta_timer :: "duration option"

definition ta_cancel :: "'a turnAnalyzerStop \<Rightarrow> 'a turnAnalyzerStop" where
  "ta_cancel s = s\<lparr>ta_timer := None\<rparr>"

definition ta_discardPendingEndOfTurn :: "'a turnAnalyzerStop \<Rightarrow> 'a turnAnalyzerStop" where
  "ta_discardPendingEndOfTurn s =
    ta_cancel (s\<lparr>ta_turnComplete := False, ta_txFinalized := False, ta_timeoutExpired := False,
      ta_vadStopped := False\<rparr>)"

definition ta_resetState :: "'a turnAnalyzerStop \<Rightarrow> 'a turnAnalyzerStop" where
  "ta_resetState s = ta_discardPendingEndOfTurn (s\<lparr>ta_text := []\<rparr>)"

definition ta_armTimeoutFor :: "duration \<Rightarrow> duration \<Rightarrow> 'a turnAnalyzerStop \<Rightarrow> 'a turnAnalyzerStop" where
  "ta_armTimeoutFor now d s = (ta_cancel s)\<lparr>ta_timer := Some (now + d)\<rparr>"

definition ta_armTimeout :: "duration \<Rightarrow> 'a turnAnalyzerStop \<Rightarrow> 'a turnAnalyzerStop" where
  "ta_armTimeout now s = ta_armTimeoutFor now (max 0 (ta_sttTimeout s - ta_stopWindow s)) s"

definition sttDeadline :: "duration \<Rightarrow> duration option \<Rightarrow> 'a turnAnalyzerStop \<Rightarrow> duration" where
  "sttDeadline now timestamp s =
    (case timestamp of None \<Rightarrow> now | Some t \<Rightarrow> t) - ta_stopWindow s + ta_sttTimeout s"

subsection \<open>Speech timeout\<close>

definition defaultUserSpeechTimeout :: duration where
  "defaultUserSpeechTimeout = 600000000"

text \<open>
  \<open>sttOrphans\<close> are the transcript timers still running whose cancel function has been overwritten:
  \<open>handleVADStopped\<close> arms a new one without cancelling the one before, and a timer that fires clears
  the handle whichever timer it belongs to.
\<close>

record speechTimeoutStop =
  userSpeechTimeout :: duration
  st_waitForTx :: bool
  st_sttTimeout :: duration
  st_stopWindow :: duration
  st_stopSecsWarned :: bool
  haveText :: bool
  st_vadSpeaking :: bool
  st_vadStopped :: bool
  st_txFinalized :: bool
  userSpeechDone :: bool
  sttDone :: bool
  userTimer :: "duration option"
  sttTimer :: "duration option"
  sttOrphans :: "duration list"

definition sttWait :: "speechTimeoutStop \<Rightarrow> duration" where
  "sttWait s = st_sttTimeout s - st_stopWindow s"

definition st_cancelSTTTimer :: "speechTimeoutStop \<Rightarrow> speechTimeoutStop" where
  "st_cancelSTTTimer s = s\<lparr>sttTimer := None\<rparr>"

definition st_cancelTimers :: "speechTimeoutStop \<Rightarrow> speechTimeoutStop" where
  "st_cancelTimers s = st_cancelSTTTimer (s\<lparr>userTimer := None\<rparr>)"

definition st_discardPendingEndOfTurn :: "speechTimeoutStop \<Rightarrow> speechTimeoutStop" where
  "st_discardPendingEndOfTurn s =
    st_cancelTimers (s\<lparr>st_txFinalized := False, st_vadStopped := False, userSpeechDone := False,
      sttDone := False\<rparr>)"

definition st_reset :: "bool \<Rightarrow> speechTimeoutStop \<Rightarrow> speechTimeoutStop" where
  "st_reset clearVADSpeaking s =
    (let s = s\<lparr>haveText := False\<rparr>;
         s = (if clearVADSpeaking then s\<lparr>st_vadSpeaking := False\<rparr> else s)
     in st_discardPendingEndOfTurn s)"

definition restartUserSpeechTimer :: "duration \<Rightarrow> speechTimeoutStop \<Rightarrow> speechTimeoutStop" where
  "restartUserSpeechTimer now s =
    s\<lparr>userSpeechDone := False, userTimer := Some (now + userSpeechTimeout s)\<rparr>"

definition st_orphan :: "speechTimeoutStop \<Rightarrow> speechTimeoutStop" where
  "st_orphan s =
    (case sttTimer s of None \<Rightarrow> s | Some d \<Rightarrow> s\<lparr>sttTimer := None, sttOrphans := sttOrphans s @ [d]\<rparr>)"

definition st_handleVADStopped :: "duration \<Rightarrow> duration \<Rightarrow> speechTimeoutStop \<Rightarrow> speechTimeoutStop" where
  "st_handleVADStopped now stopSecs s =
    (let s = s\<lparr>st_vadSpeaking := False, st_stopWindow := stopSecs, st_vadStopped := True\<rparr>;
         s = s\<lparr>st_stopSecsWarned := warnStopWindow (st_stopSecsWarned s) stopSecs (st_sttTimeout s)\<rparr>;
         s = (restartUserSpeechTimer now s)\<lparr>sttDone := False\<rparr>
     in if st_txFinalized s \<or> sttWait s \<le> 0 then s\<lparr>sttDone := True\<rparr>
        else (st_orphan s)\<lparr>sttTimer := Some (now + sttWait s)\<rparr>)"

subsection \<open>External stop\<close>

record externalStop =
  ex_timeout :: duration
  ex_waitForTx :: bool
  ex_text :: string
  ex_userSpeaking :: bool
  seenInterim :: bool
  announcedElsewhere :: bool
  turnOpen :: bool
  ex_timer :: "duration option"

definition armTick :: "duration \<Rightarrow> externalStop \<Rightarrow> externalStop" where
  "armTick now s = s\<lparr>ex_timer := Some (now + ex_timeout s)\<rparr>"

definition ex_reset :: "duration \<Rightarrow> externalStop \<Rightarrow> externalStop" where
  "ex_reset now s =
    armTick now (s\<lparr>ex_text := [], ex_userSpeaking := False, seenInterim := False,
      announcedElsewhere := False\<rparr>)"

subsection \<open>The chain's elements\<close>

text \<open>\<open>deferred\<close> is \<open>deferredStop\<close>: the wrapped strategy is attached without the finalization callback.\<close>

datatype 'a stop_core =
    TurnAnalyzerStop "'a turnAnalyzerStop"
  | SpeechTimeoutStop speechTimeoutStop
  | ExternalStop externalStop
  | ExternalCompletionStop
  | LLMTurnCompletionStop opaque

record 'a stop_strategy =
  stop_UserSpeakingFrames :: bool
  deferred :: bool
  stop_core :: "'a stop_core"

definition NewTurnAnalyzerStop :: "'a \<Rightarrow> bool option \<Rightarrow> 'a stop_strategy" where
  "NewTurnAnalyzerStop an waitForTranscript =
    \<lparr>stop_UserSpeakingFrames = True, deferred = False, stop_core = TurnAnalyzerStop
      \<lparr>ta_analyzer = an, ta_waitForTx = boolOr waitForTranscript True, ta_sttTimeout = 0,
       ta_stopWindow = 0, ta_stopSecsWarned = False, ta_text = [], ta_turnComplete = False,
       ta_vadSpeaking = False, ta_vadStopped = False, ta_txFinalized = False,
       ta_timeoutExpired = False, ta_timer = None\<rparr>\<rparr>"

definition NewSpeechTimeoutStop :: "duration \<Rightarrow> bool option \<Rightarrow> 'a stop_strategy" where
  "NewSpeechTimeoutStop t waitForTranscript =
    \<lparr>stop_UserSpeakingFrames = True, deferred = False, stop_core = SpeechTimeoutStop
      \<lparr>userSpeechTimeout = (if t = 0 then defaultUserSpeechTimeout else t),
       st_waitForTx = boolOr waitForTranscript True, st_sttTimeout = 0, st_stopWindow = 0,
       st_stopSecsWarned = False, haveText = False, st_vadSpeaking = False, st_vadStopped = False,
       st_txFinalized = False, userSpeechDone = False, sttDone = False, userTimer = None,
       sttTimer = None, sttOrphans = []\<rparr>\<rparr>"

definition NewExternalStop :: "duration \<Rightarrow> bool option \<Rightarrow> 'a stop_strategy" where
  "NewExternalStop t waitForTranscript =
    \<lparr>stop_UserSpeakingFrames = True, deferred = False, stop_core = ExternalStop
      \<lparr>ex_timeout = (if t = 0 then 500000000 else t), ex_waitForTx = boolOr waitForTranscript True,
       ex_text = [], ex_userSpeaking = False, seenInterim = False, announcedElsewhere = False,
       turnOpen = False, ex_timer = None\<rparr>\<rparr>"

definition NewExternalCompletionStop :: "'a stop_strategy" where
  "NewExternalCompletionStop =
    \<lparr>stop_UserSpeakingFrames = True, deferred = False, stop_core = ExternalCompletionStop\<rparr>"

definition NewLLMTurnCompletionStop :: "opaque \<Rightarrow> 'a stop_strategy" where
  "NewLLMTurnCompletionStop cfg =
    \<lparr>stop_UserSpeakingFrames = True, deferred = False, stop_core = LLMTurnCompletionStop cfg\<rparr>"

definition Deferred :: "'a stop_strategy \<Rightarrow> 'a stop_strategy" where
  "Deferred s = s\<lparr>deferred := True\<rparr>"

definition stop_core_TurnStarted :: "duration \<Rightarrow> 'a stop_core \<Rightarrow> 'a stop_core" where
  "stop_core_TurnStarted now s =
    (case s of
       TurnAnalyzerStop x \<Rightarrow> TurnAnalyzerStop (ta_resetState x)
     | SpeechTimeoutStop x \<Rightarrow> SpeechTimeoutStop (st_reset False x)
     | ExternalStop x \<Rightarrow> ExternalStop ((ex_reset now x)\<lparr>turnOpen := True\<rparr>)
     | _ \<Rightarrow> s)"

definition stop_core_TurnStopped :: "'a analyzer \<Rightarrow> duration \<Rightarrow> 'a stop_core \<Rightarrow> 'a stop_core" where
  "stop_core_TurnStopped A now s =
    (case s of
       TurnAnalyzerStop x \<Rightarrow>
         TurnAnalyzerStop ((ta_resetState x)\<lparr>ta_analyzer := a_Clear A (ta_analyzer x)\<rparr>)
     | SpeechTimeoutStop x \<Rightarrow> SpeechTimeoutStop (st_reset True x)
     | ExternalStop x \<Rightarrow> ExternalStop ((ex_reset now x)\<lparr>turnOpen := False\<rparr>)
     | _ \<Rightarrow> s)"

definition stop_core_Setup :: "'a analyzer \<Rightarrow> duration \<Rightarrow> int \<Rightarrow> 'a stop_core \<Rightarrow> 'a stop_core" where
  "stop_core_Setup A now sampleRate s =
    (case s of
       TurnAnalyzerStop x \<Rightarrow>
         TurnAnalyzerStop (x\<lparr>ta_analyzer := a_SetSampleRate A sampleRate (ta_analyzer x)\<rparr>)
     | ExternalStop x \<Rightarrow> ExternalStop (armTick now x)
     | _ \<Rightarrow> s)"

definition stop_core_Cleanup :: "'a stop_core \<Rightarrow> 'a stop_core" where
  "stop_core_Cleanup s =
    (case s of
       TurnAnalyzerStop x \<Rightarrow> TurnAnalyzerStop (ta_cancel x)
     | SpeechTimeoutStop x \<Rightarrow> SpeechTimeoutStop (st_cancelTimers x)
     | ExternalStop x \<Rightarrow> ExternalStop (x\<lparr>ex_timer := None\<rparr>)
     | _ \<Rightarrow> s)"

definition on_core :: "('a stop_core \<Rightarrow> 'a stop_core) \<Rightarrow> 'a stop_strategy \<Rightarrow> 'a stop_strategy" where
  "on_core g s = s\<lparr>stop_core := g (stop_core s)\<rparr>"

definition stop_Resolves :: "'a stop_strategy \<Rightarrow> bool" where
  "stop_Resolves s \<longleftrightarrow> (case stop_core s of ExternalStop x \<Rightarrow> True | _ \<Rightarrow> False)"

section \<open>Chains\<close>

record 'a UserTurnStrategies =
  us_Start :: "start_strategy list"
  us_Stop :: "'a stop_strategy list"

definition DefaultStartStrategies :: "start_strategy list" where
  "DefaultStartStrategies = [NewVADStart, NewTranscriptionStart None]"

definition DefaultStopStrategies :: "'a stop_strategy list" where
  "DefaultStopStrategies = [NewSpeechTimeoutStop 0 None]"

definition fillDefaults :: "'a UserTurnStrategies \<Rightarrow> 'a UserTurnStrategies" where
  "fillDefaults s =
    (let s = (if us_Start s = [] then s\<lparr>us_Start := DefaultStartStrategies\<rparr> else s)
     in if us_Stop s = [] then s\<lparr>us_Stop := DefaultStopStrategies\<rparr> else s)"

definition ExternalStrategies :: "bool option \<Rightarrow> 'a UserTurnStrategies" where
  "ExternalStrategies interruptions =
    \<lparr>us_Start = [NewExternalStart (Some (boolOr interruptions True))], us_Stop = [NewExternalStop 0 None]\<rparr>"

definition FilterIncompleteUserTurnStrategies ::
  "'a stop_strategy list \<Rightarrow> opaque \<Rightarrow> 'a UserTurnStrategies" where
  "FilterIncompleteUserTurnStrategies detectors cfg =
    (let detectors = (if detectors = [] then DefaultStopStrategies else detectors)
     in \<lparr>us_Start = [], us_Stop = map Deferred detectors @ [NewLLMTurnCompletionStop cfg]\<rparr>)"

lemma start_flags_TurnStarted [simp]:
  "EnableInterruptions (start_TurnStarted now s) = EnableInterruptions s"
  "start_UserSpeakingFrames (start_TurnStarted now s) = start_UserSpeakingFrames s"
  by (simp_all add: start_TurnStarted_def)

lemma on_core_flags [simp]:
  "deferred (on_core g s) = deferred s"
  "stop_UserSpeakingFrames (on_core g s) = stop_UserSpeakingFrames s"
  "stop_core (on_core g s) = g (stop_core s)"
  by (simp_all add: on_core_def)

end
