(* ===== verification/Turn_Controller.thy ===== *)
theory Turn_Controller
  imports Turn_Strategies
begin

text \<open>
  The user-turn controller, \<^verbatim>\<open>src/processor/turns/controller.go\<close>, running the strategies of
  \<open>Turn_Strategies\<close> (their \<open>Process\<close> methods in \<^verbatim>\<open>src/processor/turns/start.go\<close>, \<open>stop.go\<close> and
  \<open>completion.go\<close> are here too). One record holds the controller and both chains, because a strategy
  that triggers re-enters the controller, which readies or clears every strategy of both chains, the
  one that triggered included, before control returns to it: an operation of the strategy at a position
  takes and returns the whole record, and reads its own state again after a trigger.

  A single mutex serialises everything, so a step is a whole call: a frame processed, or one timer's
  callback. The record describes a controller that has been set up; its hooks do not call back into it.
\<close>

record 'a turn_ctl =
  tnow :: duration
  starts :: "start_strategy list"
  stops :: "'a stop_strategy list"
  stopTimeout :: duration
  ctl_sampleRate :: int
  userSpeaking :: bool
  userTurn :: bool
  watchdog :: "duration option"
  outs :: "turn_event list"

section \<open>What a frame is to the strategies\<close>

text \<open>The cases the type switches of this package tell apart.\<close>

datatype turn_frame =
    FStart
  | FSTTMetadata duration
  | FVADStarted duration
  | FVADStopped duration "duration option"
  | FInputAudio bytes
  | FTranscription string bool
  | FInterim string
  | FProposedStarted
  | FProposedStopped
  | FUserStarted
  | FUserStopped
  | FBotStarted
  | FBotStopped
  | FUserSpeaking
  | FBotSpeaking
  | FInferenceCompleted
  | FOther

fun turn_frame_of :: "frame_body \<Rightarrow> turn_frame" where
  "turn_frame_of (Sys (StartFrame i ou)) = FStart"
| "turn_frame_of (Met (STTMetadataFrame n d)) = FSTTMetadata d"
| "turn_frame_of (Trn (VADUserStartedSpeakingFrame d t)) = FVADStarted d"
| "turn_frame_of (Trn (VADUserStoppedSpeakingFrame d t)) = FVADStopped d t"
| "turn_frame_of (Aud (InputAudioRawFrame a)) = FInputAudio (Audio a)"
| "turn_frame_of (Txt (TranscriptionFrame t u fin)) = FTranscription (fText t) fin"
| "turn_frame_of (Txt (InterimTranscriptionFrame t)) = FInterim t"
| "turn_frame_of (Sys ProposedUserStartedSpeakingFrame) = FProposedStarted"
| "turn_frame_of (Ctl ProposedUserStoppedSpeakingFrame) = FProposedStopped"
| "turn_frame_of (Sys UserStartedSpeakingFrame) = FUserStarted"
| "turn_frame_of (Sys UserStoppedSpeakingFrame) = FUserStopped"
| "turn_frame_of (Sys BotStartedSpeakingFrame) = FBotStarted"
| "turn_frame_of (Sys BotStoppedSpeakingFrame) = FBotStopped"
| "turn_frame_of (Trn UserSpeakingFrame) = FUserSpeaking"
| "turn_frame_of (Trn BotSpeakingFrame) = FBotSpeaking"
| "turn_frame_of (Trn UserTurnInferenceCompletedFrame) = FInferenceCompleted"
| "turn_frame_of _ = FOther"

section \<open>The controller's decisions\<close>

definition emit :: "turn_event \<Rightarrow> 'a turn_ctl \<Rightarrow> 'a turn_ctl" where
  "emit e c = c\<lparr>outs := outs c @ [e]\<rparr>"

definition put_start :: "nat \<Rightarrow> start_core \<Rightarrow> 'a turn_ctl \<Rightarrow> 'a turn_ctl" where
  "put_start i s c = c\<lparr>starts := (starts c)[i := (starts c ! i)\<lparr>start_core := s\<rparr>]\<rparr>"

definition put_stop :: "nat \<Rightarrow> 'a stop_core \<Rightarrow> 'a turn_ctl \<Rightarrow> 'a turn_ctl" where
  "put_stop j s c = c\<lparr>stops := (stops c)[j := (stops c ! j)\<lparr>stop_core := s\<rparr>]\<rparr>"

definition rearmWatchdog :: "'a turn_ctl \<Rightarrow> 'a turn_ctl" where
  "rearmWatchdog c = c\<lparr>watchdog := Some (tnow c + stopTimeout c)\<rparr>"

definition notifyTurnStarted :: "'a turn_ctl \<Rightarrow> 'a turn_ctl" where
  "notifyTurnStarted c =
    c\<lparr>starts := map (start_TurnStarted (tnow c)) (starts c),
      stops := map (on_core (stop_core_TurnStarted (tnow c))) (stops c)\<rparr>"

definition notifyTurnStopped :: "'a analyzer \<Rightarrow> 'a turn_ctl \<Rightarrow> 'a turn_ctl" where
  "notifyTurnStopped A c =
    c\<lparr>stops := map (on_core (stop_core_TurnStopped A (tnow c))) (stops c)\<rparr>"

definition onStartTriggered :: "nat \<Rightarrow> UserTurnStartedParams \<Rightarrow> 'a turn_ctl \<Rightarrow> 'a turn_ctl" where
  "onStartTriggered i params c =
    (if userTurn c then c
     else emit (HookStarted i params) (notifyTurnStarted (rearmWatchdog (c\<lparr>userTurn := True\<rparr>))))"

definition onInferenceTriggered :: "nat \<Rightarrow> 'a turn_ctl \<Rightarrow> 'a turn_ctl" where
  "onInferenceTriggered j c =
    (if \<not> userTurn c then c else emit (HookInferenceTriggered j) (rearmWatchdog c))"

definition onStopTriggered ::
  "'a analyzer \<Rightarrow> nat option \<Rightarrow> UserTurnStoppedParams \<Rightarrow> 'a turn_ctl \<Rightarrow> 'a turn_ctl" where
  "onStopTriggered A j params c =
    (if \<not> userTurn c then c
     else if userSpeaking c then c
     else emit (HookStopped j params)
       (notifyTurnStopped A (rearmWatchdog (c\<lparr>userTurn := False\<rparr>))))"

section \<open>The triggers a strategy calls\<close>

definition TriggerStartedOverriding ::
  "bool option \<Rightarrow> bool option \<Rightarrow> nat \<Rightarrow> 'a turn_ctl \<Rightarrow> 'a turn_ctl" where
  "TriggerStartedOverriding oi os i c =
    onStartTriggered i
      \<lparr>sp_Interruptions = boolOr oi (EnableInterruptions (starts c ! i)),
       sp_UserSpeakingFrames = boolOr os (start_UserSpeakingFrames (starts c ! i))\<rparr> c"

definition TriggerStarted :: "nat \<Rightarrow> 'a turn_ctl \<Rightarrow> 'a turn_ctl" where
  "TriggerStarted i c = TriggerStartedOverriding None None i c"

definition TriggerFinalizedOverriding ::
  "'a analyzer \<Rightarrow> bool option \<Rightarrow> nat \<Rightarrow> 'a turn_ctl \<Rightarrow> 'a turn_ctl" where
  "TriggerFinalizedOverriding A os j c =
    (if deferred (stops c ! j) then c
     else onStopTriggered A (Some j)
       \<lparr>tp_UserSpeakingFrames = boolOr os (stop_UserSpeakingFrames (stops c ! j))\<rparr> c)"

definition TriggerStoppedOverriding ::
  "'a analyzer \<Rightarrow> bool option \<Rightarrow> nat \<Rightarrow> 'a turn_ctl \<Rightarrow> 'a turn_ctl" where
  "TriggerStoppedOverriding A os j c = TriggerFinalizedOverriding A os j (onInferenceTriggered j c)"

definition TriggerStopped :: "'a analyzer \<Rightarrow> nat \<Rightarrow> 'a turn_ctl \<Rightarrow> 'a turn_ctl" where
  "TriggerStopped A j c = TriggerStoppedOverriding A None j c"

section \<open>Start strategies\<close>

definition MinWords_check :: "nat \<Rightarrow> int \<Rightarrow> bool \<Rightarrow> string \<Rightarrow> 'a turn_ctl \<Rightarrow> 'a turn_ctl \<times> ProcessFrameResult" where
  "MinWords_check i minWords b text c =
    (let threshold = (if b then minWords else 1) in
     if threshold \<le> int (length (Fields text)) then (TriggerStarted i c, Stop)
     else (emit (HookResetAggregation i) c, Continue))"

definition processIdle :: "nat \<Rightarrow> turn_frame \<Rightarrow> wakePhraseStart \<Rightarrow> 'a turn_ctl \<Rightarrow> 'a turn_ctl \<times> ProcessFrameResult" where
  "processIdle i f w c =
    (case f of
       FTranscription t fin \<Rightarrow>
         (case checkWakePhrase (tnow c) t w of
            (w', Some p) \<Rightarrow>
              (TriggerStarted i (emit (WakePhraseDetected p) (put_start i (WakePhraseStart w') c)), Stop)
          | (w', None) \<Rightarrow> (emit (HookResetAggregation i) (put_start i (WakePhraseStart w') c), Stop))
     | _ \<Rightarrow> (c, Stop))"

definition processAwake :: "nat \<Rightarrow> turn_frame \<Rightarrow> wakePhraseStart \<Rightarrow> 'a turn_ctl \<Rightarrow> 'a turn_ctl \<times> ProcessFrameResult" where
  "processAwake i f w c =
    (if \<not> wk_single w \<and>
        (case f of FUserSpeaking \<Rightarrow> True | FBotSpeaking \<Rightarrow> True | FTranscription t fin \<Rightarrow> True
         | FVADStarted d \<Rightarrow> True | _ \<Rightarrow> False)
     then (put_start i (WakePhraseStart (wake_refresh (tnow c) w)) c, Continue)
     else (c, Continue))"

definition start_Process :: "turn_frame \<Rightarrow> nat \<Rightarrow> 'a turn_ctl \<Rightarrow> 'a turn_ctl \<times> ProcessFrameResult" where
  "start_Process f i c =
    (case start_core (starts c ! i) of
       VADStart \<Rightarrow>
         (case f of FVADStarted d \<Rightarrow> (TriggerStarted i c, Stop) | _ \<Rightarrow> (c, Continue))
     | TranscriptionStart useInterim \<Rightarrow>
         (case f of
            FTranscription t fin \<Rightarrow> (TriggerStarted i c, Stop)
          | FInterim t \<Rightarrow> if useInterim then (TriggerStarted i c, Stop) else (c, Continue)
          | _ \<Rightarrow> (c, Continue))
     | MinWordsStart n useInterim b \<Rightarrow>
         (case f of
            FBotStarted \<Rightarrow> (put_start i (MinWordsStart n useInterim True) c, Continue)
          | FBotStopped \<Rightarrow> (put_start i (MinWordsStart n useInterim False) c, Continue)
          | FTranscription t fin \<Rightarrow> MinWords_check i n b t c
          | FInterim t \<Rightarrow> if useInterim then MinWords_check i n b t c else (c, Continue)
          | _ \<Rightarrow> (c, Continue))
     | WakePhraseStart w \<Rightarrow> if \<not> awake w then processIdle i f w c else processAwake i f w c
     | ExternalStart \<Rightarrow>
         (case f of
            FProposedStarted \<Rightarrow> (TriggerStarted i c, Stop)
          | FUserStarted \<Rightarrow> (TriggerStartedOverriding (Some False) (Some False) i c, Stop)
          | _ \<Rightarrow> (c, Continue)))"

section \<open>Stop strategies\<close>

subsection \<open>Turn analyzer\<close>

definition ta_fire :: "'a analyzer \<Rightarrow> nat \<Rightarrow> 'a turnAnalyzerStop \<Rightarrow> 'a turn_ctl \<Rightarrow> 'a turn_ctl" where
  "ta_fire A j s c = TriggerStopped A j (put_stop j (TurnAnalyzerStop (ta_cancel s)) c)"

text \<open>The strategy's state \<open>s\<close> as it stands is stored before anything is decided from it.\<close>

definition ta_maybeTrigger :: "'a analyzer \<Rightarrow> nat \<Rightarrow> 'a turnAnalyzerStop \<Rightarrow> 'a turn_ctl \<Rightarrow> 'a turn_ctl" where
  "ta_maybeTrigger A j s c =
    (let c = put_stop j (TurnAnalyzerStop s) c in
     if \<not> ta_turnComplete s then c
     else if \<not> ta_waitForTx s then ta_fire A j s c
     else if ta_text s = [] then c
     else if ta_txFinalized s then ta_fire A j s c
     else if ta_timer s = None then ta_fire A j s c
     else c)"

definition reportPrediction :: "bool \<Rightarrow> verdict \<Rightarrow> duration option \<Rightarrow> 'a turn_ctl \<Rightarrow> 'a turn_ctl" where
  "reportPrediction complete v took c =
    (if v_err v then c else emit (HookTurnMetrics complete (v_prob v) took) c)"

definition ta_handleAudio :: "'a analyzer \<Rightarrow> nat \<Rightarrow> bytes \<Rightarrow> 'a turnAnalyzerStop \<Rightarrow> 'a turn_ctl \<Rightarrow> 'a turn_ctl" where
  "ta_handleAudio A j audio s c =
    (case a_AppendAudio A audio (ta_vadSpeaking s) (ta_analyzer s) of
       (False, an) \<Rightarrow> put_stop j (TurnAnalyzerStop (s\<lparr>ta_analyzer := an\<rparr>)) c
     | (True, an) \<Rightarrow>
        (case a_AnalyzeEndOfTurn A an of (v, an') \<Rightarrow>
          ta_maybeTrigger A j (s\<lparr>ta_analyzer := an', ta_turnComplete := True\<rparr>)
            (reportPrediction True v None (c\<lparr>tnow := tnow c + int (v_took v)\<rparr>))))"

definition ta_handleVADStopped ::
  "'a analyzer \<Rightarrow> nat \<Rightarrow> duration \<Rightarrow> duration option \<Rightarrow> 'a turnAnalyzerStop \<Rightarrow> 'a turn_ctl \<Rightarrow> 'a turn_ctl" where
  "ta_handleVADStopped A j stopSecs timestamp s c =
    (let s = s\<lparr>ta_vadSpeaking := False, ta_stopWindow := stopSecs, ta_vadStopped := True\<rparr>;
         s = s\<lparr>ta_stopSecsWarned := warnStopWindow (ta_stopSecsWarned s) stopSecs (ta_sttTimeout s)\<rparr>;
         deadline = sttDeadline (tnow c) timestamp s
     in case a_AnalyzeEndOfTurn A (ta_analyzer s) of (v, an) \<Rightarrow>
        let c = c\<lparr>tnow := tnow c + int (v_took v)\<rparr>;
            c = reportPrediction (v_complete v) v (Some (int (v_took v))) c;
            s = s\<lparr>ta_analyzer := an, ta_turnComplete := \<not> v_err v \<and> v_complete v\<rparr>;
            s = ta_armTimeoutFor (tnow c) (max 0 (deadline - tnow c)) s
        in ta_maybeTrigger A j s c)"

text \<open>The part of \<open>handleTranscription\<close> after its switch, on whatever the switch left behind.\<close>

definition ta_fallback :: "nat \<Rightarrow> 'a turn_ctl \<Rightarrow> 'a turn_ctl" where
  "ta_fallback j c =
    (case stop_core (stops c ! j) of
       TurnAnalyzerStop s \<Rightarrow>
         if \<not> ta_vadSpeaking s \<and> \<not> ta_vadStopped s
         then put_stop j (TurnAnalyzerStop (ta_armTimeout (tnow c) (s\<lparr>ta_turnComplete := True\<rparr>))) c
         else c
     | _ \<Rightarrow> c)"

definition ta_handleTranscription ::
  "'a analyzer \<Rightarrow> nat \<Rightarrow> string \<Rightarrow> bool \<Rightarrow> 'a turnAnalyzerStop \<Rightarrow> 'a turn_ctl \<Rightarrow> 'a turn_ctl" where
  "ta_handleTranscription A j text finalized s c =
    (let s = s\<lparr>ta_text := text\<rparr> in
     if finalized then ta_fallback j (ta_maybeTrigger A j (s\<lparr>ta_txFinalized := True\<rparr>) c)
     else if ta_timeoutExpired s \<and> ta_turnComplete s then ta_fire A j s c
     else ta_fallback j (put_stop j (TurnAnalyzerStop s) c))"

definition ta_Process :: "'a analyzer \<Rightarrow> nat \<Rightarrow> turn_frame \<Rightarrow> 'a turnAnalyzerStop \<Rightarrow> 'a turn_ctl \<Rightarrow> 'a turn_ctl" where
  "ta_Process A j f s c =
    (case f of
       FStart \<Rightarrow> emit (HookBroadcast (Trn SpeechControlParamsFrame)) c
     | FSTTMetadata d \<Rightarrow>
         put_stop j (TurnAnalyzerStop (s\<lparr>ta_sttTimeout := d, ta_stopSecsWarned := False\<rparr>)) c
     | FVADStarted d \<Rightarrow>
         put_stop j (TurnAnalyzerStop (ta_discardPendingEndOfTurn
           (s\<lparr>ta_analyzer := a_UpdateVADStartSecs A d (ta_analyzer s), ta_vadSpeaking := True\<rparr>))) c
     | FInputAudio audio \<Rightarrow> ta_handleAudio A j audio s c
     | FVADStopped d t \<Rightarrow> ta_handleVADStopped A j d t s c
     | FTranscription t fin \<Rightarrow> ta_handleTranscription A j t fin s c
     | FInterim t \<Rightarrow> put_stop j (TurnAnalyzerStop (s\<lparr>ta_txFinalized := False\<rparr>)) c
     | _ \<Rightarrow> c)"

subsection \<open>Speech timeout\<close>

definition st_maybeTrigger :: "'a analyzer \<Rightarrow> nat \<Rightarrow> speechTimeoutStop \<Rightarrow> 'a turn_ctl \<Rightarrow> 'a turn_ctl" where
  "st_maybeTrigger A j s c =
    (let c = put_stop j (SpeechTimeoutStop s) c in
     if st_vadSpeaking s then c
     else if st_waitForTx s \<and> \<not> haveText s then c
     else if userSpeechDone s \<and> sttDone s
     then TriggerStopped A j (put_stop j (SpeechTimeoutStop (st_cancelTimers s)) c)
     else c)"

definition st_handleTranscription ::
  "'a analyzer \<Rightarrow> nat \<Rightarrow> string \<Rightarrow> bool \<Rightarrow> speechTimeoutStop \<Rightarrow> 'a turn_ctl \<Rightarrow> 'a turn_ctl" where
  "st_handleTranscription A j text finalized s c =
    (let s = (if text \<noteq> [] then s\<lparr>haveText := True\<rparr> else s);
         s = (if finalized then
                (let s = s\<lparr>st_txFinalized := True\<rparr> in
                 if \<not> sttDone s then st_cancelSTTTimer (s\<lparr>sttDone := True\<rparr>) else s)
              else s)
     in if userSpeechDone s \<and> sttDone s then st_maybeTrigger A j s c
        else if \<not> st_vadSpeaking s \<and> \<not> st_vadStopped s
        then put_stop j (SpeechTimeoutStop (restartUserSpeechTimer (tnow c) (s\<lparr>sttDone := True\<rparr>))) c
        else put_stop j (SpeechTimeoutStop s) c)"

definition st_Process :: "'a analyzer \<Rightarrow> nat \<Rightarrow> turn_frame \<Rightarrow> speechTimeoutStop \<Rightarrow> 'a turn_ctl \<Rightarrow> 'a turn_ctl" where
  "st_Process A j f s c =
    (case f of
       FSTTMetadata d \<Rightarrow>
         put_stop j (SpeechTimeoutStop (s\<lparr>st_sttTimeout := d, st_stopSecsWarned := False\<rparr>)) c
     | FVADStarted d \<Rightarrow>
         put_stop j (SpeechTimeoutStop (st_discardPendingEndOfTurn (s\<lparr>st_vadSpeaking := True\<rparr>))) c
     | FVADStopped d t \<Rightarrow> put_stop j (SpeechTimeoutStop (st_handleVADStopped (tnow c) d s)) c
     | FTranscription t fin \<Rightarrow> st_handleTranscription A j t fin s c
     | FInterim t \<Rightarrow> put_stop j (SpeechTimeoutStop (s\<lparr>st_txFinalized := False\<rparr>)) c
     | _ \<Rightarrow> c)"

subsection \<open>External stop\<close>

definition ex_finalize :: "'a analyzer \<Rightarrow> nat \<Rightarrow> externalStop \<Rightarrow> 'a turn_ctl \<Rightarrow> 'a turn_ctl" where
  "ex_finalize A j s c =
    (if announcedElsewhere s then TriggerStoppedOverriding A (Some False) j c else TriggerStopped A j c)"

definition ex_maybeTrigger :: "'a analyzer \<Rightarrow> nat \<Rightarrow> externalStop \<Rightarrow> 'a turn_ctl \<Rightarrow> 'a turn_ctl" where
  "ex_maybeTrigger A j s c =
    (let c = put_stop j (ExternalStop s) c in
     if ex_userSpeaking s then c
     else if \<not> ex_waitForTx s then ex_finalize A j s c
     else if \<not> seenInterim s \<and> ex_text s \<noteq> [] then ex_finalize A j s c
     else c)"

definition ex_Process :: "'a analyzer \<Rightarrow> nat \<Rightarrow> turn_frame \<Rightarrow> externalStop \<Rightarrow> 'a turn_ctl \<Rightarrow> 'a turn_ctl" where
  "ex_Process A j f s c =
    (case f of
       FProposedStarted \<Rightarrow>
         put_stop j (ExternalStop (s\<lparr>ex_userSpeaking := True, announcedElsewhere := False\<rparr>)) c
     | FProposedStopped \<Rightarrow>
         ex_maybeTrigger A j (s\<lparr>ex_userSpeaking := False, announcedElsewhere := False\<rparr>) c
     | FUserStarted \<Rightarrow>
         put_stop j (ExternalStop (s\<lparr>ex_userSpeaking := True, announcedElsewhere := True\<rparr>)) c
     | FUserStopped \<Rightarrow>
         ex_maybeTrigger A j (s\<lparr>ex_userSpeaking := False, announcedElsewhere := True\<rparr>) c
     | FInterim t \<Rightarrow> put_stop j (ExternalStop (s\<lparr>seenInterim := True\<rparr>)) c
     | FTranscription t fin \<Rightarrow>
         put_stop j (ExternalStop (armTick (tnow c) (s\<lparr>ex_text := ex_text s @ t, seenInterim := False\<rparr>))) c
     | _ \<Rightarrow> c)"

subsection \<open>The chain's elements\<close>

definition completion_Process :: "'a analyzer \<Rightarrow> nat \<Rightarrow> turn_frame \<Rightarrow> 'a turn_ctl \<Rightarrow> 'a turn_ctl" where
  "completion_Process A j f c =
    (case f of FInferenceCompleted \<Rightarrow> TriggerFinalizedOverriding A None j c | _ \<Rightarrow> c)"

definition configureLLM :: "opaque \<Rightarrow> 'a turn_ctl \<Rightarrow> 'a turn_ctl" where
  "configureLLM cfg c = emit (HookPush (Set (LLMUpdateSettingsFrame \<lparr>suDelta = cfg, suService = None, suReachInactiveServices = True\<rparr>)) Downstream) c"

definition stop_Process :: "'a analyzer \<Rightarrow> turn_frame \<Rightarrow> nat \<Rightarrow> 'a turn_ctl \<Rightarrow> 'a turn_ctl \<times> ProcessFrameResult" where
  "stop_Process A f j c =
    (case stop_core (stops c ! j) of
       TurnAnalyzerStop s \<Rightarrow> (ta_Process A j f s c, Continue)
     | SpeechTimeoutStop s \<Rightarrow> (st_Process A j f s c, Continue)
     | ExternalStop s \<Rightarrow> (ex_Process A j f s c, Continue)
     | ExternalCompletionStop \<Rightarrow> (completion_Process A j f c, Continue)
     | LLMTurnCompletionStop cfg \<Rightarrow>
         (completion_Process A j f (case f of FStart \<Rightarrow> configureLLM cfg c | _ \<Rightarrow> c), Continue))"

section \<open>A frame through the controller\<close>

text \<open>A chain runs in order until a strategy returns \<open>Stop\<close>.\<close>

fun run_chain ::
  "(nat \<Rightarrow> 'a turn_ctl \<Rightarrow> 'a turn_ctl \<times> ProcessFrameResult) \<Rightarrow> nat list \<Rightarrow> 'a turn_ctl \<Rightarrow> 'a turn_ctl" where
  "run_chain p [] c = c"
| "run_chain p (i # is) c =
    (case p i c of (c', Stop) \<Rightarrow> c' | (c', Continue) \<Rightarrow> run_chain p is c')"

definition note_speaking :: "turn_frame \<Rightarrow> 'a turn_ctl \<Rightarrow> 'a turn_ctl" where
  "note_speaking f c =
    (case f of
       FUserStarted \<Rightarrow> rearmWatchdog (c\<lparr>userSpeaking := True\<rparr>)
     | FProposedStarted \<Rightarrow> rearmWatchdog (c\<lparr>userSpeaking := True\<rparr>)
     | FVADStarted d \<Rightarrow> rearmWatchdog (c\<lparr>userSpeaking := True\<rparr>)
     | FUserStopped \<Rightarrow> rearmWatchdog (c\<lparr>userSpeaking := False\<rparr>)
     | FProposedStopped \<Rightarrow> rearmWatchdog (c\<lparr>userSpeaking := False\<rparr>)
     | FVADStopped d t \<Rightarrow> rearmWatchdog (c\<lparr>userSpeaking := False\<rparr>)
     | FTranscription t fin \<Rightarrow> rearmWatchdog c
     | FInterim t \<Rightarrow> rearmWatchdog c
     | _ \<Rightarrow> c)"

definition Process_kind :: "'a analyzer \<Rightarrow> turn_frame \<Rightarrow> 'a turn_ctl \<Rightarrow> 'a turn_ctl" where
  "Process_kind A f c =
    (let c = note_speaking f c;
         c = run_chain (start_Process f) [0..<length (starts c)] c
     in run_chain (stop_Process A f) [0..<length (stops c)] c)"

definition Process :: "'a analyzer \<Rightarrow> frame \<Rightarrow> 'a turn_ctl \<Rightarrow> 'a turn_ctl" where
  "Process A f c = Process_kind A (turn_frame_of (body f)) c"

definition ResolvesProposedTurnStartFrames :: "'a turn_ctl \<Rightarrow> bool" where
  "ResolvesProposedTurnStartFrames c \<longleftrightarrow> list_ex start_Resolves (starts c)"

definition ResolvesProposedTurnStopFrames :: "'a turn_ctl \<Rightarrow> bool" where
  "ResolvesProposedTurnStopFrames c \<longleftrightarrow> list_ex stop_Resolves (stops c)"

section \<open>Timers\<close>

definition onWatchdog :: "'a analyzer \<Rightarrow> 'a turn_ctl \<Rightarrow> 'a turn_ctl" where
  "onWatchdog A c =
    (if userTurn c \<and> \<not> userSpeaking c
     then onStopTriggered A None DefaultStoppedParams (emit HookStopTimeout c) else c)"

definition due :: "'a turn_ctl \<Rightarrow> duration option \<Rightarrow> bool" where
  "due c t \<longleftrightarrow> (case t of None \<Rightarrow> False | Some d \<Rightarrow> d \<le> tnow c)"

definition watchdog_fires :: "'a analyzer \<Rightarrow> 'a turn_ctl \<Rightarrow> 'a turn_ctl option" where
  "watchdog_fires A c =
    (if due c (watchdog c) then Some (onWatchdog A (c\<lparr>watchdog := None\<rparr>)) else None)"

definition wake_fires :: "nat \<Rightarrow> 'a turn_ctl \<Rightarrow> 'a turn_ctl option" where
  "wake_fires i c =
    (if length (starts c) \<le> i then None
     else case start_core (starts c ! i) of
       WakePhraseStart w \<Rightarrow>
         if \<not> due c (wk_timer w) then None
         else (let w = w\<lparr>wk_timer := None\<rparr> in
           Some (if awake w then emit WakePhraseTimeout (put_start i (WakePhraseStart (transitionToIdle w)) c)
                 else put_start i (WakePhraseStart w) c))
     | _ \<Rightarrow> None)"

datatype stop_timer = MainTimer | STTTimer | STTOrphan nat

definition ta_timer_fires :: "'a analyzer \<Rightarrow> nat \<Rightarrow> 'a turnAnalyzerStop \<Rightarrow> 'a turn_ctl \<Rightarrow> 'a turn_ctl option" where
  "ta_timer_fires A j s c =
    (if due c (ta_timer s)
     then Some (ta_maybeTrigger A j (s\<lparr>ta_timeoutExpired := True, ta_timer := None\<rparr>) c) else None)"

definition user_timer_fires :: "'a analyzer \<Rightarrow> nat \<Rightarrow> speechTimeoutStop \<Rightarrow> 'a turn_ctl \<Rightarrow> 'a turn_ctl option" where
  "user_timer_fires A j s c =
    (if due c (userTimer s)
     then Some (st_maybeTrigger A j (s\<lparr>userSpeechDone := True, userTimer := None\<rparr>) c) else None)"

definition stt_timer_fires :: "'a analyzer \<Rightarrow> nat \<Rightarrow> speechTimeoutStop \<Rightarrow> 'a turn_ctl \<Rightarrow> 'a turn_ctl option" where
  "stt_timer_fires A j s c =
    (if due c (sttTimer s)
     then Some (st_maybeTrigger A j (s\<lparr>sttDone := True, sttTimer := None\<rparr>) c) else None)"

text \<open>A timer whose handle was overwritten: it clears the handle of whichever timer holds it now.\<close>

definition orphan_fires :: "'a analyzer \<Rightarrow> nat \<Rightarrow> nat \<Rightarrow> speechTimeoutStop \<Rightarrow> 'a turn_ctl \<Rightarrow> 'a turn_ctl option" where
  "orphan_fires A j k s c =
    (if k < length (sttOrphans s) \<and> sttOrphans s ! k \<le> tnow c
     then (let s = s\<lparr>sttOrphans := take k (sttOrphans s) @ drop (Suc k) (sttOrphans s)\<rparr>
           in Some (st_maybeTrigger A j (st_orphan (s\<lparr>sttDone := True\<rparr>)) c))
     else None)"

definition rearm_tick :: "nat \<Rightarrow> 'a turn_ctl \<Rightarrow> 'a turn_ctl" where
  "rearm_tick j c =
    (case stop_core (stops c ! j) of
       ExternalStop s \<Rightarrow> put_stop j (ExternalStop (armTick (tnow c) s)) c
     | _ \<Rightarrow> c)"

definition tick_fires :: "'a analyzer \<Rightarrow> nat \<Rightarrow> externalStop \<Rightarrow> 'a turn_ctl \<Rightarrow> 'a turn_ctl option" where
  "tick_fires A j s c =
    (if due c (ex_timer s)
     then (let s = s\<lparr>ex_timer := None\<rparr> in
           Some (rearm_tick j (if turnOpen s then ex_maybeTrigger A j s c else put_stop j (ExternalStop s) c)))
     else None)"

definition stop_timer_fires :: "'a analyzer \<Rightarrow> nat \<Rightarrow> stop_timer \<Rightarrow> 'a turn_ctl \<Rightarrow> 'a turn_ctl option" where
  "stop_timer_fires A j t c =
    (if length (stops c) \<le> j then None
     else case stop_core (stops c ! j) of
       TurnAnalyzerStop s \<Rightarrow> (case t of MainTimer \<Rightarrow> ta_timer_fires A j s c | _ \<Rightarrow> None)
     | SpeechTimeoutStop s \<Rightarrow>
         (case t of
            MainTimer \<Rightarrow> user_timer_fires A j s c
          | STTTimer \<Rightarrow> stt_timer_fires A j s c
          | STTOrphan k \<Rightarrow> orphan_fires A j k s c)
     | ExternalStop s \<Rightarrow> (case t of MainTimer \<Rightarrow> tick_fires A j s c | _ \<Rightarrow> None)
     | _ \<Rightarrow> None)"

section \<open>Life of a controller\<close>

definition defaultStopTimeout :: duration where
  "defaultStopTimeout = 5000000000"

definition setupStrategies :: "'a analyzer \<Rightarrow> 'a turn_ctl \<Rightarrow> 'a turn_ctl" where
  "setupStrategies A c = c\<lparr>stops := map (on_core (stop_core_Setup A (tnow c) (ctl_sampleRate c))) (stops c)\<rparr>"

definition cleanupStrategies :: "'a turn_ctl \<Rightarrow> 'a turn_ctl" where
  "cleanupStrategies c = c\<lparr>starts := map start_Cleanup (starts c), stops := map (on_core stop_core_Cleanup) (stops c)\<rparr>"

text \<open>\<open>NewUserTurnController\<close>, then \<open>Setup\<close>.\<close>

definition NewUserTurnController ::
  "'a analyzer \<Rightarrow> 'a UserTurnStrategies \<Rightarrow> duration \<Rightarrow> int \<Rightarrow> duration \<Rightarrow> 'a turn_ctl" where
  "NewUserTurnController A strategies timeout sampleRate now =
    (let s = fillDefaults strategies in
     setupStrategies A
       \<lparr>tnow = now, starts = us_Start s, stops = us_Stop s,
        stopTimeout = (if timeout = 0 then defaultStopTimeout else timeout),
        ctl_sampleRate = sampleRate, userSpeaking = False, userTurn = False, watchdog = None, outs = []\<rparr>)"

definition Stop_ctl :: "'a turn_ctl \<Rightarrow> 'a turn_ctl" where
  "Stop_ctl c = c\<lparr>watchdog := None\<rparr>"

definition Cleanup_ctl :: "'a turn_ctl \<Rightarrow> 'a turn_ctl" where
  "Cleanup_ctl c = cleanupStrategies (Stop_ctl c)"

text \<open>
  \<open>UpdateStrategies\<close>. The chains that go are cleaned up first. An orphaned transcript timer, which
  cleaning up does not stop, is not followed once its strategy has been replaced.
\<close>

definition UpdateStrategies :: "'a analyzer \<Rightarrow> 'a UserTurnStrategies \<Rightarrow> 'a turn_ctl \<Rightarrow> 'a turn_ctl" where
  "UpdateStrategies A strategies c =
    (let c = cleanupStrategies c; s = fillDefaults strategies
     in setupStrategies A (c\<lparr>starts := us_Start s, stops := us_Stop s\<rparr>))"

datatype 'a turn_action =
    FrameIn frame
  | Elapse nat
  | WatchdogFires
  | WakeFires nat
  | StopTimerFires nat stop_timer
  | StopSession
  | Update "'a UserTurnStrategies"

fun turn_step :: "'a analyzer \<Rightarrow> 'a turn_action \<Rightarrow> 'a turn_ctl \<Rightarrow> 'a turn_ctl option" where
  "turn_step A (FrameIn f) c = Some (Process A f c)"
| "turn_step A (Elapse n) c = Some (c\<lparr>tnow := tnow c + int n\<rparr>)"
| "turn_step A WatchdogFires c = watchdog_fires A c"
| "turn_step A (WakeFires i) c = wake_fires i c"
| "turn_step A (StopTimerFires j t) c = stop_timer_fires A j t c"
| "turn_step A StopSession c = Some (Stop_ctl c)"
| "turn_step A (Update s) c = Some (UpdateStrategies A s c)"

fun turn_run :: "'a analyzer \<Rightarrow> 'a turn_action list \<Rightarrow> 'a turn_ctl \<Rightarrow> 'a turn_ctl option" where
  "turn_run A [] c = Some c"
| "turn_run A (a # as) c = (case turn_step A a c of None \<Rightarrow> None | Some c' \<Rightarrow> turn_run A as c')"

end
