(* ===== verification/Turn_Properties.thy ===== *)
theory Turn_Properties
  imports Turn_Controller
begin

text \<open>
  What the turn controller guarantees. The locale \<open>turn_invariant\<close> is the contract between the
  strategies and the controller: whatever survives a strategy storing its own state, reporting, and
  calling the three triggers survives every strategy and both chains. The guarantees are interpretations
  of it on the controller's own operations.
\<close>

section \<open>Invariants through the chains\<close>

fun decision :: "turn_event \<Rightarrow> bool" where
  "decision (HookStarted i p) = True"
| "decision (HookStopped j p) = True"
| "decision (HookInferenceTriggered j) = True"
| "decision HookStopTimeout = True"
| "decision _ = False"

locale stop_side =
  fixes A :: "'a analyzer" and P :: "'a turn_ctl \<Rightarrow> bool"
  assumes put_stop: "P c \<Longrightarrow> P (put_stop j t c)"
    and later: "P c \<Longrightarrow> P (c\<lparr>tnow := tnow c + int n\<rparr>)"
    and report: "P c \<Longrightarrow> \<not> decision e \<Longrightarrow> P (emit e c)"
    and inference: "P c \<Longrightarrow> P (onInferenceTriggered j c)"
    and stopped: "P c \<Longrightarrow> \<not> deferred (stops c ! j) \<Longrightarrow> P (onStopTriggered A (Some j) q c)"
begin

lemma TriggerFinalized: "P c \<Longrightarrow> P (TriggerFinalizedOverriding A os j c)"
  by (simp add: TriggerFinalizedOverriding_def stopped)

lemma TriggerStoppedOverriding: "P c \<Longrightarrow> P (TriggerStoppedOverriding A os j c)"
  by (simp add: TriggerStoppedOverriding_def inference TriggerFinalized)

lemma TriggerStopped: "P c \<Longrightarrow> P (TriggerStopped A j c)"
  by (simp add: TriggerStopped_def TriggerStoppedOverriding)

lemmas kept = put_stop later report TriggerFinalized TriggerStoppedOverriding TriggerStopped

lemma ta_maybeTrigger: "P c \<Longrightarrow> P (ta_maybeTrigger A j s c)"
  by (simp add: ta_maybeTrigger_def ta_fire_def kept Let_def)

lemma reportPrediction: "P c \<Longrightarrow> P (reportPrediction b v t c)"
  by (simp add: reportPrediction_def kept)

lemma ta_fallback: "P c \<Longrightarrow> P (ta_fallback j c)"
  by (simp add: ta_fallback_def kept split: stop_core.split)

lemma ta_handleAudio: "P c \<Longrightarrow> P (ta_handleAudio A j audio s c)"
  by (auto simp: ta_handleAudio_def kept ta_maybeTrigger reportPrediction split: prod.split bool.split)

lemma ta_handleVADStopped: "P c \<Longrightarrow> P (ta_handleVADStopped A j d t s c)"
  by (auto simp: ta_handleVADStopped_def kept ta_maybeTrigger reportPrediction Let_def split: prod.split)

lemma ta_handleTranscription: "P c \<Longrightarrow> P (ta_handleTranscription A j t fin s c)"
  by (simp add: ta_handleTranscription_def ta_fire_def kept ta_maybeTrigger ta_fallback Let_def)

lemma ta_Process: "P c \<Longrightarrow> P (ta_Process A j f s c)"
  by (simp add: ta_Process_def kept ta_handleAudio ta_handleVADStopped ta_handleTranscription
      split: turn_frame.split)

lemma st_maybeTrigger: "P c \<Longrightarrow> P (st_maybeTrigger A j s c)"
  by (simp add: st_maybeTrigger_def kept Let_def)

lemma st_Process: "P c \<Longrightarrow> P (st_Process A j f s c)"
  by (simp add: st_Process_def st_handleTranscription_def kept st_maybeTrigger Let_def
      split: turn_frame.split)

lemma ex_maybeTrigger: "P c \<Longrightarrow> P (ex_maybeTrigger A j s c)"
  by (simp add: ex_maybeTrigger_def ex_finalize_def kept Let_def)

lemma ex_Process: "P c \<Longrightarrow> P (ex_Process A j f s c)"
  by (simp add: ex_Process_def kept ex_maybeTrigger split: turn_frame.split)

lemma completion_Process: "P c \<Longrightarrow> P (completion_Process A j f c)"
  by (simp add: completion_Process_def kept split: turn_frame.split)

lemma configureLLM: "P c \<Longrightarrow> P (configureLLM cfg c)"
  by (simp add: configureLLM_def kept)

lemma stop_Process: "P c \<Longrightarrow> P (fst (stop_Process A f j c))"
  by (auto simp: stop_Process_def ta_Process st_Process ex_Process completion_Process configureLLM
      split: stop_core.split turn_frame.split)

lemma run_chain: "(\<And>i c. P c \<Longrightarrow> P (fst (p i c))) \<Longrightarrow> P c \<Longrightarrow> P (run_chain p is c)"
proof (induction p "is" c rule: run_chain.induct)
  case (2 p i "is" c)
  obtain c' r where pc: "p i c = (c', r)" by fastforce
  with "2.prems"(1) [OF "2.prems"(2), of i] have c': "P c'" by simp
  show ?case
  proof (cases r)
    case Continue
    with "2.IH" [OF pc [symmetric] Continue "2.prems"(1) c'] pc show ?thesis by simp
  next
    case Stop
    with pc c' show ?thesis by simp
  qed
qed simp

lemma rearm_tick: "P c \<Longrightarrow> P (rearm_tick j c)"
  by (simp add: rearm_tick_def kept split: stop_core.split)

lemma stop_timer_fires: "P c \<Longrightarrow> stop_timer_fires A j t c = Some c' \<Longrightarrow> P c'"
  by (auto simp: stop_timer_fires_def ta_timer_fires_def user_timer_fires_def stt_timer_fires_def
      orphan_fires_def tick_fires_def Let_def kept ta_maybeTrigger st_maybeTrigger ex_maybeTrigger
      rearm_tick split: stop_core.splits stop_timer.splits if_splits)

end

text \<open>Both sides.\<close>

locale turn_invariant = stop_side A P for A :: "'a analyzer" and P +
  assumes put_start: "P c \<Longrightarrow> P (put_start i s c)"
    and started: "P c \<Longrightarrow> P (onStartTriggered i p c)"
begin

lemma TriggerStarted: "P c \<Longrightarrow> P (TriggerStarted i c)"
  by (simp add: TriggerStarted_def TriggerStartedOverriding_def started)

lemma TriggerStartedOverriding: "P c \<Longrightarrow> P (TriggerStartedOverriding oi os i c)"
  by (simp add: TriggerStartedOverriding_def started)

lemma start_Process: "P c \<Longrightarrow> P (fst (start_Process f i c))"
  by (auto simp: start_Process_def MinWords_check_def processIdle_def processAwake_def kept put_start
      TriggerStarted TriggerStartedOverriding Let_def
      split: start_core.split turn_frame.split prod.split option.split)

lemma Process_kind: "P (note_speaking f c) \<Longrightarrow> P (Process_kind A f c)"
  by (simp add: Process_kind_def Let_def run_chain start_Process stop_Process)

lemma wake_fires: "P c \<Longrightarrow> wake_fires i c = Some c' \<Longrightarrow> P c'"
  by (auto simp: wake_fires_def Let_def kept put_start split: start_core.splits if_splits)

end

text \<open>The same through a whole run, for actions \<open>ok\<close> allows.\<close>

locale turn_run_invariant = turn_invariant A P for A :: "'a analyzer" and P +
  fixes ok :: "'a turn_action \<Rightarrow> bool"
  assumes spoke: "P c \<Longrightarrow> P (note_speaking f c)"
    and watched: "P c \<Longrightarrow> P (onWatchdog A (c\<lparr>watchdog := None\<rparr>))"
    and ended: "ok StopSession \<Longrightarrow> P c \<Longrightarrow> P (Stop_ctl c)"
    and replaced: "ok (Update s) \<Longrightarrow> P c \<Longrightarrow> P (UpdateStrategies A s c)"
begin

lemma step: "P c \<Longrightarrow> ok a \<Longrightarrow> turn_step A a c = Some c' \<Longrightarrow> P c'"
  by (cases a)
    (auto simp: Process_def Process_kind spoke later watchdog_fires_def watched ended replaced
      intro: wake_fires stop_timer_fires split: if_splits)

lemma run: "P c \<Longrightarrow> list_all ok as \<Longrightarrow> turn_run A as c = Some c' \<Longrightarrow> P c'"
  by (induction as arbitrary: c) (auto split: option.splits intro: step)

end

section \<open>The controller's fields under each operation\<close>

lemma emit_fields [simp]:
  "userTurn (emit e c) = userTurn c" "userSpeaking (emit e c) = userSpeaking c"
  "watchdog (emit e c) = watchdog c" "outs (emit e c) = outs c @ [e]" "stops (emit e c) = stops c"
  "starts (emit e c) = starts c" "tnow (emit e c) = tnow c" "stopTimeout (emit e c) = stopTimeout c"
  by (simp_all add: emit_def)

lemma put_start_fields [simp]:
  "userTurn (put_start i x c) = userTurn c" "userSpeaking (put_start i x c) = userSpeaking c"
  "watchdog (put_start i x c) = watchdog c" "outs (put_start i x c) = outs c"
  "stops (put_start i x c) = stops c" "tnow (put_start i x c) = tnow c"
  "stopTimeout (put_start i x c) = stopTimeout c"
  by (simp_all add: put_start_def)

lemma put_stop_fields [simp]:
  "userTurn (put_stop j x c) = userTurn c" "userSpeaking (put_stop j x c) = userSpeaking c"
  "watchdog (put_stop j x c) = watchdog c" "outs (put_stop j x c) = outs c"
  "starts (put_stop j x c) = starts c" "tnow (put_stop j x c) = tnow c"
  "stopTimeout (put_stop j x c) = stopTimeout c"
  by (simp_all add: put_stop_def)

lemma map_deferred_put_stop [simp]: "map deferred (stops (put_stop j x c)) = map deferred (stops c)"
  by (cases "j < length (stops c)") (simp_all add: put_stop_def map_update list_update_same_conv list_update_beyond)

lemma map_deferred_on_core [simp]: "map deferred (map (on_core g) ss) = map deferred ss"
  by simp

lemmas controller_defs = onStartTriggered_def onInferenceTriggered_def onStopTriggered_def
  notifyTurnStarted_def notifyTurnStopped_def rearmWatchdog_def

lemma note_speaking_fields [simp]:
  "userTurn (note_speaking f c) = userTurn c" "outs (note_speaking f c) = outs c"
  "starts (note_speaking f c) = starts c" "stops (note_speaking f c) = stops c"
  "tnow (note_speaking f c) = tnow c" "stopTimeout (note_speaking f c) = stopTimeout c"
  by (simp_all add: note_speaking_def rearmWatchdog_def split: turn_frame.split)

lemma setup_fields [simp]:
  "userTurn (setupStrategies A c) = userTurn c" "userSpeaking (setupStrategies A c) = userSpeaking c"
  "watchdog (setupStrategies A c) = watchdog c" "outs (setupStrategies A c) = outs c"
  "tnow (setupStrategies A c) = tnow c" "stopTimeout (setupStrategies A c) = stopTimeout c"
  "map deferred (stops (setupStrategies A c)) = map deferred (stops c)"
  by (simp_all add: setupStrategies_def)

lemma update_fields [simp]:
  "userTurn (UpdateStrategies A s c) = userTurn c"
  "userSpeaking (UpdateStrategies A s c) = userSpeaking c"
  "watchdog (UpdateStrategies A s c) = watchdog c" "outs (UpdateStrategies A s c) = outs c"
  "tnow (UpdateStrategies A s c) = tnow c" "stopTimeout (UpdateStrategies A s c) = stopTimeout c"
  by (simp_all add: UpdateStrategies_def cleanupStrategies_def Let_def)

lemma new_fields [simp]:
  "userTurn (NewUserTurnController A s t sr now) = False"
  "userSpeaking (NewUserTurnController A s t sr now) = False"
  "watchdog (NewUserTurnController A s t sr now) = None"
  "outs (NewUserTurnController A s t sr now) = []"
  by (simp_all add: NewUserTurnController_def Let_def)

section \<open>Turns alternate\<close>

text \<open>A log that opens and closes turns alternately, with inference and the timeout only inside one.\<close>

fun turn_log :: "bool \<Rightarrow> turn_event list \<Rightarrow> bool" where
  "turn_log op [] = True"
| "turn_log op (HookStarted i p # es) = (\<not> op \<and> turn_log True es)"
| "turn_log op (HookStopped j p # es) = (op \<and> turn_log False es)"
| "turn_log op (HookInferenceTriggered j # es) = (op \<and> turn_log op es)"
| "turn_log op (HookStopTimeout # es) = (op \<and> turn_log op es)"
| "turn_log op (e # es) = turn_log op es"

fun open_after :: "bool \<Rightarrow> turn_event list \<Rightarrow> bool" where
  "open_after op [] = op"
| "open_after op (HookStarted i p # es) = open_after True es"
| "open_after op (HookStopped j p # es) = open_after False es"
| "open_after op (e # es) = open_after op es"

lemma turn_log_append: "turn_log op (es @ fs) \<longleftrightarrow> turn_log op es \<and> turn_log (open_after op es) fs"
  by (induction op es rule: turn_log.induct) auto

lemma open_after_append: "open_after op (es @ fs) = open_after (open_after op es) fs"
  by (induction op es rule: open_after.induct) auto

definition log_ok :: "'a turn_ctl \<Rightarrow> bool" where
  "log_ok c \<longleftrightarrow> turn_log False (outs c) \<and> open_after False (outs c) = userTurn c"

lemma log_ok_quiet: "log_ok c \<Longrightarrow> \<not> decision e \<Longrightarrow> log_ok (emit e c)"
  by (cases e) (auto simp: log_ok_def turn_log_append open_after_append)

interpretation alt: turn_run_invariant A log_ok "\<lambda>_. True" for A :: "'a analyzer"
proof unfold_locales
  fix c :: "'a turn_ctl" and e
  show "log_ok c \<Longrightarrow> \<not> decision e \<Longrightarrow> log_ok (emit e c)" by (rule log_ok_quiet)
qed (auto simp: log_ok_def controller_defs turn_log_append open_after_append onWatchdog_def
    Stop_ctl_def)

section \<open>No turn ends while the user speaks\<close>

fun is_stopped :: "turn_event \<Rightarrow> bool" where
  "is_stopped (HookStopped j p) = True"
| "is_stopped _ = False"

definition spared :: "bool \<Rightarrow> turn_event list \<Rightarrow> 'a turn_ctl \<Rightarrow> bool" where
  "spared u o0 c \<longleftrightarrow> userSpeaking c = u \<and>
     (\<exists>es. outs c = o0 @ es \<and> (u \<longrightarrow> \<not> list_ex is_stopped es))"

lemma spared_emit: "spared u o0 c \<Longrightarrow> \<not> is_stopped e \<Longrightarrow> spared u o0 (emit e c)"
  by (auto simp: spared_def)

lemma not_decision_not_stopped: "\<not> decision e \<Longrightarrow> \<not> is_stopped e"
  by (cases e) auto

interpretation spk: turn_invariant A "spared u o0" for A :: "'a analyzer" and u o0
proof unfold_locales
  fix c :: "'a turn_ctl" and e
  show "spared u o0 c \<Longrightarrow> \<not> decision e \<Longrightarrow> spared u o0 (emit e c)"
    by (simp add: spared_emit not_decision_not_stopped)
qed (auto simp: spared_def controller_defs)

section \<open>The watchdog\<close>

definition guarded :: "'a turn_ctl \<Rightarrow> bool" where
  "guarded c \<longleftrightarrow> (userTurn c \<and> \<not> userSpeaking c \<longrightarrow> watchdog c \<noteq> None) \<and>
     (\<forall>d. watchdog c = Some d \<longrightarrow> d \<le> tnow c + stopTimeout c)"

lemma guarded_note: "guarded c \<Longrightarrow> guarded (note_speaking f c)"
  by (auto simp: guarded_def note_speaking_def rearmWatchdog_def split: turn_frame.split)

interpretation wd: turn_run_invariant A guarded "\<lambda>a. a \<noteq> StopSession" for A :: "'a analyzer"
proof unfold_locales
  fix c :: "'a turn_ctl" and n f
  show "guarded c \<Longrightarrow> guarded (c\<lparr>tnow := tnow c + int n\<rparr>)"
    by (force simp: guarded_def)
  show "guarded c \<Longrightarrow> guarded (note_speaking f c)" by (rule guarded_note)
qed (auto simp: guarded_def controller_defs onWatchdog_def)

section \<open>Deferred detectors\<close>

fun finalized_from :: "nat \<Rightarrow> turn_event \<Rightarrow> bool" where
  "finalized_from n (HookStopped (Some j) p) = (n \<le> j)"
| "finalized_from n _ = True"

definition gated :: "nat \<Rightarrow> 'a turn_ctl \<Rightarrow> bool" where
  "gated n c \<longleftrightarrow> (\<forall>i < n. i < length (stops c) \<and> deferred (stops c ! i)) \<and>
     list_all (finalized_from n) (outs c)"

lemma gated_map: "(\<forall>i < n. i < length (stops c) \<and> deferred (stops c ! i)) \<longleftrightarrow>
    n \<le> length (map deferred (stops c)) \<and> list_all id (take n (map deferred (stops c)))"
proof
  assume r: "n \<le> length (map deferred (stops c)) \<and> list_all id (take n (map deferred (stops c)))"
  show "\<forall>i < n. i < length (stops c) \<and> deferred (stops c ! i)"
  proof (intro allI impI)
    fix i assume "i < n"
    with r show "i < length (stops c) \<and> deferred (stops c ! i)"
      by (auto simp: list_all_length)
  qed
next
  assume l: "\<forall>i < n. i < length (stops c) \<and> deferred (stops c ! i)"
  then have "n \<le> length (stops c)" by (meson leI nless_le)
  with l show "n \<le> length (map deferred (stops c)) \<and> list_all id (take n (map deferred (stops c)))"
    by (auto simp: list_all_length)
qed

lemma finalized_quiet: "\<not> decision e \<Longrightarrow> finalized_from n e"
  by (cases e) auto

fun no_update :: "'a turn_action \<Rightarrow> bool" where
  "no_update (Update s) = False"
| "no_update _ = True"

interpretation gate: turn_run_invariant A "gated n" no_update for A :: "'a analyzer" and n
proof unfold_locales
  fix c :: "'a turn_ctl" and j q
  assume g: "gated n c" and "\<not> deferred (stops c ! j)"
  then have "n \<le> j" by (meson gated_def leI)
  with g show "gated n (onStopTriggered A (Some j) q c)"
    by (auto simp: gated_def controller_defs)
next
  fix c :: "'a turn_ctl" and j t
  assume "gated n c"
  then show "gated n (put_stop j t c)" unfolding gated_def gated_map by simp
qed (auto simp: gated_def controller_defs onWatchdog_def Stop_ctl_def finalized_quiet)

section \<open>A sleeping wake phrase\<close>

fun is_started :: "turn_event \<Rightarrow> bool" where
  "is_started (HookStarted i p) = True"
| "is_started _ = False"

text \<open>Nothing the stop chain does opens a turn or touches the start chain.\<close>

definition calm :: "start_strategy list \<Rightarrow> turn_event list \<Rightarrow> 'a turn_ctl \<Rightarrow> bool" where
  "calm ss o0 c \<longleftrightarrow> starts c = ss \<and> \<not> userTurn c \<and>
     (\<exists>es. outs c = o0 @ es \<and> \<not> list_ex is_started es)"

lemma not_decision_not_started: "\<not> decision e \<Longrightarrow> \<not> is_started e"
  by (cases e) auto

interpretation cm: stop_side A "calm ss o0" for A :: "'a analyzer" and ss o0
proof unfold_locales
  fix c :: "'a turn_ctl" and e
  assume c: "calm ss o0 c" and e: "\<not> decision e"
  from not_decision_not_started [OF e] c show "calm ss o0 (emit e c)" by (auto simp: calm_def)
qed (auto simp: calm_def controller_defs)

section \<open>Properties\<close>

text \<open>The inputs of the witnesses: the default chains and a conversation's frames.\<close>

definition an_analyzer :: "unit analyzer" where
  "an_analyzer = \<lparr>a_AppendAudio = (\<lambda>b sp u. (False, u)),
     a_AnalyzeEndOfTurn = (\<lambda>u. (\<lparr>v_complete = True, v_prob = 0, v_err = False, v_took = 5\<rparr>, u)),
     a_UpdateVADStartSecs = (\<lambda>d u. u), a_SetSampleRate = (\<lambda>r u. u), a_Clear = (\<lambda>u. u)\<rparr>"

definition a_frame :: "frame_body \<Rightarrow> frame" where
  "a_frame b = fst (NewBaseFrame ''Frame'' b 0)"

definition default_ctl :: "unit turn_ctl" where
  "default_ctl = NewUserTurnController an_analyzer \<lparr>us_Start = [], us_Stop = []\<rparr> 0 16000 0"

definition spoken :: "unit turn_action list" where
  "spoken = [FrameIn (a_frame (Trn (VADUserStartedSpeakingFrame 0 0))),
     FrameIn (a_frame (Txt (NewTranscriptionFrame ''hello'' '''' True))),
     FrameIn (a_frame (Trn (VADUserStoppedSpeakingFrame 200000000 None)))]"

definition after :: "unit turn_ctl \<Rightarrow> unit turn_action list \<Rightarrow> unit turn_ctl" where
  "after c as = the (turn_run an_analyzer as c)"

lemma after_run_eq: "turn_run an_analyzer as c \<noteq> None \<Longrightarrow> turn_run an_analyzer as c = Some (after c as)"
  by (auto simp: after_def)

text \<open>
  C3. Turns alternate: over any sequence of frames, expiring timers, strategy replacements and the end
  of the session, for any chains and any end-of-turn model, the controller reports a turn started and a
  turn stopped strictly in alternation, triggers inference and reports the stop timeout only inside a
  turn, and its own state says whether one is open.
\<close>

theorem turns_alternate:
  assumes "turn_run A as (NewUserTurnController A strategies timeout sampleRate now) = Some c"
  shows "turn_log False (outs c) \<and> userTurn c = open_after False (outs c)"
proof -
  have "log_ok (NewUserTurnController A strategies timeout sampleRate now)"
    by (simp add: log_ok_def)
  from alt.run [OF this _ assms] have "log_ok c" by (simp add: list_all_iff)
  then show ?thesis by (simp add: log_ok_def)
qed

lemma spoken_ok: "turn_run an_analyzer spoken default_ctl \<noteq> None"
  by code_simp

lemma turns_alternate_witness:
  "userTurn (after default_ctl spoken) = open_after False (outs (after default_ctl spoken)) \<and>
   outs (after default_ctl spoken) \<noteq> []"
proof -
  from after_run_eq [OF spoken_ok]
  have "turn_run an_analyzer spoken (NewUserTurnController an_analyzer
      \<lparr>us_Start = [], us_Stop = []\<rparr> 0 16000 0) = Some (after default_ctl spoken)"
    by (simp add: default_ctl_def)
  from turns_alternate [OF this] show ?thesis
    by (rule conjI [OF conjunct2]) code_simp
qed

text \<open>
  C4. A turn is never closed while the user is audibly speaking: whatever single step is taken, a
  frame through both chains or any timer, if the user is speaking afterwards no turn was reported
  stopped by it.
\<close>

theorem never_stopped_while_speaking:
  assumes "turn_step A a c = Some c'" and "userSpeaking c'"
  shows "\<exists>es. outs c' = outs c @ es \<and> \<not> list_ex is_stopped es"
proof -
  have refl: "spared (userSpeaking d) (outs d) d" for d :: "'a turn_ctl"
    by (simp add: spared_def)
  have frame: "spared (userSpeaking (note_speaking k c)) (outs c) (Process_kind A k c)" for k
    using spk.Process_kind [OF refl [of "note_speaking k c"], of A] by simp
  have "\<exists>u. spared u (outs c) c'"
  proof (cases a)
    case (FrameIn f)
    with assms(1) frame show ?thesis by (auto simp: Process_def)
  next
    case WatchdogFires
    with assms(1) have "c' = onWatchdog A (c\<lparr>watchdog := None\<rparr>)"
      by (auto simp: watchdog_fires_def split: if_splits)
    then show ?thesis
      by (auto simp: onWatchdog_def spared_def controller_defs)
  next
    case (WakeFires i)
    with assms(1) show ?thesis using spk.wake_fires [OF refl] by auto
  next
    case (StopTimerFires j t)
    with assms(1) have "stop_timer_fires A j t c = Some c'" by simp
    then show ?thesis by (blast intro: spk.stop_timer_fires [OF refl])
  qed (use assms(1) in \<open>auto simp: spared_def Stop_ctl_def\<close>)
  with assms(2) show ?thesis by (auto simp: spared_def)
qed

lemma never_stopped_while_speaking_witness:
  "\<exists>es. outs (Process an_analyzer (a_frame (Trn (VADUserStartedSpeakingFrame 0 0)))
      (after default_ctl spoken)) = outs (after default_ctl spoken) @ es \<and> \<not> list_ex is_stopped es"
proof (rule never_stopped_while_speaking)
  let ?f = "a_frame (Trn (VADUserStartedSpeakingFrame 0 0))"
  show "turn_step an_analyzer (FrameIn ?f) (after default_ctl spoken) =
      Some (Process an_analyzer ?f (after default_ctl spoken))" by simp
  show "userSpeaking (Process an_analyzer ?f (after default_ctl spoken))" by code_simp
qed

text \<open>
  C5. A turn cannot stay open for ever on a silent user: in every state reached without the session
  having ended, if a turn is open and the user is not speaking, then after at most the stop timeout the
  watchdog can fire, and it reports the timeout and closes the turn, attributed to no strategy.
\<close>

theorem watchdog_closes_silent_turn:
  assumes "turn_run A as (NewUserTurnController A strategies timeout sampleRate now) = Some c"
    and "list_all (\<lambda>a. a \<noteq> StopSession) as" and "userTurn c" and "\<not> userSpeaking c"
  shows "\<exists>n c'. int n \<le> max 0 (stopTimeout c) \<and> turn_run A [Elapse n, WatchdogFires] c = Some c' \<and>
    \<not> userTurn c' \<and> outs c' = outs c @ [HookStopTimeout, HookStopped None DefaultStoppedParams]"
proof -
  have "guarded (NewUserTurnController A strategies timeout sampleRate now)"
    by (simp add: guarded_def)
  from wd.run [OF this assms(2,1)] assms(3,4) obtain d
    where d: "watchdog c = Some d" "d \<le> tnow c + stopTimeout c" by (auto simp: guarded_def)
  let ?n = "nat (d - tnow c)"
  let ?c = "onWatchdog A (c\<lparr>tnow := tnow c + int ?n, watchdog := None\<rparr>)"
  have "turn_run A [Elapse ?n, WatchdogFires] c = Some ?c"
    using d(1) by (simp add: watchdog_fires_def due_def)
  moreover have "\<not> userTurn ?c \<and> outs ?c = outs c @ [HookStopTimeout, HookStopped None DefaultStoppedParams]"
    using assms(3,4) by (simp add: onWatchdog_def controller_defs)
  moreover have "int ?n \<le> max 0 (stopTimeout c)" using d(2) by auto
  ultimately show ?thesis by blast
qed

lemma watchdog_closes_silent_turn_witness:
  "\<exists>n c'. int n \<le> max 0 (stopTimeout (after default_ctl spoken)) \<and>
    turn_run an_analyzer [Elapse n, WatchdogFires] (after default_ctl spoken) = Some c' \<and>
    \<not> userTurn c' \<and>
    outs c' = outs (after default_ctl spoken) @ [HookStopTimeout, HookStopped None DefaultStoppedParams]"
proof (rule watchdog_closes_silent_turn)
  show "turn_run an_analyzer spoken (NewUserTurnController an_analyzer
      \<lparr>us_Start = [], us_Stop = []\<rparr> 0 16000 0) = Some (after default_ctl spoken)"
    using after_run_eq [OF spoken_ok] by (simp add: default_ctl_def)
  show "list_all (\<lambda>a. a \<noteq> StopSession) spoken" by (simp add: spoken_def)
  show "userTurn (after default_ctl spoken)" "\<not> userSpeaking (after default_ctl spoken)" by code_simp+
qed

text \<open>
  Under a chain gated on the LLM's verdict the detectors only trigger inference: whatever arrives
  and whatever timers expire, no turn is ever reported stopped by one of the detectors, only by the gate
  behind them or by the watchdog.
\<close>

lemma detectors_never_finalize:
  assumes "detectors \<noteq> []" and "list_all no_update as"
    and "turn_run A as (NewUserTurnController A
      ((FilterIncompleteUserTurnStrategies detectors cfg)\<lparr>us_Start := ss\<rparr>) timeout sampleRate now) = Some c"
  shows "list_all (finalized_from (length detectors)) (outs c)"
proof -
  let ?c = "NewUserTurnController A
      ((FilterIncompleteUserTurnStrategies detectors cfg)\<lparr>us_Start := ss\<rparr>) timeout sampleRate now"
  have "map deferred (stops ?c) = map (\<lambda>_. True) detectors @ [False]"
    using assms(1)
    by (simp add: NewUserTurnController_def FilterIncompleteUserTurnStrategies_def fillDefaults_def
        setupStrategies_def Deferred_def NewLLMTurnCompletionStop_def Let_def comp_def)
  then have "gated (length detectors) ?c" unfolding gated_def gated_map
    by (simp add: list_all_iff)
  from gate.run [OF this assms(2,3)] show ?thesis by (simp add: gated_def)
qed

definition gated_ctl :: "unit turn_ctl" where
  "gated_ctl = NewUserTurnController an_analyzer ((FilterIncompleteUserTurnStrategies
     [NewTurnAnalyzerStop () (Some False)] 0)\<lparr>us_Start := [NewVADStart]\<rparr>) 0 16000 0"

definition gated_run :: "unit turn_action list" where
  "gated_run = spoken @ [FrameIn (a_frame (Trn UserTurnInferenceCompletedFrame))]"

lemma detectors_never_finalize_witness:
  "list_all (finalized_from 1) (outs (after gated_ctl gated_run)) \<and>
   HookInferenceTriggered 0 \<in> set (outs (after gated_ctl gated_run)) \<and>
   HookStopped (Some 1) \<lparr>tp_UserSpeakingFrames = True\<rparr> \<in> set (outs (after gated_ctl gated_run))"
proof -
  have "turn_run an_analyzer gated_run gated_ctl \<noteq> None" by code_simp
  from after_run_eq [OF this] have r: "turn_run an_analyzer gated_run (NewUserTurnController an_analyzer
      ((FilterIncompleteUserTurnStrategies [NewTurnAnalyzerStop () (Some False)] 0)\<lparr>us_Start := [NewVADStart]\<rparr>)
      0 16000 0) = Some (after gated_ctl gated_run)" by (simp add: gated_ctl_def)
  have ok: "list_all no_update gated_run" by (simp add: gated_run_def spoken_def)
  have "list_all (finalized_from 1) (outs (after gated_ctl gated_run))"
    using detectors_never_finalize [OF _ ok r] by simp
  moreover have "HookInferenceTriggered 0 \<in> set (outs (after gated_ctl gated_run))" by code_simp
  moreover have "HookStopped (Some 1) \<lparr>tp_UserSpeakingFrames = True\<rparr> \<in>
      set (outs (after gated_ctl gated_run))" by code_simp
  ultimately show ?thesis by blast
qed

text \<open>The wake phrase at the head of the start chain keeps everything behind it from running.\<close>

lemma sleeping_chain:
  assumes "start_core (starts c ! 0) = WakePhraseStart w" and "\<not> awake w" and "starts c \<noteq> []"
  shows "run_chain (start_Process f) [0..<length (starts c)] c = fst (processIdle 0 f w c)"
proof -
  have "[0..<length (starts c)] = 0 # [1..<length (starts c)]"
    using assms(3) by (simp add: upt_conv_Cons)
  moreover have "snd (processIdle 0 f w c) = Stop"
    by (simp add: processIdle_def split: turn_frame.split prod.split option.split)
  ultimately show ?thesis using assms(1,2)
    by (cases "processIdle 0 f w c") (simp add: start_Process_def)
qed

lemma calm_start: "\<not> userTurn c \<Longrightarrow> calm (starts c) (outs c) c"
  by (simp add: calm_def)

lemma checkWakePhrase_asleep:
  "checkWakePhrase now t w = (w', None) \<Longrightarrow> awake w' = awake w"
  by (auto simp: checkWakePhrase_def Let_def split: option.splits)

text \<open>
  A sleeping wake phrase placed first lets nothing open a turn: whatever frame arrives, voice
  activity, interim text, another component's proposal or a final transcript that does not complete the
  phrase, no turn is started by it and the strategy sleeps on; text that does not match is reported to
  be dropped.
\<close>

lemma sleeping_wake_phrase_blocks:
  assumes "starts c = s # ss" and "start_core s = WakePhraseStart w" and "\<not> awake w"
    and "\<not> userTurn c"
    and "\<forall>t fin. turn_frame_of (body f) = FTranscription t fin \<longrightarrow> snd (checkWakePhrase (tnow c) t w) = None"
  shows "\<not> userTurn (Process A f c) \<and>
    (\<exists>es. outs (Process A f c) = outs c @ es \<and> \<not> list_ex is_started es) \<and>
    (\<exists>w'. start_core (starts (Process A f c) ! 0) = WakePhraseStart w' \<and> \<not> awake w')"
proof -
  let ?k = "turn_frame_of (body f)"
  let ?c = "note_speaking ?k c"
  let ?d = "fst (processIdle 0 ?k w ?c)"
  have chain: "run_chain (start_Process ?k) [0..<length (starts c)] ?c = ?d"
    using sleeping_chain [of ?c w ?k] assms(1-3) by simp
  have d: "\<not> userTurn ?d \<and> (\<exists>es. outs ?d = outs c @ es \<and> \<not> list_ex is_started es) \<and>
      (\<exists>w'. start_core (starts ?d ! 0) = WakePhraseStart w' \<and> \<not> awake w')"
  proof (cases "\<exists>t fin. ?k = FTranscription t fin")
    case False
    then have "?d = ?c" by (auto simp: processIdle_def split: turn_frame.split)
    with assms(1-4) show ?thesis by simp
  next
    case True
    then obtain t fin where k: "?k = FTranscription t fin" by blast
    with assms(5) obtain w' where w': "checkWakePhrase (tnow c) t w = (w', None)"
      by (metis prod.collapse)
    with k have "?d = emit (HookResetAggregation 0) (put_start 0 (WakePhraseStart w') ?c)"
      by (simp add: processIdle_def)
    with assms(1,3,4) checkWakePhrase_asleep [OF w'] show ?thesis
      by (simp add: put_start_def)
  qed
  then have calm: "calm (starts ?d) (outs c) ?d" by (simp add: calm_def)
  have "calm (starts ?d) (outs c) (run_chain (stop_Process A ?k) is ?d)" for "is"
    by (rule cm.run_chain) (simp_all add: cm.stop_Process calm)
  then have "calm (starts ?d) (outs c) (Process A f c)"
    by (simp add: Process_def Process_kind_def Let_def chain)
  with d show ?thesis by (auto simp: calm_def)
qed

definition wake_ctl :: "unit turn_ctl" where
  "wake_ctl = NewUserTurnController an_analyzer
     \<lparr>us_Start = [NewWakePhraseStart [''hey voxigo''] 0 False, NewVADStart], us_Stop = []\<rparr> 0 16000 0"

definition wake_state :: wakePhraseStart where
  "wake_state = \<lparr>wk_patterns = [(''hey voxigo'', [''hey'', ''voxigo''])], wk_timeout = 10000000000,
     wk_single = False, awake = False, accum = [], wk_timer = None\<rparr>"

lemma sleeping_wake_phrase_blocks_witness:
  "\<not> userTurn (Process an_analyzer (a_frame (Trn (VADUserStartedSpeakingFrame 0 0))) wake_ctl) \<and>
   userTurn (Process an_analyzer (a_frame (Txt (NewTranscriptionFrame ''Hey, Voxigo!'' '''' True))) wake_ctl)"
proof -
  let ?f = "a_frame (Trn (VADUserStartedSpeakingFrame 0 0))"
  have "starts wake_ctl = [NewWakePhraseStart [''hey voxigo''] 0 False, NewVADStart]" by code_simp
  moreover have "start_core (NewWakePhraseStart [''hey voxigo''] 0 False) = WakePhraseStart wake_state"
    by code_simp
  moreover have "\<not> awake wake_state" "\<not> userTurn wake_ctl" by code_simp+
  moreover have "turn_frame_of (body ?f) = FVADStarted 0" by code_simp
  ultimately have "\<not> userTurn (Process an_analyzer ?f wake_ctl)"
    using sleeping_wake_phrase_blocks [of wake_ctl "NewWakePhraseStart [''hey voxigo''] 0 False"
        "[NewVADStart]" wake_state ?f an_analyzer] by simp
  moreover have "userTurn (Process an_analyzer (a_frame (Txt (NewTranscriptionFrame ''Hey, Voxigo!'' '''' True))) wake_ctl)"
    by code_simp
  ultimately show ?thesis by blast
qed

text \<open>A VAD stop means nothing to the start chain.\<close>

lemma start_chain_VADStopped: "run_chain (start_Process (FVADStopped d t)) is c = c"
proof (induction "is")
  case (Cons i "is")
  have "fst (start_Process (FVADStopped d t) i c) = c"
    by (simp add: start_Process_def processIdle_def processAwake_def split: start_core.split)
  with Cons show ?case
    by (cases "start_Process (FVADStopped d t) i c") (simp split: ProcessFrameResult.split)
qed simp

lemma Process_VADStopped:
  assumes "turn_frame_of (body f) = FVADStopped d t" and "stops c = [s]"
    and "stop_core s = SpeechTimeoutStop x"
  shows "Process A f c = put_stop 0 (SpeechTimeoutStop (st_handleVADStopped (tnow c) d x))
    (note_speaking (FVADStopped d t) c)"
  using assms
  by (simp add: Process_def Process_kind_def Let_def start_chain_VADStopped stop_Process_def st_Process_def)

definition stop_events :: "'a stop_strategy \<Rightarrow> turn_event list" where
  "stop_events s = [HookInferenceTriggered 0,
     HookStopped (Some 0) \<lparr>tp_UserSpeakingFrames = stop_UserSpeakingFrames s\<rparr>]"

lemma TriggerStopped_closes:
  assumes "userTurn c" and "\<not> userSpeaking c" and "stops c = [s]" and "\<not> deferred s"
  shows "\<not> userTurn (TriggerStopped A 0 c) \<and> outs (TriggerStopped A 0 c) = outs c @ stop_events s"
  using assms
  by (simp add: TriggerStopped_def TriggerStoppedOverriding_def TriggerFinalizedOverriding_def
      controller_defs boolOr_def stop_events_def)

lemma user_timer_closes:
  assumes "stops c = [s\<lparr>stop_core := z\<rparr>]" and "\<not> deferred s" and "userTurn c" and "\<not> userSpeaking c"
    and "due c (userTimer y)" and "st_vadSpeaking y = False" and "sttDone y"
    and "st_waitForTx y \<longrightarrow> haveText y"
  shows "\<exists>e. user_timer_fires A 0 y c = Some e \<and> \<not> userTurn e \<and> outs e = outs c @ stop_events s"
proof -
  let ?y = "y\<lparr>userSpeechDone := True, userTimer := None\<rparr>"
  let ?e = "put_stop 0 (SpeechTimeoutStop (st_cancelTimers ?y)) (put_stop 0 (SpeechTimeoutStop ?y) c)"
  have e: "stops ?e = [s\<lparr>stop_core := SpeechTimeoutStop (st_cancelTimers ?y)\<rparr>]"
    using assms(1) by (simp add: put_stop_def)
  with TriggerStopped_closes [OF _ _ e, of A] assms(2-) show ?thesis
    by (simp add: user_timer_fires_def st_maybeTrigger_def stop_events_def Let_def)
qed

text \<open>What a VAD stop leaves the strategy waiting for.\<close>

lemma st_handleVADStopped_fields:
  "st_vadSpeaking (st_handleVADStopped now d x) = False"
  "st_waitForTx (st_handleVADStopped now d x) = st_waitForTx x"
  "haveText (st_handleVADStopped now d x) = haveText x"
  "userTimer (st_handleVADStopped now d x) = Some (now + userSpeechTimeout x)"
  "userSpeechDone (st_handleVADStopped now d x) = False"
  "sttDone (st_handleVADStopped now d x) \<longleftrightarrow> st_txFinalized x \<or> st_sttTimeout x \<le> d"
  "\<not> sttDone (st_handleVADStopped now d x) \<longrightarrow>
    sttTimer (st_handleVADStopped now d x) = Some (now + (st_sttTimeout x - d))"
  by (auto simp: st_handleVADStopped_def restartUserSpeechTimer_def sttWait_def st_orphan_def Let_def
      split: option.split)


definition heard_ctl :: "unit turn_ctl" where
  "heard_ctl = after default_ctl (take 2 spoken)"

definition heard_state :: speechTimeoutStop where
  "heard_state = \<lparr>userSpeechTimeout = 600000000, st_waitForTx = True, st_sttTimeout = 0, st_stopWindow = 0,
     st_stopSecsWarned = False, haveText = True, st_vadSpeaking = True, st_vadStopped = False,
     st_txFinalized = True, userSpeechDone = False, sttDone = True, userTimer = None, sttTimer = None,
     sttOrphans = []\<rparr>"

definition heard_stop :: "unit stop_strategy" where
  "heard_stop = \<lparr>stop_UserSpeakingFrames = True, deferred = False, stop_core = SpeechTimeoutStop heard_state\<rparr>"


text \<open>How many turns the stop chain opens: none.\<close>

definition opened :: "turn_event list \<Rightarrow> nat" where
  "opened es = length (filter is_started es)"

interpretation op: stop_side A "\<lambda>c. opened (outs c) = n" for A :: "'a analyzer" and n
proof unfold_locales
  fix c :: "'a turn_ctl" and e
  assume "opened (outs c) = n" and e: "\<not> decision e"
  with not_decision_not_started [OF e] show "opened (outs (emit e c)) = n" by (simp add: opened_def)
qed (auto simp: opened_def controller_defs)

text \<open>
  Barge-in takes the configured number of words: under a minimum-words strategy, while the bot is
  speaking a transcript opens a turn exactly when it has at least that many words, whatever stop chain
  runs behind it, and once the bot has been heard to stop one word is enough.
\<close>

lemma min_words_gate:
  assumes "starts c = [s]" and "start_core s = MinWordsStart n ui bot_speaking" and "\<not> userTurn c"
    and "turn_frame_of (body f) = FTranscription t fin"
  shows "opened (outs (Process A f c)) = opened (outs c) +
    (if (if bot_speaking then n else 1) \<le> int (length (Fields t)) then 1 else 0)"
proof -
  let ?k = "FTranscription t fin"
  let ?c = "note_speaking ?k c"
  let ?d = "fst (MinWords_check 0 n bot_speaking t ?c)"
  have chain: "run_chain (start_Process ?k) [0..<length (starts c)] ?c = ?d"
    using assms(1,2) by (simp add: start_Process_def MinWords_check_def Let_def)
  have d: "opened (outs ?d) = opened (outs c) +
      (if (if bot_speaking then n else 1) \<le> int (length (Fields t)) then 1 else 0)"
    using assms(3)
    by (simp add: MinWords_check_def TriggerStarted_def TriggerStartedOverriding_def controller_defs
        opened_def Let_def)
  have "opened (outs (run_chain (stop_Process A ?k) is ?d)) = opened (outs ?d)" for "is"
    by (rule op.run_chain) (simp_all add: op.stop_Process)
  then show ?thesis using assms(4) d
    by (simp add: Process_def Process_kind_def Let_def chain)
qed

definition min_words_ctl :: "unit turn_ctl" where
  "min_words_ctl = after (NewUserTurnController an_analyzer
     \<lparr>us_Start = [NewMinWordsStart 3 None], us_Stop = []\<rparr> 0 16000 0)
     [FrameIn (a_frame (Sys BotStartedSpeakingFrame))]"

lemma min_words_gate_witness:
  "opened (outs (Process an_analyzer (a_frame (Txt (NewTranscriptionFrame ''wait a moment'' '''' False))) min_words_ctl)) = 1 \<and>
   opened (outs (Process an_analyzer (a_frame (Txt (NewTranscriptionFrame ''yes sure'' '''' False))) min_words_ctl)) = 0"
proof -
  let ?s = "\<lparr>EnableInterruptions = True, start_UserSpeakingFrames = True, start_core = MinWordsStart 3 True True\<rparr>"
  have s: "starts min_words_ctl = [?s]" and u: "\<not> userTurn min_words_ctl"
    and o: "opened (outs min_words_ctl) = 0" by code_simp+
  have f: "turn_frame_of (body (a_frame (Txt (NewTranscriptionFrame x '''' False)))) = FTranscription x False" for x
    by (simp add: NewTranscriptionFrame_def a_frame_def NewBaseFrame_def Let_def nextID_def)
  have w: "length (Fields ''wait a moment'') = 3" "length (Fields ''yes sure'') = 2" by code_simp+
  show ?thesis
    using min_words_gate [OF s _ u f, of 3 True True an_analyzer "''wait a moment''"]
      min_words_gate [OF s _ u f, of 3 True True an_analyzer "''yes sure''"] o w by simp
qed

text \<open>While the user is speaking the stop chain can neither open nor close a turn.\<close>

definition held_open :: "turn_event list \<Rightarrow> 'a turn_ctl \<Rightarrow> bool" where
  "held_open o0 c \<longleftrightarrow> userSpeaking c \<and> userTurn c \<and>
     (\<exists>es. outs c = o0 @ es \<and> \<not> list_ex is_started es \<and> \<not> list_ex is_stopped es)"

interpretation ho: stop_side A "held_open o0" for A :: "'a analyzer" and o0
proof unfold_locales
  fix c :: "'a turn_ctl" and e
  assume c: "held_open o0 c" and e: "\<not> decision e"
  from not_decision_not_started [OF e] not_decision_not_stopped [OF e] c
  show "held_open o0 (emit e c)" by (auto simp: held_open_def)
qed (auto simp: held_open_def controller_defs)

lemma external_start_outs:
  assumes "starts c = us_Start (ExternalStrategies interruptions)" and "\<not> userTurn c"
    and "f = FUserStarted \<or> f = FProposedStarted"
  shows "\<exists>d. run_chain (start_Process f) [0..<length (starts c)] (note_speaking f c) = d \<and>
    userTurn d \<and> userSpeaking d \<and>
    outs d = outs c @ [HookStarted 0
      (if f = FUserStarted then \<lparr>sp_Interruptions = False, sp_UserSpeakingFrames = False\<rparr>
       else \<lparr>sp_Interruptions = boolOr interruptions True, sp_UserSpeakingFrames = True\<rparr>)]"
  using assms
  by (auto simp: ExternalStrategies_def NewExternalStart_def start_Process_def TriggerStarted_def
      TriggerStartedOverriding_def controller_defs boolOr_def note_speaking_def)

text \<open>
  A turn another component has already announced is adopted silently, and one it only proposes is
  announced here: with the external start strategy and any stop chain, either frame opens the turn and
  leaves it open, the first asking for neither an interruption nor a speaking frame, the second for the
  speaking frame and for the interruption the strategies were built with.
\<close>

lemma external_turn_adopted:
  assumes "starts c = us_Start (ExternalStrategies interruptions)" and "\<not> userTurn c"
    and "turn_frame_of (body f) = FUserStarted \<or> turn_frame_of (body f) = FProposedStarted"
  shows "userTurn (Process A f c) \<and>
    (\<exists>es. outs (Process A f c) = outs c @ HookStarted 0
      (if turn_frame_of (body f) = FUserStarted
       then \<lparr>sp_Interruptions = False, sp_UserSpeakingFrames = False\<rparr>
       else \<lparr>sp_Interruptions = boolOr interruptions True, sp_UserSpeakingFrames = True\<rparr>) # es \<and>
      \<not> list_ex is_started es \<and> \<not> list_ex is_stopped es)"
proof -
  let ?k = "turn_frame_of (body f)"
  obtain d where d: "run_chain (start_Process ?k) [0..<length (starts c)] (note_speaking ?k c) = d"
    "userTurn d" "userSpeaking d"
    and o: "outs d = outs c @ [HookStarted 0
      (if ?k = FUserStarted then \<lparr>sp_Interruptions = False, sp_UserSpeakingFrames = False\<rparr>
       else \<lparr>sp_Interruptions = boolOr interruptions True, sp_UserSpeakingFrames = True\<rparr>)]"
    using external_start_outs [OF assms] by blast
  have "held_open (outs d) d" by (simp add: held_open_def d)
  then have "held_open (outs d) (run_chain (stop_Process A ?k) is d)" for "is"
    by (rule ho.run_chain [rotated]) (rule ho.stop_Process)
  then have "held_open (outs d) (Process A f c)"
    by (simp add: Process_def Process_kind_def Let_def d(1))
  with o show ?thesis by (auto simp: held_open_def)
qed

definition external_ctl :: "unit turn_ctl" where
  "external_ctl = NewUserTurnController an_analyzer (ExternalStrategies None) 0 16000 0"

lemma external_turn_adopted_witness:
  "userTurn (Process an_analyzer (a_frame (Sys UserStartedSpeakingFrame)) external_ctl)"
proof -
  have s: "starts external_ctl = us_Start (ExternalStrategies None)" and u: "\<not> userTurn external_ctl"
    by code_simp+
  have "turn_frame_of (body (a_frame (Sys UserStartedSpeakingFrame))) = FUserStarted" by code_simp
  with external_turn_adopted [OF s u, of "a_frame (Sys UserStartedSpeakingFrame)"] show ?thesis by simp
qed

section \<open>An orphaned transcript timer\<close>

text \<open>
  Two stops reported in a row: the second arms the transcript timer without cancelling the first, which
  goes on running and, when it expires, ends the second wait early. Here the second stop is reported at
  time 5 with a transcript wait of 8 before it, and the turn is closed at 11.
\<close>

definition quick_ctl :: "unit turn_ctl" where
  "quick_ctl = NewUserTurnController an_analyzer
     \<lparr>us_Start = [], us_Stop = [NewSpeechTimeoutStop 6 None]\<rparr> 0 16000 0"

definition two_stops :: "unit turn_action list" where
  "two_stops = [FrameIn (a_frame (Met (STTMetadataFrame ''stt'' 10))),
     FrameIn (a_frame (Trn (VADUserStartedSpeakingFrame 0 0))),
     FrameIn (a_frame (Txt (NewTranscriptionFrame ''hello'' '''' False))),
     FrameIn (a_frame (Trn (VADUserStoppedSpeakingFrame 2 None))), Elapse 5,
     FrameIn (a_frame (Trn (VADUserStoppedSpeakingFrame 2 None))), Elapse 3,
     StopTimerFires 0 (STTOrphan 0), Elapse 3, StopTimerFires 0 MainTimer]"

lemma orphaned_timer_ends_wait:
  "tnow (after quick_ctl two_stops) = 11 \<and> \<not> userTurn (after quick_ctl two_stops)"
  by code_simp

end
