(* ===== verification/Turn_Processor.thy ===== *)
theory Turn_Processor
  imports Turn_Properties
begin

text \<open>
  What surrounds the turn controller: the idle watchdog (\<^verbatim>\<open>src/processor/turns/idle.go\<close>), the mute
  strategies (\<open>mute.go\<close>) and the processor that drives both controllers (\<open>processor.go\<close>).

  The processor's hooks only push frames, raise events and feed the idle controller, none of which
  reaches the turn controller, so the calls the turn controller has logged are carried out after its
  step, in their order.
\<close>

section \<open>The idle controller\<close>

record idle_ctl =
  hasCallback :: bool
  idle_timeout :: duration
  waitingForUser :: bool
  userTurnInProgress :: bool
  functionCalls :: int
  idle_timer :: "duration option"

definition NewUserIdleController :: "duration \<Rightarrow> bool \<Rightarrow> idle_ctl" where
  "NewUserIdleController timeout cb =
    \<lparr>hasCallback = cb, idle_timeout = timeout, waitingForUser = False, userTurnInProgress = False,
     functionCalls = 0, idle_timer = None\<rparr>"

definition cancelTimer :: "idle_ctl \<Rightarrow> idle_ctl" where
  "cancelTimer c = c\<lparr>idle_timer := None\<rparr>"

definition startTimer :: "duration \<Rightarrow> idle_ctl \<Rightarrow> idle_ctl" where
  "startTimer now c =
    (if idle_timeout c \<le> 0 \<or> \<not> hasCallback c then c
     else (cancelTimer c)\<lparr>idle_timer := Some (now + idle_timeout c)\<rparr>)"

fun idle_Process :: "duration \<Rightarrow> frame_body \<Rightarrow> idle_ctl \<Rightarrow> idle_ctl" where
  "idle_Process now (Trn (UserIdleTimeoutUpdateFrame t)) c =
    (let c = c\<lparr>idle_timeout := t\<rparr> in
     if t \<le> 0 then cancelTimer c else if waitingForUser c then startTimer now c else c)"
| "idle_Process now (Sys BotStoppedSpeakingFrame) c =
    (if \<not> userTurnInProgress c \<and> functionCalls c = 0
     then startTimer now (c\<lparr>waitingForUser := True\<rparr>) else c)"
| "idle_Process now (Sys BotStartedSpeakingFrame) c = cancelTimer (c\<lparr>waitingForUser := False\<rparr>)"
| "idle_Process now (Sys UserStartedSpeakingFrame) c =
    cancelTimer (c\<lparr>waitingForUser := False, userTurnInProgress := True\<rparr>)"
| "idle_Process now (Sys UserStoppedSpeakingFrame) c = c\<lparr>userTurnInProgress := False\<rparr>"
| "idle_Process now (Fun (FunctionCallsStartedFrame calls)) c =
    cancelTimer (c\<lparr>waitingForUser := False, functionCalls := functionCalls c + int (length calls)\<rparr>)"
| "idle_Process now (Fun (FunctionCallResultFrame i n r l p)) c =
    (if 0 < functionCalls c then c\<lparr>functionCalls := functionCalls c - 1\<rparr> else c)"
| "idle_Process now (Fun (FunctionCallCancelFrame i n r)) c =
    (if 0 < functionCalls c then c\<lparr>functionCalls := functionCalls c - 1\<rparr> else c)"
| "idle_Process now b c = c"

text \<open>The timer's callback: it forgets the timer and calls the configured callback off the lock.\<close>

definition idle_fires :: "duration \<Rightarrow> idle_ctl \<Rightarrow> idle_ctl option" where
  "idle_fires now c =
    (case idle_timer c of
       None \<Rightarrow> None
     | Some d \<Rightarrow> if d \<le> now then Some (c\<lparr>idle_timer := None\<rparr>) else None)"

text \<open>A pending timer means the bot waits for a user who is neither speaking nor waiting for a tool.\<close>

definition idle_ok :: "idle_ctl \<Rightarrow> bool" where
  "idle_ok c \<longleftrightarrow> 0 \<le> functionCalls c \<and>
     (waitingForUser c \<longrightarrow> \<not> userTurnInProgress c \<and> functionCalls c = 0) \<and>
     (idle_timer c \<noteq> None \<longrightarrow> waitingForUser c \<and> 0 < idle_timeout c \<and> hasCallback c)"

lemma idle_ok_new [simp]: "idle_ok (NewUserIdleController t cb)"
  by (simp add: idle_ok_def NewUserIdleController_def)

lemma idle_ok_Process: "idle_ok c \<Longrightarrow> idle_ok (idle_Process now b c)"
  by (induction now b c rule: idle_Process.induct)
    (auto simp: idle_ok_def cancelTimer_def startTimer_def Let_def)

lemma idle_ok_fires: "idle_ok c \<Longrightarrow> idle_fires now c = Some c' \<Longrightarrow> idle_ok c'"
  by (auto simp: idle_ok_def idle_fires_def split: option.splits if_splits)

section \<open>Mute strategies\<close>

datatype mute_strategy =
    AlwaysUserMute bool
  | FirstSpeechUserMute bool bool
  | MuteUntilFirstBotComplete bool bool
  | FunctionCallUserMute "string list"

text \<open>\<open>ShouldMute\<close>. The set of running calls is a list without duplicates, so that it can be evaluated.\<close>

fun ShouldMute :: "frame_body \<Rightarrow> mute_strategy \<Rightarrow> mute_strategy \<times> bool" where
  "ShouldMute b (AlwaysUserMute bot_speaking) =
    (let bs = (case b of Sys BotStartedSpeakingFrame \<Rightarrow> True | Sys BotStoppedSpeakingFrame \<Rightarrow> False
               | _ \<Rightarrow> bot_speaking)
     in (AlwaysUserMute bs, bs))"
| "ShouldMute b (FirstSpeechUserMute bot_speaking firstHandled) =
    (let (bs, fh) = (case b of Sys BotStartedSpeakingFrame \<Rightarrow> (True, firstHandled)
               | Sys BotStoppedSpeakingFrame \<Rightarrow> (False, True)
               | _ \<Rightarrow> (bot_speaking, firstHandled))
     in (FirstSpeechUserMute bs fh, bs \<and> \<not> fh))"
| "ShouldMute b (MuteUntilFirstBotComplete botStarted firstHandled) =
    (let (bs, fh) = (case b of Sys BotStartedSpeakingFrame \<Rightarrow> (True, firstHandled)
               | Sys BotStoppedSpeakingFrame \<Rightarrow> (botStarted, True)
               | Sys (ErrorFrame m fatal src err cat) \<Rightarrow> (botStarted, firstHandled \<or> \<not> botStarted)
               | _ \<Rightarrow> (botStarted, firstHandled))
     in (MuteUntilFirstBotComplete bs fh, \<not> fh))"
| "ShouldMute b (FunctionCallUserMute active) =
    (let a = (case b of
                Fun (FunctionCallsStartedFrame calls) \<Rightarrow> fold (\<lambda>x. List.insert (callID x)) calls active
              | Fun (FunctionCallResultFrame i n r l p) \<Rightarrow> removeAll i active
              | Fun (FunctionCallCancelFrame i n r) \<Rightarrow> removeAll i active
              | _ \<Rightarrow> active)
     in (FunctionCallUserMute a, a \<noteq> []))"

fun mute_run :: "frame_body list \<Rightarrow> mute_strategy \<times> bool \<Rightarrow> mute_strategy \<times> bool" where
  "mute_run [] s = s"
| "mute_run (b # bs) s = mute_run bs (ShouldMute b (fst s))"

text \<open>Whether the last thing heard of a call is that it started.\<close>

fun running :: "string \<Rightarrow> frame_body list \<Rightarrow> bool \<Rightarrow> bool" where
  "running i [] r = r"
| "running i (Fun (FunctionCallsStartedFrame calls) # bs) r = running i bs (r \<or> i \<in> callID ` set calls)"
| "running i (Fun (FunctionCallResultFrame k n x l p) # bs) r = running i bs (r \<and> i \<noteq> k)"
| "running i (Fun (FunctionCallCancelFrame k n x) # bs) r = running i bs (r \<and> i \<noteq> k)"
| "running i (b # bs) r = running i bs r"

lemma set_fold_insert: "set (fold (\<lambda>x. List.insert (g x)) xs ys) = set ys \<union> g ` set xs"
  by (induction xs arbitrary: ys) auto

text \<open>A call's tracking only depends on whether it is in the set now.\<close>

lemma mute_run_calls:
  "\<exists>a. mute_run bs (FunctionCallUserMute active, active \<noteq> []) = (FunctionCallUserMute a, a \<noteq> []) \<and>
     (\<forall>i. i \<in> set a \<longleftrightarrow> running i bs (i \<in> set active))"
proof (induction bs arbitrary: active)
  case (Cons b bs)
  obtain a where a: "ShouldMute b (FunctionCallUserMute active) = (FunctionCallUserMute a, a \<noteq> [])"
    and m: "\<And>i. running i (b # bs) (i \<in> set active) = running i bs (i \<in> set a)"
  proof (cases "\<exists>x. b = Fun x")
    case True
    then obtain x where "b = Fun x" by blast
    then show ?thesis by (cases x) (auto simp: set_fold_insert Let_def intro!: that)
  next
    case False
    then show ?thesis by (cases b) (auto intro: that)
  qed
  with Cons.IH [of a] show ?case by simp
qed auto

section \<open>The processor\<close>

datatype proc_out =
    PushedOn frame Direction
  | PushedNew frame_body Direction
  | PushedMetrics bool opaque "duration option"
  | BroadcastNew frame_body
  | Interrupted
  | Raised turn_event
  | RaisedIdle

record 'a turn_proc =
  turn :: "'a turn_ctl"
  idle :: idle_ctl
  emitted :: "proc_out list"

definition NewUserTurnProcessor ::
  "'a analyzer \<Rightarrow> 'a UserTurnStrategies \<Rightarrow> duration \<Rightarrow> duration \<Rightarrow> int \<Rightarrow> duration \<Rightarrow> 'a turn_proc" where
  "NewUserTurnProcessor A strategies timeout idleTimeout sampleRate now =
    \<lparr>turn = NewUserTurnController A strategies timeout sampleRate now,
     idle = NewUserIdleController idleTimeout True, emitted = []\<rparr>"

definition out :: "proc_out list \<Rightarrow> 'a turn_proc \<Rightarrow> 'a turn_proc" where
  "out os p = p\<lparr>emitted := emitted p @ os\<rparr>"

text \<open>\<open>onTurnStarted\<close>, \<open>onTurnStopped\<close>, \<open>onInferenceTriggered\<close>, \<open>onStopTimeout\<close> and the push hooks.\<close>

fun hook :: "turn_event \<Rightarrow> 'a turn_proc \<Rightarrow> 'a turn_proc" where
  "hook (HookStarted i params) p =
    (let p = (if sp_UserSpeakingFrames params then out [BroadcastNew (Sys UserStartedSpeakingFrame)] p else p);
         p = p\<lparr>idle := idle_Process (tnow (turn p)) (Sys UserStartedSpeakingFrame) (idle p)\<rparr>;
         p = (if sp_Interruptions params then out [Interrupted] p else p)
     in out [Raised (HookStarted i params)] p)"
| "hook (HookStopped j params) p =
    (let p = (if tp_UserSpeakingFrames params then out [BroadcastNew (Sys UserStoppedSpeakingFrame)] p else p);
         p = p\<lparr>idle := idle_Process (tnow (turn p)) (Sys UserStoppedSpeakingFrame) (idle p)\<rparr>
     in out [Raised (HookStopped j params)] p)"
| "hook (HookInferenceTriggered j) p = out [Raised (HookInferenceTriggered j)] p"
| "hook HookStopTimeout p = out [Raised HookStopTimeout] p"
| "hook (HookPush b dir) p = out [PushedNew b dir] p"
| "hook (HookTurnMetrics b pr t) p = out [PushedMetrics b pr t] p"
| "hook (HookBroadcast b) p = out [BroadcastNew b] p"
| "hook _ p = p"

text \<open>A step of the turn controller with the hooks it called.\<close>

definition hooked :: "'a turn_ctl \<Rightarrow> 'a turn_proc \<Rightarrow> 'a turn_proc" where
  "hooked c' p = fold hook (drop (length (outs (turn p))) (outs c')) (p\<lparr>turn := c'\<rparr>)"

definition forward :: "frame \<Rightarrow> Direction \<Rightarrow> 'a turn_proc \<Rightarrow> 'a turn_proc" where
  "forward f dir p =
    (case body f of
       Sys ProposedUserStartedSpeakingFrame \<Rightarrow>
         if ResolvesProposedTurnStartFrames (turn p) then p else out [PushedOn f dir] p
     | Ctl ProposedUserStoppedSpeakingFrame \<Rightarrow>
         if ResolvesProposedTurnStopFrames (turn p) then p else out [PushedOn f dir] p
     | Ctl (EndFrame r) \<Rightarrow>
         (out [PushedOn f dir] p)\<lparr>turn := Stop_ctl (turn p), idle := cancelTimer (idle p)\<rparr>
     | Sys (CancelFrame r) \<Rightarrow>
         (out [PushedOn f dir] p)\<lparr>turn := Stop_ctl (turn p), idle := cancelTimer (idle p)\<rparr>
     | _ \<Rightarrow> out [PushedOn f dir] p)"

definition turn_ProcessFrame :: "'a analyzer \<Rightarrow> frame \<Rightarrow> Direction \<Rightarrow> 'a turn_proc \<Rightarrow> 'a turn_proc" where
  "turn_ProcessFrame A f dir p =
    (let p = forward f dir p;
         p = hooked (Process A f (turn p)) p
     in p\<lparr>idle := idle_Process (tnow (turn p)) (body f) (idle p)\<rparr>)"

datatype 'a proc_action = ProcFrame frame Direction | ProcStep "'a turn_action" | IdleFires

fun tproc_step :: "'a analyzer \<Rightarrow> 'a proc_action \<Rightarrow> 'a turn_proc \<Rightarrow> 'a turn_proc option" where
  "tproc_step A (ProcFrame f dir) p = Some (turn_ProcessFrame A f dir p)"
| "tproc_step A (ProcStep a) p =
    (case a of
       FrameIn f \<Rightarrow> None
     | _ \<Rightarrow> (case turn_step A a (turn p) of None \<Rightarrow> None | Some c \<Rightarrow> Some (hooked c p)))"
| "tproc_step A IdleFires p =
    (case idle_fires (tnow (turn p)) (idle p) of
       None \<Rightarrow> None | Some i \<Rightarrow> Some (out [RaisedIdle] (p\<lparr>idle := i\<rparr>)))"

fun tproc_run :: "'a analyzer \<Rightarrow> 'a proc_action list \<Rightarrow> 'a turn_proc \<Rightarrow> 'a turn_proc option" where
  "tproc_run A [] p = Some p"
| "tproc_run A (a # as) p = (case tproc_step A a p of None \<Rightarrow> None | Some p' \<Rightarrow> tproc_run A as p')"

section \<open>The idle controller follows the turns\<close>

interpretation grow: turn_run_invariant A "\<lambda>c. \<exists>es. outs c = pre @ es" "\<lambda>_. True" for A :: "'a analyzer" and pre
  by unfold_locales (auto simp: controller_defs onWatchdog_def Stop_ctl_def)

lemma step_grows: "turn_step A a c = Some c' \<Longrightarrow> \<exists>es. outs c' = outs c @ es"
  using grow.step [where c = c and a = a and A = A and c' = c' and pre = "outs c"] by simp

lemma hook_fields:
  "turn (hook e p) = turn p \<and> (idle_ok (idle p) \<longrightarrow> idle_ok (idle (hook e p))) \<and>
   userTurnInProgress (idle (hook e p)) = open_after (userTurnInProgress (idle p)) [e]"
  by (cases e)
    (auto simp: out_def Let_def cancelTimer_def idle_ok_def)

lemma hooks_fields:
  "turn (fold hook es p) = turn p \<and> (idle_ok (idle p) \<longrightarrow> idle_ok (idle (fold hook es p))) \<and>
   userTurnInProgress (idle (fold hook es p)) = open_after (userTurnInProgress (idle p)) es"
proof (induction es arbitrary: p)
  case (Cons e es)
  from Cons.IH [of "hook e p"] hook_fields [of e p] open_after_append [of _ "[e]" es]
  show ?case by simp
qed simp

text \<open>The processor's two controllers agree on whether a turn is open.\<close>

definition agrees :: "'a turn_proc \<Rightarrow> bool" where
  "agrees p \<longleftrightarrow> idle_ok (idle p) \<and> log_ok (turn p) \<and> userTurnInProgress (idle p) = userTurn (turn p)"

lemma agrees_hooked:
  assumes "agrees p" and "turn_step A a (turn p) = Some c"
  shows "agrees (hooked c p)"
proof -
  from step_grows [OF assms(2)] obtain es where es: "outs c = outs (turn p) @ es" by blast
  from assms have "log_ok c" using alt.step by (auto simp: agrees_def)
  with assms(1) es hooks_fields [of es "p\<lparr>turn := c\<rparr>"] show ?thesis
    by (auto simp: agrees_def hooked_def log_ok_def open_after_append)
qed

text \<open>Frames that would announce a turn to the idle controller from outside.\<close>

fun announces :: "frame_body \<Rightarrow> bool" where
  "announces (Sys UserStartedSpeakingFrame) = True"
| "announces (Sys UserStoppedSpeakingFrame) = True"
| "announces _ = False"

lemma idle_Process_progress:
  "\<not> announces b \<Longrightarrow> userTurnInProgress (idle_Process now b c) = userTurnInProgress c"
  by (induction now b c rule: idle_Process.induct) (auto simp: cancelTimer_def startTimer_def Let_def)

fun unannounced :: "'a proc_action \<Rightarrow> bool" where
  "unannounced (ProcFrame f dir) = (\<not> announces (body f))"
| "unannounced _ = True"

lemma agrees_forward: "agrees p \<Longrightarrow> agrees (forward f dir p)"
  by (auto simp: forward_def agrees_def out_def Stop_ctl_def log_ok_def cancelTimer_def idle_ok_def
      split: frame_body.split system_go.split control_go.split)

lemma agrees_step: "agrees p \<Longrightarrow> unannounced a \<Longrightarrow> tproc_step A a p = Some p' \<Longrightarrow> agrees p'"
proof (induction A a p rule: tproc_step.induct)
  case (1 A f dir p)
  let ?q = "forward f dir p"
  have "agrees (hooked (Process A f (turn ?q)) ?q)"
    by (rule agrees_hooked [OF agrees_forward [OF "1.prems"(1)], of A "FrameIn f"]) simp
  moreover have "\<not> announces (body f)" using "1.prems"(2) by simp
  ultimately show ?case using "1.prems"(3)
    by (auto simp: turn_ProcessFrame_def Let_def agrees_def idle_ok_Process idle_Process_progress)
next
  case (2 A a p)
  then obtain c where "turn_step A a (turn p) = Some c" and "p' = hooked c p"
    by (cases a) (auto split: option.splits)
  with "2.prems"(1) show ?case by (simp add: agrees_hooked)
next
  case (3 A p)
  then show ?case
    by (auto simp: agrees_def out_def idle_fires_def idle_ok_def split: option.splits if_splits)
qed

lemma agrees_run: "agrees p \<Longrightarrow> list_all unannounced as \<Longrightarrow> tproc_run A as p = Some p' \<Longrightarrow> agrees p'"
  by (induction as arbitrary: p) (auto split: option.splits intro: agrees_step)

lemma agrees_new: "agrees (NewUserTurnProcessor A s t it sr now)"
  by (simp add: agrees_def NewUserTurnProcessor_def log_ok_def NewUserIdleController_def idle_ok_def)

section \<open>Properties\<close>

text \<open>
  The idle callback never interrupts a user: in a pipeline where the turn decisions are this
  processor's own, whatever frames arrive and whatever timers expire, the callback fires only when no
  user turn is open, no tool call is running, the bot has finished speaking and nothing has happened
  since, and only when a timeout is configured.
\<close>

lemma idle_never_inside_a_turn:
  assumes "list_all unannounced as"
    and "tproc_run A as (NewUserTurnProcessor A strategies timeout idleTimeout sampleRate now) = Some p"
    and "tproc_step A IdleFires p = Some p'"
  shows "\<not> userTurn (turn p) \<and> functionCalls (idle p) = 0 \<and> waitingForUser (idle p) \<and>
    0 < idle_timeout (idle p) \<and> emitted p' = emitted p @ [RaisedIdle]"
proof -
  from agrees_run [OF agrees_new assms(1,2)] have "agrees p" .
  with assms(3) show ?thesis
    by (auto simp: agrees_def idle_ok_def idle_fires_def out_def split: option.splits if_splits)
qed

definition idle_run :: "unit proc_action list" where
  "idle_run = [ProcFrame (a_frame (Sys BotStartedSpeakingFrame)) Upstream,
     ProcFrame (a_frame (Sys BotStoppedSpeakingFrame)) Upstream, ProcStep (Elapse 10)]"

definition idle_proc :: "unit turn_proc" where
  "idle_proc = NewUserTurnProcessor an_analyzer \<lparr>us_Start = [], us_Stop = []\<rparr> 0 10 16000 0"

lemma idle_never_inside_a_turn_witness:
  "\<not> userTurn (turn (the (tproc_run an_analyzer idle_run idle_proc))) \<and>
   waitingForUser (idle (the (tproc_run an_analyzer idle_run idle_proc)))"
proof -
  let ?p = "the (tproc_run an_analyzer idle_run idle_proc)"
  have ok: "list_all unannounced idle_run"
    by (simp add: idle_run_def a_frame_def NewBaseFrame_def nextID_def Let_def)
  have "tproc_run an_analyzer idle_run idle_proc \<noteq> None" by code_simp
  then have r: "tproc_run an_analyzer idle_run (NewUserTurnProcessor an_analyzer
      \<lparr>us_Start = [], us_Stop = []\<rparr> 0 10 16000 0) = Some ?p" by (auto simp: idle_proc_def)
  have "tproc_step an_analyzer IdleFires ?p \<noteq> None" by code_simp
  then obtain p' where "tproc_step an_analyzer IdleFires ?p = Some p'" by blast
  from idle_never_inside_a_turn [OF ok r this] show ?thesis by simp
qed

text \<open>A frame the strategies do not know leaves the controller alone.\<close>

lemma start_chain_other: "run_chain (start_Process FOther) is c = c"
proof (induction "is")
  case (Cons i "is")
  have "fst (start_Process FOther i c) = c"
    by (simp add: start_Process_def processIdle_def processAwake_def split: start_core.split)
  with Cons show ?case by (cases "start_Process FOther i c") (simp split: ProcessFrameResult.split)
qed simp

lemma stop_chain_other: "run_chain (stop_Process A FOther) is c = c"
proof (induction "is")
  case (Cons j "is")
  have "stop_Process A FOther j c = (c, Continue)"
    by (simp add: stop_Process_def ta_Process_def st_Process_def ex_Process_def completion_Process_def
        split: stop_core.split)
  with Cons show ?case by simp
qed simp

lemma Process_other: "turn_frame_of (body f) = FOther \<Longrightarrow> Process A f c = c"
  by (simp add: Process_def Process_kind_def note_speaking_def start_chain_other stop_chain_other Let_def)

lemma hooked_same: "hooked (turn p) p = p"
  by (simp add: hooked_def)

text \<open>
  The end of a session is forwarded and silences the timers: once an EndFrame or a CancelFrame has
  gone through, it has been pushed on, nothing else has, and neither the turn watchdog nor the idle
  timer is left to report what ending looks like.
\<close>

lemma session_end_stops_timers:
  assumes "body f = Ctl (EndFrame r) \<or> body f = Sys (CancelFrame r)"
  shows "emitted (turn_ProcessFrame A f dir p) = emitted p @ [PushedOn f dir] \<and>
    watchdog (turn (turn_ProcessFrame A f dir p)) = None \<and>
    idle_timer (idle (turn_ProcessFrame A f dir p)) = None \<and>
    \<not> (\<exists>p'. tproc_step A IdleFires (turn_ProcessFrame A f dir p) = Some p')"
proof -
  let ?p = "(out [PushedOn f dir] p)\<lparr>turn := Stop_ctl (turn p), idle := cancelTimer (idle p)\<rparr>"
  have k: "turn_frame_of (body f) = FOther" using assms by auto
  have "forward f dir p = ?p" using assms by (auto simp: forward_def)
  moreover have "hooked (Process A f (turn ?p)) ?p = ?p"
    unfolding Process_other [OF k] by (rule hooked_same)
  ultimately have "turn_ProcessFrame A f dir p = ?p\<lparr>idle := idle_Process (tnow (turn ?p)) (body f) (idle ?p)\<rparr>"
    by (simp add: turn_ProcessFrame_def Let_def)
  also have "\<dots> = ?p" using assms by auto
  finally show ?thesis by (simp add: out_def Stop_ctl_def cancelTimer_def idle_fires_def)
qed

lemma session_end_stops_timers_witness:
  "watchdog (turn (turn_ProcessFrame an_analyzer (a_frame (Ctl (EndFrame []))) Downstream idle_proc)) = None"
proof -
  have "body (a_frame (Ctl (EndFrame []))) = Ctl (EndFrame [])" by code_simp
  with session_end_stops_timers [of "a_frame (Ctl (EndFrame []))" "[]" an_analyzer Downstream idle_proc]
  show ?thesis by simp
qed

text \<open>
  The tool-call mute tracks exactly the running calls: after any frames, the user is muted if and
  only if some call was started whose result or cancellation has not been seen since.
\<close>

lemma function_call_mute_tracks_calls:
  "snd (mute_run bs (FunctionCallUserMute [], False)) \<longleftrightarrow> (\<exists>i. running i bs False)"
proof -
  from mute_run_calls [of bs "[]"] obtain a
    where a: "mute_run bs (FunctionCallUserMute [], False) = (FunctionCallUserMute a, a \<noteq> [])"
      and i: "\<And>i. i \<in> set a \<longleftrightarrow> running i bs False" by auto
  from i have "(\<exists>i. running i bs False) \<longleftrightarrow> a \<noteq> []" by (metis last_in_set empty_iff list.set(1))
  with a show ?thesis by simp
qed

end
