(* ===== verification/Context_Summary.thy ===== *)
theory Context_Summary
  imports Llm_Context
begin

text \<open>
  Compressing a conversation: the selection of the messages to fold into a summary
  (\<^verbatim>\<open>src/utils/context/summarization.go\<close>), its configuration (\<^verbatim>\<open>src/frames/summarization.go\<close>), the generation
  (\<^verbatim>\<open>src/service/llm/summarize.go\<close>, with the provider's inference a parameter) and the \<open>Summarizer\<close> that asks
  for a summary and applies it (\<^verbatim>\<open>src/processor/aggregators/summarizer.go\<close>).

  The identifiers \<open>uuid.NewString\<close> makes are arguments.
\<close>

section \<open>Estimates\<close>

definition EstimateTokens :: "string \<Rightarrow> int" where
  "EstimateTokens t = int (length t) div 4"

definition estimateMessagesTokens :: "Message list \<Rightarrow> int" where
  "estimateMessagesTokens ms =
    sum_list (map (\<lambda>m.
      if IsLLMSpecific m then 0
      else 10 + EstimateTokens (mText m) +
        sum_list (map (\<lambda>tc. EstimateTokens (callName tc @ callArgs tc)) (mToolCalls m)) +
        sum_list (map (\<lambda>_. 10) (mToolResults m))) ms)"

definition EstimateContextTokens :: "LLMContext \<Rightarrow> int" where
  "EstimateContextTokens c = estimateMessagesTokens (messages c)"

section \<open>Unanswered tool calls\<close>

definition isToolResultPending :: "string \<Rightarrow> bool" where
  "isToolResultPending content \<longleftrightarrow>
    content = ToolResultInProgress \<or>
    (case members_of content of
       None \<Rightarrow> False
     | Some ms \<Rightarrow>
         string_field ''type'' [] ms = Some ''async_tool'' \<and> string_field ''status'' [] ms = Some ''running'')"

text \<open>The map from the id of an outstanding call to the index of the message that made it.\<close>

type_synonym outstanding = "(string \<times> nat) list"

definition put_call :: "string \<Rightarrow> nat \<Rightarrow> outstanding \<Rightarrow> outstanding" where
  "put_call i k p = (i, k) # filter (\<lambda>(j, _). j \<noteq> i) p"

definition del_call :: "string \<Rightarrow> outstanding \<Rightarrow> outstanding" where
  "del_call i p = filter (\<lambda>(j, _). j \<noteq> i) p"

definition note_calls :: "nat \<Rightarrow> Message \<Rightarrow> outstanding \<Rightarrow> outstanding" where
  "note_calls k m p =
    (if mRole m = RoleAssistant
     then fold (\<lambda>tc p. if callID tc \<noteq> [] then put_call (callID tc) k p else p) (mToolCalls m) p else p)"

definition note_results :: "Message \<Rightarrow> outstanding \<Rightarrow> outstanding" where
  "note_results m p =
    fold (\<lambda>tr p. if resultID tr = [] \<or> resultID tr \<notin> fst ` set p \<or> isToolResultPending (resultContent tr) then p
                 else del_call (resultID tr) p) (mToolResults m) p"

definition note_final :: "Message \<Rightarrow> outstanding \<Rightarrow> outstanding" where
  "note_final m p =
    (case ParseAsyncToolMessage m of
       Some am \<Rightarrow> if asKind am = AsyncToolFinal then del_call (asToolCallID am) p else p
     | None \<Rightarrow> p)"

text \<open>The loop of \<open>earliestUnresolvedToolCall\<close> over the messages from index \<open>k\<close>.\<close>

fun scan_calls :: "nat \<Rightarrow> Message list \<Rightarrow> outstanding \<Rightarrow> outstanding" where
  "scan_calls k [] p = p"
| "scan_calls k (m # ms) p =
    scan_calls (k + 1) ms
      (if IsLLMSpecific m then p else note_final m (note_results m (note_calls k m p)))"

definition earliestUnresolvedToolCall :: "Message list \<Rightarrow> nat \<Rightarrow> nat \<Rightarrow> nat option" where
  "earliestUnresolvedToolCall ms start stop =
    (case map snd (scan_calls start (drop start (take stop ms)) []) of
       [] \<Rightarrow> None
     | k # ks \<Rightarrow> Some (fold min ks k))"

section \<open>Selection\<close>

definition system_head :: "Message list \<Rightarrow> bool" where
  "system_head ms \<longleftrightarrow> (case ms of [] \<Rightarrow> False | m # _ \<Rightarrow> \<not> IsLLMSpecific m \<and> mRole m = RoleSystem)"

text \<open>
  \<open>selectMessagesToSummarize\<close>: the messages, and the index of the last of them, \<open>-1\<close> for none. A negative
  number to keep takes the loop past the end of the messages.
\<close>

definition summary_stop :: "Message list \<Rightarrow> nat \<Rightarrow> nat \<Rightarrow> nat" where
  "summary_stop ms start stop =
    (case earliestUnresolvedToolCall ms start stop of
       Some k \<Rightarrow> if k < stop then k else stop | None \<Rightarrow> stop)"

definition selectMessagesToSummarize :: "Message list \<Rightarrow> int \<Rightarrow> (Message list \<times> int) go" where
  "selectMessagesToSummarize ms keep =
    (if int (length ms) \<le> keep then Inr ([], - 1)
     else if keep < 0 then Inl IndexRange
     else let start = (if system_head ms then 1 else 0); stop = length ms - nat keep in
       if stop \<le> start then Inr ([], - 1)
       else let stop = summary_stop ms start stop in
         if stop \<le> start then Inr ([], - 1)
         else Inr (drop start (take stop ms), int stop - 1))"

definition GetMessagesToSummarize :: "LLMContext \<Rightarrow> int \<Rightarrow> (Message list \<times> int) go" where
  "GetMessagesToSummarize c keep = selectMessagesToSummarize (messages c) keep"

definition to_upper :: "char \<Rightarrow> char" where
  "to_upper c = (if in_range CHR ''a'' CHR ''z'' c then char_of (of_char c - 32 :: nat) else c)"

definition summary_parts :: "Message \<Rightarrow> string list" where
  "summary_parts m =
    (if IsLLMSpecific m then []
     else (if mText m \<noteq> [] then [map to_upper (mRole m) @ '': '' @ mText m] else []) @
       map (\<lambda>tc. ''TOOL_CALL: '' @ (if callName tc = [] then ''unknown'' else callName tc) @ ''('' @ callArgs tc @ '')'')
         (mToolCalls m) @
       map (\<lambda>tr. ''TOOL_RESULT['' @ (if resultID tr = [] then ''unknown'' else resultID tr) @ '']: '' @ resultContent tr)
         (mToolResults m))"

definition FormatMessagesForSummary :: "Message list \<Rightarrow> string" where
  "FormatMessagesForSummary ms = Join [CHR 0x0A, CHR 0x0A] (concat (map summary_parts ms))"

section \<open>Configuration\<close>

datatype summary_llm = NoLLM | InferencerLLM opaque | OtherLLM opaque

record SummaryConfig =
  TargetContextTokens :: int
  MinMessagesAfterSummary :: int
  SummarizationPrompt :: string
  SummaryMessageTemplate :: string
  SummaryLLM :: summary_llm
  SummarizationTimeout :: duration

definition SummaryConfig_WithDefaults :: "SummaryConfig \<Rightarrow> SummaryConfig" where
  "SummaryConfig_WithDefaults c =
    c\<lparr>TargetContextTokens := (if TargetContextTokens c = 0 then 6000 else TargetContextTokens c),
      MinMessagesAfterSummary := (if MinMessagesAfterSummary c = 0 then 4 else MinMessagesAfterSummary c),
      SummaryMessageTemplate :=
        (if SummaryMessageTemplate c = [] then ''Conversation summary: {summary}'' else SummaryMessageTemplate c),
      SummarizationTimeout := (if SummarizationTimeout c = 0 then 120000000000 else SummarizationTimeout c)\<rparr>"

datatype summary_error =
    ErrTargetContextTokens | ErrMinMessagesAfterSummary | ErrNoSummarizationThreshold
  | ErrMaxContextTokens | ErrMaxUnsummarizedMessages

definition SummaryConfig_Validate :: "SummaryConfig \<Rightarrow> summary_error option" where
  "SummaryConfig_Validate c =
    (if TargetContextTokens c < 0 then Some ErrTargetContextTokens
     else if MinMessagesAfterSummary c < 0 then Some ErrMinMessagesAfterSummary else None)"

record AutoSummarizationConfig =
  MaxContextTokens :: "int option"
  MaxUnsummarizedMessages :: "int option"
  ac_SummaryConfig :: SummaryConfig

definition NewAutoSummarizationConfig :: AutoSummarizationConfig where
  "NewAutoSummarizationConfig =
    \<lparr>MaxContextTokens = Some 8000, MaxUnsummarizedMessages = Some 20,
     ac_SummaryConfig = \<lparr>TargetContextTokens = 0, MinMessagesAfterSummary = 0, SummarizationPrompt = [],
       SummaryMessageTemplate = [], SummaryLLM = NoLLM, SummarizationTimeout = 0\<rparr>\<rparr>"

text \<open>
  \<open>int(float64(max) * 0.8)\<close> is four fifths of the limit, towards zero: the product is rounded to it exactly
  when the limit is a multiple of five, and lies a fifth or more from the nearest integer when it is not.
\<close>

definition AutoConfig_WithDefaults :: "AutoSummarizationConfig \<Rightarrow> AutoSummarizationConfig" where
  "AutoConfig_WithDefaults a =
    (let sc = SummaryConfig_WithDefaults (ac_SummaryConfig a) in
     a\<lparr>ac_SummaryConfig :=
        (case MaxContextTokens a of
           Some limit \<Rightarrow>
             if limit < TargetContextTokens sc then sc\<lparr>TargetContextTokens := go_div (4 * limit) 5\<rparr> else sc
         | None \<Rightarrow> sc)\<rparr>)"

definition AutoConfig_Validate :: "AutoSummarizationConfig \<Rightarrow> summary_error option" where
  "AutoConfig_Validate a =
    (if MaxContextTokens a = None \<and> MaxUnsummarizedMessages a = None then Some ErrNoSummarizationThreshold
     else if (case MaxContextTokens a of Some l \<Rightarrow> l \<le> 0 | None \<Rightarrow> False) then Some ErrMaxContextTokens
     else if (case MaxUnsummarizedMessages a of Some l \<Rightarrow> l < 1 | None \<Rightarrow> False)
     then Some ErrMaxUnsummarizedMessages
     else SummaryConfig_Validate (ac_SummaryConfig a))"

section \<open>Generation\<close>

record summary_request =
  RequestID :: string
  MinMessagesToKeep :: int
  rq_TargetContextTokens :: int
  rq_Prompt :: string
  rq_Timeout :: duration

text \<open>The provider's inference: the transcript and the options to a reply, or an error.\<close>

type_synonym inference = "string \<Rightarrow> int \<Rightarrow> string \<Rightarrow> string + string"

datatype gen_error = ErrNothingToSummarize | ErrEmptySummary | ErrInference string

definition GenerateSummary ::
  "inference \<Rightarrow> summary_request \<Rightarrow> LLMContext \<Rightarrow> (gen_error + string \<times> int) go" where
  "GenerateSummary run rq c =
    go_bind (GetMessagesToSummarize c (MinMessagesToKeep rq)) (\<lambda>(sel, last_index). Inr
      (if sel = [] then Inl ErrNothingToSummarize
       else case run (''Conversation history:'' @ [CHR 0x0A] @ FormatMessagesForSummary sel)
              (rq_TargetContextTokens rq) (rq_Prompt rq) of
         Inl e \<Rightarrow> Inl (ErrInference e)
       | Inr summary \<Rightarrow>
           if summary = [] then Inl ErrEmptySummary else Inr (TrimSpace summary, last_index)))"

section \<open>The summarizer\<close>

record SummaryApplied =
  OriginalMessageCount :: nat
  NewMessageCount :: nat
  SummarizedMessageCount :: int
  PreservedMessageCount :: nat

datatype summarizer_event =
    RequestSummarization summary_request
  | GenerateDedicated opaque summary_request
  | AppliedSummary SummaryApplied

record Summarizer =
  autoConfig :: AutoSummarizationConfig
  autoTrigger :: bool
  sum_inProgress :: bool
  pendingRequestID :: string

definition NewSummarizer :: "AutoSummarizationConfig \<Rightarrow> bool \<Rightarrow> Summarizer" where
  "NewSummarizer cfg auto =
    \<lparr>autoConfig = AutoConfig_WithDefaults cfg, autoTrigger = auto, sum_inProgress = False, pendingRequestID = []\<rparr>"

definition handleInterruption :: "Summarizer \<Rightarrow> Summarizer" where
  "handleInterruption s = s\<lparr>sum_inProgress := False\<rparr>"

definition clearState :: "Summarizer \<Rightarrow> Summarizer" where
  "clearState s = (if sum_inProgress s then s\<lparr>sum_inProgress := False, pendingRequestID := []\<rparr> else s)"

definition shouldSummarize :: "LLMContext \<Rightarrow> Summarizer \<Rightarrow> bool" where
  "shouldSummarize c s \<longleftrightarrow> autoTrigger s \<and> \<not> sum_inProgress s \<and>
     ((case MaxContextTokens (autoConfig s) of
         Some limit \<Rightarrow> limit \<le> EstimateContextTokens c | None \<Rightarrow> False) \<or>
      (case MaxUnsummarizedMessages (autoConfig s) of
         Some limit \<Rightarrow> limit \<le> int (length (messages c)) - 1 | None \<Rightarrow> False))"

definition SummaryPrompt :: "string \<Rightarrow> SummaryConfig \<Rightarrow> string" where
  "SummaryPrompt dflt c = (if SummarizationPrompt c \<noteq> [] then SummarizationPrompt c else dflt)"

text \<open>\<open>DefaultSummarizationPrompt\<close> is only passed on, so the prompt is an argument here.\<close>

definition requestSummarization ::
  "string \<Rightarrow> string \<Rightarrow> SummaryConfig option \<Rightarrow> Summarizer \<Rightarrow> Summarizer \<times> summarizer_event list" where
  "requestSummarization dflt rid override s =
    (let cfg = (case override of Some ov \<Rightarrow> SummaryConfig_WithDefaults ov
                | None \<Rightarrow> ac_SummaryConfig (autoConfig s));
         rq = \<lparr>RequestID = rid, MinMessagesToKeep = MinMessagesAfterSummary cfg,
               rq_TargetContextTokens = TargetContextTokens cfg, rq_Prompt = SummaryPrompt dflt cfg,
               rq_Timeout = SummarizationTimeout cfg\<rparr>
     in (s\<lparr>sum_inProgress := True, pendingRequestID := rid\<rparr>,
         [case SummaryLLM cfg of InferencerLLM l \<Rightarrow> GenerateDedicated l rq | _ \<Rightarrow> RequestSummarization rq]))"

definition handleResponseStart ::
  "string \<Rightarrow> string \<Rightarrow> LLMContext \<Rightarrow> Summarizer \<Rightarrow> Summarizer \<times> summarizer_event list" where
  "handleResponseStart dflt rid c s =
    (if shouldSummarize c s then requestSummarization dflt rid None s else (s, []))"

definition handleManualRequest ::
  "string \<Rightarrow> string \<Rightarrow> SummaryConfig option \<Rightarrow> Summarizer \<Rightarrow> Summarizer \<times> summarizer_event list" where
  "handleManualRequest dflt rid override s =
    (if sum_inProgress s then (s, []) else requestSummarization dflt rid override s)"

definition validateSummaryContext :: "int \<Rightarrow> LLMContext \<Rightarrow> Summarizer \<Rightarrow> bool" where
  "validateSummaryContext last_index c s \<longleftrightarrow>
    \<not> last_index < 0 \<and> \<not> int (length (messages c)) \<le> last_index \<and>
    MinMessagesAfterSummary (ac_SummaryConfig (autoConfig s)) \<le> int (length (messages c)) - 1 - last_index"

text \<open>The messages \<open>applySummary\<close> writes back, from the ones it read.\<close>

definition rebuilt :: "string \<Rightarrow> string \<Rightarrow> nat \<Rightarrow> Message list \<Rightarrow> Message list" where
  "rebuilt template summary last_index ms =
    (if system_head ms then [hd ms] else []) @
    [text_message RoleUser (ReplaceAll template ''{summary}'' summary)] @
    drop (last_index + 1) ms"

definition applySummary ::
  "string \<Rightarrow> nat \<Rightarrow> Summarizer \<Rightarrow> LLMContext \<Rightarrow> LLMContext \<times> summarizer_event list" where
  "applySummary summary last_index s c =
    (let ms = messages c; kept = (if system_head ms then 1 else 0);
         new = rebuilt (SummaryMessageTemplate (ac_SummaryConfig (autoConfig s))) summary last_index ms
     in (SetMessages new c,
         [AppliedSummary \<lparr>OriginalMessageCount = length ms, NewMessageCount = length new,
            SummarizedMessageCount = int last_index + 1 - int kept,
            PreservedMessageCount = length (drop (last_index + 1) ms) + kept\<rparr>]))"

definition handleSummaryResult ::
  "string \<Rightarrow> string \<Rightarrow> int \<Rightarrow> string \<Rightarrow> Summarizer \<times> LLMContext \<Rightarrow>
   (Summarizer \<times> LLMContext) \<times> summarizer_event list" where
  "handleSummaryResult rid summary last_index err sc =
    (case sc of (s, c) \<Rightarrow>
       if rid \<noteq> pendingRequestID s then ((s, c), [])
       else let s = clearState s in
         if err \<noteq> [] then ((s, c), [])
         else if \<not> validateSummaryContext last_index c s then ((s, c), [])
         else case applySummary summary (nat last_index) s c of (c', es) \<Rightarrow> ((s, c'), es))"

section \<open>Calls stay with their results\<close>

text \<open>
  A conversation a provider accepts: messages that neither call nor answer, and messages calling tools
  directly followed by the message answering those calls.
\<close>

fun paired :: "Message list \<Rightarrow> bool" where
  "paired [] = True"
| "paired [m] = (mToolCalls m = [] \<and> mToolResults m = [])"
| "paired (m # n # ms) =
    (mToolResults m = [] \<and>
     (if mToolCalls m = [] then paired (n # ms)
      else mRole m = RoleAssistant \<and> mLLM m = [] \<and> list_all (\<lambda>tc. callID tc \<noteq> []) (mToolCalls m) \<and>
        mToolCalls n = [] \<and> map resultID (mToolResults n) = map callID (mToolCalls m) \<and> paired ms))"

lemma paired_plain: "mToolCalls m = [] \<Longrightarrow> paired (m # ms) \<longleftrightarrow> mToolResults m = [] \<and> paired ms"
  by (cases ms) auto

lemma paired_append: "paired a \<Longrightarrow> paired b \<Longrightarrow> paired (a @ b)"
proof (induction a rule: paired.induct)
  case (3 m n ms)
  then show ?case by (auto split: if_splits)
qed (auto simp: paired_plain)

text \<open>A conversation can be cut anywhere but between a call and its results.\<close>

lemma paired_cut:
  "paired (a @ b) \<Longrightarrow> a = [] \<or> mToolCalls (last a) = [] \<Longrightarrow> paired a \<and> paired b"
proof (induction a rule: paired.induct)
  case (2 m)
  then show ?case by (simp add: paired_plain)
next
  case (3 m n ms)
  show ?case
  proof (cases "mToolCalls m = []")
    case True
    with 3(1) [OF True] 3(3,4) show ?thesis by simp
  next
    case False
    with 3(3) have "paired (ms @ b)" by simp
    moreover have "ms = [] \<or> mToolCalls (last ms) = []" using 3(4) by (cases ms) auto
    ultimately have "paired ms \<and> paired b" by (rule 3(2) [OF False])
    with False 3(3) show ?thesis by simp
  qed
qed simp

lemma paired_calls_follow:
  "paired (a @ m # b) \<Longrightarrow> mToolCalls m \<noteq> [] \<Longrightarrow> a = [] \<or> mToolCalls (last a) = []"
proof (induction a rule: paired.induct)
  case (3 k n ms)
  show ?case
  proof (cases "mToolCalls k = []")
    case True
    with 3(1) [OF True] 3(3,4) show ?thesis by simp
  next
    case False
    with 3(3) have "paired (ms @ m # b)" and n: "mToolCalls n = []" by simp_all
    from 3(2) [OF False this(1) 3(4)] n show ?thesis by auto
  qed
qed (auto split: if_splits)

lemma paired_call_shape:
  "paired (a @ m # b) \<Longrightarrow> mToolCalls m \<noteq> [] \<Longrightarrow>
   mToolResults m = [] \<and> mRole m = RoleAssistant \<and> mLLM m = [] \<and> (\<forall>tc\<in>set (mToolCalls m). callID tc \<noteq> [])"
  using paired_cut [of a "m # b"] paired_calls_follow [of a m b]
  by (cases b) (auto simp: list_all_iff)

lemma paired_last: "paired ms \<Longrightarrow> ms \<noteq> [] \<Longrightarrow> mToolCalls (last ms) = []"
proof (induction ms rule: paired.induct)
  case (3 m n ms)
  then show ?case by (cases "mToolCalls m = []"; cases "ms = []") simp_all
qed simp_all

lemma paired_shape: "map shape ms = map shape ns \<Longrightarrow> paired ms = paired ns"
proof (induction ms arbitrary: ns rule: paired.induct)
  case (2 m)
  then show ?case by (auto simp: shape_def)
next
  case (3 m n ms)
  then obtain m' n' ns' where ns: "ns = m' # n' # ns'" by (auto simp: Cons_eq_map_conv)
  with 3 have s: "shape m = shape m'" "shape n = shape n'" "map shape ms = map shape ns'" by auto
  then have "mToolCalls m = mToolCalls m'" "(mToolResults m = []) = (mToolResults m' = [])"
    "mToolCalls n = mToolCalls n'" "map resultID (mToolResults n) = map resultID (mToolResults n')"
    "mRole m = mRole m'" "mLLM m = mLLM m'" by (auto simp: shape_def dest: arg_cong [where f = length])
  with 3(1) [of "n' # ns'"] 3(2) [of ns'] ns s show ?case by simp
qed simp

section \<open>Where a conversation is cut\<close>

lemma put_call_ids [simp]: "snd ` set (put_call i k p) \<subseteq> insert k (snd ` set p)"
  by (auto simp: put_call_def)

lemma in_put_call: "(i, k) \<in> set (put_call i k p)" by (simp add: put_call_def)

lemma note_calls_ids: "snd ` set (note_calls k m p) \<subseteq> (if mToolCalls m = [] then {} else {k}) \<union> snd ` set p"
proof -
  have "snd ` set (fold (\<lambda>tc p. if callID tc \<noteq> [] then put_call (callID tc) k p else p) cs p) \<subseteq>
      (if cs = [] then {} else {k}) \<union> snd ` set p" for cs
  proof (induction cs arbitrary: p)
    case (Cons c cs)
    let ?p = "if callID c \<noteq> [] then put_call (callID c) k p else p"
    have "snd ` set ?p \<subseteq> {k} \<union> snd ` set p" using put_call_ids [of "callID c" k p] by auto
    moreover have "(if cs = [] then {} else {k}) \<subseteq> {k}" by simp
    ultimately have "(if cs = [] then {} else {k}) \<union> snd ` set ?p \<subseteq> {k} \<union> snd ` set p" by blast
    with Cons.IH [of ?p] have "snd ` set (fold (\<lambda>tc p. if callID tc \<noteq> [] then put_call (callID tc) k p else p) cs ?p) \<subseteq>
        {k} \<union> snd ` set p" by (rule subset_trans)
    then show ?case by simp
  qed simp
  from this [of "mToolCalls m"] show ?thesis by (cases "mRole m = RoleAssistant") (simp_all add: note_calls_def)
qed

lemma note_calls_last:
  assumes "mRole m = RoleAssistant" and "mToolCalls m \<noteq> []" and "\<forall>tc\<in>set (mToolCalls m). callID tc \<noteq> []"
  shows "k \<in> snd ` set (note_calls k m p)"
proof -
  obtain cs c where c: "mToolCalls m = cs @ [c]" using assms(2) rev_exhaust by blast
  with assms have "(callID c, k) \<in> set (note_calls k m p)"
    by (simp add: note_calls_def in_put_call)
  then show ?thesis by force
qed

lemma note_results_ids: "set (note_results m p) \<subseteq> set p"
proof -
  have "set (fold (\<lambda>tr p. if resultID tr = [] \<or> resultID tr \<notin> fst ` set p \<or> isToolResultPending (resultContent tr)
      then p else del_call (resultID tr) p) rs p) \<subseteq> set p" for rs
  proof (induction rs arbitrary: p)
    case (Cons r rs)
    have "set (del_call (resultID r) p) \<subseteq> set p" by (auto simp: del_call_def)
    with Cons.IH [of p] Cons.IH [of "del_call (resultID r) p"] show ?case by auto
  qed simp
  then show ?thesis by (simp add: note_results_def)
qed

lemma note_final_ids: "set (note_final m p) \<subseteq> set p"
  by (auto simp: note_final_def del_call_def split: option.splits)

lemma scan_calls_ids:
  "j \<in> snd ` set (scan_calls k ms p) \<Longrightarrow>
   j \<in> snd ` set p \<or> k \<le> j \<and> j < k + length ms \<and> mToolCalls (ms ! (j - k)) \<noteq> []"
proof (induction k ms p rule: scan_calls.induct)
  case (2 k m ms p)
  let ?q = "if IsLLMSpecific m then p else note_final m (note_results m (note_calls k m p))"
  from "2.prems" have "j \<in> snd ` set (scan_calls (k + 1) ms ?q)" by simp
  from "2.IH" [OF this] consider "j \<in> snd ` set ?q"
    | "k + 1 \<le> j" "j < k + 1 + length ms" "mToolCalls (ms ! (j - (k + 1))) \<noteq> []" by blast
  then show ?case
  proof cases
    case 1
    then have "j \<in> snd ` set p \<or> j = k \<and> mToolCalls m \<noteq> []"
    proof (cases "IsLLMSpecific m")
      case False
      have "set (note_final m (note_results m (note_calls k m p))) \<subseteq> set (note_calls k m p)"
        using note_results_ids note_final_ids by blast
      then have "snd ` set ?q \<subseteq> snd ` set (note_calls k m p)" using False by auto
      with 1 note_calls_ids [of k m p] have "j \<in> (if mToolCalls m = [] then {} else {k}) \<union> snd ` set p"
        by blast
      then show ?thesis by (auto split: if_splits)
    qed (use 1 in simp)
    then show ?thesis by auto
  next
    case 2
    then have "j - k = Suc (j - (k + 1))" by simp
    then have "(m # ms) ! (j - k) = ms ! (j - (k + 1))" by simp
    with 2 show ?thesis by simp
  qed
qed simp

lemma scan_calls_append:
  "scan_calls k (a @ b) p = scan_calls (k + length a) b (scan_calls k a p)"
  by (induction a arbitrary: k p) (auto simp: algebra_simps)

lemma fold_min_in: "fold min ks k \<in> set (k # (ks :: nat list))"
  by (induction ks arbitrary: k) (auto simp: min_def split: if_splits)

text \<open>The message a cut is moved to makes a call.\<close>

lemma earliest_calls:
  assumes "earliestUnresolvedToolCall ms start stop = Some k" and "stop \<le> length ms"
  shows "start \<le> k \<and> k < stop \<and> mToolCalls (ms ! k) \<noteq> []"
proof -
  from assms(1) obtain x xs where "map snd (scan_calls start (drop start (take stop ms)) []) = x # xs"
    and "k = fold min xs x" by (auto simp: earliestUnresolvedToolCall_def split: list.splits)
  with fold_min_in [of xs x] have "k \<in> snd ` set (scan_calls start (drop start (take stop ms)) [])"
    by (metis list.set_map)
  from scan_calls_ids [OF this] assms(2) show ?thesis by auto
qed

lemma earliest_none:
  "earliestUnresolvedToolCall ms start stop = None \<longleftrightarrow> scan_calls start (drop start (take stop ms)) [] = []"
  by (auto simp: earliestUnresolvedToolCall_def split: list.splits)

text \<open>A conversation whose last message calls a tool has that call outstanding.\<close>

lemma scan_last_call:
  assumes "mRole m = RoleAssistant" and "mLLM m = []" and "mToolCalls m \<noteq> []" and "mToolResults m = []"
    and "\<forall>tc\<in>set (mToolCalls m). callID tc \<noteq> []"
  shows "scan_calls k (ms @ [m]) p \<noteq> []"
proof -
  have "ParseAsyncToolMessage m = None"
    using assms(1,4) by (simp add: ParseAsyncToolMessage_def asyncToolContent_def)
  with assms have "scan_calls k (ms @ [m]) p = note_calls (k + length ms) m (scan_calls k ms p)"
    by (simp add: scan_calls_append IsLLMSpecific_def note_final_def note_results_def)
  with note_calls_last [OF assms(1,3,5)] show ?thesis by (metis empty_iff image_empty list.set(1))
qed

lemma select_bounds:
  assumes "selectMessagesToSummarize ms keep = Inr (sel, i)" and "0 \<le> i"
  obtains start stop e where "start = (if system_head ms then 1 else 0)" "0 \<le> keep"
    "stop = length ms - nat keep" "start < e" "e \<le> stop" "int (length ms) > keep" "i = int e - 1"
    "sel = drop start (take e ms)"
    "e = stop \<and> earliestUnresolvedToolCall ms start stop = None \<or>
     earliestUnresolvedToolCall ms start stop = Some e"
proof -
  define start :: nat where "start = (if system_head ms then 1 else 0)"
  define stop where "stop = length ms - nat keep"
  define e where "e = summary_stop ms start stop"
  from assms have k: "\<not> int (length ms) \<le> keep" "\<not> keep < 0"
    by (auto simp: selectMessagesToSummarize_def split: if_split_asm)
  with assms have e: "start < e" "sel = drop start (take e ms)" "i = int e - 1"
    by (auto simp: selectMessagesToSummarize_def Let_def start_def stop_def e_def
        simp del: of_nat_diff split: if_split_asm)
  have "earliestUnresolvedToolCall ms start stop = Some k \<Longrightarrow> k < stop" for k
    using earliest_calls [of ms start stop k] by (simp add: stop_def)
  then have "e \<le> stop" and "e = stop \<and> earliestUnresolvedToolCall ms start stop = None \<or>
     earliestUnresolvedToolCall ms start stop = Some e"
    unfolding e_def summary_stop_def by (auto split: option.split)
  with that [of start stop e] k e start_def stop_def show ?thesis by linarith
qed

lemma select_keeps_pairs:
  assumes "paired ms" and "selectMessagesToSummarize ms keep = Inr (sel, i)" and "0 \<le> i"
  shows "nat i + 1 \<le> length ms" and "paired (take (nat i + 1) ms) \<and> paired (drop (nat i + 1) ms)"
    and "keep \<le> int (length ms) - 1 - i"
proof -
  from select_bounds [OF assms(2,3)] obtain start stop e where b:
    "0 \<le> keep" "stop = length ms - nat keep" "start < e" "e \<le> stop" "int (length ms) > keep" "i = int e - 1"
    "e = stop \<and> earliestUnresolvedToolCall ms start stop = None \<or>
     earliestUnresolvedToolCall ms start stop = Some e" by metis
  from b have i: "nat i + 1 = e" and le: "e \<le> length ms" by auto
  show "nat i + 1 \<le> length ms" using i le by simp
  show "keep \<le> int (length ms) - 1 - i" using b by auto
  have "paired (take e ms) \<and> paired (drop e ms)"
  proof (cases "e = stop \<and> earliestUnresolvedToolCall ms start stop = None")
    case True
    define m where "m = ms ! (e - 1)"
    have t: "take e ms = take (e - 1) ms @ [m]"
      using b(3) le by (cases e) (auto simp: m_def take_Suc_conv_app_nth)
    have "mToolCalls m = []"
    proof (rule ccontr)
      assume c: "mToolCalls m \<noteq> []"
      have "ms = take (e - 1) ms @ m # drop e ms" using t append_take_drop_id [of e ms] by simp
      with assms(1) have "paired (take (e - 1) ms @ m # drop e ms)" by metis
      note sh = paired_call_shape [OF this c]
      from t b(3) le have "drop start (take e ms) = drop start (take (e - 1) ms) @ [m]" by simp
      with scan_last_call [of m start "drop start (take (e - 1) ms)" "[]"] sh c True show False
        by (simp add: earliest_none)
    qed
    then have "mToolCalls (last (take e ms)) = []" using t by simp
    with paired_cut [of "take e ms" "drop e ms"] assms(1) show ?thesis by simp
  next
    case False
    with b earliest_calls [of ms start stop e] have c: "e < length ms" "mToolCalls (ms ! e) \<noteq> []" by auto
    then have "ms = take e ms @ ms ! e # drop (Suc e) ms" by (intro id_take_nth_drop)
    with assms(1) have "paired (take e ms @ ms ! e # drop (Suc e) ms)" by metis
    from paired_calls_follow [OF this c(2)] paired_cut [of "take e ms" "drop e ms"] assms(1) show ?thesis
      by simp
  qed
  with i show "paired (take (nat i + 1) ms) \<and> paired (drop (nat i + 1) ms)" by simp
qed

lemma system_head_plain: "paired ms \<Longrightarrow> system_head ms \<Longrightarrow> paired [hd ms]"
  by (cases ms; cases "tl ms") (auto simp: system_head_def split: if_splits)

lemma rebuilt_paired:
  assumes "paired ms" and "paired (drop (i + 1) ms)"
  shows "paired (rebuilt template summary i ms)"
proof -
  have "paired (text_message RoleUser t # drop (i + 1) ms)" for t
    using assms(2) by (simp add: paired_plain text_message_def an_empty_message_def)
  with system_head_plain [OF assms(1)] paired_append show ?thesis by (fastforce simp: rebuilt_def)
qed

section \<open>Applying a summary\<close>

lemma handled_messages:
  "messages (snd (fst (handleSummaryResult rid summary i err (s, c)))) =
    (if rid = pendingRequestID s \<and> err = [] \<and> validateSummaryContext i c s
     then rebuilt (SummaryMessageTemplate (ac_SummaryConfig (autoConfig s))) summary (nat i) (messages c)
     else messages c)"
proof -
  have "autoConfig (clearState s) = autoConfig s" by (simp add: clearState_def)
  then show ?thesis
    by (simp add: handleSummaryResult_def Let_def validateSummaryContext_def applySummary_def SetMessages_def)
qed


definition sample_call :: "string \<Rightarrow> Message" where
  "sample_call i =
    an_empty_message\<lparr>mRole := RoleAssistant, mToolCalls := [\<lparr>callID = i, callName = ''f'', callArgs = ''{}''\<rparr>]\<rparr>"

definition sample_result :: "string \<Rightarrow> string \<Rightarrow> Message" where
  "sample_result i x =
    an_empty_message\<lparr>mRole := RoleUser, mToolResults := [\<lparr>resultID = i, resultName = ''f'', resultContent = x\<rparr>]\<rparr>"

definition sample_messages :: "Message list" where
  "sample_messages =
    [text_message RoleUser ''hi'', sample_call ''c1'', sample_result ''c1'' ''42'',
     text_message RoleAssistant ''It is 42'', sample_call ''c2'', sample_result ''c2'' ''IN_PROGRESS'']"

definition sample_context :: LLMContext where
  "sample_context = (NewLLMContext [])\<lparr>messages := sample_messages @ [text_message RoleUser ''thanks'']\<rparr>"

definition sample_summarizer :: Summarizer where
  "sample_summarizer = (NewSummarizer NewAutoSummarizationConfig True)\<lparr>pendingRequestID := ''r1''\<rparr>"

lemma sample_selected:
  "selectMessagesToSummarize sample_messages 1 = Inr (take 4 sample_messages, 3)" "paired sample_messages"
  by code_simp+


section \<open>What the selection and the application miss\<close>

text \<open>
  The messages kept are chosen before the cut is moved back to an unanswered call, so an asynchronous call
  whose final result lies behind that call is folded without it: the result is kept, its call is not.
\<close>

definition late_final :: "Message list" where
  "late_final =
    [sample_call ''a'', NewAsyncToolStartedMessage ''a'', sample_call ''b'', sample_result ''b'' ''IN_PROGRESS'',
     NewAsyncToolFinalMessage ''a'' ''done'', text_message RoleUser ''and?'']"

lemma final_result_parted_from_call:
  "selectMessagesToSummarize late_final 1 = Inr (take 2 late_final, 1) \<and>
   map_option (\<lambda>m. (asKind m, asToolCallID m)) (ParseAsyncToolMessage (late_final ! 4)) = Some (AsyncToolFinal, ''a'')"
proof -
  let ?a = "NewAsyncToolStartedMessage ''a''" and ?z = "NewAsyncToolFinalMessage ''a'' ''done''"
  let ?b = "sample_result ''b'' ''IN_PROGRESS''"
  have ascii: "ascii ''a''" "ascii ''done''" by code_simp+
  have a: "map_option asKind (ParseAsyncToolMessage ?a) = Some AsyncToolStarted"
    unfolding NewAsyncToolStartedMessage_def by (simp add: parse_async_message async_ok_def ascii_keys ascii)
  have z: "map_option (\<lambda>m. (asKind m, asToolCallID m)) (ParseAsyncToolMessage ?z) = Some (AsyncToolFinal, ''a'')"
    unfolding NewAsyncToolFinalMessage_def by (simp add: parse_async_message async_ok_def ascii_keys ascii)
  have calls: "scan_calls k (sample_call i # ms) p = scan_calls (k + 1) ms (put_call i k p)" if "i \<noteq> []" for k i ms p
    using that by (simp add: sample_call_def an_empty_message_def IsLLMSpecific_def note_calls_def note_results_def
        note_final_def ParseAsyncToolMessage_def asyncToolContent_def)
  have "isToolResultPending (async_json m)" if "async_ok m" "asStatus m = ''running''" for m
    using that unmarshal_async_json [of m]
    by (auto simp: isToolResultPending_def unmarshal_payload_def async_ok_def ascii_keys split: option.splits)
  then have "note_results ?a p = p" for p
    by (simp add: NewAsyncToolStartedMessage_def async_message_def note_results_def an_empty_message_def
        async_ok_def ascii_keys ascii)
  then have 1: "scan_calls k (?a # ms) p = scan_calls (k + 1) ms p" for k ms p
    using a by (auto simp: note_final_def note_calls_def NewAsyncToolStartedMessage_def async_message_def
        an_empty_message_def IsLLMSpecific_def split: option.splits)
  have "ParseAsyncToolMessage ?b = None" by code_simp
  then have 3: "scan_calls k (?b # ms) p = scan_calls (k + 1) ms p" for k ms p
    by (simp add: note_final_def note_calls_def note_results_def sample_result_def an_empty_message_def
        IsLLMSpecific_def isToolResultPending_def ToolResultInProgress_def)
  have 4: "scan_calls k (?z # ms) p = scan_calls (k + 1) ms (del_call ''a'' p)" for k ms p
    using z by (auto simp: note_final_def note_calls_def note_results_def NewAsyncToolFinalMessage_def
        async_message_def text_message_def an_empty_message_def IsLLMSpecific_def split: option.splits)
  have "scan_calls 0 (take 5 late_final) [] = [(''b'', 2)]"
    by (simp add: late_final_def calls 1 3 4 put_call_def del_call_def del: scan_calls.simps(2))
  then have "earliestUnresolvedToolCall late_final 0 5 = Some 2" by (simp add: earliestUnresolvedToolCall_def)
  moreover have "\<not> system_head late_final" "length late_final = 6" by (simp_all add: late_final_def system_head_def
      sample_call_def an_empty_message_def)
  ultimately show ?thesis using z
    by (simp add: selectMessagesToSummarize_def summary_stop_def) (simp add: late_final_def)
qed

text \<open>
  A request that asks for fewer messages to be kept than the summarizer is configured with is generated and
  then never applied: the conversation is checked against the configured number.
\<close>

lemma narrow_override_refused:
  assumes "selectMessagesToSummarize (messages c) keep = Inr (sel, i)" and "0 \<le> i"
    and "keep < MinMessagesAfterSummary (ac_SummaryConfig (autoConfig s))"
    and "summary_stop (messages c) (if system_head (messages c) then 1 else 0) (length (messages c) - nat keep) =
      length (messages c) - nat keep"
  shows "messages (snd (fst (handleSummaryResult rid summary i err (s, c)))) = messages c"
proof -
  from assms(1,2,4) have "i = int (length (messages c)) - keep - 1"
    by (auto simp: selectMessagesToSummarize_def Let_def split: if_split_asm)
  with assms(3) have "\<not> validateSummaryContext i c s" by (simp add: validateSummaryContext_def)
  then show ?thesis by (simp add: handled_messages)
qed

text \<open>
  \<open>applySummary\<close> reads the messages and writes them back in two steps; what another goroutine adds in
  between is lost.
\<close>

lemma message_lost_during_apply:
  "\<exists>c m. let read = messages c;
             c' = SetMessages (rebuilt ''{summary}'' ''s'' 0 read) (AddMessage m c)
         in m \<in> set (messages (AddMessage m c)) \<and> m \<notin> set (messages c')"
proof -
  let ?c = "(NewLLMContext [])\<lparr>messages := [text_message RoleUser ''a'', text_message RoleAssistant ''b'']\<rparr>"
  have "let read = messages ?c;
             c' = SetMessages (rebuilt ''{summary}'' ''s'' 0 read) (AddMessage (text_message RoleUser ''new'') ?c)
         in text_message RoleUser ''new'' \<in> set (messages (AddMessage (text_message RoleUser ''new'') ?c)) \<and>
            text_message RoleUser ''new'' \<notin> set (messages c')"
    by code_simp
  then show ?thesis by blast
qed

end
