(* ===== verification/Text_Aggregation.thy ===== *)
theory Text_Aggregation
  imports Go_Strings
begin

text \<open>
  Streamed text on its way to a synthesizer, \<^verbatim>\<open>src/utils/text/\<close>: tag scanning (\<open>tags.go\<close>), sentence
  detection (\<open>sentence.go\<close>), the sentence and token aggregator (\<open>aggregator.go\<close>), the one that keeps
  tagged runs whole (\<open>skiptags.go\<close>) and joining (\<open>concatenate.go\<close>). The trained sentence model is a
  parameter: the list of sentences it cuts a text into. Slicing a text past its end panics, as in Go.
\<close>

section \<open>Tags (tags.go)\<close>

record StartEndTags =
  tag_Start :: string
  tag_End :: string

fun scan_tags :: "string \<Rightarrow> StartEndTags list \<Rightarrow> nat \<Rightarrow> (StartEndTags option \<times> nat) go" where
  "scan_tags str [] index = Inr (None, index)"
| "scan_tags str (tag # tags) index =
    go_bind (slice_from str index) (\<lambda>rest.
      let starts = Count rest (tag_Start tag); ends = Count rest (tag_End tag) in
      if starts = 0 \<and> ends = 0 then Inr (None, index)
      else if starts > ends then Inr (Some tag, length str)
      else if starts = ends then Inr (None, length str)
      else scan_tags str tags index)"

definition ParseStartEndTags ::
  "string \<Rightarrow> StartEndTags list \<Rightarrow> StartEndTags option \<Rightarrow> nat \<Rightarrow> (StartEndTags option \<times> nat) go" where
  "ParseStartEndTags str tags current index =
    (case current of
       Some tag \<Rightarrow>
         go_bind (slice_from str index) (\<lambda>rest.
           if Contains rest (tag_End tag) then Inr (None, length str) else Inr (Some tag, index))
     | None \<Rightarrow> scan_tags str tags index)"

text \<open>
  \<open>LongestTrailingPartialMatch\<close>: the inner loop counts down from the longest proper prefix that fits and
  stops at the longest found so far.
\<close>

fun partial_down :: "string \<Rightarrow> string \<Rightarrow> nat \<Rightarrow> nat \<Rightarrow> nat" where
  "partial_down str candidate longest 0 = longest"
| "partial_down str candidate longest (Suc n) =
    (if Suc n \<le> longest then longest
     else if drop (length str - Suc n) str = take (Suc n) candidate then Suc n
     else partial_down str candidate longest n)"

definition LongestTrailingPartialMatch :: "string \<Rightarrow> string list \<Rightarrow> nat" where
  "LongestTrailingPartialMatch str candidates =
    fold (\<lambda>candidate longest.
      partial_down str candidate longest (min (length candidate - 1) (length str))) candidates 0"

section \<open>Sentences (sentence.go)\<close>

definition IsSentenceEnding :: "char \<Rightarrow> bool" where
  "IsSentenceEnding r \<longleftrightarrow> r \<in> {CHR ''.'', CHR ''!'', CHR ''?'', CHR '';''}"

definition latinSentenceEnding :: "char \<Rightarrow> bool" where
  "latinSentenceEnding r \<longleftrightarrow> r \<in> {CHR ''.'', CHR ''!'', CHR ''?'', CHR '';''}"

definition isUnambiguousEnding :: "char \<Rightarrow> bool" where
  "isUnambiguousEnding r \<longleftrightarrow> IsSentenceEnding r \<and> \<not> latinSentenceEnding r"

fun unambiguous_from :: "nat \<Rightarrow> string \<Rightarrow> nat" where
  "unambiguous_from i [] = 0"
| "unambiguous_from i (r # rs) = (if isUnambiguousEnding r then i + 1 else unambiguous_from (i + 1) rs)"

definition MatchEndOfSentence :: "(string \<Rightarrow> string list) \<Rightarrow> string \<Rightarrow> nat" where
  "MatchEndOfSentence tokenize str =
    (let str = TrimRight [CHR '' '', CHR 0x09, CHR 0x0A, CHR 0x0D] str in
     if str = [] then 0
     else case tokenize str of
       [] \<Rightarrow> 0
     | first # found \<Rightarrow>
        if found \<noteq> [] then length first
        else if first = str then
          (if IsSentenceEnding (last str) then length str else unambiguous_from 0 str)
        else 0)"

section \<open>The simple aggregator (aggregator.go)\<close>

datatype AggregationType = AggregationSentence | AggregationToken | AggregationWord | AnyAggregation

record Aggregation =
  agg_Text :: string
  agg_Type :: AggregationType

record aggregator =
  aggregationType :: AggregationType
  buffer :: string
  needsLookahead :: bool

definition NewSimpleAggregator :: "AggregationType \<Rightarrow> aggregator" where
  "NewSimpleAggregator by_type = \<lparr>aggregationType = by_type, buffer = [], needsLookahead = False\<rparr>"

text \<open>The tokenizer is the function \<open>MatchEndOfSentence\<close> of its interface.\<close>

definition checkSentenceWithLookahead ::
  "(string \<Rightarrow> nat) \<Rightarrow> char \<Rightarrow> 'z aggregator_scheme \<Rightarrow> ('z aggregator_scheme \<times> Aggregation list) go" where
  "checkSentenceWithLookahead tok r a =
    (if needsLookahead a then
       (if IsSpace r then Inr (a, [])
        else let a = a\<lparr>needsLookahead := False\<rparr>; e = tok (buffer a) in
          if e = 0 then Inr (a, [])
          else if length (buffer a) < e then Inl SliceBounds
          else Inr (a\<lparr>buffer := drop e (buffer a)\<rparr>,
                    [\<lparr>agg_Text = Trim_spaces (take e (buffer a)), agg_Type = AggregationSentence\<rparr>]))
     else if IsSentenceEnding r then Inr (a\<lparr>needsLookahead := True\<rparr>, [])
     else Inr (a, []))"

fun aggregate_runes ::
  "(string \<Rightarrow> nat) \<Rightarrow> string \<Rightarrow> aggregator \<Rightarrow> (aggregator \<times> Aggregation list) go" where
  "aggregate_runes tok [] a = Inr (a, [])"
| "aggregate_runes tok (r # rs) a =
    go_bind (checkSentenceWithLookahead tok r (a\<lparr>buffer := buffer a @ [r]\<rparr>)) (\<lambda>(a, os).
      go_bind (aggregate_runes tok rs a) (\<lambda>(a, os'). Inr (a, os @ os')))"

definition Aggregate_simple ::
  "(string \<Rightarrow> nat) \<Rightarrow> string \<Rightarrow> aggregator \<Rightarrow> (aggregator \<times> Aggregation list) go" where
  "Aggregate_simple tok str a =
    (if aggregationType a = AggregationToken
     then Inr (a, if str = [] then [] else [\<lparr>agg_Text = str, agg_Type = AggregationToken\<rparr>])
     else aggregate_runes tok str a)"

definition Reset_simple :: "'z aggregator_scheme \<Rightarrow> 'z aggregator_scheme" where
  "Reset_simple a = a\<lparr>buffer := [], needsLookahead := False\<rparr>"

definition Flush_simple :: "'z aggregator_scheme \<Rightarrow> 'z aggregator_scheme \<times> Aggregation option" where
  "Flush_simple a =
    (if aggregationType a = AggregationToken \<or> buffer a = [] then (a, None)
     else (Reset_simple a,
           Some \<lparr>agg_Text = Trim_spaces (buffer a), agg_Type = AggregationSentence\<rparr>))"

section \<open>The tag-keeping aggregator (skiptags.go)\<close>

record skipTags = aggregator +
  sk_tags :: "StartEndTags list"
  currentTag :: "StartEndTags option"
  currentTagIndex :: nat

definition NewSkipTagsAggregator :: "AggregationType \<Rightarrow> StartEndTags list \<Rightarrow> skipTags" where
  "NewSkipTagsAggregator by_type tags =
    \<lparr>aggregationType = by_type, buffer = [], needsLookahead = False, sk_tags = tags, currentTag = None,
     currentTagIndex = 0\<rparr>"

definition parse_rune :: "char \<Rightarrow> skipTags \<Rightarrow> skipTags go" where
  "parse_rune r a =
    (let a = a\<lparr>buffer := buffer a @ [r]\<rparr> in
     go_bind (ParseStartEndTags (buffer a) (sk_tags a) (currentTag a) (currentTagIndex a))
       (\<lambda>(t, i). Inr (a\<lparr>currentTag := t, currentTagIndex := i\<rparr>)))"

fun parse_runes :: "string \<Rightarrow> skipTags \<Rightarrow> skipTags go" where
  "parse_runes [] a = Inr a"
| "parse_runes (r # rs) a = go_bind (parse_rune r a) (parse_runes rs)"

fun skip_runes :: "(string \<Rightarrow> nat) \<Rightarrow> string \<Rightarrow> skipTags \<Rightarrow> (skipTags \<times> Aggregation list) go" where
  "skip_runes tok [] a = Inr (a, [])"
| "skip_runes tok (r # rs) a =
    go_bind (parse_rune r a) (\<lambda>a.
      if currentTag a \<noteq> None then skip_runes tok rs a
      else go_bind (checkSentenceWithLookahead tok r a) (\<lambda>(a, os).
        go_bind (skip_runes tok rs a) (\<lambda>(a, os'). Inr (a, os @ os'))))"

definition Aggregate_skip ::
  "(string \<Rightarrow> nat) \<Rightarrow> string \<Rightarrow> skipTags \<Rightarrow> (skipTags \<times> Aggregation list) go" where
  "Aggregate_skip tok str a =
    (if aggregationType a = AggregationToken then
       go_bind (parse_runes str a) (\<lambda>a.
         if currentTag a \<noteq> None \<or> buffer a = [] then Inr (a, [])
         else let held = LongestTrailingPartialMatch (buffer a) (map tag_Start (sk_tags a)) in
           if length (buffer a) \<le> held then Inr (a, [])
           else let size = length (buffer a) - held in
             Inr (a\<lparr>buffer := drop size (buffer a), currentTagIndex := 0\<rparr>,
                  [\<lparr>agg_Text = take size (buffer a), agg_Type = AggregationToken\<rparr>]))
     else skip_runes tok str a)"

definition clearTags :: "skipTags \<Rightarrow> skipTags" where
  "clearTags a = a\<lparr>currentTag := None, currentTagIndex := 0\<rparr>"

definition Reset_skip :: "skipTags \<Rightarrow> skipTags" where
  "Reset_skip a = clearTags (Reset_simple a)"

definition Flush_skip :: "skipTags \<Rightarrow> skipTags \<times> Aggregation option" where
  "Flush_skip a =
    (if aggregationType a = AggregationToken then
       (if buffer a = [] then (a, None)
        else (Reset_skip a, Some \<lparr>agg_Text = buffer a, agg_Type = AggregationToken\<rparr>))
     else (case Flush_simple a of
             (a, None) \<Rightarrow> (a, None)
           | (a, Some g) \<Rightarrow> (clearTags a, Some g)))"

section \<open>Joining (concatenate.go)\<close>

record Part =
  part_Text :: string
  IncludesInterPartSpaces :: bool

definition endsWithSpace :: "string \<Rightarrow> bool" where
  "endsWithSpace s \<longleftrightarrow> s \<noteq> [] \<and> IsSpace (last s)"

definition startsWithSpace :: "string \<Rightarrow> bool" where
  "startsWithSpace s \<longleftrightarrow> s \<noteq> [] \<and> IsSpace (hd s)"

text \<open>One turn of the loop, on the text written so far and the kind of the last part.\<close>

fun join_part :: "Part \<Rightarrow> string \<times> bool \<Rightarrow> string \<times> bool" where
  "join_part p (b, lastIncludes) =
    (if part_Text p = [] then (b, lastIncludes)
     else if b = [] then (part_Text p, IncludesInterPartSpaces p)
     else if IncludesInterPartSpaces p \<and> lastIncludes then (b @ part_Text p, True)
     else if \<not> IncludesInterPartSpaces p \<and> \<not> lastIncludes then (b @ '' '' @ part_Text p, False)
     else (b @ (if \<not> endsWithSpace b \<and> \<not> startsWithSpace (part_Text p) then '' '' else []) @ part_Text p,
           IncludesInterPartSpaces p))"

definition Concatenate :: "Part list \<Rightarrow> string" where
  "Concatenate parts = TrimSpace (fst (fold join_part parts ([], False)))"

section \<open>The longest partial tag at the end of a text\<close>

definition partial_match :: "string \<Rightarrow> string list \<Rightarrow> nat \<Rightarrow> bool" where
  "partial_match str candidates n \<longleftrightarrow> n \<le> length str \<and>
     list_ex (\<lambda>cand. n < length cand \<and> drop (length str - n) str = take n cand) candidates"

lemma partial_down_bounds: "longest \<le> partial_down str cand longest n \<and> partial_down str cand longest n \<le> max longest n"
  by (induction n) auto

lemma partial_down_sound:
  "partial_down str cand longest n = longest \<or>
   (partial_down str cand longest n \<le> n \<and>
    drop (length str - partial_down str cand longest n) str = take (partial_down str cand longest n) cand)"
  by (induction n) auto

lemma partial_down_max:
  "m \<le> n \<Longrightarrow> drop (length str - m) str = take m cand \<Longrightarrow> m \<le> partial_down str cand longest n"
proof (induction n)
  case (Suc n)
  then show ?case
    using partial_down_bounds [of longest str cand n] by (cases "m = Suc n") auto
qed simp

lemma partial_fold:
  assumes "longest = 0 \<or> partial_match str done longest"
    and "\<forall>m. partial_match str done m \<longrightarrow> m \<le> longest"
  shows "let n = fold (\<lambda>cand l. partial_down str cand l (min (length cand - 1) (length str))) cs longest in
    (n = 0 \<or> partial_match str (done @ cs) n) \<and> (\<forall>m. partial_match str (done @ cs) m \<longrightarrow> m \<le> n)"
  using assms
proof (induction cs arbitrary: longest "done")
  case (Cons cand cs)
  let ?k = "min (length cand - 1) (length str)"
  let ?l = "partial_down str cand longest ?k"
  have a: "?l = 0 \<or> partial_match str (done @ [cand]) ?l"
    using partial_down_sound [of str cand longest ?k] Cons.prems(1)
    by (cases "cand = []") (auto simp: partial_match_def)
  have b: "\<forall>m. partial_match str (done @ [cand]) m \<longrightarrow> m \<le> ?l"
  proof (intro allI impI)
    fix m assume m: "partial_match str (done @ [cand]) m"
    show "m \<le> ?l"
    proof (cases "partial_match str done m")
      case True
      with Cons.prems(2) partial_down_bounds [of longest str cand ?k] show ?thesis by (meson le_trans)
    next
      case False
      with m show ?thesis by (intro partial_down_max) (auto simp: partial_match_def)
    qed
  qed
  from Cons.IH [OF a b] show ?case by simp
qed simp

text \<open>
  What is held back of a stream is exactly the longest end that could still become a tag: the length
  computed by the counting-down search is the greatest one whose suffix of the text is a proper prefix
  of some candidate, and zero when there is none.
\<close>

lemma trailing_match_longest:
  "LongestTrailingPartialMatch str candidates =
     Max (insert 0 (set (filter (partial_match str candidates) [0..<Suc (length str)])))"
proof -
  let ?n = "LongestTrailingPartialMatch str candidates"
  have n: "?n = 0 \<or> partial_match str candidates ?n"
    and m: "\<forall>m. partial_match str candidates m \<longrightarrow> m \<le> ?n"
    using partial_fold [of 0 str "[]" candidates]
    by (auto simp: LongestTrailingPartialMatch_def partial_match_def Let_def)
  have l: "k \<le> length str" if "partial_match str candidates k" for k
    using that by (simp add: partial_match_def)
  have "set (filter (partial_match str candidates) [0..<Suc (length str)]) =
      {k. partial_match str candidates k}"
    using l by (auto simp del: upt_Suc simp: less_Suc_eq_le)
  moreover have "finite {k. partial_match str candidates k}"
    by (rule finite_subset [of _ "{..length str}"]) (auto dest: l)
  ultimately show ?thesis using n m by (auto intro!: Max_eqI [symmetric])
qed

section \<open>Nothing is lost\<close>

text \<open>A stream handed over in chunks.\<close>

fun feed_chunks ::
  "(string \<Rightarrow> 'a \<Rightarrow> ('a \<times> Aggregation list) go) \<Rightarrow> string list \<Rightarrow> 'a \<Rightarrow> ('a \<times> Aggregation list) go" where
  "feed_chunks agg [] a = Inr (a, [])"
| "feed_chunks agg (c # cs) a =
    go_bind (agg c a) (\<lambda>(a, os). go_bind (feed_chunks agg cs a) (\<lambda>(a, os'). Inr (a, os @ os')))"

definition texts :: "Aggregation list \<Rightarrow> string" where
  "texts os = concat (map agg_Text os)"

definition flushed :: "Aggregation option \<Rightarrow> string" where
  "flushed g = (case g of None \<Rightarrow> [] | Some u \<Rightarrow> agg_Text u)"

lemma texts_append [simp]: "texts (os @ os') = texts os @ texts os'"
  by (simp add: texts_def)

lemma texts_simps [simp]: "texts [] = []" "texts [u] = agg_Text u"
  by (simp_all add: texts_def)

subsection \<open>Tokens around tags\<close>

text \<open>The scan never leaves the buffer.\<close>

definition scan_ok :: "skipTags \<Rightarrow> bool" where
  "scan_ok a \<longleftrightarrow> currentTagIndex a \<le> length (buffer a)"

lemma scan_tags_ok:
  "index \<le> length str \<Longrightarrow> \<exists>t i. scan_tags str tags index = Inr (t, i) \<and> i \<le> length str"
  by (induction tags) (auto simp: slice_from_def Let_def)

lemma ParseStartEndTags_ok:
  "index \<le> length str \<Longrightarrow> \<exists>t i. ParseStartEndTags str tags current index = Inr (t, i) \<and> i \<le> length str"
  by (cases current) (auto simp: ParseStartEndTags_def slice_from_def scan_tags_ok)

lemma parse_rune_ok:
  assumes "scan_ok a"
  shows "\<exists>a'. parse_rune r a = Inr a' \<and> scan_ok a' \<and> buffer a' = buffer a @ [r] \<and>
    aggregationType a' = aggregationType a"
proof -
  have "currentTagIndex a \<le> length (buffer a @ [r])" using assms by (simp add: scan_ok_def)
  from ParseStartEndTags_ok [OF this, of "sk_tags a" "currentTag a"] show ?thesis
    by (auto simp: parse_rune_def scan_ok_def Let_def)
qed

lemma parse_runes_ok:
  "scan_ok a \<Longrightarrow> \<exists>a'. parse_runes rs a = Inr a' \<and> scan_ok a' \<and> buffer a' = buffer a @ rs \<and>
     aggregationType a' = aggregationType a"
proof (induction rs arbitrary: a)
  case (Cons r rs)
  from parse_rune_ok [OF Cons.prems, of r] obtain b
    where b: "parse_rune r a = Inr b" "scan_ok b" "buffer b = buffer a @ [r]"
      "aggregationType b = aggregationType a" by blast
  from Cons.IH [OF b(2)] b show ?case by auto
qed simp

lemma Aggregate_skip_token:
  assumes "scan_ok a" and "aggregationType a = AggregationToken"
  shows "\<exists>a' os. Aggregate_skip tok str a = Inr (a', os) \<and> scan_ok a' \<and>
    aggregationType a' = AggregationToken \<and> texts os @ buffer a' = buffer a @ str"
proof -
  from parse_runes_ok [OF assms(1), of str] obtain b
    where b: "parse_runes str a = Inr b" "scan_ok b" "buffer b = buffer a @ str"
      "aggregationType b = AggregationToken" using assms(2) by auto
  have "\<exists>a' os. Aggregate_skip tok str a = Inr (a', os) \<and> scan_ok a' \<and>
      aggregationType a' = AggregationToken \<and> texts os @ buffer a' = buffer b"
    using b(1,2,4) assms(2) by (auto simp: Aggregate_skip_def Let_def scan_ok_def)
  with b(3) show ?thesis by simp
qed

lemma feed_skip_token:
  "scan_ok a \<Longrightarrow> aggregationType a = AggregationToken \<Longrightarrow>
   \<exists>a' os. feed_chunks (Aggregate_skip tok) cs a = Inr (a', os) \<and> aggregationType a' = AggregationToken \<and>
     texts os @ buffer a' = buffer a @ concat cs"
proof (induction cs arbitrary: a)
  case (Cons c cs)
  from Aggregate_skip_token [OF Cons.prems, of tok c] obtain b os
    where b: "Aggregate_skip tok c a = Inr (b, os)" "scan_ok b" "aggregationType b = AggregationToken"
      "texts os @ buffer b = buffer a @ c" by blast
  from Cons.IH [OF b(2,3)] obtain d os'
    where "feed_chunks (Aggregate_skip tok) cs b = Inr (d, os')" "aggregationType d = AggregationToken"
      "texts os' @ buffer d = buffer b @ concat cs" by blast
  with b(1,4) show ?case by (simp) 
qed simp

text \<open>
  Passing tokens through while keeping tagged runs whole loses nothing and never panics: whatever
  the tags and however the stream is cut, every call returns, and the units handed over followed by
  what the flush returns are the stream, character for character.
\<close>

lemma skip_tags_tokens_conserved:
  "\<exists>a os. feed_chunks (Aggregate_skip tok) chunks (NewSkipTagsAggregator AggregationToken tags) = Inr (a, os) \<and>
     texts os @ flushed (snd (Flush_skip a)) = concat chunks"
proof -
  let ?a = "NewSkipTagsAggregator AggregationToken tags"
  have "scan_ok ?a" "aggregationType ?a = AggregationToken" "buffer ?a = []"
    by (simp_all add: scan_ok_def NewSkipTagsAggregator_def)
  with feed_skip_token [of ?a tok chunks] obtain a os
    where a: "feed_chunks (Aggregate_skip tok) chunks ?a = Inr (a, os)"
      "aggregationType a = AggregationToken" "texts os @ buffer a = concat chunks" by auto
  then have "texts os @ flushed (snd (Flush_skip a)) = concat chunks"
    by (auto simp: Flush_skip_def flushed_def)
  with a(1) show ?thesis by blast
qed

subsection \<open>Sentences\<close>

text \<open>A text without the blanks that trimming a sentence may remove.\<close>

definition despace :: "string \<Rightarrow> string" where
  "despace s = filter (\<lambda>c. \<not> c = CHR '' '') s"

lemma despace_append [simp]: "despace (s @ t) = despace s @ despace t"
  by (simp add: despace_def)

lemma despace_Nil [simp]: "despace [] = []"
  by (simp add: despace_def)

lemma despace_Trim [simp]: "despace (Trim_spaces s) = despace s"
  unfolding despace_def Trim_spaces_def by (rule filter_trim_by)

lemma despace_take_drop: "despace (take n s) @ despace (drop n s) = despace s"
  by (simp flip: despace_append)

lemma checkSentence_ok:
  assumes "\<forall>s. tok s \<le> length s"
  shows "\<exists>a' os. checkSentenceWithLookahead tok r a = Inr (a', os) \<and>
    aggregationType a' = aggregationType a \<and>
    despace (texts os) @ despace (buffer a') = despace (buffer a)"
  using assms [THEN spec, of "buffer a"]
  by (auto simp: checkSentenceWithLookahead_def Let_def despace_take_drop)

lemma aggregate_runes_ok:
  assumes "\<forall>s. tok s \<le> length s"
  shows "\<exists>a' os. aggregate_runes tok rs a = Inr (a', os) \<and> aggregationType a' = aggregationType a \<and>
    despace (texts os) @ despace (buffer a') = despace (buffer a @ rs)"
proof (induction rs arbitrary: a)
  case Nil
  show ?case by (simp add: despace_def)
next
  case (Cons r rs)
  let ?a = "a\<lparr>buffer := buffer a @ [r]\<rparr>"
  from checkSentence_ok [OF assms, of r ?a] obtain b os
    where b: "checkSentenceWithLookahead tok r ?a = Inr (b, os)" "aggregationType b = aggregationType a"
      "despace (texts os) @ despace (buffer b) = despace (buffer a) @ despace [r]" by auto
  from Cons.IH [of b] obtain d os'
    where d: "aggregate_runes tok rs b = Inr (d, os')" "aggregationType d = aggregationType b"
      "despace (texts os') @ despace (buffer d) = despace (buffer b) @ despace rs" by auto
  from b(3) d(3) have "despace (texts os) @ despace (texts os') @ despace (buffer d) =
      despace (buffer a) @ despace [r] @ despace rs" by (metis append_assoc)
  moreover have "despace (r # rs) = despace [r] @ despace rs" by (simp add: despace_def)
  ultimately show ?case using b(1,2) d(1,2) by simp
qed

lemma go_bind_assoc: "go_bind (go_bind m f) g = go_bind m (\<lambda>x. go_bind (f x) g)"
  by (cases m) simp_all

lemma aggregate_runes_append:
  "aggregate_runes tok (s @ t) a =
    go_bind (aggregate_runes tok s a) (\<lambda>(a, os). go_bind (aggregate_runes tok t a) (\<lambda>(a, os'). Inr (a, os @ os')))"
proof (induction s arbitrary: a)
  case Nil
  show ?case by (cases "aggregate_runes tok t a") auto
next
  case (Cons r s)
  show ?case
    by (simp add: Cons.IH go_bind_assoc case_prod_unfold)
qed

lemma feed_runes: "feed_chunks (aggregate_runes tok) cs a = aggregate_runes tok (concat cs) a"
  by (induction cs arbitrary: a) (simp_all add: aggregate_runes_append)

lemma feed_simple:
  assumes "\<forall>s. tok s \<le> length s" and "aggregationType a = AggregationSentence"
  shows "feed_chunks (Aggregate_simple tok) cs a = feed_chunks (aggregate_runes tok) cs a"
  using assms(2)
proof (induction cs arbitrary: a)
  case (Cons c cs)
  from aggregate_runes_ok [OF assms(1), of c a] obtain b os
    where "aggregate_runes tok c a = Inr (b, os)" "aggregationType b = aggregationType a" by blast
  with Cons show ?case by (simp add: Aggregate_simple_def)
qed simp

text \<open>
  Cutting a stream into sentences loses nothing, never panics and does not depend on how the stream
  arrives: for any tokenizer that answers an offset inside the text it was given, every call returns,
  the sentences are the same as if the whole text had come at once, and together with what the flush
  returns they are the stream, up to the blanks around sentences.
\<close>

lemma sentences_conserved:
  assumes "\<forall>s. tok s \<le> length s"
  shows "feed_chunks (Aggregate_simple tok) chunks (NewSimpleAggregator AggregationSentence) =
      Aggregate_simple tok (concat chunks) (NewSimpleAggregator AggregationSentence) \<and>
    (\<exists>a os. feed_chunks (Aggregate_simple tok) chunks (NewSimpleAggregator AggregationSentence) = Inr (a, os) \<and>
      despace (texts os @ flushed (snd (Flush_simple a))) = despace (concat chunks))"
proof -
  let ?a = "NewSimpleAggregator AggregationSentence"
  have t: "aggregationType ?a = AggregationSentence" "buffer ?a = []"
    by (simp_all add: NewSimpleAggregator_def)
  have f: "feed_chunks (Aggregate_simple tok) chunks ?a = aggregate_runes tok (concat chunks) ?a"
    by (simp add: feed_simple [OF assms t(1)] feed_runes)
  moreover have "Aggregate_simple tok (concat chunks) ?a = aggregate_runes tok (concat chunks) ?a"
    using t(1) by (simp add: Aggregate_simple_def)
  moreover obtain a os where a: "aggregate_runes tok (concat chunks) ?a = Inr (a, os)"
      "aggregationType a = AggregationSentence"
      "despace (texts os) @ despace (buffer a) = despace (concat chunks)"
    using aggregate_runes_ok [OF assms, of "concat chunks" ?a] t by auto
  moreover have "despace (flushed (snd (Flush_simple a))) = despace (buffer a)"
    using a(2) by (auto simp: Flush_simple_def flushed_def)
  ultimately show ?thesis by auto
qed

text \<open>The Punkt tokenizer is one, provided the model's first sentence is part of the text.\<close>

lemma unambiguous_from_le: "unambiguous_from i s \<le> i + length s"
  by (induction i s rule: unambiguous_from.induct) auto

lemma TrimRight_le: "length (TrimRight cs s) \<le> length s"
  using length_dropWhile_le [of _ "rev s"] by (simp add: TrimRight_def)

lemma MatchEndOfSentence_le:
  assumes "\<forall>t f fs. tokenize t = f # fs \<longrightarrow> length f \<le> length t"
  shows "MatchEndOfSentence tokenize s \<le> length s"
proof -
  let ?t = "TrimRight [CHR '' '', CHR 0x09, CHR 0x0A, CHR 0x0D] s"
  have "MatchEndOfSentence tokenize s \<le> length ?t"
    using assms [THEN spec, of ?t] unambiguous_from_le [of 0 ?t]
    by (auto simp: MatchEndOfSentence_def Let_def split: list.split)
  then show ?thesis using TrimRight_le by (rule le_trans)
qed

text \<open>A model that ends a sentence at every period.\<close>

fun past_period :: "nat \<Rightarrow> string \<Rightarrow> nat" where
  "past_period i [] = 0"
| "past_period i (c # cs) = (if c = CHR ''.'' then i + 1 else past_period (i + 1) cs)"

lemma past_period_le: "past_period i s \<le> i + length s"
  by (induction i s rule: past_period.induct) auto

lemma sentences_conserved_witness:
  "\<exists>a os. feed_chunks (Aggregate_simple (past_period 0)) [''One. T'', ''wo. '', ''Three''] 
       (NewSimpleAggregator AggregationSentence) = Inr (a, os) \<and>
     despace (texts os @ flushed (snd (Flush_simple a))) = ''One.Two.Three''"
proof -
  have "\<forall>s. past_period 0 s \<le> length s" using past_period_le [of 0] by simp
  note c = conjunct2 [OF sentences_conserved [OF this, of "[''One. T'', ''wo. '', ''Three'']"]]
  have "despace (concat [''One. T'', ''wo. '', ''Three'']) = ''One.Two.Three''" by code_simp
  with c show ?thesis by (simp only:)
qed

text \<open>
  With tags, aggregating by sentence can panic: the scan offset is not moved back when a sentence is
  cut off the front of the buffer, so a later scan starts past its end.
\<close>

lemma skip_tags_sentence_panics:
  "Aggregate_skip (past_period 0) ''<spell>a</spell>. Next''
     (NewSkipTagsAggregator AggregationSentence [\<lparr>tag_Start = ''<spell>'', tag_End = ''</spell>''\<rparr>]) =
   Inl SliceBounds"
  by code_simp

text \<open>A pair the text does not hold hides the pairs listed after it.\<close>

lemma absent_pair_hides_the_next:
  "ParseStartEndTags ''<b>x'' [\<lparr>tag_Start = ''<a>'', tag_End = ''</a>''\<rparr>, \<lparr>tag_Start = ''<b>'', tag_End = ''</b>''\<rparr>]
     None 0 = Inr (None, 0)"
  by code_simp

section \<open>Joining\<close>

fun join_words :: "string list \<Rightarrow> string" where
  "join_words [] = []"
| "join_words [w] = w"
| "join_words (w # v # ws) = w @ '' '' @ join_words (v # ws)"

definition solid :: "string \<Rightarrow> string" where
  "solid s = filter (\<lambda>c. \<not> IsSpace c) s"

lemma solid_append [simp]: "solid (s @ t) = solid s @ solid t"
  by (simp add: solid_def)

lemma solid_blank [simp]: "solid [] = []" "solid '' '' = []"
  by (simp_all add: solid_def IsSpace_def re_space_def)

lemma solid_Cons_blank [simp]: "solid (CHR '' '' # s) = solid s"
  by (simp add: solid_def IsSpace_def re_space_def)

lemma solid_TrimSpace: "solid (TrimSpace s) = solid s"
  unfolding solid_def TrimSpace_def by (rule filter_trim_by)

lemma solid_join_part: "solid (fst (join_part p s)) = solid (fst s) @ solid (part_Text p)"
  by (cases s) simp

lemma solid_join: "solid (fst (fold join_part ps s)) = solid (fst s) @ solid (concat (map part_Text ps))"
  by (induction ps arbitrary: s) (simp_all add: solid_join_part)

lemma join_words_snoc: "ws \<noteq> [] \<Longrightarrow> join_words (ws @ [w]) = join_words ws @ '' '' @ w"
  by (induction ws rule: join_words.induct) auto

definition spaced :: "bool \<Rightarrow> string list \<Rightarrow> Part list" where
  "spaced b ts = map (\<lambda>t. \<lparr>part_Text = t, IncludesInterPartSpaces = b\<rparr>) ts"

lemma join_unspaced:
  assumes "list_all (\<lambda>t. t \<noteq> []) ws" and "ws \<noteq> []"
  shows "fold join_part (spaced False ts) (join_words ws, False) =
    (join_words (ws @ filter (\<lambda>t. t \<noteq> []) ts), False)"
  using assms
proof (induction ts arbitrary: ws)
  case (Cons t ts)
  have ne: "join_words ws \<noteq> []"
    using Cons.prems by (induction ws rule: join_words.induct) auto
  show ?case
  proof (cases "t = []")
    case True
    with Cons show ?thesis by (simp add: spaced_def)
  next
    case False
    with Cons.IH [of "ws @ [t]"] Cons.prems ne show ?thesis
      by (simp add: spaced_def join_words_snoc)
  qed
qed (simp add: spaced_def)

lemma join_unspaced_start:
  "fst (fold join_part (spaced False ts) ([], False)) = join_words (filter (\<lambda>t. t \<noteq> []) ts)"
proof (induction ts)
  case (Cons t ts)
  show ?case
  proof (cases "t = []")
    case True
    with Cons show ?thesis by (simp add: spaced_def)
  next
    case False
    with join_unspaced [of "[t]" ts] show ?thesis by (simp add: spaced_def)
  qed
qed (simp add: spaced_def)

lemma join_own_spacing:
  "b \<noteq> [] \<Longrightarrow> fold join_part (spaced True ts) (b, True) = (b @ concat ts, True)"
  by (induction ts arbitrary: b) (auto simp: spaced_def)

lemma join_own_spacing_start: "fst (fold join_part (spaced True ts) ([], False)) = concat ts"
proof (induction ts)
  case (Cons t ts)
  then show ?case
    using join_own_spacing [of t ts] by (cases "t = []") (auto simp: spaced_def)
qed (simp add: spaced_def)

lemma solid_Concatenate: "solid (Concatenate parts) = solid (concat (map part_Text parts))"
  using solid_join [of parts "([], False)"] by (simp add: Concatenate_def solid_TrimSpace)

text \<open>
  Joining a turn's pieces keeps every character that is not white space, in order, whatever kinds
  of piece are mixed; pieces that carry no spacing are joined by single blanks, empty ones left out; and
  pieces that carry their own are joined as they are.
\<close>

lemma concatenate_conserves:
  "solid (Concatenate parts) = solid (concat (map part_Text parts)) \<and>
   Concatenate (spaced False ts) = TrimSpace (join_words (filter (\<lambda>t. t \<noteq> []) ts)) \<and>
   Concatenate (spaced True ts) = TrimSpace (concat ts)"
  by (simp add: solid_Concatenate) (simp add: Concatenate_def join_unspaced_start join_own_spacing_start)

end
