(* ===== verification/Assistant_Aggregator.thy ===== *)
theory Assistant_Aggregator
  imports Context_Summary Text_Aggregation Frame_Queues
    "HOL-Library.AList" "HOL-Library.List_Lexorder" "HOL-Library.Char_ord"
begin

text \<open>
  The assistant half of the pair of context aggregators, \<^verbatim>\<open>src/processor/aggregators/aggregators.go\<close>, from
  \<open>AssistantAggregator\<close> to \<open>commitInterrupted\<close>: it folds the reply into the conversation, writes the life of
  every tool call into it and decides when the model runs again. One frame is one step; what leaves the
  processor is logged.

  What a step reads from outside is its environment: the time of day, the order in which Go ranges over the
  map of markers, whether a tool result is already queued behind the frame, what the paired user half
  resolves, and the functions and configurations frames carry as pointers. A push to a neighbour queues the
  frame there and reports no error.
\<close>

section \<open>Markers (frames/turnmarkers.go)\<close>

text \<open>The three markers are the UTF-8 bytes of a full, a half and an empty circle.\<close>

definition userTurnMarkers :: "string list" where
  "userTurnMarkers =
    [[CHR 0xE2, CHR 0x97, CHR 0x8F], [CHR 0xE2, CHR 0x97, CHR 0x90], [CHR 0xE2, CHR 0x97, CHR 0x8B]]"

definition strip_marker :: "string \<Rightarrow> string \<times> bool \<Rightarrow> string \<times> bool" where
  "strip_marker marker tf =
    (if marker \<noteq> [] \<and> Contains (fst tf) marker then (ReplaceAll (fst tf) marker [], True) else tf)"

definition StripUserTurnMarkers :: "string \<Rightarrow> string list \<Rightarrow> string" where
  "StripUserTurnMarkers t extra =
    (let (t', found) = fold strip_marker (userTurnMarkers @ extra) (t, False) in
     if found then TrimSpace t' else t)"

section \<open>Announcing a change of toolset\<close>

definition missingFrom :: "string list \<Rightarrow> string list \<Rightarrow> string list" where
  "missingFrom a b = remdups (filter (\<lambda>n. n \<notin> set b) a)"

definition quoteNames :: "string list \<Rightarrow> string" where
  "quoteNames names = Join '', '' (map (\<lambda>n. [CHR 0x60] @ n @ [CHR 0x60]) (sort names))"

definition toolActivationMessage :: "string \<Rightarrow> string" where
  "toolActivationMessage names =
    ''The following function(s) have just been added and may now be called: '' @ names @
    ''. Any previously available functions remain available.''"

definition toolDeactivationMessage :: "string \<Rightarrow> string" where
  "toolDeactivationMessage names =
    ''The following function(s) have just been removed and should not be called: '' @ names @
    ''. Any previously available functions remain available. '' @
    ''The removed function(s) may become available again later, in which case '' @
    ''you will be informed.''"

definition maybeAddToolChangeMessages :: "bool \<Rightarrow> Tool list \<Rightarrow> LLMContext \<Rightarrow> LLMContext" where
  "maybeAddToolChangeMessages enabled newTools c =
    (let old = map toolName (Tools c); new = map toolName newTools;
         added = missingFrom new old; removed = missingFrom old new
     in if \<not> enabled \<or> added = [] \<and> removed = [] then c
        else AddMessage (text_message RoleDeveloper (Join '' ''
          ((if added \<noteq> [] then [toolActivationMessage (quoteNames added)] else []) @
           (if removed \<noteq> [] then [toolDeactivationMessage (quoteNames removed)] else [])))) c)"

section \<open>State\<close>

text \<open>What the aggregator keeps of a \<open>FunctionCallInProgressFrame\<close>.\<close>

record started_call =
  sc_CancelOnInterruption :: bool
  sc_GroupID :: string

datatype asst_out =
    APushed frame Direction
  | APushContext Direction
  | APushTimestamp string
  | ABroadcastTurn string string
  | ATurnStarted
  | ATurnStopped string bool string
  | AThought string string
  | ASummarizer summarizer_event
  | AContextUpdated opaque

record asst =
  a_ctx :: LLMContext
  a_toolChange :: bool
  a_summarizer :: Summarizer
  seenMarkers :: "string list"
  aggregation :: "Part list"
  turnStartedAt :: string
  inProgress :: "(string \<times> started_call option) list"
  a_userSpeaking :: bool
  a_botSpeaking :: bool
  pushOnBotStopped :: bool
  thought :: "Part list"
  thoughtStarted :: string
  thoughtToContext :: bool
  thoughtLLM :: string
  a_released :: bool
  a_outs :: "asst_out list"

record asst_env =
  e_now :: string
  e_range :: "string list \<Rightarrow> string list"
  e_resultQueued :: bool
  e_resolvesStarts :: bool
  e_resolvesStops :: bool
  e_transform :: "opaque \<Rightarrow> Message list \<Rightarrow> Message list"
  e_config :: "opaque \<Rightarrow> SummaryConfig"
  e_requestID :: string
  e_prompt :: string

definition newAssistant :: "LLMContext \<Rightarrow> AutoSummarizationConfig option \<Rightarrow> bool \<Rightarrow> asst" where
  "newAssistant c sc toolChange =
    \<lparr>a_ctx = c, a_toolChange = toolChange,
     a_summarizer = NewSummarizer (case sc of Some cfg \<Rightarrow> cfg | None \<Rightarrow> NewAutoSummarizationConfig) (sc \<noteq> None),
     seenMarkers = [], aggregation = [], turnStartedAt = [], inProgress = [], a_userSpeaking = False,
     a_botSpeaking = False, pushOnBotStopped = False, thought = [], thoughtStarted = [],
     thoughtToContext = False, thoughtLLM = [], a_released = False, a_outs = []\<rparr>"

definition alog :: "asst_out list \<Rightarrow> asst \<Rightarrow> asst" where
  "alog os a = a\<lparr>a_outs := a_outs a @ os\<rparr>"

definition on_ctx :: "(LLMContext \<Rightarrow> LLMContext) \<Rightarrow> asst \<Rightarrow> asst" where
  "on_ctx g a = a\<lparr>a_ctx := g (a_ctx a)\<rparr>"

definition HasFunctionCallsInProgress :: "asst \<Rightarrow> bool" where
  "HasFunctionCallsInProgress a \<longleftrightarrow> inProgress a \<noteq> []"

section \<open>The turn's text\<close>

definition say :: "Part \<Rightarrow> asst \<Rightarrow> asst" where
  "say part a = a\<lparr>aggregation := aggregation a @ [part]\<rparr>"

definition handleText :: "text_fields \<Rightarrow> string \<Rightarrow> asst \<Rightarrow> asst" where
  "handleText fr original a =
    (if \<not> fAppendToContext fr \<or> fText fr = [] then a
     else say \<lparr>part_Text = original, IncludesInterPartSpaces = fInterFrameSpaces fr\<rparr> a)"

definition openTurn :: "asst_env \<Rightarrow> asst \<Rightarrow> asst" where
  "openTurn e a =
    (if turnStartedAt a \<noteq> [] then a else alog [ATurnStarted] (a\<lparr>turnStartedAt := e_now e\<rparr>))"

definition pushAggregation :: "asst_env \<Rightarrow> asst \<Rightarrow> string \<times> asst" where
  "pushAggregation e a =
    (let said = Concatenate (aggregation a); a = a\<lparr>aggregation := [], pushOnBotStopped := False\<rparr> in
     if said = [] then ([], a)
     else (said, alog [APushContext Downstream, APushTimestamp (e_now e)] (on_ctx (AddAssistantMessage said) a)))"

definition commit :: "asst_env \<Rightarrow> bool \<Rightarrow> asst \<Rightarrow> asst" where
  "commit e interrupted a =
    (let startedAt = turnStartedAt a; a = a\<lparr>turnStartedAt := []\<rparr> in
     if startedAt = [] then a
     else case pushAggregation e a of (written, a) \<Rightarrow>
       let said = (if written \<noteq> [] then StripUserTurnMarkers written (e_range e (seenMarkers a)) else written);
           a = alog [ATurnStopped said interrupted startedAt] a
       in if said = [] then a else alog [ABroadcastTurn said startedAt] a)"

definition commitInterrupted :: "asst_env \<Rightarrow> asst \<Rightarrow> asst" where
  "commitInterrupted e a = (commit e True a)\<lparr>aggregation := [], pushOnBotStopped := False\<rparr>"

text \<open>\<open>releaseWork\<close>: callbacks in flight are cancelled and the summarization is abandoned.\<close>

definition releaseWork :: "asst \<Rightarrow> asst" where
  "releaseWork a = a\<lparr>a_released := True, a_summarizer := clearState (a_summarizer a)\<rparr>"

section \<open>Thoughts and markers\<close>

definition startThought :: "asst_env \<Rightarrow> bool \<Rightarrow> string \<Rightarrow> asst \<Rightarrow> asst" where
  "startThought e toContext llm a =
    a\<lparr>thought := [], thoughtToContext := toContext, thoughtLLM := llm, thoughtStarted := e_now e\<rparr>"

definition aggregateThought :: "string \<Rightarrow> bool \<Rightarrow> asst \<Rightarrow> asst" where
  "aggregateThought t spaces a =
    (if t = [] then a
     else a\<lparr>thought := thought a @ [\<lparr>part_Text = t, IncludesInterPartSpaces = spaces\<rparr>]\<rparr>)"

definition endThought :: "opaque \<Rightarrow> asst \<Rightarrow> asst" where
  "endThought signature a =
    (let content = Concatenate (thought a); startedAt = thoughtStarted a;
         a' = a\<lparr>thought := [], thoughtStarted := []\<rparr>;
         a' = (if thoughtToContext a
               then on_ctx (AddMessage (NewLLMSpecificMessage (thoughtLLM a) (NativeThought content signature))) a'
               else a')
     in alog [AThought content startedAt] a')"

definition handleMarker :: "string \<Rightarrow> bool \<Rightarrow> asst \<Rightarrow> asst" where
  "handleMarker marker immediately a =
    (let a = a\<lparr>seenMarkers := List.insert marker (seenMarkers a)\<rparr> in
     if immediately then alog [APushContext Upstream] (on_ctx (AddAssistantMessage marker) a)
     else say \<lparr>part_Text = marker, IncludesInterPartSpaces = False\<rparr> a)"

section \<open>Tool calls\<close>

definition pushContextFrame :: "asst \<Rightarrow> asst" where
  "pushContextFrame a = alog [APushContext Upstream] (a\<lparr>pushOnBotStopped := False\<rparr>)"

definition maybePushContextAfterFunctionResult :: "asst_env \<Rightarrow> asst \<Rightarrow> asst" where
  "maybePushContextAfterFunctionResult e a =
    (if e_resultQueued e then a
     else if a_botSpeaking a then a\<lparr>pushOnBotStopped := True\<rparr>
     else pushContextFrame a)"

definition pushDeferredContext :: "asst \<Rightarrow> asst" where
  "pushDeferredContext a =
    (if pushOnBotStopped a \<and> \<not> a_userSpeaking a then pushContextFrame a else a)"

definition handleFunctionCallsStarted :: "ToolCall list \<Rightarrow> asst \<Rightarrow> asst" where
  "handleFunctionCallsStarted calls a =
    a\<lparr>inProgress := fold (\<lambda>c. AList.update (callID c) None) calls (inProgress a)\<rparr>"

definition handleFunctionCallInProgress :: "string \<Rightarrow> string \<Rightarrow> string \<Rightarrow> bool \<Rightarrow> string \<Rightarrow> asst \<Rightarrow> asst" where
  "handleFunctionCallInProgress i name args cancel groupID a =
    (let a = on_ctx (AddAssistantToolCall \<lparr>callID = i, callName = name, callArgs = args\<rparr>) a;
         a = on_ctx (if cancel
               then AddToolResult \<lparr>resultID = i, resultName = name, resultContent = ToolResultInProgress\<rparr>
               else AddMessage (NewAsyncToolStartedMessage i)) a
     in a\<lparr>inProgress := AList.update i (Some \<lparr>sc_CancelOnInterruption = cancel, sc_GroupID = groupID\<rparr>) (inProgress a)\<rparr>)"

definition groupStillRunning :: "string \<Rightarrow> string \<Rightarrow> asst \<Rightarrow> bool" where
  "groupStillRunning groupID exclude a \<longleftrightarrow>
    list_ex (\<lambda>(i, st). i \<noteq> exclude \<and> (case st of Some c \<Rightarrow> sc_GroupID c = groupID | None \<Rightarrow> False)) (inProgress a)"

definition shouldRunLLM ::
  "string \<Rightarrow> string \<Rightarrow> bool option \<Rightarrow> FunctionCallResultProperties option \<Rightarrow> string \<Rightarrow> asst \<Rightarrow> bool" where
  "shouldRunLLM i result runLLM props groupID a =
    (if result = [] then False
     else case (case props of Some p \<Rightarrow> propRunLLM p | None \<Rightarrow> None) of
       Some b \<Rightarrow> b
     | None \<Rightarrow>
         (case runLLM of
            Some b \<Rightarrow> b
          | None \<Rightarrow> if groupID \<noteq> [] then \<not> groupStillRunning groupID i a else True))"

definition finishFunctionCall :: "string \<Rightarrow> string \<Rightarrow> started_call \<Rightarrow> asst \<Rightarrow> asst" where
  "finishFunctionCall i fr_result started a =
    (let a = a\<lparr>inProgress := AList.delete i (inProgress a)\<rparr>;
         result = (if fr_result = [] then ''COMPLETED'' else fr_result)
     in on_ctx (if \<not> sc_CancelOnInterruption started then AddMessage (NewAsyncToolFinalMessage i result)
                else fst \<circ> UpdateToolResult i result) a)"

definition recordIntermediateResult :: "string \<Rightarrow> string \<Rightarrow> asst \<Rightarrow> asst" where
  "recordIntermediateResult i result a =
    (if result = [] then a else on_ctx (AddMessage (NewAsyncToolIntermediateMessage i result)) a)"

definition runContextUpdated :: "FunctionCallResultProperties option \<Rightarrow> asst \<Rightarrow> asst" where
  "runContextUpdated props a =
    (case props of
       Some p \<Rightarrow> (case propOnContextUpdated p of Some fn \<Rightarrow> alog [AContextUpdated fn] a | None \<Rightarrow> a)
     | None \<Rightarrow> a)"

definition handleFunctionCallResult ::
  "asst_env \<Rightarrow> string \<Rightarrow> string \<Rightarrow> bool option \<Rightarrow> FunctionCallResultProperties option \<Rightarrow> asst \<Rightarrow> asst" where
  "handleFunctionCallResult e i result runLLM props a =
    (case map_of (inProgress a) i of
       None \<Rightarrow> a
     | Some None \<Rightarrow> a
     | Some (Some started) \<Rightarrow>
         let a = (if Final props then finishFunctionCall i result started a
                  else recordIntermediateResult i result a);
             a = (if shouldRunLLM i result runLLM props (sc_GroupID started) a \<and> \<not> a_userSpeaking a
                  then maybePushContextAfterFunctionResult e a else a)
         in runContextUpdated props a)"

definition handleFunctionCallCancel :: "asst_env \<Rightarrow> string \<Rightarrow> bool \<Rightarrow> asst \<Rightarrow> asst" where
  "handleFunctionCallCancel e i runLLM a =
    (case map_of (inProgress a) i of
       None \<Rightarrow> a
     | Some started \<Rightarrow>
         let sync = (case started of None \<Rightarrow> True | Some c \<Rightarrow> sc_CancelOnInterruption c);
             groupID = (case started of None \<Rightarrow> [] | Some c \<Rightarrow> sc_GroupID c);
             a = a\<lparr>inProgress := AList.delete i (inProgress a)\<rparr>;
             a = on_ctx (if sync then fst \<circ> UpdateToolResult i ''CANCELLED''
                         else AddMessage (NewAsyncToolCanceledMessage i)) a
         in if \<not> runLLM \<or> a_userSpeaking a then a
            else if groupID \<noteq> [] \<and> groupStillRunning groupID i a then a
            else maybePushContextAfterFunctionResult e a)"

section \<open>The conversation changed from outside\<close>

definition run_if :: "bool \<Rightarrow> asst \<Rightarrow> asst" where
  "run_if run a = (if run then alog [APushContext Upstream] a else a)"

fun handleContextUpdate :: "asst_env \<Rightarrow> frame_body \<Rightarrow> asst \<Rightarrow> asst option" where
  "handleContextUpdate e (Trn (LLMMessagesAppendFrame ms run)) a =
    Some (run_if run (on_ctx (fold AddMessage ms) a))"
| "handleContextUpdate e (Llm (LLMMessagesUpdateFrame ms run)) a = Some (run_if run (on_ctx (SetMessages ms) a))"
| "handleContextUpdate e (Llm (LLMMessagesTransformFrame t run)) a =
    Some (run_if run (on_ctx (TransformMessages (map_option (e_transform e) t)) a))"
| "handleContextUpdate e (Llm (LLMSetToolsFrame ts)) a =
    Some (on_ctx (SetTools ts \<circ> maybeAddToolChangeMessages (a_toolChange a) ts) a)"
| "handleContextUpdate e (Llm (LLMSetToolChoiceFrame t)) a = Some (on_ctx (SetToolChoice t) a)"
| "handleContextUpdate e b a = None"

section \<open>Routing\<close>

text \<open>\<open>Summarizer.ProcessFrame\<close>, with the events it raises; \<open>onRequestSummarization\<close> pushes the request on.\<close>

definition with_summarizer :: "Summarizer \<times> summarizer_event list \<Rightarrow> asst \<Rightarrow> asst" where
  "with_summarizer r a = alog (map ASummarizer (snd r)) (a\<lparr>a_summarizer := fst r\<rparr>)"

fun summarizer_ProcessFrame :: "asst_env \<Rightarrow> frame_body \<Rightarrow> asst \<Rightarrow> asst" where
  "summarizer_ProcessFrame e (Ctl (LLMFullResponseStartFrame x)) a =
    with_summarizer (handleResponseStart (e_prompt e) (e_requestID e) (a_ctx a) (a_summarizer a)) a"
| "summarizer_ProcessFrame e (Sum (LLMSummarizeContextFrame cfg)) a =
    with_summarizer
      (handleManualRequest (e_prompt e) (e_requestID e) (map_option (e_config e) cfg) (a_summarizer a)) a"
| "summarizer_ProcessFrame e (Sum (LLMContextSummaryResultFrame rid summary i err)) a =
    (case handleSummaryResult rid summary i err (a_summarizer a, a_ctx a) of
       ((s, c), es) \<Rightarrow> with_summarizer (s, es) (a\<lparr>a_ctx := c\<rparr>))"
| "summarizer_ProcessFrame e (Sys InterruptionFrame) a =
    a\<lparr>a_summarizer := handleInterruption (a_summarizer a)\<rparr>"
| "summarizer_ProcessFrame e b a = a"

text \<open>What becomes of a frame: it travels on and the summarizer sees it, or it stops here.\<close>

datatype fate = TravelsOn | Consumed

fun handleSpeakingState :: "system_go \<Rightarrow> asst \<Rightarrow> asst" where
  "handleSpeakingState UserStartedSpeakingFrame a = a\<lparr>a_userSpeaking := True\<rparr>"
| "handleSpeakingState UserStoppedSpeakingFrame a = a\<lparr>a_userSpeaking := False\<rparr>"
| "handleSpeakingState BotStartedSpeakingFrame a = a\<lparr>a_botSpeaking := True\<rparr>"
| "handleSpeakingState BotStoppedSpeakingFrame a = a\<lparr>a_botSpeaking := False\<rparr>"
| "handleSpeakingState _ a = a"

fun route :: "asst_env \<Rightarrow> frame \<Rightarrow> Direction \<Rightarrow> frame_body \<Rightarrow> asst \<Rightarrow> asst \<times> fate" where
  "route e f d (Ctl (LLMFullResponseStartFrame x)) a = (openTurn e a, TravelsOn)"
| "route e f d (Ctl (TTSStartedFrame x app)) a = ((if app then openTurn e a else a), TravelsOn)"
| "route e f d (Txt (TextFrame t)) a = (handleText t (fText t) a, TravelsOn)"
| "route e f d (Txt (LLMTextFrame t)) a = (handleText t (fText t) a, TravelsOn)"
| "route e f d (Txt (TTSTextFrame t raw x)) a = (handleText t (Original t raw) a, TravelsOn)"
| "route e f d (Txt (AggregatedTextFrame t raw x)) a = (handleText t (Original t raw) a, TravelsOn)"
| "route e f d (Ctl (LLMThoughtStartFrame toContext llm)) a = (startThought e toContext llm a, Consumed)"
| "route e f d (Ctl (LLMThoughtTextFrame t spaces)) a = (aggregateThought t spaces a, Consumed)"
| "route e f d (Ctl (LLMThoughtEndFrame sig)) a = (endThought sig a, Consumed)"
| "route e f d (Ctl LLMAssistantPushAggregationFrame) a = (commit e False a, TravelsOn)"
| "route e f d (Ctl (LLMFullResponseEndFrame x)) a = (commit e False a, TravelsOn)"
| "route e f d (Ctl (EndFrame r)) a = (releaseWork (commit e False a), TravelsOn)"
| "route e f d (Sys (CancelFrame r)) a = (releaseWork (commit e True a), TravelsOn)"
| "route e f d (Sys InterruptionFrame) a = (commitInterrupted e a, TravelsOn)"
| "route e f d (Llm LLMRunFrame) a = (pushContextFrame a, Consumed)"
| "route e f d (Fun (FunctionCallsStartedFrame calls)) a = (handleFunctionCallsStarted calls a, Consumed)"
| "route e f d (Fun (FunctionCallInProgressFrame i n args c g)) a =
    (handleFunctionCallInProgress i n args c g a, Consumed)"
| "route e f d (Fun (FunctionCallResultFrame i n r l p)) a = (handleFunctionCallResult e i r l p a, Consumed)"
| "route e f d (Fun (FunctionCallCancelFrame i n r)) a = (handleFunctionCallCancel e i r a, Consumed)"
| "route e f d (Sys UserStartedSpeakingFrame) a =
    (alog [APushed f d] (handleSpeakingState UserStartedSpeakingFrame a), Consumed)"
| "route e f d (Sys UserStoppedSpeakingFrame) a =
    (alog [APushed f d] (handleSpeakingState UserStoppedSpeakingFrame a), Consumed)"
| "route e f d (Sys BotStartedSpeakingFrame) a =
    (alog [APushed f d] (handleSpeakingState BotStartedSpeakingFrame a), Consumed)"
| "route e f d (Sys BotStoppedSpeakingFrame) a =
    (pushDeferredContext (alog [APushed f d] (handleSpeakingState BotStoppedSpeakingFrame a)), Consumed)"
| "route e f d (Sys ProposedUserStartedSpeakingFrame) a =
    (a, if e_resolvesStarts e then Consumed else TravelsOn)"
| "route e f d (Ctl ProposedUserStoppedSpeakingFrame) a =
    (a, if e_resolvesStops e then Consumed else TravelsOn)"
| "route e f d b a = (a, TravelsOn)"

definition asst_ProcessFrame :: "asst_env \<Rightarrow> frame \<Rightarrow> Direction \<Rightarrow> asst \<Rightarrow> asst" where
  "asst_ProcessFrame e f d a =
    (case body f of
       Trn (LLMMarkerFrame marker immediately) \<Rightarrow> handleMarker marker immediately a
     | _ \<Rightarrow>
       (case handleContextUpdate e (body f) a of
          Some a' \<Rightarrow> a'
        | None \<Rightarrow>
            (case route e f d (body f) a of
               (a', Consumed) \<Rightarrow> a'
             | (a', TravelsOn) \<Rightarrow> summarizer_ProcessFrame e (body f) (alog [APushed f d] a'))))"

fun asst_run :: "(asst_env \<times> frame \<times> Direction) list \<Rightarrow> asst \<Rightarrow> asst" where
  "asst_run [] a = a"
| "asst_run ((e, f, d) # fs) a = asst_run fs (asst_ProcessFrame e f d a)"

end
