(* ===== verification/Assistant_Properties.thy ===== *)
theory Assistant_Properties
  imports Assistant_Aggregator
begin

text \<open>
  What the assistant aggregator keeps of the conversation. The first locale has the ways a frame adds to it,
  the second adds the ways it is replaced; each is proved to carry a predicate on the messages through every
  frame, and is interpreted for the shape providers accept (calls directly followed by their results), for
  the roles, and for the messages already there being kept in place.
\<close>

section \<open>Predicates kept by additions\<close>

definition call_message :: "ToolCall \<Rightarrow> Message" where
  "call_message c = an_empty_message\<lparr>mRole := RoleAssistant, mToolCalls := [c]\<rparr>"

definition result_message :: "ToolResult \<Rightarrow> Message" where
  "result_message r = an_empty_message\<lparr>mRole := RoleUser, mToolResults := [r]\<rparr>"

text \<open>What a frame may add: messages that may be appended, calls with an id, thoughts with a provider.\<close>

fun frame_adds :: "(Message list \<Rightarrow> bool) \<Rightarrow> frame_body \<Rightarrow> bool" where
  "frame_adds Q (Trn (LLMMessagesAppendFrame ms run)) = Q ms"
| "frame_adds Q (Llm (LLMMessagesUpdateFrame ms run)) = False"
| "frame_adds Q (Llm (LLMMessagesTransformFrame t run)) = False"
| "frame_adds Q (Sum (LLMContextSummaryResultFrame rid summary i err)) = False"
| "frame_adds Q (Fun (FunctionCallInProgressFrame i n args c g)) = (i \<noteq> [])"
| "frame_adds Q (Ctl (LLMThoughtStartFrame toContext llm)) = (toContext \<longrightarrow> llm \<noteq> [])"
| "frame_adds Q b = True"

text \<open>
  What a frame may bring when it may also replace the conversation: messages of the predicate, and a summary
  that ends where the rest is of the predicate.
\<close>

fun frame_brings :: "(Message list \<Rightarrow> bool) \<Rightarrow> asst_env \<Rightarrow> asst \<Rightarrow> frame_body \<Rightarrow> bool" where
  "frame_brings P e a (Llm (LLMMessagesUpdateFrame ms run)) = P ms"
| "frame_brings P e a (Llm (LLMMessagesTransformFrame t run)) =
    (case t of None \<Rightarrow> True | Some k \<Rightarrow> P (e_transform e k (messages (a_ctx a))))"
| "frame_brings P e a (Sum (LLMContextSummaryResultFrame rid summary i err)) =
    P (drop (nat i + 1) (messages (a_ctx a)))"
| "frame_brings P e a b = frame_adds P b"

fun run_brings :: "(Message list \<Rightarrow> bool) \<Rightarrow> (asst_env \<times> frame \<times> Direction) list \<Rightarrow> asst \<Rightarrow> bool" where
  "run_brings P [] a = True"
| "run_brings P ((e, f, d) # fs) a =
    (frame_brings P e a (body f) \<and> run_brings P fs (asst_ProcessFrame e f d a))"

lemma asst_run_append: "asst_run (xs @ ys) a = asst_run ys (asst_run xs a)"
  by (induction xs a rule: asst_run.induct) auto

lemma frame_adds_brings: "frame_adds P b \<Longrightarrow> frame_brings P e a b"
  by (cases "(P, b)" rule: frame_adds.cases) auto

locale conversation_growth =
  fixes P :: "Message list \<Rightarrow> bool"
    and Q :: "Message list \<Rightarrow> bool"
  assumes plain: "P ms \<Longrightarrow> role \<in> {RoleUser, RoleAssistant, RoleDeveloper} \<Longrightarrow> P (ms @ [text_message role t])"
    and native: "P ms \<Longrightarrow> l \<noteq> [] \<Longrightarrow> P (ms @ [NewLLMSpecificMessage l n])"
    and call: "P ms \<Longrightarrow> callID c \<noteq> [] \<Longrightarrow> resultID r = callID c \<Longrightarrow> P (ms @ [call_message c, result_message r])"
    and update: "P ms \<Longrightarrow> map shape ms' = map shape ms \<Longrightarrow> P ms'"
    and append: "P ms \<Longrightarrow> Q ns \<Longrightarrow> P (ms @ ns)"
begin

definition holds :: "asst \<Rightarrow> bool" where
  "holds a \<longleftrightarrow> P (messages (a_ctx a)) \<and> (thoughtToContext a \<longrightarrow> thoughtLLM a \<noteq> [])"

lemma holds_alog [simp]: "holds (alog os a) = holds a"
  by (simp add: holds_def alog_def)

lemma holds_fields [simp]:
  "holds (a\<lparr>turnStartedAt := x1\<rparr>) = holds a" "holds (a\<lparr>aggregation := x2\<rparr>) = holds a"
  "holds (a\<lparr>pushOnBotStopped := x3\<rparr>) = holds a" "holds (a\<lparr>inProgress := x4\<rparr>) = holds a"
  "holds (a\<lparr>a_summarizer := x5\<rparr>) = holds a" "holds (a\<lparr>a_released := x6\<rparr>) = holds a"
  "holds (a\<lparr>thought := x7\<rparr>) = holds a" "holds (a\<lparr>thoughtStarted := x8\<rparr>) = holds a"
  "holds (a\<lparr>a_userSpeaking := x9\<rparr>) = holds a" "holds (a\<lparr>a_botSpeaking := x9\<rparr>) = holds a"
  "holds (a\<lparr>seenMarkers := x10\<rparr>) = holds a"
  by (simp_all add: holds_def)

lemma P_update: "P (messages c) \<Longrightarrow> P (messages (fst (UpdateToolResult i x c)))"
  by (rule update [OF _ UpdateToolResult_shape])

lemma holds_handleText [simp]: "holds (handleText t u a) = holds a"
  by (simp add: handleText_def say_def holds_def)

lemma holds_openTurn [simp]: "holds (openTurn e a) = holds a"
  by (simp add: openTurn_def holds_def alog_def)

lemma holds_pushAggregation: "holds a \<Longrightarrow> holds (snd (pushAggregation e a))"
  by (auto simp: pushAggregation_def Let_def holds_def alog_def on_ctx_def AddAssistantMessage_def AddMessage_def
      intro: plain)

lemma holds_commit: "holds a \<Longrightarrow> holds (commit e b a)"
proof -
  assume a: "holds a"
  obtain w a' where p: "pushAggregation e (a\<lparr>turnStartedAt := []\<rparr>) = (w, a')" by fastforce
  have "holds (a\<lparr>turnStartedAt := []\<rparr>)" using a by (simp add: holds_def)
  from holds_pushAggregation [OF this, of e] p have "holds a'" by simp
  with a p show ?thesis by (simp add: commit_def Let_def)
qed

lemma holds_endThought: "holds a \<Longrightarrow> holds (endThought sig a)"
  by (auto simp: endThought_def Let_def holds_def alog_def on_ctx_def AddMessage_def intro: native)

lemma holds_maybePush: "holds a \<Longrightarrow> holds (maybePushContextAfterFunctionResult e a)"
  by (simp add: maybePushContextAfterFunctionResult_def pushContextFrame_def holds_def alog_def)

lemma P_final: "P ms \<Longrightarrow> P (ms @ [NewAsyncToolFinalMessage i x])"
  and P_canceled: "P ms \<Longrightarrow> P (ms @ [NewAsyncToolCanceledMessage i])"
  and P_intermediate: "P ms \<Longrightarrow> P (ms @ [NewAsyncToolIntermediateMessage i x])"
  unfolding NewAsyncToolFinalMessage_def NewAsyncToolCanceledMessage_def NewAsyncToolIntermediateMessage_def
    async_message_def by (simp_all add: plain)

lemma holds_finish: "holds a \<Longrightarrow> holds (finishFunctionCall i x st a)"
  by (simp add: finishFunctionCall_def Let_def holds_def on_ctx_def AddMessage_def P_update P_final)

lemma holds_intermediate: "holds a \<Longrightarrow> holds (recordIntermediateResult i x a)"
  by (simp add: recordIntermediateResult_def holds_def on_ctx_def AddMessage_def P_intermediate)

lemma holds_contextUpdated [simp]: "holds (runContextUpdated p a) = holds a"
  by (simp add: runContextUpdated_def split: option.split)

lemma holds_result: "holds a \<Longrightarrow> holds (handleFunctionCallResult e i r l p a)"
  by (simp add: handleFunctionCallResult_def Let_def holds_finish holds_intermediate holds_maybePush
      split: option.split)

lemma holds_settle:
  "holds a \<Longrightarrow> holds (on_ctx (if b then fst \<circ> UpdateToolResult i x else AddMessage (NewAsyncToolCanceledMessage i))
     (a\<lparr>inProgress := q\<rparr>))"
  by (simp add: holds_def on_ctx_def P_update P_canceled AddMessage_def)

lemma holds_cancel: "holds a \<Longrightarrow> holds (handleFunctionCallCancel e i r a)"
  using holds_settle [of a] holds_maybePush
  by (simp add: handleFunctionCallCancel_def Let_def split: option.split)

lemma holds_inProgress:
  assumes "holds a" and "i \<noteq> []"
  shows "holds (handleFunctionCallInProgress i n args c g a)"
proof -
  let ?call = "\<lparr>callID = i, callName = n, callArgs = args\<rparr>"
  have "P (messages (a_ctx a) @ [call_message ?call, result_message r])" if "resultID r = i" for r
    using assms that by (intro call) (auto simp: holds_def)
  then show ?thesis using assms(1)
    by (auto simp: handleFunctionCallInProgress_def Let_def holds_def on_ctx_def AddAssistantToolCall_def
        AddToolResult_def AddMessage_def call_message_def result_message_def NewAsyncToolStartedMessage_def
        async_message_def)
qed

lemma fold_AddMessage: "messages (fold AddMessage ms c) = messages c @ ms"
  by (induction ms arbitrary: c) (simp_all add: AddMessage_def)

lemma P_toolChange: "P (messages c) \<Longrightarrow> P (messages (SetTools ts (maybeAddToolChangeMessages b ts c)))"
  by (auto simp: SetTools_def maybeAddToolChangeMessages_def Let_def AddMessage_def intro: plain)

lemma holds_on_ctx: "holds a \<Longrightarrow> P (messages (g (a_ctx a))) \<Longrightarrow> holds (on_ctx g a)"
  by (simp add: holds_def on_ctx_def)

lemma holds_P: "holds a \<Longrightarrow> P (messages (a_ctx a))" by (simp add: holds_def)

lemma holds_run_if [simp]: "holds (run_if b a) = holds a" by (simp add: run_if_def)

lemma holds_contextUpdate:
  assumes "holds a" and "frame_adds Q b" and "handleContextUpdate e b a = Some a'"
  shows "holds a'"
  using assms
  by (cases "(e, b, a)" rule: handleContextUpdate.cases)
    (auto simp: fold_AddMessage P_toolChange SetToolChoice_def holds_P intro!: holds_on_ctx append)

lemma holds_startThought: "holds a \<Longrightarrow> (c \<longrightarrow> llm \<noteq> []) \<Longrightarrow> holds (startThought e c llm a)"
  by (simp add: startThought_def holds_def)

lemma holds_summarizer:
  "holds a \<Longrightarrow> frame_adds Q b \<Longrightarrow> holds (summarizer_ProcessFrame e b a)"
  by (cases "(e, b, a)" rule: summarizer_ProcessFrame.cases)
    (auto simp: with_summarizer_def holds_def alog_def)

lemma holds_speaking [simp]: "holds (handleSpeakingState s a) = holds a"
  by (cases "(s, a)" rule: handleSpeakingState.cases) (simp_all add: holds_def)

lemma holds_route: "holds a \<Longrightarrow> frame_adds Q b \<Longrightarrow> holds (fst (route e f d b a))"
  by (cases "(e, f, d, b, a)" rule: route.cases)
    (auto simp: holds_commit holds_endThought holds_result holds_cancel holds_inProgress
      releaseWork_def commitInterrupted_def pushContextFrame_def pushDeferredContext_def
      handleFunctionCallsStarted_def holds_startThought aggregateThought_def)

lemma holds_step:
  assumes "holds a" and "frame_adds Q (body f)"
  shows "holds (asst_ProcessFrame e f d a)"
proof (cases "\<exists>m b. body f = Trn (LLMMarkerFrame m b)")
  case True
  then show ?thesis using assms(1)
    by (auto simp: asst_ProcessFrame_def handleMarker_def Let_def say_def AddAssistantMessage_def AddMessage_def
        holds_P intro!: holds_on_ctx plain)
next
  case False
  then have eq: "asst_ProcessFrame e f d a =
       (case handleContextUpdate e (body f) a of
          Some a' \<Rightarrow> a'
        | None \<Rightarrow>
            (case route e f d (body f) a of
               (a', Consumed) \<Rightarrow> a'
             | (a', TravelsOn) \<Rightarrow> summarizer_ProcessFrame e (body f) (alog [APushed f d] a')))"
    by (auto simp: asst_ProcessFrame_def split: frame_body.splits turns_go.splits)
  obtain a' fa where r: "route e f d (body f) a = (a', fa)" by fastforce
  with holds_route [OF assms] have "holds a'" by (metis fst_conv)
  with r show ?thesis unfolding eq
    using holds_contextUpdate [OF assms] holds_summarizer [OF _ assms(2)]
    by (auto split: option.split fate.split)
qed

end

section \<open>Predicates kept by every frame\<close>

locale conversation_invariant = conversation_growth P P for P +
  assumes summary: "P ms \<Longrightarrow> P (drop (i + 1) ms) \<Longrightarrow> P (rebuilt t s i ms)"
begin

lemma holds_summary_result:
  assumes "holds a" and "P (drop (nat i + 1) (messages (a_ctx a)))"
  shows "holds (summarizer_ProcessFrame e (Sum (LLMContextSummaryResultFrame rid x i err)) a)"
proof -
  obtain s c es where r: "handleSummaryResult rid x i err (a_summarizer a, a_ctx a) = ((s, c), es)"
    by (metis surj_pair)
  with handled_messages [of rid x i err "a_summarizer a" "a_ctx a"]
  have "P (messages c)" using summary [of _ "nat i"] assms by (simp add: holds_P split: if_splits)
  with r assms(1) show ?thesis by (simp add: with_summarizer_def holds_def alog_def)
qed

lemma brings_step:
  assumes "holds a" and "frame_brings P e a (body f)"
  shows "holds (asst_ProcessFrame e f d a)"
proof -
  consider ms run where "body f = Llm (LLMMessagesUpdateFrame ms run)"
    | t run where "body f = Llm (LLMMessagesTransformFrame t run)"
    | rid x i err where "body f = Sum (LLMContextSummaryResultFrame rid x i err)"
    | "frame_adds P (body f)"
    using assms(2) by (cases "(P, e, a, body f)" rule: frame_brings.cases) auto
  then show ?thesis
  proof cases
    case (1 ms run)
    with assms show ?thesis by (auto simp: asst_ProcessFrame_def SetMessages_def intro!: holds_on_ctx)
  next
    case (2 t run)
    with assms show ?thesis
      by (auto simp: asst_ProcessFrame_def TransformMessages_def SetMessages_def holds_P
          split: option.splits intro!: holds_on_ctx)
  next
    case (3 rid x i err)
    have "holds (alog [APushed f d] a)" using assms(1) by simp
    from holds_summary_result [OF this] 3 assms(2) show ?thesis by (simp add: asst_ProcessFrame_def alog_def)
  next
    case 4
    with assms(1) show ?thesis by (rule holds_step)
  qed
qed

lemma brings_run: "holds a \<Longrightarrow> run_brings P fs a \<Longrightarrow> holds (asst_run fs a)"
proof (induction fs arbitrary: a)
  case (Cons x fs)
  obtain e f d where "x = (e, f, d)" by (metis surj_pair)
  with Cons brings_step show ?case by simp
qed simp

lemma brings_take: "run_brings P fs a \<Longrightarrow> run_brings P (take n fs) a"
proof (induction fs arbitrary: a n)
  case (Cons x fs)
  obtain e f d where "x = (e, f, d)" by (metis surj_pair)
  with Cons show ?case by (cases n) auto
qed simp

end

section \<open>Calls are answered where they stand\<close>

interpretation pairs: conversation_invariant paired
proof unfold_locales
  fix ms role t assume "paired ms" and "role \<in> {RoleUser, RoleAssistant, RoleDeveloper}"
  then show "paired (ms @ [text_message role t])"
    by (intro paired_append) (auto simp: text_message_def an_empty_message_def)
next
  fix ms l n assume "paired ms"
  then show "paired (ms @ [NewLLMSpecificMessage l n])"
    by (intro paired_append) (auto simp: NewLLMSpecificMessage_def an_empty_message_def)
next
  fix ms and c :: ToolCall and r :: ToolResult
  assume "paired ms" and "callID c \<noteq> []" and "resultID r = callID c"
  then show "paired (ms @ [call_message c, result_message r])"
    by (intro paired_append) (auto simp: call_message_def result_message_def an_empty_message_def)
next
  fix ms ms' assume "paired ms" and "map shape ms' = map shape ms"
  then show "paired ms'" using paired_shape by blast
qed (simp_all add: paired_append rebuilt_paired)

lemma new_holds: "paired (messages c) \<Longrightarrow> pairs.holds (newAssistant c sc tc)"
  by (simp add: pairs.holds_def newAssistant_def)

text \<open>
  The conversation is one a provider accepts at every moment: starting from one in which every tool call
  is directly followed by its results, and whatever frames the assistant half handles, every call in the
  conversation is directly followed by the message answering it, with the ids it carries, after each of them.
  Messages the application appends or replaces the conversation by are themselves of that shape, and a
  summary ends at a boundary of it (as every selected one does).
\<close>

lemma conversation_stays_paired:
  assumes "paired (messages c)" and "run_brings paired fs (newAssistant c sc tc)"
  shows "paired (messages (a_ctx (asst_run (take n fs) (newAssistant c sc tc))))"
  using pairs.brings_run [OF new_holds [OF assms(1)] pairs.brings_take [OF assms(2)]]
  by (rule pairs.holds_P)

section \<open>Every message has a role\<close>

definition known_role :: "Message \<Rightarrow> bool" where
  "known_role m \<longleftrightarrow> IsLLMSpecific m \<or> mRole m \<in> {RoleSystem, RoleUser, RoleAssistant, RoleDeveloper}"

definition well_roled :: "Message list \<Rightarrow> bool" where
  "well_roled ms \<longleftrightarrow> list_all known_role ms"

interpretation roles: conversation_invariant well_roled
proof unfold_locales
  fix ms ms' assume "well_roled ms" and eq: "map shape ms' = map shape ms"
  have "well_roled xs \<longleftrightarrow>
      list_all (\<lambda>(r, _, _, _, l). l \<noteq> [] \<or> r \<in> {RoleSystem, RoleUser, RoleAssistant, RoleDeveloper}) (map shape xs)" for xs
    by (auto simp: well_roled_def known_role_def list_all_iff shape_def IsLLMSpecific_def)
  with eq \<open>well_roled ms\<close> show "well_roled ms'" by simp
next
  fix ms i t s assume "well_roled ms" and "well_roled (drop (i + 1) ms)"
  then show "well_roled (rebuilt t s i ms)"
    by (cases ms) (auto simp: rebuilt_def well_roled_def known_role_def text_message_def an_empty_message_def system_head_def)
qed (auto simp: well_roled_def known_role_def text_message_def NewLLMSpecificMessage_def an_empty_message_def
      call_message_def result_message_def IsLLMSpecific_def)

text \<open>
  C15. Every message in the conversation is typed: it either belongs to one provider or carries one of the four
  roles, after every frame the assistant half handles, if the conversation started so, the application's own
  messages are so, and a thought kept in the conversation names the provider it is for.
\<close>

theorem messages_keep_roles:
  assumes "well_roled (messages c)" and "run_brings well_roled fs (newAssistant c sc tc)"
  shows "\<forall>m\<in>set (messages (a_ctx (asst_run (take n fs) (newAssistant c sc tc)))).
    mLLM m \<noteq> [] \<or> mRole m \<in> {RoleSystem, RoleUser, RoleAssistant, RoleDeveloper}"
proof -
  have "roles.holds (newAssistant c sc tc)"
    using assms(1) by (simp add: roles.holds_def newAssistant_def)
  from roles.brings_run [OF this roles.brings_take [OF assms(2)]]
  have "well_roled (messages (a_ctx (asst_run (take n fs) (newAssistant c sc tc))))"
    by (rule roles.holds_P)
  then show ?thesis by (auto simp: well_roled_def known_role_def list_all_iff IsLLMSpecific_def)
qed

section \<open>A result replaces its placeholder\<close>

text \<open>Frames that neither replace the conversation nor are about the call \<open>i\<close>.\<close>

fun leaves_call :: "string \<Rightarrow> frame_body \<Rightarrow> bool" where
  "leaves_call i (Fun (FunctionCallsStartedFrame calls)) = (i \<notin> callID ` set calls)"
| "leaves_call i (Fun (FunctionCallInProgressFrame j n args c g)) = (j \<noteq> i \<and> j \<noteq> [])"
| "leaves_call i (Fun (FunctionCallResultFrame j n r l p)) = (j \<noteq> i)"
| "leaves_call i (Fun (FunctionCallCancelFrame j n r)) = (j \<noteq> i)"
| "leaves_call i b = frame_adds (\<lambda>_. True) b"

lemma leaves_adds: "leaves_call i b \<Longrightarrow> frame_adds (\<lambda>_. True) b"
  by (cases "(i, b)" rule: leaves_call.cases) auto

definition thought_named :: "asst \<Rightarrow> bool" where
  "thought_named a \<longleftrightarrow> (thoughtToContext a \<longrightarrow> thoughtLLM a \<noteq> [])"

interpretation kept: conversation_growth "\<lambda>ms. \<exists>new. map shape ms = base @ new" "\<lambda>_. True" for base
  by unfold_locales auto

lemma inProgress_summarizer [simp]: "inProgress (summarizer_ProcessFrame e b a) = inProgress a"
  by (cases "(e, b, a)" rule: summarizer_ProcessFrame.cases)
    (auto simp: with_summarizer_def alog_def split: prod.split)

lemma inProgress_speaking [simp]: "inProgress (handleSpeakingState s a) = inProgress a"
  by (cases "(s, a)" rule: handleSpeakingState.cases) auto

lemma inProgress_simps [simp]:
  "inProgress (alog os a) = inProgress a" "inProgress (on_ctx g a) = inProgress a"
  "inProgress (say x a) = inProgress a" "inProgress (run_if b a) = inProgress a"
  "inProgress (pushContextFrame a) = inProgress a" "inProgress (openTurn e a) = inProgress a"
  "inProgress (handleText t u a) = inProgress a" "inProgress (commit e b a) = inProgress a"
  "inProgress (endThought sig a) = inProgress a" "inProgress (runContextUpdated p a) = inProgress a"
  "inProgress (maybePushContextAfterFunctionResult e a) = inProgress a"
  "inProgress (pushDeferredContext a) = inProgress a" "inProgress (handleMarker m im a) = inProgress a"
  "inProgress (recordIntermediateResult j y a) = inProgress a"
  by (auto simp: alog_def on_ctx_def say_def run_if_def pushContextFrame_def openTurn_def handleText_def
      commit_def pushAggregation_def endThought_def Let_def runContextUpdated_def pushDeferredContext_def
      maybePushContextAfterFunctionResult_def handleMarker_def recordIntermediateResult_def
      split: option.split prod.split)

lemma inProgress_contextUpdate: "handleContextUpdate e b a = Some a' \<Longrightarrow> inProgress a' = inProgress a"
  by (cases "(e, b, a)" rule: handleContextUpdate.cases) auto

lemma map_of_fold_update:
  "i \<notin> g ` set xs \<Longrightarrow> map_of (fold (\<lambda>c. AList.update (g c) v) xs m) i = map_of m i"
  by (induction xs arbitrary: m) (auto simp: update_conv')

lemma inProgress_route:
  "leaves_call i b \<Longrightarrow> map_of (inProgress (fst (route e f d b a))) i = map_of (inProgress a) i"
  by (cases "(e, f, d, b, a)" rule: route.cases)
    (auto simp: handleFunctionCallsStarted_def map_of_fold_update handleFunctionCallInProgress_def Let_def
      update_conv' delete_conv' handleFunctionCallResult_def finishFunctionCall_def handleFunctionCallCancel_def
      startThought_def aggregateThought_def releaseWork_def commitInterrupted_def split: option.split)

lemma ProcessFrame_cases:
  obtains (Marker) m im where "body f = Trn (LLMMarkerFrame m im)"
      "asst_ProcessFrame e f d a = handleMarker m im a"
    | (Update) a' where "handleContextUpdate e (body f) a = Some a'" "asst_ProcessFrame e f d a = a'"
    | (Consumed) a' where "route e f d (body f) a = (a', Consumed)" "asst_ProcessFrame e f d a = a'"
    | (TravelsOn) a' where "route e f d (body f) a = (a', TravelsOn)"
      "asst_ProcessFrame e f d a = summarizer_ProcessFrame e (body f) (alog [APushed f d] a')"
proof (cases "\<exists>m im. body f = Trn (LLMMarkerFrame m im)")
  case True
  with Marker show thesis by (auto simp: asst_ProcessFrame_def)
next
  case False
  then have eq: "asst_ProcessFrame e f d a =
       (case handleContextUpdate e (body f) a of
          Some a' \<Rightarrow> a'
        | None \<Rightarrow>
            (case route e f d (body f) a of
               (a', Consumed) \<Rightarrow> a'
             | (a', TravelsOn) \<Rightarrow> summarizer_ProcessFrame e (body f) (alog [APushed f d] a')))"
    by (auto simp: asst_ProcessFrame_def split: frame_body.splits turns_go.splits)
  obtain a' fa where "route e f d (body f) a = (a', fa)" by fastforce
  with eq Update Consumed TravelsOn show thesis
    by (cases "handleContextUpdate e (body f) a"; cases fa) auto
qed

lemma inProgress_step:
  assumes "leaves_call i (body f)"
  shows "map_of (inProgress (asst_ProcessFrame e f d a)) i = map_of (inProgress a) i"
  using inProgress_route [OF assms, of e f d a]
  by (cases rule: ProcessFrame_cases [of f e d a]) (auto dest: inProgress_contextUpdate)

lemma leaves_run:
  assumes "list_all (\<lambda>(e, f, d). leaves_call i (body f)) fs" and "kept.holds base a"
  shows "kept.holds base (asst_run fs a) \<and> map_of (inProgress (asst_run fs a)) i = map_of (inProgress a) i"
  using assms
proof (induction fs arbitrary: a)
  case (Cons x fs)
  obtain e f d where x: "x = (e, f, d)" by (metis surj_pair)
  with Cons.prems have l: "leaves_call i (body f)" by simp
  from kept.holds_step [OF Cons.prems(2) leaves_adds [OF l]] Cons.IH [of "asst_ProcessFrame e f d a"] Cons.prems(1)
    inProgress_step [OF l, of e d a] x
  show ?case by simp
qed simp

lemma update_messages_here:
  "i \<notin> result_ids pre \<Longrightarrow> update_results i x (mToolResults m) = Some rs \<Longrightarrow>
   update_messages i x (pre @ m # post) = Some (pre @ m\<lparr>mToolResults := rs\<rparr> # post)"
  by (induction pre) (auto simp: update_results_None [THEN iffD2])

lemma shape_result_ids: "map shape ms = map shape ns \<Longrightarrow> result_ids ms = result_ids ns"
proof (induction ms arbitrary: ns)
  case (Cons m ms)
  then obtain n ns' where "ns = n # ns'" "shape m = shape n" "map shape ms = map shape ns'"
    by (auto simp: Cons_eq_map_conv)
  moreover from this have "set (map resultID (mToolResults m)) = set (map resultID (mToolResults n))"
    by (simp add: shape_def)
  ultimately show ?case using Cons.IH by auto
qed simp

lemma finish_in_place:
  assumes "map shape (messages (a_ctx a)) = map shape pre @ [shape (call_message c), shape (result_message q)] @ new"
    and "resultID q \<notin> result_ids pre" and "sc_CancelOnInterruption st" and "r \<noteq> []"
  shows "\<exists>call res. messages (a_ctx (finishFunctionCall (resultID q) r st a)) ! length pre = call \<and> mToolCalls call = [c] \<and>
    messages (a_ctx (finishFunctionCall (resultID q) r st a)) ! (length pre + 1) = res \<and>
    map (\<lambda>t. (resultID t, resultContent t)) (mToolResults res) = [(resultID q, r)]"
proof -
  from assms(1) obtain pre' cm rm post where ms: "messages (a_ctx a) = pre' @ cm # rm # post"
    and sh: "map shape pre' = map shape pre" "shape cm = shape (call_message c)" "shape rm = shape (result_message q)"
    by (auto simp: map_eq_append_conv Cons_eq_map_conv)
  from sh(3) obtain q' where rm: "mToolResults rm = [q']" "resultID q' = resultID q"
    by (auto simp: shape_def result_message_def an_empty_message_def map_eq_Cons_conv)
  from sh(2) have cm: "mToolCalls cm = [c]" "mToolResults cm = []"
    by (auto simp: shape_def call_message_def an_empty_message_def)
  have "resultID q \<notin> result_ids (pre' @ [cm])"
    using assms(2) shape_result_ids [OF sh(1)] cm(2) by simp
  moreover have "update_results (resultID q) r (mToolResults rm) = Some [q'\<lparr>resultContent := r\<rparr>]"
    using rm by simp
  ultimately have "update_messages (resultID q) r (messages (a_ctx a)) =
      Some ((pre' @ [cm]) @ rm\<lparr>mToolResults := [q'\<lparr>resultContent := r\<rparr>]\<rparr> # post)"
    using update_messages_here [of "resultID q" "pre' @ [cm]" r rm _ post] ms by simp
  then have "messages (a_ctx (finishFunctionCall (resultID q) r st a)) =
      pre' @ cm # rm\<lparr>mToolResults := [q'\<lparr>resultContent := r\<rparr>]\<rparr> # post"
    using assms(3,4) by (simp add: finishFunctionCall_def Let_def on_ctx_def UpdateToolResult_def)
  moreover have "length pre' = length pre" using sh(1) map_eq_imp_length_eq by blast
  ultimately show ?thesis using cm rm by (auto simp: nth_append)
qed


section \<open>When the model runs again\<close>

text \<open>How often the model has been asked to run.\<close>

definition runs :: "asst_out list \<Rightarrow> nat" where
  "runs os = length (filter (\<lambda>x. x = APushContext Upstream) os)"

lemma runs_simps [simp]: "runs [] = 0" "runs (os @ os') = runs os + runs os'"
  "runs (x # os) = (if x = APushContext Upstream then 1 else 0) + runs os"
  by (simp_all add: runs_def)

lemma runs_contextUpdated [simp]:
  "runs (a_outs (runContextUpdated p a)) = runs (a_outs a)" "a_botSpeaking (runContextUpdated p a) = a_botSpeaking a"
  "a_userSpeaking (runContextUpdated p a) = a_userSpeaking a"
  "pushOnBotStopped (runContextUpdated p a) = pushOnBotStopped a"
  by (auto simp: runContextUpdated_def alog_def split: option.split)

lemma settle_fields [simp]:
  "a_outs (finishFunctionCall i r st a) = a_outs a" "a_outs (recordIntermediateResult i r a) = a_outs a"
  "a_botSpeaking (finishFunctionCall i r st a) = a_botSpeaking a"
  "a_botSpeaking (recordIntermediateResult i r a) = a_botSpeaking a"
  "a_userSpeaking (finishFunctionCall i r st a) = a_userSpeaking a"
  "a_userSpeaking (recordIntermediateResult i r a) = a_userSpeaking a"
  by (simp_all add: finishFunctionCall_def recordIntermediateResult_def on_ctx_def Let_def)

text \<open>
  The model is never asked to answer over somebody: whenever handling a tool call's frame, or the bot
  falling silent, asks the model to run, nobody is speaking, it is asked once, and nothing is left deferred.
\<close>

lemma tool_results_never_talk_over:
  assumes "(\<exists>x. body f = Fun x) \<or> body f = Sys BotStoppedSpeakingFrame"
    and "runs (a_outs (asst_ProcessFrame e f d a)) \<noteq> runs (a_outs a)"
  shows "\<not> a_userSpeaking a \<and> \<not> a_botSpeaking (asst_ProcessFrame e f d a) \<and>
    runs (a_outs (asst_ProcessFrame e f d a)) = runs (a_outs a) + 1 \<and>
    \<not> pushOnBotStopped (asst_ProcessFrame e f d a)"
proof (cases "\<exists>x. body f = Fun x")
  case False
  with assms show ?thesis
    by (auto simp: asst_ProcessFrame_def pushDeferredContext_def pushContextFrame_def alog_def split: if_splits)
next
  case True
  then obtain x where b: "body f = Fun x" by blast
  note push = maybePushContextAfterFunctionResult_def pushContextFrame_def alog_def
  show ?thesis
  proof (cases x)
    case (FunctionCallsStartedFrame cs)
    with assms(2) b show ?thesis by (simp add: asst_ProcessFrame_def handleFunctionCallsStarted_def)
  next
    case (FunctionCallInProgressFrame i n args c g)
    with assms(2) b show ?thesis
      by (simp add: asst_ProcessFrame_def handleFunctionCallInProgress_def Let_def on_ctx_def)
  next
    case (FunctionCallResultFrame i n r l p)
    with assms(2) b show ?thesis
      by (auto simp: asst_ProcessFrame_def handleFunctionCallResult_def Let_def push
          split: option.splits if_splits)
  next
    case (FunctionCallCancelFrame i n r)
    with assms(2) b show ?thesis
      by (auto simp: asst_ProcessFrame_def handleFunctionCallCancel_def Let_def push on_ctx_def
          split: option.splits if_splits)
  qed
qed

text \<open>The calls of one response that are still running.\<close>

definition group_ids :: "string \<Rightarrow> asst \<Rightarrow> string set" where
  "group_ids g a = {i. \<exists>st. map_of (inProgress a) i = Some (Some st) \<and> sc_GroupID st = g}"

lemma still_running:
  assumes "distinct (map fst (inProgress a))"
  shows "groupStillRunning g i a \<longleftrightarrow> group_ids g a - {i} \<noteq> {}"
proof -
  have "(j, v) \<in> set (inProgress a) \<longleftrightarrow> map_of (inProgress a) j = Some v" for j v
    using assms by (metis map_of_eq_Some_iff)
  then show ?thesis
    by (auto simp: groupStillRunning_def list_ex_iff group_ids_def split: option.splits) blast+
qed

definition result_step :: "asst_env \<times> frame \<times> Direction \<Rightarrow> string \<times> string \<Rightarrow> bool" where
  "result_step x ir \<longleftrightarrow> (case (x, ir) of ((e, f, d), (i, r)) \<Rightarrow>
     r \<noteq> [] \<and> (\<exists>n. body f = Fun (FunctionCallResultFrame i n r None None)))"

lemma result_step_effect:
  assumes "body f = Fun (FunctionCallResultFrame i n r None None)" and "r \<noteq> []" and "g \<noteq> []"
    and "i \<in> group_ids g a" and "distinct (map fst (inProgress a))" and "\<not> a_userSpeaking a"
  shows "group_ids g (asst_ProcessFrame e f d a) = group_ids g a - {i}"
    and "distinct (map fst (inProgress (asst_ProcessFrame e f d a)))"
    and "\<not> a_userSpeaking (asst_ProcessFrame e f d a)"
    and "a_botSpeaking (asst_ProcessFrame e f d a) = a_botSpeaking a"
    and "group_ids g a \<noteq> {i} \<Longrightarrow> runs (a_outs (asst_ProcessFrame e f d a)) = runs (a_outs a)"
    and "group_ids g a = {i} \<Longrightarrow> \<not> e_resultQueued e \<Longrightarrow>
      (if a_botSpeaking a
       then runs (a_outs (asst_ProcessFrame e f d a)) = runs (a_outs a) \<and> pushOnBotStopped (asst_ProcessFrame e f d a)
       else runs (a_outs (asst_ProcessFrame e f d a)) = runs (a_outs a) + 1)"
proof -
  from assms(4) obtain st where st: "map_of (inProgress a) i = Some (Some st)" "sc_GroupID st = g"
    by (auto simp: group_ids_def)
  define b where "b = finishFunctionCall i r st a"
  have ip: "inProgress b = AList.delete i (inProgress a)"
    by (simp add: b_def finishFunctionCall_def Let_def)
  have gb: "group_ids g b = group_ids g a - {i}"
    using ip by (auto simp: group_ids_def delete_conv' split: if_splits)
  have db: "distinct (map fst (inProgress b))" using ip assms(5) by (simp add: distinct_delete)
  have eq: "asst_ProcessFrame e f d a =
      (if \<not> groupStillRunning g i b then maybePushContextAfterFunctionResult e b else b)"
    using assms st by (simp add: asst_ProcessFrame_def handleFunctionCallResult_def Let_def Final_def
        shouldRunLLM_def b_def runContextUpdated_def)
  have sr: "groupStillRunning g i b \<longleftrightarrow> group_ids g a \<noteq> {i}"
    using still_running [OF db] gb assms(4) by auto
  have "inProgress (asst_ProcessFrame e f d a) = inProgress b" by (simp add: eq)
  with gb db show "group_ids g (asst_ProcessFrame e f d a) = group_ids g a - {i}"
    and "distinct (map fst (inProgress (asst_ProcessFrame e f d a)))" by (simp_all add: group_ids_def)
  show "\<not> a_userSpeaking (asst_ProcessFrame e f d a)"
    and "a_botSpeaking (asst_ProcessFrame e f d a) = a_botSpeaking a"
    using assms(6) by (auto simp: eq b_def maybePushContextAfterFunctionResult_def pushContextFrame_def alog_def)
  show "group_ids g a \<noteq> {i} \<Longrightarrow> runs (a_outs (asst_ProcessFrame e f d a)) = runs (a_outs a)"
    using sr by (simp add: eq b_def)
  show "group_ids g a = {i} \<Longrightarrow> \<not> e_resultQueued e \<Longrightarrow>
      (if a_botSpeaking a
       then runs (a_outs (asst_ProcessFrame e f d a)) = runs (a_outs a) \<and> pushOnBotStopped (asst_ProcessFrame e f d a)
       else runs (a_outs (asst_ProcessFrame e f d a)) = runs (a_outs a) + 1)"
    using sr by (simp add: eq b_def maybePushContextAfterFunctionResult_def pushContextFrame_def alog_def)
qed


section \<open>What the bot said\<close>

text \<open>What a text frame contributes to the turn, and what closes a turn and how.\<close>

fun contributes :: "frame_body \<Rightarrow> Part list option" where
  "contributes (Txt (TextFrame t)) = Some (if fAppendToContext t \<and> fText t \<noteq> []
     then [\<lparr>part_Text = fText t, IncludesInterPartSpaces = fInterFrameSpaces t\<rparr>] else [])"
| "contributes (Txt (LLMTextFrame t)) = Some (if fAppendToContext t \<and> fText t \<noteq> []
     then [\<lparr>part_Text = fText t, IncludesInterPartSpaces = fInterFrameSpaces t\<rparr>] else [])"
| "contributes (Txt (TTSTextFrame t raw x)) = Some (if fAppendToContext t \<and> fText t \<noteq> []
     then [\<lparr>part_Text = Original t raw, IncludesInterPartSpaces = fInterFrameSpaces t\<rparr>] else [])"
| "contributes (Txt (AggregatedTextFrame t raw x)) = Some (if fAppendToContext t \<and> fText t \<noteq> []
     then [\<lparr>part_Text = Original t raw, IncludesInterPartSpaces = fInterFrameSpaces t\<rparr>] else [])"
| "contributes b = None"

fun closes :: "frame_body \<Rightarrow> bool option" where
  "closes (Sys InterruptionFrame) = Some True"
| "closes (Sys (CancelFrame r)) = Some True"
| "closes (Ctl (EndFrame r)) = Some False"
| "closes (Ctl LLMAssistantPushAggregationFrame) = Some False"
| "closes (Ctl (LLMFullResponseEndFrame x)) = Some False"
| "closes b = None"

lemma contributes_step:
  assumes "contributes (body f) = Some ps"
  shows "asst_ProcessFrame e f d a =
    alog [APushed f d] (a\<lparr>aggregation := aggregation a @ ps\<rparr>)"
  using assms
  by (cases "body f" rule: contributes.cases)
    (auto simp: asst_ProcessFrame_def handleText_def say_def alog_def split: if_splits)

definition reported :: "asst_out list \<Rightarrow> asst_out list" where
  "reported os = filter (\<lambda>x. case x of ATurnStopped _ _ _ \<Rightarrow> True | _ \<Rightarrow> False) os"

lemma contributes_run:
  assumes "list_all2 (\<lambda>x ps. contributes (body (fst (snd x))) = Some ps) steps pss"
  shows "\<exists>os. asst_run steps a = alog os (a\<lparr>aggregation := aggregation a @ concat pss\<rparr>) \<and> reported os = []"
  using assms
proof (induction steps pss arbitrary: a rule: list_all2_induct)
  case Nil
  show ?case by (intro exI [of _ "[]"]) (simp add: alog_def reported_def)
next
  case (Cons x xs ps pss)
  obtain e f d where x: "x = (e, f, d)" by (metis surj_pair)
  with Cons.hyps have c: "contributes (body f) = Some ps" by simp
  from Cons.IH [of "asst_ProcessFrame e f d a"] obtain os where
    "asst_run xs (asst_ProcessFrame e f d a) =
       alog os ((asst_ProcessFrame e f d a)\<lparr>aggregation := aggregation (asst_ProcessFrame e f d a) @ concat pss\<rparr>)"
    "reported os = []" by blast
  then show ?case
    by (intro exI [of _ "APushed f d # os"]) (simp add: x contributes_step [OF c] alog_def reported_def)
qed

lemma closes_commit:
  assumes "closes (body f) = Some b"
  shows "a_ctx (asst_ProcessFrame e f d a) = a_ctx (commit e b a) \<and>
    turnStartedAt (asst_ProcessFrame e f d a) = turnStartedAt (commit e b a) \<and>
    (turnStartedAt a \<noteq> [] \<longrightarrow> aggregation (asst_ProcessFrame e f d a) = []) \<and>
    a_outs (asst_ProcessFrame e f d a) = a_outs (commit e b a) @ [APushed f d]"
  using assms
  by (cases "body f" rule: closes.cases)
    (auto simp: asst_ProcessFrame_def releaseWork_def commitInterrupted_def alog_def commit_def pushAggregation_def
      Let_def on_ctx_def split: if_splits)

text \<open>
  C14. What the bot said is what the conversation records: in an open turn, whatever text frames arrive before the
  turn is closed (by the response or the utterance ending, by an interruption, by the session ending or being
  cancelled), the conversation gains exactly one assistant message, the pieces that belong to it joined in their
  order, and none when nothing was said; nothing is carried into the next turn, and the turn is reported exactly
  once, without the protocol's markers, as cut off exactly when it was.
\<close>

theorem spoken_turn_recorded:
  assumes "turnStartedAt a \<noteq> []"
    and "list_all2 (\<lambda>x ps. contributes (body (fst (snd x))) = Some ps) steps pss"
    and "closes (body f) = Some b"
  shows "let said = Concatenate (aggregation a @ concat pss);
             a' = asst_run (steps @ [(e, f, d)]) a
         in messages (a_ctx a') = messages (a_ctx a) @ (if said = [] then [] else [text_message RoleAssistant said]) \<and>
            aggregation a' = [] \<and> turnStartedAt a' = [] \<and>
            reported (a_outs a') = reported (a_outs a) @
              [ATurnStopped (if said = [] then [] else StripUserTurnMarkers said (e_range e (seenMarkers a))) b
                 (turnStartedAt a)]"
proof -
  from contributes_run [OF assms(2)] obtain os where
    run: "asst_run steps a = alog os (a\<lparr>aggregation := aggregation a @ concat pss\<rparr>)" "reported os = []" by blast
  let ?a1 = "asst_run steps a"
  note cl = closes_commit [OF assms(3), of e d ?a1]
  have open1: "turnStartedAt ?a1 = turnStartedAt a" by (simp add: run alog_def)
  have "messages (a_ctx (asst_run [(e, f, d)] ?a1)) = messages (a_ctx a) @
      (if Concatenate (aggregation a @ concat pss) = [] then []
       else [text_message RoleAssistant (Concatenate (aggregation a @ concat pss))])"
    using cl assms(1) open1 by (simp add: commit_def pushAggregation_def Let_def run alog_def on_ctx_def
        AddAssistantMessage_def AddMessage_def split: prod.splits)
  moreover have "aggregation (asst_run [(e, f, d)] ?a1) = []" using cl assms(1) open1 by simp
  moreover have "turnStartedAt (asst_run [(e, f, d)] ?a1) = []"
    using cl assms(1) open1 by (simp add: commit_def pushAggregation_def Let_def alog_def on_ctx_def)
  moreover have "reported (a_outs (asst_run [(e, f, d)] ?a1)) = reported (a_outs a) @
      [ATurnStopped (if Concatenate (aggregation a @ concat pss) = [] then []
         else StripUserTurnMarkers (Concatenate (aggregation a @ concat pss)) (e_range e (seenMarkers a))) b
         (turnStartedAt a)]"
    using cl assms(1) open1 run(2)
    by (simp add: commit_def pushAggregation_def Let_def alog_def on_ctx_def run(1) reported_def)
  ultimately show ?thesis by (simp add: Let_def asst_run_append)
qed

section \<open>A conversation in which all of it happens\<close>

definition an_env :: asst_env where
  "an_env = \<lparr>e_now = ''2025-01-01T00:00:00.000Z'', e_range = id, e_resultQueued = False, e_resolvesStarts = False,
     e_resolvesStops = False, e_transform = (\<lambda>_. id), e_config = (\<lambda>_. ac_SummaryConfig NewAutoSummarizationConfig),
     e_requestID = ''r1'', e_prompt = ''Summarize.''\<rparr>"

definition at :: "frame_body \<Rightarrow> asst_env \<times> frame \<times> Direction" where
  "at b = (an_env, fst (NewBaseFrame [] b 0), Downstream)"

definition two_calls :: "(asst_env \<times> frame \<times> Direction) list" where
  "two_calls =
    map at
     [Ctl (LLMFullResponseStartFrame None), Txt (NewLLMTextFrame ''Let me see.''),
      Fun (FunctionCallsStartedFrame [\<lparr>callID = ''c1'', callName = ''f'', callArgs = ''{}''\<rparr>,
                                      \<lparr>callID = ''c2'', callName = ''f'', callArgs = ''{}''\<rparr>]),
      Fun (FunctionCallInProgressFrame ''c1'' ''f'' ''{}'' True ''g''),
      Fun (FunctionCallInProgressFrame ''c2'' ''f'' ''{}'' True ''g''),
      Ctl (LLMFullResponseEndFrame None)]"

abbreviation "sample_asst \<equiv> newAssistant (NewLLMContext []) None False"

lemma messages_keep_roles_witness:
  "well_roled (messages (a_ctx (asst_run (take 6 two_calls) sample_asst)))"
proof -
  have "run_brings well_roled two_calls sample_asst" and "well_roled (messages (NewLLMContext []))" by code_simp+
  then have "\<forall>m\<in>set (messages (a_ctx (asst_run (take 6 two_calls) sample_asst))).
    mLLM m \<noteq> [] \<or> mRole m \<in> {RoleSystem, RoleUser, RoleAssistant, RoleDeveloper}" by (intro messages_keep_roles)
  then show ?thesis by (simp add: well_roled_def known_role_def IsLLMSpecific_def list_all_iff)
qed

definition after_two_calls :: asst where
  "after_two_calls = asst_run two_calls sample_asst"


lemma tool_results_never_talk_over_witness:
  "runs (a_outs (asst_ProcessFrame an_env (fst (NewBaseFrame [] (Sys BotStoppedSpeakingFrame) 0)) Downstream
     (sample_asst\<lparr>a_botSpeaking := True, pushOnBotStopped := True\<rparr>))) = 1"
proof -
  let ?f = "fst (NewBaseFrame [] (Sys BotStoppedSpeakingFrame) 0)"
  let ?a = "sample_asst\<lparr>a_botSpeaking := True, pushOnBotStopped := True\<rparr>"
  have "runs (a_outs (asst_ProcessFrame an_env ?f Downstream ?a)) \<noteq> runs (a_outs ?a)" "runs (a_outs ?a) = 0"
    "body ?f = Sys BotStoppedSpeakingFrame" by code_simp+
  with tool_results_never_talk_over [of ?f an_env Downstream ?a] show ?thesis by simp
qed


lemma spoken_turn_recorded_witness:
  "map mText (messages (a_ctx (asst_run [at (Txt (NewTTSTextFrame ''Hello'')), at (Txt (NewTTSTextFrame ''there'')),
     at (Sys InterruptionFrame)] (sample_asst\<lparr>turnStartedAt := ''now''\<rparr>)))) = [''Hello there'']"
proof -
  let ?a = "sample_asst\<lparr>turnStartedAt := ''now''\<rparr>"
  let ?p = "\<lambda>w. [\<lparr>part_Text = w, IncludesInterPartSpaces = False\<rparr>]"
  let ?pss = "[?p ''Hello'', ?p ''there'']"
  let ?steps = "[at (Txt (NewTTSTextFrame ''Hello'')), at (Txt (NewTTSTextFrame ''there''))]"
  let ?f = "fst (NewBaseFrame [] (Sys InterruptionFrame) 0)"
  have "list_all2 (\<lambda>x ps. contributes (body (fst (snd x))) = Some ps) ?steps ?pss" by code_simp
  moreover have "closes (body ?f) = Some True" "turnStartedAt ?a \<noteq> []" by code_simp+
  moreover have "Concatenate (aggregation ?a @ concat ?pss) = ''Hello there''" "messages (a_ctx ?a) = []" by code_simp+
  ultimately show ?thesis
    using spoken_turn_recorded [of ?a ?steps ?pss ?f True an_env Downstream]
    by (simp add: Let_def at_def text_message_def)
qed

end
