(* ===== verification/User_Aggregator.thy ===== *)
theory User_Aggregator
  imports Turn_Processor Assistant_Properties
begin

text \<open>
  The user half of the pair of context aggregators, \<^verbatim>\<open>src/processor/aggregators/aggregators.go\<close>, from
  \<open>UserAggregator\<close> to \<open>maybeRun\<close> and from \<open>suppressed\<close> to \<open>reportTurnStopped\<close>, on top of the turn and idle
  controllers it drives, and the pair itself.

  As in the turn processor, the hooks reach neither controller, so the calls the turn controller has logged
  are carried out after its step, in their order; what a strategy pushes is queued back into the aggregator
  and arrives as a frame of its own. Voice activity is detected elsewhere in the pipeline (no \<open>WithVAD\<close>).
\<close>

section \<open>State\<close>

datatype user_out =
    UPushed frame Direction
  | UPushContext
  | UBroadcast frame_body
  | UInterrupted
  | UQueued frame_body Direction
  | UQueuedMetrics bool opaque "duration option"
  | UPushedUp frame_body
  | UTurnStarted nat
  | UTurnStopped "nat option" string string string
  | UInference nat
  | UStopTimeout
  | UIdle
  | UMessageAdded string string string
  | UMuteStarted
  | UMuteStopped

record 'a user_agg =
  u_ctx :: LLMContext
  u_toolChange :: bool
  pinnedStrategies :: bool
  u_turn :: "'a turn_ctl"
  u_idle :: idle_ctl
  muteStrategies :: "mute_strategy list"
  muted :: bool
  u_aggregation :: "Part list"
  u_turnStartedAt :: string
  wholeTurn :: string
  userID :: string
  u_outs :: "user_out list"

text \<open>
  What a step reads from outside: the time of day, the functions frames carry, and the turn strategies a
  service's metadata recommends.
\<close>

record 'a user_env =
  ue_now :: string
  ue_transform :: "opaque \<Rightarrow> Message list \<Rightarrow> Message list"
  ue_recommended :: "'a UserTurnStrategies option"

definition newUser ::
  "'a analyzer \<Rightarrow> LLMContext \<Rightarrow> 'a UserTurnStrategies \<Rightarrow> duration \<Rightarrow> duration \<Rightarrow> mute_strategy list \<Rightarrow> bool \<Rightarrow>
   int \<Rightarrow> duration \<Rightarrow> 'a user_agg" where
  "newUser A c strategies timeout idleTimeout mute toolChange sampleRate now =
    \<lparr>u_ctx = c, u_toolChange = toolChange, pinnedStrategies = (us_Start strategies \<noteq> [] \<or> us_Stop strategies \<noteq> []),
     u_turn = NewUserTurnController A strategies timeout sampleRate now,
     u_idle = NewUserIdleController idleTimeout True, muteStrategies = mute, muted = False,
     u_aggregation = [], u_turnStartedAt = [], wholeTurn = [], userID = [], u_outs = []\<rparr>"

definition ulog :: "user_out list \<Rightarrow> 'a user_agg \<Rightarrow> 'a user_agg" where
  "ulog os u = u\<lparr>u_outs := u_outs u @ os\<rparr>"

definition on_uctx :: "(LLMContext \<Rightarrow> LLMContext) \<Rightarrow> 'a user_agg \<Rightarrow> 'a user_agg" where
  "on_uctx g u = u\<lparr>u_ctx := g (u_ctx u)\<rparr>"

section \<open>Committing what the user said\<close>

definition maybeRun :: "'a user_agg \<Rightarrow> string \<times> 'a user_agg" where
  "maybeRun u =
    (let said = Concatenate (u_aggregation u); u = u\<lparr>u_aggregation := []\<rparr> in
     if said = [] then ([], u)
     else (said, ulog [UPushContext, UMessageAdded said (u_turnStartedAt u) (userID u)]
                   (on_uctx (AddUserMessage said) u)))"

definition rememberSegment :: "string \<Rightarrow> 'a user_agg \<Rightarrow> 'a user_agg" where
  "rememberSegment segment u =
    (if segment = [] then u
     else if wholeTurn u = [] then u\<lparr>wholeTurn := segment\<rparr>
     else u\<lparr>wholeTurn := TrimSpace (wholeTurn u @ '' '' @ segment)\<rparr>)"

definition reportTurnStopped :: "nat option \<Rightarrow> bool \<Rightarrow> 'a user_agg \<Rightarrow> 'a user_agg" where
  "reportTurnStopped strategy onSessionEnd u =
    (let (segment, u) = maybeRun u; u = rememberSegment segment u;
         content = wholeTurn u; startedAt = u_turnStartedAt u; u = u\<lparr>wholeTurn := []\<rparr>
     in if onSessionEnd \<and> content = [] then u
        else ulog [UTurnStopped strategy content startedAt (userID u)] (u\<lparr>u_turnStartedAt := []\<rparr>))"

section \<open>Hooks of the turn controller\<close>

definition tell_idle :: "frame_body \<Rightarrow> 'a user_agg \<Rightarrow> 'a user_agg" where
  "tell_idle b u = u\<lparr>u_idle := idle_Process (tnow (u_turn u)) b (u_idle u)\<rparr>"

fun user_hook :: "'a user_env \<Rightarrow> turn_event \<Rightarrow> 'a user_agg \<Rightarrow> 'a user_agg" where
  "user_hook e (HookStarted i params) u =
    (let u = u\<lparr>u_turnStartedAt := ue_now e, wholeTurn := []\<rparr>;
         u = (if sp_UserSpeakingFrames params then ulog [UBroadcast (Sys UserStartedSpeakingFrame)] u else u);
         u = tell_idle (Sys UserStartedSpeakingFrame) u;
         u = (if sp_Interruptions params then ulog [UInterrupted] u else u)
     in ulog [UTurnStarted i] u)"
| "user_hook e (HookStopped j params) u =
    (let u = (if tp_UserSpeakingFrames params then ulog [UBroadcast (Sys UserStoppedSpeakingFrame)] u else u);
         u = tell_idle (Sys UserStoppedSpeakingFrame) u
     in reportTurnStopped j False u)"
| "user_hook e (HookInferenceTriggered j) u =
    (let (segment, u) = maybeRun u; u = rememberSegment segment u in ulog [UInference j] u)"
| "user_hook e (HookResetAggregation i) u = u\<lparr>u_aggregation := []\<rparr>"
| "user_hook e HookStopTimeout u = ulog [UStopTimeout] u"
| "user_hook e (HookPush b dir) u = ulog [UQueued b dir] u"
| "user_hook e (HookTurnMetrics b pr t) u = ulog [UQueuedMetrics b pr t] u"
| "user_hook e (HookBroadcast b) u = ulog [UQueued b Downstream, UPushedUp b] u"
| "user_hook e _ u = u"

definition user_hooked :: "'a user_env \<Rightarrow> 'a turn_ctl \<Rightarrow> 'a user_agg \<Rightarrow> 'a user_agg" where
  "user_hooked e c u = fold (user_hook e) (drop (length (outs (u_turn u))) (outs c)) (u\<lparr>u_turn := c\<rparr>)"

section \<open>Muting\<close>

fun isUserInput :: "frame_body \<Rightarrow> bool" where
  "isUserInput (Sys InterruptionFrame) = True"
| "isUserInput (Trn (VADUserStartedSpeakingFrame d t)) = True"
| "isUserInput (Trn (VADUserStoppedSpeakingFrame d t')) = True"
| "isUserInput (Sys ProposedUserStartedSpeakingFrame) = True"
| "isUserInput (Ctl ProposedUserStoppedSpeakingFrame) = True"
| "isUserInput (Sys UserStartedSpeakingFrame) = True"
| "isUserInput (Sys UserStoppedSpeakingFrame) = True"
| "isUserInput (Aud (InputAudioRawFrame a)) = True"
| "isUserInput (Txt (InterimTranscriptionFrame t'')) = True"
| "isUserInput (Txt (TranscriptionFrame tx u fin)) = True"
| "isUserInput _ = False"

fun lifecycle :: "frame_body \<Rightarrow> bool" where
  "lifecycle (Sys (StartFrame i ou)) = True"
| "lifecycle (Ctl (EndFrame r)) = True"
| "lifecycle (Sys (CancelFrame r)) = True"
| "lifecycle _ = False"

text \<open>Every strategy is asked, so that each keeps up; any one of them mutes.\<close>

definition suppressed :: "frame \<Rightarrow> 'a user_agg \<Rightarrow> bool \<times> 'a user_agg" where
  "suppressed f u =
    (if lifecycle (body f) then (False, u)
     else let rs = map (ShouldMute (body f)) (muteStrategies u); m = list_ex snd rs;
              u' = u\<lparr>muteStrategies := map fst rs, muted := m\<rparr>
       in (muted u \<and> isUserInput (body f),
           if m = muted u then u'
           else if m then ulog [UMuteStarted, UBroadcast (Trn UserMuteStartedFrame)] u'
           else ulog [UMuteStopped, UBroadcast (Trn UserMuteStoppedFrame)] u'))"

section \<open>Handling a frame\<close>

definition handleTranscription :: "'a user_env \<Rightarrow> text_fields \<Rightarrow> string \<Rightarrow> 'a user_agg \<Rightarrow> 'a user_agg" where
  "handleTranscription e t uid u =
    (if TrimSpace (fText t) = [] then u
     else u\<lparr>u_turnStartedAt := (if u_turnStartedAt u = [] then ue_now e else u_turnStartedAt u), userID := uid,
            u_aggregation := u_aggregation u @
              [\<lparr>part_Text = fText t, IncludesInterPartSpaces = fInterFrameSpaces t\<rparr>]\<rparr>)"

definition stopControllers :: "'a user_agg \<Rightarrow> 'a user_agg" where
  "stopControllers u = u\<lparr>u_turn := Stop_ctl (u_turn u), u_idle := cancelTimer (u_idle u)\<rparr>"

definition urun_if :: "bool \<Rightarrow> 'a user_agg \<Rightarrow> 'a user_agg" where
  "urun_if run u = (if run then ulog [UPushContext] u else u)"

definition handleServiceUserTurnStrategies :: "'a analyzer \<Rightarrow> 'a user_env \<Rightarrow> 'a user_agg \<Rightarrow> 'a user_agg" where
  "handleServiceUserTurnStrategies A e u =
    (case ue_recommended e of
       None \<Rightarrow> u
     | Some s \<Rightarrow> if pinnedStrategies u then u else user_hooked e (UpdateStrategies A s (u_turn u)) u)"

fun handleFrame :: "'a analyzer \<Rightarrow> 'a user_env \<Rightarrow> frame \<Rightarrow> Direction \<Rightarrow> frame_body \<Rightarrow> 'a user_agg \<Rightarrow> 'a user_agg" where
  "handleFrame A e f d (Sys (StartFrame i ou)) u = ulog [UPushed f d] u"
| "handleFrame A e f d (Ctl (EndFrame r)) u = stopControllers (reportTurnStopped None True (ulog [UPushed f d] u))"
| "handleFrame A e f d (Sys (CancelFrame r)) u = ulog [UPushed f d] (stopControllers (reportTurnStopped None True u))"
| "handleFrame A e f d (Txt (InterimTranscriptionFrame t)) u = u"
| "handleFrame A e f d (Txt (TranslationFrame t)) u = u"
| "handleFrame A e f d (Txt (TranscriptionFrame t uid fin)) u = handleTranscription e t uid u"
| "handleFrame A e f d (Llm LLMRunFrame) u = ulog [UPushContext] u"
| "handleFrame A e f d (Trn (LLMMessagesAppendFrame ms run)) u = urun_if run (on_uctx (fold AddMessage ms) u)"
| "handleFrame A e f d (Llm (LLMMessagesUpdateFrame ms run)) u = urun_if run (on_uctx (SetMessages ms) u)"
| "handleFrame A e f d (Llm (LLMMessagesTransformFrame t run)) u =
    urun_if run (on_uctx (TransformMessages (map_option (ue_transform e) t)) u)"
| "handleFrame A e f d (Llm (LLMSetToolsFrame ts)) u =
    ulog [UPushed f d] (on_uctx (SetTools ts \<circ> maybeAddToolChangeMessages (u_toolChange u) ts) u)"
| "handleFrame A e f d (Llm (LLMSetToolChoiceFrame t)) u = on_uctx (SetToolChoice t) u"
| "handleFrame A e f d (Sys ProposedUserStartedSpeakingFrame) u =
    (if ResolvesProposedTurnStartFrames (u_turn u) then u else ulog [UPushed f d] u)"
| "handleFrame A e f d (Ctl ProposedUserStoppedSpeakingFrame) u =
    (if ResolvesProposedTurnStopFrames (u_turn u) then u else ulog [UPushed f d] u)"
| "handleFrame A e f d (Met m) u = ulog [UPushed f d] (handleServiceUserTurnStrategies A e u)"
| "handleFrame A e f d b u = ulog [UPushed f d] u"

definition user_ProcessFrame :: "'a analyzer \<Rightarrow> 'a user_env \<Rightarrow> frame \<Rightarrow> Direction \<Rightarrow> 'a user_agg \<Rightarrow> 'a user_agg" where
  "user_ProcessFrame A e f d u =
    (case suppressed f u of
       (True, u) \<Rightarrow> u
     | (False, u) \<Rightarrow>
         let u = handleFrame A e f d (body f) u;
             u = user_hooked e (Process A f (u_turn u)) u
         in tell_idle (body f) u)"

datatype 'a user_action = UserFrame frame Direction | UserTimer "'a turn_action" | UserIdle

text \<open>A frame, a timer of the turn controller or time passing, or the idle timer.\<close>

fun user_step :: "'a analyzer \<Rightarrow> 'a user_env \<Rightarrow> 'a user_action \<Rightarrow> 'a user_agg \<Rightarrow> 'a user_agg option" where
  "user_step A e (UserFrame f d) u = Some (user_ProcessFrame A e f d u)"
| "user_step A e (UserTimer a) u =
    (case a of
       FrameIn f \<Rightarrow> None
     | _ \<Rightarrow> (case turn_step A a (u_turn u) of None \<Rightarrow> None | Some c \<Rightarrow> Some (user_hooked e c u)))"
| "user_step A e UserIdle u =
    (case idle_fires (tnow (u_turn u)) (u_idle u) of
       None \<Rightarrow> None | Some i \<Rightarrow> Some (ulog [UIdle] (u\<lparr>u_idle := i\<rparr>)))"

fun user_run :: "'a analyzer \<Rightarrow> ('a user_env \<times> 'a user_action) list \<Rightarrow> 'a user_agg \<Rightarrow> 'a user_agg option" where
  "user_run A [] u = Some u"
| "user_run A ((e, a) # as) u = (case user_step A e a u of None \<Rightarrow> None | Some u' \<Rightarrow> user_run A as u')"

end
