(* ===== verification/User_Properties.thy ===== *)
theory User_Properties
  imports User_Aggregator
begin

text \<open>
  What the user aggregator guarantees, on its own and paired with the assistant half over one conversation.
\<close>

section \<open>Nothing the user said is lost\<close>

fun added :: "user_out list \<Rightarrow> string" where
  "added [] = []"
| "added (UMessageAdded content t uid # os) = content @ added os"
| "added (_ # os) = added os"

lemma added_append [simp]: "added (os @ os') = added os @ added os'"
  by (induction os rule: added.induct) auto

definition pending :: "'a user_agg \<Rightarrow> string" where
  "pending u = concat (map part_Text (u_aggregation u))"

text \<open>The words written so far and those still aggregated, white space apart.\<close>

definition words :: "'a user_agg \<Rightarrow> string" where
  "words u = solid (added (u_outs u)) @ solid (pending u)"

lemma words_ulog [simp]: "added os = [] \<Longrightarrow> words (ulog os u) = words u"
  by (simp add: words_def ulog_def pending_def)

lemma words_fields [simp]:
  "words (u\<lparr>u_turn := x1\<rparr>) = words u" "words (u\<lparr>u_idle := x2\<rparr>) = words u"
  "words (u\<lparr>u_turnStartedAt := x3\<rparr>) = words u" "words (u\<lparr>wholeTurn := x4\<rparr>) = words u"
  "words (u\<lparr>userID := x5\<rparr>) = words u" "words (u\<lparr>muted := x6\<rparr>) = words u"
  "words (u\<lparr>muteStrategies := x7\<rparr>) = words u" "words (u\<lparr>u_ctx := x8\<rparr>) = words u"
  by (simp_all add: words_def pending_def)

lemma words_on_uctx [simp]: "words (on_uctx g u) = words u"
  by (simp add: on_uctx_def)

lemma words_maybeRun: "words (snd (maybeRun u)) = words u"
  using solid_Concatenate [of "u_aggregation u"]
  by (auto simp: maybeRun_def Let_def words_def pending_def ulog_def on_uctx_def)

lemma words_remember [simp]: "words (rememberSegment s u) = words u"
  by (simp add: rememberSegment_def)

lemma words_report: "words (reportTurnStopped j b u) = words u"
  using words_maybeRun [of u]
  by (auto simp: reportTurnStopped_def Let_def split: prod.split)

lemma words_tell_idle [simp]: "words (tell_idle b u) = words u"
  by (simp add: tell_idle_def)

fun resets :: "turn_event \<Rightarrow> bool" where
  "resets (HookResetAggregation i) = True"
| "resets _ = False"

lemma words_hook: "\<not> resets ev \<Longrightarrow> words (user_hook e ev u) = words u"
  using words_maybeRun [of u]
  by (cases ev) (auto simp: Let_def words_report split: prod.split)

lemma words_hooks: "list_all (\<lambda>ev. \<not> resets ev) evs \<Longrightarrow> words (fold (user_hook e) evs u) = words u"
  by (induction evs arbitrary: u) (auto simp: words_hook)

lemma hook_turn [simp]: "u_turn (user_hook e ev u) = u_turn u"
  by (cases ev) (auto simp: Let_def ulog_def tell_idle_def maybeRun_def rememberSegment_def reportTurnStopped_def
      on_uctx_def split: prod.split)

lemma hooks_turn [simp]: "u_turn (fold (user_hook e) evs u) = u_turn u"
  by (induction evs arbitrary: u) auto

lemma user_hooked_turn [simp]: "u_turn (user_hooked e c u) = c"
  by (simp add: user_hooked_def)

lemma words_hooked:
  assumes "outs c = outs (u_turn u) @ evs" and "list_all (\<lambda>ev. \<not> resets ev) evs"
  shows "words (user_hooked e c u) = words u"
  using assms by (simp add: user_hooked_def words_hooks)

fun transcript :: "frame_body \<Rightarrow> string" where
  "transcript (Txt (TranscriptionFrame t uid fin)) = fText t"
| "transcript b = []"

lemma UpdateStrategies_outs [simp]: "outs (UpdateStrategies A s c) = outs c"
  by (simp add: UpdateStrategies_def setupStrategies_def cleanupStrategies_def Let_def)

lemma Stop_ctl_outs [simp]: "outs (Stop_ctl c) = outs c"
  by (simp add: Stop_ctl_def)

lemma blank_solid: "TrimSpace t = [] \<Longrightarrow> solid t = []"
  using solid_TrimSpace [of t] by simp

lemma words_transcription: "words (handleTranscription e t uid u) = words u @ solid (fText t)"
  by (simp add: handleTranscription_def words_def pending_def blank_solid)

lemma words_stopControllers [simp]: "words (stopControllers u) = words u"
  by (simp add: stopControllers_def)

lemma outs_simps [simp]:
  "u_turn (ulog os u) = u_turn u" "u_turn (on_uctx g u) = u_turn u" "u_turn (rememberSegment s u) = u_turn u"
  "u_turn (reportTurnStopped j b u) = u_turn u" "u_turn (urun_if r u) = u_turn u"
  "u_turn (handleTranscription e t uid u) = u_turn u" "u_turn (tell_idle x u) = u_turn u"
  by (auto simp: ulog_def on_uctx_def rememberSegment_def reportTurnStopped_def maybeRun_def Let_def urun_if_def
      handleTranscription_def tell_idle_def)

lemma outs_handleFrame: "outs (u_turn (handleFrame A e f d b u)) = outs (u_turn u)"
  by (cases "(A, e, f, d, b, u)" rule: handleFrame.cases)
    (auto simp: stopControllers_def handleServiceUserTurnStrategies_def split: option.split)

lemma words_recommended [simp]: "words (handleServiceUserTurnStrategies A e u) = words u"
  by (auto simp: handleServiceUserTurnStrategies_def words_hooked [where evs = "[]"] split: option.split)

lemma words_handleFrame: "words (handleFrame A e f d b u) = words u @ solid (transcript b)"
  by (cases "(A, e, f, d, b, u)" rule: handleFrame.cases)
    (auto simp: words_report words_transcription urun_if_def)

lemma suppressed_fields:
  "words (snd (suppressed f u)) = words u \<and> u_turn (snd (suppressed f u)) = u_turn u \<and>
   u_ctx (snd (suppressed f u)) = u_ctx u \<and> u_aggregation (snd (suppressed f u)) = u_aggregation u \<and>
   u_idle (snd (suppressed f u)) = u_idle u"
  by (simp add: suppressed_def Let_def) (simp add: ulog_def)

text \<open>What of a step's frame counts as said: the transcript of one that is not suppressed.\<close>

fun said_now :: "'a user_action \<Rightarrow> 'a user_agg \<Rightarrow> string" where
  "said_now (UserFrame f d) u = (if fst (suppressed f u) then [] else transcript (body f))"
| "said_now _ u = []"

lemma step_outs_grow:
  assumes "user_step A e a u = Some u'"
  shows "\<exists>evs. outs (u_turn u') = outs (u_turn u) @ evs"
proof (cases a)
  case (UserFrame f d)
  obtain b v where s: "suppressed f u = (b, v)" by fastforce
  with suppressed_fields [of f u] have v: "u_turn v = u_turn u" by simp
  show ?thesis
  proof (cases b)
    case False
    let ?w = "handleFrame A e f d (body f) v"
    have "\<exists>evs. outs (Process A f (u_turn ?w)) = outs (u_turn ?w) @ evs"
      by (rule step_grows [of A "FrameIn f"]) simp
    with assms UserFrame s v False show ?thesis
      by (auto simp: user_ProcessFrame_def Let_def outs_handleFrame)
  qed (use assms UserFrame s v in \<open>simp add: user_ProcessFrame_def\<close>)
next
  case (UserTimer t)
  with assms obtain c where "turn_step A t (u_turn u) = Some c" "u' = user_hooked e c u"
    by (cases t) (auto split: option.splits)
  with step_grows show ?thesis by fastforce
next
  case UserIdle
  with assms show ?thesis by (auto split: option.splits)
qed

lemma words_step:
  assumes "user_step A e a u = Some u'" and "list_all (\<lambda>ev. \<not> resets ev) (outs (u_turn u'))"
  shows "words u' = words u @ solid (said_now a u)"
proof (cases a)
  case (UserFrame f d)
  obtain b v where s: "suppressed f u = (b, v)" by fastforce
  with suppressed_fields [of f u] have v: "u_turn v = u_turn u" "words v = words u" by auto
  show ?thesis
  proof (cases b)
    case False
    let ?w = "handleFrame A e f d (body f) v"
    obtain evs where evs: "outs (Process A f (u_turn ?w)) = outs (u_turn ?w) @ evs"
      using step_grows [of A "FrameIn f" "u_turn ?w"] by auto
    from assms(1) UserFrame s False have u': "u' = tell_idle (body f) (user_hooked e (Process A f (u_turn ?w)) ?w)"
      by (simp add: user_ProcessFrame_def Let_def)
    with assms(2) evs have "list_all (\<lambda>ev. \<not> resets ev) evs" by simp
    from words_hooked [OF evs this] u' UserFrame s False v show ?thesis by (simp add: words_handleFrame)
  qed (use assms UserFrame s v in \<open>simp add: user_ProcessFrame_def\<close>)
next
  case (UserTimer t)
  with assms obtain c where c: "turn_step A t (u_turn u) = Some c" "u' = user_hooked e c u"
    by (cases t) (auto split: option.splits)
  from step_grows [OF c(1)] obtain evs where evs: "outs c = outs (u_turn u) @ evs" by blast
  with assms(2) c(2) have "list_all (\<lambda>ev. \<not> resets ev) evs" by simp
  from words_hooked [OF evs this] c(2) UserTimer show ?thesis by simp
next
  case UserIdle
  with assms show ?thesis by (auto split: option.splits)
qed

fun heard :: "'a analyzer \<Rightarrow> ('a user_env \<times> 'a user_action) list \<Rightarrow> 'a user_agg \<Rightarrow> string" where
  "heard A [] u = []"
| "heard A ((e, a) # as) u =
    said_now a u @ (case user_step A e a u of None \<Rightarrow> [] | Some u' \<Rightarrow> heard A as u')"

lemma run_outs_grow:
  "user_run A as u = Some u' \<Longrightarrow> \<exists>evs. outs (u_turn u') = outs (u_turn u) @ evs"
proof (induction as arbitrary: u)
  case (Cons x as)
  obtain e a where x: "x = (e, a)" by fastforce
  with Cons.prems obtain v where v: "user_step A e a u = Some v" "user_run A as v = Some u'"
    by (auto split: option.splits)
  from step_outs_grow [OF v(1)] Cons.IH [OF v(2)] show ?case by fastforce
qed simp

lemma words_run:
  assumes "user_run A as u = Some u'" and "list_all (\<lambda>ev. \<not> resets ev) (outs (u_turn u'))"
  shows "words u' = words u @ solid (heard A as u)"
  using assms(1)
proof (induction as arbitrary: u)
  case (Cons x as)
  obtain e a where x: "x = (e, a)" by fastforce
  with Cons.prems obtain v where v: "user_step A e a u = Some v" "user_run A as v = Some u'"
    by (auto split: option.splits)
  from run_outs_grow [OF v(2)] assms(2) have "list_all (\<lambda>ev. \<not> resets ev) (outs (u_turn v))" by auto
  from words_step [OF v(1) this] Cons.IH [OF v(2)] x v(1) show ?case by simp
qed simp


definition a_user_env :: "unit user_env" where
  "a_user_env = \<lparr>ue_now = ''2025-01-01T00:00:00.000Z'', ue_transform = (\<lambda>_. id), ue_recommended = None\<rparr>"

definition a_user :: "unit user_agg" where
  "a_user = newUser an_analyzer (NewLLMContext []) \<lparr>us_Start = [], us_Stop = [NewSpeechTimeoutStop 6 None]\<rparr> 0 0 [AlwaysUserMute False] False 16000 0"

definition one_turn :: "(unit user_env \<times> unit user_action) list" where
  "one_turn = map (\<lambda>a. (a_user_env, a))
    [UserFrame (a_frame (Trn (VADUserStartedSpeakingFrame 0 0))) Downstream,
     UserFrame (a_frame (Txt (NewTranscriptionFrame ''hello'' [] False))) Downstream,
     UserFrame (a_frame (Trn (VADUserStoppedSpeakingFrame 2 None))) Downstream,
     UserFrame (a_frame (Txt (NewTranscriptionFrame ''there'' [] True))) Downstream,
     UserTimer (Elapse 6), UserTimer (StopTimerFires 0 MainTimer),
     UserFrame (a_frame (Txt (NewTranscriptionFrame ''anyone'' [] False))) Downstream]"

definition after_turn :: "unit user_agg" where
  "after_turn = the (user_run an_analyzer one_turn a_user)"

lemma after_turn: "user_run an_analyzer one_turn a_user = Some after_turn"
proof -
  have "user_run an_analyzer one_turn a_user \<noteq> None" by code_simp
  then show ?thesis by (auto simp: after_turn_def)
qed


section \<open>A turn is reported whole\<close>

text \<open>What has been written since the last turn began or ended.\<close>

fun since :: "string \<Rightarrow> user_out list \<Rightarrow> string" where
  "since acc [] = acc"
| "since acc (UMessageAdded content t uid # os) = since (acc @ content) os"
| "since acc (UTurnStarted i # os) = since [] os"
| "since acc (UTurnStopped j content t uid # os) = since [] os"
| "since acc (_ # os) = since acc os"

lemma since_append [simp]: "since acc (os @ os') = since (since acc os) os'"
  by (induction acc os rule: since.induct) auto

text \<open>Every report in the log carries what was written since the last turn began or ended, spaces apart.\<close>

fun reports_whole :: "string \<Rightarrow> user_out list \<Rightarrow> bool" where
  "reports_whole acc [] = True"
| "reports_whole acc (UMessageAdded content t uid # os) = reports_whole (acc @ content) os"
| "reports_whole acc (UTurnStarted i # os) = reports_whole [] os"
| "reports_whole acc (UTurnStopped j content t uid # os) = (solid content = solid acc \<and> reports_whole [] os)"
| "reports_whole acc (_ # os) = reports_whole acc os"

lemma reports_whole_append [simp]:
  "reports_whole acc (os @ os') \<longleftrightarrow> reports_whole acc os \<and> reports_whole (since acc os) os'"
  by (induction acc os rule: since.induct) auto

definition whole_ok :: "'a user_agg \<Rightarrow> bool" where
  "whole_ok u \<longleftrightarrow> reports_whole [] (u_outs u) \<and> solid (wholeTurn u) = solid (since [] (u_outs u))"

lemma whole_ok_log: "whole_ok u \<Longrightarrow> reports_whole (since [] (u_outs u)) os \<Longrightarrow>
    solid (since (since [] (u_outs u)) os) = solid (since [] (u_outs u)) \<Longrightarrow> whole_ok (ulog os u)"
  by (simp add: whole_ok_def ulog_def)

lemma whole_ok_fields [simp]:
  "whole_ok (u\<lparr>u_turn := x1\<rparr>) = whole_ok u" "whole_ok (u\<lparr>u_idle := x2\<rparr>) = whole_ok u"
  "whole_ok (u\<lparr>u_turnStartedAt := x3\<rparr>) = whole_ok u" "whole_ok (u\<lparr>u_aggregation := x4\<rparr>) = whole_ok u"
  "whole_ok (u\<lparr>userID := x5\<rparr>) = whole_ok u" "whole_ok (u\<lparr>muted := x6\<rparr>) = whole_ok u"
  "whole_ok (u\<lparr>muteStrategies := x7\<rparr>) = whole_ok u" "whole_ok (u\<lparr>u_ctx := x8\<rparr>) = whole_ok u"
  "whole_ok (tell_idle b u) = whole_ok u" "whole_ok (on_uctx g u) = whole_ok u"
  by (simp_all add: whole_ok_def tell_idle_def on_uctx_def)

text \<open>Committing a segment and remembering it.\<close>

lemma whole_ok_segment:
  assumes "whole_ok u" and "maybeRun u = (segment, v)"
  shows "whole_ok (rememberSegment segment v)"
  using assms
  by (auto simp: maybeRun_def Let_def rememberSegment_def whole_ok_def ulog_def on_uctx_def solid_TrimSpace
      split: if_splits)

lemma whole_ok_report: "whole_ok u \<Longrightarrow> whole_ok (reportTurnStopped j b u)"
proof -
  assume a: "whole_ok u"
  obtain segment v where m: "maybeRun u = (segment, v)" by fastforce
  from whole_ok_segment [OF a m] have "whole_ok (rememberSegment segment v)" .
  with m show ?thesis by (auto simp: reportTurnStopped_def Let_def whole_ok_def ulog_def)
qed

lemma whole_ok_hook: "whole_ok u \<Longrightarrow> whole_ok (user_hook e ev u)"
proof (cases ev)
  case (HookStarted i params)
  moreover assume "whole_ok u"
  ultimately show ?thesis by (auto simp: Let_def whole_ok_def ulog_def tell_idle_def)
next
  case (HookInferenceTriggered j)
  moreover assume a: "whole_ok u"
  moreover obtain segment v where m: "maybeRun u = (segment, v)" by fastforce
  ultimately show ?thesis using whole_ok_segment [OF a m] by (simp add: whole_ok_log)
qed (auto simp: Let_def whole_ok_log whole_ok_report)

lemma whole_ok_hooks: "whole_ok u \<Longrightarrow> whole_ok (fold (user_hook e) evs u)"
  by (induction evs arbitrary: u) (auto simp: whole_ok_hook)

lemma whole_ok_hooked: "whole_ok u \<Longrightarrow> whole_ok (user_hooked e c u)"
  by (simp add: user_hooked_def whole_ok_hooks)

lemma whole_ok_recommended: "whole_ok u \<Longrightarrow> whole_ok (handleServiceUserTurnStrategies A e u)"
  by (simp add: handleServiceUserTurnStrategies_def whole_ok_hooked split: option.split)

lemma whole_ok_handleFrame: "whole_ok u \<Longrightarrow> whole_ok (handleFrame A e f d b u)"
  by (cases "(A, e, f, d, b, u)" rule: handleFrame.cases)
    (auto simp: whole_ok_log whole_ok_report whole_ok_recommended stopControllers_def urun_if_def
      handleTranscription_def)

lemma whole_ok_suppressed: "whole_ok u \<Longrightarrow> whole_ok (snd (suppressed f u))"
  by (simp add: suppressed_def Let_def whole_ok_log)

lemma whole_ok_step: "whole_ok u \<Longrightarrow> user_step A e a u = Some u' \<Longrightarrow> whole_ok u'"
proof (induction A e a u rule: user_step.induct)
  case (1 A e f d u)
  obtain b v where s: "suppressed f u = (b, v)" by fastforce
  with whole_ok_suppressed [OF "1.prems"(1), of f] have "whole_ok v" by simp
  with "1.prems"(2) s show ?case
    by (cases b) (auto simp: user_ProcessFrame_def Let_def whole_ok_hooked whole_ok_handleFrame)
next
  case (2 A e a u)
  then show ?case by (cases a) (auto simp: whole_ok_hooked split: option.splits)
next
  case (3 A e u)
  then show ?case by (auto simp: whole_ok_log split: option.splits)
qed

lemma whole_ok_run: "whole_ok u \<Longrightarrow> user_run A as u = Some u' \<Longrightarrow> whole_ok u'"
proof (induction as arbitrary: u)
  case (Cons x as)
  obtain e a where "x = (e, a)" by fastforce
  with Cons show ?case by (auto split: option.splits intro: whole_ok_step)
qed simp

text \<open>
  The report of a turn carries everything the turn wrote: whatever happens, in the log of what the
  aggregator raised, each report of a turn that ended has the text of all the messages added since the last
  turn began or ended, including those an early inference answered, spaces apart.
\<close>

lemma turn_report_covers_turn:
  assumes "user_run A as (newUser A c strategies timeout idleTimeout mute toolChange sampleRate now) = Some u"
  shows "reports_whole [] (u_outs u)"
proof -
  have "whole_ok (newUser A c strategies timeout idleTimeout mute toolChange sampleRate now)"
    by (simp add: whole_ok_def newUser_def)
  from whole_ok_run [OF this assms] show ?thesis by (simp add: whole_ok_def)
qed

lemma turn_report_covers_turn_witness:
  "reports_whole [] (u_outs after_turn) \<and> list_ex (\<lambda>x. case x of UTurnStopped j c t i \<Rightarrow> c = ''hello there'' | _ \<Rightarrow> False) (u_outs after_turn)"
proof -
  have "user_run an_analyzer one_turn (newUser an_analyzer (NewLLMContext []) \<lparr>us_Start = [], us_Stop = [NewSpeechTimeoutStop 6 None]\<rparr> 0 0
      [AlwaysUserMute False] False 16000 0) = Some after_turn" using after_turn by (simp add: a_user_def)
  from turn_report_covers_turn [OF this] show ?thesis by (rule conjI) code_simp
qed

section \<open>Muting\<close>

text \<open>
  What a muted user does has no effect: while muted, a frame of user input leaves the conversation, the
  words aggregated, the turn and the idle timer exactly as they were and is not pushed on; all it can do is
  move the mute strategies and, with them, the announced state.
\<close>

lemma muted_input_ignored:
  assumes "muted u" and "isUserInput (body f)"
  shows "let u' = user_ProcessFrame A e f d u
         in u_ctx u' = u_ctx u \<and> u_aggregation u' = u_aggregation u \<and> u_turn u' = u_turn u \<and> u_idle u' = u_idle u \<and>
            (u_outs u' = u_outs u \<and> muted u' \<or>
             u_outs u' = u_outs u @ [UMuteStopped, UBroadcast (Trn UserMuteStoppedFrame)] \<and> \<not> muted u')"
proof -
  have "\<not> lifecycle (body f)" using assms(2) by (cases "body f" rule: isUserInput.cases) auto
  with assms show ?thesis
    by (auto simp: user_ProcessFrame_def suppressed_def Let_def ulog_def)
qed

lemma muted_input_ignored_witness:
  "u_aggregation (user_ProcessFrame an_analyzer a_user_env (a_frame (Txt (NewTranscriptionFrame ''hey'' [] True))) Downstream
     (a_user\<lparr>muted := True\<rparr>)) = []"
proof -
  let ?f = "a_frame (Txt (NewTranscriptionFrame ''hey'' [] True))"
  have "isUserInput (body ?f)" "u_aggregation (a_user\<lparr>muted := True\<rparr>) = []" by code_simp+
  with muted_input_ignored [of "a_user\<lparr>muted := True\<rparr>" ?f an_analyzer a_user_env Downstream] show ?thesis
    by (simp add: Let_def)
qed

end
