(* ===== verification/Context_Pair.thy ===== *)
theory Context_Pair
  imports User_Properties
begin

text \<open>
  The pair of aggregators \<open>New\<close> builds in \<^verbatim>\<open>src/processor/aggregators/aggregators.go\<close>: the two halves run in
  different processors and share one conversation. A step is one frame or timer of either half; the shared
  context is handed to the half that moves. The last section takes the assistant half's writes apart and shows
  what can come between them.
\<close>

section \<open>The pair\<close>

record 'a pair =
  p_ctx :: LLMContext
  p_user :: "'a user_agg"
  p_asst :: asst

text \<open>The mute strategies of the two options are run together.\<close>

definition New_pair ::
  "'a analyzer \<Rightarrow> LLMContext \<Rightarrow> 'a UserTurnStrategies \<Rightarrow> duration \<Rightarrow> duration \<Rightarrow> mute_strategy list \<Rightarrow>
   mute_strategy list \<Rightarrow> AutoSummarizationConfig option \<Rightarrow> bool \<Rightarrow> int \<Rightarrow> duration \<Rightarrow> 'a pair" where
  "New_pair A c strategies timeout idleTimeout mute turnsMute summarize toolChange sampleRate now =
    \<lparr>p_ctx = c, p_user = newUser A c strategies timeout idleTimeout (mute @ turnsMute) toolChange sampleRate now,
     p_asst = newAssistant c summarize toolChange\<rparr>"

datatype 'a pair_action =
    UserActs "'a user_env" "'a user_action"
  | AsstActs asst_env frame Direction

text \<open>The assistant half asks the user half what it resolves.\<close>

definition paired_env :: "'a pair \<Rightarrow> asst_env \<Rightarrow> asst_env" where
  "paired_env p e =
    e\<lparr>e_resolvesStarts := ResolvesProposedTurnStartFrames (u_turn (p_user p)),
      e_resolvesStops := ResolvesProposedTurnStopFrames (u_turn (p_user p))\<rparr>"

fun pair_step :: "'a analyzer \<Rightarrow> 'a pair_action \<Rightarrow> 'a pair \<Rightarrow> 'a pair option" where
  "pair_step A (UserActs e a) p =
    (case user_step A e a ((p_user p)\<lparr>u_ctx := p_ctx p\<rparr>) of
       None \<Rightarrow> None
     | Some u \<Rightarrow> Some (p\<lparr>p_ctx := u_ctx u, p_user := u\<rparr>))"
| "pair_step A (AsstActs e f d) p =
    (let a = asst_ProcessFrame (paired_env p e) f d ((p_asst p)\<lparr>a_ctx := p_ctx p\<rparr>)
     in Some (p\<lparr>p_ctx := a_ctx a, p_asst := a\<rparr>))"

fun pair_run :: "'a analyzer \<Rightarrow> 'a pair_action list \<Rightarrow> 'a pair \<Rightarrow> 'a pair option" where
  "pair_run A [] p = Some p"
| "pair_run A (x # xs) p = (case pair_step A x p of None \<Rightarrow> None | Some p' \<Rightarrow> pair_run A xs p')"

section \<open>What either half brings\<close>

fun user_brings :: "(Message list \<Rightarrow> bool) \<Rightarrow> 'a user_env \<Rightarrow> LLMContext \<Rightarrow> frame_body \<Rightarrow> bool" where
  "user_brings P e c (Trn (LLMMessagesAppendFrame ms run)) = P ms"
| "user_brings P e c (Llm (LLMMessagesUpdateFrame ms run)) = P ms"
| "user_brings P e c (Llm (LLMMessagesTransformFrame t run)) =
    (case t of None \<Rightarrow> True | Some k \<Rightarrow> P (ue_transform e k (messages c)))"
| "user_brings P e c b = True"

fun pair_brings :: "(Message list \<Rightarrow> bool) \<Rightarrow> 'a pair_action \<Rightarrow> 'a pair \<Rightarrow> bool" where
  "pair_brings P (UserActs e (UserFrame f d)) p = user_brings P e (p_ctx p) (body f)"
| "pair_brings P (UserActs e a) p = True"
| "pair_brings P (AsstActs e f d) p =
    frame_brings P (paired_env p e) ((p_asst p)\<lparr>a_ctx := p_ctx p\<rparr>) (body f)"

fun pair_run_brings :: "(Message list \<Rightarrow> bool) \<Rightarrow> 'a analyzer \<Rightarrow> 'a pair_action list \<Rightarrow> 'a pair \<Rightarrow> bool" where
  "pair_run_brings P A [] p = True"
| "pair_run_brings P A (x # xs) p =
    (pair_brings P x p \<and> (case pair_step A x p of None \<Rightarrow> True | Some p' \<Rightarrow> pair_run_brings P A xs p'))"

context conversation_invariant
begin

abbreviation uP :: "'b user_agg \<Rightarrow> bool" where
  "uP u \<equiv> P (messages (u_ctx u))"

lemma uP_maybeRun: "uP u \<Longrightarrow> uP (snd (maybeRun u))"
  by (auto simp: maybeRun_def Let_def ulog_def on_uctx_def AddUserMessage_def AddMessage_def intro: plain)

lemma uP_report: "uP u \<Longrightarrow> uP (reportTurnStopped j b u)"
  using uP_maybeRun [of u]
  by (auto simp: reportTurnStopped_def Let_def rememberSegment_def ulog_def split: prod.split)

lemma uP_hook: "uP u \<Longrightarrow> uP (user_hook e ev u)"
  using uP_maybeRun [of u]
  by (cases ev) (auto simp: Let_def ulog_def tell_idle_def rememberSegment_def intro!: uP_report split: prod.split)

lemma uP_hooks: "uP u \<Longrightarrow> uP (fold (user_hook e) evs u)"
  by (induction evs arbitrary: u) (auto simp: uP_hook)

lemma uP_hooked: "uP u \<Longrightarrow> uP (user_hooked e c u)"
  using uP_hooks [of "u\<lparr>u_turn := c\<rparr>" e] by (simp add: user_hooked_def)

lemma uP_recommended: "uP u \<Longrightarrow> uP (handleServiceUserTurnStrategies A e u)"
  by (simp add: handleServiceUserTurnStrategies_def uP_hooked split: option.split)

lemma uP_handleFrame:
  assumes "uP u" and "user_brings P e (u_ctx u) b"
  shows "uP (handleFrame A e f d b u)"
proof -
  have "uP (reportTurnStopped None True (ulog os u))" for os
    using uP_report [of "ulog os u"] assms(1) by (simp add: ulog_def)
  with assms show ?thesis
    by (cases "(A, e, f, d, b, u)" rule: handleFrame.cases)
      (auto simp: ulog_def urun_if_def on_uctx_def stopControllers_def handleTranscription_def fold_AddMessage
        SetMessages_def TransformMessages_def P_toolChange SetToolChoice_def uP_report
        intro: append uP_recommended split: option.splits)
qed

lemma uP_step:
  assumes "uP u" and "user_step A e a u = Some u'"
    and "\<And>f d. a = UserFrame f d \<Longrightarrow> user_brings P e (u_ctx u) (body f)"
  shows "uP u'"
proof (cases a)
  case (UserFrame f d)
  obtain b v where s: "suppressed f u = (b, v)" by fastforce
  with suppressed_fields [of f u] have "u_ctx v = u_ctx u" by simp
  with assms UserFrame s uP_handleFrame [of v e "body f" A f d] show ?thesis
    by (cases b) (auto simp: user_ProcessFrame_def Let_def tell_idle_def uP_hooked)
next
  case (UserTimer t)
  with assms show ?thesis by (cases t) (auto simp: uP_hooked split: option.splits)
next
  case UserIdle
  with assms show ?thesis by (auto simp: ulog_def split: option.splits)
qed

definition pair_holds :: "'b pair \<Rightarrow> bool" where
  "pair_holds p \<longleftrightarrow> P (messages (p_ctx p)) \<and> thought_named (p_asst p)"

lemma pair_holds_step:
  assumes "pair_holds p" and "pair_step A x p = Some p'" and "pair_brings P x p"
  shows "pair_holds p'"
proof (cases x)
  case (UserActs e a)
  with assms(2) obtain u where u: "user_step A e a ((p_user p)\<lparr>u_ctx := p_ctx p\<rparr>) = Some u"
    and p': "p' = p\<lparr>p_ctx := u_ctx u, p_user := u\<rparr>" by (auto split: option.splits)
  have "uP u"
    by (rule uP_step [OF _ u]) (use assms UserActs in \<open>auto simp: pair_holds_def\<close>)
  with assms(1) p' show ?thesis by (simp add: pair_holds_def)
next
  case (AsstActs e f d)
  have "holds ((p_asst p)\<lparr>a_ctx := p_ctx p\<rparr>)"
    using assms(1) by (simp add: pair_holds_def holds_def thought_named_def)
  from brings_step [OF this, of "paired_env p e" f d] assms(2,3) AsstActs show ?thesis
    by (auto simp: pair_holds_def holds_def thought_named_def Let_def)
qed

lemma pair_holds_run:
  "pair_holds p \<Longrightarrow> pair_run A xs p = Some p' \<Longrightarrow> pair_run_brings P A xs p \<Longrightarrow> pair_holds p'"
proof (induction xs arbitrary: p)
  case (Cons x xs)
  then obtain q where "pair_step A x p = Some q" "pair_run A xs q = Some p'" by (auto split: option.splits)
  with Cons pair_holds_step [of p A x q] show ?case by simp
qed simp

end


definition a_pair :: "unit pair" where
  "a_pair = New_pair an_analyzer (NewLLMContext []) \<lparr>us_Start = [], us_Stop = []\<rparr> 0 0 [] [] None True 16000 0"

definition call_in_turn :: "unit pair_action list" where
  "call_in_turn =
    [UserActs a_user_env (UserFrame (a_frame (Txt (NewTranscriptionFrame ''what time is it'' [] True))) Downstream),
     AsstActs an_env (a_frame (Fun (FunctionCallInProgressFrame ''c1'' ''clock'' ''{}'' True ''g''))) Downstream,
     UserActs a_user_env (UserFrame (a_frame (Ctl (EndFrame []))) Downstream),
     AsstActs an_env (a_frame (Fun (FunctionCallResultFrame ''c1'' ''clock'' ''noon'' None None))) Downstream]"


section \<open>A change of toolset is announced once\<close>

lemma missingFrom_same [simp]: "missingFrom a a = []"
  by (simp add: missingFrom_def filter_empty_conv)

lemma Tools_SetTools [simp]: "Tools (SetTools ts c) = ts"
  by (simp add: Tools_def SetTools_def)

text \<open>
  A change of toolset is announced to the model exactly once: when a frame setting the tools reaches one
  half and then, forwarded, the other, in either order, the conversation has gained the one announcement the
  first of them wrote (none when the tools have the same names), and both leave the new toolset in place.
\<close>

lemma tool_change_announced_once:
  assumes "body f = Llm (LLMSetToolsFrame ts)" and "u_toolChange (p_user p)" and "a_toolChange (p_asst p)"
    and "xs = [UserActs ue (UserFrame f d), AsstActs ae f d] \<or> xs = [AsstActs ae f d, UserActs ue (UserFrame f d)]"
    and "pair_run A xs p = Some p'"
  shows "messages (p_ctx p') = messages (maybeAddToolChangeMessages True ts (p_ctx p)) \<and>
    Tools (p_ctx p') = ts \<and> length (messages (p_ctx p')) \<le> length (messages (p_ctx p)) + 1"
proof -
  have once: "maybeAddToolChangeMessages b ts (SetTools ts c) = SetTools ts c" for b c
    by (simp add: maybeAddToolChangeMessages_def)
  have twice: "SetTools ts (SetTools ts c) = SetTools ts c" for c by (simp add: SetTools_def)
  have other: "turn_frame_of (body f) = FOther" using assms(1) by simp
  have user: "u_ctx (user_ProcessFrame A ue f d u) = SetTools ts (maybeAddToolChangeMessages (u_toolChange u) ts (u_ctx u))" for u
  proof -
    obtain b v where s: "suppressed f u = (b, v)" by fastforce
    with suppressed_fields [of f u] have v: "u_ctx v = u_ctx u" by simp
    from s assms(1) have b: "\<not> b" and "u_toolChange v = u_toolChange u"
      by (auto simp: suppressed_def Let_def ulog_def split: if_splits)
    with s v assms(1) other show ?thesis
      by (simp add: user_ProcessFrame_def Let_def Process_other user_hooked_def tell_idle_def ulog_def on_uctx_def)
  qed
  have asst: "a_ctx (asst_ProcessFrame e f d a) = SetTools ts (maybeAddToolChangeMessages (a_toolChange a) ts (a_ctx a))" for e a
    using assms(1) by (simp add: asst_ProcessFrame_def on_ctx_def)
  have "p_ctx p' = SetTools ts (maybeAddToolChangeMessages True ts (p_ctx p))"
    using assms(2-5) user asst by (auto simp: Let_def once twice)
  moreover have "messages (SetTools ts c) = messages c" for c by (simp add: SetTools_def)
  moreover have "length (messages (maybeAddToolChangeMessages True ts c)) \<le> length (messages c) + 1" for c
    by (simp add: maybeAddToolChangeMessages_def Let_def AddMessage_def)
  ultimately show ?thesis by simp
qed

lemma tool_change_announced_once_witness:
  "length (messages (p_ctx (the (pair_run an_analyzer
     [AsstActs an_env (a_frame (Llm (LLMSetToolsFrame [\<lparr>toolName = ''clock'', toolDescription = [], toolRest = 0\<rparr>]))) Upstream,
      UserActs a_user_env (UserFrame (a_frame (Llm (LLMSetToolsFrame [\<lparr>toolName = ''clock'', toolDescription = [], toolRest = 0\<rparr>]))) Upstream)]
     a_pair)))) \<le> 1"
proof -
  let ?ts = "[\<lparr>toolName = ''clock'', toolDescription = [], toolRest = 0\<rparr>]"
  let ?f = "a_frame (Llm (LLMSetToolsFrame ?ts))"
  let ?xs = "[AsstActs an_env ?f Upstream, UserActs a_user_env (UserFrame ?f Upstream)]"
  have "pair_run an_analyzer ?xs a_pair \<noteq> None" by code_simp
  then have r: "pair_run an_analyzer ?xs a_pair = Some (the (pair_run an_analyzer ?xs a_pair))" by auto
  have b: "body ?f = Llm (LLMSetToolsFrame ?ts)" and u: "u_toolChange (p_user a_pair)" and a: "a_toolChange (p_asst a_pair)"
    and z: "length (messages (p_ctx a_pair)) = 0" by code_simp+
  from tool_change_announced_once [OF b u a disjI2 [OF refl] r]
  have "length (messages (p_ctx (the (pair_run an_analyzer ?xs a_pair)))) \<le> length (messages (p_ctx a_pair)) + 1" by blast
  then show ?thesis unfolding z by (simp only: add_0)
qed

section \<open>Between two writes\<close>

text \<open>
  \<open>handleFunctionCallInProgress\<close> writes the call and its placeholder with two calls, each of which locks the
  conversation for itself, while the user half runs in another goroutine. A user message committed between
  them parts the call from its answer, and the context frame pushed with it has the model run on a
  conversation whose last call is unanswered.
\<close>

lemma call_parted_by_user_message:
  "let c0 = NewLLMContext [];
       c1 = AddAssistantToolCall \<lparr>callID = ''c1'', callName = ''f'', callArgs = ''{}''\<rparr> c0;
       c2 = AddUserMessage ''wait'' c1;
       c3 = AddToolResult \<lparr>resultID = ''c1'', resultName = ''f'', resultContent = ToolResultInProgress\<rparr> c2
   in paired (messages c0) \<and> \<not> paired (messages c2) \<and> \<not> paired (messages c3)"
  by code_simp

end
