(* ===== verification/Context_Store.thy ===== *)
theory Context_Store
  imports Llm_Context
begin

text \<open>
  The conversation with its arrays of tool results in a store, as the Go slices of
  \<^verbatim>\<open>src/frames/llm_context.go\<close> are: a message holds the address of its array, \<open>clone\<close> copies the array,
  \<open>AddMessage\<close> shares it, and \<open>UpdateToolResult\<close> writes into it. The operations on values of
  \<open>Llm_Context\<close> are what these do, and a copy handed out by \<open>Messages\<close> is never written under its reader.
\<close>

section \<open>The store\<close>

type_synonym addr = nat

record store =
  arr :: "addr \<Rightarrow> ToolResult list"
  fresh :: addr

text \<open>A message as the code holds it: its fields, and the address of its results (none for a nil slice).\<close>

datatype hmsg = HMsg Message "addr option"

fun load :: "store \<Rightarrow> hmsg \<Rightarrow> Message" where
  "load h (HMsg m None) = m\<lparr>mToolResults := []\<rparr>"
| "load h (HMsg m (Some p)) = m\<lparr>mToolResults := arr h p\<rparr>"

text \<open>The array a message can be changed through.\<close>

fun owned :: "store \<Rightarrow> hmsg \<Rightarrow> addr list" where
  "owned h (HMsg m None) = []"
| "owned h (HMsg m (Some p)) = (if arr h p = [] then [] else [p])"

definition alloc :: "ToolResult list \<Rightarrow> store \<Rightarrow> addr \<times> store" where
  "alloc rs h = (fresh h, h\<lparr>arr := (arr h)(fresh h := rs), fresh := fresh h + 1\<rparr>)"

text \<open>\<open>Message.clone\<close> and \<open>cloneMessages\<close>.\<close>

fun clone :: "hmsg \<Rightarrow> store \<Rightarrow> hmsg \<times> store" where
  "clone (HMsg m None) h = (HMsg m None, h)"
| "clone (HMsg m (Some p)) h =
    (if arr h p = [] then (HMsg m (Some p), h)
     else let (q, h') = alloc (arr h p) h in (HMsg m (Some q), h'))"

fun cloneMessages :: "hmsg list \<Rightarrow> store \<Rightarrow> hmsg list \<times> store" where
  "cloneMessages [] h = ([], h)"
| "cloneMessages (m # ms) h =
    (let (m', h1) = clone m h; (ms', h2) = cloneMessages ms h1 in (m' # ms', h2))"

text \<open>The two loops of \<open>UpdateToolResult\<close>, writing into the array of the first match.\<close>

fun update_store :: "string \<Rightarrow> string \<Rightarrow> hmsg list \<Rightarrow> store \<Rightarrow> store" where
  "update_store i x [] h = h"
| "update_store i x (HMsg m None # ms) h = update_store i x ms h"
| "update_store i x (HMsg m (Some p) # ms) h =
    (case update_results i x (arr h p) of
       Some rs \<Rightarrow> h\<lparr>arr := (arr h)(p := rs)\<rparr>
     | None \<Rightarrow> update_store i x ms h)"

section \<open>The operations\<close>

record convo =
  st :: store
  msgs :: "hmsg list"
  snaps :: "hmsg list list"

datatype convo_op =
    OpAddMessage hmsg
  | OpAddToolResult ToolResult
  | OpSetMessages "hmsg list"
  | OpUpdateToolResult string string
  | OpMessages

text \<open>\<open>Messages\<close> hands its copy to the caller, who keeps it.\<close>

fun convo_step :: "convo_op \<Rightarrow> convo \<Rightarrow> convo" where
  "convo_step (OpAddMessage m) s = s\<lparr>msgs := msgs s @ [m]\<rparr>"
| "convo_step (OpAddToolResult r) s =
    (let (p, h) = alloc [r] (st s) in
     s\<lparr>st := h, msgs := msgs s @ [HMsg (an_empty_message\<lparr>mRole := RoleUser\<rparr>) (Some p)]\<rparr>)"
| "convo_step (OpSetMessages ms) s =
    (let (ms', h) = cloneMessages ms (st s) in s\<lparr>st := h, msgs := ms'\<rparr>)"
| "convo_step (OpUpdateToolResult i x) s = s\<lparr>st := update_store i x (msgs s) (st s)\<rparr>"
| "convo_step OpMessages s =
    (let (ms, h) = cloneMessages (msgs s) (st s) in s\<lparr>st := h, snaps := snaps s @ [ms]\<rparr>)"

text \<open>The same operation on the values, through the methods of \<open>Llm_Context\<close>.\<close>

fun value_step :: "convo_op \<Rightarrow> convo \<Rightarrow> LLMContext \<Rightarrow> LLMContext" where
  "value_step (OpAddMessage m) s c = AddMessage (load (st s) m) c"
| "value_step (OpAddToolResult r) s c = AddToolResult r c"
| "value_step (OpSetMessages ms) s c = SetMessages (map (load (st s)) ms) c"
| "value_step (OpUpdateToolResult i x) s c = fst (UpdateToolResult i x c)"
| "value_step OpMessages s c = c"

text \<open>
  What the code relies on: a message added as it stands brings an array that is in nobody else's hands.
\<close>

definition all_owned :: "store \<Rightarrow> hmsg list \<Rightarrow> addr list" where
  "all_owned h ms = concat (map (owned h) ms)"

fun valid :: "store \<Rightarrow> hmsg \<Rightarrow> bool" where
  "valid h (HMsg m None) = True"
| "valid h (HMsg m (Some p)) = (p < fresh h)"

definition separated :: "convo \<Rightarrow> bool" where
  "separated s \<longleftrightarrow> distinct (all_owned (st s) (msgs s)) \<and>
     (\<forall>m\<in>set (msgs s). valid (st s) m) \<and> (\<forall>ms\<in>set (snaps s). \<forall>m\<in>set ms. valid (st s) m) \<and>
     (\<forall>ms\<in>set (snaps s). set (all_owned (st s) ms) \<inter> set (all_owned (st s) (msgs s)) = {})"

fun op_ok :: "convo_op \<Rightarrow> convo \<Rightarrow> bool" where
  "op_ok (OpAddMessage m) s =
    (valid (st s) m \<and> set (owned (st s) m) \<inter> set (all_owned (st s) (msgs s)) = {} \<and>
     (\<forall>ms\<in>set (snaps s). set (owned (st s) m) \<inter> set (all_owned (st s) ms) = {}))"
| "op_ok (OpSetMessages ms) s = (\<forall>m\<in>set ms. valid (st s) m)"
| "op_ok _ s = True"

section \<open>Copies\<close>

lemma hmsg_cases: obtains m where "n = HMsg m None" | m p where "n = HMsg m (Some p)"
  by (cases n) (metis not_None_eq)

lemma all_owned_simps [simp]:
  "all_owned h [] = []" "all_owned h (m # ms) = owned h m @ all_owned h ms"
  "all_owned h (ms @ ns) = all_owned h ms @ all_owned h ns"
  by (simp_all add: all_owned_def)

text \<open>A store that has grown: what was allocated is as it was.\<close>

definition grown :: "store \<Rightarrow> store \<Rightarrow> bool" where
  "grown h h' \<longleftrightarrow> fresh h \<le> fresh h' \<and> (\<forall>p<fresh h. arr h' p = arr h p)"

lemma grown_refl [simp]: "grown h h" by (simp add: grown_def)

lemma grown_trans: "grown h h1 \<Longrightarrow> grown h1 h2 \<Longrightarrow> grown h h2" by (auto simp: grown_def)

lemma grown_same:
  assumes "grown h h'" and "valid h m"
  shows "load h' m = load h m" and "owned h' m = owned h m" and "valid h' m"
  using assms by (cases m rule: hmsg_cases; auto simp: grown_def)+

lemma grown_same_list:
  assumes "grown h h'" and "\<forall>m\<in>set ms. valid h m"
  shows "map (load h') ms = map (load h) ms" and "all_owned h' ms = all_owned h ms"
    and "\<forall>m\<in>set ms. valid h' m"
  using assms by (auto simp: grown_same all_owned_def intro: arg_cong [where f = concat] intro!: map_cong)

lemma owned_below: "valid h m \<Longrightarrow> p \<in> set (owned h m) \<Longrightarrow> p < fresh h"
  by (cases m rule: hmsg_cases) (auto split: if_splits)

lemma all_owned_below: "\<forall>m\<in>set ms. valid h m \<Longrightarrow> p \<in> set (all_owned h ms) \<Longrightarrow> p < fresh h"
  by (auto simp: all_owned_def dest: owned_below)

lemma clone_fresh:
  assumes "clone m h = (m', h')" and "valid h m"
  shows "grown h h' \<and> load h' m' = load h m \<and> valid h' m' \<and>
    (owned h' m' = [] \<and> h' = h \<or> owned h' m' = [fresh h] \<and> fresh h' = fresh h + 1)"
  using assms by (cases "(m, h)" rule: clone.cases) (auto simp: alloc_def grown_def split: if_splits)

lemma cloneMessages_fresh:
  assumes "cloneMessages ms h = (ms', h')" and "\<forall>m\<in>set ms. valid h m"
  shows "grown h h' \<and> map (load h') ms' = map (load h) ms \<and> (\<forall>m\<in>set ms'. valid h' m) \<and>
    set (all_owned h' ms') \<subseteq> {fresh h..<fresh h'} \<and> distinct (all_owned h' ms')"
  using assms
proof (induction ms arbitrary: h ms' h')
  case (Cons m ms)
  obtain m1 h1 where c: "clone m h = (m1, h1)" by fastforce
  obtain ms1 h2 where r: "cloneMessages ms h1 = (ms1, h2)" by fastforce
  from c r Cons.prems(1) have eq: "ms' = m1 # ms1" "h' = h2" by auto
  from clone_fresh [OF c] Cons.prems(2)
  have m: "grown h h1" "load h1 m1 = load h m" "valid h1 m1"
    "owned h1 m1 = [] \<and> h1 = h \<or> owned h1 m1 = [fresh h] \<and> fresh h1 = fresh h + 1" by auto
  from Cons.prems(2) grown_same(3) [OF m(1)] have "\<forall>m\<in>set ms. valid h1 m" by simp
  note IH = Cons.IH [OF r this]
  then have g: "grown h1 h2" by blast
  from g m(3) have s: "load h2 m1 = load h1 m1" "owned h2 m1 = owned h1 m1" "valid h2 m1"
    by (simp_all add: grown_same)
  have "map (load h1) ms = map (load h) ms"
    using Cons.prems(2) grown_same_list(1) [OF m(1), of ms] by simp
  moreover from g m(1) have "fresh h1 \<le> fresh h2" "fresh h \<le> fresh h1" by (auto simp: grown_def)
  ultimately show ?case using IH s m grown_trans [OF m(1) g] by (auto simp: eq)
qed simp

section \<open>Writing in place\<close>

lemma update_store_load:
  assumes "distinct (all_owned h ms)"
  shows "map (load (update_store i x ms h)) ms =
      (case update_messages i x (map (load h) ms) of None \<Rightarrow> map (load h) ms | Some ms' \<Rightarrow> ms')"
    and "\<forall>q. q \<notin> set (all_owned h ms) \<longrightarrow> arr (update_store i x ms h) q = arr h q"
    and "\<forall>q. (arr (update_store i x ms h) q = []) = (arr h q = [])"
    and "fresh (update_store i x ms h) = fresh h"
proof -
  have "map (load (update_store i x ms h)) ms =
      (case update_messages i x (map (load h) ms) of None \<Rightarrow> map (load h) ms | Some ms' \<Rightarrow> ms') \<and>
    (\<forall>q. q \<notin> set (all_owned h ms) \<longrightarrow> arr (update_store i x ms h) q = arr h q) \<and>
    (\<forall>q. (arr (update_store i x ms h) q = []) = (arr h q = [])) \<and>
    fresh (update_store i x ms h) = fresh h"
    using assms
  proof (induction i x ms h rule: update_store.induct)
    case (3 i x m p ms h)
    show ?case
    proof (cases "update_results i x (arr h p)")
      case None
      with 3 show ?thesis by (auto split: option.splits if_splits)
    next
      case (Some rs)
      then have ne: "arr h p \<noteq> []" "rs \<noteq> []" by (auto dest: update_results_Some)
      let ?h = "h\<lparr>arr := (arr h)(p := rs)\<rparr>"
      have "load ?h n = load h n" if "n \<in> set ms" for n
        using that 3(2) ne by (cases n rule: hmsg_cases) (auto simp: all_owned_def)
      with Some ne show ?thesis by auto
    qed
  qed (auto split: option.splits)
  then show "map (load (update_store i x ms h)) ms =
      (case update_messages i x (map (load h) ms) of None \<Rightarrow> map (load h) ms | Some ms' \<Rightarrow> ms')"
    and "\<forall>q. q \<notin> set (all_owned h ms) \<longrightarrow> arr (update_store i x ms h) q = arr h q"
    and "\<forall>q. (arr (update_store i x ms h) q = []) = (arr h q = [])"
    and "fresh (update_store i x ms h) = fresh h" by blast+
qed

lemma update_store_elsewhere:
  assumes "distinct (all_owned h ms)" and "set (all_owned h ns) \<inter> set (all_owned h ms) = {}"
  shows "map (load (update_store i x ms h)) ns = map (load h) ns"
proof (rule map_cong [OF refl])
  fix n assume "n \<in> set ns"
  with assms(2) have "set (owned h n) \<inter> set (all_owned h ms) = {}"
    by (auto simp: all_owned_def)
  with update_store_load(2,3) [OF assms(1), of i x] show "load (update_store i x ms h) n = load h n"
    by (cases n rule: hmsg_cases) (auto split: if_splits)
qed

lemma update_store_owned:
  assumes "distinct (all_owned h ms)"
  shows "all_owned (update_store i x ms h) ns = all_owned h ns"
    and "valid (update_store i x ms h) n = valid h n"
proof -
  have "owned (update_store i x ms h) n = owned h n" for n
    using update_store_load(3) [OF assms, of i x]
    by (cases n rule: hmsg_cases) auto
  then show "all_owned (update_store i x ms h) ns = all_owned h ns" by (simp add: all_owned_def cong: map_cong)
  show "valid (update_store i x ms h) n = valid h n"
    using update_store_load(4) [OF assms, of i x] by (cases n rule: hmsg_cases) auto
qed

section \<open>The store implements the values\<close>

lemma alloc_grown: "alloc rs h = (p, h') \<Longrightarrow> grown h h' \<and> p = fresh h \<and> arr h' p = rs \<and> fresh h' = fresh h + 1"
  by (auto simp: alloc_def grown_def)

text \<open>Replacing the conversation of a store that has grown by messages with arrays of their own.\<close>

lemma separated_grown:
  assumes "separated s" and "grown (st s) h"
    and "\<forall>m\<in>set ms. valid h m" and "distinct (all_owned h ms)"
    and "set (all_owned h ms) \<subseteq> set (all_owned (st s) (msgs s)) \<union> {fresh (st s)..}"
  shows "separated (s\<lparr>st := h, msgs := ms\<rparr>)"
proof -
  have "set (all_owned h ns) \<inter> set (all_owned h ms) = {}" if ns: "ns \<in> set (snaps s)" for ns
  proof -
    have v: "\<forall>m\<in>set ns. valid (st s) m" using assms(1) ns by (auto simp: separated_def)
    have "set (all_owned (st s) ns) \<inter> set (all_owned (st s) (msgs s)) = {}"
      using assms(1) ns by (auto simp: separated_def)
    moreover have "\<forall>p\<in>set (all_owned (st s) ns). p < fresh (st s)" using all_owned_below [OF v] by blast
    ultimately show ?thesis using assms(5) grown_same_list(2) [OF assms(2) v] by fastforce
  qed
  then show ?thesis using assms grown_same(3) [OF assms(2)] by (auto simp: separated_def)
qed

lemma separated_step:
  assumes "separated s" and "op_ok op s"
  shows "separated (convo_step op s)"
proof (cases op)
  case (OpAddMessage m)
  with assms show ?thesis by (cases m rule: hmsg_cases) (auto simp: separated_def split: if_splits)
next
  case (OpAddToolResult r)
  obtain p h where a: "alloc [r] (st s) = (p, h)" by fastforce
  note g = alloc_grown [OF a]
  have v: "\<forall>m\<in>set (msgs s). valid (st s) m" using assms(1) by (auto simp: separated_def)
  from g v have "all_owned h (msgs s) = all_owned (st s) (msgs s)" by (auto intro: grown_same_list)
  moreover from g v have "\<forall>m\<in>set (msgs s). valid h m" by (auto intro: grown_same(3))
  moreover have "p \<notin> set (all_owned (st s) (msgs s))" using g all_owned_below [OF v] by fastforce
  ultimately show ?thesis using OpAddToolResult a g assms(1)
    by (auto simp: separated_def [of s] intro!: separated_grown)
next
  case (OpSetMessages ms)
  obtain ms' h where "cloneMessages ms (st s) = (ms', h)" by fastforce
  with cloneMessages_fresh [OF this] OpSetMessages assms show ?thesis
    by (auto intro!: separated_grown)
next
  case (OpUpdateToolResult i x)
  with assms(1) show ?thesis by (auto simp: separated_def update_store_owned)
next
  case OpMessages
  obtain ms' h where c: "cloneMessages (msgs s) (st s) = (ms', h)" by fastforce
  have v: "\<forall>m\<in>set (msgs s). valid (st s) m" using assms(1) by (auto simp: separated_def)
  note f = cloneMessages_fresh [OF c v]
  have "all_owned h (msgs s) = all_owned (st s) (msgs s)" using f v by (auto intro: grown_same_list)
  then have "separated (s\<lparr>st := h\<rparr>)"
    using separated_grown [OF assms(1), of h "msgs s"] f assms(1) grown_same_list(3) [OF _ v]
    by (auto simp: separated_def [of s])
  moreover have "set (all_owned h ms') \<inter> set (all_owned h (msgs s)) = {}"
    using f all_owned_below [OF v] \<open>all_owned h (msgs s) = _\<close> by fastforce
  ultimately show ?thesis using OpMessages c f by (auto simp: separated_def)
qed

lemma step_snapshots:
  assumes "separated s" and "ms \<in> set (snaps s)"
    and "op_ok op s"
  shows "map (load (st (convo_step op s))) ms = map (load (st s)) ms \<and> ms \<in> set (snaps (convo_step op s))"
proof -
  have v: "\<forall>m\<in>set ms. valid (st s) m" using assms(1,2) by (auto simp: separated_def)
  have vm: "\<forall>m\<in>set (msgs s). valid (st s) m" using assms(1) by (auto simp: separated_def)
  show ?thesis
  proof (cases op)
    case (OpAddToolResult r)
    obtain p h where a: "alloc [r] (st s) = (p, h)" by fastforce
    from alloc_grown [OF a] have "grown (st s) h" by blast
    then have "map (load h) ms = map (load (st s)) ms" using v by (rule grown_same_list)
    with a alloc_grown [OF a] OpAddToolResult assms(2) show ?thesis by simp
  next
    case (OpSetMessages ns)
    obtain ns' h where c: "cloneMessages ns (st s) = (ns', h)" by fastforce
    from cloneMessages_fresh [OF c] assms(3) OpSetMessages have "grown (st s) h" by simp
    then have "map (load h) ms = map (load (st s)) ms" using v by (rule grown_same_list)
    with c OpSetMessages assms(2) show ?thesis by simp
  next
    case (OpUpdateToolResult i x)
    with assms(1,2) update_store_elsewhere [of "st s" "msgs s" ms i x] show ?thesis
      by (simp add: separated_def)
  next
    case OpMessages
    obtain ns' h where c: "cloneMessages (msgs s) (st s) = (ns', h)" by fastforce
    from cloneMessages_fresh [OF c vm] have "grown (st s) h" by blast
    then have "map (load h) ms = map (load (st s)) ms" using v by (rule grown_same_list)
    with c OpMessages assms(2) show ?thesis by simp
  qed (use assms(2) in simp)
qed

lemma step_refines:
  assumes "separated s" and "op_ok op s" and "messages c = map (load (st s)) (msgs s)"
  shows "messages (value_step op s c) = map (load (st (convo_step op s))) (msgs (convo_step op s))"
proof -
  have vm: "\<forall>m\<in>set (msgs s). valid (st s) m" using assms(1) by (auto simp: separated_def)
  show ?thesis
  proof (cases op)
    case (OpAddToolResult r)
    obtain p h where a: "alloc [r] (st s) = (p, h)" by fastforce
    from alloc_grown [OF a] have "grown (st s) h" by blast
    then have "map (load h) (msgs s) = map (load (st s)) (msgs s)" using vm by (rule grown_same_list)
    with a conjunct2 [OF alloc_grown [OF a]] OpAddToolResult assms(3) show ?thesis
      by (auto simp: AddToolResult_def AddMessage_def)
  next
    case (OpSetMessages ns)
    obtain ns' h where "cloneMessages ns (st s) = (ns', h)" by fastforce
    with cloneMessages_fresh [OF this] OpSetMessages assms(2) show ?thesis by (simp add: SetMessages_def)
  next
    case (OpUpdateToolResult i x)
    have "distinct (all_owned (st s) (msgs s))" using assms(1) by (simp add: separated_def)
    from update_store_load(1) [OF this, of i x] OpUpdateToolResult assms(3) show ?thesis
      by (simp add: UpdateToolResult_def split: option.splits)
  next
    case OpMessages
    obtain ns' h where c: "cloneMessages (msgs s) (st s) = (ns', h)" by fastforce
    from cloneMessages_fresh [OF c vm] have "grown (st s) h" by blast
    then have "map (load h) (msgs s) = map (load (st s)) (msgs s)" using vm by (rule grown_same_list)
    with c OpMessages assms(3) show ?thesis by simp
  qed (use assms in \<open>simp add: AddMessage_def\<close>)
qed

text \<open>Runs of operations, each used the way the code relies on.\<close>

fun convo_run :: "convo_op list \<Rightarrow> convo \<Rightarrow> convo option" where
  "convo_run [] s = Some s"
| "convo_run (op # ops) s = (if op_ok op s then convo_run ops (convo_step op s) else None)"

fun value_run :: "convo_op list \<Rightarrow> convo \<Rightarrow> LLMContext \<Rightarrow> LLMContext" where
  "value_run [] s c = c"
| "value_run (op # ops) s c = value_run ops (convo_step op s) (value_step op s c)"

lemma run_simulates:
  assumes "separated s" and "convo_run ops s = Some s'" and "messages c = map (load (st s)) (msgs s)"
  shows "messages (value_run ops s c) = map (load (st s')) (msgs s') \<and> separated s' \<and>
    (\<forall>ms\<in>set (snaps s). map (load (st s')) ms = map (load (st s)) ms)"
  using assms
proof (induction ops arbitrary: s c)
  case (Cons op ops)
  then have ok: "op_ok op s" and r: "convo_run ops (convo_step op s) = Some s'"
    by (auto split: if_splits)
  note IH = Cons.IH [OF separated_step [OF Cons.prems(1) ok] r step_refines [OF Cons.prems(1) ok Cons.prems(3)]]
  have "map (load (st s')) ms = map (load (st s)) ms" if "ms \<in> set (snaps s)" for ms
    using step_snapshots [OF Cons.prems(1) that ok] IH by metis
  with IH show ?case by simp
qed simp

definition empty_convo :: convo where
  "empty_convo = \<lparr>st = \<lparr>arr = \<lambda>_. [], fresh = 0\<rparr>, msgs = [], snaps = []\<rparr>"

lemma empty_separated [simp]: "separated empty_convo"
  by (simp add: empty_convo_def separated_def)



end
