(* ===== verification/Filters.thy ===== *)
theory Filters
  imports Frame_Queues
begin

text \<open>
  The filters of the processor package (processor/filter.go, processor/filters.go) and the frame selectors of
  the pipeline package (pipeline/filter.go). A filter runs in direct mode and keeps no state; handling a frame
  is whether it goes on. A Go predicate over frames is a function of the model, and the type a matcher was
  built for is the predicate that tests it.
\<close>

section \<open>Lifecycle frames\<close>

definition isLifecycle :: "frame \<Rightarrow> bool" where
  "isLifecycle f \<longleftrightarrow>
    (case body f of Sys (StartFrame i ou) \<Rightarrow> True | Ctl (EndFrame r) \<Rightarrow> True | Sys (CancelFrame r) \<Rightarrow> True | _ \<Rightarrow> False)"

definition isEndFrame :: "frame \<Rightarrow> bool" where
  "isEndFrame f \<longleftrightarrow> (case body f of Ctl (EndFrame r) \<Rightarrow> True | _ \<Rightarrow> False)"

section \<open>The function filter\<close>

record FunctionFilter =
  ff_dir :: "Direction option"
  ff_allow :: "frame \<Rightarrow> bool"
  ff_filterSystemFrames :: bool

definition passthrough :: "FunctionFilter \<Rightarrow> frame \<Rightarrow> Direction \<Rightarrow> bool" where
  "passthrough g f d \<longleftrightarrow>
    (if ff_dir g \<noteq> None \<and> ff_dir g \<noteq> Some d then True
     else if isLifecycle f then True
     else \<not> ff_filterSystemFrames g \<and> isSystemFrame f)"

definition FunctionFilter_ProcessFrame :: "FunctionFilter \<Rightarrow> frame \<Rightarrow> Direction \<Rightarrow> bool" where
  "FunctionFilter_ProcessFrame g f d \<longleftrightarrow> passthrough g f d \<or> ff_allow g f"

section \<open>The other filters\<close>

definition shouldPassthrough :: "(frame \<Rightarrow> bool) list \<Rightarrow> frame \<Rightarrow> bool" where
  "shouldPassthrough allowed f \<longleftrightarrow> list_ex (\<lambda>m. m f) allowed \<or> isEndFrame f \<or> isSystemFrame f"

definition NullFilter_ProcessFrame :: "frame \<Rightarrow> bool" where
  "NullFilter_ProcessFrame f \<longleftrightarrow> isEndFrame f \<or> isSystemFrame f"

text \<open>What the wake notifier forwards is everything; the first matching type decides whether it signals.\<close>

fun WakeNotifier_signals :: "(frame \<Rightarrow> bool) list \<Rightarrow> (frame \<Rightarrow> bool) \<Rightarrow> frame \<Rightarrow> bool" where
  "WakeNotifier_signals [] ok f \<longleftrightarrow> False"
| "WakeNotifier_signals (m # ms) ok f \<longleftrightarrow> (if m f then ok f else WakeNotifier_signals ms ok f)"

section \<open>Selecting frames at the ends of a pipeline\<close>

text \<open>A nil selector selects nothing, and joining with one gives the other.\<close>

type_synonym FrameFilter = "(frame \<Rightarrow> bool) option"

definition selects :: "FrameFilter \<Rightarrow> frame \<Rightarrow> bool" where
  "selects ff f \<longleftrightarrow> (case ff of None \<Rightarrow> False | Some p \<Rightarrow> p f)"

fun Or_filter :: "FrameFilter \<Rightarrow> FrameFilter \<Rightarrow> FrameFilter" where
  "Or_filter None b = b"
| "Or_filter a None = a"
| "Or_filter (Some p) (Some q) = Some (\<lambda>f. p f \<or> q f)"

lemma selects_Or: "selects (Or_filter a b) f \<longleftrightarrow> selects a f \<or> selects b f"
  by (cases "(a, b)" rule: Or_filter.cases) (auto simp: selects_def)

section \<open>What no filter stops\<close>

lemma lifecycle_cases:
  "isLifecycle f \<longleftrightarrow> isStartFrame f \<or> isEndFrame f \<or> (\<exists>r. body f = Sys (CancelFrame r))"
  by (auto simp: isLifecycle_def isStartFrame_def isEndFrame_def split: frame_body.splits system_go.splits control_go.splits)

lemma lifecycle_system_or_end: "isLifecycle f \<Longrightarrow> isSystemFrame f \<or> isEndFrame f"
  by (auto simp: isLifecycle_def isEndFrame_def frame_cat split: frame_body.splits control_go.splits)

lemma lifecycle_passes:
  assumes "isLifecycle f"
  shows "FunctionFilter_ProcessFrame g f d" and "shouldPassthrough allowed f" and "NullFilter_ProcessFrame f"
  using assms lifecycle_system_or_end [OF assms]
  by (auto simp: FunctionFilter_ProcessFrame_def passthrough_def shouldPassthrough_def NullFilter_ProcessFrame_def)

end
