(* ===== verification/Parallel_Pipeline.thy ===== *)
theory Parallel_Pipeline
  imports Filters "HOL-Library.Multiset"
begin

text \<open>
  The parallel pipeline (pipeline/parallel.go): every frame that enters is fanned out to all branches, what
  comes out of them is merged and deduplicated, and the lifecycle frames are synchronized, one copy going on
  once every branch has reported it, what the branches emit meanwhile being held back.

  The branches run in their own goroutines. Each call of a branch endpoint is a thread of the model with the
  places at which it releases the lock as its program points, so every interleaving of the branches, of a
  release under way and of the frames coming in is a run of the model.
\<close>

section \<open>State\<close>

type_synonym directed = "frame \<times> Direction"

text \<open>
  Where a call of \<open>emit\<close> or \<open>sinkPush\<close> is after it released the lock: about to push its frame, about to emit
  the lifecycle frame it releases, pushing it, draining the buffer, pushing one buffered frame, or about to
  resume the pipeline's own frame handling.
\<close>

datatype pthread =
    Emitting directed
  | ReleaseEmit directed
  | ReleasePush directed
  | Draining directed
  | DrainPush directed directed
  | Resuming directed

record par =
  par_branches :: nat
  par_seen :: "u64 list"
  par_counter :: "u64 \<Rightarrow> nat option"
  par_syncing :: bool
  par_buffered :: "directed list"
  par_pausedSystem :: bool
  par_paused :: bool
  par_fanned :: "directed list"
  par_out :: "directed list"
  par_threads :: "pthread list"

definition newParallel :: "nat \<Rightarrow> par option" where
  "newParallel n =
    (if n = 0 then None
     else Some \<lparr>par_branches = n, par_seen = [], par_counter = (\<lambda>_. None), par_syncing = False, par_buffered = [],
       par_pausedSystem = False, par_paused = False, par_fanned = [], par_out = [], par_threads = []\<rparr>)"

section \<open>Operations\<close>

text \<open>A frame is taken up only while the gate of its kind is open.\<close>

definition admitted :: "frame \<Rightarrow> par \<Rightarrow> bool" where
  "admitted f p \<longleftrightarrow> (if isSystemFrame f then \<not> par_pausedSystem p else \<not> par_paused p)"

definition par_ProcessFrame :: "directed \<Rightarrow> par \<Rightarrow> par" where
  "par_ProcessFrame x p =
    (let p = (if isLifecycle (fst x)
              then p\<lparr>par_counter := (par_counter p)(frameID (fst x) \<mapsto> par_branches p), par_syncing := True,
                     par_pausedSystem := True, par_paused := True\<rparr>
              else p)
     in p\<lparr>par_fanned := par_fanned p @ [x]\<rparr>)"

definition par_emit :: "directed \<Rightarrow> par \<Rightarrow> par" where
  "par_emit x p =
    (if frameID (fst x) \<in> set (par_seen p) then p
     else let p = p\<lparr>par_seen := frameID (fst x) # par_seen p\<rparr>
       in if par_syncing p then p\<lparr>par_buffered := par_buffered p @ [x]\<rparr>
          else p\<lparr>par_threads := par_threads p @ [Emitting x]\<rparr>)"

definition release_first :: "directed \<Rightarrow> pthread" where
  "release_first x = (if isStartFrame (fst x) then ReleaseEmit x else Draining x)"

definition sinkPush :: "directed \<Rightarrow> par \<Rightarrow> par" where
  "sinkPush x p =
    (if \<not> isLifecycle (fst x) then par_emit x p
     else let i = frameID (fst x); n = (case par_counter p i of None \<Rightarrow> 0 | Some n \<Rightarrow> n)
       in if 1 < n then p\<lparr>par_counter := (par_counter p)(i \<mapsto> n - 1)\<rparr>
          else p\<lparr>par_counter := (par_counter p)(i := None), par_threads := par_threads p @ [release_first x]\<rparr>)"

definition after_emit :: "directed \<Rightarrow> pthread" where
  "after_emit x = (if isStartFrame (fst x) then Draining x else Resuming x)"

definition after_drain :: "directed \<Rightarrow> pthread" where
  "after_drain x = (if isStartFrame (fst x) then Resuming x else ReleaseEmit x)"

text \<open>One thread goes on to its next program point; \<open>emitSynchronized\<close> and \<open>flushBuffered\<close> are the middle ones.\<close>

fun thread_step :: "pthread \<Rightarrow> par \<Rightarrow> pthread option \<times> par" where
  "thread_step (Emitting x) p = (None, p\<lparr>par_out := par_out p @ [x]\<rparr>)"
| "thread_step (ReleaseEmit x) p =
    (if frameID (fst x) \<in> set (par_seen p) then (Some (after_emit x), p)
     else (Some (ReleasePush x), p\<lparr>par_seen := frameID (fst x) # par_seen p\<rparr>))"
| "thread_step (ReleasePush x) p = (Some (after_emit x), p\<lparr>par_out := par_out p @ [x]\<rparr>)"
| "thread_step (Draining x) p =
    (case par_buffered p of
       [] \<Rightarrow> (Some (after_drain x), p\<lparr>par_syncing := False\<rparr>)
     | b # bs \<Rightarrow> (Some (DrainPush x b), p\<lparr>par_buffered := bs\<rparr>))"
| "thread_step (DrainPush x b) p = (Some (Draining x), p\<lparr>par_out := par_out p @ [b]\<rparr>)"
| "thread_step (Resuming x) p = (None, p\<lparr>par_pausedSystem := False, par_paused := False\<rparr>)"

definition advance_thread :: "nat \<Rightarrow> par \<Rightarrow> par" where
  "advance_thread i p =
    (let (t, q) = thread_step (par_threads p ! i) p
     in q\<lparr>par_threads := take i (par_threads p) @ (case t of None \<Rightarrow> [] | Some t \<Rightarrow> [t]) @ drop (Suc i) (par_threads p)\<rparr>)"

text \<open>A frame comes in, a branch's source emits, a branch's sink is reached, or a thread goes on.\<close>

datatype par_action = Enter directed | SourceOut directed | SinkOut directed | Advance nat

fun par_step :: "par_action \<Rightarrow> par \<Rightarrow> par option" where
  "par_step (Enter x) p = (if admitted (fst x) p then Some (par_ProcessFrame x p) else None)"
| "par_step (SourceOut x) p = Some (par_emit x p)"
| "par_step (SinkOut x) p = Some (sinkPush x p)"
| "par_step (Advance i) p = (if i < length (par_threads p) then Some (advance_thread i p) else None)"

fun par_run :: "par_action list \<Rightarrow> par \<Rightarrow> par option" where
  "par_run [] p = Some p"
| "par_run (x # xs) p = (case par_step x p of None \<Rightarrow> None | Some q \<Rightarrow> par_run xs q)"

lemma par_run_append:
  "par_run (xs @ ys) p = (case par_run xs p of None \<Rightarrow> None | Some q \<Rightarrow> par_run ys q)"
  by (induction xs arbitrary: p) (auto split: option.splits)

lemma advance_branches: "par_branches (advance_thread i p) = par_branches p"
  by (cases "par_threads p ! i") (auto simp: advance_thread_def Let_def split: list.splits)

lemma par_branches_run: "par_run xs p = Some q \<Longrightarrow> par_branches q = par_branches p"
proof (induction xs arbitrary: p)
  case (Cons x xs)
  then obtain r where r: "par_step x p = Some r" "par_run xs r = Some q" by (auto split: option.splits)
  have "par_branches r = par_branches p" using r(1)
    by (cases x) (auto simp: par_ProcessFrame_def sinkPush_def par_emit_def advance_branches Let_def split: if_splits)
  with Cons.IH [OF r(2)] show ?case by simp
qed simp

section \<open>A run keeps what every step keeps\<close>

locale par_invariant =
  fixes I :: "par \<Rightarrow> bool" and allowed :: "par_action \<Rightarrow> bool"
  assumes keep: "I p \<Longrightarrow> allowed x \<Longrightarrow> par_step x p = Some q \<Longrightarrow> I q"
begin

lemma keep_run: "I p \<Longrightarrow> list_all allowed xs \<Longrightarrow> par_run xs p = Some q \<Longrightarrow> I q"
  by (induction xs arbitrary: p) (auto split: option.splits dest: keep)

end

section \<open>What emerges is merged without loss and without repetition\<close>

fun in_flight :: "pthread \<Rightarrow> directed list" where
  "in_flight (Emitting x) = [x]"
| "in_flight (ReleasePush x) = [x]"
| "in_flight (DrainPush x b) = [b]"
| "in_flight _ = []"

abbreviation ids :: "directed list \<Rightarrow> u64 list" where
  "ids xs \<equiv> map (frameID \<circ> fst) xs"

definition par_held :: "par \<Rightarrow> directed list" where
  "par_held p = par_buffered p @ concat (map in_flight (par_threads p))"

definition merges :: "par \<Rightarrow> bool" where
  "merges p \<longleftrightarrow> distinct (par_seen p) \<and> mset (ids (par_out p @ par_held p)) = mset (par_seen p)"

lemma merges_ids: "merges p \<Longrightarrow> set (ids (par_out p @ par_held p)) = set (par_seen p)"
  by (metis merges_def mset_eq_setD)

lemma merges_out: "merges p \<Longrightarrow> frameID (fst x) \<notin> set (par_seen p) \<Longrightarrow> x \<notin> set (par_out p) \<and> x \<notin> set (par_held p)"
  by (drule merges_ids) force

lemma split_nth: "i < length xs \<Longrightarrow> xs = take i xs @ [xs ! i] @ drop (Suc i) xs"
  by (simp add: id_take_nth_drop)

lemma release_first_idle [simp]: "in_flight (release_first x) = []" "in_flight (after_emit x) = []"
  "in_flight (after_drain x) = []"
  by (simp_all add: release_first_def after_emit_def after_drain_def)

lemma thread_step_mset:
  assumes "thread_step t p = (t', q)" and "distinct (par_seen p)"
    and "mset (ids (par_out p @ par_buffered p @ in_flight t)) + r = mset (par_seen p)"
  shows "distinct (par_seen q) \<and>
    mset (ids (par_out q @ par_buffered q @ (case t' of None \<Rightarrow> [] | Some t' \<Rightarrow> in_flight t'))) + r = mset (par_seen q)"
  using assms by (cases t) (auto split: if_splits list.splits)

lemma merges_advance:
  assumes "merges p" and "i < length (par_threads p)"
  shows "merges (advance_thread i p)"
proof -
  obtain t' q where s: "thread_step (par_threads p ! i) p = (t', q)" by fastforce
  let ?l = "take i (par_threads p)" and ?r = "drop (Suc i) (par_threads p)"
  let ?rest = "mset (ids (concat (map in_flight (?l @ ?r))))"
  have "concat (map in_flight (par_threads p)) =
      concat (map in_flight (?l @ [par_threads p ! i] @ ?r))" using split_nth [OF assms(2)] by metis
  then have "mset (ids (par_out p @ par_buffered p @ in_flight (par_threads p ! i))) + ?rest = mset (par_seen p)"
    using assms(1) by (simp add: merges_def par_held_def ac_simps)
  from thread_step_mset [OF s _ this] assms(1) show ?thesis
    by (auto simp: merges_def par_held_def advance_thread_def s ac_simps split: option.splits)
qed

lemma merges_emit: "merges p \<Longrightarrow> merges (par_emit x p)"
  by (auto simp: par_emit_def Let_def merges_def par_held_def)

lemma merges_enter: "merges p \<Longrightarrow> merges (par_ProcessFrame x p)"
  by (simp add: par_ProcessFrame_def Let_def merges_def par_held_def)

lemma merges_step: "merges p \<Longrightarrow> par_step a p = Some q \<Longrightarrow> merges q"
proof (cases a)
  case (SinkOut x)
  moreover assume "merges p" "par_step a p = Some q"
  ultimately show ?thesis
    by (auto simp: sinkPush_def Let_def merges_emit) (auto simp: merges_def par_held_def)
next
  case (Enter x)
  moreover assume "merges p" "par_step a p = Some q"
  ultimately show ?thesis
    by (auto simp: merges_enter split: if_splits)
qed (auto simp: merges_emit merges_advance split: if_splits)

interpretation merging: par_invariant merges "\<lambda>_. True"
  by unfold_locales (rule merges_step)

fun emits :: "par_action \<Rightarrow> directed list" where
  "emits (SourceOut x) = [x]"
| "emits (SinkOut x) = (if isLifecycle (fst x) then [] else [x])"
| "emits _ = []"

fun reaches :: "par_action \<Rightarrow> directed list" where
  "reaches (SourceOut x) = [x]"
| "reaches (SinkOut x) = [x]"
| "reaches _ = []"

lemma advance_seen: "set (par_seen p) \<subseteq> set (par_seen (advance_thread i p))"
  by (cases "par_threads p ! i") (auto simp: advance_thread_def Let_def split: list.splits)

lemma step_seen:
  assumes "par_step a p = Some q"
  shows "set (par_seen p) \<union> set (ids (emits a)) \<subseteq> set (par_seen q)"
  using assms advance_seen
  by (cases a) (auto simp: par_ProcessFrame_def sinkPush_def par_emit_def Let_def split: if_splits)

lemma run_seen:
  "par_run xs p = Some q \<Longrightarrow> set (par_seen p) \<union> set (ids (concat (map emits xs))) \<subseteq> set (par_seen q)"
proof (induction xs arbitrary: p)
  case (Cons x xs)
  then obtain r where r: "par_step x p = Some r" "par_run xs r = Some q" by (auto split: option.splits)
  from Cons.IH [OF r(2)] step_seen [OF r(1)] show ?case by auto
qed simp

definition drained :: "par \<Rightarrow> bool" where
  "drained p \<longleftrightarrow> (\<not> par_syncing p \<longrightarrow> par_buffered p = [])"

lemma drained_advance: "drained p \<Longrightarrow> drained (advance_thread i p)"
  by (cases "par_threads p ! i") (auto simp: advance_thread_def drained_def Let_def split: list.splits)

interpretation draining: par_invariant drained "\<lambda>_. True"
proof
  fix p a q assume "drained p" "par_step a p = Some q"
  then show "drained q" using drained_advance [of p]
    by (cases a) (auto simp: drained_def par_ProcessFrame_def sinkPush_def par_emit_def Let_def split: if_splits)
qed

text \<open>Every frame that is out, held or about to go out is one the branches put out.\<close>

fun carries :: "pthread \<Rightarrow> directed list" where
  "carries (Emitting x) = [x]"
| "carries (ReleaseEmit x) = [x]"
| "carries (ReleasePush x) = [x]"
| "carries (Draining x) = [x]"
| "carries (DrainPush x b) = [x, b]"
| "carries (Resuming x) = [x]"

definition knows :: "(directed \<Rightarrow> bool) \<Rightarrow> par \<Rightarrow> bool" where
  "knows P p \<longleftrightarrow> list_all P (par_out p) \<and> list_all P (par_buffered p) \<and>
    list_all (\<lambda>t. list_all P (carries t)) (par_threads p)"

lemma list_all_take_drop: "list_all P xs \<Longrightarrow> list_all P (take i xs) \<and> list_all P (drop i xs)"
  by (metis append_take_drop_id list_all_append)

lemma carries_in_flight: "list_all P (carries t) \<Longrightarrow> list_all P (in_flight t)"
  by (cases t) auto

lemma knows_held:
  assumes "knows P p"
  shows "list_all P (par_out p @ par_held p)"
proof -
  have "list_all (\<lambda>t. list_all P (in_flight t)) ts" if "list_all (\<lambda>t. list_all P (carries t)) ts" for ts
    using that by (induction ts) (simp_all add: carries_in_flight)
  moreover have "list_all (\<lambda>t. list_all P (in_flight t)) ts \<Longrightarrow> list_all P (concat (map in_flight ts))" for ts
    by (induction ts) simp_all
  ultimately show ?thesis using assms by (simp add: knows_def par_held_def)
qed

lemma knows_thread:
  assumes "thread_step t p = (t', q)" and "list_all P (par_out p)" and "list_all P (par_buffered p)" and "list_all P (carries t)"
  shows "list_all P (par_out q) \<and> list_all P (par_buffered q) \<and> (case t' of None \<Rightarrow> True | Some t' \<Rightarrow> list_all P (carries t'))"
  using assms by (cases t) (auto simp: after_emit_def after_drain_def split: if_splits list.splits)

lemma knows_advance:
  assumes "knows P p" and "i < length (par_threads p)"
  shows "knows P (advance_thread i p)"
proof -
  let ?t = "par_threads p ! i"
  obtain t' q where s: "thread_step ?t p = (t', q)" by fastforce
  have "list_all P (carries ?t)" using assms by (simp add: knows_def list_all_length)
  with knows_thread [OF s] assms(1)
  have q: "list_all P (par_out q) \<and> list_all P (par_buffered q) \<and> (case t' of None \<Rightarrow> True | Some t' \<Rightarrow> list_all P (carries t'))"
    by (simp add: knows_def)
  with assms(1) show ?thesis
    by (cases t') (simp_all add: knows_def advance_thread_def s list_all_take_drop)
qed

lemma knows_emit: "knows P p \<Longrightarrow> P x \<Longrightarrow> knows P (par_emit x p)"
  by (simp add: knows_def par_emit_def Let_def)

lemma knows_step:
  assumes "knows P p" and "list_all P (reaches a)" and "par_step a p = Some q"
  shows "knows P q"
proof (cases a)
  case (SinkOut x)
  with assms have x: "P x" and q: "q = sinkPush x p" by auto
  show ?thesis
  proof (cases "isLifecycle (fst x)")
    case True
    with assms(1) x show ?thesis by (simp add: q knows_def sinkPush_def Let_def release_first_def)
  next
    case False
    with assms(1) x show ?thesis by (simp add: q sinkPush_def knows_emit)
  qed
next
  case (Enter x)
  with assms(3) have "q = par_ProcessFrame x p" by (simp split: if_splits)
  with assms(1) show ?thesis by (simp add: knows_def par_ProcessFrame_def Let_def)
qed (use assms in \<open>auto simp: knows_emit knows_advance split: if_splits\<close>)

interpretation knowing: par_invariant "knows P" "\<lambda>a. list_all P (reaches a)" for P
  by unfold_locales (rule knows_step)


section \<open>Lifecycle frames are synchronized\<close>

text \<open>
  One lifecycle frame is being synchronized: the branches raise no other one of their own and report this one
  at their sinks only. (The pipeline itself takes up no other while it is paused.)
\<close>

fun undisturbed :: "directed \<Rightarrow> par_action \<Rightarrow> bool" where
  "undisturbed x (SourceOut y) \<longleftrightarrow> frameID (fst y) \<noteq> frameID (fst x)"
| "undisturbed x (SinkOut y) \<longleftrightarrow> y = x \<or> \<not> isLifecycle (fst y) \<and> frameID (fst y) \<noteq> frameID (fst x)"
| "undisturbed x _ \<longleftrightarrow> True"

definition synchronizing :: "directed \<Rightarrow> directed list \<Rightarrow> pthread list \<Rightarrow> par \<Rightarrow> bool" where
  "synchronizing x outs ts p \<longleftrightarrow> par_syncing p \<and> par_pausedSystem p \<and> par_paused p \<and>
    frameID (fst x) \<notin> set (par_seen p) \<and> par_out p = outs \<and> par_threads p = ts"

definition awaiting :: "directed \<Rightarrow> directed list \<Rightarrow> nat \<Rightarrow> par \<Rightarrow> bool" where
  "awaiting x outs k p \<longleftrightarrow> synchronizing x outs [] p \<and> par_counter p (frameID (fst x)) = Some k \<and> 0 < k"

lemma synchronizing_emit:
  "synchronizing x outs ts p \<Longrightarrow> frameID (fst y) \<noteq> frameID (fst x) \<Longrightarrow>
   synchronizing x outs ts (par_emit y p) \<and> par_counter (par_emit y p) = par_counter p"
  by (simp add: synchronizing_def par_emit_def Let_def)

lemma synchronizing_blocked: "synchronizing x outs ts p \<Longrightarrow> par_step (Enter y) p = None"
  by (simp add: synchronizing_def admitted_def)

lemma synchronizing_other:
  assumes "synchronizing x outs ts p" and "undisturbed x a" and "par_step a p = Some q" and "a \<noteq> SinkOut x"
    and "\<forall>i. a \<noteq> Advance i"
  shows "synchronizing x outs ts q \<and> par_counter q = par_counter p"
  using assms synchronizing_blocked [OF assms(1)]
  by (cases a) (auto simp: sinkPush_def synchronizing_emit)

lemma awaiting_other:
  assumes "awaiting x outs k p" and "undisturbed x a" and "par_step a p = Some q" and "a \<noteq> SinkOut x"
  shows "awaiting x outs k q"
proof (cases "\<exists>i. a = Advance i")
  case True
  with assms(1,3) show ?thesis by (auto simp: awaiting_def synchronizing_def)
next
  case False
  with assms synchronizing_other [of x outs "[]" p a q] show ?thesis by (simp add: awaiting_def)
qed

lemma awaiting_report:
  assumes "awaiting x outs k p" and "isLifecycle (fst x)" and "par_step (SinkOut x) p = Some q"
  shows "if k = 1 then synchronizing x outs [release_first x] q else awaiting x outs (k - 1) q"
  using assms by (auto simp: awaiting_def synchronizing_def sinkPush_def Let_def)

lemma out_grows: "par_step a p = Some q \<Longrightarrow> \<exists>ys. par_out q = par_out p @ ys"
proof (cases a)
  case (Advance i)
  moreover assume "par_step a p = Some q"
  ultimately show ?thesis
    by (cases "par_threads p ! i") (auto simp: advance_thread_def Let_def split: if_splits list.splits)
qed (auto simp: par_ProcessFrame_def sinkPush_def par_emit_def Let_def split: if_splits)

text \<open>A start frame: after the last report nothing is pushed before it.\<close>

definition start_led :: "directed \<Rightarrow> nat \<Rightarrow> par \<Rightarrow> bool" where
  "start_led x k p \<longleftrightarrow>
    (0 < k \<and> awaiting x [] k p) \<or>
    (k = 0 \<and> (synchronizing x [] [ReleaseEmit x] p \<or>
      par_out p = [] \<and> par_threads p = [ReleasePush x] \<and> par_syncing p \<and> par_pausedSystem p \<and> par_paused p \<or>
      (\<exists>ys. par_out p = x # ys)))"

lemma start_led_out: "start_led x k p \<Longrightarrow> par_out p = [] \<or> k = 0 \<and> (\<exists>ys. par_out p = x # ys)"
  by (auto simp: start_led_def awaiting_def synchronizing_def)

lemma start_led_step:
  assumes s: "start_led x k p" and x: "isStartFrame (fst x)" "isLifecycle (fst x)" and u: "undisturbed x a"
    and st: "par_step a p = Some q" and k: "a = SinkOut x \<Longrightarrow> 0 < k"
  shows "start_led x (if a = SinkOut x then k - 1 else k) q"
proof (cases "0 < k")
  case True
  with s have aw: "awaiting x [] k p" by (simp add: start_led_def)
  show ?thesis
  proof (cases "a = SinkOut x")
    case True
    from awaiting_report [OF aw x(2)] st True \<open>0 < k\<close> x(1) show ?thesis
      by (cases "k = 1") (auto simp: start_led_def release_first_def)
  next
    case False
    from awaiting_other [OF aw u st False] \<open>0 < k\<close> False show ?thesis by (simp add: start_led_def)
  qed
next
  case False
  with k have na: "a \<noteq> SinkOut x" by blast
  from False s consider (emitting) "synchronizing x [] [ReleaseEmit x] p"
    | (push) "par_out p = []" "par_threads p = [ReleasePush x]" "par_syncing p" "par_pausedSystem p" "par_paused p"
    | (out) ys where "par_out p = x # ys" by (auto simp: start_led_def)
  then show ?thesis
  proof cases
    case emitting
    show ?thesis
    proof (cases "\<exists>i. a = Advance i")
      case True
      with emitting st False na show ?thesis
        by (auto simp: synchronizing_def start_led_def advance_thread_def split: if_splits)
    next
      case nadv: False
      with synchronizing_other [OF emitting u st na] False na show ?thesis by (simp add: start_led_def)
    qed
  next
    case push
    with st False na u show ?thesis
      by (cases a) (auto simp: start_led_def advance_thread_def sinkPush_def par_emit_def admitted_def Let_def split: if_splits)
  next
    case out
    with out_grows [OF st] False na show ?thesis by (auto simp: start_led_def)
  qed
qed

lemma start_led_run:
  assumes "start_led x k p" and "isStartFrame (fst x)" "isLifecycle (fst x)"
    and "list_all (undisturbed x) xs" and "par_run xs p = Some q" and "count_list xs (SinkOut x) \<le> k"
  shows "start_led x (k - count_list xs (SinkOut x)) q"
  using assms
proof (induction xs arbitrary: p k)
  case (Cons a xs)
  then obtain r where r: "par_step a p = Some r" "par_run xs r = Some q" by (auto split: option.splits)
  have "start_led x (if a = SinkOut x then k - 1 else k) r"
    using Cons.prems by (intro start_led_step [OF _ _ _ _ r(1)]) auto
  from Cons.IH [OF this _ _ _ r(2)] Cons.prems show ?case by (auto split: if_splits)
qed simp

text \<open>
  A start frame leads: after it has been fanned out to the branches, whatever they put out and whatever
  the interleaving, nothing leaves the parallel pipeline until every branch has reported the frame, and the
  first thing to leave is the start frame itself.
\<close>

lemma start_frame_leads:
  assumes "newParallel n = Some p0" and "isStartFrame (fst x)"
    and "par_run (Enter x # xs) p0 = Some p"
    and "list_all (undisturbed x) xs" and "count_list xs (SinkOut x) \<le> n"
  shows "par_out p = [] \<or> hd (par_out p) = x \<and> count_list xs (SinkOut x) = n"
proof -
  have l: "isLifecycle (fst x)"
    using assms(2) by (auto simp: isStartFrame_def isLifecycle_def split: frame_body.splits system_go.splits)
  have n: "par_run xs (par_ProcessFrame x p0) = Some p" "0 < n"
    using assms(1,3) by (auto simp: newParallel_def split: if_splits option.splits)
  have "start_led x n (par_ProcessFrame x p0)" using assms(1) l n(2)
    by (auto simp: newParallel_def start_led_def awaiting_def synchronizing_def par_ProcessFrame_def Let_def split: if_splits)
  from start_led_out [OF start_led_run [OF this assms(2) l assms(4) n(1) assms(5)]] assms(5) show ?thesis by auto
qed

text \<open>
  The end of the session or its cancellation: what the branches put out before the last of them reported it
  goes out ahead of it. \<open>E\<close> are the identifiers of what had been put out by then.
\<close>

definition end_trails :: "directed \<Rightarrow> u64 set \<Rightarrow> par \<Rightarrow> bool" where
  "end_trails x E p \<longleftrightarrow>
    (\<exists>outs t. synchronizing x outs [t] p \<and> x \<notin> set outs \<and> (t = Draining x \<or> (\<exists>b. t = DrainPush x b)) \<and>
      E \<subseteq> set (ids (par_out p @ par_held p)) \<and> x \<notin> set (par_held p)) \<or>
    (E \<subseteq> set (ids (par_out p)) \<and> x \<notin> set (par_out p)) \<or>
    (\<exists>pre post. par_out p = pre @ x # post \<and> E \<subseteq> set (ids pre) \<and> x \<notin> set pre)"

lemma trails_grows:
  assumes "(E \<subseteq> set (ids outs) \<and> x \<notin> set outs) \<or> (\<exists>pre post. outs = pre @ x # post \<and> E \<subseteq> set (ids pre) \<and> x \<notin> set pre)"
    and "outs' = outs @ ys"
  shows "(E \<subseteq> set (ids outs') \<and> x \<notin> set outs') \<or> (\<exists>pre post. outs' = pre @ x # post \<and> E \<subseteq> set (ids pre) \<and> x \<notin> set pre)"
  using assms(1)
proof
  assume o: "E \<subseteq> set (ids outs) \<and> x \<notin> set outs"
  show ?thesis
  proof (cases "x \<in> set ys")
    case True
    then obtain us vs where "ys = us @ x # vs" "x \<notin> set us" by (metis split_list_first)
    with o assms(2) have "outs' = (outs @ us) @ x # vs \<and> E \<subseteq> set (ids (outs @ us)) \<and> x \<notin> set (outs @ us)" by auto
    then show ?thesis by blast
  qed (use o assms(2) in auto)
next
  assume "\<exists>pre post. outs = pre @ x # post \<and> E \<subseteq> set (ids pre) \<and> x \<notin> set pre"
  then obtain pre post where "outs = pre @ x # post" "E \<subseteq> set (ids pre)" "x \<notin> set pre" by blast
  with assms(2) have "outs' = pre @ x # (post @ ys) \<and> E \<subseteq> set (ids pre) \<and> x \<notin> set pre" by simp
  then show ?thesis by blast
qed

lemma end_trails_draining:
  assumes "synchronizing x outs [t] p" and "x \<notin> set outs" and "t = Draining x \<or> (\<exists>b. t = DrainPush x b)"
    and "E \<subseteq> set (ids (par_out p @ par_held p))" and "x \<notin> set (par_held p)" and "\<not> isStartFrame (fst x)"
  shows "end_trails x E (advance_thread 0 p)"
  using assms(3)
proof
  assume t: "t = Draining x"
  show ?thesis
  proof (cases "par_buffered p")
    case Nil
    with t assms have "par_out (advance_thread 0 p) = outs" "E \<subseteq> set (ids outs)"
      by (auto simp: synchronizing_def advance_thread_def par_held_def)
    with assms(2) show ?thesis by (simp add: end_trails_def)
  next
    case (Cons b bs)
    with t assms have "synchronizing x outs [DrainPush x b] (advance_thread 0 p)"
      "E \<subseteq> set (ids (par_out (advance_thread 0 p) @ par_held (advance_thread 0 p)))"
      "x \<notin> set (par_held (advance_thread 0 p))"
      by (auto simp: synchronizing_def advance_thread_def par_held_def)
    with assms(2) show ?thesis unfolding end_trails_def by blast
  qed
next
  assume "\<exists>b. t = DrainPush x b"
  then obtain b where t: "t = DrainPush x b" by blast
  with assms have "synchronizing x (outs @ [b]) [Draining x] (advance_thread 0 p)" "x \<notin> set (outs @ [b])"
    "E \<subseteq> set (ids (par_out (advance_thread 0 p) @ par_held (advance_thread 0 p)))"
    "x \<notin> set (par_held (advance_thread 0 p))"
    by (auto simp: synchronizing_def advance_thread_def par_held_def)
  then show ?thesis unfolding end_trails_def by blast
qed

lemma emit_held:
  assumes "synchronizing x outs ts p" and "frameID (fst y) \<noteq> frameID (fst x)"
  shows "set (ids (par_out p @ par_held p)) \<subseteq> set (ids (par_out (par_emit y p) @ par_held (par_emit y p))) \<and>
    (x \<notin> set (par_held p) \<longrightarrow> x \<notin> set (par_held (par_emit y p)))"
  using assms by (auto simp: synchronizing_def par_emit_def par_held_def Let_def)

lemma end_trails_step:
  assumes e: "end_trails x E p" and x: "\<not> isStartFrame (fst x)" and u: "undisturbed x a" and na: "a \<noteq> SinkOut x"
    and st: "par_step a p = Some q"
  shows "end_trails x E q"
proof -
  consider (sync) outs t where "synchronizing x outs [t] p" "x \<notin> set outs" "t = Draining x \<or> (\<exists>b. t = DrainPush x b)"
      "E \<subseteq> set (ids (par_out p @ par_held p))" "x \<notin> set (par_held p)"
    | (rest) "(E \<subseteq> set (ids (par_out p)) \<and> x \<notin> set (par_out p)) \<or>
        (\<exists>pre post. par_out p = pre @ x # post \<and> E \<subseteq> set (ids pre) \<and> x \<notin> set pre)"
    using e unfolding end_trails_def by blast
  then show ?thesis
  proof cases
    case sync
    show ?thesis
    proof (cases "\<exists>i. a = Advance i")
      case True
      with sync(1) st have "a = Advance 0" "q = advance_thread 0 p" by (auto simp: synchronizing_def split: if_splits)
      with end_trails_draining [OF sync x] show ?thesis by simp
    next
      case False
      then obtain y where y: "q = par_emit y p" "frameID (fst y) \<noteq> frameID (fst x)"
        using u na st synchronizing_blocked [OF sync(1)] by (cases a) (auto simp: sinkPush_def)
      have "synchronizing x outs [t] q" using synchronizing_emit [OF sync(1) y(2)] y(1) by simp
      moreover have "E \<subseteq> set (ids (par_out q @ par_held q))"
        unfolding y(1) by (rule order_trans [OF sync(4) conjunct1 [OF emit_held [OF sync(1) y(2)]]])
      moreover have "x \<notin> set (par_held q)" using emit_held [OF sync(1) y(2)] sync(5) y(1) by simp
      ultimately have "synchronizing x outs [t] q" "E \<subseteq> set (ids (par_out q @ par_held q))" "x \<notin> set (par_held q)" by blast+
      with sync(2,3) show ?thesis unfolding end_trails_def by blast
    qed
  next
    case rest
    from out_grows [OF st] obtain ys where "par_out q = par_out p @ ys" by blast
    from trails_grows [OF rest this] show ?thesis by (simp add: end_trails_def)
  qed
qed

lemma end_trails_run:
  "end_trails x E p \<Longrightarrow> \<not> isStartFrame (fst x) \<Longrightarrow> list_all (\<lambda>a. undisturbed x a \<and> a \<noteq> SinkOut x) xs \<Longrightarrow>
   par_run xs p = Some q \<Longrightarrow> end_trails x E q"
  by (induction xs arbitrary: p) (auto split: option.splits dest: end_trails_step)

lemma awaiting_run:
  assumes "awaiting x outs k p" and "isLifecycle (fst x)" and "list_all (undisturbed x) xs" and "par_run xs p = Some q"
    and "count_list xs (SinkOut x) < k"
  shows "awaiting x outs (k - count_list xs (SinkOut x)) q"
  using assms
proof (induction xs arbitrary: p k)
  case (Cons a xs)
  then obtain r where r: "par_step a p = Some r" "par_run xs r = Some q" by (auto split: option.splits)
  show ?case
  proof (cases "a = SinkOut x")
    case True
    with awaiting_report [OF Cons.prems(1,2)] r(1) Cons.prems(5) have "awaiting x outs (k - 1) r" by (auto split: if_splits)
    from Cons.IH [OF this _ _ r(2)] Cons.prems True show ?thesis by simp
  next
    case False
    with awaiting_other [OF Cons.prems(1) _ r(1)] Cons.prems have "awaiting x outs k r" by simp
    from Cons.IH [OF this _ _ r(2)] Cons.prems False show ?thesis by simp
  qed
qed simp

text \<open>
  The end of the session, or its cancellation, trails: when nothing is in progress as it is fanned out,
  it does not leave before every branch has reported it, and when it leaves, everything the branches put out
  before the last of them reported it has left ahead of it.
\<close>

lemma end_frame_trails:
  assumes "newParallel n = Some p0" and "par_run xs0 p0 = Some p1" and "par_threads p1 = []" and "\<not> par_syncing p1"
    and x: "isLifecycle (fst x)" "\<not> isStartFrame (fst x)" "frameID (fst x) \<notin> set (par_seen p1)"
    and "par_run (Enter x # ys @ SinkOut x # zs) p1 = Some q"
    and "list_all (undisturbed x) ys" and "count_list ys (SinkOut x) < n"
    and "list_all (\<lambda>a. undisturbed x a \<and> a \<noteq> SinkOut x) zs"
  shows "x \<in> set (par_out q) \<longrightarrow> count_list ys (SinkOut x) = n - 1 \<and>
    (\<exists>pre post. par_out q = pre @ x # post \<and> set (ids (concat (map emits (xs0 @ ys)))) \<subseteq> set (ids pre))"
proof -
  have init: "merges p0" "par_branches p0 = n"
    using assms(1) by (auto simp: newParallel_def merges_def par_held_def split: if_splits)
  have m1: "merges p1" using merging.keep_run [OF init(1) _ assms(2)] by (simp add: list_all_iff)
  have b1: "par_branches p1 = n" using par_branches_run [OF assms(2)] init(2) by simp
  have nx: "x \<notin> set (par_out p1)" using merges_out [OF m1 x(3)] by blast
  obtain r s where r: "par_run ys (par_ProcessFrame x p1) = Some r" "par_step (SinkOut x) r = Some s" "par_run zs s = Some q"
    using assms(8) by (auto simp: par_run_append split: option.splits if_splits)
  have a: "awaiting x (par_out p1) n (par_ProcessFrame x p1)" using assms x b1
    by (auto simp: newParallel_def awaiting_def synchronizing_def par_ProcessFrame_def Let_def split: if_splits)
  let ?k = "n - count_list ys (SinkOut x)"
  have ar: "awaiting x (par_out p1) ?k r" by (rule awaiting_run [OF a x(1) assms(9) r(1) assms(10)])
  show ?thesis
  proof (cases "?k = 1")
    case True
    from awaiting_report [OF ar x(1) r(2)] True have sy: "synchronizing x (par_out p1) [Draining x] s"
      by (simp add: release_first_def x(2))
    have mr: "merges s"
    proof -
      have "merges (par_ProcessFrame x p1)" by (rule merges_enter [OF m1])
      then have "merges r" using merging.keep_run [OF _ _ r(1)] by (simp add: list_all_iff)
      then show ?thesis using merges_step r(2) by blast
    qed
    have "set (ids (concat (map emits (xs0 @ ys)))) \<subseteq> set (par_seen s)"
    proof -
      have p: "par_seen (par_ProcessFrame x p1) = par_seen p1" by (simp add: par_ProcessFrame_def Let_def)
      have eq: "set (ids (concat (map emits (xs0 @ ys)))) =
        set (ids (concat (map emits xs0))) \<union> set (ids (concat (map emits ys)))" by (simp add: image_Un)
      show ?thesis unfolding eq
        using run_seen [OF assms(2)] run_seen [OF r(1)] step_seen [OF r(2)] unfolding p by blast
    qed
    then have "set (ids (concat (map emits (xs0 @ ys)))) \<subseteq> set (ids (par_out s @ par_held s))"
      unfolding merges_ids [OF mr] .
    moreover have "x \<notin> set (par_held s)" using sy merges_out [OF mr] by (simp add: synchronizing_def)
    ultimately have "end_trails x (set (ids (concat (map emits (xs0 @ ys))))) s"
      using sy nx unfolding end_trails_def by blast
    from end_trails_run [OF this x(2) assms(11) r(3)] True assms(10) show ?thesis
      unfolding end_trails_def by (auto simp: synchronizing_def)
  next
    case False
    with awaiting_report [OF ar x(1) r(2)] have as: "awaiting x (par_out p1) (?k - 1) s" by simp
    have "list_all (undisturbed x) zs" using assms(11) by (simp add: list_all_iff)
    moreover have "count_list zs (SinkOut x) = 0" using assms(11) by (auto simp: count_list_0_iff list_all_iff)
    ultimately have "awaiting x (par_out p1) (?k - 1) q"
      using awaiting_run [OF as x(1) _ r(3)] as by (simp add: awaiting_def)
    with nx show ?thesis by (simp add: awaiting_def synchronizing_def)
  qed
qed

lemma drain_run:
  assumes "par_threads p = [Draining x]" and "par_buffered p = bs"
  shows "par_run (replicate (2 * length bs + 1) (Advance 0)) p =
    Some (p\<lparr>par_out := par_out p @ bs, par_buffered := [], par_syncing := False, par_threads := [after_drain x]\<rparr>)"
  using assms
proof (induction bs arbitrary: p)
  case Nil
  then show ?case by (simp add: advance_thread_def)
next
  case (Cons b bs)
  let ?p1 = "p\<lparr>par_buffered := bs, par_threads := [DrainPush x b]\<rparr>"
  let ?p2 = "p\<lparr>par_buffered := bs, par_out := par_out p @ [b], par_threads := [Draining x]\<rparr>"
  have "par_step (Advance 0) p = Some ?p1" using Cons.prems by (simp add: advance_thread_def)
  moreover have "par_step (Advance 0) ?p1 = Some ?p2" by (simp add: advance_thread_def)
  moreover have "par_run (replicate (2 * length bs + 1) (Advance 0)) ?p2 =
      Some (?p2\<lparr>par_out := par_out ?p2 @ bs, par_buffered := [], par_syncing := False, par_threads := [after_drain x]\<rparr>)"
    by (rule Cons.IH) simp_all
  ultimately show ?case by simp
qed

lemma release_ends:
  "par_run (replicate k (Advance 0)) p = Some q \<Longrightarrow> par_threads q = [] \<and> \<not> par_syncing q \<and> par_out q = outs \<and>
     \<not> par_pausedSystem q \<and> \<not> par_paused q \<Longrightarrow>
   \<exists>k q. par_run (replicate k (Advance 0)) p = Some q \<and> par_threads q = [] \<and> \<not> par_syncing q \<and> par_out q = outs \<and>
     \<not> par_pausedSystem q \<and> \<not> par_paused q"
  by blast

text \<open>
  A synchronization ends: once the last branch has reported the lifecycle frame and nothing else happens,
  the release runs to its end; the frame has left together with everything that was held back, a start
  frame ahead of it and an end or cancel frame behind it, in the order the branches put it out, and the
  pipeline takes up frames again.
\<close>

lemma release_completes:
  assumes "isLifecycle (fst x)" and "frameID (fst x) \<notin> set (par_seen p)" and "par_threads p = [release_first x]"
  shows "\<exists>k q. par_run (replicate k (Advance 0)) p = Some q \<and> par_threads q = [] \<and> \<not> par_syncing q \<and>
    par_out q = par_out p @ (if isStartFrame (fst x) then x # par_buffered p else par_buffered p @ [x]) \<and>
    \<not> par_pausedSystem q \<and> \<not> par_paused q"
proof -
  have seq: "par_run (replicate (j + k) (Advance 0)) r = Some t"
    if "par_run (replicate j (Advance 0)) r = Some s" "par_run (replicate k (Advance 0)) s = Some t" for j k r s t
    using that by (simp add: replicate_add par_run_append)
  let ?n = "2 * length (par_buffered p) + 1"
  let ?seen = "frameID (fst x) # par_seen p"
  show ?thesis
  proof (cases "isStartFrame (fst x)")
    case True
    let ?p2 = "p\<lparr>par_seen := ?seen, par_out := par_out p @ [x], par_threads := [Draining x]\<rparr>"
    let ?p3 = "?p2\<lparr>par_out := par_out ?p2 @ par_buffered p, par_buffered := [], par_syncing := False, par_threads := [Resuming x]\<rparr>"
    have "par_run (replicate 2 (Advance 0)) p = Some ?p2"
      using True assms by (simp add: numeral_2_eq_2 release_first_def advance_thread_def after_emit_def)
    moreover have "par_run (replicate ?n (Advance 0)) ?p2 = Some ?p3"
      using drain_run [of ?p2 x "par_buffered p"] True by (simp add: after_drain_def)
    moreover have "par_run (replicate 1 (Advance 0)) ?p3 =
        Some (?p3\<lparr>par_pausedSystem := False, par_paused := False, par_threads := []\<rparr>)" by (simp add: advance_thread_def)
    ultimately have "par_run (replicate (2 + (?n + 1)) (Advance 0)) p =
        Some (?p3\<lparr>par_pausedSystem := False, par_paused := False, par_threads := []\<rparr>)" by (blast intro: seq)
    from release_ends [OF this] True show ?thesis by simp
  next
    case False
    let ?p1 = "p\<lparr>par_out := par_out p @ par_buffered p, par_buffered := [], par_syncing := False, par_threads := [ReleaseEmit x]\<rparr>"
    let ?p2 = "?p1\<lparr>par_seen := ?seen, par_out := par_out ?p1 @ [x], par_threads := [Resuming x]\<rparr>"
    have "par_run (replicate ?n (Advance 0)) p = Some ?p1"
      using drain_run [of p x "par_buffered p"] False assms(3) by (simp add: after_drain_def release_first_def)
    moreover have "par_run (replicate 2 (Advance 0)) ?p1 = Some ?p2"
      using False assms by (simp add: numeral_2_eq_2 advance_thread_def after_emit_def)
    moreover have "par_run (replicate 1 (Advance 0)) ?p2 =
        Some (?p2\<lparr>par_pausedSystem := False, par_paused := False, par_threads := []\<rparr>)" by (simp add: advance_thread_def)
    ultimately have "par_run (replicate (?n + (2 + 1)) (Advance 0)) p =
        Some (?p2\<lparr>par_pausedSystem := False, par_paused := False, par_threads := []\<rparr>)" by (blast intro: seq)
    from release_ends [OF this] False show ?thesis by simp
  qed
qed

section \<open>Examples, and what the synchronization does not cover\<close>

definition sample_frame :: "u64 \<Rightarrow> frame_body \<Rightarrow> frame" where
  "sample_frame i b = \<lparr>frameID = i, typeName = [], pts = 0, hasPTS = False, broadcastSiblingID = None,
     metadata = None, transportSource = [], transportDest = [], body = b\<rparr>"

definition going_down :: "u64 \<Rightarrow> frame_body \<Rightarrow> directed" where
  "going_down i b = (sample_frame i b, Downstream)"

definition two_branches :: par where
  "two_branches = the (newParallel 2)"

abbreviation "start_1 \<equiv> going_down 1 (Sys (StartFrame 16000 24000))"
abbreviation "text_2 \<equiv> going_down 2 (Txt (NewTextFrame ''hi''))"
abbreviation "end_3 \<equiv> going_down 3 (Ctl (EndFrame []))"

text \<open>The second branch speaks before the first has reported the start frame; both forward the text.\<close>

definition started :: "par_action list" where
  "started = [SinkOut start_1, SinkOut text_2, SinkOut text_2, SinkOut start_1] @ replicate 6 (Advance 0)"


lemma two_branches_new: "newParallel 2 = Some two_branches"
  by (simp add: two_branches_def newParallel_def)

lemma start_frame_leads_witness:
  "hd (par_out (the (par_run (Enter start_1 # started) two_branches))) = start_1 \<and>
   par_out (the (par_run [Enter start_1, SinkOut start_1, SinkOut text_2] two_branches)) = []"
proof -
  have "par_run (Enter start_1 # started) two_branches \<noteq> None" by code_simp
  then have r: "par_run (Enter start_1 # started) two_branches =
      Some (the (par_run (Enter start_1 # started) two_branches))" by simp
  have "isStartFrame (fst start_1)" "list_all (undisturbed start_1) started" "count_list started (SinkOut start_1) \<le> 2"
    "par_out (the (par_run (Enter start_1 # started) two_branches)) \<noteq> []"
    "par_out (the (par_run [Enter start_1, SinkOut start_1, SinkOut text_2] two_branches)) = []"
    by code_simp+
  with start_frame_leads [OF two_branches_new _ r] show ?thesis by blast
qed

text \<open>The second branch still has a word to say as the session ends.\<close>

definition last_words :: directed where
  "last_words = going_down 4 (Txt (NewTextFrame ''bye''))"

lemma end_frame_trails_witness:
  "par_out (the (par_run (Enter end_3 # [SinkOut end_3, SinkOut last_words] @ SinkOut end_3 # replicate 6 (Advance 0))
     (the (par_run (Enter start_1 # started) two_branches)))) = [start_1, text_2, last_words, end_3] \<and>
   count_list [SinkOut end_3, SinkOut last_words] (SinkOut end_3) = 2 - 1"
proof -
  let ?p = "the (par_run (Enter start_1 # started) two_branches)"
  let ?ys = "[SinkOut end_3, SinkOut last_words]" and ?zs = "replicate 6 (Advance 0)"
  let ?q = "the (par_run (Enter end_3 # ?ys @ SinkOut end_3 # ?zs) ?p)"
  have "par_run (Enter start_1 # started) two_branches \<noteq> None" by code_simp
  then have r: "par_run (Enter start_1 # started) two_branches = Some ?p" by simp
  have "par_run (Enter end_3 # ?ys @ SinkOut end_3 # ?zs) ?p \<noteq> None" by code_simp
  then have s: "par_run (Enter end_3 # ?ys @ SinkOut end_3 # ?zs) ?p = Some ?q" by simp
  have t: "par_threads ?p = []" "\<not> par_syncing ?p" "isLifecycle (fst end_3)" "\<not> isStartFrame (fst end_3)"
    "frameID (fst end_3) \<notin> set (par_seen ?p)" by code_simp+
  have u: "list_all (undisturbed end_3) ?ys" "count_list ?ys (SinkOut end_3) < 2"
    "list_all (\<lambda>a. undisturbed end_3 a \<and> a \<noteq> SinkOut end_3) ?zs" by code_simp+
  have o: "par_out ?q = [start_1, text_2, last_words, end_3]" by code_simp
  then have "end_3 \<in> set (par_out ?q)" by simp
  with end_frame_trails [OF two_branches_new r t s u] o show ?thesis by blast
qed

lemma release_completes_witness:
  "\<exists>k q. par_run (replicate k (Advance 0))
     (the (par_run [Enter start_1, SinkOut text_2, SinkOut start_1, SinkOut start_1] two_branches)) = Some q \<and>
   par_threads q = [] \<and> \<not> par_syncing q \<and> par_out q = [start_1, text_2] \<and> \<not> par_pausedSystem q \<and> \<not> par_paused q"
proof -
  let ?p = "the (par_run [Enter start_1, SinkOut text_2, SinkOut start_1, SinkOut start_1] two_branches)"
  have "isLifecycle (fst start_1)" "frameID (fst start_1) \<notin> set (par_seen ?p)" "par_threads ?p = [release_first start_1]"
    by code_simp+
  from release_completes [OF this] show ?thesis
  proof -
    have "par_out ?p @ (if isStartFrame (fst start_1) then start_1 # par_buffered ?p else par_buffered ?p @ [start_1]) =
      [start_1, text_2]" by code_simp
    with release_completes [OF \<open>isLifecycle (fst start_1)\<close> \<open>frameID (fst start_1) \<notin> set (par_seen ?p)\<close>
        \<open>par_threads ?p = [release_first start_1]\<close>] show ?thesis by (simp only:)
  qed
qed

text \<open>
  A lifecycle frame travelling upstream arms the synchronization like any other, but it comes out at the
  sources, which par_emit it into the buffer and count nothing down: the pipeline stays paused and the frame held.
\<close>

lemma upstream_lifecycle_stalls:
  "let x = (sample_frame 3 (Ctl (EndFrame [])), Upstream);
       p = the (par_run [Enter x, SourceOut x, SourceOut x] two_branches)
   in par_out p = [] \<and> par_threads p = [] \<and> par_buffered p = [x] \<and> par_step (Enter text_2) p = None \<and>
      par_step (Enter start_1) p = None"
  by code_simp

text \<open>
  A lifecycle frame one branch raises by itself while another is synchronized drains the buffer that one
  holds: text a branch put out leaves ahead of the start frame it was held for.
\<close>

lemma own_end_overtakes_start:
  "par_out (the (par_run ([Enter start_1, SinkOut start_1, SinkOut text_2, SinkOut end_3] @ replicate 6 (Advance 0))
     two_branches)) = [text_2, end_3]"
  by code_simp

end
