(* ===== verification/Service_Switcher.thy ===== *)
theory Service_Switcher
  imports Parallel_Pipeline
begin

text \<open>
  The service switcher and its strategies (pipeline/switcher.go): one of several interchangeable services is
  given the work, the others are kept warm behind closed gates.

  A service is known by its name, which is unique; whether it can still be given work is its own state, kept
  here as a function of its name. What the switcher hands to its parallel pipeline, queues on a service,
  pushes on and raises is a log.
\<close>

section \<open>State\<close>

datatype sw_out =
    SwFanned frame Direction
  | SwQueued string frame Direction
  | SwPushed frame Direction
  | SwSwitched string
  | SwUsableChanged bool
  | SwReported string

record switcher =
  sw_name :: string
  sw_services :: "string list"
  sw_active :: string
  sw_failover :: bool
  sw_usable :: "string \<Rightarrow> bool"
  sw_inactiveUpdates :: "u64 list"
  sw_announcedUsable :: bool
  sw_idCounter :: u64
  sw_log :: "sw_out list"

definition inactiveUpdateRing :: nat where
  "inactiveUpdateRing = 64"

definition slog :: "sw_out list \<Rightarrow> switcher \<Rightarrow> switcher" where
  "slog xs s = s\<lparr>sw_log := sw_log s @ xs\<rparr>"

definition sw_Usable :: "switcher \<Rightarrow> bool" where
  "sw_Usable s \<longleftrightarrow> list_ex (sw_usable s) (sw_services s)"

definition NewServiceSwitcher :: "string \<Rightarrow> string list \<Rightarrow> bool \<Rightarrow> (string \<Rightarrow> bool) \<Rightarrow> u64 \<Rightarrow> switcher option" where
  "NewServiceSwitcher nm services failover us c =
    (if services = [] then None
     else Some \<lparr>sw_name = nm, sw_services = services, sw_active = hd services, sw_failover = failover, sw_usable = us,
       sw_inactiveUpdates = [], sw_announcedUsable = list_ex us services, sw_idCounter = c, sw_log = []\<rparr>)"

section \<open>Strategies\<close>

definition UsableServices :: "switcher \<Rightarrow> string list" where
  "UsableServices s = filter (sw_usable s) (sw_services s)"

definition setActiveIfAvailable :: "string option \<Rightarrow> switcher \<Rightarrow> string option \<times> switcher" where
  "setActiveIfAvailable target s =
    (case target of
       None \<Rightarrow> (None, s)
     | Some svc \<Rightarrow>
         if svc \<notin> set (sw_services s) then (None, s)
         else if \<not> sw_usable s svc then (None, s)
         else (Some svc, slog [SwSwitched svc] (s\<lparr>sw_active := svc\<rparr>)))"

text \<open>Both strategies switch by hand alike; only the manual request frame is theirs to act on.\<close>

definition HandleFrame :: "frame_body \<Rightarrow> switcher \<Rightarrow> string option \<times> switcher" where
  "HandleFrame b s =
    (case b of Swi (ManuallySwitchServiceFrame target) \<Rightarrow> setActiveIfAvailable target s | _ \<Rightarrow> (None, s))"

fun index_from :: "nat \<Rightarrow> string \<Rightarrow> string list \<Rightarrow> nat" where
  "index_from i x [] = 0"
| "index_from i x (y # ys) = (if y = x then i else index_from (Suc i) x ys)"

definition candidates :: "switcher \<Rightarrow> string list" where
  "candidates s =
    (let n = length (sw_services s); idx = index_from 0 (sw_active s) (sw_services s)
     in map (\<lambda>offset. sw_services s ! ((idx + offset) mod n)) [1..<n])"

definition HandleError :: "string \<Rightarrow> switcher \<Rightarrow> string option \<times> switcher" where
  "HandleError failed s =
    (if \<not> sw_failover s then (None, s)
     else if sw_usable s failed then (None, s)
     else case find (sw_usable s) (candidates s) of
         None \<Rightarrow> (None, s)
       | Some c \<Rightarrow> setActiveIfAvailable (Some c) s)"

section \<open>Steering\<close>

definition new_frame :: "string \<Rightarrow> frame_body \<Rightarrow> switcher \<Rightarrow> frame \<times> switcher" where
  "new_frame tn b s = (let (f, c) = NewBaseFrame tn b (sw_idCounter s) in (f, s\<lparr>sw_idCounter := c\<rparr>))"

definition requestMetadata :: "string \<Rightarrow> switcher \<Rightarrow> switcher" where
  "requestMetadata svc s =
    (let (f, s) = new_frame ''ServiceSwitcherRequestMetadataFrame'' (Swi (ServiceSwitcherRequestMetadataFrame (Some svc))) s
     in slog [SwQueued svc f Downstream] s)"

definition SwitchTo :: "string \<Rightarrow> switcher \<Rightarrow> bool \<times> switcher" where
  "SwitchTo svc s =
    (let (f, s) = new_frame ''ManuallySwitchServiceFrame'' (Swi (ManuallySwitchServiceFrame (Some svc))) s
     in case HandleFrame (body f) s of
          (None, s) \<Rightarrow> (False, s)
        | (Some sw, s) \<Rightarrow> (True, requestMetadata sw s))"

section \<open>Settings updates\<close>

fun ServiceUpdate :: "settings_go \<Rightarrow> settings_update" where
  "ServiceUpdate (LLMUpdateSettingsFrame u) = u"
| "ServiceUpdate (TTSUpdateSettingsFrame u) = u"
| "ServiceUpdate (STTUpdateSettingsFrame u) = u"

text \<open>\<open>Copy\<close>: the same update under an identifier of its own.\<close>

definition Copy :: "frame \<Rightarrow> switcher \<Rightarrow> frame \<times> switcher" where
  "Copy f s = new_frame (typeName f) (body f) s"

definition inactiveUpdateTargets :: "settings_update \<Rightarrow> switcher \<Rightarrow> string list" where
  "inactiveUpdateTargets u s =
    (let inactive = filter (\<lambda>svc. svc \<noteq> sw_active s) (sw_services s)
     in case suService u of
          Some t \<Rightarrow> (case find (\<lambda>svc. svc = t) inactive of None \<Rightarrow> [] | Some svc \<Rightarrow> [svc])
        | None \<Rightarrow> if suReachInactiveServices u then inactive else [])"

definition rememberInactiveUpdate :: "u64 \<Rightarrow> switcher \<Rightarrow> switcher" where
  "rememberInactiveUpdate i s =
    (let us = sw_inactiveUpdates s; us = (if length us = inactiveUpdateRing then tl us else us)
     in s\<lparr>sw_inactiveUpdates := us @ [i]\<rparr>)"

definition consumeInactiveUpdate :: "u64 \<Rightarrow> switcher \<Rightarrow> bool \<times> switcher" where
  "consumeInactiveUpdate i s =
    (if i \<in> set (sw_inactiveUpdates s) then (True, s\<lparr>sw_inactiveUpdates := remove1 i (sw_inactiveUpdates s)\<rparr>) else (False, s))"

definition give_copy :: "frame \<Rightarrow> Direction \<Rightarrow> string \<Rightarrow> switcher \<Rightarrow> switcher" where
  "give_copy f d svc s =
    (let (c, s) = Copy f s; s = rememberInactiveUpdate (frameID c) s in slog [SwQueued svc c d] s)"

definition updateInactiveServices :: "frame \<Rightarrow> settings_go \<Rightarrow> Direction \<Rightarrow> switcher \<Rightarrow> switcher" where
  "updateInactiveServices f u d s = fold (give_copy f d) (inactiveUpdateTargets (ServiceUpdate u) s) s"

definition sw_ProcessFrame :: "frame \<Rightarrow> Direction \<Rightarrow> switcher \<Rightarrow> switcher" where
  "sw_ProcessFrame f d s =
    (case HandleFrame (body f) s of
       (Some switched, s) \<Rightarrow> requestMetadata switched s
     | (None, s) \<Rightarrow>
         let s = slog [SwFanned f d] s
         in case body f of Set u \<Rightarrow> updateInactiveServices f u d s | _ \<Rightarrow> s)"

section \<open>What leaves the switcher\<close>

text \<open>
  \<open>reportServiceFailure\<close>: the error is pushed again in the switcher's name, with the category that costs no
  usability. It comes back to \<open>PushFrame\<close>, where an error of the switcher itself is nobody's to handle, and
  goes on; \<open>report_travels\<close> below shows it.
\<close>

definition failure_frame :: "string \<Rightarrow> string \<Rightarrow> go_error option \<Rightarrow> switcher \<Rightarrow> frame \<times> switcher" where
  "failure_frame failed msg err s =
    new_frame ''ErrorFrame'' (Sys (ErrorFrame (failed @ '' can no longer do its job: '' @ msg) False (Some (sw_name s)) err Unknown)) s"

definition reportServiceFailure :: "string \<Rightarrow> string \<Rightarrow> go_error option \<Rightarrow> switcher \<Rightarrow> switcher" where
  "reportServiceFailure failed msg err s =
    (let (f, s) = failure_frame failed msg err s in slog [SwReported failed, SwPushed f Upstream] s)"

definition handleServiceError ::
  "string \<Rightarrow> bool \<Rightarrow> string option \<Rightarrow> go_error option \<Rightarrow> switcher \<Rightarrow> bool \<times> switcher" where
  "handleServiceError msg fatal source err s =
    (if fatal then (False, s)
     else case source of
         None \<Rightarrow> (False, s)
       | Some failed \<Rightarrow>
           if failed \<noteq> sw_active s then (failed \<in> set (sw_services s), s)
           else case HandleError failed s of
               (Some switched, s) \<Rightarrow> (True, requestMetadata switched s)
             | (None, s) \<Rightarrow>
                 if \<not> sw_usable s failed then (True, reportServiceFailure failed msg err s) else (False, s))"

fun metadata_service :: "metadata_go \<Rightarrow> string" where
  "metadata_service (ServiceMetadataFrame n) = n"
| "metadata_service (LLMServiceMetadataFrame n r) = n"
| "metadata_service (STTMetadataFrame n l) = n"

definition consumed :: "frame \<Rightarrow> switcher \<Rightarrow> bool \<times> switcher" where
  "consumed f s =
    (case body f of
       Swi (ServiceSwitcherRequestMetadataFrame t) \<Rightarrow> (t = Some (sw_active s), s)
     | Met m \<Rightarrow> (metadata_service m \<noteq> sw_active s, s)
     | Set u \<Rightarrow> consumeInactiveUpdate (frameID f) s
     | Sys (ErrorFrame msg fatal source err cat) \<Rightarrow> handleServiceError msg fatal source err s
     | _ \<Rightarrow> (False, s))"

definition sw_PushFrame :: "frame \<Rightarrow> Direction \<Rightarrow> switcher \<Rightarrow> switcher" where
  "sw_PushFrame f d s = (case consumed f s of (True, s) \<Rightarrow> s | (False, s) \<Rightarrow> slog [SwPushed f d] s)"

section \<open>The gates\<close>

text \<open>Both filters of a branch carry the gate of its service and decide system frames too.\<close>

definition gate :: "switcher \<Rightarrow> string \<Rightarrow> Direction \<Rightarrow> FunctionFilter" where
  "gate s svc d = \<lparr>ff_dir = Some d, ff_allow = (\<lambda>f. sw_active s = svc), ff_filterSystemFrames = True\<rparr>"

definition receives :: "switcher \<Rightarrow> frame \<Rightarrow> Direction \<Rightarrow> string \<Rightarrow> bool" where
  "receives s f d svc \<longleftrightarrow> FunctionFilter_ProcessFrame (gate s svc d) f d"

section \<open>Announcing usability\<close>

text \<open>The reading is taken before the lock; what is announced is decided under it.\<close>

definition announce :: "bool \<Rightarrow> switcher \<Rightarrow> switcher" where
  "announce us s =
    (if us = sw_announcedUsable s then s else slog [SwUsableChanged us] (s\<lparr>sw_announcedUsable := us\<rparr>))"

definition announceUsable :: "switcher \<Rightarrow> switcher" where
  "announceUsable s = announce (sw_Usable s) s"

text \<open>A service changes its own usability, which calls the switcher back when the value moves.\<close>

definition service_SetUsable :: "string \<Rightarrow> bool \<Rightarrow> switcher \<Rightarrow> switcher" where
  "service_SetUsable svc us s =
    (if sw_usable s svc = us then s
     else let s = s\<lparr>sw_usable := (sw_usable s)(svc := us)\<rparr> in if svc \<in> set (sw_services s) then announceUsable s else s)"

datatype sw_action =
    SwFrame frame Direction | SwPush frame Direction | SwSwitchTo string | SwSetUsable string bool

fun sw_step :: "sw_action \<Rightarrow> switcher \<Rightarrow> switcher" where
  "sw_step (SwFrame f d) s = sw_ProcessFrame f d s"
| "sw_step (SwPush f d) s = sw_PushFrame f d s"
| "sw_step (SwSwitchTo svc) s = snd (SwitchTo svc s)"
| "sw_step (SwSetUsable svc us) s = service_SetUsable svc us s"

abbreviation sw_run :: "sw_action list \<Rightarrow> switcher \<Rightarrow> switcher" where
  "sw_run \<equiv> fold sw_step"

section \<open>What the operations leave alone\<close>

lemmas sw_defs = slog_def new_frame_def NewBaseFrame_def nextID_def requestMetadata_def setActiveIfAvailable_def
  Copy_def rememberInactiveUpdate_def give_copy_def Let_def

lemma setActive_eq:
  "setActiveIfAvailable t s =
    (case t of
       Some svc \<Rightarrow> if svc \<in> set (sw_services s) \<and> sw_usable s svc
                   then (Some svc, slog [SwSwitched svc] (s\<lparr>sw_active := svc\<rparr>)) else (None, s)
     | None \<Rightarrow> (None, s))"
  by (simp add: setActiveIfAvailable_def split: option.splits)

text \<open>Everything a step can change but the active service, the usability and the announcement.\<close>

definition same_setup :: "switcher \<Rightarrow> switcher \<Rightarrow> bool" where
  "same_setup s t \<longleftrightarrow> sw_services t = sw_services s \<and> sw_name t = sw_name s \<and> sw_failover t = sw_failover s \<and>
    sw_usable t = sw_usable s \<and> sw_announcedUsable t = sw_announcedUsable s"

lemma same_setup_trans: "same_setup r s \<Longrightarrow> same_setup s t \<Longrightarrow> same_setup r t"
  by (simp add: same_setup_def)

lemma same_setup_log [simp]: "same_setup s (slog xs s)" "sw_active (slog xs s) = sw_active s"
  by (simp_all add: same_setup_def slog_def)

lemma same_setup_requestMetadata [simp]: "same_setup s (requestMetadata svc s)" "sw_active (requestMetadata svc s) = sw_active s"
  by (simp_all add: same_setup_def sw_defs)

lemma same_setup_give: "same_setup s (fold (give_copy f d) svcs s) \<and> sw_active (fold (give_copy f d) svcs s) = sw_active s"
proof (induction svcs arbitrary: s)
  case (Cons svc svcs)
  have "same_setup s (give_copy f d svc s)" "sw_active (give_copy f d svc s) = sw_active s"
    by (simp_all add: same_setup_def sw_defs)
  with Cons.IH [of "give_copy f d svc s"] show ?case by (auto intro: same_setup_trans)
qed (simp add: same_setup_def)

text \<open>A step keeps the active service or moves to a member that can be given work.\<close>

definition moves :: "switcher \<Rightarrow> switcher \<Rightarrow> bool" where
  "moves s t \<longleftrightarrow> same_setup s t \<and>
    (sw_active t = sw_active s \<or> sw_active t \<in> set (sw_services s) \<and> sw_usable s (sw_active t))"

lemma moves_trans: "moves r s \<Longrightarrow> same_setup s t \<Longrightarrow> sw_active t = sw_active s \<Longrightarrow> moves r t"
  by (auto simp: moves_def same_setup_def)

lemma moves_refl [simp]: "moves s s"
  by (simp add: moves_def same_setup_def)

lemma moves_setActive: "moves s (snd (setActiveIfAvailable t s))"
  by (auto simp: setActive_eq moves_def same_setup_def slog_def split: option.splits)

lemma moves_HandleFrame: "moves s (snd (HandleFrame b s))"
  by (auto simp: HandleFrame_def moves_setActive split: frame_body.splits switcher_go.splits)

lemma moves_HandleError: "moves s (snd (HandleError failed s))"
  by (auto simp: HandleError_def moves_setActive split: option.splits)

lemma moves_ProcessFrame: "moves s (sw_ProcessFrame f d s)"
proof -
  obtain r t where h: "HandleFrame (body f) s = (r, t)" by fastforce
  with moves_HandleFrame [of s "body f"] have m: "moves s t" by simp
  have u: "same_setup t (updateInactiveServices f u d (slog [SwFanned f d] t))"
    "sw_active (updateInactiveServices f u d (slog [SwFanned f d] t)) = sw_active t" for u
    using same_setup_give [of "slog [SwFanned f d] t" f d]
    by (auto simp: updateInactiveServices_def intro: same_setup_trans [OF same_setup_log(1)])
  show ?thesis
  proof (cases r)
    case None
    with h m u show ?thesis
      by (auto simp: sw_ProcessFrame_def Let_def split: frame_body.splits intro: moves_trans)
  next
    case (Some a)
    with h m show ?thesis by (auto simp: sw_ProcessFrame_def intro: moves_trans)
  qed
qed

lemma same_setup_report: "same_setup s (reportServiceFailure failed msg err s) \<and>
  sw_active (reportServiceFailure failed msg err s) = sw_active s"
  by (simp add: same_setup_def reportServiceFailure_def failure_frame_def sw_defs)

lemma moves_handleServiceError: "moves s (snd (handleServiceError msg fatal source err s))"
proof (cases "fatal \<or> source \<noteq> Some (sw_active s)")
  case True
  then show ?thesis by (auto simp: handleServiceError_def split: option.splits)
next
  case False
  obtain r t where h: "HandleError (sw_active s) s = (r, t)" by fastforce
  with moves_HandleError [of s "sw_active s"] have m: "moves s t" by simp
  have "moves s (requestMetadata a t)" for a by (rule moves_trans [OF m]) simp_all
  moreover have "moves s (reportServiceFailure f msg err t)" for f
    by (rule moves_trans [OF m]) (simp_all add: same_setup_report)
  ultimately show ?thesis using False h m by (auto simp: handleServiceError_def split: option.splits)
qed

lemma moves_consume: "moves s (snd (consumeInactiveUpdate i s))"
  by (simp add: consumeInactiveUpdate_def moves_def same_setup_def)

lemma moves_PushFrame: "moves s (sw_PushFrame f d s)"
proof -
  have c: "moves s (snd (consumed f s))"
    by (simp add: consumed_def moves_handleServiceError moves_consume split: frame_body.splits switcher_go.splits system_go.splits)
  obtain b t where "consumed f s = (b, t)" by fastforce
  with c show ?thesis by (cases b) (auto simp: sw_PushFrame_def intro: moves_trans)
qed

lemma moves_SwitchTo: "moves s (snd (SwitchTo svc s))"
proof -
  obtain f t where n: "new_frame ''ManuallySwitchServiceFrame'' (Swi (ManuallySwitchServiceFrame (Some svc))) s = (f, t)" by fastforce
  then have t: "same_setup s t" "sw_active t = sw_active s" by (auto simp: same_setup_def sw_defs)
  obtain r v where h: "HandleFrame (body f) t = (r, v)" by fastforce
  with moves_HandleFrame [of t "body f"] have "moves t v" by simp
  with t have "moves s v" by (auto simp: moves_def same_setup_def)
  with n h show ?thesis by (cases r) (auto simp: SwitchTo_def intro: moves_trans)
qed

section \<open>Properties\<close>

definition sw_ok :: "string list \<Rightarrow> switcher \<Rightarrow> bool" where
  "sw_ok services s \<longleftrightarrow> sw_services s = services \<and> sw_active s \<in> set services \<and> sw_announcedUsable s = sw_Usable s"

lemma sw_ok_moves: "sw_ok services s \<Longrightarrow> moves s t \<Longrightarrow> sw_ok services t"
  by (auto simp: sw_ok_def moves_def same_setup_def sw_Usable_def)

lemma sw_ok_SetUsable: "sw_ok services s \<Longrightarrow> sw_ok services (service_SetUsable svc us s)"
  by (auto simp: sw_ok_def service_SetUsable_def announceUsable_def announce_def sw_Usable_def slog_def Let_def list_ex_iff)

lemma sw_ok_step: "sw_ok services s \<Longrightarrow> sw_ok services (sw_step a s)"
  by (cases a) (auto intro: sw_ok_moves moves_ProcessFrame moves_PushFrame moves_SwitchTo sw_ok_SetUsable)

lemma sw_ok_run: "sw_ok services s \<Longrightarrow> sw_ok services (sw_run xs s)"
  by (induction xs arbitrary: s) (simp_all add: sw_ok_step)

lemma sw_ok_New: "NewServiceSwitcher nm services fo us c = Some s \<Longrightarrow> sw_ok services s"
  by (auto simp: NewServiceSwitcher_def sw_ok_def sw_Usable_def split: if_splits)


subsection \<open>Failing over\<close>

lemma index_from_split: "x \<notin> set pre \<Longrightarrow> index_from i x (pre @ x # post) = i + length pre"
  by (induction pre arbitrary: i) auto

lemma candidates_rotate:
  assumes "sw_services s = pre @ sw_active s # post" and "sw_active s \<notin> set pre"
  shows "candidates s = post @ pre"
proof (rule nth_equalityI)
  let ?n = "length pre + length post + 1"
  show len: "length (candidates s) = length (post @ pre)" using assms(1) by (simp add: candidates_def Let_def del: upt_Suc)
  fix i assume "i < length (candidates s)"
  then have i: "i < length post + length pre" using len by simp
  have c: "candidates s ! i = sw_services s ! ((length pre + (i + 1)) mod ?n)"
    using i assms(1) index_from_split [OF assms(2), of 0 post] by (simp add: candidates_def Let_def del: upt_Suc)
  show "candidates s ! i = (post @ pre) ! i"
  proof (cases "i < length post")
    case True
    then have "(length pre + (i + 1)) mod ?n = length pre + 1 + i" by simp
    with c assms(1) True show ?thesis by (simp add: nth_append)
  next
    case False
    then have "(length pre + (i + 1)) mod ?n = i - length post" using i by (simp add: mod_if)
    moreover have "i - length post < length pre" using i False by linarith
    ultimately show ?thesis using c assms(1) False by (simp add: nth_append)
  qed
qed

lemma failover_eq:
  assumes "sw_services s = pre @ sw_active s # post" and "sw_active s \<notin> set pre" and "\<not> sw_usable s (sw_active s)"
  shows "HandleError (sw_active s) s =
    (if \<not> sw_failover s then (None, s)
     else case find (sw_usable s) (post @ pre) of
         None \<Rightarrow> (None, s)
       | Some svc \<Rightarrow> (Some svc, slog [SwSwitched svc] (s\<lparr>sw_active := svc\<rparr>)))"
  and "find (sw_usable s) (post @ pre) = None \<longleftrightarrow> \<not> sw_Usable s"
proof -
  have "svc \<in> set (sw_services s) \<and> sw_usable s svc" if "find (sw_usable s) (post @ pre) = Some svc" for svc
    using that assms(1) nth_mem [of _ "post @ pre"] by (auto simp: find_Some_iff simp del: nth_mem)
  with candidates_rotate [OF assms(1,2)] assms(3) show "HandleError (sw_active s) s =
    (if \<not> sw_failover s then (None, s)
     else case find (sw_usable s) (post @ pre) of
         None \<Rightarrow> (None, s)
       | Some svc \<Rightarrow> (Some svc, slog [SwSwitched svc] (s\<lparr>sw_active := svc\<rparr>)))"
    by (auto simp: HandleError_def setActive_eq split: option.splits)
  show "find (sw_usable s) (post @ pre) = None \<longleftrightarrow> \<not> sw_Usable s"
    using assms(1,3) by (auto simp: find_None_iff sw_Usable_def list_ex_iff)
qed

text \<open>
  Failing over takes the next service that works: when the active service can no longer be given work,
  the failover strategy moves to the first service that can, going on from the one after it and round to the
  one before it, and stays where it is exactly when no other service works.
\<close>

lemma failover_next_usable:
  assumes "sw_services s = pre @ sw_active s # post" and "sw_active s \<notin> set pre"
    and "sw_failover s" and "\<not> sw_usable s (sw_active s)"
  shows "fst (HandleError (sw_active s) s) = find (sw_usable s) (post @ pre) \<and>
    sw_active (snd (HandleError (sw_active s) s)) =
      (case find (sw_usable s) (post @ pre) of None \<Rightarrow> sw_active s | Some svc \<Rightarrow> svc) \<and>
    (fst (HandleError (sw_active s) s) = None \<longleftrightarrow> \<not> sw_Usable s)"
  unfolding failover_eq [OF assms(1,2,4)]
  using assms(3) failover_eq(2) [OF assms(1,2,4)] by (auto simp: slog_def split: option.splits)

subsection \<open>Errors\<close>

lemma report_travels:
  assumes "sw_name s \<notin> set (sw_services s)" and "sw_active s \<in> set (sw_services s)"
  shows "let (f, t) = failure_frame failed msg err s in sw_PushFrame f Upstream t = slog [SwPushed f Upstream] t"
  using assms by (auto simp: failure_frame_def sw_PushFrame_def consumed_def handleServiceError_def sw_defs)

definition pushed_errors :: "sw_out list \<Rightarrow> (string option \<times> Direction) list" where
  "pushed_errors xs = concat (map (\<lambda>x. case x of
     SwPushed f d \<Rightarrow> (case body f of Sys (ErrorFrame m ft src e c) \<Rightarrow> [(src, d)] | _ \<Rightarrow> []) | _ \<Rightarrow> []) xs)"

lemma pushed_errors_log [simp]: "pushed_errors [] = []" "pushed_errors (xs @ ys) = pushed_errors xs @ pushed_errors ys"
  by (simp_all add: pushed_errors_def)

lemma requestMetadata_log: "\<exists>f. sw_log (requestMetadata svc s) = sw_log s @ [SwQueued svc f Downstream] \<and>
    body f = Swi (ServiceSwitcherRequestMetadataFrame (Some svc))"
  by (auto simp: sw_defs)


subsection \<open>Settings updates\<close>

definition queued :: "sw_out list \<Rightarrow> (string \<times> frame) list" where
  "queued xs = concat (map (\<lambda>x. case x of SwQueued svc g d \<Rightarrow> [(svc, g)] | _ \<Rightarrow> []) xs)"

lemma queued_log [simp]: "queued [] = []" "queued (xs @ ys) = queued xs @ queued ys" "queued (SwFanned f d # xs) = queued xs"
  by (simp_all add: queued_def)

text \<open>Handing copies out: one each, under the next identifiers, all of them remembered.\<close>

definition copy_of :: "frame \<Rightarrow> u64 \<Rightarrow> frame" where
  "copy_of f c = fst (NewBaseFrame (typeName f) (body f) c)"

lemma give_copies:
  assumes "length (sw_inactiveUpdates s) + length svcs \<le> inactiveUpdateRing" and "t = fold (give_copy f d) svcs s"
  shows "sw_log t = sw_log s @ map2 (\<lambda>svc i. SwQueued svc (copy_of f (sw_idCounter s + of_nat i)) d) svcs [0..<length svcs] \<and>
    sw_inactiveUpdates t = sw_inactiveUpdates s @ map (\<lambda>i. sw_idCounter s + of_nat i + 1) [0..<length svcs]"
  using assms
proof (induction svcs arbitrary: s)
  case (Cons svc svcs)
  let ?s = "give_copy f d svc s"
  have g: "sw_log ?s = sw_log s @ [SwQueued svc (copy_of f (sw_idCounter s)) d]"
    "sw_inactiveUpdates ?s = sw_inactiveUpdates s @ [sw_idCounter s + 1]" "sw_idCounter ?s = sw_idCounter s + 1"
    using Cons.prems(1) by (simp_all add: sw_defs copy_of_def inactiveUpdateRing_def)
  have up: "[0..<Suc (length svcs)] = 0 # map Suc [0..<length svcs]" by (simp add: map_Suc_upt upt_conv_Cons del: upt_Suc)
  from Cons.IH [of ?s] Cons.prems g show ?case
    by (simp add: up zip_map2 comp_def case_prod_unfold add.assoc del: upt_Suc)
qed simp

lemma give_copies_ids:
  assumes "n \<le> 2 ^ 64"
  shows "distinct (map (\<lambda>i. (c :: u64) + of_nat i + 1) [0..<n])"
  using assms by (auto simp: distinct_map inj_on_def word_of_nat_eq_iff take_bit_nat_eq_self)

lemma targets_filter:
  assumes "distinct (sw_services s)"
  shows "inactiveUpdateTargets u s = filter (\<lambda>svc. svc \<noteq> sw_active s \<and>
    (case suService u of Some x \<Rightarrow> x = svc | None \<Rightarrow> suReachInactiveServices u)) (sw_services s)"
proof (cases "suService u")
  case (Some x)
  have "(case find (\<lambda>svc. svc = x) ys of None \<Rightarrow> [] | Some svc \<Rightarrow> [svc]) = filter (\<lambda>svc. svc = x) ys"
    if "distinct ys" for ys :: "string list"
    using that by (induction ys) (auto intro!: filter_False [symmetric])
  from this [of "filter (\<lambda>svc. svc \<noteq> sw_active s) (sw_services s)"] assms Some show ?thesis
    by (simp add: inactiveUpdateTargets_def Let_def eq_commute conj_commute)
qed (simp add: inactiveUpdateTargets_def Let_def)

lemma map2_right: "length xs = length ys \<Longrightarrow> map2 (\<lambda>x y. k y) xs ys = map k ys"
  by (induction xs ys rule: list_induct2) auto

lemma map2_left: "length xs = length ys \<Longrightarrow> map2 (\<lambda>x y. k x) xs ys = map k xs"
  by (induction xs ys rule: list_induct2) auto

lemma queued_map2: "queued (map2 (\<lambda>svc i. SwQueued svc (g i) d) svcs is) = map2 (\<lambda>svc i. (svc, g i)) svcs is"
  by (induction svcs "is" rule: list_induct2') (simp_all add: queued_def)

lemma consume_all:
  assumes "distinct (map frameID (map fst ps))"
    and "\<forall>x\<in>set ps. \<exists>u. body (fst x) = Set u"
    and "pushes = filter (\<lambda>x. frameID (fst x) \<notin> set (sw_inactiveUpdates s)) ps" and "distinct (sw_inactiveUpdates s)"
  shows "sw_log (fold (\<lambda>x. sw_PushFrame (fst x) (snd x)) ps s) = sw_log s @ map (\<lambda>x. SwPushed (fst x) (snd x)) pushes"
  using assms
proof (induction ps arbitrary: s pushes)
  case (Cons x ps)
  obtain u where u: "body (fst x) = Set u" using Cons.prems(2) by auto
  let ?t = "sw_PushFrame (fst x) (snd x) s"
  show ?case
  proof (cases "frameID (fst x) \<in> set (sw_inactiveUpdates s)")
    case True
    then have t: "sw_log ?t = sw_log s" "sw_inactiveUpdates ?t = remove1 (frameID (fst x)) (sw_inactiveUpdates s)"
      using u by (simp_all add: sw_PushFrame_def consumed_def consumeInactiveUpdate_def)
    have ne: "frameID (fst y) \<noteq> frameID (fst x)" if "y \<in> set ps" for y
    proof -
      have "frameID (fst y) \<in> set (map frameID (map fst ps))" using that by simp
      with Cons.prems(1) show ?thesis by (simp only: list.map distinct.simps) metis
    qed
    have "filter (\<lambda>y. frameID (fst y) \<notin> set (sw_inactiveUpdates ?t)) ps =
        filter (\<lambda>y. frameID (fst y) \<notin> set (sw_inactiveUpdates s)) ps"
      by (rule filter_cong [OF refl]) (simp add: t(2) ne in_set_remove1)
    with Cons.IH [of "filter (\<lambda>y. frameID (fst y) \<notin> set (sw_inactiveUpdates ?t)) ps" ?t] Cons.prems t True
    show ?thesis by (simp add: distinct_remove1)
  next
    case False
    then have t: "sw_log ?t = sw_log s @ [SwPushed (fst x) (snd x)]" "sw_inactiveUpdates ?t = sw_inactiveUpdates s"
      using u by (simp_all add: sw_PushFrame_def consumed_def consumeInactiveUpdate_def slog_def)
    with Cons.IH [of "filter (\<lambda>y. frameID (fst y) \<notin> set (sw_inactiveUpdates s)) ps" ?t] Cons.prems False
    show ?thesis by simp
  qed
qed simp

text \<open>
  A settings update reaches each service it is meant for exactly once and leaves the switcher exactly
  once: of the inactive services, the one it is addressed to, or all of them when it is for all, is each
  handed one copy of its own; and in whatever order the copies and the update itself then come out of the
  branches, only the update itself is pushed on.
\<close>

lemma settings_update_once:
  assumes "body f = Set u" and "distinct (sw_services s)" and "length (sw_services s) \<le> inactiveUpdateRing"
    and "sw_inactiveUpdates s = []" and "t = sw_ProcessFrame f d s"
    and "frameID f \<notin> frameID ` snd ` set (queued (drop (length (sw_log s)) (sw_log t)))"
    and "mset ps = mset ((f, d) # map (\<lambda>x. (snd x, d)) (queued (drop (length (sw_log s)) (sw_log t))))"
  shows "map fst (queued (drop (length (sw_log s)) (sw_log t))) =
      filter (\<lambda>svc. svc \<noteq> sw_active s \<and>
        (case suService (ServiceUpdate u) of Some x \<Rightarrow> x = svc | None \<Rightarrow> suReachInactiveServices (ServiceUpdate u)))
      (sw_services s) \<and>
    list_all (\<lambda>x. body (snd x) = body f) (queued (drop (length (sw_log s)) (sw_log t))) \<and>
    sw_log (fold (\<lambda>x. sw_PushFrame (fst x) (snd x)) ps t) = sw_log t @ [SwPushed f d]"
proof -
  let ?s = "slog [SwFanned f d] s"
  let ?T = "inactiveUpdateTargets (ServiceUpdate u) ?s"
  have t: "t = fold (give_copy f d) ?T ?s"
    using assms(1,5) by (simp add: sw_ProcessFrame_def HandleFrame_def updateInactiveServices_def Let_def)
  have T: "?T = filter (\<lambda>svc. svc \<noteq> sw_active s \<and>
      (case suService (ServiceUpdate u) of Some x \<Rightarrow> x = svc | None \<Rightarrow> suReachInactiveServices (ServiceUpdate u))) (sw_services s)"
    using targets_filter [OF assms(2)] by (simp add: slog_def inactiveUpdateTargets_def Let_def)
  then have len: "length ?T \<le> inactiveUpdateRing" using assms(3) le_trans length_filter_le by metis
  from give_copies [OF _ t] len assms(4)
  have log: "sw_log t = sw_log ?s @ map2 (\<lambda>svc i. SwQueued svc (copy_of f (sw_idCounter s + of_nat i)) d) ?T [0..<length ?T]"
    and rem: "sw_inactiveUpdates t = map (\<lambda>i. sw_idCounter s + of_nat i + 1) [0..<length ?T]"
    by (simp_all add: slog_def [of _ s])
  define cs where "cs = map2 (\<lambda>svc i. (svc, copy_of f (sw_idCounter s + of_nat i))) ?T [0..<length ?T]"
  have q: "queued (drop (length (sw_log s)) (sw_log t)) = cs"
    using queued_map2 by (simp add: log slog_def cs_def)
  have ids: "map (frameID \<circ> snd) cs = sw_inactiveUpdates t"
    using map2_right [of ?T "[0..<length ?T]" "\<lambda>i. sw_idCounter s + of_nat i + 1"]
    by (simp add: cs_def rem copy_of_def NewBaseFrame_def nextID_def comp_def case_prod_unfold)
  have bodies: "list_all (\<lambda>x. body (snd x) = body f) cs"
    by (auto simp: cs_def list_all_iff copy_of_def NewBaseFrame_def nextID_def)
  have dist: "distinct (sw_inactiveUpdates t)"
    unfolding rem using len by (intro give_copies_ids) (simp add: inactiveUpdateRing_def)
  have ms: "mset ps = mset ((f, d) # map (\<lambda>x. (snd x, d)) cs)" using assms(7) q by simp
  have "mset (map frameID (map fst ps)) = mset (frameID f # sw_inactiveUpdates t)"
  proof -
    have "mset (map frameID (map fst ps)) = image_mset (frameID \<circ> fst) (mset ps)" by (simp add: image_mset.comp [symmetric])
    also have "\<dots> = mset (frameID f # map (frameID \<circ> snd) cs)" by (simp add: ms image_mset.compositionality comp_def)
    finally show ?thesis using ids by simp
  qed
  moreover have nf: "frameID f \<notin> set (sw_inactiveUpdates t)"
    using assms(6) unfolding q ids [symmetric] by (simp add: image_image)
  ultimately have dps: "distinct (map frameID (map fst ps))"
    using dist by (metis distinct.simps(2) mset_eq_imp_distinct_iff)
  have sps: "\<forall>x\<in>set ps. \<exists>u. body (fst x) = Set u"
    using mset_eq_setD [OF ms] bodies assms(1) by (auto simp: list_all_iff)
  have "frameID (snd x) \<in> set (sw_inactiveUpdates t)" if "x \<in> set cs" for x
    using that unfolding ids [symmetric] by simp
  then have "filter (\<lambda>x. frameID (fst x) \<notin> set (sw_inactiveUpdates t)) ((f, d) # map (\<lambda>x. (snd x, d)) cs) = [(f, d)]"
    using nf by (simp add: filter_map comp_def)
  then have "mset (filter (\<lambda>x. frameID (fst x) \<notin> set (sw_inactiveUpdates t)) ps) = {#(f, d)#}"
    by (simp only: mset_filter ms) (simp only: mset_filter [symmetric], simp)
  then have "filter (\<lambda>x. frameID (fst x) \<notin> set (sw_inactiveUpdates t)) ps = [(f, d)]"
    by (simp only: mset_single_iff)
  with consume_all [OF dps sps _ dist] have "sw_log (fold (\<lambda>x. sw_PushFrame (fst x) (snd x)) ps t) = sw_log t @ [SwPushed f d]"
    by simp
  moreover have "map fst cs = ?T"
    using map2_left [of ?T "[0..<length ?T]" "\<lambda>x. x"] by (simp add: cs_def case_prod_unfold comp_def)
  ultimately show ?thesis unfolding q using T bodies by simp
qed

subsection \<open>Usability\<close>

fun usable_events :: "sw_out list \<Rightarrow> bool list" where
  "usable_events [] = []"
| "usable_events (SwUsableChanged u # xs) = u # usable_events xs"
| "usable_events (_ # xs) = usable_events xs"

fun alternate_from :: "bool \<Rightarrow> bool list \<Rightarrow> bool" where
  "alternate_from b [] = True"
| "alternate_from b (u # us) = (u \<noteq> b \<and> alternate_from u us)"

lemma usable_events_append [simp]: "usable_events (xs @ ys) = usable_events xs @ usable_events ys"
  by (induction xs rule: usable_events.induct) auto

lemma alternate_append: "alternate_from b (us @ [u]) \<longleftrightarrow> alternate_from b us \<and> u \<noteq> last (b # us)"
  by (induction us arbitrary: b) auto

text \<open>Only a service changing its own usability makes the switcher announce anything.\<close>

definition quiet :: "switcher \<Rightarrow> switcher \<Rightarrow> bool" where
  "quiet s t \<longleftrightarrow> usable_events (sw_log t) = usable_events (sw_log s)"

lemma quiet_steps [simp]:
  "quiet s (requestMetadata svc s)" "quiet s (snd (setActiveIfAvailable t s))" "quiet s (reportServiceFailure fa msg err s)"
  "quiet s (give_copy f d svc s)"
  by (auto simp: quiet_def sw_defs reportServiceFailure_def failure_frame_def split: option.splits)

lemma quiet_HandleFrame: "quiet s (snd (HandleFrame b s))"
  by (auto simp: HandleFrame_def quiet_def [of s s] split: frame_body.splits switcher_go.splits)

lemma quiet_HandleError: "quiet s (snd (HandleError failed s))"
  by (auto simp: HandleError_def quiet_def [of s s] split: option.splits)

lemma quiet_trans: "quiet r s \<Longrightarrow> quiet s t \<Longrightarrow> quiet r t"
  by (simp add: quiet_def)

lemma quiet_log: "usable_events xs = [] \<Longrightarrow> quiet s (slog xs s)"
  by (simp add: quiet_def slog_def)

lemma quiet_give: "quiet s (fold (give_copy f d) svcs s)"
proof (induction svcs arbitrary: s)
  case (Cons svc svcs)
  from quiet_trans [OF quiet_steps(4) Cons.IH [of "give_copy f d svc s"]] show ?case by simp
qed (simp add: quiet_def)

lemma quiet_ProcessFrame: "quiet s (sw_ProcessFrame f d s)"
proof -
  obtain r t where h: "HandleFrame (body f) s = (r, t)" by fastforce
  with quiet_HandleFrame [of s "body f"] have m: "quiet s t" by simp
  then have l: "quiet s (slog [SwFanned f d] t)" by (rule quiet_trans) (simp add: quiet_log)
  have "quiet s (updateInactiveServices f u d (slog [SwFanned f d] t))" for u
    unfolding updateInactiveServices_def by (rule quiet_trans [OF l quiet_give])
  with h m l quiet_trans [OF m quiet_steps(1)] show ?thesis
    by (cases r) (auto simp: sw_ProcessFrame_def Let_def split: frame_body.splits)
qed

lemma quiet_PushFrame: "quiet s (sw_PushFrame f d s)"
proof -
  have e: "quiet s (snd (handleServiceError msg fatal source err s))" for msg fatal source err
  proof -
    obtain r t where h: "HandleError (sw_active s) s = (r, t)" by fastforce
    with quiet_HandleError [of s "sw_active s"] have m: "quiet s t" by simp
    from h m quiet_trans [OF m quiet_steps(1)] quiet_trans [OF m quiet_steps(3)] show ?thesis
      by (auto simp: handleServiceError_def quiet_def [of s s] split: option.splits)
  qed
  have c: "quiet s (snd (consumed f s))"
    by (simp add: consumed_def e consumeInactiveUpdate_def quiet_def [of s s] quiet_def [of s "s\<lparr>sw_inactiveUpdates := x\<rparr>" for x]
        split: frame_body.splits switcher_go.splits system_go.splits)
  obtain b t where b: "consumed f s = (b, t)" by fastforce
  with c have t: "quiet s t" by simp
  then have "quiet s (slog [SwPushed f d] t)" by (rule quiet_trans) (simp add: quiet_log)
  with b t show ?thesis by (cases b) (auto simp: sw_PushFrame_def)
qed

lemma quiet_SwitchTo: "quiet s (snd (SwitchTo svc s))"
proof -
  obtain f t where n: "new_frame ''ManuallySwitchServiceFrame'' (Swi (ManuallySwitchServiceFrame (Some svc))) s = (f, t)" by fastforce
  then have t: "quiet s t" by (auto simp: quiet_def sw_defs)
  obtain r v where h: "HandleFrame (body f) t = (r, v)" by fastforce
  with quiet_HandleFrame [of t "body f"] t have m: "quiet s v" by (auto intro: quiet_trans)
  with n h quiet_trans [OF m quiet_steps(1)] show ?thesis by (cases r) (auto simp: SwitchTo_def)
qed

definition announced_ok :: "bool \<Rightarrow> switcher \<Rightarrow> bool" where
  "announced_ok b s \<longleftrightarrow> alternate_from b (usable_events (sw_log s)) \<and> sw_announcedUsable s = last (b # usable_events (sw_log s))"

lemma announced_quiet: "announced_ok b s \<Longrightarrow> quiet s t \<Longrightarrow> moves s t \<Longrightarrow> announced_ok b t"
  by (simp add: announced_ok_def quiet_def moves_def same_setup_def)

lemma announced_announce: "announced_ok b s \<Longrightarrow> announced_ok b (announce u s)"
  by (auto simp: announced_ok_def announce_def slog_def alternate_append)

lemma announced_step: "announced_ok b s \<Longrightarrow> announced_ok b (sw_step a s)"
proof (cases a)
  case (SwSetUsable svc us)
  assume "announced_ok b s"
  then have "announced_ok b (s\<lparr>sw_usable := u\<rparr>)" for u by (simp add: announced_ok_def)
  with SwSetUsable \<open>announced_ok b s\<close> show ?thesis
    by (auto simp: service_SetUsable_def announceUsable_def announced_announce Let_def)
qed (auto intro: announced_quiet quiet_ProcessFrame quiet_PushFrame quiet_SwitchTo moves_ProcessFrame moves_PushFrame moves_SwitchTo)

lemma announced_run: "announced_ok b s \<Longrightarrow> announced_ok b (sw_run xs s)"
  by (induction xs arbitrary: s) (simp_all add: announced_step)

text \<open>
  A switcher is only as dead as its last service, and says so: whatever happens, when its services change
  one at a time, what it last announced is whether any of its services can still be given work, and what it
  announces alternates, so a handler hears each change once.
\<close>

lemma usable_announced:
  assumes "NewServiceSwitcher nm services fo us c = Some s0" and "s = sw_run xs s0"
  shows "alternate_from (list_ex us services) (usable_events (sw_log s)) \<and>
    last (list_ex us services # usable_events (sw_log s)) = list_ex (sw_usable s) services"
proof -
  have "announced_ok (list_ex us services) s0"
    using assms(1) by (auto simp: NewServiceSwitcher_def announced_ok_def split: if_splits)
  from announced_run [OF this] sw_ok_run [OF sw_ok_New [OF assms(1)]] assms(2) show ?thesis
    by (auto simp: announced_ok_def sw_ok_def sw_Usable_def)
qed

text \<open>
  The reading is taken outside the lock. Two services changing at the same time can have the older reading
  announced last: here the last service has just become unusable, and the switcher says it is usable again.
\<close>

lemma stale_reading_announced:
  "let s0 = the (NewServiceSwitcher ''sw'' [''a'', ''b''] False (\<lambda>_. True) 0);
       s1 = s0\<lparr>sw_usable := (sw_usable s0)(''a'' := False)\<rparr>; reading1 = sw_Usable s1;
       s2 = s1\<lparr>sw_usable := (sw_usable s1)(''b'' := False)\<rparr>; reading2 = sw_Usable s2;
       s = announce reading1 (announce reading2 s2)
   in usable_events (sw_log s) = [False, True] \<and> sw_announcedUsable s \<and> \<not> sw_Usable s"
  by code_simp

section \<open>Examples\<close>

definition three_services :: switcher where
  "three_services = the (NewServiceSwitcher ''sw'' [''a'', ''b'', ''c''] True (\<lambda>_. True) 100)"

lemma three_services_new: "NewServiceSwitcher ''sw'' [''a'', ''b'', ''c''] True (\<lambda>_. True) 100 = Some three_services"
  by (simp add: three_services_def NewServiceSwitcher_def)

abbreviation "a_failed \<equiv> SwPush (sample_frame 7 (Sys (ErrorFrame ''gone'' False (Some ''a'') None Unknown))) Upstream"

definition after_failure :: switcher where
  "after_failure = sw_run [SwSetUsable ''a'' False, SwSetUsable ''b'' False, a_failed] three_services"


lemma failover_next_usable_witness:
  "fst (HandleError ''b'' (three_services\<lparr>sw_active := ''b'', sw_usable := (\<lambda>s. s = ''a'')\<rparr>)) = Some ''a''"
proof -
  let ?s = "three_services\<lparr>sw_active := ''b'', sw_usable := (\<lambda>s. s = ''a'')\<rparr>"
  have h: "sw_services ?s = [''a''] @ sw_active ?s # [''c'']" "sw_active ?s \<notin> set [''a'']" "sw_failover ?s"
    "\<not> sw_usable ?s (sw_active ?s)" by code_simp+
  from failover_next_usable [OF h] show ?thesis by simp
qed


definition an_update :: frame where
  "an_update = sample_frame 9 (Set (LLMUpdateSettingsFrame \<lparr>suDelta = 0, suService = None, suReachInactiveServices = True\<rparr>))"

definition copies :: "(frame \<times> Direction) list" where
  "copies = map (\<lambda>x. (snd x, Downstream)) (queued (sw_log (sw_ProcessFrame an_update Downstream three_services)))"

lemma settings_update_once_witness:
  "sw_log (fold (\<lambda>x. sw_PushFrame (fst x) (snd x)) (copies @ [(an_update, Downstream)])
     (sw_ProcessFrame an_update Downstream three_services)) =
   sw_log (sw_ProcessFrame an_update Downstream three_services) @ [SwPushed an_update Downstream] \<and>
   length copies = 2"
proof -
  let ?t = "sw_ProcessFrame an_update Downstream three_services"
  have l: "sw_log three_services = []" by code_simp
  have h: "body an_update = Set (LLMUpdateSettingsFrame \<lparr>suDelta = 0, suService = None, suReachInactiveServices = True\<rparr>)"
    "distinct (sw_services three_services)" "length (sw_services three_services) \<le> inactiveUpdateRing"
    "sw_inactiveUpdates three_services = []" by code_simp+
  have "frameID an_update \<notin> frameID ` snd ` set (queued (sw_log ?t))" by code_simp
  then have f: "frameID an_update \<notin> frameID ` snd ` set (queued (drop (length (sw_log three_services)) (sw_log ?t)))"
    by (simp add: l)
  have m: "mset (copies @ [(an_update, Downstream)]) = mset ((an_update, Downstream) #
      map (\<lambda>x. (snd x, Downstream)) (queued (drop (length (sw_log three_services)) (sw_log ?t))))"
    by (simp add: l copies_def)
  have "length copies = 2" by code_simp
  with settings_update_once [OF h refl f m] show ?thesis by blast
qed

lemma usable_announced_witness:
  "usable_events (sw_log (sw_run [SwSetUsable ''a'' False, SwSetUsable ''b'' False, SwSetUsable ''c'' False, SwSetUsable ''b'' True]
     three_services)) = [False, True] \<and>
   list_ex (sw_usable (sw_run [SwSetUsable ''a'' False, SwSetUsable ''b'' False, SwSetUsable ''c'' False, SwSetUsable ''b'' True]
     three_services)) [''a'', ''b'', ''c'']"
proof -
  let ?s = "sw_run [SwSetUsable ''a'' False, SwSetUsable ''b'' False, SwSetUsable ''c'' False, SwSetUsable ''b'' True] three_services"
  have "usable_events (sw_log ?s) = [False, True]" by code_simp
  with usable_announced [OF three_services_new refl, of "[SwSetUsable ''a'' False, SwSetUsable ''b'' False, SwSetUsable ''c'' False, SwSetUsable ''b'' True]"]
  show ?thesis by simp
qed

end
