(* ===== verification/Sync_Parallel.thy ===== *)
theory Sync_Parallel
  imports Parallel_Pipeline
begin

text \<open>
  The synchronized parallel pipeline (pipeline/syncparallel.go): the output of each frame is held until every
  branch has finished with it.

  A branch is a parameter: what it does with a frame that enters it in a direction, as the items that land in
  its two collecting queues and its next state. It runs in goroutines of its own, but handles frames in order,
  so when the sentinel sent in behind a frame comes out everything the frame gave has come out. Waiting for an
  item that never comes is the value \<open>None\<close>. In arrival order the branches put their items on one queue as they
  come, so the order is any interleaving, a parameter of the operation.
\<close>

section \<open>State\<close>

datatype sync_item = SyncFrame | FrameItem frame

datatype FrameOrder = FrameOrderArrival | FrameOrderPipeline

type_synonym 's branch_code = "Direction \<Rightarrow> sync_item \<Rightarrow> 's \<Rightarrow> sync_item list \<times> sync_item list \<times> 's"

record 's branch =
  br_state :: 's
  br_up :: "sync_item list"
  br_down :: "sync_item list"

record 's sync_par =
  sp_order :: FrameOrder
  sp_branches :: "'s branch list"
  sp_out :: "directed list"

definition NewSyncParallel :: "FrameOrder \<Rightarrow> 's list \<Rightarrow> 's sync_par option" where
  "NewSyncParallel ord bs =
    (if bs = [] then None
     else Some \<lparr>sp_order = ord, sp_branches = map (\<lambda>s. \<lparr>br_state = s, br_up = [], br_down = []\<rparr>) bs, sp_out = []\<rparr>)"

section \<open>Operations\<close>

text \<open>The endpoint of a branch handles an item: what the branch gives lands behind what its queues hold.\<close>

definition enter_branch :: "'s branch_code \<Rightarrow> Direction \<Rightarrow> sync_item \<Rightarrow> 's branch \<Rightarrow> 's branch" where
  "enter_branch code d x b =
    (case code d x (br_state b) of
       (ups, downs, s) \<Rightarrow> \<lparr>br_state = s, br_up = br_up b @ ups, br_down = br_down b @ downs\<rparr>)"

text \<open>The queue at the end of the branch the frame leaves by.\<close>

definition exit_queue :: "Direction \<Rightarrow> 's branch \<Rightarrow> sync_item list" where
  "exit_queue d b = (case d of Upstream \<Rightarrow> br_up b | Downstream \<Rightarrow> br_down b)"

definition set_exit :: "Direction \<Rightarrow> sync_item list \<Rightarrow> 's branch \<Rightarrow> 's branch" where
  "set_exit d q b = (case d of Upstream \<Rightarrow> b\<lparr>br_up := q\<rparr> | Downstream \<Rightarrow> b\<lparr>br_down := q\<rparr>)"

fun collect_until_sync :: "sync_item list \<Rightarrow> (frame list \<times> sync_item list) option" where
  "collect_until_sync [] = None"
| "collect_until_sync (SyncFrame # q) = Some ([], q)"
| "collect_until_sync (FrameItem f # q) =
    (case collect_until_sync q of None \<Rightarrow> None | Some (fs, r) \<Rightarrow> Some (f # fs, r))"

text \<open>
  The loop behind an end frame: it stops at the end frame and does not collect it. A sentinel in that queue
  is collected like a frame in the code; none is ever there, since every one sent in was waited for.
\<close>

fun collect_until_end :: "sync_item list \<Rightarrow> (frame list \<times> sync_item list) option" where
  "collect_until_end [] = None"
| "collect_until_end (SyncFrame # q) = collect_until_end q"
| "collect_until_end (FrameItem f # q) =
    (if isEndFrame f then Some ([], q)
     else case collect_until_end q of None \<Rightarrow> None | Some (fs, r) \<Rightarrow> Some (f # fs, r))"

fun collect_end :: "sync_item list \<Rightarrow> (frame list \<times> sync_item list) option" where
  "collect_end (FrameItem f # q) = (if isEndFrame f then Some ([f], q) else collect_until_end (FrameItem f # q))"
| "collect_end q = collect_until_end q"

definition waitForSync :: "'s branch_code \<Rightarrow> Direction \<Rightarrow> frame \<Rightarrow> 's branch \<Rightarrow> (frame list \<times> 's branch) option" where
  "waitForSync code d f b =
    (let b = enter_branch code d (FrameItem f) b
     in if isEndFrame f
        then map_option (\<lambda>(fs, q). (fs, set_exit d q b)) (collect_end (exit_queue d b))
        else let b = enter_branch code d SyncFrame b
             in map_option (\<lambda>(fs, q). (fs, set_exit d q b)) (collect_until_sync (exit_queue d b)))"

fun wait_all :: "'s branch_code \<Rightarrow> Direction \<Rightarrow> frame \<Rightarrow> 's branch list \<Rightarrow> (frame list list \<times> 's branch list) option" where
  "wait_all code d f [] = Some ([], [])"
| "wait_all code d f (b # bs) =
    (case waitForSync code d f b of
       None \<Rightarrow> None
     | Some (fs, b') \<Rightarrow>
         (case wait_all code d f bs of None \<Rightarrow> None | Some (fss, bs') \<Rightarrow> Some (fs # fss, b' # bs')))"

text \<open>Both ways of releasing drop the copies of a frame that came out of more than one branch.\<close>

fun drain :: "u64 list \<Rightarrow> frame list \<Rightarrow> frame list" where
  "drain seen [] = []"
| "drain seen (f # fs) = (if frameID f \<in> set seen then drain seen fs else f # drain (frameID f # seen) fs)"

definition sync_ProcessFrame ::
  "'s branch_code \<Rightarrow> (frame list list \<Rightarrow> frame list) \<Rightarrow> directed \<Rightarrow> 's sync_par \<Rightarrow> 's sync_par option" where
  "sync_ProcessFrame code arrival x p =
    (let (f, d) = x in
     if isSystemFrame f
     then Some (p\<lparr>sp_branches := map (enter_branch code d (FrameItem f)) (sp_branches p), sp_out := sp_out p @ [(f, d)]\<rparr>)
     else case wait_all code d f (sp_branches p) of
         None \<Rightarrow> None
       | Some (fss, bs) \<Rightarrow>
           let fs = (case sp_order p of FrameOrderPipeline \<Rightarrow> concat fss | FrameOrderArrival \<Rightarrow> arrival fss)
           in Some (p\<lparr>sp_branches := bs, sp_out := sp_out p @ map (\<lambda>g. (g, d)) (drain [] fs)\<rparr>))"

fun sync_run :: "'s branch_code \<Rightarrow> (frame list list \<Rightarrow> frame list) \<Rightarrow> directed list \<Rightarrow> 's sync_par \<Rightarrow> 's sync_par option" where
  "sync_run code arrival [] p = Some p"
| "sync_run code arrival (x # xs) p =
    (case sync_ProcessFrame code arrival x p of None \<Rightarrow> None | Some q \<Rightarrow> sync_run code arrival xs q)"

section \<open>Draining\<close>

lemma drain_ids: "set (map frameID (drain seen fs)) = set (map frameID fs) - set seen"
  by (induction seen fs rule: drain.induct) auto

lemma drain_distinct: "distinct (map frameID (drain seen fs))"
proof (induction seen fs rule: drain.induct)
  case (2 seen f fs)
  then show ?case using drain_ids [of "frameID f # seen" fs] by auto
qed simp

lemma drain_sub: "set (drain seen fs) \<subseteq> set fs"
  by (induction seen fs rule: drain.induct) auto

section \<open>The output of a frame leaves together\<close>

text \<open>
  A branch that can be synchronized: the sentinel comes out behind everything and gives nothing else, and a
  frame gives no sentinel of its own.
\<close>

definition synchronous :: "'s branch_code \<Rightarrow> bool" where
  "synchronous code \<longleftrightarrow>
    (\<forall>d s. let (ups, downs, s') = code d SyncFrame s
       in ups = (if d = Upstream then [SyncFrame] else []) \<and> downs = (if d = Downstream then [SyncFrame] else [])) \<and>
    (\<forall>d f s. let (ups, downs, s') = code d (FrameItem f) s in SyncFrame \<notin> set ups \<and> SyncFrame \<notin> set downs)"

lemma sync_out:
  assumes "synchronous code" and "code d SyncFrame s = (ups, downs, s')"
  shows "ups = (if d = Upstream then [SyncFrame] else []) \<and> downs = (if d = Downstream then [SyncFrame] else [])"
proof -
  from assms(1) have "let (ups, downs, s') = code d SyncFrame s
      in ups = (if d = Upstream then [SyncFrame] else []) \<and> downs = (if d = Downstream then [SyncFrame] else [])"
    unfolding synchronous_def by blast
  with assms(2) show ?thesis by simp
qed

lemma frame_out:
  assumes "synchronous code" and "code d (FrameItem f) s = (ups, downs, s')"
  shows "SyncFrame \<notin> set ups \<and> SyncFrame \<notin> set downs"
proof -
  from assms(1) have "let (ups, downs, s') = code d (FrameItem f) s in SyncFrame \<notin> set ups \<and> SyncFrame \<notin> set downs"
    unfolding synchronous_def by blast
  with assms(2) show ?thesis by simp
qed

fun frames_of :: "sync_item list \<Rightarrow> frame list" where
  "frames_of [] = []"
| "frames_of (SyncFrame # q) = frames_of q"
| "frames_of (FrameItem f # q) = f # frames_of q"

lemma frames_of_append [simp]: "frames_of (q @ r) = frames_of q @ frames_of r"
  by (induction q rule: frames_of.induct) auto

lemma collect_sync: "SyncFrame \<notin> set q \<Longrightarrow> collect_until_sync (q @ [SyncFrame]) = Some (frames_of q, [])"
  by (induction q rule: frames_of.induct) auto

definition waiting :: "'s branch \<Rightarrow> bool" where
  "waiting b \<longleftrightarrow> SyncFrame \<notin> set (br_up b) \<and> SyncFrame \<notin> set (br_down b)"

text \<open>What a branch in a state gives at the exit for a frame, and the state the sentinel leaves it in.\<close>

definition gives :: "'s branch_code \<Rightarrow> Direction \<Rightarrow> frame \<Rightarrow> 's \<Rightarrow> frame list" where
  "gives code d f s =
    (case code d (FrameItem f) s of (ups, downs, s') \<Rightarrow> frames_of (case d of Upstream \<Rightarrow> ups | Downstream \<Rightarrow> downs))"

definition then_state :: "'s branch_code \<Rightarrow> Direction \<Rightarrow> frame \<Rightarrow> 's \<Rightarrow> 's" where
  "then_state code d f s = (case code d (FrameItem f) s of (_, _, s1) \<Rightarrow> (case code d SyncFrame s1 of (_, _, s2) \<Rightarrow> s2))"

lemma enter_frame_waiting: "synchronous code \<Longrightarrow> waiting b \<Longrightarrow> waiting (enter_branch code d (FrameItem f) b)"
  by (auto simp: waiting_def enter_branch_def dest: frame_out split: prod.splits)

lemma exit_enter:
  "frames_of (exit_queue d (enter_branch code d (FrameItem f) b)) = frames_of (exit_queue d b) @ gives code d f (br_state b)"
  by (cases d) (simp_all add: exit_queue_def enter_branch_def gives_def split: prod.splits)

lemma waitForSync_gives:
  assumes sy: "synchronous code" and "waiting b" and "\<not> isEndFrame f"
  shows "\<exists>b'. waitForSync code d f b = Some (frames_of (exit_queue d b) @ gives code d f (br_state b), b') \<and>
    waiting b' \<and> exit_queue d b' = [] \<and> br_state b' = then_state code d f (br_state b)"
proof -
  let ?b = "enter_branch code d (FrameItem f) b"
  have w: "waiting ?b" by (rule enter_frame_waiting [OF sy assms(2)])
  obtain ups downs s where c: "code d SyncFrame (br_state ?b) = (ups, downs, s)" by (cases "code d SyncFrame (br_state ?b)")
  let ?c = "enter_branch code d SyncFrame ?b"
  have q: "exit_queue d ?c = exit_queue d ?b @ [SyncFrame]"
    using sync_out [OF sy c] c by (cases d) (simp_all add: enter_branch_def [of _ _ SyncFrame] exit_queue_def)
  have "SyncFrame \<notin> set (exit_queue d ?b)" using w by (cases d) (simp_all add: waiting_def exit_queue_def)
  then have "waitForSync code d f b = Some (frames_of (exit_queue d b) @ gives code d f (br_state b), set_exit d [] ?c)"
    using assms(3) q by (simp add: waitForSync_def Let_def collect_sync exit_enter)
  moreover have "waiting (set_exit d [] ?c)"
    using w sync_out [OF sy c] c by (cases d) (simp_all add: waiting_def set_exit_def enter_branch_def [of _ _ SyncFrame])
  moreover have "exit_queue d (set_exit d [] ?c) = []" by (cases d) (simp_all add: exit_queue_def set_exit_def)
  moreover have "br_state (set_exit d [] ?c) = then_state code d f (br_state b)"
    using c by (cases d) (auto simp: set_exit_def enter_branch_def then_state_def split: prod.splits)
  ultimately show ?thesis by blast
qed

definition ready :: "Direction \<Rightarrow> 's branch \<Rightarrow> bool" where
  "ready d b \<longleftrightarrow> waiting b \<and> exit_queue d b = []"

lemma wait_all_gives:
  assumes sy: "synchronous code" and "list_all (ready d) bs" and "\<not> isEndFrame f"
  shows "\<exists>bs'. wait_all code d f bs = Some (map (gives code d f) (map br_state bs), bs') \<and> list_all (ready d) bs' \<and>
    map br_state bs' = map (then_state code d f) (map br_state bs)"
  using assms(2)
proof (induction bs)
  case (Cons b bs)
  obtain b' where "waitForSync code d f b = Some (gives code d f (br_state b), b')" "ready d b'"
    "br_state b' = then_state code d f (br_state b)"
    using waitForSync_gives [OF sy _ assms(3), of b d] Cons.prems by (auto simp: ready_def)
  with Cons show ?case by auto
qed simp

text \<open>The groups a run of frames should give: for each frame what each branch gives, in the state it is then in.\<close>

fun groups :: "'s branch_code \<Rightarrow> Direction \<Rightarrow> frame list \<Rightarrow> 's list \<Rightarrow> frame list list list" where
  "groups code d [] ss = []"
| "groups code d (f # fs) ss = map (gives code d f) ss # groups code d fs (map (then_state code d f) ss)"

definition releases :: "FrameOrder \<Rightarrow> frame list \<Rightarrow> frame list list \<Rightarrow> bool" where
  "releases ord g fss \<longleftrightarrow> distinct (map frameID g) \<and> set (map frameID g) = set (map frameID (concat fss)) \<and>
    set g \<subseteq> set (concat fss) \<and> (ord = FrameOrderPipeline \<longrightarrow> g = drain [] (concat fss))"

lemma process_releases:
  assumes sy: "synchronous code" and "list_all (ready d) (sp_branches p)" and "\<not> isSystemFrame f" and "\<not> isEndFrame f"
    and "\<And>fss. mset (arrival fss) = mset (concat fss)"
  shows "\<exists>q g. sync_ProcessFrame code arrival (f, d) p = Some q \<and> list_all (ready d) (sp_branches q) \<and>
    map br_state (sp_branches q) = map (then_state code d f) (map br_state (sp_branches p)) \<and> sp_order q = sp_order p \<and>
    sp_out q = sp_out p @ map (\<lambda>x. (x, d)) g \<and>
    releases (sp_order p) g (map (gives code d f) (map br_state (sp_branches p)))"
proof -
  let ?fss = "map (gives code d f) (map br_state (sp_branches p))"
  obtain bs where bs: "wait_all code d f (sp_branches p) = Some (?fss, bs)" "list_all (ready d) bs"
    "map br_state bs = map (then_state code d f) (map br_state (sp_branches p))"
    using wait_all_gives [OF sy assms(2,4)] by blast
  let ?fs = "case sp_order p of FrameOrderPipeline \<Rightarrow> concat ?fss | FrameOrderArrival \<Rightarrow> arrival ?fss"
  let ?q = "p\<lparr>sp_branches := bs, sp_out := sp_out p @ map (\<lambda>x. (x, d)) (drain [] ?fs)\<rparr>"
  have s: "set ?fs = set (concat ?fss)" using mset_eq_setD [OF assms(5)] by (cases "sp_order p") simp_all
  have "releases (sp_order p) (drain [] ?fs) ?fss"
    using s drain_ids [of "[]" ?fs] drain_sub [of "[]" ?fs] drain_distinct [of "[]" ?fs] by (simp add: releases_def)
  moreover have "sync_ProcessFrame code arrival (f, d) p = Some ?q"
    using assms(3) bs(1) by (cases "sp_order p") (simp_all add: sync_ProcessFrame_def Let_def)
  ultimately show ?thesis using bs(2,3)
    by (intro exI [of _ ?q] exI [of _ "drain [] ?fs"]) simp
qed


section \<open>Examples, and what is not released\<close>

text \<open>A branch that forwards everything, and one that says a word of its own ahead of each frame.\<close>

definition echo :: "nat branch_code" where
  "echo d x n =
    (let here = (case x of
         SyncFrame \<Rightarrow> [SyncFrame]
       | FrameItem f \<Rightarrow> (if n = 0 then [] else [FrameItem (sample_frame (of_nat n) (Txt (NewTextFrame ''hm'')))]) @ [FrameItem f]);
         n' = (case x of FrameItem f \<Rightarrow> (if n = 0 then 0 else n + 1) | SyncFrame \<Rightarrow> n)
     in case d of Upstream \<Rightarrow> (here, [], n') | Downstream \<Rightarrow> ([], here, n'))"

lemma echo_synchronous: "synchronous echo"
  by (auto simp: synchronous_def echo_def Let_def split: Direction.splits)

lemma releases_pipeline: "list_all2 (releases FrameOrderPipeline) gs fsss \<Longrightarrow> gs = map (drain [] \<circ> concat) fsss"
  by (induction rule: list_all2_induct) (simp_all add: releases_def)


text \<open>
  A system frame goes straight on and leaves a copy in every branch's queue. When the end of the session is
  the next frame to synchronize, the copy is the first item each branch waits for, and behind it the loop
  stops at the end frame without collecting it: the session never ends downstream.
\<close>

lemma end_frame_swallowed:
  "map fst (sp_out (the (sync_run echo concat [start_1, end_3] (the (NewSyncParallel FrameOrderArrival [0, 0]))))) =
   [fst start_1, fst start_1]"
  by code_simp

text \<open>With a frame in between, which takes the copies with it, the end frame gets through.\<close>

lemma end_frame_released:
  "map fst (sp_out (the (sync_run echo concat [start_1, text_2, end_3] (the (NewSyncParallel FrameOrderArrival [0, 0]))))) =
   [fst start_1, fst start_1, fst text_2, fst end_3]"
  by code_simp

text \<open>What a branch sends upstream while it handles a frame going down is not collected by it.\<close>

definition complain :: "unit branch_code" where
  "complain d x s =
    (case (d, x) of
       (Downstream, FrameItem f) \<Rightarrow>
         ([FrameItem (sample_frame 7 (Sys (ErrorFrame ''failed'' False None None Unknown)))], [FrameItem f], s)
     | (Downstream, SyncFrame) \<Rightarrow> ([], [SyncFrame], s)
     | (Upstream, x) \<Rightarrow> ([x], [], s))"

lemma error_held_in_branch:
  "map fst (sp_out (the (sync_run complain concat [text_2, going_down 5 (Txt (NewTextFrame ''on''))]
     (the (NewSyncParallel FrameOrderArrival [()]))))) = [fst text_2, sample_frame 5 (Txt (NewTextFrame ''on''))]"
  by code_simp

end
