(* ===== verification/Tag_Scan.thy ===== *)
theory Tag_Scan
  imports Go_Strings Frame_Queues
begin

text \<open>
  The control-tag scanner (internal/tagscan/tagscan.go) and the two processors built on it: the phone-menu
  navigator (processor/ivr/ivr.go) and the voicemail detector (processor/voicemail/voicemail.go).

  The scanner's regular expression \<open><(a|b)>([^<]*)</(?:a|b)>\<close> is a recursive matcher: the alternatives are
  tried in order, the value runs to the next \<open><\<close>, and the leftmost match is taken.
\<close>

section \<open>The scanner\<close>

abbreviation "LT \<equiv> CHR ''<''"
abbreviation "GT \<equiv> CHR ''>''"

text \<open>One of the tag names followed by the closing bracket: the name and what comes behind.\<close>

fun match_name :: "string list \<Rightarrow> string \<Rightarrow> (string \<times> string) option" where
  "match_name [] s = None"
| "match_name (t # ts) s = (if HasPrefix s (t @ [GT]) then Some (t, drop (length t + 1) s) else match_name ts s)"

definition match_at :: "string list \<Rightarrow> string \<Rightarrow> (string \<times> string \<times> string) option" where
  "match_at tags s =
    (case s of
       c # s1 \<Rightarrow>
         if c \<noteq> LT then None
         else (case match_name tags s1 of
                 None \<Rightarrow> None
               | Some (t, s2) \<Rightarrow>
                   (case dropWhile (\<lambda>c. c \<noteq> LT) s2 of
                      c # d # s3 \<Rightarrow>
                        if d = CHR ''/'' then map_option (\<lambda>(_, r). (t, takeWhile (\<lambda>c. c \<noteq> LT) s2, r)) (match_name tags s3)
                        else None
                    | _ \<Rightarrow> None))
     | [] \<Rightarrow> None)"

text \<open>\<open>FindStringSubmatchIndex\<close>: what is before the leftmost match, its tag and value, and what is behind it.\<close>

fun find_match :: "string list \<Rightarrow> string \<Rightarrow> (string \<times> string \<times> string \<times> string) option" where
  "find_match tags [] = None"
| "find_match tags (c # s) =
    (case match_at tags (c # s) of
       Some (t, v, r) \<Rightarrow> Some ([], t, v, r)
     | None \<Rightarrow> (case find_match tags s of None \<Rightarrow> None | Some (pre, t, v, r) \<Rightarrow> Some (c # pre, t, v, r)))"

lemma HasPrefix_iff: "HasPrefix s p \<longleftrightarrow> (\<exists>r. s = p @ r)"
  by (auto simp: HasPrefix_def) (metis append_take_drop_id)

lemma match_name_length: "match_name tags s = Some (t, r) \<Longrightarrow> length r < length s"
  by (induction tags) (auto simp: HasPrefix_iff split: if_splits)

lemma match_at_length: "match_at tags s = Some (t, v, r) \<Longrightarrow> length r < length s"
proof -
  assume m: "match_at tags s = Some (t, v, r)"
  then obtain s1 where s: "s = LT # s1" by (auto simp: match_at_def split: list.splits if_splits)
  with m obtain t' s2 where n: "match_name tags s1 = Some (t', s2)" by (auto simp: match_at_def split: option.splits)
  with m s obtain c d s3 t'' where d: "dropWhile (\<lambda>c. c \<noteq> LT) s2 = c # d # s3" "match_name tags s3 = Some (t'', r)"
    by (auto simp: match_at_def split: list.splits if_splits)
  have "length (c # d # s3) \<le> length s2" using length_dropWhile_le [of "\<lambda>c. c \<noteq> LT" s2] d(1) by simp
  with match_name_length [OF n] match_name_length [OF d(2)] s show ?thesis by simp
qed

lemma find_match_length: "find_match tags s = Some (pre, t, v, r) \<Longrightarrow> length pre + length r < length s"
  by (induction s arbitrary: pre) (auto dest: match_at_length split: option.splits)

text \<open>The loop of \<open>Feed\<close>: the tags found, in order, and the text with them removed.\<close>

function scan_loop :: "string list \<Rightarrow> string \<Rightarrow> (string \<times> string) list \<times> string" where
  "scan_loop tags s =
    (case find_match tags s of
       None \<Rightarrow> ([], s)
     | Some (pre, t, v, r) \<Rightarrow> (let (found, s') = scan_loop tags (pre @ r) in ((t, v) # found, s')))"
  by auto
termination
  by (relation "measure (\<lambda>(tags, s). length s)") (auto dest: find_match_length)

declare scan_loop.simps [simp del]

definition Feed :: "string list \<Rightarrow> string \<Rightarrow> string \<Rightarrow> (string \<times> string) list \<times> string \<times> string" where
  "Feed tags chunk buf =
    (let (found, s) = scan_loop tags (buf @ chunk)
     in (found, takeWhile (\<lambda>c. c \<noteq> LT) s, dropWhile (\<lambda>c. c \<noteq> LT) s))"

definition Flush :: "string \<Rightarrow> string \<times> string" where
  "Flush buf = (buf, [])"

section \<open>Matches are local\<close>

text \<open>The names of the tags are plain words, which they are for both processors.\<close>

definition tags_ok :: "string list \<Rightarrow> bool" where
  "tags_ok tags \<longleftrightarrow> list_all (\<lambda>t. t \<noteq> [] \<and> list_all (\<lambda>c. c \<noteq> LT \<and> c \<noteq> GT \<and> c \<noteq> CHR ''/'') t) tags"

lemma split_first: "c \<notin> set xs \<Longrightarrow> c \<notin> set ys \<Longrightarrow> xs @ c # us = ys @ c # vs \<Longrightarrow> xs = ys \<and> us = vs"
proof (induction xs arbitrary: ys)
  case Nil
  then show ?case by (cases ys) auto
next
  case (Cons x xs)
  then show ?case by (cases ys) auto
qed

lemma match_name_iff:
  "tags_ok tags \<Longrightarrow> match_name tags s = Some (t, r) \<longleftrightarrow> t \<in> set tags \<and> s = t @ GT # r"
proof (induction tags)
  case (Cons u tags)
  then have u: "GT \<notin> set u" and ok: "tags_ok tags" by (auto simp: tags_ok_def list_all_iff)
  have ts: "x \<in> set tags \<Longrightarrow> GT \<notin> set x" for x using ok by (auto simp: tags_ok_def list_all_iff)
  show ?case
  proof (cases "HasPrefix s (u @ [GT])")
    case True
    then obtain q where s: "s = u @ GT # q" by (auto simp: HasPrefix_iff)
    have "t = u \<and> r = q" if "t \<in> set (u # tags)" "s = t @ GT # r"
      using that s split_first [of GT t u r q] u ts by auto
    with s True show ?thesis by auto
  next
    case False
    then have "s \<noteq> u @ GT # r" by (auto simp: HasPrefix_iff)
    with False Cons.IH [OF ok] show ?thesis by auto
  qed
qed simp

lemma value_split:
  "dropWhile (\<lambda>c. c \<noteq> LT) s = LT # r \<and> takeWhile (\<lambda>c. c \<noteq> LT) s = v \<longleftrightarrow> s = v @ LT # r \<and> LT \<notin> set v"
proof
  assume h: "dropWhile (\<lambda>c. c \<noteq> LT) s = LT # r \<and> takeWhile (\<lambda>c. c \<noteq> LT) s = v"
  then have "s = v @ LT # r" by (metis takeWhile_dropWhile_id)
  moreover have "LT \<notin> set v" using h set_takeWhileD [of LT "\<lambda>c. c \<noteq> LT" s] by auto
  ultimately show "s = v @ LT # r \<and> LT \<notin> set v" by blast
next
  assume "s = v @ LT # r \<and> LT \<notin> set v"
  moreover have "takeWhile (\<lambda>c. c \<noteq> LT) (v @ LT # r) = v \<and> dropWhile (\<lambda>c. c \<noteq> LT) (v @ LT # r) = LT # r"
    if "LT \<notin> set v" using that by (induction v) auto
  ultimately show "dropWhile (\<lambda>c. c \<noteq> LT) s = LT # r \<and> takeWhile (\<lambda>c. c \<noteq> LT) s = v" by simp
qed

lemma dropWhile_head: "dropWhile (\<lambda>c. c \<noteq> LT) s = c # r \<Longrightarrow> c = LT"
  using hd_dropWhile [of "\<lambda>c. c \<noteq> LT" s] by simp

lemma match_at_iff:
  assumes ok: "tags_ok tags"
  shows "match_at tags s = Some (t, v, r) \<longleftrightarrow> t \<in> set tags \<and> LT \<notin> set v \<and>
    (\<exists>t'\<in>set tags. s = LT # t @ GT # v @ LT # CHR ''/'' # t' @ GT # r)"
proof
  assume m: "match_at tags s = Some (t, v, r)"
  then obtain s1 where s: "s = LT # s1" by (auto simp: match_at_def split: list.splits if_splits)
  with m obtain u s2 where n: "match_name tags s1 = Some (u, s2)" by (auto simp: match_at_def split: option.splits)
  with m s obtain c d s3 t' where d: "dropWhile (\<lambda>c. c \<noteq> LT) s2 = c # d # s3" "d = CHR ''/''" "match_name tags s3 = Some (t', r)"
    "u = t" "takeWhile (\<lambda>c. c \<noteq> LT) s2 = v" by (auto simp: match_at_def split: list.splits if_splits)
  have "c = LT" using dropWhile_head [OF d(1)] .
  with d value_split [of s2 "d # s3" v] have "s2 = v @ LT # d # s3" "LT \<notin> set v" by auto
  with n d(2,3,4) match_name_iff [OF ok] s show "t \<in> set tags \<and> LT \<notin> set v \<and>
      (\<exists>t'\<in>set tags. s = LT # t @ GT # v @ LT # CHR ''/'' # t' @ GT # r)" by auto
next
  assume "t \<in> set tags \<and> LT \<notin> set v \<and> (\<exists>t'\<in>set tags. s = LT # t @ GT # v @ LT # CHR ''/'' # t' @ GT # r)"
  then obtain t' where h: "t \<in> set tags" "LT \<notin> set v" "t' \<in> set tags"
    "s = LT # t @ GT # v @ LT # CHR ''/'' # t' @ GT # r" by blast
  have "match_name tags (t @ GT # v @ LT # CHR ''/'' # t' @ GT # r) = Some (t, v @ LT # CHR ''/'' # t' @ GT # r)"
    "match_name tags (t' @ GT # r) = Some (t', r)" using h match_name_iff [OF ok] by auto
  moreover have "dropWhile (\<lambda>c. c \<noteq> LT) (v @ LT # CHR ''/'' # t' @ GT # r) = LT # CHR ''/'' # t' @ GT # r"
    "takeWhile (\<lambda>c. c \<noteq> LT) (v @ LT # CHR ''/'' # t' @ GT # r) = v"
    using value_split [of "v @ LT # CHR ''/'' # t' @ GT # r" "CHR ''/'' # t' @ GT # r" v] h(2) by auto
  ultimately show "match_at tags s = Some (t, v, r)" by (simp add: match_at_def h(4))
qed

lemma match_at_append:
  "tags_ok tags \<Longrightarrow> match_at tags s = Some (t, v, r) \<Longrightarrow> match_at tags (s @ w) = Some (t, v, r @ w)"
  by (auto simp: match_at_iff)

lemma find_match_split: "find_match tags s = Some (pre, t, v, r) \<Longrightarrow> \<exists>s'. s = pre @ s' \<and> match_at tags s' = Some (t, v, r)"
  by (induction s arbitrary: pre) (auto split: option.splits)

text \<open>Inside a tag that is not complete yet nothing else matches.\<close>

lemma no_match_inside:
  assumes ok: "tags_ok tags" and none: "match_at tags (c # s) = None" and some: "match_at tags ((c # s) @ w) = Some (t, v, r)"
  shows "find_match tags s = None"
proof (rule ccontr)
  assume "find_match tags s \<noteq> None"
  then obtain pre u x q where "find_match tags s = Some (pre, u, x, q)" by auto
  from find_match_split [OF this] obtain s' where s': "s = pre @ s'" "match_at tags s' = Some (u, x, q)" by blast
  from s'(2) match_at_iff [OF ok] obtain y where y: "s' = LT # u @ y" "u \<in> set tags" by fastforce
  with ok obtain a u' where u: "u = a # u'" "a \<noteq> CHR ''/''" "a \<noteq> LT" by (cases u) (auto simp: tags_ok_def list_all_iff)
  obtain t' where t: "t \<in> set tags" "LT \<notin> set v" "t' \<in> set tags"
    and eq: "(c # s) @ w = LT # t @ GT # v @ LT # CHR ''/'' # t' @ GT # r" using some match_at_iff [OF ok] by blast
  define body where "body = t @ GT # v"
  have nb: "LT \<notin> set body" "LT \<notin> set (CHR ''/'' # t' @ [GT])"
    using t ok by (auto simp: body_def tags_ok_def list_all_iff)
  have e: "pre @ LT # (a # u' @ y @ w) = body @ LT # (CHR ''/'' # t' @ [GT]) @ r"
    using eq s'(1) y(1) u(1) by (simp add: body_def)
  have short: "\<not> length (body @ LT # (CHR ''/'' # t' @ [GT])) \<le> length s"
  proof
    assume l: "length (body @ LT # (CHR ''/'' # t' @ [GT])) \<le> length s"
    have "s @ w = (body @ LT # (CHR ''/'' # t' @ [GT])) @ r" using eq by (simp add: body_def)
    then obtain z where "s = (body @ LT # (CHR ''/'' # t' @ [GT])) @ z" using l
      by (metis append_eq_append_conv_if append_take_drop_id)
    with eq have "c # s = LT # t @ GT # v @ LT # CHR ''/'' # t' @ GT # z" by (simp add: body_def)
    with t match_at_iff [OF ok] have "match_at tags (c # s) = Some (t, v, z)" by blast
    with none show False by simp
  qed
  have "length pre < length (body @ LT # (CHR ''/'' # t' @ [GT]))" using short s'(1) by simp
  show False
  proof (cases "length pre" "length body" rule: linorder_cases)
    case less
    then have "(body @ LT # (CHR ''/'' # t' @ [GT]) @ r) ! length pre \<in> set body" by (simp add: nth_append)
    moreover have "(body @ LT # (CHR ''/'' # t' @ [GT]) @ r) ! length pre = LT" unfolding e [symmetric] by simp
    ultimately show False using nb(1) by simp
  next
    case equal
    then have "a = CHR ''/''" using e by simp
    with u(2) show False by simp
  next
    case greater
    define k where "k = length pre - Suc (length body)"
    have k: "length pre = Suc (length body) + k" using greater by (simp add: k_def)
    then have kl: "k < length (CHR ''/'' # t' @ [GT])" using \<open>length pre < _\<close> by simp
    have "(body @ LT # (CHR ''/'' # t' @ [GT]) @ r) ! length pre = ((CHR ''/'' # t' @ [GT]) @ r) ! k"
      using k by (simp add: nth_append)
    then have "(body @ LT # (CHR ''/'' # t' @ [GT]) @ r) ! length pre = (CHR ''/'' # t' @ [GT]) ! k"
      unfolding nth_append using kl by simp
    moreover have "(CHR ''/'' # t' @ [GT]) ! k \<in> set (CHR ''/'' # t' @ [GT])" using kl by (rule nth_mem)
    moreover have "(body @ LT # (CHR ''/'' # t' @ [GT]) @ r) ! length pre = LT" unfolding e [symmetric] by simp
    ultimately show False using nb(2) by simp
  qed
qed

lemma find_match_append:
  "tags_ok tags \<Longrightarrow> find_match tags s = Some (pre, t, v, r) \<Longrightarrow> find_match tags (s @ w) = Some (pre, t, v, r @ w)"
proof (induction s arbitrary: pre)
  case (Cons c s)
  show ?case
  proof (cases "match_at tags (c # s)")
    case None
    with Cons.prems obtain pre' where p: "find_match tags s = Some (pre', t, v, r)" "pre = c # pre'"
      by (auto split: option.splits)
    have "match_at tags ((c # s) @ w) = None"
    proof (rule ccontr)
      assume "match_at tags ((c # s) @ w) \<noteq> None"
      then obtain x where "match_at tags ((c # s) @ w) = Some x" by auto
      with no_match_inside [OF Cons.prems(1) None] p(1) show False by (cases x) auto
    qed
    with Cons.IH [OF Cons.prems(1) p(1)] p(2) show ?thesis by simp
  next
    case (Some x)
    with Cons.prems match_at_append [OF Cons.prems(1), of "c # s" _ _ _ w] show ?thesis
      by (cases x) auto
  qed
qed simp

lemma find_match_plain: "LT \<notin> set a \<Longrightarrow> find_match tags (a @ s) =
    (case find_match tags s of None \<Rightarrow> None | Some (pre, t, v, r) \<Rightarrow> Some (a @ pre, t, v, r))"
  by (induction a) (auto simp: match_at_def split: option.splits)

section \<open>Chunks\<close>

lemma scan_loop_append:
  "tags_ok tags \<Longrightarrow> scan_loop tags (s @ w) =
    (fst (scan_loop tags s) @ fst (scan_loop tags (snd (scan_loop tags s) @ w)), snd (scan_loop tags (snd (scan_loop tags s) @ w)))"
proof (induction tags s rule: scan_loop.induct)
  case (1 tags s)
  show ?case
  proof (cases "find_match tags s")
    case None
    then show ?thesis by (simp add: scan_loop.simps [of tags s])
  next
    case (Some x)
    obtain pre t v r where x: "x = (pre, t, v, r)" by (cases x)
    have "find_match tags (s @ w) = Some (pre, t, v, r @ w)"
      using find_match_append [OF "1.prems"] Some x by blast
    then have "scan_loop tags (s @ w) = ((t, v) # fst (scan_loop tags ((pre @ r) @ w)), snd (scan_loop tags ((pre @ r) @ w)))"
      by (subst scan_loop.simps) (simp add: case_prod_unfold Let_def)
    moreover have "scan_loop tags s = ((t, v) # fst (scan_loop tags (pre @ r)), snd (scan_loop tags (pre @ r)))"
      using Some x by (subst scan_loop.simps) (simp add: case_prod_unfold Let_def)
    ultimately show ?thesis using "1.IH" [OF Some x [symmetric] refl refl "1.prems"] by simp
  qed
qed

lemma scan_loop_plain: "LT \<notin> set a \<Longrightarrow> scan_loop tags (a @ s) = (fst (scan_loop tags s), a @ snd (scan_loop tags s))"
proof (induction tags s rule: scan_loop.induct)
  case (1 tags s)
  show ?case
  proof (cases "find_match tags s")
    case None
    with find_match_plain [OF "1.prems", of tags s] show ?thesis by (simp add: scan_loop.simps)
  next
    case (Some x)
    obtain pre t v r where x: "x = (pre, t, v, r)" by (cases x)
    have "find_match tags (a @ s) = Some (a @ pre, t, v, r)" using find_match_plain [OF "1.prems", of tags s] Some x by simp
    then have "scan_loop tags (a @ s) = ((t, v) # fst (scan_loop tags (a @ pre @ r)), snd (scan_loop tags (a @ pre @ r)))"
      by (subst scan_loop.simps) (simp add: case_prod_unfold Let_def)
    moreover have "scan_loop tags s = ((t, v) # fst (scan_loop tags (pre @ r)), snd (scan_loop tags (pre @ r)))"
      using Some x by (subst scan_loop.simps) (simp add: case_prod_unfold Let_def)
    ultimately show ?thesis using "1.IH" [OF Some x [symmetric] refl refl "1.prems"] by simp
  qed
qed

fun feed_all :: "string list \<Rightarrow> string list \<Rightarrow> string \<Rightarrow> (string \<times> string) list \<times> string \<times> string" where
  "feed_all tags [] buf = ([], [], buf)"
| "feed_all tags (c # cs) buf =
    (let (f1, out, buf) = Feed tags c buf; (f2, outs, buf) = feed_all tags cs buf in (f1 @ f2, out @ outs, buf))"

text \<open>
  C23. How a model's answer is cut into pieces does not matter: feeding the scanner any pieces of a text, and
  flushing it at the end, finds the same tags with the same values in the same order, and lets through the
  same text, as looking at the whole text at once.
\<close>

theorem tag_chunks_irrelevant:
  assumes "tags_ok tags" and "feed_all tags chunks [] = (found, outs, buf)"
  shows "(found, outs @ fst (Flush buf)) = scan_loop tags (concat chunks)"
proof -
  have "fst (feed_all tags chunks b) = fst (scan_loop tags (b @ concat chunks)) \<and>
      fst (snd (feed_all tags chunks b)) @ snd (snd (feed_all tags chunks b)) = snd (scan_loop tags (b @ concat chunks))"
    if "scan_loop tags b = ([], b)" for b
    using that
  proof (induction chunks arbitrary: b)
    case (Cons c cs)
    obtain f1 s where s: "scan_loop tags (b @ c) = (f1, s)" by fastforce
    let ?a = "takeWhile (\<lambda>c. c \<noteq> LT) s" and ?r = "dropWhile (\<lambda>c. c \<noteq> LT) s"
    have a: "LT \<notin> set ?a" using set_takeWhileD [of LT "\<lambda>c. c \<noteq> LT" s] by auto
    have "scan_loop tags s = ([], s)"
      using scan_loop_append [OF assms(1), of "b @ c" "[]"] s by (auto simp: prod_eq_iff)
    then have r: "scan_loop tags ?r = ([], ?r)"
      using scan_loop_plain [OF a, of tags ?r]
      by (simp add: prod_eq_iff) (metis (no_types, lifting) same_append_eq takeWhile_dropWhile_id)
    have "scan_loop tags (b @ c @ concat cs) = (f1 @ fst (scan_loop tags (s @ concat cs)), snd (scan_loop tags (s @ concat cs)))"
      using scan_loop_append [OF assms(1), of "b @ c" "concat cs"] s by simp
    moreover have "scan_loop tags (s @ concat cs) =
        (fst (scan_loop tags (?r @ concat cs)), ?a @ snd (scan_loop tags (?r @ concat cs)))"
    proof -
      have "s @ concat cs = ?a @ ?r @ concat cs" by (simp only: append_assoc [symmetric] takeWhile_dropWhile_id)
      then show ?thesis using scan_loop_plain [OF a, of tags "?r @ concat cs"] by (simp only:)
    qed
    ultimately show ?case using Cons.IH [OF r] s by (simp add: Feed_def case_prod_unfold Let_def)
  qed simp
  moreover have "scan_loop tags [] = ([], [])" by (simp add: scan_loop.simps)
  ultimately show ?thesis using assms(2) by (force simp: Flush_def prod_eq_iff)
qed

lemma tag_chunks_irrelevant_witness:
  "feed_all [''dtmf'', ''ivr''] [''Press <dt'', ''mf>1</dt'', ''mf> now'', '' <'' ] [] =
     ([(''dtmf'', ''1'')], ''Press  now '', ''<'') \<and>
   ([(''dtmf'', ''1'')], ''Press  now <'') = scan_loop [''dtmf'', ''ivr''] ''Press <dtmf>1</dtmf> now <''"
proof -
  have ok: "tags_ok [''dtmf'', ''ivr'']" by code_simp
  have f: "feed_all [''dtmf'', ''ivr''] [''Press <dt'', ''mf>1</dt'', ''mf> now'', '' <'' ] [] =
     ([(''dtmf'', ''1'')], ''Press  now '', ''<'')" by code_simp
  from tag_chunks_irrelevant [OF ok f] f show ?thesis by (simp add: Flush_def)
qed

text \<open>The closing tag need not be the one that was opened: the expression accepts any of them.\<close>

lemma any_closing_tag: "scan_loop [''dtmf'', ''ivr''] ''<dtmf>1</ivr>'' = ([(''dtmf'', ''1'')], [])"
  by code_simp

section \<open>The phone-menu navigator\<close>

datatype ivr_out = IvrPushed frame Direction | IvrText string Direction | IvrKey string | IvrStatus string

definition ivr_tags :: "string list" where "ivr_tags = [''dtmf'', ''ivr'']"

definition ivr_act :: "string \<times> string \<Rightarrow> ivr_out list" where
  "ivr_act tv =
    (if fst tv = ''dtmf'' then map (\<lambda>c. IvrKey [c]) (TrimSpace (snd tv))
     else if fst tv = ''ivr'' then [IvrStatus (TrimSpace (snd tv))] else [])"

definition ivr_ProcessFrame :: "frame \<Rightarrow> Direction \<Rightarrow> string \<Rightarrow> ivr_out list \<times> string" where
  "ivr_ProcessFrame f d buf =
    (case body f of
       Txt (LLMTextFrame t) \<Rightarrow>
         (let (found, cleaned, buf) = Feed ivr_tags (fText t) buf
          in (concat (map ivr_act found) @ (if cleaned = [] then [] else [IvrText cleaned Downstream]), buf))
     | Ctl (LLMFullResponseEndFrame x) \<Rightarrow>
         (let (rest, buf) = Flush buf in ((if rest = [] then [] else [IvrText rest Downstream]) @ [IvrPushed f d], buf))
     | _ \<Rightarrow> ([IvrPushed f d], buf))"

section \<open>The voicemail detector\<close>

datatype vm_out = VmPushed frame Direction | VmText string Direction | VmVoicemail | VmConversation

record voicemail =
  vm_buf :: string
  vm_decided :: bool
  vm_timer :: bool

definition vm_tags :: "string list" where "vm_tags = [''voicemail'', ''human'', ''conversation'']"

text \<open>With a delay the voicemail callback waits for a timer; without one it runs at once.\<close>

definition decide :: "duration \<Rightarrow> string \<Rightarrow> voicemail \<Rightarrow> vm_out list \<times> voicemail" where
  "decide delay tag v =
    (if vm_decided v then ([], v)
     else let v = v\<lparr>vm_decided := True\<rparr>
       in if tag = ''voicemail''
          then (if 0 < delay then ([], v\<lparr>vm_timer := True\<rparr>) else ([VmVoicemail], v))
          else ([VmConversation], v))"

fun decide_all :: "duration \<Rightarrow> (string \<times> string) list \<Rightarrow> voicemail \<Rightarrow> vm_out list \<times> voicemail" where
  "decide_all delay [] v = ([], v)"
| "decide_all delay ((t, _) # fs) v =
    (let (o1, v) = decide delay t v; (o2, v) = decide_all delay fs v in (o1 @ o2, v))"

definition vm_ProcessFrame :: "duration \<Rightarrow> frame \<Rightarrow> Direction \<Rightarrow> voicemail \<Rightarrow> vm_out list \<times> voicemail" where
  "vm_ProcessFrame delay f d v =
    (case body f of
       Txt (LLMTextFrame t) \<Rightarrow>
         (let (found, cleaned, buf) = Feed vm_tags (fText t) (vm_buf v);
              (outs, v) = decide_all delay found (v\<lparr>vm_buf := buf\<rparr>)
          in (outs @ (if cleaned = [] then [] else [VmText cleaned Downstream]), v))
     | Ctl (LLMFullResponseEndFrame x) \<Rightarrow>
         (let (rest, buf) = Flush (vm_buf v)
          in ((if rest = [] then [] else [VmText rest Downstream]) @ [VmPushed f d], v\<lparr>vm_buf := buf\<rparr>))
     | _ \<Rightarrow> ([VmPushed f d], v))"

datatype vm_action = VmFrame frame Direction | VmTimer | VmCleanup

text \<open>The timer runs once; tearing the processor down stops it.\<close>

fun vm_step :: "duration \<Rightarrow> vm_action \<Rightarrow> voicemail \<Rightarrow> (vm_out list \<times> voicemail) option" where
  "vm_step delay (VmFrame f d) v = Some (vm_ProcessFrame delay f d v)"
| "vm_step delay VmTimer v = (if vm_timer v then Some ([VmVoicemail], v\<lparr>vm_timer := False\<rparr>) else None)"
| "vm_step delay VmCleanup v = Some ([], v\<lparr>vm_timer := False\<rparr>)"

fun vm_run :: "duration \<Rightarrow> vm_action list \<Rightarrow> voicemail \<Rightarrow> (vm_out list \<times> voicemail) option" where
  "vm_run delay [] v = Some ([], v)"
| "vm_run delay (a # as) v =
    (case vm_step delay a v of
       None \<Rightarrow> None
     | Some (o1, v) \<Rightarrow> (case vm_run delay as v of None \<Rightarrow> None | Some (o2, v) \<Rightarrow> Some (o1 @ o2, v)))"

abbreviation new_voicemail :: voicemail where
  "new_voicemail \<equiv> \<lparr>vm_buf = [], vm_decided = False, vm_timer = False\<rparr>"

definition verdicts :: "vm_out list \<Rightarrow> nat" where
  "verdicts os = length (filter (\<lambda>x. x = VmVoicemail \<or> x = VmConversation) os)"

lemma verdicts_append [simp]: "verdicts (xs @ ys) = verdicts xs + verdicts ys"
  by (simp add: verdicts_def)

lemma verdicts_text [simp]:
  "verdicts [] = 0" "verdicts (VmText s d # xs) = verdicts xs" "verdicts (VmPushed f d # xs) = verdicts xs" "verdicts [VmVoicemail] = 1" "verdicts [VmConversation] = 1"
  by (simp_all add: verdicts_def)

text \<open>How many verdicts are still possible: one before the decision or while the timer runs.\<close>

definition verdicts_left :: "voicemail \<Rightarrow> nat" where
  "verdicts_left v = (if \<not> vm_decided v \<or> vm_timer v then 1 else 0)"

definition vm_ok :: "voicemail \<Rightarrow> bool" where
  "vm_ok v \<longleftrightarrow> (vm_timer v \<longrightarrow> vm_decided v)"

lemma decide_left:
  "vm_ok v \<Longrightarrow> decide delay t v = (os, w) \<Longrightarrow>
    verdicts os + verdicts_left w = verdicts_left v \<and> vm_ok w \<and> vm_buf w = vm_buf v"
  by (auto simp: decide_def verdicts_left_def vm_ok_def Let_def split: if_splits)

lemma decide_all_left:
  "vm_ok v \<Longrightarrow> decide_all delay fs v = (os, w) \<Longrightarrow> verdicts os + verdicts_left w = verdicts_left v \<and> vm_ok w"
proof (induction delay fs v arbitrary: os w rule: decide_all.induct)
  case (2 delay t u fs v)
  obtain o1 v1 where d: "decide delay t v = (o1, v1)" by fastforce
  obtain o2 v2 where e: "decide_all delay fs v1 = (o2, v2)" by fastforce
  from decide_left [OF "2.prems"(1) d] have v1: "verdicts o1 + verdicts_left v1 = verdicts_left v" "vm_ok v1" by auto
  from "2.IH" [OF d [symmetric] refl v1(2) e] v1 "2.prems"(2) d e show ?case by auto
qed simp

lemma vm_step_left:
  assumes "vm_ok v" and "vm_step delay a v = Some (os, w)"
  shows "verdicts os + verdicts_left w \<le> verdicts_left v \<and> vm_ok w \<and>
    (a \<noteq> VmCleanup \<longrightarrow> verdicts os + verdicts_left w = verdicts_left v)"
proof (cases a)
  case (VmFrame f d)
  have b: "vm_ok (v\<lparr>vm_buf := x\<rparr>)" "verdicts_left (v\<lparr>vm_buf := x\<rparr>) = verdicts_left v" for x
    using assms(1) by (simp_all add: vm_ok_def verdicts_left_def)
  have "verdicts os + verdicts_left w = verdicts_left v \<and> vm_ok w"
    using assms VmFrame b decide_all_left [OF b(1)]
    by (auto simp: vm_ProcessFrame_def Flush_def split: frame_body.splits text_go.splits control_go.splits prod.splits if_splits)
  then show ?thesis by simp
qed (use assms in \<open>auto simp: vm_ok_def verdicts_left_def split: if_splits\<close>)

lemma vm_run_left:
  "vm_ok v \<Longrightarrow> vm_run delay as v = Some (os, w) \<Longrightarrow> verdicts os + verdicts_left w \<le> verdicts_left v \<and>
    (VmCleanup \<notin> set as \<longrightarrow> verdicts os + verdicts_left w = verdicts_left v)"
proof (induction as arbitrary: v os)
  case (Cons a as)
  then obtain o1 v1 o2 where s: "vm_step delay a v = Some (o1, v1)" "vm_run delay as v1 = Some (o2, w)" "os = o1 @ o2"
    by (auto split: option.splits)
  from vm_step_left [OF Cons.prems(1) s(1)] Cons.IH [OF _ s(2)] s(3) show ?case by auto
qed simp

text \<open>
  A call is judged once: whatever the model answers, in whatever pieces, and however often it repeats or
  changes its verdict, at most one of the two callbacks runs and it runs at most once; and when the processor
  is not torn down meanwhile, one has run exactly if a tag was found and no delayed callback is outstanding.
\<close>

lemma call_judged_once:
  assumes "vm_run delay as new_voicemail = Some (os, v)"
  shows "verdicts os \<le> 1 \<and> (VmCleanup \<notin> set as \<longrightarrow> (verdicts os = 1 \<longleftrightarrow> vm_decided v \<and> \<not> vm_timer v))"
  using vm_run_left [OF _ assms] by (auto simp: vm_ok_def verdicts_left_def split: if_splits)

definition answered :: "string \<Rightarrow> vm_action" where
  "answered s = VmFrame (fst (NewBaseFrame ''LLMTextFrame'' (Txt (NewLLMTextFrame s)) 0)) Downstream"

lemma call_judged_once_witness:
  "verdicts (fst (the (vm_run 0 [answered ''<voice'', answered ''mail></voicemail><human></human>''] new_voicemail))) = 1"
proof -
  let ?as = "[answered ''<voice'', answered ''mail></voicemail><human></human>'']"
  let ?r = "the (vm_run 0 ?as new_voicemail)"
  have "vm_run 0 ?as new_voicemail \<noteq> None" by code_simp
  then have r: "vm_run 0 ?as new_voicemail = Some (fst ?r, snd ?r)" by simp
  have "VmCleanup \<notin> set ?as" "vm_decided (snd ?r)" "\<not> vm_timer (snd ?r)" by code_simp+
  with call_judged_once [OF r] show ?thesis by blast
qed

end
