(* ===== verification/Stream_Aggregators.thy ===== *)
theory Stream_Aggregators
  imports Filters Text_Aggregation Audio_Utils "HOL-Library.Multiset"
begin

text \<open>
  The small aggregators of \<^verbatim>\<open>src/processor/aggregators/\<close>: the gate (\<open>gated.go\<close>), the sentence gatherer
  (\<open>sentence.go\<close>), the model's text in units (\<open>llmtext.go\<close>) and the response reporter (\<open>fullresponse.go\<close>),
  with the processors that rewrite a frame on its way (\<open>texttransformer.go\<close>, \<open>mute.go\<close>, \<open>dcblock.go\<close>,
  \<open>clamp.go\<close>, \<open>normalize.go\<close>).

  What a handler does is a log of the frames it hands to its neighbours and of what it reports. Handing a
  frame over can fail when the neighbour handles it in direct mode; which handovers fail is a parameter, and
  every handler gives up where the code does. What \<open>Base.ProcessFrame\<close> does first is in \<open>Processor_Core\<close>.
\<close>

section \<open>Handing frames over\<close>

type_synonym hop = "frame \<times> Direction"

datatype stream_out =
    StPushed frame Direction
  | StError string go_error
  | StCompletion string bool

definition st_push :: "hop \<Rightarrow> stream_out" where
  "st_push h = StPushed (fst h) (snd h)"

text \<open>One handover after the other, up to the first that fails; the flag is the error returned.\<close>

fun push_each :: "(hop \<Rightarrow> bool) \<Rightarrow> hop list \<Rightarrow> stream_out list \<times> bool" where
  "push_each fails [] = ([], False)"
| "push_each fails (h # hs) =
    (if fails h then ([st_push h], True)
     else let (out, e) = push_each fails hs in (st_push h # out, e))"

fun sent_hop :: "stream_out \<Rightarrow> hop option" where
  "sent_hop (StPushed f d) = Some (f, d)"
| "sent_hop _ = None"

definition sent_hops :: "stream_out list \<Rightarrow> hop list" where
  "sent_hops os = List.map_filter sent_hop os"

lemma sent_hops_simps [simp]:
  "sent_hops [] = []" "sent_hops (StPushed f d # os) = (f, d) # sent_hops os"
  "sent_hops (StError m e # os) = sent_hops os" "sent_hops (StCompletion t b # os) = sent_hops os"
  "sent_hops (st_push h # os) = h # sent_hops os" "sent_hops (os @ os') = sent_hops os @ sent_hops os'"
  by (simp_all add: sent_hops_def map_filter_def st_push_def)

lemma push_each_all [simp]: "push_each (\<lambda>h. False) hs = (map st_push hs, False)"
  by (induction hs) simp_all

lemma sent_map_push [simp]: "sent_hops (map st_push hs) = hs"
  by (induction hs) simp_all

text \<open>A handler over a sequence of frames, with the logs of all of them; an error returned only ends its own frame.\<close>

fun stream_run :: "(frame \<Rightarrow> Direction \<Rightarrow> 's \<Rightarrow> 's \<times> stream_out list \<times> bool) \<Rightarrow> hop list \<Rightarrow> 's \<Rightarrow> 's \<times> stream_out list" where
  "stream_run handle [] s = (s, [])"
| "stream_run handle ((f, d) # hs) s =
    (case handle f d s of (s', out, e) \<Rightarrow> case stream_run handle hs s' of (t, out') \<Rightarrow> (t, out @ out'))"

lemma stream_run_append:
  "stream_run handle (xs @ ys) s =
    (case stream_run handle xs s of (t, out) \<Rightarrow> case stream_run handle ys t of (u, out') \<Rightarrow> (u, out @ out'))"
  by (induction handle xs s rule: stream_run.induct) (auto split: prod.split)

section \<open>The gate (gated.go)\<close>

record gated =
  g_openFn :: "frame \<Rightarrow> bool"
  g_closeFn :: "frame \<Rightarrow> bool"
  g_open :: bool
  g_dir :: Direction
  g_held :: "hop list"

definition NewGated :: "(frame \<Rightarrow> bool) \<Rightarrow> (frame \<Rightarrow> bool) \<Rightarrow> bool \<Rightarrow> Direction \<Rightarrow> gated" where
  "NewGated op cl startOpen d = \<lparr>g_openFn = op, g_closeFn = cl, g_open = startOpen, g_dir = d, g_held = []\<rparr>"

definition Gated_ProcessFrame ::
  "(hop \<Rightarrow> bool) \<Rightarrow> frame \<Rightarrow> Direction \<Rightarrow> gated \<Rightarrow> gated \<times> stream_out list \<times> bool" where
  "Gated_ProcessFrame fails f d g =
    (if isSystemFrame f \<or> d \<noteq> g_dir g then (g, push_each fails [(f, d)])
     else let g = g\<lparr>g_open := (if g_open g then \<not> g_closeFn g f else g_openFn g f)\<rparr> in
       if \<not> g_open g then (g\<lparr>g_held := g_held g @ [(f, d)]\<rparr>, [], False)
       else if fails (f, d) then (g, [StPushed f d], True)
       else case push_each fails (g_held g) of (out, e) \<Rightarrow> (g\<lparr>g_held := []\<rparr>, StPushed f d # out, e))"

text \<open>A frame the gate may hold: not a system frame, and going its way.\<close>

definition gates :: "Direction \<Rightarrow> hop \<Rightarrow> bool" where
  "gates way h \<longleftrightarrow> \<not> isSystemFrame (fst h) \<and> snd h = way"

definition gate_ok :: "Direction \<Rightarrow> gated \<Rightarrow> bool" where
  "gate_ok way g \<longleftrightarrow> g_dir g = way \<and> (g_open g \<longrightarrow> g_held g = []) \<and> list_all (gates way) (g_held g)"

lemma gate_ok_New [simp]: "gate_ok d (NewGated op cl b d)"
  by (simp add: gate_ok_def NewGated_def)

lemma gate_ok_step:
  assumes "gate_ok way g" and "Gated_ProcessFrame (\<lambda>h. False) f d g = (g', out, e)"
  shows "gate_ok way g'"
    and "mset (sent_hops out) + mset (g_held g') = add_mset (f, d) (mset (g_held g))"
    and "filter (\<lambda>h. \<not> gates way h) (sent_hops out) = filter (\<lambda>h. \<not> gates way h) [(f, d)]"
  using assms by (auto simp: Gated_ProcessFrame_def gate_ok_def gates_def Let_def st_push_def list_all_iff split: if_splits)

lemma gate_ok_run:
  assumes "gate_ok way g" and "stream_run (Gated_ProcessFrame (\<lambda>h. False)) hs g = (g', out)"
  shows "gate_ok way g' \<and> mset (sent_hops out) + mset (g_held g') = mset hs + mset (g_held g) \<and>
    filter (\<lambda>h. \<not> gates way h) (sent_hops out) = filter (\<lambda>h. \<not> gates way h) hs"
  using assms
proof (induction hs arbitrary: g out)
  case Nil
  then show ?case by simp
next
  case (Cons h hs)
  obtain f d where h: "h = (f, d)" by (cases h)
  obtain g1 out1 e where s: "Gated_ProcessFrame (\<lambda>h. False) f d g = (g1, out1, e)" by (cases "Gated_ProcessFrame (\<lambda>h. False) f d g") auto
  obtain out2 where r: "stream_run (Gated_ProcessFrame (\<lambda>h. False)) hs g1 = (g', out2)" "out = out1 @ out2"
    using Cons.prems(2) h s by (auto split: prod.splits)
  note one = gate_ok_step [OF Cons.prems(1) s]
  from Cons.IH [OF one(1) r(1)] one show ?case using h r(2)
    by (auto simp: ac_simps) (metis (no_types, lifting) add.assoc add_mset_add_single union_commute)+
qed

text \<open>
  Behind a gate no frame is lost or sent twice: whatever frames arrive, what has been sent and what is
  held are together the frames that arrived, and what the gate does not hold (system frames, and frames
  going the other way) has been sent in the order it came.
\<close>

lemma gate_conserves:
  assumes "stream_run (Gated_ProcessFrame (\<lambda>h. False)) hs (NewGated op cl b way) = (g, out)"
  shows "mset (sent_hops out) + mset (g_held g) = mset hs \<and>
    filter (\<lambda>h. \<not> gates way h) (sent_hops out) = filter (\<lambda>h. \<not> gates way h) hs"
  using gate_ok_run [OF gate_ok_New assms] by (simp add: NewGated_def)

lemma gate_conserves_witness:
  "let f = fst (NewBaseFrame ''TextFrame'' (Txt (NewTextFrame ''a'')) 0);
       g = fst (NewBaseFrame ''TextFrame'' (Txt (NewTextFrame ''b'')) 1);
       r = stream_run (Gated_ProcessFrame (\<lambda>h. False)) [(f, Downstream), (g, Downstream)]
             (NewGated (\<lambda>h. frameID h = 2) (\<lambda>h. False) False Downstream)
   in sent_hops (snd r) = [(g, Downstream), (f, Downstream)] \<and>
      mset (sent_hops (snd r)) + mset (g_held (fst r)) = mset [(f, Downstream), (g, Downstream)]"
  unfolding Let_def
  by (rule conjI [OF _ conjunct1 [OF gate_conserves [OF surjective_pairing]]]) code_simp

text \<open>While the gate is closed its frames wait; the one that opens it goes first, then they follow in the order they came.\<close>

lemma gate_holds:
  assumes "\<not> g_open g" and "list_all (\<lambda>f. \<not> isSystemFrame f \<and> \<not> g_openFn g f) fs"
  shows "stream_run (Gated_ProcessFrame (\<lambda>h. False)) (map (\<lambda>f. (f, g_dir g)) fs) g =
    (g\<lparr>g_held := g_held g @ map (\<lambda>f. (f, g_dir g)) fs\<rparr>, [])"
  using assms
proof (induction fs arbitrary: g)
  case (Cons f fs)
  define g1 where "g1 = g\<lparr>g_held := g_held g @ [(f, g_dir g)]\<rparr>"
  have "Gated_ProcessFrame (\<lambda>h. False) f (g_dir g) g = (g1, [], False)"
    using Cons.prems by (simp add: Gated_ProcessFrame_def Let_def g1_def)
  moreover have "stream_run (Gated_ProcessFrame (\<lambda>h. False)) (map (\<lambda>f. (f, g_dir g)) fs) g1 =
      (g1\<lparr>g_held := g_held g1 @ map (\<lambda>f. (f, g_dir g)) fs\<rparr>, [])"
    using Cons.IH [of g1] Cons.prems by (simp add: g1_def)
  ultimately show ?case by (simp add: g1_def)
qed simp

lemma gate_releases:
  assumes "gate_ok way g" and "g_open g" and "\<not> isSystemFrame c" and "g_closeFn g c"
    and "list_all (\<lambda>f. \<not> isSystemFrame f \<and> \<not> g_openFn g f) fs" and "\<not> isSystemFrame f" and "g_openFn g f"
  shows "stream_run (Gated_ProcessFrame (\<lambda>h. False)) (map (\<lambda>f. (f, way)) (c # fs @ [f])) g =
    (g, map (\<lambda>f. StPushed f way) (f # c # fs))"
proof -
  have way: "g_dir g = way" "g_held g = []" using assms(1,2) by (simp_all add: gate_ok_def)
  define g1 where "g1 = g\<lparr>g_open := False, g_held := [(c, way)]\<rparr>"
  have "Gated_ProcessFrame (\<lambda>h. False) c way g = (g1, [], False)"
    using assms way by (simp add: Gated_ProcessFrame_def Let_def g1_def)
  moreover have "stream_run (Gated_ProcessFrame (\<lambda>h. False)) (map (\<lambda>f. (f, way)) fs) g1 =
      (g1\<lparr>g_held := (c, way) # map (\<lambda>f. (f, way)) fs\<rparr>, [])"
    using gate_holds [of g1 fs] assms(5) way by (simp add: g1_def)
  moreover have "Gated_ProcessFrame (\<lambda>h. False) f way (g1\<lparr>g_held := (c, way) # map (\<lambda>f. (f, way)) fs\<rparr>) =
      (g, map (\<lambda>f. StPushed f way) (f # c # fs), False)"
    using assms(2,6,7) way by (simp add: Gated_ProcessFrame_def Let_def g1_def st_push_def comp_def)
  ultimately show ?thesis by (simp add: stream_run_append)
qed

text \<open>When handing over one of the frames it held fails, the ones behind it are gone.\<close>

lemma failed_release_loses_frames:
  assumes "gate_ok way g" and "g_held g = [(a, way), (b, way)]" and "\<not> isSystemFrame f" and "g_openFn g f"
    and "fails (a, way)" and "\<not> fails (f, way)"
  shows "Gated_ProcessFrame fails f way g = (g\<lparr>g_open := True, g_held := []\<rparr>, [StPushed f way, StPushed a way], True)"
  using assms by (auto simp: Gated_ProcessFrame_def gate_ok_def Let_def st_push_def)

section \<open>Sentences (sentence.go)\<close>

text \<open>
  The tokenizer is the function \<open>MatchEndOfSentence\<close> of its interface, or nil; an interface that carries an
  error of the tokenizer's making is reported when the pipeline starts. The frame counter is the process's.
\<close>

record sentence_agg =
  sa_tokenizer :: "(string \<Rightarrow> nat) option"
  sa_tokenizerErr :: "go_error option"
  sa_aggregation :: string
  sa_counter :: u64

definition NewSentence :: "((string \<Rightarrow> nat) option \<times> go_error option) \<Rightarrow> u64 \<Rightarrow> sentence_agg" where
  "NewSentence tok c = \<lparr>sa_tokenizer = fst tok, sa_tokenizerErr = snd tok, sa_aggregation = [], sa_counter = c\<rparr>"

definition NewSentenceWith :: "(string \<Rightarrow> nat) option \<Rightarrow> u64 \<Rightarrow> sentence_agg" where
  "NewSentenceWith tok c = NewSentence (tok, None) c"

text \<open>A text frame of what was gathered, which is forgotten.\<close>

definition take_said :: "sentence_agg \<Rightarrow> frame \<times> sentence_agg" where
  "take_said s =
    (case NewBaseFrame ''TextFrame'' (Txt (NewTextFrame (sa_aggregation s))) (sa_counter s) of
       (f, c) \<Rightarrow> (f, s\<lparr>sa_aggregation := [], sa_counter := c\<rparr>))"

definition ends_sentence :: "sentence_agg \<Rightarrow> bool" where
  "ends_sentence s \<longleftrightarrow> (case sa_tokenizer s of None \<Rightarrow> False | Some tok \<Rightarrow> tok (sa_aggregation s) \<noteq> 0)"

definition start_error :: "string \<Rightarrow> go_error option \<Rightarrow> frame \<Rightarrow> stream_out list" where
  "start_error msg err f = (case err of Some e \<Rightarrow> if isStartFrame f then [StError msg e] else [] | None \<Rightarrow> [])"

definition Sentence_ProcessFrame ::
  "(hop \<Rightarrow> bool) \<Rightarrow> frame \<Rightarrow> Direction \<Rightarrow> sentence_agg \<Rightarrow> sentence_agg \<times> stream_out list \<times> bool" where
  "Sentence_ProcessFrame fails f d s =
    (let report = start_error ''sentence aggregator has no tokenizer'' (sa_tokenizerErr s) f in
     case body f of
       Txt (InterimTranscriptionFrame t) \<Rightarrow> (s, report, False)
     | Txt (TextFrame t) \<Rightarrow>
         let s = s\<lparr>sa_aggregation := sa_aggregation s @ fText t\<rparr> in
         if \<not> ends_sentence s then (s, report, False)
         else case take_said s of (said, s) \<Rightarrow> (s, apfst ((@) report) (push_each fails [(said, Downstream)]))
     | Ctl (EndFrame r) \<Rightarrow>
         if sa_aggregation s = [] then (s, apfst ((@) report) (push_each fails [(f, Downstream)]))
         else case take_said s of (said, s) \<Rightarrow>
           (s, apfst ((@) report) (push_each fails [(said, Downstream), (f, Downstream)]))
     | _ \<Rightarrow> (s, apfst ((@) report) (push_each fails [(f, d)])))"

text \<open>The text of the plain text frames among those handed over or arriving.\<close>

fun plain_text :: "frame_body \<Rightarrow> string" where
  "plain_text (Txt (TextFrame t)) = fText t"
| "plain_text _ = []"

definition said_text :: "hop list \<Rightarrow> string" where
  "said_text hs = concat (map (\<lambda>h. plain_text (body (fst h))) hs)"

lemma said_text_simps [simp]:
  "said_text [] = []" "said_text (h # hs) = plain_text (body (fst h)) @ said_text hs"
  "said_text (hs @ hs') = said_text hs @ said_text hs'"
  by (simp_all add: said_text_def)

lemma body_New [simp]: "body (fst (NewBaseFrame tn b c)) = b"
  by (simp add: NewBaseFrame_def nextID_def)

lemma start_error_sent [simp]: "sent_hops (start_error m e f) = []"
  by (simp add: start_error_def split: option.split)

lemma sentence_step:
  assumes "Sentence_ProcessFrame (\<lambda>h. False) f d s = (s', out, e)"
  shows "said_text (sent_hops out) @ sa_aggregation s' = sa_aggregation s @ plain_text (body f)"
  using assms
  by (auto simp: Sentence_ProcessFrame_def Let_def take_said_def NewBaseFrame_def nextID_def NewTextFrame_def
      split: frame_body.splits text_go.splits control_go.splits if_splits)

text \<open>
  Gathering sentences loses no text: whatever frames arrive, the text of the sentences sent, followed by
  what is still held, is the text of the text frames that arrived.
\<close>

lemma sentence_conserves:
  "case stream_run (Sentence_ProcessFrame (\<lambda>h. False)) hs (NewSentence tok c) of
     (s, out) \<Rightarrow> said_text (sent_hops out) @ sa_aggregation s = said_text hs"
proof -
  have "case stream_run (Sentence_ProcessFrame (\<lambda>h. False)) hs s of
     (s', out) \<Rightarrow> said_text (sent_hops out) @ sa_aggregation s' = sa_aggregation s @ said_text hs" for s
  proof (induction hs arbitrary: s)
    case (Cons h hs)
    obtain f d where h: "h = (f, d)" by (cases h)
    obtain s1 out1 e where 1: "Sentence_ProcessFrame (\<lambda>h. False) f d s = (s1, out1, e)"
      by (cases "Sentence_ProcessFrame (\<lambda>h. False) f d s") auto
    from Cons.IH [of s1] sentence_step [OF 1] show ?case using h 1
      by (auto split: prod.splits)
  qed simp
  from this [of "NewSentence tok c"] show ?thesis by (simp add: NewSentence_def)
qed

text \<open>After the end frame nothing is held, and it is the last frame to leave.\<close>

lemma sentence_end:
  assumes "body f = Ctl (EndFrame r)" and "Sentence_ProcessFrame (\<lambda>h. False) f d s = (s', out, e)"
  shows "sa_aggregation s' = []" and "last out = StPushed f Downstream"
  using assms by (auto simp: Sentence_ProcessFrame_def Let_def take_said_def st_push_def NewBaseFrame_def nextID_def split: if_splits)

text \<open>
  What is sent is everything gathered, not the sentence that ended: a piece that carries the end of one
  sentence and the beginning of the next goes out whole, its tail unfinished.
\<close>

lemma unfinished_tail_sent:
  "let f = fst (NewBaseFrame ''TextFrame'' (Txt (NewTextFrame ''Hi. How are'')) 0);
       tok = MatchEndOfSentence (\<lambda>s. if s = ''Hi. How are'' then [''Hi.'', ''How are''] else [s])
   in map (\<lambda>h. plain_text (body (fst h))) (sent_hops (snd (stream_run (Sentence_ProcessFrame (\<lambda>h. False)) [(f, Downstream)]
        (NewSentenceWith (Some tok) 1)))) = [''Hi. How are'']"
  by code_simp

text \<open>The text a model streams is not a \<open>TextFrame\<close> but a frame that embeds one: it goes by ungathered.\<close>

lemma model_text_not_gathered:
  assumes "body f = Txt (LLMTextFrame t)"
  shows "Sentence_ProcessFrame (\<lambda>h. False) f d s = (s, [StPushed f d], False)"
  using assms by (auto simp: Sentence_ProcessFrame_def Let_def start_error_def isStartFrame_def st_push_def split: option.split)

section \<open>The model's text in units (llmtext.go)\<close>

text \<open>
  The aggregator is anything that implements \<open>text.Aggregator\<close>: the functions of its interface, and its state
  (nil when it could not be built). Its units carry the text and, from an aggregator that cuts patterns out,
  the written form; the two aggregators modelled leave that empty, so \<open>Original\<close> is the text.
\<close>

record 'a text_aggregator =
  ta_Aggregate :: "string \<Rightarrow> 'a \<Rightarrow> ('a \<times> Aggregation list) go"
  ta_Flush :: "'a \<Rightarrow> 'a \<times> Aggregation option"
  ta_Reset :: "'a \<Rightarrow> 'a"

record 'a llm_text =
  lt_aggregator :: "'a option"
  lt_aggregatorErr :: "go_error option"
  lt_counter :: u64

definition NewLLMText :: "'a + go_error \<Rightarrow> u64 \<Rightarrow> 'a llm_text" where
  "NewLLMText agg c =
    (case agg of
       Inl a \<Rightarrow> \<lparr>lt_aggregator = Some a, lt_aggregatorErr = None, lt_counter = c\<rparr>
     | Inr e \<Rightarrow> \<lparr>lt_aggregator = None, lt_aggregatorErr = Some e, lt_counter = c\<rparr>)"

definition NewLLMTextWith :: "'a \<Rightarrow> u64 \<Rightarrow> 'a llm_text" where
  "NewLLMTextWith a c = NewLLMText (Inl a) c"

definition unit_frame :: "bool option \<Rightarrow> Aggregation \<Rightarrow> 'a llm_text \<Rightarrow> frame \<times> 'a llm_text" where
  "unit_frame skip u s =
    (case NewBaseFrame ''AggregatedTextFrame''
        (Txt (AggregatedTextFrame \<lparr>fText = agg_Text u, fSkipTTS = skip, fInterFrameSpaces = False, fAppendToContext = True\<rparr>
           (agg_Text u) [])) (lt_counter s) of
       (f, c) \<Rightarrow> (f, s\<lparr>lt_counter := c\<rparr>))"

fun push_units ::
  "(hop \<Rightarrow> bool) \<Rightarrow> bool option \<Rightarrow> Aggregation list \<Rightarrow> 'a llm_text \<Rightarrow> 'a llm_text \<times> stream_out list \<times> bool" where
  "push_units fails skip [] s = (s, [], False)"
| "push_units fails skip (u # us) s =
    (case unit_frame skip u s of (f, s) \<Rightarrow>
       if fails (f, Downstream) then (s, [StPushed f Downstream], True)
       else case push_units fails skip us s of (s, out, e) \<Rightarrow> (s, StPushed f Downstream # out, e))"

definition LLMText_handleText ::
  "'a text_aggregator \<Rightarrow> (hop \<Rightarrow> bool) \<Rightarrow> text_fields \<Rightarrow> 'a llm_text \<Rightarrow> ('a llm_text \<times> stream_out list \<times> bool) go" where
  "LLMText_handleText A fails t s =
    (case lt_aggregator s of
       None \<Rightarrow> Inr (s, [], False)
     | Some a \<Rightarrow> go_bind (ta_Aggregate A (fText t) a) (\<lambda>(a, us).
         Inr (push_units fails (fSkipTTS t) us (s\<lparr>lt_aggregator := Some a\<rparr>))))"

definition LLMText_flush ::
  "'a text_aggregator \<Rightarrow> (hop \<Rightarrow> bool) \<Rightarrow> bool option \<Rightarrow> 'a llm_text \<Rightarrow> 'a llm_text \<times> stream_out list \<times> bool" where
  "LLMText_flush A fails skip s =
    (case lt_aggregator s of
       None \<Rightarrow> (s, [], False)
     | Some a \<Rightarrow>
         (case ta_Flush A a of
            (a, None) \<Rightarrow> (s\<lparr>lt_aggregator := Some a\<rparr>, [], False)
          | (a, Some u) \<Rightarrow> push_units fails skip [u] (s\<lparr>lt_aggregator := Some a\<rparr>)))"

definition LLMText_Reset :: "'a text_aggregator \<Rightarrow> 'a llm_text \<Rightarrow> 'a llm_text" where
  "LLMText_Reset A s = s\<lparr>lt_aggregator := map_option (ta_Reset A) (lt_aggregator s)\<rparr>"

text \<open>A handler that flushes first passes its frame on unless the flush failed.\<close>

definition and_pass ::
  "(hop \<Rightarrow> bool) \<Rightarrow> hop \<Rightarrow> 's \<times> stream_out list \<times> bool \<Rightarrow> 's \<times> stream_out list \<times> bool" where
  "and_pass fails h r = (case r of (s, out, e) \<Rightarrow> if e then (s, out, e) else (s, apfst ((@) out) (push_each fails [h])))"

definition LLMText_ProcessFrame ::
  "'a text_aggregator \<Rightarrow> (hop \<Rightarrow> bool) \<Rightarrow> frame \<Rightarrow> Direction \<Rightarrow> 'a llm_text \<Rightarrow> ('a llm_text \<times> stream_out list \<times> bool) go" where
  "LLMText_ProcessFrame A fails f d s =
    (let report = start_error ''llm text processor has no aggregator'' (lt_aggregatorErr s) f in
     go_bind
       (case body f of
          Sys InterruptionFrame \<Rightarrow> Inr (and_pass fails (f, d) (LLMText_Reset A s, [], False))
        | Txt (LLMTextFrame t) \<Rightarrow> LLMText_handleText A fails t s
        | Ctl (LLMFullResponseEndFrame skip) \<Rightarrow> Inr (and_pass fails (f, d) (LLMText_flush A fails skip s))
        | Ctl (EndFrame r) \<Rightarrow> Inr (and_pass fails (f, d) (LLMText_flush A fails None s))
        | _ \<Rightarrow> Inr (and_pass fails (f, d) (s, [], False)))
       (\<lambda>(s, out, e). Inr (s, report @ out, e)))"

fun llm_text_run ::
  "'a text_aggregator \<Rightarrow> hop list \<Rightarrow> 'a llm_text \<Rightarrow> ('a llm_text \<times> stream_out list) go" where
  "llm_text_run A [] s = Inr (s, [])"
| "llm_text_run A ((f, d) # hs) s =
    go_bind (LLMText_ProcessFrame A (\<lambda>h. False) f d s) (\<lambda>(s, out, e).
      go_bind (llm_text_run A hs s) (\<lambda>(s, out'). Inr (s, out @ out')))"

text \<open>The text of the units among the frames handed over.\<close>

fun unit_text :: "frame_body \<Rightarrow> string" where
  "unit_text (Txt (AggregatedTextFrame t raw x)) = fText t"
| "unit_text _ = []"

definition units_text :: "hop list \<Rightarrow> string" where
  "units_text hs = concat (map (\<lambda>h. unit_text (body (fst h))) hs)"

lemma units_text_simps [simp]:
  "units_text [] = []" "units_text (h # hs) = unit_text (body (fst h)) @ units_text hs"
  "units_text (hs @ hs') = units_text hs @ units_text hs'"
  by (simp_all add: units_text_def)

lemma push_units_sent:
  "push_units (\<lambda>h. False) skip us s = (s', out, e) \<Longrightarrow>
    units_text (sent_hops out) = texts us \<and> lt_aggregator s' = lt_aggregator s \<and> \<not> e"
proof (induction us arbitrary: s out)
  case (Cons u us)
  then show ?case
    by (auto simp: unit_frame_def NewBaseFrame_def nextID_def texts_def split: prod.splits)
qed simp

lemma LLMText_flush_sent:
  assumes "lt_aggregator s = Some a" and "ta_Flush A a = (b, u)"
  shows "\<exists>s' out. LLMText_flush A (\<lambda>h. False) skip s = (s', out, False) \<and> lt_aggregator s' = Some b \<and>
    units_text (sent_hops out) = flushed u"
proof (cases u)
  case None
  then show ?thesis using assms by (simp add: LLMText_flush_def flushed_def)
next
  case (Some v)
  obtain s' out e where p: "push_units (\<lambda>h. False) skip [v] (s\<lparr>lt_aggregator := Some b\<rparr>) = (s', out, e)"
    by (cases "push_units (\<lambda>h. False) skip [v] (s\<lparr>lt_aggregator := Some b\<rparr>)") auto
  have "LLMText_flush A (\<lambda>h. False) skip s = push_units (\<lambda>h. False) skip [v] (s\<lparr>lt_aggregator := Some b\<rparr>)"
    using Some assms by (simp add: LLMText_flush_def del: push_units.simps)
  with p push_units_sent [OF p] Some show ?thesis by (auto simp: flushed_def simp del: push_units.simps)
qed

lemma llm_text_run_append:
  "llm_text_run A (xs @ ys) s = go_bind (llm_text_run A xs s) (\<lambda>(s, out).
    go_bind (llm_text_run A ys s) (\<lambda>(s, out'). Inr (s, out @ out')))"
proof (induction A xs s rule: llm_text_run.induct)
  case (1 A s)
  show ?case by (cases "llm_text_run A ys s") auto
next
  case (2 A f d hs s)
  then show ?case by (cases "LLMText_ProcessFrame A (\<lambda>h. False) f d s") (auto simp: go_bind_assoc case_prod_unfold)
qed

text \<open>
  What a client relies on from an aggregator: no call panics, and units and what is held are together the text
  that came, up to what a normal form (\<open>norm\<close>) forgets.
\<close>

locale conserving_aggregator =
  fixes A :: "'a text_aggregator" and norm :: "string \<Rightarrow> string" and held :: "'a \<Rightarrow> string" and invar :: "'a \<Rightarrow> bool"
  assumes norm_append: "norm (s @ t) = norm s @ norm t"
    and aggregate: "invar a \<Longrightarrow> \<exists>b us. ta_Aggregate A s a = Inr (b, us) \<and> invar b \<and>
      norm (texts us) @ norm (held b) = norm (held a) @ norm s"
    and flush: "invar a \<Longrightarrow> ta_Flush A a = (b, u) \<Longrightarrow> invar b \<and> norm (flushed u) = norm (held a) \<and> norm (held b) = []"
    and reset: "invar a \<Longrightarrow> invar (ta_Reset A a) \<and> norm (held (ta_Reset A a)) = []"
begin

lemma norm_Nil: "norm [] = []"
  using norm_append [of "[]" "[]"] by simp

lemma text_step:
  assumes "lt_aggregator s = Some a" and "invar a" and "body f = Txt (LLMTextFrame t)"
  shows "\<exists>s' b out. LLMText_ProcessFrame A (\<lambda>h. False) f d s = Inr (s', out, False) \<and>
    lt_aggregator s' = Some b \<and> invar b \<and>
    norm (units_text (sent_hops out)) @ norm (held b) = norm (held a) @ norm (fText t)"
proof -
  obtain b us where b: "ta_Aggregate A (fText t) a = Inr (b, us)" "invar b"
      "norm (texts us) @ norm (held b) = norm (held a) @ norm (fText t)" using aggregate [OF assms(2)] by blast
  obtain s' out e where p: "push_units (\<lambda>h. False) (fSkipTTS t) us (s\<lparr>lt_aggregator := Some b\<rparr>) = (s', out, e)"
    by (cases "push_units (\<lambda>h. False) (fSkipTTS t) us (s\<lparr>lt_aggregator := Some b\<rparr>)") auto
  have "start_error m (lt_aggregatorErr s) f = []" for m using assms(3)
    by (simp add: start_error_def isStartFrame_def split: option.split)
  then show ?thesis using assms b p push_units_sent [OF p]
    by (auto simp: LLMText_ProcessFrame_def LLMText_handleText_def Let_def)
qed

lemma texts_run:
  assumes "lt_aggregator s = Some a" and "invar a" and "list_all (\<lambda>(f, t). body f = Txt (LLMTextFrame t)) fts"
  shows "\<exists>s' b out. llm_text_run A (map (\<lambda>(f, t). (f, d)) fts) s = Inr (s', out) \<and>
    lt_aggregator s' = Some b \<and> invar b \<and>
    norm (units_text (sent_hops out)) @ norm (held b) = norm (held a) @ norm (concat (map (\<lambda>ft. fText (snd ft)) fts))"
  using assms
proof (induction fts arbitrary: s a)
  case (Cons ft fts)
  obtain f t where ft: "ft = (f, t)" by (cases ft)
  obtain s1 b out where 1: "LLMText_ProcessFrame A (\<lambda>h. False) f d s = Inr (s1, out, False)"
      "lt_aggregator s1 = Some b" "invar b"
      "norm (units_text (sent_hops out)) @ norm (held b) = norm (held a) @ norm (fText t)"
    using text_step [OF Cons.prems(1,2), of f t d] Cons.prems(3) ft by auto
  obtain s2 b2 out2 where 2: "llm_text_run A (map (\<lambda>(f, t). (f, d)) fts) s1 = Inr (s2, out2)"
      "lt_aggregator s2 = Some b2" "invar b2"
      "norm (units_text (sent_hops out2)) @ norm (held b2) = norm (held b) @ norm (concat (map (\<lambda>ft. fText (snd ft)) fts))"
    using Cons.IH [OF 1(2,3)] Cons.prems(3) by auto
  from 1 2 have "norm (units_text (sent_hops (out @ out2))) @ norm (held b2) =
      norm (held a) @ norm (concat (map (\<lambda>ft. fText (snd ft)) (ft # fts)))"
    using ft by (simp add: norm_append norm_Nil)
  with 1 2 ft show ?case by simp
qed (simp add: norm_Nil)

text \<open>From an aggregator holding nothing, a response goes out whole, and nothing is held after its end.\<close>

lemma response_run:
  assumes "lt_aggregator s = Some a" and "invar a" and "norm (held a) = []"
    and "list_all (\<lambda>(f, t). body f = Txt (LLMTextFrame t)) fts" and "body g = Ctl (LLMFullResponseEndFrame skip)"
  shows "\<exists>s' b out. llm_text_run A (map (\<lambda>(f, t). (f, d)) fts @ [(g, d)]) s = Inr (s', out) \<and>
    lt_aggregator s' = Some b \<and> norm (held b) = [] \<and> last out = StPushed g d \<and>
    norm (units_text (sent_hops out)) = norm (concat (map (\<lambda>ft. fText (snd ft)) fts))"
proof -
  obtain s1 b out where 1: "llm_text_run A (map (\<lambda>(f, t). (f, d)) fts) s = Inr (s1, out)"
      "lt_aggregator s1 = Some b" "invar b"
      "norm (units_text (sent_hops out)) @ norm (held b) = norm (concat (map (\<lambda>ft. fText (snd ft)) fts))"
    using texts_run [OF assms(1,2,4), of d] assms(3) by auto
  obtain b2 u where u: "ta_Flush A b = (b2, u)" by (cases "ta_Flush A b")
  note fl = flush [OF 1(3) u]
  obtain s2 out2 where p: "LLMText_flush A (\<lambda>h. False) skip s1 = (s2, out2, False)" "lt_aggregator s2 = Some b2"
      "units_text (sent_hops out2) = flushed u"
    using LLMText_flush_sent [OF 1(2) u] by blast
  have e: "start_error m (lt_aggregatorErr s1) g = []" for m using assms(5)
    by (simp add: start_error_def isStartFrame_def split: option.split)
  have last_step: "LLMText_ProcessFrame A (\<lambda>h. False) g d s1 = Inr (s2, out2 @ [StPushed g d], False)"
    using assms(5) p(1) e by (simp add: LLMText_ProcessFrame_def Let_def and_pass_def st_push_def)
  have "llm_text_run A (map (\<lambda>(f, t). (f, d)) fts @ [(g, d)]) s = Inr (s2, out @ out2 @ [StPushed g d])"
    by (simp add: llm_text_run_append 1(1) last_step)
  moreover have "norm (units_text (sent_hops (out @ out2 @ [StPushed g d]))) = norm (concat (map (\<lambda>ft. fText (snd ft)) fts))"
    using 1(4) p(3) fl assms(5) by (simp add: norm_append norm_Nil)
  ultimately show ?thesis using p(2) fl by simp
qed

end

text \<open>The sentence aggregator forgets only the blanks around a sentence; the token aggregators forget nothing.\<close>

definition simple_aggregator :: "(string \<Rightarrow> nat) \<Rightarrow> aggregator text_aggregator" where
  "simple_aggregator tok = \<lparr>ta_Aggregate = Aggregate_simple tok, ta_Flush = Flush_simple, ta_Reset = Reset_simple\<rparr>"

definition skip_aggregator :: "(string \<Rightarrow> nat) \<Rightarrow> skipTags text_aggregator" where
  "skip_aggregator tok = \<lparr>ta_Aggregate = Aggregate_skip tok, ta_Flush = Flush_skip, ta_Reset = Reset_skip\<rparr>"

interpretation tokens: conserving_aggregator "simple_aggregator tok" "\<lambda>s. s" buffer
    "\<lambda>a. aggregationType a = AggregationToken \<and> buffer a = []" for tok
proof unfold_locales
  fix a :: aggregator and s
  assume "aggregationType a = AggregationToken \<and> buffer a = []"
  then show "\<exists>b us. ta_Aggregate (simple_aggregator tok) s a = Inr (b, us) \<and>
      (aggregationType b = AggregationToken \<and> buffer b = []) \<and> texts us @ buffer b = buffer a @ s"
    by (auto simp: simple_aggregator_def Aggregate_simple_def)
qed (simp_all add: simple_aggregator_def Flush_simple_def Reset_simple_def flushed_def split: if_splits option.splits)

lemma simple_sentences:
  assumes "\<forall>s. tok s \<le> length s"
  shows "conserving_aggregator (simple_aggregator tok) despace buffer (\<lambda>a. aggregationType a = AggregationSentence)"
proof unfold_locales
  fix a :: aggregator and s
  assume "aggregationType a = AggregationSentence"
  then show "\<exists>b us. ta_Aggregate (simple_aggregator tok) s a = Inr (b, us) \<and> aggregationType b = AggregationSentence \<and>
      despace (texts us) @ despace (buffer b) = despace (buffer a) @ despace s"
    using aggregate_runes_ok [OF assms, of s a] by (auto simp: simple_aggregator_def Aggregate_simple_def)
qed (auto simp: simple_aggregator_def Flush_simple_def Reset_simple_def flushed_def split: if_splits option.splits)

interpretation tagged_tokens: conserving_aggregator "skip_aggregator tok" "\<lambda>s. s" buffer
    "\<lambda>a. scan_ok a \<and> aggregationType a = AggregationToken" for tok
proof unfold_locales
  fix a :: skipTags and s
  assume "scan_ok a \<and> aggregationType a = AggregationToken"
  then show "\<exists>b us. ta_Aggregate (skip_aggregator tok) s a = Inr (b, us) \<and>
      (scan_ok b \<and> aggregationType b = AggregationToken) \<and> texts us @ buffer b = buffer a @ s"
    using Aggregate_skip_token [of a tok s] by (auto simp: skip_aggregator_def)
qed (auto simp: skip_aggregator_def Flush_skip_def Reset_skip_def Reset_simple_def clearTags_def flushed_def scan_ok_def
    split: if_splits)

text \<open>
  A model's response comes out whole: the units made of it are, up to the blanks around sentences, the text
  of its tokens, they have all been sent when the end of the response is passed on, and nothing of it is left
  over for the next response.
\<close>

lemma response_sent_whole:
  assumes "\<forall>s. tok s \<le> length s" and "list_all (\<lambda>(f, t). body f = Txt (LLMTextFrame t)) fts"
    and "body g = Ctl (LLMFullResponseEndFrame skip)"
  shows "\<exists>s b out. llm_text_run (simple_aggregator tok) (map (\<lambda>(f, t). (f, d)) fts @ [(g, d)])
      (NewLLMTextWith (NewSimpleAggregator AggregationSentence) c) = Inr (s, out) \<and>
    lt_aggregator s = Some b \<and> despace (buffer b) = [] \<and> last out = StPushed g d \<and>
    despace (units_text (sent_hops out)) = despace (concat (map (\<lambda>ft. fText (snd ft)) fts))"
  by (rule conserving_aggregator.response_run [OF simple_sentences [OF assms(1)] _ _ _ assms(2,3)])
    (auto simp: NewLLMTextWith_def NewLLMText_def NewSimpleAggregator_def)

lemma response_sent_whole_witness:
  "\<exists>s b out. llm_text_run (simple_aggregator (past_period 0))
      (map (\<lambda>(f, t). (f, Downstream)) [(fst (NewBaseFrame ''LLMTextFrame''
         (Txt (LLMTextFrame \<lparr>fText = ''Yes. No'', fSkipTTS = None, fInterFrameSpaces = True, fAppendToContext = True\<rparr>)) 0),
         \<lparr>fText = ''Yes. No'', fSkipTTS = None, fInterFrameSpaces = True, fAppendToContext = True\<rparr>)] @
       [(fst (NewBaseFrame ''LLMFullResponseEndFrame'' (Ctl (LLMFullResponseEndFrame None)) 1), Downstream)])
      (NewLLMTextWith (NewSimpleAggregator AggregationSentence) 2) = Inr (s, out) \<and>
    lt_aggregator s = Some b \<and> despace (buffer b) = [] \<and>
    last out = StPushed (fst (NewBaseFrame ''LLMFullResponseEndFrame'' (Ctl (LLMFullResponseEndFrame None)) 1)) Downstream \<and>
    despace (units_text (sent_hops out)) = despace (concat (map (\<lambda>ft. fText (snd ft))
      [(fst (NewBaseFrame ''LLMTextFrame''
         (Txt (LLMTextFrame \<lparr>fText = ''Yes. No'', fSkipTTS = None, fInterFrameSpaces = True, fAppendToContext = True\<rparr>)) 0),
         \<lparr>fText = ''Yes. No'', fSkipTTS = None, fInterFrameSpaces = True, fAppendToContext = True\<rparr>)]))"
  by (rule response_sent_whole [where skip = None]) (auto intro: past_period_le [of 0, simplified])

text \<open>An interruption drops what was gathered and passes the interruption on.\<close>

lemma interruption_resets:
  assumes "body f = Sys InterruptionFrame"
  shows "LLMText_ProcessFrame A (\<lambda>h. False) f d s = Inr (LLMText_Reset A s, [StPushed f d], False)"
  using assms by (auto simp: LLMText_ProcessFrame_def and_pass_def st_push_def start_error_def isStartFrame_def Let_def split: option.split)

text \<open>With tagged runs kept whole and tokens passed on, a response comes out character for character.\<close>

lemma tagged_response_sent_whole:
  assumes "list_all (\<lambda>(f, t). body f = Txt (LLMTextFrame t)) fts" and "body g = Ctl (LLMFullResponseEndFrame skip)"
  shows "\<exists>s b out. llm_text_run (skip_aggregator tok) (map (\<lambda>(f, t). (f, d)) fts @ [(g, d)])
      (NewLLMTextWith (NewSkipTagsAggregator AggregationToken pairs) c) = Inr (s, out) \<and>
    lt_aggregator s = Some b \<and> buffer b = [] \<and> last out = StPushed g d \<and>
    units_text (sent_hops out) = concat (map (\<lambda>ft. fText (snd ft)) fts)"
  by (rule tagged_tokens.response_run [OF _ _ _ assms])
    (auto simp: NewLLMTextWith_def NewLLMText_def NewSkipTagsAggregator_def scan_ok_def)

section \<open>Whole responses (fullresponse.go)\<close>

record full_response =
  fr_aggregation :: string
  fr_started :: bool

definition NewFullResponse :: full_response where
  "NewFullResponse = \<lparr>fr_aggregation = [], fr_started = False\<rparr>"

definition fr_report :: "bool \<Rightarrow> full_response \<Rightarrow> full_response \<times> stream_out list" where
  "fr_report completed a = (a\<lparr>fr_aggregation := [], fr_started := False\<rparr>, [StCompletion (fr_aggregation a) completed])"

definition FullResponse_ProcessFrame ::
  "(hop \<Rightarrow> bool) \<Rightarrow> frame \<Rightarrow> Direction \<Rightarrow> full_response \<Rightarrow> full_response \<times> stream_out list \<times> bool" where
  "FullResponse_ProcessFrame fails f d a =
    (case (case body f of
             Sys InterruptionFrame \<Rightarrow> fr_report False a
           | Ctl (LLMFullResponseStartFrame skip) \<Rightarrow> (a\<lparr>fr_started := True\<rparr>, [])
           | Ctl (LLMFullResponseEndFrame skip) \<Rightarrow> fr_report True a
           | Txt (LLMTextFrame t) \<Rightarrow>
               (if fr_started a then a\<lparr>fr_aggregation := fr_aggregation a @ fText t\<rparr> else a, [])
           | _ \<Rightarrow> (a, [])) of
       (a, out) \<Rightarrow> (a, apfst ((@) out) (push_each fails [(f, d)])))"

fun model_text :: "frame_body \<Rightarrow> string" where
  "model_text (Txt (LLMTextFrame t)) = fText t"
| "model_text _ = []"

fun ends_response :: "frame_body \<Rightarrow> bool" where
  "ends_response (Sys InterruptionFrame) = True"
| "ends_response (Ctl (LLMFullResponseEndFrame skip)) = True"
| "ends_response _ = False"

fun is_completion :: "stream_out \<Rightarrow> bool" where
  "is_completion (StCompletion t b) = True"
| "is_completion _ = False"

definition fr_ok :: "full_response \<Rightarrow> bool" where
  "fr_ok a \<longleftrightarrow> (fr_started a \<or> fr_aggregation a = [])"

lemma fr_step:
  assumes "FullResponse_ProcessFrame (\<lambda>h. False) f d a = (a', out, e)"
  shows "fr_ok a \<Longrightarrow> fr_ok a'" and "sent_hops out = [(f, d)]"
    and "\<not> ends_response (body f) \<Longrightarrow> fr_started a \<Longrightarrow>
      a' = a\<lparr>fr_aggregation := fr_aggregation a @ model_text (body f)\<rparr> \<and> filter is_completion out = []"
  using assms
  by (auto simp: FullResponse_ProcessFrame_def fr_report_def fr_ok_def st_push_def
      split: frame_body.splits system_go.splits control_go.splits text_go.splits if_splits)

lemma fr_run:
  assumes "stream_run (FullResponse_ProcessFrame (\<lambda>h. False)) hs a = (a', out)"
  shows "sent_hops out = hs \<and> (fr_ok a \<longrightarrow> fr_ok a')"
  using assms
proof (induction hs arbitrary: a out)
  case (Cons h hs)
  obtain f d where h: "h = (f, d)" by (cases h)
  obtain a1 o1 e where 1: "FullResponse_ProcessFrame (\<lambda>h. False) f d a = (a1, o1, e)"
    by (cases "FullResponse_ProcessFrame (\<lambda>h. False) f d a") auto
  with Cons.prems h obtain o2 where "stream_run (FullResponse_ProcessFrame (\<lambda>h. False)) hs a1 = (a', o2)" "out = o1 @ o2"
    by (auto split: prod.splits)
  with Cons.IH fr_step(1,2) [OF 1] h show ?case by auto
qed simp

lemma fr_gather:
  assumes "list_all (\<lambda>h. \<not> ends_response (body (fst h))) hs" and "fr_started a"
  shows "\<exists>out. stream_run (FullResponse_ProcessFrame (\<lambda>h. False)) hs a =
      (a\<lparr>fr_aggregation := fr_aggregation a @ concat (map (\<lambda>h. model_text (body (fst h))) hs)\<rparr>, out) \<and>
    filter is_completion out = []"
  using assms
proof (induction hs arbitrary: a)
  case (Cons h hs)
  obtain f d where h: "h = (f, d)" by (cases h)
  obtain a1 o1 e where 1: "FullResponse_ProcessFrame (\<lambda>h. False) f d a = (a1, o1, e)"
    by (cases "FullResponse_ProcessFrame (\<lambda>h. False) f d a") auto
  note a1 = fr_step(3) [OF 1]
  with Cons.prems h have "fr_started a1" by auto
  with Cons.IH [of a1] Cons.prems a1 h 1 show ?case by auto
qed simp

text \<open>
  A response is reported once and whole: after whatever came before, a response that starts while none is
  open raises one completion, at its end or at the interruption that cuts it off, with the text the model
  wrote in between, marked finished exactly when its end arrived; every frame is passed on in order.
\<close>

lemma response_reported:
  assumes "stream_run (FullResponse_ProcessFrame (\<lambda>h. False)) before NewFullResponse = (a, out)" and "\<not> fr_started a"
    and "body s = Ctl (LLMFullResponseStartFrame skip)"
    and "list_all (\<lambda>h. \<not> ends_response (body (fst h))) hs" and "ends_response (body z)"
  shows "case stream_run (FullResponse_ProcessFrame (\<lambda>h. False)) ((s, d) # hs @ [(z, d')]) a of (a', out') \<Rightarrow>
    filter is_completion out' =
      [StCompletion (concat (map (\<lambda>h. model_text (body (fst h))) hs)) (body z \<noteq> Sys InterruptionFrame)] \<and>
    sent_hops out' = (s, d) # hs @ [(z, d')]"
proof -
  define a1 where "a1 = a\<lparr>fr_started := True\<rparr>"
  have "fr_ok a" using fr_run [OF assms(1)] by (simp add: fr_ok_def NewFullResponse_def)
  then have e: "fr_aggregation a1 = []" using assms(2) by (simp add: fr_ok_def a1_def)
  have 1: "FullResponse_ProcessFrame (\<lambda>h. False) s d a = (a1, [StPushed s d], False)"
    using assms(3) by (simp add: FullResponse_ProcessFrame_def a1_def st_push_def)
  obtain o2 where 2: "stream_run (FullResponse_ProcessFrame (\<lambda>h. False)) hs a1 =
      (a1\<lparr>fr_aggregation := concat (map (\<lambda>h. model_text (body (fst h))) hs)\<rparr>, o2)" "filter is_completion o2 = []"
    using fr_gather [OF assms(4), of a1] e by (auto simp: a1_def)
  have 3: "FullResponse_ProcessFrame (\<lambda>h. False) z d' b =
      (b\<lparr>fr_aggregation := [], fr_started := False\<rparr>,
       [StCompletion (fr_aggregation b) (body z \<noteq> Sys InterruptionFrame), StPushed z d'], False)" for b
    using assms(5) by (auto simp: FullResponse_ProcessFrame_def fr_report_def st_push_def
        elim: ends_response.elims)
  have "sent_hops (snd (stream_run (FullResponse_ProcessFrame (\<lambda>h. False)) ((s, d) # hs @ [(z, d')]) a)) =
      (s, d) # hs @ [(z, d')]"
    using fr_run [OF surjective_pairing] by blast
  with 1 2 3 show ?thesis by (simp add: stream_run_append)
qed

lemma response_reported_witness:
  "let t = \<lparr>fText = ''hi'', fSkipTTS = None, fInterFrameSpaces = True, fAppendToContext = True\<rparr>;
       s = fst (NewBaseFrame ''LLMFullResponseStartFrame'' (Ctl (LLMFullResponseStartFrame None)) 0);
       f = fst (NewBaseFrame ''LLMTextFrame'' (Txt (LLMTextFrame t)) 1);
       z = fst (NewBaseFrame ''InterruptionFrame'' (Sys InterruptionFrame) 2)
   in case stream_run (FullResponse_ProcessFrame (\<lambda>h. False)) ((s, Downstream) # [(f, Downstream)] @ [(z, Downstream)])
            NewFullResponse of (a', out') \<Rightarrow>
        filter is_completion out' = [StCompletion (concat (map (\<lambda>h. model_text (body (fst h))) [(f, Downstream)]))
          (body z \<noteq> Sys InterruptionFrame)] \<and>
        sent_hops out' = (s, Downstream) # [(f, Downstream)] @ [(z, Downstream)]"
  unfolding Let_def
  by (rule response_reported [where before = "[]" and out = "[]" and skip = None])
    (simp_all add: NewFullResponse_def)

text \<open>An interruption between responses is reported too, with no text.\<close>

lemma idle_interruption_reported:
  assumes "fr_ok a" and "\<not> fr_started a" and "body f = Sys InterruptionFrame"
  shows "FullResponse_ProcessFrame (\<lambda>h. False) f d a = (a, [StCompletion [] False, StPushed f d], False)"
  using assms by (cases a) (simp add: FullResponse_ProcessFrame_def fr_report_def fr_ok_def st_push_def)

section \<open>Processors that rewrite a frame\<close>

definition TextTransformer_ProcessFrame ::
  "(string \<Rightarrow> string) \<Rightarrow> (hop \<Rightarrow> bool) \<Rightarrow> frame \<Rightarrow> Direction \<Rightarrow> u64 \<Rightarrow> u64 \<times> stream_out list \<times> bool" where
  "TextTransformer_ProcessFrame transform fails f d c =
    (case body f of
       Txt (TextFrame t) \<Rightarrow>
         (case NewBaseFrame ''TextFrame'' (Txt (NewTextFrame (transform (fText t)))) c of
            (g, c) \<Rightarrow> (c, push_each fails [(g, Downstream)]))
     | _ \<Rightarrow> (c, push_each fails [(f, d)]))"

text \<open>The audio of a frame that carries any, rewritten in place.\<close>

fun map_data :: "(bytes \<Rightarrow> bytes) \<Rightarrow> audio_go \<Rightarrow> audio_go" where
  "map_data h (InputAudioRawFrame a) = InputAudioRawFrame (a\<lparr>Audio := h (Audio a)\<rparr>)"
| "map_data h (OutputAudioRawFrame a) = OutputAudioRawFrame (a\<lparr>Audio := h (Audio a)\<rparr>)"
| "map_data h (TTSAudioRawFrame a x) = TTSAudioRawFrame (a\<lparr>Audio := h (Audio a)\<rparr>) x"
| "map_data h (SpeechOutputAudioRawFrame a) = SpeechOutputAudioRawFrame (a\<lparr>Audio := h (Audio a)\<rparr>)"
| "map_data h (UserAudioRawFrame a u) = UserAudioRawFrame (a\<lparr>Audio := h (Audio a)\<rparr>) u"

definition map_audio :: "(bytes \<Rightarrow> bytes) \<Rightarrow> frame \<Rightarrow> frame" where
  "map_audio h f = (case body f of Aud a \<Rightarrow> f\<lparr>body := Aud (map_data h a)\<rparr> | _ \<Rightarrow> f)"

definition AudioMute_ProcessFrame ::
  "(hop \<Rightarrow> bool) \<Rightarrow> frame \<Rightarrow> Direction \<Rightarrow> bool \<Rightarrow> bool \<times> stream_out list \<times> bool" where
  "AudioMute_ProcessFrame fails f d muted =
    (muted, push_each fails
      [(if muted then map_audio (\<lambda>a. if length a > 0 then replicate (length a) 0 else a) f else f, d)])"

definition AudioDCBlock_ProcessFrame ::
  "(hop \<Rightarrow> bool) \<Rightarrow> frame \<Rightarrow> Direction \<Rightarrow> unit \<Rightarrow> unit \<times> stream_out list \<times> bool" where
  "AudioDCBlock_ProcessFrame fails f d s = (s, push_each fails [(map_audio RemoveDCOffset f, d)])"

text \<open>The limiter and the normalizer call functions of the audio package that the sources do not contain; each is a parameter.\<close>

definition AudioClamp_ProcessFrame ::
  "(bytes \<Rightarrow> int \<Rightarrow> bytes) \<Rightarrow> (hop \<Rightarrow> bool) \<Rightarrow> frame \<Rightarrow> Direction \<Rightarrow> int \<Rightarrow> int \<times> stream_out list \<times> bool" where
  "AudioClamp_ProcessFrame Clamp fails f d maxAbs = (maxAbs, push_each fails [(map_audio (\<lambda>a. Clamp a maxAbs) f, d)])"

definition AudioNormalize_ProcessFrame ::
  "(bytes \<Rightarrow> int \<Rightarrow> bytes) \<Rightarrow> (hop \<Rightarrow> bool) \<Rightarrow> frame \<Rightarrow> Direction \<Rightarrow> int \<Rightarrow> int \<times> stream_out list \<times> bool" where
  "AudioNormalize_ProcessFrame PeakNormalize fails f d target =
    (target, push_each fails [(map_audio (\<lambda>a. PeakNormalize a target) f, d)])"

fun audio_of :: "frame_body \<Rightarrow> bytes" where
  "audio_of (Aud (InputAudioRawFrame a)) = Audio a"
| "audio_of (Aud (OutputAudioRawFrame a)) = Audio a"
| "audio_of (Aud (TTSAudioRawFrame a x)) = Audio a"
| "audio_of (Aud (SpeechOutputAudioRawFrame a)) = Audio a"
| "audio_of (Aud (UserAudioRawFrame a u)) = Audio a"
| "audio_of _ = []"

text \<open>A muted stream keeps every frame, its category and the length of its audio, and carries nothing but silence.\<close>

lemma audio_of_map: "audio_of (body (map_audio h f)) = (case body f of Aud a \<Rightarrow> h (audio_of (body f)) | _ \<Rightarrow> audio_of (body f))"
proof (cases "body f")
  case (Aud a)
  then show ?thesis by (cases a) (simp_all add: map_audio_def)
qed (simp_all add: map_audio_def)

lemma category_map_audio: "frame_category (map_audio h f) = frame_category f"
proof (cases "body f")
  case (Aud a)
  then show ?thesis by (cases a) (simp_all add: map_audio_def frame_category_def)
qed (simp_all add: map_audio_def frame_category_def)

lemma muted_frame:
  obtains g where "AudioMute_ProcessFrame (\<lambda>h. False) f d True = (True, [StPushed g d], False)"
    and "frame_category g = frame_category f" and "length (audio_of (body g)) = length (audio_of (body f))"
    and "set (audio_of (body g)) \<subseteq> {0}"
proof
  define g where "g = map_audio (\<lambda>a. if length a > 0 then replicate (length a) 0 else a) f"
  show "AudioMute_ProcessFrame (\<lambda>h. False) f d True = (True, [StPushed g d], False)"
    by (simp add: AudioMute_ProcessFrame_def g_def st_push_def)
  show "frame_category g = frame_category f" by (simp add: g_def category_map_audio)
  show "length (audio_of (body g)) = length (audio_of (body f))" and "set (audio_of (body g)) \<subseteq> {0}"
    by (auto simp: g_def audio_of_map split: frame_body.split if_splits)
qed

end
