(* ===== verification/Frame_Taps.thy ===== *)
theory Frame_Taps
  imports Stream_Aggregators Queue_Interface "HOL-Library.Sublist"
begin

text \<open>
  Processors with a goroutine or a timer of their own beside the frame path: the keypad aggregator
  (\<^verbatim>\<open>src/processor/dtmf/aggregator.go\<close>), the producer and its consumers
  (\<open>src/processor/producerconsumer.go\<close>), the gate on the conversation (\<open>src/processor/aggregators/gatedcontext.go\<close>)
  with its notifier (\<open>src/utils/notify/notify.go\<close>), and the idle clock (\<open>src/processor/idle.go\<close>).

  Each is a state and the events that change it. An event is one section of the code that runs under the
  component's lock or one access to a channel, so a sequence of events is an interleaving of its goroutines;
  an event whose goroutine is not there, or is blocked, changes nothing.
\<close>

fun run_events :: "('e \<Rightarrow> 's \<Rightarrow> 's) \<Rightarrow> 'e list \<Rightarrow> 's \<Rightarrow> 's" where
  "run_events step [] s = s"
| "run_events step (e # es) s = run_events step es (step e s)"

lemma run_events_append: "run_events step (xs @ ys) s = run_events step ys (run_events step xs s)"
  by (induction step xs s rule: run_events.induct) simp_all

text \<open>
  An invariant that speaks of the events so far, proved event by event.
\<close>

lemma run_events_invariant:
  assumes "P [] s" and "\<And>es e t. P es t \<Longrightarrow> P (es @ [e]) (step e t)"
  shows "P es (run_events step es s)"
  using assms by (induction es rule: rev_induct) (simp_all add: run_events_append)

section \<open>Keypad sequences (dtmf/aggregator.go)\<close>

fun key_text :: "KeypadEntry \<Rightarrow> string" where
  "key_text KeypadZero = ''0''" | "key_text KeypadOne = ''1''" | "key_text KeypadTwo = ''2''"
| "key_text KeypadThree = ''3''" | "key_text KeypadFour = ''4''" | "key_text KeypadFive = ''5''"
| "key_text KeypadSix = ''6''" | "key_text KeypadSeven = ''7''" | "key_text KeypadEight = ''8''"
| "key_text KeypadNine = ''9''" | "key_text KeypadStar = ''*''" | "key_text KeypadPound = ''#''"
| "key_text KeypadA = ''A''" | "key_text KeypadB = ''B''" | "key_text KeypadC = ''C''" | "key_text KeypadD = ''D''"

text \<open>
  \<open>dt_armed\<close> are the timers that run, \<open>dt_fired\<close> those that ran out and whose callback waits for the lock.
  \<open>dt_taken\<close> are the texts taken from the buffer, in the order the lock was held, and \<open>dt_flight\<close> those of them
  not yet emitted.
\<close>

record dtmf_agg =
  dt_Terminator :: KeypadEntry
  dt_Timeout :: duration
  dt_Prefix :: string
  dt_buf :: string
  dt_timer :: "nat option"
  dt_next :: nat
  dt_armed :: "nat list"
  dt_fired :: "nat list"
  dt_taken :: "string list"
  dt_flight :: "string list"
  dt_passed :: "KeypadEntry list"
  dt_sent :: "text_go list"

definition NewAggregator_dtmf :: "KeypadEntry option \<Rightarrow> duration \<Rightarrow> string \<Rightarrow> dtmf_agg" where
  "NewAggregator_dtmf term timeout pre =
    \<lparr>dt_Terminator = (case term of None \<Rightarrow> KeypadPound | Some k \<Rightarrow> k), dt_Timeout = timeout, dt_Prefix = pre,
     dt_buf = [], dt_timer = None, dt_next = 0, dt_armed = [], dt_fired = [], dt_taken = [], dt_flight = [],
     dt_passed = [], dt_sent = []\<rparr>"

definition dt_stopTimer :: "dtmf_agg \<Rightarrow> dtmf_agg" where
  "dt_stopTimer a =
    (case dt_timer a of
       None \<Rightarrow> a
     | Some i \<Rightarrow> a\<lparr>dt_armed := filter (\<lambda>j. j \<noteq> i) (dt_armed a), dt_timer := None\<rparr>)"

definition dt_take :: "dtmf_agg \<Rightarrow> dtmf_agg" where
  "dt_take a = a\<lparr>dt_buf := [], dt_taken := dt_taken a @ [dt_buf a], dt_flight := dt_flight a @ [dt_buf a]\<rparr>"

definition dt_armTimer :: "dtmf_agg \<Rightarrow> dtmf_agg" where
  "dt_armTimer a =
    (if dt_Timeout a \<le> 0 then a
     else let a = dt_stopTimer a in
       a\<lparr>dt_timer := Some (dt_next a), dt_armed := dt_armed a @ [dt_next a], dt_next := Suc (dt_next a)\<rparr>)"

definition dt_handle :: "KeypadEntry \<Rightarrow> dtmf_agg \<Rightarrow> dtmf_agg" where
  "dt_handle button a =
    (if button = dt_Terminator a then dt_stopTimer (dt_take a)
     else dt_armTimer (a\<lparr>dt_buf := dt_buf a @ key_text button\<rparr>))"

definition dt_callback :: "dtmf_agg \<Rightarrow> dtmf_agg" where
  "dt_callback a = (dt_take a)\<lparr>dt_timer := None\<rparr>"

definition dt_emit :: "string \<Rightarrow> dtmf_agg \<Rightarrow> dtmf_agg" where
  "dt_emit t a = (if t = [] then a else a\<lparr>dt_sent := dt_sent a @ [NewTranscriptionFrame (dt_Prefix a @ t) [] True]\<rparr>)"

datatype dt_event = DtKey KeypadEntry | DtFire nat | DtCallback nat | DtEmit nat | DtCleanup

fun drop_nth :: "nat \<Rightarrow> 'a list \<Rightarrow> 'a list" where
  "drop_nth i xs = take i xs @ drop (Suc i) xs"

fun dt_step :: "dt_event \<Rightarrow> dtmf_agg \<Rightarrow> dtmf_agg" where
  "dt_step (DtKey k) a = dt_handle k (a\<lparr>dt_passed := dt_passed a @ [k]\<rparr>)"
| "dt_step (DtFire i) a =
    (if i \<in> set (dt_armed a)
     then a\<lparr>dt_armed := filter (\<lambda>j. j \<noteq> i) (dt_armed a), dt_fired := dt_fired a @ [i]\<rparr> else a)"
| "dt_step (DtCallback i) a =
    (if i \<in> set (dt_fired a) then dt_callback (a\<lparr>dt_fired := filter (\<lambda>j. j \<noteq> i) (dt_fired a)\<rparr>) else a)"
| "dt_step (DtEmit i) a =
    (if i < length (dt_flight a) then dt_emit (dt_flight a ! i) (a\<lparr>dt_flight := drop_nth i (dt_flight a)\<rparr>) else a)"
| "dt_step DtCleanup a = dt_stopTimer a"

fun dt_keys :: "dt_event list \<Rightarrow> KeypadEntry list" where
  "dt_keys [] = []"
| "dt_keys (DtKey k # es) = k # dt_keys es"
| "dt_keys (_ # es) = dt_keys es"

lemma dt_keys_append [simp]: "dt_keys (xs @ ys) = dt_keys xs @ dt_keys ys"
  by (induction xs rule: dt_keys.induct) simp_all

lemma mset_drop_nth: "i < length xs \<Longrightarrow> add_mset (xs ! i) (mset (drop_nth i xs)) = mset xs"
  by (metis add_mset_add_single drop_nth.simps id_take_nth_drop mset_append mset.simps(2) union_mset_add_mset_right)

text \<open>What a text becomes when it is emitted.\<close>

definition dt_said :: "string \<Rightarrow> string list \<Rightarrow> text_go multiset" where
  "dt_said pre ts = mset (map (\<lambda>t. NewTranscriptionFrame (pre @ t) [] True) (filter (\<lambda>t. t \<noteq> []) ts))"

definition dt_ok :: "KeypadEntry \<Rightarrow> string \<Rightarrow> dt_event list \<Rightarrow> dtmf_agg \<Rightarrow> bool" where
  "dt_ok term pre es a \<longleftrightarrow> dt_Terminator a = term \<and> dt_Prefix a = pre \<and> dt_passed a = dt_keys es \<and>
    concat (dt_taken a) @ dt_buf a = concat (map key_text (filter (\<lambda>k. k \<noteq> term) (dt_keys es))) \<and>
    mset (dt_sent a) + dt_said pre (dt_flight a) = dt_said pre (dt_taken a)"

lemma dt_said_simps [simp]:
  "dt_said p [] = {#}" "dt_said p (ts @ us) = dt_said p ts + dt_said p us"
  "dt_said p [t] = (if t = [] then {#} else {#NewTranscriptionFrame (p @ t) [] True#})"
  by (simp_all add: dt_said_def)

lemma dt_said_mset: "mset ts = mset us \<Longrightarrow> dt_said p ts = dt_said p us"
  unfolding dt_said_def by (metis mset_filter mset_map)

lemma dt_said_drop: "i < length ts \<Longrightarrow> dt_said p (drop_nth i ts) + dt_said p [ts ! i] = dt_said p ts"
  using dt_said_mset [of "drop_nth i ts @ [ts ! i]" ts p] mset_drop_nth [of i ts]
  by (simp del: drop_nth.simps dt_said_simps(3))

lemma dt_step_ok: "dt_ok t p es a \<Longrightarrow> dt_ok t p (es @ [e]) (dt_step e a)"
proof (cases e)
  case (DtEmit i)
  assume "dt_ok t p es a"
  then show ?thesis using DtEmit dt_said_drop [of i "dt_flight a" p]
    by (auto simp: dt_ok_def dt_emit_def simp del: drop_nth.simps split: if_splits) (metis union_mset_add_mset_right)
qed (auto simp: dt_ok_def dt_handle_def dt_armTimer_def dt_stopTimer_def dt_take_def dt_callback_def Let_def ac_simps
    split: option.split)

text \<open>
  Every key lands in one sequence: whatever the timers do and however their callbacks fall between the
  keys, the texts taken from the buffer followed by what it still holds are the keys pressed, in order, less
  the terminators; every text taken is emitted at most once, and is emitted or on its way.
\<close>

lemma keys_conserved:
  "let a = run_events dt_step es (NewAggregator_dtmf term timeout pre) in
   concat (dt_taken a) @ dt_buf a = concat (map key_text (filter (\<lambda>k. k \<noteq> dt_Terminator a) (dt_keys es))) \<and>
   mset (dt_sent a) + dt_said pre (dt_flight a) = dt_said pre (dt_taken a)"
proof -
  have "dt_ok (dt_Terminator (NewAggregator_dtmf term timeout pre)) pre es
      (run_events dt_step es (NewAggregator_dtmf term timeout pre))"
    by (rule run_events_invariant [where P = "\<lambda>es a. dt_ok (dt_Terminator (NewAggregator_dtmf term timeout pre)) pre es a"])
      (simp add: dt_ok_def NewAggregator_dtmf_def, rule dt_step_ok)
  then show ?thesis by (auto simp: dt_ok_def Let_def)
qed

text \<open>
  A callback that waited for the lock while a key came in takes that key too and forgets the timer the key
  started. Nothing can stop that timer any more: it runs out on the next sequence, here one key after it began.
\<close>

lemma forgotten_timer_splits_sequence:
  "let a = run_events dt_step
        [DtKey KeypadFour, DtFire 0, DtKey KeypadFive, DtCallback 0, DtEmit 0, DtKey KeypadSix, DtFire 1, DtCallback 1]
        (NewAggregator_dtmf None 5 [])
   in dt_taken a = [''45'', ''6''] \<and> dt_armed a = [2]"
  by code_simp

section \<open>Producers and consumers (producerconsumer.go)\<close>

text \<open>
  The queue between them never blocks the producer: \<open>put\<close> appends, \<open>get\<close> takes the first frame, and a reader
  that finds nothing sleeps on the one-slot channel, which is the wake-up idiom of \<open>notify_queue\<close>.
\<close>

type_synonym frameQueue = "frame list"

definition fq_put :: "frame \<Rightarrow> frameQueue \<Rightarrow> frameQueue" where
  "fq_put f q = q @ [f]"

fun fq_get :: "frameQueue \<Rightarrow> (frame \<times> frameQueue) option" where
  "fq_get [] = None"
| "fq_get (f # q) = Some (f, q)"

interpretation tapq: notify_queue fq_put fq_get "\<lambda>q. q"
  by unfold_locales

interpretation tap_items: interruptible_queue fq_put fq_get "\<lambda>q. q" "\<lambda>q. q" "\<lambda>f. True" "\<lambda>q. True"
proof unfold_locales
  show "\<exists>ys zs. q = ys @ zs \<and> fq_put x q = ys @ x # zs" for q x
    by (rule exI [of _ q], rule exI [of _ "[]"]) (simp add: fq_put_def)
  show "(fq_get q = None) = (q = [])" for q by (cases q) simp_all
  show "fq_get q = Some (x, q') \<Longrightarrow> q = x # q'" for q x q' by (cases q) simp_all
qed simp_all

text \<open>
  A queue the producer registered, with the reader that serves it: how many frames had been produced when it
  was registered, what waits in it, what was read from it, and whether its reader still runs and was told to
  stop. A consumer has the queue of the reader it started last, until it stops it (its \<open>cancel\<close>).
\<close>

record tap_queue =
  tq_from :: nat
  tq_items :: frameQueue
  tq_read :: "frame list"
  tq_consumer :: nat
  tq_running :: bool
  tq_cancelled :: bool

record consumer =
  cs_transformer :: "frame \<Rightarrow> frame"
  cs_dir :: Direction
  cs_cancel :: "nat option"
  cs_stopping :: "hop list"

record taps =
  tp_filter :: "frame \<Rightarrow> bool"
  tp_transformer :: "frame \<Rightarrow> frame"
  tp_passthrough :: bool
  tp_produced :: "frame list"
  tp_queues :: "tap_queue list"
  tp_consumers :: "consumer list"
  tp_pushed :: "hop list"
  tp_queued :: "(nat \<times> hop) list"
  tp_passed :: "(nat \<times> hop) list"

definition NewProducer :: "(frame \<Rightarrow> bool) \<Rightarrow> (frame \<Rightarrow> frame) option \<Rightarrow> bool \<Rightarrow> ((frame \<Rightarrow> frame) option \<times> Direction) list \<Rightarrow> taps" where
  "NewProducer flt transformer pass cs =
    \<lparr>tp_filter = flt, tp_transformer = (case transformer of None \<Rightarrow> (\<lambda>f. f) | Some t \<Rightarrow> t), tp_passthrough = pass,
     tp_produced = [], tp_queues = [],
     tp_consumers = map (\<lambda>(t, d). \<lparr>cs_transformer = (case t of None \<Rightarrow> (\<lambda>f. f) | Some t \<Rightarrow> t), cs_dir = d, cs_cancel = None, cs_stopping = []\<rparr>) cs,
     tp_pushed = [], tp_queued = [], tp_passed = []\<rparr>"

definition tp_produce :: "frame \<Rightarrow> taps \<Rightarrow> taps" where
  "tp_produce f p =
    (let g = tp_transformer p f in
     p\<lparr>tp_produced := tp_produced p @ [g], tp_queues := map (\<lambda>q. q\<lparr>tq_items := fq_put g (tq_items q)\<rparr>) (tp_queues p)\<rparr>)"

definition Producer_ProcessFrame :: "frame \<Rightarrow> Direction \<Rightarrow> taps \<Rightarrow> taps" where
  "Producer_ProcessFrame f d p =
    (if tp_filter p f then
       let p = tp_produce f p in if \<not> tp_passthrough p then p else p\<lparr>tp_pushed := tp_pushed p @ [(f, d)]\<rparr>
     else p\<lparr>tp_pushed := tp_pushed p @ [(f, d)]\<rparr>)"

definition AddConsumer :: "nat \<Rightarrow> taps \<Rightarrow> nat \<times> taps" where
  "AddConsumer c p =
    (length (tp_queues p), p\<lparr>tp_queues := tp_queues p @
      [\<lparr>tq_from = length (tp_produced p), tq_items = [], tq_read = [], tq_consumer = c, tq_running = True, tq_cancelled = False\<rparr>]\<rparr>)"

definition cs_start :: "nat \<Rightarrow> taps \<Rightarrow> taps" where
  "cs_start c p =
    (if cs_cancel (tp_consumers p ! c) \<noteq> None then p
     else case AddConsumer c p of (q, p) \<Rightarrow>
       p\<lparr>tp_consumers := (tp_consumers p)[c := (tp_consumers p ! c)\<lparr>cs_cancel := Some q\<rparr>]\<rparr>)"

definition cs_stop :: "nat \<Rightarrow> taps \<Rightarrow> taps" where
  "cs_stop c p =
    (case cs_cancel (tp_consumers p ! c) of
       None \<Rightarrow> p
     | Some q \<Rightarrow> p\<lparr>tp_consumers := (tp_consumers p)[c := (tp_consumers p ! c)\<lparr>cs_cancel := None\<rparr>],
         tp_queues := (tp_queues p)[q := (tp_queues p ! q)\<lparr>tq_cancelled := True\<rparr>]\<rparr>)"

text \<open>
  The readers of a consumer that still run: \<open>stop\<close> waits until there are none, so the frame that stopped the
  consumer is kept (\<open>cs_stopping\<close>) and passed on by an event of its own, which has to wait for them.
\<close>

definition readers_of :: "nat \<Rightarrow> taps \<Rightarrow> bool" where
  "readers_of c p \<longleftrightarrow> list_ex (\<lambda>q. tq_consumer q = c \<and> tq_running q) (tp_queues p)"

fun stops :: "frame_body \<Rightarrow> bool" where
  "stops (Ctl (EndFrame r)) = True"
| "stops (Sys (CancelFrame r)) = True"
| "stops _ = False"

definition Consumer_ProcessFrame :: "nat \<Rightarrow> frame \<Rightarrow> Direction \<Rightarrow> taps \<Rightarrow> taps" where
  "Consumer_ProcessFrame c f d p =
    (if stops (body f) then
       let p = cs_stop c p in
       p\<lparr>tp_consumers := (tp_consumers p)[c := (tp_consumers p ! c)\<lparr>cs_stopping := cs_stopping (tp_consumers p ! c) @ [(f, d)]\<rparr>]\<rparr>
     else let p = (if isStartFrame f then cs_start c p else p) in p\<lparr>tp_passed := tp_passed p @ [(c, f, d)]\<rparr>)"

definition Consumer_stopped :: "nat \<Rightarrow> taps \<Rightarrow> taps" where
  "Consumer_stopped c p =
    (case cs_stopping (tp_consumers p ! c) of
       [] \<Rightarrow> p
     | h # hs \<Rightarrow>
         if readers_of c p then p
         else p\<lparr>tp_consumers := (tp_consumers p)[c := (tp_consumers p ! c)\<lparr>cs_stopping := hs\<rparr>],
                tp_passed := tp_passed p @ [(c, h)]\<rparr>)"

definition cs_consume :: "nat \<Rightarrow> taps \<Rightarrow> taps" where
  "cs_consume q p =
    (let t = tp_queues p ! q in
     if \<not> tq_running t then p
     else case fq_get (tq_items t) of
       Some (f, rest) \<Rightarrow>
         let c = tp_consumers p ! tq_consumer t in
         p\<lparr>tp_queues := (tp_queues p)[q := t\<lparr>tq_items := rest, tq_read := tq_read t @ [f]\<rparr>],
           tp_queued := tp_queued p @ [(tq_consumer t, cs_transformer c f, cs_dir c)]\<rparr>
     | None \<Rightarrow> if tq_cancelled t then p\<lparr>tp_queues := (tp_queues p)[q := t\<lparr>tq_running := False\<rparr>]\<rparr> else p)"

datatype tp_event =
    TpFrame frame Direction | TpConsumer nat frame Direction | TpStopped nat | TpCleanup nat | TpRead nat

fun tp_step :: "tp_event \<Rightarrow> taps \<Rightarrow> taps" where
  "tp_step (TpFrame f d) p = Producer_ProcessFrame f d p"
| "tp_step (TpConsumer c f d) p = (if c < length (tp_consumers p) then Consumer_ProcessFrame c f d p else p)"
| "tp_step (TpStopped c) p = (if c < length (tp_consumers p) then Consumer_stopped c p else p)"
| "tp_step (TpCleanup c) p = (if c < length (tp_consumers p) then cs_stop c p else p)"
| "tp_step (TpRead q) p = (if q < length (tp_queues p) then cs_consume q p else p)"

definition tq_ok :: "frame list \<Rightarrow> nat \<Rightarrow> tap_queue \<Rightarrow> bool" where
  "tq_ok produced n t \<longleftrightarrow> tq_from t \<le> length produced \<and> tq_read t @ tq_items t = drop (tq_from t) produced \<and> tq_consumer t < n"

definition tp_ok :: "taps \<Rightarrow> bool" where
  "tp_ok p \<longleftrightarrow> list_all (tq_ok (tp_produced p) (length (tp_consumers p))) (tp_queues p)"

lemma tq_ok_produce: "tq_ok ps n t \<Longrightarrow> tq_ok (ps @ [g]) n (t\<lparr>tq_items := fq_put g (tq_items t)\<rparr>)"
  by (auto simp: tq_ok_def fq_put_def simp flip: append_assoc)

lemma tq_ok_read: "tq_ok ps n t \<Longrightarrow> fq_get (tq_items t) = Some (f, r) \<Longrightarrow> tq_ok ps n (t\<lparr>tq_items := r, tq_read := tq_read t @ [f]\<rparr>)"
  by (cases "tq_items t") (auto simp: tq_ok_def)

lemma tp_okD: "tp_ok p \<Longrightarrow> q < length (tp_queues p) \<Longrightarrow> tq_ok (tp_produced p) (length (tp_consumers p)) (tp_queues p ! q)"
  by (simp add: tp_ok_def list_all_length)

lemma tq_ok_flags [simp]:
  "tq_ok ps n (t\<lparr>tq_cancelled := b\<rparr>) = tq_ok ps n t" "tq_ok ps n (t\<lparr>tq_running := b\<rparr>) = tq_ok ps n t"
  by (simp_all add: tq_ok_def)

lemma tp_ok_update:
  assumes "tp_ok p" and "tp_queues p' = (tp_queues p)[q := t]" and "tp_produced p' = tp_produced p"
    and "length (tp_consumers p') = length (tp_consumers p)"
    and "q < length (tp_queues p) \<Longrightarrow> tq_ok (tp_produced p) (length (tp_consumers p)) t"
  shows "tp_ok p'"
  unfolding tp_ok_def list_all_length
proof (intro allI impI)
  fix n
  assume "n < length (tp_queues p')"
  then show "tq_ok (tp_produced p') (length (tp_consumers p')) (tp_queues p' ! n)"
    using assms(2-5) tp_okD [OF assms(1), of n] by (cases "q = n") simp_all
qed

lemma tp_ok_stop: "tp_ok p \<Longrightarrow> tp_ok (cs_stop c p)"
  by (auto simp: cs_stop_def split: option.split intro!: tp_ok_update [of p] tp_okD)

lemma tp_ok_start: "tp_ok p \<Longrightarrow> c < length (tp_consumers p) \<Longrightarrow> tp_ok (cs_start c p)"
  by (auto simp: cs_start_def AddConsumer_def tp_ok_def tq_ok_def list_all_iff)

lemma tp_ok_consume: "tp_ok p \<Longrightarrow> q < length (tp_queues p) \<Longrightarrow> tp_ok (cs_consume q p)"
  by (auto simp: cs_consume_def Let_def split: option.split intro!: tp_ok_update [of p] tq_ok_read tp_okD)

lemma tp_ok_cong:
  "tp_queues p' = tp_queues p \<Longrightarrow> tp_produced p' = tp_produced p \<Longrightarrow> length (tp_consumers p') = length (tp_consumers p) \<Longrightarrow>
   tp_ok p' = tp_ok p"
  by (simp add: tp_ok_def)

lemma tp_ok_produce: "tp_ok p \<Longrightarrow> tp_ok (tp_produce f p)"
  by (auto simp: tp_ok_def tp_produce_def Let_def list_all_iff intro: tq_ok_produce)

lemmas tp_ok_fields =
  tp_ok_cong [where p' = "p\<lparr>tp_pushed := ps\<rparr>" and p = p for p ps]
  tp_ok_cong [where p' = "p\<lparr>tp_passed := ps\<rparr>" and p = p for p ps]
  tp_ok_cong [where p' = "p\<lparr>tp_consumers := (tp_consumers p)[c := x]\<rparr>" and p = p for p c x]
  tp_ok_cong [where p' = "p\<lparr>tp_consumers := (tp_consumers p)[c := x], tp_passed := ps\<rparr>" and p = p for p c x ps]

lemma tp_ok_frame: "tp_ok p \<Longrightarrow> tp_ok (Producer_ProcessFrame f d p)"
  by (auto simp: Producer_ProcessFrame_def Let_def tp_ok_produce tp_ok_fields)

lemma tp_ok_consumer: "tp_ok p \<Longrightarrow> c < length (tp_consumers p) \<Longrightarrow> tp_ok (Consumer_ProcessFrame c f d p)"
  by (auto simp: Consumer_ProcessFrame_def Let_def tp_ok_stop tp_ok_start tp_ok_fields)

lemma tp_ok_step: "tp_ok p \<Longrightarrow> tp_ok (tp_step e p)"
  by (cases e) (auto simp: tp_ok_frame tp_ok_consumer tp_ok_stop tp_ok_consume Consumer_stopped_def tp_ok_fields
      split: list.split)

lemma tp_ok_run: "tp_ok p \<Longrightarrow> tp_ok (run_events tp_step es p)"
  by (induction es arbitrary: p) (simp_all add: tp_ok_step)

text \<open>
  A consumer gets every frame the producer picked since it joined, once and in order: whatever the
  interleaving of the producer, the consumers and their readers, what was read from a queue followed by what
  waits in it is what was produced since the queue was registered.
\<close>

lemma tap_in_order:
  assumes "q < length (tp_queues (run_events tp_step es (NewProducer flt tr pass cs)))"
  shows "let p = run_events tp_step es (NewProducer flt tr pass cs); t = tp_queues p ! q in
    tq_read t @ tq_items t = drop (tq_from t) (tp_produced p)"
proof -
  have "tp_ok (NewProducer flt tr pass cs)" by (simp add: tp_ok_def NewProducer_def)
  from tp_okD [OF tp_ok_run [OF this] assms] show ?thesis by (simp add: tq_ok_def Let_def)
qed

definition tap_events :: "tp_event list" where
  "tap_events =
    [TpConsumer 0 (fst (NewBaseFrame ''StartFrame'' (Sys (StartFrame 0 0)) 0)) Downstream,
     TpFrame (fst (NewBaseFrame ''TextFrame'' (Txt (NewTextFrame ''a'')) 1)) Downstream, TpRead 0,
     TpFrame (fst (NewBaseFrame ''TextFrame'' (Txt (NewTextFrame ''b'')) 2)) Downstream]"

lemma tap_in_order_witness:
  "let p = run_events tp_step tap_events (NewProducer (\<lambda>f. True) None True [(None, Downstream)]); t = tp_queues p ! 0 in
    tq_read t @ tq_items t = drop (tq_from t) (tp_produced p)"
  by (rule tap_in_order) code_simp

text \<open>A reader told to stop first hands on everything that waits: when it ends, nothing produced until then is missing.\<close>

lemma stopped_reader_drained:
  assumes "tp_ok p" and "q < length (tp_queues p)" and "tq_running (tp_queues p ! q)"
    and "\<not> tq_running (tp_queues (cs_consume q p) ! q)"
  shows "tq_read (tp_queues (cs_consume q p) ! q) = drop (tq_from (tp_queues p ! q)) (tp_produced p) \<and> tq_cancelled (tp_queues p ! q)"
proof -
  have "tq_items (tp_queues p ! q) = []"
    using assms(2-4) by (cases "tq_items (tp_queues p ! q)") (auto simp: cs_consume_def Let_def)
  then show ?thesis using tp_okD [OF assms(1,2)] assms(2-4)
    by (auto simp: cs_consume_def Let_def tq_ok_def split: if_splits)
qed

text \<open>A consumer that stopped stays registered: what is produced afterwards is kept in a queue nobody reads.\<close>

lemma stopped_consumer_fills:
  "let p = run_events tp_step
        (tap_events @ [TpConsumer 0 (fst (NewBaseFrame ''EndFrame'' (Ctl (EndFrame [])) 3)) Downstream, TpRead 0, TpRead 0, TpStopped 0,
          TpFrame (fst (NewBaseFrame ''TextFrame'' (Txt (NewTextFrame ''c'')) 4)) Downstream, TpRead 0])
        (NewProducer (\<lambda>f. True) None True [(None, Downstream)])
   in map (\<lambda>t. (tq_running t, length (tq_items t))) (tp_queues p) = [(False, 1)] \<and> length (tp_passed p) = 2"
  by code_simp

section \<open>Releasing the conversation (gatedcontext.go, notify.go)\<close>

text \<open>
  \<open>gc_signal\<close> is the notifier's one-slot channel. A waiter sleeps on it (\<open>GcSleeps\<close>), has been woken
  (\<open>GcWoken\<close>), holds a conversation it has yet to push (\<open>GcHolds\<close>), or has returned (\<open>GcGone\<close>); \<open>gw_cancelled\<close>
  is its context. \<open>gc_cancel\<close> is the waiter \<open>stop\<close> would cancel. The frame that stops the gate is passed on when
  every waiter has returned.
\<close>

datatype waiter_at = GcSleeps | GcWoken | GcHolds frame | GcGone

record waiter =
  gw_at :: waiter_at
  gw_cancelled :: bool

record gated_context =
  gc_startOpen :: bool
  gc_last :: "frame option"
  gc_cancel :: "nat option"
  gc_waiters :: "waiter list"
  gc_signal :: bool
  gc_stopping :: "hop list"
  gc_pushed :: "hop list"

definition NewGatedContext :: "bool \<Rightarrow> gated_context" where
  "NewGatedContext startOpen =
    \<lparr>gc_startOpen = startOpen, gc_last = None, gc_cancel = None, gc_waiters = [], gc_signal = False, gc_stopping = [],
     gc_pushed = []\<rparr>"

definition gc_push :: "hop \<Rightarrow> gated_context \<Rightarrow> gated_context" where
  "gc_push h g = g\<lparr>gc_pushed := gc_pushed g @ [h]\<rparr>"

definition gc_start :: "gated_context \<Rightarrow> gated_context" where
  "gc_start g =
    (if gc_cancel g \<noteq> None then g
     else g\<lparr>gc_cancel := Some (length (gc_waiters g)), gc_waiters := gc_waiters g @ [\<lparr>gw_at = GcSleeps, gw_cancelled = False\<rparr>]\<rparr>)"

definition gc_stop :: "gated_context \<Rightarrow> gated_context" where
  "gc_stop g =
    (case gc_cancel g of
       None \<Rightarrow> g
     | Some w \<Rightarrow> g\<lparr>gc_cancel := None, gc_waiters := (gc_waiters g)[w := (gc_waiters g ! w)\<lparr>gw_cancelled := True\<rparr>]\<rparr>)"

definition GatedContext_ProcessFrame :: "frame \<Rightarrow> Direction \<Rightarrow> gated_context \<Rightarrow> gated_context" where
  "GatedContext_ProcessFrame f d g =
    (case body f of
       Sys (StartFrame i ou) \<Rightarrow> gc_start (gc_push (f, d) g)
     | Ctl (EndFrame r) \<Rightarrow> (gc_stop g)\<lparr>gc_stopping := gc_stopping g @ [(f, d)]\<rparr>
     | Sys (CancelFrame r) \<Rightarrow> (gc_stop g)\<lparr>gc_stopping := gc_stopping g @ [(f, d)]\<rparr>
     | Llm (LLMContextFrame x) \<Rightarrow>
         if gc_startOpen g then gc_push (f, d) (g\<lparr>gc_startOpen := False\<rparr>) else g\<lparr>gc_last := Some f\<rparr>
     | _ \<Rightarrow> gc_push (f, d) g)"

definition gc_stopped :: "gated_context \<Rightarrow> gated_context" where
  "gc_stopped g =
    (case gc_stopping g of
       [] \<Rightarrow> g
     | h # hs \<Rightarrow> if list_all (\<lambda>w. gw_at w = GcGone) (gc_waiters g) then gc_push h (g\<lparr>gc_stopping := hs\<rparr>) else g)"

definition EventNotifier_Notify :: "gated_context \<Rightarrow> gated_context" where
  "EventNotifier_Notify g = g\<lparr>gc_signal := True\<rparr>"

definition gc_goto :: "nat \<Rightarrow> waiter_at \<Rightarrow> gated_context \<Rightarrow> gated_context" where
  "gc_goto w to_at g = g\<lparr>gc_waiters := (gc_waiters g)[w := (gc_waiters g ! w)\<lparr>gw_at := to_at\<rparr>]\<rparr>"

text \<open>
  The waiter's loop. In \<open>Wait\<close> either case of the select may be taken when both are ready, so waking and
  leaving are events of their own.
\<close>

definition EventNotifier_Wait :: "nat \<Rightarrow> gated_context \<Rightarrow> gated_context" where
  "EventNotifier_Wait w g =
    (if gw_at (gc_waiters g ! w) = GcSleeps \<and> gc_signal g then gc_goto w GcWoken (g\<lparr>gc_signal := False\<rparr>) else g)"

definition gc_leave :: "nat \<Rightarrow> gated_context \<Rightarrow> gated_context" where
  "gc_leave w g =
    (if gw_at (gc_waiters g ! w) = GcSleeps \<and> gw_cancelled (gc_waiters g ! w) then gc_goto w GcGone g else g)"

definition gc_wait :: "nat \<Rightarrow> gated_context \<Rightarrow> gated_context" where
  "gc_wait w g =
    (case gw_at (gc_waiters g ! w) of
       GcWoken \<Rightarrow>
         (case gc_last g of
            None \<Rightarrow> gc_goto w GcSleeps g
          | Some f \<Rightarrow> gc_goto w (GcHolds f) (g\<lparr>gc_last := None\<rparr>))
     | GcHolds f \<Rightarrow> gc_goto w GcSleeps (gc_push (f, Downstream) g)
     | _ \<Rightarrow> g)"

datatype gc_event = GcFrame frame Direction | GcStopped | GcCleanup | GcNotify | GcWake nat | GcLeave nat | GcRuns nat

fun gc_step :: "gc_event \<Rightarrow> gated_context \<Rightarrow> gated_context" where
  "gc_step (GcFrame f d) g = GatedContext_ProcessFrame f d g"
| "gc_step GcStopped g = gc_stopped g"
| "gc_step GcCleanup g = gc_stop g"
| "gc_step GcNotify g = EventNotifier_Notify g"
| "gc_step (GcWake w) g = (if w < length (gc_waiters g) then EventNotifier_Wait w g else g)"
| "gc_step (GcLeave w) g = (if w < length (gc_waiters g) then gc_leave w g else g)"
| "gc_step (GcRuns w) g = (if w < length (gc_waiters g) then gc_wait w g else g)"

text \<open>The conversations that arrived, were pushed on and are in a waiter's hands; how often the gate was started and notified.\<close>

definition is_context :: "frame \<Rightarrow> bool" where
  "is_context f \<longleftrightarrow> (case body f of Llm (LLMContextFrame x) \<Rightarrow> True | _ \<Rightarrow> False)"

fun gc_arrived :: "gc_event list \<Rightarrow> frame list" where
  "gc_arrived [] = []"
| "gc_arrived (GcFrame f d # es) = (if is_context f then f # gc_arrived es else gc_arrived es)"
| "gc_arrived (_ # es) = gc_arrived es"

fun gc_starts :: "gc_event list \<Rightarrow> nat" where
  "gc_starts [] = 0"
| "gc_starts (GcFrame f d # es) = (if isStartFrame f then 1 else 0) + gc_starts es"
| "gc_starts (_ # es) = gc_starts es"

fun gc_notified :: "gc_event list \<Rightarrow> nat" where
  "gc_notified [] = 0"
| "gc_notified (GcNotify # es) = 1 + gc_notified es"
| "gc_notified (_ # es) = gc_notified es"

definition gc_released :: "gated_context \<Rightarrow> frame list" where
  "gc_released g = filter is_context (map fst (gc_pushed g))"

fun waiter_holds :: "waiter_at \<Rightarrow> frame list" where
  "waiter_holds (GcHolds f) = [f]"
| "waiter_holds _ = []"

fun waiter_owes :: "waiter_at \<Rightarrow> nat" where
  "waiter_owes (GcHolds f) = 1"
| "waiter_owes GcWoken = 1"
| "waiter_owes _ = 0"

definition waiters_at :: "gated_context \<Rightarrow> waiter_at list" where
  "waiters_at g = map gw_at (gc_waiters g)"

definition gc_holding :: "gated_context \<Rightarrow> frame list" where
  "gc_holding g = concat (map waiter_holds (waiters_at g))"

definition gc_owed :: "gated_context \<Rightarrow> nat" where
  "gc_owed g = sum_list (map waiter_owes (waiters_at g))"

lemma waiters_at_stop [simp]: "waiters_at (gc_stop g) = waiters_at g"
proof (cases "gc_cancel g")
  case (Some w)
  then show ?thesis
    by (cases "w < length (gc_waiters g)")
      (simp_all add: gc_stop_def waiters_at_def map_update list_update_same_conv list_update_beyond)
qed (simp add: gc_stop_def)

lemma waiters_at_goto [simp]: "waiters_at (gc_goto w x g) = (waiters_at g)[w := x]"
  by (simp add: waiters_at_def gc_goto_def map_update)

lemma waiters_at_fields [simp]:
  "waiters_at (gc_push h g) = waiters_at g" "waiters_at (g\<lparr>gc_stopping := hs\<rparr>) = waiters_at g"
  "waiters_at (g\<lparr>gc_startOpen := b\<rparr>) = waiters_at g" "waiters_at (g\<lparr>gc_last := f\<rparr>) = waiters_at g"
  "waiters_at (g\<lparr>gc_signal := b\<rparr>) = waiters_at g" "waiters_at (g\<lparr>gc_pushed := ps\<rparr>) = waiters_at g"
  by (simp_all add: waiters_at_def gc_push_def)

lemma gc_fields [simp]:
  "gc_startOpen (gc_stop g) = gc_startOpen g" "gc_last (gc_stop g) = gc_last g" "gc_signal (gc_stop g) = gc_signal g"
  "gc_stopping (gc_stop g) = gc_stopping g" "gc_pushed (gc_stop g) = gc_pushed g"
  "gc_startOpen (gc_goto w x g) = gc_startOpen g" "gc_last (gc_goto w x g) = gc_last g"
  "gc_signal (gc_goto w x g) = gc_signal g" "gc_stopping (gc_goto w x g) = gc_stopping g"
  "gc_pushed (gc_goto w x g) = gc_pushed g"
  by (simp_all add: gc_stop_def gc_goto_def split: option.split)

lemma gc_arrived_append [simp]: "gc_arrived (xs @ ys) = gc_arrived xs @ gc_arrived ys"
  by (induction xs rule: gc_arrived.induct) simp_all

lemma gc_starts_append [simp]: "gc_starts (xs @ ys) = gc_starts xs + gc_starts ys"
  by (induction xs rule: gc_starts.induct) simp_all

lemma gc_notified_append [simp]: "gc_notified (xs @ ys) = gc_notified xs + gc_notified ys"
  by (induction xs rule: gc_notified.induct) simp_all

definition last_list :: "gated_context \<Rightarrow> frame list" where
  "last_list g = (case gc_last g of None \<Rightarrow> [] | Some f \<Rightarrow> [f])"

text \<open>The invariant, over the values it speaks of.\<close>

definition gc_inv ::
  "bool \<Rightarrow> frame list \<Rightarrow> nat \<Rightarrow> nat \<Rightarrow> waiter_at list \<Rightarrow> bool \<Rightarrow> frame list \<Rightarrow> bool \<Rightarrow> hop list \<Rightarrow> frame list \<Rightarrow> bool" where
  "gc_inv b arrived starts notified ats op held sig stopping released \<longleftrightarrow> length ats \<le> starts \<and>
    (op \<longrightarrow> held = [] \<and> concat (map waiter_holds ats) = []) \<and>
    list_all is_context (concat (map waiter_holds ats) @ held) \<and> list_all (\<lambda>h. \<not> is_context (fst h)) stopping \<and>
    subseq (released @ concat (map waiter_holds ats) @ held) arrived \<and>
    length released + sum_list (map waiter_owes ats) + of_bool sig + of_bool op \<le> of_bool b + notified"

definition gc_ok :: "bool \<Rightarrow> gc_event list \<Rightarrow> gated_context \<Rightarrow> bool" where
  "gc_ok b es g \<longleftrightarrow> gc_inv b (gc_arrived es) (gc_starts es) (gc_notified es) (waiters_at g) (gc_startOpen g) (last_list g)
    (gc_signal g) (gc_stopping g) (gc_released g)"

lemma last_list_simps [simp]:
  "last_list (gc_stop g) = last_list g" "last_list (gc_goto w x g) = last_list g" "last_list (gc_push h g) = last_list g"
  "last_list (g\<lparr>gc_stopping := hs\<rparr>) = last_list g" "last_list (g\<lparr>gc_startOpen := c\<rparr>) = last_list g"
  "last_list (g\<lparr>gc_signal := c\<rparr>) = last_list g" "last_list (g\<lparr>gc_last := None\<rparr>) = []" "last_list (g\<lparr>gc_last := Some f\<rparr>) = [f]"
  by (simp_all add: last_list_def gc_push_def)

lemma released_simps [simp]:
  "gc_released (gc_stop g) = gc_released g" "gc_released (gc_goto w x g) = gc_released g"
  "gc_released (gc_push h g) = gc_released g @ (if is_context (fst h) then [fst h] else [])"
  "gc_released (g\<lparr>gc_stopping := hs\<rparr>) = gc_released g" "gc_released (g\<lparr>gc_startOpen := c\<rparr>) = gc_released g"
  "gc_released (g\<lparr>gc_signal := c\<rparr>) = gc_released g" "gc_released (g\<lparr>gc_last := l\<rparr>) = gc_released g"
  by (simp_all add: gc_released_def gc_push_def)

lemma push_fields [simp]:
  "gc_startOpen (gc_push h g) = gc_startOpen g" "gc_signal (gc_push h g) = gc_signal g"
  "gc_stopping (gc_push h g) = gc_stopping g" "gc_last (gc_push h g) = gc_last g"
  by (simp_all add: gc_push_def)

lemma not_context [simp]:
  "body f = Sys s \<Longrightarrow> \<not> is_context f" "body f = Ctl c \<Longrightarrow> \<not> is_context f"
  by (simp_all add: is_context_def)

lemma subseq_snoc_both: "subseq xs ys \<Longrightarrow> subseq (xs @ [x]) (ys @ [x])"
  by (simp add: list_emb_append_mono)

lemma subseq_drop_end: "subseq (xs @ ys) zs \<Longrightarrow> subseq xs zs"
  by (metis list_emb_prefix subseq_order.order_refl subseq_order.order_trans)

lemma stops_cases: "stops b \<Longrightarrow> (\<exists>r. b = Ctl (EndFrame r)) \<or> (\<exists>r. b = Sys (CancelFrame r))"
  by (cases b rule: stops.cases) auto

lemma gc_start_values:
  "waiters_at (gc_start g) = waiters_at g \<or> waiters_at (gc_start g) = waiters_at g @ [GcSleeps]"
  "last_list (gc_start g) = last_list g" "gc_released (gc_start g) = gc_released g"
  "gc_startOpen (gc_start g) = gc_startOpen g" "gc_signal (gc_start g) = gc_signal g" "gc_stopping (gc_start g) = gc_stopping g"
  by (simp_all add: gc_start_def waiters_at_def last_list_def gc_released_def)

lemma gc_start_ok:
  assumes "gc_ok b es g" and "isStartFrame f"
  shows "gc_ok b (es @ [GcFrame f d]) (gc_start (gc_push (f, d) g))"
proof -
  have "\<not> is_context f" using assms(2) by (auto simp: isStartFrame_def split: frame_body.splits)
  then show ?thesis using assms gc_start_values(1) [of "gc_push (f, d) g"]
    by (auto simp: gc_ok_def gc_start_values(2-6) gc_inv_def)
qed

lemma gc_context_ok:
  assumes "gc_ok b es g" and "is_context f"
  shows "gc_ok b (es @ [GcFrame f d]) (GatedContext_ProcessFrame f d g)"
proof -
  obtain x where f: "body f = Llm (LLMContextFrame x)" "\<not> isStartFrame f"
    using assms(2) by (auto simp: is_context_def isStartFrame_def split: frame_body.splits llm_context_go.splits)
  show ?thesis
  proof (cases "gc_startOpen g")
    case True
    then show ?thesis using assms f subseq_snoc_both [of "gc_released g" "gc_arrived es" f]
      by (auto simp: gc_ok_def gc_inv_def GatedContext_ProcessFrame_def simp del: concat_eq_Nil_conv)
  next
    case False
    then show ?thesis using assms f
        subseq_snoc_both [OF subseq_drop_end [of "gc_released g @ concat (map waiter_holds (waiters_at g))" "last_list g" "gc_arrived es"], of f]
      by (auto simp: gc_ok_def gc_inv_def GatedContext_ProcessFrame_def)
  qed
qed

lemma gc_frame_ok:
  assumes "gc_ok b es g"
  shows "gc_ok b (es @ [GcFrame f d]) (GatedContext_ProcessFrame f d g)"
proof -
  have eq: "gc_ok b (es @ [GcFrame f d]) h \<longleftrightarrow> gc_ok b es h" if "\<not> is_context f" "\<not> isStartFrame f" for h
    using that by (simp add: gc_ok_def)
  consider "is_context f" | "isStartFrame f" | "stops (body f)" | "\<not> is_context f" "\<not> isStartFrame f" "\<not> stops (body f)" by blast
  then show ?thesis
  proof cases
    case 2
    then show ?thesis using gc_start_ok [OF assms, of f d]
      by (auto simp: GatedContext_ProcessFrame_def isStartFrame_def split: frame_body.splits system_go.splits)
  next
    case 3
    then have "\<not> is_context f" "\<not> isStartFrame f"
      and "GatedContext_ProcessFrame f d g = (gc_stop g)\<lparr>gc_stopping := gc_stopping g @ [(f, d)]\<rparr>"
      by (auto simp: is_context_def isStartFrame_def GatedContext_ProcessFrame_def dest!: stops_cases)
    then show ?thesis using assms by (simp add: gc_ok_def gc_inv_def)
  next
    case 4
    then have "GatedContext_ProcessFrame f d g = gc_push (f, d) g"
      by (auto simp: GatedContext_ProcessFrame_def isStartFrame_def is_context_def
          split: frame_body.splits system_go.splits control_go.splits llm_context_go.splits)
    with 4 assms show ?thesis by (simp add: eq) (simp add: gc_ok_def)
  qed (rule gc_context_ok [OF assms])
qed

lemma gc_ok_events [simp]:
  "gc_ok b (es @ [GcStopped]) g = gc_ok b es g" "gc_ok b (es @ [GcCleanup]) g = gc_ok b es g"
  "gc_ok b (es @ [GcWake w]) g = gc_ok b es g" "gc_ok b (es @ [GcLeave w]) g = gc_ok b es g"
  "gc_ok b (es @ [GcRuns w]) g = gc_ok b es g"
  by (simp_all add: gc_ok_def)

text \<open>With one waiter, what it does next leaves the conversations in their order.\<close>

lemma gc_waiter_ok:
  assumes "gc_ok b es g" and "waiters_at g = [x]"
  shows "gc_ok b es (EventNotifier_Wait 0 g)" "gc_ok b es (gc_leave 0 g)" "gc_ok b es (gc_wait 0 g)"
proof -
  have x: "gw_at (gc_waiters g ! 0) = x" using assms(2) by (auto simp: waiters_at_def)
  show "gc_ok b es (EventNotifier_Wait 0 g)" "gc_ok b es (gc_leave 0 g)"
    using assms x by (auto simp: EventNotifier_Wait_def gc_leave_def gc_ok_def gc_inv_def)
  show "gc_ok b es (gc_wait 0 g)"
    using assms x by (cases x) (auto simp: gc_wait_def gc_ok_def gc_inv_def last_list_def split: option.splits)
qed

lemma gc_step_ok:
  assumes "gc_ok b es g" and "gc_starts es \<le> 1"
  shows "gc_ok b (es @ [e]) (gc_step e g)"
proof -
  have one: "w < length (gc_waiters g) \<Longrightarrow> w = 0 \<and> (\<exists>x. waiters_at g = [x])" for w
    using assms by (auto simp: gc_ok_def gc_inv_def waiters_at_def length_Suc_conv le_Suc_eq)
  have stopped: "gc_ok b es (gc_stopped g)"
    using assms(1) by (auto simp: gc_stopped_def gc_ok_def gc_inv_def split: list.splits)
  show ?thesis
  proof (cases e)
    case GcNotify
    then show ?thesis using assms(1) by (auto simp: EventNotifier_Notify_def gc_ok_def gc_inv_def split: if_splits)
  next
    case GcCleanup
    then show ?thesis using assms(1) by (simp add: gc_ok_def)
  next
    case (GcWake w)
    then show ?thesis using assms(1) one [of w] gc_waiter_ok(1) by auto
  next
    case (GcLeave w)
    then show ?thesis using assms(1) one [of w] gc_waiter_ok(2) by auto
  next
    case (GcRuns w)
    then show ?thesis using assms(1) one [of w] gc_waiter_ok(3) by auto
  qed (simp_all add: assms(1) stopped gc_frame_ok)
qed

text \<open>
  The gate on the conversation releases it in order, once, and no more often than it was told to: in a run
  with one start, whatever the interleaving of the frames, the notifications and the waiter, the conversations
  pushed on are some of those that arrived, in the order they arrived, and apart from the one let through at
  the start there are at most as many as there were notifications.
\<close>

lemma contexts_released_in_order:
  assumes "gc_starts es \<le> 1"
  shows "let g = run_events gc_step es (NewGatedContext startOpen) in
    subseq (gc_released g) (gc_arrived es) \<and> length (gc_released g) \<le> of_bool startOpen + gc_notified es"
proof -
  have "gc_starts es \<le> 1 \<longrightarrow> gc_ok startOpen es (run_events gc_step es (NewGatedContext startOpen))"
  proof (rule run_events_invariant [where P = "\<lambda>es g. gc_starts es \<le> 1 \<longrightarrow> gc_ok startOpen es g"])
    show "gc_starts [] \<le> 1 \<longrightarrow> gc_ok startOpen [] (NewGatedContext startOpen)"
      by (simp add: gc_ok_def gc_inv_def NewGatedContext_def waiters_at_def last_list_def gc_released_def)
    show "gc_starts (es @ [e]) \<le> 1 \<longrightarrow> gc_ok startOpen (es @ [e]) (gc_step e t)"
      if "gc_starts es \<le> 1 \<longrightarrow> gc_ok startOpen es t" for es e t
      using that gc_step_ok [of startOpen es t e] by simp
  qed
  then show ?thesis using assms by (auto simp: gc_ok_def gc_inv_def Let_def intro: subseq_drop_end)
qed

lemma contexts_released_in_order_witness:
  "let f = (\<lambda>n. fst (NewBaseFrame ''LLMContextFrame'' (Llm (LLMContextFrame n)) (of_nat n)));
       es = [GcFrame (fst (NewBaseFrame ''StartFrame'' (Sys (StartFrame 0 0)) 0)) Downstream,
             GcFrame (f 1) Downstream, GcFrame (f 2) Downstream, GcNotify, GcWake 0, GcRuns 0, GcRuns 0];
       g = run_events gc_step es (NewGatedContext False) in
    gc_released g = [f 2] \<and>
    subseq (gc_released g) (gc_arrived es) \<and> length (gc_released g) \<le> of_bool False + gc_notified es"
  using contexts_released_in_order
    [of "[GcFrame (fst (NewBaseFrame ''StartFrame'' (Sys (StartFrame 0 0)) 0)) Downstream,
          GcFrame (fst (NewBaseFrame ''LLMContextFrame'' (Llm (LLMContextFrame 1)) (of_nat 1))) Downstream,
          GcFrame (fst (NewBaseFrame ''LLMContextFrame'' (Llm (LLMContextFrame 2)) (of_nat 2))) Downstream,
          GcNotify, GcWake 0, GcRuns 0, GcRuns 0]" False]
  unfolding Let_def by (intro conjI) (code_simp, simp add: isStartFrame_def, simp add: isStartFrame_def)

text \<open>What is held for release is the conversation that arrived last.\<close>

definition gc_latest :: "gc_event list \<Rightarrow> gated_context \<Rightarrow> bool" where
  "gc_latest es g \<longleftrightarrow> (case gc_last g of
     None \<Rightarrow> True | Some f \<Rightarrow> \<not> gc_startOpen g \<and> gc_arrived es \<noteq> [] \<and> f = last (gc_arrived es))"

lemma gc_latest_frame:
  assumes "gc_latest es g"
  shows "gc_latest (es @ [GcFrame f d]) (GatedContext_ProcessFrame f d g)"
proof (cases "is_context f")
  case True
  then obtain x where "body f = Llm (LLMContextFrame x)"
    by (auto simp: is_context_def split: frame_body.splits llm_context_go.splits)
  then show ?thesis using True assms by (auto simp: gc_latest_def GatedContext_ProcessFrame_def split: option.splits)
next
  case False
  then have "gc_last (GatedContext_ProcessFrame f d g) = gc_last g"
    "gc_startOpen (GatedContext_ProcessFrame f d g) = gc_startOpen g"
    by (auto simp: GatedContext_ProcessFrame_def gc_start_def is_context_def
        split: frame_body.splits system_go.splits control_go.splits llm_context_go.splits)
  then show ?thesis using False assms by (simp add: gc_latest_def split: option.splits)
qed

lemma gc_latest_step:
  assumes "gc_latest es g"
  shows "gc_latest (es @ [e]) (gc_step e g)"
proof (cases e)
  case (GcRuns w)
  then show ?thesis using assms by (auto simp: gc_latest_def gc_wait_def split: waiter_at.splits option.splits)
next
  case (GcFrame f d)
  then show ?thesis using gc_latest_frame [OF assms] by simp
qed (use assms in \<open>auto simp: gc_latest_def gc_stopped_def EventNotifier_Notify_def EventNotifier_Wait_def
    gc_leave_def split: list.splits option.splits\<close>)

lemma held_context_is_latest:
  assumes "gc_last (run_events gc_step es (NewGatedContext b)) = Some f"
  shows "gc_arrived es \<noteq> [] \<and> f = last (gc_arrived es)"
proof -
  have "gc_latest es (run_events gc_step es (NewGatedContext b))"
    by (rule run_events_invariant [where P = gc_latest, OF _ gc_latest_step]) (simp add: gc_latest_def NewGatedContext_def)
  with assms show ?thesis by (simp add: gc_latest_def)
qed

text \<open>Once the frame that stops the gate has been passed on, every waiter has returned: none can release anything after it.\<close>

lemma none_released_after_stop:
  assumes "gc_stopping g = h # hs" and "gc_stopped g \<noteq> g" and "w < length (gc_waiters g)"
  shows "gc_wait w (gc_stopped g) = gc_stopped g"
proof -
  have a: "list_all (\<lambda>w. gw_at w = GcGone) (gc_waiters g)" using assms(1,2) by (auto simp: gc_stopped_def split: if_splits)
  then have "gw_at (gc_waiters g ! w) = GcGone" using assms(3) by (simp add: list_all_length)
  then show ?thesis using assms(1) a by (simp add: gc_stopped_def gc_push_def gc_wait_def)
qed

section \<open>The idle clock (idle.go)\<close>

text \<open>
  \<open>ip_seen\<close> is the one-slot channel a watched frame is announced on. A watcher's timer is due at \<open>iw_due\<close>; the
  time is the monotonic clock, which moves on by itself, and \<open>ip_called\<close> are the times of the callbacks.
\<close>

record idle_watch =
  iw_due :: duration
  iw_running :: bool
  iw_cancelled :: bool

record idle_proc =
  ip_types :: "(frame \<Rightarrow> bool) list"
  ip_timeout :: duration
  ip_seen :: bool
  ip_cancel :: "nat option"
  ip_watches :: "idle_watch list"
  ip_now :: duration
  ip_called :: "duration list"
  ip_pushed :: "hop list"

definition NewIdleFrameProcessor :: "duration \<Rightarrow> (frame \<Rightarrow> bool) list \<Rightarrow> duration \<Rightarrow> idle_proc" where
  "NewIdleFrameProcessor timeout matchers now =
    \<lparr>ip_types = matchers, ip_timeout = timeout, ip_seen = False, ip_cancel = None, ip_watches = [], ip_now = now, ip_called = [],
     ip_pushed = []\<rparr>"

definition ip_startWatching :: "idle_proc \<Rightarrow> idle_proc" where
  "ip_startWatching p =
    (if ip_cancel p \<noteq> None then p
     else p\<lparr>ip_cancel := Some (length (ip_watches p)),
       ip_watches := ip_watches p @ [\<lparr>iw_due = ip_now p + ip_timeout p, iw_running = True, iw_cancelled = False\<rparr>]\<rparr>)"

definition ip_stopWatching :: "idle_proc \<Rightarrow> idle_proc" where
  "ip_stopWatching p =
    (case ip_cancel p of
       None \<Rightarrow> p
     | Some w \<Rightarrow> p\<lparr>ip_cancel := None, ip_watches := (ip_watches p)[w := (ip_watches p ! w)\<lparr>iw_cancelled := True\<rparr>]\<rparr>)"

definition ip_restart :: "idle_proc \<Rightarrow> idle_proc" where
  "ip_restart p = p\<lparr>ip_seen := True\<rparr>"

definition Idle_ProcessFrame :: "frame \<Rightarrow> Direction \<Rightarrow> idle_proc \<Rightarrow> idle_proc" where
  "Idle_ProcessFrame f d p =
    (let p = (if isStartFrame f then ip_startWatching p else p);
         p = p\<lparr>ip_pushed := ip_pushed p @ [(f, d)]\<rparr>
     in if ip_types p = [] \<or> list_ex (\<lambda>m. m f) (ip_types p) then ip_restart p else p)"

datatype idle_case = IdleCancelled | IdleSeen | IdleTimer

text \<open>One round of the watcher's loop, with the case of the select it takes; the timer starts again after the last two.\<close>

definition ip_watch :: "nat \<Rightarrow> idle_case \<Rightarrow> idle_proc \<Rightarrow> idle_proc" where
  "ip_watch w c p =
    (let t = ip_watches p ! w;
         reset = (\<lambda>p. p\<lparr>ip_watches := (ip_watches p)[w := t\<lparr>iw_due := ip_now p + ip_timeout p\<rparr>]\<rparr>) in
     if \<not> iw_running t then p
     else case c of
         IdleCancelled \<Rightarrow>
           if iw_cancelled t then p\<lparr>ip_watches := (ip_watches p)[w := t\<lparr>iw_running := False\<rparr>]\<rparr> else p
       | IdleSeen \<Rightarrow> if ip_seen p then reset (p\<lparr>ip_seen := False\<rparr>) else p
       | IdleTimer \<Rightarrow> if iw_due t \<le> ip_now p then reset (p\<lparr>ip_called := ip_called p @ [ip_now p]\<rparr>) else p)"

datatype ip_event = IpFrame frame Direction | IpTick nat | IpWatch nat idle_case | IpCleanup

fun ip_step :: "ip_event \<Rightarrow> idle_proc \<Rightarrow> idle_proc" where
  "ip_step (IpFrame f d) p = Idle_ProcessFrame f d p"
| "ip_step (IpTick n) p = p\<lparr>ip_now := ip_now p + int n\<rparr>"
| "ip_step (IpWatch w c) p = (if w < length (ip_watches p) then ip_watch w c p else p)"
| "ip_step IpCleanup p = ip_stopWatching p"

text \<open>A watcher is never due before the timeout has passed since the last callback.\<close>

definition ip_ok :: "duration \<Rightarrow> idle_proc \<Rightarrow> bool" where
  "ip_ok timeout p \<longleftrightarrow> ip_timeout p = timeout \<and> length (ip_watches p) \<le> 1 \<and>
    sorted_wrt (\<lambda>s t. s + timeout \<le> t) (ip_called p) \<and> list_all (\<lambda>s. s \<le> ip_now p) (ip_called p) \<and>
    list_all (\<lambda>w. list_all (\<lambda>s. s + timeout \<le> iw_due w) (ip_called p)) (ip_watches p)"

lemma idle_callbacks_spaced:
  assumes "ip_ok timeout p" and "0 \<le> timeout" and "ip_watches p \<noteq> [] \<Longrightarrow> \<not> isStartFrame f"
  shows "ip_ok timeout (Idle_ProcessFrame f d p)" and "ip_ok timeout (ip_step (IpTick n) p)"
    and "ip_ok timeout (ip_step (IpWatch w c) p)" and "ip_ok timeout (ip_step IpCleanup p)"
proof -
  show "ip_ok timeout (Idle_ProcessFrame f d p)" using assms
    by (auto simp: Idle_ProcessFrame_def ip_restart_def ip_startWatching_def ip_ok_def Let_def list_all_iff)
  show "ip_ok timeout (ip_step (IpTick n) p)" using assms(1) by (auto simp: ip_ok_def list_all_iff)
  show "ip_ok timeout (ip_step IpCleanup p)" using assms(1)
    by (cases "ip_watches p")
      (auto simp: ip_stopWatching_def ip_ok_def list_all_iff split: option.split nat.splits)
  show "ip_ok timeout (ip_step (IpWatch w c) p)"
  proof (cases "w < length (ip_watches p)")
    case True
    then obtain t where t: "ip_watches p = [t]" "w = 0"
      using assms(1) by (auto simp: ip_ok_def length_Suc_conv le_Suc_eq)
    then show ?thesis using assms(1,2)
      by (cases c) (auto simp: ip_watch_def ip_ok_def Let_def list_all_iff sorted_wrt_append)
  qed (use assms(1) in simp)
qed

end
