(* ===== verification/Sequence_Match.thy ===== *)
theory Sequence_Match
  imports Voxigo_Prelude "HOL-Library.Multiset"
begin

text \<open>
  Aligning two token sequences, \<^verbatim>\<open>src/utils/context/sequencematcher.go\<close>: the longest matching block is found,
  then the same on either side of it, and the blocks and the gaps between them become opcodes.

  A Go map from integers that is read with a default is a function. The search of one row, its two extension
  loops and the worklist are recursions of their own; the worklist ends because every span it adds is smaller
  than the one it took.
\<close>

section \<open>The longest block\<close>

record block =
  blk_a :: nat
  blk_b :: nat
  blk_size :: nat

definition occurrences :: "'a list \<Rightarrow> 'a \<Rightarrow> nat list" where
  "occurrences b s = filter (\<lambda>j. b ! j = s) [0..<length b]"

text \<open>One row: the positions of \<open>a[i]\<close> in \<open>b\<close>, in order, with the runs that end in the row before.\<close>

fun match_row ::
  "nat \<Rightarrow> nat \<Rightarrow> nat \<Rightarrow> (nat \<Rightarrow> nat) \<Rightarrow> nat list \<Rightarrow> (nat \<Rightarrow> nat) \<times> block \<Rightarrow> (nat \<Rightarrow> nat) \<times> block" where
  "match_row i blo bhi j2len [] st = st"
| "match_row i blo bhi j2len (j # js) (newj2len, best) =
    (if j < blo then match_row i blo bhi j2len js (newj2len, best)
     else if j \<ge> bhi then (newj2len, best)
     else let k = (if j = 0 then 0 else j2len (j - 1)) + 1;
              best' = (if k > blk_size best then \<lparr>blk_a = i + 1 - k, blk_b = j + 1 - k, blk_size = k\<rparr> else best)
          in match_row i blo bhi j2len js (newj2len(j := k), best'))"

fun match_rows ::
  "'a list \<Rightarrow> 'a list \<Rightarrow> nat \<Rightarrow> nat \<Rightarrow> nat list \<Rightarrow> (nat \<Rightarrow> nat) \<times> block \<Rightarrow> (nat \<Rightarrow> nat) \<times> block" where
  "match_rows a b blo bhi [] st = st"
| "match_rows a b blo bhi (i # is) (j2len, best) =
    match_rows a b blo bhi is (match_row i blo bhi j2len (occurrences b (a ! i)) (\<lambda>j. 0, best))"

fun extend_left :: "'a list \<Rightarrow> 'a list \<Rightarrow> nat \<Rightarrow> nat \<Rightarrow> nat \<Rightarrow> block \<Rightarrow> block" where
  "extend_left a b alo blo 0 m = m"
| "extend_left a b alo blo (Suc n) m =
    (if blk_a m > alo \<and> blk_b m > blo \<and> a ! (blk_a m - 1) = b ! (blk_b m - 1)
     then extend_left a b alo blo n \<lparr>blk_a = blk_a m - 1, blk_b = blk_b m - 1, blk_size = blk_size m + 1\<rparr> else m)"

fun extend_right :: "'a list \<Rightarrow> 'a list \<Rightarrow> nat \<Rightarrow> nat \<Rightarrow> nat \<Rightarrow> block \<Rightarrow> block" where
  "extend_right a b ahi bhi 0 m = m"
| "extend_right a b ahi bhi (Suc n) m =
    (if blk_a m + blk_size m < ahi \<and> blk_b m + blk_size m < bhi \<and> a ! (blk_a m + blk_size m) = b ! (blk_b m + blk_size m)
     then extend_right a b ahi bhi n (m\<lparr>blk_size := blk_size m + 1\<rparr>) else m)"

text \<open>Each loop runs at most as often as there are tokens in \<open>a\<close>, so the bounds are never reached.\<close>

definition findLongestMatch :: "'a list \<Rightarrow> 'a list \<Rightarrow> nat \<Rightarrow> nat \<Rightarrow> nat \<Rightarrow> nat \<Rightarrow> block" where
  "findLongestMatch a b alo ahi blo bhi =
    (let m = snd (match_rows a b blo bhi [alo..<ahi] (\<lambda>j. 0, \<lparr>blk_a = alo, blk_b = blo, blk_size = 0\<rparr>));
         m = extend_left a b alo blo (length a) m
     in extend_right a b ahi bhi (length a) m)"

text \<open>A block inside a window, with equal tokens on both sides.\<close>

definition block_in :: "'a list \<Rightarrow> 'a list \<Rightarrow> nat \<Rightarrow> nat \<Rightarrow> nat \<Rightarrow> nat \<Rightarrow> block \<Rightarrow> bool" where
  "block_in a b alo ahi blo bhi m \<longleftrightarrow>
    alo \<le> blk_a m \<and> blk_a m + blk_size m \<le> ahi \<and> blo \<le> blk_b m \<and> blk_b m + blk_size m \<le> bhi \<and>
    (\<forall>k<blk_size m. a ! (blk_a m + k) = b ! (blk_b m + k))"

text \<open>A run of equal tokens that ends just before \<open>i\<close> in \<open>a\<close> and just before \<open>j\<close> in \<open>b\<close>.\<close>

definition run_ends :: "'a list \<Rightarrow> 'a list \<Rightarrow> nat \<Rightarrow> nat \<Rightarrow> nat \<Rightarrow> nat \<Rightarrow> nat \<Rightarrow> bool" where
  "run_ends a b alo blo i j k \<longleftrightarrow> alo + k \<le> i \<and> blo + k \<le> j \<and> (\<forall>r<k. a ! (i - 1 - r) = b ! (j - 1 - r))"

definition runs_ok :: "'a list \<Rightarrow> 'a list \<Rightarrow> nat \<Rightarrow> nat \<Rightarrow> nat \<Rightarrow> nat \<Rightarrow> (nat \<Rightarrow> nat) \<Rightarrow> bool" where
  "runs_ok a b alo blo bhi i t \<longleftrightarrow> (\<forall>j. t j = 0 \<or> run_ends a b alo blo i (j + 1) (t j) \<and> j < bhi)"

lemma run_ends_Suc:
  assumes "run_ends a b alo blo i j k" and "a ! i = b ! j" and "alo \<le> i" and "blo \<le> j"
  shows "run_ends a b alo blo (Suc i) (Suc j) (Suc k)"
proof -
  have "a ! (i - r) = b ! (j - r)" if "r < Suc k" for r
    using that assms(1,2) by (cases r) (auto simp: run_ends_def)
  then show ?thesis using assms by (auto simp: run_ends_def)
qed

lemma run_ends_block:
  assumes "run_ends a b alo blo i j k" and "i \<le> ahi" and "j \<le> bhi"
  shows "block_in a b alo ahi blo bhi \<lparr>blk_a = i - k, blk_b = j - k, blk_size = k\<rparr>"
proof -
  have "a ! (i - k + r) = b ! (j - k + r)" if "r < k" for r
  proof -
    have "k - 1 - r < k" using that by simp
    with assms(1) have "a ! (i - 1 - (k - 1 - r)) = b ! (j - 1 - (k - 1 - r))" by (auto simp: run_ends_def)
    moreover have "i - 1 - (k - 1 - r) = i - k + r" "j - 1 - (k - 1 - r) = j - k + r"
      using that assms(1) by (auto simp: run_ends_def)
    ultimately show ?thesis by simp
  qed
  then show ?thesis using assms by (auto simp: block_in_def run_ends_def)
qed

lemma match_row_ok:
  assumes "runs_ok a b alo blo bhi i old" and "alo \<le> i" and "i < ahi"
    and "list_all (\<lambda>j. b ! j = a ! i) js"
    and "runs_ok a b alo blo bhi (Suc i) new" and "block_in a b alo ahi blo bhi best"
  shows "runs_ok a b alo blo bhi (Suc i) (fst (match_row i blo bhi old js (new, best))) \<and>
    block_in a b alo ahi blo bhi (snd (match_row i blo bhi old js (new, best)))"
  using assms(4-6)
proof (induction js arbitrary: new best)
  case (Cons j js)
  show ?case
  proof (cases "j < blo \<or> j \<ge> bhi")
    case True
    then show ?thesis using Cons by auto
  next
    case False
    define p where "p = (if j = 0 then 0 else old (j - 1))"
    have "run_ends a b alo blo i j p"
    proof (cases "p = 0")
      case True
      then show ?thesis using False assms(2) by (simp add: run_ends_def)
    next
      case p: False
      then obtain l where "j = Suc l" "p = old l" by (cases j) (auto simp: p_def)
      then show ?thesis using p spec [OF assms(1) [unfolded runs_ok_def], of l] by simp
    qed
    then have e: "run_ends a b alo blo (Suc i) (Suc j) (Suc p)"
      using Cons.prems(1) False assms(2) by (intro run_ends_Suc) auto
    define best' where "best' = (if Suc p > blk_size best then \<lparr>blk_a = i + 1 - Suc p, blk_b = j + 1 - Suc p, blk_size = Suc p\<rparr> else best)"
    have "block_in a b alo ahi blo bhi best'"
      using run_ends_block [OF e, of ahi bhi] assms(3) False Cons.prems(3) by (simp add: best'_def)
    moreover have "runs_ok a b alo blo bhi (Suc i) (new(j := Suc p))"
      using Cons.prems(2) e False by (auto simp: runs_ok_def)
    moreover have "match_row i blo bhi old (j # js) (new, best) = match_row i blo bhi old js (new(j := Suc p), best')"
      using False by (simp add: p_def best'_def Let_def)
    moreover have "list_all (\<lambda>j. b ! j = a ! i) js" using Cons.prems(1) by simp
    ultimately show ?thesis using Cons.IH [of "new(j := Suc p)" best'] by (simp only:)
  qed
qed simp

lemma occurrences_all: "list_all (\<lambda>j. b ! j = s) (occurrences b s)"
  by (auto simp: occurrences_def list_all_iff)

lemma match_rows_ok:
  assumes "alo \<le> i" and "i \<le> ahi" and "runs_ok a b alo blo bhi i t" and "block_in a b alo ahi blo bhi best"
  shows "block_in a b alo ahi blo bhi (snd (match_rows a b blo bhi [i..<ahi] (t, best)))"
  using assms
proof (induction "ahi - i" arbitrary: i t best)
  case (Suc n)
  then have i: "i < ahi" "[i..<ahi] = i # [Suc i..<ahi]" by (simp_all add: upt_conv_Cons)
  obtain t' best' where r: "match_row i blo bhi t (occurrences b (a ! i)) (\<lambda>j. 0, best) = (t', best')"
    by (cases "match_row i blo bhi t (occurrences b (a ! i)) (\<lambda>j. 0, best)")
  have "runs_ok a b alo blo bhi (Suc i) (\<lambda>j. 0)" by (simp add: runs_ok_def)
  from match_row_ok [OF Suc.prems(3) Suc.prems(1) i(1) occurrences_all this Suc.prems(4)] r
  have "runs_ok a b alo blo bhi (Suc i) t'" "block_in a b alo ahi blo bhi best'" by simp_all
  then show ?case using Suc.hyps(1) [of "Suc i" t' best'] Suc.hyps(2) Suc.prems(1) i r by simp
qed simp

lemma extend_left_ok:
  "block_in a b alo ahi blo bhi m \<Longrightarrow> block_in a b alo ahi blo bhi (extend_left a b alo blo n m)"
proof (induction n arbitrary: m)
  case (Suc n)
  show ?case
  proof (cases "blk_a m > alo \<and> blk_b m > blo \<and> a ! (blk_a m - 1) = b ! (blk_b m - 1)")
    case True
    have "a ! (blk_a m - 1 + k) = b ! (blk_b m - 1 + k)" if "k < blk_size m + 1" for k
    proof (cases k)
      case (Suc l)
      with that Suc.prems have "a ! (blk_a m + l) = b ! (blk_b m + l)" by (auto simp: block_in_def)
      with True Suc show ?thesis by simp
    qed (use True in simp)
    with True Suc.prems have "block_in a b alo ahi blo bhi \<lparr>blk_a = blk_a m - 1, blk_b = blk_b m - 1, blk_size = blk_size m + 1\<rparr>"
      by (auto simp: block_in_def)
    from Suc.IH [OF this] True show ?thesis by simp
  qed (use Suc.prems in auto)
qed simp

lemma extend_right_ok:
  "block_in a b alo ahi blo bhi m \<Longrightarrow> block_in a b alo ahi blo bhi (extend_right a b ahi bhi n m)"
proof (induction n arbitrary: m)
  case (Suc n)
  show ?case
  proof (cases "blk_a m + blk_size m < ahi \<and> blk_b m + blk_size m < bhi \<and> a ! (blk_a m + blk_size m) = b ! (blk_b m + blk_size m)")
    case True
    then have "block_in a b alo ahi blo bhi (m\<lparr>blk_size := blk_size m + 1\<rparr>)"
      using Suc.prems by (auto simp: block_in_def less_Suc_eq)
    from Suc.IH [OF this] True show ?thesis by simp
  next
    case False
    then show ?thesis using Suc.prems by auto
  qed
qed simp

lemma findLongestMatch_ok:
  assumes "alo \<le> ahi" and "blo \<le> bhi"
  shows "block_in a b alo ahi blo bhi (findLongestMatch a b alo ahi blo bhi)"
  unfolding findLongestMatch_def Let_def
  by (intro extend_right_ok extend_left_ok match_rows_ok) (auto simp: assms runs_ok_def block_in_def)

text \<open>Outside a proper window nothing is found.\<close>

lemma match_row_empty: "bhi < blo \<Longrightarrow> match_row i blo bhi old js st = st"
  by (induction js arbitrary: st) (auto simp: not_less)

lemma match_rows_empty: "bhi < blo \<Longrightarrow> snd (match_rows a b blo bhi is st) = snd st"
proof (induction "is" arbitrary: st)
  case (Cons i "is")
  then show ?case by (cases st) (simp add: match_row_empty)
qed simp

lemma findLongestMatch_found:
  assumes "0 < blk_size (findLongestMatch a b alo ahi blo bhi)"
  shows "block_in a b alo ahi blo bhi (findLongestMatch a b alo ahi blo bhi)"
proof -
  have stay: "extend_left a b alo blo n m = m" if "blk_a m = alo" for n m by (cases n) (simp_all add: that)
  have stay': "extend_right a b ahi bhi n m = m" if "ahi < blk_a m + blk_size m \<or> bhi < blk_b m + blk_size m" for n m
    using that by (cases n) auto
  have "alo \<le> ahi" using assms by (rule_tac ccontr) (simp add: findLongestMatch_def stay stay')
  moreover have "blo \<le> bhi" using assms by (rule_tac ccontr) (simp add: findLongestMatch_def match_rows_empty stay stay')
  ultimately show ?thesis by (rule findLongestMatch_ok)
qed

section \<open>All the blocks\<close>

text \<open>The worklist, its top first; the right-hand span is pushed last and so taken next.\<close>

record span =
  sp_alo :: nat
  sp_ahi :: nat
  sp_blo :: nat
  sp_bhi :: nat

definition span_match :: "'a list \<Rightarrow> 'a list \<Rightarrow> span \<Rightarrow> block" where
  "span_match a b s = findLongestMatch a b (sp_alo s) (sp_ahi s) (sp_blo s) (sp_bhi s)"

definition left_of :: "span \<Rightarrow> block \<Rightarrow> span list" where
  "left_of s m =
    (if sp_alo s < blk_a m \<and> sp_blo s < blk_b m
     then [\<lparr>sp_alo = sp_alo s, sp_ahi = blk_a m, sp_blo = sp_blo s, sp_bhi = blk_b m\<rparr>] else [])"

definition right_of :: "span \<Rightarrow> block \<Rightarrow> span list" where
  "right_of s m =
    (if blk_a m + blk_size m < sp_ahi s \<and> blk_b m + blk_size m < sp_bhi s
     then [\<lparr>sp_alo = blk_a m + blk_size m, sp_ahi = sp_ahi s, sp_blo = blk_b m + blk_size m, sp_bhi = sp_bhi s\<rparr>] else [])"

definition span_weight :: "span \<Rightarrow> nat" where
  "span_weight s = 2 * (sp_ahi s - sp_alo s) + 1"

lemma spans_shrink:
  assumes "0 < blk_size (span_match a b s)"
  shows "sum_list (map span_weight (left_of s (span_match a b s))) + sum_list (map span_weight (right_of s (span_match a b s)))
    < span_weight s"
  using findLongestMatch_found [of a b "sp_alo s" "sp_ahi s" "sp_blo s" "sp_bhi s"] assms
  by (auto simp: span_match_def left_of_def right_of_def span_weight_def block_in_def)

function worklist :: "'a list \<Rightarrow> 'a list \<Rightarrow> span list \<Rightarrow> block list \<Rightarrow> block list" where
  "worklist a b [] matches = matches"
| "worklist a b (s # queue) matches =
    (let m = span_match a b s in
     if blk_size m > 0 then worklist a b (right_of s m @ left_of s m @ queue) (matches @ [m])
     else worklist a b queue matches)"
  by pat_completeness auto
termination
proof (relation "measure (\<lambda>(a, b, queue, matches). sum_list (map span_weight queue))")
  fix a b :: "'a list" and s :: span and queue :: "span list" and matches :: "block list" and m
  assume "m = span_match a b s" and "0 < blk_size m"
  then show "((a, b, right_of s m @ left_of s m @ queue, matches @ [m]), a, b, s # queue, matches)
      \<in> measure (\<lambda>(a, b, queue, matches). sum_list (map span_weight queue))"
    using spans_shrink [of a b s] by simp
qed (simp_all add: span_weight_def)

text \<open>\<open>sortMatches\<close>: the slice before the element is kept reversed, so that the shifting loop runs from its end.\<close>

definition blk_less :: "block \<Rightarrow> block \<Rightarrow> bool" where
  "blk_less v m \<longleftrightarrow> blk_a m > blk_a v \<or> blk_a m = blk_a v \<and> blk_b m > blk_b v"

fun shift_in :: "block \<Rightarrow> block list \<Rightarrow> block list" where
  "shift_in v [] = [v]"
| "shift_in v (m # ms) = (if blk_less v m then m # shift_in v ms else v # m # ms)"

definition sortMatches :: "block list \<Rightarrow> block list" where
  "sortMatches ms = rev (fold shift_in ms [])"

definition keep_block :: "nat \<Rightarrow> nat \<Rightarrow> nat \<Rightarrow> block list" where
  "keep_block i1 j1 k1 = (if k1 > 0 then [\<lparr>blk_a = i1, blk_b = j1, blk_size = k1\<rparr>] else [])"

fun nonAdjacent :: "nat \<Rightarrow> nat \<Rightarrow> nat \<Rightarrow> block list \<Rightarrow> block list" where
  "nonAdjacent i1 j1 k1 [] = keep_block i1 j1 k1"
| "nonAdjacent i1 j1 k1 (m # ms) =
    (if i1 + k1 = blk_a m \<and> j1 + k1 = blk_b m then nonAdjacent i1 j1 (k1 + blk_size m) ms
     else keep_block i1 j1 k1 @ nonAdjacent (blk_a m) (blk_b m) (blk_size m) ms)"

definition matchingBlocks :: "'a list \<Rightarrow> 'a list \<Rightarrow> block list" where
  "matchingBlocks a b =
    (let matches = sortMatches (worklist a b [\<lparr>sp_alo = 0, sp_ahi = length a, sp_blo = 0, sp_bhi = length b\<rparr>] [])
     in nonAdjacent 0 0 0 matches @ [\<lparr>blk_a = length a, blk_b = length b, blk_size = 0\<rparr>])"

section \<open>Opcodes\<close>

datatype op_tag = OpEqual | OpReplace | OpDelete | OpInsert

record opcode =
  op_tag :: op_tag
  op_i1 :: nat
  op_i2 :: nat
  op_j1 :: nat
  op_j2 :: nat

definition gap :: "nat \<Rightarrow> nat \<Rightarrow> block \<Rightarrow> opcode list" where
  "gap i j bl =
    (if i < blk_a bl \<and> j < blk_b bl then [\<lparr>op_tag = OpReplace, op_i1 = i, op_i2 = blk_a bl, op_j1 = j, op_j2 = blk_b bl\<rparr>]
     else if i < blk_a bl then [\<lparr>op_tag = OpDelete, op_i1 = i, op_i2 = blk_a bl, op_j1 = j, op_j2 = blk_b bl\<rparr>]
     else if j < blk_b bl then [\<lparr>op_tag = OpInsert, op_i1 = i, op_i2 = blk_a bl, op_j1 = j, op_j2 = blk_b bl\<rparr>]
     else [])"

fun opcodes_from :: "nat \<Rightarrow> nat \<Rightarrow> block list \<Rightarrow> opcode list" where
  "opcodes_from i j [] = []"
| "opcodes_from i j (bl # bls) =
    gap i j bl @
    (if blk_size bl > 0
     then [\<lparr>op_tag = OpEqual, op_i1 = blk_a bl, op_i2 = blk_a bl + blk_size bl, op_j1 = blk_b bl, op_j2 = blk_b bl + blk_size bl\<rparr>] else []) @
    opcodes_from (blk_a bl + blk_size bl) (blk_b bl + blk_size bl) bls"

definition getOpcodes :: "'a list \<Rightarrow> 'a list \<Rightarrow> opcode list" where
  "getOpcodes a b = opcodes_from 0 0 (matchingBlocks a b)"

section \<open>The blocks are a chain\<close>

definition before :: "block \<Rightarrow> block \<Rightarrow> bool" where
  "before m n \<longleftrightarrow> blk_a m + blk_size m \<le> blk_a n \<and> blk_b m + blk_size m \<le> blk_b n"

text \<open>The specification of the worklist: the blocks of a span from left to right.\<close>

function in_order :: "'a list \<Rightarrow> 'a list \<Rightarrow> span \<Rightarrow> block list" where
  "in_order a b s =
    (let m = span_match a b s in
     if blk_size m = 0 then []
     else concat (map (in_order a b) (left_of s m)) @ [m] @ concat (map (in_order a b) (right_of s m)))"
  by pat_completeness auto
termination
proof (relation "measure (\<lambda>(a, b, s). span_weight s)")
  fix a b :: "'a list" and s m x
  assume m: "m = span_match a b s" "blk_size m \<noteq> 0"
  then have w: "sum_list (map span_weight (left_of s m)) + sum_list (map span_weight (right_of s m)) < span_weight s"
    using spans_shrink [of a b s] by simp
  show "((a, b, x), a, b, s) \<in> measure (\<lambda>(a, b, s). span_weight s)" if "x \<in> set (left_of s m)"
    using that w by (auto simp: left_of_def split: if_splits)
  show "((a, b, x), a, b, s) \<in> measure (\<lambda>(a, b, s). span_weight s)" if "x \<in> set (right_of s m)"
    using that w by (auto simp: right_of_def split: if_splits)
qed simp

declare in_order.simps [simp del]

lemma worklist_mset:
  "mset (worklist a b queue matches) = mset matches + (\<Sum>s\<leftarrow>queue. mset (in_order a b s))"
proof (induction a b queue matches rule: worklist.induct)
  case (2 a b s queue matches)
  define m where "m = span_match a b s"
  have sums: "mset (concat (map (in_order a b) xs)) = (\<Sum>s\<leftarrow>xs. mset (in_order a b s))" for xs
    by (induction xs) simp_all
  have "mset (in_order a b s) = (if blk_size m = 0 then {#} else
      (\<Sum>s\<leftarrow>left_of s m. mset (in_order a b s)) + {#m#} + (\<Sum>s\<leftarrow>right_of s m. mset (in_order a b s)))"
    by (subst in_order.simps) (simp add: m_def Let_def sums)
  then show ?case using 2 by (simp add: m_def Let_def)
qed simp

definition in_span :: "'a list \<Rightarrow> 'a list \<Rightarrow> span \<Rightarrow> block \<Rightarrow> bool" where
  "in_span a b s m \<longleftrightarrow> block_in a b (sp_alo s) (sp_ahi s) (sp_blo s) (sp_bhi s) m \<and> 0 < blk_size m"

lemma in_span_left: "x \<in> set (left_of s m) \<Longrightarrow> in_span a b s m \<Longrightarrow> in_span a b x n \<Longrightarrow> in_span a b s n \<and> before n m"
  by (auto simp: left_of_def in_span_def block_in_def before_def split: if_splits)

lemma in_span_right: "x \<in> set (right_of s m) \<Longrightarrow> in_span a b s m \<Longrightarrow> in_span a b x n \<Longrightarrow> in_span a b s n \<and> before m n"
  by (auto simp: right_of_def in_span_def block_in_def before_def split: if_splits)

lemma side_spans: "left_of s m = [] \<or> (\<exists>x. left_of s m = [x])" "right_of s m = [] \<or> (\<exists>x. right_of s m = [x])"
  by (simp_all add: left_of_def right_of_def)

lemma in_order_chain:
  "list_all (in_span a b s) (in_order a b s) \<and> sorted_wrt before (in_order a b s)"
proof (induction a b s rule: in_order.induct)
  case (1 a b s)
  define m where "m = span_match a b s"
  show ?case
  proof (cases "blk_size m = 0")
    case True
    then have "in_order a b s = []" by (subst in_order.simps) (simp add: m_def Let_def)
    then show ?thesis by simp
  next
    case False
    define l where "l = concat (map (in_order a b) (left_of s m))"
    define r where "r = concat (map (in_order a b) (right_of s m))"
    have eq: "in_order a b s = l @ m # r"
      using False by (subst in_order.simps) (simp add: m_def Let_def l_def r_def)
    have m: "in_span a b s m"
      using findLongestMatch_found [of a b "sp_alo s" "sp_ahi s" "sp_blo s" "sp_bhi s"] False
      by (simp add: in_span_def m_def span_match_def)
    have "sorted_wrt before l"
      using 1(1) [OF m_def False] side_spans(1) [of s m] by (auto simp: l_def)
    moreover have "list_all (\<lambda>n. in_span a b s n \<and> before n m) l"
      using 1(1) [OF m_def False] in_span_left [OF _ m] by (fastforce simp: l_def list_all_iff)
    ultimately have l: "sorted_wrt before l" "list_all (\<lambda>n. in_span a b s n \<and> before n m) l" .
    have "sorted_wrt before r"
      using 1(2) [OF m_def False] side_spans(2) [of s m] by (auto simp: r_def)
    moreover have "list_all (\<lambda>n. in_span a b s n \<and> before m n) r"
      using 1(2) [OF m_def False] in_span_right [OF _ m] by (fastforce simp: r_def list_all_iff)
    ultimately have r: "sorted_wrt before r" "list_all (\<lambda>n. in_span a b s n \<and> before m n) r" .
    have "before x y" if "x \<in> set l" "y \<in> set r" for x y
      using that l(2) r(2) by (fastforce simp: list_all_iff before_def)
    then show ?thesis using m l r by (auto simp: eq list_all_iff sorted_wrt_append)
  qed
qed

lemma mset_shift_in [simp]: "mset (shift_in v ms) = add_mset v (mset ms)"
  by (induction ms) auto

lemma mset_sortMatches [simp]: "mset (sortMatches ms) = mset ms"
proof -
  have "mset (fold shift_in ms xs) = mset xs + mset ms" for xs
    by (induction ms arbitrary: xs) simp_all
  then show ?thesis by (simp add: sortMatches_def)
qed

lemma shift_in_sorted:
  "sorted_wrt (\<lambda>m n. blk_a n \<le> blk_a m) ms \<Longrightarrow> sorted_wrt (\<lambda>m n. blk_a n \<le> blk_a m) (shift_in v ms)"
proof (induction ms)
  case (Cons m ms)
  have "set (shift_in v ms) = insert v (set ms)" by (metis mset_shift_in set_mset_add_mset_insert set_mset_mset)
  then show ?case using Cons by (auto simp: blk_less_def)
qed simp

lemma sortMatches_sorted: "sorted (map blk_a (sortMatches ms))"
proof -
  have "sorted_wrt (\<lambda>m n. blk_a n \<le> blk_a m) (fold shift_in ms xs)" if "sorted_wrt (\<lambda>m n. blk_a n \<le> blk_a m) xs" for xs
    using that by (induction ms arbitrary: xs) (simp_all add: shift_in_sorted)
  from this [of "[]"] show ?thesis by (simp add: sortMatches_def sorted_wrt_rev sorted_map)
qed

text \<open>Sorting puts the blocks in the order of the specification, whatever order the worklist found them in.\<close>

lemma sort_worklist: "sortMatches (worklist a b [s] []) = in_order a b s"
proof -
  let ?xs = "sortMatches (worklist a b [s] [])" and ?ys = "in_order a b s"
  have m: "mset ?xs = mset ?ys" unfolding mset_sortMatches worklist_mset by simp
  have ys: "sorted_wrt (\<lambda>m n. blk_a m < blk_a n) ?ys"
    using in_order_chain [of a b s]
    by (auto simp: list_all_iff in_span_def before_def elim!: sorted_wrt_mono_rel [rotated])
  then have strict: "sorted_wrt (<) (map blk_a ?ys)" by (simp add: sorted_wrt_map)
  then have "distinct (map blk_a ?ys)" "sorted (map blk_a ?ys)" by (simp_all add: strict_sorted_iff)
  moreover have "mset (map blk_a ?xs) = mset (map blk_a ?ys)" using m by simp
  ultimately have "map blk_a ?xs = map blk_a ?ys"
    using sortMatches_sorted by (metis properties_for_sort)
  moreover have "inj_on blk_a (set ?xs \<union> set ?ys)"
    using \<open>distinct (map blk_a ?ys)\<close> mset_eq_setD [OF m] by (simp add: distinct_map)
  ultimately show ?thesis by (metis map_inj_on)
qed

text \<open>Blocks from a position on: each begins where the one before it ended, or later, and its tokens are equal.\<close>

fun chain :: "'a list \<Rightarrow> 'a list \<Rightarrow> nat \<Rightarrow> nat \<Rightarrow> block list \<Rightarrow> bool" where
  "chain a b i j [] \<longleftrightarrow> True"
| "chain a b i j (m # ms) \<longleftrightarrow>
    i \<le> blk_a m \<and> j \<le> blk_b m \<and> block_in a b 0 (length a) 0 (length b) m \<and>
    chain a b (blk_a m + blk_size m) (blk_b m + blk_size m) ms"

lemma chain_mono: "chain a b i j ms \<Longrightarrow> i' \<le> i \<Longrightarrow> j' \<le> j \<Longrightarrow> chain a b i' j' ms"
  by (cases ms) auto

lemma chain_in_order:
  assumes "sorted_wrt before ms" and "list_all (block_in a b 0 (length a) 0 (length b)) ms"
    and "list_all (\<lambda>m. i \<le> blk_a m \<and> j \<le> blk_b m) ms"
  shows "chain a b i j ms"
  using assms by (induction ms arbitrary: i j) (auto simp: before_def list_all_iff)

lemma block_in_join:
  assumes "block_in a b 0 la 0 lb \<lparr>blk_a = i, blk_b = j, blk_size = k\<rparr>" and "block_in a b 0 la 0 lb m"
    and "i + k = blk_a m" and "j + k = blk_b m"
  shows "block_in a b 0 la 0 lb \<lparr>blk_a = i, blk_b = j, blk_size = k + blk_size m\<rparr>"
proof -
  have "a ! (i + r) = b ! (j + r)" if "r < k + blk_size m" for r
  proof (cases "r < k")
    case False
    then have "r - k < blk_size m" using that by simp
    then have "a ! (blk_a m + (r - k)) = b ! (blk_b m + (r - k))" using assms(2) by (simp add: block_in_def)
    moreover have "blk_a m + (r - k) = i + r" "blk_b m + (r - k) = j + r" using False assms(3,4) by simp_all
    ultimately show ?thesis by simp
  qed (use assms(1) in \<open>simp add: block_in_def\<close>)
  then show ?thesis using assms by (simp add: block_in_def)
qed

lemma chain_nonAdjacent:
  assumes "chain a b (i + k) (j + k) ms" and "block_in a b 0 (length a) 0 (length b) \<lparr>blk_a = i, blk_b = j, blk_size = k\<rparr>"
  shows "chain a b i j (nonAdjacent i j k ms)"
  using assms
proof (induction i j k ms rule: nonAdjacent.induct)
  case (2 i j k m ms)
  show ?case
  proof (cases "i + k = blk_a m \<and> j + k = blk_b m")
    case True
    then have "chain a b (i + (k + blk_size m)) (j + (k + blk_size m)) ms"
      using 2(3) by (simp add: add.assoc [symmetric])
    then show ?thesis using True 2(1) 2(3) block_in_join [OF 2(4), of m] by simp
  next
    case False
    have "chain a b (blk_a m) (blk_b m) (nonAdjacent (blk_a m) (blk_b m) (blk_size m) ms)"
      using 2(2) [OF False] 2(3) by (simp add: block_in_def)
    with False 2(3,4) show ?thesis
      by (auto simp: keep_block_def intro: chain_mono)
  qed
qed (auto simp: keep_block_def)

lemma chain_matchingBlocks: "chain a b 0 0 (matchingBlocks a b)"
proof -
  define s where "s = \<lparr>sp_alo = 0, sp_ahi = length a, sp_blo = 0, sp_bhi = length b\<rparr>"
  have "chain a b 0 0 (in_order a b s)"
    using in_order_chain [of a b s] by (intro chain_in_order) (auto simp: list_all_iff in_span_def s_def)
  then have c: "chain a b 0 0 (nonAdjacent 0 0 0 (in_order a b s))"
    using chain_nonAdjacent [of a b 0 0 0] by (simp add: block_in_def)
  have "chain a b i j ms \<Longrightarrow> i \<le> length a \<Longrightarrow> j \<le> length b \<Longrightarrow>
      chain a b i j (ms @ [\<lparr>blk_a = length a, blk_b = length b, blk_size = 0\<rparr>])" for i j ms
    by (induction ms arbitrary: i j) (auto simp: block_in_def)
  from this [OF c] show ?thesis
    by (simp add: matchingBlocks_def sort_worklist s_def [symmetric] del: worklist.simps)
qed

section \<open>The opcodes tile both sequences\<close>

definition slice :: "'a list \<Rightarrow> nat \<Rightarrow> nat \<Rightarrow> 'a list" where
  "slice xs i j = take (j - i) (drop i xs)"

lemma slice_append: "i \<le> j \<Longrightarrow> j \<le> k \<Longrightarrow> slice xs i j @ slice xs j k = slice xs i k"
  using take_add [of "j - i" "k - j" "drop i xs"] by (simp add: slice_def)

lemma slice_same [simp]: "slice xs i i = []"
  by (simp add: slice_def)

definition a_parts :: "'a list \<Rightarrow> opcode list \<Rightarrow> 'a list" where
  "a_parts a ops = concat (map (\<lambda>p. slice a (op_i1 p) (op_i2 p)) ops)"

definition b_parts :: "'a list \<Rightarrow> opcode list \<Rightarrow> 'a list" where
  "b_parts b ops = concat (map (\<lambda>p. slice b (op_j1 p) (op_j2 p)) ops)"

lemma parts_simps [simp]:
  "a_parts a [] = []" "b_parts a [] = []"
  "a_parts a (p # ops) = slice a (op_i1 p) (op_i2 p) @ a_parts a ops"
  "b_parts a (p # ops) = slice a (op_j1 p) (op_j2 p) @ b_parts a ops"
  "a_parts a (ops @ ops') = a_parts a ops @ a_parts a ops'" "b_parts a (ops @ ops') = b_parts a ops @ b_parts a ops'"
  by (simp_all add: a_parts_def b_parts_def)

lemma gap_parts:
  assumes "i \<le> blk_a m" and "j \<le> blk_b m"
  shows "a_parts a (gap i j m) = slice a i (blk_a m)" and "b_parts b (gap i j m) = slice b j (blk_b m)"
  using assms by (auto simp: gap_def)

lemma opcodes_parts:
  assumes "chain a b i j (ms @ [\<lparr>blk_a = length a, blk_b = length b, blk_size = 0\<rparr>])"
  shows "a_parts a (opcodes_from i j (ms @ [\<lparr>blk_a = length a, blk_b = length b, blk_size = 0\<rparr>])) = drop i a \<and>
    b_parts b (opcodes_from i j (ms @ [\<lparr>blk_a = length a, blk_b = length b, blk_size = 0\<rparr>])) = drop j b"
  using assms
proof (induction ms arbitrary: i j)
  case Nil
  then show ?case by (simp add: gap_parts slice_def)
next
  case (Cons m ms)
  define rest where "rest = ms @ [\<lparr>blk_a = length a, blk_b = length b, blk_size = 0\<rparr>]"
  from Cons.prems have c: "i \<le> blk_a m" "j \<le> blk_b m" "chain a b (blk_a m + blk_size m) (blk_b m + blk_size m) rest"
    by (simp_all add: rest_def)
  have d: "slice xs i (k + n) @ drop (k + n) xs = drop i xs" if "i \<le> k" for xs :: "'a list" and i k n
    using that append_take_drop_id [of "k + n - i" "drop i xs"] by (simp add: slice_def)
  have "slice a i (blk_a m) @ slice a (blk_a m) (blk_a m + blk_size m) = slice a i (blk_a m + blk_size m)"
    "slice b j (blk_b m) @ slice b (blk_b m) (blk_b m + blk_size m) = slice b j (blk_b m + blk_size m)"
    using c by (simp_all add: slice_append)
  moreover have "a_parts a (opcodes_from (blk_a m + blk_size m) (blk_b m + blk_size m) rest) = drop (blk_a m + blk_size m) a"
    "b_parts b (opcodes_from (blk_a m + blk_size m) (blk_b m + blk_size m) rest) = drop (blk_b m + blk_size m) b"
    using Cons.IH c(3) unfolding rest_def by blast+
  ultimately show ?case using c d [OF c(1), of a "blk_size m"] d [OF c(2), of b "blk_size m"]
    by (cases "blk_size m") (simp_all add: gap_parts rest_def [symmetric] flip: append_assoc)
qed

text \<open>The pieces the opcodes cut out of the first sequence, put together, are that sequence, and the same for the second.\<close>

lemma opcodes_tile:
  "a_parts a (getOpcodes a b) = a \<and> b_parts b (getOpcodes a b) = b"
  using opcodes_parts [of a b 0 0] chain_matchingBlocks [of a b]
  by (simp add: getOpcodes_def matchingBlocks_def Let_def del: worklist.simps)

text \<open>The pieces an equal opcode cuts out are equal.\<close>

lemma block_slices:
  assumes "block_in a b 0 (length a) 0 (length b) m"
  shows "slice a (blk_a m) (blk_a m + blk_size m) = slice b (blk_b m) (blk_b m + blk_size m)"
  using assms by (intro nth_equalityI) (auto simp: slice_def block_in_def)

lemma gap_not_equal: "p \<in> set (gap i j m) \<Longrightarrow> op_tag p \<noteq> OpEqual"
  by (auto simp: gap_def split: if_splits)

lemma opcodes_equal:
  assumes "chain a b i j ms" and "p \<in> set (opcodes_from i j ms)" and "op_tag p = OpEqual"
  shows "slice a (op_i1 p) (op_i2 p) = slice b (op_j1 p) (op_j2 p)"
  using assms
proof (induction ms arbitrary: i j)
  case (Cons m ms)
  then show ?case using block_slices [of a b m] gap_not_equal [of p i j m] by (auto split: if_splits)
qed simp

lemma equal_opcodes_agree:
  assumes "p \<in> set (getOpcodes a b)" and "op_tag p = OpEqual"
  shows "slice a (op_i1 p) (op_i2 p) = slice b (op_j1 p) (op_j2 p)"
  using opcodes_equal [OF chain_matchingBlocks] assms by (simp add: getOpcodes_def)

end
