(* ===== verification/Text_Markup.thy ===== *)
theory Text_Markup
  imports Go_Strings
begin

text \<open>
  The character arithmetic of spoken text, \<^verbatim>\<open>src/utils/context/\<close>: letters, digits and folding (\<open>alnum.go\<close>),
  markup (\<open>markup.go\<close>), merging of word timings (\<open>wordtimestamps.go\<close>) and words from per-character timings
  (\<open>charwords.go\<close>).

  Texts are ASCII, so a rune is a character; the tables for accents and typographic quotes hold only other
  runes and fold nothing here. A timing offset is kept as the duration it becomes.
\<close>

section \<open>Letters and digits (alnum.go)\<close>

definition isLetter :: "char \<Rightarrow> bool" where
  "isLetter c \<longleftrightarrow> in_range CHR ''a'' CHR ''z'' c \<or> in_range CHR ''A'' CHR ''Z'' c"

definition isAlnum :: "char \<Rightarrow> bool" where
  "isAlnum c \<longleftrightarrow> isLetter c \<or> in_range CHR ''0'' CHR ''9'' c"

text \<open>The ASCII characters of the Unicode punctuation categories; \<open>$+<=>^`|~\<close> are symbols.\<close>

definition isPunct :: "char \<Rightarrow> bool" where
  "isPunct c \<longleftrightarrow> c \<in> set ''!#%&()*,-./:;?@[]_{}'' \<or> c = CHR 0x22 \<or> c = CHR 0x27 \<or> c = CHR 0x5C"

definition stripTrailingPunctuation :: "string \<Rightarrow> string" where
  "stripTrailingPunctuation s = rev (dropWhile isPunct (rev s))"

definition foldForMatching :: "string \<Rightarrow> string" where
  "foldForMatching s = map (\<lambda>r. if isLetter r then to_lower r else r) s"

section \<open>Markup (markup.go)\<close>

text \<open>\<open><[^>]+>\<close> at the front of a text: how long the match is, if there is one.\<close>

fun tag_length :: "string \<Rightarrow> nat option" where
  "tag_length [] = None"
| "tag_length (c # cs) =
    (let inner = takeWhile (\<lambda>d. d \<noteq> CHR ''>'') cs in
     if c = CHR ''<'' \<and> inner \<noteq> [] \<and> length inner < length cs then Some (length inner + 2) else None)"

lemma tag_length_bounds: "tag_length s = Some n \<Longrightarrow> 2 < n \<and> n \<le> length s"
  by (cases s) (auto simp: Let_def split: if_splits)

function stripCompleteMarkup :: "string \<Rightarrow> string" where
  "stripCompleteMarkup [] = []"
| "stripCompleteMarkup (c # cs) =
    (case tag_length (c # cs) of
       Some n \<Rightarrow> stripCompleteMarkup (drop n (c # cs))
     | None \<Rightarrow> c # stripCompleteMarkup cs)"
  by pat_completeness auto
termination
proof (relation "measure length")
  fix c cs n
  assume "tag_length (c # cs) = Some n"
  then show "(drop n (c # cs), c # cs) \<in> measure length" using tag_length_bounds [of "c # cs" n] by auto
qed auto

declare stripCompleteMarkup.simps [simp del]

fun clean_chars :: "nat \<Rightarrow> bool \<Rightarrow> string \<Rightarrow> nat list" where
  "clean_chars i inTag [] = []"
| "clean_chars i inTag (r # rs) =
    (if inTag then clean_chars (Suc i) (r \<noteq> CHR ''>'') rs
     else if r = CHR ''<'' then clean_chars (Suc i) True rs
     else i # clean_chars (Suc i) False rs)"

definition iterCleanChars :: "string \<Rightarrow> nat list" where
  "iterCleanChars s = clean_chars 0 False s"

definition stripMarkup :: "string \<Rightarrow> string" where
  "stripMarkup s = map (\<lambda>j. s ! j) (iterCleanChars s)"

definition rawLenForCleanChars :: "string \<Rightarrow> nat \<Rightarrow> nat" where
  "rawLenForCleanChars s n =
    (if n = 0 then 0
     else let idx = iterCleanChars s in if n \<le> length idx then idx ! (n - 1) + 1 else length s)"

function tokenize_from :: "string \<Rightarrow> string \<Rightarrow> string list" where
  "tokenize_from cur [] = [cur]"
| "tokenize_from cur (c # cs) =
    (if IsSpace c then cur # (c # takeWhile IsSpace cs) # tokenize_from [] (dropWhile IsSpace cs)
     else tokenize_from (cur @ [c]) cs)"
  by pat_completeness auto
termination by (relation "measure (length \<circ> snd)") (auto simp: less_Suc_eq_le length_dropWhile_le)

definition tokenizeWS :: "string \<Rightarrow> string list" where
  "tokenizeWS s = tokenize_from [] s"

function tag_spans :: "nat \<Rightarrow> string \<Rightarrow> (nat \<times> nat) list" where
  "tag_spans i [] = []"
| "tag_spans i (c # cs) =
    (case tag_length (c # cs) of
       Some n \<Rightarrow> (i, i + n) # tag_spans (i + n) (drop n (c # cs))
     | None \<Rightarrow> tag_spans (Suc i) cs)"
  by pat_completeness auto
termination
proof (relation "measure (length \<circ> snd)")
  fix i c cs n
  assume "tag_length (c # cs) = Some n"
  then show "((i + n, drop n (c # cs)), i, c # cs) \<in> measure (length \<circ> snd)" using tag_length_bounds [of "c # cs" n] by auto
qed auto

definition markupRuneSpans :: "string \<Rightarrow> (nat \<times> nat) list" where
  "markupRuneSpans s = tag_spans 0 s"

text \<open>The runs so far, the classification of the last of them (none before the first token), and the position.\<close>

fun split_runs :: "(nat \<times> nat) list \<Rightarrow> nat \<Rightarrow> bool option \<Rightarrow> string list \<Rightarrow> string list \<Rightarrow> string list" where
  "split_runs spans pos cur runs [] = runs"
| "split_runs spans pos cur runs (token # tokens) =
    (if token = [] then split_runs spans pos cur runs tokens
     else let end_pos = pos + length token;
              tagged = list_ex (\<lambda>(a, b). a < end_pos \<and> pos < b) spans
          in if cur = Some tagged then split_runs spans end_pos cur (butlast runs @ [last runs @ token]) tokens
             else split_runs spans end_pos (Some tagged) (runs @ [token]) tokens)"

definition splitMarkupRuns :: "string \<Rightarrow> string list" where
  "splitMarkupRuns s =
    (let spans = markupRuneSpans s in
     if spans = [] then (if s = [] then [] else [s]) else split_runs spans 0 None [] (tokenizeWS s))"

section \<open>Advancing by letters and digits (alnum.go)\<close>

definition alnumOnly :: "string \<Rightarrow> string" where
  "alnumOnly s = map to_lower (filter isAlnum (stripCompleteMarkup s))"

definition hasAlnum :: "string \<Rightarrow> bool" where
  "hasAlnum s \<longleftrightarrow> alnumOnly s \<noteq> []"

text \<open>The first loop of \<open>advanceByAlnums\<close>: how many runes it steps over. A closed tag is stepped over whole.\<close>

function alnum_steps :: "nat \<Rightarrow> string \<Rightarrow> nat" where
  "alnum_steps n [] = 0"
| "alnum_steps n (c # cs) =
    (if n = 0 then 0
     else if c = CHR ''<'' then
       (let inner = length (takeWhile (\<lambda>d. d \<noteq> CHR ''>'') cs) in
        if inner < length cs then inner + 2 + alnum_steps n (drop (inner + 1) cs) else 1 + alnum_steps n cs)
     else if isAlnum c then 1 + alnum_steps (n - 1) cs
     else 1 + alnum_steps n cs)"
  by pat_completeness auto
termination by (relation "measure (length \<circ> snd)") auto

definition punct_steps :: "string \<Rightarrow> nat" where
  "punct_steps s = length (takeWhile (\<lambda>c. \<not> (c = CHR ''<'' \<or> isAlnum c \<or> IsSpace c)) s)"

definition advanceByAlnums :: "string \<Rightarrow> nat \<Rightarrow> nat \<Rightarrow> nat" where
  "advanceByAlnums runes startPos n =
    (let pos = startPos + alnum_steps n (drop startPos runes) in pos + punct_steps (drop pos runes))"

section \<open>Word timings (wordtimestamps.go, charwords.go)\<close>

record WordTiming =
  wt_Word :: string
  wt_Offset :: duration

definition containsAlnum :: "string \<Rightarrow> bool" where
  "containsAlnum s \<longleftrightarrow> list_ex isAlnum s"

fun merge_words :: "WordTiming list \<Rightarrow> WordTiming list \<Rightarrow> WordTiming list" where
  "merge_words merged [] = merged"
| "merge_words merged (wt # ws) =
    (if containsAlnum (stripMarkup (wt_Word wt)) then merge_words (merged @ [wt]) ws
     else if merged \<noteq> [] then merge_words (butlast merged @ [(last merged)\<lparr>wt_Word := wt_Word (last merged) @ wt_Word wt\<rparr>]) ws
     else merge_words merged ws)"

definition MergePunctTokens :: "WordTiming list \<Rightarrow> WordTiming list" where
  "MergePunctTokens words = map (\<lambda>w. w\<lparr>wt_Word := TrimSpace (wt_Word w)\<rparr>) (merge_words [] words)"

record CharAccumulator =
  ca_word :: string
  ca_start :: duration
  ca_started :: bool

definition ca_zero :: CharAccumulator where
  "ca_zero = \<lparr>ca_word = [], ca_start = 0, ca_started = False\<rparr>"

definition ca_Flush :: "CharAccumulator \<Rightarrow> CharAccumulator \<times> WordTiming option" where
  "ca_Flush a = (ca_zero, if ca_word a = [] then None else Some \<lparr>wt_Word = ca_word a, wt_Offset = ca_start a\<rparr>)"

fun ca_fold :: "(string \<times> duration) list \<Rightarrow> CharAccumulator \<Rightarrow> CharAccumulator \<times> WordTiming list" where
  "ca_fold [] a = (a, [])"
| "ca_fold ((ch, start) # cs) a =
    (if TrimSpace ch = [] then
       (case ca_Flush a of (a, w) \<Rightarrow> case ca_fold cs a of (a, ws) \<Rightarrow> (a, (case w of None \<Rightarrow> ws | Some w \<Rightarrow> w # ws)))
     else
       let a = (if ca_started a then a else a\<lparr>ca_start := start, ca_started := True\<rparr>)
       in ca_fold cs (a\<lparr>ca_word := ca_word a @ ch\<rparr>))"

text \<open>Batches of unequal length are refused before anything changes.\<close>

definition ca_Add :: "string list \<Rightarrow> duration list \<Rightarrow> CharAccumulator \<Rightarrow> (CharAccumulator \<times> WordTiming list) option" where
  "ca_Add chars starts a = (if length chars \<noteq> length starts then None else Some (ca_fold (zip chars starts) a))"

definition CharsAsWords :: "string list \<Rightarrow> duration list \<Rightarrow> WordTiming list option" where
  "CharsAsWords chars starts =
    (if length chars \<noteq> length starts then None
     else Some (map (\<lambda>(ch, t). \<lparr>wt_Word = ch, wt_Offset = t\<rparr>) (filter (\<lambda>(ch, t). containsAlnum ch) (zip chars starts))))"

section \<open>Cutting loses nothing\<close>

lemma concat_tokenize: "concat (tokenize_from cur s) = cur @ s"
proof (induction cur s rule: tokenize_from.induct)
  case (2 cur c cs)
  then show ?case by simp
qed simp

lemma concat_tokenizeWS [simp]: "concat (tokenizeWS s) = s"
  by (simp add: tokenizeWS_def concat_tokenize)

lemma concat_split_runs:
  "(cur \<noteq> None \<Longrightarrow> runs \<noteq> []) \<Longrightarrow> concat (split_runs spans pos cur runs tokens) = concat runs @ concat tokens"
proof (induction spans pos cur runs tokens rule: split_runs.induct)
  case (2 spans pos cur runs token tokens)
  have "concat runs = concat (butlast runs) @ last runs" if "runs \<noteq> []"
    by (metis append_butlast_last_id concat.simps concat_append self_append_conv that)
  then show ?case using 2 by (auto simp: Let_def)
qed simp

lemma concat_splitMarkupRuns [simp]: "concat (splitMarkupRuns s) = s"
  using concat_split_runs [of None "[]" "markupRuneSpans s" 0 "tokenizeWS s"] by (simp add: splitMarkupRuns_def Let_def)

lemma length_foldForMatching [simp]: "length (foldForMatching s) = length s"
  by (simp add: foldForMatching_def)

lemma length_stripTrailing [simp]: "length (stripTrailingPunctuation s) \<le> length s"
  using length_dropWhile_le [of isPunct "rev s"] by (simp add: stripTrailingPunctuation_def)

section \<open>Positions stay in the text\<close>

lemma alnum_steps_le: "alnum_steps n s \<le> length s"
proof (induction n s rule: alnum_steps.induct)
  case (2 n c cs)
  then show ?case by (auto simp: Let_def)
qed simp

lemma punct_steps_le: "punct_steps s \<le> length s"
  by (simp add: punct_steps_def length_takeWhile_le)

lemma advanceByAlnums_ge: "startPos \<le> advanceByAlnums runes startPos n"
  by (simp add: advanceByAlnums_def Let_def)

lemma advanceByAlnums_le:
  assumes "startPos \<le> length runes"
  shows "advanceByAlnums runes startPos n \<le> length runes"
proof -
  define pos where "pos = startPos + alnum_steps n (drop startPos runes)"
  have "pos \<le> length runes" using alnum_steps_le [of n "drop startPos runes"] assms by (simp add: pos_def)
  then show ?thesis using punct_steps_le [of "drop pos runes"] by (simp add: advanceByAlnums_def Let_def flip: pos_def)
qed

text \<open>The clean characters of a text are positions in it, in order.\<close>

lemma clean_chars_bounds: "j \<in> set (clean_chars i inTag s) \<Longrightarrow> i \<le> j \<and> j < i + length s"
  by (induction i inTag s rule: clean_chars.induct) (fastforce split: if_splits)+

lemma clean_chars_sorted: "sorted_wrt (<) (clean_chars i inTag s)"
  by (induction i inTag s rule: clean_chars.induct) (auto dest: clean_chars_bounds)

lemma rawLen_le: "rawLenForCleanChars s n \<le> length s"
  using clean_chars_bounds [of "iterCleanChars s ! (n - 1)" 0 False s]
  by (auto simp: rawLenForCleanChars_def iterCleanChars_def Let_def)

text \<open>\<open>rawLenForCleanChars\<close> inverts the stripping of a prefix.\<close>

fun strip_rec :: "bool \<Rightarrow> string \<Rightarrow> string" where
  "strip_rec inTag [] = []"
| "strip_rec inTag (r # rs) =
    (if inTag then strip_rec (r \<noteq> CHR ''>'') rs
     else if r = CHR ''<'' then strip_rec True rs else r # strip_rec False rs)"

lemma strip_clean: "map (\<lambda>j. (xs @ s) ! j) (clean_chars (length xs) inTag s) = strip_rec inTag s"
proof (induction s arbitrary: xs inTag)
  case (Cons r rs)
  have "map (\<lambda>j. (xs @ r # rs) ! j) (clean_chars (Suc (length xs)) t rs) = strip_rec t rs" for t
    using Cons.IH [of "xs @ [r]" t] by simp
  then show ?case by auto
qed simp

lemma stripMarkup_rec: "stripMarkup s = strip_rec False s"
  using strip_clean [of "[]" s False] by (simp add: stripMarkup_def iterCleanChars_def)

lemma strip_take:
  assumes "n < length (clean_chars i inTag s)"
  shows "strip_rec inTag (take (Suc (clean_chars i inTag s ! n) - i) s) = take (Suc n) (strip_rec inTag s)"
  using assms
proof (induction s arbitrary: i inTag n)
  case (Cons r rs)
  have later: "i < clean_chars (Suc i) t rs ! k" if "k < length (clean_chars (Suc i) t rs)" for t k
    using clean_chars_bounds [OF nth_mem [OF that]] by simp
  have ih: "strip_rec t (take (clean_chars (Suc i) t rs ! k - i) rs) = take (Suc k) (strip_rec t rs)"
    if "k < length (clean_chars (Suc i) t rs)" for t k
    using Cons.IH [OF that] by simp
  have step: "take (Suc (clean_chars (Suc i) t rs ! k) - i) (r # rs) = r # take (Suc (clean_chars (Suc i) t rs ! k) - Suc i) rs"
    if "k < length (clean_chars (Suc i) t rs)" for t k
    using later [OF that] by (simp add: take_Cons' Suc_diff_le)
  show ?case
  proof (cases inTag)
    case True
    then show ?thesis using Cons.prems step ih by simp
  next
    case out: False
    show ?thesis
    proof (cases "r = CHR ''<''")
      case True
      then show ?thesis using Cons.prems step ih out by simp
    next
      case False
      show ?thesis
      proof (cases n)
        case 0
        then show ?thesis using out False by simp
      next
        case (Suc k)
        then show ?thesis using Cons.prems step ih out False by simp
      qed
    qed
  qed
qed simp

lemma rawLen_inverts_strip:
  assumes "n \<le> length (stripMarkup s)"
  shows "stripMarkup (take (rawLenForCleanChars s n) s) = take n (stripMarkup s)"
proof (cases n)
  case (Suc k)
  then have k: "k < length (clean_chars 0 False s)" using assms by (simp add: stripMarkup_def iterCleanChars_def)
  then have "rawLenForCleanChars s n = Suc (clean_chars 0 False s ! k)"
    using Suc by (simp add: rawLenForCleanChars_def iterCleanChars_def Let_def)
  then show ?thesis using strip_take [OF k] Suc by (simp add: stripMarkup_rec)
qed (simp add: rawLenForCleanChars_def stripMarkup_def iterCleanChars_def)

section \<open>How per-character timings are batched does not matter\<close>

lemma ca_fold_append:
  "ca_fold (xs @ ys) a = (case ca_fold xs a of (b, ws) \<Rightarrow> case ca_fold ys b of (c, ws') \<Rightarrow> (c, ws @ ws'))"
  by (induction xs a rule: ca_fold.induct) (auto simp: Let_def split: prod.split option.split)

text \<open>
  The words of a synthesis reported character by character are the same however the characters are batched,
  a word cut by a batch included.
\<close>

lemma char_batches_irrelevant:
  assumes "length cs = length ts" and "ca_Add cs ts a = Some (b, ws)" and "ca_Add cs' ts' b = Some (c, ws')"
  shows "ca_Add (cs @ cs') (ts @ ts') a = Some (c, ws @ ws')"
  using assms by (auto simp: ca_Add_def ca_fold_append split: if_splits)

end
