(* ===== verification/Segment_Map.thy ===== *)
theory Segment_Map
  imports Sequence_Match Text_Markup
begin

text \<open>
  Three versions of one utterance and a cursor in each, \<^verbatim>\<open>src/utils/context/segmentmap.go\<close>: what was sent to
  the synthesizer, what is displayed and what the model wrote. The first two are aligned once, by the diff of
  \<open>Sequence_Match\<close>; from then on every spoken word moves the cursors. A slice or an index out of range panics,
  as in Go.
\<close>

definition go_slice :: "'a list \<Rightarrow> nat \<Rightarrow> nat \<Rightarrow> 'a list go" where
  "go_slice xs i j = (if i \<le> j \<and> j \<le> length xs then Inr (slice xs i j) else Inl SliceBounds)"

section \<open>Segments\<close>

record textSegment =
  seg_orig :: string
  seg_tts :: string
  seg_origStart :: nat
  seg_origEnd :: nat

definition isTransformed :: "textSegment \<Rightarrow> bool" where
  "isTransformed s \<longleftrightarrow>
    seg_tts s \<noteq> stripCompleteMarkup (seg_tts s) \<or> alnumOnly (seg_orig s) \<noteq> alnumOnly (seg_tts s) \<or>
    length (Fields (seg_orig s)) \<noteq> length (Fields (seg_tts s))"

definition originalAlnumCount :: "textSegment \<Rightarrow> nat" where
  "originalAlnumCount s = length (alnumOnly (seg_orig s))"

definition op_pairs :: "string list \<Rightarrow> string list \<Rightarrow> opcode \<Rightarrow> (string \<times> string) list" where
  "op_pairs origTokens ttsTokens p =
    (let origChunk = concat (slice origTokens (op_i1 p) (op_i2 p));
         ttsChunk = concat (slice ttsTokens (op_j1 p) (op_j2 p))
     in if op_tag p = OpEqual then map (\<lambda>run. (run, run)) (splitMarkupRuns origChunk) else [(origChunk, ttsChunk)])"

fun place_segments :: "nat \<Rightarrow> (string \<times> string) list \<Rightarrow> textSegment list" where
  "place_segments origPos [] = []"
| "place_segments origPos ((orig, tts) # ps) =
    \<lparr>seg_orig = orig, seg_tts = tts, seg_origStart = origPos, seg_origEnd = origPos + length orig\<rparr> #
    place_segments (origPos + length orig) ps"

definition buildSegments :: "string \<Rightarrow> string \<Rightarrow> textSegment list" where
  "buildSegments ttsText originalText =
    (let origTokens = tokenizeWS originalText; ttsTokens = tokenizeWS ttsText
     in place_segments 0 (concat (map (op_pairs origTokens ttsTokens) (getOpcodes origTokens ttsTokens))))"

record TextSegmentMap =
  sm_tts :: string
  sm_orig :: string
  sm_llm :: string
  sm_segments :: "textSegment list"
  segIdx :: nat
  segRawPos :: nat
  userFacingPos :: nat
  llmPos :: nat
  lastCompleted :: "textSegment option"
  lastOverflow :: string
  lastLeadingDuplicate :: nat

definition NewTextSegmentMap :: "string \<Rightarrow> string \<Rightarrow> string \<Rightarrow> TextSegmentMap" where
  "NewTextSegmentMap ttsText originalText llmText =
    \<lparr>sm_tts = ttsText, sm_orig = originalText, sm_llm = (if llmText = [] then originalText else llmText),
     sm_segments = buildSegments ttsText originalText, segIdx = 0, segRawPos = 0, userFacingPos = 0, llmPos = 0,
     lastCompleted = None, lastOverflow = [], lastLeadingDuplicate = 0\<rparr>"

section \<open>Offering a word to a segment\<close>

datatype hopKind = HopPlaced | HopCrosses | HopExhausted | HopNoMatch

record hop_result =
  hop_kind :: hopKind
  segChars :: nat
  wordChars :: nat

definition hop_placed :: "nat \<Rightarrow> hop_result" where
  "hop_placed n = \<lparr>hop_kind = HopPlaced, segChars = n, wordChars = 0\<rparr>"

definition wordVariants :: "string \<Rightarrow> string list" where
  "wordVariants word =
    (let trimmed = stripTrailingPunctuation word in if trimmed = word then [word] else [word, trimmed])"

fun try_cands :: "bool \<Rightarrow> string \<Rightarrow> (string \<times> nat) list \<Rightarrow> hop_result option" where
  "try_cands boundary word [] = None"
| "try_cands boundary word ((t, offset) # cs) =
    (if HasPrefix t word then
       (if boundary \<and> length word < length t \<and> isAlnum (t ! length word) then try_cands boundary word cs
        else Some (hop_placed (offset + length word)))
     else if t \<noteq> [] \<and> HasPrefix word t then Some \<lparr>hop_kind = HopCrosses, segChars = 0, wordChars = length t\<rparr>
     else try_cands boundary word cs)"

fun try_words :: "bool \<Rightarrow> (string \<times> nat) list \<Rightarrow> string list \<Rightarrow> hop_result option" where
  "try_words boundary cands [] = None"
| "try_words boundary cands (w # ws) =
    (if w = [] then try_words boundary cands ws
     else case try_cands boundary w cands of None \<Rightarrow> try_words boundary cands ws | Some h \<Rightarrow> Some h)"

definition literalHop :: "(string \<times> nat) list \<Rightarrow> string \<Rightarrow> bool \<Rightarrow> hop_result option" where
  "literalHop cands remainingWord boundary = try_words boundary cands (wordVariants remainingWord)"

definition leadingNonAlnumLen :: "string \<Rightarrow> bool \<Rightarrow> nat" where
  "leadingNonAlnumLen s stopAtMarkup = length (takeWhile (\<lambda>c. \<not> isAlnum c \<and> \<not> (stopAtMarkup \<and> c = CHR ''<'')) s)"

definition leadWs :: "string \<Rightarrow> nat" where
  "leadWs s = length (takeWhile IsSpace s)"

definition matchCandidates :: "string \<Rightarrow> (string \<times> nat) list" where
  "matchCandidates rest =
    map (\<lambda>offset. (drop offset rest, offset)) (rev (remdups (rev [0, leadWs rest, leadingNonAlnumLen rest True])))"

definition foldedHop :: "(string \<times> nat) list \<Rightarrow> string \<Rightarrow> hop_result option" where
  "foldedHop cands remainingWord =
    literalHop (map (\<lambda>(t, offset). (foldForMatching t, offset)) cands) (foldForMatching remainingWord) True"

definition markupHop :: "string \<Rightarrow> string \<Rightarrow> hop_result option" where
  "markupHop rest remainingWord =
    (let stripped = drop (leadWs rest) rest; haystack = stripMarkup stripped
     in case find (\<lambda>c. c \<noteq> [] \<and> HasPrefix haystack c) (wordVariants (stripMarkup remainingWord)) of
          None \<Rightarrow> None
        | Some c \<Rightarrow> Some (hop_placed (leadWs rest + rawLenForCleanChars stripped (length c))))"

definition classifyHop :: "string \<Rightarrow> string \<Rightarrow> hop_result" where
  "classifyHop rest word =
    (let cands = matchCandidates rest in
     case literalHop cands word False of
       Some h \<Rightarrow> h
     | None \<Rightarrow>
         (case foldedHop cands word of
            Some h \<Rightarrow> h
          | None \<Rightarrow>
              (case markupHop rest word of
                 Some h \<Rightarrow> h
               | None \<Rightarrow>
                   if \<not> hasAlnum rest then \<lparr>hop_kind = HopExhausted, segChars = 0, wordChars = 0\<rparr>
                   else \<lparr>hop_kind = HopNoMatch, segChars = leadingNonAlnumLen rest False, wordChars = 0\<rparr>)))"

section \<open>Moving the cursors\<close>

definition rtrimLen :: "string \<Rightarrow> nat" where
  "rtrimLen s = length (dropWhile IsSpace (rev s))"

definition keepDerivedCursorsInPace :: "textSegment \<Rightarrow> nat \<Rightarrow> TextSegmentMap \<Rightarrow> TextSegmentMap go" where
  "keepDerivedCursorsInPace seg newPos m =
    go_bind (go_slice (seg_tts seg) (segRawPos m) newPos) (\<lambda>part.
      let nAlnum = length (alnumOnly part);
          m = m\<lparr>userFacingPos :=
            (if nAlnum > 0 then advanceByAlnums (sm_orig m) (userFacingPos m) nAlnum
             else seg_origStart seg + rtrimLen (take newPos (seg_tts seg)))\<rparr>
      in Inr (m\<lparr>llmPos := advanceByAlnums (sm_llm m) (llmPos m) nAlnum\<rparr>))"

definition commitTransformedSpan :: "textSegment \<Rightarrow> TextSegmentMap \<Rightarrow> TextSegmentMap" where
  "commitTransformedSpan seg m =
    m\<lparr>userFacingPos := seg_origEnd seg, llmPos := advanceByAlnums (sm_llm m) (llmPos m) (originalAlnumCount seg)\<rparr>"

definition finishSegment :: "textSegment \<Rightarrow> TextSegmentMap \<Rightarrow> TextSegmentMap" where
  "finishSegment seg m = m\<lparr>lastCompleted := Some seg, segIdx := segIdx m + 1, segRawPos := 0\<rparr>"

definition advanceCursorsTo :: "textSegment \<Rightarrow> nat \<Rightarrow> TextSegmentMap \<Rightarrow> TextSegmentMap go" where
  "advanceCursorsTo seg newPos m =
    go_bind
      (if isTransformed seg then
         go_bind (slice_from (seg_tts seg) newPos) (\<lambda>rest.
           Inr (m, if \<not> hasAlnum rest then length (seg_tts seg) else newPos))
       else go_bind (keepDerivedCursorsInPace seg newPos m) (\<lambda>m. Inr (m, newPos)))
      (\<lambda>(m, newPos).
        let m = m\<lparr>segRawPos := newPos\<rparr> in
        if newPos \<ge> length (seg_tts seg)
        then Inr (finishSegment seg (if isTransformed seg then commitTransformedSpan seg m else m))
        else Inr m)"

fun plan_hops :: "nat \<Rightarrow> string \<Rightarrow> textSegment list \<Rightarrow> (hop_result list \<times> string) go" where
  "plan_hops rawPos remaining [] = Inr ([], remaining)"
| "plan_hops rawPos remaining (seg # segs) =
    (if remaining = [] then Inr ([], [])
     else go_bind (slice_from (seg_tts seg) rawPos) (\<lambda>rest.
       let h = classifyHop rest remaining in
       if hop_kind h = HopPlaced \<or> hop_kind h = HopNoMatch then Inr ([h], [])
       else go_bind (plan_hops 0 (drop (wordChars h) remaining) segs) (\<lambda>(hs, over). Inr (h # hs, over))))"

definition planHops :: "TextSegmentMap \<Rightarrow> string \<Rightarrow> (hop_result list \<times> string) go" where
  "planHops m word = plan_hops (segRawPos m) word (drop (segIdx m) (sm_segments m))"

definition take_hop :: "hop_result \<Rightarrow> TextSegmentMap \<Rightarrow> TextSegmentMap go" where
  "take_hop h m =
    (if segIdx m \<ge> length (sm_segments m) then Inl IndexRange
     else let seg = sm_segments m ! segIdx m in
       case hop_kind h of
         HopNoMatch \<Rightarrow> Inr (m\<lparr>segRawPos := segRawPos m + segChars h\<rparr>)
       | HopPlaced \<Rightarrow> advanceCursorsTo seg (segRawPos m + segChars h) m
       | _ \<Rightarrow> advanceCursorsTo seg (length (seg_tts seg)) m)"

fun take_hops :: "hop_result list \<Rightarrow> TextSegmentMap \<Rightarrow> TextSegmentMap go" where
  "take_hops [] m = Inr m"
| "take_hops (h # hs) m = go_bind (take_hop h m) (take_hops hs)"

definition consumeWord :: "string \<Rightarrow> TextSegmentMap \<Rightarrow> TextSegmentMap go" where
  "consumeWord word m =
    go_bind (planHops m word) (\<lambda>(hops, over).
      go_bind (take_hops hops m) (\<lambda>m. Inr (if over \<noteq> [] then m\<lparr>lastOverflow := over\<rparr> else m)))"

definition leadingDuplicateLen :: "string \<Rightarrow> TextSegmentMap \<Rightarrow> nat go" where
  "leadingDuplicateLen word m =
    (let lead = takeWhile (\<lambda>c. IsSpace c \<or> isPunct c) word; mark = TrimSpace lead in
     if length lead \<ge> length word \<or> mark = [] \<or> llmPos m < length mark then Inr 0
     else go_bind (go_slice (sm_llm m) (llmPos m - length mark) (llmPos m)) (\<lambda>before_cursor.
       Inr (if before_cursor \<noteq> mark then 0 else length lead)))"

definition AdvanceWord :: "string \<Rightarrow> TextSegmentMap \<Rightarrow> TextSegmentMap go" where
  "AdvanceWord word m =
    (let m = m\<lparr>lastCompleted := None, lastOverflow := [], lastLeadingDuplicate := 0\<rparr> in
     if word = [] then Inr m
     else go_bind (leadingDuplicateLen word m) (\<lambda>n. consumeWord word (m\<lparr>lastLeadingDuplicate := n\<rparr>)))"

section \<open>Questions\<close>

definition RawPos :: "TextSegmentMap \<Rightarrow> nat" where
  "RawPos m =
    sum_list (map (\<lambda>s. length (seg_tts s)) (take (segIdx m) (sm_segments m))) +
    (if segIdx m < length (sm_segments m) then segRawPos m else 0)"

definition canConsumeWord :: "string \<Rightarrow> TextSegmentMap \<Rightarrow> bool go" where
  "canConsumeWord word m =
    (if segIdx m \<ge> length (sm_segments m) then Inr False
     else go_bind (planHops m word) (\<lambda>(hops, over). Inr (hops = [] \<or> hop_kind (last hops) \<noteq> HopNoMatch)))"

definition symbolWordBelongs :: "string \<Rightarrow> TextSegmentMap \<Rightarrow> bool go" where
  "symbolWordBelongs word m =
    (let pos = RawPos m in
     if pos > length (sm_tts m) then Inl IndexRange
     else
       let back = length (takeWhile (\<lambda>ch. \<not> (isAlnum ch \<or> IsSpace ch \<or> ch = CHR ''>'')) (rev (take pos (sm_tts m))));
           ahead = dropWhile IsSpace (drop pos (sm_tts m))
       in Inr (Contains (drop (pos - back) (sm_tts m)) word \<or>
               segIdx m < length (sm_segments m) \<and> ahead \<noteq> [] \<and> \<not> isAlnum (hd ahead)))"

definition WordBelongsCurrentSegment :: "string \<Rightarrow> TextSegmentMap \<Rightarrow> bool go" where
  "WordBelongsCurrentSegment word m =
    (if word = [] then Inr True
     else go_bind (canConsumeWord word m) (\<lambda>can.
       if can then Inr True else if \<not> hasAlnum word then symbolWordBelongs word m else Inr False))"

definition pendingSeparatedPunctuation :: "string \<Rightarrow> bool" where
  "pendingSeparatedPunctuation remaining \<longleftrightarrow>
    (let sm = stripCompleteMarkup remaining; content = TrimSpace sm in
     sm \<noteq> [] \<and> IsSpace (hd sm) \<and> content \<noteq> [] \<and> isPunct (hd content))"

definition sm_IsComplete :: "TextSegmentMap \<Rightarrow> bool go" where
  "sm_IsComplete m =
    (if segIdx m \<ge> length (sm_segments m) then Inr True
     else go_bind (slice_from (seg_tts (sm_segments m ! segIdx m)) (segRawPos m)) (\<lambda>rem.
       Inr (\<not> hasAlnum rem \<and> \<not> pendingSeparatedPunctuation rem \<and>
            list_all (\<lambda>s. \<not> hasAlnum (seg_tts s)) (drop (segIdx m + 1) (sm_segments m)))))"

definition InTransformedSegment :: "TextSegmentMap \<Rightarrow> bool" where
  "InTransformedSegment m \<longleftrightarrow>
    segIdx m < length (sm_segments m) \<and> isTransformed (sm_segments m ! segIdx m) \<and> segRawPos m > 0"

definition sm_Reset :: "TextSegmentMap \<Rightarrow> TextSegmentMap" where
  "sm_Reset m = m\<lparr>segIdx := 0, segRawPos := 0, userFacingPos := 0, llmPos := 0, lastCompleted := None, lastOverflow := [],
    lastLeadingDuplicate := 0\<rparr>"

section \<open>Cursors stay in range\<close>

text \<open>The segments are the two texts, cut in the same places.\<close>

lemma place_concat:
  "concat (map seg_orig (place_segments p ps)) = concat (map fst ps)"
  "concat (map seg_tts (place_segments p ps)) = concat (map snd ps)"
  by (induction p ps rule: place_segments.induct) simp_all

lemma op_pairs_parts:
  assumes "op_tag p = OpEqual \<Longrightarrow> slice a (op_i1 p) (op_i2 p) = slice b (op_j1 p) (op_j2 p)"
  shows "concat (map fst (op_pairs a b p)) = concat (slice a (op_i1 p) (op_i2 p))"
    and "concat (map snd (op_pairs a b p)) = concat (slice b (op_j1 p) (op_j2 p))"
  using assms by (auto simp: op_pairs_def Let_def comp_def)

lemma concat_op_pairs:
  assumes "\<And>p. p \<in> set ops \<Longrightarrow> op_tag p = OpEqual \<Longrightarrow> slice a (op_i1 p) (op_i2 p) = slice b (op_j1 p) (op_j2 p)"
  shows "concat (map fst (concat (map (op_pairs a b) ops))) = concat (a_parts a ops)"
    and "concat (map snd (concat (map (op_pairs a b) ops))) = concat (b_parts b ops)"
  using assms by (induction ops) (simp_all add: op_pairs_parts)

lemma segments_tile:
  "concat (map seg_tts (buildSegments tts orig)) = tts" "concat (map seg_orig (buildSegments tts orig)) = orig"
  using concat_op_pairs [of "getOpcodes (tokenizeWS orig) (tokenizeWS tts)" "tokenizeWS orig" "tokenizeWS tts",
      OF equal_opcodes_agree] opcodes_tile [of "tokenizeWS orig" "tokenizeWS tts"]
  by (simp_all add: buildSegments_def Let_def place_concat)

definition sm_ok :: "TextSegmentMap \<Rightarrow> bool" where
  "sm_ok m \<longleftrightarrow> concat (map seg_tts (sm_segments m)) = sm_tts m \<and> segIdx m \<le> length (sm_segments m) \<and>
    (segIdx m < length (sm_segments m) \<longrightarrow> segRawPos m \<le> length (seg_tts (sm_segments m ! segIdx m))) \<and>
    llmPos m \<le> length (sm_llm m)"

text \<open>What moving the cursors leaves alone, and that they only move on.\<close>

definition sm_moved :: "TextSegmentMap \<Rightarrow> TextSegmentMap \<Rightarrow> bool" where
  "sm_moved m n \<longleftrightarrow> sm_tts n = sm_tts m \<and> sm_orig n = sm_orig m \<and> sm_llm n = sm_llm m \<and> sm_segments n = sm_segments m \<and>
    RawPos m \<le> RawPos n \<and> llmPos m \<le> llmPos n"

lemma sm_moved_refl [simp]: "sm_moved m m"
  by (simp add: sm_moved_def)

lemma sm_moved_trans: "sm_moved m n \<Longrightarrow> sm_moved n k \<Longrightarrow> sm_moved m k"
  by (auto simp: sm_moved_def)

lemma try_cands_bound:
  assumes "try_cands bd w cs = Some h" and "hop_kind h = HopPlaced" and "list_all (\<lambda>(t, k). k + length t \<le> n) cs"
  shows "segChars h \<le> n"
  using assms
proof (induction cs)
  case (Cons c cs)
  have "HasPrefix t w \<Longrightarrow> length w \<le> length t" for t by (metis HasPrefix_def length_take min.cobounded1)
  with Cons show ?case by (cases c) (fastforce simp: hop_placed_def split: if_splits)
qed simp

lemma try_words_bound:
  assumes "try_words bd cs ws = Some h" and "hop_kind h = HopPlaced" and "list_all (\<lambda>(t, k). k + length t \<le> n) cs"
  shows "segChars h \<le> n"
  using assms by (induction ws) (auto split: if_splits option.splits dest: try_cands_bound)

lemma leadWs_le: "leadWs s \<le> length s"
  by (simp add: leadWs_def length_takeWhile_le)

lemma leadingNonAlnum_le: "leadingNonAlnumLen s b \<le> length s"
  by (simp add: leadingNonAlnumLen_def length_takeWhile_le)

lemma matchCandidates_bound: "list_all (\<lambda>(t, k). k + length t \<le> length rest) (matchCandidates rest)"
  using leadWs_le [of rest] leadingNonAlnum_le [of rest True]
  by (auto simp: matchCandidates_def list_all_iff)

lemma classifyHop_bound:
  assumes "hop_kind (classifyHop rest w) = HopPlaced \<or> hop_kind (classifyHop rest w) = HopNoMatch"
  shows "segChars (classifyHop rest w) \<le> length rest"
proof -
  have fold: "list_all (\<lambda>(t, k). k + length t \<le> length rest) (map (\<lambda>(t, k). (foldForMatching t, k)) (matchCandidates rest))"
    using matchCandidates_bound [of rest] by (auto simp: list_all_iff)
  have lit: "literalHop (matchCandidates rest) w False = Some h \<Longrightarrow> hop_kind h = HopPlaced \<Longrightarrow> segChars h \<le> length rest" for h
    using try_words_bound [OF _ _ matchCandidates_bound] by (simp add: literalHop_def)
  have fld: "foldedHop (matchCandidates rest) w = Some h \<Longrightarrow> hop_kind h = HopPlaced \<Longrightarrow> segChars h \<le> length rest" for h
    using try_words_bound [OF _ _ fold] by (simp add: literalHop_def foldedHop_def)
  have mrk: "segChars h \<le> length rest" if "markupHop rest w = Some h" for h
  proof -
    obtain c where "h = hop_placed (leadWs rest + rawLenForCleanChars (drop (leadWs rest) rest) (length (c :: string)))"
      using \<open>markupHop rest w = Some h\<close> by (auto simp: markupHop_def Let_def split: option.splits)
    then show ?thesis using rawLen_le [of "drop (leadWs rest) rest" "length c"] leadWs_le [of rest] by (simp add: hop_placed_def)
  qed
  have none: "try_cands bd v cs = Some h \<Longrightarrow> hop_kind h \<noteq> HopNoMatch" for bd v cs h
    by (induction cs) (auto simp: hop_placed_def split: if_splits)
  then have "try_words bd cs ws = Some h \<Longrightarrow> hop_kind h \<noteq> HopNoMatch" for bd cs ws h
    by (induction ws) (auto split: if_splits option.splits)
  then show ?thesis using assms lit fld mrk leadingNonAlnum_le [of rest False]
    by (auto simp: classifyHop_def Let_def literalHop_def foldedHop_def split: option.splits if_splits)
qed

lemma RawPos_next:
  assumes "segIdx m < length (sm_segments m)"
  shows "RawPos (m\<lparr>segIdx := Suc (segIdx m), segRawPos := 0\<rparr>) =
    sum_list (map (\<lambda>s. length (seg_tts s)) (take (segIdx m) (sm_segments m))) + length (seg_tts (sm_segments m ! segIdx m))"
  using assms by (simp add: RawPos_def take_Suc_conv_app_nth)

lemma RawPos_cong:
  "segIdx n = segIdx m \<Longrightarrow> segRawPos n = segRawPos m \<Longrightarrow> sm_segments n = sm_segments m \<Longrightarrow> RawPos n = RawPos m"
  by (simp add: RawPos_def)

lemma keepDerived_ok:
  assumes "sm_ok m" and "seg = sm_segments m ! segIdx m" and "segRawPos m \<le> newPos" and "newPos \<le> length (seg_tts seg)"
  obtains n where "keepDerivedCursorsInPace seg newPos m = Inr n" and "sm_ok n" and "sm_moved m n"
    and "segIdx n = segIdx m" and "segRawPos n = segRawPos m"
proof -
  define k where "k = length (alnumOnly (slice (seg_tts seg) (segRawPos m) newPos))"
  define n where "n = m\<lparr>userFacingPos := (if k > 0 then advanceByAlnums (sm_orig m) (userFacingPos m) k
      else seg_origStart seg + rtrimLen (take newPos (seg_tts seg))), llmPos := advanceByAlnums (sm_llm m) (llmPos m) k\<rparr>"
  have "keepDerivedCursorsInPace seg newPos m = Inr n"
    using assms(3,4) by (simp add: keepDerivedCursorsInPace_def go_slice_def Let_def k_def n_def)
  moreover have "sm_ok n" "sm_moved m n" "segIdx n = segIdx m" "segRawPos n = segRawPos m"
    using assms(1) advanceByAlnums_le [of "llmPos m" "sm_llm m" k] advanceByAlnums_ge [of "llmPos m" "sm_llm m" k]
    by (simp_all add: sm_ok_def n_def sm_moved_def RawPos_def)
  ultimately show ?thesis by (rule that)
qed

lemma advanceCursorsTo_ok:
  assumes "sm_ok m" and "segIdx m < length (sm_segments m)" and "seg = sm_segments m ! segIdx m"
    and "segRawPos m \<le> newPos" and "newPos \<le> length (seg_tts seg)"
  obtains n where "advanceCursorsTo seg newPos m = Inr n" and "sm_ok n" and "sm_moved m n"
    and "newPos = length (seg_tts seg) \<Longrightarrow> segIdx n = Suc (segIdx m) \<and> segRawPos n = 0"
proof (cases "isTransformed seg")
  case True
  define p where "p = (if \<not> hasAlnum (drop newPos (seg_tts seg)) then length (seg_tts seg) else newPos)"
  have p: "newPos \<le> p" "p \<le> length (seg_tts seg)" using assms(5) by (simp_all add: p_def)
  define n where "n = (if p \<ge> length (seg_tts seg) then finishSegment seg (commitTransformedSpan seg (m\<lparr>segRawPos := p\<rparr>)) else m\<lparr>segRawPos := p\<rparr>)"
  have "advanceCursorsTo seg newPos m = Inr n"
    using True assms(5) by (simp add: advanceCursorsTo_def slice_from_def n_def p_def Let_def)
  moreover have "sm_ok n"
    using assms(1-3) p advanceByAlnums_le [of "llmPos m" "sm_llm m" "originalAlnumCount seg"]
    by (auto simp: n_def sm_ok_def finishSegment_def commitTransformedSpan_def)
  moreover have "sm_moved m n"
    using assms(1-4) p advanceByAlnums_ge [of "llmPos m" "sm_llm m" "originalAlnumCount seg"]
    by (auto simp: n_def sm_moved_def finishSegment_def commitTransformedSpan_def RawPos_def take_Suc_conv_app_nth)
  ultimately show ?thesis using that p by (auto simp: n_def finishSegment_def commitTransformedSpan_def)
next
  case False
  obtain k where k: "keepDerivedCursorsInPace seg newPos m = Inr k" "sm_ok k" "sm_moved m k" "segIdx k = segIdx m"
      "segRawPos k = segRawPos m" using keepDerived_ok [OF assms(1,3,4,5)] by blast
  have segs: "sm_segments k = sm_segments m" using k(3) by (simp add: sm_moved_def)
  define n where "n = (if newPos \<ge> length (seg_tts seg) then finishSegment seg (k\<lparr>segRawPos := newPos\<rparr>) else k\<lparr>segRawPos := newPos\<rparr>)"
  have "advanceCursorsTo seg newPos m = Inr n"
    using False k(1) by (simp add: advanceCursorsTo_def n_def Let_def)
  moreover have "sm_ok n"
    using assms(2,3,5) k(2,4) segs by (auto simp: n_def sm_ok_def finishSegment_def)
  moreover have "sm_moved m n"
  proof (rule sm_moved_trans [OF k(3)])
    show "sm_moved k n" using assms(2-5) k(4,5) segs
      by (auto simp: n_def sm_moved_def finishSegment_def RawPos_def take_Suc_conv_app_nth)
  qed
  ultimately show ?thesis using that k(4) by (auto simp: n_def finishSegment_def)
qed

text \<open>A plan made for where the cursors are can be carried out.\<close>

lemma plan_and_take:
  assumes "sm_ok m"
  obtains hs over n where "planHops m w = Inr (hs, over)" and "take_hops hs m = Inr n" and "sm_ok n" and "sm_moved m n"
proof -
  have "\<exists>hs over n. plan_hops (segRawPos m) w segs = Inr (hs, over) \<and> take_hops hs m = Inr n \<and> sm_ok n \<and> sm_moved m n"
    if "segs = drop (segIdx m) (sm_segments m)" for segs
    using assms that
  proof (induction segs arbitrary: m w)
    case Nil
    then show ?case by auto
  next
    case (Cons seg segs)
    from Cons.prems(2) have i: "segIdx m < length (sm_segments m)" "seg = sm_segments m ! segIdx m"
        "segs = drop (Suc (segIdx m)) (sm_segments m)"
      by (metis drop_all linorder_not_less list.distinct(1), metis drop_all nth_via_drop linorder_not_less list.distinct(1),
          metis Cons_nth_drop_Suc drop_all linorder_not_less list.distinct(1) list.inject)
    have pos: "segRawPos m \<le> length (seg_tts seg)" using Cons.prems(1) i by (simp add: sm_ok_def)
    define h where "h = classifyHop (drop (segRawPos m) (seg_tts seg)) w"
    show ?case
    proof (cases "w = []")
      case True
      then show ?thesis using Cons.prems(1) by auto
    next
      case w: False
      show ?thesis
      proof (cases "hop_kind h = HopPlaced \<or> hop_kind h = HopNoMatch")
        case True
        then have b: "segRawPos m + segChars h \<le> length (seg_tts seg)"
          using classifyHop_bound [of "drop (segRawPos m) (seg_tts seg)" w] pos by (simp add: h_def)
        obtain n where "take_hop h m = Inr n" "sm_ok n" "sm_moved m n"
        proof (cases "hop_kind h = HopPlaced")
          case True
          then show ?thesis using advanceCursorsTo_ok [OF Cons.prems(1) i(1,2) le_add1 b] that i by (auto simp: take_hop_def Let_def)
        next
          case False
          then have "take_hop h m = Inr (m\<lparr>segRawPos := segRawPos m + segChars h\<rparr>)"
            using \<open>hop_kind h = HopPlaced \<or> hop_kind h = HopNoMatch\<close> i by (simp add: take_hop_def Let_def)
          then show ?thesis using that Cons.prems(1) b i by (auto simp: sm_ok_def sm_moved_def RawPos_def)
        qed
        then show ?thesis using True w pos by (auto simp: h_def [symmetric] slice_from_def Let_def)
      next
        case False
        obtain k where k: "take_hop h m = Inr k" "sm_ok k" "sm_moved m k" "segIdx k = Suc (segIdx m)" "segRawPos k = 0"
        proof -
          have "take_hop h m = advanceCursorsTo seg (length (seg_tts seg)) m"
            using i False by (auto simp: take_hop_def Let_def split: hopKind.split)
          with advanceCursorsTo_ok [OF Cons.prems(1) i(1,2) pos order_refl] that show ?thesis by metis
        qed
        have "segs = drop (segIdx k) (sm_segments k)" using k(3,4) i(3) by (simp add: sm_moved_def)
        from Cons.IH [OF k(2) this, of "drop (wordChars h) w"] obtain hs over n
          where "plan_hops 0 (drop (wordChars h) w) segs = Inr (hs, over)" "take_hops hs k = Inr n" "sm_ok n" "sm_moved k n"
          using k(5) by auto
        then show ?thesis using False w pos k(1,3) by (auto simp: h_def [symmetric] slice_from_def Let_def intro: sm_moved_trans)
      qed
    qed
  qed
  from this [OF refl] show ?thesis using that by (auto simp: planHops_def)
qed

lemma leadingDuplicateLen_ok: "sm_ok m \<Longrightarrow> \<exists>n. leadingDuplicateLen w m = Inr n \<and> n \<le> length w"
  by (auto simp: leadingDuplicateLen_def Let_def sm_ok_def go_slice_def not_le)

lemma sm_ok_marks [simp]:
  "sm_ok (m\<lparr>lastCompleted := c\<rparr>) = sm_ok m" "sm_ok (m\<lparr>lastOverflow := v\<rparr>) = sm_ok m" "sm_ok (m\<lparr>lastLeadingDuplicate := n\<rparr>) = sm_ok m"
  by (simp_all add: sm_ok_def)

lemma sm_moved_marks [simp]:
  "sm_moved (m\<lparr>lastCompleted := c\<rparr>) k = sm_moved m k" "sm_moved (m\<lparr>lastOverflow := v\<rparr>) k = sm_moved m k"
  "sm_moved (m\<lparr>lastLeadingDuplicate := n\<rparr>) k = sm_moved m k" "sm_moved k (m\<lparr>lastOverflow := v\<rparr>) = sm_moved k m"
  by (simp_all add: sm_moved_def RawPos_def)

lemma AdvanceWord_ok:
  assumes "sm_ok m"
  shows "\<exists>n. AdvanceWord w m = Inr n \<and> sm_ok n \<and> sm_moved m n"
proof -
  define m1 where "m1 = m\<lparr>lastCompleted := None, lastOverflow := [], lastLeadingDuplicate := 0\<rparr>"
  have m1: "sm_ok m1" "sm_moved m1 k = sm_moved m k" for k using assms by (simp_all add: m1_def)
  show ?thesis
  proof (cases "w = []")
    case True
    then show ?thesis using m1(1) m1(2) [of m1] by (auto simp: AdvanceWord_def m1_def [symmetric] Let_def)
  next
    case False
    obtain d where d: "leadingDuplicateLen w m1 = Inr d" using leadingDuplicateLen_ok [OF m1(1)] by blast
    have "sm_ok (m1\<lparr>lastLeadingDuplicate := d\<rparr>)" using m1(1) by simp
    then obtain hs over n where "planHops (m1\<lparr>lastLeadingDuplicate := d\<rparr>) w = Inr (hs, over)"
        "take_hops hs (m1\<lparr>lastLeadingDuplicate := d\<rparr>) = Inr n" "sm_ok n" "sm_moved (m1\<lparr>lastLeadingDuplicate := d\<rparr>) n"
      by (rule plan_and_take)
    then show ?thesis using False d m1(2) by (auto simp: AdvanceWord_def consumeWord_def m1_def [symmetric] Let_def)
  qed
qed

fun AdvanceWords :: "string list \<Rightarrow> TextSegmentMap \<Rightarrow> TextSegmentMap go" where
  "AdvanceWords [] m = Inr m"
| "AdvanceWords (w # ws) m = go_bind (AdvanceWord w m) (AdvanceWords ws)"

lemma AdvanceWords_ok: "sm_ok m \<Longrightarrow> \<exists>n. AdvanceWords ws m = Inr n \<and> sm_ok n \<and> sm_moved m n"
proof (induction ws arbitrary: m)
  case (Cons w ws)
  then obtain k where k: "AdvanceWord w m = Inr k" "sm_ok k" "sm_moved m k" using AdvanceWord_ok [of m w] by blast
  with Cons.IH [OF k(2)] show ?case by (auto intro: sm_moved_trans)
qed simp

lemma sm_ok_New: "sm_ok (NewTextSegmentMap tts orig llm)"
  by (simp add: sm_ok_def NewTextSegmentMap_def segments_tile)

lemma RawPos_le: "sm_ok m \<Longrightarrow> RawPos m \<le> length (sm_tts m)"
proof -
  assume ok: "sm_ok m"
  have "length (sm_tts m) = sum_list (map (\<lambda>s. length (seg_tts s)) (sm_segments m))"
    using ok length_concat [of "map seg_tts (sm_segments m)"] by (simp add: sm_ok_def comp_def)
  also have "\<dots> = sum_list (map (\<lambda>s. length (seg_tts s)) (take (segIdx m) (sm_segments m))) +
      sum_list (map (\<lambda>s. length (seg_tts s)) (drop (segIdx m) (sm_segments m)))"
    by (metis append_take_drop_id map_append sum_list_append)
  finally show "RawPos m \<le> length (sm_tts m)" using ok
    by (cases "segIdx m < length (sm_segments m)") (auto simp: RawPos_def sm_ok_def simp flip: Cons_nth_drop_Suc)
qed


end
