(* ===== verification/Word_Tracker.thy ===== *)
theory Word_Tracker
  imports Segment_Map
begin

text \<open>
  The tracker of one spoken frame, \<^verbatim>\<open>src/utils/context/tracker.go\<close>: it follows the words a synthesizer reports
  through the frame's segment map, says when the frame has been spoken, and which part of the model's text
  each word stands for. A field that Go keeps beside a flag is an option.
\<close>

record WordCompletionTracker =
  wc_tts :: string
  wc_userFacing :: string
  wc_userFacingPos :: nat
  wc_hasLLM :: bool
  wc_llm :: string
  wc_llmPos :: nat
  wc_overflowWord :: "string option"
  wc_llmConsumed :: "string option"
  wc_frameWord :: "string option"
  wc_forceCompleted :: bool
  wc_segmentMap :: TextSegmentMap

definition NewWordCompletionTracker :: "string \<Rightarrow> string \<Rightarrow> string \<Rightarrow> WordCompletionTracker" where
  "NewWordCompletionTracker ttsText userFacingText llmText =
    (let uf = (if userFacingText = [] then stripCompleteMarkup ttsText else userFacingText) in
     \<lparr>wc_tts = ttsText, wc_userFacing = uf, wc_userFacingPos = 0, wc_hasLLM = (llmText \<noteq> []), wc_llm = llmText, wc_llmPos = 0,
      wc_overflowWord = None, wc_llmConsumed = None, wc_frameWord = None, wc_forceCompleted = False,
      wc_segmentMap = NewTextSegmentMap ttsText uf llmText\<rparr>)"

definition WordBelongsHere :: "string \<Rightarrow> WordCompletionTracker \<Rightarrow> bool go" where
  "WordBelongsHere word t = WordBelongsCurrentSegment word (wc_segmentMap t)"

definition Suppress :: "WordCompletionTracker \<Rightarrow> bool" where
  "Suppress t = InTransformedSegment (wc_segmentMap t)"

definition wc_IsComplete :: "WordCompletionTracker \<Rightarrow> bool go" where
  "wc_IsComplete t = (if wc_forceCompleted t then Inr True else sm_IsComplete (wc_segmentMap t))"

definition forceComplete :: "string \<Rightarrow> WordCompletionTracker \<Rightarrow> (WordCompletionTracker \<times> bool) go" where
  "forceComplete word t =
    go_bind (slice_from (wc_tts t) (RawPos (wc_segmentMap t))) (\<lambda>rest.
      let t = t\<lparr>wc_frameWord := Some rest, wc_userFacingPos := length (wc_userFacing t)\<rparr> in
      go_bind
        (if wc_hasLLM t
         then go_bind (slice_from (wc_llm t) (wc_llmPos t)) (\<lambda>r. Inr (t\<lparr>wc_llmConsumed := Some r, wc_llmPos := length (wc_llm t)\<rparr>))
         else Inr t)
        (\<lambda>t. Inr (t\<lparr>wc_forceCompleted := True, wc_overflowWord := Some word\<rparr>, True)))"

definition recordLLMSpan :: "string \<Rightarrow> nat \<Rightarrow> WordCompletionTracker \<Rightarrow> WordCompletionTracker go" where
  "recordLLMSpan word prevLLMPos t =
    go_bind (wc_IsComplete t) (\<lambda>complete.
      if complete then
        go_bind (slice_from (wc_llm t) prevLLMPos) (\<lambda>r. Inr (t\<lparr>wc_llmConsumed := Some r, wc_llmPos := length (wc_llm t)\<rparr>))
      else if InTransformedSegment (wc_segmentMap t) then Inr (t\<lparr>wc_llmConsumed := None\<rparr>)
      else if wc_llmPos t = prevLLMPos \<and> lastCompleted (wc_segmentMap t) = None then
        (let start = wc_llmPos t + leadWs (drop (wc_llmPos t) (wc_llm t));
             end_pos = min (start + length word) (length (wc_llm t))
         in go_bind (go_slice (wc_llm t) start end_pos) (\<lambda>r. Inr (t\<lparr>wc_llmConsumed := Some r, wc_llmPos := end_pos\<rparr>)))
      else go_bind (go_slice (wc_llm t) prevLLMPos (wc_llmPos t)) (\<lambda>r. Inr (t\<lparr>wc_llmConsumed := Some r\<rparr>)))"

definition own_part :: "string \<Rightarrow> WordCompletionTracker \<Rightarrow> WordCompletionTracker go" where
  "own_part word t =
    (let over = lastOverflow (wc_segmentMap t) in
     if length over > length word then Inl SliceBounds
     else
       let tail = length word - length over;
           head = min (if wc_hasLLM t then lastLeadingDuplicate (wc_segmentMap t) else 0) tail
       in go_bind (go_slice word head tail) (\<lambda>w.
            Inr (t\<lparr>wc_overflowWord := (if over = [] then None else Some over), wc_frameWord := Some w\<rparr>)))"

text \<open>The word is the frame's own: the map's cursors move, and the tracker's with them.\<close>

definition track_own_word :: "string \<Rightarrow> WordCompletionTracker \<Rightarrow> (WordCompletionTracker \<times> bool) go" where
  "track_own_word word t =
    go_bind (AdvanceWord word (wc_segmentMap t)) (\<lambda>m.
    go_bind (own_part word (t\<lparr>wc_segmentMap := m\<rparr>)) (\<lambda>u.
    let u = u\<lparr>wc_userFacingPos := userFacingPos m, wc_llmPos := llmPos m\<rparr> in
    go_bind (if wc_hasLLM u then recordLLMSpan word (wc_llmPos t) u else Inr u) (\<lambda>u.
    go_bind (wc_IsComplete u) (\<lambda>complete.
      Inr (if complete then u\<lparr>wc_userFacingPos := length (wc_userFacing u)\<rparr> else u, complete)))))"

definition AddWord :: "string \<Rightarrow> WordCompletionTracker \<Rightarrow> (WordCompletionTracker \<times> bool) go" where
  "AddWord word t =
    (let t = t\<lparr>wc_overflowWord := None, wc_llmConsumed := None, wc_frameWord := None\<rparr> in
     if wc_forceCompleted t \<or> RawPos (wc_segmentMap t) \<ge> length (wc_tts t) then Inr (t, True)
     else go_bind (WordBelongsHere word t) (\<lambda>belongs.
       if \<not> belongs then forceComplete word t else track_own_word word t))"

section \<open>What it answers\<close>

definition FrameWord :: "WordCompletionTracker \<Rightarrow> string option" where
  "FrameWord t = map_option TrimSpace (wc_frameWord t)"

definition OverflowWord :: "WordCompletionTracker \<Rightarrow> string option" where
  "OverflowWord t = map_option TrimSpace (wc_overflowWord t)"

definition wc_RawText :: "WordCompletionTracker \<Rightarrow> string option" where
  "wc_RawText t =
    (case wc_llmConsumed t of None \<Rightarrow> None | Some r \<Rightarrow> if TrimSpace r = [] then None else Some (TrimSpace r))"

definition AccumulatedUserFacingText :: "WordCompletionTracker \<Rightarrow> string go" where
  "AccumulatedUserFacingText t = go_slice (wc_userFacing t) 0 (wc_userFacingPos t)"

definition RemainingUserFacingText :: "bool \<Rightarrow> WordCompletionTracker \<Rightarrow> string go" where
  "RemainingUserFacingText strip t =
    go_bind (slice_from (wc_userFacing t) (wc_userFacingPos t)) (\<lambda>r. Inr (if strip then TrimSpace r else r))"

definition RemainingRawText :: "WordCompletionTracker \<Rightarrow> string go" where
  "RemainingRawText t =
    (if \<not> wc_hasLLM t then RemainingUserFacingText True t
     else go_bind (slice_from (wc_llm t) (wc_llmPos t)) (\<lambda>r. Inr (TrimSpace r)))"

definition AccumulatedTTSText :: "WordCompletionTracker \<Rightarrow> string go" where
  "AccumulatedTTSText t = go_slice (wc_tts t) 0 (RawPos (wc_segmentMap t))"

definition RemainingTTSText :: "bool \<Rightarrow> WordCompletionTracker \<Rightarrow> string go" where
  "RemainingTTSText strip t =
    go_bind (slice_from (wc_tts t) (RawPos (wc_segmentMap t))) (\<lambda>r. Inr (if strip then TrimSpace r else r))"

definition AccumulatedRawText :: "WordCompletionTracker \<Rightarrow> string option go" where
  "AccumulatedRawText t = (if \<not> wc_hasLLM t then Inr None else go_bind (go_slice (wc_llm t) 0 (wc_llmPos t)) (\<lambda>r. Inr (Some r)))"

definition RemainingRawTextOnly :: "WordCompletionTracker \<Rightarrow> string option go" where
  "RemainingRawTextOnly t =
    (if \<not> wc_hasLLM t then Inr None else go_bind (slice_from (wc_llm t) (wc_llmPos t)) (\<lambda>r. Inr (Some (TrimSpace r))))"

definition wc_Reset :: "WordCompletionTracker \<Rightarrow> WordCompletionTracker" where
  "wc_Reset t = t\<lparr>wc_userFacingPos := 0, wc_llmPos := 0, wc_overflowWord := None, wc_llmConsumed := None, wc_frameWord := None,
    wc_forceCompleted := False, wc_segmentMap := sm_Reset (wc_segmentMap t)\<rparr>"

fun AddWords :: "string list \<Rightarrow> WordCompletionTracker \<Rightarrow> (WordCompletionTracker \<times> bool list) go" where
  "AddWords [] t = Inr (t, [])"
| "AddWords (w # ws) t = go_bind (AddWord w t) (\<lambda>(t, c). go_bind (AddWords ws t) (\<lambda>(t, cs). Inr (t, c # cs)))"

section \<open>Trackers stay in range\<close>

definition wc_ok :: "WordCompletionTracker \<Rightarrow> bool" where
  "wc_ok t \<longleftrightarrow> sm_ok (wc_segmentMap t) \<and> sm_tts (wc_segmentMap t) = wc_tts t \<and>
    (wc_hasLLM t \<longrightarrow> sm_llm (wc_segmentMap t) = wc_llm t \<and> wc_llmPos t \<le> length (wc_llm t))"

lemma wc_ok_New: "wc_ok (NewWordCompletionTracker tts uf llm)"
  by (simp add: wc_ok_def NewWordCompletionTracker_def Let_def sm_ok_New) (simp add: NewTextSegmentMap_def)

lemma wc_ok_marks [simp]:
  "wc_ok (t\<lparr>wc_overflowWord := a\<rparr>) = wc_ok t" "wc_ok (t\<lparr>wc_llmConsumed := a\<rparr>) = wc_ok t"
  "wc_ok (t\<lparr>wc_frameWord := a\<rparr>) = wc_ok t" "wc_ok (t\<lparr>wc_userFacingPos := n\<rparr>) = wc_ok t"
  "wc_ok (t\<lparr>wc_forceCompleted := b\<rparr>) = wc_ok t"
  by (simp_all add: wc_ok_def)

lemma wc_ok_pos: "wc_ok t \<Longrightarrow> n \<le> length (wc_llm t) \<Longrightarrow> wc_ok (t\<lparr>wc_llmPos := n\<rparr>)"
  by (simp add: wc_ok_def)

lemma wc_ok_forceComplete: "forceComplete word t = Inr (t', b) \<Longrightarrow> wc_ok t \<Longrightarrow> wc_ok t'"
  by (auto simp: forceComplete_def Let_def split: if_splits intro!: wc_ok_pos)

lemma wc_ok_recordLLMSpan: "recordLLMSpan word p t = Inr t' \<Longrightarrow> wc_ok t \<Longrightarrow> wc_ok t'"
  by (auto simp: recordLLMSpan_def Let_def split: if_splits intro!: wc_ok_pos)

lemma own_part_fields: "own_part word t = Inr t' \<Longrightarrow> \<exists>a b. t' = t\<lparr>wc_overflowWord := a, wc_frameWord := b\<rparr>"
  by (auto simp: own_part_def Let_def split: if_splits)

lemma wc_ok_track_own:
  assumes "track_own_word word t = Inr (t', b)" and "wc_ok t"
  shows "wc_ok t'"
proof -
  obtain m where m: "AdvanceWord word (wc_segmentMap t) = Inr m" "sm_ok m" "sm_moved (wc_segmentMap t) m"
    using AdvanceWord_ok [of "wc_segmentMap t" word] assms(2) by (auto simp: wc_ok_def)
  obtain u where u: "own_part word (t\<lparr>wc_segmentMap := m\<rparr>) = Inr u"
    using assms(1) m(1) by (cases "own_part word (t\<lparr>wc_segmentMap := m\<rparr>)") (auto simp: track_own_word_def)
  define v where "v = u\<lparr>wc_userFacingPos := userFacingPos m, wc_llmPos := llmPos m\<rparr>"
  obtain x y where "u = (t\<lparr>wc_segmentMap := m\<rparr>)\<lparr>wc_overflowWord := x, wc_frameWord := y\<rparr>" using own_part_fields [OF u] by blast
  then have v: "wc_ok v" using assms(2) m by (auto simp: wc_ok_def v_def sm_moved_def sm_ok_def)
  obtain w where w: "(if wc_hasLLM v then recordLLMSpan word (wc_llmPos t) v else Inr v) = Inr w"
    and t': "t' = w \<or> t' = w\<lparr>wc_userFacingPos := length (wc_userFacing w)\<rparr>"
    using assms(1) m(1) u by (auto simp: track_own_word_def Let_def v_def split: if_splits)
  have "wc_ok w" using w v wc_ok_recordLLMSpan by (auto split: if_splits)
  with t' show ?thesis by auto
qed

lemma wc_ok_AddWord:
  assumes "AddWord word t = Inr (t', b)" and "wc_ok t"
  shows "wc_ok t'"
  using assms wc_ok_forceComplete wc_ok_track_own
  by (auto simp: AddWord_def Let_def split: if_splits)

lemma remaining_ok:
  assumes "wc_ok t"
  shows "\<exists>r. RemainingTTSText b t = Inr r" and "\<exists>r. RemainingRawTextOnly t = Inr r"
  using assms RawPos_le [of "wc_segmentMap t"]
  by (auto simp: RemainingTTSText_def RemainingRawTextOnly_def wc_ok_def slice_from_def)

section \<open>Where it fails\<close>

text \<open>
  Two marks in a row that stand apart from their word: the first is recorded past the map's cursor, and the
  second cuts the model's text from there back to the cursor. The slice runs backwards and the program stops.
\<close>

lemma two_separate_marks_panic:
  "AddWords [''a'', ''?''] (NewWordCompletionTracker ''a ? ! b'' ''a ? ! b'' ''a ? ! b'') \<noteq> Inl SliceBounds"
  "AddWords [''a'', ''?'', ''!''] (NewWordCompletionTracker ''a ? ! b'' ''a ? ! b'' ''a ? ! b'') = Inl SliceBounds"
  by code_simp+

text \<open>
  The displayed text is assumed to be as long as the spoken one in a segment whose letters and digits agree; when
  the spoken side has more punctuation, the cursor leaves the displayed text and reading what was said fails.
\<close>

lemma longer_punctuation_panics:
  "go_bind (AddWords [''Hi'', ''......''] (NewWordCompletionTracker ''Hi...... a'' ''Hi a'' ''Hi a'')) (\<lambda>(t, cs).
     AccumulatedUserFacingText t) = Inl SliceBounds"
  by code_simp

text \<open>What is displayed as said can shrink: a mark taken along with its word comes back when it is reported by itself.\<close>

lemma progress_goes_back:
  "go_bind (AddWords [''Oh''] (NewWordCompletionTracker ''Oh!! no'' ''Oh!! no'' ''Oh!! no'')) (\<lambda>(t, cs).
     AccumulatedUserFacingText t) = Inr ''Oh!!''"
  "go_bind (AddWords [''Oh'', ''!''] (NewWordCompletionTracker ''Oh!! no'' ''Oh!! no'' ''Oh!! no'')) (\<lambda>(t, cs).
     AccumulatedUserFacingText t) = Inr ''Oh!''"
  by code_simp+

end
