(* ===== verification/Frame_Sequencer.thy ===== *)
theory Frame_Sequencer
  imports Word_Tracker Text_Aggregation
begin

text \<open>
  The sequencer of spoken frames, \<^verbatim>\<open>src/utils/context/sequencer.go\<close>, and the aggregator that groups streamed
  tokens into sentences in three texts at once, \<^verbatim>\<open>src/utils/context/parallel.go\<close>. Every frame handed to the
  synthesizer takes a slot; a frame that is not spoken waits in its slot until everything ahead of it has been
  said. The sequencer's lock is held by each of its operations, so an operation is one function on its state. A
  slot is known by its place in the list, where Go compares pointers.
\<close>

section \<open>Three texts in step (parallel.go)\<close>

record parallelAggregation =
  pa_tts :: string
  pa_llm :: string
  pa_userFacing :: string

record parallelSentenceAggregator =
  ps_inner :: aggregator
  ps_tts :: string
  ps_llm :: string
  ps_userFacing :: string
  ps_aligned :: bool

definition newParallelSentenceAggregator :: parallelSentenceAggregator where
  "newParallelSentenceAggregator =
    \<lparr>ps_inner = NewSimpleAggregator AggregationSentence, ps_tts = [], ps_llm = [], ps_userFacing = [], ps_aligned = True\<rparr>"

fun cut_sentences :: "(string \<Rightarrow> nat) \<Rightarrow> nat \<Rightarrow> string \<Rightarrow> (string list \<times> string) go" where
  "cut_sentences tok 0 str = Inr ([], str)"
| "cut_sentences tok (Suc n) str =
    (if tok str = 0 then Inr ([], str)
     else if length str < tok str then Inl SliceBounds
     else go_bind (cut_sentences tok n (drop (tok str) str)) (\<lambda>(ss, rest). Inr (take (tok str) str # ss, rest)))"

definition sliceInsideToken ::
  "(string \<Rightarrow> nat) \<Rightarrow> string \<Rightarrow> nat \<Rightarrow> parallelSentenceAggregator \<Rightarrow>
   (parallelSentenceAggregator \<times> parallelAggregation list) go" where
  "sliceInsideToken tok ttsText boundaries p =
    go_bind (cut_sentences tok boundaries (ps_tts p @ ttsText)) (\<lambda>(ss, rest).
      Inr (p\<lparr>ps_tts := rest, ps_llm := rest, ps_userFacing := rest, ps_aligned := True\<rparr>,
           map (\<lambda>s. \<lparr>pa_tts = s, pa_llm = s, pa_userFacing = s\<rparr>) ss))"

definition pending_unit :: "parallelSentenceAggregator \<Rightarrow> parallelAggregation" where
  "pending_unit p = \<lparr>pa_tts = ps_tts p, pa_llm = ps_llm p, pa_userFacing = ps_userFacing p\<rparr>"

definition ps_aggregate ::
  "(string \<Rightarrow> nat) \<Rightarrow> string \<Rightarrow> string \<Rightarrow> string \<Rightarrow> parallelSentenceAggregator \<Rightarrow>
   (parallelSentenceAggregator \<times> parallelAggregation list) go" where
  "ps_aggregate tok ttsText llmText userFacingText p =
    go_bind (Aggregate_simple tok ttsText (ps_inner p)) (\<lambda>(a, os).
      let p = p\<lparr>ps_inner := a\<rparr>; boundaries = length os in
      if boundaries > 0 \<and> ps_aligned p \<and> ttsText = llmText \<and> llmText = userFacingText
      then sliceInsideToken tok ttsText boundaries p
      else
        let cut = (boundaries > 0 \<and> (ps_tts p \<noteq> [] \<or> ps_llm p \<noteq> [] \<or> ps_userFacing p \<noteq> []));
            out = (if cut then [pending_unit p] else []);
            p = (if cut then p\<lparr>ps_tts := [], ps_llm := [], ps_userFacing := []\<rparr> else p);
            p = p\<lparr>ps_tts := ps_tts p @ ttsText, ps_llm := ps_llm p @ llmText, ps_userFacing := ps_userFacing p @ userFacingText\<rparr>
        in Inr (p\<lparr>ps_aligned := (ps_tts p = ps_llm p \<and> ps_llm p = ps_userFacing p \<and> ps_tts p = buffer (ps_inner p))\<rparr>, out))"

definition ps_reset :: "parallelSentenceAggregator \<Rightarrow> parallelSentenceAggregator" where
  "ps_reset p = p\<lparr>ps_tts := [], ps_llm := [], ps_userFacing := [], ps_aligned := True\<rparr>"

definition ps_flush :: "parallelSentenceAggregator \<Rightarrow> parallelSentenceAggregator \<times> parallelAggregation option" where
  "ps_flush p =
    (let p = p\<lparr>ps_inner := fst (Flush_simple (ps_inner p))\<rparr> in
     if TrimSpace (ps_userFacing p) = [] then (p, None) else (ps_reset p, Some (pending_unit p)))"

section \<open>Frames in and out\<close>

record agg_frame =
  af_ID :: nat
  af_Text :: string
  af_AggregatedBy :: AggregationType
  af_ContextID :: string
  af_RawText :: string
  af_WillBeSpoken :: bool
  af_AppendToContext :: bool
  af_dest :: string
  af_pts :: "int option"

record word_frame =
  wf_Text :: string
  wf_pts :: "int option"
  wf_ContextID :: string
  wf_RawText :: string
  wf_AppendToContext :: bool
  wf_spaces :: bool

record progress_frame =
  pf_SegmentID :: nat
  pf_ContextID :: string
  pf_Text :: string
  pf_AggregatedBy :: AggregationType
  pf_Accumulated :: string
  pf_Remaining :: string
  pf_pts :: int

datatype seq_frame = SeqAgg agg_frame | SeqWord word_frame | SeqProgress progress_frame

definition rawOr :: "agg_frame \<Rightarrow> string" where
  "rawOr f = (if af_RawText f \<noteq> [] then af_RawText f else af_Text f)"

section \<open>State\<close>

record frame_slot =
  sl_frame :: agg_frame
  sl_contextID :: string
  sl_spoken :: bool
  sl_tracker :: "WordCompletionTracker option"
  sl_dest :: string
  sl_complete :: bool
  sl_spaces :: bool

record bufferedWord =
  bw_word :: string
  bw_pts :: int
  bw_contextID :: string
  bw_spaces :: bool

record streamingContext =
  sc_aggregator :: parallelSentenceAggregator
  sc_appendToCtx :: bool
  sc_buildTracker :: bool

text \<open>
  Identifiers come from a counter of the frames package. The ones the sequencer's own sentences get are counted
  here; nothing reads them but the progress reports that refer back to the sentence.
\<close>

record AggregatedFrameSequencer =
  sq_streamingMode :: bool
  sq_slots :: "frame_slot list"
  sq_contextAppend :: "string \<rightharpoonup> bool"
  sq_streaming :: "string \<rightharpoonup> streamingContext"
  sq_buffered :: "bufferedWord list"
  sq_nextID :: nat

definition NewAggregatedFrameSequencer :: "bool \<Rightarrow> AggregatedFrameSequencer" where
  "NewAggregatedFrameSequencer streaming =
    \<lparr>sq_streamingMode = streaming, sq_slots = [], sq_contextAppend = Map.empty, sq_streaming = Map.empty, sq_buffered = [],
     sq_nextID = 0\<rparr>"

section \<open>Slots\<close>

definition slotMatches :: "frame_slot \<Rightarrow> string \<Rightarrow> bool" where
  "slotMatches slot contextID \<longleftrightarrow>
    sl_spoken slot \<and> \<not> sl_complete slot \<and> sl_tracker slot \<noteq> None \<and> (contextID = [] \<or> sl_contextID slot = contextID)"

fun first_match :: "string \<Rightarrow> nat \<Rightarrow> frame_slot list \<Rightarrow> nat option" where
  "first_match contextID i [] = None"
| "first_match contextID i (slot # slots) =
    (if slotMatches slot contextID then Some i else first_match contextID (Suc i) slots)"

definition activeSlot :: "string \<Rightarrow> AggregatedFrameSequencer \<Rightarrow> nat option" where
  "activeSlot contextID s = first_match contextID 0 (sq_slots s)"

definition nextActiveSlot :: "nat \<Rightarrow> string \<Rightarrow> AggregatedFrameSequencer \<Rightarrow> nat option" where
  "nextActiveSlot current contextID s = first_match contextID (Suc current) (drop (Suc current) (sq_slots s))"

definition release_slot :: "int \<Rightarrow> frame_slot \<Rightarrow> agg_frame" where
  "release_slot lastWordPTS slot =
    (sl_frame slot)\<lparr>af_AppendToContext := True, af_dest := sl_dest slot,
      af_pts := (if lastWordPTS \<noteq> 0 then Some lastWordPTS else af_pts (sl_frame slot))\<rparr>"

fun flush_slots :: "int \<Rightarrow> frame_slot list \<Rightarrow> frame_slot list \<times> seq_frame list" where
  "flush_slots lastWordPTS [] = ([], [])"
| "flush_slots lastWordPTS (slot # slots) =
    (if sl_spoken slot \<and> sl_complete slot then flush_slots lastWordPTS slots
     else if \<not> sl_spoken slot \<and> \<not> sl_complete slot
     then (let (rest, out) = flush_slots lastWordPTS slots in (rest, SeqAgg (release_slot lastWordPTS slot) # out))
     else (slot # slots, []))"

definition sq_flush :: "int \<Rightarrow> AggregatedFrameSequencer \<Rightarrow> AggregatedFrameSequencer \<times> seq_frame list" where
  "sq_flush lastWordPTS s = (let (slots, out) = flush_slots lastWordPTS (sq_slots s) in (s\<lparr>sq_slots := slots\<rparr>, out))"

fun complete_first :: "frame_slot list \<Rightarrow> frame_slot list" where
  "complete_first [] = []"
| "complete_first (slot # slots) =
    (if sl_spoken slot \<and> \<not> sl_complete slot then slot\<lparr>sl_complete := True\<rparr> # slots else slot # complete_first slots)"

definition completeSpokenSlot :: "AggregatedFrameSequencer \<Rightarrow> AggregatedFrameSequencer \<times> seq_frame list" where
  "completeSpokenSlot s = sq_flush 0 (s\<lparr>sq_slots := complete_first (sq_slots s)\<rparr>)"

definition new_slot :: "agg_frame \<Rightarrow> string \<Rightarrow> bool \<Rightarrow> WordCompletionTracker option \<Rightarrow> string \<Rightarrow> bool \<Rightarrow> frame_slot" where
  "new_slot f contextID spoken tracker dest spaces =
    \<lparr>sl_frame = f, sl_contextID = contextID, sl_spoken = spoken, sl_tracker = tracker, sl_dest = dest, sl_complete = False,
     sl_spaces = spaces\<rparr>"

definition appendSpokenSlot ::
  "agg_frame \<Rightarrow> string \<Rightarrow> WordCompletionTracker option \<Rightarrow> bool \<Rightarrow> bool \<Rightarrow> AggregatedFrameSequencer \<Rightarrow> AggregatedFrameSequencer" where
  "appendSpokenSlot f contextID tracker appendToContext spaces s =
    s\<lparr>sq_contextAppend := (sq_contextAppend s)(contextID \<mapsto> appendToContext),
      sq_slots := sq_slots s @ [new_slot f contextID True tracker [] spaces]\<rparr>"

section \<open>Words\<close>

definition buildWordFrame ::
  "string \<Rightarrow> int \<Rightarrow> string \<Rightarrow> string \<Rightarrow> bool \<Rightarrow> bool \<Rightarrow> AggregatedFrameSequencer \<Rightarrow> word_frame" where
  "buildWordFrame txt at contextID rawText suppress spaces s =
    \<lparr>wf_Text = txt, wf_pts = Some at, wf_ContextID = contextID, wf_RawText = rawText,
     wf_AppendToContext =
       (if suppress then False
        else if contextID \<noteq> [] then (case sq_contextAppend s contextID of None \<Rightarrow> True | Some a \<Rightarrow> a)
        else True),
     wf_spaces = spaces\<rparr>"

definition buildProgressFrame :: "frame_slot \<Rightarrow> WordCompletionTracker \<Rightarrow> int \<Rightarrow> progress_frame go" where
  "buildProgressFrame slot t at =
    go_bind (AccumulatedUserFacingText t) (\<lambda>acc. go_bind (RemainingUserFacingText False t) (\<lambda>rest.
      Inr \<lparr>pf_SegmentID = af_ID (sl_frame slot), pf_ContextID = sl_contextID slot, pf_Text = af_Text (sl_frame slot),
           pf_AggregatedBy = af_AggregatedBy (sl_frame slot), pf_Accumulated = acc, pf_Remaining = rest, pf_pts = at\<rparr>))"

definition belongs_to_slot :: "nat option \<Rightarrow> string \<Rightarrow> AggregatedFrameSequencer \<Rightarrow> bool go" where
  "belongs_to_slot slot word s =
    (case slot of None \<Rightarrow> Inr False
     | Some i \<Rightarrow> (case sl_tracker (sq_slots s ! i) of None \<Rightarrow> Inr False | Some t \<Rightarrow> WordBelongsHere word t))"

text \<open>Whether a word was dealt with before any slot took it: \<open>None\<close> when it was not.\<close>

definition routeWord ::
  "nat option \<Rightarrow> string \<Rightarrow> int \<Rightarrow> string \<Rightarrow> bool \<Rightarrow> AggregatedFrameSequencer \<Rightarrow>
   (AggregatedFrameSequencer \<times> seq_frame list option) go" where
  "routeWord active word at contextID spaces s =
    (let hold = s\<lparr>sq_buffered := sq_buffered s @ [\<lparr>bw_word = word, bw_pts = at, bw_contextID = contextID, bw_spaces = spaces\<rparr>]\<rparr> in
     case active of
       None \<Rightarrow> Inr (if sq_streamingMode s then (hold, Some []) else (s, None))
     | Some i \<Rightarrow>
         (case sl_tracker (sq_slots s ! i) of
            None \<Rightarrow> Inr (s, None)
          | Some t \<Rightarrow> go_bind (WordBelongsHere word t) (\<lambda>here.
              if here then Inr (s, None)
              else go_bind (belongs_to_slot (nextActiveSlot i contextID s) word s) (\<lambda>there.
                if there then Inr (s, None)
                else if sq_streamingMode s then Inr (hold, Some [])
                else Inr (s, Some [SeqWord (buildWordFrame word at contextID [] False spaces s)])))))"

definition emitWord ::
  "nat option \<Rightarrow> string \<Rightarrow> int \<Rightarrow> string \<Rightarrow> bool \<Rightarrow> AggregatedFrameSequencer \<Rightarrow> (AggregatedFrameSequencer \<times> seq_frame list) go" where
  "emitWord active word at contextID spaces s =
    (case active of
       None \<Rightarrow> Inr (s, if word = [] then [] else [SeqWord (buildWordFrame word at contextID [] False spaces s)])
     | Some i \<Rightarrow>
         let slot = (sq_slots s ! i)\<lparr>sl_spaces := (spaces \<or> sl_spaces (sq_slots s ! i))\<rparr>;
             s = s\<lparr>sq_slots := (sq_slots s)[i := slot]\<rparr>
         in case sl_tracker slot of
              None \<Rightarrow> Inr (s, if word = [] then [] else [SeqWord (buildWordFrame word at (sl_contextID slot) [] False (sl_spaces slot) s)])
            | Some t \<Rightarrow>
                let frameText = (case FrameWord t of None \<Rightarrow> [] | Some w \<Rightarrow> w);
                    rawText = (case wc_RawText t of None \<Rightarrow> [] | Some w \<Rightarrow> w);
                    out = (if frameText = [] then []
                           else [SeqWord (buildWordFrame frameText at (sl_contextID slot) rawText (Suppress t) (sl_spaces slot) s)])
                in if Suppress t then Inr (s, out)
                   else go_bind (buildProgressFrame slot t at) (\<lambda>p. Inr (s, out @ [SeqProgress p])))"

text \<open>Giving the word to the active slot's tracker: whether the slot is now complete, and what is left of the word.\<close>

definition track_word ::
  "nat option \<Rightarrow> string \<Rightarrow> AggregatedFrameSequencer \<Rightarrow> (AggregatedFrameSequencer \<times> bool \<times> string) go" where
  "track_word active word s =
    (case active of
       None \<Rightarrow> Inr (s, False, [])
     | Some i \<Rightarrow>
         (case sl_tracker (sq_slots s ! i) of
            None \<Rightarrow> Inr (s, False, [])
          | Some t \<Rightarrow> go_bind (AddWord word t) (\<lambda>(t, complete).
              Inr (s\<lparr>sq_slots := (sq_slots s)[i := (sq_slots s ! i)\<lparr>sl_tracker := Some t\<rparr>]\<rparr>, complete,
                   case OverflowWord t of None \<Rightarrow> [] | Some w \<Rightarrow> w))))"

definition contextLive :: "string \<Rightarrow> AggregatedFrameSequencer \<Rightarrow> bool" where
  "contextLive contextID s \<longleftrightarrow> sq_contextAppend s contextID \<noteq> None"

text \<open>The slot takes the word. The last component is what is left of it, to be processed in turn.\<close>

definition take_word ::
  "nat option \<Rightarrow> string \<Rightarrow> int \<Rightarrow> string \<Rightarrow> bool \<Rightarrow> AggregatedFrameSequencer \<Rightarrow>
   (AggregatedFrameSequencer \<times> seq_frame list \<times> string option) go" where
  "take_word active word at contextID spaces s =
    go_bind (track_word active word s) (\<lambda>(s, complete, over).
    go_bind (emitWord active word at contextID spaces s) (\<lambda>(s, out).
      case active of
        None \<Rightarrow> Inr (s, out, None)
      | Some i \<Rightarrow>
          if complete then
            let (s, sent) = sq_flush at (s\<lparr>sq_slots := (sq_slots s)[i := (sq_slots s ! i)\<lparr>sl_complete := True\<rparr>]\<rparr>)
            in Inr (s, out @ sent, if over = [] then None else Some over)
          else Inr (s, out, None)))"

definition word_step ::
  "string \<Rightarrow> int \<Rightarrow> string \<Rightarrow> bool \<Rightarrow> AggregatedFrameSequencer \<Rightarrow> (AggregatedFrameSequencer \<times> seq_frame list \<times> string option) go" where
  "word_step word at contextID spaces s =
    (if contextID \<noteq> [] \<and> \<not> contextLive contextID s \<and> sq_streaming s contextID = None then Inr (s, [], None)
     else
       let active = activeSlot contextID s in
       go_bind (routeWord active word at contextID spaces s) (\<lambda>(s, handled).
         case handled of
           Some out \<Rightarrow> Inr (s, out, None)
         | None \<Rightarrow> take_word active word at contextID spaces s))"

text \<open>What of a slot a word leaves alone, and what tells an open slot.\<close>

definition slot_key :: "frame_slot \<Rightarrow> agg_frame \<times> string \<times> bool \<times> bool \<times> string \<times> bool" where
  "slot_key sl = (sl_frame sl, sl_contextID sl, sl_spoken sl, sl_tracker sl \<noteq> None, sl_dest sl, sl_complete sl)"

definition open_slots :: "AggregatedFrameSequencer \<Rightarrow> nat" where
  "open_slots s = length (filter (\<lambda>sl. slotMatches sl []) (sq_slots s))"

definition same_state :: "AggregatedFrameSequencer \<Rightarrow> AggregatedFrameSequencer \<Rightarrow> bool" where
  "same_state s s' \<longleftrightarrow> sq_streamingMode s' = sq_streamingMode s \<and> sq_contextAppend s' = sq_contextAppend s \<and>
    sq_streaming s' = sq_streaming s \<and> sq_nextID s' = sq_nextID s"

lemma same_state_refl [simp]: "same_state s s"
  by (simp add: same_state_def)

lemma same_state_trans: "same_state a b \<Longrightarrow> same_state b c \<Longrightarrow> same_state a c"
  by (simp add: same_state_def)

lemma first_match_SomeD:
  "first_match c k slots = Some i \<Longrightarrow> k \<le> i \<and> i - k < length slots \<and> slotMatches (slots ! (i - k)) c"
  by (induction c k slots rule: first_match.induct) (auto split: if_splits simp: Suc_diff_le)

lemma activeSlot_SomeD: "activeSlot c s = Some i \<Longrightarrow> i < length (sq_slots s) \<and> slotMatches (sq_slots s ! i) c"
  by (auto simp: activeSlot_def dest: first_match_SomeD)

lemma map_update_same: "f y = f (xs ! i) \<Longrightarrow> map f (xs[i := y]) = map f xs"
  by (metis list_update_id map_update)

lemma track_word_keys:
  assumes "track_word active word s = Inr (s', b, over)" and "\<forall>i. active = Some i \<longrightarrow> i < length (sq_slots s)"
  shows "map slot_key (sq_slots s') = map slot_key (sq_slots s) \<and> same_state s s' \<and> sq_buffered s' = sq_buffered s"
  using assms
  by (auto simp: track_word_def same_state_def slot_key_def split: option.splits intro!: map_update_same)

text \<open>The skipped frames among what is sent: only their release marks a frame for the conversation.\<close>

fun released_ids :: "seq_frame list \<Rightarrow> nat list" where
  "released_ids [] = []"
| "released_ids (SeqAgg f # fs) = (if af_AppendToContext f then af_ID f # released_ids fs else released_ids fs)"
| "released_ids (f # fs) = released_ids fs"

lemma released_ids_append [simp]: "released_ids (xs @ ys) = released_ids xs @ released_ids ys"
  by (induction xs rule: released_ids.induct) auto

lemma emitWord_keys:
  assumes "emitWord active word at c sp s = Inr (s', out)" and "\<forall>i. active = Some i \<longrightarrow> i < length (sq_slots s)"
  shows "map slot_key (sq_slots s') = map slot_key (sq_slots s) \<and> same_state s s' \<and> sq_buffered s' = sq_buffered s \<and> released_ids out = []"
  using assms
  by (auto simp: emitWord_def same_state_def slot_key_def Let_def split: option.splits if_splits intro!: map_update_same)

lemma routeWord_same:
  assumes "routeWord active word at c sp s = Inr (s', handled)"
  shows "sq_slots s' = sq_slots s \<and> same_state s s' \<and> (handled = None \<longrightarrow> s' = s) \<and> (\<forall>out. handled = Some out \<longrightarrow> released_ids out = [])"
  using assms
  by (auto simp: routeWord_def same_state_def Let_def split: option.splits if_splits)

text \<open>A word either changes no slot, or completes the active one and releases what waited behind it.\<close>

definition completes :: "int \<Rightarrow> string \<Rightarrow> AggregatedFrameSequencer \<Rightarrow> AggregatedFrameSequencer \<Rightarrow> seq_frame list \<Rightarrow> bool" where
  "completes at c s s' out \<longleftrightarrow> (\<exists>i slots sent. i < length (sq_slots s) \<and> slotMatches (sq_slots s ! i) c \<and>
    map slot_key slots = (map slot_key (sq_slots s))[i := slot_key ((sq_slots s ! i)\<lparr>sl_complete := True\<rparr>)] \<and>
    flush_slots at slots = (sq_slots s', sent) \<and> released_ids out = released_ids sent)"

lemma slot_key_complete: "slot_key sl = slot_key sl' \<Longrightarrow> slot_key (sl\<lparr>sl_complete := True\<rparr>) = slot_key (sl'\<lparr>sl_complete := True\<rparr>)"
  by (simp add: slot_key_def)

lemma take_word_cases:
  assumes "take_word (activeSlot c s) word at c sp s = Inr (s', out, over)"
  shows "same_state s s' \<and> sq_buffered s' = sq_buffered s \<and>
    (map slot_key (sq_slots s') = map slot_key (sq_slots s) \<and> released_ids out = [] \<and> over = None \<or> completes at c s s' out)"
proof -
  have act: "\<forall>i. activeSlot c s = Some i \<longrightarrow> i < length (sq_slots s)" by (auto dest: activeSlot_SomeD)
  obtain s1 complete over1 where t: "track_word (activeSlot c s) word s = Inr (s1, complete, over1)"
    using assms by (cases "track_word (activeSlot c s) word s") (auto simp: take_word_def)
  obtain s2 out1 where e: "emitWord (activeSlot c s) word at c sp s1 = Inr (s2, out1)"
    using assms t by (cases "emitWord (activeSlot c s) word at c sp s1") (auto simp: take_word_def)
  have r: "(case activeSlot c s of None \<Rightarrow> Inr (s2, out1, None) | Some i \<Rightarrow>
      if complete then let (s, sent) = sq_flush at (s2\<lparr>sq_slots := (sq_slots s2)[i := (sq_slots s2 ! i)\<lparr>sl_complete := True\<rparr>]\<rparr>)
          in Inr (s, out1 @ sent, if over1 = [] then None else Some over1)
      else Inr (s2, out1, None)) = (Inr (s', out, over) :: (AggregatedFrameSequencer \<times> seq_frame list \<times> string option) go)"
    using assms by (simp only: take_word_def t e go_bind.simps prod.case)
  have k1: "map slot_key (sq_slots s1) = map slot_key (sq_slots s)" "same_state s s1" "sq_buffered s1 = sq_buffered s"
    using track_word_keys [OF t act] by auto
  have len: "length (sq_slots s1) = length (sq_slots s)" by (rule map_eq_imp_length_eq [OF k1(1)])
  have k2: "map slot_key (sq_slots s2) = map slot_key (sq_slots s)" "same_state s s2" "sq_buffered s2 = sq_buffered s" "released_ids out1 = []"
    using emitWord_keys [OF e] act len k1 by (auto intro: same_state_trans)
  show ?thesis
  proof (cases "\<exists>i. activeSlot c s = Some i \<and> complete")
    case True
    then obtain i where i: "activeSlot c s = Some i" and c: complete by blast
    define slots where "slots = (sq_slots s2)[i := (sq_slots s2 ! i)\<lparr>sl_complete := True\<rparr>]"
    obtain slots' sent where f: "flush_slots at slots = (slots', sent)" by fastforce
    have ii: "i < length (sq_slots s)" "slotMatches (sq_slots s ! i) c" using activeSlot_SomeD [OF i] by auto
    have same: "slot_key (sq_slots s2 ! i) = slot_key (sq_slots s ! i)"
      using k2(1) ii(1) by (metis length_map nth_map)
    have "map slot_key slots = (map slot_key (sq_slots s))[i := slot_key ((sq_slots s ! i)\<lparr>sl_complete := True\<rparr>)]"
      by (simp only: slots_def map_update k2(1) slot_key_complete [OF same])
    moreover have res: "s' = s2\<lparr>sq_slots := slots'\<rparr>" "out = out1 @ sent"
      using r i c f by (simp_all add: sq_flush_def slots_def [symmetric])
    ultimately have "completes at c s s' out" unfolding completes_def using ii f k2(4)
      by (intro exI [of _ i] exI [of _ slots] exI [of _ sent]) simp
    moreover have "same_state s s'" "sq_buffered s' = sq_buffered s" using res k2 by (simp_all add: same_state_def)
    ultimately show ?thesis by blast
  next
    case False
    with r k2 show ?thesis by (auto split: option.splits)
  qed
qed

lemma word_step_cases:
  assumes "word_step word at c sp s = Inr (s', out, over)"
  shows "same_state s s' \<and>
    (map slot_key (sq_slots s') = map slot_key (sq_slots s) \<and> released_ids out = [] \<and> over = None \<or> completes at c s s' out)"
proof (cases "c \<noteq> [] \<and> \<not> contextLive c s \<and> sq_streaming s c = None")
  case True
  with assms show ?thesis by (auto simp: word_step_def)
next
  case False
  with assms obtain s1 handled where r: "routeWord (activeSlot c s) word at c sp s = Inr (s1, handled)"
    and h: "(case handled of Some out \<Rightarrow> Inr (s1, out, None) | None \<Rightarrow> take_word (activeSlot c s) word at c sp s1) = Inr (s', out, over)"
    unfolding word_step_def by (auto simp: Let_def)
  from routeWord_same [OF r] h take_word_cases [of c s word at sp s' out over] show ?thesis
    by (auto split: option.splits)
qed

section \<open>Every word is processed to its end\<close>

lemma slotMatches_key: "slotMatches sl c \<longleftrightarrow> (case slot_key sl of (f, d, sp, tr, ds, co) \<Rightarrow> sp \<and> \<not> co \<and> tr \<and> (c = [] \<or> d = c))"
  by (simp add: slotMatches_def slot_key_def)

definition open_key :: "agg_frame \<times> string \<times> bool \<times> bool \<times> string \<times> bool \<Rightarrow> bool" where
  "open_key k = (case k of (f, d, sp, tr, ds, co) \<Rightarrow> sp \<and> \<not> co \<and> tr)"

lemma open_slots_keys: "length (filter (\<lambda>sl. slotMatches sl []) slots) = length (filter open_key (map slot_key slots))"
  by (simp add: filter_map comp_def slotMatches_key open_key_def)

lemma filter_update_less:
  assumes "i < length xs" "P (xs ! i)" "\<not> P y"
  shows "length (filter P (xs[i := y])) < length (filter P xs)"
  using assms
proof (induction xs arbitrary: i)
  case (Cons x xs)
  then show ?case by (cases i) auto
qed simp

lemma flush_slots_open: "flush_slots at slots = (slots', sent) \<Longrightarrow>
  length (filter (\<lambda>sl. slotMatches sl []) slots') = length (filter (\<lambda>sl. slotMatches sl []) slots)"
  by (induction at slots arbitrary: slots' sent rule: flush_slots.induct)
    (auto simp: slotMatches_def split: if_splits prod.splits)

lemma word_step_open:
  assumes "word_step word at c sp s = Inr (s', out, Some over)"
  shows "open_slots s' < open_slots s"
proof -
  from word_step_cases [OF assms] obtain i slots sent where i: "i < length (sq_slots s)" "slotMatches (sq_slots s ! i) c"
    and k: "map slot_key slots = (map slot_key (sq_slots s))[i := slot_key ((sq_slots s ! i)\<lparr>sl_complete := True\<rparr>)]"
    and f: "flush_slots at slots = (sq_slots s', sent)" by (auto simp: completes_def)
  have "length (filter open_key (map slot_key slots)) < length (filter open_key (map slot_key (sq_slots s)))"
    unfolding k using i by (intro filter_update_less) (auto simp: open_key_def slot_key_def slotMatches_def)
  then show ?thesis using flush_slots_open [OF f] by (simp add: open_slots_def open_slots_keys)
qed

function processWord :: "string \<Rightarrow> int \<Rightarrow> string \<Rightarrow> bool \<Rightarrow> AggregatedFrameSequencer \<Rightarrow> (AggregatedFrameSequencer \<times> seq_frame list) go" where
  "processWord word at contextID spaces s =
    (case word_step word at contextID spaces s of
       Inl e \<Rightarrow> Inl e
     | Inr (s', out, None) \<Rightarrow> Inr (s', out)
     | Inr (s', out, Some over) \<Rightarrow> go_bind (processWord over at contextID False s') (\<lambda>(s, sent). Inr (s, out @ sent)))"
  by pat_completeness auto
termination
  by (relation "measure (\<lambda>(word, at, c, sp, s). open_slots s)") (auto dest: word_step_open)

declare processWord.simps [simp del]

section \<open>The operations\<close>

fun process_words :: "bufferedWord list \<Rightarrow> AggregatedFrameSequencer \<Rightarrow> (AggregatedFrameSequencer \<times> seq_frame list) go" where
  "process_words [] s = Inr (s, [])"
| "process_words (w # ws) s =
    go_bind (processWord (bw_word w) (bw_pts w) (bw_contextID w) (bw_spaces w) s) (\<lambda>(s, out).
    go_bind (process_words ws s) (\<lambda>(s, sent). Inr (s, out @ sent)))"

definition drainBufferedWords :: "AggregatedFrameSequencer \<Rightarrow> (AggregatedFrameSequencer \<times> seq_frame list) go" where
  "drainBufferedWords s = process_words (sq_buffered s) (s\<lparr>sq_buffered := []\<rparr>)"

definition promoted_frame :: "parallelAggregation \<Rightarrow> string \<Rightarrow> nat \<Rightarrow> agg_frame" where
  "promoted_frame agg contextID fid =
    \<lparr>af_ID = fid, af_Text = pa_userFacing agg, af_AggregatedBy = AggregationSentence, af_ContextID = contextID,
     af_RawText = pa_llm agg, af_WillBeSpoken = True, af_AppendToContext = False, af_dest = [], af_pts = None\<rparr>"

text \<open>Without word timings the slot is complete at once, and one frame carries the sentence into the conversation.\<close>

definition promote_unspoken ::
  "parallelAggregation \<Rightarrow> bool \<Rightarrow> AggregatedFrameSequencer \<Rightarrow> AggregatedFrameSequencer \<times> seq_frame list" where
  "promote_unspoken agg appendToContext s =
    (let (s, sent) = completeSpokenSlot s in
     (s, SeqWord \<lparr>wf_Text = pa_userFacing agg, wf_pts = None, wf_ContextID = [], wf_RawText = pa_llm agg,
                  wf_AppendToContext = appendToContext, wf_spaces = False\<rparr> # sent))"

definition promote ::
  "parallelAggregation \<Rightarrow> string \<Rightarrow> bool \<Rightarrow> bool \<Rightarrow> AggregatedFrameSequencer \<Rightarrow> (AggregatedFrameSequencer \<times> seq_frame list) go" where
  "promote agg contextID appendToContext buildTracker s =
    (if TrimSpace (pa_userFacing agg) = [] then Inr (s, [])
     else
       let f = promoted_frame agg contextID (sq_nextID s);
           tracker = (if buildTracker then Some (NewWordCompletionTracker (pa_tts agg) (pa_userFacing agg) (pa_llm agg)) else None);
           s = appendSpokenSlot f contextID tracker appendToContext False (s\<lparr>sq_nextID := Suc (sq_nextID s)\<rparr>);
           (s, said) = (if buildTracker then (s, []) else promote_unspoken agg appendToContext s)
       in go_bind (drainBufferedWords s) (\<lambda>(s, sent). Inr (s, SeqAgg f # said @ sent)))"

fun promote_all ::
  "parallelAggregation list \<Rightarrow> string \<Rightarrow> bool \<Rightarrow> bool \<Rightarrow> AggregatedFrameSequencer \<Rightarrow> (AggregatedFrameSequencer \<times> seq_frame list) go" where
  "promote_all [] contextID appendToContext buildTracker s = Inr (s, [])"
| "promote_all (a # as) contextID appendToContext buildTracker s =
    go_bind (promote a contextID appendToContext buildTracker s) (\<lambda>(s, out).
    go_bind (promote_all as contextID appendToContext buildTracker s) (\<lambda>(s, sent). Inr (s, out @ sent)))"

definition registerSpoken ::
  "(string \<Rightarrow> nat) \<Rightarrow> agg_frame \<Rightarrow> string \<Rightarrow> string \<Rightarrow> bool \<Rightarrow> bool \<Rightarrow> bool \<Rightarrow> AggregatedFrameSequencer \<Rightarrow>
   (AggregatedFrameSequencer \<times> seq_frame list) go" where
  "registerSpoken tok f contextID ttsText appendToContext buildTracker spaces s =
    (if \<not> sq_streamingMode s then
       Inr (appendSpokenSlot f contextID
              (if buildTracker then Some (NewWordCompletionTracker ttsText (af_Text f) (rawOr f)) else None)
              appendToContext spaces s, [])
     else
       let sc = (case sq_streaming s contextID of
                   Some sc \<Rightarrow> sc
                 | None \<Rightarrow> \<lparr>sc_aggregator = newParallelSentenceAggregator, sc_appendToCtx = appendToContext,
                            sc_buildTracker = buildTracker\<rparr>)
       in go_bind (ps_aggregate tok ttsText (rawOr f) (af_Text f) (sc_aggregator sc)) (\<lambda>(p, aggs).
            promote_all aggs contextID (sc_appendToCtx sc) (sc_buildTracker sc)
              (s\<lparr>sq_streaming := (sq_streaming s)(contextID \<mapsto> sc\<lparr>sc_aggregator := p\<rparr>)\<rparr>)))"

definition sq_finalize :: "string \<Rightarrow> AggregatedFrameSequencer \<Rightarrow> (AggregatedFrameSequencer \<times> seq_frame list) go" where
  "sq_finalize contextID s =
    (if \<not> sq_streamingMode s \<or> contextID = [] then Inr (s, [])
     else
       case sq_streaming s contextID of
         None \<Rightarrow> Inr (s, [])
       | Some sc \<Rightarrow>
           let s = s\<lparr>sq_streaming := (sq_streaming s)(contextID := None)\<rparr> in
           case snd (ps_flush (sc_aggregator sc)) of
             None \<Rightarrow> Inr (s, [])
           | Some agg \<Rightarrow> promote agg contextID (sc_appendToCtx sc) (sc_buildTracker sc) s)"

definition registerSkipped ::
  "agg_frame \<Rightarrow> string \<Rightarrow> string \<Rightarrow> AggregatedFrameSequencer \<Rightarrow> (AggregatedFrameSequencer \<times> seq_frame list) go" where
  "registerSkipped f contextID transportDestination s =
    go_bind (sq_finalize contextID s) (\<lambda>(s, out).
      let (s, sent) = sq_flush 0 (s\<lparr>sq_slots := sq_slots s @
            [new_slot (f\<lparr>af_ContextID := contextID\<rparr>) contextID False None transportDestination False]\<rparr>)
      in Inr (s, out @ sent))"

definition rest_of_slot :: "int \<Rightarrow> AggregatedFrameSequencer \<Rightarrow> frame_slot \<Rightarrow> seq_frame list go" where
  "rest_of_slot lastWordPTS s slot =
    (case sl_tracker slot of
       None \<Rightarrow> Inr []
     | Some t \<Rightarrow>
         go_bind (RemainingTTSText True t) (\<lambda>remaining. go_bind (RemainingRawTextOnly t) (\<lambda>raw.
           let rawRemaining = (case raw of None \<Rightarrow> [] | Some r \<Rightarrow>
                 if r \<noteq> [] \<and> remaining \<noteq> [] \<and> \<not> Contains r remaining then [] else r)
           in Inr (if remaining = [] then []
                   else [SeqWord (buildWordFrame remaining lastWordPTS (sl_contextID slot) rawRemaining False (sl_spaces slot) s)]))))"

fun force_slots ::
  "string \<Rightarrow> int \<Rightarrow> AggregatedFrameSequencer \<Rightarrow> frame_slot list \<Rightarrow> (frame_slot list \<times> seq_frame list) go" where
  "force_slots contextID lastWordPTS s [] = Inr ([], [])"
| "force_slots contextID lastWordPTS s (slot # slots) =
    (if \<not> sl_spoken slot \<or> sl_complete slot \<or> sl_contextID slot \<noteq> contextID
     then go_bind (force_slots contextID lastWordPTS s slots) (\<lambda>(rest, out). Inr (slot # rest, out))
     else go_bind (rest_of_slot lastWordPTS s slot) (\<lambda>fs.
          go_bind (force_slots contextID lastWordPTS s slots) (\<lambda>(rest, out).
            Inr (slot\<lparr>sl_complete := True\<rparr> # rest, fs @ out))))"

definition sq_forceComplete :: "string \<Rightarrow> int \<Rightarrow> AggregatedFrameSequencer \<Rightarrow> (AggregatedFrameSequencer \<times> seq_frame list) go" where
  "sq_forceComplete contextID lastWordPTS s =
    go_bind (force_slots contextID lastWordPTS s (sq_slots s)) (\<lambda>(slots, out).
      let (s, sent) = sq_flush lastWordPTS (s\<lparr>sq_slots := slots\<rparr>)
      in Inr (s\<lparr>sq_contextAppend := (sq_contextAppend s)(contextID := None),
               sq_streaming := (sq_streaming s)(contextID := None)\<rparr>, out @ sent))"

definition sq_clear :: "AggregatedFrameSequencer \<Rightarrow> AggregatedFrameSequencer" where
  "sq_clear s = s\<lparr>sq_slots := [], sq_contextAppend := Map.empty, sq_buffered := [], sq_streaming := Map.empty\<rparr>"

section \<open>Runs\<close>

datatype seq_op =
    RegisterSpoken agg_frame string string bool bool bool
  | RegisterSkipped agg_frame string string
  | Finalize string
  | ProcessWord string int string bool
  | CompleteSpokenSlot
  | FlushSlots int
  | ForceComplete string int
  | ClearSlots

fun seq_step :: "(string \<Rightarrow> nat) \<Rightarrow> seq_op \<Rightarrow> AggregatedFrameSequencer \<Rightarrow> (AggregatedFrameSequencer \<times> seq_frame list) go" where
  "seq_step tok (RegisterSpoken f c t a b sp) s = registerSpoken tok f c t a b sp s"
| "seq_step tok (RegisterSkipped f c d) s = registerSkipped f c d s"
| "seq_step tok (Finalize c) s = sq_finalize c s"
| "seq_step tok (ProcessWord w at c sp) s = processWord w at c sp s"
| "seq_step tok CompleteSpokenSlot s = Inr (completeSpokenSlot s)"
| "seq_step tok (FlushSlots at) s = Inr (sq_flush at s)"
| "seq_step tok (ForceComplete c at) s = sq_forceComplete c at s"
| "seq_step tok ClearSlots s = Inr (sq_clear s, [])"

fun seq_run :: "(string \<Rightarrow> nat) \<Rightarrow> seq_op list \<Rightarrow> AggregatedFrameSequencer \<Rightarrow> (AggregatedFrameSequencer \<times> seq_frame list) go" where
  "seq_run tok [] s = Inr (s, [])"
| "seq_run tok (p # ps) s = go_bind (seq_step tok p s) (\<lambda>(s, out). go_bind (seq_run tok ps s) (\<lambda>(s, sent). Inr (s, out @ sent)))"

end
