(* ===== verification/Sequencer_Properties.thy ===== *)
theory Sequencer_Properties
  imports Frame_Sequencer
begin

text \<open>
  What the sequencer promises, over any run of its operations: the frames that are not spoken leave in the order
  they were registered and once each, no earlier than what was to be said before them, and closing a context
  always returns and leaves nothing behind. The aggregator of three texts loses no character of any of them.
\<close>

section \<open>The order of the slots\<close>

definition waiting_in :: "frame_slot list \<Rightarrow> nat list" where
  "waiting_in slots = map (\<lambda>sl. af_ID (sl_frame sl)) (filter (\<lambda>sl. \<not> sl_spoken sl) slots)"

definition slot_ok :: "frame_slot \<Rightarrow> bool" where
  "slot_ok sl \<longleftrightarrow> (\<not> sl_spoken sl \<longrightarrow> \<not> sl_complete sl)"

definition led_by_unsaid :: "frame_slot list \<Rightarrow> bool" where
  "led_by_unsaid slots \<longleftrightarrow> (case slots of [] \<Rightarrow> True | sl # _ \<Rightarrow> sl_spoken sl \<and> \<not> sl_complete sl)"

definition trackers_ok :: "frame_slot list \<Rightarrow> bool" where
  "trackers_ok slots \<longleftrightarrow> (\<forall>sl \<in> set slots. \<forall>t. sl_tracker sl = Some t \<longrightarrow> wc_ok t)"

definition slots_ok :: "frame_slot list \<Rightarrow> bool" where
  "slots_ok slots \<longleftrightarrow> list_all slot_ok slots \<and> trackers_ok slots"

definition seq_ok :: "AggregatedFrameSequencer \<Rightarrow> bool" where
  "seq_ok s \<longleftrightarrow> slots_ok (sq_slots s) \<and> led_by_unsaid (sq_slots s)"

lemma waiting_keys: "waiting_in slots = map (\<lambda>k. af_ID (fst k)) (filter (\<lambda>(f, d, sp, r). \<not> sp) (map slot_key slots))"
  by (simp add: waiting_in_def filter_map comp_def slot_key_def)

lemma slot_ok_keys: "list_all slot_ok slots \<longleftrightarrow> list_all (\<lambda>(f, d, sp, tr, ds, co). \<not> sp \<longrightarrow> \<not> co) (map slot_key slots)"
  by (simp add: list_all_iff slot_ok_def slot_key_def)

lemma led_keys: "led_by_unsaid slots \<longleftrightarrow> (case map slot_key slots of [] \<Rightarrow> True | (f, d, sp, tr, ds, co) # _ \<Rightarrow> sp \<and> \<not> co)"
  by (cases slots) (simp_all add: led_by_unsaid_def slot_key_def)

lemma waiting_append [simp]: "waiting_in (xs @ ys) = waiting_in xs @ waiting_in ys"
  by (simp add: waiting_in_def)

lemma flush_slots_ok:
  assumes "flush_slots at slots = (slots', sent)" and "list_all slot_ok slots"
  shows "waiting_in slots = released_ids sent @ waiting_in slots' \<and> list_all slot_ok slots' \<and> led_by_unsaid slots' \<and> set slots' \<subseteq> set slots"
  using assms
proof (induction at slots arbitrary: slots' sent rule: flush_slots.induct)
  case (2 at slot slots)
  show ?case
  proof (cases "sl_spoken slot")
    case True
    with 2 show ?thesis by (auto simp: waiting_in_def led_by_unsaid_def split: if_splits)
  next
    case False
    then have "\<not> sl_complete slot" using 2(4) by (simp add: slot_ok_def)
    with 2 False show ?thesis by (fastforce simp: waiting_in_def release_slot_def split: prod.splits)
  qed
qed (simp add: waiting_in_def led_by_unsaid_def)

section \<open>Every operation keeps the order\<close>

lemma trackers_ok_update:
  "trackers_ok slots \<Longrightarrow> (\<And>t. sl_tracker sl = Some t \<Longrightarrow> wc_ok t) \<Longrightarrow> trackers_ok (slots[i := sl])"
  using set_update_subset_insert [of slots i sl] by (auto simp: trackers_ok_def)

lemma trackers_ok_nth: "trackers_ok slots \<Longrightarrow> i < length slots \<Longrightarrow> sl_tracker (slots ! i) = Some t \<Longrightarrow> wc_ok t"
  by (auto simp: trackers_ok_def)

lemma trackers_ok_subset: "trackers_ok slots \<Longrightarrow> set slots' \<subseteq> set slots \<Longrightarrow> trackers_ok slots'"
  by (auto simp: trackers_ok_def)

lemma track_word_trackers:
  assumes "track_word active word s = Inr (s', b, over)" and "\<forall>i. active = Some i \<longrightarrow> i < length (sq_slots s)"
    and "trackers_ok (sq_slots s)"
  shows "trackers_ok (sq_slots s')"
  using assms
  by (auto simp: track_word_def split: option.splits intro!: trackers_ok_update)
    (meson trackers_ok_nth wc_ok_AddWord)+

lemma emitWord_trackers:
  assumes "emitWord active word at c sp s = Inr (s', out)" and "\<forall>i. active = Some i \<longrightarrow> i < length (sq_slots s)"
    and "trackers_ok (sq_slots s)"
  shows "trackers_ok (sq_slots s')"
  using assms
  by (auto simp: emitWord_def Let_def split: option.splits if_splits intro!: trackers_ok_update)
    (meson trackers_ok_nth)+

lemma flush_slots_subset: "flush_slots at slots = (slots', sent) \<Longrightarrow> set slots' \<subseteq> set slots"
  by (induction at slots arbitrary: slots' sent rule: flush_slots.induct) (auto split: if_splits prod.splits)

lemma take_word_trackers:
  assumes "take_word (activeSlot c s) word at c sp s = Inr (s', out, over)" and "trackers_ok (sq_slots s)"
  shows "trackers_ok (sq_slots s')"
proof -
  have act: "\<forall>i. activeSlot c s = Some i \<longrightarrow> i < length (sq_slots s)" by (auto dest: activeSlot_SomeD)
  obtain s1 complete over1 where t: "track_word (activeSlot c s) word s = Inr (s1, complete, over1)"
    using assms(1) by (cases "track_word (activeSlot c s) word s") (auto simp: take_word_def)
  obtain s2 out1 where e: "emitWord (activeSlot c s) word at c sp s1 = Inr (s2, out1)"
    using assms(1) t by (cases "emitWord (activeSlot c s) word at c sp s1") (auto simp: take_word_def)
  have len: "length (sq_slots s1) = length (sq_slots s)"
    using track_word_keys [OF t act] map_eq_imp_length_eq by blast
  have "trackers_ok (sq_slots s1)" using track_word_trackers [OF t act assms(2)] .
  then have ok: "trackers_ok (sq_slots s2)" using emitWord_trackers [OF e] act len by simp
  have "map slot_key (sq_slots s2) = map slot_key (sq_slots s1)" using emitWord_keys [OF e] act len by simp
  then have len2: "length (sq_slots s2) = length (sq_slots s)" using len map_eq_imp_length_eq by metis
  show ?thesis
  proof (cases "\<exists>i. activeSlot c s = Some i \<and> complete")
    case True
    then obtain i where i: "activeSlot c s = Some i" and c: complete by blast
    define slots where "slots = (sq_slots s2)[i := (sq_slots s2 ! i)\<lparr>sl_complete := True\<rparr>]"
    obtain slots' sent where f: "flush_slots at slots = (slots', sent)" by fastforce
    have "trackers_ok slots" unfolding slots_def using ok act i len2 by (auto intro!: trackers_ok_update intro: trackers_ok_nth)
    moreover have "sq_slots s' = slots'" using assms(1) t e i c f
      by (auto simp: take_word_def sq_flush_def slots_def [symmetric])
    ultimately show ?thesis using flush_slots_subset [OF f] trackers_ok_subset by simp
  next
    case False
    with assms(1) t e ok show ?thesis by (auto simp: take_word_def split: option.splits)
  qed
qed

lemma word_step_ok:
  assumes "word_step word at c sp s = Inr (s', out, over)" and "seq_ok s"
  shows "seq_ok s' \<and> waiting_in (sq_slots s) = released_ids out @ waiting_in (sq_slots s')"
proof -
  have "trackers_ok (sq_slots s')"
  proof (cases "c \<noteq> [] \<and> \<not> contextLive c s \<and> sq_streaming s c = None")
    case True
    with assms show ?thesis by (auto simp: word_step_def seq_ok_def slots_ok_def)
  next
    case False
    with assms(1) obtain s1 handled where r: "routeWord (activeSlot c s) word at c sp s = Inr (s1, handled)"
      and h: "(case handled of Some out \<Rightarrow> Inr (s1, out, None) | None \<Rightarrow> take_word (activeSlot c s) word at c sp s1) = Inr (s', out, over)"
      unfolding word_step_def by (auto simp: Let_def)
    from routeWord_same [OF r] h take_word_trackers [of c s word at sp s' out over] assms(2) show ?thesis
      by (auto split: option.splits simp: seq_ok_def slots_ok_def)
  qed
  moreover have "list_all slot_ok (sq_slots s') \<and> led_by_unsaid (sq_slots s') \<and>
      waiting_in (sq_slots s) = released_ids out @ waiting_in (sq_slots s')"
    using word_step_cases [OF assms(1)]
  proof (elim conjE disjE)
    assume "map slot_key (sq_slots s') = map slot_key (sq_slots s)" "released_ids out = []"
    then show ?thesis using assms(2) by (simp add: seq_ok_def slots_ok_def waiting_keys slot_ok_keys led_keys)
  next
    assume "completes at c s s' out"
    then obtain i slots sent where i: "i < length (sq_slots s)" "slotMatches (sq_slots s ! i) c"
      and k: "map slot_key slots = (map slot_key (sq_slots s))[i := slot_key ((sq_slots s ! i)\<lparr>sl_complete := True\<rparr>)]"
      and f: "flush_slots at slots = (sq_slots s', sent)" and out: "released_ids out = released_ids sent" by (auto simp: completes_def)
    have sp: "sl_spoken (sq_slots s ! i)" using i(2) by (simp add: slotMatches_def)
    have k': "map slot_key slots = map slot_key ((sq_slots s)[i := (sq_slots s ! i)\<lparr>sl_complete := True\<rparr>])"
      by (simp add: k map_update)
    have "list_all slot_ok ((sq_slots s)[i := (sq_slots s ! i)\<lparr>sl_complete := True\<rparr>])"
      using assms(2) sp set_update_subset_insert [of "sq_slots s" i] by (fastforce simp: seq_ok_def slots_ok_def list_all_iff slot_ok_def)
    then have "list_all slot_ok slots" by (simp add: slot_ok_keys k')
    moreover have "waiting_in slots = waiting_in (sq_slots s)"
    proof -
      have "waiting_in ((sq_slots s)[i := (sq_slots s ! i)\<lparr>sl_complete := True\<rparr>]) = waiting_in (sq_slots s)"
        using i(1) sp by (subst (2) id_take_nth_drop [OF i(1)]) (simp add: upd_conv_take_nth_drop waiting_in_def)
      then show ?thesis by (simp add: waiting_keys k')
    qed
    ultimately show ?thesis using flush_slots_ok [OF f] out by simp
  qed
  ultimately show ?thesis by (simp add: seq_ok_def slots_ok_def)
qed

text \<open>An operation that registers the skipped frames \<open>ids\<close>: what waited, and they, are what it sends and what waits then.\<close>

definition slot_moves :: "nat list \<Rightarrow> AggregatedFrameSequencer \<Rightarrow> (AggregatedFrameSequencer \<times> seq_frame list) go \<Rightarrow> bool" where
  "slot_moves ids s x \<longleftrightarrow> (\<forall>s' out. x = Inr (s', out) \<longrightarrow>
    seq_ok s' \<and> waiting_in (sq_slots s) @ ids = released_ids out @ waiting_in (sq_slots s'))"

lemma slot_moves_then:
  assumes "slot_moves ids s x" and "\<And>s'. seq_ok s' \<Longrightarrow> slot_moves ids' s' (k s')"
  shows "slot_moves (ids @ ids') s (go_bind x (\<lambda>(s, out). go_bind (k s) (\<lambda>(s, sent). Inr (s, out @ sent))))"
  unfolding slot_moves_def
proof (intro allI impI)
  fix s' out assume run: "go_bind x (\<lambda>(s, out). go_bind (k s) (\<lambda>(s, sent). Inr (s, out @ sent))) = Inr (s', out)"
  then obtain s1 out1 sent where x: "x = Inr (s1, out1)" and k: "k s1 = Inr (s', sent)" and out: "out = out1 @ sent" by auto
  have "seq_ok s1" "waiting_in (sq_slots s) @ ids = released_ids out1 @ waiting_in (sq_slots s1)"
    using assms(1) x by (auto simp: slot_moves_def)
  moreover have "seq_ok s'" "waiting_in (sq_slots s1) @ ids' = released_ids sent @ waiting_in (sq_slots s')"
    using assms(2) [OF \<open>seq_ok s1\<close>] k by (auto simp: slot_moves_def)
  ultimately show "seq_ok s' \<and> waiting_in (sq_slots s) @ ids @ ids' = released_ids out @ waiting_in (sq_slots s')"
    using out by (metis append_assoc released_ids_append)
qed

lemma slot_moves_processWord: "seq_ok s \<Longrightarrow> slot_moves [] s (processWord word at c sp s)"
proof (induction word at c sp s rule: processWord.induct)
  case (1 word at c sp s)
  show ?case
  proof (cases "word_step word at c sp s")
    case (Inl e)
    then show ?thesis by (subst processWord.simps) (simp add: slot_moves_def)
  next
    case (Inr x)
    obtain s' out over where x: "x = (s', out, over)" by (cases x)
    have ok: "seq_ok s'" "waiting_in (sq_slots s) = released_ids out @ waiting_in (sq_slots s')"
      using word_step_ok [OF Inr [unfolded x] 1(2)] by auto
    show ?thesis
    proof (cases over)
      case None
      with ok Inr x show ?thesis by (subst processWord.simps) (simp add: slot_moves_def)
    next
      case (Some w)
      have step: "slot_moves [] s' (processWord w at c False s')" using 1(1) [of "(s', out, over)" s' "(out, over)" out over w] Inr x Some ok(1) by simp
      have "slot_moves [] s (Inr (s', out))" using ok by (simp add: slot_moves_def)
      from slot_moves_then [OF this, of "[]" "\<lambda>s'. processWord w at c False s'"] show ?thesis
        using step ok Inr x Some by (subst processWord.simps) (auto simp: slot_moves_def)
    qed
  qed
qed

lemma flush_moves:
  assumes "sq_flush at s = (s', sent)" and "slots_ok (sq_slots s)"
  shows "seq_ok s' \<and> waiting_in (sq_slots s) = released_ids sent @ waiting_in (sq_slots s')"
proof -
  obtain slots where f: "flush_slots at (sq_slots s) = (slots, sent)" and s': "sq_slots s' = slots"
    using assms(1) by (auto simp: sq_flush_def split: prod.splits)
  with flush_slots_ok [OF f] flush_slots_subset [OF f] assms(2) show ?thesis
    by (auto simp: seq_ok_def slots_ok_def intro: trackers_ok_subset)
qed

lemma complete_first_ok:
  "slots_ok slots \<Longrightarrow> slots_ok (complete_first slots) \<and> waiting_in (complete_first slots) = waiting_in slots"
  by (induction slots rule: complete_first.induct) (auto simp: slots_ok_def slot_ok_def trackers_ok_def waiting_in_def)

lemma completeSpokenSlot_moves:
  assumes "completeSpokenSlot s = (s', sent)" and "seq_ok s"
  shows "seq_ok s' \<and> waiting_in (sq_slots s) = released_ids sent @ waiting_in (sq_slots s')"
  using flush_moves [OF assms(1) [unfolded completeSpokenSlot_def]] complete_first_ok [of "sq_slots s"] assms(2)
  by (simp add: seq_ok_def)

lemma appendSpoken_ok:
  assumes "seq_ok s" and "\<And>t. tracker = Some t \<Longrightarrow> wc_ok t"
  shows "seq_ok (appendSpokenSlot f c tracker a sp s)"
    and "waiting_in (sq_slots (appendSpokenSlot f c tracker a sp s)) = waiting_in (sq_slots s)"
  using assms
  by (auto simp: appendSpokenSlot_def new_slot_def seq_ok_def slots_ok_def slot_ok_def trackers_ok_def waiting_in_def led_by_unsaid_def
      split: list.splits)

lemma seq_ok_cong: "sq_slots s' = sq_slots s \<Longrightarrow> seq_ok s' = seq_ok s"
  by (simp add: seq_ok_def)

lemma slot_moves_cong: "sq_slots s' = sq_slots s \<Longrightarrow> slot_moves ids s' x = slot_moves ids s x"
  by (simp add: slot_moves_def)

lemma slot_moves_process_words: "seq_ok s \<Longrightarrow> slot_moves [] s (process_words ws s)"
proof (induction ws arbitrary: s)
  case (Cons w ws)
  from slot_moves_then [OF slot_moves_processWord [OF Cons.prems] Cons.IH] show ?case by simp
qed (simp add: slot_moves_def)

lemma slot_moves_drain: "seq_ok s \<Longrightarrow> slot_moves [] s (drainBufferedWords s)"
  using slot_moves_process_words [of "s\<lparr>sq_buffered := []\<rparr>" "sq_buffered s"]
  by (simp add: drainBufferedWords_def seq_ok_def slot_moves_def)

lemma slot_moves_promote:
  assumes "seq_ok s"
  shows "slot_moves [] s (promote agg c a b s)"
proof (cases "TrimSpace (pa_userFacing agg) = []")
  case True
  with assms show ?thesis by (simp add: promote_def slot_moves_def)
next
  case False
  define f where "f = promoted_frame agg c (sq_nextID s)"
  define tracker where "tracker = (if b then Some (NewWordCompletionTracker (pa_tts agg) (pa_userFacing agg) (pa_llm agg)) else None)"
  define s1 where "s1 = appendSpokenSlot f c tracker a False (s\<lparr>sq_nextID := Suc (sq_nextID s)\<rparr>)"
  obtain s2 said where s2: "(if b then (s1, []) else promote_unspoken agg a s1) = (s2, said)" by fastforce
  have s1: "seq_ok s1" "waiting_in (sq_slots s1) = waiting_in (sq_slots s)"
    using appendSpoken_ok [of "s\<lparr>sq_nextID := Suc (sq_nextID s)\<rparr>" tracker] assms wc_ok_New
    by (auto simp: s1_def tracker_def seq_ok_def split: if_splits)
  have "seq_ok s2 \<and> waiting_in (sq_slots s1) = released_ids said @ waiting_in (sq_slots s2)"
  proof (cases b)
    case True
    with s1 s2 show ?thesis by simp
  next
    case False
    obtain s3 sent where c3: "completeSpokenSlot s1 = (s3, sent)" by fastforce
    with s2 False have "s2 = s3" "released_ids said = released_ids sent" by (auto simp: promote_unspoken_def)
    with completeSpokenSlot_moves [OF c3 s1(1)] show ?thesis by simp
  qed
  then have "slot_moves [] s (Inr (s2, SeqAgg f # said))" using s1
    by (simp add: slot_moves_def f_def promoted_frame_def)
  from slot_moves_then [OF this, of "[]" drainBufferedWords, OF slot_moves_drain]
  have "slot_moves [] s (go_bind (drainBufferedWords s2) (\<lambda>(s, sent). Inr (s, SeqAgg f # said @ sent)))" by simp
  moreover have "promote agg c a b s = go_bind (drainBufferedWords s2) (\<lambda>(s, sent). Inr (s, SeqAgg f # said @ sent))"
    unfolding promote_def Let_def f_def [symmetric] tracker_def [symmetric] s1_def [symmetric] s2 using False by simp
  ultimately show ?thesis by simp
qed

lemma slot_moves_promote_all: "seq_ok s \<Longrightarrow> slot_moves [] s (promote_all aggs c a b s)"
proof (induction aggs arbitrary: s)
  case (Cons x xs)
  from slot_moves_then [OF slot_moves_promote [OF Cons.prems] Cons.IH] show ?case by simp
qed (simp add: slot_moves_def)

lemma slot_moves_registerSpoken:
  assumes "seq_ok s"
  shows "slot_moves [] s (registerSpoken tok f c t a b sp s)"
proof (cases "sq_streamingMode s")
  case False
  have "seq_ok (appendSpokenSlot f c tracker a sp s) \<and> waiting_in (sq_slots (appendSpokenSlot f c tracker a sp s)) = waiting_in (sq_slots s)"
    if "tracker = (if b then Some (NewWordCompletionTracker t (af_Text f) (rawOr f)) else None)" for tracker
    using appendSpoken_ok [OF assms, of tracker] that wc_ok_New by (auto split: if_splits)
  with False show ?thesis by (simp add: registerSpoken_def slot_moves_def)
next
  case True
  define sc where "sc = (case sq_streaming s c of Some sc \<Rightarrow> sc
    | None \<Rightarrow> \<lparr>sc_aggregator = newParallelSentenceAggregator, sc_appendToCtx = a, sc_buildTracker = b\<rparr>)"
  define s1 where "s1 p = s\<lparr>sq_streaming := (sq_streaming s)(c \<mapsto> sc\<lparr>sc_aggregator := p\<rparr>)\<rparr>" for p
  have "registerSpoken tok f c t a b sp s = go_bind (ps_aggregate tok t (rawOr f) (af_Text f) (sc_aggregator sc)) (\<lambda>(p, aggs).
      promote_all aggs c (sc_appendToCtx sc) (sc_buildTracker sc) (s1 p))"
    using True by (simp add: registerSpoken_def sc_def s1_def Let_def)
  moreover have "slot_moves [] s (promote_all aggs c x y (s1 p))" for aggs x y p
  proof -
    have same: "sq_slots (s1 p) = sq_slots s" by (simp add: s1_def)
    then have "slot_moves [] (s1 p) (promote_all aggs c x y (s1 p))" using assms seq_ok_cong by (intro slot_moves_promote_all) blast
    then show ?thesis using slot_moves_cong [OF same] by blast
  qed
  ultimately show ?thesis
  proof (cases "ps_aggregate tok t (rawOr f) (af_Text f) (sc_aggregator sc)")
    case (Inl e)
    then show ?thesis using \<open>registerSpoken tok f c t a b sp s = _\<close> by (simp add: slot_moves_def)
  next
    case (Inr x)
    then show ?thesis using \<open>registerSpoken tok f c t a b sp s = _\<close> \<open>\<And>aggs x y p. slot_moves [] s (promote_all aggs c x y (s1 p))\<close>
      by (cases x) simp
  qed
qed

lemma slot_moves_finalize:
  assumes "seq_ok s"
  shows "slot_moves [] s (sq_finalize c s)"
proof -
  define s1 where "s1 = s\<lparr>sq_streaming := (sq_streaming s)(c := None)\<rparr>"
  have ok: "seq_ok s1" using assms by (simp add: s1_def seq_ok_def)
  have m: "slot_moves [] s x" if "slot_moves [] s1 x" for x using that by (simp add: s1_def slot_moves_def)
  consider "sq_finalize c s = Inr (s, [])" | "sq_finalize c s = Inr (s1, [])" | agg a b where "sq_finalize c s = promote agg c a b s1"
    unfolding sq_finalize_def Let_def s1_def [symmetric]
    by (cases "sq_streaming s c"; cases "\<not> sq_streamingMode s \<or> c = []";
        cases "snd (ps_flush (sc_aggregator (the (sq_streaming s c))))") auto
  then show ?thesis
  proof cases
    case 1
    with assms show ?thesis by (simp add: slot_moves_def)
  next
    case 2
    with ok show ?thesis by (intro m) (simp add: slot_moves_def)
  next
    case 3
    then show ?thesis using m [OF slot_moves_promote [OF ok]] by simp
  qed
qed

lemma slot_moves_registerSkipped:
  assumes "seq_ok s"
  shows "slot_moves [af_ID f] s (registerSkipped f c d s)"
proof -
  have "slot_moves [af_ID f] s1 (Inr (sq_flush 0 (s1\<lparr>sq_slots := sq_slots s1 @ [new_slot (f\<lparr>af_ContextID := c\<rparr>) c False None d False]\<rparr>)))"
    (is "slot_moves _ _ (Inr (sq_flush 0 ?s))") if "seq_ok s1" for s1
  proof -
    have "slots_ok (sq_slots ?s)" "waiting_in (sq_slots ?s) = waiting_in (sq_slots s1) @ [af_ID f]"
      using that by (auto simp: seq_ok_def slots_ok_def slot_ok_def trackers_ok_def new_slot_def waiting_in_def)
    then show ?thesis using flush_moves [of 0 ?s] by (auto simp: slot_moves_def)
  qed
  from slot_moves_then [OF slot_moves_finalize [OF assms] this, of c]
  show ?thesis by (simp add: registerSkipped_def Let_def case_prod_unfold)
qed

lemma force_slots_ok:
  assumes "slots_ok slots"
  shows "\<exists>slots' out. force_slots c at s slots = Inr (slots', out) \<and> slots_ok slots' \<and> waiting_in slots' = waiting_in slots \<and>
    released_ids out = [] \<and> (\<forall>sl \<in> set slots'. sl_spoken sl \<longrightarrow> sl_contextID sl = c \<longrightarrow> sl_complete sl) \<and>
    ((\<forall>sl \<in> set slots. sl_spoken sl \<longrightarrow> sl_contextID sl = c) \<longrightarrow> (\<forall>sl \<in> set slots'. sl_spoken sl \<longrightarrow> sl_contextID sl = c))"
  using assms
proof (induction slots)
  case (Cons slot slots)
  then obtain slots' out where ih: "force_slots c at s slots = Inr (slots', out)" "slots_ok slots'" "waiting_in slots' = waiting_in slots"
    "released_ids out = []" "\<forall>sl \<in> set slots'. sl_spoken sl \<longrightarrow> sl_contextID sl = c \<longrightarrow> sl_complete sl"
    "(\<forall>sl \<in> set slots. sl_spoken sl \<longrightarrow> sl_contextID sl = c) \<longrightarrow> (\<forall>sl \<in> set slots'. sl_spoken sl \<longrightarrow> sl_contextID sl = c)"
    by (auto simp: slots_ok_def trackers_ok_def)
  show ?case
  proof (cases "\<not> sl_spoken slot \<or> sl_complete slot \<or> sl_contextID slot \<noteq> c")
    case True
    with ih Cons.prems show ?thesis by (auto simp: slots_ok_def trackers_ok_def waiting_in_def slot_ok_def)
  next
    case False
    obtain fs where fs: "rest_of_slot at s slot = Inr fs" "released_ids fs = []"
    proof (cases "sl_tracker slot")
      case None
      then show ?thesis using that [of "[]"] by (simp add: rest_of_slot_def)
    next
      case (Some t)
      then have "wc_ok t" using Cons.prems by (simp add: slots_ok_def trackers_ok_def)
      then obtain r raw where "RemainingTTSText True t = Inr r" "RemainingRawTextOnly t = Inr raw" using remaining_ok by metis
      with Some show ?thesis using that by (simp add: rest_of_slot_def Let_def)
    qed
    with False ih Cons.prems show ?thesis by (auto simp: slots_ok_def trackers_ok_def waiting_in_def slot_ok_def)
  qed
qed (simp add: slots_ok_def trackers_ok_def)

lemma forceComplete_ok:
  assumes "seq_ok s"
  obtains slots out slots' sent s' where "force_slots c at s (sq_slots s) = Inr (slots, out)" "flush_slots at slots = (slots', sent)"
    "sq_forceComplete c at s = Inr (s', out @ sent)" "sq_slots s' = slots'"
    "sq_contextAppend s' c = None" "sq_streaming s' c = None"
    "slots_ok slots" "waiting_in slots = waiting_in (sq_slots s)" "released_ids out = []"
proof -
  obtain slots out where f: "force_slots c at s (sq_slots s) = Inr (slots, out)" "slots_ok slots"
    "waiting_in slots = waiting_in (sq_slots s)" "released_ids out = []"
    using force_slots_ok [of "sq_slots s" c at s] assms by (auto simp: seq_ok_def)
  obtain slots' sent where g: "flush_slots at slots = (slots', sent)" by fastforce
  from f g show thesis
    by (intro that [of slots out slots' sent]) (auto simp: sq_forceComplete_def sq_flush_def)
qed

lemma slot_moves_forceComplete:
  assumes "seq_ok s"
  shows "slot_moves [] s (sq_forceComplete c at s)"
proof -
  obtain slots out slots' sent s' where f: "flush_slots at slots = (slots', sent)"
    and x: "sq_forceComplete c at s = Inr (s', out @ sent)" "sq_slots s' = slots'"
    and ok: "slots_ok slots" "waiting_in slots = waiting_in (sq_slots s)" "released_ids out = []"
    using forceComplete_ok [OF assms, of c at] by metis
  from flush_slots_ok [OF f] flush_slots_subset [OF f] ok x show ?thesis
    by (auto simp: slot_moves_def seq_ok_def slots_ok_def intro: trackers_ok_subset)
qed

section \<open>Runs keep the order\<close>

fun skipped_of :: "seq_op \<Rightarrow> nat list" where
  "skipped_of (RegisterSkipped f c d) = [af_ID f]"
| "skipped_of _ = []"

lemma slot_moves_now:
  assumes "seq_ok s"
  shows "slot_moves [] s (Inr (completeSpokenSlot s))" and "slot_moves [] s (Inr (sq_flush at s))"
  using completeSpokenSlot_moves [of s] flush_moves [of at s] assms by (auto simp: slot_moves_def seq_ok_def)

lemma seq_step_moves: "seq_ok s \<Longrightarrow> p \<noteq> ClearSlots \<Longrightarrow> slot_moves (skipped_of p) s (seq_step tok p s)"
  by (cases p) (simp_all add: slot_moves_registerSpoken slot_moves_registerSkipped slot_moves_finalize slot_moves_processWord slot_moves_forceComplete
      slot_moves_now)

lemma seq_step_ok: "seq_step tok p s = Inr (s', out) \<Longrightarrow> seq_ok s \<Longrightarrow> seq_ok s'"
  using seq_step_moves [of s p tok]
  by (cases "p = ClearSlots") (auto simp: slot_moves_def sq_clear_def seq_ok_def slots_ok_def trackers_ok_def led_by_unsaid_def)

lemma seq_run_ok: "seq_run tok ps s = Inr (s', out) \<Longrightarrow> seq_ok s \<Longrightarrow> seq_ok s'"
  by (induction ps arbitrary: s out) (auto dest: seq_step_ok)

lemma seq_run_moves: "seq_ok s \<Longrightarrow> ClearSlots \<notin> set ps \<Longrightarrow> slot_moves (concat (map skipped_of ps)) s (seq_run tok ps s)"
proof (induction ps arbitrary: s)
  case (Cons p ps)
  have "slot_moves (skipped_of p) s (seq_step tok p s)" using Cons.prems by (intro seq_step_moves) auto
  from slot_moves_then [OF this, of _ "seq_run tok ps", OF Cons.IH] Cons.prems show ?case by simp
qed (simp add: slot_moves_def)

lemma seq_ok_New: "seq_ok (NewAggregatedFrameSequencer streaming)"
  by (simp add: NewAggregatedFrameSequencer_def seq_ok_def slots_ok_def trackers_ok_def led_by_unsaid_def)

text \<open>
  C30. What is not spoken keeps its place among what is. Whatever frames are registered, in whatever contexts and
  streamed or not, and whatever words come back, between two interruptions the skipped frames leave in the order
  they were registered, each once, and none is lost: what has left and what still waits are exactly what was
  registered. And none waits without reason: as long as something waits, the slot at the head is to be spoken
  and is not complete.
\<close>

theorem skipped_in_order:
  assumes "seq_run tok ps (NewAggregatedFrameSequencer streaming) = Inr (s, out)" and "ClearSlots \<notin> set ps"
  shows "released_ids out @ waiting_in (sq_slots s) = concat (map skipped_of ps) \<and>
    (waiting_in (sq_slots s) \<noteq> [] \<longrightarrow> (\<exists>sl rest. sq_slots s = sl # rest \<and> sl_spoken sl \<and> \<not> sl_complete sl))"
proof -
  have "seq_ok s" "concat (map skipped_of ps) = released_ids out @ waiting_in (sq_slots s)"
    using seq_run_moves [OF seq_ok_New assms(2), of streaming tok] assms(1)
    by (auto simp: slot_moves_def NewAggregatedFrameSequencer_def waiting_in_def)
  then show ?thesis by (auto simp: seq_ok_def led_by_unsaid_def waiting_in_def split: list.splits)
qed

definition plain_frame :: "nat \<Rightarrow> string \<Rightarrow> agg_frame" where
  "plain_frame fid t = \<lparr>af_ID = fid, af_Text = t, af_AggregatedBy = AggregationSentence, af_ContextID = [], af_RawText = [],
    af_WillBeSpoken = True, af_AppendToContext = True, af_dest = [], af_pts = None\<rparr>"

definition short_turn :: "seq_op list" where
  "short_turn = [RegisterSpoken (plain_frame 1 ''a'') ''c'' ''a'' True False False, RegisterSkipped (plain_frame 2 ''x'') ''c'' [],
    CompleteSpokenSlot, RegisterSpoken (plain_frame 3 ''b'') ''c'' ''b'' True False False,
    RegisterSkipped (plain_frame 4 ''y'') ''c'' []]"

lemma short_turn_run:
  "case seq_run (\<lambda>t. 0) short_turn (NewAggregatedFrameSequencer False) of Inl e \<Rightarrow> False
   | Inr (s, out) \<Rightarrow> released_ids out = [2] \<and> waiting_in (sq_slots s) = [4]"
  by code_simp

theorem skipped_in_order_witness:
  "\<exists>s out. seq_run (\<lambda>t. 0) short_turn (NewAggregatedFrameSequencer False) = Inr (s, out) \<and>
    released_ids out @ waiting_in (sq_slots s) = [2, 4] \<and> (\<exists>sl rest. sq_slots s = sl # rest \<and> sl_spoken sl \<and> \<not> sl_complete sl)"
proof -
  obtain s out where r: "seq_run (\<lambda>t. 0) short_turn (NewAggregatedFrameSequencer False) = Inr (s, out)" "waiting_in (sq_slots s) = [4]"
    using short_turn_run by (cases "seq_run (\<lambda>t. 0) short_turn (NewAggregatedFrameSequencer False)") auto
  moreover have "ClearSlots \<notin> set short_turn" by (simp add: short_turn_def)
  moreover have "concat (map skipped_of short_turn) = [2, 4]" by (simp add: short_turn_def plain_frame_def)
  ultimately show ?thesis using skipped_in_order [OF r(1)] by simp
qed

section \<open>Closing a context\<close>

lemma all_spoken_flushed:
  "list_all slot_ok slots \<Longrightarrow> \<forall>sl \<in> set slots. sl_spoken sl \<longrightarrow> sl_complete sl \<Longrightarrow> fst (flush_slots at slots) = []"
  by (induction at slots rule: flush_slots.induct) (auto simp: slot_ok_def split: prod.splits)

text \<open>
  Closing a context always succeeds and is final. In any state a run of the sequencer's operations reaches,
  closing a named context returns, whatever its trackers have seen; no slot of it is left to be spoken; a word
  that arrives for it afterwards changes nothing and sends nothing; and when no other context has anything to
  say, every frame that waited is sent and the queue is empty.
\<close>

lemma closed_context_is_final:
  assumes "seq_run tok ps (NewAggregatedFrameSequencer streaming) = Inr (s, out)" and "c \<noteq> []"
  shows "\<exists>s' sent. sq_forceComplete c at s = Inr (s', sent) \<and>
    (\<forall>sl \<in> set (sq_slots s'). sl_spoken sl \<and> sl_contextID sl = c \<longrightarrow> sl_complete sl) \<and>
    (\<forall>word t sp. processWord word t c sp s' = Inr (s', [])) \<and>
    ((\<forall>sl \<in> set (sq_slots s). sl_spoken sl \<longrightarrow> sl_contextID sl = c) \<longrightarrow>
      sq_slots s' = [] \<and> released_ids sent = waiting_in (sq_slots s))"
proof -
  have ok: "seq_ok s" using seq_run_ok [OF assms(1) seq_ok_New] .
  obtain slots out' slots' sent s' where f: "force_slots c at s (sq_slots s) = Inr (slots, out')" "flush_slots at slots = (slots', sent)"
    and x: "sq_forceComplete c at s = Inr (s', out' @ sent)" "sq_slots s' = slots'" "sq_contextAppend s' c = None" "sq_streaming s' c = None"
    and g: "slots_ok slots" "waiting_in slots = waiting_in (sq_slots s)" "released_ids out' = []"
    by (rule forceComplete_ok [OF ok, of c at])
  have closed: "\<forall>sl \<in> set slots. sl_spoken sl \<longrightarrow> sl_contextID sl = c \<longrightarrow> sl_complete sl"
    and only: "(\<forall>sl \<in> set (sq_slots s). sl_spoken sl \<longrightarrow> sl_contextID sl = c) \<longrightarrow> (\<forall>sl \<in> set slots. sl_spoken sl \<longrightarrow> sl_contextID sl = c)"
    using force_slots_ok [of "sq_slots s" c at s] ok f(1) by (auto simp: seq_ok_def)
  have "word_step word t c sp s' = Inr (s', [], None)" for word t sp
    using x assms(2) by (simp add: word_step_def contextLive_def)
  then have stale: "processWord word t c sp s' = Inr (s', [])" for word t sp by (subst processWord.simps) simp
  have "sq_slots s' = [] \<and> released_ids (out' @ sent) = waiting_in (sq_slots s)"
    if "\<forall>sl \<in> set (sq_slots s). sl_spoken sl \<longrightarrow> sl_contextID sl = c"
  proof -
    have "slots' = []" using all_spoken_flushed [of slots at] g(1) closed only that f(2) by (auto simp: slots_ok_def)
    moreover have "waiting_in slots = released_ids sent @ waiting_in slots'" using flush_slots_ok [OF f(2)] g(1) by (simp add: slots_ok_def)
    ultimately show ?thesis using x g by (simp add: waiting_in_def)
  qed
  moreover have "\<forall>sl \<in> set (sq_slots s'). sl_spoken sl \<and> sl_contextID sl = c \<longrightarrow> sl_complete sl"
    using closed flush_slots_subset [OF f(2)] x(2) by blast
  ultimately show ?thesis using x(1) stale by blast
qed

theorem closed_context_is_final_witness:
  "\<exists>s out s' sent. seq_run (\<lambda>t. 0) short_turn (NewAggregatedFrameSequencer False) = Inr (s, out) \<and>
    sq_forceComplete ''c'' 7 s = Inr (s', sent) \<and> processWord ''b'' 8 ''c'' False s' = Inr (s', [])"
proof -
  obtain s out where "seq_run (\<lambda>t. 0) short_turn (NewAggregatedFrameSequencer False) = Inr (s, out)"
    using short_turn_run by (cases "seq_run (\<lambda>t. 0) short_turn (NewAggregatedFrameSequencer False)") auto
  with closed_context_is_final [of "\<lambda>t. 0" short_turn False s out "''c''" 7] show ?thesis by fastforce
qed

section \<open>Three texts in step\<close>

lemma cut_sentences_ok:
  assumes "\<forall>s. tok s \<le> length s"
  shows "\<exists>ss rest. cut_sentences tok n str = Inr (ss, rest) \<and> concat ss @ rest = str"
proof (induction n arbitrary: str)
  case (Suc n)
  from Suc [of "drop (tok str) str"] obtain ss rest
    where "cut_sentences tok n (drop (tok str) str) = Inr (ss, rest)" "concat ss @ rest = drop (tok str) str" by blast
  then show ?case using assms [THEN spec, of str] by (auto simp: not_less)
qed simp

definition in_step :: "parallelSentenceAggregator \<Rightarrow> bool" where
  "in_step p \<longleftrightarrow> aggregationType (ps_inner p) = AggregationSentence \<and>
    (ps_aligned p \<longrightarrow> ps_tts p = ps_llm p \<and> ps_llm p = ps_userFacing p)"

lemma ps_aggregate_ok:
  assumes "\<forall>s. tok s \<le> length s" and "in_step p"
  shows "\<exists>p' out. ps_aggregate tok t l u p = Inr (p', out) \<and> in_step p' \<and>
    concat (map pa_tts out) @ ps_tts p' = ps_tts p @ t \<and> concat (map pa_llm out) @ ps_llm p' = ps_llm p @ l \<and>
    concat (map pa_userFacing out) @ ps_userFacing p' = ps_userFacing p @ u"
proof -
  obtain a os where a: "Aggregate_simple tok t (ps_inner p) = Inr (a, os)" "aggregationType a = AggregationSentence"
    using aggregate_runes_ok [OF assms(1), of t "ps_inner p"] assms(2) by (auto simp: Aggregate_simple_def in_step_def)
  show ?thesis
  proof (cases "length os > 0 \<and> ps_aligned p \<and> t = l \<and> l = u")
    case True
    obtain ss rest where c: "cut_sentences tok (length os) (ps_tts p @ t) = Inr (ss, rest)" "concat ss @ rest = ps_tts p @ t"
      using cut_sentences_ok [OF assms(1)] by blast
    with True a assms(2) show ?thesis
      by (auto simp: ps_aggregate_def Let_def sliceInsideToken_def in_step_def comp_def)
  next
    case False
    with a assms(2) show ?thesis
      by (auto simp: ps_aggregate_def Let_def in_step_def pending_unit_def)
  qed
qed

fun ps_feed ::
  "(string \<Rightarrow> nat) \<Rightarrow> (string \<times> string \<times> string) list \<Rightarrow> parallelSentenceAggregator \<Rightarrow>
   (parallelSentenceAggregator \<times> parallelAggregation list) go" where
  "ps_feed tok [] p = Inr (p, [])"
| "ps_feed tok ((t, l, u) # ts) p = go_bind (ps_aggregate tok t l u p) (\<lambda>(p, out). go_bind (ps_feed tok ts p) (\<lambda>(p, sent). Inr (p, out @ sent)))"

lemma append_link: "x @ y = z \<Longrightarrow> v @ w = y @ q \<Longrightarrow> x @ v @ w = z @ q"
  by (metis append_assoc)

text \<open>Each of the three texts comes out whole, whatever the other two do and wherever the boundaries fall.\<close>

lemma texts_stay_whole:
  assumes "\<forall>s. tok s \<le> length s"
  shows "in_step p \<Longrightarrow> \<exists>p' out. ps_feed tok ts p = Inr (p', out) \<and> in_step p' \<and>
    concat (map pa_tts out) @ ps_tts p' = ps_tts p @ concat (map fst ts) \<and>
    concat (map pa_llm out) @ ps_llm p' = ps_llm p @ concat (map (fst \<circ> snd) ts) \<and>
    concat (map pa_userFacing out) @ ps_userFacing p' = ps_userFacing p @ concat (map (snd \<circ> snd) ts)"
proof (induction ts arbitrary: p)
  case (Cons x ts)
  obtain t l u where x: "x = (t, l, u)" by (cases x)
  obtain p1 out1 where 1: "ps_aggregate tok t l u p = Inr (p1, out1)" "in_step p1"
    "concat (map pa_tts out1) @ ps_tts p1 = ps_tts p @ t" "concat (map pa_llm out1) @ ps_llm p1 = ps_llm p @ l"
    "concat (map pa_userFacing out1) @ ps_userFacing p1 = ps_userFacing p @ u"
    using ps_aggregate_ok [OF assms Cons.prems] by blast
  obtain p2 out2 where 2: "ps_feed tok ts p1 = Inr (p2, out2)" "in_step p2"
    "concat (map pa_tts out2) @ ps_tts p2 = ps_tts p1 @ concat (map fst ts)"
    "concat (map pa_llm out2) @ ps_llm p2 = ps_llm p1 @ concat (map (fst \<circ> snd) ts)"
    "concat (map pa_userFacing out2) @ ps_userFacing p2 = ps_userFacing p1 @ concat (map (snd \<circ> snd) ts)"
    using Cons.IH [OF 1(2)] by blast
  from 1(1) 2(1,2) x show ?case
    using append_link [OF 1(3) 2(3)] append_link [OF 1(4) 2(4)] append_link [OF 1(5) 2(5)] by (simp add: comp_def)
qed simp

end
