(* ===== verification/Speech_Playback.thy ===== *)
theory Speech_Playback
  imports Frame_Sequencer "HOL-Library.AList"
begin

text \<open>
  The playback half of a text-to-speech service, \<^verbatim>\<open>src/service/tts/audiocontext.go\<close>, with what it uses of
  \<^verbatim>\<open>output.go\<close>, \<^verbatim>\<open>pause.go\<close> and \<^verbatim>\<open>silentcontext.go\<close>. Every synthesis has an audio context, a queue that keeps its
  audio and its words in the order they were generated; one goroutine plays the contexts out in the order they
  were opened, with the frames that were queued between them. The provider fills a context from the call that
  asked for the speech or, later, from a receive loop of its own. An item of a queue is handled in one step of
  the playing goroutine. Metrics and tracing spans are left out.
\<close>

section \<open>Frames\<close>

text \<open>
  What arrives, with the identifier of the frame where it is forwarded. \<open>InOther\<close> is any frame the service does
  not look at, with whether it is a system frame; a settings update says whether it is for this service.
\<close>

datatype tts_in =
    InText string bool
  | InSpeak string bool
  | InResponseStart nat bool
  | InResponseEnd nat bool
  | InEnd nat
  | InInterruption nat
  | InCancel nat
  | InStart nat
  | InSettings nat bool
  | InBotStarted nat
  | InBotStopped nat
  | InOther nat bool

text \<open>What leaves: \<open>TIn\<close> forwards a frame; an end of a response is the one held, or a fresh one.\<close>

datatype tts_frame =
    TIn tts_in
  | TStarted string bool
  | TStopped string
  | TAudio bytes
  | TSeq seq_frame
  | TResponseEnd "nat option" int
  | TPushAggregation "int option"

datatype ctx_item =
    CFrame tts_frame
  | CWord string duration bool
  | CKeepalive
  | CEnd

record audioContext =
  ac_items :: "ctx_item list"
  ac_texts :: "string list"
  ac_baseline :: "duration option"
  ac_pendingWords :: "ctx_item list"

definition newAudioContext :: audioContext where
  "newAudioContext = \<lparr>ac_items = [], ac_texts = [], ac_baseline = None, ac_pendingWords = []\<rparr>"

datatype serial_item = SFrame tts_frame | SContext string | SEnd

record ttsContext =
  tc_appendToContext :: bool
  tc_pushAssistantAggregation :: bool

text \<open>
  The playing goroutine: not running; waiting at the serialization queue; inside a context, with whether a stop
  frame is owed and whether audio has come; or ended by the sentinel.
\<close>

datatype play_loop = LoopOff | LoopNext | LoopIn string bool bool | LoopEnded

text \<open>What the service does to the outside: frames on their way, errors it raises, and calls of the provider's hooks.\<close>

datatype tts_event =
    Down tts_frame
  | Up tts_frame
  | RaiseError string bool
  | TurnContextCreated string
  | TurnContextCompleted string
  | FlushAudio string
  | ContextInterrupted string
  | ContextCompleted string
  | PauseProcessing
  | ResumeProcessing

record tts_config =
  cf_wordPath :: bool
  cf_zeroAudioLimit :: nat
  cf_silence :: "nat option"
  cf_destination :: string
  cf_pause :: bool
  cf_trailingSpace :: bool
  cf_skips :: "AggregationType \<Rightarrow> bool"
  cf_tokenizer :: "string \<Rightarrow> nat"
  cf_filter :: "string \<Rightarrow> string"
  cf_transform :: "string \<Rightarrow> AggregationType \<Rightarrow> string option"

record tts_base =
  tb_sequencer :: AggregatedFrameSequencer
  tb_aggregator :: aggregator
  tb_contexts :: "(string \<times> audioContext) list"
  tb_ttsContexts :: "string \<rightharpoonup> ttsContext"
  tb_pendingEnd :: "string \<rightharpoonup> nat"
  tb_serial :: "serial_item list option"
  tb_loop :: play_loop
  tb_generation :: nat
  tb_lastPTS :: duration
  tb_turnContext :: string
  tb_responding :: bool
  tb_yieldsSync :: bool
  tb_processingText :: bool
  tb_botSpeaking :: bool
  tb_sentNonWhitespace :: bool
  tb_zeroRun :: nat
  tb_usable :: bool
  tb_nextContext :: nat
  tb_nextID :: nat
  tb_log :: "tts_event list"

definition log_event :: "tts_event \<Rightarrow> tts_base \<Rightarrow> tts_base" where
  "log_event e b = b\<lparr>tb_log := tb_log b @ [e]\<rparr>"

section \<open>The registry of contexts\<close>

definition audioContextFor :: "string \<Rightarrow> tts_base \<Rightarrow> audioContext option" where
  "audioContextFor contextID b = (if contextID = [] then None else map_of (tb_contexts b) contextID)"

definition AudioContextAvailable :: "string \<Rightarrow> tts_base \<Rightarrow> bool" where
  "AudioContextAvailable contextID b \<longleftrightarrow> audioContextFor contextID b \<noteq> None"

definition set_context :: "string \<Rightarrow> audioContext \<Rightarrow> tts_base \<Rightarrow> tts_base" where
  "set_context contextID c b = b\<lparr>tb_contexts := AList.update contextID c (tb_contexts b)\<rparr>"

definition on_context :: "string \<Rightarrow> (audioContext \<Rightarrow> audioContext) \<Rightarrow> tts_base \<Rightarrow> tts_base" where
  "on_context contextID f b =
    (case audioContextFor contextID b of None \<Rightarrow> b | Some c \<Rightarrow> set_context contextID (f c) b)"

definition push_item :: "ctx_item \<Rightarrow> audioContext \<Rightarrow> audioContext" where
  "push_item it c = c\<lparr>ac_items := ac_items c @ [it]\<rparr>"

definition serial_push :: "serial_item \<Rightarrow> tts_base \<Rightarrow> tts_base" where
  "serial_push it b = (case tb_serial b of None \<Rightarrow> b | Some q \<Rightarrow> b\<lparr>tb_serial := Some (q @ [it])\<rparr>)"

definition CreateAudioContext :: "string \<Rightarrow> tts_base \<Rightarrow> tts_base" where
  "CreateAudioContext contextID b = serial_push (SContext contextID) (set_context contextID newAudioContext b)"

definition AppendToAudioContext :: "string \<Rightarrow> tts_frame \<Rightarrow> tts_base \<Rightarrow> tts_base" where
  "AppendToAudioContext contextID f b = on_context contextID (push_item (CFrame f)) b"

definition AppendWordToAudioContext :: "string \<Rightarrow> string \<Rightarrow> duration \<Rightarrow> tts_base \<Rightarrow> tts_base" where
  "AppendWordToAudioContext contextID word offset b = on_context contextID (push_item (CWord word offset False)) b"

definition AddWordTimestamps :: "string \<Rightarrow> WordTiming list \<Rightarrow> bool \<Rightarrow> bool \<Rightarrow> tts_base \<Rightarrow> tts_base" where
  "AddWordTimestamps contextID words spaces preMerge b =
    (let words = (if preMerge then MergePunctTokens words else words) in
     on_context contextID (fold (\<lambda>w. push_item (CWord (wt_Word w) (wt_Offset w) spaces)) words) b)"

definition RemoveAudioContext :: "string \<Rightarrow> tts_base \<Rightarrow> tts_base" where
  "RemoveAudioContext contextID b = on_context contextID (push_item CEnd) b"

definition refreshAudioContext :: "string \<Rightarrow> tts_base \<Rightarrow> tts_base" where
  "refreshAudioContext contextID b = on_context contextID (push_item CKeepalive) b"

definition addText :: "string \<Rightarrow> audioContext \<Rightarrow> audioContext" where
  "addText t c = c\<lparr>ac_texts := ac_texts c @ [t]\<rparr>"

definition setTTSContext :: "string \<Rightarrow> ttsContext \<Rightarrow> tts_base \<Rightarrow> tts_base" where
  "setTTSContext contextID c b = b\<lparr>tb_ttsContexts := (tb_ttsContexts b)(contextID \<mapsto> c)\<rparr>"

definition appendsToContext :: "string \<Rightarrow> tts_base \<Rightarrow> bool" where
  "appendsToContext contextID b = (case tb_ttsContexts b contextID of None \<Rightarrow> True | Some c \<Rightarrow> tc_appendToContext c)"

definition takeTTSContext :: "string \<Rightarrow> tts_base \<Rightarrow> tts_base \<times> ttsContext option" where
  "takeTTSContext contextID b = (b\<lparr>tb_ttsContexts := (tb_ttsContexts b)(contextID := None)\<rparr>, tb_ttsContexts b contextID)"

definition holdResponseEnd :: "string \<Rightarrow> nat \<Rightarrow> tts_base \<Rightarrow> tts_base" where
  "holdResponseEnd contextID f b = b\<lparr>tb_pendingEnd := (tb_pendingEnd b)(contextID \<mapsto> f)\<rparr>"

definition takeResponseEnd :: "string \<Rightarrow> tts_base \<Rightarrow> tts_base \<times> nat option" where
  "takeResponseEnd contextID b = (b\<lparr>tb_pendingEnd := (tb_pendingEnd b)(contextID := None)\<rparr>, tb_pendingEnd b contextID)"

definition hasOpenAudioContexts :: "tts_base \<Rightarrow> bool" where
  "hasOpenAudioContexts b \<longleftrightarrow> tb_contexts b \<noteq> []"

definition openAudioContexts :: "tts_base \<Rightarrow> string list" where
  "openAudioContexts b = map fst (tb_contexts b)"

definition setLastWordPTS :: "duration \<Rightarrow> tts_base \<Rightarrow> tts_base" where
  "setLastWordPTS at b = (if at > tb_lastPTS b then b\<lparr>tb_lastPTS := at\<rparr> else b)"

section \<open>Pushing (tts.go, output.go)\<close>

definition maybeCloseAssistantTurn :: "string \<Rightarrow> tts_base \<Rightarrow> tts_base" where
  "maybeCloseAssistantTurn contextID b =
    (let (b, c) = takeTTSContext contextID b in
     case c of
       None \<Rightarrow> b
     | Some c \<Rightarrow>
         if \<not> tc_pushAssistantAggregation c then b
         else log_event (Down (TPushAggregation (if tb_lastPTS b > 0 then Some (tb_lastPTS b + 1) else None))) b)"

definition pushTrailingSilence :: "tts_config \<Rightarrow> tts_base \<Rightarrow> tts_base" where
  "pushTrailingSilence cf b =
    (case cf_silence cf of
       None \<Rightarrow> b
     | Some n \<Rightarrow> if n = 0 then b else log_event (Down (TAudio (replicate n 0))) b)"

definition tts_PushFrame :: "tts_config \<Rightarrow> tts_frame \<Rightarrow> tts_base \<Rightarrow> tts_base" where
  "tts_PushFrame cf f b =
    log_event (Down f)
      (case f of
         TStopped contextID \<Rightarrow> pushTrailingSilence cf (if contextID \<noteq> [] then maybeCloseAssistantTurn contextID b else b)
       | _ \<Rightarrow> b)"

section \<open>Words (audiocontext.go)\<close>

text \<open>What the sequencer returned goes on, and the last word's moment is remembered.\<close>

definition push_seq_frame :: "tts_config \<Rightarrow> seq_frame \<Rightarrow> tts_base \<Rightarrow> tts_base" where
  "push_seq_frame cf f b =
    tts_PushFrame cf (TSeq f)
      (case f of SeqWord w \<Rightarrow> (case wf_pts w of None \<Rightarrow> b | Some at \<Rightarrow> setLastWordPTS at b) | _ \<Rightarrow> b)"

definition pushSequencerFrames :: "tts_config \<Rightarrow> seq_frame list \<Rightarrow> tts_base \<Rightarrow> tts_base" where
  "pushSequencerFrames cf fs b = fold (push_seq_frame cf) fs b"

text \<open>An operation of the sequencer whose frames are pushed.\<close>

definition with_sequencer ::
  "tts_config \<Rightarrow> (AggregatedFrameSequencer \<Rightarrow> (AggregatedFrameSequencer \<times> seq_frame list) go) \<Rightarrow> tts_base \<Rightarrow> tts_base go" where
  "with_sequencer cf f b =
    go_bind (f (tb_sequencer b)) (\<lambda>(q, fs). Inr (pushSequencerFrames cf fs (b\<lparr>tb_sequencer := q\<rparr>)))"

definition pushWord :: "tts_config \<Rightarrow> string \<Rightarrow> string \<Rightarrow> duration \<Rightarrow> bool \<Rightarrow> tts_base \<Rightarrow> tts_base go" where
  "pushWord cf contextID word offset spaces b =
    (case audioContextFor contextID b of
       None \<Rightarrow> Inr b
     | Some c \<Rightarrow>
         (case ac_baseline c of
            None \<Rightarrow> Inr (set_context contextID (c\<lparr>ac_pendingWords := ac_pendingWords c @ [CWord word offset spaces]\<rparr>) b)
          | Some start \<Rightarrow> with_sequencer cf (processWord word (start + offset) contextID spaces) b))"

fun pushWords :: "tts_config \<Rightarrow> string \<Rightarrow> ctx_item list \<Rightarrow> tts_base \<Rightarrow> tts_base go" where
  "pushWords cf contextID [] b = Inr b"
| "pushWords cf contextID (CWord word offset spaces # ws) b =
    go_bind (pushWord cf contextID word offset spaces b) (pushWords cf contextID ws)"
| "pushWords cf contextID (_ # ws) b = pushWords cf contextID ws b"

definition startWordTimestamps :: "duration \<Rightarrow> duration \<Rightarrow> audioContext \<Rightarrow> audioContext \<times> ctx_item list" where
  "startWordTimestamps now lastPTS c =
    (if ac_baseline c \<noteq> None then (c, [])
     else (c\<lparr>ac_baseline := Some (max now lastPTS), ac_pendingWords := []\<rparr>, ac_pendingWords c))"

definition applyForceComplete :: "tts_config \<Rightarrow> string \<Rightarrow> tts_base \<Rightarrow> tts_base go" where
  "applyForceComplete cf contextID b = with_sequencer cf (sq_forceComplete contextID (tb_lastPTS b)) b"

section \<open>Pausing and silence (pause.go, silentcontext.go)\<close>

definition maybePauseFrameProcessing :: "tts_config \<Rightarrow> tts_base \<Rightarrow> tts_base" where
  "maybePauseFrameProcessing cf b =
    (if \<not> tb_processingText b \<or> \<not> cf_pause cf then b
     else if \<not> tb_botSpeaking b \<and> \<not> hasOpenAudioContexts b then b
     else log_event PauseProcessing b)"

definition maybeResumeFrameProcessing :: "tts_config \<Rightarrow> tts_base \<Rightarrow> tts_base" where
  "maybeResumeFrameProcessing cf b = (if cf_pause cf then log_event ResumeProcessing b else b)"

definition tts_SetUsable :: "bool \<Rightarrow> tts_base \<Rightarrow> tts_base" where
  "tts_SetUsable usable b = (if usable then b\<lparr>tb_zeroRun := 0, tb_usable := True\<rparr> else b\<lparr>tb_usable := False\<rparr>)"

text \<open>A permanent error costs the service its usability (\<open>Processor_Core\<close>).\<close>

definition recordContextAudioOutcome :: "tts_config \<Rightarrow> string \<Rightarrow> bool \<Rightarrow> tts_base \<Rightarrow> tts_base" where
  "recordContextAudioOutcome cf contextID receivedAudio b =
    (if receivedAudio then b\<lparr>tb_zeroRun := 0\<rparr>
     else
       let b = (if tb_botSpeaking b then b else maybeResumeFrameProcessing cf b) in
       if \<not> tb_usable b then b
       else
         let b = b\<lparr>tb_zeroRun := Suc (tb_zeroRun b)\<rparr> in
         if cf_zeroAudioLimit cf > 0 \<and> tb_zeroRun b \<ge> cf_zeroAudioLimit cf
         then log_event (RaiseError contextID True) (b\<lparr>tb_usable := False\<rparr>)
         else log_event (RaiseError contextID False) b)"

definition releaseResponseEnd :: "tts_config \<Rightarrow> string \<Rightarrow> tts_base \<Rightarrow> tts_base" where
  "releaseResponseEnd cf contextID b =
    (if \<not> cf_wordPath cf then b
     else
       let (b, held) = takeResponseEnd contextID b in
       if held = None \<and> \<not> tb_responding b then b
       else tts_PushFrame cf (TResponseEnd held (tb_lastPTS b)) (b\<lparr>tb_responding := False\<rparr>))"

section \<open>The playing goroutine\<close>

definition forget_context :: "string \<Rightarrow> tts_base \<Rightarrow> tts_base" where
  "forget_context contextID b =
    log_event (ContextCompleted contextID)
      (b\<lparr>tb_contexts := AList.delete contextID (tb_contexts b), tb_ttsContexts := (tb_ttsContexts b)(contextID := None),
         tb_loop := LoopNext\<rparr>)"

text \<open>A context at its end, whether it was marked or has been idle for long enough.\<close>

definition end_context :: "tts_config \<Rightarrow> string \<Rightarrow> bool \<Rightarrow> bool \<Rightarrow> tts_base \<Rightarrow> tts_base go" where
  "end_context cf contextID owesStop receivedAudio b =
    go_bind (applyForceComplete cf contextID b) (\<lambda>b.
      let b = (if owesStop then tts_PushFrame cf (TStopped contextID) b else b);
          b = releaseResponseEnd cf contextID b;
          b = recordContextAudioOutcome cf contextID receivedAudio b
      in Inr (forget_context contextID b))"

definition play_frame :: "tts_config \<Rightarrow> duration \<Rightarrow> string \<Rightarrow> bool \<Rightarrow> bool \<Rightarrow> tts_frame \<Rightarrow> tts_base \<Rightarrow> tts_base go" where
  "play_frame cf now contextID owesStop receivedAudio f b =
    (case f of
       TStarted d a \<Rightarrow>
         Inr (tts_PushFrame cf (TStarted d (appendsToContext contextID b)) (b\<lparr>tb_loop := LoopIn contextID True receivedAudio\<rparr>))
     | TAudio pcm \<Rightarrow>
         let b = b\<lparr>tb_loop := LoopIn contextID owesStop True\<rparr> in
         (case audioContextFor contextID b of
            None \<Rightarrow> Inr (tts_PushFrame cf f b)
          | Some c \<Rightarrow>
              let (c, words) = startWordTimestamps now (tb_lastPTS b) c
              in pushWords cf contextID words (tts_PushFrame cf f (set_context contextID c b)))
     | TStopped d \<Rightarrow>
         go_bind (applyForceComplete cf contextID b) (\<lambda>b.
           Inr (tts_PushFrame cf f (b\<lparr>tb_loop := LoopIn contextID False receivedAudio\<rparr>)))
     | _ \<Rightarrow> Inr (tts_PushFrame cf f b))"

definition play_item :: "tts_config \<Rightarrow> duration \<Rightarrow> string \<Rightarrow> bool \<Rightarrow> bool \<Rightarrow> ctx_item \<Rightarrow> tts_base \<Rightarrow> tts_base go" where
  "play_item cf now contextID owesStop receivedAudio it b =
    (case it of
       CKeepalive \<Rightarrow> Inr b
     | CEnd \<Rightarrow> end_context cf contextID owesStop receivedAudio b
     | CWord word offset spaces \<Rightarrow> pushWord cf contextID word offset spaces b
     | CFrame f \<Rightarrow> play_frame cf now contextID owesStop receivedAudio f b)"

definition serial_item_step :: "tts_config \<Rightarrow> serial_item \<Rightarrow> tts_base \<Rightarrow> tts_base" where
  "serial_item_step cf it b =
    (case it of
       SEnd \<Rightarrow> b\<lparr>tb_loop := LoopEnded\<rparr>
     | SFrame f \<Rightarrow> tts_PushFrame cf f b
     | SContext contextID \<Rightarrow>
         if contextID = [] then b
         else if audioContextFor contextID b = None then forget_context contextID b
         else b\<lparr>tb_loop := LoopIn contextID False False\<rparr>)"

text \<open>
  One step of the goroutine at a time \<open>now\<close>: it takes the next item of the queue it waits at, and waits when there
  is none.
\<close>

definition play_step :: "tts_config \<Rightarrow> duration \<Rightarrow> tts_base \<Rightarrow> tts_base go" where
  "play_step cf now b =
    (case tb_loop b of
       LoopNext \<Rightarrow>
         (case tb_serial b of
            Some (it # q) \<Rightarrow> Inr (serial_item_step cf it (b\<lparr>tb_serial := Some q\<rparr>))
          | _ \<Rightarrow> Inr b)
     | LoopIn contextID owesStop receivedAudio \<Rightarrow>
         (case audioContextFor contextID b of
            Some c \<Rightarrow>
              (case ac_items c of
                 it # rest \<Rightarrow> play_item cf now contextID owesStop receivedAudio it (set_context contextID (c\<lparr>ac_items := rest\<rparr>) b)
               | [] \<Rightarrow> Inr b)
          | None \<Rightarrow> Inr b)
     | _ \<Rightarrow> Inr b)"

text \<open>
  The idle timeout of the context being played. An item that arrives as the timer fires may be left: Go chooses
  freely between the two.
\<close>

definition play_timeout :: "tts_config \<Rightarrow> tts_base \<Rightarrow> tts_base go" where
  "play_timeout cf b =
    (case tb_loop b of
       LoopIn contextID owesStop receivedAudio \<Rightarrow> end_context cf contextID owesStop receivedAudio b
     | _ \<Rightarrow> Inr b)"

section \<open>Starting and stopping it\<close>

text \<open>Stopping waits for the goroutine, which leaves at its next wait; what is queued is dropped.\<close>

definition stopAudioContexts :: "tts_base \<Rightarrow> tts_base" where
  "stopAudioContexts b = (if tb_loop b = LoopOff then b else b\<lparr>tb_loop := LoopOff, tb_contexts := []\<rparr>)"

definition startAudioContexts :: "tts_base \<Rightarrow> tts_base" where
  "startAudioContexts b =
    (stopAudioContexts b)\<lparr>tb_contexts := [], tb_ttsContexts := Map.empty, tb_pendingEnd := Map.empty, tb_serial := Some [],
      tb_loop := LoopNext, tb_generation := Suc (tb_generation b)\<rparr>"

text \<open>
  What an \<open>EndFrame\<close> does first. It then waits for the goroutine that was running, which ends at the sentinel or is
  stopped; \<open>g\<close> is the one it waits for.
\<close>

definition drainAudioContexts :: "tts_base \<Rightarrow> tts_base" where
  "drainAudioContexts b = serial_push SEnd b"

definition drained :: "nat \<Rightarrow> tts_base \<Rightarrow> bool" where
  "drained g b \<longleftrightarrow> tb_serial b = None \<or> tb_generation b \<noteq> g \<or> tb_loop b = LoopEnded \<or> tb_loop b = LoopOff"

end
