(* ===== verification/Tts_Service.thy ===== *)
theory Tts_Service
  imports Speech_Playback
begin

text \<open>
  The frame handlers of the text-to-speech base, \<^verbatim>\<open>src/service/tts/tts.go\<close>: text is gathered into units, each unit
  is announced, reshaped, given to the provider and spoken on the audio context of its turn. A frame is handled in
  one step, except an \<open>EndFrame\<close>, which waits for the playback to end. What the provider does in answer to a unit
  is an argument of the step. Settings updates, metrics and the HTTP helper are left out.
\<close>

section \<open>The provider\<close>

datatype yield_item = Yield tts_frame | YieldWords "WordTiming list" bool bool

record provider_answer =
  pa_yields :: "yield_item list"
  pa_error :: bool

type_synonym provider = "string \<Rightarrow> string \<Rightarrow> provider_answer"

section \<open>Queueing\<close>

fun is_system :: "tts_frame \<Rightarrow> bool" where
  "is_system (TIn (InInterruption i)) = True"
| "is_system (TIn (InCancel i)) = True"
| "is_system (TIn (InStart i)) = True"
| "is_system (TIn (InBotStarted i)) = True"
| "is_system (TIn (InBotStopped i)) = True"
| "is_system (TIn (InOther i sys)) = sys"
| "is_system _ = False"

definition push_dir :: "tts_config \<Rightarrow> bool \<Rightarrow> tts_frame \<Rightarrow> tts_base \<Rightarrow> tts_base" where
  "push_dir cf down f b = (if down then tts_PushFrame cf f b else log_event (Up f) b)"

definition queueSerial :: "tts_config \<Rightarrow> bool \<Rightarrow> tts_frame \<Rightarrow> tts_base \<Rightarrow> tts_base" where
  "queueSerial cf down f b =
    (if is_system f \<or> \<not> down then push_dir cf down f b
     else if tb_serial b = None then tts_PushFrame cf f b
     else serial_push (SFrame f) b)"

definition fresh_context :: "nat \<Rightarrow> string" where
  "fresh_context n = replicate (Suc n) CHR ''c''"

definition createContextID :: "tts_base \<Rightarrow> tts_base \<times> string" where
  "createContextID b =
    (if tb_turnContext b \<noteq> [] then (refreshAudioContext (tb_turnContext b) b, tb_turnContext b)
     else (b\<lparr>tb_nextContext := Suc (tb_nextContext b)\<rparr>, fresh_context (tb_nextContext b)))"

section \<open>One unit of text\<close>

definition isStreamingTokens :: "tts_base \<Rightarrow> bool" where
  "isStreamingTokens b \<longleftrightarrow> aggregationType (tb_aggregator b) = AggregationToken"

definition trimIncomingWhitespace :: "string \<Rightarrow> bool \<Rightarrow> tts_base \<Rightarrow> string option" where
  "trimIncomingWhitespace txt streaming b =
    (if streaming then
       let txt = (if tb_sentNonWhitespace b then txt else dropWhile IsSpace txt) in if txt = [] then None else Some txt
     else
       let txt = dropWhile (\<lambda>c. c = CHR 0x0A) txt in if TrimSpace txt = [] then None else Some txt)"

definition keepsFilteredText :: "string \<Rightarrow> bool \<Rightarrow> tts_base \<Rightarrow> tts_base option" where
  "keepsFilteredText txt streaming b =
    (if \<not> streaming then (if TrimSpace txt = [] then None else Some b)
     else if txt = [] \<or> TrimSpace txt = [] \<and> \<not> tb_sentNonWhitespace b then None
     else Some (b\<lparr>tb_sentNonWhitespace := True\<rparr>))"

definition aggregatedFrame :: "Aggregation \<Rightarrow> string \<Rightarrow> tts_base \<Rightarrow> agg_frame" where
  "aggregatedFrame agg contextID b =
    \<lparr>af_ID = tb_nextID b, af_Text = agg_Text agg, af_AggregatedBy = agg_Type agg, af_ContextID = contextID,
     af_RawText = agg_Text agg, af_WillBeSpoken = False, af_AppendToContext = True, af_dest = [], af_pts = None\<rparr>"

definition prepareText :: "tts_config \<Rightarrow> string \<Rightarrow> tts_base \<Rightarrow> string" where
  "prepareText cf txt b =
    (if cf_trailingSpace cf \<and> \<not> isStreamingTokens b \<and> \<not> (txt \<noteq> [] \<and> last txt = CHR '' '') then txt @ '' '' else txt)"

fun take_yield :: "string \<Rightarrow> yield_item \<Rightarrow> tts_base \<Rightarrow> tts_base" where
  "take_yield contextID (Yield f) b = AppendToAudioContext contextID f b"
| "take_yield contextID (YieldWords ws spaces preMerge) b = AddWordTimestamps contextID ws spaces preMerge b"

definition is_audio :: "yield_item \<Rightarrow> bool" where
  "is_audio y = (case y of Yield (TAudio pcm) \<Rightarrow> True | _ \<Rightarrow> False)"

text \<open>The provider is asked only while the service is usable; its error is reported, and the turn goes on.\<close>

definition ask_provider :: "provider \<Rightarrow> string \<Rightarrow> string \<Rightarrow> tts_base \<Rightarrow> tts_base" where
  "ask_provider run contextID prepared b =
    (if \<not> tb_usable b then b\<lparr>tb_yieldsSync := True\<rparr>
     else
       let a = run prepared contextID;
           b = fold (take_yield contextID) (pa_yields a) b;
           b = (if pa_error a then log_event (RaiseError contextID False) b else b)
       in b\<lparr>tb_yieldsSync := list_ex is_audio (pa_yields a)\<rparr>)"

definition whole_unit :: "string \<Rightarrow> string \<Rightarrow> bool \<Rightarrow> word_frame" where
  "whole_unit contextID original appendToContext =
    \<lparr>wf_Text = original, wf_pts = None, wf_ContextID = contextID, wf_RawText = [], wf_AppendToContext = appendToContext,
     wf_spaces = False\<rparr>"

definition runTTS :: "tts_config \<Rightarrow> provider \<Rightarrow> string \<Rightarrow> string \<Rightarrow> string \<Rightarrow> bool \<Rightarrow> tts_base \<Rightarrow> tts_base go" where
  "runTTS cf run contextID original prepared appendToContext b =
    (let b = ask_provider run contextID prepared b in
     if cf_wordPath cf then Inr b
     else with_sequencer cf (\<lambda>q. Inr (completeSpokenSlot q))
            (AppendToAudioContext contextID (TSeq (SeqWord (whole_unit contextID original appendToContext))) b))"

text \<open>
  The unit is announced: serialized where it opens a context, so that it comes before the context's start, and on
  the context where that is open.
\<close>

definition announce_unit :: "tts_config \<Rightarrow> agg_frame \<Rightarrow> string \<Rightarrow> tts_base \<Rightarrow> tts_base" where
  "announce_unit cf f contextID b =
    (if AudioContextAvailable contextID b then AppendToAudioContext contextID (TSeq (SeqAgg f)) b
     else queueSerial cf True (TSeq (SeqAgg f)) b)"

definition open_context :: "string \<Rightarrow> tts_base \<Rightarrow> tts_base" where
  "open_context contextID b =
    (if AudioContextAvailable contextID b then b
     else AppendToAudioContext contextID (TStarted contextID True) (CreateAudioContext contextID b))"

definition speak_unit ::
  "tts_config \<Rightarrow> provider \<Rightarrow> Aggregation \<Rightarrow> string \<Rightarrow> string \<Rightarrow> bool \<Rightarrow> bool \<Rightarrow> tts_base \<Rightarrow> tts_base go" where
  "speak_unit cf run agg contextID filtered appendToContext pushAssistantAggregation b =
    (let f = (aggregatedFrame agg contextID b)\<lparr>af_WillBeSpoken := True, af_AppendToContext := False\<rparr>;
         b = announce_unit cf f contextID (b\<lparr>tb_processingText := True, tb_nextID := Suc (tb_nextID b)\<rparr>)
     in case cf_transform cf filtered (agg_Type agg) of
          None \<Rightarrow> Inr (log_event (RaiseError contextID False) b)
        | Some transformed \<Rightarrow>
            let b = setTTSContext contextID \<lparr>tc_appendToContext = appendToContext,
                      tc_pushAssistantAggregation = pushAssistantAggregation\<rparr> b;
                b = open_context contextID b;
                prepared = prepareText cf transformed b
            in if \<not> AudioContextAvailable contextID b then Inr b
               else go_bind (with_sequencer cf
                               (registerSpoken (cf_tokenizer cf) f contextID prepared appendToContext (cf_wordPath cf) False)
                               (on_context contextID (addText prepared) b))
                      (runTTS cf run contextID (agg_Text agg) prepared appendToContext))"

definition pushTTSFrames :: "tts_config \<Rightarrow> provider \<Rightarrow> Aggregation \<Rightarrow> bool \<Rightarrow> bool \<Rightarrow> tts_base \<Rightarrow> tts_base go" where
  "pushTTSFrames cf run agg appendToContext pushAssistantAggregation b =
    (let streaming = isStreamingTokens b; (b, contextID) = createContextID b in
     if cf_skips cf (agg_Type agg) then
       with_sequencer cf (registerSkipped (aggregatedFrame agg contextID b) contextID (cf_destination cf))
         (b\<lparr>tb_nextID := Suc (tb_nextID b)\<rparr>)
     else
       case trimIncomingWhitespace (agg_Text agg) streaming b of
         None \<Rightarrow> Inr b
       | Some txt \<Rightarrow>
           let filtered = cf_filter cf txt in
           (case keepsFilteredText filtered streaming b of
              None \<Rightarrow> Inr b
            | Some b \<Rightarrow> speak_unit cf run agg contextID filtered appendToContext pushAssistantAggregation b))"

fun tts_push_units :: "tts_config \<Rightarrow> provider \<Rightarrow> Aggregation list \<Rightarrow> tts_base \<Rightarrow> tts_base go" where
  "tts_push_units cf run [] b = Inr b"
| "tts_push_units cf run (a # as) b = go_bind (pushTTSFrames cf run a True False b) (tts_push_units cf run as)"

definition tts_aggregate :: "tts_config \<Rightarrow> provider \<Rightarrow> string \<Rightarrow> tts_base \<Rightarrow> tts_base go" where
  "tts_aggregate cf run txt b =
    go_bind (Aggregate_simple (cf_tokenizer cf) txt (tb_aggregator b)) (\<lambda>(a, units).
      tts_push_units cf run units (b\<lparr>tb_aggregator := a\<rparr>))"

definition tts_flush :: "tts_config \<Rightarrow> provider \<Rightarrow> tts_base \<Rightarrow> tts_base go" where
  "tts_flush cf run b =
    (let (a, rest) = Flush_simple (tb_aggregator b); b = b\<lparr>tb_aggregator := a\<rparr> in
     case rest of
       None \<Rightarrow> Inr b
     | Some u \<Rightarrow> if TrimSpace (agg_Text u) = [] then Inr b else pushTTSFrames cf run u True False b)"

section \<open>Turns\<close>

text \<open>
  Closing the turn's context. \<open>cancelled\<close> says whether an interruption cut the call short, which the context it runs
  under tells.
\<close>

definition onTurnContextCompleted :: "bool \<Rightarrow> tts_base \<Rightarrow> tts_base" where
  "onTurnContextCompleted cancelled b =
    (let contextID = tb_turnContext b; b = b\<lparr>tb_turnContext := []\<rparr> in
     if contextID = [] \<or> cancelled then b
     else
       let b = (if tb_yieldsSync b \<and> AudioContextAvailable contextID b
                then RemoveAudioContext contextID (AppendToAudioContext contextID (TStopped contextID) b) else b);
           b = (if AudioContextAvailable contextID b then log_event (FlushAudio contextID) b else b)
       in if AudioContextAvailable contextID b then log_event (TurnContextCompleted contextID) b else b)"

definition handleSpeak :: "tts_config \<Rightarrow> provider \<Rightarrow> bool \<Rightarrow> string \<Rightarrow> bool \<Rightarrow> tts_base \<Rightarrow> tts_base go" where
  "handleSpeak cf run cancelled txt appendToContext b =
    (let pushAssistantAggregation = (appendToContext \<and> \<not> tb_responding b);
         saved = tb_turnContext b; savedProcessing = tb_processingText b; savedSent = tb_sentNonWhitespace b;
         (b, contextID) = createContextID (b\<lparr>tb_sentNonWhitespace := False\<rparr>);
         b = log_event (TurnContextCreated contextID) (b\<lparr>tb_turnContext := contextID\<rparr>)
     in go_bind (pushTTSFrames cf run \<lparr>agg_Text = txt, agg_Type = AggregationSentence\<rparr> appendToContext pushAssistantAggregation b)
          (\<lambda>b. Inr ((maybePauseFrameProcessing cf (onTurnContextCompleted cancelled b))
                   \<lparr>tb_turnContext := saved, tb_processingText := savedProcessing, tb_sentNonWhitespace := savedSent\<rparr>)))"

definition handle_response_start :: "tts_config \<Rightarrow> bool \<Rightarrow> tts_in \<Rightarrow> tts_base \<Rightarrow> tts_base" where
  "handle_response_start cf down f b =
    (let (b, contextID) = createContextID (b\<lparr>tb_responding := True\<rparr>)
     in queueSerial cf down (TIn f) (log_event (TurnContextCreated contextID) (b\<lparr>tb_turnContext := contextID\<rparr>)))"

text \<open>What both ends of a turn do once the playback has been waited for, if it has.\<close>

definition close_turn :: "tts_config \<Rightarrow> provider \<Rightarrow> bool \<Rightarrow> tts_base \<Rightarrow> tts_base go" where
  "close_turn cf run cancelled b =
    go_bind (tts_flush cf run b) (\<lambda>b.
      Inr (onTurnContextCompleted cancelled
            ((maybePauseFrameProcessing cf b)\<lparr>tb_processingText := False, tb_sentNonWhitespace := False\<rparr>)))"

definition handle_response_end :: "tts_config \<Rightarrow> provider \<Rightarrow> bool \<Rightarrow> bool \<Rightarrow> nat \<Rightarrow> tts_in \<Rightarrow> tts_base \<Rightarrow> tts_base go" where
  "handle_response_end cf run cancelled down fid f b =
    go_bind (tts_flush cf run b) (\<lambda>b.
      let b = (maybePauseFrameProcessing cf b)\<lparr>tb_processingText := False, tb_sentNonWhitespace := False\<rparr>;
          turnContext = tb_turnContext b;
          b = onTurnContextCompleted cancelled b
      in Inr (if cf_wordPath cf then (if turnContext \<noteq> [] then holdResponseEnd turnContext fid b else b)
              else queueSerial cf down (TIn f) b))"

definition handleInterruption :: "tts_config \<Rightarrow> tts_base \<Rightarrow> tts_base" where
  "handleInterruption cf b =
    (let b = b\<lparr>tb_processingText := False, tb_sentNonWhitespace := False, tb_botSpeaking := False, tb_responding := False,
               tb_aggregator := Reset_simple (tb_aggregator b), tb_sequencer := sq_clear (tb_sequencer b),
               tb_turnContext := [], tb_lastPTS := 0\<rparr>;
         b = stopAudioContexts b;
         b = b\<lparr>tb_serial := map_option (\<lambda>q. []) (tb_serial b)\<rparr>;
         b = fold (\<lambda>contextID. log_event (ContextInterrupted contextID)) (openAudioContexts b) b
     in maybeResumeFrameProcessing cf (startAudioContexts b))"

section \<open>A frame arrives\<close>

fun skipsTTS :: "tts_in \<Rightarrow> bool" where
  "skipsTTS (InText t skip) = skip"
| "skipsTTS (InResponseStart i skip) = skip"
| "skipsTTS (InResponseEnd i skip) = skip"
| "skipsTTS _ = False"

text \<open>An \<open>EndFrame\<close> is handled up to the point where it waits; \<open>finish_end\<close> is the rest.\<close>

fun tts_ProcessFrame :: "tts_config \<Rightarrow> provider \<Rightarrow> bool \<Rightarrow> bool \<Rightarrow> tts_in \<Rightarrow> tts_base \<Rightarrow> tts_base go" where
  "tts_ProcessFrame cf run cancelled down f b =
    (if skipsTTS f then Inr (push_dir cf down (TIn f) b)
     else case f of
       InText txt skip \<Rightarrow> tts_aggregate cf run txt b
     | InSpeak txt append_it \<Rightarrow> handleSpeak cf run cancelled txt append_it b
     | InResponseStart fid skip \<Rightarrow> Inr (handle_response_start cf down f b)
     | InResponseEnd fid skip \<Rightarrow> handle_response_end cf run cancelled down fid f b
     | InEnd fid \<Rightarrow> Inr (drainAudioContexts b)
     | InInterruption fid \<Rightarrow> Inr (push_dir cf down (TIn f) (handleInterruption cf b))
     | InCancel fid \<Rightarrow> Inr (push_dir cf down (TIn f) (stopAudioContexts (handleInterruption cf b)))
     | InStart fid \<Rightarrow> Inr (startAudioContexts (push_dir cf down (TIn f) b))
     | InSettings fid own \<Rightarrow> Inr (if own then b else push_dir cf down (TIn f) b)
     | InBotStarted fid \<Rightarrow> Inr (queueSerial cf down (TIn f) (b\<lparr>tb_botSpeaking := True\<rparr>))
     | InBotStopped fid \<Rightarrow> Inr (queueSerial cf down (TIn f) (maybeResumeFrameProcessing cf (b\<lparr>tb_botSpeaking := False\<rparr>)))
     | InOther fid sys \<Rightarrow> Inr (queueSerial cf down (TIn f) b))"

definition finish_end :: "tts_config \<Rightarrow> provider \<Rightarrow> bool \<Rightarrow> bool \<Rightarrow> nat \<Rightarrow> tts_base \<Rightarrow> tts_base go" where
  "finish_end cf run cancelled down fid b = go_bind (close_turn cf run cancelled b) (\<lambda>b. Inr (push_dir cf down (TIn (InEnd fid)) b))"

section \<open>The service\<close>

definition tts_New :: "AggregationType \<Rightarrow> tts_base" where
  "tts_New by_type =
    \<lparr>tb_sequencer = NewAggregatedFrameSequencer (by_type = AggregationToken), tb_aggregator = NewSimpleAggregator by_type,
     tb_contexts = [], tb_ttsContexts = Map.empty, tb_pendingEnd = Map.empty, tb_serial = None, tb_loop = LoopOff,
     tb_generation = 0, tb_lastPTS = 0, tb_turnContext = [], tb_responding = False, tb_yieldsSync = False,
     tb_processingText = False, tb_botSpeaking = False, tb_sentNonWhitespace = False, tb_zeroRun = 0, tb_usable = True,
     tb_nextContext = 0, tb_nextID = 0, tb_log = []\<rparr>"

text \<open>
  What can happen next: a frame arrives, an \<open>EndFrame\<close> that has waited for the goroutine \<open>g\<close> goes on, the goroutine
  takes a step or gives its context up, the provider delivers from its receive loop, or the service is made usable
  again.
\<close>

datatype tts_step =
    Arrive tts_in bool bool provider
  | ResumeEnd nat nat bool bool provider
  | Play duration
  | PlayTimeout
  | Deliver string tts_frame
  | DeliverWord string string duration
  | DeliverWords string "WordTiming list" bool bool
  | DeliverEnd string
  | Usable bool

fun tts_do :: "tts_config \<Rightarrow> tts_step \<Rightarrow> tts_base \<Rightarrow> tts_base go" where
  "tts_do cf (Arrive f down cancelled run) b = tts_ProcessFrame cf run cancelled down f b"
| "tts_do cf (ResumeEnd fid g down cancelled run) b =
    (if drained g b then finish_end cf run cancelled down fid b else Inr b)"
| "tts_do cf (Play now) b = play_step cf now b"
| "tts_do cf PlayTimeout b = play_timeout cf b"
| "tts_do cf (Deliver c f) b = Inr (AppendToAudioContext c f b)"
| "tts_do cf (DeliverWord c w offset) b = Inr (AppendWordToAudioContext c w offset b)"
| "tts_do cf (DeliverWords c ws spaces preMerge) b = Inr (AddWordTimestamps c ws spaces preMerge b)"
| "tts_do cf (DeliverEnd c) b = Inr (RemoveAudioContext c b)"
| "tts_do cf (Usable u) b = Inr (tts_SetUsable u b)"

fun tts_run :: "tts_config \<Rightarrow> tts_step list \<Rightarrow> tts_base \<Rightarrow> tts_base go" where
  "tts_run cf [] b = Inr b"
| "tts_run cf (s # ss) b = go_bind (tts_do cf s b) (tts_run cf ss)"

end
