(* ===== verification/Tts_Properties.thy ===== *)
theory Tts_Properties
  imports Tts_Service "HOL-Library.Sublist"
begin

text \<open>
  What the text-to-speech base does with a turn from its first piece of text to the last frame played, however the
  playing goroutine is scheduled, when a service that stays silent is written off, and where text or a frame is lost.
\<close>

section \<open>Where speech and frames are lost\<close>

definition sync_config :: "bool \<Rightarrow> tts_config" where
  "sync_config wordPath = \<lparr>cf_wordPath = wordPath, cf_zeroAudioLimit = 3, cf_silence = None, cf_destination = [], cf_pause = False,
    cf_trailingSpace = False, cf_skips = (\<lambda>t. False), cf_tokenizer = past_period 0, cf_filter = (\<lambda>t. t),
    cf_transform = (\<lambda>t a. Some t)\<rparr>"

definition one_chunk :: provider where
  "one_chunk t c = \<lparr>pa_yields = [Yield (TAudio [of_nat (length t)])], pa_error = False\<rparr>"

definition arrives :: "tts_in \<Rightarrow> tts_step" where
  "arrives f = Arrive f True False one_chunk"

definition audio_sent :: "tts_base go \<Rightarrow> bytes list" where
  "audio_sent r = (case r of Inl e \<Rightarrow> [] | Inr b \<Rightarrow> concat (map (\<lambda>e. case e of Down (TAudio pcm) \<Rightarrow> [pcm] | _ \<Rightarrow> []) (tb_log b)))"

definition forwarded :: "tts_base go \<Rightarrow> tts_in list" where
  "forwarded r = (case r of Inl e \<Rightarrow> [] | Inr b \<Rightarrow> concat (map (\<lambda>e. case e of Down (TIn f) \<Rightarrow> [f] | _ \<Rightarrow> []) (tb_log b)))"

definition response_ends :: "tts_base go \<Rightarrow> nat option list" where
  "response_ends r =
    (case r of Inl e \<Rightarrow> [] | Inr b \<Rightarrow> concat (map (\<lambda>e. case e of Down (TResponseEnd f at) \<Rightarrow> [f] | _ \<Rightarrow> []) (tb_log b)))"

definition at_rest :: "tts_base go \<Rightarrow> bool" where
  "at_rest r = (case r of Inl e \<Rightarrow> False | Inr b \<Rightarrow> tb_loop b = LoopNext \<and> tb_serial b = Some [] \<and> tb_contexts b = [])"

text \<open>
  Fixed text spoken during a response takes the response's own context, because \<open>createContextID\<close> answers that one,
  and closes it behind itself; the rest of the response is appended behind the end and never played.
\<close>

lemma speaking_in_a_turn_cuts_it:
  "audio_sent (tts_run (sync_config False) ([arrives (InStart 0), arrives (InResponseStart 1 False), arrives (InText ''A. B'' False),
      arrives (InSpeak ''Wait.'' True), arrives (InText ''C.'' False), arrives (InResponseEnd 2 False)] @ replicate 18 (Play 5))
      (tts_New AggregationSentence)) = [[2], [5]]"
  "audio_sent (tts_run (sync_config False) ([arrives (InStart 0), arrives (InResponseStart 1 False), arrives (InText ''A. B'' False),
      arrives (InText ''C.'' False), arrives (InResponseEnd 2 False)] @ replicate 18 (Play 5))
      (tts_New AggregationSentence)) = [[2], [3]]"
  by code_simp+

text \<open>
  An \<open>EndFrame\<close> ends the playing goroutine before it flushes the text still gathered: that text is given to the
  provider and queued, and nobody plays it.
\<close>

lemma text_at_the_end_unspoken:
  "audio_sent (tts_run (sync_config False) ([arrives (InStart 0), arrives (InText ''A'' False), arrives (InEnd 2), Play 5,
      ResumeEnd 2 1 True False one_chunk] @ replicate 8 (Play 5)) (tts_New AggregationSentence)) = []"
  "forwarded (tts_run (sync_config False) ([arrives (InStart 0), arrives (InText ''A'' False), arrives (InEnd 2), Play 5,
      ResumeEnd 2 1 True False one_chunk] @ replicate 8 (Play 5)) (tts_New AggregationSentence)) = [InStart 0, InEnd 2]"
  by code_simp+

text \<open>
  With a provider that times its words, the end of a response is held for the context of its turn. A response that
  says nothing, a tool call alone, opens no context, and its end is never sent.
\<close>

lemma silent_response_never_ends:
  "let r = tts_run (sync_config True) ([arrives (InStart 0), arrives (InResponseStart 1 False), arrives (InResponseEnd 2 False)] @
      replicate 4 (Play 5)) (tts_New AggregationSentence)
   in at_rest r \<and> response_ends r = [] \<and> forwarded r = [InStart 0, InResponseStart 1 False]"
  by code_simp

text \<open>
  Stopping the goroutine forgets the contexts, so the hook that tells the provider of the ones an interruption cut
  off is called for none.
\<close>

lemma interruption_log:
  assumes "tb_loop b \<noteq> LoopOff"
  shows "tb_log (handleInterruption cf b) = tb_log b \<or> tb_log (handleInterruption cf b) = tb_log b @ [ResumeProcessing]"
  using assms
  by (auto simp: handleInterruption_def Let_def stopAudioContexts_def openAudioContexts_def startAudioContexts_def
      maybeResumeFrameProcessing_def log_event_def)

lemma provider_not_told_of_interruption:
  assumes "tb_loop b \<noteq> LoopOff"
  shows "ContextInterrupted c \<in> set (tb_log (handleInterruption cf b)) \<longleftrightarrow> ContextInterrupted c \<in> set (tb_log b)"
  using interruption_log [OF assms, of cf] by auto

section \<open>A turn on its way out\<close>

definition downs :: "tts_base \<Rightarrow> tts_frame list" where
  "downs b = concat (map (\<lambda>e. case e of Down f \<Rightarrow> [f] | _ \<Rightarrow> []) (tb_log b))"

lemma downs_log [simp]:
  "downs (log_event (Down f) b) = downs b @ [f]"
  "(\<And>f. e \<noteq> Down f) \<Longrightarrow> downs (log_event e b) = downs b"
  by (auto simp: downs_def log_event_def split: tts_event.splits)

lemma downs_fields [simp]:
  "downs (b\<lparr>tb_sequencer := x0\<rparr>) = downs b"
  "downs (b\<lparr>tb_aggregator := x1\<rparr>) = downs b"
  "downs (b\<lparr>tb_contexts := x2\<rparr>) = downs b"
  "downs (b\<lparr>tb_ttsContexts := x3\<rparr>) = downs b"
  "downs (b\<lparr>tb_pendingEnd := x4\<rparr>) = downs b"
  "downs (b\<lparr>tb_serial := x5\<rparr>) = downs b"
  "downs (b\<lparr>tb_loop := x6\<rparr>) = downs b"
  "downs (b\<lparr>tb_turnContext := x7\<rparr>) = downs b"
  "downs (b\<lparr>tb_responding := x8\<rparr>) = downs b"
  "downs (b\<lparr>tb_yieldsSync := x9\<rparr>) = downs b"
  "downs (b\<lparr>tb_processingText := x10\<rparr>) = downs b"
  "downs (b\<lparr>tb_sentNonWhitespace := x11\<rparr>) = downs b"
  "downs (b\<lparr>tb_zeroRun := x12\<rparr>) = downs b"
  "downs (b\<lparr>tb_usable := x13\<rparr>) = downs b"
  "downs (b\<lparr>tb_nextContext := x14\<rparr>) = downs b"
  "downs (b\<lparr>tb_nextID := x15\<rparr>) = downs b"
  by (simp_all add: downs_def)

lemma log_event_fields [simp]:
  "tb_sequencer (log_event e b) = tb_sequencer b" "tb_aggregator (log_event e b) = tb_aggregator b"
  "tb_contexts (log_event e b) = tb_contexts b" "tb_ttsContexts (log_event e b) = tb_ttsContexts b"
  "tb_serial (log_event e b) = tb_serial b" "tb_loop (log_event e b) = tb_loop b" "tb_turnContext (log_event e b) = tb_turnContext b"
  "tb_nextID (log_event e b) = tb_nextID b" "tb_yieldsSync (log_event e b) = tb_yieldsSync b" "tb_usable (log_event e b) = tb_usable b"
  "tb_lastPTS (log_event e b) = tb_lastPTS b" "tb_pendingEnd (log_event e b) = tb_pendingEnd b"
  "tb_responding (log_event e b) = tb_responding b" "tb_botSpeaking (log_event e b) = tb_botSpeaking b"
  "tb_zeroRun (log_event e b) = tb_zeroRun b"
  by (simp_all add: log_event_def)

text \<open>What pushing a frame sends: the padding of an utterance goes out ahead of its stop.\<close>

definition sent_for :: "tts_config \<Rightarrow> tts_frame \<Rightarrow> tts_frame list" where
  "sent_for cf f =
    (case f of
       TStopped c \<Rightarrow> (case cf_silence cf of None \<Rightarrow> [] | Some n \<Rightarrow> if n = 0 then [] else [TAudio (replicate n 0)]) @ [f]
     | _ \<Rightarrow> [f])"

definition sent_for_items :: "tts_config \<Rightarrow> ctx_item list \<Rightarrow> tts_frame list" where
  "sent_for_items cf items = concat (map (\<lambda>it. case it of CFrame f \<Rightarrow> sent_for cf f | _ \<Rightarrow> []) items)"

lemma sent_for_items_simps [simp]:
  "sent_for_items cf [] = []" "sent_for_items cf (xs @ ys) = sent_for_items cf xs @ sent_for_items cf ys"
  by (simp_all add: sent_for_items_def)

lemma sent_for_items_Cons: "sent_for_items cf (it # items) = sent_for_items cf [it] @ sent_for_items cf items"
  by (simp add: sent_for_items_def)

text \<open>A turn's context carries its own text and no request to close the assistant's turn; nothing waits to be spoken.\<close>

definition turn_context_ok :: "string \<Rightarrow> tts_base \<Rightarrow> bool" where
  "turn_context_ok c b \<longleftrightarrow> (\<forall>x. tb_ttsContexts b c = Some x \<longrightarrow> tc_appendToContext x \<and> \<not> tc_pushAssistantAggregation x) \<and>
    sq_slots (tb_sequencer b) = [] \<and> \<not> sq_streamingMode (tb_sequencer b)"

definition same_turn :: "tts_base \<Rightarrow> tts_base \<Rightarrow> bool" where
  "same_turn b b' \<longleftrightarrow> tb_turnContext b' = tb_turnContext b \<and> tb_aggregator b' = tb_aggregator b \<and> tb_nextID b' = tb_nextID b \<and>
    tb_yieldsSync b' = tb_yieldsSync b"

lemma tts_PushFrame_turn:
  assumes "turn_context_ok c b" and "\<And>d. f = TStopped d \<Longrightarrow> d = c"
  shows "downs (tts_PushFrame cf f b) = downs b @ sent_for cf f" and "turn_context_ok c (tts_PushFrame cf f b)"
    and "same_turn b (tts_PushFrame cf f b)" and "tb_usable (tts_PushFrame cf f b) = tb_usable b"
    and "tb_contexts (tts_PushFrame cf f b) = tb_contexts b" and "tb_loop (tts_PushFrame cf f b) = tb_loop b"
    and "tb_serial (tts_PushFrame cf f b) = tb_serial b" and "tb_lastPTS (tts_PushFrame cf f b) = tb_lastPTS b"
  using assms
  by (auto simp: tts_PushFrame_def sent_for_def turn_context_ok_def same_turn_def pushTrailingSilence_def maybeCloseAssistantTurn_def
      takeTTSContext_def split: tts_frame.splits option.splits)

lemma forceComplete_empty:
  assumes "sq_slots q = []"
  shows "\<exists>q'. sq_forceComplete c at q = Inr (q', []) \<and> sq_slots q' = [] \<and> sq_streamingMode q' = sq_streamingMode q"
  using assms by (simp add: sq_forceComplete_def sq_flush_def)

lemma applyForceComplete_turn:
  assumes "turn_context_ok c b"
  obtains q where "applyForceComplete cf d b = Inr (b\<lparr>tb_sequencer := q\<rparr>)" "sq_slots q = []" "\<not> sq_streamingMode q"
  using forceComplete_empty [of "tb_sequencer b" d "tb_lastPTS b"] assms
  by (auto simp: applyForceComplete_def with_sequencer_def pushSequencerFrames_def turn_context_ok_def)

text \<open>Where a turn stands: nothing opened, its context waiting to be played, or being played.\<close>

definition resting :: "tts_frame list \<Rightarrow> tts_base \<Rightarrow> bool" where
  "resting fs b \<longleftrightarrow> tb_contexts b = [] \<and> tb_loop b = LoopNext \<and> tb_serial b = Some (map SFrame fs)"

definition waiting_turn :: "string \<Rightarrow> tts_frame list \<Rightarrow> ctx_item list \<Rightarrow> tts_frame list \<Rightarrow> tts_base \<Rightarrow> bool" where
  "waiting_turn c fs items gs b \<longleftrightarrow> (\<exists>ac. tb_contexts b = [(c, ac)] \<and> ac_items ac = items \<and> ac_pendingWords ac = []) \<and>
    tb_loop b = LoopNext \<and> tb_serial b = Some (map SFrame fs @ SContext c # map SFrame gs)"

definition playing_turn :: "string \<Rightarrow> bool \<Rightarrow> ctx_item list \<Rightarrow> tts_frame list \<Rightarrow> tts_base \<Rightarrow> bool" where
  "playing_turn c owes items gs b \<longleftrightarrow> (\<exists>ac. tb_contexts b = [(c, ac)] \<and> ac_items ac = items \<and> ac_pendingWords ac = []) \<and>
    (\<exists>audio. tb_loop b = LoopIn c owes audio) \<and> tb_serial b = Some (map SFrame gs)"

fun plain_item :: "string \<Rightarrow> ctx_item \<Rightarrow> bool" where
  "plain_item c CKeepalive = True"
| "plain_item c (CFrame (TAudio pcm)) = True"
| "plain_item c (CFrame (TStarted d a)) = (d = c \<and> a)"
| "plain_item c (CFrame (TSeq f)) = True"
| "plain_item c _ = False"

definition never_stopped :: "tts_frame \<Rightarrow> bool" where
  "never_stopped f = (case f of TStopped d \<Rightarrow> False | _ \<Rightarrow> True)"

definition turn_items :: "string \<Rightarrow> bool \<Rightarrow> ctx_item list \<Rightarrow> bool" where
  "turn_items c closed items \<longleftrightarrow>
    (\<exists>body. list_all (plain_item c) body \<and> items = body @ (if closed then [CFrame (TStopped c), CEnd] else []))"

definition turn_inv :: "tts_config \<Rightarrow> string \<Rightarrow> bool \<Rightarrow> bool \<Rightarrow> tts_frame list \<Rightarrow> tts_base \<Rightarrow> bool" where
  "turn_inv cf c opened closed sent b \<longleftrightarrow> c \<noteq> [] \<and> turn_context_ok c b \<and>
    ((\<exists>fs. resting fs b \<and> list_all never_stopped fs \<and> (closed \<or> \<not> opened) \<and> downs b @ fs = sent) \<or>
     (\<exists>fs items gs. waiting_turn c fs items gs b \<and> opened \<and> list_all never_stopped (fs @ gs) \<and> turn_items c closed items \<and>
        (gs = [] \<or> closed) \<and> downs b @ fs @ sent_for_items cf items @ gs = sent) \<or>
     (\<exists>owes items gs. playing_turn c owes items gs b \<and> opened \<and> list_all never_stopped gs \<and>
        (turn_items c closed items \<or> closed \<and> items = [CEnd] \<and> \<not> owes) \<and>
        (gs = [] \<or> closed) \<and> downs b @ sent_for_items cf items @ gs = sent))"

lemma sent_for_plain: "never_stopped f \<Longrightarrow> sent_for cf f = [f]"
  by (auto simp: never_stopped_def sent_for_def split: tts_frame.splits)

lemma tts_PushFrame_plain:
  assumes "turn_context_ok c b" and "never_stopped f"
  shows "downs (tts_PushFrame cf f b) = downs b @ [f]" and "turn_context_ok c (tts_PushFrame cf f b)"
    and "same_turn b (tts_PushFrame cf f b)" and "tb_usable (tts_PushFrame cf f b) = tb_usable b"
    and "tb_contexts (tts_PushFrame cf f b) = tb_contexts b" and "tb_loop (tts_PushFrame cf f b) = tb_loop b"
    and "tb_serial (tts_PushFrame cf f b) = tb_serial b"
proof -
  have "d = c" if "f = TStopped d" for d using assms(2) that by (simp add: never_stopped_def)
  from tts_PushFrame_turn [OF assms(1) this, of f cf] sent_for_plain [OF assms(2), of cf]
  show "downs (tts_PushFrame cf f b) = downs b @ [f]" "turn_context_ok c (tts_PushFrame cf f b)"
    "same_turn b (tts_PushFrame cf f b)" "tb_usable (tts_PushFrame cf f b) = tb_usable b"
    "tb_contexts (tts_PushFrame cf f b) = tb_contexts b" "tb_loop (tts_PushFrame cf f b) = tb_loop b"
    "tb_serial (tts_PushFrame cf f b) = tb_serial b" by simp_all
qed

section \<open>The playing goroutine sends what is queued, in order\<close>

lemma same_turn_refl [simp]: "same_turn b b"
  by (simp add: same_turn_def)

lemma same_turn_trans: "same_turn a b \<Longrightarrow> same_turn b d \<Longrightarrow> same_turn a d"
  by (simp add: same_turn_def)

lemma turn_fields [simp]:
  "turn_context_ok c (b\<lparr>tb_contexts := x\<rparr>) = turn_context_ok c b" "turn_context_ok c (b\<lparr>tb_serial := y\<rparr>) = turn_context_ok c b"
  "turn_context_ok c (b\<lparr>tb_loop := z\<rparr>) = turn_context_ok c b" "same_turn a (b\<lparr>tb_contexts := x\<rparr>) = same_turn a b"
  "same_turn a (b\<lparr>tb_serial := y\<rparr>) = same_turn a b" "same_turn a (b\<lparr>tb_loop := z\<rparr>) = same_turn a b"
  "same_turn a (b\<lparr>tb_sequencer := q\<rparr>) = same_turn a b" "same_turn (b\<lparr>tb_contexts := x\<rparr>) a = same_turn b a"
  "same_turn (b\<lparr>tb_serial := y\<rparr>) a = same_turn b a" "same_turn (b\<lparr>tb_loop := z\<rparr>) a = same_turn b a"
  "same_turn (b\<lparr>tb_sequencer := q\<rparr>) a = same_turn b a"
  by (simp_all add: turn_context_ok_def same_turn_def)

lemma turn_ok_sequencer: "turn_context_ok c b \<Longrightarrow> sq_slots q = [] \<Longrightarrow> \<not> sq_streamingMode q \<Longrightarrow> turn_context_ok c (b\<lparr>tb_sequencer := q\<rparr>)"
  by (simp add: turn_context_ok_def)

lemma play_resting:
  assumes "resting (f # fs) b" and "turn_context_ok c b" and "never_stopped f"
  shows "\<exists>b'. play_step cf now b = Inr b' \<and> resting fs b' \<and> downs b' = downs b @ [f] \<and> turn_context_ok c b' \<and> same_turn b b'
    \<and> tb_usable b' = tb_usable b"
proof -
  let ?b = "b\<lparr>tb_serial := Some (map SFrame fs)\<rparr>"
  have ok: "turn_context_ok c ?b" using assms(2) by simp
  have "play_step cf now b = Inr (tts_PushFrame cf f ?b)"
    using assms(1) by (simp add: play_step_def resting_def serial_item_step_def)
  with tts_PushFrame_plain [OF ok assms(3), of cf] assms show ?thesis by (auto simp: resting_def)
qed

lemma play_waiting_frame:
  assumes "waiting_turn c (f # fs) items gs b" and "turn_context_ok c b" and "never_stopped f"
  shows "\<exists>b'. play_step cf now b = Inr b' \<and> waiting_turn c fs items gs b' \<and> downs b' = downs b @ [f] \<and> turn_context_ok c b' \<and>
    same_turn b b' \<and> tb_usable b' = tb_usable b"
proof -
  let ?b = "b\<lparr>tb_serial := Some (map SFrame fs @ SContext c # map SFrame gs)\<rparr>"
  have ok: "turn_context_ok c ?b" using assms(2) by simp
  have "play_step cf now b = Inr (tts_PushFrame cf f ?b)"
    using assms(1) by (simp add: play_step_def waiting_turn_def serial_item_step_def)
  with tts_PushFrame_plain [OF ok assms(3), of cf] assms show ?thesis by (auto simp: waiting_turn_def)
qed

lemma play_enter:
  assumes "waiting_turn c [] items gs b" and "turn_context_ok c b" and "c \<noteq> []"
  shows "\<exists>b'. play_step cf now b = Inr b' \<and> playing_turn c False items gs b' \<and> downs b' = downs b \<and> turn_context_ok c b' \<and>
    same_turn b b' \<and> tb_usable b' = tb_usable b"
  using assms
  by (auto simp: play_step_def waiting_turn_def playing_turn_def serial_item_step_def audioContextFor_def)

text \<open>The context's queue with its first item taken.\<close>

lemma play_takes_item:
  assumes "playing_turn c owes (it # items) gs b" and "c \<noteq> []"
  obtains b1 audio where "play_step cf now b = play_item cf now c owes audio it b1" "playing_turn c owes items gs b1"
    "tb_loop b1 = LoopIn c owes audio" "downs b1 = downs b" "same_turn b b1" "tb_usable b1 = tb_usable b"
    "turn_context_ok c b1 = turn_context_ok c b"
proof -
  obtain ac audio where ac: "tb_contexts b = [(c, ac)]" "ac_items ac = it # items" "ac_pendingWords ac = []"
    and lp: "tb_loop b = LoopIn c owes audio" "tb_serial b = Some (map SFrame gs)" using assms(1) by (auto simp: playing_turn_def)
  show thesis
    by (rule that [of audio "b\<lparr>tb_contexts := [(c, ac\<lparr>ac_items := items\<rparr>)]\<rparr>"])
      (use ac lp assms(2) in \<open>simp_all add: play_step_def audioContextFor_def set_context_def playing_turn_def\<close>)
qed

lemma play_plain:
  assumes "playing_turn c owes (it # items) gs b" and "turn_context_ok c b" and "c \<noteq> []" and "plain_item c it"
  shows "\<exists>b' owes'. play_step cf now b = Inr b' \<and> playing_turn c owes' items gs b' \<and> downs b' = downs b @ sent_for_items cf [it] \<and>
    turn_context_ok c b' \<and> same_turn b b' \<and> tb_usable b' = tb_usable b"
proof -
  obtain b1 audio where b1: "play_step cf now b = play_item cf now c owes audio it b1" "playing_turn c owes items gs b1"
    "tb_loop b1 = LoopIn c owes audio" "downs b1 = downs b" "same_turn b b1" "tb_usable b1 = tb_usable b" "turn_context_ok c b1 = turn_context_ok c b"
    by (rule play_takes_item [OF assms(1,3)])
  have ok: "turn_context_ok c b1" using b1(7) assms(2) by simp
  obtain ac where ac: "tb_contexts b1 = [(c, ac)]" "ac_items ac = items" "ac_pendingWords ac = []" "tb_serial b1 = Some (map SFrame gs)"
    using b1(2) by (auto simp: playing_turn_def)
  have app: "appendsToContext c b1" using ok by (auto simp: appendsToContext_def turn_context_ok_def split: option.splits)
  have push: "playing_turn c o' items gs (tts_PushFrame cf f b2)" "downs (tts_PushFrame cf f b2) = downs b @ [f]" "turn_context_ok c (tts_PushFrame cf f b2)"
    "same_turn b (tts_PushFrame cf f b2)" "tb_usable (tts_PushFrame cf f b2) = tb_usable b"
    if "never_stopped f" "playing_turn c o' items gs b2" "downs b2 = downs b" "turn_context_ok c b2" "same_turn b b2" "tb_usable b2 = tb_usable b" for f b2 o'
    using tts_PushFrame_plain [OF that(4,1), of cf] that same_turn_trans by (auto simp: playing_turn_def)
  consider "it = CKeepalive" | pcm where "it = CFrame (TAudio pcm)" | "it = CFrame (TStarted c True)" | f where "it = CFrame (TSeq f)"
    using assms(4) by (cases "(c, it)" rule: plain_item.cases) auto
  then show ?thesis
  proof cases
    case 1
    with b1 ok show ?thesis by (auto simp: play_item_def sent_for_items_def)
  next
    case 2
    define b2 where "b2 = b1\<lparr>tb_loop := LoopIn c owes True, tb_contexts := [(c, fst (startWordTimestamps now (tb_lastPTS b1) ac))]\<rparr>"
    have r: "play_step cf now b = Inr (tts_PushFrame cf (TAudio pcm) b2)"
      using 2 ac assms(3) unfolding b1(1)
      by (cases "ac_baseline ac")
        (simp_all add: play_item_def play_frame_def audioContextFor_def set_context_def b2_def startWordTimestamps_def Let_def)
    have "playing_turn c owes items gs b2" using ac by (auto simp: playing_turn_def b2_def startWordTimestamps_def)
    moreover have "downs b2 = downs b" "turn_context_ok c b2" "same_turn b b2" "tb_usable b2 = tb_usable b" using b1 ok by (simp_all add: b2_def)
    moreover have "never_stopped (TAudio pcm)" by (simp add: never_stopped_def)
    ultimately have "playing_turn c owes items gs (tts_PushFrame cf (TAudio pcm) b2) \<and> downs (tts_PushFrame cf (TAudio pcm) b2) = downs b @ [TAudio pcm] \<and>
        turn_context_ok c (tts_PushFrame cf (TAudio pcm) b2) \<and> same_turn b (tts_PushFrame cf (TAudio pcm) b2) \<and> tb_usable (tts_PushFrame cf (TAudio pcm) b2) = tb_usable b"
      by (intro conjI push)
    moreover have "sent_for_items cf [it] = [TAudio pcm]" using 2 by (simp add: sent_for_items_def sent_for_def)
    ultimately show ?thesis using r by metis
  next
    case 3
    define b2 where "b2 = b1\<lparr>tb_loop := LoopIn c True audio\<rparr>"
    have r: "play_step cf now b = Inr (tts_PushFrame cf (TStarted c True) b2)"
      using 3 app unfolding b1(1) by (simp add: play_item_def play_frame_def b2_def)
    have "playing_turn c True items gs b2" using ac by (auto simp: playing_turn_def b2_def)
    moreover have "downs b2 = downs b" "turn_context_ok c b2" "same_turn b b2" "tb_usable b2 = tb_usable b" using b1 ok by (simp_all add: b2_def)
    moreover have "never_stopped (TStarted c True)" by (simp add: never_stopped_def)
    ultimately have "playing_turn c True items gs (tts_PushFrame cf (TStarted c True) b2) \<and>
        downs (tts_PushFrame cf (TStarted c True) b2) = downs b @ [TStarted c True] \<and> turn_context_ok c (tts_PushFrame cf (TStarted c True) b2) \<and>
        same_turn b (tts_PushFrame cf (TStarted c True) b2) \<and> tb_usable (tts_PushFrame cf (TStarted c True) b2) = tb_usable b"
      by (intro conjI push)
    moreover have "sent_for_items cf [it] = [TStarted c True]" using 3 by (simp add: sent_for_items_def sent_for_def)
    ultimately show ?thesis using r by metis
  next
    case 4
    have r: "play_step cf now b = Inr (tts_PushFrame cf (TSeq f) b1)" using 4 unfolding b1(1) by (simp add: play_item_def play_frame_def)
    have "never_stopped (TSeq f)" by (simp add: never_stopped_def)
    then have "playing_turn c owes items gs (tts_PushFrame cf (TSeq f) b1) \<and> downs (tts_PushFrame cf (TSeq f) b1) = downs b @ [TSeq f] \<and>
        turn_context_ok c (tts_PushFrame cf (TSeq f) b1) \<and> same_turn b (tts_PushFrame cf (TSeq f) b1) \<and> tb_usable (tts_PushFrame cf (TSeq f) b1) = tb_usable b"
      using b1(2,4,5,6) ok by (intro conjI push)
    moreover have "sent_for_items cf [it] = [TSeq f]" using 4 by (simp add: sent_for_items_def sent_for_def)
    ultimately show ?thesis using r by metis
  qed
qed

lemma play_stopped:
  assumes "playing_turn c owes (CFrame (TStopped c) # items) gs b" and "turn_context_ok c b" and "c \<noteq> []"
  shows "\<exists>b'. play_step cf now b = Inr b' \<and> playing_turn c False items gs b' \<and> downs b' = downs b @ sent_for cf (TStopped c) \<and>
    turn_context_ok c b' \<and> same_turn b b'"
proof -
  obtain b1 audio where b1: "play_step cf now b = play_item cf now c owes audio (CFrame (TStopped c)) b1" "playing_turn c owes items gs b1"
    "tb_loop b1 = LoopIn c owes audio" "downs b1 = downs b" "same_turn b b1" "turn_context_ok c b1 = turn_context_ok c b"
    by (rule play_takes_item [OF assms(1,3)])
  obtain q where q: "applyForceComplete cf c b1 = Inr (b1\<lparr>tb_sequencer := q\<rparr>)" "sq_slots q = []" "\<not> sq_streamingMode q"
    using applyForceComplete_turn [of c b1 cf c] b1(6) assms(2) by metis
  define b2 where "b2 = (b1\<lparr>tb_sequencer := q\<rparr>)\<lparr>tb_loop := LoopIn c False audio\<rparr>"
  have ok: "turn_context_ok c b2" using b1(6) assms(2) q by (simp add: b2_def turn_ok_sequencer)
  have "play_step cf now b = Inr (tts_PushFrame cf (TStopped c) b2)" using b1(1) q(1) by (simp add: play_item_def play_frame_def b2_def)
  moreover have "playing_turn c False items gs b2" using b1(2) by (auto simp: playing_turn_def b2_def)
  moreover have "same_turn b b2" "downs b2 = downs b" using b1 by (simp_all add: b2_def)
  ultimately show ?thesis using tts_PushFrame_turn [OF ok, of "TStopped c" cf] by (auto simp: playing_turn_def intro: same_turn_trans)
qed

lemma play_end:
  assumes "playing_turn c False [CEnd] gs b" and "turn_context_ok c b" and "c \<noteq> []" and "\<not> cf_wordPath cf"
  shows "\<exists>b'. play_step cf now b = Inr b' \<and> resting gs b' \<and> downs b' = downs b \<and> turn_context_ok c b' \<and> same_turn b b'"
proof -
  obtain b1 audio where b1: "play_step cf now b = play_item cf now c False audio CEnd b1" "playing_turn c False [] gs b1"
    "tb_loop b1 = LoopIn c False audio" "downs b1 = downs b" "same_turn b b1" "turn_context_ok c b1 = turn_context_ok c b"
    by (rule play_takes_item [OF assms(1,3)])
  obtain q where q: "applyForceComplete cf c b1 = Inr (b1\<lparr>tb_sequencer := q\<rparr>)" "sq_slots q = []" "\<not> sq_streamingMode q"
    using applyForceComplete_turn [of c b1 cf c] b1(6) assms(2) by metis
  define b2 where "b2 = recordContextAudioOutcome cf c audio (b1\<lparr>tb_sequencer := q\<rparr>)"
  have b2: "tb_contexts b2 = tb_contexts b1" "tb_serial b2 = tb_serial b1" "tb_sequencer b2 = q" "downs b2 = downs b1"
      "tb_ttsContexts b2 = tb_ttsContexts b1" "same_turn b1 b2"
    by (simp_all add: b2_def recordContextAudioOutcome_def maybeResumeFrameProcessing_def Let_def same_turn_def)
  have "play_step cf now b = Inr (forget_context c b2)"
    using b1(1) q(1) assms(4) by (simp add: play_item_def end_context_def b2_def releaseResponseEnd_def Let_def)
  moreover have "resting gs (forget_context c b2)" using b1(2) b2 by (auto simp: resting_def forget_context_def playing_turn_def)
  moreover have "downs (forget_context c b2) = downs b" using b2 b1 by (simp add: forget_context_def)
  moreover have "turn_context_ok c (forget_context c b2)" using q b2 by (simp add: turn_context_ok_def forget_context_def)
  moreover have "same_turn b (forget_context c b2)" using same_turn_trans [OF b1(5) b2(6)] by (simp add: same_turn_def forget_context_def)
  ultimately show ?thesis by blast
qed

text \<open>What is left to play, counted in steps.\<close>

definition play_work :: "tts_base \<Rightarrow> nat" where
  "play_work b = (case tb_serial b of None \<Rightarrow> 0 | Some q \<Rightarrow> length q) + sum_list (map (\<lambda>(c, ac). length (ac_items ac)) (tb_contexts b))"

lemma play_work_forms:
  "resting fs b \<Longrightarrow> play_work b = length fs"
  "waiting_turn c fs items gs b \<Longrightarrow> play_work b = length fs + Suc (length gs) + length items"
  "playing_turn c owes items gs b \<Longrightarrow> play_work b = length gs + length items"
  by (auto simp: play_work_def resting_def waiting_turn_def playing_turn_def)

lemma turn_items_cases:
  assumes "turn_items c closed items"
  obtains (none) "items = []" "\<not> closed"
  | (plain) it rest where "items = it # rest" "plain_item c it" "turn_items c closed rest"
  | (stop) "items = [CFrame (TStopped c), CEnd]" "closed"
proof -
  obtain body where b: "list_all (plain_item c) body" "items = body @ (if closed then [CFrame (TStopped c), CEnd] else [])"
    using assms by (auto simp: turn_items_def)
  show thesis
  proof (cases body)
    case Nil
    with b show ?thesis using none stop by (auto split: if_splits)
  next
    case (Cons it rest)
    with b show ?thesis by (intro plain [of it "rest @ (if closed then [CFrame (TStopped c), CEnd] else [])"]) (auto simp: turn_items_def)
  qed
qed

lemma turn_inv_restingI:
  "c \<noteq> [] \<Longrightarrow> turn_context_ok c b \<Longrightarrow> resting fs b \<Longrightarrow> list_all never_stopped fs \<Longrightarrow> closed \<or> \<not> opened \<Longrightarrow>
    downs b @ fs = sent \<Longrightarrow> turn_inv cf c opened closed sent b"
  unfolding turn_inv_def by blast

lemma turn_inv_waitingI:
  "c \<noteq> [] \<Longrightarrow> turn_context_ok c b \<Longrightarrow> waiting_turn c fs items gs b \<Longrightarrow> opened \<Longrightarrow> list_all never_stopped (fs @ gs) \<Longrightarrow> turn_items c closed items \<Longrightarrow>
    gs = [] \<or> closed \<Longrightarrow> downs b @ fs @ sent_for_items cf items @ gs = sent \<Longrightarrow> turn_inv cf c opened closed sent b"
  unfolding turn_inv_def by blast

lemma turn_inv_playingI:
  "c \<noteq> [] \<Longrightarrow> turn_context_ok c b \<Longrightarrow> playing_turn c owes items gs b \<Longrightarrow> opened \<Longrightarrow> list_all never_stopped gs \<Longrightarrow>
    turn_items c closed items \<or> closed \<and> items = [CEnd] \<and> \<not> owes \<Longrightarrow> gs = [] \<or> closed \<Longrightarrow>
    downs b @ sent_for_items cf items @ gs = sent \<Longrightarrow> turn_inv cf c opened closed sent b"
  unfolding turn_inv_def by blast

lemma turn_inv_play:
  assumes "turn_inv cf c opened closed sent b" and "\<not> cf_wordPath cf"
  shows "\<exists>b'. play_step cf now b = Inr b' \<and> turn_inv cf c opened closed sent b' \<and> same_turn b b' \<and> play_work b' = play_work b - 1 \<and>
    (\<not> closed \<longrightarrow> tb_usable b' = tb_usable b)"
proof -
  have c: "c \<noteq> []" and ok: "turn_context_ok c b" using assms(1) by (simp_all add: turn_inv_def)
  from assms(1) consider
    (rest) fs where "resting fs b" "list_all never_stopped fs" "downs b @ fs = sent" "closed \<or> \<not> opened"
  | (wait) fs items gs where "waiting_turn c fs items gs b" "list_all never_stopped (fs @ gs)" "turn_items c closed items"
      "gs = [] \<or> closed" "downs b @ fs @ sent_for_items cf items @ gs = sent" "opened"
  | (play) owes items gs where "playing_turn c owes items gs b" "list_all never_stopped gs"
      "turn_items c closed items \<or> closed \<and> items = [CEnd] \<and> \<not> owes" "gs = [] \<or> closed" "downs b @ sent_for_items cf items @ gs = sent" "opened"
    unfolding turn_inv_def by blast
  then show ?thesis
  proof cases
    case rest
    show ?thesis
    proof (cases fs)
      case Nil
      then have "play_step cf now b = Inr b" using rest(1) by (simp add: play_step_def resting_def)
      with assms(1) rest(1) Nil play_work_forms(1) [OF rest(1)] show ?thesis by auto
    next
      case (Cons f fs')
      obtain b' where b': "play_step cf now b = Inr b'" "resting fs' b'" "downs b' = downs b @ [f]" "turn_context_ok c b'" "same_turn b b'"
          "tb_usable b' = tb_usable b"
        using play_resting [of f fs' b c cf now] rest Cons ok by auto
      then have "turn_inv cf c opened closed sent b'" using rest Cons c by (intro turn_inv_restingI [of c b' fs']) auto
      then show ?thesis using b' play_work_forms(1) [OF rest(1)] play_work_forms(1) [OF b'(2)] Cons by auto
    qed
  next
    case wait
    show ?thesis
    proof (cases fs)
      case Nil
      obtain b' where b': "play_step cf now b = Inr b'" "playing_turn c False items gs b'" "downs b' = downs b" "turn_context_ok c b'"
          "same_turn b b'" "tb_usable b' = tb_usable b"
        using play_enter [of c items gs b cf now] wait(1) Nil ok c by auto
      have "turn_inv cf c opened closed sent b'" using b' wait Nil c by (intro turn_inv_playingI [of c b' False items gs]) simp_all
      then show ?thesis using b' play_work_forms(2) [OF wait(1)] play_work_forms(3) [OF b'(2)] Nil by auto
    next
      case (Cons f fs')
      obtain b' where b': "play_step cf now b = Inr b'" "waiting_turn c fs' items gs b'" "downs b' = downs b @ [f]" "turn_context_ok c b'"
          "same_turn b b'" "tb_usable b' = tb_usable b"
        using play_waiting_frame [of c f fs' items gs b cf now] wait(1,2) Cons ok by auto
      have "turn_inv cf c opened closed sent b'" using b' wait Cons c by (intro turn_inv_waitingI [of c b' fs' items gs]) simp_all
      then show ?thesis using b' play_work_forms(2) [OF wait(1)] play_work_forms(2) [OF b'(2)] Cons by auto
    qed
  next
    case play
    consider (idle) "items = []" "\<not> closed"
      | (plain) it rest where "items = it # rest" "plain_item c it" "turn_items c closed rest"
      | (stop) "items = [CFrame (TStopped c), CEnd]" "closed" | (fin) "items = [CEnd]" "\<not> owes" "closed"
      using play(3) by (auto elim: turn_items_cases)
    then show ?thesis
    proof cases
      case idle
      then have "play_step cf now b = Inr b" using play(1) c by (auto simp: play_step_def playing_turn_def audioContextFor_def)
      with assms(1) idle play(4) play_work_forms(3) [OF play(1)] show ?thesis by auto
    next
      case plain
      obtain b' owes' where b': "play_step cf now b = Inr b'" "playing_turn c owes' rest gs b'" "downs b' = downs b @ sent_for_items cf [it]"
          "turn_context_ok c b'" "same_turn b b'" "tb_usable b' = tb_usable b"
        using play_plain [of c owes it rest gs b cf now] play(1) plain(1,2) ok c by auto
      have "downs b' @ sent_for_items cf rest @ gs = sent"
        using play(5) plain(1) b'(3) sent_for_items_Cons [of cf it rest] by simp
      then have "turn_inv cf c opened closed sent b'" using b' play(2,4,6) plain(3) c by (intro turn_inv_playingI [of c b' owes' rest gs]) simp_all
      then show ?thesis using b' play_work_forms(3) [OF play(1)] play_work_forms(3) [OF b'(2)] plain(1) by auto
    next
      case stop
      obtain b' where b': "play_step cf now b = Inr b'" "playing_turn c False [CEnd] gs b'" "downs b' = downs b @ sent_for cf (TStopped c)"
          "turn_context_ok c b'" "same_turn b b'"
        using play_stopped [of c owes "[CEnd]" gs b cf now] play(1) stop(1) ok c by auto
      have "turn_inv cf c opened closed sent b'" using b' play stop c by (intro turn_inv_playingI [of c b' False "[CEnd]" gs]) (simp_all add: sent_for_items_def)
      then show ?thesis using b' play_work_forms(3) [OF play(1)] play_work_forms(3) [OF b'(2)] stop by auto
    next
      case fin
      obtain b' where b': "play_step cf now b = Inr b'" "resting gs b'" "downs b' = downs b" "turn_context_ok c b'" "same_turn b b'"
        using play_end [of c gs b cf now] play(1) fin ok c assms(2) by auto
      have "turn_inv cf c opened closed sent b'" using b' play fin c by (intro turn_inv_restingI [of c b' gs]) (simp_all add: sent_for_items_def)
      then show ?thesis using b' play_work_forms(3) [OF play(1)] play_work_forms(1) [OF b'(2)] fin by auto
    qed
  qed
qed

section \<open>Speaking a unit queues its frames\<close>

lemma turn_inv_contexts: "turn_inv cf c opened False sent b \<Longrightarrow> if opened then \<exists>ac. tb_contexts b = [(c, ac)] else tb_contexts b = []"
  by (auto simp: turn_inv_def resting_def waiting_turn_def playing_turn_def)

lemma turn_available: "turn_inv cf c opened False sent b \<Longrightarrow> AudioContextAvailable c b = opened"
  using turn_inv_contexts [of cf c opened sent b]
  by (auto simp: AudioContextAvailable_def audioContextFor_def turn_inv_def split: if_splits)

lemma turn_inv_fields:
  assumes "turn_inv cf c opened closed sent b" and "tb_contexts b' = tb_contexts b" "tb_loop b' = tb_loop b" "tb_serial b' = tb_serial b"
    "downs b' = downs b" "turn_context_ok c b'"
  shows "turn_inv cf c opened closed sent b'"
  using assms by (simp add: turn_inv_def resting_def waiting_turn_def playing_turn_def)

text \<open>Items appended to the open context of a turn come behind everything queued for it.\<close>

lemma turn_append:
  assumes "turn_inv cf c True False sent b" and "turn_items c closed its" and "\<And>ac. ac_items (f ac) = ac_items ac @ its"
    and "\<And>ac. ac_pendingWords (f ac) = ac_pendingWords ac"
  shows "turn_inv cf c True closed (sent @ sent_for_items cf its) (on_context c f b)" and "same_turn b (on_context c f b)"
    and "tb_usable (on_context c f b) = tb_usable b"
proof -
  have c: "c \<noteq> []" and ok: "turn_context_ok c b" using assms(1) by (simp_all add: turn_inv_def)
  obtain ac where ac: "tb_contexts b = [(c, ac)]" using turn_inv_contexts [OF assms(1)] by auto
  have b': "on_context c f b = b\<lparr>tb_contexts := [(c, f ac)]\<rparr>" using ac c by (simp add: on_context_def audioContextFor_def set_context_def)
  have its: "turn_items c closed (items @ its)" if "turn_items c False items" for items
    using that assms(2) unfolding turn_items_def by (auto intro: exI [of _ "items @ _"])
  from assms(1) ac consider (wait) fs items where "waiting_turn c fs items [] b" "list_all never_stopped fs" "turn_items c False items"
      "downs b @ fs @ sent_for_items cf items = sent"
    | (play) owes items where "playing_turn c owes items [] b" "turn_items c False items" "downs b @ sent_for_items cf items = sent"
    unfolding turn_inv_def resting_def by auto
  then show "turn_inv cf c True closed (sent @ sent_for_items cf its) (on_context c f b)"
  proof cases
    case wait
    then have "waiting_turn c fs (items @ its) [] (on_context c f b)" using ac assms(3,4) by (auto simp: b' waiting_turn_def)
    then show ?thesis using wait c ok its by (intro turn_inv_waitingI [of c _ fs "items @ its" "[]"]) (simp_all add: b')
  next
    case play
    then have "playing_turn c owes (items @ its) [] (on_context c f b)" using ac assms(3,4) by (auto simp: b' playing_turn_def)
    then show ?thesis using play c ok its by (intro turn_inv_playingI [of c _ owes "items @ its" "[]"]) (simp_all add: b')
  qed
  show "same_turn b (on_context c f b)" "tb_usable (on_context c f b) = tb_usable b" by (simp_all add: b')
qed

lemma turn_keepalive:
  assumes "turn_inv cf c opened False sent b"
  shows "turn_inv cf c opened False sent (refreshAudioContext c b)" and "same_turn b (refreshAudioContext c b)"
    and "tb_usable (refreshAudioContext c b) = tb_usable b"
proof -
  have "turn_inv cf c opened False sent (refreshAudioContext c b) \<and> same_turn b (refreshAudioContext c b) \<and>
      tb_usable (refreshAudioContext c b) = tb_usable b"
  proof (cases opened)
    case True
    have "turn_items c False [CKeepalive]" by (auto simp: turn_items_def)
    from turn_append [of cf c sent b False "[CKeepalive]" "push_item CKeepalive", OF _ this] assms True show ?thesis
      by (simp add: refreshAudioContext_def push_item_def sent_for_items_def)
  next
    case False
    then have "refreshAudioContext c b = b" using turn_inv_contexts [OF assms] by (simp add: refreshAudioContext_def on_context_def audioContextFor_def)
    with assms show ?thesis by simp
  qed
  then show "turn_inv cf c opened False sent (refreshAudioContext c b)" "same_turn b (refreshAudioContext c b)"
    "tb_usable (refreshAudioContext c b) = tb_usable b" by blast+
qed

lemma turn_queue:
  assumes "turn_inv cf c opened closed sent b" and "opened \<longrightarrow> closed" and "never_stopped f" and "\<not> is_system f"
  shows "turn_inv cf c opened closed (sent @ [f]) (queueSerial cf True f b)" and "same_turn b (queueSerial cf True f b)"
    and "tb_usable (queueSerial cf True f b) = tb_usable b" and "tb_contexts (queueSerial cf True f b) = tb_contexts b"
proof -
  have c: "c \<noteq> []" and ok: "turn_context_ok c b" using assms(1) by (simp_all add: turn_inv_def)
  obtain q where q: "tb_serial b = Some q" using assms(1) by (auto simp: turn_inv_def resting_def waiting_turn_def playing_turn_def)
  have b': "queueSerial cf True f b = b\<lparr>tb_serial := Some (q @ [SFrame f])\<rparr>"
    using q assms(4) by (simp add: queueSerial_def serial_push_def)
  from assms(1) consider (rest) fs where "resting fs b" "list_all never_stopped fs" "downs b @ fs = sent"
    | (wait) fs items gs where "waiting_turn c fs items gs b" "list_all never_stopped (fs @ gs)" "turn_items c closed items" "opened"
      "downs b @ fs @ sent_for_items cf items @ gs = sent"
    | (play) owes items gs where "playing_turn c owes items gs b" "list_all never_stopped gs" "opened"
      "turn_items c closed items \<or> closed \<and> items = [CEnd] \<and> \<not> owes" "downs b @ sent_for_items cf items @ gs = sent"
    unfolding turn_inv_def by blast
  then show "turn_inv cf c opened closed (sent @ [f]) (queueSerial cf True f b)"
  proof cases
    case rest
    then have "resting (fs @ [f]) (queueSerial cf True f b)" using q by (simp add: b' resting_def)
    then show ?thesis using rest c ok assms by (intro turn_inv_restingI [of c _ "fs @ [f]"]) (auto simp: b')
  next
    case wait
    then have "waiting_turn c fs items (gs @ [f]) (queueSerial cf True f b)" using q by (simp add: b' waiting_turn_def)
    then show ?thesis using wait c ok assms by (intro turn_inv_waitingI [of c _ fs items "gs @ [f]"]) (auto simp: b')
  next
    case play
    then have "playing_turn c owes items (gs @ [f]) (queueSerial cf True f b)" using q by (simp add: b' playing_turn_def)
    then show ?thesis using play c ok assms by (intro turn_inv_playingI [of c _ owes items "gs @ [f]"]) (auto simp: b')
  qed
  show "same_turn b (queueSerial cf True f b)" "tb_usable (queueSerial cf True f b) = tb_usable b"
    "tb_contexts (queueSerial cf True f b) = tb_contexts b" by (simp_all add: b')
qed

lemma turn_announce:
  assumes "turn_inv cf c opened False sent b"
  shows "turn_inv cf c opened False (sent @ [TSeq (SeqAgg f)]) (announce_unit cf f c b)" and "same_turn b (announce_unit cf f c b)"
    and "tb_usable (announce_unit cf f c b) = tb_usable b"
proof -
  have items: "turn_items c False [CFrame (TSeq (SeqAgg f))]" by (auto simp: turn_items_def)
  have "turn_inv cf c opened False (sent @ [TSeq (SeqAgg f)]) (announce_unit cf f c b) \<and> same_turn b (announce_unit cf f c b) \<and>
      tb_usable (announce_unit cf f c b) = tb_usable b"
  proof (cases opened)
    case True
    from turn_append [of cf c sent b False _ "push_item (CFrame (TSeq (SeqAgg f)))", OF _ items] assms True turn_available [OF assms]
    show ?thesis by (simp add: announce_unit_def AppendToAudioContext_def push_item_def sent_for_items_def sent_for_def)
  next
    case False
    from turn_queue [OF assms, of "TSeq (SeqAgg f)"] False turn_available [OF assms]
    show ?thesis by (simp add: announce_unit_def never_stopped_def)
  qed
  then show "turn_inv cf c opened False (sent @ [TSeq (SeqAgg f)]) (announce_unit cf f c b)" "same_turn b (announce_unit cf f c b)"
    "tb_usable (announce_unit cf f c b) = tb_usable b" by blast+
qed

lemma turn_open:
  assumes "turn_inv cf c opened False sent b"
  shows "turn_inv cf c True False (sent @ (if opened then [] else [TStarted c True])) (open_context c b)" and "same_turn b (open_context c b)"
    and "tb_usable (open_context c b) = tb_usable b"
proof -
  have c: "c \<noteq> []" and ok: "turn_context_ok c b" using assms(1) by (simp_all add: turn_inv_def)
  have "turn_inv cf c True False (sent @ (if opened then [] else [TStarted c True])) (open_context c b) \<and> same_turn b (open_context c b) \<and>
      tb_usable (open_context c b) = tb_usable b"
  proof (cases opened)
    case True
    with assms turn_available [OF assms] show ?thesis by (simp add: open_context_def)
  next
    case False
    obtain fs where fs: "resting fs b" "list_all never_stopped fs" "downs b @ fs = sent" using assms False by (auto simp: turn_inv_def)
    define ac where "ac = push_item (CFrame (TStarted c True)) newAudioContext"
    have b': "open_context c b = b\<lparr>tb_contexts := [(c, ac)], tb_serial := Some (map SFrame fs @ [SContext c])\<rparr>"
      using fs(1) c turn_available [OF assms] False
      by (simp add: open_context_def AppendToAudioContext_def CreateAudioContext_def on_context_def audioContextFor_def set_context_def
          serial_push_def resting_def ac_def)
    have "waiting_turn c fs [CFrame (TStarted c True)] [] (open_context c b)"
      using fs(1) by (simp add: b' waiting_turn_def resting_def ac_def push_item_def newAudioContext_def)
    moreover have "turn_items c False [CFrame (TStarted c True)]" by (auto simp: turn_items_def)
    ultimately have "turn_inv cf c True False (sent @ [TStarted c True]) (open_context c b)"
      using fs c ok by (intro turn_inv_waitingI [of c _ fs "[CFrame (TStarted c True)]" "[]"]) (simp_all add: b' sent_for_items_def sent_for_def)
    with False show ?thesis by (simp add: b')
  qed
  then show "turn_inv cf c True False (sent @ (if opened then [] else [TStarted c True])) (open_context c b)" "same_turn b (open_context c b)"
    "tb_usable (open_context c b) = tb_usable b" by blast+
qed

text \<open>The texts a unit goes through, and what is sent for it.\<close>

definition worth_speaking :: "Aggregation \<Rightarrow> bool" where
  "worth_speaking u \<longleftrightarrow> TrimSpace (dropWhile (\<lambda>ch. ch = CHR 0x0A) (agg_Text u)) \<noteq> []"

definition provider_text :: "tts_config \<Rightarrow> Aggregation \<Rightarrow> string" where
  "provider_text cf u =
    (let txt = the (cf_transform cf (cf_filter cf (dropWhile (\<lambda>ch. ch = CHR 0x0A) (agg_Text u))) (agg_Type u))
     in if cf_trailingSpace cf \<and> \<not> (txt \<noteq> [] \<and> last txt = CHR '' '') then txt @ '' '' else txt)"

definition announcement :: "string \<Rightarrow> nat \<Rightarrow> Aggregation \<Rightarrow> agg_frame" where
  "announcement c n u =
    \<lparr>af_ID = n, af_Text = agg_Text u, af_AggregatedBy = agg_Type u, af_ContextID = c, af_RawText = agg_Text u,
     af_WillBeSpoken = True, af_AppendToContext = False, af_dest = [], af_pts = None\<rparr>"

definition yielded_frames :: "yield_item list \<Rightarrow> tts_frame list" where
  "yielded_frames ys = concat (map (\<lambda>y. case y of Yield f \<Rightarrow> [f] | _ \<Rightarrow> []) ys)"

definition unit_sent :: "tts_config \<Rightarrow> provider \<Rightarrow> string \<Rightarrow> bool \<Rightarrow> nat \<Rightarrow> Aggregation \<Rightarrow> tts_frame list" where
  "unit_sent cf run c first n u =
    [TSeq (SeqAgg (announcement c n u))] @ (if first then [TStarted c True] else []) @
    yielded_frames (pa_yields (run (provider_text cf u) c)) @ [TSeq (SeqWord (whole_unit c (agg_Text u) True))]"

fun units_sent :: "tts_config \<Rightarrow> provider \<Rightarrow> string \<Rightarrow> bool \<Rightarrow> nat \<Rightarrow> Aggregation list \<Rightarrow> tts_frame list" where
  "units_sent cf run c first n [] = []"
| "units_sent cf run c first n (u # us) =
    (if worth_speaking u then unit_sent cf run c first n u @ units_sent cf run c False (Suc n) us
     else units_sent cf run c first n us)"

text \<open>
  A service that speaks whole units: the provider answers each with audio and nothing else and does not time its
  words, no kind of unit is left unspoken, the filters keep what they are given from vanishing, the transforms
  succeed, and the tokenizer answers a place inside the text.
\<close>

definition whole_unit_service :: "tts_config \<Rightarrow> provider \<Rightarrow> bool" where
  "whole_unit_service cf run \<longleftrightarrow> \<not> cf_wordPath cf \<and> (\<forall>a. \<not> cf_skips cf a) \<and> (\<forall>t a. cf_transform cf t a \<noteq> None) \<and>
    (\<forall>t. TrimSpace t \<noteq> [] \<longrightarrow> TrimSpace (cf_filter cf t) \<noteq> []) \<and>
    (\<forall>t c. pa_yields (run t c) \<noteq> [] \<and> list_all is_audio (pa_yields (run t c))) \<and> (\<forall>t. cf_tokenizer cf t \<le> length t)"

lemma on_context_sequencer: "on_context c f (b\<lparr>tb_sequencer := q\<rparr>) = (on_context c f b)\<lparr>tb_sequencer := q\<rparr>"
  by (simp add: on_context_def audioContextFor_def set_context_def split: option.splits)

lemma on_open: "tb_contexts b = [(c, ac)] \<Longrightarrow> c \<noteq> [] \<Longrightarrow> on_context c f b = b\<lparr>tb_contexts := [(c, f ac)]\<rparr>"
  by (simp add: on_context_def audioContextFor_def set_context_def)

lemma yields_append:
  assumes "list_all is_audio ys" and "tb_contexts b = [(c, ac)]" and "c \<noteq> []"
  shows "fold (take_yield c) ys b = on_context c (\<lambda>ac. ac\<lparr>ac_items := ac_items ac @ map CFrame (yielded_frames ys)\<rparr>) b"
  using assms(1,2)
proof (induction ys arbitrary: b ac)
  case Nil
  then show ?case using assms(3) by (simp add: on_open yielded_frames_def)
next
  case (Cons y ys)
  obtain f where y: "y = Yield f" using Cons.prems by (auto simp: is_audio_def split: yield_item.splits)
  have "fold (take_yield c) (y # ys) b = fold (take_yield c) ys (b\<lparr>tb_contexts := [(c, push_item (CFrame f) ac)]\<rparr>)"
    using Cons.prems(2) assms(3) by (simp add: y AppendToAudioContext_def on_open)
  also have "\<dots> = on_context c (\<lambda>ac. ac\<lparr>ac_items := ac_items ac @ map CFrame (yielded_frames (y # ys))\<rparr>) b"
    using Cons.prems assms(3) by (subst Cons.IH) (simp_all add: on_open push_item_def y yielded_frames_def)
  finally show ?case .
qed

text \<open>A spoken slot without a tracker is complete as soon as its unit has been given to the provider.\<close>

lemma register_untracked:
  assumes "sq_slots q = []" and "\<not> sq_streamingMode q"
  obtains q1 q2 where "registerSpoken tok f c t a False sp q = Inr (q1, [])" "completeSpokenSlot q1 = (q2, [])"
    "sq_slots q2 = []" "\<not> sq_streamingMode q2"
  using assms
  by (auto simp: registerSpoken_def appendSpokenSlot_def completeSpokenSlot_def sq_flush_def new_slot_def)

lemma plain_audio: "list_all is_audio ys \<Longrightarrow> list_all (plain_item c) (map CFrame (yielded_frames ys)) \<and> sent_for_items cf (map CFrame (yielded_frames ys)) = yielded_frames ys"
proof (induction ys)
  case (Cons y ys)
  then obtain pcm where "y = Yield (TAudio pcm)" by (auto simp: is_audio_def split: yield_item.splits tts_frame.splits)
  with Cons show ?case by (simp add: yielded_frames_def sent_for_items_def sent_for_def)
qed (simp add: yielded_frames_def)

lemma turn_run_provider:
  assumes inv: "turn_inv cf c True False sent b" and svc: "whole_unit_service cf run" and "tb_usable b"
  shows "turn_inv cf c True False (sent @ yielded_frames (pa_yields (run t c))) (ask_provider run c t b)"
    and "tb_yieldsSync (ask_provider run c t b)" and "tb_turnContext (ask_provider run c t b) = tb_turnContext b"
    and "tb_aggregator (ask_provider run c t b) = tb_aggregator b" and "tb_nextID (ask_provider run c t b) = tb_nextID b"
    and "tb_usable (ask_provider run c t b)" and "tb_sequencer (ask_provider run c t b) = tb_sequencer b"
    and "ask_provider run c t (b\<lparr>tb_sequencer := q\<rparr>) = (ask_provider run c t b)\<lparr>tb_sequencer := q\<rparr>"
proof -
  define ys where "ys = pa_yields (run t c)"
  have ys: "ys \<noteq> []" "list_all is_audio ys" using svc by (simp_all add: whole_unit_service_def ys_def)
  have c: "c \<noteq> []" and ok: "turn_context_ok c b" using inv by (simp_all add: turn_inv_def)
  obtain ac where ac: "tb_contexts b = [(c, ac)]" using turn_inv_contexts [OF inv] by auto
  define f :: "audioContext \<Rightarrow> audioContext" where "f = (\<lambda>ac. ac\<lparr>ac_items := ac_items ac @ map CFrame (yielded_frames ys)\<rparr>)"
  have it: "turn_items c False (map CFrame (yielded_frames ys))" using plain_audio [OF ys(2)] by (auto simp: turn_items_def)
  have app: "turn_inv cf c True False (sent @ yielded_frames ys) (on_context c f b)"
    using turn_append(1) [OF inv it, of f] plain_audio [OF ys(2), of c cf] by (simp add: f_def)
  have ctx: "on_context c f b = b\<lparr>tb_contexts := [(c, f ac)]\<rparr>" using ac c by (rule on_open)
  define e :: "tts_base \<Rightarrow> tts_base" where "e b = (if pa_error (run t c) then log_event (RaiseError c False) b else b)" for b
  have ex: "list_ex is_audio ys" using ys by (cases ys) auto
  have r: "ask_provider run c t b = (e (on_context c f b))\<lparr>tb_yieldsSync := True\<rparr>"
    using assms(3) yields_append [OF ys(2) ac c] ex by (simp add: ask_provider_def Let_def ys_def [symmetric] f_def e_def)
  have r': "ask_provider run c t (b\<lparr>tb_sequencer := q\<rparr>) = (e (on_context c f (b\<lparr>tb_sequencer := q\<rparr>)))\<lparr>tb_yieldsSync := True\<rparr>"
    using assms(3) yields_append [OF ys(2), of "b\<lparr>tb_sequencer := q\<rparr>" c ac] ac c ex
    by (simp add: ask_provider_def Let_def ys_def [symmetric] f_def e_def)
  show "turn_inv cf c True False (sent @ yielded_frames (pa_yields (run t c))) (ask_provider run c t b)"
    using app ok unfolding r ys_def [symmetric] by (intro turn_inv_fields [OF app]) (auto simp: e_def ctx turn_context_ok_def)
  show "tb_yieldsSync (ask_provider run c t b)" "tb_turnContext (ask_provider run c t b) = tb_turnContext b"
    "tb_aggregator (ask_provider run c t b) = tb_aggregator b" "tb_nextID (ask_provider run c t b) = tb_nextID b"
    "tb_usable (ask_provider run c t b)" "tb_sequencer (ask_provider run c t b) = tb_sequencer b"
    using assms(3) by (simp_all add: r e_def ctx)
  show "ask_provider run c t (b\<lparr>tb_sequencer := q\<rparr>) = (ask_provider run c t b)\<lparr>tb_sequencer := q\<rparr>"
    unfolding r r' by (simp add: e_def on_context_sequencer log_event_def)
qed

definition turn_going :: "tts_config \<Rightarrow> string \<Rightarrow> bool \<Rightarrow> nat \<Rightarrow> tts_frame list \<Rightarrow> tts_base \<Rightarrow> bool" where
  "turn_going cf c opened n sent b \<longleftrightarrow> turn_inv cf c opened False sent b \<and> tb_turnContext b = c \<and> tb_nextID b = n \<and> tb_usable b \<and>
    aggregationType (tb_aggregator b) = AggregationSentence \<and> (opened \<longrightarrow> tb_yieldsSync b)"

lemma turn_speak:
  assumes go: "turn_going cf c opened n sent b" and svc: "whole_unit_service cf run"
    and f: "filtered = cf_filter cf (dropWhile (\<lambda>ch. ch = CHR 0x0A) (agg_Text u))"
  shows "\<exists>b'. speak_unit cf run u c filtered True False b = Inr b' \<and>
    turn_going cf c True (Suc n) (sent @ unit_sent cf run c (\<not> opened) n u) b' \<and> tb_aggregator b' = tb_aggregator b"
proof -
  have inv: "turn_inv cf c opened False sent b" and n: "tb_nextID b = n" and u: "tb_usable b" and tc: "tb_turnContext b = c"
    and agg: "aggregationType (tb_aggregator b) = AggregationSentence" using go by (simp_all add: turn_going_def)
  obtain tx where tx: "cf_transform cf filtered (agg_Type u) = Some tx" using svc unfolding whole_unit_service_def by blast
  have nw: "\<not> cf_wordPath cf" using svc by (simp add: whole_unit_service_def)
  define fr where "fr = announcement c n u"
  define b1 where "b1 = b\<lparr>tb_processingText := True, tb_nextID := Suc n\<rparr>"
  have i1: "turn_inv cf c opened False sent b1" using inv by (rule turn_inv_fields) (use inv in \<open>auto simp: b1_def turn_inv_def turn_context_ok_def\<close>)
  define b2 where "b2 = announce_unit cf fr c b1"
  note i2 = turn_announce [OF i1, of fr, folded b2_def]
  define b3 where "b3 = setTTSContext c \<lparr>tc_appendToContext = True, tc_pushAssistantAggregation = False\<rparr> b2"
  have i3: "turn_inv cf c opened False (sent @ [TSeq (SeqAgg fr)]) b3"
    using i2(1) by (rule turn_inv_fields) (use i2(1) in \<open>auto simp: b3_def setTTSContext_def turn_inv_def turn_context_ok_def\<close>)
  define b4 where "b4 = open_context c b3"
  note i4 = turn_open [OF i3, folded b4_def]
  have st: "same_turn b1 b4" using i2(2) i4(2) by (auto simp: same_turn_def b3_def setTTSContext_def)
  have us: "tb_usable b4" using i2(3) i4(3) u by (simp add: b3_def setTTSContext_def b1_def)
  have str: "\<not> isStreamingTokens b4" using st agg by (simp add: isStreamingTokens_def same_turn_def b1_def)
  define pt where "pt = prepareText cf tx b4"
  have pt: "pt = provider_text cf u" using str tx f by (simp add: pt_def prepareText_def provider_text_def Let_def)
  define b5 where "b5 = on_context c (addText pt) b4"
  have "turn_items c False []" by (simp add: turn_items_def)
  from turn_append [OF i4(1) this, of "addText pt", folded b5_def]
  have i5: "turn_inv cf c True False (sent @ [TSeq (SeqAgg fr)] @ (if opened then [] else [TStarted c True])) b5" "same_turn b4 b5" "tb_usable b5 = tb_usable b4"
    by (simp_all add: addText_def)
  have seq: "sq_slots (tb_sequencer b5) = []" "\<not> sq_streamingMode (tb_sequencer b5)" using i5(1) by (simp_all add: turn_inv_def turn_context_ok_def)
  obtain q1 q2 where q: "registerSpoken (cf_tokenizer cf) fr c pt True False False (tb_sequencer b5) = Inr (q1, [])"
    "completeSpokenSlot q1 = (q2, [])" "sq_slots q2 = []" "\<not> sq_streamingMode q2" by (rule register_untracked [OF seq])
  define b6 where "b6 = ask_provider run c pt b5"
  have us5: "tb_usable b5" using us i5(3) by simp
  note i6 = turn_run_provider [OF i5(1) svc us5, of pt, folded b6_def]
  define ty :: ctx_item where "ty = CFrame (TSeq (SeqWord (whole_unit c (agg_Text u) True)))"
  define b7 where "b7 = on_context c (push_item ty) b6"
  have "turn_items c False [ty]" by (auto simp: turn_items_def ty_def)
  from turn_append [OF i6(1) this, of "push_item ty", folded b7_def]
  have i7: "turn_inv cf c True False (sent @ unit_sent cf run c (\<not> opened) n u) b7" "same_turn b6 b7" "tb_usable b7 = tb_usable b6"
    by (simp_all add: push_item_def unit_sent_def pt fr_def ty_def sent_for_items_def sent_for_def split: if_splits)
  define b8 where "b8 = b7\<lparr>tb_sequencer := q2\<rparr>"
  have i8: "turn_inv cf c True False (sent @ unit_sent cf run c (\<not> opened) n u) b8"
    using i7(1) by (rule turn_inv_fields) (use i7(1) q in \<open>auto simp: b8_def turn_inv_def turn_context_ok_def\<close>)
  have "with_sequencer cf (registerSpoken (cf_tokenizer cf) fr c pt True (cf_wordPath cf) False) b5 = Inr (b5\<lparr>tb_sequencer := q1\<rparr>)"
    using q(1) nw by (simp add: with_sequencer_def pushSequencerFrames_def)
  moreover have "runTTS cf run c (agg_Text u) pt True (b5\<lparr>tb_sequencer := q1\<rparr>) = Inr b8"
    using nw q(2) i6(8) [of q1]
    by (simp add: runTTS_def AppendToAudioContext_def with_sequencer_def pushSequencerFrames_def on_context_sequencer b8_def b7_def ty_def)
  moreover have "AudioContextAvailable c b4" using turn_available [OF i4(1)] by simp
  moreover have fr: "(aggregatedFrame u c b)\<lparr>af_WillBeSpoken := True, af_AppendToContext := False\<rparr> = fr"
    by (simp add: fr_def announcement_def aggregatedFrame_def n)
  ultimately have "speak_unit cf run u c filtered True False b = Inr b8"
    unfolding speak_unit_def Let_def n fr tx option.case b1_def [symmetric] b2_def [symmetric] b3_def [symmetric] b4_def [symmetric]
      pt_def [symmetric] b5_def [symmetric] by simp
  moreover have "turn_going cf c True (Suc n) (sent @ unit_sent cf run c (\<not> opened) n u) b8 \<and> tb_aggregator b8 = tb_aggregator b"
    using i8 st i5(2) i6 i7(2,3) tc agg by (auto simp: turn_going_def same_turn_def b8_def b1_def)
  ultimately show ?thesis by blast
qed

lemma turn_push_unit:
  assumes go: "turn_going cf c opened n sent b" and svc: "whole_unit_service cf run"
  shows "\<exists>b'. pushTTSFrames cf run u True False b = Inr b' \<and> tb_aggregator b' = tb_aggregator b \<and>
    turn_going cf c (opened \<or> worth_speaking u) (if worth_speaking u then Suc n else n)
      (sent @ (if worth_speaking u then unit_sent cf run c (\<not> opened) n u else [])) b'"
proof -
  have inv: "turn_inv cf c opened False sent b" and c: "c \<noteq> []" and tc: "tb_turnContext b = c" and str: "\<not> isStreamingTokens b"
    using go by (simp_all add: turn_going_def turn_inv_def isStreamingTokens_def)
  define b1 where "b1 = refreshAudioContext c b"
  note k = turn_keepalive [OF inv, folded b1_def]
  have go1: "turn_going cf c opened n sent b1" using go k by (auto simp: turn_going_def same_turn_def)
  have id: "createContextID b = (b1, c)" using tc c by (simp add: createContextID_def b1_def)
  have sk: "\<not> cf_skips cf (agg_Type u)" using svc by (simp add: whole_unit_service_def)
  have ag: "tb_aggregator b1 = tb_aggregator b" using k(2) by (simp add: same_turn_def)
  show ?thesis
  proof (cases "worth_speaking u")
    case False
    then have "pushTTSFrames cf run u True False b = Inr b1"
      using id sk str by (simp add: pushTTSFrames_def trimIncomingWhitespace_def worth_speaking_def)
    with False go1 ag show ?thesis by simp
  next
    case True
    define tx where "tx = dropWhile (\<lambda>ch. ch = CHR 0x0A) (agg_Text u)"
    have "TrimSpace tx \<noteq> []" using True by (simp add: worth_speaking_def tx_def)
    then have keep: "TrimSpace (cf_filter cf tx) \<noteq> []" using svc by (simp add: whole_unit_service_def)
    have "pushTTSFrames cf run u True False b = speak_unit cf run u c (cf_filter cf tx) True False b1"
      using id sk str keep \<open>TrimSpace tx \<noteq> []\<close> by (simp add: pushTTSFrames_def trimIncomingWhitespace_def keepsFilteredText_def tx_def)
    with turn_speak [OF go1 svc, of "cf_filter cf tx" u] True ag show ?thesis by (auto simp: tx_def)
  qed
qed

lemma units_sent_append:
  "units_sent cf run c first n (us @ vs) =
    units_sent cf run c first n us @ units_sent cf run c (first \<and> \<not> list_ex worth_speaking us) (n + length (filter worth_speaking us)) vs"
  by (induction us arbitrary: first n) simp_all

lemma turn_push_units:
  assumes "turn_going cf c opened n sent b" and svc: "whole_unit_service cf run"
  shows "\<exists>b'. tts_push_units cf run us b = Inr b' \<and> tb_aggregator b' = tb_aggregator b \<and>
    turn_going cf c (opened \<or> list_ex worth_speaking us) (n + length (filter worth_speaking us))
      (sent @ units_sent cf run c (\<not> opened) n us) b'"
  using assms(1)
proof (induction us arbitrary: opened n sent b)
  case (Cons u us)
  obtain b1 where b1: "pushTTSFrames cf run u True False b = Inr b1" "tb_aggregator b1 = tb_aggregator b"
    "turn_going cf c (opened \<or> worth_speaking u) (if worth_speaking u then Suc n else n)
      (sent @ (if worth_speaking u then unit_sent cf run c (\<not> opened) n u else [])) b1"
    using turn_push_unit [OF Cons.prems svc] by blast
  from Cons.IH [OF b1(3)] b1(1,2) show ?case by (cases "worth_speaking u") auto
qed simp

text \<open>The plays between two frames change nothing of what will have been sent.\<close>

lemma tts_run_append: "tts_run cf (xs @ ys) b = go_bind (tts_run cf xs b) (tts_run cf ys)"
proof (induction xs arbitrary: b)
  case (Cons x xs)
  then show ?case by (cases "tts_do cf x b") simp_all
qed simp

lemma turn_plays:
  assumes "turn_inv cf c opened closed sent b" and "\<not> cf_wordPath cf"
  shows "\<exists>b'. tts_run cf (map Play nows) b = Inr b' \<and> turn_inv cf c opened closed sent b' \<and> same_turn b b' \<and>
    play_work b' = play_work b - length nows \<and> (\<not> closed \<longrightarrow> tb_usable b' = tb_usable b)"
  using assms(1)
proof (induction nows arbitrary: b)
  case (Cons now nows)
  obtain b1 where b1: "play_step cf now b = Inr b1" "turn_inv cf c opened closed sent b1" "same_turn b b1" "play_work b1 = play_work b - 1"
    "\<not> closed \<longrightarrow> tb_usable b1 = tb_usable b" using turn_inv_play [OF Cons.prems assms(2)] by blast
  from Cons.IH [OF b1(2)] b1 show ?case by (auto intro: same_turn_trans)
qed simp

lemma going_plays:
  assumes "turn_going cf c opened n sent b" and "\<not> cf_wordPath cf"
  shows "\<exists>b'. tts_run cf (map Play nows) b = Inr b' \<and> turn_going cf c opened n sent b' \<and> tb_aggregator b' = tb_aggregator b"
proof -
  have "turn_inv cf c opened False sent b" using assms(1) by (simp add: turn_going_def)
  from turn_plays [OF this assms(2), of nows] assms(1) show ?thesis by (auto simp: turn_going_def same_turn_def)
qed

definition not_play :: "tts_step \<Rightarrow> bool" where
  "not_play s = (case s of Play now \<Rightarrow> False | _ \<Rightarrow> True)"

lemma only_plays: "filter not_play xs = [] \<Longrightarrow> \<exists>nows. xs = map Play nows"
proof (induction xs)
  case (Cons x xs)
  then obtain now nows where "x = Play now" "xs = map Play nows" by (auto simp: not_play_def split: tts_step.splits if_splits)
  then show ?case by (metis list.simps(9))
qed simp

lemma first_arrival:
  assumes "filter not_play xs = y # ys"
  obtains nows vs where "xs = map Play nows @ y # vs" "filter not_play vs = ys"
proof -
  obtain us vs where "xs = us @ y # vs" "\<forall>u \<in> set us. \<not> not_play u" "ys = filter not_play vs"
    using assms unfolding filter_eq_Cons_iff by blast
  moreover have "filter not_play us = []" using calculation by simp
  ultimately show thesis using only_plays that by metis
qed

section \<open>A whole turn\<close>

text \<open>The units a text is cut into, with what its end leaves.\<close>

definition turn_units :: "(string \<Rightarrow> nat) \<Rightarrow> string \<Rightarrow> Aggregation list" where
  "turn_units tok str =
    (case Aggregate_simple tok str (NewSimpleAggregator AggregationSentence) of
       Inl e \<Rightarrow> []
     | Inr (a, us) \<Rightarrow> us @ (case snd (Flush_simple a) of None \<Rightarrow> [] | Some u \<Rightarrow> [u]))"

text \<open>Where a turn stands when the pieces \<open>ts\<close> of its text have arrived.\<close>

definition turn_fed :: "tts_config \<Rightarrow> provider \<Rightarrow> string \<Rightarrow> nat \<Rightarrow> tts_frame list \<Rightarrow> string list \<Rightarrow> tts_base \<Rightarrow> bool" where
  "turn_fed cf run c n pre ts b \<longleftrightarrow> (\<exists>us. feed_chunks (Aggregate_simple (cf_tokenizer cf)) ts (NewSimpleAggregator AggregationSentence) =
      Inr (tb_aggregator b, us) \<and>
    turn_going cf c (list_ex worth_speaking us) (n + length (filter worth_speaking us)) (pre @ units_sent cf run c True n us) b)"

lemma feed_chunks_snoc:
  "feed_chunks f (ts @ [t]) a = go_bind (feed_chunks f ts a) (\<lambda>(a, us). go_bind (f t a) (\<lambda>(a, vs). Inr (a, us @ vs)))"
proof (induction ts arbitrary: a)
  case Nil
  show ?case by (cases "f t a") auto
next
  case (Cons x ts)
  show ?case
  proof (cases "f x a")
    case (Inr y)
    then show ?thesis by (cases y) (simp add: Cons.IH go_bind_assoc case_prod_unfold)
  qed simp
qed

lemma fed_text:
  assumes "turn_fed cf run c n pre ts b" and svc: "whole_unit_service cf run"
  shows "\<exists>b'. tts_do cf (Arrive (InText t False) True False run) b = Inr b' \<and> turn_fed cf run c n pre (ts @ [t]) b'"
proof -
  obtain us where us: "feed_chunks (Aggregate_simple (cf_tokenizer cf)) ts (NewSimpleAggregator AggregationSentence) = Inr (tb_aggregator b, us)"
    and go: "turn_going cf c (list_ex worth_speaking us) (n + length (filter worth_speaking us)) (pre @ units_sent cf run c True n us) b"
    using assms(1) by (auto simp: turn_fed_def)
  have tok: "\<forall>s. cf_tokenizer cf s \<le> length s" using svc by (simp add: whole_unit_service_def)
  have ty: "aggregationType (tb_aggregator b) = AggregationSentence" using go by (simp add: turn_going_def)
  obtain a vs where a: "Aggregate_simple (cf_tokenizer cf) t (tb_aggregator b) = Inr (a, vs)" "aggregationType a = AggregationSentence"
    using aggregate_runes_ok [OF tok, of t "tb_aggregator b"] ty by (auto simp: Aggregate_simple_def)
  have inv: "turn_inv cf c (list_ex worth_speaking us) False (pre @ units_sent cf run c True n us) b" using go by (simp add: turn_going_def)
  have "turn_inv cf c (list_ex worth_speaking us) False (pre @ units_sent cf run c True n us) (b\<lparr>tb_aggregator := a\<rparr>)"
    using inv by (rule turn_inv_fields) (use inv in \<open>auto simp: turn_inv_def turn_context_ok_def\<close>)
  then have go1: "turn_going cf c (list_ex worth_speaking us) (n + length (filter worth_speaking us)) (pre @ units_sent cf run c True n us) (b\<lparr>tb_aggregator := a\<rparr>)"
    using go a(2) by (simp add: turn_going_def)
  obtain b' where b': "tts_push_units cf run vs (b\<lparr>tb_aggregator := a\<rparr>) = Inr b'" "tb_aggregator b' = a"
    "turn_going cf c (list_ex worth_speaking us \<or> list_ex worth_speaking vs) (n + length (filter worth_speaking us) + length (filter worth_speaking vs))
      ((pre @ units_sent cf run c True n us) @ units_sent cf run c (\<not> list_ex worth_speaking us) (n + length (filter worth_speaking us)) vs) b'"
    using turn_push_units [OF go1 svc, of vs] by auto
  have "tts_do cf (Arrive (InText t False) True False run) b = Inr b'" using a b' by (simp add: tts_aggregate_def)
  moreover have "turn_fed cf run c n pre (ts @ [t]) b'"
    unfolding turn_fed_def using us a b' by (intro exI [of _ "us @ vs"]) (simp add: feed_chunks_snoc units_sent_append add.assoc)
  ultimately show ?thesis by blast
qed

lemma fed_plays:
  assumes "turn_fed cf run c n pre ts b" and "\<not> cf_wordPath cf"
  shows "\<exists>b'. tts_run cf (map Play nows) b = Inr b' \<and> turn_fed cf run c n pre ts b'"
proof -
  obtain us where us: "feed_chunks (Aggregate_simple (cf_tokenizer cf)) ts (NewSimpleAggregator AggregationSentence) = Inr (tb_aggregator b, us)"
    and go: "turn_going cf c (list_ex worth_speaking us) (n + length (filter worth_speaking us)) (pre @ units_sent cf run c True n us) b"
    using assms(1) by (auto simp: turn_fed_def)
  from going_plays [OF go assms(2), of nows] us show ?thesis by (auto simp: turn_fed_def)
qed

lemma fed_texts:
  assumes "turn_fed cf run c n pre ts b" and svc: "whole_unit_service cf run"
    and "filter not_play xs = map (\<lambda>t. Arrive (InText t False) True False run) us @ rest"
  shows "\<exists>b' ys. tts_run cf xs b = tts_run cf ys b' \<and> filter not_play ys = rest \<and> turn_fed cf run c n pre (ts @ us) b'"
  using assms(1,3)
proof (induction us arbitrary: ts b xs)
  case Nil
  then show ?case by (intro exI [of _ b] exI [of _ xs]) simp
next
  case (Cons u us)
  have nw: "\<not> cf_wordPath cf" using svc by (simp add: whole_unit_service_def)
  have "filter not_play xs = Arrive (InText u False) True False run # (map (\<lambda>t. Arrive (InText t False) True False run) us @ rest)"
    using Cons.prems(2) by simp
  then obtain nows vs where xs: "xs = map Play nows @ Arrive (InText u False) True False run # vs"
    "filter not_play vs = map (\<lambda>t. Arrive (InText t False) True False run) us @ rest" by (rule first_arrival)
  obtain b1 where b1: "tts_run cf (map Play nows) b = Inr b1" "turn_fed cf run c n pre ts b1"
    using fed_plays [OF Cons.prems(1) nw] by blast
  obtain b2 where b2: "tts_do cf (Arrive (InText u False) True False run) b1 = Inr b2" "turn_fed cf run c n pre (ts @ [u]) b2"
    using fed_text [OF b1(2) svc] by blast
  obtain b' ys where ys: "tts_run cf vs b2 = tts_run cf ys b'" "filter not_play ys = rest"
      "turn_fed cf run c n pre ((ts @ [u]) @ us) b'" using Cons.IH [OF b2(2) xs(2)] by blast
  have "tts_run cf xs b = tts_run cf ys b'" using xs(1) b1(1) b2(1) ys(1) by (simp add: tts_run_append)
  then show ?case using ys(2,3) by auto
qed

lemma blank_not_worth: "TrimSpace (agg_Text u) = [] \<Longrightarrow> \<not> worth_speaking u"
proof -
  assume "TrimSpace (agg_Text u) = []"
  then have "filter (\<lambda>ch. \<not> IsSpace ch) (agg_Text u) = []" using filter_trim_by [of IsSpace "agg_Text u"] by (simp add: TrimSpace_def)
  then have "\<forall>ch \<in> set (agg_Text u). IsSpace ch" by (simp add: filter_empty_conv)
  then have "\<forall>ch \<in> set (dropWhile (\<lambda>ch. ch = CHR 0x0A) (agg_Text u)). IsSpace ch" by (meson set_dropWhileD)
  then have "dropWhile IsSpace (dropWhile (\<lambda>ch. ch = CHR 0x0A) (agg_Text u)) = []" by simp
  then have "TrimSpace (dropWhile (\<lambda>ch. ch = CHR 0x0A) (agg_Text u)) = []" by (simp only: TrimSpace_def trim_by_def) simp
  then show ?thesis by (simp add: worth_speaking_def)
qed

lemma going_flush:
  assumes go: "turn_going cf c opened n sent b" and svc: "whole_unit_service cf run"
    and "us = (case snd (Flush_simple (tb_aggregator b)) of None \<Rightarrow> [] | Some u \<Rightarrow> [u])"
  shows "\<exists>b'. tts_flush cf run b = Inr b' \<and> turn_going cf c (opened \<or> list_ex worth_speaking us) (n + length (filter worth_speaking us))
    (sent @ units_sent cf run c (\<not> opened) n us) b'"
proof -
  obtain a r where ar: "Flush_simple (tb_aggregator b) = (a, r)" by fastforce
  have ty: "aggregationType a = AggregationSentence"
    using go ar by (auto simp: turn_going_def Flush_simple_def Reset_simple_def split: if_splits)
  have inv: "turn_inv cf c opened False sent b" using go by (simp add: turn_going_def)
  have "turn_inv cf c opened False sent (b\<lparr>tb_aggregator := a\<rparr>)"
    using inv by (rule turn_inv_fields) (use inv in \<open>auto simp: turn_inv_def turn_context_ok_def\<close>)
  then have go1: "turn_going cf c opened n sent (b\<lparr>tb_aggregator := a\<rparr>)" using go ty by (simp add: turn_going_def)
  show ?thesis
  proof (cases r)
    case None
    with ar go1 assms(3) show ?thesis by (simp add: tts_flush_def)
  next
    case (Some u)
    have us: "us = [u]" using assms(3) ar Some by simp
    show ?thesis
    proof (cases "TrimSpace (agg_Text u) = []")
      case True
      with Some ar go1 us blank_not_worth [OF True] show ?thesis by (simp add: tts_flush_def)
    next
      case False
      then have "tts_flush cf run b = tts_push_units cf run us (b\<lparr>tb_aggregator := a\<rparr>)"
        using Some ar us by (cases "pushTTSFrames cf run u True False (b\<lparr>tb_aggregator := a\<rparr>)") (simp_all add: tts_flush_def)
      with turn_push_units [OF go1 svc, of us] show ?thesis by auto
    qed
  qed
qed

lemma available_log: "AudioContextAvailable c (log_event e b) = AudioContextAvailable c b"
  by (simp add: AudioContextAvailable_def audioContextFor_def)

text \<open>Closing the context of a turn that spoke queues its stop and its end.\<close>

lemma turn_close:
  assumes inv: "turn_inv cf c opened False sent b" and "tb_turnContext b = c" and "opened \<longrightarrow> tb_yieldsSync b"
  shows "turn_inv cf c opened True (sent @ (if opened then sent_for cf (TStopped c) else [])) (onTurnContextCompleted False b)"
    and "tb_turnContext (onTurnContextCompleted False b) = []"
proof -
  have c: "c \<noteq> []" and ok: "turn_context_ok c b" using inv by (simp_all add: turn_inv_def)
  define b0 where "b0 = b\<lparr>tb_turnContext := []\<rparr>"
  have i0: "turn_inv cf c opened False sent b0" using inv by (rule turn_inv_fields) (use ok in \<open>simp_all add: b0_def turn_context_ok_def\<close>)
  have "turn_inv cf c opened True (sent @ (if opened then sent_for cf (TStopped c) else [])) (onTurnContextCompleted False b) \<and>
      tb_turnContext (onTurnContextCompleted False b) = []"
  proof (cases opened)
    case False
    then have "onTurnContextCompleted False b = b0"
      using assms(2) c turn_available [OF i0] by (simp add: onTurnContextCompleted_def b0_def Let_def)
    moreover obtain fs where "resting fs b0" "list_all never_stopped fs" "downs b0 @ fs = sent"
      using i0 False by (auto simp: turn_inv_def)
    ultimately show ?thesis using False c i0
      by (auto simp: b0_def turn_inv_def)
  next
    case True
    obtain ac where ac: "tb_contexts b0 = [(c, ac)]" using turn_inv_contexts [OF i0] True by auto
    define f :: "audioContext \<Rightarrow> audioContext" where "f = (\<lambda>ac. push_item CEnd (push_item (CFrame (TStopped c)) ac))"
    define b1 where "b1 = on_context c f b0"
    have b1: "RemoveAudioContext c (AppendToAudioContext c (TStopped c) b0) = b1"
      using ac c by (simp add: RemoveAudioContext_def AppendToAudioContext_def on_open b1_def f_def)
    have "turn_items c True [CFrame (TStopped c), CEnd]" by (simp add: turn_items_def)
    moreover have "turn_inv cf c True False sent b0" using i0 True by simp
    ultimately have "turn_inv cf c True True (sent @ sent_for_items cf [CFrame (TStopped c), CEnd]) (on_context c f b0)"
      by (intro turn_append(1)) (simp_all add: f_def push_item_def)
    then
    have i1: "turn_inv cf c True True (sent @ sent_for cf (TStopped c)) b1" by (simp add: b1_def sent_for_items_def)
    have av: "AudioContextAvailable c b1" using ac c by (simp add: b1_def on_open AudioContextAvailable_def audioContextFor_def)
    have "onTurnContextCompleted False b = log_event (TurnContextCompleted c) (log_event (FlushAudio c) b1)"
      using assms(2,3) True c turn_available [OF i0] b1 av
      by (simp add: onTurnContextCompleted_def b0_def [symmetric] Let_def available_log) (simp add: b0_def)
    moreover have "turn_inv cf c True True (sent @ sent_for cf (TStopped c)) (log_event (TurnContextCompleted c) (log_event (FlushAudio c) b1))"
      using i1 by (rule turn_inv_fields) (use i1 in \<open>simp_all add: turn_inv_def turn_context_ok_def\<close>)
    moreover have "tb_turnContext b1 = []" using ac c by (simp add: b1_def on_open) (simp add: b0_def)
    ultimately show ?thesis using True by simp
  qed
  then show "turn_inv cf c opened True (sent @ (if opened then sent_for cf (TStopped c) else [])) (onTurnContextCompleted False b)"
    "tb_turnContext (onTurnContextCompleted False b) = []" by blast+
qed

lemma pause_only_logs:
  "\<exists>es. maybePauseFrameProcessing cf b = b\<lparr>tb_log := tb_log b @ es\<rparr> \<and> downs (maybePauseFrameProcessing cf b) = downs b"
proof (cases "maybePauseFrameProcessing cf b = b")
  case True
  then show ?thesis by (intro exI [of _ "[]"]) simp
next
  case False
  then have "maybePauseFrameProcessing cf b = log_event PauseProcessing b" by (simp add: maybePauseFrameProcessing_def split: if_splits)
  then show ?thesis by (intro exI [of _ "[PauseProcessing]"]) (simp add: log_event_def downs_def)
qed

lemma going_end:
  assumes go: "turn_going cf c opened n sent b" and svc: "whole_unit_service cf run"
    and us: "us = (case snd (Flush_simple (tb_aggregator b)) of None \<Rightarrow> [] | Some u \<Rightarrow> [u])"
    and spoke: "spoke \<longleftrightarrow> opened \<or> list_ex worth_speaking us"
  shows "\<exists>b'. tts_do cf (Arrive (InResponseEnd j False) True False run) b = Inr b' \<and>
    turn_inv cf c spoke True (sent @ units_sent cf run c (\<not> opened) n us @ (if spoke then sent_for cf (TStopped c) else []) @
      [TIn (InResponseEnd j False)]) b'"
proof -
  obtain b1 where b1: "tts_flush cf run b = Inr b1"
    "turn_going cf c spoke (n + length (filter worth_speaking us)) (sent @ units_sent cf run c (\<not> opened) n us) b1"
    using going_flush [OF go svc us] spoke by auto
  define b2 where "b2 = (maybePauseFrameProcessing cf b1)\<lparr>tb_processingText := False, tb_sentNonWhitespace := False\<rparr>"
  obtain es where es: "maybePauseFrameProcessing cf b1 = b1\<lparr>tb_log := tb_log b1 @ es\<rparr>" "downs (maybePauseFrameProcessing cf b1) = downs b1"
    using pause_only_logs by blast
  have inv1: "turn_inv cf c spoke False (sent @ units_sent cf run c (\<not> opened) n us) b1" using b1(2) by (simp add: turn_going_def)
  have dn: "downs b2 = downs b1" using es(2) by (simp add: b2_def)
  have inv2: "turn_inv cf c spoke False (sent @ units_sent cf run c (\<not> opened) n us) b2"
    using inv1 by (rule turn_inv_fields) (use inv1 es(1) dn in \<open>auto simp: b2_def turn_inv_def turn_context_ok_def\<close>)
  have tc: "tb_turnContext b2 = c" "spoke \<longrightarrow> tb_yieldsSync b2" using b1(2) es(1) by (auto simp: b2_def turn_going_def)
  define b3 where "b3 = onTurnContextCompleted False b2"
  note i3 = turn_close(1) [OF inv2 tc, folded b3_def]
  have "turn_inv cf c spoke True (sent @ units_sent cf run c (\<not> opened) n us @ (if spoke then sent_for cf (TStopped c) else []) @ [TIn (InResponseEnd j False)])
      (queueSerial cf True (TIn (InResponseEnd j False)) b3)"
    using turn_queue(1) [OF i3, of "TIn (InResponseEnd j False)"] by (simp add: never_stopped_def)
  moreover have "tts_do cf (Arrive (InResponseEnd j False) True False run) b = Inr (queueSerial cf True (TIn (InResponseEnd j False)) b3)"
    using b1(1) svc by (simp add: handle_response_end_def b2_def [symmetric] b3_def [symmetric] Let_def whole_unit_service_def)
  ultimately show ?thesis by blast
qed

text \<open>A service between turns: nothing queued, nothing gathered, nothing waiting to be spoken.\<close>

definition between_turns :: "tts_base \<Rightarrow> bool" where
  "between_turns b \<longleftrightarrow> resting [] b \<and> tb_turnContext b = [] \<and> tb_aggregator b = NewSimpleAggregator AggregationSentence \<and> tb_usable b \<and>
    sq_slots (tb_sequencer b) = [] \<and> \<not> sq_streamingMode (tb_sequencer b) \<and> tb_ttsContexts b (fresh_context (tb_nextContext b)) = None"

lemma between_plays: "between_turns b \<Longrightarrow> tts_run cf (map Play nows) b = Inr b"
  by (induction nows) (auto simp: between_turns_def resting_def play_step_def)

lemma turn_starts:
  assumes "between_turns b" and "c = fresh_context (tb_nextContext b)"
  shows "\<exists>b'. tts_do cf (Arrive (InResponseStart i False) True False run) b = Inr b' \<and>
    turn_fed cf run c (tb_nextID b) (downs b @ [TIn (InResponseStart i False)]) [] b'"
proof -
  define b1 where "b1 = log_event (TurnContextCreated c) (b\<lparr>tb_responding := True, tb_nextContext := Suc (tb_nextContext b), tb_turnContext := c\<rparr>)"
  have c: "c \<noteq> []" using assms(2) by (simp add: fresh_context_def)
  have "turn_context_ok c b1" using assms by (simp add: turn_context_ok_def between_turns_def b1_def)
  moreover have "resting [] b1" using assms(1) by (simp add: resting_def between_turns_def b1_def)
  moreover have "downs b1 = downs b" by (simp add: b1_def)
  ultimately have i1: "turn_inv cf c False False (downs b) b1" using c by (intro turn_inv_restingI [of c b1 "[]"]) simp_all
  define b2 where "b2 = queueSerial cf True (TIn (InResponseStart i False)) b1"
  note i2 = turn_queue [OF i1, of "TIn (InResponseStart i False)", folded b2_def]
  have go: "turn_going cf c False (tb_nextID b) (downs b @ [TIn (InResponseStart i False)]) b2"
    using i2 assms(1) by (simp add: turn_going_def never_stopped_def same_turn_def b1_def between_turns_def NewSimpleAggregator_def)
  have "tb_aggregator b2 = NewSimpleAggregator AggregationSentence"
    using i2(2) assms(1) by (simp add: never_stopped_def same_turn_def b1_def between_turns_def)
  with go have "turn_fed cf run c (tb_nextID b) (downs b @ [TIn (InResponseStart i False)]) [] b2" by (simp add: turn_fed_def)
  moreover have "tts_do cf (Arrive (InResponseStart i False) True False run) b = Inr b2"
    using assms by (simp add: handle_response_start_def createContextID_def between_turns_def b2_def b1_def log_event_def)
  ultimately show ?thesis by blast
qed

lemma turn_units_fed:
  assumes "feed_chunks (Aggregate_simple tok) ts (NewSimpleAggregator AggregationSentence) = Inr (a, us)" and "\<forall>s. tok s \<le> length s"
  shows "turn_units tok (concat ts) = us @ (case snd (Flush_simple a) of None \<Rightarrow> [] | Some u \<Rightarrow> [u])"
proof -
  have t: "aggregationType (NewSimpleAggregator AggregationSentence) = AggregationSentence" by (simp add: NewSimpleAggregator_def)
  have "Aggregate_simple tok (concat ts) (NewSimpleAggregator AggregationSentence) = Inr (a, us)"
    using assms(1) feed_simple [OF assms(2) t, of ts] feed_runes [of tok ts] t by (simp add: Aggregate_simple_def)
  then show ?thesis by (simp add: turn_units_def)
qed

lemma turn_done:
  assumes "turn_inv cf c opened True sent b" and "play_work b = 0"
  shows "resting [] b \<and> downs b = sent"
proof -
  have "\<not> waiting_turn c fs items gs b" for fs items gs using play_work_forms(2) [of c fs items gs b] assms(2) by auto
  moreover have "\<not> playing_turn c owes items gs b" if "turn_items c True items \<or> items = [CEnd]" for owes items gs
    using play_work_forms(3) [of c owes items gs b] assms(2) that by (auto simp: turn_items_def)
  ultimately obtain fs where fs: "resting fs b" "downs b @ fs = sent" using assms(1) unfolding turn_inv_def by blast
  moreover have "fs = []" using play_work_forms(1) [OF fs(1)] assms(2) by simp
  ultimately show ?thesis by simp
qed


definition short_response :: "tts_step list" where
  "short_response = [Play 1, arrives (InResponseStart 1 False), Play 2, arrives (InText ''Hi. '' False), Play 3, Play 4,
    arrives (InText ''Yo.'' False), arrives (InResponseEnd 2 False), Play 5]"

lemma short_response_units:
  "turn_units (past_period 0) ''Hi. Yo.'' = [\<lparr>agg_Text = ''Hi.'', agg_Type = AggregationSentence\<rparr>, \<lparr>agg_Text = ''Yo.'', agg_Type = AggregationSentence\<rparr>]"
  "list_ex worth_speaking (turn_units (past_period 0) ''Hi. Yo.'')"
  by code_simp+


section \<open>A service that stays silent\<close>

lemma outcome_unusable: "\<not> tb_usable b \<Longrightarrow> \<not> tb_usable (recordContextAudioOutcome cf c audio b)"
  by (simp add: recordContextAudioOutcome_def maybeResumeFrameProcessing_def Let_def)

lemma outcomes_unusable: "\<not> tb_usable b \<Longrightarrow> \<not> tb_usable (fold (recordContextAudioOutcome cf c) os b)"
  by (induction os arbitrary: b) (simp_all add: outcome_unusable)

lemma outcome_usable:
  assumes "tb_usable b" and "0 < cf_zeroAudioLimit cf"
  shows "tb_usable (recordContextAudioOutcome cf c audio b) \<longleftrightarrow> audio \<or> Suc (tb_zeroRun b) < cf_zeroAudioLimit cf"
    and "tb_zeroRun (recordContextAudioOutcome cf c audio b) = (if audio then 0 else Suc (tb_zeroRun b))"
  using assms by (auto simp: recordContextAudioOutcome_def maybeResumeFrameProcessing_def Let_def)

lemma silence_before_audio:
  assumes "r < n"
  shows "sublist (replicate n False) (replicate r False @ True # os) \<longleftrightarrow> sublist (replicate n False) os"
proof
  assume "sublist (replicate n False) (replicate r False @ True # os)"
  then consider "sublist (replicate n False) (replicate r False)" | "sublist (replicate n False) (True # os)"
    | x y where "replicate n False = x @ y" "suffix x (replicate r False)" "prefix y (True # os)"
    unfolding sublist_append by blast
  then show "sublist (replicate n False) os"
  proof cases
    case 1
    then show ?thesis using assms sublist_length_le [of "replicate n False" "replicate r False"] by simp
  next
    case 2
    then show ?thesis using assms by (cases n) (auto simp: sublist_Cons_right prefix_Cons)
  next
    case 3
    then have "length x \<le> r" using suffix_length_le [of x "replicate r False"] by simp
    then have "y \<noteq> []" using assms arg_cong [OF 3(1), of length] by auto
    then have "hd y = True" "hd y \<in> set (x @ y)" using 3(3) by (auto simp: prefix_Cons)
    then show ?thesis using arg_cong [OF 3(1), of set] assms by auto
  qed
next
  assume "sublist (replicate n False) os"
  then show "sublist (replicate n False) (replicate r False @ True # os)" by (auto simp: sublist_append sublist_Cons_right)
qed

text \<open>
  A service is written off exactly when, since it was last made usable, as many contexts in a row as the limit have
  ended without audio.
\<close>

lemma silent_service_written_off:
  assumes "tb_usable b" and "0 < cf_zeroAudioLimit cf" and "tb_zeroRun b < cf_zeroAudioLimit cf"
  shows "tb_usable (fold (recordContextAudioOutcome cf c) os b) \<longleftrightarrow>
    \<not> sublist (replicate (cf_zeroAudioLimit cf) False) (replicate (tb_zeroRun b) False @ os)"
  using assms(1,3)
proof (induction os arbitrary: b)
  case Nil
  then show ?case using sublist_length_le [of "replicate (cf_zeroAudioLimit cf) False" "replicate (tb_zeroRun b) False"] by auto
next
  case (Cons x os)
  define b' where "b' = recordContextAudioOutcome cf c x b"
  note u = outcome_usable [OF Cons.prems(1) assms(2), of c x, folded b'_def]
  show ?case
  proof (cases "tb_usable b'")
    case True
    then have "tb_zeroRun b' < cf_zeroAudioLimit cf" using u assms(2) by (cases x) auto
    from Cons.IH [OF True this] u(2) silence_before_audio [OF Cons.prems(2), of os] show ?thesis
      by (cases x) (simp_all add: b'_def replicate_app_Cons_same)
  next
    case False
    then have "\<not> x" "cf_zeroAudioLimit cf = Suc (tb_zeroRun b)" using u(1) Cons.prems(2) by auto
    then have "sublist (replicate (cf_zeroAudioLimit cf) False) (replicate (tb_zeroRun b) False @ x # os)"
      by (simp add: replicate_app_Cons_same)
    with outcomes_unusable [OF False] show ?thesis by (simp add: b'_def [symmetric])
  qed
qed

end
