(* ===== verification/Flow_Manager.thy ===== *)
theory Flow_Manager
  imports Goroutines Llm_Context
begin

text \<open>
  Flows, \<^verbatim>\<open>src/flows/\<close>: a conversation led through a graph of nodes. Entering a node runs its pre-actions, queues the
  persona, the objective and the toolset, asks for a response and runs the post-actions; a node function the model
  calls may name the next node, which is entered once the calls of the turn have all reported.

  A call of the manager is a list of actions in the sense of \<open>Goroutines\<close>: each is what runs under one lock, puts one
  frame into the pipeline, or waits. A wait that may not go on yet is an action followed by itself. The goroutine that
  hands the frames reaching the end of the pipeline to the manager, one at a time (\<^verbatim>\<open>utils/events\<close>), is \<open>ADispatch\<close>.

  The pipeline keeps the order of what is queued and loses interruptible frames at an interruption; of the assistant
  aggregator the calls in progress are kept and the results on their way to it. What the application's handlers
  answer, the schema text of a function, the model's summary and the generated names are the environment. A handler
  may queue frames, change the flow's data and move the flow.
\<close>

section \<open>Errors (errors.go)\<close>

datatype flow_kind = ErrFlow | ErrFlowInitialization | ErrFlowTransition | ErrInvalidFunction | ErrAction

text \<open>What the message of an error says, not its wording.\<close>

datatype flow_msg =
    MsgNone | NilNode | NotInitialized | NoTaskMessages string | NoFunctionName | NoFunctionHandler string
  | NoSchema string | NoActionType | NotRegistered string | NilHandler string | ActionFailed string string
  | SetNodeFailed string | NoEnqueuer | NoSummaryPrompt | NoAggregators

datatype flow_error = FlowErr (fe_kind: flow_kind) flow_msg "flow_error option"

definition errf :: "flow_kind \<Rightarrow> flow_msg \<Rightarrow> flow_error" where
  "errf k m = FlowErr k m None"

definition wrapErr :: "flow_kind \<Rightarrow> flow_error \<Rightarrow> flow_error" where
  "wrapErr k cause = FlowErr k MsgNone (Some cause)"

text \<open>\<open>errors.Is\<close>: the error itself, as its kind or as a flow error, and then what it wraps.\<close>

fun errors_Is :: "flow_error \<Rightarrow> flow_kind \<Rightarrow> bool" where
  "errors_Is (FlowErr k m cause) target =
    (target = k \<or> target = ErrFlow \<or> (case cause of None \<Rightarrow> False | Some e \<Rightarrow> errors_Is e target))"

section \<open>Nodes, functions and actions (types.go)\<close>

record ActionConfig =
  ac_Type :: string
  ac_Handler :: "opaque option"
  ac_Text :: string
  ac_AppendTextToContext :: "bool option"
  ac_Params :: opaque

definition appendTextToContext :: "ActionConfig \<Rightarrow> bool" where
  "appendTextToContext a = (case ac_AppendTextToContext a of None \<Rightarrow> True | Some b \<Rightarrow> b)"

abbreviation ContextStrategyAppend :: string where
  "ContextStrategyAppend \<equiv> ''append''"

abbreviation ContextStrategyReset :: string where
  "ContextStrategyReset \<equiv> ''reset''"

abbreviation ContextStrategyResetWithSummary :: string where
  "ContextStrategyResetWithSummary \<equiv> ''reset_with_summary''"

record ContextStrategyConfig =
  cs_Strategy :: string
  cs_SummaryPrompt :: string

definition validate_strategy :: "ContextStrategyConfig \<Rightarrow> flow_error option" where
  "validate_strategy c =
    (if cs_Strategy c = ContextStrategyResetWithSummary \<and> cs_SummaryPrompt c = [] then Some (errf ErrFlow NoSummaryPrompt) else None)"

text \<open>The properties and the required arguments of a function are one opaque value.\<close>

record NodeFunction =
  nf_Name :: string
  nf_Description :: string
  nf_Schema :: opaque
  nf_Handler :: "opaque option"
  nf_CancelOnInterruption :: "bool option"
  nf_TimeoutSecs :: "opaque option"

definition cancelOnInterruption :: "NodeFunction \<Rightarrow> bool" where
  "cancelOnInterruption f = (case nf_CancelOnInterruption f of None \<Rightarrow> False | Some b \<Rightarrow> b)"

record NodeConfig =
  nc_Name :: string
  nc_RoleMessage :: string
  nc_TaskMessages :: "Message list option"
  nc_Functions :: "NodeFunction list"
  nc_PreActions :: "ActionConfig list"
  nc_PostActions :: "ActionConfig list"
  nc_ContextStrategy :: "ContextStrategyConfig option"
  nc_RespondImmediately :: "bool option"

definition respondsImmediately :: "NodeConfig \<Rightarrow> bool" where
  "respondsImmediately n = (case nc_RespondImmediately n of None \<Rightarrow> True | Some b \<Rightarrow> b)"

definition validateFunction :: "NodeFunction \<Rightarrow> flow_error option" where
  "validateFunction fn =
    (if nf_Name fn = [] then Some (errf ErrInvalidFunction NoFunctionName)
     else if nf_Handler fn = None then Some (errf ErrInvalidFunction (NoFunctionHandler (nf_Name fn)))
     else None)"

fun validateFunctions :: "NodeFunction list \<Rightarrow> flow_error option" where
  "validateFunctions [] = None"
| "validateFunctions (fn # fns) = (case validateFunction fn of Some e \<Rightarrow> Some e | None \<Rightarrow> validateFunctions fns)"

definition validateNode :: "string \<Rightarrow> NodeConfig \<Rightarrow> flow_error option" where
  "validateNode i n =
    (if nc_TaskMessages n = None then Some (errf ErrFlow (NoTaskMessages i)) else validateFunctions (nc_Functions n))"

section \<open>What a flow puts into the pipeline\<close>

record FlowTool =
  ft_Name :: string
  ft_Description :: string
  ft_Parameters :: string
  ft_Handler :: NodeFunction
  ft_CancelOnInterruption :: bool
  ft_TimeoutSecs :: "opaque option"

datatype flow_frame =
    FSpeak string bool
  | FActionFinished
  | FFunctionAction ActionConfig opaque
  | FEnd
  | FRun
  | FPersona string
  | FMessagesUpdate "Message list"
  | FMessagesAppend "Message list"
  | FSetTools "FlowTool list"
  | FBotStopped
  | FApp opaque

text \<open>The frames an interruption leaves: the end of the pipeline and a settings update.\<close>

fun outlives :: "flow_frame \<Rightarrow> bool" where
  "outlives FEnd = True"
| "outlives (FPersona r) = True"
| "outlives _ = False"

text \<open>The frames the manager asks to hear of (\<open>newActionManager\<close>).\<close>

fun heard_of :: "flow_frame \<Rightarrow> bool" where
  "heard_of FActionFinished = True"
| "heard_of (FFunctionAction a h) = True"
| "heard_of FBotStopped = True"
| "heard_of _ = False"

section \<open>State\<close>

datatype action_impl = ImplTTSSay | ImplEndConversation | ImplFunction | ImplApp opaque

datatype flow_caller = ByInitialize | BySetNode | ByTransition

datatype call_result = ResultText string | ResultError string

record result_props =
  rp_RunLLM :: "bool option"
  rp_OnContextUpdated :: bool

datatype flow_event =
    Queued flow_frame
  | ReachedEnd flow_frame
  | Returned flow_caller string "flow_error option"
  | Asked NodeConfig string
  | Transitioning NodeConfig string
  | Reported string call_result result_props
  | Failed flow_error

record flow_mgr =
  fm_initialized :: bool
  fm_current :: string
  fm_currentFns :: "string list"
  fm_pending :: "(NodeConfig \<times> string) option"
  fm_state :: "string \<Rightarrow> opaque option"
  fm_names :: "string \<Rightarrow> action_impl option"
  fm_ongoing :: nat
  fm_deferred :: "ActionConfig list"
  fm_nextName :: nat
  fm_pipe :: "flow_frame list"
  fm_arrived :: "flow_frame list"
  fm_calls :: "string list"
  fm_results :: "(string \<times> result_props) list"
  fm_messages :: "Message list"
  fm_log :: "flow_event list"

text \<open>\<open>fc_hasContext\<close>: aggregators were given; \<open>fc_hasLLM\<close>: a model for summaries was.\<close>

record flow_config =
  fc_strategy :: "ContextStrategyConfig option"
  fc_globals :: "NodeFunction list"
  fc_hasContext :: bool
  fc_hasLLM :: bool

text \<open>What a handler of the application did: the frames it queued, the flow's data, where it moved the flow, its error.\<close>

record action_answer =
  aa_frames :: "opaque list"
  aa_state :: "string \<Rightarrow> opaque option"
  aa_move :: "NodeConfig option"
  aa_error :: "string option"

datatype next_node = NoResponse | NextNil | Next NodeConfig

record function_answer =
  fa_result :: string
  fa_next :: next_node
  fa_state :: "string \<Rightarrow> opaque option"
  fa_error :: "string option"

record flow_env =
  fe_action :: "opaque \<Rightarrow> ActionConfig \<Rightarrow> (string \<Rightarrow> opaque option) \<Rightarrow> action_answer"
  fe_function :: "opaque \<Rightarrow> string \<Rightarrow> (string \<Rightarrow> opaque option) \<Rightarrow> function_answer"
  fe_parameters :: "NodeFunction \<Rightarrow> string option"
  fe_name :: "nat \<Rightarrow> string"
  fe_infer :: "string \<Rightarrow> string \<Rightarrow> string option"

abbreviation actionTTSSay :: string where
  "actionTTSSay \<equiv> ''tts_say''"

abbreviation actionEndConversation :: string where
  "actionEndConversation \<equiv> ''end_conversation''"

abbreviation actionFunction :: string where
  "actionFunction \<equiv> ''function''"

definition builtin_actions :: "string \<Rightarrow> action_impl option" where
  "builtin_actions =
    [actionTTSSay \<mapsto> ImplTTSSay, actionEndConversation \<mapsto> ImplEndConversation, actionFunction \<mapsto> ImplFunction]"

definition new_flow :: "Message list \<Rightarrow> flow_mgr" where
  "new_flow ms =
    \<lparr>fm_initialized = False, fm_current = [], fm_currentFns = [], fm_pending = None, fm_state = Map.empty,
     fm_names = builtin_actions, fm_ongoing = 0, fm_deferred = [], fm_nextName = 0, fm_pipe = [], fm_arrived = [],
     fm_calls = [], fm_results = [], fm_messages = ms, fm_log = []\<rparr>"

text \<open>\<open>New\<close>: without an enqueuer, with a strategy or a global function that cannot be used, nothing is built.\<close>

definition flows_New :: "bool \<Rightarrow> flow_config \<Rightarrow> Message list \<Rightarrow> flow_error + flow_mgr" where
  "flows_New hasEnqueuer cfg ms =
    (if \<not> hasEnqueuer then Inl (errf ErrFlow NoEnqueuer)
     else case (case fc_strategy cfg of None \<Rightarrow> None | Some c \<Rightarrow> validate_strategy c) of
       Some e \<Rightarrow> Inl e
     | None \<Rightarrow> (case validateFunctions (fc_globals cfg) of Some e \<Rightarrow> Inl e | None \<Rightarrow> Inr (new_flow ms)))"

definition fnote :: "flow_event \<Rightarrow> flow_mgr \<Rightarrow> flow_mgr" where
  "fnote e s = s\<lparr>fm_log := fm_log s @ [e]\<rparr>"

definition CurrentNode :: "flow_mgr \<Rightarrow> string" where
  "CurrentNode s = fm_current s"

definition CurrentContext :: "flow_config \<Rightarrow> flow_mgr \<Rightarrow> flow_error + Message list" where
  "CurrentContext cfg s = (if fc_hasContext cfg then Inr (fm_messages s) else Inl (errf ErrFlow NoAggregators))"

definition State_Get :: "string \<Rightarrow> flow_mgr \<Rightarrow> opaque option" where
  "State_Get k s = fm_state s k"

definition State_Set :: "string \<Rightarrow> opaque \<Rightarrow> flow_mgr \<Rightarrow> flow_mgr" where
  "State_Set k v s = s\<lparr>fm_state := (fm_state s)(k \<mapsto> v)\<rparr>"

definition State_Delete :: "string \<Rightarrow> flow_mgr \<Rightarrow> flow_mgr" where
  "State_Delete k s = s\<lparr>fm_state := (fm_state s)(k := None)\<rparr>"

text \<open>\<open>register\<close> and \<open>RegisterAction\<close>.\<close>

definition register_action :: "string \<Rightarrow> opaque option \<Rightarrow> flow_mgr \<Rightarrow> flow_mgr \<times> flow_error option" where
  "register_action t h s =
    (case h of
       None \<Rightarrow> (s, Some (errf ErrAction (NilHandler t)))
     | Some f \<Rightarrow> (s\<lparr>fm_names := (fm_names s)(t \<mapsto> ImplApp f)\<rparr>, None))"

definition registerFromConfig :: "ActionConfig \<Rightarrow> flow_mgr \<Rightarrow> flow_mgr \<times> flow_error option" where
  "registerFromConfig a s =
    (if ac_Type a = [] then (s, Some (errf ErrAction NoActionType))
     else if fm_names s (ac_Type a) \<noteq> None then (s, None)
     else if ac_Handler a = None then (s, Some (errf ErrAction (NotRegistered (ac_Type a))))
     else register_action (ac_Type a) (ac_Handler a) s)"

section \<open>The frames of a node\<close>

text \<open>The name of a node; one without a name is given the next generated one.\<close>

definition nodeName :: "flow_env \<Rightarrow> NodeConfig \<Rightarrow> flow_mgr \<Rightarrow> flow_mgr \<times> string" where
  "nodeName env n s =
    (if nc_Name n \<noteq> [] then (s, nc_Name n) else (s\<lparr>fm_nextName := fm_nextName s + 1\<rparr>, fe_name env (fm_nextName s)))"

fun build_tools :: "flow_env \<Rightarrow> NodeFunction list \<Rightarrow> flow_error + FlowTool list" where
  "build_tools env [] = Inr []"
| "build_tools env (fn # fns) =
    (case validateFunction fn of
       Some e \<Rightarrow> Inl e
     | None \<Rightarrow>
         (case fe_parameters env fn of
            None \<Rightarrow> Inl (errf ErrInvalidFunction (NoSchema (nf_Name fn)))
          | Some ps \<Rightarrow>
              (case build_tools env fns of
                 Inl e \<Rightarrow> Inl e
               | Inr ts \<Rightarrow>
                   Inr (\<lparr>ft_Name = nf_Name fn, ft_Description = nf_Description fn, ft_Parameters = ps, ft_Handler = fn,
                         ft_CancelOnInterruption = cancelOnInterruption fn, ft_TimeoutSecs = nf_TimeoutSecs fn\<rparr> # ts))))"

definition nodeTools :: "flow_config \<Rightarrow> flow_env \<Rightarrow> NodeConfig \<Rightarrow> flow_error + FlowTool list" where
  "nodeTools cfg env n = build_tools env (fc_globals cfg @ nc_Functions n)"

definition summaryHeader :: string where
  "summaryHeader = ''Here's a summary of the conversation:''"

definition formatSummaryMessage :: "string \<Rightarrow> Message" where
  "formatSummaryMessage summary = text_message RoleDeveloper (summaryHeader @ [CHR 0x0A] @ summary)"

definition render_message :: "Message \<Rightarrow> string" where
  "render_message m =
    ''{'' @ [CHR 0x27] @ ''role'' @ [CHR 0x27] @ '': '' @ [CHR 0x27] @ mRole m @ [CHR 0x27] @ '', '' @
    [CHR 0x27] @ ''content'' @ [CHR 0x27] @ '': '' @ [CHR 0x27] @ mText m @ [CHR 0x27] @ ''}''"

definition renderMessages :: "Message list \<Rightarrow> string" where
  "renderMessages ms = Join [CHR 0x0A] (map render_message ms)"

text \<open>The model is asked once; no answer, an error or a timeout, is no summary.\<close>

definition generateSummary :: "flow_env \<Rightarrow> string \<Rightarrow> Message list \<Rightarrow> string" where
  "generateSummary env prompt ms =
    (case fe_infer env prompt (''Conversation history: '' @ renderMessages ms) of None \<Rightarrow> [] | Some t \<Rightarrow> t)"

definition summarize :: "flow_config \<Rightarrow> flow_env \<Rightarrow> string \<Rightarrow> flow_mgr \<Rightarrow> string" where
  "summarize cfg env prompt s =
    (if \<not> fc_hasLLM cfg \<or> \<not> fc_hasContext cfg then [] else generateSummary env prompt (fm_messages s))"

definition flow_strategy :: "flow_config \<Rightarrow> ContextStrategyConfig" where
  "flow_strategy cfg =
    (case fc_strategy cfg of None \<Rightarrow> \<lparr>cs_Strategy = ContextStrategyAppend, cs_SummaryPrompt = []\<rparr> | Some c \<Rightarrow> c)"

text \<open>\<open>updateContext\<close>: the persona, the objective as the strategy says, the toolset.\<close>

definition context_frames :: "flow_config \<Rightarrow> flow_env \<Rightarrow> NodeConfig \<Rightarrow> FlowTool list \<Rightarrow> flow_mgr \<Rightarrow> flow_frame list" where
  "context_frames cfg env n ts s =
    (let strategy = (case nc_ContextStrategy n of None \<Rightarrow> flow_strategy cfg | Some c \<Rightarrow> c);
         summary = (if cs_Strategy strategy = ContextStrategyResetWithSummary then summarize cfg env (cs_SummaryPrompt strategy) s else []);
         kind = (if cs_Strategy strategy = ContextStrategyResetWithSummary \<and> summary = [] then ContextStrategyAppend
                 else cs_Strategy strategy);
         ms = (if summary \<noteq> [] then [formatSummaryMessage summary] else []) @ (case nc_TaskMessages n of None \<Rightarrow> [] | Some tms \<Rightarrow> tms)
     in (if nc_RoleMessage n \<noteq> [] then [FPersona (nc_RoleMessage n)] else []) @
        [if kind = ContextStrategyReset \<or> kind = ContextStrategyResetWithSummary then FMessagesUpdate ms else FMessagesAppend ms,
         FSetTools ts])"

section \<open>The calls of the manager\<close>

text \<open>What follows a list of actions.\<close>

datatype flow_after =
    AfterPre flow_caller string NodeConfig
  | AfterPost flow_caller string
  | AfterDeferred

datatype flow_act =
    AInitialize "NodeConfig option"
  | ASetNode "NodeConfig option"
  | AEnter flow_caller string NodeConfig
  | AValidated flow_caller string NodeConfig
  | ARegister flow_caller string NodeConfig "ActionConfig list"
  | AExec "ActionConfig list" string flow_after
  | ABefore ActionConfig action_impl "ActionConfig list" string flow_after
  | AAct ActionConfig action_impl nat "ActionConfig list" string flow_after
  | AHandled ActionConfig nat "string option" "ActionConfig list" flow_after
  | ALast string flow_after
  | AContext flow_caller string NodeConfig
  | ACurrent flow_caller string NodeConfig "FlowTool list"
  | APost flow_caller string NodeConfig
  | AReturn flow_caller string "flow_error option"
  | AQueue flow_frame
  | ADispatch
  | AReached flow_frame
  | ARunDeferred
  | AFinish
  | ADeliver
  | ABotStopped
  | AInterrupt "nat list"
  | ACallStarted string
  | ACall string NodeFunction string
  | AAsk NodeConfig string
  | AReport string call_result result_props
  | AWritten
  | ACheck
  | AProgress
  | ATake

definition exec_done :: "flow_after \<Rightarrow> flow_error option \<Rightarrow> flow_mgr \<Rightarrow> flow_mgr \<times> flow_act list" where
  "exec_done k err s =
    (case k of
       AfterPre c i n \<Rightarrow> (s, case err of None \<Rightarrow> [AContext c i n] | Some e \<Rightarrow> [AReturn c i (Some e)])
     | AfterPost c i \<Rightarrow> (s, [AReturn c i err])
     | AfterDeferred \<Rightarrow> (case err of None \<Rightarrow> s | Some e \<Rightarrow> fnote (Failed e) s, []))"

text \<open>\<open>waitForOngoing\<close>: whether going on from one action to the next has to wait for what was started.\<close>

definition waits :: "string \<Rightarrow> string \<Rightarrow> bool" where
  "waits previous upcoming =
    (if previous = actionTTSSay then upcoming \<notin> {actionTTSSay, actionEndConversation, actionFunction}
     else previous = actionFunction)"

definition finishAction :: "flow_mgr \<Rightarrow> flow_mgr" where
  "finishAction s = s\<lparr>fm_ongoing := fm_ongoing s - 1\<rparr>"

definition startAction :: "flow_mgr \<Rightarrow> flow_mgr" where
  "startAction s = s\<lparr>fm_ongoing := fm_ongoing s + 1\<rparr>"

text \<open>A handler of the application, with what it queues and where it moves the flow.\<close>

definition app_handler :: "flow_env \<Rightarrow> opaque \<Rightarrow> ActionConfig \<Rightarrow> flow_mgr \<Rightarrow> flow_mgr \<times> flow_act list \<times> string option" where
  "app_handler env h a s =
    (let r = fe_action env h a (fm_state s)
     in (s\<lparr>fm_state := aa_state r\<rparr>,
         map (\<lambda>f. AQueue (FApp f)) (aa_frames r) @ (case aa_move r of None \<Rightarrow> [] | Some n \<Rightarrow> [ASetNode (Some n)]),
         aa_error r))"

definition speech :: "ActionConfig \<Rightarrow> flow_frame" where
  "speech a = FSpeak (ac_Text a) (appendTextToContext a)"

text \<open>\<open>handleTTSSay\<close>, \<open>handleEndConversation\<close> and \<open>handleFunction\<close>, or what was registered.\<close>

definition run_action :: "flow_env \<Rightarrow> action_impl \<Rightarrow> ActionConfig \<Rightarrow> flow_mgr \<Rightarrow> flow_mgr \<times> flow_act list \<times> string option" where
  "run_action env h a s =
    (case h of
       ImplTTSSay \<Rightarrow>
         if ac_Text a = [] then (s, [], None)
         else (startAction s, [AQueue (speech a), AQueue FActionFinished], None)
     | ImplEndConversation \<Rightarrow>
         (startAction s, (if ac_Text a \<noteq> [] then [AQueue (speech a)] else []) @ [AQueue FEnd], None)
     | ImplFunction \<Rightarrow>
         (case ac_Handler a of None \<Rightarrow> (s, [], None) | Some f \<Rightarrow> (startAction s, [AQueue (FFunctionAction a f)], None))
     | ImplApp f \<Rightarrow> app_handler env f a s)"

text \<open>\<open>transitionFunc\<close>: what is reported for a call, and the transition an edge function asks for.\<close>

definition acknowledged :: string where
  "acknowledged = ''{\"status\": \"acknowledged\"}''"

definition transitionFunc :: "flow_env \<Rightarrow> string \<Rightarrow> NodeFunction \<Rightarrow> string \<Rightarrow> flow_mgr \<Rightarrow> flow_mgr \<times> flow_act list" where
  "transitionFunc env i fn args s =
    (case nf_Handler fn of
       None \<Rightarrow> (s, [])
     | Some h \<Rightarrow>
         let r = fe_function env h args (fm_state s); s = s\<lparr>fm_state := fa_state r\<rparr>
         in (s, case fa_error r of
              Some e \<Rightarrow> [AReport i (ResultError e) \<lparr>rp_RunLLM = None, rp_OnContextUpdated = False\<rparr>]
            | None \<Rightarrow>
                (case fa_next r of
                   NoResponse \<Rightarrow> [AReport i (ResultText (fa_result r)) \<lparr>rp_RunLLM = Some False, rp_OnContextUpdated = False\<rparr>]
                 | NextNil \<Rightarrow> [AReport i (ResultText (fa_result r)) \<lparr>rp_RunLLM = Some True, rp_OnContextUpdated = False\<rparr>]
                 | Next n \<Rightarrow>
                     [AAsk n (nf_Name fn),
                      AReport i (ResultText (if fa_result r = [] then acknowledged else fa_result r))
                        \<lparr>rp_RunLLM = Some False, rp_OnContextUpdated = True\<rparr>])))"

text \<open>The frames an interruption takes out of the pipeline: of the positions given those that do not survive.\<close>

definition lose :: "nat list \<Rightarrow> flow_frame list \<Rightarrow> flow_frame list" where
  "lose is fs = map fst (filter (\<lambda>(f, i). outlives f \<or> i \<notin> set is) (zip fs [0..<length fs]))"

text \<open>\<open>Initialize\<close>.\<close>

definition Initialize_step :: "flow_env \<Rightarrow> NodeConfig option \<Rightarrow> flow_mgr \<Rightarrow> flow_mgr \<times> flow_act list" where
  "Initialize_step env node s =
    (if fm_initialized s then (s, [])
     else case node of
       None \<Rightarrow> (s\<lparr>fm_initialized := True\<rparr>, [])
     | Some n \<Rightarrow> let (s, i) = nodeName env n (s\<lparr>fm_initialized := True\<rparr>) in (s, [AEnter ByInitialize i n]))"

text \<open>\<open>SetNode\<close>.\<close>

definition SetNode_step :: "flow_env \<Rightarrow> NodeConfig option \<Rightarrow> flow_mgr \<Rightarrow> flow_mgr \<times> flow_act list" where
  "SetNode_step env node s =
    (case node of
       None \<Rightarrow> (fnote (Failed (errf ErrFlowTransition NilNode)) s, [])
     | Some n \<Rightarrow> let (s, i) = nodeName env n s in (s, [AEnter BySetNode i n]))"

text \<open>\<open>enterNode\<close>: what was pending belongs to the node being left; the manager must be initialized.\<close>

definition enterNode_begin :: "flow_caller \<Rightarrow> string \<Rightarrow> NodeConfig \<Rightarrow> flow_mgr \<Rightarrow> flow_mgr \<times> flow_act list" where
  "enterNode_begin c i n s =
    (s\<lparr>fm_pending := None\<rparr>,
     if fm_initialized s then [AValidated c i n] else [AReturn c i (Some (errf ErrFlowTransition NotInitialized))])"

text \<open>The node is checked, and the post-actions still waiting are dropped.\<close>

definition enterNode_validate :: "flow_caller \<Rightarrow> string \<Rightarrow> NodeConfig \<Rightarrow> flow_mgr \<Rightarrow> flow_mgr \<times> flow_act list" where
  "enterNode_validate c i n s =
    (case validateNode i n of
       Some e \<Rightarrow> (s, [AReturn c i (Some e)])
     | None \<Rightarrow> (s\<lparr>fm_deferred := []\<rparr>, [ARegister c i n (nc_PreActions n @ nc_PostActions n)]))"

text \<open>The handlers its actions bring are registered.\<close>

definition enterNode_register :: "flow_caller \<Rightarrow> string \<Rightarrow> NodeConfig \<Rightarrow> ActionConfig list \<Rightarrow> flow_mgr \<Rightarrow> flow_mgr \<times> flow_act list" where
  "enterNode_register c i n as s =
    (case as of
       [] \<Rightarrow> (s, [AExec (nc_PreActions n) [] (AfterPre c i n)])
     | a # rest \<Rightarrow>
         (case registerFromConfig a s of
            (s, Some e) \<Rightarrow> (s, [AReturn c i (Some e)])
          | (s, None) \<Rightarrow> (s, [ARegister c i n rest])))"

text \<open>\<open>executeActions\<close>, the head of its loop: the next action and its handler.\<close>

definition executeActions_next :: "ActionConfig list \<Rightarrow> string \<Rightarrow> flow_after \<Rightarrow> flow_mgr \<Rightarrow> flow_mgr \<times> flow_act list" where
  "executeActions_next as previous k s =
    (case as of
       [] \<Rightarrow> (s, [ALast previous k])
     | a # rest \<Rightarrow>
         if ac_Type a = [] then exec_done k (Some (errf ErrAction NoActionType)) s
         else case fm_names s (ac_Type a) of
           None \<Rightarrow> exec_done k (Some (errf ErrAction (NotRegistered (ac_Type a)))) s
         | Some h \<Rightarrow> (s, [ABefore a h rest previous k]))"

text \<open>The wait, and then the handler.\<close>

definition executeActions_run :: "flow_env \<Rightarrow> ActionConfig \<Rightarrow> action_impl \<Rightarrow> nat \<Rightarrow> ActionConfig list \<Rightarrow> string \<Rightarrow> flow_after \<Rightarrow> flow_mgr \<Rightarrow> flow_mgr \<times> flow_act list" where
  "executeActions_run env a h was rest previous k s =
    (if waits previous (ac_Type a) \<and> fm_ongoing s > 0 then (s, [AAct a h was rest previous k])
     else let (s, acts, err) = run_action env h a s in (s, acts @ [AHandled a was err rest k]))"

text \<open>The handler has returned: a failure ends the list, and so does the end of the conversation.\<close>

definition executeActions_handled :: "ActionConfig \<Rightarrow> nat \<Rightarrow> string option \<Rightarrow> ActionConfig list \<Rightarrow> flow_after \<Rightarrow> flow_mgr \<Rightarrow> flow_mgr \<times> flow_act list" where
  "executeActions_handled a was err rest k s =
    (case err of
       Some e \<Rightarrow> exec_done k (Some (errf ErrAction (ActionFailed (ac_Type a) e)))
                  (if fm_ongoing s > was then finishAction s else s)
     | None \<Rightarrow>
         if ac_Type a = actionEndConversation then (s, [ALast (ac_Type a) k]) else (s, [AExec rest (ac_Type a) k]))"

text \<open>The wait behind the last action.\<close>

definition executeActions_last :: "string \<Rightarrow> flow_after \<Rightarrow> flow_mgr \<Rightarrow> flow_mgr \<times> flow_act list" where
  "executeActions_last previous k s =
    (if waits previous [] \<and> fm_ongoing s > 0 then (s, [ALast previous k]) else exec_done k None s)"

text \<open>The toolset and the frames of the node.\<close>

definition enterNode_context :: "flow_config \<Rightarrow> flow_env \<Rightarrow> flow_caller \<Rightarrow> string \<Rightarrow> NodeConfig \<Rightarrow> flow_mgr \<Rightarrow> flow_mgr \<times> flow_act list" where
  "enterNode_context cfg env c i n s =
    (case nodeTools cfg env n of
       Inl e \<Rightarrow> (s, [AReturn c i (Some e)])
     | Inr ts \<Rightarrow> (s, map AQueue (context_frames cfg env n ts s) @ [ACurrent c i n ts]))"

text \<open>The node is the current one, and is asked for a response.\<close>

definition enterNode_current :: "flow_caller \<Rightarrow> string \<Rightarrow> NodeConfig \<Rightarrow> FlowTool list \<Rightarrow> flow_mgr \<Rightarrow> flow_mgr \<times> flow_act list" where
  "enterNode_current c i n ts s =
    (s\<lparr>fm_current := i, fm_currentFns := remdups (map ft_Name ts)\<rparr>,
     (if respondsImmediately n then [AQueue FRun] else []) @ [APost c i n])"

text \<open>The post-actions, now or after the turn.\<close>

definition enterNode_post :: "flow_caller \<Rightarrow> string \<Rightarrow> NodeConfig \<Rightarrow> flow_mgr \<Rightarrow> flow_mgr \<times> flow_act list" where
  "enterNode_post c i n s =
    (if nc_PostActions n = [] then (s, [AReturn c i None])
     else if respondsImmediately n then (s, [AExec (nc_PostActions n) [] (AfterPost c i)])
     else (s\<lparr>fm_deferred := nc_PostActions n\<rparr>, [AReturn c i None]))"

text \<open>\<open>setNode\<close> names the node that failed, \<open>Initialize\<close> takes the start back.\<close>

definition setNode_return :: "flow_caller \<Rightarrow> string \<Rightarrow> flow_error option \<Rightarrow> flow_mgr \<Rightarrow> flow_mgr \<times> flow_act list" where
  "setNode_return c i err s =
    (case err of
       None \<Rightarrow> (fnote (Returned c i None) s, [])
     | Some e \<Rightarrow>
         let e = FlowErr ErrFlow (SetNodeFailed i) (Some e)
         in if c = ByInitialize
            then (fnote (Returned c i (Some (wrapErr ErrFlowInitialization e))) (s\<lparr>fm_initialized := False\<rparr>), [])
            else (fnote (Returned c i (Some e)) s, []))"

text \<open>\<open>Registry.dispatch\<close>: the arrivals, one after the other.\<close>

definition dispatch_step :: "flow_mgr \<Rightarrow> flow_mgr \<times> flow_act list" where
  "dispatch_step s =
    (case fm_arrived s of
       [] \<Rightarrow> (s, [ADispatch])
     | f # fs \<Rightarrow> (s\<lparr>fm_arrived := fs\<rparr>, [AReached f, ADispatch]))"

text \<open>\<open>frameReachedDownstream\<close>.\<close>

definition frameReachedDownstream :: "flow_env \<Rightarrow> flow_frame \<Rightarrow> flow_mgr \<Rightarrow> flow_mgr \<times> flow_act list" where
  "frameReachedDownstream env f s =
    (case f of
       FFunctionAction a h \<Rightarrow> let (s, acts, err) = app_handler env h a s in (s, acts @ [AFinish])
     | FBotStopped \<Rightarrow> (s, if fm_ongoing s = 0 then [ARunDeferred] else [])
     | FActionFinished \<Rightarrow> (s, [AFinish])
     | _ \<Rightarrow> (s, []))"

text \<open>\<open>runDeferredPostActions\<close>: once.\<close>

definition runDeferredPostActions :: "flow_mgr \<Rightarrow> flow_mgr \<times> flow_act list" where
  "runDeferredPostActions s =
    (s\<lparr>fm_deferred := []\<rparr>, if fm_deferred s = [] then [] else [AExec (fm_deferred s) [] AfterDeferred])"

text \<open>A frame reaches the end of the pipeline and is reported when the manager asked for it.\<close>

definition notifyReachedDownstream :: "flow_mgr \<Rightarrow> flow_mgr \<times> flow_act list" where
  "notifyReachedDownstream s =
    (case fm_pipe s of
       [] \<Rightarrow> (s, [])
     | f # fs \<Rightarrow> (fnote (ReachedEnd f) (s\<lparr>fm_pipe := fs, fm_arrived := fm_arrived s @ (if heard_of f then [f] else [])\<rparr>), []))"

text \<open>The aggregator takes a result: the call is over, and who asked is told.\<close>

definition result_written :: "flow_mgr \<Rightarrow> flow_mgr \<times> flow_act list" where
  "result_written s =
    (case fm_results s of
       [] \<Rightarrow> (s, [])
     | (i, p) # rs \<Rightarrow>
         if i \<in> set (fm_calls s)
         then (s\<lparr>fm_results := rs, fm_calls := removeAll i (fm_calls s)\<rparr>, if rp_OnContextUpdated p then [ACheck] else [])
         else (s\<lparr>fm_results := rs\<rparr>, []))"

text \<open>\<open>checkAndExecuteTransition\<close>: another call of the turn is still running.\<close>

definition transition_progress :: "flow_config \<Rightarrow> flow_mgr \<Rightarrow> flow_mgr \<times> flow_act list" where
  "transition_progress cfg s = (s, if fc_hasContext cfg \<and> fm_calls s \<noteq> [] then [] else [ATake])"

text \<open>The pending transition is taken, if it is still there.\<close>

definition transition_take :: "flow_env \<Rightarrow> flow_mgr \<Rightarrow> flow_mgr \<times> flow_act list" where
  "transition_take env s =
    (case fm_pending s of
       None \<Rightarrow> (s, [])
     | Some (n, name) \<Rightarrow>
         let (s, i) = nodeName env n (fnote (Transitioning n name) (s\<lparr>fm_pending := None\<rparr>)) in (s, [AEnter ByTransition i n]))"

text \<open>What each action does.\<close>

fun flow_code :: "flow_config \<Rightarrow> flow_env \<Rightarrow> (flow_act, flow_mgr) code" where
  "flow_code cfg env (AInitialize node) s = Initialize_step env node s"
| "flow_code cfg env (ASetNode node) s = SetNode_step env node s"
| "flow_code cfg env (AEnter c i n) s = enterNode_begin c i n s"
| "flow_code cfg env (AValidated c i n) s = enterNode_validate c i n s"
| "flow_code cfg env (ARegister c i n as) s = enterNode_register c i n as s"
| "flow_code cfg env (AExec as previous k) s = executeActions_next as previous k s"
| "flow_code cfg env (ABefore a h rest previous k) s = (s, [AAct a h (fm_ongoing s) rest previous k])"
| "flow_code cfg env (AAct a h was rest previous k) s = executeActions_run env a h was rest previous k s"
| "flow_code cfg env (AHandled a was err rest k) s = executeActions_handled a was err rest k s"
| "flow_code cfg env (ALast previous k) s = executeActions_last previous k s"
| "flow_code cfg env (AContext c i n) s = enterNode_context cfg env c i n s"
| "flow_code cfg env (ACurrent c i n ts) s = enterNode_current c i n ts s"
| "flow_code cfg env (APost c i n) s = enterNode_post c i n s"
| "flow_code cfg env (AReturn c i err) s = setNode_return c i err s"
| "flow_code cfg env (AQueue f) s = (fnote (Queued f) (s\<lparr>fm_pipe := fm_pipe s @ [f]\<rparr>), [])"
| "flow_code cfg env ADispatch s = dispatch_step s"
| "flow_code cfg env (AReached f) s = frameReachedDownstream env f s"
| "flow_code cfg env ARunDeferred s = runDeferredPostActions s"
| "flow_code cfg env AFinish s = (finishAction s, [])"
| "flow_code cfg env ADeliver s = notifyReachedDownstream s"
| "flow_code cfg env ABotStopped s = (s\<lparr>fm_arrived := fm_arrived s @ [FBotStopped]\<rparr>, [])"
| "flow_code cfg env (AInterrupt is) s = (s\<lparr>fm_pipe := lose is (fm_pipe s)\<rparr>, [])"
| "flow_code cfg env (ACallStarted i) s = (s\<lparr>fm_calls := fm_calls s @ [i]\<rparr>, [])"
| "flow_code cfg env (ACall i fn args) s = transitionFunc env i fn args s"
| "flow_code cfg env (AAsk n name) s = (fnote (Asked n name) (s\<lparr>fm_pending := Some (n, name)\<rparr>), [])"
| "flow_code cfg env (AReport i r p) s = (fnote (Reported i r p) (s\<lparr>fm_results := fm_results s @ [(i, p)]\<rparr>), [])"
| "flow_code cfg env AWritten s = result_written s"
| "flow_code cfg env ACheck s = (s, if fm_pending s = None then [] else [AProgress])"
| "flow_code cfg env AProgress s = transition_progress cfg s"
| "flow_code cfg env ATake s = transition_take env s"

lemmas flow_step_defs =
  Initialize_step_def SetNode_step_def enterNode_begin_def enterNode_validate_def enterNode_register_def executeActions_next_def executeActions_run_def executeActions_handled_def executeActions_last_def enterNode_context_def enterNode_current_def enterNode_post_def setNode_return_def dispatch_step_def frameReachedDownstream_def runDeferredPostActions_def notifyReachedDownstream_def result_written_def transition_progress_def transition_take_def

end
