(* ===== verification/Flow_Properties.thy ===== *)
theory Flow_Properties
  imports Flow_Manager
begin

text \<open>
  What a flow does with its actions and its transitions: a wait for an action ends only when nothing the actions asked
  for is on its way any more, a node entered puts its frames into the pipeline in order, a transition asked for is made
  at most once. And where it does not go on: post-actions that were held back and speak wait for ever, an interruption
  that takes the mark of an action does the same to the node being entered, and a transition asked for ahead of
  another call of its turn is never made.
\<close>

declare flow_step_defs [simp]

section \<open>What is owed to the count of actions\<close>

text \<open>The frames whose arrival ends an action.\<close>

fun marks_end :: "flow_frame \<Rightarrow> bool" where
  "marks_end FActionFinished = True"
| "marks_end (FFunctionAction a h) = True"
| "marks_end _ = False"

fun is_speech :: "flow_frame \<Rightarrow> bool" where
  "is_speech (FSpeak t b) = True"
| "is_speech _ = False"

fun act_owes :: "flow_act \<Rightarrow> nat" where
  "act_owes (AQueue f) = (if marks_end f then 1 else 0)"
| "act_owes (AReached f) = (if marks_end f then 1 else 0)"
| "act_owes AFinish = 1"
| "act_owes _ = 0"

definition marks_in :: "flow_frame list \<Rightarrow> nat" where
  "marks_in fs = length (filter marks_end fs)"

definition on_the_way :: "flow_mgr \<Rightarrow> nat" where
  "on_the_way s = marks_in (fm_pipe s) + marks_in (fm_arrived s)"

definition owes :: "flow_act list \<Rightarrow> nat" where
  "owes p = sum_list (map act_owes p)"

lemma marks_in_simps [simp]:
  "marks_in [] = 0" "marks_in (f # fs) = (if marks_end f then 1 else 0) + marks_in fs" "marks_in (fs @ gs) = marks_in fs + marks_in gs"
  by (simp_all add: marks_in_def)

lemma owes_simps [simp]: "owes [] = 0" "owes (a # p) = act_owes a + owes p" "owes (p @ q) = owes p + owes q"
  by (simp_all add: owes_def)

lemma owes_apps [simp]: "owes (map (\<lambda>f. AQueue (FApp f)) fs) = 0"
  by (induction fs) simp_all

text \<open>No handler of the application fails.\<close>

definition handlers_succeed :: "flow_env \<Rightarrow> bool" where
  "handlers_succeed env \<longleftrightarrow> (\<forall>h a st. aa_error (fe_action env h a st) = None)"

fun no_failure :: "flow_act \<Rightarrow> bool" where
  "no_failure (AHandled a was err rest k) = (err = None)"
| "no_failure _ = True"

lemma context_frames_owe [simp]: "owes (map AQueue (context_frames cfg env n ts s)) = 0"
  by (simp add: context_frames_def Let_def)

lemma fnote_fields [simp]:
  "fm_ongoing (fnote e s) = fm_ongoing s" "fm_pipe (fnote e s) = fm_pipe s" "fm_arrived (fnote e s) = fm_arrived s"
  "fm_pending (fnote e s) = fm_pending s" "fm_log (fnote e s) = fm_log s @ [e]" "on_the_way (fnote e s) = on_the_way s"
  "fm_initialized (fnote e s) = fm_initialized s"
  by (simp_all add: fnote_def on_the_way_def)

lemma exec_done_same [simp]:
  "fm_ongoing (fst (exec_done k err s)) = fm_ongoing s" "on_the_way (fst (exec_done k err s)) = on_the_way s" "fm_arrived (fst (exec_done k err s)) = fm_arrived s"
  "fm_pipe (fst (exec_done k err s)) = fm_pipe s" "fm_pending (fst (exec_done k err s)) = fm_pending s"
  "owes (snd (exec_done k err s)) = 0"
  by (simp_all add: exec_done_def split: flow_after.split option.split)

lemma nodeName_same [simp]:
  "fm_ongoing (fst (nodeName env n s)) = fm_ongoing s" "on_the_way (fst (nodeName env n s)) = on_the_way s" "fm_arrived (fst (nodeName env n s)) = fm_arrived s"
  "fm_pipe (fst (nodeName env n s)) = fm_pipe s" "fm_pending (fst (nodeName env n s)) = fm_pending s"
  "fm_log (fst (nodeName env n s)) = fm_log s" "fm_initialized (fst (nodeName env n s)) = fm_initialized s"
  by (simp_all add: nodeName_def on_the_way_def)

lemma registerFromConfig_same [simp]:
  "fm_ongoing (fst (registerFromConfig a s)) = fm_ongoing s" "on_the_way (fst (registerFromConfig a s)) = on_the_way s" "fm_arrived (fst (registerFromConfig a s)) = fm_arrived s"
  "fm_pipe (fst (registerFromConfig a s)) = fm_pipe s" "fm_pending (fst (registerFromConfig a s)) = fm_pending s"
  "fm_log (fst (registerFromConfig a s)) = fm_log s"
  by (simp_all add: registerFromConfig_def register_action_def on_the_way_def split: option.split)

lemma lose_snoc: "lose ks (fs @ [f]) = lose ks fs @ (if outlives f \<or> length fs \<notin> set ks then [f] else [])"
  by (simp add: lose_def)

lemma lose_Nil [simp]: "lose ks [] = []"
  by (simp add: lose_def)

lemma lose_marks: "marks_in (lose ks fs) \<le> marks_in fs"
  by (induction fs rule: rev_induct) (simp_all add: lose_snoc)

lemma app_handler_same [simp]:
  "fm_ongoing (fst (app_handler env h a s)) = fm_ongoing s" "on_the_way (fst (app_handler env h a s)) = on_the_way s" "fm_arrived (fst (app_handler env h a s)) = fm_arrived s"
  "fm_pipe (fst (app_handler env h a s)) = fm_pipe s" "fm_pending (fst (app_handler env h a s)) = fm_pending s"
  "fm_log (fst (app_handler env h a s)) = fm_log s" "owes (fst (snd (app_handler env h a s))) = 0"
  by (simp_all add: app_handler_def Let_def on_the_way_def split: option.split)

lemma register_step:
  "flow_code cfg env (ARegister c i n (a # rest)) s =
    (fst (registerFromConfig a s),
     case snd (registerFromConfig a s) of Some e \<Rightarrow> [AReturn c i (Some e)] | None \<Rightarrow> [ARegister c i n rest])"
  by (cases "registerFromConfig a s") (simp split: option.split)

text \<open>A step leaves no less started than is on its way; only the end of an action takes one away.\<close>

lemma run_action_owes:
  "fm_ongoing s + on_the_way (fst (run_action env h a s)) + owes (fst (snd (run_action env h a s))) \<le>
   fm_ongoing (fst (run_action env h a s)) + on_the_way s"
  by (auto simp: run_action_def startAction_def speech_def on_the_way_def split: action_impl.split option.split)

lemma step_owes:
  assumes "on_the_way s + act_owes a \<le> fm_ongoing s" and "no_failure a"
  shows "fm_ongoing s + on_the_way (fst (flow_code cfg env a s)) + owes (snd (flow_code cfg env a s)) \<le>
    fm_ongoing (fst (flow_code cfg env a s)) + on_the_way s + act_owes a"
proof (cases a)
  case (AAct a h was rest previous k)
  then show ?thesis using run_action_owes [of s env h a] by (auto split: prod.split)
next
  case (AInterrupt ps)
  then show ?thesis using lose_marks [of ps "fm_pipe s"] by (simp add: on_the_way_def)
next
  case (ARegister c i n as)
  then show ?thesis by (cases as) (simp_all add: register_step del: flow_code.simps(5) split: option.split, simp)
next
  case (AFinish)
  then show ?thesis using assms by (simp add: finishAction_def on_the_way_def)
qed (use assms in \<open>auto simp: Let_def on_the_way_def transitionFunc_def case_prod_beta split: option.split list.split flow_frame.split next_node.split sum.split\<close>)

text \<open>Actions that neither speak nor report the failure of a handler.\<close>

fun speechless :: "flow_act \<Rightarrow> bool" where
  "speechless (AQueue f) = (\<not> is_speech f)"
| "speechless _ = True"

text \<open>Speech is put into the pipeline with the mark of its end behind it.\<close>

fun speech_paired :: "flow_act list \<Rightarrow> bool" where
  "speech_paired [] = True"
| "speech_paired (a # p) = ((speechless a \<or> (\<exists>q. p = AQueue FActionFinished # q)) \<and> speech_paired p)"

lemma speech_paired_append: "list_all speechless p \<Longrightarrow> speech_paired (p @ q) = speech_paired q"
  by (induction p) auto

text \<open>No speech in the pipeline but with a mark behind it.\<close>

definition covered :: "flow_frame list \<Rightarrow> bool" where
  "covered fs = (let r = filter (\<lambda>f. is_speech f \<or> marks_end f) fs in r = [] \<or> marks_end (last r))"

lemma covered_simps [simp]:
  "covered []" "covered (fs @ [f]) = (marks_end f \<or> \<not> is_speech f \<and> covered fs)"
  by (auto simp: covered_def Let_def)

lemma covered_tail: "covered (f # fs) \<Longrightarrow> covered fs"
  by (auto simp: covered_def Let_def split: if_splits)

lemma covered_lose:
  assumes "marks_in (lose ks fs) = marks_in fs" and "covered fs"
  shows "covered (lose ks fs)"
  using assms
proof (induction fs rule: rev_induct)
  case (snoc f fs)
  have "marks_in (lose ks fs) \<le> marks_in fs" by (rule lose_marks)
  with snoc show ?case by (auto simp: lose_snoc split: if_splits)
qed simp

lemma covered_unmarked: "covered fs \<Longrightarrow> marks_in fs = 0 \<Longrightarrow> f \<in> set fs \<Longrightarrow> \<not> is_speech f"
  by (induction fs rule: rev_induct) (auto split: if_splits)

definition awaits_mark :: "flow_act list list \<Rightarrow> bool" where
  "awaits_mark ps \<longleftrightarrow> (\<exists>p\<in>set ps. \<exists>f. marks_end f \<and> AQueue f \<in> set p)"

definition ends_accounted :: "flow_mgr \<times> flow_act list list \<Rightarrow> bool" where
  "ends_accounted c \<longleftrightarrow> on_the_way (fst c) + sum_list (map owes (snd c)) \<le> fm_ongoing (fst c) \<and>
    list_all (list_all no_failure) (snd c) \<and>
    (on_the_way (fst c) + sum_list (map owes (snd c)) = fm_ongoing (fst c) \<longrightarrow>
       (covered (fm_pipe (fst c)) \<or> awaits_mark (snd c)) \<and> list_all speech_paired (snd c))"

lemma step_no_failure:
  assumes "handlers_succeed env" and "no_failure a"
  shows "list_all no_failure (snd (flow_code cfg env a s))"
  using assms
  by (cases a)
    (auto simp: Let_def exec_done_def transitionFunc_def run_action_def app_handler_def handlers_succeed_def case_prod_beta list_all_iff
      register_step context_frames_def split: option.split list.split flow_frame.split next_node.split sum.split flow_after.split action_impl.split)

text \<open>An action that adds speech either has the mark of its end follow or starts an action that is never finished.\<close>

lemma step_speech:
  "list_all speechless (snd (flow_code cfg env a s)) \<or>
   (\<exists>f x. snd (flow_code cfg env a s) = [AQueue f, AQueue FActionFinished, x] \<and> speechless x) \<or>
   fm_ongoing s + on_the_way (fst (flow_code cfg env a s)) + owes (snd (flow_code cfg env a s)) <
   fm_ongoing (fst (flow_code cfg env a s)) + on_the_way s + act_owes a"
proof (cases a)
  case (AAct b h was rest previous k)
  then show ?thesis
    by (cases h) (auto simp: Let_def run_action_def app_handler_def startAction_def on_the_way_def speech_def list_all_iff split: option.split)
qed (auto simp: Let_def exec_done_def transitionFunc_def app_handler_def case_prod_beta list_all_iff register_step context_frames_def
      split: option.split list.split flow_frame.split next_node.split sum.split flow_after.split)

text \<open>What a step does to the pipeline, when it loses no mark.\<close>

lemma step_pipe:
  "fm_pipe (fst (flow_code cfg env a s)) = fm_pipe s \<or>
   (\<exists>f. a = AQueue f \<and> fm_pipe (fst (flow_code cfg env a s)) = fm_pipe s @ [f]) \<or>
   (\<exists>f. fm_pipe s = f # fm_pipe (fst (flow_code cfg env a s))) \<or>
   (\<exists>ks. a = AInterrupt ks \<and> fm_pipe (fst (flow_code cfg env a s)) = lose ks (fm_pipe s))"
proof (cases a)
  case (AAct b h was rest previous k)
  then show ?thesis by (cases h) (auto simp: Let_def run_action_def startAction_def case_prod_beta split: option.split)
qed (auto simp: Let_def transitionFunc_def case_prod_beta register_step finishAction_def
      split: option.split list.split flow_frame.split next_node.split sum.split)

lemma awaits_here: "i < length ps \<Longrightarrow> marks_end f \<Longrightarrow> AQueue f \<in> set p \<Longrightarrow> awaits_mark (ps[i := p])"
  unfolding awaits_mark_def by (rule bexI [of _ p]) (auto intro: set_update_memI)

lemma awaits_update:
  assumes "i < length ps" and "ps ! i = a # as" and "\<And>f. a = AQueue f \<Longrightarrow> \<not> marks_end f" and "awaits_mark ps"
  shows "awaits_mark (ps[i := bs @ as])"
proof -
  from assms(4) obtain p f where p: "p \<in> set ps" "marks_end f" "AQueue f \<in> set p" by (auto simp: awaits_mark_def)
  then obtain j where j: "j < length ps" "p = ps ! j" by (auto simp: in_set_conv_nth)
  show ?thesis
  proof (cases "j = i")
    case True
    then have "AQueue f \<in> set (bs @ as)" using p j assms(2,3) by auto
    then show ?thesis using awaits_here p(2) assms(1) by blast
  next
    case False
    then have "p \<in> set (ps[i := bs @ as])" using j by (metis length_list_update nth_list_update_neq nth_mem)
    then show ?thesis using p by (auto simp: awaits_mark_def)
  qed
qed

lemma speech_paired_step:
  assumes "speech_paired (a # as)"
    and "list_all speechless bs \<or> (\<exists>f x. bs = [AQueue f, AQueue FActionFinished, x] \<and> speechless x)"
  shows "speech_paired (bs @ as)"
  using assms speech_paired_append [of bs as] by auto

text \<open>A step that loses no mark and after which an end is owed for all that was started keeps the speech covered.\<close>

lemma step_covered:
  assumes "i < length ps" and "ps ! i = a # as" and "speech_paired (a # as)" and "covered (fm_pipe s) \<or> awaits_mark ps"
    and "\<And>ks. a = AInterrupt ks \<Longrightarrow> marks_in (lose ks (fm_pipe s)) = marks_in (fm_pipe s)"
  shows "covered (fm_pipe (fst (flow_code cfg env a s))) \<or> awaits_mark (ps[i := snd (flow_code cfg env a s) @ as])"
proof (cases "\<exists>f. a = AQueue f")
  case True
  then obtain f where f: "a = AQueue f" by blast
  show ?thesis
  proof (cases "is_speech f \<and> \<not> marks_end f")
    case True
    then obtain q where "as = AQueue FActionFinished # q" using assms(3) f by auto
    then show ?thesis using awaits_here [OF assms(1), of FActionFinished] by simp
  next
    case False
    then show ?thesis using awaits_update [OF assms(1,2), of "[]"] assms(4) f by auto
  qed
next
  case False
  have "covered (fm_pipe (fst (flow_code cfg env a s)))" if c: "covered (fm_pipe s)"
    using step_pipe [of cfg env a s] False c assms(5) covered_lose covered_tail by metis
  then show ?thesis using awaits_update [OF assms(1,2)] False assms(4) by blast
qed

text \<open>A step of one goroutine keeps the account.\<close>

lemma accounted_run:
  assumes "ends_accounted (s, ps)" and "handlers_succeed env" and "i < length ps" and "ps ! i = a # as"
  shows "ends_accounted (fst (flow_code cfg env a s), ps[i := snd (flow_code cfg env a s) @ as])"
proof -
  define t where "t = fst (flow_code cfg env a s)"
  define bs where "bs = snd (flow_code cfg env a s)"
  let ?sum = "\<lambda>qs. sum_list (map owes qs)"
  have sum: "?sum (ps[i := bs @ as]) + act_owes a = ?sum ps + owes bs"
    using sum_update [OF assms(3), of owes "bs @ as"] assms(4) by simp
  have mem: "a # as \<in> set ps" using assms(3,4) by (metis nth_mem)
  then have le: "act_owes a + owes as \<le> ?sum ps" using member_le_sum_list [of "owes (a # as)" "map owes ps"] by force
  have old: "on_the_way s + ?sum ps \<le> fm_ongoing s" "list_all (list_all no_failure) ps"
    "on_the_way s + ?sum ps = fm_ongoing s \<Longrightarrow> (covered (fm_pipe s) \<or> awaits_mark ps) \<and> list_all speech_paired ps"
    using assms(1) by (auto simp: ends_accounted_def)
  have nf: "no_failure a" "list_all no_failure as" using old(2) mem by (auto simp: list_all_iff)
  have step: "fm_ongoing s + on_the_way t + owes bs \<le> fm_ongoing t + on_the_way s + act_owes a"
  proof -
    have "on_the_way s + act_owes a \<le> fm_ongoing s" using old(1) le by linarith
    from step_owes [OF this nf(1), of cfg env] show ?thesis unfolding t_def bs_def .
  qed
  have new: "on_the_way t + ?sum (ps[i := bs @ as]) \<le> fm_ongoing t" using step sum old(1) by linarith
  have nf': "list_all (list_all no_failure) (ps[i := bs @ as])"
    using step_no_failure [OF assms(2) nf(1), of cfg s] nf(2) old(2) by (auto simp: bs_def intro: list_all_upd)
  have tight: "(covered (fm_pipe t) \<or> awaits_mark (ps[i := bs @ as])) \<and> list_all speech_paired (ps[i := bs @ as])"
    if eq: "on_the_way t + ?sum (ps[i := bs @ as]) = fm_ongoing t"
  proof -
    have same: "fm_ongoing s + on_the_way t + owes bs = fm_ongoing t + on_the_way s + act_owes a" "on_the_way s + ?sum ps = fm_ongoing s"
      using eq sum old(1) step by linarith+
    have pr: "speech_paired (a # as)" using old(3) [OF same(2)] mem by (auto simp: list_all_iff)
    have "list_all speechless bs \<or> (\<exists>f x. bs = [AQueue f, AQueue FActionFinished, x] \<and> speechless x)"
      using step_speech [of cfg env a s] same(1) unfolding t_def bs_def by (metis less_irrefl_nat)
    then have "speech_paired (bs @ as)" by (rule speech_paired_step [OF pr])
    then have "list_all speech_paired (ps[i := bs @ as])" using old(3) [OF same(2)] by (simp add: list_all_upd)
    moreover have "marks_in (lose ks (fm_pipe s)) = marks_in (fm_pipe s)" if "a = AInterrupt ks" for ks
      using same(1) that by (simp add: t_def bs_def on_the_way_def)
    ultimately show ?thesis
      using step_covered [OF assms(3,4) pr, of s cfg env] old(3) [OF same(2)] unfolding t_def bs_def by blast
  qed
  show ?thesis using new nf' tight unfolding ends_accounted_def t_def [symmetric] bs_def [symmetric] by simp
qed

text \<open>The calls from outside, by the application, the pipeline and the aggregator.\<close>

fun from_outside :: "flow_act \<Rightarrow> bool" where
  "from_outside (AInitialize n) = True"
| "from_outside (ASetNode n) = True"
| "from_outside ADeliver = True"
| "from_outside ABotStopped = True"
| "from_outside (AInterrupt ks) = True"
| "from_outside (ACallStarted i) = True"
| "from_outside (ACall i fn args) = True"
| "from_outside AWritten = True"
| "from_outside _ = False"

definition flow_schedule :: "flow_act sched list \<Rightarrow> bool" where
  "flow_schedule es = list_all (starts (list_all from_outside)) es"

abbreviation flow_run :: "flow_config \<Rightarrow> flow_env \<Rightarrow> Message list \<Rightarrow> flow_act sched list \<Rightarrow> flow_mgr \<times> flow_act list list" where
  "flow_run cfg env ms es \<equiv> sched_run (flow_code cfg env) es (new_flow ms, [[ADispatch]])"

lemma outside_plain:
  assumes "list_all from_outside p"
  shows "owes p = 0" "list_all no_failure p" "speech_paired p"
  using assms
proof (induction p)
  case (Cons a p)
  case 1 then show ?case using Cons by (cases a) auto
  case 2 then show ?case using Cons by (cases a) auto
  case 3 then show ?case using Cons by (cases a) auto
qed simp_all

lemma accounted_runs:
  assumes "handlers_succeed env" and "flow_schedule es" and "ends_accounted c"
  shows "ends_accounted (sched_run (flow_code cfg env) es c)"
proof (rule sched_invariant [where ok = "list_all from_outside"])
  show "list_all (starts (list_all from_outside)) es" using assms(2) by (simp add: flow_schedule_def)
  fix s ps p
  assume "ends_accounted (s, ps)" and "list_all from_outside p"
  then show "ends_accounted (s, ps @ [p])" using outside_plain [of p] by (auto simp: ends_accounted_def awaits_mark_def)
qed (use assms accounted_run in \<open>auto\<close>)

lemma accounted_start: "ends_accounted (new_flow ms, [[ADispatch]])"
  by (simp add: ends_accounted_def new_flow_def on_the_way_def)

text \<open>
  C32. A wait of the action list ends only when everything the actions asked for is done: under every schedule of the
  manager's calls, the pipeline and interruptions, when a list of actions that ended with a spoken line or a queued
  function goes on, no speech is left in the pipeline and no mark or queued function is on its way or being handled.
  (Handlers of the application that fail are excluded: a failing one can end somebody else's action.)
\<close>

theorem actions_done_before_going_on:
  assumes "handlers_succeed env" and "flow_schedule es" and "flow_run cfg env ms es = (s, ps)"
    and "i < length ps" and "ps ! i = ALast previous k # as" and "previous = actionTTSSay \<or> previous = actionFunction"
    and "sched_step (flow_code cfg env) (Run i) (s, ps) \<noteq> (s, ps)"
  shows "list_all (\<lambda>f. \<not> is_speech f) (fm_pipe s) \<and> on_the_way s = 0 \<and> list_all (\<lambda>p. owes p = 0) ps"
proof -
  have acc: "ends_accounted (s, ps)" using accounted_runs [OF assms(1,2) accounted_start, of cfg ms] assms(3) by simp
  have "waits previous []" using assms(6) by (auto simp: waits_def)
  then have "sched_step (flow_code cfg env) (Run i) (s, ps) = (s, ps)" if "fm_ongoing s \<noteq> 0"
    using that assms(4,5) by (simp add: list_update_same_conv)
  then have zero: "fm_ongoing s = 0" using assms(7) by blast
  then have none: "on_the_way s = 0" "list_all (\<lambda>p. owes p = 0) ps" "covered (fm_pipe s) \<or> awaits_mark ps"
    using acc by (auto simp: ends_accounted_def list_all_iff)
  have "\<not> awaits_mark ps"
  proof
    assume "awaits_mark ps"
    then obtain p f where p: "p \<in> set ps" "marks_end f" "AQueue f \<in> set p" by (auto simp: awaits_mark_def)
    then have "act_owes (AQueue f) \<le> owes p" unfolding owes_def using member_le_sum_list by force
    then show False using none(2) p by (auto simp: list_all_iff)
  qed
  then have "covered (fm_pipe s)" using none(3) by blast
  then show ?thesis using none covered_unmarked [of "fm_pipe s"] by (auto simp: list_all_iff on_the_way_def)
qed

section \<open>Transitions\<close>

definition asks :: "flow_event list \<Rightarrow> nat" where
  "asks l = length (filter (\<lambda>e. case e of Asked n f \<Rightarrow> True | _ \<Rightarrow> False) l)"

definition moves_made :: "flow_event list \<Rightarrow> nat" where
  "moves_made l = length (filter (\<lambda>e. case e of Transitioning n f \<Rightarrow> True | _ \<Rightarrow> False) l)"

lemma asks_simps [simp]: "asks [] = 0" "asks (l @ [e]) = asks l + (case e of Asked n f \<Rightarrow> 1 | _ \<Rightarrow> 0)"
  by (simp_all add: asks_def split: flow_event.split)

lemma moves_made_simps [simp]: "moves_made [] = 0" "moves_made (l @ [e]) = moves_made l + (case e of Transitioning n f \<Rightarrow> 1 | _ \<Rightarrow> 0)"
  by (simp_all add: moves_made_def split: flow_event.split)

definition asked_for :: "flow_mgr \<Rightarrow> bool" where
  "asked_for s \<longleftrightarrow> moves_made (fm_log s) + (if fm_pending s = None then 0 else 1) \<le> asks (fm_log s)"

lemma exec_done_log [simp]:
  "asks (fm_log (fst (exec_done k err s))) = asks (fm_log s)" "moves_made (fm_log (fst (exec_done k err s))) = moves_made (fm_log s)"
  by (simp_all add: exec_done_def split: flow_after.split option.split)

lemma run_action_same [simp]:
  "fm_pending (fst (run_action env h a s)) = fm_pending s" "fm_log (fst (run_action env h a s)) = fm_log s"
  by (simp_all add: run_action_def startAction_def split: action_impl.split option.split)

lemma step_asked: "asked_for s \<Longrightarrow> asked_for (fst (flow_code cfg env a s))"
  by (cases a)
    (auto simp: asked_for_def Let_def transitionFunc_def finishAction_def case_prod_beta register_step
      split: option.split list.split flow_frame.split next_node.split sum.split if_splits)

interpretation flow_threads: interleaved "flow_code cfg env" asked_for "\<lambda>s a. True"
  for cfg env
  by unfold_locales (simp_all add: step_asked list_all_iff)


section \<open>Entering a node\<close>

definition queue_all :: "flow_frame list \<Rightarrow> flow_mgr \<Rightarrow> flow_mgr" where
  "queue_all fs s = s\<lparr>fm_pipe := fm_pipe s @ fs, fm_log := fm_log s @ map Queued fs\<rparr>"

lemma alone_queue: "run_alone (flow_code cfg env) (map AQueue fs @ p) s = run_alone (flow_code cfg env) p (queue_all fs s)"
  by (induction fs arbitrary: s) (simp_all add: alone_Cons queue_all_def fnote_def)

lemma alone_register:
  assumes "list_all (\<lambda>a. ac_Type a \<noteq> [] \<and> fm_names s (ac_Type a) \<noteq> None) as"
  shows "run_alone (flow_code cfg env) (ARegister c i n as # p) s =
    run_alone (flow_code cfg env) (AExec (nc_PreActions n) [] (AfterPre c i n) # p) s"
  using assms by (induction as) (simp_all add: alone_Cons register_step registerFromConfig_def)

lemma context_frames_messages: "fm_messages s = fm_messages t \<Longrightarrow> context_frames cfg env n ts s = context_frames cfg env n ts t"
  by (simp add: context_frames_def summarize_def Let_def)


text \<open>A node that cannot be entered leaves the flow to be initialized again, and the error can be told by every kind it wraps.\<close>

lemma failed_start_undone:
  assumes "\<not> fm_initialized s" and "nc_Name n \<noteq> []" and "validateNode (nc_Name n) n = Some e"
  shows "\<exists>err. run_alone (flow_code cfg env) [AInitialize (Some n)] s =
      Some (s\<lparr>fm_pending := None, fm_initialized := False, fm_log := fm_log s @ [Returned ByInitialize (nc_Name n) (Some err)]\<rparr>) \<and>
    errors_Is err ErrFlowInitialization \<and> errors_Is err ErrFlow \<and> errors_Is err (fe_kind e)"
  using assms
  by (intro exI [of _ "wrapErr ErrFlowInitialization (FlowErr ErrFlow (SetNodeFailed (nc_Name n)) (Some e))"], cases e)
    (simp add: alone_Cons nodeName_def fnote_def wrapErr_def)

section \<open>Where a flow stops\<close>

definition quiet_env :: flow_env where
  "quiet_env = \<lparr>fe_action = (\<lambda>h a st. \<lparr>aa_frames = [h], aa_state = st, aa_move = None, aa_error = (if h = 0 then Some [] else None)\<rparr>),
    fe_function = (\<lambda>h args st. \<lparr>fa_result = args, fa_next = NextNil, fa_state = st, fa_error = None\<rparr>),
    fe_parameters = (\<lambda>fn. Some (nf_Name fn)), fe_name = (\<lambda>i. ''node''), fe_infer = (\<lambda>p t. None)\<rparr>"

definition plain_config :: flow_config where
  "plain_config = \<lparr>fc_strategy = None, fc_globals = [], fc_hasContext = True, fc_hasLLM = False\<rparr>"

definition say_action :: "string \<Rightarrow> ActionConfig" where
  "say_action t = \<lparr>ac_Type = actionTTSSay, ac_Handler = None, ac_Text = t, ac_AppendTextToContext = None, ac_Params = 0\<rparr>"

definition a_node :: "string \<Rightarrow> NodeConfig" where
  "a_node i = \<lparr>nc_Name = i, nc_RoleMessage = [], nc_TaskMessages = Some [], nc_Functions = [],
    nc_PreActions = [], nc_PostActions = [], nc_ContextStrategy = None, nc_RespondImmediately = None\<rparr>"

definition waiting_node :: NodeConfig where
  "waiting_node = (a_node ''greet'')\<lparr>nc_PostActions := [say_action ''Hello''], nc_RespondImmediately := Some False\<rparr>"

definition speaking_node :: NodeConfig where
  "speaking_node = (a_node ''greet'')\<lparr>nc_PreActions := [say_action ''Hello'']\<rparr>"

text \<open>
  Post-actions that were held back run on the goroutine that reports arrivals. When one of them speaks, it waits for the
  mark behind its speech, which only that goroutine could take: whatever the pipeline does, the wait never ends.
\<close>

fun of_pipeline :: "flow_act \<Rightarrow> bool" where
  "of_pipeline ADeliver = True"
| "of_pipeline ABotStopped = True"
| "of_pipeline (AInterrupt ks) = True"
| "of_pipeline _ = False"

lemma pipeline_step:
  "of_pipeline a \<Longrightarrow> fm_ongoing (fst (flow_code cfg env a s)) = fm_ongoing s \<and> snd (flow_code cfg env a s) = []"
  by (cases a) (auto split: list.split)

definition stuck :: "flow_mgr \<times> flow_act list list \<Rightarrow> bool" where
  "stuck c \<longleftrightarrow> (\<exists>s ps. c = (s, [ALast actionTTSSay AfterDeferred, ADispatch] # ps) \<and> fm_ongoing s > 0 \<and> list_all (list_all of_pipeline) ps)"

lemma stuck_run:
  assumes "list_all (starts (list_all of_pipeline)) es" and "stuck c"
  shows "stuck (sched_run (flow_code cfg env) es c)"
proof (rule sched_invariant [where P = stuck, OF assms])
  fix s ps i a as
  assume st: "stuck (s, ps)" and i: "i < length ps" "ps ! i = a # as"
  then obtain qs where ps: "ps = [ALast actionTTSSay AfterDeferred, ADispatch] # qs" "fm_ongoing s > 0" "list_all (list_all of_pipeline) qs"
    by (auto simp: stuck_def)
  show "stuck (fst (flow_code cfg env a s), ps[i := snd (flow_code cfg env a s) @ as])"
  proof (cases i)
    case 0
    then show ?thesis using i ps by (auto simp: stuck_def waits_def)
  next
    case (Suc j)
    then have "list_all of_pipeline (a # as)" using i ps by (metis Suc_less_eq length_Cons list_all_length nth_Cons_Suc)
    then have "of_pipeline a" "list_all (list_all of_pipeline) (qs[j := as])" using ps(3) by (simp_all add: list_all_upd)
    then show ?thesis using pipeline_step [of a cfg env s] Suc ps by (simp add: stuck_def)
  qed
qed (auto simp: stuck_def)

definition greeting_held :: "flow_act sched list" where
  "greeting_held = [Spawn [AInitialize (Some waiting_node)]] @ replicate 13 (Run 1) @ [Spawn [ABotStopped], Run 2] @ replicate 10 (Run 0)"

lemma held_back_speech_waits_for_ever:
  assumes "list_all (starts (list_all of_pipeline)) es"
  shows "stuck (sched_run (flow_code plain_config quiet_env) es (flow_run plain_config quiet_env [] greeting_held))"
proof -
  have "snd (flow_run plain_config quiet_env [] greeting_held) = [[ALast actionTTSSay AfterDeferred, ADispatch], [], []] \<and>
      fm_ongoing (fst (flow_run plain_config quiet_env [] greeting_held)) = 1" by code_simp
  then have "stuck (flow_run plain_config quiet_env [] greeting_held)"
    by (cases "flow_run plain_config quiet_env [] greeting_held") (auto simp: stuck_def)
  then show ?thesis by (rule stuck_run [OF assms])
qed

text \<open>
  The mark behind a spoken line is an ordinary control frame. An interruption that takes it leaves the node being
  entered waiting: nothing is in the pipeline, nothing has arrived, and the count never comes down.
\<close>

lemma interruption_stops_entry:
  "let c = flow_run plain_config quiet_env [] ([Spawn [AInitialize (Some speaking_node)]] @ replicate 14 (Run 1) @ [Spawn [AInterrupt [0, 1]], Run 2])
   in snd c = [[ADispatch], [ALast actionTTSSay (AfterPre ByInitialize ''greet'' speaking_node)], []] \<and>
      fm_pipe (fst c) = [] \<and> fm_arrived (fst c) = [] \<and> fm_ongoing (fst c) = 1"
  by code_simp

text \<open>
  A transition waits for the other calls of its turn, but only the result of an edge function looks for it. When the edge
  reports first and a function that stays reports last, the turn is over and the transition is still pending.
\<close>

definition edge_env :: flow_env where
  "edge_env = quiet_env\<lparr>fe_function :=
    (\<lambda>h args st. \<lparr>fa_result = args, fa_next = (if h = 1 then Next (a_node ''next'') else NextNil), fa_state = st, fa_error = None\<rparr>)\<rparr>"

definition a_function :: "string \<Rightarrow> opaque \<Rightarrow> NodeFunction" where
  "a_function i h = \<lparr>nf_Name = i, nf_Description = [], nf_Schema = 0, nf_Handler = Some h, nf_CancelOnInterruption = None, nf_TimeoutSecs = None\<rparr>"

lemma transition_left_pending:
  "let c = flow_run plain_config edge_env [] [Spawn [ACallStarted ''a'', ACallStarted ''b''], Run 1, Run 1,
      Spawn [ACall ''a'' (a_function ''go'' 1) ''x''], Run 2, Run 2, Run 2, Spawn [ACall ''b'' (a_function ''look'' 2) ''y''], Run 3, Run 3,
      Spawn [AWritten], Run 4, Run 4, Run 4, Spawn [AWritten], Run 5]
   in snd c = [[ADispatch], [], [], [], [], []] \<and> fm_calls (fst c) = [] \<and> fm_results (fst c) = [] \<and>
      asks (fm_log (fst c)) = 1 \<and> moves_made (fm_log (fst c)) = 0 \<and> fm_pending (fst c) \<noteq> None"
  by code_simp

text \<open>
  A handler that fails gives back a start it never made when another goroutine started an action meanwhile: the node the
  other one enters goes on while its opening line is still in the pipeline.
\<close>

definition failing_node :: NodeConfig where
  "failing_node = (a_node ''fails'')\<lparr>nc_PreActions := [\<lparr>ac_Type = ''check'', ac_Handler = Some 0, ac_Text = [], ac_AppendTextToContext = None, ac_Params = 0\<rparr>]\<rparr>"

lemma failure_ends_another_action:
  "let c = flow_run plain_config quiet_env [] ([Spawn [AInitialize None], Run 1, Spawn [ASetNode (Some failing_node)]] @ replicate 7 (Run 2) @
      [Spawn [ASetNode (Some speaking_node)]] @ replicate 10 (Run 3) @ replicate 3 (Run 2) @ replicate 6 (Run 3))
   in fm_ongoing (fst c) = 0 \<and> Queued (FSetTools []) \<in> set (fm_log (fst c)) \<and> FSpeak ''Hello'' True \<in> set (fm_pipe (fst c))"
  by code_simp

text \<open>The greeting of a node is spoken before the node's own frames are queued.\<close>

definition calm_env :: flow_env where
  "calm_env = quiet_env\<lparr>fe_action := (\<lambda>h a st. \<lparr>aa_frames = [h], aa_state = st, aa_move = None, aa_error = None\<rparr>)\<rparr>"

definition greeting_spoken :: "flow_act sched list" where
  "greeting_spoken = [Spawn [AInitialize (Some speaking_node)]] @ replicate 12 (Run 1) @ [Spawn [ADeliver, ADeliver], Run 2, Run 2] @ replicate 3 (Run 0)"

theorem actions_done_before_going_on_witness:
  "let c = flow_run plain_config calm_env [] greeting_spoken
   in list_all (\<lambda>f. \<not> is_speech f) (fm_pipe (fst c)) \<and> on_the_way (fst c) = 0 \<and> list_all (\<lambda>p. owes p = 0) (snd c)"
proof -
  let ?c = "flow_run plain_config calm_env [] greeting_spoken"
  let ?k = "AfterPre ByInitialize ''greet'' speaking_node"
  have calm: "handlers_succeed calm_env" by (simp add: handlers_succeed_def calm_env_def)
  have sched: "flow_schedule greeting_spoken" by code_simp
  have at: "snd ?c = [[ADispatch], [ALast actionTTSSay ?k], []]" by code_simp
  have "snd (sched_step (flow_code plain_config calm_env) (Run 1) ?c) \<noteq> snd ?c" by code_simp
  then have moved: "sched_step (flow_code plain_config calm_env) (Run 1) (fst ?c, snd ?c) \<noteq> (fst ?c, snd ?c)" by auto
  have len: "1 < length (snd ?c)" and head: "snd ?c ! 1 = ALast actionTTSSay ?k # []" using at by simp_all
  show ?thesis
    using actions_done_before_going_on [OF calm sched _ len head _ moved] by (simp add: Let_def)
qed


end
