(* ===== verification/Worker_Jobs.thy ===== *)
theory Worker_Jobs
  imports Goroutines "HOL-Library.AList"
begin

text \<open>
  Jobs, the work one worker asks others for: the group that collects the answers (\<^verbatim>\<open>src/pipeline/jobcontext/group.go\<close>,
  \<^verbatim>\<open>context.go\<close>) and the half of a worker that asks for jobs, does them and answers them
  (\<^verbatim>\<open>src/workers/jobs.go\<close>, and \<open>Stop\<close> of \<^verbatim>\<open>src/workers/workers.go\<close>).

  Everything a worker does is a list of actions in the sense of \<open>Goroutines\<close>, cut where its lock or a group's lock is
  released, so that messages on the bus's two goroutines, handlers, timers and the application's own calls interleave.
  The thread that takes a request goes on as the goroutine of its handler: after starting it \<open>handleJobRequest\<close> only
  raises an event. A handler is a list of the answers and reports it sends; one that honours its context stops at the
  next of them when the job is called off. The wait of \<open>stop\<close> for a handler may end at any moment, because it is
  bounded. Messages to other workers are logged as sent.
\<close>

section \<open>A group (jobcontext/group.go)\<close>

datatype job_status = JobCompleted | JobCancelled | JobFailed | JobError

text \<open>A \<open>map[string]any\<close> that is only carried: nil, empty or some value.\<close>

datatype payload = NilMap | EmptyMap | MapValue opaque

definition orEmpty :: "payload \<Rightarrow> payload" where
  "orEmpty p = (if p = NilMap then EmptyMap else p)"

datatype event_kind = EventUpdate | EventStreamStart | EventStreamData | EventStreamEnd

record GroupEvent =
  ge_Type :: event_kind
  ge_WorkerName :: string
  ge_Data :: payload

record job_group =
  jg_WorkerNames :: "string list"
  jg_CancelOnError :: bool
  jg_responses :: "(string \<times> payload) list"
  jg_closed :: bool
  jg_err :: "string option"
  jg_events :: "GroupEvent list"
  jg_timeout :: bool

text \<open>A name listed twice is one worker.\<close>

fun each_once :: "string list \<Rightarrow> string list \<Rightarrow> string list" where
  "each_once seen [] = []"
| "each_once seen (n # ns) = (if n \<in> set seen then each_once seen ns else n # each_once (n # seen) ns)"

definition NewGroup :: "string list \<Rightarrow> bool \<Rightarrow> job_group" where
  "NewGroup ns cancelOnError =
    \<lparr>jg_WorkerNames = each_once [] ns, jg_CancelOnError = cancelOnError, jg_responses = [], jg_closed = False, jg_err = None,
     jg_events = [], jg_timeout = False\<rparr>"

definition eventBuffer :: nat where
  "eventBuffer = 64"

definition group_SetResponse :: "string \<Rightarrow> payload \<Rightarrow> job_group \<Rightarrow> job_group" where
  "group_SetResponse n p g = g\<lparr>jg_responses := AList.update n p (jg_responses g)\<rparr>"

definition group_Response :: "string \<Rightarrow> job_group \<Rightarrow> payload option" where
  "group_Response n g = map_of (jg_responses g) n"

text \<open>\<open>Report\<close>: never blocks; with the buffer full the event is dropped.\<close>

definition group_Report :: "GroupEvent \<Rightarrow> job_group \<Rightarrow> job_group" where
  "group_Report e g =
    (if jg_closed g \<or> length (jg_events g) \<ge> eventBuffer then g else g\<lparr>jg_events := jg_events g @ [e]\<rparr>)"

definition group_finish :: "string option \<Rightarrow> job_group \<Rightarrow> job_group" where
  "group_finish err g = (if jg_closed g then g else g\<lparr>jg_closed := True, jg_err := err\<rparr>)"

definition group_Complete :: "job_group \<Rightarrow> job_group" where
  "group_Complete g = group_finish None g"

definition group_Fail :: "string \<Rightarrow> job_group \<Rightarrow> job_group" where
  "group_Fail reason g = group_finish (Some reason) g"

definition group_CancelTimeout :: "job_group \<Rightarrow> job_group" where
  "group_CancelTimeout g = g\<lparr>jg_timeout := False\<rparr>"

text \<open>\<open>Wait\<close>: what it reports once the group is done, nothing while it is not.\<close>

definition group_Wait :: "job_group \<Rightarrow> string option option" where
  "group_Wait g = (if jg_closed g then Some (jg_err g) else None)"

definition respondedToAll :: "job_group \<Rightarrow> bool" where
  "respondedToAll g = list_all (\<lambda>n. map_of (jg_responses g) n \<noteq> None) (jg_WorkerNames g)"

section \<open>The worker's half\<close>

datatype job_msg =
    MRequest string string payload
  | MResponse string job_status payload bool
  | MUpdate string payload bool
  | MUpdateRequest string
  | MCancel string string
  | MStreamStart string payload
  | MStreamData string payload
  | MStreamEnd string payload

record job_request =
  rq_JobID :: string
  rq_JobName :: string
  rq_From :: string
  rq_Payload :: payload

text \<open>What a handler sends back.\<close>

datatype job_call =
    CallRespond "job_status option" payload bool
  | CallUpdate payload bool
  | CallStreamStart payload
  | CallStreamData payload
  | CallStreamEnd payload

text \<open>
  A running handler: its number, the request, the handler declared for it (none: the \<open>OnJobRequest\<close> hook), the turn it
  waits for and the turn it gives on, and which way its select goes when both are ready.
\<close>

record job_run =
  jr_number :: nat
  jr_request :: job_request
  jr_handler :: "opaque option"
  jr_wait :: "nat option"
  jr_release :: "nat option"
  jr_prefersCancel :: bool

datatype job_event =
    SentTo string job_msg
  | Began nat string
  | Ended nat
  | NoActiveJob string
  | NotReady
  | OnJobResponse string string
  | OnJobUpdate string string
  | OnJobUpdateRequested string string
  | OnJobCompleted string "(string \<times> payload) list"
  | OnJobError string string
  | OnJobCancelled string
  | OnJobStream event_kind string string
  | GroupOver string "string option"

record job_worker =
  wk_activeJobs :: "(string \<times> job_request) list"
  wk_jobHandlers :: "(string \<times> nat) list"
  wk_groups :: "string list"
  wk_store :: "(string \<times> job_group) list"
  wk_handlers :: "(string \<times> opaque \<times> bool) list"
  wk_sequential :: "(string \<times> nat) list"
  wk_turnsGiven :: "nat list"
  wk_cancelled :: "nat list"
  wk_nextTurn :: nat
  wk_nextRun :: nat
  wk_nextID :: nat
  wk_finished :: bool
  wk_log :: "job_event list"

record job_env =
  je_calls :: "opaque option \<Rightarrow> job_request \<Rightarrow> job_call list"
  je_honours :: "opaque option \<Rightarrow> bool"
  je_jobID :: "nat \<Rightarrow> string"

definition new_worker :: "(string \<times> opaque \<times> bool) list \<Rightarrow> job_worker" where
  "new_worker hs =
    \<lparr>wk_activeJobs = [], wk_jobHandlers = [], wk_groups = [], wk_store = [], wk_handlers = hs, wk_sequential = [],
     wk_turnsGiven = [], wk_cancelled = [], wk_nextTurn = 0, wk_nextRun = 0, wk_nextID = 0, wk_finished = False, wk_log = []\<rparr>"

text \<open>\<open>HandleJob\<close>: a second handler for a name is a panic.\<close>

definition HandleJob :: "string \<Rightarrow> bool \<Rightarrow> opaque \<Rightarrow> job_worker \<Rightarrow> job_worker option" where
  "HandleJob n seq fn w =
    (if map_of (wk_handlers w) n \<noteq> None then None else Some (w\<lparr>wk_handlers := wk_handlers w @ [(n, fn, seq)]\<rparr>))"

definition jlog :: "job_event \<Rightarrow> job_worker \<Rightarrow> job_worker" where
  "jlog e w = w\<lparr>wk_log := wk_log w @ [e]\<rparr>"

definition on_group :: "(job_group \<Rightarrow> job_group) \<Rightarrow> string \<Rightarrow> job_worker \<Rightarrow> job_worker" where
  "on_group f i w =
    (case map_of (wk_store w) i of None \<Rightarrow> w | Some g \<Rightarrow> w\<lparr>wk_store := AList.update i (f g) (wk_store w)\<rparr>)"

datatype job_act =
    JReceive string job_msg bool
  | JTurn job_run
  | JHandler job_run "job_call list"
  | JRelease job_run
  | JForgetHandler job_run
  | JCall string job_call
  | JSend string job_msg
  | JForget string
  | JStopHandler string
  | JCancelled string
  | JRequestGroup "string list" string payload bool bool bool
  | JCancelGroup string string
  | JStopTimeout string
  | JFail string string
  | JTimer string
  | JReport string GroupEvent
  | JFailedAnswer string string payload
  | JErrored string string
  | JTrack string string payload
  | JAnswer string string payload
  | JCheckAll string
  | JComplete string
  | JStop
  | JStopJobs
  | JStopHandlers
  | JFinished

section \<open>Doing a job\<close>

text \<open>\<open>handleJobRequest\<close>.\<close>

definition handleJobRequest :: "job_env \<Rightarrow> job_request \<Rightarrow> bool \<Rightarrow> job_worker \<Rightarrow> job_worker \<times> job_act list" where
  "handleJobRequest env m pick w =
    (let h = (if rq_JobName m = [] then None else map_of (wk_handlers w) (rq_JobName m));
         seq = (case h of Some (fn, s) \<Rightarrow> s | None \<Rightarrow> False);
         r = \<lparr>jr_number = wk_nextRun w, jr_request = m, jr_handler = map_option fst h,
              jr_wait = (if seq then map_of (wk_sequential w) (rq_JobName m) else None),
              jr_release = (if seq then Some (wk_nextTurn w) else None), jr_prefersCancel = pick\<rparr>
     in (w\<lparr>wk_activeJobs := AList.update (rq_JobID m) m (wk_activeJobs w),
           wk_sequential := (if seq then AList.update (rq_JobName m) (wk_nextTurn w) (wk_sequential w) else wk_sequential w),
           wk_nextTurn := (if seq then wk_nextTurn w + 1 else wk_nextTurn w),
           wk_nextRun := wk_nextRun w + 1,
           wk_jobHandlers := AList.update (rq_JobID m) (wk_nextRun w) (wk_jobHandlers w)\<rparr>,
         [JTurn r]))"

text \<open>What \<open>runJobHandler\<close> does on its way out, whatever happened.\<close>

definition handler_exit :: "job_run \<Rightarrow> job_act list" where
  "handler_exit r = [JRelease r, JForgetHandler r]"

text \<open>\<open>runJobHandler\<close>: the wait for the request's turn, which the job being called off ends.\<close>

definition runJobHandler :: "job_env \<Rightarrow> job_run \<Rightarrow> job_worker \<Rightarrow> job_worker \<times> job_act list" where
  "runJobHandler env r w =
    (let ready = (case jr_wait r of None \<Rightarrow> True | Some t \<Rightarrow> t \<in> set (wk_turnsGiven w));
         off = (jr_wait r \<noteq> None \<and> jr_number r \<in> set (wk_cancelled w))
     in if off \<and> (\<not> ready \<or> jr_prefersCancel r) then (w, handler_exit r)
        else if ready
        then (jlog (Began (jr_number r) (rq_JobName (jr_request r))) w, [JHandler r (je_calls env (jr_handler r) (jr_request r))])
        else (w, [JTurn r]))"

definition handler_step :: "job_env \<Rightarrow> job_run \<Rightarrow> job_call list \<Rightarrow> job_worker \<Rightarrow> job_worker \<times> job_act list" where
  "handler_step env r cs w =
    (if je_honours env (jr_handler r) \<and> jr_number r \<in> set (wk_cancelled w) then (jlog (Ended (jr_number r)) w, handler_exit r)
     else case cs of
       [] \<Rightarrow> (jlog (Ended (jr_number r)) w, handler_exit r)
     | c # rest \<Rightarrow> (w, [JCall (rq_JobID (jr_request r)) c, JHandler r rest]))"

definition release_turn :: "job_run \<Rightarrow> job_worker \<Rightarrow> job_worker" where
  "release_turn r w = (case jr_release r of None \<Rightarrow> w | Some t \<Rightarrow> w\<lparr>wk_turnsGiven := t # wk_turnsGiven w\<rparr>)"

definition forgetJobHandler :: "string \<Rightarrow> job_worker \<Rightarrow> job_worker" where
  "forgetJobHandler i w = w\<lparr>wk_jobHandlers := AList.delete i (wk_jobHandlers w)\<rparr>"

definition forgetActiveJob :: "string \<Rightarrow> job_worker \<Rightarrow> job_worker" where
  "forgetActiveJob i w = w\<lparr>wk_activeJobs := AList.delete i (wk_activeJobs w)\<rparr>"

text \<open>
  \<open>SendJobResponse\<close>, \<open>SendJobUpdate\<close> and the three of a stream: the job must be active; an answer and the end of a
  stream end the worker's part in it.
\<close>

definition send_call :: "string \<Rightarrow> job_call \<Rightarrow> job_worker \<Rightarrow> job_worker \<times> job_act list" where
  "send_call i c w =
    (case map_of (wk_activeJobs w) i of
       None \<Rightarrow> (jlog (NoActiveJob i) w, [])
     | Some m \<Rightarrow>
         (w, case c of
            CallRespond st p urgent \<Rightarrow>
              [JSend (rq_From m) (MResponse i (case st of None \<Rightarrow> JobCompleted | Some s \<Rightarrow> s) p urgent), JForget i]
          | CallUpdate p urgent \<Rightarrow> [JSend (rq_From m) (MUpdate i p urgent)]
          | CallStreamStart p \<Rightarrow> [JSend (rq_From m) (MStreamStart i p)]
          | CallStreamData p \<Rightarrow> [JSend (rq_From m) (MStreamData i p)]
          | CallStreamEnd p \<Rightarrow> [JSend (rq_From m) (MStreamEnd i p), JForget i]))"

text \<open>\<open>handleJobCancel\<close>: the handler is stopped, the worker told, the requester answered.\<close>

definition handleJobCancel :: "string \<Rightarrow> job_worker \<Rightarrow> job_worker \<times> job_act list" where
  "handleJobCancel i w =
    (w, if map_of (wk_activeJobs w) i = None then []
        else [JStopHandler i, JCancelled i, JCall i (CallRespond (Some JobCancelled) NilMap False)])"

definition stop_handler :: "string \<Rightarrow> job_worker \<Rightarrow> job_worker" where
  "stop_handler i w =
    (case map_of (wk_jobHandlers w) i of None \<Rightarrow> w | Some r \<Rightarrow> w\<lparr>wk_cancelled := r # wk_cancelled w\<rparr>)"

definition handleJobUpdateRequest :: "string \<Rightarrow> string \<Rightarrow> job_worker \<Rightarrow> job_worker" where
  "handleJobUpdateRequest src i w = (if map_of (wk_activeJobs w) i = None then w else jlog (OnJobUpdateRequested src i) w)"

section \<open>Asking for a job\<close>

text \<open>
  \<open>CreateGroupAndRequestJob\<close>, from \<open>createGroup\<close> on: \<open>ready\<close> says whether the workers were ready in time, \<open>timed\<close>
  whether the request has a timeout. The request goes to every name the caller listed.
\<close>

definition CreateGroupAndRequestJob ::
  "job_env \<Rightarrow> string list \<Rightarrow> string \<Rightarrow> payload \<Rightarrow> bool \<Rightarrow> bool \<Rightarrow> bool \<Rightarrow> job_worker \<Rightarrow> job_worker \<times> job_act list" where
  "CreateGroupAndRequestJob env ns n p cancelOnError timed ready w =
    (if \<not> ready then (jlog NotReady w, [])
     else let i = je_jobID env (wk_nextID w); g = (NewGroup ns cancelOnError)\<lparr>jg_timeout := timed\<rparr>
          in (w\<lparr>wk_nextID := wk_nextID w + 1, wk_groups := i # wk_groups w, wk_store := AList.update i g (wk_store w)\<rparr>,
              map (\<lambda>to. JSend to (MRequest i n p)) ns))"

text \<open>\<open>CancelGroup\<close>: the group is taken under the lock, so that only one call calls it off.\<close>

definition CancelGroup :: "string \<Rightarrow> string \<Rightarrow> job_worker \<Rightarrow> job_worker \<times> job_act list" where
  "CancelGroup i reason w =
    (if i \<notin> set (wk_groups w) then (w, [])
     else (w\<lparr>wk_groups := removeAll i (wk_groups w)\<rparr>,
           JStopTimeout i # map (\<lambda>n. JSend n (MCancel i reason))
             (case map_of (wk_store w) i of None \<Rightarrow> [] | Some g \<Rightarrow> jg_WorkerNames g) @ [JFail i reason]))"

definition fail_group :: "string \<Rightarrow> string \<Rightarrow> job_worker \<Rightarrow> job_worker" where
  "fail_group i reason w = jlog (GroupOver i (Some reason)) (on_group (group_Fail reason) i w)"

text \<open>The timer of \<open>startGroupTimeout\<close>: nothing once it was called off.\<close>

definition group_timer :: "string \<Rightarrow> job_worker \<Rightarrow> job_worker \<times> job_act list" where
  "group_timer i w =
    (w, case map_of (wk_store w) i of
          None \<Rightarrow> []
        | Some g \<Rightarrow> if jg_timeout g then [JCancelGroup i ''timeout''] else [])"

definition reportGroupEvent :: "string \<Rightarrow> GroupEvent \<Rightarrow> job_worker \<Rightarrow> job_worker" where
  "reportGroupEvent i e w = (if i \<in> set (wk_groups w) then on_group (group_Report e) i w else w)"

text \<open>\<open>handleJobResponse\<close>: a failure calls the group off when the group says so, any other answer is recorded.\<close>

definition handleJobResponse :: "string \<Rightarrow> string \<Rightarrow> job_status \<Rightarrow> payload \<Rightarrow> job_worker \<Rightarrow> job_worker \<times> job_act list" where
  "handleJobResponse src i st p w =
    (jlog (OnJobResponse src i) w,
     if st = JobError \<or> st = JobFailed then [JFailedAnswer i src p] else [JTrack i src p])"

definition failed_answer :: "string \<Rightarrow> string \<Rightarrow> payload \<Rightarrow> job_worker \<Rightarrow> job_worker \<times> job_act list" where
  "failed_answer i src p w =
    (case map_of (wk_store w) i of
       Some g \<Rightarrow>
         if i \<in> set (wk_groups w) \<and> jg_CancelOnError g
         then (w, [JAnswer i src p, JErrored i src, JCancelGroup i ''errored''])
         else (w, [JTrack i src p])
     | None \<Rightarrow> (w, [JTrack i src p]))"

text \<open>\<open>trackGroupResponse\<close>: the group is looked up, its answer recorded, and then, under the lock, whether that was the last.\<close>

definition track_lookup :: "string \<Rightarrow> string \<Rightarrow> payload \<Rightarrow> job_worker \<Rightarrow> job_worker \<times> job_act list" where
  "track_lookup i src p w = (w, if i \<in> set (wk_groups w) then [JAnswer i src p, JCheckAll i] else [])"

definition track_check :: "string \<Rightarrow> job_worker \<Rightarrow> job_worker \<times> job_act list" where
  "track_check i w =
    (case map_of (wk_store w) i of
       Some g \<Rightarrow>
         if i \<in> set (wk_groups w) \<and> respondedToAll g
         then (w\<lparr>wk_groups := removeAll i (wk_groups w)\<rparr>, [JStopTimeout i, JComplete i]) else (w, [])
     | None \<Rightarrow> (w, []))"

definition complete_group :: "string \<Rightarrow> job_worker \<Rightarrow> job_worker" where
  "complete_group i w =
    (case map_of (wk_store w) i of
       None \<Rightarrow> w
     | Some g \<Rightarrow> jlog (GroupOver i None) (on_group group_Complete i (jlog (OnJobCompleted i (jg_responses g)) w)))"

section \<open>Messages and the end of the worker\<close>

text \<open>\<open>handleJobMessage\<close>.\<close>

fun handleJobMessage :: "job_env \<Rightarrow> string \<Rightarrow> job_msg \<Rightarrow> bool \<Rightarrow> job_worker \<Rightarrow> job_worker \<times> job_act list" where
  "handleJobMessage env src (MRequest i n p) pick w =
    handleJobRequest env \<lparr>rq_JobID = i, rq_JobName = n, rq_From = src, rq_Payload = p\<rparr> pick w"
| "handleJobMessage env src (MResponse i st p urgent) pick w = handleJobResponse src i st p w"
| "handleJobMessage env src (MUpdate i p urgent) pick w =
    (jlog (OnJobUpdate src i) w, [JReport i \<lparr>ge_Type = EventUpdate, ge_WorkerName = src, ge_Data = p\<rparr>])"
| "handleJobMessage env src (MUpdateRequest i) pick w = (handleJobUpdateRequest src i w, [])"
| "handleJobMessage env src (MCancel i reason) pick w = handleJobCancel i w"
| "handleJobMessage env src (MStreamStart i p) pick w =
    (jlog (OnJobStream EventStreamStart src i) w, [JReport i \<lparr>ge_Type = EventStreamStart, ge_WorkerName = src, ge_Data = p\<rparr>])"
| "handleJobMessage env src (MStreamData i p) pick w =
    (jlog (OnJobStream EventStreamData src i) w, [JReport i \<lparr>ge_Type = EventStreamData, ge_WorkerName = src, ge_Data = p\<rparr>])"
| "handleJobMessage env src (MStreamEnd i p) pick w =
    (jlog (OnJobStream EventStreamEnd src i) w,
     [JReport i \<lparr>ge_Type = EventStreamEnd, ge_WorkerName = src, ge_Data = p\<rparr>, JTrack i src p])"

text \<open>\<open>Stop\<close>: the groups asked for, the jobs being done, the handlers running, in this order.\<close>

definition stop_groups :: "job_worker \<Rightarrow> job_worker \<times> job_act list" where
  "stop_groups w = (w, map (\<lambda>i. JCancelGroup i ''stopped'') (wk_groups w) @ [JStopJobs])"

definition stop_jobs :: "job_worker \<Rightarrow> job_worker \<times> job_act list" where
  "stop_jobs w =
    (w, map (\<lambda>m. JCall (fst m) (CallRespond (Some JobCancelled) NilMap False)) (wk_activeJobs w) @ [JStopHandlers])"

definition takeRunningJobs :: "job_worker \<Rightarrow> job_worker \<times> job_act list" where
  "takeRunningJobs w =
    (w\<lparr>wk_jobHandlers := [], wk_cancelled := map snd (wk_jobHandlers w) @ wk_cancelled w\<rparr>, [JFinished])"

fun job_code :: "job_env \<Rightarrow> (job_act, job_worker) code" where
  "job_code env (JReceive src m pick) w = handleJobMessage env src m pick w"
| "job_code env (JTurn r) w = runJobHandler env r w"
| "job_code env (JHandler r cs) w = handler_step env r cs w"
| "job_code env (JRelease r) w = (release_turn r w, [])"
| "job_code env (JForgetHandler r) w = (forgetJobHandler (rq_JobID (jr_request r)) w, [])"
| "job_code env (JCall i c) w = send_call i c w"
| "job_code env (JSend to m) w = (jlog (SentTo to m) w, [])"
| "job_code env (JForget i) w = (forgetActiveJob i w, [])"
| "job_code env (JStopHandler i) w = (stop_handler i w, [])"
| "job_code env (JCancelled i) w = (jlog (OnJobCancelled i) w, [])"
| "job_code env (JRequestGroup ns n p coe timed ready) w = CreateGroupAndRequestJob env ns n p coe timed ready w"
| "job_code env (JCancelGroup i reason) w = CancelGroup i reason w"
| "job_code env (JStopTimeout i) w = (on_group group_CancelTimeout i w, [])"
| "job_code env (JFail i reason) w = (fail_group i reason w, [])"
| "job_code env (JTimer i) w = group_timer i w"
| "job_code env (JReport i e) w = (reportGroupEvent i e w, [])"
| "job_code env (JFailedAnswer i src p) w = failed_answer i src p w"
| "job_code env (JErrored i src) w = (jlog (OnJobError src i) w, [])"
| "job_code env (JTrack i src p) w = track_lookup i src p w"
| "job_code env (JAnswer i src p) w = (on_group (group_SetResponse src (orEmpty p)) i w, [])"
| "job_code env (JCheckAll i) w = track_check i w"
| "job_code env (JComplete i) w = (complete_group i w, [])"
| "job_code env JStop w = stop_groups w"
| "job_code env JStopJobs w = stop_jobs w"
| "job_code env JStopHandlers w = takeRunningJobs w"
| "job_code env JFinished w = (w\<lparr>wk_finished := True\<rparr>, [])"

lemmas job_step_defs =
  handleJobRequest_def runJobHandler_def handler_step_def handler_exit_def release_turn_def forgetJobHandler_def forgetActiveJob_def
  send_call_def handleJobCancel_def stop_handler_def handleJobUpdateRequest_def CreateGroupAndRequestJob_def CancelGroup_def
  fail_group_def group_timer_def reportGroupEvent_def handleJobResponse_def failed_answer_def track_lookup_def track_check_def
  complete_group_def stop_groups_def stop_jobs_def takeRunningJobs_def

end
