(* ===== verification/Job_Properties.thy ===== *)
theory Job_Properties
  imports Worker_Jobs
begin

text \<open>
  What asking for jobs and doing them guarantees under every interleaving of messages, handlers, timers and calls of the
  application: a group is over exactly once and completed only with every answer; when nothing is under way, a group is
  either still waiting for an answer or over; requests for a sequential job run one at a time as long as none of them is
  called off. And where the guarantees end.
\<close>

declare job_step_defs [simp]

section \<open>Groups and what is under way for them\<close>

definition ends_of :: "string \<Rightarrow> job_event list \<Rightarrow> nat" where
  "ends_of i l = length (filter (\<lambda>e. case e of GroupOver j r \<Rightarrow> j = i | _ \<Rightarrow> False) l)"

fun act_ends :: "string \<Rightarrow> job_act \<Rightarrow> nat" where
  "act_ends i (JComplete j) = (if j = i then 1 else 0)"
| "act_ends i (JFail j r) = (if j = i then 1 else 0)"
| "act_ends i _ = 0"

definition will_end :: "string \<Rightarrow> job_act list \<Rightarrow> nat" where
  "will_end i p = sum_list (map (act_ends i) p)"

definition group_running :: "string \<Rightarrow> job_worker \<Rightarrow> nat" where
  "group_running i w = (if i \<in> set (wk_groups w) then 1 else 0)"

definition known :: "string \<Rightarrow> job_worker \<Rightarrow> nat" where
  "known i w = (if map_of (wk_store w) i = None then 0 else 1)"

lemma ends_of_simps [simp]:
  "ends_of i [] = 0" "ends_of i (l @ l') = ends_of i l + ends_of i l'"
  "ends_of i (e # l) = (case e of GroupOver j r \<Rightarrow> if j = i then 1 else 0 | _ \<Rightarrow> 0) + ends_of i l"
  by (simp_all add: ends_of_def split: job_event.split)

lemma will_end_simps [simp]:
  "will_end i [] = 0" "will_end i (a # p) = act_ends i a + will_end i p" "will_end i (p @ q) = will_end i p + will_end i q"
  by (simp_all add: will_end_def)

lemma will_end_map [simp]: "(\<And>x. act_ends i (f x) = 0) \<Longrightarrow> will_end i (map f xs) = 0"
  by (induction xs) simp_all

lemma jlog_fields [simp]:
  "wk_log (jlog e w) = wk_log w @ [e]" "wk_groups (jlog e w) = wk_groups w" "wk_store (jlog e w) = wk_store w"
  "wk_nextID (jlog e w) = wk_nextID w" "wk_turnsGiven (jlog e w) = wk_turnsGiven w" "wk_nextTurn (jlog e w) = wk_nextTurn w"
  "wk_sequential (jlog e w) = wk_sequential w" "wk_cancelled (jlog e w) = wk_cancelled w" "group_running i (jlog e w) = group_running i w"
  "known i (jlog e w) = known i w"
  by (simp_all add: jlog_def group_running_def known_def)

lemma on_group_fields [simp]:
  "wk_log (on_group f i w) = wk_log w" "wk_groups (on_group f i w) = wk_groups w" "wk_nextID (on_group f i w) = wk_nextID w"
  "wk_turnsGiven (on_group f i w) = wk_turnsGiven w" "wk_nextTurn (on_group f i w) = wk_nextTurn w"
  "wk_sequential (on_group f i w) = wk_sequential w" "wk_cancelled (on_group f i w) = wk_cancelled w"
  "group_running j (on_group f i w) = group_running j w"
  by (simp_all add: on_group_def group_running_def split: option.split)

lemma on_group_store [simp]:
  "map_of (wk_store (on_group f i w)) j = (if j = i then map_option f (map_of (wk_store w) i) else map_of (wk_store w) j)"
  by (auto simp: on_group_def update_conv' split: option.split)

lemma on_group_known [simp]: "known j (on_group f i w) = known j w"
  by (simp add: known_def)

text \<open>The identifiers given so far.\<close>

definition ids_given :: "job_env \<Rightarrow> job_worker \<Rightarrow> bool" where
  "ids_given env w \<longleftrightarrow> (\<forall>i. map_of (wk_store w) i \<noteq> None \<longrightarrow> (\<exists>k<wk_nextID w. i = je_jobID env k))"

text \<open>A step neither makes nor loses the end of a group.\<close>

lemma step_ends:
  assumes "inj (je_jobID env)" and "ids_given env w" and "act_ends i a \<le> known i w" and "group_running i w \<le> known i w"
  shows "ends_of i (wk_log (fst (job_code env a w))) + will_end i (snd (job_code env a w)) + group_running i (fst (job_code env a w)) + known i w =
    ends_of i (wk_log w) + act_ends i a + group_running i w + known i (fst (job_code env a w))"
proof (cases a)
  case (JReceive src m pick)
  then show ?thesis by (cases m) (auto simp: Let_def group_running_def known_def)
next
  case (JRequestGroup ns n p coe timed ready)
  have "map_of (wk_store w) (je_jobID env (wk_nextID w)) = None"
    using assms(1,2) unfolding ids_given_def inj_def by (metis less_irrefl_nat)
  then show ?thesis using JRequestGroup assms(4) by (auto simp: Let_def group_running_def known_def update_conv' split: if_splits)
next
  case (JComplete j)
  then show ?thesis using assms(3) by (auto simp: known_def split: option.split if_splits)
qed (use assms in \<open>auto simp: Let_def group_running_def known_def split: option.split list.split job_call.split\<close>)

lemma step_ids:
  assumes "ids_given env w"
  shows "ids_given env (fst (job_code env a w))"
proof (cases a)
  case (JReceive src m pick)
  then show ?thesis using assms by (cases m) (auto simp: Let_def ids_given_def)
next
  case (JRequestGroup ns n p coe timed ready)
  then show ?thesis using assms by (auto simp: Let_def ids_given_def update_conv' less_Suc_eq)
qed (use assms in \<open>auto simp: Let_def ids_given_def jlog_def split: option.split list.split job_call.split\<close>)

text \<open>A group that is over is closed, and no other is.\<close>

definition closed_when_over :: "job_worker \<Rightarrow> bool" where
  "closed_when_over w \<longleftrightarrow> (\<forall>i g. map_of (wk_store w) i = Some g \<longrightarrow> jg_closed g = (ends_of i (wk_log w) > 0))"

lemma group_ops [simp]:
  "jg_closed (group_SetResponse n p g) = jg_closed g" "jg_WorkerNames (group_SetResponse n p g) = jg_WorkerNames g"
  "jg_closed (group_Report e g) = jg_closed g" "jg_WorkerNames (group_Report e g) = jg_WorkerNames g"
  "jg_responses (group_Report e g) = jg_responses g"
  "jg_closed (group_CancelTimeout g) = jg_closed g" "jg_WorkerNames (group_CancelTimeout g) = jg_WorkerNames g"
  "jg_responses (group_CancelTimeout g) = jg_responses g"
  "jg_closed (group_Fail r g)" "jg_WorkerNames (group_Fail r g) = jg_WorkerNames g" "jg_responses (group_Fail r g) = jg_responses g"
  "jg_closed (group_Complete g)" "jg_WorkerNames (group_Complete g) = jg_WorkerNames g" "jg_responses (group_Complete g) = jg_responses g"
  by (simp_all add: group_SetResponse_def group_Report_def group_CancelTimeout_def group_Fail_def group_Complete_def group_finish_def)

lemma responded_same [simp]:
  "respondedToAll (group_Report e g) = respondedToAll g" "respondedToAll (group_CancelTimeout g) = respondedToAll g"
  "respondedToAll (group_Fail r g) = respondedToAll g" "respondedToAll (group_Complete g) = respondedToAll g"
  by (simp_all add: respondedToAll_def)

lemma responded_more: "respondedToAll g \<Longrightarrow> respondedToAll (group_SetResponse n p g)"
  by (auto simp: respondedToAll_def group_SetResponse_def update_conv' list_all_iff)

lemma step_closed:
  assumes "closed_when_over w" and "inj (je_jobID env)" and "ids_given env w"
    and "\<And>i. known i w = 0 \<Longrightarrow> ends_of i (wk_log w) = 0"
  shows "closed_when_over (fst (job_code env a w))"
proof (cases a)
  case (JReceive src m pick)
  then show ?thesis using assms by (cases m) (auto simp: Let_def closed_when_over_def)
next
  case (JRequestGroup ns n p coe timed ready)
  have "map_of (wk_store w) (je_jobID env (wk_nextID w)) = None"
    using assms(2,3) unfolding ids_given_def inj_def by (metis less_irrefl_nat)
  then show ?thesis using JRequestGroup assms
    by (auto simp: Let_def closed_when_over_def update_conv' NewGroup_def known_def split: if_splits)
qed (use assms in \<open>auto simp: Let_def closed_when_over_def split: option.split list.split job_call.split if_splits\<close>)

text \<open>An answer recorded is followed by the check whether it was the last one, or by calling the group off.\<close>

definition checks :: "string \<Rightarrow> job_act list \<Rightarrow> bool" where
  "checks i p \<longleftrightarrow> JCheckAll i \<in> set p \<or> (\<exists>r. JCancelGroup i r \<in> set p)"

fun tracked :: "job_act list \<Rightarrow> bool" where
  "tracked [] = True"
| "tracked (JAnswer i src p # q) = (checks i q \<and> tracked q)"
| "tracked (a # q) = tracked q"

definition will_check :: "string \<Rightarrow> job_act list list \<Rightarrow> bool" where
  "will_check i ps \<longleftrightarrow> (\<exists>p\<in>set ps. checks i p)"

definition last_answer_seen :: "job_worker \<times> job_act list list \<Rightarrow> bool" where
  "last_answer_seen c \<longleftrightarrow> (\<forall>i g. i \<in> set (wk_groups (fst c)) \<longrightarrow> map_of (wk_store (fst c)) i = Some g \<longrightarrow> respondedToAll g \<longrightarrow> will_check i (snd c)) \<and>
    list_all tracked (snd c)"

fun no_answer :: "job_act \<Rightarrow> bool" where
  "no_answer (JAnswer i src p) = False"
| "no_answer _ = True"

lemma tracked_append: "list_all no_answer p \<Longrightarrow> tracked (p @ q) = tracked q"
  by (induction p) (auto elim: no_answer.elims)

lemma tracked_Cons: "tracked (a # q) \<Longrightarrow> tracked q"
  by (cases a) auto

lemma step_tracked:
  assumes "tracked as"
  shows "tracked (snd (job_code env a w) @ as)"
proof (cases a)
  case (JReceive src m pick)
  then show ?thesis using assms by (cases m) (auto simp: Let_def)
next
  case (JRequestGroup ns n p coe timed ready)
  then show ?thesis using assms tracked_append [of "map (\<lambda>to. JSend to x) ns" as for x] by (auto simp: Let_def list_all_iff)
next
  case (JCancelGroup i r)
  then show ?thesis using assms tracked_append [of "map (\<lambda>n. JSend n (MCancel i r)) ns" "JFail i r # as" for ns]
    by (auto simp: list_all_iff)
next
  case JStop
  then show ?thesis using assms tracked_append [of "map (\<lambda>i. JCancelGroup i r) ns" "JStopJobs # as" for ns r] by (auto simp: list_all_iff)
next
  case JStopJobs
  then show ?thesis using assms tracked_append [of "map (\<lambda>m. JCall (fst m) c) ns" "JStopHandlers # as" for ns c] by (auto simp: list_all_iff)
qed (use assms in \<open>auto simp: Let_def checks_def split: option.split list.split job_call.split\<close>)

text \<open>A request goes to somebody.\<close>

fun asks_someone :: "job_act \<Rightarrow> bool" where
  "asks_someone (JRequestGroup ns n p coe timed ready) = (ns \<noteq> [])"
| "asks_someone _ = True"

lemma step_asks: "list_all asks_someone (snd (job_code env a w))"
proof (cases a)
  case (JReceive src m pick)
  then show ?thesis by (cases m) (auto simp: Let_def)
qed (auto simp: Let_def list_all_iff split: option.split list.split job_call.split)

lemma new_group_unanswered: "ns \<noteq> [] \<Longrightarrow> \<not> respondedToAll ((NewGroup ns coe)\<lparr>jg_timeout := t\<rparr>)"
  by (cases ns) (auto simp: respondedToAll_def NewGroup_def)

text \<open>Where a running group with all its answers comes from.\<close>

lemma step_answered:
  assumes "i \<in> set (wk_groups (fst (job_code env a w)))" and "map_of (wk_store (fst (job_code env a w))) i = Some g"
    and "respondedToAll g" and "asks_someone a" and "inj (je_jobID env)" and "ids_given env w"
  shows "i \<in> set (wk_groups w) \<and> (\<exists>h. map_of (wk_store w) i = Some h \<and>
    (respondedToAll h \<and> a \<noteq> JCheckAll i \<and> (\<forall>r. a \<noteq> JCancelGroup i r) \<or> (\<exists>src p. a = JAnswer i src p)))"
proof (cases a)
  case (JReceive src m pick)
  then show ?thesis using assms(1-3) by (cases m) (auto simp: Let_def split: if_splits)
next
  case (JRequestGroup ns n p coe timed ready)
  then show ?thesis using assms(1-4) new_group_unanswered [of ns timed coe] by (auto simp: Let_def update_conv' split: if_splits)
qed (use assms(1-3) in \<open>auto simp: Let_def split: option.splits list.splits job_call.splits if_splits\<close>)

lemma will_check_upd:
  assumes "j < length ps" and "ps ! j = a # as" and "will_check i ps" and "a \<noteq> JCheckAll i" and "\<And>r. a \<noteq> JCancelGroup i r"
  shows "will_check i (ps[j := bs @ as])"
proof -
  obtain k where k: "k < length ps" "checks i (ps ! k)" using assms(3) by (auto simp: will_check_def in_set_conv_nth)
  then have "checks i (ps[j := bs @ as] ! k)" using assms by (cases "k = j") (auto simp: checks_def)
  then show ?thesis using k(1) unfolding will_check_def by (metis length_list_update nth_mem)
qed

lemma will_check_here: "j < length ps \<Longrightarrow> checks i p \<Longrightarrow> will_check i (ps[j := p])"
  unfolding will_check_def by (rule bexI [of _ p]) (auto intro: set_update_memI)

text \<open>What holds of a worker and everything under way in it.\<close>

definition groups_ok :: "job_env \<Rightarrow> job_worker \<times> job_act list list \<Rightarrow> bool" where
  "groups_ok env c \<longleftrightarrow> ids_given env (fst c) \<and> closed_when_over (fst c) \<and> last_answer_seen c \<and> list_all (list_all asks_someone) (snd c) \<and>
    (\<forall>i. ends_of i (wk_log (fst c)) + sum_list (map (will_end i) (snd c)) + group_running i (fst c) = known i (fst c))"

lemma groups_step:
  assumes ok: "groups_ok env (w, ps)" and "inj (je_jobID env)" and j: "j < length ps" "ps ! j = a # as"
  shows "groups_ok env (fst (job_code env a w), ps[j := snd (job_code env a w) @ as])"
proof -
  define v where "v = fst (job_code env a w)"
  define bs where "bs = snd (job_code env a w)"
  have mem: "a # as \<in> set ps" using j by (metis nth_mem)
  have ids: "ids_given env w" and cl: "closed_when_over w" and seen: "last_answer_seen (w, ps)" and sm: "list_all (list_all asks_someone) ps"
    and cnt: "\<And>i. ends_of i (wk_log w) + sum_list (map (will_end i) ps) + group_running i w = known i w" using ok by (auto simp: groups_ok_def)
  have a: "asks_someone a" "list_all asks_someone as" "tracked (a # as)" using sm seen mem by (auto simp: list_all_iff last_answer_seen_def)
  have le: "act_ends i a \<le> sum_list (map (will_end i) ps)" for i
    using member_le_sum_list [of "will_end i (a # as)" "map (will_end i) ps"] mem by force
  have "ends_of i (wk_log v) + sum_list (map (will_end i) (ps[j := bs @ as])) + group_running i v = known i v" for i
    using step_ends [OF assms(2) ids, of i a] le [of i] cnt [of i] sum_update [OF j(1), of "will_end i" "bs @ as"] j(2)
    unfolding v_def [symmetric] bs_def [symmetric] by simp
  moreover have "closed_when_over v" unfolding v_def
    by (rule step_closed [OF cl assms(2) ids]) (use cnt in \<open>metis add_is_0\<close>)
  moreover have "ids_given env v" unfolding v_def by (rule step_ids [OF ids])
  moreover have "list_all (list_all asks_someone) (ps[j := bs @ as])" using sm a(2) step_asks [of env a w] by (auto simp: bs_def intro: list_all_upd)
  moreover have "list_all tracked (ps[j := bs @ as])"
    using seen step_tracked [OF tracked_Cons [OF a(3)], of env a w] by (auto simp: bs_def last_answer_seen_def intro: list_all_upd)
  moreover have "will_check i (ps[j := bs @ as])"
    if i: "i \<in> set (wk_groups v)" "map_of (wk_store v) i = Some g" "respondedToAll g" for i g
  proof -
    from step_answered [OF i [unfolded v_def] a(1) assms(2) ids] obtain h where h: "i \<in> set (wk_groups w)" "map_of (wk_store w) i = Some h"
      "respondedToAll h \<and> a \<noteq> JCheckAll i \<and> (\<forall>r. a \<noteq> JCancelGroup i r) \<or> (\<exists>src p. a = JAnswer i src p)" by blast
    from h(3) show ?thesis
    proof
      assume "respondedToAll h \<and> a \<noteq> JCheckAll i \<and> (\<forall>r. a \<noteq> JCancelGroup i r)"
      then show ?thesis using will_check_upd [OF j] seen h by (auto simp: last_answer_seen_def)
    next
      assume "\<exists>src p. a = JAnswer i src p"
      then have "checks i (bs @ as)" using a(3) by (auto simp: checks_def)
      then show ?thesis by (rule will_check_here [OF j(1)])
    qed
  qed
  ultimately show ?thesis by (simp add: groups_ok_def last_answer_seen_def v_def bs_def)
qed

text \<open>The calls from outside: messages from the bus, requests of the application, timers, the end of the worker.\<close>

fun job_outside :: "job_act \<Rightarrow> bool" where
  "job_outside (JReceive src m pick) = True"
| "job_outside (JRequestGroup ns n p coe timed ready) = (ns \<noteq> [])"
| "job_outside (JCancelGroup i r) = True"
| "job_outside (JTimer i) = True"
| "job_outside (JSend to m) = True"
| "job_outside JStop = True"
| "job_outside _ = False"

lemma outside_job:
  assumes "list_all job_outside p"
  shows "list_all asks_someone p" "tracked p" "will_end i p = 0"
  using assms
proof (induction p)
  case (Cons a p)
  case 1 then show ?case using Cons by (cases a) auto
  case 2 then show ?case using Cons by (cases a) auto
  case 3 then show ?case using Cons by (cases a) auto
qed simp_all

abbreviation jobs_run :: "job_env \<Rightarrow> (string \<times> opaque \<times> bool) list \<Rightarrow> job_act sched list \<Rightarrow> job_worker \<times> job_act list list" where
  "jobs_run env hs es \<equiv> sched_run (job_code env) es (new_worker hs, [])"

lemma groups_run:
  assumes "inj (je_jobID env)" and "list_all (starts (list_all job_outside)) es"
  shows "groups_ok env (jobs_run env hs es)"
proof (rule sched_invariant [where P = "groups_ok env", OF assms(2)])
  show "groups_ok env (new_worker hs, [])"
    by (simp add: groups_ok_def new_worker_def ids_given_def closed_when_over_def last_answer_seen_def group_running_def known_def)
  fix w ps p
  assume "groups_ok env (w, ps)" and "list_all job_outside p"
  then show "groups_ok env (w, ps @ [p])"
    using outside_job [of p] by (auto simp: groups_ok_def last_answer_seen_def will_check_def)
qed (use groups_step [OF _ assms(1)] in \<open>auto\<close>)


text \<open>Answers are only added, and a group is completed when they are all there.\<close>

lemma answers_stay:
  assumes "map_of (wk_store w) i = Some g" and "inj (je_jobID env)" and "ids_given env w"
  obtains h where "map_of (wk_store (fst (job_code env a w))) i = Some h" "jg_WorkerNames h = jg_WorkerNames g"
    "respondedToAll g \<Longrightarrow> respondedToAll h"
proof -
  have "\<exists>h. map_of (wk_store (fst (job_code env a w))) i = Some h \<and> jg_WorkerNames h = jg_WorkerNames g \<and> (respondedToAll g \<longrightarrow> respondedToAll h)"
  proof (cases a)
    case (JReceive src m pick)
    then show ?thesis using assms(1) by (cases m) (auto simp: Let_def)
  next
    case (JRequestGroup ns n p coe timed ready)
    have "je_jobID env (wk_nextID w) \<noteq> i" using assms unfolding ids_given_def inj_def by (metis less_irrefl_nat option.distinct(1))
    then show ?thesis using JRequestGroup assms(1) by (auto simp: Let_def update_conv')
  qed (use assms(1) in \<open>auto simp: Let_def responded_more split: option.split list.split job_call.split\<close>)
  then show thesis using that by blast
qed

lemma step_completes:
  assumes "JComplete i \<in> set (snd (job_code env a w))"
  shows "\<exists>g. map_of (wk_store (fst (job_code env a w))) i = Some g \<and> respondedToAll g"
proof (cases a)
  case (JReceive src m pick)
  then show ?thesis using assms by (cases m) (auto simp: Let_def split: if_splits)
qed (use assms in \<open>auto simp: Let_def split: option.splits list.splits job_call.splits if_splits\<close>)

lemma step_completed:
  assumes "OnJobCompleted i rs \<in> set (wk_log (fst (job_code env a w)))" and "OnJobCompleted i rs \<notin> set (wk_log w)"
  shows "a = JComplete i \<and> (\<exists>g. map_of (wk_store w) i = Some g \<and> rs = jg_responses g)"
proof (cases a)
  case (JReceive src m pick)
  then show ?thesis using assms by (cases m) (auto simp: Let_def split: if_splits)
qed (use assms in \<open>auto simp: Let_def split: option.splits list.splits job_call.splits if_splits\<close>)

lemma log_grows: "set (wk_log w) \<subseteq> set (wk_log (fst (job_code env a w)))"
proof (cases a)
  case (JReceive src m pick)
  then show ?thesis by (cases m) (auto simp: Let_def)
qed (auto simp: Let_def split: option.split list.split job_call.split)

definition completed_ok :: "job_worker \<times> job_act list list \<Rightarrow> bool" where
  "completed_ok c \<longleftrightarrow>
    (\<forall>i. (\<exists>p\<in>set (snd c). JComplete i \<in> set p) \<longrightarrow> (\<exists>g. map_of (wk_store (fst c)) i = Some g \<and> respondedToAll g)) \<and>
    (\<forall>i rs. OnJobCompleted i rs \<in> set (wk_log (fst c)) \<longrightarrow> GroupOver i None \<in> set (wk_log (fst c)) \<and>
       (\<exists>g. map_of (wk_store (fst c)) i = Some g \<and> list_all (\<lambda>n. map_of rs n \<noteq> None) (jg_WorkerNames g)))"

lemma completed_step:
  assumes "completed_ok (w, ps)" and "groups_ok env (w, ps)" and "inj (je_jobID env)" and j: "j < length ps" "ps ! j = a # as"
  shows "completed_ok (fst (job_code env a w), ps[j := snd (job_code env a w) @ as])"
proof -
  define v where "v = fst (job_code env a w)"
  have mem: "a # as \<in> set ps" using j by (metis nth_mem)
  have ids: "ids_given env w" using assms(2) by (simp add: groups_ok_def)
  have keep: "\<exists>h. map_of (wk_store v) i = Some h \<and> jg_WorkerNames h = jg_WorkerNames g \<and> (respondedToAll g \<longrightarrow> respondedToAll h)"
    if "map_of (wk_store w) i = Some g" for i g
    using answers_stay [OF that assms(3) ids, of a] unfolding v_def by metis
  have "\<exists>g. map_of (wk_store v) i = Some g \<and> respondedToAll g" if "p \<in> set (ps[j := snd (job_code env a w) @ as])" "JComplete i \<in> set p" for i p
  proof -
    have "JComplete i \<in> set (snd (job_code env a w)) \<or> (\<exists>q\<in>set ps. JComplete i \<in> set q)"
      using that mem by (fastforce dest!: set_update_subset_insert [THEN subsetD])
    then show ?thesis using step_completes [of i env a w] keep assms(1) unfolding v_def completed_ok_def by (metis fst_conv snd_conv)
  qed
  moreover have "GroupOver i None \<in> set (wk_log v) \<and> (\<exists>g. map_of (wk_store v) i = Some g \<and> list_all (\<lambda>n. map_of rs n \<noteq> None) (jg_WorkerNames g))"
    if "OnJobCompleted i rs \<in> set (wk_log v)" for i rs
  proof (cases "OnJobCompleted i rs \<in> set (wk_log w)")
    case True
    then obtain g where "GroupOver i None \<in> set (wk_log w)" "map_of (wk_store w) i = Some g" "list_all (\<lambda>n. map_of rs n \<noteq> None) (jg_WorkerNames g)"
      using assms(1) unfolding completed_ok_def by (metis fst_conv)
    then show ?thesis using keep [of i g] log_grows [of w env a] unfolding v_def by auto
  next
    case False
    from step_completed [OF that [unfolded v_def] this] obtain g where a: "a = JComplete i" "map_of (wk_store w) i = Some g" "rs = jg_responses g"
      by blast
    then have "respondedToAll g" using assms(1) mem by (force simp: completed_ok_def)
    then have "list_all (\<lambda>n. map_of rs n \<noteq> None) (jg_WorkerNames g)" using a(3) by (simp add: respondedToAll_def)
    moreover have "GroupOver i None \<in> set (wk_log v)" using a by (simp add: v_def)
    ultimately show ?thesis using keep [OF a(2)] by auto
  qed
  ultimately show ?thesis unfolding completed_ok_def v_def by auto
qed

lemma completed_run:
  assumes "inj (je_jobID env)" and "list_all (starts (list_all job_outside)) es"
  shows "completed_ok (jobs_run env hs es) \<and> groups_ok env (jobs_run env hs es)"
proof (rule sched_invariant [where P = "\<lambda>c. completed_ok c \<and> groups_ok env c", OF assms(2)])
  show "completed_ok (new_worker hs, []) \<and> groups_ok env (new_worker hs, [])"
    using groups_run [OF assms(1), of "[]" hs] by (simp add: completed_ok_def new_worker_def)
  fix w ps p
  assume ok: "completed_ok (w, ps) \<and> groups_ok env (w, ps)" and p: "list_all job_outside p"
  have "JComplete i \<notin> set p" for i using p by (auto simp: list_all_iff)
  then have "completed_ok (w, ps @ [p])" using ok by (auto simp: completed_ok_def)
  moreover have "groups_ok env (w, ps @ [p])" using ok outside_job [OF p] by (auto simp: groups_ok_def last_answer_seen_def will_check_def)
  ultimately show "completed_ok (w, ps @ [p]) \<and> groups_ok env (w, ps @ [p])" by blast
qed (use completed_step groups_step assms(1) in \<open>auto\<close>)

text \<open>
  C36. A group is reported completed only with the answer of every worker it went to, at most once, and never when it was
  also called off, whatever messages, timers and cancellations race with its last answer.
\<close>

theorem completed_with_every_answer:
  assumes "inj (je_jobID env)" and "list_all (starts (list_all job_outside)) es" and "OnJobCompleted i rs \<in> set (wk_log (fst (jobs_run env hs es)))"
  shows "(\<exists>g. map_of (wk_store (fst (jobs_run env hs es))) i = Some g \<and> list_all (\<lambda>n. map_of rs n \<noteq> None) (jg_WorkerNames g)) \<and>
    ends_of i (wk_log (fst (jobs_run env hs es))) = 1 \<and> (\<forall>r. GroupOver i (Some r) \<notin> set (wk_log (fst (jobs_run env hs es))))"
proof -
  obtain w ps where c: "jobs_run env hs es = (w, ps)" by fastforce
  from completed_run [OF assms(1,2), of hs] c have ok: "completed_ok (w, ps)" "groups_ok env (w, ps)" by simp_all
  have g: "GroupOver i None \<in> set (wk_log w)" "\<exists>g. map_of (wk_store w) i = Some g \<and> list_all (\<lambda>n. map_of rs n \<noteq> None) (jg_WorkerNames g)"
    using ok(1) assms(3) c by (auto simp: completed_ok_def)
  have "ends_of i (wk_log w) + sum_list (map (will_end i) ps) + group_running i w = known i w" using ok(2) by (simp add: groups_ok_def)
  then have le: "ends_of i (wk_log w) \<le> 1" by (simp add: known_def split: if_splits)
  obtain xs ys where l: "wk_log w = xs @ GroupOver i None # ys" using g(1) by (auto simp: in_set_conv_decomp)
  then have zero: "ends_of i xs = 0" "ends_of i ys = 0" using le by auto
  then have "GroupOver i (Some r) \<notin> set xs \<union> set ys" for r by (auto simp: ends_of_def filter_empty_conv)
  then show ?thesis using g(2) l zero c by auto
qed

section \<open>Requests that run one at a time\<close>

fun run_of :: "job_act \<Rightarrow> job_run option" where
  "run_of (JTurn r) = Some r"
| "run_of (JHandler r cs) = Some r"
| "run_of (JRelease r) = Some r"
| "run_of _ = None"

fun past_wait :: "job_act \<Rightarrow> bool" where
  "past_wait (JHandler r cs) = True"
| "past_wait (JRelease r) = True"
| "past_wait _ = False"

definition act_turn :: "nat \<Rightarrow> job_act \<Rightarrow> nat" where
  "act_turn t a = (case run_of a of None \<Rightarrow> 0 | Some r \<Rightarrow> if jr_release r = Some t then 1 else 0)"

definition holds_turn :: "nat \<Rightarrow> job_act list \<Rightarrow> nat" where
  "holds_turn t p = sum_list (map (act_turn t) p)"

lemma holds_turn_simps [simp]:
  "holds_turn t [] = 0" "holds_turn t (a # p) = act_turn t a + holds_turn t p" "holds_turn t (p @ q) = holds_turn t p + holds_turn t q"
  by (simp_all add: holds_turn_def)

lemma holds_turn_map [simp]: "(\<And>x. run_of (f x) = None) \<Longrightarrow> holds_turn t (map f xs) = 0"
  by (induction xs) (simp_all add: act_turn_def)

definition turns_held :: "nat \<Rightarrow> job_act list list \<Rightarrow> nat" where
  "turns_held t ps = sum_list (map (holds_turn t) ps)"

lemma turns_held_simps [simp]: "turns_held t [] = 0" "turns_held t (ps @ [p]) = turns_held t ps + holds_turn t p"
  by (simp_all add: turns_held_def)

lemma turns_held_upd: "j < length ps \<Longrightarrow> turns_held t (ps[j := p]) + holds_turn t (ps ! j) = turns_held t ps + holds_turn t p"
  by (simp add: turns_held_def sum_update)

lemma turns_held_mem: "p \<in> set ps \<Longrightarrow> holds_turn t p \<le> turns_held t ps"
  using member_le_sum_list [of "holds_turn t p" "map (holds_turn t) ps"] by (simp add: turns_held_def)

lemma holds_turn_mem: "a \<in> set p \<Longrightarrow> act_turn t a \<le> holds_turn t p"
  using member_le_sum_list [of "act_turn t a" "map (act_turn t) p"] by (simp add: holds_turn_def)

definition given :: "nat \<Rightarrow> job_worker \<Rightarrow> nat" where
  "given t w = (if t \<in> set (wk_turnsGiven w) then 1 else 0)"

text \<open>
  The turns of a name, with \<open>name\<close> saying which name a turn belongs to: a run waits for the turn just ahead of its own
  among the turns of its name, the table holds the latest of each name.
\<close>

definition just_ahead :: "(nat \<Rightarrow> string) \<Rightarrow> string \<Rightarrow> nat \<Rightarrow> nat option \<Rightarrow> bool" where
  "just_ahead name n t u \<longleftrightarrow> (case u of
     None \<Rightarrow> \<forall>v<t. name v \<noteq> n
   | Some u \<Rightarrow> u < t \<and> name u = n \<and> (\<forall>v. u < v \<longrightarrow> v < t \<longrightarrow> name v \<noteq> n))"

definition run_ok :: "(nat \<Rightarrow> string) \<Rightarrow> job_worker \<Rightarrow> job_act \<Rightarrow> bool" where
  "run_ok name w a \<longleftrightarrow> (\<forall>r t. run_of a = Some r \<longrightarrow> jr_release r = Some t \<longrightarrow>
     t < wk_nextTurn w \<and> name t = rq_JobName (jr_request r) \<and> just_ahead name (name t) t (jr_wait r) \<and>
     (past_wait a \<longrightarrow> (case jr_wait r of None \<Rightarrow> True | Some u \<Rightarrow> u \<in> set (wk_turnsGiven w))))"

definition turns_ok :: "(nat \<Rightarrow> string) \<Rightarrow> job_worker \<times> job_act list list \<Rightarrow> bool" where
  "turns_ok name c \<longleftrightarrow>
    (\<forall>t. turns_held t (snd c) + given t (fst c) = (if t < wk_nextTurn (fst c) then 1 else 0)) \<and>
    (\<forall>n. just_ahead name n (wk_nextTurn (fst c)) (map_of (wk_sequential (fst c)) n)) \<and>
    (\<forall>v u. v \<in> set (wk_turnsGiven (fst c)) \<longrightarrow> u < v \<longrightarrow> name u = name v \<longrightarrow> u \<in> set (wk_turnsGiven (fst c))) \<and>
    list_all (list_all (run_ok name (fst c))) (snd c)"

lemma cancelled_grows: "wk_cancelled (fst (job_code env a w)) = [] \<Longrightarrow> wk_cancelled w = []"
proof (cases a)
  case (JReceive src m pick)
  then show "wk_cancelled (fst (job_code env a w)) = [] \<Longrightarrow> ?thesis" by (cases m) (auto simp: Let_def split: if_splits)
qed (auto simp: Let_def jlog_def on_group_def split: option.splits list.splits job_call.splits if_splits)

text \<open>An action other than taking a request and giving a turn on leaves the turns alone.\<close>

fun plain_turns :: "job_act \<Rightarrow> bool" where
  "plain_turns (JReceive src (MRequest i n p) pick) = False"
| "plain_turns (JRelease r) = False"
| "plain_turns _ = True"

lemma step_plain_turns:
  assumes "plain_turns a"
  shows "wk_turnsGiven (fst (job_code env a w)) = wk_turnsGiven w" "wk_nextTurn (fst (job_code env a w)) = wk_nextTurn w"
    "wk_sequential (fst (job_code env a w)) = wk_sequential w"
    "holds_turn t (snd (job_code env a w)) = act_turn t a"
proof -
  have "wk_turnsGiven (fst (job_code env a w)) = wk_turnsGiven w \<and> wk_nextTurn (fst (job_code env a w)) = wk_nextTurn w \<and>
    wk_sequential (fst (job_code env a w)) = wk_sequential w \<and> holds_turn t (snd (job_code env a w)) = act_turn t a"
  proof (cases a)
    case (JReceive src m pick)
    then show ?thesis using assms by (cases m) (auto simp: Let_def act_turn_def)
  qed (use assms in \<open>auto simp: Let_def act_turn_def split: option.split list.split job_call.split\<close>)
  then show "wk_turnsGiven (fst (job_code env a w)) = wk_turnsGiven w" "wk_nextTurn (fst (job_code env a w)) = wk_nextTurn w"
    "wk_sequential (fst (job_code env a w)) = wk_sequential w" "holds_turn t (snd (job_code env a w)) = act_turn t a" by blast+
qed

lemma step_plain_runs:
  assumes "plain_turns a" and "run_ok name w a" and "wk_cancelled w = []"
  shows "list_all (run_ok name (fst (job_code env a w))) (snd (job_code env a w))"
proof (cases a)
  case (JReceive src m pick)
  then show ?thesis using assms by (cases m) (auto simp: Let_def run_ok_def)
qed (use assms in \<open>auto simp: Let_def run_ok_def list_all_iff split: option.split list.split job_call.split\<close>)

lemma run_ok_keep:
  assumes "run_ok name w a" and "wk_nextTurn w \<le> wk_nextTurn v" and "set (wk_turnsGiven w) \<subseteq> set (wk_turnsGiven v)"
    and "\<And>t. t < wk_nextTurn w \<Longrightarrow> name' t = name t"
  shows "run_ok name' v a"
proof -
  have "just_ahead name' n t u" if "just_ahead name n t u" "t < wk_nextTurn w" for n t u
    using that assms(4) by (auto simp: just_ahead_def split: option.splits)
  then show ?thesis using assms unfolding run_ok_def by (metis (no_types, lifting) less_le_trans option.case_eq_if subsetD)
qed

text \<open>Taking a request for a sequential job takes the next turn of its name.\<close>

lemma turns_request:
  assumes ok: "turns_ok name (w, ps)" and j: "j < length ps" "ps ! j = JReceive src (MRequest i n p) pick # as"
  shows "\<exists>name'. turns_ok name' (fst (job_code env (JReceive src (MRequest i n p) pick) w),
    ps[j := snd (job_code env (JReceive src (MRequest i n p) pick) w) @ as])"
proof -
  let ?a = "JReceive src (MRequest i n p) pick"
  define v where "v = fst (job_code env ?a w)"
  obtain r where r: "snd (job_code env ?a w) = [JTurn r]" "rq_JobName (jr_request r) = n"
    "jr_wait r = (if jr_release r = None then None else map_of (wk_sequential w) n)"
    "jr_release r = None \<and> wk_nextTurn v = wk_nextTurn w \<and> wk_sequential v = wk_sequential w \<or>
     jr_release r = Some (wk_nextTurn w) \<and> wk_nextTurn v = wk_nextTurn w + 1 \<and> wk_sequential v = AList.update n (wk_nextTurn w) (wk_sequential w)"
    "wk_turnsGiven v = wk_turnsGiven w"
    unfolding v_def by (auto simp: Let_def split: option.splits)
  have cnt: "turns_held t (ps[j := [JTurn r] @ as]) = turns_held t ps + act_turn t (JTurn r)" for t
    using turns_held_upd [OF j(1), of t "[JTurn r] @ as"] j(2) by (simp add: act_turn_def)
  have old: "\<And>t. turns_held t ps + given t w = (if t < wk_nextTurn w then 1 else 0)"
    "\<And>n. just_ahead name n (wk_nextTurn w) (map_of (wk_sequential w) n)"
    "\<And>v u. v \<in> set (wk_turnsGiven w) \<Longrightarrow> u < v \<Longrightarrow> name u = name v \<Longrightarrow> u \<in> set (wk_turnsGiven w)"
    "list_all (list_all (run_ok name w)) ps" using ok by (auto simp: turns_ok_def)
  have below: "t < wk_nextTurn w" if "t \<in> set (wk_turnsGiven w)" for t
    using old(1) [of t] that by (simp add: given_def split: if_splits)
  define name' where "name' = (if jr_release r = None then name else name(wk_nextTurn w := n))"
  have same: "t < wk_nextTurn w \<Longrightarrow> name' t = name t" for t by (simp add: name'_def)
  have ahead: "just_ahead name' m (wk_nextTurn w) u" if "just_ahead name m (wk_nextTurn w) u" for m u
    using that same by (auto simp: just_ahead_def split: option.splits)
  have "turns_held t (ps[j := [JTurn r] @ as]) + given t v = (if t < wk_nextTurn v then 1 else 0)" for t
    using cnt [of t] old(1) [of t] r(4,5) by (auto simp: act_turn_def given_def split: if_splits)
  moreover have "just_ahead name' m (wk_nextTurn v) (map_of (wk_sequential v) m)" for m
    using r(4) ahead [OF old(2), of m]
    by (auto simp: update_conv' just_ahead_def name'_def less_Suc_eq split: option.splits if_splits)
  moreover have "u \<in> set (wk_turnsGiven v)" if "x \<in> set (wk_turnsGiven v)" "u < x" "name' u = name' x" for x u
    using that old(3) [of x u] below [of x] same [of x] same [of u] r(5) by auto
  moreover have "run_ok name' v (JTurn r)" using r(2-4) ahead [OF old(2), of n] by (auto simp: run_ok_def name'_def)
  moreover have "list_all (list_all (run_ok name' v)) ps"
    using old(4) run_ok_keep [of name w _ v name'] same r(4,5) by (auto simp: list_all_iff)
  moreover have "list_all (run_ok name' v) as" using calculation(5) j by (metis list.pred_inject(2) list_all_length)
  ultimately have "turns_ok name' (v, ps[j := [JTurn r] @ as])" by (simp add: turns_ok_def list_all_upd)
  then show ?thesis using r(1) v_def by auto
qed

text \<open>A run that is done gives its turn on, and every turn of its name ahead of it has been given already.\<close>

lemma turns_release:
  assumes ok: "turns_ok name (w, ps)" and j: "j < length ps" "ps ! j = JRelease r # as"
  shows "turns_ok name (release_turn r w, ps[j := as])"
proof -
  define v where "v = release_turn r w"
  have old: "\<And>t. turns_held t ps + given t w = (if t < wk_nextTurn w then 1 else 0)"
    "\<And>n. just_ahead name n (wk_nextTurn w) (map_of (wk_sequential w) n)"
    "\<And>v u. v \<in> set (wk_turnsGiven w) \<Longrightarrow> u < v \<Longrightarrow> name u = name v \<Longrightarrow> u \<in> set (wk_turnsGiven w)"
    "list_all (list_all (run_ok name w)) ps" using ok by (auto simp: turns_ok_def)
  have mem: "list_all (run_ok name w) (JRelease r # as)" using old(4) j by (metis list_all_length)
  have v: "wk_nextTurn v = wk_nextTurn w" "wk_sequential v = wk_sequential w"
    "wk_turnsGiven v = (case jr_release r of None \<Rightarrow> wk_turnsGiven w | Some t \<Rightarrow> t # wk_turnsGiven w)"
    by (simp_all add: v_def split: option.split)
  have cnt: "turns_held t (ps[j := as]) + act_turn t (JRelease r) = turns_held t ps" for t
    using turns_held_upd [OF j(1), of t as] j(2) by simp
  have "turns_held t (ps[j := as]) + given t v = (if t < wk_nextTurn v then 1 else 0)" for t
    using cnt [of t] old(1) [of t] v by (auto simp: act_turn_def given_def split: option.splits if_splits)
  moreover have "u \<in> set (wk_turnsGiven v)" if x: "x \<in> set (wk_turnsGiven v)" "u < x" "name u = name x" for x u
  proof (cases "jr_release r = Some x \<and> x \<notin> set (wk_turnsGiven w)")
    case True
    then have r: "just_ahead name (name x) x (jr_wait r)" "case jr_wait r of None \<Rightarrow> True | Some y \<Rightarrow> y \<in> set (wk_turnsGiven w)"
      using mem by (auto simp: run_ok_def)
    then obtain y where y: "jr_wait r = Some y" "y \<in> set (wk_turnsGiven w)" "name y = name x" "u \<le> y"
      using x(2,3) by (auto simp: just_ahead_def not_less split: option.splits) (metis not_less)
    then show ?thesis using old(3) [of y u] x(3) v(3) by (cases "u = y") (auto split: option.split)
  next
    case False
    then show ?thesis using x old(3) [of x u] v(3) by (auto split: option.splits)
  qed
  moreover have "list_all (list_all (run_ok name v)) (ps[j := as])"
  proof -
    have "set (wk_turnsGiven w) \<subseteq> set (wk_turnsGiven v)" using v(3) by (auto split: option.splits)
    then have "run_ok name v b" if "run_ok name w b" for b using run_ok_keep [OF that, of v name] v(1) by simp
    then have "list_all (list_all (run_ok name v)) ps" "list_all (run_ok name v) as" using old(4) mem by (auto simp: list_all_iff)
    then show ?thesis by (rule list_all_upd)
  qed
  ultimately show ?thesis using old(2) v by (simp add: turns_ok_def v_def)
qed

lemma turns_step:
  assumes "wk_cancelled w = [] \<Longrightarrow> \<exists>name. turns_ok name (w, ps)" and j: "j < length ps" "ps ! j = a # as"
    and "wk_cancelled (fst (job_code env a w)) = []"
  shows "\<exists>name. turns_ok name (fst (job_code env a w), ps[j := snd (job_code env a w) @ as])"
proof -
  have off: "wk_cancelled w = []" by (rule cancelled_grows [OF assms(4)])
  then obtain name where ok: "turns_ok name (w, ps)" using assms(1) by blast
  consider "plain_turns a" | src i n p pick where "a = JReceive src (MRequest i n p) pick" | r where "a = JRelease r"
    by (cases a rule: plain_turns.cases) auto
  then show ?thesis
  proof cases
    case 1
    let ?v = "fst (job_code env a w)" and ?bs = "snd (job_code env a w)"
    have runs: "list_all (list_all (run_ok name w)) ps" "list_all (run_ok name w) (a # as)"
      using ok j by (auto simp: turns_ok_def) (metis list_all_length list.pred_inject(2))+
    have "run_ok name ?v b" if "run_ok name w b" for b
      using run_ok_keep [OF that, of ?v name] step_plain_turns(1-3) [OF 1, of env w] by simp
    then have "list_all (list_all (run_ok name ?v)) ps" "list_all (run_ok name ?v) as" using runs by (auto simp: list_all_iff)
    then have "list_all (list_all (run_ok name ?v)) (ps[j := ?bs @ as])"
      using step_plain_runs [OF 1, of name w env] runs(2) off by (simp add: list_all_upd)
    moreover have "turns_held t (ps[j := ?bs @ as]) = turns_held t ps" for t
      using turns_held_upd [OF j(1), of t "?bs @ as"] j(2) step_plain_turns(4) [OF 1, of t env w] by simp
    ultimately have "turns_ok name (?v, ps[j := ?bs @ as])"
      using ok step_plain_turns(1-3) [OF 1, of env w] by (simp add: turns_ok_def given_def)
    then show ?thesis by blast
  next
    case 2
    then show ?thesis using turns_request [OF ok j(1)] j(2) by simp
  next
    case 3
    then show ?thesis using turns_release [OF ok j(1)] j(2) by auto
  qed
qed

lemma turns_run:
  assumes "list_all (starts (list_all job_outside)) es" and "wk_cancelled (fst (jobs_run env hs es)) = []"
  shows "\<exists>name. turns_ok name (jobs_run env hs es)"
proof -
  have "wk_cancelled (fst (jobs_run env hs es)) = [] \<longrightarrow> (\<exists>name. turns_ok name (jobs_run env hs es))"
  proof (rule sched_invariant [where P = "\<lambda>c. wk_cancelled (fst c) = [] \<longrightarrow> (\<exists>name. turns_ok name c)", OF assms(1)])
    show "wk_cancelled (fst (new_worker hs, [])) = [] \<longrightarrow> (\<exists>name. turns_ok name (new_worker hs, []))"
      by (simp add: turns_ok_def new_worker_def given_def just_ahead_def)
    fix w ps p
    assume ok: "wk_cancelled (fst (w, ps)) = [] \<longrightarrow> (\<exists>name. turns_ok name (w, ps))" and p: "list_all job_outside p"
    have none: "run_of a = None" if "a \<in> set p" for a using p that by (cases a) (auto simp: list_all_iff)
    then have "holds_turn t p = 0" "list_all (run_ok name w) p" for t name
      by (auto simp: holds_turn_def act_turn_def run_ok_def list_all_iff)
    then show "wk_cancelled (fst (w, ps @ [p])) = [] \<longrightarrow> (\<exists>name. turns_ok name (w, ps @ [p]))"
      using ok by (auto simp: turns_ok_def)
  qed (use turns_step in \<open>auto\<close>)
  then show ?thesis using assms(2) by blast
qed

text \<open>
  C37. Requests for a job declared sequential run one at a time: as long as no job was called off, no two goroutines are
  ever inside handlers of such requests with the same job name, whatever the order in which they are scheduled.
\<close>

theorem sequential_one_at_a_time:
  assumes "list_all (starts (list_all job_outside)) es" and "jobs_run env hs es = (w, ps)" and "wk_cancelled w = []"
    and "j < length ps" and "k < length ps" and "JHandler r cs \<in> set (ps ! j)" and "JHandler r' cs' \<in> set (ps ! k)"
    and "jr_release r \<noteq> None" and "jr_release r' \<noteq> None" and "rq_JobName (jr_request r) = rq_JobName (jr_request r')"
  shows "j = k"
proof (rule ccontr)
  assume "j \<noteq> k"
  obtain name where ok: "turns_ok name (w, ps)" using turns_run [OF assms(1), of env hs] assms(2,3) by auto
  obtain t t' where t: "jr_release r = Some t" "jr_release r' = Some t'" using assms(8,9) by blast
  have mem: "ps ! j \<in> set ps" "ps ! k \<in> set ps" using assms(4,5) by simp_all
  have runs: "run_ok name w (JHandler r cs)" "run_ok name w (JHandler r' cs')"
    using ok mem assms(6,7) by (auto simp: turns_ok_def list_all_iff)
  have held: "1 \<le> holds_turn t (ps ! j)" "1 \<le> holds_turn t' (ps ! k)"
    using holds_turn_mem [OF assms(6), of t] holds_turn_mem [OF assms(7), of t'] t by (simp_all add: act_turn_def)
  have cnt: "turns_held x ps + given x w \<le> 1" for x using ok by (auto simp: turns_ok_def split: if_splits)
  have two: "holds_turn x (ps ! j) + holds_turn x (ps ! k) \<le> turns_held x ps" for x
  proof -
    have "turns_held x (ps[j := []]) + holds_turn x (ps ! j) = turns_held x ps"
      using turns_held_upd [OF assms(4), of x "[]"] by simp
    moreover have "holds_turn x (ps ! k) \<le> turns_held x (ps[j := []])"
      using \<open>j \<noteq> k\<close> assms(5) by (intro turns_held_mem) (metis length_list_update nth_list_update_neq nth_mem)
    ultimately show ?thesis by linarith
  qed
  have "t \<noteq> t'" using held two [of t] cnt [of t] by auto
  have not_given: "t \<notin> set (wk_turnsGiven w)" "t' \<notin> set (wk_turnsGiven w)"
    using held two [of t] two [of t'] cnt [of t] cnt [of t'] by (auto simp: given_def split: if_splits)
  have later: False if "run_ok name w (JHandler q ds)" "jr_release q = Some b" "name a = name b" "a < b" "a \<notin> set (wk_turnsGiven w)" for q ds a b
    using that ok by (auto simp: run_ok_def just_ahead_def turns_ok_def not_less split: option.splits) (metis not_less order_le_less)
  have "name t = name t'" using runs t assms(10) by (simp add: run_ok_def)
  then show False using later [OF runs(1) t(1), of t'] later [OF runs(2) t(2), of t] not_given \<open>t \<noteq> t'\<close> by (metis linorder_neqE_nat)
qed

section \<open>Runs\<close>

definition a_job_env :: job_env where
  "a_job_env = \<lparr>je_calls = (\<lambda>h m. [CallUpdate EmptyMap False, CallRespond None (MapValue 1) False]), je_honours = (\<lambda>h. True),
    je_jobID = (\<lambda>k. replicate k CHR ''j'')\<rparr>"

lemma a_job_env_ids: "inj (je_jobID a_job_env)"
  by (rule injI) (metis a_job_env_def job_env.select_convs(3) length_replicate)

text \<open>Two workers are asked and answer at the same moment: both answers are recorded before either is checked.\<close>

definition both_answer :: "job_act sched list" where
  "both_answer = [Spawn [JRequestGroup [''a'', ''b''] ''book'' NilMap True True True], Run 0, Run 0, Run 0,
    Spawn [JReceive ''a'' (MResponse [] JobCompleted (MapValue 1) False) False], Spawn [JReceive ''b'' (MResponse [] JobCompleted NilMap True) False],
    Run 1, Run 2, Run 1, Run 2, Run 1, Run 2, Run 2, Run 1, Run 2, Run 2]"


theorem completed_with_every_answer_witness:
  "let w = fst (jobs_run a_job_env [] both_answer)
   in OnJobCompleted [] [(''a'', MapValue 1), (''b'', EmptyMap)] \<in> set (wk_log w) \<and> ends_of [] (wk_log w) = 1 \<and>
      GroupOver [] (Some ''timeout'') \<notin> set (wk_log w)"
proof -
  let ?c = "jobs_run a_job_env [] both_answer"
  have sched: "list_all (starts (list_all job_outside)) both_answer" by code_simp
  have "OnJobCompleted [] [(''a'', MapValue 1), (''b'', EmptyMap)] \<in> set (wk_log (fst ?c))" by code_simp
  with completed_with_every_answer [OF a_job_env_ids sched this] show ?thesis by (simp add: Let_def)
qed

text \<open>Of two requests for a sequential job one is inside its handler; the other is not.\<close>

definition booking :: "string \<Rightarrow> nat \<Rightarrow> nat option \<Rightarrow> job_run" where
  "booking i k u = \<lparr>jr_number = k, jr_request = \<lparr>rq_JobID = i, rq_JobName = ''book'', rq_From = ''a'', rq_Payload = NilMap\<rparr>, jr_handler = Some 0,
    jr_wait = u, jr_release = Some k, jr_prefersCancel = False\<rparr>"

definition ask_booking :: "string \<Rightarrow> job_act list" where
  "ask_booking i = [JReceive ''a'' (MRequest i ''book'' NilMap) False]"

definition two_bookings :: "job_act sched list" where
  "two_bookings = [Spawn (ask_booking ''1''), Spawn (ask_booking ''2''), Run 0, Run 1, Run 1, Run 0, Run 1]"

theorem sequential_one_at_a_time_witness:
  "let ps = snd (jobs_run a_job_env [(''book'', 0, True)] two_bookings)
   in ps ! 0 = [JHandler (booking ''1'' 0 None) (je_calls a_job_env (Some 0) (jr_request (booking ''1'' 0 None)))] \<and>
      \<not> (\<exists>cs. JHandler (booking ''2'' 1 (Some 0)) cs \<in> set (ps ! 1))"
proof -
  let ?c = "jobs_run a_job_env [(''book'', 0, True)] two_bookings"
  have sched: "list_all (starts (list_all job_outside)) two_bookings" by code_simp
  have one: "snd ?c ! 0 = [JHandler (booking ''1'' 0 None) (je_calls a_job_env (Some 0) (jr_request (booking ''1'' 0 None)))]" by code_simp
  have off: "wk_cancelled (fst ?c) = []" and len: "length (snd ?c) = 2" by code_simp+
  have "0 = (1::nat)" if cs: "JHandler (booking ''2'' 1 (Some 0)) cs \<in> set (snd ?c ! 1)" for cs
    by (rule sequential_one_at_a_time [OF sched _ off _ _ _ cs, where r = "booking ''1'' 0 None"
          and cs = "je_calls a_job_env (Some 0) (jr_request (booking ''1'' 0 None))" and j = 0])
      (use one len in \<open>simp_all, simp_all add: booking_def\<close>)
  then show ?thesis using one by (auto simp: Let_def)
qed

section \<open>Where the guarantees end\<close>

text \<open>
  A request that is called off while it waits gives its turn on although the one ahead of it is still running: the
  request behind it starts beside the first.
\<close>

definition third_beside_first :: "job_act sched list" where
  "third_beside_first = [Spawn (ask_booking ''1''), Spawn (ask_booking ''2''), Spawn (ask_booking ''3''), Run 0, Run 1, Run 2, Run 0,
    Spawn [JReceive ''a'' (MCancel ''2'' []) False], Run 3, Run 3, Run 1, Run 1, Run 2]"

lemma called_off_turn_skips_ahead:
  "let (w, ps) = jobs_run a_job_env [(''book'', 0, True)] third_beside_first
   in wk_log w = [Began 0 ''book'', Began 2 ''book''] \<and>
      ps ! 0 = [JHandler (booking ''1'' 0 None) (je_calls a_job_env (Some 0) (jr_request (booking ''1'' 0 None)))] \<and>
      ps ! 2 = [JHandler (booking ''3'' 2 (Some 1)) (je_calls a_job_env (Some 0) (jr_request (booking ''3'' 2 (Some 1))))]"
  by code_simp

text \<open>
  A cancel is a system message and overtakes the request it calls off, which is a data message: it finds no such job and
  is dropped, and the job is done and answered as if nobody had called it off.
\<close>

lemma cancel_overtakes_request:
  "SentTo ''a'' (MResponse ''1'' JobCompleted (MapValue 1) False) \<in> set (wk_log (fst (jobs_run a_job_env [(''book'', 0, True)]
      ([Spawn [JReceive ''a'' (MCancel ''1'' []) False], Run 0, Spawn (ask_booking ''1'')] @ replicate 8 (Run 1)))))"
  by code_simp

text \<open>A worker the caller lists twice is one worker of the group and is asked twice.\<close>

lemma listed_twice_asked_twice:
  "let w = fst (jobs_run a_job_env [] [Spawn [JRequestGroup [''a'', ''a''] ''book'' NilMap True False True], Run 0, Run 0, Run 0])
   in wk_log w = [SentTo ''a'' (MRequest [] ''book'' NilMap), SentTo ''a'' (MRequest [] ''book'' NilMap)] \<and>
      map_option jg_WorkerNames (map_of (wk_store w) []) = Some [''a'']"
  by code_simp

text \<open>A group of no workers has all its answers and is never over.\<close>

lemma group_of_nobody_never_over:
  "let (w, ps) = jobs_run a_job_env [] [Spawn [JRequestGroup [] ''book'' NilMap True False True], Run 0]
   in ps = [[]] \<and> [] \<in> set (wk_groups w) \<and> map_option respondedToAll (map_of (wk_store w) []) = Some True"
  by code_simp

text \<open>With the buffer full it is the new event that is dropped, not the oldest.\<close>

lemma full_buffer_drops_newest: "length (jg_events g) = eventBuffer \<Longrightarrow> jg_events (group_Report e g) = jg_events g"
  by (simp add: group_Report_def)

end
